(* ===== verification/Prelude.thy ===== *)
theory Prelude
  imports Main "HOL-Library.Word"
begin

text \<open>
  The shared vocabulary of the development: the machine types of the C++ sources, the value
  that ends every document iteration, the fact collections the component theories add to, and
  generic lemmas on lists and words that no single component owns.
\<close>

unbundle bit_operations_syntax

section \<open>Machine types\<close>

type_synonym u8 = "8 word"
type_synonym u32 = "32 word"
type_synonym u64 = "64 word"

text \<open>The bytes of a \<open>std::string\<close>, of a stream or of a raw buffer.\<close>

type_synonym bytes = "u8 list"

named_theorems lane_simps "bits of the lanes of a 128-bit register"
named_theorems codec_simps "unfolding rules of the integer codecs"

section \<open>Failing computations\<close>

text \<open>
  A C++ function that may throw, fail an assertion or touch memory outside a buffer returns a
  value of the sum type below; the model never continues past such a point.  \<open>OutOfFuel\<close>
  is no error of the code: it ends a loop whose length depends on the objects it calls, after
  more iterations than any objects that keep their contract allow.
\<close>

datatype cpp_error =
  LogicError
| RuntimeError
| ZExceptionThrown
| AssertFailed
| OutOfBounds
| DoubleFree
| NullPointer
| Thrown int
| OutOfFuel

type_synonym 'a res = "cpp_error + 'a"

definition rbind :: "'a res \<Rightarrow> ('a \<Rightarrow> 'b res) \<Rightarrow> 'b res" where
  "rbind m f = (case m of Inl e \<Rightarrow> Inl e | Inr x \<Rightarrow> f x)"

definition in_bounds :: "'a option \<Rightarrow> 'a res" where
  "in_bounds m = (case m of None \<Rightarrow> Inl OutOfBounds | Some x \<Rightarrow> Inr x)"

lemma rbind_simps [simp]: "rbind (Inl e) f = Inl e" "rbind (Inr x) f = f x"
  by (simp_all add: rbind_def)

lemma in_bounds_simps [simp]: "in_bounds None = Inl OutOfBounds" "in_bounds (Some x) = Inr x"
  by (simp_all add: in_bounds_def)

text \<open>
  A value stored in a signed integer of 32 bits.  Signed arithmetic that overflows is undefined in the
  language; where the model lets it wrap, as the compilers of this code do, the theorems have bounds that exclude it.
\<close>

definition int32 :: "int \<Rightarrow> int" where
  "int32 x = signed_take_bit 31 x"

lemma int32_eq [simp]: "- (2 ^ 31) \<le> x \<Longrightarrow> x < 2 ^ 31 \<Longrightarrow> int32 x = x"
  by (simp add: int32_def signed_take_bit_int_eq_self)

lemma int32_add: "int32 (int32 x + y) = int32 (x + y)"
proof -
  have "take_bit (Suc 31) (int32 x + y) = take_bit (Suc 31) (take_bit (Suc 31) (int32 x) + take_bit (Suc 31) y)"
    by (simp only: take_bit_add)
  also have "take_bit (Suc 31) (int32 x) = take_bit (Suc 31) x" unfolding int32_def by (rule take_bit_signed_take_bit) simp
  finally have "take_bit (Suc 31) (int32 x + y) = take_bit (Suc 31) (x + y)" by (simp only: take_bit_add)
  then show ?thesis unfolding int32_def[of "int32 x + y"] int32_def[of "x + y"]
    by (simp only: signed_take_bit_eq_iff_take_bit_eq)
qed

text \<open>\<open>v[i]\<close> on a vector or an array, with the signed index of the sources.\<close>

definition vec_at :: "'a list \<Rightarrow> int \<Rightarrow> 'a res" where
  "vec_at xs i = (if 0 \<le> i \<and> i < int (length xs) then Inr (xs ! nat i) else Inl OutOfBounds)"

lemma vec_at_int [simp]: "i < length xs \<Longrightarrow> vec_at xs (int i) = Inr (xs ! i)"
  by (simp add: vec_at_def)

lemma vec_at_0 [simp]: "xs \<noteq> [] \<Longrightarrow> vec_at xs 0 = Inr (hd xs)"
  by (simp add: vec_at_def hd_conv_nth)

definition vec_set :: "'a list \<Rightarrow> int \<Rightarrow> 'a \<Rightarrow> 'a list res" where
  "vec_set xs i x = (if 0 \<le> i \<and> i < int (length xs) then Inr (xs[nat i := x]) else Inl OutOfBounds)"

lemma vec_set_int [simp]: "i < length xs \<Longrightarrow> vec_set xs (int i) x = Inr (xs[i := x])"
  by (simp add: vec_set_def)

text \<open>\<open>vector::resize\<close>: cut off at the end or filled up with zeros.\<close>

definition vec_resize :: "nat \<Rightarrow> u32 list \<Rightarrow> u32 list" where
  "vec_resize n xs = take n xs @ replicate (n - length xs) 0"

lemma length_vec_resize [simp]: "length (vec_resize n xs) = n"
  by (simp add: vec_resize_def)

lemma rbind_assoc: "rbind (rbind m f) g = rbind m (\<lambda>x. rbind (f x) g)"
  by (cases m) auto

text \<open>A loop over the elements of a list whose body may fail.\<close>

fun fold_res :: "('a \<Rightarrow> 'b \<Rightarrow> 'a res) \<Rightarrow> 'a \<Rightarrow> 'b list \<Rightarrow> 'a res" where
  "fold_res f acc [] = Inr acc"
| "fold_res f acc (x # xs) = rbind (f acc x) (\<lambda>acc'. fold_res f acc' xs)"

lemma fold_res_append [simp]: "fold_res f acc (xs @ ys) = rbind (fold_res f acc xs) (\<lambda>a. fold_res f a ys)"
  by (induction xs arbitrary: acc) (auto simp: rbind_def split: sum.splits)

section \<open>Option chains\<close>

lemma bind_SomeD: "Option.bind m f = Some y \<Longrightarrow> \<exists>x. m = Some x \<and> f x = Some y"
  by (cases m) auto

section \<open>Lists\<close>

lemma nth_append_length_eq: "i = length xs \<Longrightarrow> (xs @ [y]) ! i = y"
  by simp

lemma concat_map_upt_Suc: "concat (map f [0..<Suc n]) = concat (map f [0..<n]) @ f n"
  by simp

lemma sorted_wrt_less_imp_sorted: "sorted_wrt (<) (xs :: 'a::linorder list) \<Longrightarrow> sorted xs"
  by (rule strict_sorted_imp_sorted)

section \<open>Words\<close>

lemma unat_less_power_iff_bits:
  fixes w :: "'a::len word"
  shows "unat w < 2 ^ n \<longleftrightarrow> (\<forall>m\<ge>n. \<not> bit w m)"
proof -
  have "unat w < 2 ^ n \<longleftrightarrow> take_bit n (unat w) = unat w"
    by (simp add: take_bit_nat_eq_self_iff)
  also have "\<dots> \<longleftrightarrow> take_bit n w = w"
    by (simp add: unsigned_take_bit_eq[symmetric] word_unat_eq_iff)
  also have "\<dots> \<longleftrightarrow> (\<forall>m\<ge>n. \<not> bit w m)"
    by (auto simp: bit_eq_iff bit_take_bit_iff dest: bit_imp_le_length not_le_imp_less)
  finally show ?thesis .
qed

lemma unat_u32: "unat (w :: u32) < 4294967296"
  by (rule order_less_le_trans[OF unsigned_less]) simp

lemma unat_u64: "unat (w :: u64) < 18446744073709551616"
  by (rule order_less_le_trans[OF unsigned_less]) simp

lemma vec_at_uint [simp]: "unat i < length xs \<Longrightarrow> vec_at xs (uint i) = Inr (xs ! unat i)"
  using vec_at_int[of "unat i" xs] by simp

lemma vec_set_uint [simp]: "unat i < length xs \<Longrightarrow> vec_set xs (uint i) x = Inr (xs[unat i := x])"
  using vec_set_int[of "unat i" xs x] by simp

text \<open>Lengths as 32-bit integers.\<close>

lemma sint_of_nat_u32: "n < 2 ^ 31 \<Longrightarrow> sint (of_nat n :: u32) = int n"
  by (simp add: signed_of_nat signed_take_bit_int_eq_self)

lemma unat_of_nat_u32: "n < 2 ^ 31 \<Longrightarrow> unat (of_nat n :: u32) = n"
  by (simp add: unat_of_nat)

text \<open>The masks of base-128 encodings.\<close>

lemma bit_127: "bit (127 :: int) n \<longleftrightarrow> n < 7"
  using bit_mask_iff[of 7 n, where 'a = int] by (simp add: mask_eq_exp_minus_1)

lemma bit_128: "bit (128 :: int) n \<longleftrightarrow> n = 7"
  using bit_exp_iff[of 7 n, where 'a = int] by auto

end
