(* ===== verification/SimdLanes.thy ===== *)
theory SimdLanes
  imports Prelude
begin

text \<open>
  The 128-bit registers of the SSE2 code in
  \<^verbatim>\<open>varint/bitpacking/simdintegratedbitpacking.c\<close>: a register is four lanes of 32 bits, lane 0
  at the lowest address.  The intrinsics the sources call are the operations below (their
  semantics is that of the instruction set); \<open>Delta\<close> and \<open>PrefixSum\<close> are the two inline
  functions of the file, and the section ends with the law that makes the integrated
  differential coding invertible.
\<close>

section \<open>Registers and intrinsics\<close>

datatype m128 = M128 (lane0: u32) (lane1: u32) (lane2: u32) (lane3: u32)

fun lane :: "nat \<Rightarrow> m128 \<Rightarrow> u32" where
  "lane 0 (M128 a b c d) = a"
| "lane (Suc 0) (M128 a b c d) = b"
| "lane (Suc (Suc 0)) (M128 a b c d) = c"
| "lane (Suc (Suc (Suc n))) (M128 a b c d) = d"

definition map_lanes :: "(u32 \<Rightarrow> u32) \<Rightarrow> m128 \<Rightarrow> m128" where
  "map_lanes f r = M128 (f (lane0 r)) (f (lane1 r)) (f (lane2 r)) (f (lane3 r))"

definition zip_lanes :: "(u32 \<Rightarrow> u32 \<Rightarrow> u32) \<Rightarrow> m128 \<Rightarrow> m128 \<Rightarrow> m128" where
  "zip_lanes f r s =
     M128 (f (lane0 r) (lane0 s)) (f (lane1 r) (lane1 s)) (f (lane2 r) (lane2 s)) (f (lane3 r) (lane3 s))"

definition mm_set1_epi32 :: "u32 \<Rightarrow> m128" where
  "mm_set1_epi32 x = M128 x x x x"

definition mm_add_epi32 :: "m128 \<Rightarrow> m128 \<Rightarrow> m128" where
  "mm_add_epi32 = zip_lanes (+)"

definition mm_sub_epi32 :: "m128 \<Rightarrow> m128 \<Rightarrow> m128" where
  "mm_sub_epi32 = zip_lanes (-)"

definition mm_or_si128 :: "m128 \<Rightarrow> m128 \<Rightarrow> m128" where
  "mm_or_si128 = zip_lanes (OR)"

definition mm_and_si128 :: "m128 \<Rightarrow> m128 \<Rightarrow> m128" where
  "mm_and_si128 = zip_lanes (AND)"

definition mm_slli_epi32 :: "m128 \<Rightarrow> nat \<Rightarrow> m128" where
  "mm_slli_epi32 r n = map_lanes (push_bit n) r"

definition mm_srli_epi32 :: "m128 \<Rightarrow> nat \<Rightarrow> m128" where
  "mm_srli_epi32 r n = map_lanes (drop_bit n) r"

text \<open>
  The byte shifts of a whole register.  The sources use 4, 8 and 12 bytes, that is one, two and
  three lanes; the number of lanes is the argument here.
\<close>

fun mm_slli_lanes :: "m128 \<Rightarrow> nat \<Rightarrow> m128" where
  "mm_slli_lanes r 0 = r"
| "mm_slli_lanes r (Suc n) = (case mm_slli_lanes r n of M128 a b c d \<Rightarrow> M128 0 a b c)"

fun mm_srli_lanes :: "m128 \<Rightarrow> nat \<Rightarrow> m128" where
  "mm_srli_lanes r 0 = r"
| "mm_srli_lanes r (Suc n) = (case mm_srli_lanes r n of M128 a b c d \<Rightarrow> M128 b c d 0)"

text \<open>\<open>_mm_shuffle_epi32(r, 0xff)\<close> copies lane 3 into every lane.\<close>

definition mm_shuffle_ff :: "m128 \<Rightarrow> m128" where
  "mm_shuffle_ff r = mm_set1_epi32 (lane3 r)"

section \<open>The two inline functions of the packing code\<close>

definition Delta :: "m128 \<Rightarrow> m128 \<Rightarrow> m128" where
  "Delta cur prev =
     mm_sub_epi32 cur (mm_or_si128 (mm_slli_lanes cur 1) (mm_srli_lanes prev 3))"

definition PrefixSum :: "m128 \<Rightarrow> m128 \<Rightarrow> m128" where
  "PrefixSum cur prev =
     (let tmp1 = mm_add_epi32 (mm_slli_lanes cur 2) cur;
          tmp2 = mm_add_epi32 (mm_slli_lanes tmp1 1) tmp1
      in mm_add_epi32 tmp2 (mm_shuffle_ff prev))"

section \<open>Laws\<close>

lemmas intrinsic_defs =
  mm_add_epi32_def mm_sub_epi32_def mm_or_si128_def mm_and_si128_def mm_slli_epi32_def
  mm_srli_epi32_def zip_lanes_def map_lanes_def mm_set1_epi32_def mm_shuffle_ff_def

lemma lane_cases: "lane l (M128 a b c d) = (if l = 0 then a else if l = 1 then b else if l = 2 then c else d)"
  by (cases "(l, M128 a b c d)" rule: lane.cases) auto

lemma m128_eqI: "(\<And>l. lane l r = lane l s) \<Longrightarrow> r = s"
  by (cases r; cases s) (metis lane.simps)

lemma lane_zip [simp, lane_simps]: "lane l (zip_lanes f r s) = f (lane l r) (lane l s)"
  by (cases r; cases s) (simp add: zip_lanes_def lane_cases)

lemma lane_map [simp, lane_simps]: "lane l (map_lanes f r) = f (lane l r)"
  by (cases r) (simp add: map_lanes_def lane_cases)

lemma lane_set1 [simp, lane_simps]: "lane l (mm_set1_epi32 x) = x"
  by (simp add: mm_set1_epi32_def lane_cases)

lemma lane_or [simp, lane_simps]: "lane l (mm_or_si128 r s) = lane l r OR lane l s"
  by (simp add: mm_or_si128_def)

lemma lane_and [simp, lane_simps]: "lane l (mm_and_si128 r s) = lane l r AND lane l s"
  by (simp add: mm_and_si128_def)

lemma lane_slli [simp, lane_simps]: "lane l (mm_slli_epi32 r n) = push_bit n (lane l r)"
  by (simp add: mm_slli_epi32_def)

lemma lane_srli [simp, lane_simps]: "lane l (mm_srli_epi32 r n) = drop_bit n (lane l r)"
  by (simp add: mm_srli_epi32_def)

text \<open>
  The four differences are those of consecutive integers, the first one against the last
  lane of the previous register.
\<close>

lemma Delta_M128:
  "Delta (M128 a b c d) prev = M128 (a - lane3 prev) (b - a) (c - b) (d - c)"
  by (cases prev) (simp add: Delta_def intrinsic_defs numeral_3_eq_3)

lemma PrefixSum_M128:
  "PrefixSum (M128 a b c d) prev =
     M128 (lane3 prev + a) (lane3 prev + a + b) (lane3 prev + a + b + c) (lane3 prev + a + b + c + d)"
  by (simp add: PrefixSum_def Let_def intrinsic_defs numeral_2_eq_2 algebra_simps)

text \<open>The prefix sum of the differences is the register the differences came from.\<close>

lemma PrefixSum_Delta [simp]: "PrefixSum (Delta cur prev) prev = cur"
  by (cases cur) (simp add: Delta_M128 PrefixSum_M128)

end
