(* ===== verification/PackStmts.thy ===== *)
theory PackStmts
  imports SimdLanes
begin

text \<open>
  What the generated packing functions of \<^verbatim>\<open>varint/bitpacking\<close> are made of: each of them is a
  straight line of statements over a register state, written out statement by statement in
  \<open>IPack\<close>, \<open>IPackMask\<close> and \<open>PlainPack\<close>.  \<open>run_pack\<close> gives the statements their meaning, with a
  load outside the input buffer and a store past the end of the written part as the error
  \<open>None\<close>.  The second half states one schedule of statements as a function of the bit width and
  of the way a value is loaded, and shows bit for bit what it writes: a \<open>locale\<close> keeps what is
  asked of the loading statements, and each family of functions interprets it.  The last section
  is what the unpackers of \<open>IUnpack\<close> and \<open>PlainUnpack\<close> find in a packed block.
\<close>

section \<open>Statements\<close>

text \<open>
  The C variables of a packing function.  \<open>ps_in\<close> and \<open>ps_out\<close> count the registers the
  pointers \<open>in\<close> and \<open>out\<close> have advanced; \<open>ps_mem\<close> is the memory written from the
  original \<open>out\<close> on.
\<close>

record pack_state =
  ps_in :: nat
  ps_out :: nat
  ps_off :: m128
  ps_inreg :: m128
  ps_outreg :: m128
  ps_mem :: "m128 list"

text \<open>
  \<open>LoadDelta\<close> stands for the three statements
  \<open>CurrIn = _mm_loadu_si128(in); InReg = Delta(CurrIn, initOffset); initOffset = CurrIn\<close>, which
  always come together; \<open>LoadIn\<close> for \<open>InReg = _mm_loadu_si128(in)\<close> (width 32);
  \<open>OrShl n\<close> for \<open>OutReg = _mm_or_si128(OutReg, _mm_slli_epi32(InReg, n))\<close>;
  \<open>ShrOut b k\<close> for \<open>OutReg = _mm_srli_epi32(InReg, b - k)\<close>.  The masked packers wrap the loaded
  value in \<open>_mm_and_si128(..., mask)\<close>: the statement \<open>AndIn mask\<close> after the load.
\<close>

datatype pack_stmt =
  LoadDelta | LoadIn | AndIn m128 | IncIn | IncOut | MovOut | OrShl nat | ShrOut nat nat | Store

fun pack_step :: "m128 list \<Rightarrow> pack_stmt \<Rightarrow> pack_state \<Rightarrow> pack_state option" where
  "pack_step inp LoadDelta s =
     (if ps_in s < length inp
      then Some (s\<lparr>ps_inreg := Delta (inp ! ps_in s) (ps_off s), ps_off := inp ! ps_in s\<rparr>)
      else None)"
| "pack_step inp LoadIn s =
     (if ps_in s < length inp then Some (s\<lparr>ps_inreg := inp ! ps_in s\<rparr>) else None)"
| "pack_step inp (AndIn m) s = Some (s\<lparr>ps_inreg := mm_and_si128 (ps_inreg s) m\<rparr>)"
| "pack_step inp IncIn s = Some (s\<lparr>ps_in := Suc (ps_in s)\<rparr>)"
| "pack_step inp IncOut s = Some (s\<lparr>ps_out := Suc (ps_out s)\<rparr>)"
| "pack_step inp MovOut s = Some (s\<lparr>ps_outreg := ps_inreg s\<rparr>)"
| "pack_step inp (OrShl n) s =
     Some (s\<lparr>ps_outreg := mm_or_si128 (ps_outreg s) (mm_slli_epi32 (ps_inreg s) n)\<rparr>)"
| "pack_step inp (ShrOut b k) s = Some (s\<lparr>ps_outreg := mm_srli_epi32 (ps_inreg s) (b - k)\<rparr>)"
| "pack_step inp Store s =
     (if ps_out s < length (ps_mem s) then Some (s\<lparr>ps_mem := (ps_mem s)[ps_out s := ps_outreg s]\<rparr>)
      else if ps_out s = length (ps_mem s) then Some (s\<lparr>ps_mem := ps_mem s @ [ps_outreg s]\<rparr>)
      else None)"

fun pack_exec :: "m128 list \<Rightarrow> pack_stmt list \<Rightarrow> pack_state \<Rightarrow> pack_state option" where
  "pack_exec inp [] s = Some s"
| "pack_exec inp (c # cs) s = Option.bind (pack_step inp c s) (pack_exec inp cs)"

text \<open>No function reads a register before it has written it; the model starts them at zero.\<close>

definition pack_init :: "m128 \<Rightarrow> pack_state" where
  "pack_init off =
     \<lparr>ps_in = 0, ps_out = 0, ps_off = off, ps_inreg = mm_set1_epi32 0,
      ps_outreg = mm_set1_epi32 0, ps_mem = []\<rparr>"

definition run_pack :: "pack_stmt list \<Rightarrow> m128 \<Rightarrow> m128 list \<Rightarrow> m128 list option" where
  "run_pack prog initOffset inp = map_option ps_mem (pack_exec inp prog (pack_init initOffset))"

section \<open>The schedule\<close>

text \<open>
  The statements that pack value \<open>i\<close> with \<open>b\<close> bits, where \<open>ld\<close> loads it: its bits start at
  position \<open>i * b mod 32\<close> of the current output register, and where they reach the end of the
  register, it is stored and the next one starts with the bits left over.
\<close>

definition pack_value :: "pack_stmt list \<Rightarrow> nat \<Rightarrow> nat \<Rightarrow> pack_stmt list" where
  "pack_value ld b i =
     (let p = i * b mod 32 in
      (if i = 0 then ld else IncIn # ld)
      @ (if p = 0 then [MovOut] else [OrShl p])
      @ (if p + b < 32 then []
         else if p + b = 32 then (if i = 31 then [Store] else [Store, IncOut])
         else [Store, IncOut, ShrOut b (p + b - 32)]))"

definition pack_schedule :: "pack_stmt list \<Rightarrow> nat \<Rightarrow> pack_stmt list" where
  "pack_schedule ld b = concat (map (pack_value ld b) [0..<32])"

text \<open>The packers written as loops load the register after the last value as well.\<close>

definition loop_schedule :: "pack_stmt list \<Rightarrow> nat \<Rightarrow> pack_stmt list" where
  "loop_schedule ld b = pack_schedule ld b @ IncOut # IncIn # ld"

definition plain_schedule :: "pack_stmt list \<Rightarrow> nat \<Rightarrow> pack_stmt list" where
  "plain_schedule ld b = (if b \<in> {4, 8, 16} then loop_schedule ld b else pack_schedule ld b)"

definition pack_room :: "nat \<Rightarrow> m128 list \<Rightarrow> bool" where
  "pack_room b inp \<longleftrightarrow> 32 \<le> length inp \<and> (b \<in> {4, 8, 16} \<longrightarrow> 33 \<le> length inp)"

lemma upt_32: "[0..<32] = [0,1,2,3,4,5,6,7,8,9,10,11,12,13,14,15,16,17,18,19,20,21,22,23,24,25,26,27,28,29,30,31]"
  by (simp add: upt_rec)

lemmas schedule_unfold = pack_schedule_def pack_value_def upt_32 Let_def

lemma width_cases:
  fixes b :: nat
  assumes "0 < b" and "b < 32"
  shows "b \<in> {1,2,3,4,5,6,7,8,9,10,11,12,13,14,15,16,17,18,19,20,21,22,23,24,25,26,27,28,29,30,31}"
proof -
  have "b \<in> set [0..<32]" using assms(2) by simp
  with assms(1) show ?thesis unfolding upt_32 by simp
qed

text \<open>\<open>(1U<<b)-1\<close>: the constant of the masks.\<close>

definition low_mask :: "nat \<Rightarrow> u32" where
  "low_mask b = push_bit b 1 - 1"

definition mask_of :: "nat \<Rightarrow> m128" where
  "mask_of b = mm_set1_epi32 (low_mask b)"

lemmas mask_unfold = mask_of_def low_mask_def

lemma bit_low_mask [lane_simps]: "b < 32 \<Longrightarrow> bit (low_mask b) t = (t < b)"
  unfolding low_mask_def by (auto simp: bit_simps simp flip: mask_eq_exp_minus_1 push_bit_eq_mult)

section \<open>What the schedule writes\<close>

text \<open>
  A register whose lanes fit \<open>b\<close> bits, and the bit at position \<open>n\<close> of the stream a lane of the
  registers \<open>ds\<close> packs to.
\<close>

definition fits :: "nat \<Rightarrow> m128 \<Rightarrow> bool" where
  "fits b r \<longleftrightarrow> (\<forall>l<4. unat (lane l r) < 2 ^ b)"

definition stream_bit :: "nat \<Rightarrow> m128 list \<Rightarrow> nat \<Rightarrow> nat \<Rightarrow> bool" where
  "stream_bit b ds l n = bit (lane l (ds ! (n div b))) (n mod b)"

lemma lane_ge_3: "3 \<le> l \<Longrightarrow> lane l r = lane 3 r"
  by (cases r) (simp add: lane_cases)

lemma fits_bit: "fits b r \<Longrightarrow> b \<le> m \<Longrightarrow> \<not> bit (lane l r) m"
proof -
  assume f: "fits b r" and m: "b \<le> m"
  have "unat (lane l r) < 2 ^ b"
  proof (cases "l < 4")
    case False
    then have "lane l r = lane 3 r" by (intro lane_ge_3) simp
    with f show ?thesis by (simp add: fits_def)
  qed (use f in \<open>simp add: fits_def\<close>)
  with m show ?thesis by (simp add: unat_less_power_iff_bits)
qed

lemma stream_bit_value: "j < b \<Longrightarrow> stream_bit b ds l (i * b + j) = bit (lane l (ds ! i)) j"
  by (simp add: stream_bit_def)

text \<open>A register holds the stream from register \<open>q\<close> on, up to (not including) bit \<open>p\<close>.\<close>

definition holds :: "nat \<Rightarrow> m128 list \<Rightarrow> nat \<Rightarrow> nat \<Rightarrow> m128 \<Rightarrow> bool" where
  "holds b ds q p r \<longleftrightarrow> (\<forall>l t. t < 32 \<longrightarrow> bit (lane l r) t = (t < p \<and> stream_bit b ds l (32 * q + t)))"

text \<open>The state when the first \<open>i\<close> of the values \<open>ds\<close> are packed and the offset is \<open>off\<close>.\<close>

definition pack_inv :: "nat \<Rightarrow> m128 list \<Rightarrow> m128 \<Rightarrow> nat \<Rightarrow> pack_state \<Rightarrow> bool" where
  "pack_inv b ds off i s \<longleftrightarrow>
     ps_in s = i - 1 \<and>
     ps_off s = off \<and>
     length (ps_mem s) = i * b div 32 \<and>
     ps_out s = (if i < 32 then i * b div 32 else b - 1) \<and>
     (\<forall>k < length (ps_mem s). holds b ds k 32 (ps_mem s ! k)) \<and>
     (i * b mod 32 \<noteq> 0 \<longrightarrow> holds b ds (i * b div 32) (i * b mod 32) (ps_outreg s))"

lemma pack_exec_append:
  "pack_exec inp (xs @ ys) s = Option.bind (pack_exec inp xs s) (pack_exec inp ys)"
proof (induction xs arbitrary: s)
  case (Cons x xs)
  then show ?case by (cases "pack_step inp x s") auto
qed simp

text \<open>The or of the shifted value extends the register by the value's bits.\<close>

lemma holds_or:
  assumes "holds b ds q p r" and "i * b = 32 * q + p" and "fits b (ds ! i)" and "p < 32"
  shows "holds b ds q (p + b) (mm_or_si128 r (mm_slli_epi32 (ds ! i) p))"
  unfolding holds_def
proof (intro allI impI)
  fix l t :: nat assume t: "t < 32"
  have r: "bit (lane l r) t = (t < p \<and> stream_bit b ds l (32 * q + t))"
    using assms(1) t by (simp add: holds_def)
  have "bit (lane l (ds ! i)) (t - p) = (t < p + b \<and> stream_bit b ds l (32 * q + t))" if "p \<le> t"
  proof (cases "t - p < b")
    case True
    have "32 * q + t = i * b + (t - p)" using assms(2) that by simp
    with True that stream_bit_value[of "t - p" b ds l i] show ?thesis by auto
  next
    case False
    with that fits_bit[OF assms(3)] show ?thesis by auto
  qed
  with r t show "bit (lane l (mm_or_si128 r (mm_slli_epi32 (ds ! i) p))) t
      = (t < p + b \<and> stream_bit b ds l (32 * q + t))"
    by (auto simp: bit_simps)
qed

lemma holds_mov:
  assumes "i * b = 32 * q" and "fits b (ds ! i)"
  shows "holds b ds q b (ds ! i)"
  unfolding holds_def
proof (intro allI impI)
  fix l t :: nat assume "t < 32"
  show "bit (lane l (ds ! i)) t = (t < b \<and> stream_bit b ds l (32 * q + t))"
  proof (cases "t < b")
    case True
    with stream_bit_value[of t b ds l i] assms(1) show ?thesis by simp
  next
    case False
    with fits_bit[OF assms(2)] show ?thesis by auto
  qed
qed

lemma holds_shr:
  assumes "i * b = 32 * q + p" and "fits b (ds ! i)" and "p < 32" and "32 \<le> p + b"
  shows "holds b ds (Suc q) (p + b - 32) (mm_srli_epi32 (ds ! i) (32 - p))"
  unfolding holds_def
proof (intro allI impI)
  fix l t :: nat assume "t < 32"
  have "32 * Suc q + t = i * b + (32 - p + t)" using assms(1,3) by simp
  with stream_bit_value[of "32 - p + t" b ds l i] fits_bit[OF assms(2), of "32 - p + t" l] assms(3,4)
  show "bit (lane l (mm_srli_epi32 (ds ! i) (32 - p))) t
      = (t < p + b - 32 \<and> stream_bit b ds l (32 * Suc q + t))"
    by (cases "32 - p + t < b") (auto simp: bit_simps)
qed

lemma holds_mono: "holds b ds q p r \<Longrightarrow> 32 \<le> p \<Longrightarrow> holds b ds q 32 r"
  by (simp add: holds_def)

lemma div_mod_Suc_mult:
  fixes b i :: nat
  assumes "b < 32"
  shows "Suc i * b div 32 = i * b div 32 + (if i * b mod 32 + b < 32 then 0 else 1)"
    and "Suc i * b mod 32 = (if i * b mod 32 + b < 32 then i * b mod 32 + b else i * b mod 32 + b - 32)"
proof -
  define q p where "q = i * b div 32" and "p = i * b mod 32"
  have e: "Suc i * b = 32 * q + (p + b)" and "p < 32"
    by (simp_all add: q_def p_def)
  have "(32 * q + (p + b)) div 32 = q + (if p + b < 32 then 0 else 1)"
    and "(32 * q + (p + b)) mod 32 = (if p + b < 32 then p + b else p + b - 32)"
    using \<open>p < 32\<close> assms by (auto simp: div_eq_0_iff le_div_geq le_mod_geq)
  then show "Suc i * b div 32 = i * b div 32 + (if i * b mod 32 + b < 32 then 0 else 1)"
    and "Suc i * b mod 32 = (if i * b mod 32 + b < 32 then i * b mod 32 + b else i * b mod 32 + b - 32)"
    unfolding e q_def [symmetric] p_def [symmetric] by simp_all
qed

lemma pack_place:
  assumes "pack_inv b ds off i s" and "fits b (ds ! i)"
    and "ps_inreg s' = ds ! i" and "ps_outreg s' = ps_outreg s"
  shows "\<exists>r. pack_exec inp (if i * b mod 32 = 0 then [MovOut] else [OrShl (i * b mod 32)]) s'
      = Some (s'\<lparr>ps_outreg := r\<rparr>) \<and> holds b ds (i * b div 32) (i * b mod 32 + b) r"
proof (cases "i * b mod 32 = 0")
  case True
  then have "i * b = 32 * (i * b div 32)" by (metis add.right_neutral div_mult_mod_eq mult.commute)
  from holds_mov[OF this assms(2)] True assms(3) show ?thesis by auto
next
  case False
  then have "holds b ds (i * b div 32) (i * b mod 32) (ps_outreg s)"
    using assms(1) by (simp add: pack_inv_def)
  from holds_or[OF this _ assms(2)] False assms(3,4) show ?thesis by auto
qed

lemma last_value_ends_register:
  fixes b :: nat
  assumes "0 < b" and "b < 32"
  shows "31 * b mod 32 + b = 32" and "31 * b div 32 = b - 1"
proof -
  obtain c where c: "b = Suc c" using assms(1) gr0_implies_Suc by blast
  then have e: "31 * b = (31 - c) + 32 * c" using assms(2) by simp
  have "((31 - c) + 32 * c) mod 32 = 31 - c" by (simp only: mod_mult_self2) simp
  moreover have "((31 - c) + 32 * c) div 32 = c" by (simp add: div_mult_self2)
  ultimately show "31 * b mod 32 + b = 32" and "31 * b div 32 = b - 1"
    unfolding e using c assms(2) by simp_all
qed

text \<open>A packed block: the first \<open>b\<close> registers are 32 bits of every lane's stream each.\<close>

definition packed_block :: "nat \<Rightarrow> m128 list \<Rightarrow> m128 list \<Rightarrow> bool" where
  "packed_block b ds out \<longleftrightarrow> b \<le> length out \<and> (\<forall>k<b. holds b ds k 32 (out ! k))"

lemma packed_block_append: "packed_block b ds out \<Longrightarrow> packed_block b ds (out @ rest)"
  by (simp add: packed_block_def nth_append)

text \<open>
  Two packed blocks of the same values and the same length are the same registers, and a masked
  register fits its width.
\<close>

lemma packed_block_unique:
  assumes "packed_block b ds xs" "packed_block b ds ys" "length xs = b" "length ys = b"
  shows "xs = ys"
proof (rule nth_equalityI)
  fix k assume "k < length xs"
  with assms have "holds b ds k 32 (xs ! k)" "holds b ds k 32 (ys ! k)"
    by (simp_all add: packed_block_def)
  then show "xs ! k = ys ! k"
    by (intro m128_eqI bit_word_eqI) (simp add: holds_def)
qed (use assms in simp)

lemma fits_masked: "b < 32 \<Longrightarrow> fits b (mm_and_si128 r (mask_of b))"
  by (auto simp: fits_def unat_less_power_iff_bits mask_of_def bit_simps bit_low_mask)

lemma masked_fits: "b < 32 \<Longrightarrow> fits b r \<Longrightarrow> mm_and_si128 r (mask_of b) = r"
proof (rule m128_eqI, rule bit_word_eqI)
  fix l n :: nat assume "b < 32" and "fits b r"
  then show "bit (lane l (mm_and_si128 r (mask_of b))) n = bit (lane l r) n"
    using fits_bit[of b r n l]
    by (cases "n < b") (auto simp: mask_of_def bit_simps bit_low_mask)
qed

section \<open>Packers\<close>

text \<open>
  What the statements \<open>ld\<close> that load a value have to do: put value \<open>i\<close> of the registers
  \<open>regs off inp\<close> into \<open>InReg\<close>, at the offset \<open>offs off inp i\<close> that the earlier values have left,
  change nothing else, and fail past the end of the input.
\<close>

locale packer =
  fixes ld :: "pack_stmt list"
    and regs :: "m128 \<Rightarrow> m128 list \<Rightarrow> m128 list"
    and offs :: "m128 \<Rightarrow> m128 list \<Rightarrow> nat \<Rightarrow> m128"
  assumes first_offset: "offs off inp 0 = off"
    and load: "ps_in s < length inp \<Longrightarrow> ps_off s = offs off inp (ps_in s) \<Longrightarrow>
      pack_exec inp ld s
        = Some (s\<lparr>ps_inreg := regs off inp ! ps_in s, ps_off := offs off inp (Suc (ps_in s))\<rparr>)"
    and overrun: "length inp \<le> ps_in s \<Longrightarrow> pack_exec inp ld s = None"

context packer
begin

lemma load_value:
  assumes "pack_inv b ds (offs off inp i) i s" and "i < length inp"
  shows "pack_exec inp (if i = 0 then ld else IncIn # ld) s
    = Some (s\<lparr>ps_in := i, ps_inreg := regs off inp ! i, ps_off := offs off inp (Suc i)\<rparr>)"
  using assms load[of s inp off] load[of "s\<lparr>ps_in := i\<rparr>" inp off]
  by (auto simp: pack_inv_def)

lemma pack_value_inv:
  assumes inv: "pack_inv b (regs off inp) (offs off inp i) i s" and len: "32 \<le> length inp"
    and i: "i < 32" and f: "fits b (regs off inp ! i)" and b: "0 < b" "b < 32"
  shows "\<exists>s'. pack_exec inp (pack_value ld b i) s = Some s'
    \<and> pack_inv b (regs off inp) (offs off inp (Suc i)) (Suc i) s'"
proof -
  let ?ds = "regs off inp"
  define p where "p = i * b mod 32"
  define q where "q = i * b div 32"
  define s1 where "s1 = s\<lparr>ps_in := i, ps_inreg := ?ds ! i, ps_off := offs off inp (Suc i)\<rparr>"
  have p: "p < 32" and ib: "i * b = 32 * q + p" by (simp_all add: p_def q_def)
  from pack_place[OF inv f, of s1] obtain r
    where place: "pack_exec inp (if p = 0 then [MovOut] else [OrShl p]) s1 = Some (s1\<lparr>ps_outreg := r\<rparr>)"
      and r: "holds b ?ds q (p + b) r"
    unfolding p_def q_def by (auto simp: s1_def)
  define s2 where "s2 = s1\<lparr>ps_outreg := r\<rparr>"
  define tl where "tl = (if p + b < 32 then []
         else if p + b = 32 then (if i = 31 then [Store] else [Store, IncOut])
         else [Store, IncOut, ShrOut b (p + b - 32)])"
  have "pack_exec inp (if i = 0 then ld else IncIn # ld) s = Some s1"
    using load_value[OF inv] i len by (simp add: s1_def)
  with place have exec: "pack_exec inp (pack_value ld b i) s = pack_exec inp tl s2"
    by (simp only: pack_value_def Let_def pack_exec_append p_def[symmetric] tl_def[symmetric]
          s2_def[symmetric] bind.simps)
  have mem: "length (ps_mem s) = q" "ps_out s = q"
    "\<And>k. k < q \<Longrightarrow> holds b ?ds k 32 (ps_mem s ! k)"
    using inv i by (simp_all add: pack_inv_def q_def)
  have i31: "p + b = 32 \<and> q = b - 1" if "i = 31"
    using last_value_ends_register[OF b] that by (simp add: p_def q_def)
  have shr: "holds b ?ds (Suc q) (p + b - 32) (mm_srli_epi32 (?ds ! i) (b - (p + b - 32)))"
    if "32 < p + b"
  proof -
    have "b - (p + b - 32) = 32 - p" using that p b by simp
    with holds_shr[OF ib f p] that show ?thesis by simp
  qed
  have suc: "Suc i * b div 32 = q + (if p + b < 32 then 0 else 1)"
    "Suc i * b mod 32 = (if p + b < 32 then p + b else p + b - 32)"
    using div_mod_Suc_mult[OF b(2), of i] by (simp_all only: p_def q_def)
  have full: "holds b ?ds q 32 r" if "32 \<le> p + b" using holds_mono[OF r that] .
  have full_mem: "\<forall>k<Suc q. holds b ?ds k 32 ((ps_mem s @ [r]) ! k)" if "32 \<le> p + b"
    using full[OF that] mem by (auto simp: nth_append less_Suc_eq)
  consider "p + b < 32" | "p + b = 32" | "32 < p + b" by linarith
  then show ?thesis
  proof cases
    case 1
    with i31 i have "Suc i < 32" by (cases "i = 31") auto
    with 1 r mem suc exec show ?thesis
      by (simp add: tl_def pack_inv_def s2_def s1_def)
  next
    case 2
    with mem suc exec full_mem i i31 show ?thesis
      by (auto simp: tl_def pack_inv_def s2_def s1_def)
  next
    case 3
    with i31 i have "Suc i < 32" by (cases "i = 31") auto
    with 3 mem suc exec full_mem shr show ?thesis
      by (simp add: tl_def pack_inv_def s2_def s1_def)
  qed
qed

lemma pack_values_inv:
  assumes len: "32 \<le> length inp" and b: "0 < b" "b < 32" and f: "\<forall>i<32. fits b (regs off inp ! i)"
  shows "n \<le> 32 \<Longrightarrow> \<exists>s. pack_exec inp (concat (map (pack_value ld b) [0..<n])) (pack_init off) = Some s
    \<and> pack_inv b (regs off inp) (offs off inp n) n s"
proof (induction n)
  case 0
  show ?case by (simp add: pack_init_def pack_inv_def first_offset)
next
  case (Suc n)
  then obtain s where "pack_exec inp (concat (map (pack_value ld b) [0..<n])) (pack_init off) = Some s"
    and "pack_inv b (regs off inp) (offs off inp n) n s" by auto
  moreover from this(2) Suc.prems f b obtain s' where "pack_exec inp (pack_value ld b n) s = Some s'"
    and "pack_inv b (regs off inp) (offs off inp (Suc n)) (Suc n) s'"
    using pack_value_inv[OF _ len] by (metis Suc_le_lessD)
  ultimately show ?case by (simp add: pack_exec_append)
qed

text \<open>The state a schedule ends in; \<open>b\<close> registers are written.\<close>

lemma pack_schedule_ends:
  assumes "32 \<le> length inp" and "0 < b" "b < 32" and "\<forall>i<32. fits b (regs off inp ! i)"
  shows "\<exists>s. pack_exec inp (pack_schedule ld b) (pack_init off) = Some s \<and> ps_in s = 31
    \<and> ps_off s = offs off inp 32 \<and> length (ps_mem s) = b \<and> packed_block b (regs off inp) (ps_mem s)"
  using pack_values_inv[OF assms, of 32] assms(2,3)
  by (auto simp: pack_schedule_def packed_block_def pack_inv_def)

lemma run_pack_schedule:
  assumes "32 \<le> length inp" and "0 < b" "b < 32" and "\<forall>i<32. fits b (regs off inp ! i)"
  shows "\<exists>out. run_pack (pack_schedule ld b) off inp = Some out \<and> length out = b
    \<and> packed_block b (regs off inp) out"
  using pack_schedule_ends[OF assms] by (auto simp: run_pack_def)

text \<open>The loops write the same registers, and fail on an input of exactly 32 registers.\<close>

lemma run_loop_schedule:
  assumes len: "33 \<le> length inp" and "0 < b" "b < 32" and "\<forall>i<32. fits b (regs off inp ! i)"
  shows "\<exists>out. run_pack (loop_schedule ld b) off inp = Some out \<and> length out = b
    \<and> packed_block b (regs off inp) out"
proof -
  from pack_schedule_ends[OF _ assms(2-4)] len obtain s
    where s: "pack_exec inp (pack_schedule ld b) (pack_init off) = Some s" "ps_in s = 31"
      "ps_off s = offs off inp 32" "length (ps_mem s) = b" "packed_block b (regs off inp) (ps_mem s)"
    by auto
  let ?s = "s\<lparr>ps_out := Suc (ps_out s), ps_in := 32\<rparr>"
  from load[of ?s inp off] len s(3) obtain r o' where
    "pack_exec inp ld ?s = Some (?s\<lparr>ps_inreg := r, ps_off := o'\<rparr>)" by auto
  with s show ?thesis by (simp add: run_pack_def loop_schedule_def pack_exec_append)
qed

lemma run_loop_schedule_overruns:
  assumes "length inp = 32" and "0 < b" "b < 32" and "\<forall>i<32. fits b (regs off inp ! i)"
  shows "run_pack (loop_schedule ld b) off inp = None"
proof -
  from pack_schedule_ends[OF _ assms(2-4)] assms(1) obtain s
    where s: "pack_exec inp (pack_schedule ld b) (pack_init off) = Some s" "ps_in s = 31" by auto
  with assms(1) overrun[of inp "s\<lparr>ps_out := Suc (ps_out s), ps_in := 32\<rparr>"] show ?thesis
    by (simp add: run_pack_def loop_schedule_def pack_exec_append)
qed

text \<open>
  The input a packer needs: the block, and one more register for the loops.  With it, a packer
  writes the block; on the bare block the loops fail.
\<close>

lemma run_plain_schedule:
  assumes room: "pack_room b inp" and b: "0 < b" "b < 32" and f: "\<forall>i<32. fits b (regs off inp ! i)"
  shows "\<exists>out. run_pack (plain_schedule ld b) off inp = Some out \<and> length out = b
    \<and> packed_block b (regs off inp) out"
proof (cases "b \<in> {4, 8, 16}")
  case True
  with room have "33 \<le> length inp" unfolding pack_room_def by blast
  from run_loop_schedule[OF this b f] True show ?thesis by (simp add: plain_schedule_def)
next
  case False
  from room have "32 \<le> length inp" by (simp add: pack_room_def)
  from run_pack_schedule[OF this b f] False show ?thesis by (simp add: plain_schedule_def)
qed

lemma run_plain_schedule_32:
  assumes "length inp = 32" and "0 < b" "b < 32" and "\<forall>i<32. fits b (regs off inp ! i)"
  shows "run_pack (plain_schedule ld b) off inp = None \<longleftrightarrow> b \<in> {4, 8, 16}"
  using run_loop_schedule_overruns[OF assms] run_pack_schedule[of inp b off] assms
  by (auto simp: plain_schedule_def)

end

section \<open>Width 32: the values are copied\<close>

definition copy_value :: "nat \<Rightarrow> pack_stmt list" where
  "copy_value i = (if i = 0 then [LoadIn, MovOut, Store] else [IncOut, IncIn, LoadIn, MovOut, Store])"

lemma copy_values:
  "n \<le> length inp \<Longrightarrow> \<exists>s. pack_exec inp (concat (map copy_value [0..<n])) (pack_init off) = Some s
    \<and> ps_in s = n - 1 \<and> ps_out s = n - 1 \<and> ps_mem s = take n inp"
proof (induction n)
  case 0
  show ?case by (simp add: pack_init_def)
next
  case (Suc n)
  then obtain s where "pack_exec inp (concat (map copy_value [0..<n])) (pack_init off) = Some s"
    and "ps_in s = n - 1" "ps_out s = n - 1" "ps_mem s = take n inp" by auto
  then have e: "pack_exec inp (concat (map copy_value [0..<Suc n])) (pack_init off)
      = pack_exec inp (copy_value n) s" and s: "ps_in s = n - 1" "ps_out s = n - 1" "ps_mem s = take n inp"
    by (simp_all add: pack_exec_append)
  from s Suc.prems show ?case
    unfolding e by (cases n) (auto simp: copy_value_def take_Suc_conv_app_nth)
qed

lemma run_copy_values: "32 \<le> length inp \<Longrightarrow> run_pack (concat (map copy_value [0..<32])) off inp = Some (take 32 inp)"
  using copy_values[of 32 inp off] by (auto simp: run_pack_def)

section \<open>Reading a packed block\<close>

lemma holds_bit:
  "holds b ds q 32 r \<Longrightarrow> n = 32 * q + t \<Longrightarrow> t < 32 \<Longrightarrow> bit (lane l r) t = stream_bit b ds l n"
  by (simp add: holds_def)

text \<open>Extraction of one value, from one register or from two neighbours.\<close>

lemma extract_one:
  assumes r: "holds b ds q 32 r" and ib: "i * b = 32 * q + p" and f: "fits b (ds ! i)"
    and pb: "p + b \<le> 32" and p: "p < 32" and b: "b < 32"
  shows "mm_and_si128 (mm_srli_epi32 r p) (mm_set1_epi32 (low_mask b)) = ds ! i"
    and "p + b = 32 \<Longrightarrow> mm_srli_epi32 r p = ds ! i"
proof -
  have key: "bit (lane l (ds ! i)) t = (t < b \<and> bit (lane l r) (p + t))" for l t
  proof (cases "t < b")
    case True
    then have "i * b + t = 32 * q + (p + t)" and "p + t < 32" using ib pb by simp_all
    from holds_bit[OF r this] stream_bit_value[OF True] True show ?thesis by simp
  next
    case False
    with fits_bit[OF f] show ?thesis by auto
  qed
  show "mm_and_si128 (mm_srli_epi32 r p) (mm_set1_epi32 (low_mask b)) = ds ! i"
    by (rule m128_eqI, rule bit_word_eqI) (use b in \<open>auto simp: key bit_simps bit_low_mask\<close>)
  show "mm_srli_epi32 r p = ds ! i" if "p + b = 32"
    by (rule m128_eqI, rule bit_word_eqI)
      (use that in \<open>auto simp: key bit_simps dest: bit_imp_le_length\<close>)
qed

lemma extract_two:
  assumes r: "holds b ds q 32 r" and r': "holds b ds (Suc q) 32 r'" and ib: "i * b = 32 * q + p"
    and f: "fits b (ds ! i)" and pb: "32 < p + b" and p: "p < 32" and b: "b < 32"
  shows "mm_or_si128 (mm_srli_epi32 r p)
      (mm_and_si128 (mm_slli_epi32 r' (b - (p + b - 32))) (mm_set1_epi32 (low_mask b))) = ds ! i"
proof -
  have sh: "b - (p + b - 32) = 32 - p" using p pb b by simp
  have low: "bit (lane l (ds ! i)) t = bit (lane l r) (p + t)" if "t < 32 - p" for l t
  proof -
    have "i * b + t = 32 * q + (p + t)" and "p + t < 32" and "t < b" using ib that pb by simp_all
    from holds_bit[OF r this(1,2)] stream_bit_value[OF this(3)] show ?thesis by simp
  qed
  have high: "bit (lane l (ds ! i)) t = (t < b \<and> bit (lane l r') (t - (32 - p)))" if "32 - p \<le> t" for l t
  proof (cases "t < b")
    case True
    then have "i * b + t = 32 * Suc q + (t - (32 - p))" and "t - (32 - p) < 32"
      using ib that b p by simp_all
    from holds_bit[OF r' this] stream_bit_value[OF True] True show ?thesis by simp
  next
    case False
    with fits_bit[OF f] show ?thesis by auto
  qed
  show ?thesis
  proof (rule m128_eqI, rule bit_word_eqI)
    fix l t :: nat assume "t < LENGTH(32)"
    then have t: "t < 32" by simp
    show "bit (lane l (mm_or_si128 (mm_srli_epi32 r p)
        (mm_and_si128 (mm_slli_epi32 r' (b - (p + b - 32))) (mm_set1_epi32 (low_mask b))))) t
      = bit (lane l (ds ! i)) t"
    proof (cases "t < 32 - p")
      case True
      then show ?thesis unfolding sh by (simp add: low bit_simps)
    next
      case False
      then have "\<not> bit (lane l r) (p + t)" by (auto dest: bit_imp_le_length)
      with False t b show ?thesis unfolding sh by (auto simp: high bit_simps bit_low_mask)
    qed
  qed
qed

lemma mm_srli_0 [simp]: "mm_srli_epi32 r 0 = r"
  by (rule m128_eqI) simp

lemma packed_register:
  assumes "packed_block b ds inp" and "k < b"
  shows "k < length inp" and "holds b ds k 32 (inp ! k)"
  using assms by (simp_all add: packed_block_def)

text \<open>The register a value starts in, and the one it goes on in, are part of the block.\<close>

lemma value_register: "i < 32 \<Longrightarrow> 0 < b \<Longrightarrow> i * b div 32 < (b :: nat)"
  by (simp add: less_mult_imp_div_less)

lemma register_follows:
  fixes b i :: nat
  assumes b: "0 < b" "b < 32" and i: "i < 32"
    and next_value: "32 < i * b mod 32 + b \<or> i * b mod 32 + b = 32 \<and> i \<noteq> 31"
  shows "Suc (i * b div 32) < b"
proof -
  have "i < 31" using next_value last_value_ends_register[OF b] i by (cases "i = 31") auto
  then have "Suc (Suc i) * b \<le> 32 * b" by (intro mult_le_mono1) simp
  moreover define p q where "p = i * b mod 32" and "q = i * b div 32"
  then have "i * b = 32 * q + p" by simp
  ultimately have "32 * Suc q < 32 * b" using next_value b by (auto simp flip: p_def)
  then show ?thesis by (simp add: q_def)
qed

end
