(* ===== verification/IPack.thy ===== *)
theory IPack
  imports PackStmts
begin

text \<open>
  The 33 functions \<open>ipackwithoutmask0\<close> to \<open>ipackwithoutmask32\<close> of
  \<^verbatim>\<open>varint/bitpacking/simdintegratedbitpacking.c\<close> and their dispatcher
  \<open>simdpackwithoutmaskd1\<close>.  They pack the differences of consecutive values and rely on them to
  fit the width.  Every one of them is the schedule of \<open>PackStmts\<close> at its width.
\<close>

section \<open>The packing functions\<close>

definition ipackwithoutmask0 :: "m128 \<Rightarrow> m128 list \<Rightarrow> m128 list option" where
  "ipackwithoutmask0 = run_pack []"

definition ipackwithoutmask1 :: "m128 \<Rightarrow> m128 list \<Rightarrow> m128 list option" where
  "ipackwithoutmask1 = run_pack
    [LoadDelta, MovOut, IncIn, LoadDelta, OrShl 1, IncIn, LoadDelta, OrShl 2, IncIn, LoadDelta,
     OrShl 3, IncIn, LoadDelta, OrShl 4, IncIn, LoadDelta, OrShl 5, IncIn, LoadDelta, OrShl 6,
     IncIn, LoadDelta, OrShl 7, IncIn, LoadDelta, OrShl 8, IncIn, LoadDelta, OrShl 9, IncIn,
     LoadDelta, OrShl 10, IncIn, LoadDelta, OrShl 11, IncIn, LoadDelta, OrShl 12, IncIn, LoadDelta,
     OrShl 13, IncIn, LoadDelta, OrShl 14, IncIn, LoadDelta, OrShl 15, IncIn, LoadDelta, OrShl 16,
     IncIn, LoadDelta, OrShl 17, IncIn, LoadDelta, OrShl 18, IncIn, LoadDelta, OrShl 19, IncIn,
     LoadDelta, OrShl 20, IncIn, LoadDelta, OrShl 21, IncIn, LoadDelta, OrShl 22, IncIn, LoadDelta,
     OrShl 23, IncIn, LoadDelta, OrShl 24, IncIn, LoadDelta, OrShl 25, IncIn, LoadDelta, OrShl 26,
     IncIn, LoadDelta, OrShl 27, IncIn, LoadDelta, OrShl 28, IncIn, LoadDelta, OrShl 29, IncIn,
     LoadDelta, OrShl 30, IncIn, LoadDelta, OrShl 31, Store]"

definition ipackwithoutmask2 :: "m128 \<Rightarrow> m128 list \<Rightarrow> m128 list option" where
  "ipackwithoutmask2 = run_pack
    [LoadDelta, MovOut, IncIn, LoadDelta, OrShl 2, IncIn, LoadDelta, OrShl 4, IncIn, LoadDelta,
     OrShl 6, IncIn, LoadDelta, OrShl 8, IncIn, LoadDelta, OrShl 10, IncIn, LoadDelta, OrShl 12,
     IncIn, LoadDelta, OrShl 14, IncIn, LoadDelta, OrShl 16, IncIn, LoadDelta, OrShl 18, IncIn,
     LoadDelta, OrShl 20, IncIn, LoadDelta, OrShl 22, IncIn, LoadDelta, OrShl 24, IncIn, LoadDelta,
     OrShl 26, IncIn, LoadDelta, OrShl 28, IncIn, LoadDelta, OrShl 30, Store, IncOut, IncIn,
     LoadDelta, MovOut, IncIn, LoadDelta, OrShl 2, IncIn, LoadDelta, OrShl 4, IncIn, LoadDelta,
     OrShl 6, IncIn, LoadDelta, OrShl 8, IncIn, LoadDelta, OrShl 10, IncIn, LoadDelta, OrShl 12,
     IncIn, LoadDelta, OrShl 14, IncIn, LoadDelta, OrShl 16, IncIn, LoadDelta, OrShl 18, IncIn,
     LoadDelta, OrShl 20, IncIn, LoadDelta, OrShl 22, IncIn, LoadDelta, OrShl 24, IncIn, LoadDelta,
     OrShl 26, IncIn, LoadDelta, OrShl 28, IncIn, LoadDelta, OrShl 30, Store]"

definition ipackwithoutmask3 :: "m128 \<Rightarrow> m128 list \<Rightarrow> m128 list option" where
  "ipackwithoutmask3 = run_pack
    [LoadDelta, MovOut, IncIn, LoadDelta, OrShl 3, IncIn, LoadDelta, OrShl 6, IncIn, LoadDelta,
     OrShl 9, IncIn, LoadDelta, OrShl 12, IncIn, LoadDelta, OrShl 15, IncIn, LoadDelta, OrShl 18,
     IncIn, LoadDelta, OrShl 21, IncIn, LoadDelta, OrShl 24, IncIn, LoadDelta, OrShl 27, IncIn,
     LoadDelta, OrShl 30, Store, IncOut, ShrOut 3 1, IncIn, LoadDelta, OrShl 1, IncIn, LoadDelta,
     OrShl 4, IncIn, LoadDelta, OrShl 7, IncIn, LoadDelta, OrShl 10, IncIn, LoadDelta, OrShl 13,
     IncIn, LoadDelta, OrShl 16, IncIn, LoadDelta, OrShl 19, IncIn, LoadDelta, OrShl 22, IncIn,
     LoadDelta, OrShl 25, IncIn, LoadDelta, OrShl 28, IncIn, LoadDelta, OrShl 31, Store, IncOut,
     ShrOut 3 2, IncIn, LoadDelta, OrShl 2, IncIn, LoadDelta, OrShl 5, IncIn, LoadDelta, OrShl 8,
     IncIn, LoadDelta, OrShl 11, IncIn, LoadDelta, OrShl 14, IncIn, LoadDelta, OrShl 17, IncIn,
     LoadDelta, OrShl 20, IncIn, LoadDelta, OrShl 23, IncIn, LoadDelta, OrShl 26, IncIn, LoadDelta,
     OrShl 29, Store]"

definition ipackwithoutmask4 :: "m128 \<Rightarrow> m128 list \<Rightarrow> m128 list option" where
  "ipackwithoutmask4 = run_pack
    [LoadDelta, MovOut, IncIn, LoadDelta, OrShl 4, IncIn, LoadDelta, OrShl 8, IncIn, LoadDelta,
     OrShl 12, IncIn, LoadDelta, OrShl 16, IncIn, LoadDelta, OrShl 20, IncIn, LoadDelta, OrShl 24,
     IncIn, LoadDelta, OrShl 28, Store, IncOut, IncIn, LoadDelta, MovOut, IncIn, LoadDelta, OrShl
     4, IncIn, LoadDelta, OrShl 8, IncIn, LoadDelta, OrShl 12, IncIn, LoadDelta, OrShl 16, IncIn,
     LoadDelta, OrShl 20, IncIn, LoadDelta, OrShl 24, IncIn, LoadDelta, OrShl 28, Store, IncOut,
     IncIn, LoadDelta, MovOut, IncIn, LoadDelta, OrShl 4, IncIn, LoadDelta, OrShl 8, IncIn,
     LoadDelta, OrShl 12, IncIn, LoadDelta, OrShl 16, IncIn, LoadDelta, OrShl 20, IncIn, LoadDelta,
     OrShl 24, IncIn, LoadDelta, OrShl 28, Store, IncOut, IncIn, LoadDelta, MovOut, IncIn,
     LoadDelta, OrShl 4, IncIn, LoadDelta, OrShl 8, IncIn, LoadDelta, OrShl 12, IncIn, LoadDelta,
     OrShl 16, IncIn, LoadDelta, OrShl 20, IncIn, LoadDelta, OrShl 24, IncIn, LoadDelta, OrShl 28,
     Store]"

definition ipackwithoutmask5 :: "m128 \<Rightarrow> m128 list \<Rightarrow> m128 list option" where
  "ipackwithoutmask5 = run_pack
    [LoadDelta, MovOut, IncIn, LoadDelta, OrShl 5, IncIn, LoadDelta, OrShl 10, IncIn, LoadDelta,
     OrShl 15, IncIn, LoadDelta, OrShl 20, IncIn, LoadDelta, OrShl 25, IncIn, LoadDelta, OrShl 30,
     Store, IncOut, ShrOut 5 3, IncIn, LoadDelta, OrShl 3, IncIn, LoadDelta, OrShl 8, IncIn,
     LoadDelta, OrShl 13, IncIn, LoadDelta, OrShl 18, IncIn, LoadDelta, OrShl 23, IncIn, LoadDelta,
     OrShl 28, Store, IncOut, ShrOut 5 1, IncIn, LoadDelta, OrShl 1, IncIn, LoadDelta, OrShl 6,
     IncIn, LoadDelta, OrShl 11, IncIn, LoadDelta, OrShl 16, IncIn, LoadDelta, OrShl 21, IncIn,
     LoadDelta, OrShl 26, IncIn, LoadDelta, OrShl 31, Store, IncOut, ShrOut 5 4, IncIn, LoadDelta,
     OrShl 4, IncIn, LoadDelta, OrShl 9, IncIn, LoadDelta, OrShl 14, IncIn, LoadDelta, OrShl 19,
     IncIn, LoadDelta, OrShl 24, IncIn, LoadDelta, OrShl 29, Store, IncOut, ShrOut 5 2, IncIn,
     LoadDelta, OrShl 2, IncIn, LoadDelta, OrShl 7, IncIn, LoadDelta, OrShl 12, IncIn, LoadDelta,
     OrShl 17, IncIn, LoadDelta, OrShl 22, IncIn, LoadDelta, OrShl 27, Store]"

definition ipackwithoutmask6 :: "m128 \<Rightarrow> m128 list \<Rightarrow> m128 list option" where
  "ipackwithoutmask6 = run_pack
    [LoadDelta, MovOut, IncIn, LoadDelta, OrShl 6, IncIn, LoadDelta, OrShl 12, IncIn, LoadDelta,
     OrShl 18, IncIn, LoadDelta, OrShl 24, IncIn, LoadDelta, OrShl 30, Store, IncOut, ShrOut 6 4,
     IncIn, LoadDelta, OrShl 4, IncIn, LoadDelta, OrShl 10, IncIn, LoadDelta, OrShl 16, IncIn,
     LoadDelta, OrShl 22, IncIn, LoadDelta, OrShl 28, Store, IncOut, ShrOut 6 2, IncIn, LoadDelta,
     OrShl 2, IncIn, LoadDelta, OrShl 8, IncIn, LoadDelta, OrShl 14, IncIn, LoadDelta, OrShl 20,
     IncIn, LoadDelta, OrShl 26, Store, IncOut, IncIn, LoadDelta, MovOut, IncIn, LoadDelta, OrShl
     6, IncIn, LoadDelta, OrShl 12, IncIn, LoadDelta, OrShl 18, IncIn, LoadDelta, OrShl 24, IncIn,
     LoadDelta, OrShl 30, Store, IncOut, ShrOut 6 4, IncIn, LoadDelta, OrShl 4, IncIn, LoadDelta,
     OrShl 10, IncIn, LoadDelta, OrShl 16, IncIn, LoadDelta, OrShl 22, IncIn, LoadDelta, OrShl 28,
     Store, IncOut, ShrOut 6 2, IncIn, LoadDelta, OrShl 2, IncIn, LoadDelta, OrShl 8, IncIn,
     LoadDelta, OrShl 14, IncIn, LoadDelta, OrShl 20, IncIn, LoadDelta, OrShl 26, Store]"

definition ipackwithoutmask7 :: "m128 \<Rightarrow> m128 list \<Rightarrow> m128 list option" where
  "ipackwithoutmask7 = run_pack
    [LoadDelta, MovOut, IncIn, LoadDelta, OrShl 7, IncIn, LoadDelta, OrShl 14, IncIn, LoadDelta,
     OrShl 21, IncIn, LoadDelta, OrShl 28, Store, IncOut, ShrOut 7 3, IncIn, LoadDelta, OrShl 3,
     IncIn, LoadDelta, OrShl 10, IncIn, LoadDelta, OrShl 17, IncIn, LoadDelta, OrShl 24, IncIn,
     LoadDelta, OrShl 31, Store, IncOut, ShrOut 7 6, IncIn, LoadDelta, OrShl 6, IncIn, LoadDelta,
     OrShl 13, IncIn, LoadDelta, OrShl 20, IncIn, LoadDelta, OrShl 27, Store, IncOut, ShrOut 7 2,
     IncIn, LoadDelta, OrShl 2, IncIn, LoadDelta, OrShl 9, IncIn, LoadDelta, OrShl 16, IncIn,
     LoadDelta, OrShl 23, IncIn, LoadDelta, OrShl 30, Store, IncOut, ShrOut 7 5, IncIn, LoadDelta,
     OrShl 5, IncIn, LoadDelta, OrShl 12, IncIn, LoadDelta, OrShl 19, IncIn, LoadDelta, OrShl 26,
     Store, IncOut, ShrOut 7 1, IncIn, LoadDelta, OrShl 1, IncIn, LoadDelta, OrShl 8, IncIn,
     LoadDelta, OrShl 15, IncIn, LoadDelta, OrShl 22, IncIn, LoadDelta, OrShl 29, Store, IncOut,
     ShrOut 7 4, IncIn, LoadDelta, OrShl 4, IncIn, LoadDelta, OrShl 11, IncIn, LoadDelta, OrShl 18,
     IncIn, LoadDelta, OrShl 25, Store]"

definition ipackwithoutmask8 :: "m128 \<Rightarrow> m128 list \<Rightarrow> m128 list option" where
  "ipackwithoutmask8 = run_pack
    [LoadDelta, MovOut, IncIn, LoadDelta, OrShl 8, IncIn, LoadDelta, OrShl 16, IncIn, LoadDelta,
     OrShl 24, Store, IncOut, IncIn, LoadDelta, MovOut, IncIn, LoadDelta, OrShl 8, IncIn,
     LoadDelta, OrShl 16, IncIn, LoadDelta, OrShl 24, Store, IncOut, IncIn, LoadDelta, MovOut,
     IncIn, LoadDelta, OrShl 8, IncIn, LoadDelta, OrShl 16, IncIn, LoadDelta, OrShl 24, Store,
     IncOut, IncIn, LoadDelta, MovOut, IncIn, LoadDelta, OrShl 8, IncIn, LoadDelta, OrShl 16,
     IncIn, LoadDelta, OrShl 24, Store, IncOut, IncIn, LoadDelta, MovOut, IncIn, LoadDelta, OrShl
     8, IncIn, LoadDelta, OrShl 16, IncIn, LoadDelta, OrShl 24, Store, IncOut, IncIn, LoadDelta,
     MovOut, IncIn, LoadDelta, OrShl 8, IncIn, LoadDelta, OrShl 16, IncIn, LoadDelta, OrShl 24,
     Store, IncOut, IncIn, LoadDelta, MovOut, IncIn, LoadDelta, OrShl 8, IncIn, LoadDelta, OrShl
     16, IncIn, LoadDelta, OrShl 24, Store, IncOut, IncIn, LoadDelta, MovOut, IncIn, LoadDelta,
     OrShl 8, IncIn, LoadDelta, OrShl 16, IncIn, LoadDelta, OrShl 24, Store]"

definition ipackwithoutmask9 :: "m128 \<Rightarrow> m128 list \<Rightarrow> m128 list option" where
  "ipackwithoutmask9 = run_pack
    [LoadDelta, MovOut, IncIn, LoadDelta, OrShl 9, IncIn, LoadDelta, OrShl 18, IncIn, LoadDelta,
     OrShl 27, Store, IncOut, ShrOut 9 4, IncIn, LoadDelta, OrShl 4, IncIn, LoadDelta, OrShl 13,
     IncIn, LoadDelta, OrShl 22, IncIn, LoadDelta, OrShl 31, Store, IncOut, ShrOut 9 8, IncIn,
     LoadDelta, OrShl 8, IncIn, LoadDelta, OrShl 17, IncIn, LoadDelta, OrShl 26, Store, IncOut,
     ShrOut 9 3, IncIn, LoadDelta, OrShl 3, IncIn, LoadDelta, OrShl 12, IncIn, LoadDelta, OrShl 21,
     IncIn, LoadDelta, OrShl 30, Store, IncOut, ShrOut 9 7, IncIn, LoadDelta, OrShl 7, IncIn,
     LoadDelta, OrShl 16, IncIn, LoadDelta, OrShl 25, Store, IncOut, ShrOut 9 2, IncIn, LoadDelta,
     OrShl 2, IncIn, LoadDelta, OrShl 11, IncIn, LoadDelta, OrShl 20, IncIn, LoadDelta, OrShl 29,
     Store, IncOut, ShrOut 9 6, IncIn, LoadDelta, OrShl 6, IncIn, LoadDelta, OrShl 15, IncIn,
     LoadDelta, OrShl 24, Store, IncOut, ShrOut 9 1, IncIn, LoadDelta, OrShl 1, IncIn, LoadDelta,
     OrShl 10, IncIn, LoadDelta, OrShl 19, IncIn, LoadDelta, OrShl 28, Store, IncOut, ShrOut 9 5,
     IncIn, LoadDelta, OrShl 5, IncIn, LoadDelta, OrShl 14, IncIn, LoadDelta, OrShl 23, Store]"

definition ipackwithoutmask10 :: "m128 \<Rightarrow> m128 list \<Rightarrow> m128 list option" where
  "ipackwithoutmask10 = run_pack
    [LoadDelta, MovOut, IncIn, LoadDelta, OrShl 10, IncIn, LoadDelta, OrShl 20, IncIn, LoadDelta,
     OrShl 30, Store, IncOut, ShrOut 10 8, IncIn, LoadDelta, OrShl 8, IncIn, LoadDelta, OrShl 18,
     IncIn, LoadDelta, OrShl 28, Store, IncOut, ShrOut 10 6, IncIn, LoadDelta, OrShl 6, IncIn,
     LoadDelta, OrShl 16, IncIn, LoadDelta, OrShl 26, Store, IncOut, ShrOut 10 4, IncIn, LoadDelta,
     OrShl 4, IncIn, LoadDelta, OrShl 14, IncIn, LoadDelta, OrShl 24, Store, IncOut, ShrOut 10 2,
     IncIn, LoadDelta, OrShl 2, IncIn, LoadDelta, OrShl 12, IncIn, LoadDelta, OrShl 22, Store,
     IncOut, IncIn, LoadDelta, MovOut, IncIn, LoadDelta, OrShl 10, IncIn, LoadDelta, OrShl 20,
     IncIn, LoadDelta, OrShl 30, Store, IncOut, ShrOut 10 8, IncIn, LoadDelta, OrShl 8, IncIn,
     LoadDelta, OrShl 18, IncIn, LoadDelta, OrShl 28, Store, IncOut, ShrOut 10 6, IncIn, LoadDelta,
     OrShl 6, IncIn, LoadDelta, OrShl 16, IncIn, LoadDelta, OrShl 26, Store, IncOut, ShrOut 10 4,
     IncIn, LoadDelta, OrShl 4, IncIn, LoadDelta, OrShl 14, IncIn, LoadDelta, OrShl 24, Store,
     IncOut, ShrOut 10 2, IncIn, LoadDelta, OrShl 2, IncIn, LoadDelta, OrShl 12, IncIn, LoadDelta,
     OrShl 22, Store]"

definition ipackwithoutmask11 :: "m128 \<Rightarrow> m128 list \<Rightarrow> m128 list option" where
  "ipackwithoutmask11 = run_pack
    [LoadDelta, MovOut, IncIn, LoadDelta, OrShl 11, IncIn, LoadDelta, OrShl 22, Store, IncOut,
     ShrOut 11 1, IncIn, LoadDelta, OrShl 1, IncIn, LoadDelta, OrShl 12, IncIn, LoadDelta, OrShl
     23, Store, IncOut, ShrOut 11 2, IncIn, LoadDelta, OrShl 2, IncIn, LoadDelta, OrShl 13, IncIn,
     LoadDelta, OrShl 24, Store, IncOut, ShrOut 11 3, IncIn, LoadDelta, OrShl 3, IncIn, LoadDelta,
     OrShl 14, IncIn, LoadDelta, OrShl 25, Store, IncOut, ShrOut 11 4, IncIn, LoadDelta, OrShl 4,
     IncIn, LoadDelta, OrShl 15, IncIn, LoadDelta, OrShl 26, Store, IncOut, ShrOut 11 5, IncIn,
     LoadDelta, OrShl 5, IncIn, LoadDelta, OrShl 16, IncIn, LoadDelta, OrShl 27, Store, IncOut,
     ShrOut 11 6, IncIn, LoadDelta, OrShl 6, IncIn, LoadDelta, OrShl 17, IncIn, LoadDelta, OrShl
     28, Store, IncOut, ShrOut 11 7, IncIn, LoadDelta, OrShl 7, IncIn, LoadDelta, OrShl 18, IncIn,
     LoadDelta, OrShl 29, Store, IncOut, ShrOut 11 8, IncIn, LoadDelta, OrShl 8, IncIn, LoadDelta,
     OrShl 19, IncIn, LoadDelta, OrShl 30, Store, IncOut, ShrOut 11 9, IncIn, LoadDelta, OrShl 9,
     IncIn, LoadDelta, OrShl 20, IncIn, LoadDelta, OrShl 31, Store, IncOut, ShrOut 11 10, IncIn,
     LoadDelta, OrShl 10, IncIn, LoadDelta, OrShl 21, Store]"

definition ipackwithoutmask12 :: "m128 \<Rightarrow> m128 list \<Rightarrow> m128 list option" where
  "ipackwithoutmask12 = run_pack
    [LoadDelta, MovOut, IncIn, LoadDelta, OrShl 12, IncIn, LoadDelta, OrShl 24, Store, IncOut,
     ShrOut 12 4, IncIn, LoadDelta, OrShl 4, IncIn, LoadDelta, OrShl 16, IncIn, LoadDelta, OrShl
     28, Store, IncOut, ShrOut 12 8, IncIn, LoadDelta, OrShl 8, IncIn, LoadDelta, OrShl 20, Store,
     IncOut, IncIn, LoadDelta, MovOut, IncIn, LoadDelta, OrShl 12, IncIn, LoadDelta, OrShl 24,
     Store, IncOut, ShrOut 12 4, IncIn, LoadDelta, OrShl 4, IncIn, LoadDelta, OrShl 16, IncIn,
     LoadDelta, OrShl 28, Store, IncOut, ShrOut 12 8, IncIn, LoadDelta, OrShl 8, IncIn, LoadDelta,
     OrShl 20, Store, IncOut, IncIn, LoadDelta, MovOut, IncIn, LoadDelta, OrShl 12, IncIn,
     LoadDelta, OrShl 24, Store, IncOut, ShrOut 12 4, IncIn, LoadDelta, OrShl 4, IncIn, LoadDelta,
     OrShl 16, IncIn, LoadDelta, OrShl 28, Store, IncOut, ShrOut 12 8, IncIn, LoadDelta, OrShl 8,
     IncIn, LoadDelta, OrShl 20, Store, IncOut, IncIn, LoadDelta, MovOut, IncIn, LoadDelta, OrShl
     12, IncIn, LoadDelta, OrShl 24, Store, IncOut, ShrOut 12 4, IncIn, LoadDelta, OrShl 4, IncIn,
     LoadDelta, OrShl 16, IncIn, LoadDelta, OrShl 28, Store, IncOut, ShrOut 12 8, IncIn, LoadDelta,
     OrShl 8, IncIn, LoadDelta, OrShl 20, Store]"

definition ipackwithoutmask13 :: "m128 \<Rightarrow> m128 list \<Rightarrow> m128 list option" where
  "ipackwithoutmask13 = run_pack
    [LoadDelta, MovOut, IncIn, LoadDelta, OrShl 13, IncIn, LoadDelta, OrShl 26, Store, IncOut,
     ShrOut 13 7, IncIn, LoadDelta, OrShl 7, IncIn, LoadDelta, OrShl 20, Store, IncOut, ShrOut 13
     1, IncIn, LoadDelta, OrShl 1, IncIn, LoadDelta, OrShl 14, IncIn, LoadDelta, OrShl 27, Store,
     IncOut, ShrOut 13 8, IncIn, LoadDelta, OrShl 8, IncIn, LoadDelta, OrShl 21, Store, IncOut,
     ShrOut 13 2, IncIn, LoadDelta, OrShl 2, IncIn, LoadDelta, OrShl 15, IncIn, LoadDelta, OrShl
     28, Store, IncOut, ShrOut 13 9, IncIn, LoadDelta, OrShl 9, IncIn, LoadDelta, OrShl 22, Store,
     IncOut, ShrOut 13 3, IncIn, LoadDelta, OrShl 3, IncIn, LoadDelta, OrShl 16, IncIn, LoadDelta,
     OrShl 29, Store, IncOut, ShrOut 13 10, IncIn, LoadDelta, OrShl 10, IncIn, LoadDelta, OrShl 23,
     Store, IncOut, ShrOut 13 4, IncIn, LoadDelta, OrShl 4, IncIn, LoadDelta, OrShl 17, IncIn,
     LoadDelta, OrShl 30, Store, IncOut, ShrOut 13 11, IncIn, LoadDelta, OrShl 11, IncIn,
     LoadDelta, OrShl 24, Store, IncOut, ShrOut 13 5, IncIn, LoadDelta, OrShl 5, IncIn, LoadDelta,
     OrShl 18, IncIn, LoadDelta, OrShl 31, Store, IncOut, ShrOut 13 12, IncIn, LoadDelta, OrShl 12,
     IncIn, LoadDelta, OrShl 25, Store, IncOut, ShrOut 13 6, IncIn, LoadDelta, OrShl 6, IncIn,
     LoadDelta, OrShl 19, Store]"

definition ipackwithoutmask14 :: "m128 \<Rightarrow> m128 list \<Rightarrow> m128 list option" where
  "ipackwithoutmask14 = run_pack
    [LoadDelta, MovOut, IncIn, LoadDelta, OrShl 14, IncIn, LoadDelta, OrShl 28, Store, IncOut,
     ShrOut 14 10, IncIn, LoadDelta, OrShl 10, IncIn, LoadDelta, OrShl 24, Store, IncOut, ShrOut 14
     6, IncIn, LoadDelta, OrShl 6, IncIn, LoadDelta, OrShl 20, Store, IncOut, ShrOut 14 2, IncIn,
     LoadDelta, OrShl 2, IncIn, LoadDelta, OrShl 16, IncIn, LoadDelta, OrShl 30, Store, IncOut,
     ShrOut 14 12, IncIn, LoadDelta, OrShl 12, IncIn, LoadDelta, OrShl 26, Store, IncOut, ShrOut 14
     8, IncIn, LoadDelta, OrShl 8, IncIn, LoadDelta, OrShl 22, Store, IncOut, ShrOut 14 4, IncIn,
     LoadDelta, OrShl 4, IncIn, LoadDelta, OrShl 18, Store, IncOut, IncIn, LoadDelta, MovOut,
     IncIn, LoadDelta, OrShl 14, IncIn, LoadDelta, OrShl 28, Store, IncOut, ShrOut 14 10, IncIn,
     LoadDelta, OrShl 10, IncIn, LoadDelta, OrShl 24, Store, IncOut, ShrOut 14 6, IncIn, LoadDelta,
     OrShl 6, IncIn, LoadDelta, OrShl 20, Store, IncOut, ShrOut 14 2, IncIn, LoadDelta, OrShl 2,
     IncIn, LoadDelta, OrShl 16, IncIn, LoadDelta, OrShl 30, Store, IncOut, ShrOut 14 12, IncIn,
     LoadDelta, OrShl 12, IncIn, LoadDelta, OrShl 26, Store, IncOut, ShrOut 14 8, IncIn, LoadDelta,
     OrShl 8, IncIn, LoadDelta, OrShl 22, Store, IncOut, ShrOut 14 4, IncIn, LoadDelta, OrShl 4,
     IncIn, LoadDelta, OrShl 18, Store]"

definition ipackwithoutmask15 :: "m128 \<Rightarrow> m128 list \<Rightarrow> m128 list option" where
  "ipackwithoutmask15 = run_pack
    [LoadDelta, MovOut, IncIn, LoadDelta, OrShl 15, IncIn, LoadDelta, OrShl 30, Store, IncOut,
     ShrOut 15 13, IncIn, LoadDelta, OrShl 13, IncIn, LoadDelta, OrShl 28, Store, IncOut, ShrOut 15
     11, IncIn, LoadDelta, OrShl 11, IncIn, LoadDelta, OrShl 26, Store, IncOut, ShrOut 15 9, IncIn,
     LoadDelta, OrShl 9, IncIn, LoadDelta, OrShl 24, Store, IncOut, ShrOut 15 7, IncIn, LoadDelta,
     OrShl 7, IncIn, LoadDelta, OrShl 22, Store, IncOut, ShrOut 15 5, IncIn, LoadDelta, OrShl 5,
     IncIn, LoadDelta, OrShl 20, Store, IncOut, ShrOut 15 3, IncIn, LoadDelta, OrShl 3, IncIn,
     LoadDelta, OrShl 18, Store, IncOut, ShrOut 15 1, IncIn, LoadDelta, OrShl 1, IncIn, LoadDelta,
     OrShl 16, IncIn, LoadDelta, OrShl 31, Store, IncOut, ShrOut 15 14, IncIn, LoadDelta, OrShl 14,
     IncIn, LoadDelta, OrShl 29, Store, IncOut, ShrOut 15 12, IncIn, LoadDelta, OrShl 12, IncIn,
     LoadDelta, OrShl 27, Store, IncOut, ShrOut 15 10, IncIn, LoadDelta, OrShl 10, IncIn,
     LoadDelta, OrShl 25, Store, IncOut, ShrOut 15 8, IncIn, LoadDelta, OrShl 8, IncIn, LoadDelta,
     OrShl 23, Store, IncOut, ShrOut 15 6, IncIn, LoadDelta, OrShl 6, IncIn, LoadDelta, OrShl 21,
     Store, IncOut, ShrOut 15 4, IncIn, LoadDelta, OrShl 4, IncIn, LoadDelta, OrShl 19, Store,
     IncOut, ShrOut 15 2, IncIn, LoadDelta, OrShl 2, IncIn, LoadDelta, OrShl 17, Store]"

definition ipackwithoutmask16 :: "m128 \<Rightarrow> m128 list \<Rightarrow> m128 list option" where
  "ipackwithoutmask16 = run_pack
    [LoadDelta, MovOut, IncIn, LoadDelta, OrShl 16, Store, IncOut, IncIn, LoadDelta, MovOut, IncIn,
     LoadDelta, OrShl 16, Store, IncOut, IncIn, LoadDelta, MovOut, IncIn, LoadDelta, OrShl 16,
     Store, IncOut, IncIn, LoadDelta, MovOut, IncIn, LoadDelta, OrShl 16, Store, IncOut, IncIn,
     LoadDelta, MovOut, IncIn, LoadDelta, OrShl 16, Store, IncOut, IncIn, LoadDelta, MovOut, IncIn,
     LoadDelta, OrShl 16, Store, IncOut, IncIn, LoadDelta, MovOut, IncIn, LoadDelta, OrShl 16,
     Store, IncOut, IncIn, LoadDelta, MovOut, IncIn, LoadDelta, OrShl 16, Store, IncOut, IncIn,
     LoadDelta, MovOut, IncIn, LoadDelta, OrShl 16, Store, IncOut, IncIn, LoadDelta, MovOut, IncIn,
     LoadDelta, OrShl 16, Store, IncOut, IncIn, LoadDelta, MovOut, IncIn, LoadDelta, OrShl 16,
     Store, IncOut, IncIn, LoadDelta, MovOut, IncIn, LoadDelta, OrShl 16, Store, IncOut, IncIn,
     LoadDelta, MovOut, IncIn, LoadDelta, OrShl 16, Store, IncOut, IncIn, LoadDelta, MovOut, IncIn,
     LoadDelta, OrShl 16, Store, IncOut, IncIn, LoadDelta, MovOut, IncIn, LoadDelta, OrShl 16,
     Store, IncOut, IncIn, LoadDelta, MovOut, IncIn, LoadDelta, OrShl 16, Store]"

definition ipackwithoutmask17 :: "m128 \<Rightarrow> m128 list \<Rightarrow> m128 list option" where
  "ipackwithoutmask17 = run_pack
    [LoadDelta, MovOut, IncIn, LoadDelta, OrShl 17, Store, IncOut, ShrOut 17 2, IncIn, LoadDelta,
     OrShl 2, IncIn, LoadDelta, OrShl 19, Store, IncOut, ShrOut 17 4, IncIn, LoadDelta, OrShl 4,
     IncIn, LoadDelta, OrShl 21, Store, IncOut, ShrOut 17 6, IncIn, LoadDelta, OrShl 6, IncIn,
     LoadDelta, OrShl 23, Store, IncOut, ShrOut 17 8, IncIn, LoadDelta, OrShl 8, IncIn, LoadDelta,
     OrShl 25, Store, IncOut, ShrOut 17 10, IncIn, LoadDelta, OrShl 10, IncIn, LoadDelta, OrShl 27,
     Store, IncOut, ShrOut 17 12, IncIn, LoadDelta, OrShl 12, IncIn, LoadDelta, OrShl 29, Store,
     IncOut, ShrOut 17 14, IncIn, LoadDelta, OrShl 14, IncIn, LoadDelta, OrShl 31, Store, IncOut,
     ShrOut 17 16, IncIn, LoadDelta, OrShl 16, Store, IncOut, ShrOut 17 1, IncIn, LoadDelta, OrShl
     1, IncIn, LoadDelta, OrShl 18, Store, IncOut, ShrOut 17 3, IncIn, LoadDelta, OrShl 3, IncIn,
     LoadDelta, OrShl 20, Store, IncOut, ShrOut 17 5, IncIn, LoadDelta, OrShl 5, IncIn, LoadDelta,
     OrShl 22, Store, IncOut, ShrOut 17 7, IncIn, LoadDelta, OrShl 7, IncIn, LoadDelta, OrShl 24,
     Store, IncOut, ShrOut 17 9, IncIn, LoadDelta, OrShl 9, IncIn, LoadDelta, OrShl 26, Store,
     IncOut, ShrOut 17 11, IncIn, LoadDelta, OrShl 11, IncIn, LoadDelta, OrShl 28, Store, IncOut,
     ShrOut 17 13, IncIn, LoadDelta, OrShl 13, IncIn, LoadDelta, OrShl 30, Store, IncOut, ShrOut 17
     15, IncIn, LoadDelta, OrShl 15, Store]"

definition ipackwithoutmask18 :: "m128 \<Rightarrow> m128 list \<Rightarrow> m128 list option" where
  "ipackwithoutmask18 = run_pack
    [LoadDelta, MovOut, IncIn, LoadDelta, OrShl 18, Store, IncOut, ShrOut 18 4, IncIn, LoadDelta,
     OrShl 4, IncIn, LoadDelta, OrShl 22, Store, IncOut, ShrOut 18 8, IncIn, LoadDelta, OrShl 8,
     IncIn, LoadDelta, OrShl 26, Store, IncOut, ShrOut 18 12, IncIn, LoadDelta, OrShl 12, IncIn,
     LoadDelta, OrShl 30, Store, IncOut, ShrOut 18 16, IncIn, LoadDelta, OrShl 16, Store, IncOut,
     ShrOut 18 2, IncIn, LoadDelta, OrShl 2, IncIn, LoadDelta, OrShl 20, Store, IncOut, ShrOut 18
     6, IncIn, LoadDelta, OrShl 6, IncIn, LoadDelta, OrShl 24, Store, IncOut, ShrOut 18 10, IncIn,
     LoadDelta, OrShl 10, IncIn, LoadDelta, OrShl 28, Store, IncOut, ShrOut 18 14, IncIn,
     LoadDelta, OrShl 14, Store, IncOut, IncIn, LoadDelta, MovOut, IncIn, LoadDelta, OrShl 18,
     Store, IncOut, ShrOut 18 4, IncIn, LoadDelta, OrShl 4, IncIn, LoadDelta, OrShl 22, Store,
     IncOut, ShrOut 18 8, IncIn, LoadDelta, OrShl 8, IncIn, LoadDelta, OrShl 26, Store, IncOut,
     ShrOut 18 12, IncIn, LoadDelta, OrShl 12, IncIn, LoadDelta, OrShl 30, Store, IncOut, ShrOut 18
     16, IncIn, LoadDelta, OrShl 16, Store, IncOut, ShrOut 18 2, IncIn, LoadDelta, OrShl 2, IncIn,
     LoadDelta, OrShl 20, Store, IncOut, ShrOut 18 6, IncIn, LoadDelta, OrShl 6, IncIn, LoadDelta,
     OrShl 24, Store, IncOut, ShrOut 18 10, IncIn, LoadDelta, OrShl 10, IncIn, LoadDelta, OrShl 28,
     Store, IncOut, ShrOut 18 14, IncIn, LoadDelta, OrShl 14, Store]"

definition ipackwithoutmask19 :: "m128 \<Rightarrow> m128 list \<Rightarrow> m128 list option" where
  "ipackwithoutmask19 = run_pack
    [LoadDelta, MovOut, IncIn, LoadDelta, OrShl 19, Store, IncOut, ShrOut 19 6, IncIn, LoadDelta,
     OrShl 6, IncIn, LoadDelta, OrShl 25, Store, IncOut, ShrOut 19 12, IncIn, LoadDelta, OrShl 12,
     IncIn, LoadDelta, OrShl 31, Store, IncOut, ShrOut 19 18, IncIn, LoadDelta, OrShl 18, Store,
     IncOut, ShrOut 19 5, IncIn, LoadDelta, OrShl 5, IncIn, LoadDelta, OrShl 24, Store, IncOut,
     ShrOut 19 11, IncIn, LoadDelta, OrShl 11, IncIn, LoadDelta, OrShl 30, Store, IncOut, ShrOut 19
     17, IncIn, LoadDelta, OrShl 17, Store, IncOut, ShrOut 19 4, IncIn, LoadDelta, OrShl 4, IncIn,
     LoadDelta, OrShl 23, Store, IncOut, ShrOut 19 10, IncIn, LoadDelta, OrShl 10, IncIn,
     LoadDelta, OrShl 29, Store, IncOut, ShrOut 19 16, IncIn, LoadDelta, OrShl 16, Store, IncOut,
     ShrOut 19 3, IncIn, LoadDelta, OrShl 3, IncIn, LoadDelta, OrShl 22, Store, IncOut, ShrOut 19
     9, IncIn, LoadDelta, OrShl 9, IncIn, LoadDelta, OrShl 28, Store, IncOut, ShrOut 19 15, IncIn,
     LoadDelta, OrShl 15, Store, IncOut, ShrOut 19 2, IncIn, LoadDelta, OrShl 2, IncIn, LoadDelta,
     OrShl 21, Store, IncOut, ShrOut 19 8, IncIn, LoadDelta, OrShl 8, IncIn, LoadDelta, OrShl 27,
     Store, IncOut, ShrOut 19 14, IncIn, LoadDelta, OrShl 14, Store, IncOut, ShrOut 19 1, IncIn,
     LoadDelta, OrShl 1, IncIn, LoadDelta, OrShl 20, Store, IncOut, ShrOut 19 7, IncIn, LoadDelta,
     OrShl 7, IncIn, LoadDelta, OrShl 26, Store, IncOut, ShrOut 19 13, IncIn, LoadDelta, OrShl 13,
     Store]"

definition ipackwithoutmask20 :: "m128 \<Rightarrow> m128 list \<Rightarrow> m128 list option" where
  "ipackwithoutmask20 = run_pack
    [LoadDelta, MovOut, IncIn, LoadDelta, OrShl 20, Store, IncOut, ShrOut 20 8, IncIn, LoadDelta,
     OrShl 8, IncIn, LoadDelta, OrShl 28, Store, IncOut, ShrOut 20 16, IncIn, LoadDelta, OrShl 16,
     Store, IncOut, ShrOut 20 4, IncIn, LoadDelta, OrShl 4, IncIn, LoadDelta, OrShl 24, Store,
     IncOut, ShrOut 20 12, IncIn, LoadDelta, OrShl 12, Store, IncOut, IncIn, LoadDelta, MovOut,
     IncIn, LoadDelta, OrShl 20, Store, IncOut, ShrOut 20 8, IncIn, LoadDelta, OrShl 8, IncIn,
     LoadDelta, OrShl 28, Store, IncOut, ShrOut 20 16, IncIn, LoadDelta, OrShl 16, Store, IncOut,
     ShrOut 20 4, IncIn, LoadDelta, OrShl 4, IncIn, LoadDelta, OrShl 24, Store, IncOut, ShrOut 20
     12, IncIn, LoadDelta, OrShl 12, Store, IncOut, IncIn, LoadDelta, MovOut, IncIn, LoadDelta,
     OrShl 20, Store, IncOut, ShrOut 20 8, IncIn, LoadDelta, OrShl 8, IncIn, LoadDelta, OrShl 28,
     Store, IncOut, ShrOut 20 16, IncIn, LoadDelta, OrShl 16, Store, IncOut, ShrOut 20 4, IncIn,
     LoadDelta, OrShl 4, IncIn, LoadDelta, OrShl 24, Store, IncOut, ShrOut 20 12, IncIn, LoadDelta,
     OrShl 12, Store, IncOut, IncIn, LoadDelta, MovOut, IncIn, LoadDelta, OrShl 20, Store, IncOut,
     ShrOut 20 8, IncIn, LoadDelta, OrShl 8, IncIn, LoadDelta, OrShl 28, Store, IncOut, ShrOut 20
     16, IncIn, LoadDelta, OrShl 16, Store, IncOut, ShrOut 20 4, IncIn, LoadDelta, OrShl 4, IncIn,
     LoadDelta, OrShl 24, Store, IncOut, ShrOut 20 12, IncIn, LoadDelta, OrShl 12, Store]"

definition ipackwithoutmask21 :: "m128 \<Rightarrow> m128 list \<Rightarrow> m128 list option" where
  "ipackwithoutmask21 = run_pack
    [LoadDelta, MovOut, IncIn, LoadDelta, OrShl 21, Store, IncOut, ShrOut 21 10, IncIn, LoadDelta,
     OrShl 10, IncIn, LoadDelta, OrShl 31, Store, IncOut, ShrOut 21 20, IncIn, LoadDelta, OrShl 20,
     Store, IncOut, ShrOut 21 9, IncIn, LoadDelta, OrShl 9, IncIn, LoadDelta, OrShl 30, Store,
     IncOut, ShrOut 21 19, IncIn, LoadDelta, OrShl 19, Store, IncOut, ShrOut 21 8, IncIn,
     LoadDelta, OrShl 8, IncIn, LoadDelta, OrShl 29, Store, IncOut, ShrOut 21 18, IncIn, LoadDelta,
     OrShl 18, Store, IncOut, ShrOut 21 7, IncIn, LoadDelta, OrShl 7, IncIn, LoadDelta, OrShl 28,
     Store, IncOut, ShrOut 21 17, IncIn, LoadDelta, OrShl 17, Store, IncOut, ShrOut 21 6, IncIn,
     LoadDelta, OrShl 6, IncIn, LoadDelta, OrShl 27, Store, IncOut, ShrOut 21 16, IncIn, LoadDelta,
     OrShl 16, Store, IncOut, ShrOut 21 5, IncIn, LoadDelta, OrShl 5, IncIn, LoadDelta, OrShl 26,
     Store, IncOut, ShrOut 21 15, IncIn, LoadDelta, OrShl 15, Store, IncOut, ShrOut 21 4, IncIn,
     LoadDelta, OrShl 4, IncIn, LoadDelta, OrShl 25, Store, IncOut, ShrOut 21 14, IncIn, LoadDelta,
     OrShl 14, Store, IncOut, ShrOut 21 3, IncIn, LoadDelta, OrShl 3, IncIn, LoadDelta, OrShl 24,
     Store, IncOut, ShrOut 21 13, IncIn, LoadDelta, OrShl 13, Store, IncOut, ShrOut 21 2, IncIn,
     LoadDelta, OrShl 2, IncIn, LoadDelta, OrShl 23, Store, IncOut, ShrOut 21 12, IncIn, LoadDelta,
     OrShl 12, Store, IncOut, ShrOut 21 1, IncIn, LoadDelta, OrShl 1, IncIn, LoadDelta, OrShl 22,
     Store, IncOut, ShrOut 21 11, IncIn, LoadDelta, OrShl 11, Store]"

definition ipackwithoutmask22 :: "m128 \<Rightarrow> m128 list \<Rightarrow> m128 list option" where
  "ipackwithoutmask22 = run_pack
    [LoadDelta, MovOut, IncIn, LoadDelta, OrShl 22, Store, IncOut, ShrOut 22 12, IncIn, LoadDelta,
     OrShl 12, Store, IncOut, ShrOut 22 2, IncIn, LoadDelta, OrShl 2, IncIn, LoadDelta, OrShl 24,
     Store, IncOut, ShrOut 22 14, IncIn, LoadDelta, OrShl 14, Store, IncOut, ShrOut 22 4, IncIn,
     LoadDelta, OrShl 4, IncIn, LoadDelta, OrShl 26, Store, IncOut, ShrOut 22 16, IncIn, LoadDelta,
     OrShl 16, Store, IncOut, ShrOut 22 6, IncIn, LoadDelta, OrShl 6, IncIn, LoadDelta, OrShl 28,
     Store, IncOut, ShrOut 22 18, IncIn, LoadDelta, OrShl 18, Store, IncOut, ShrOut 22 8, IncIn,
     LoadDelta, OrShl 8, IncIn, LoadDelta, OrShl 30, Store, IncOut, ShrOut 22 20, IncIn, LoadDelta,
     OrShl 20, Store, IncOut, ShrOut 22 10, IncIn, LoadDelta, OrShl 10, Store, IncOut, IncIn,
     LoadDelta, MovOut, IncIn, LoadDelta, OrShl 22, Store, IncOut, ShrOut 22 12, IncIn, LoadDelta,
     OrShl 12, Store, IncOut, ShrOut 22 2, IncIn, LoadDelta, OrShl 2, IncIn, LoadDelta, OrShl 24,
     Store, IncOut, ShrOut 22 14, IncIn, LoadDelta, OrShl 14, Store, IncOut, ShrOut 22 4, IncIn,
     LoadDelta, OrShl 4, IncIn, LoadDelta, OrShl 26, Store, IncOut, ShrOut 22 16, IncIn, LoadDelta,
     OrShl 16, Store, IncOut, ShrOut 22 6, IncIn, LoadDelta, OrShl 6, IncIn, LoadDelta, OrShl 28,
     Store, IncOut, ShrOut 22 18, IncIn, LoadDelta, OrShl 18, Store, IncOut, ShrOut 22 8, IncIn,
     LoadDelta, OrShl 8, IncIn, LoadDelta, OrShl 30, Store, IncOut, ShrOut 22 20, IncIn, LoadDelta,
     OrShl 20, Store, IncOut, ShrOut 22 10, IncIn, LoadDelta, OrShl 10, Store]"

definition ipackwithoutmask23 :: "m128 \<Rightarrow> m128 list \<Rightarrow> m128 list option" where
  "ipackwithoutmask23 = run_pack
    [LoadDelta, MovOut, IncIn, LoadDelta, OrShl 23, Store, IncOut, ShrOut 23 14, IncIn, LoadDelta,
     OrShl 14, Store, IncOut, ShrOut 23 5, IncIn, LoadDelta, OrShl 5, IncIn, LoadDelta, OrShl 28,
     Store, IncOut, ShrOut 23 19, IncIn, LoadDelta, OrShl 19, Store, IncOut, ShrOut 23 10, IncIn,
     LoadDelta, OrShl 10, Store, IncOut, ShrOut 23 1, IncIn, LoadDelta, OrShl 1, IncIn, LoadDelta,
     OrShl 24, Store, IncOut, ShrOut 23 15, IncIn, LoadDelta, OrShl 15, Store, IncOut, ShrOut 23 6,
     IncIn, LoadDelta, OrShl 6, IncIn, LoadDelta, OrShl 29, Store, IncOut, ShrOut 23 20, IncIn,
     LoadDelta, OrShl 20, Store, IncOut, ShrOut 23 11, IncIn, LoadDelta, OrShl 11, Store, IncOut,
     ShrOut 23 2, IncIn, LoadDelta, OrShl 2, IncIn, LoadDelta, OrShl 25, Store, IncOut, ShrOut 23
     16, IncIn, LoadDelta, OrShl 16, Store, IncOut, ShrOut 23 7, IncIn, LoadDelta, OrShl 7, IncIn,
     LoadDelta, OrShl 30, Store, IncOut, ShrOut 23 21, IncIn, LoadDelta, OrShl 21, Store, IncOut,
     ShrOut 23 12, IncIn, LoadDelta, OrShl 12, Store, IncOut, ShrOut 23 3, IncIn, LoadDelta, OrShl
     3, IncIn, LoadDelta, OrShl 26, Store, IncOut, ShrOut 23 17, IncIn, LoadDelta, OrShl 17, Store,
     IncOut, ShrOut 23 8, IncIn, LoadDelta, OrShl 8, IncIn, LoadDelta, OrShl 31, Store, IncOut,
     ShrOut 23 22, IncIn, LoadDelta, OrShl 22, Store, IncOut, ShrOut 23 13, IncIn, LoadDelta, OrShl
     13, Store, IncOut, ShrOut 23 4, IncIn, LoadDelta, OrShl 4, IncIn, LoadDelta, OrShl 27, Store,
     IncOut, ShrOut 23 18, IncIn, LoadDelta, OrShl 18, Store, IncOut, ShrOut 23 9, IncIn,
     LoadDelta, OrShl 9, Store]"

definition ipackwithoutmask24 :: "m128 \<Rightarrow> m128 list \<Rightarrow> m128 list option" where
  "ipackwithoutmask24 = run_pack
    [LoadDelta, MovOut, IncIn, LoadDelta, OrShl 24, Store, IncOut, ShrOut 24 16, IncIn, LoadDelta,
     OrShl 16, Store, IncOut, ShrOut 24 8, IncIn, LoadDelta, OrShl 8, Store, IncOut, IncIn,
     LoadDelta, MovOut, IncIn, LoadDelta, OrShl 24, Store, IncOut, ShrOut 24 16, IncIn, LoadDelta,
     OrShl 16, Store, IncOut, ShrOut 24 8, IncIn, LoadDelta, OrShl 8, Store, IncOut, IncIn,
     LoadDelta, MovOut, IncIn, LoadDelta, OrShl 24, Store, IncOut, ShrOut 24 16, IncIn, LoadDelta,
     OrShl 16, Store, IncOut, ShrOut 24 8, IncIn, LoadDelta, OrShl 8, Store, IncOut, IncIn,
     LoadDelta, MovOut, IncIn, LoadDelta, OrShl 24, Store, IncOut, ShrOut 24 16, IncIn, LoadDelta,
     OrShl 16, Store, IncOut, ShrOut 24 8, IncIn, LoadDelta, OrShl 8, Store, IncOut, IncIn,
     LoadDelta, MovOut, IncIn, LoadDelta, OrShl 24, Store, IncOut, ShrOut 24 16, IncIn, LoadDelta,
     OrShl 16, Store, IncOut, ShrOut 24 8, IncIn, LoadDelta, OrShl 8, Store, IncOut, IncIn,
     LoadDelta, MovOut, IncIn, LoadDelta, OrShl 24, Store, IncOut, ShrOut 24 16, IncIn, LoadDelta,
     OrShl 16, Store, IncOut, ShrOut 24 8, IncIn, LoadDelta, OrShl 8, Store, IncOut, IncIn,
     LoadDelta, MovOut, IncIn, LoadDelta, OrShl 24, Store, IncOut, ShrOut 24 16, IncIn, LoadDelta,
     OrShl 16, Store, IncOut, ShrOut 24 8, IncIn, LoadDelta, OrShl 8, Store, IncOut, IncIn,
     LoadDelta, MovOut, IncIn, LoadDelta, OrShl 24, Store, IncOut, ShrOut 24 16, IncIn, LoadDelta,
     OrShl 16, Store, IncOut, ShrOut 24 8, IncIn, LoadDelta, OrShl 8, Store]"

definition ipackwithoutmask25 :: "m128 \<Rightarrow> m128 list \<Rightarrow> m128 list option" where
  "ipackwithoutmask25 = run_pack
    [LoadDelta, MovOut, IncIn, LoadDelta, OrShl 25, Store, IncOut, ShrOut 25 18, IncIn, LoadDelta,
     OrShl 18, Store, IncOut, ShrOut 25 11, IncIn, LoadDelta, OrShl 11, Store, IncOut, ShrOut 25 4,
     IncIn, LoadDelta, OrShl 4, IncIn, LoadDelta, OrShl 29, Store, IncOut, ShrOut 25 22, IncIn,
     LoadDelta, OrShl 22, Store, IncOut, ShrOut 25 15, IncIn, LoadDelta, OrShl 15, Store, IncOut,
     ShrOut 25 8, IncIn, LoadDelta, OrShl 8, Store, IncOut, ShrOut 25 1, IncIn, LoadDelta, OrShl 1,
     IncIn, LoadDelta, OrShl 26, Store, IncOut, ShrOut 25 19, IncIn, LoadDelta, OrShl 19, Store,
     IncOut, ShrOut 25 12, IncIn, LoadDelta, OrShl 12, Store, IncOut, ShrOut 25 5, IncIn,
     LoadDelta, OrShl 5, IncIn, LoadDelta, OrShl 30, Store, IncOut, ShrOut 25 23, IncIn, LoadDelta,
     OrShl 23, Store, IncOut, ShrOut 25 16, IncIn, LoadDelta, OrShl 16, Store, IncOut, ShrOut 25 9,
     IncIn, LoadDelta, OrShl 9, Store, IncOut, ShrOut 25 2, IncIn, LoadDelta, OrShl 2, IncIn,
     LoadDelta, OrShl 27, Store, IncOut, ShrOut 25 20, IncIn, LoadDelta, OrShl 20, Store, IncOut,
     ShrOut 25 13, IncIn, LoadDelta, OrShl 13, Store, IncOut, ShrOut 25 6, IncIn, LoadDelta, OrShl
     6, IncIn, LoadDelta, OrShl 31, Store, IncOut, ShrOut 25 24, IncIn, LoadDelta, OrShl 24, Store,
     IncOut, ShrOut 25 17, IncIn, LoadDelta, OrShl 17, Store, IncOut, ShrOut 25 10, IncIn,
     LoadDelta, OrShl 10, Store, IncOut, ShrOut 25 3, IncIn, LoadDelta, OrShl 3, IncIn, LoadDelta,
     OrShl 28, Store, IncOut, ShrOut 25 21, IncIn, LoadDelta, OrShl 21, Store, IncOut, ShrOut 25
     14, IncIn, LoadDelta, OrShl 14, Store, IncOut, ShrOut 25 7, IncIn, LoadDelta, OrShl 7, Store]"

definition ipackwithoutmask26 :: "m128 \<Rightarrow> m128 list \<Rightarrow> m128 list option" where
  "ipackwithoutmask26 = run_pack
    [LoadDelta, MovOut, IncIn, LoadDelta, OrShl 26, Store, IncOut, ShrOut 26 20, IncIn, LoadDelta,
     OrShl 20, Store, IncOut, ShrOut 26 14, IncIn, LoadDelta, OrShl 14, Store, IncOut, ShrOut 26 8,
     IncIn, LoadDelta, OrShl 8, Store, IncOut, ShrOut 26 2, IncIn, LoadDelta, OrShl 2, IncIn,
     LoadDelta, OrShl 28, Store, IncOut, ShrOut 26 22, IncIn, LoadDelta, OrShl 22, Store, IncOut,
     ShrOut 26 16, IncIn, LoadDelta, OrShl 16, Store, IncOut, ShrOut 26 10, IncIn, LoadDelta, OrShl
     10, Store, IncOut, ShrOut 26 4, IncIn, LoadDelta, OrShl 4, IncIn, LoadDelta, OrShl 30, Store,
     IncOut, ShrOut 26 24, IncIn, LoadDelta, OrShl 24, Store, IncOut, ShrOut 26 18, IncIn,
     LoadDelta, OrShl 18, Store, IncOut, ShrOut 26 12, IncIn, LoadDelta, OrShl 12, Store, IncOut,
     ShrOut 26 6, IncIn, LoadDelta, OrShl 6, Store, IncOut, IncIn, LoadDelta, MovOut, IncIn,
     LoadDelta, OrShl 26, Store, IncOut, ShrOut 26 20, IncIn, LoadDelta, OrShl 20, Store, IncOut,
     ShrOut 26 14, IncIn, LoadDelta, OrShl 14, Store, IncOut, ShrOut 26 8, IncIn, LoadDelta, OrShl
     8, Store, IncOut, ShrOut 26 2, IncIn, LoadDelta, OrShl 2, IncIn, LoadDelta, OrShl 28, Store,
     IncOut, ShrOut 26 22, IncIn, LoadDelta, OrShl 22, Store, IncOut, ShrOut 26 16, IncIn,
     LoadDelta, OrShl 16, Store, IncOut, ShrOut 26 10, IncIn, LoadDelta, OrShl 10, Store, IncOut,
     ShrOut 26 4, IncIn, LoadDelta, OrShl 4, IncIn, LoadDelta, OrShl 30, Store, IncOut, ShrOut 26
     24, IncIn, LoadDelta, OrShl 24, Store, IncOut, ShrOut 26 18, IncIn, LoadDelta, OrShl 18,
     Store, IncOut, ShrOut 26 12, IncIn, LoadDelta, OrShl 12, Store, IncOut, ShrOut 26 6, IncIn,
     LoadDelta, OrShl 6, Store]"

definition ipackwithoutmask27 :: "m128 \<Rightarrow> m128 list \<Rightarrow> m128 list option" where
  "ipackwithoutmask27 = run_pack
    [LoadDelta, MovOut, IncIn, LoadDelta, OrShl 27, Store, IncOut, ShrOut 27 22, IncIn, LoadDelta,
     OrShl 22, Store, IncOut, ShrOut 27 17, IncIn, LoadDelta, OrShl 17, Store, IncOut, ShrOut 27
     12, IncIn, LoadDelta, OrShl 12, Store, IncOut, ShrOut 27 7, IncIn, LoadDelta, OrShl 7, Store,
     IncOut, ShrOut 27 2, IncIn, LoadDelta, OrShl 2, IncIn, LoadDelta, OrShl 29, Store, IncOut,
     ShrOut 27 24, IncIn, LoadDelta, OrShl 24, Store, IncOut, ShrOut 27 19, IncIn, LoadDelta, OrShl
     19, Store, IncOut, ShrOut 27 14, IncIn, LoadDelta, OrShl 14, Store, IncOut, ShrOut 27 9,
     IncIn, LoadDelta, OrShl 9, Store, IncOut, ShrOut 27 4, IncIn, LoadDelta, OrShl 4, IncIn,
     LoadDelta, OrShl 31, Store, IncOut, ShrOut 27 26, IncIn, LoadDelta, OrShl 26, Store, IncOut,
     ShrOut 27 21, IncIn, LoadDelta, OrShl 21, Store, IncOut, ShrOut 27 16, IncIn, LoadDelta, OrShl
     16, Store, IncOut, ShrOut 27 11, IncIn, LoadDelta, OrShl 11, Store, IncOut, ShrOut 27 6,
     IncIn, LoadDelta, OrShl 6, Store, IncOut, ShrOut 27 1, IncIn, LoadDelta, OrShl 1, IncIn,
     LoadDelta, OrShl 28, Store, IncOut, ShrOut 27 23, IncIn, LoadDelta, OrShl 23, Store, IncOut,
     ShrOut 27 18, IncIn, LoadDelta, OrShl 18, Store, IncOut, ShrOut 27 13, IncIn, LoadDelta, OrShl
     13, Store, IncOut, ShrOut 27 8, IncIn, LoadDelta, OrShl 8, Store, IncOut, ShrOut 27 3, IncIn,
     LoadDelta, OrShl 3, IncIn, LoadDelta, OrShl 30, Store, IncOut, ShrOut 27 25, IncIn, LoadDelta,
     OrShl 25, Store, IncOut, ShrOut 27 20, IncIn, LoadDelta, OrShl 20, Store, IncOut, ShrOut 27
     15, IncIn, LoadDelta, OrShl 15, Store, IncOut, ShrOut 27 10, IncIn, LoadDelta, OrShl 10,
     Store, IncOut, ShrOut 27 5, IncIn, LoadDelta, OrShl 5, Store]"

definition ipackwithoutmask28 :: "m128 \<Rightarrow> m128 list \<Rightarrow> m128 list option" where
  "ipackwithoutmask28 = run_pack
    [LoadDelta, MovOut, IncIn, LoadDelta, OrShl 28, Store, IncOut, ShrOut 28 24, IncIn, LoadDelta,
     OrShl 24, Store, IncOut, ShrOut 28 20, IncIn, LoadDelta, OrShl 20, Store, IncOut, ShrOut 28
     16, IncIn, LoadDelta, OrShl 16, Store, IncOut, ShrOut 28 12, IncIn, LoadDelta, OrShl 12,
     Store, IncOut, ShrOut 28 8, IncIn, LoadDelta, OrShl 8, Store, IncOut, ShrOut 28 4, IncIn,
     LoadDelta, OrShl 4, Store, IncOut, IncIn, LoadDelta, MovOut, IncIn, LoadDelta, OrShl 28,
     Store, IncOut, ShrOut 28 24, IncIn, LoadDelta, OrShl 24, Store, IncOut, ShrOut 28 20, IncIn,
     LoadDelta, OrShl 20, Store, IncOut, ShrOut 28 16, IncIn, LoadDelta, OrShl 16, Store, IncOut,
     ShrOut 28 12, IncIn, LoadDelta, OrShl 12, Store, IncOut, ShrOut 28 8, IncIn, LoadDelta, OrShl
     8, Store, IncOut, ShrOut 28 4, IncIn, LoadDelta, OrShl 4, Store, IncOut, IncIn, LoadDelta,
     MovOut, IncIn, LoadDelta, OrShl 28, Store, IncOut, ShrOut 28 24, IncIn, LoadDelta, OrShl 24,
     Store, IncOut, ShrOut 28 20, IncIn, LoadDelta, OrShl 20, Store, IncOut, ShrOut 28 16, IncIn,
     LoadDelta, OrShl 16, Store, IncOut, ShrOut 28 12, IncIn, LoadDelta, OrShl 12, Store, IncOut,
     ShrOut 28 8, IncIn, LoadDelta, OrShl 8, Store, IncOut, ShrOut 28 4, IncIn, LoadDelta, OrShl 4,
     Store, IncOut, IncIn, LoadDelta, MovOut, IncIn, LoadDelta, OrShl 28, Store, IncOut, ShrOut 28
     24, IncIn, LoadDelta, OrShl 24, Store, IncOut, ShrOut 28 20, IncIn, LoadDelta, OrShl 20,
     Store, IncOut, ShrOut 28 16, IncIn, LoadDelta, OrShl 16, Store, IncOut, ShrOut 28 12, IncIn,
     LoadDelta, OrShl 12, Store, IncOut, ShrOut 28 8, IncIn, LoadDelta, OrShl 8, Store, IncOut,
     ShrOut 28 4, IncIn, LoadDelta, OrShl 4, Store]"

definition ipackwithoutmask29 :: "m128 \<Rightarrow> m128 list \<Rightarrow> m128 list option" where
  "ipackwithoutmask29 = run_pack
    [LoadDelta, MovOut, IncIn, LoadDelta, OrShl 29, Store, IncOut, ShrOut 29 26, IncIn, LoadDelta,
     OrShl 26, Store, IncOut, ShrOut 29 23, IncIn, LoadDelta, OrShl 23, Store, IncOut, ShrOut 29
     20, IncIn, LoadDelta, OrShl 20, Store, IncOut, ShrOut 29 17, IncIn, LoadDelta, OrShl 17,
     Store, IncOut, ShrOut 29 14, IncIn, LoadDelta, OrShl 14, Store, IncOut, ShrOut 29 11, IncIn,
     LoadDelta, OrShl 11, Store, IncOut, ShrOut 29 8, IncIn, LoadDelta, OrShl 8, Store, IncOut,
     ShrOut 29 5, IncIn, LoadDelta, OrShl 5, Store, IncOut, ShrOut 29 2, IncIn, LoadDelta, OrShl 2,
     IncIn, LoadDelta, OrShl 31, Store, IncOut, ShrOut 29 28, IncIn, LoadDelta, OrShl 28, Store,
     IncOut, ShrOut 29 25, IncIn, LoadDelta, OrShl 25, Store, IncOut, ShrOut 29 22, IncIn,
     LoadDelta, OrShl 22, Store, IncOut, ShrOut 29 19, IncIn, LoadDelta, OrShl 19, Store, IncOut,
     ShrOut 29 16, IncIn, LoadDelta, OrShl 16, Store, IncOut, ShrOut 29 13, IncIn, LoadDelta, OrShl
     13, Store, IncOut, ShrOut 29 10, IncIn, LoadDelta, OrShl 10, Store, IncOut, ShrOut 29 7,
     IncIn, LoadDelta, OrShl 7, Store, IncOut, ShrOut 29 4, IncIn, LoadDelta, OrShl 4, Store,
     IncOut, ShrOut 29 1, IncIn, LoadDelta, OrShl 1, IncIn, LoadDelta, OrShl 30, Store, IncOut,
     ShrOut 29 27, IncIn, LoadDelta, OrShl 27, Store, IncOut, ShrOut 29 24, IncIn, LoadDelta, OrShl
     24, Store, IncOut, ShrOut 29 21, IncIn, LoadDelta, OrShl 21, Store, IncOut, ShrOut 29 18,
     IncIn, LoadDelta, OrShl 18, Store, IncOut, ShrOut 29 15, IncIn, LoadDelta, OrShl 15, Store,
     IncOut, ShrOut 29 12, IncIn, LoadDelta, OrShl 12, Store, IncOut, ShrOut 29 9, IncIn,
     LoadDelta, OrShl 9, Store, IncOut, ShrOut 29 6, IncIn, LoadDelta, OrShl 6, Store, IncOut,
     ShrOut 29 3, IncIn, LoadDelta, OrShl 3, Store]"

definition ipackwithoutmask30 :: "m128 \<Rightarrow> m128 list \<Rightarrow> m128 list option" where
  "ipackwithoutmask30 = run_pack
    [LoadDelta, MovOut, IncIn, LoadDelta, OrShl 30, Store, IncOut, ShrOut 30 28, IncIn, LoadDelta,
     OrShl 28, Store, IncOut, ShrOut 30 26, IncIn, LoadDelta, OrShl 26, Store, IncOut, ShrOut 30
     24, IncIn, LoadDelta, OrShl 24, Store, IncOut, ShrOut 30 22, IncIn, LoadDelta, OrShl 22,
     Store, IncOut, ShrOut 30 20, IncIn, LoadDelta, OrShl 20, Store, IncOut, ShrOut 30 18, IncIn,
     LoadDelta, OrShl 18, Store, IncOut, ShrOut 30 16, IncIn, LoadDelta, OrShl 16, Store, IncOut,
     ShrOut 30 14, IncIn, LoadDelta, OrShl 14, Store, IncOut, ShrOut 30 12, IncIn, LoadDelta, OrShl
     12, Store, IncOut, ShrOut 30 10, IncIn, LoadDelta, OrShl 10, Store, IncOut, ShrOut 30 8,
     IncIn, LoadDelta, OrShl 8, Store, IncOut, ShrOut 30 6, IncIn, LoadDelta, OrShl 6, Store,
     IncOut, ShrOut 30 4, IncIn, LoadDelta, OrShl 4, Store, IncOut, ShrOut 30 2, IncIn, LoadDelta,
     OrShl 2, Store, IncOut, IncIn, LoadDelta, MovOut, IncIn, LoadDelta, OrShl 30, Store, IncOut,
     ShrOut 30 28, IncIn, LoadDelta, OrShl 28, Store, IncOut, ShrOut 30 26, IncIn, LoadDelta, OrShl
     26, Store, IncOut, ShrOut 30 24, IncIn, LoadDelta, OrShl 24, Store, IncOut, ShrOut 30 22,
     IncIn, LoadDelta, OrShl 22, Store, IncOut, ShrOut 30 20, IncIn, LoadDelta, OrShl 20, Store,
     IncOut, ShrOut 30 18, IncIn, LoadDelta, OrShl 18, Store, IncOut, ShrOut 30 16, IncIn,
     LoadDelta, OrShl 16, Store, IncOut, ShrOut 30 14, IncIn, LoadDelta, OrShl 14, Store, IncOut,
     ShrOut 30 12, IncIn, LoadDelta, OrShl 12, Store, IncOut, ShrOut 30 10, IncIn, LoadDelta, OrShl
     10, Store, IncOut, ShrOut 30 8, IncIn, LoadDelta, OrShl 8, Store, IncOut, ShrOut 30 6, IncIn,
     LoadDelta, OrShl 6, Store, IncOut, ShrOut 30 4, IncIn, LoadDelta, OrShl 4, Store, IncOut,
     ShrOut 30 2, IncIn, LoadDelta, OrShl 2, Store]"

definition ipackwithoutmask31 :: "m128 \<Rightarrow> m128 list \<Rightarrow> m128 list option" where
  "ipackwithoutmask31 = run_pack
    [LoadDelta, MovOut, IncIn, LoadDelta, OrShl 31, Store, IncOut, ShrOut 31 30, IncIn, LoadDelta,
     OrShl 30, Store, IncOut, ShrOut 31 29, IncIn, LoadDelta, OrShl 29, Store, IncOut, ShrOut 31
     28, IncIn, LoadDelta, OrShl 28, Store, IncOut, ShrOut 31 27, IncIn, LoadDelta, OrShl 27,
     Store, IncOut, ShrOut 31 26, IncIn, LoadDelta, OrShl 26, Store, IncOut, ShrOut 31 25, IncIn,
     LoadDelta, OrShl 25, Store, IncOut, ShrOut 31 24, IncIn, LoadDelta, OrShl 24, Store, IncOut,
     ShrOut 31 23, IncIn, LoadDelta, OrShl 23, Store, IncOut, ShrOut 31 22, IncIn, LoadDelta, OrShl
     22, Store, IncOut, ShrOut 31 21, IncIn, LoadDelta, OrShl 21, Store, IncOut, ShrOut 31 20,
     IncIn, LoadDelta, OrShl 20, Store, IncOut, ShrOut 31 19, IncIn, LoadDelta, OrShl 19, Store,
     IncOut, ShrOut 31 18, IncIn, LoadDelta, OrShl 18, Store, IncOut, ShrOut 31 17, IncIn,
     LoadDelta, OrShl 17, Store, IncOut, ShrOut 31 16, IncIn, LoadDelta, OrShl 16, Store, IncOut,
     ShrOut 31 15, IncIn, LoadDelta, OrShl 15, Store, IncOut, ShrOut 31 14, IncIn, LoadDelta, OrShl
     14, Store, IncOut, ShrOut 31 13, IncIn, LoadDelta, OrShl 13, Store, IncOut, ShrOut 31 12,
     IncIn, LoadDelta, OrShl 12, Store, IncOut, ShrOut 31 11, IncIn, LoadDelta, OrShl 11, Store,
     IncOut, ShrOut 31 10, IncIn, LoadDelta, OrShl 10, Store, IncOut, ShrOut 31 9, IncIn,
     LoadDelta, OrShl 9, Store, IncOut, ShrOut 31 8, IncIn, LoadDelta, OrShl 8, Store, IncOut,
     ShrOut 31 7, IncIn, LoadDelta, OrShl 7, Store, IncOut, ShrOut 31 6, IncIn, LoadDelta, OrShl 6,
     Store, IncOut, ShrOut 31 5, IncIn, LoadDelta, OrShl 5, Store, IncOut, ShrOut 31 4, IncIn,
     LoadDelta, OrShl 4, Store, IncOut, ShrOut 31 3, IncIn, LoadDelta, OrShl 3, Store, IncOut,
     ShrOut 31 2, IncIn, LoadDelta, OrShl 2, Store, IncOut, ShrOut 31 1, IncIn, LoadDelta, OrShl 1,
     Store]"

definition ipackwithoutmask32 :: "m128 \<Rightarrow> m128 list \<Rightarrow> m128 list option" where
  "ipackwithoutmask32 = run_pack
    [LoadIn, MovOut, Store, IncOut, IncIn, LoadIn, MovOut, Store, IncOut, IncIn, LoadIn, MovOut,
     Store, IncOut, IncIn, LoadIn, MovOut, Store, IncOut, IncIn, LoadIn, MovOut, Store, IncOut,
     IncIn, LoadIn, MovOut, Store, IncOut, IncIn, LoadIn, MovOut, Store, IncOut, IncIn, LoadIn,
     MovOut, Store, IncOut, IncIn, LoadIn, MovOut, Store, IncOut, IncIn, LoadIn, MovOut, Store,
     IncOut, IncIn, LoadIn, MovOut, Store, IncOut, IncIn, LoadIn, MovOut, Store, IncOut, IncIn,
     LoadIn, MovOut, Store, IncOut, IncIn, LoadIn, MovOut, Store, IncOut, IncIn, LoadIn, MovOut,
     Store, IncOut, IncIn, LoadIn, MovOut, Store, IncOut, IncIn, LoadIn, MovOut, Store, IncOut,
     IncIn, LoadIn, MovOut, Store, IncOut, IncIn, LoadIn, MovOut, Store, IncOut, IncIn, LoadIn,
     MovOut, Store, IncOut, IncIn, LoadIn, MovOut, Store, IncOut, IncIn, LoadIn, MovOut, Store,
     IncOut, IncIn, LoadIn, MovOut, Store, IncOut, IncIn, LoadIn, MovOut, Store, IncOut, IncIn,
     LoadIn, MovOut, Store, IncOut, IncIn, LoadIn, MovOut, Store, IncOut, IncIn, LoadIn, MovOut,
     Store, IncOut, IncIn, LoadIn, MovOut, Store, IncOut, IncIn, LoadIn, MovOut, Store, IncOut,
     IncIn, LoadIn, MovOut, Store, IncOut, IncIn, LoadIn, MovOut, Store, IncOut, IncIn, LoadIn,
     MovOut, Store]"

section \<open>The dispatcher\<close>

definition simdpackwithoutmaskd1 :: "u32 \<Rightarrow> m128 list \<Rightarrow> u32 \<Rightarrow> m128 list option" where
  "simdpackwithoutmaskd1 initvalue inp b =
     (let initOffset = mm_set1_epi32 initvalue in
      if b = 0 then Some []
      else if b = 1 then ipackwithoutmask1 initOffset inp
      else if b = 2 then ipackwithoutmask2 initOffset inp
      else if b = 3 then ipackwithoutmask3 initOffset inp
      else if b = 4 then ipackwithoutmask4 initOffset inp
      else if b = 5 then ipackwithoutmask5 initOffset inp
      else if b = 6 then ipackwithoutmask6 initOffset inp
      else if b = 7 then ipackwithoutmask7 initOffset inp
      else if b = 8 then ipackwithoutmask8 initOffset inp
      else if b = 9 then ipackwithoutmask9 initOffset inp
      else if b = 10 then ipackwithoutmask10 initOffset inp
      else if b = 11 then ipackwithoutmask11 initOffset inp
      else if b = 12 then ipackwithoutmask12 initOffset inp
      else if b = 13 then ipackwithoutmask13 initOffset inp
      else if b = 14 then ipackwithoutmask14 initOffset inp
      else if b = 15 then ipackwithoutmask15 initOffset inp
      else if b = 16 then ipackwithoutmask16 initOffset inp
      else if b = 17 then ipackwithoutmask17 initOffset inp
      else if b = 18 then ipackwithoutmask18 initOffset inp
      else if b = 19 then ipackwithoutmask19 initOffset inp
      else if b = 20 then ipackwithoutmask20 initOffset inp
      else if b = 21 then ipackwithoutmask21 initOffset inp
      else if b = 22 then ipackwithoutmask22 initOffset inp
      else if b = 23 then ipackwithoutmask23 initOffset inp
      else if b = 24 then ipackwithoutmask24 initOffset inp
      else if b = 25 then ipackwithoutmask25 initOffset inp
      else if b = 26 then ipackwithoutmask26 initOffset inp
      else if b = 27 then ipackwithoutmask27 initOffset inp
      else if b = 28 then ipackwithoutmask28 initOffset inp
      else if b = 29 then ipackwithoutmask29 initOffset inp
      else if b = 30 then ipackwithoutmask30 initOffset inp
      else if b = 31 then ipackwithoutmask31 initOffset inp
      else if b = 32 then ipackwithoutmask32 initOffset inp
      else Some [])"

section \<open>Each function is the schedule of its width\<close>

lemma ipackwithoutmask1_schedule: "ipackwithoutmask1 = run_pack (pack_schedule [LoadDelta] 1)"
  by (simp add: ipackwithoutmask1_def schedule_unfold)

lemma ipackwithoutmask2_schedule: "ipackwithoutmask2 = run_pack (pack_schedule [LoadDelta] 2)"
  by (simp add: ipackwithoutmask2_def schedule_unfold)

lemma ipackwithoutmask3_schedule: "ipackwithoutmask3 = run_pack (pack_schedule [LoadDelta] 3)"
  by (simp add: ipackwithoutmask3_def schedule_unfold)

lemma ipackwithoutmask4_schedule: "ipackwithoutmask4 = run_pack (pack_schedule [LoadDelta] 4)"
  by (simp add: ipackwithoutmask4_def schedule_unfold)

lemma ipackwithoutmask5_schedule: "ipackwithoutmask5 = run_pack (pack_schedule [LoadDelta] 5)"
  by (simp add: ipackwithoutmask5_def schedule_unfold)

lemma ipackwithoutmask6_schedule: "ipackwithoutmask6 = run_pack (pack_schedule [LoadDelta] 6)"
  by (simp add: ipackwithoutmask6_def schedule_unfold)

lemma ipackwithoutmask7_schedule: "ipackwithoutmask7 = run_pack (pack_schedule [LoadDelta] 7)"
  by (simp add: ipackwithoutmask7_def schedule_unfold)

lemma ipackwithoutmask8_schedule: "ipackwithoutmask8 = run_pack (pack_schedule [LoadDelta] 8)"
  by (simp add: ipackwithoutmask8_def schedule_unfold)

lemma ipackwithoutmask9_schedule: "ipackwithoutmask9 = run_pack (pack_schedule [LoadDelta] 9)"
  by (simp add: ipackwithoutmask9_def schedule_unfold)

lemma ipackwithoutmask10_schedule: "ipackwithoutmask10 = run_pack (pack_schedule [LoadDelta] 10)"
  by (simp add: ipackwithoutmask10_def schedule_unfold)

lemma ipackwithoutmask11_schedule: "ipackwithoutmask11 = run_pack (pack_schedule [LoadDelta] 11)"
  by (simp add: ipackwithoutmask11_def schedule_unfold)

lemma ipackwithoutmask12_schedule: "ipackwithoutmask12 = run_pack (pack_schedule [LoadDelta] 12)"
  by (simp add: ipackwithoutmask12_def schedule_unfold)

lemma ipackwithoutmask13_schedule: "ipackwithoutmask13 = run_pack (pack_schedule [LoadDelta] 13)"
  by (simp add: ipackwithoutmask13_def schedule_unfold)

lemma ipackwithoutmask14_schedule: "ipackwithoutmask14 = run_pack (pack_schedule [LoadDelta] 14)"
  by (simp add: ipackwithoutmask14_def schedule_unfold)

lemma ipackwithoutmask15_schedule: "ipackwithoutmask15 = run_pack (pack_schedule [LoadDelta] 15)"
  by (simp add: ipackwithoutmask15_def schedule_unfold)

lemma ipackwithoutmask16_schedule: "ipackwithoutmask16 = run_pack (pack_schedule [LoadDelta] 16)"
  by (simp add: ipackwithoutmask16_def schedule_unfold)

lemma ipackwithoutmask17_schedule: "ipackwithoutmask17 = run_pack (pack_schedule [LoadDelta] 17)"
  by (simp add: ipackwithoutmask17_def schedule_unfold)

lemma ipackwithoutmask18_schedule: "ipackwithoutmask18 = run_pack (pack_schedule [LoadDelta] 18)"
  by (simp add: ipackwithoutmask18_def schedule_unfold)

lemma ipackwithoutmask19_schedule: "ipackwithoutmask19 = run_pack (pack_schedule [LoadDelta] 19)"
  by (simp add: ipackwithoutmask19_def schedule_unfold)

lemma ipackwithoutmask20_schedule: "ipackwithoutmask20 = run_pack (pack_schedule [LoadDelta] 20)"
  by (simp add: ipackwithoutmask20_def schedule_unfold)

lemma ipackwithoutmask21_schedule: "ipackwithoutmask21 = run_pack (pack_schedule [LoadDelta] 21)"
  by (simp add: ipackwithoutmask21_def schedule_unfold)

lemma ipackwithoutmask22_schedule: "ipackwithoutmask22 = run_pack (pack_schedule [LoadDelta] 22)"
  by (simp add: ipackwithoutmask22_def schedule_unfold)

lemma ipackwithoutmask23_schedule: "ipackwithoutmask23 = run_pack (pack_schedule [LoadDelta] 23)"
  by (simp add: ipackwithoutmask23_def schedule_unfold)

lemma ipackwithoutmask24_schedule: "ipackwithoutmask24 = run_pack (pack_schedule [LoadDelta] 24)"
  by (simp add: ipackwithoutmask24_def schedule_unfold)

lemma ipackwithoutmask25_schedule: "ipackwithoutmask25 = run_pack (pack_schedule [LoadDelta] 25)"
  by (simp add: ipackwithoutmask25_def schedule_unfold)

lemma ipackwithoutmask26_schedule: "ipackwithoutmask26 = run_pack (pack_schedule [LoadDelta] 26)"
  by (simp add: ipackwithoutmask26_def schedule_unfold)

lemma ipackwithoutmask27_schedule: "ipackwithoutmask27 = run_pack (pack_schedule [LoadDelta] 27)"
  by (simp add: ipackwithoutmask27_def schedule_unfold)

lemma ipackwithoutmask28_schedule: "ipackwithoutmask28 = run_pack (pack_schedule [LoadDelta] 28)"
  by (simp add: ipackwithoutmask28_def schedule_unfold)

lemma ipackwithoutmask29_schedule: "ipackwithoutmask29 = run_pack (pack_schedule [LoadDelta] 29)"
  by (simp add: ipackwithoutmask29_def schedule_unfold)

lemma ipackwithoutmask30_schedule: "ipackwithoutmask30 = run_pack (pack_schedule [LoadDelta] 30)"
  by (simp add: ipackwithoutmask30_def schedule_unfold)

lemma ipackwithoutmask31_schedule: "ipackwithoutmask31 = run_pack (pack_schedule [LoadDelta] 31)"
  by (simp add: ipackwithoutmask31_def schedule_unfold)

lemma ipackwithoutmask32_schedule:
  "ipackwithoutmask32 = run_pack (concat (map copy_value [0..<32]))"
  by (simp add: ipackwithoutmask32_def copy_value_def upt_32)

section \<open>The differences that are packed\<close>

fun delta_regs :: "m128 \<Rightarrow> m128 list \<Rightarrow> m128 list" where
  "delta_regs off [] = []"
| "delta_regs off (r # rs) = Delta r off # delta_regs r rs"

lemma length_delta_regs [simp]: "length (delta_regs off rs) = length rs"
  by (induction rs arbitrary: off) auto

lemma nth_delta_regs:
  "i < length rs \<Longrightarrow> delta_regs off rs ! i = Delta (rs ! i) (if i = 0 then off else rs ! (i - 1))"
proof (induction rs arbitrary: off i)
  case (Cons r rs)
  then show ?case by (cases i) (auto simp: nth_Cons')
qed simp

text \<open>The value before value \<open>i\<close>; the offset of the block before the first one.\<close>

definition prev_reg :: "m128 \<Rightarrow> m128 list \<Rightarrow> nat \<Rightarrow> m128" where
  "prev_reg off rs i = (if i = 0 then off else rs ! (i - 1))"

interpretation delta: packer "[LoadDelta]" delta_regs prev_reg
  by unfold_locales (auto simp: prev_reg_def nth_delta_regs)

section \<open>The dispatcher selects the schedule of its width\<close>

lemmas pack_schedules =
  ipackwithoutmask1_schedule ipackwithoutmask2_schedule ipackwithoutmask3_schedule ipackwithoutmask4_schedule
  ipackwithoutmask5_schedule ipackwithoutmask6_schedule ipackwithoutmask7_schedule ipackwithoutmask8_schedule
  ipackwithoutmask9_schedule ipackwithoutmask10_schedule ipackwithoutmask11_schedule ipackwithoutmask12_schedule
  ipackwithoutmask13_schedule ipackwithoutmask14_schedule ipackwithoutmask15_schedule ipackwithoutmask16_schedule
  ipackwithoutmask17_schedule ipackwithoutmask18_schedule ipackwithoutmask19_schedule ipackwithoutmask20_schedule
  ipackwithoutmask21_schedule ipackwithoutmask22_schedule ipackwithoutmask23_schedule ipackwithoutmask24_schedule
  ipackwithoutmask25_schedule ipackwithoutmask26_schedule ipackwithoutmask27_schedule ipackwithoutmask28_schedule
  ipackwithoutmask29_schedule ipackwithoutmask30_schedule ipackwithoutmask31_schedule

lemma simdpackwithoutmaskd1_schedule:
  assumes "0 < b" and "b < 32"
  shows "simdpackwithoutmaskd1 v inp (of_nat b) = run_pack (pack_schedule [LoadDelta] b) (mm_set1_epi32 v) inp"
  using width_cases[OF assms]
  by (elim insertE emptyE) (simp_all add: simdpackwithoutmaskd1_def pack_schedules)

lemma simdpackwithoutmaskd1_packs:
  assumes "length inp = 32" and "0 < b" and "b < 32"
    and "\<forall>i<32. fits b (delta_regs (mm_set1_epi32 v) inp ! i)"
  shows "\<exists>out. simdpackwithoutmaskd1 v inp (of_nat b) = Some out \<and> length out = b
    \<and> packed_block b (delta_regs (mm_set1_epi32 v) inp) out"
  using delta.run_pack_schedule[of inp b] assms simdpackwithoutmaskd1_schedule[OF assms(2,3)] by simp

lemma simdpackwithoutmaskd1_zero [simp]: "simdpackwithoutmaskd1 v inp 0 = Some []"
  by (simp add: simdpackwithoutmaskd1_def)

lemma simdpackwithoutmaskd1_32: "length inp = 32 \<Longrightarrow> simdpackwithoutmaskd1 v inp 32 = Some inp"
  by (simp add: simdpackwithoutmaskd1_def ipackwithoutmask32_schedule run_copy_values)

end
