(* ===== verification/IUnpack.thy ===== *)
theory IUnpack
  imports IPack
begin

text \<open>
  The functions \<open>iunpack0\<close> to \<open>iunpack32\<close> of
  \<^verbatim>\<open>varint/bitpacking/simdintegratedbitpacking.c\<close> and their dispatcher \<open>simdunpackd1\<close>,
  statement by statement as in the source, and the proof that for every width they give back
  the registers that the packing function of the same width was given.
\<close>

section \<open>Statements\<close>

text \<open>
  The C variables of an unpacking function; \<open>us_in\<close> counts the registers \<open>in\<close> has advanced
  and \<open>us_mem\<close> is the memory written through \<open>out++\<close>.
\<close>

record unpack_state =
  us_in :: nat
  us_off :: m128
  us_inreg :: m128
  us_tmp :: m128
  us_outreg :: m128
  us_mask :: m128
  us_mem :: "m128 list"

text \<open>
  \<open>LoadReg\<close> is \<open>InReg = _mm_loadu_si128(in)\<close> and \<open>NextReg\<close> the same after \<open>++in\<close>;
  \<open>SetMask b\<close> is \<open>mask = _mm_set1_epi32((1U<<b)-1)\<close>; \<open>TmpReg\<close> and \<open>TmpShr n\<close> set \<open>tmp\<close>
  to \<open>InReg\<close>, unshifted or shifted right; \<open>MovTmp\<close> and \<open>AndMask\<close> set \<open>OutReg\<close> from \<open>tmp\<close>;
  \<open>OrShlMask b k\<close> is
  \<open>OutReg = _mm_or_si128(OutReg, _mm_and_si128(_mm_slli_epi32(InReg, b-k), mask))\<close>;
  \<open>PrefixStore\<close> is
  \<open>OutReg = PrefixSum(OutReg, initOffset); initOffset = OutReg; _mm_storeu_si128(out++, OutReg)\<close>.
\<close>

datatype unpack_stmt =
  LoadReg | NextReg | SetMask nat | TmpReg | TmpShr nat | MovTmp | AndMask | OrShlMask nat nat
| PrefixStore

fun unpack_step :: "m128 list \<Rightarrow> unpack_stmt \<Rightarrow> unpack_state \<Rightarrow> unpack_state option" where
  "unpack_step inp LoadReg s =
     (if us_in s < length inp then Some (s\<lparr>us_inreg := inp ! us_in s\<rparr>) else None)"
| "unpack_step inp NextReg s =
     (if Suc (us_in s) < length inp
      then Some (s\<lparr>us_in := Suc (us_in s), us_inreg := inp ! Suc (us_in s)\<rparr>) else None)"
| "unpack_step inp (SetMask b) s = Some (s\<lparr>us_mask := mm_set1_epi32 (low_mask b)\<rparr>)"
| "unpack_step inp TmpReg s = Some (s\<lparr>us_tmp := us_inreg s\<rparr>)"
| "unpack_step inp (TmpShr n) s = Some (s\<lparr>us_tmp := mm_srli_epi32 (us_inreg s) n\<rparr>)"
| "unpack_step inp MovTmp s = Some (s\<lparr>us_outreg := us_tmp s\<rparr>)"
| "unpack_step inp AndMask s = Some (s\<lparr>us_outreg := mm_and_si128 (us_tmp s) (us_mask s)\<rparr>)"
| "unpack_step inp (OrShlMask b k) s =
     Some (s\<lparr>us_outreg := mm_or_si128 (us_outreg s)
                (mm_and_si128 (mm_slli_epi32 (us_inreg s) (b - k)) (us_mask s))\<rparr>)"
| "unpack_step inp PrefixStore s =
     (let r = PrefixSum (us_outreg s) (us_off s)
      in Some (s\<lparr>us_outreg := r, us_off := r, us_mem := us_mem s @ [r]\<rparr>))"

fun unpack_exec :: "m128 list \<Rightarrow> unpack_stmt list \<Rightarrow> unpack_state \<Rightarrow> unpack_state option" where
  "unpack_exec inp [] s = Some s"
| "unpack_exec inp (c # cs) s = Option.bind (unpack_step inp c s) (unpack_exec inp cs)"

text \<open>No function reads a register before it has written it; the model starts them at zero.\<close>

definition unpack_init :: "m128 \<Rightarrow> unpack_state" where
  "unpack_init off =
     \<lparr>us_in = 0, us_off = off, us_inreg = mm_set1_epi32 0, us_tmp = mm_set1_epi32 0,
      us_outreg = mm_set1_epi32 0, us_mask = mm_set1_epi32 0, us_mem = []\<rparr>"

definition run_unpack :: "unpack_stmt list \<Rightarrow> m128 \<Rightarrow> m128 list \<Rightarrow> m128 list option" where
  "run_unpack prog initOffset inp = map_option us_mem (unpack_exec inp prog (unpack_init initOffset))"

section \<open>The unpacking functions\<close>

text \<open>
  \<open>iunpack0\<close>: eight rounds of four prefix sums over a zero register; \<open>iunpack32\<close>: a copying
  loop over 32 registers.
\<close>

fun iunpack0_rounds :: "nat \<Rightarrow> m128 \<Rightarrow> m128 list" where
  "iunpack0_rounds 0 initOffset = []"
| "iunpack0_rounds (Suc n) initOffset =
     (let zero = mm_set1_epi32 0;
          o1 = PrefixSum zero initOffset;
          o2 = PrefixSum zero o1;
          o3 = PrefixSum zero o2;
          o4 = PrefixSum zero o3
      in o1 # o2 # o3 # o4 # iunpack0_rounds n o4)"

definition iunpack0 :: "m128 \<Rightarrow> m128 list \<Rightarrow> m128 list option" where
  "iunpack0 initOffset inp = Some (iunpack0_rounds 8 initOffset)"

definition iunpack32 :: "m128 \<Rightarrow> m128 list \<Rightarrow> m128 list option" where
  "iunpack32 initOffset inp = (if 32 \<le> length inp then Some (take 32 inp) else None)"

definition iunpack1 :: "m128 \<Rightarrow> m128 list \<Rightarrow> m128 list option" where
  "iunpack1 = run_unpack
    [LoadReg, SetMask 1, TmpReg, AndMask, PrefixStore, TmpShr 1, AndMask, PrefixStore, TmpShr 2,
     AndMask, PrefixStore, TmpShr 3, AndMask, PrefixStore, TmpShr 4, AndMask, PrefixStore, TmpShr
     5, AndMask, PrefixStore, TmpShr 6, AndMask, PrefixStore, TmpShr 7, AndMask, PrefixStore,
     TmpShr 8, AndMask, PrefixStore, TmpShr 9, AndMask, PrefixStore, TmpShr 10, AndMask,
     PrefixStore, TmpShr 11, AndMask, PrefixStore, TmpShr 12, AndMask, PrefixStore, TmpShr 13,
     AndMask, PrefixStore, TmpShr 14, AndMask, PrefixStore, TmpShr 15, AndMask, PrefixStore, TmpShr
     16, AndMask, PrefixStore, TmpShr 17, AndMask, PrefixStore, TmpShr 18, AndMask, PrefixStore,
     TmpShr 19, AndMask, PrefixStore, TmpShr 20, AndMask, PrefixStore, TmpShr 21, AndMask,
     PrefixStore, TmpShr 22, AndMask, PrefixStore, TmpShr 23, AndMask, PrefixStore, TmpShr 24,
     AndMask, PrefixStore, TmpShr 25, AndMask, PrefixStore, TmpShr 26, AndMask, PrefixStore, TmpShr
     27, AndMask, PrefixStore, TmpShr 28, AndMask, PrefixStore, TmpShr 29, AndMask, PrefixStore,
     TmpShr 30, AndMask, PrefixStore, TmpShr 31, MovTmp, PrefixStore]"

definition iunpack2 :: "m128 \<Rightarrow> m128 list \<Rightarrow> m128 list option" where
  "iunpack2 = run_unpack
    [LoadReg, SetMask 2, TmpReg, AndMask, PrefixStore, TmpShr 2, AndMask, PrefixStore, TmpShr 4,
     AndMask, PrefixStore, TmpShr 6, AndMask, PrefixStore, TmpShr 8, AndMask, PrefixStore, TmpShr
     10, AndMask, PrefixStore, TmpShr 12, AndMask, PrefixStore, TmpShr 14, AndMask, PrefixStore,
     TmpShr 16, AndMask, PrefixStore, TmpShr 18, AndMask, PrefixStore, TmpShr 20, AndMask,
     PrefixStore, TmpShr 22, AndMask, PrefixStore, TmpShr 24, AndMask, PrefixStore, TmpShr 26,
     AndMask, PrefixStore, TmpShr 28, AndMask, PrefixStore, TmpShr 30, MovTmp, NextReg,
     PrefixStore, TmpReg, AndMask, PrefixStore, TmpShr 2, AndMask, PrefixStore, TmpShr 4, AndMask,
     PrefixStore, TmpShr 6, AndMask, PrefixStore, TmpShr 8, AndMask, PrefixStore, TmpShr 10,
     AndMask, PrefixStore, TmpShr 12, AndMask, PrefixStore, TmpShr 14, AndMask, PrefixStore, TmpShr
     16, AndMask, PrefixStore, TmpShr 18, AndMask, PrefixStore, TmpShr 20, AndMask, PrefixStore,
     TmpShr 22, AndMask, PrefixStore, TmpShr 24, AndMask, PrefixStore, TmpShr 26, AndMask,
     PrefixStore, TmpShr 28, AndMask, PrefixStore, TmpShr 30, MovTmp, PrefixStore]"

definition iunpack3 :: "m128 \<Rightarrow> m128 list \<Rightarrow> m128 list option" where
  "iunpack3 = run_unpack
    [LoadReg, SetMask 3, TmpReg, AndMask, PrefixStore, TmpShr 3, AndMask, PrefixStore, TmpShr 6,
     AndMask, PrefixStore, TmpShr 9, AndMask, PrefixStore, TmpShr 12, AndMask, PrefixStore, TmpShr
     15, AndMask, PrefixStore, TmpShr 18, AndMask, PrefixStore, TmpShr 21, AndMask, PrefixStore,
     TmpShr 24, AndMask, PrefixStore, TmpShr 27, AndMask, PrefixStore, TmpShr 30, MovTmp, NextReg,
     OrShlMask 3 1, PrefixStore, TmpShr 1, AndMask, PrefixStore, TmpShr 4, AndMask, PrefixStore,
     TmpShr 7, AndMask, PrefixStore, TmpShr 10, AndMask, PrefixStore, TmpShr 13, AndMask,
     PrefixStore, TmpShr 16, AndMask, PrefixStore, TmpShr 19, AndMask, PrefixStore, TmpShr 22,
     AndMask, PrefixStore, TmpShr 25, AndMask, PrefixStore, TmpShr 28, AndMask, PrefixStore, TmpShr
     31, MovTmp, NextReg, OrShlMask 3 2, PrefixStore, TmpShr 2, AndMask, PrefixStore, TmpShr 5,
     AndMask, PrefixStore, TmpShr 8, AndMask, PrefixStore, TmpShr 11, AndMask, PrefixStore, TmpShr
     14, AndMask, PrefixStore, TmpShr 17, AndMask, PrefixStore, TmpShr 20, AndMask, PrefixStore,
     TmpShr 23, AndMask, PrefixStore, TmpShr 26, AndMask, PrefixStore, TmpShr 29, MovTmp,
     PrefixStore]"

definition iunpack4 :: "m128 \<Rightarrow> m128 list \<Rightarrow> m128 list option" where
  "iunpack4 = run_unpack
    [LoadReg, SetMask 4, TmpReg, AndMask, PrefixStore, TmpShr 4, AndMask, PrefixStore, TmpShr 8,
     AndMask, PrefixStore, TmpShr 12, AndMask, PrefixStore, TmpShr 16, AndMask, PrefixStore, TmpShr
     20, AndMask, PrefixStore, TmpShr 24, AndMask, PrefixStore, TmpShr 28, MovTmp, NextReg,
     PrefixStore, TmpReg, AndMask, PrefixStore, TmpShr 4, AndMask, PrefixStore, TmpShr 8, AndMask,
     PrefixStore, TmpShr 12, AndMask, PrefixStore, TmpShr 16, AndMask, PrefixStore, TmpShr 20,
     AndMask, PrefixStore, TmpShr 24, AndMask, PrefixStore, TmpShr 28, MovTmp, NextReg,
     PrefixStore, TmpReg, AndMask, PrefixStore, TmpShr 4, AndMask, PrefixStore, TmpShr 8, AndMask,
     PrefixStore, TmpShr 12, AndMask, PrefixStore, TmpShr 16, AndMask, PrefixStore, TmpShr 20,
     AndMask, PrefixStore, TmpShr 24, AndMask, PrefixStore, TmpShr 28, MovTmp, NextReg,
     PrefixStore, TmpReg, AndMask, PrefixStore, TmpShr 4, AndMask, PrefixStore, TmpShr 8, AndMask,
     PrefixStore, TmpShr 12, AndMask, PrefixStore, TmpShr 16, AndMask, PrefixStore, TmpShr 20,
     AndMask, PrefixStore, TmpShr 24, AndMask, PrefixStore, TmpShr 28, MovTmp, PrefixStore]"

definition iunpack5 :: "m128 \<Rightarrow> m128 list \<Rightarrow> m128 list option" where
  "iunpack5 = run_unpack
    [LoadReg, SetMask 5, TmpReg, AndMask, PrefixStore, TmpShr 5, AndMask, PrefixStore, TmpShr 10,
     AndMask, PrefixStore, TmpShr 15, AndMask, PrefixStore, TmpShr 20, AndMask, PrefixStore, TmpShr
     25, AndMask, PrefixStore, TmpShr 30, MovTmp, NextReg, OrShlMask 5 3, PrefixStore, TmpShr 3,
     AndMask, PrefixStore, TmpShr 8, AndMask, PrefixStore, TmpShr 13, AndMask, PrefixStore, TmpShr
     18, AndMask, PrefixStore, TmpShr 23, AndMask, PrefixStore, TmpShr 28, MovTmp, NextReg,
     OrShlMask 5 1, PrefixStore, TmpShr 1, AndMask, PrefixStore, TmpShr 6, AndMask, PrefixStore,
     TmpShr 11, AndMask, PrefixStore, TmpShr 16, AndMask, PrefixStore, TmpShr 21, AndMask,
     PrefixStore, TmpShr 26, AndMask, PrefixStore, TmpShr 31, MovTmp, NextReg, OrShlMask 5 4,
     PrefixStore, TmpShr 4, AndMask, PrefixStore, TmpShr 9, AndMask, PrefixStore, TmpShr 14,
     AndMask, PrefixStore, TmpShr 19, AndMask, PrefixStore, TmpShr 24, AndMask, PrefixStore, TmpShr
     29, MovTmp, NextReg, OrShlMask 5 2, PrefixStore, TmpShr 2, AndMask, PrefixStore, TmpShr 7,
     AndMask, PrefixStore, TmpShr 12, AndMask, PrefixStore, TmpShr 17, AndMask, PrefixStore, TmpShr
     22, AndMask, PrefixStore, TmpShr 27, MovTmp, PrefixStore]"

definition iunpack6 :: "m128 \<Rightarrow> m128 list \<Rightarrow> m128 list option" where
  "iunpack6 = run_unpack
    [LoadReg, SetMask 6, TmpReg, AndMask, PrefixStore, TmpShr 6, AndMask, PrefixStore, TmpShr 12,
     AndMask, PrefixStore, TmpShr 18, AndMask, PrefixStore, TmpShr 24, AndMask, PrefixStore, TmpShr
     30, MovTmp, NextReg, OrShlMask 6 4, PrefixStore, TmpShr 4, AndMask, PrefixStore, TmpShr 10,
     AndMask, PrefixStore, TmpShr 16, AndMask, PrefixStore, TmpShr 22, AndMask, PrefixStore, TmpShr
     28, MovTmp, NextReg, OrShlMask 6 2, PrefixStore, TmpShr 2, AndMask, PrefixStore, TmpShr 8,
     AndMask, PrefixStore, TmpShr 14, AndMask, PrefixStore, TmpShr 20, AndMask, PrefixStore, TmpShr
     26, MovTmp, NextReg, PrefixStore, TmpReg, AndMask, PrefixStore, TmpShr 6, AndMask,
     PrefixStore, TmpShr 12, AndMask, PrefixStore, TmpShr 18, AndMask, PrefixStore, TmpShr 24,
     AndMask, PrefixStore, TmpShr 30, MovTmp, NextReg, OrShlMask 6 4, PrefixStore, TmpShr 4,
     AndMask, PrefixStore, TmpShr 10, AndMask, PrefixStore, TmpShr 16, AndMask, PrefixStore, TmpShr
     22, AndMask, PrefixStore, TmpShr 28, MovTmp, NextReg, OrShlMask 6 2, PrefixStore, TmpShr 2,
     AndMask, PrefixStore, TmpShr 8, AndMask, PrefixStore, TmpShr 14, AndMask, PrefixStore, TmpShr
     20, AndMask, PrefixStore, TmpShr 26, MovTmp, PrefixStore]"

definition iunpack7 :: "m128 \<Rightarrow> m128 list \<Rightarrow> m128 list option" where
  "iunpack7 = run_unpack
    [LoadReg, SetMask 7, TmpReg, AndMask, PrefixStore, TmpShr 7, AndMask, PrefixStore, TmpShr 14,
     AndMask, PrefixStore, TmpShr 21, AndMask, PrefixStore, TmpShr 28, MovTmp, NextReg, OrShlMask 7
     3, PrefixStore, TmpShr 3, AndMask, PrefixStore, TmpShr 10, AndMask, PrefixStore, TmpShr 17,
     AndMask, PrefixStore, TmpShr 24, AndMask, PrefixStore, TmpShr 31, MovTmp, NextReg, OrShlMask 7
     6, PrefixStore, TmpShr 6, AndMask, PrefixStore, TmpShr 13, AndMask, PrefixStore, TmpShr 20,
     AndMask, PrefixStore, TmpShr 27, MovTmp, NextReg, OrShlMask 7 2, PrefixStore, TmpShr 2,
     AndMask, PrefixStore, TmpShr 9, AndMask, PrefixStore, TmpShr 16, AndMask, PrefixStore, TmpShr
     23, AndMask, PrefixStore, TmpShr 30, MovTmp, NextReg, OrShlMask 7 5, PrefixStore, TmpShr 5,
     AndMask, PrefixStore, TmpShr 12, AndMask, PrefixStore, TmpShr 19, AndMask, PrefixStore, TmpShr
     26, MovTmp, NextReg, OrShlMask 7 1, PrefixStore, TmpShr 1, AndMask, PrefixStore, TmpShr 8,
     AndMask, PrefixStore, TmpShr 15, AndMask, PrefixStore, TmpShr 22, AndMask, PrefixStore, TmpShr
     29, MovTmp, NextReg, OrShlMask 7 4, PrefixStore, TmpShr 4, AndMask, PrefixStore, TmpShr 11,
     AndMask, PrefixStore, TmpShr 18, AndMask, PrefixStore, TmpShr 25, MovTmp, PrefixStore]"

definition iunpack8 :: "m128 \<Rightarrow> m128 list \<Rightarrow> m128 list option" where
  "iunpack8 = run_unpack
    [LoadReg, SetMask 8, TmpReg, AndMask, PrefixStore, TmpShr 8, AndMask, PrefixStore, TmpShr 16,
     AndMask, PrefixStore, TmpShr 24, MovTmp, NextReg, PrefixStore, TmpReg, AndMask, PrefixStore,
     TmpShr 8, AndMask, PrefixStore, TmpShr 16, AndMask, PrefixStore, TmpShr 24, MovTmp, NextReg,
     PrefixStore, TmpReg, AndMask, PrefixStore, TmpShr 8, AndMask, PrefixStore, TmpShr 16, AndMask,
     PrefixStore, TmpShr 24, MovTmp, NextReg, PrefixStore, TmpReg, AndMask, PrefixStore, TmpShr 8,
     AndMask, PrefixStore, TmpShr 16, AndMask, PrefixStore, TmpShr 24, MovTmp, NextReg,
     PrefixStore, TmpReg, AndMask, PrefixStore, TmpShr 8, AndMask, PrefixStore, TmpShr 16, AndMask,
     PrefixStore, TmpShr 24, MovTmp, NextReg, PrefixStore, TmpReg, AndMask, PrefixStore, TmpShr 8,
     AndMask, PrefixStore, TmpShr 16, AndMask, PrefixStore, TmpShr 24, MovTmp, NextReg,
     PrefixStore, TmpReg, AndMask, PrefixStore, TmpShr 8, AndMask, PrefixStore, TmpShr 16, AndMask,
     PrefixStore, TmpShr 24, MovTmp, NextReg, PrefixStore, TmpReg, AndMask, PrefixStore, TmpShr 8,
     AndMask, PrefixStore, TmpShr 16, AndMask, PrefixStore, TmpShr 24, MovTmp, PrefixStore]"

definition iunpack9 :: "m128 \<Rightarrow> m128 list \<Rightarrow> m128 list option" where
  "iunpack9 = run_unpack
    [LoadReg, SetMask 9, TmpReg, AndMask, PrefixStore, TmpShr 9, AndMask, PrefixStore, TmpShr 18,
     AndMask, PrefixStore, TmpShr 27, MovTmp, NextReg, OrShlMask 9 4, PrefixStore, TmpShr 4,
     AndMask, PrefixStore, TmpShr 13, AndMask, PrefixStore, TmpShr 22, AndMask, PrefixStore, TmpShr
     31, MovTmp, NextReg, OrShlMask 9 8, PrefixStore, TmpShr 8, AndMask, PrefixStore, TmpShr 17,
     AndMask, PrefixStore, TmpShr 26, MovTmp, NextReg, OrShlMask 9 3, PrefixStore, TmpShr 3,
     AndMask, PrefixStore, TmpShr 12, AndMask, PrefixStore, TmpShr 21, AndMask, PrefixStore, TmpShr
     30, MovTmp, NextReg, OrShlMask 9 7, PrefixStore, TmpShr 7, AndMask, PrefixStore, TmpShr 16,
     AndMask, PrefixStore, TmpShr 25, MovTmp, NextReg, OrShlMask 9 2, PrefixStore, TmpShr 2,
     AndMask, PrefixStore, TmpShr 11, AndMask, PrefixStore, TmpShr 20, AndMask, PrefixStore, TmpShr
     29, MovTmp, NextReg, OrShlMask 9 6, PrefixStore, TmpShr 6, AndMask, PrefixStore, TmpShr 15,
     AndMask, PrefixStore, TmpShr 24, MovTmp, NextReg, OrShlMask 9 1, PrefixStore, TmpShr 1,
     AndMask, PrefixStore, TmpShr 10, AndMask, PrefixStore, TmpShr 19, AndMask, PrefixStore, TmpShr
     28, MovTmp, NextReg, OrShlMask 9 5, PrefixStore, TmpShr 5, AndMask, PrefixStore, TmpShr 14,
     AndMask, PrefixStore, TmpShr 23, MovTmp, PrefixStore]"

definition iunpack10 :: "m128 \<Rightarrow> m128 list \<Rightarrow> m128 list option" where
  "iunpack10 = run_unpack
    [LoadReg, SetMask 10, TmpReg, AndMask, PrefixStore, TmpShr 10, AndMask, PrefixStore, TmpShr 20,
     AndMask, PrefixStore, TmpShr 30, MovTmp, NextReg, OrShlMask 10 8, PrefixStore, TmpShr 8,
     AndMask, PrefixStore, TmpShr 18, AndMask, PrefixStore, TmpShr 28, MovTmp, NextReg, OrShlMask
     10 6, PrefixStore, TmpShr 6, AndMask, PrefixStore, TmpShr 16, AndMask, PrefixStore, TmpShr 26,
     MovTmp, NextReg, OrShlMask 10 4, PrefixStore, TmpShr 4, AndMask, PrefixStore, TmpShr 14,
     AndMask, PrefixStore, TmpShr 24, MovTmp, NextReg, OrShlMask 10 2, PrefixStore, TmpShr 2,
     AndMask, PrefixStore, TmpShr 12, AndMask, PrefixStore, TmpShr 22, MovTmp, NextReg,
     PrefixStore, TmpReg, AndMask, PrefixStore, TmpShr 10, AndMask, PrefixStore, TmpShr 20,
     AndMask, PrefixStore, TmpShr 30, MovTmp, NextReg, OrShlMask 10 8, PrefixStore, TmpShr 8,
     AndMask, PrefixStore, TmpShr 18, AndMask, PrefixStore, TmpShr 28, MovTmp, NextReg, OrShlMask
     10 6, PrefixStore, TmpShr 6, AndMask, PrefixStore, TmpShr 16, AndMask, PrefixStore, TmpShr 26,
     MovTmp, NextReg, OrShlMask 10 4, PrefixStore, TmpShr 4, AndMask, PrefixStore, TmpShr 14,
     AndMask, PrefixStore, TmpShr 24, MovTmp, NextReg, OrShlMask 10 2, PrefixStore, TmpShr 2,
     AndMask, PrefixStore, TmpShr 12, AndMask, PrefixStore, TmpShr 22, MovTmp, PrefixStore]"

definition iunpack11 :: "m128 \<Rightarrow> m128 list \<Rightarrow> m128 list option" where
  "iunpack11 = run_unpack
    [LoadReg, SetMask 11, TmpReg, AndMask, PrefixStore, TmpShr 11, AndMask, PrefixStore, TmpShr 22,
     MovTmp, NextReg, OrShlMask 11 1, PrefixStore, TmpShr 1, AndMask, PrefixStore, TmpShr 12,
     AndMask, PrefixStore, TmpShr 23, MovTmp, NextReg, OrShlMask 11 2, PrefixStore, TmpShr 2,
     AndMask, PrefixStore, TmpShr 13, AndMask, PrefixStore, TmpShr 24, MovTmp, NextReg, OrShlMask
     11 3, PrefixStore, TmpShr 3, AndMask, PrefixStore, TmpShr 14, AndMask, PrefixStore, TmpShr 25,
     MovTmp, NextReg, OrShlMask 11 4, PrefixStore, TmpShr 4, AndMask, PrefixStore, TmpShr 15,
     AndMask, PrefixStore, TmpShr 26, MovTmp, NextReg, OrShlMask 11 5, PrefixStore, TmpShr 5,
     AndMask, PrefixStore, TmpShr 16, AndMask, PrefixStore, TmpShr 27, MovTmp, NextReg, OrShlMask
     11 6, PrefixStore, TmpShr 6, AndMask, PrefixStore, TmpShr 17, AndMask, PrefixStore, TmpShr 28,
     MovTmp, NextReg, OrShlMask 11 7, PrefixStore, TmpShr 7, AndMask, PrefixStore, TmpShr 18,
     AndMask, PrefixStore, TmpShr 29, MovTmp, NextReg, OrShlMask 11 8, PrefixStore, TmpShr 8,
     AndMask, PrefixStore, TmpShr 19, AndMask, PrefixStore, TmpShr 30, MovTmp, NextReg, OrShlMask
     11 9, PrefixStore, TmpShr 9, AndMask, PrefixStore, TmpShr 20, AndMask, PrefixStore, TmpShr 31,
     MovTmp, NextReg, OrShlMask 11 10, PrefixStore, TmpShr 10, AndMask, PrefixStore, TmpShr 21,
     MovTmp, PrefixStore]"

definition iunpack12 :: "m128 \<Rightarrow> m128 list \<Rightarrow> m128 list option" where
  "iunpack12 = run_unpack
    [LoadReg, SetMask 12, TmpReg, AndMask, PrefixStore, TmpShr 12, AndMask, PrefixStore, TmpShr 24,
     MovTmp, NextReg, OrShlMask 12 4, PrefixStore, TmpShr 4, AndMask, PrefixStore, TmpShr 16,
     AndMask, PrefixStore, TmpShr 28, MovTmp, NextReg, OrShlMask 12 8, PrefixStore, TmpShr 8,
     AndMask, PrefixStore, TmpShr 20, MovTmp, NextReg, PrefixStore, TmpReg, AndMask, PrefixStore,
     TmpShr 12, AndMask, PrefixStore, TmpShr 24, MovTmp, NextReg, OrShlMask 12 4, PrefixStore,
     TmpShr 4, AndMask, PrefixStore, TmpShr 16, AndMask, PrefixStore, TmpShr 28, MovTmp, NextReg,
     OrShlMask 12 8, PrefixStore, TmpShr 8, AndMask, PrefixStore, TmpShr 20, MovTmp, NextReg,
     PrefixStore, TmpReg, AndMask, PrefixStore, TmpShr 12, AndMask, PrefixStore, TmpShr 24, MovTmp,
     NextReg, OrShlMask 12 4, PrefixStore, TmpShr 4, AndMask, PrefixStore, TmpShr 16, AndMask,
     PrefixStore, TmpShr 28, MovTmp, NextReg, OrShlMask 12 8, PrefixStore, TmpShr 8, AndMask,
     PrefixStore, TmpShr 20, MovTmp, NextReg, PrefixStore, TmpReg, AndMask, PrefixStore, TmpShr 12,
     AndMask, PrefixStore, TmpShr 24, MovTmp, NextReg, OrShlMask 12 4, PrefixStore, TmpShr 4,
     AndMask, PrefixStore, TmpShr 16, AndMask, PrefixStore, TmpShr 28, MovTmp, NextReg, OrShlMask
     12 8, PrefixStore, TmpShr 8, AndMask, PrefixStore, TmpShr 20, MovTmp, PrefixStore]"

definition iunpack13 :: "m128 \<Rightarrow> m128 list \<Rightarrow> m128 list option" where
  "iunpack13 = run_unpack
    [LoadReg, SetMask 13, TmpReg, AndMask, PrefixStore, TmpShr 13, AndMask, PrefixStore, TmpShr 26,
     MovTmp, NextReg, OrShlMask 13 7, PrefixStore, TmpShr 7, AndMask, PrefixStore, TmpShr 20,
     MovTmp, NextReg, OrShlMask 13 1, PrefixStore, TmpShr 1, AndMask, PrefixStore, TmpShr 14,
     AndMask, PrefixStore, TmpShr 27, MovTmp, NextReg, OrShlMask 13 8, PrefixStore, TmpShr 8,
     AndMask, PrefixStore, TmpShr 21, MovTmp, NextReg, OrShlMask 13 2, PrefixStore, TmpShr 2,
     AndMask, PrefixStore, TmpShr 15, AndMask, PrefixStore, TmpShr 28, MovTmp, NextReg, OrShlMask
     13 9, PrefixStore, TmpShr 9, AndMask, PrefixStore, TmpShr 22, MovTmp, NextReg, OrShlMask 13 3,
     PrefixStore, TmpShr 3, AndMask, PrefixStore, TmpShr 16, AndMask, PrefixStore, TmpShr 29,
     MovTmp, NextReg, OrShlMask 13 10, PrefixStore, TmpShr 10, AndMask, PrefixStore, TmpShr 23,
     MovTmp, NextReg, OrShlMask 13 4, PrefixStore, TmpShr 4, AndMask, PrefixStore, TmpShr 17,
     AndMask, PrefixStore, TmpShr 30, MovTmp, NextReg, OrShlMask 13 11, PrefixStore, TmpShr 11,
     AndMask, PrefixStore, TmpShr 24, MovTmp, NextReg, OrShlMask 13 5, PrefixStore, TmpShr 5,
     AndMask, PrefixStore, TmpShr 18, AndMask, PrefixStore, TmpShr 31, MovTmp, NextReg, OrShlMask
     13 12, PrefixStore, TmpShr 12, AndMask, PrefixStore, TmpShr 25, MovTmp, NextReg, OrShlMask 13
     6, PrefixStore, TmpShr 6, AndMask, PrefixStore, TmpShr 19, MovTmp, PrefixStore]"

definition iunpack14 :: "m128 \<Rightarrow> m128 list \<Rightarrow> m128 list option" where
  "iunpack14 = run_unpack
    [LoadReg, SetMask 14, TmpReg, AndMask, PrefixStore, TmpShr 14, AndMask, PrefixStore, TmpShr 28,
     MovTmp, NextReg, OrShlMask 14 10, PrefixStore, TmpShr 10, AndMask, PrefixStore, TmpShr 24,
     MovTmp, NextReg, OrShlMask 14 6, PrefixStore, TmpShr 6, AndMask, PrefixStore, TmpShr 20,
     MovTmp, NextReg, OrShlMask 14 2, PrefixStore, TmpShr 2, AndMask, PrefixStore, TmpShr 16,
     AndMask, PrefixStore, TmpShr 30, MovTmp, NextReg, OrShlMask 14 12, PrefixStore, TmpShr 12,
     AndMask, PrefixStore, TmpShr 26, MovTmp, NextReg, OrShlMask 14 8, PrefixStore, TmpShr 8,
     AndMask, PrefixStore, TmpShr 22, MovTmp, NextReg, OrShlMask 14 4, PrefixStore, TmpShr 4,
     AndMask, PrefixStore, TmpShr 18, MovTmp, NextReg, PrefixStore, TmpReg, AndMask, PrefixStore,
     TmpShr 14, AndMask, PrefixStore, TmpShr 28, MovTmp, NextReg, OrShlMask 14 10, PrefixStore,
     TmpShr 10, AndMask, PrefixStore, TmpShr 24, MovTmp, NextReg, OrShlMask 14 6, PrefixStore,
     TmpShr 6, AndMask, PrefixStore, TmpShr 20, MovTmp, NextReg, OrShlMask 14 2, PrefixStore,
     TmpShr 2, AndMask, PrefixStore, TmpShr 16, AndMask, PrefixStore, TmpShr 30, MovTmp, NextReg,
     OrShlMask 14 12, PrefixStore, TmpShr 12, AndMask, PrefixStore, TmpShr 26, MovTmp, NextReg,
     OrShlMask 14 8, PrefixStore, TmpShr 8, AndMask, PrefixStore, TmpShr 22, MovTmp, NextReg,
     OrShlMask 14 4, PrefixStore, TmpShr 4, AndMask, PrefixStore, TmpShr 18, MovTmp, PrefixStore]"

definition iunpack15 :: "m128 \<Rightarrow> m128 list \<Rightarrow> m128 list option" where
  "iunpack15 = run_unpack
    [LoadReg, SetMask 15, TmpReg, AndMask, PrefixStore, TmpShr 15, AndMask, PrefixStore, TmpShr 30,
     MovTmp, NextReg, OrShlMask 15 13, PrefixStore, TmpShr 13, AndMask, PrefixStore, TmpShr 28,
     MovTmp, NextReg, OrShlMask 15 11, PrefixStore, TmpShr 11, AndMask, PrefixStore, TmpShr 26,
     MovTmp, NextReg, OrShlMask 15 9, PrefixStore, TmpShr 9, AndMask, PrefixStore, TmpShr 24,
     MovTmp, NextReg, OrShlMask 15 7, PrefixStore, TmpShr 7, AndMask, PrefixStore, TmpShr 22,
     MovTmp, NextReg, OrShlMask 15 5, PrefixStore, TmpShr 5, AndMask, PrefixStore, TmpShr 20,
     MovTmp, NextReg, OrShlMask 15 3, PrefixStore, TmpShr 3, AndMask, PrefixStore, TmpShr 18,
     MovTmp, NextReg, OrShlMask 15 1, PrefixStore, TmpShr 1, AndMask, PrefixStore, TmpShr 16,
     AndMask, PrefixStore, TmpShr 31, MovTmp, NextReg, OrShlMask 15 14, PrefixStore, TmpShr 14,
     AndMask, PrefixStore, TmpShr 29, MovTmp, NextReg, OrShlMask 15 12, PrefixStore, TmpShr 12,
     AndMask, PrefixStore, TmpShr 27, MovTmp, NextReg, OrShlMask 15 10, PrefixStore, TmpShr 10,
     AndMask, PrefixStore, TmpShr 25, MovTmp, NextReg, OrShlMask 15 8, PrefixStore, TmpShr 8,
     AndMask, PrefixStore, TmpShr 23, MovTmp, NextReg, OrShlMask 15 6, PrefixStore, TmpShr 6,
     AndMask, PrefixStore, TmpShr 21, MovTmp, NextReg, OrShlMask 15 4, PrefixStore, TmpShr 4,
     AndMask, PrefixStore, TmpShr 19, MovTmp, NextReg, OrShlMask 15 2, PrefixStore, TmpShr 2,
     AndMask, PrefixStore, TmpShr 17, MovTmp, PrefixStore]"

definition iunpack16 :: "m128 \<Rightarrow> m128 list \<Rightarrow> m128 list option" where
  "iunpack16 = run_unpack
    [LoadReg, SetMask 16, TmpReg, AndMask, PrefixStore, TmpShr 16, MovTmp, NextReg, PrefixStore,
     TmpReg, AndMask, PrefixStore, TmpShr 16, MovTmp, NextReg, PrefixStore, TmpReg, AndMask,
     PrefixStore, TmpShr 16, MovTmp, NextReg, PrefixStore, TmpReg, AndMask, PrefixStore, TmpShr 16,
     MovTmp, NextReg, PrefixStore, TmpReg, AndMask, PrefixStore, TmpShr 16, MovTmp, NextReg,
     PrefixStore, TmpReg, AndMask, PrefixStore, TmpShr 16, MovTmp, NextReg, PrefixStore, TmpReg,
     AndMask, PrefixStore, TmpShr 16, MovTmp, NextReg, PrefixStore, TmpReg, AndMask, PrefixStore,
     TmpShr 16, MovTmp, NextReg, PrefixStore, TmpReg, AndMask, PrefixStore, TmpShr 16, MovTmp,
     NextReg, PrefixStore, TmpReg, AndMask, PrefixStore, TmpShr 16, MovTmp, NextReg, PrefixStore,
     TmpReg, AndMask, PrefixStore, TmpShr 16, MovTmp, NextReg, PrefixStore, TmpReg, AndMask,
     PrefixStore, TmpShr 16, MovTmp, NextReg, PrefixStore, TmpReg, AndMask, PrefixStore, TmpShr 16,
     MovTmp, NextReg, PrefixStore, TmpReg, AndMask, PrefixStore, TmpShr 16, MovTmp, NextReg,
     PrefixStore, TmpReg, AndMask, PrefixStore, TmpShr 16, MovTmp, NextReg, PrefixStore, TmpReg,
     AndMask, PrefixStore, TmpShr 16, MovTmp, PrefixStore]"

definition iunpack17 :: "m128 \<Rightarrow> m128 list \<Rightarrow> m128 list option" where
  "iunpack17 = run_unpack
    [LoadReg, SetMask 17, TmpReg, AndMask, PrefixStore, TmpShr 17, MovTmp, NextReg, OrShlMask 17 2,
     PrefixStore, TmpShr 2, AndMask, PrefixStore, TmpShr 19, MovTmp, NextReg, OrShlMask 17 4,
     PrefixStore, TmpShr 4, AndMask, PrefixStore, TmpShr 21, MovTmp, NextReg, OrShlMask 17 6,
     PrefixStore, TmpShr 6, AndMask, PrefixStore, TmpShr 23, MovTmp, NextReg, OrShlMask 17 8,
     PrefixStore, TmpShr 8, AndMask, PrefixStore, TmpShr 25, MovTmp, NextReg, OrShlMask 17 10,
     PrefixStore, TmpShr 10, AndMask, PrefixStore, TmpShr 27, MovTmp, NextReg, OrShlMask 17 12,
     PrefixStore, TmpShr 12, AndMask, PrefixStore, TmpShr 29, MovTmp, NextReg, OrShlMask 17 14,
     PrefixStore, TmpShr 14, AndMask, PrefixStore, TmpShr 31, MovTmp, NextReg, OrShlMask 17 16,
     PrefixStore, TmpShr 16, MovTmp, NextReg, OrShlMask 17 1, PrefixStore, TmpShr 1, AndMask,
     PrefixStore, TmpShr 18, MovTmp, NextReg, OrShlMask 17 3, PrefixStore, TmpShr 3, AndMask,
     PrefixStore, TmpShr 20, MovTmp, NextReg, OrShlMask 17 5, PrefixStore, TmpShr 5, AndMask,
     PrefixStore, TmpShr 22, MovTmp, NextReg, OrShlMask 17 7, PrefixStore, TmpShr 7, AndMask,
     PrefixStore, TmpShr 24, MovTmp, NextReg, OrShlMask 17 9, PrefixStore, TmpShr 9, AndMask,
     PrefixStore, TmpShr 26, MovTmp, NextReg, OrShlMask 17 11, PrefixStore, TmpShr 11, AndMask,
     PrefixStore, TmpShr 28, MovTmp, NextReg, OrShlMask 17 13, PrefixStore, TmpShr 13, AndMask,
     PrefixStore, TmpShr 30, MovTmp, NextReg, OrShlMask 17 15, PrefixStore, TmpShr 15, MovTmp,
     PrefixStore]"

definition iunpack18 :: "m128 \<Rightarrow> m128 list \<Rightarrow> m128 list option" where
  "iunpack18 = run_unpack
    [LoadReg, SetMask 18, TmpReg, AndMask, PrefixStore, TmpShr 18, MovTmp, NextReg, OrShlMask 18 4,
     PrefixStore, TmpShr 4, AndMask, PrefixStore, TmpShr 22, MovTmp, NextReg, OrShlMask 18 8,
     PrefixStore, TmpShr 8, AndMask, PrefixStore, TmpShr 26, MovTmp, NextReg, OrShlMask 18 12,
     PrefixStore, TmpShr 12, AndMask, PrefixStore, TmpShr 30, MovTmp, NextReg, OrShlMask 18 16,
     PrefixStore, TmpShr 16, MovTmp, NextReg, OrShlMask 18 2, PrefixStore, TmpShr 2, AndMask,
     PrefixStore, TmpShr 20, MovTmp, NextReg, OrShlMask 18 6, PrefixStore, TmpShr 6, AndMask,
     PrefixStore, TmpShr 24, MovTmp, NextReg, OrShlMask 18 10, PrefixStore, TmpShr 10, AndMask,
     PrefixStore, TmpShr 28, MovTmp, NextReg, OrShlMask 18 14, PrefixStore, TmpShr 14, MovTmp,
     NextReg, PrefixStore, TmpReg, AndMask, PrefixStore, TmpShr 18, MovTmp, NextReg, OrShlMask 18
     4, PrefixStore, TmpShr 4, AndMask, PrefixStore, TmpShr 22, MovTmp, NextReg, OrShlMask 18 8,
     PrefixStore, TmpShr 8, AndMask, PrefixStore, TmpShr 26, MovTmp, NextReg, OrShlMask 18 12,
     PrefixStore, TmpShr 12, AndMask, PrefixStore, TmpShr 30, MovTmp, NextReg, OrShlMask 18 16,
     PrefixStore, TmpShr 16, MovTmp, NextReg, OrShlMask 18 2, PrefixStore, TmpShr 2, AndMask,
     PrefixStore, TmpShr 20, MovTmp, NextReg, OrShlMask 18 6, PrefixStore, TmpShr 6, AndMask,
     PrefixStore, TmpShr 24, MovTmp, NextReg, OrShlMask 18 10, PrefixStore, TmpShr 10, AndMask,
     PrefixStore, TmpShr 28, MovTmp, NextReg, OrShlMask 18 14, PrefixStore, TmpShr 14, MovTmp,
     PrefixStore]"

definition iunpack19 :: "m128 \<Rightarrow> m128 list \<Rightarrow> m128 list option" where
  "iunpack19 = run_unpack
    [LoadReg, SetMask 19, TmpReg, AndMask, PrefixStore, TmpShr 19, MovTmp, NextReg, OrShlMask 19 6,
     PrefixStore, TmpShr 6, AndMask, PrefixStore, TmpShr 25, MovTmp, NextReg, OrShlMask 19 12,
     PrefixStore, TmpShr 12, AndMask, PrefixStore, TmpShr 31, MovTmp, NextReg, OrShlMask 19 18,
     PrefixStore, TmpShr 18, MovTmp, NextReg, OrShlMask 19 5, PrefixStore, TmpShr 5, AndMask,
     PrefixStore, TmpShr 24, MovTmp, NextReg, OrShlMask 19 11, PrefixStore, TmpShr 11, AndMask,
     PrefixStore, TmpShr 30, MovTmp, NextReg, OrShlMask 19 17, PrefixStore, TmpShr 17, MovTmp,
     NextReg, OrShlMask 19 4, PrefixStore, TmpShr 4, AndMask, PrefixStore, TmpShr 23, MovTmp,
     NextReg, OrShlMask 19 10, PrefixStore, TmpShr 10, AndMask, PrefixStore, TmpShr 29, MovTmp,
     NextReg, OrShlMask 19 16, PrefixStore, TmpShr 16, MovTmp, NextReg, OrShlMask 19 3,
     PrefixStore, TmpShr 3, AndMask, PrefixStore, TmpShr 22, MovTmp, NextReg, OrShlMask 19 9,
     PrefixStore, TmpShr 9, AndMask, PrefixStore, TmpShr 28, MovTmp, NextReg, OrShlMask 19 15,
     PrefixStore, TmpShr 15, MovTmp, NextReg, OrShlMask 19 2, PrefixStore, TmpShr 2, AndMask,
     PrefixStore, TmpShr 21, MovTmp, NextReg, OrShlMask 19 8, PrefixStore, TmpShr 8, AndMask,
     PrefixStore, TmpShr 27, MovTmp, NextReg, OrShlMask 19 14, PrefixStore, TmpShr 14, MovTmp,
     NextReg, OrShlMask 19 1, PrefixStore, TmpShr 1, AndMask, PrefixStore, TmpShr 20, MovTmp,
     NextReg, OrShlMask 19 7, PrefixStore, TmpShr 7, AndMask, PrefixStore, TmpShr 26, MovTmp,
     NextReg, OrShlMask 19 13, PrefixStore, TmpShr 13, MovTmp, PrefixStore]"

definition iunpack20 :: "m128 \<Rightarrow> m128 list \<Rightarrow> m128 list option" where
  "iunpack20 = run_unpack
    [LoadReg, SetMask 20, TmpReg, AndMask, PrefixStore, TmpShr 20, MovTmp, NextReg, OrShlMask 20 8,
     PrefixStore, TmpShr 8, AndMask, PrefixStore, TmpShr 28, MovTmp, NextReg, OrShlMask 20 16,
     PrefixStore, TmpShr 16, MovTmp, NextReg, OrShlMask 20 4, PrefixStore, TmpShr 4, AndMask,
     PrefixStore, TmpShr 24, MovTmp, NextReg, OrShlMask 20 12, PrefixStore, TmpShr 12, MovTmp,
     NextReg, PrefixStore, TmpReg, AndMask, PrefixStore, TmpShr 20, MovTmp, NextReg, OrShlMask 20
     8, PrefixStore, TmpShr 8, AndMask, PrefixStore, TmpShr 28, MovTmp, NextReg, OrShlMask 20 16,
     PrefixStore, TmpShr 16, MovTmp, NextReg, OrShlMask 20 4, PrefixStore, TmpShr 4, AndMask,
     PrefixStore, TmpShr 24, MovTmp, NextReg, OrShlMask 20 12, PrefixStore, TmpShr 12, MovTmp,
     NextReg, PrefixStore, TmpReg, AndMask, PrefixStore, TmpShr 20, MovTmp, NextReg, OrShlMask 20
     8, PrefixStore, TmpShr 8, AndMask, PrefixStore, TmpShr 28, MovTmp, NextReg, OrShlMask 20 16,
     PrefixStore, TmpShr 16, MovTmp, NextReg, OrShlMask 20 4, PrefixStore, TmpShr 4, AndMask,
     PrefixStore, TmpShr 24, MovTmp, NextReg, OrShlMask 20 12, PrefixStore, TmpShr 12, MovTmp,
     NextReg, PrefixStore, TmpReg, AndMask, PrefixStore, TmpShr 20, MovTmp, NextReg, OrShlMask 20
     8, PrefixStore, TmpShr 8, AndMask, PrefixStore, TmpShr 28, MovTmp, NextReg, OrShlMask 20 16,
     PrefixStore, TmpShr 16, MovTmp, NextReg, OrShlMask 20 4, PrefixStore, TmpShr 4, AndMask,
     PrefixStore, TmpShr 24, MovTmp, NextReg, OrShlMask 20 12, PrefixStore, TmpShr 12, MovTmp,
     PrefixStore]"

definition iunpack21 :: "m128 \<Rightarrow> m128 list \<Rightarrow> m128 list option" where
  "iunpack21 = run_unpack
    [LoadReg, SetMask 21, TmpReg, AndMask, PrefixStore, TmpShr 21, MovTmp, NextReg, OrShlMask 21
     10, PrefixStore, TmpShr 10, AndMask, PrefixStore, TmpShr 31, MovTmp, NextReg, OrShlMask 21 20,
     PrefixStore, TmpShr 20, MovTmp, NextReg, OrShlMask 21 9, PrefixStore, TmpShr 9, AndMask,
     PrefixStore, TmpShr 30, MovTmp, NextReg, OrShlMask 21 19, PrefixStore, TmpShr 19, MovTmp,
     NextReg, OrShlMask 21 8, PrefixStore, TmpShr 8, AndMask, PrefixStore, TmpShr 29, MovTmp,
     NextReg, OrShlMask 21 18, PrefixStore, TmpShr 18, MovTmp, NextReg, OrShlMask 21 7,
     PrefixStore, TmpShr 7, AndMask, PrefixStore, TmpShr 28, MovTmp, NextReg, OrShlMask 21 17,
     PrefixStore, TmpShr 17, MovTmp, NextReg, OrShlMask 21 6, PrefixStore, TmpShr 6, AndMask,
     PrefixStore, TmpShr 27, MovTmp, NextReg, OrShlMask 21 16, PrefixStore, TmpShr 16, MovTmp,
     NextReg, OrShlMask 21 5, PrefixStore, TmpShr 5, AndMask, PrefixStore, TmpShr 26, MovTmp,
     NextReg, OrShlMask 21 15, PrefixStore, TmpShr 15, MovTmp, NextReg, OrShlMask 21 4,
     PrefixStore, TmpShr 4, AndMask, PrefixStore, TmpShr 25, MovTmp, NextReg, OrShlMask 21 14,
     PrefixStore, TmpShr 14, MovTmp, NextReg, OrShlMask 21 3, PrefixStore, TmpShr 3, AndMask,
     PrefixStore, TmpShr 24, MovTmp, NextReg, OrShlMask 21 13, PrefixStore, TmpShr 13, MovTmp,
     NextReg, OrShlMask 21 2, PrefixStore, TmpShr 2, AndMask, PrefixStore, TmpShr 23, MovTmp,
     NextReg, OrShlMask 21 12, PrefixStore, TmpShr 12, MovTmp, NextReg, OrShlMask 21 1,
     PrefixStore, TmpShr 1, AndMask, PrefixStore, TmpShr 22, MovTmp, NextReg, OrShlMask 21 11,
     PrefixStore, TmpShr 11, MovTmp, PrefixStore]"

definition iunpack22 :: "m128 \<Rightarrow> m128 list \<Rightarrow> m128 list option" where
  "iunpack22 = run_unpack
    [LoadReg, SetMask 22, TmpReg, AndMask, PrefixStore, TmpShr 22, MovTmp, NextReg, OrShlMask 22
     12, PrefixStore, TmpShr 12, MovTmp, NextReg, OrShlMask 22 2, PrefixStore, TmpShr 2, AndMask,
     PrefixStore, TmpShr 24, MovTmp, NextReg, OrShlMask 22 14, PrefixStore, TmpShr 14, MovTmp,
     NextReg, OrShlMask 22 4, PrefixStore, TmpShr 4, AndMask, PrefixStore, TmpShr 26, MovTmp,
     NextReg, OrShlMask 22 16, PrefixStore, TmpShr 16, MovTmp, NextReg, OrShlMask 22 6,
     PrefixStore, TmpShr 6, AndMask, PrefixStore, TmpShr 28, MovTmp, NextReg, OrShlMask 22 18,
     PrefixStore, TmpShr 18, MovTmp, NextReg, OrShlMask 22 8, PrefixStore, TmpShr 8, AndMask,
     PrefixStore, TmpShr 30, MovTmp, NextReg, OrShlMask 22 20, PrefixStore, TmpShr 20, MovTmp,
     NextReg, OrShlMask 22 10, PrefixStore, TmpShr 10, MovTmp, NextReg, PrefixStore, TmpReg,
     AndMask, PrefixStore, TmpShr 22, MovTmp, NextReg, OrShlMask 22 12, PrefixStore, TmpShr 12,
     MovTmp, NextReg, OrShlMask 22 2, PrefixStore, TmpShr 2, AndMask, PrefixStore, TmpShr 24,
     MovTmp, NextReg, OrShlMask 22 14, PrefixStore, TmpShr 14, MovTmp, NextReg, OrShlMask 22 4,
     PrefixStore, TmpShr 4, AndMask, PrefixStore, TmpShr 26, MovTmp, NextReg, OrShlMask 22 16,
     PrefixStore, TmpShr 16, MovTmp, NextReg, OrShlMask 22 6, PrefixStore, TmpShr 6, AndMask,
     PrefixStore, TmpShr 28, MovTmp, NextReg, OrShlMask 22 18, PrefixStore, TmpShr 18, MovTmp,
     NextReg, OrShlMask 22 8, PrefixStore, TmpShr 8, AndMask, PrefixStore, TmpShr 30, MovTmp,
     NextReg, OrShlMask 22 20, PrefixStore, TmpShr 20, MovTmp, NextReg, OrShlMask 22 10,
     PrefixStore, TmpShr 10, MovTmp, PrefixStore]"

definition iunpack23 :: "m128 \<Rightarrow> m128 list \<Rightarrow> m128 list option" where
  "iunpack23 = run_unpack
    [LoadReg, SetMask 23, TmpReg, AndMask, PrefixStore, TmpShr 23, MovTmp, NextReg, OrShlMask 23
     14, PrefixStore, TmpShr 14, MovTmp, NextReg, OrShlMask 23 5, PrefixStore, TmpShr 5, AndMask,
     PrefixStore, TmpShr 28, MovTmp, NextReg, OrShlMask 23 19, PrefixStore, TmpShr 19, MovTmp,
     NextReg, OrShlMask 23 10, PrefixStore, TmpShr 10, MovTmp, NextReg, OrShlMask 23 1,
     PrefixStore, TmpShr 1, AndMask, PrefixStore, TmpShr 24, MovTmp, NextReg, OrShlMask 23 15,
     PrefixStore, TmpShr 15, MovTmp, NextReg, OrShlMask 23 6, PrefixStore, TmpShr 6, AndMask,
     PrefixStore, TmpShr 29, MovTmp, NextReg, OrShlMask 23 20, PrefixStore, TmpShr 20, MovTmp,
     NextReg, OrShlMask 23 11, PrefixStore, TmpShr 11, MovTmp, NextReg, OrShlMask 23 2,
     PrefixStore, TmpShr 2, AndMask, PrefixStore, TmpShr 25, MovTmp, NextReg, OrShlMask 23 16,
     PrefixStore, TmpShr 16, MovTmp, NextReg, OrShlMask 23 7, PrefixStore, TmpShr 7, AndMask,
     PrefixStore, TmpShr 30, MovTmp, NextReg, OrShlMask 23 21, PrefixStore, TmpShr 21, MovTmp,
     NextReg, OrShlMask 23 12, PrefixStore, TmpShr 12, MovTmp, NextReg, OrShlMask 23 3,
     PrefixStore, TmpShr 3, AndMask, PrefixStore, TmpShr 26, MovTmp, NextReg, OrShlMask 23 17,
     PrefixStore, TmpShr 17, MovTmp, NextReg, OrShlMask 23 8, PrefixStore, TmpShr 8, AndMask,
     PrefixStore, TmpShr 31, MovTmp, NextReg, OrShlMask 23 22, PrefixStore, TmpShr 22, MovTmp,
     NextReg, OrShlMask 23 13, PrefixStore, TmpShr 13, MovTmp, NextReg, OrShlMask 23 4,
     PrefixStore, TmpShr 4, AndMask, PrefixStore, TmpShr 27, MovTmp, NextReg, OrShlMask 23 18,
     PrefixStore, TmpShr 18, MovTmp, NextReg, OrShlMask 23 9, PrefixStore, TmpShr 9, MovTmp,
     PrefixStore]"

definition iunpack24 :: "m128 \<Rightarrow> m128 list \<Rightarrow> m128 list option" where
  "iunpack24 = run_unpack
    [LoadReg, SetMask 24, TmpReg, AndMask, PrefixStore, TmpShr 24, MovTmp, NextReg, OrShlMask 24
     16, PrefixStore, TmpShr 16, MovTmp, NextReg, OrShlMask 24 8, PrefixStore, TmpShr 8, MovTmp,
     NextReg, PrefixStore, TmpReg, AndMask, PrefixStore, TmpShr 24, MovTmp, NextReg, OrShlMask 24
     16, PrefixStore, TmpShr 16, MovTmp, NextReg, OrShlMask 24 8, PrefixStore, TmpShr 8, MovTmp,
     NextReg, PrefixStore, TmpReg, AndMask, PrefixStore, TmpShr 24, MovTmp, NextReg, OrShlMask 24
     16, PrefixStore, TmpShr 16, MovTmp, NextReg, OrShlMask 24 8, PrefixStore, TmpShr 8, MovTmp,
     NextReg, PrefixStore, TmpReg, AndMask, PrefixStore, TmpShr 24, MovTmp, NextReg, OrShlMask 24
     16, PrefixStore, TmpShr 16, MovTmp, NextReg, OrShlMask 24 8, PrefixStore, TmpShr 8, MovTmp,
     NextReg, PrefixStore, TmpReg, AndMask, PrefixStore, TmpShr 24, MovTmp, NextReg, OrShlMask 24
     16, PrefixStore, TmpShr 16, MovTmp, NextReg, OrShlMask 24 8, PrefixStore, TmpShr 8, MovTmp,
     NextReg, PrefixStore, TmpReg, AndMask, PrefixStore, TmpShr 24, MovTmp, NextReg, OrShlMask 24
     16, PrefixStore, TmpShr 16, MovTmp, NextReg, OrShlMask 24 8, PrefixStore, TmpShr 8, MovTmp,
     NextReg, PrefixStore, TmpReg, AndMask, PrefixStore, TmpShr 24, MovTmp, NextReg, OrShlMask 24
     16, PrefixStore, TmpShr 16, MovTmp, NextReg, OrShlMask 24 8, PrefixStore, TmpShr 8, MovTmp,
     NextReg, PrefixStore, TmpReg, AndMask, PrefixStore, TmpShr 24, MovTmp, NextReg, OrShlMask 24
     16, PrefixStore, TmpShr 16, MovTmp, NextReg, OrShlMask 24 8, PrefixStore, TmpShr 8, MovTmp,
     PrefixStore]"

definition iunpack25 :: "m128 \<Rightarrow> m128 list \<Rightarrow> m128 list option" where
  "iunpack25 = run_unpack
    [LoadReg, SetMask 25, TmpReg, AndMask, PrefixStore, TmpShr 25, MovTmp, NextReg, OrShlMask 25
     18, PrefixStore, TmpShr 18, MovTmp, NextReg, OrShlMask 25 11, PrefixStore, TmpShr 11, MovTmp,
     NextReg, OrShlMask 25 4, PrefixStore, TmpShr 4, AndMask, PrefixStore, TmpShr 29, MovTmp,
     NextReg, OrShlMask 25 22, PrefixStore, TmpShr 22, MovTmp, NextReg, OrShlMask 25 15,
     PrefixStore, TmpShr 15, MovTmp, NextReg, OrShlMask 25 8, PrefixStore, TmpShr 8, MovTmp,
     NextReg, OrShlMask 25 1, PrefixStore, TmpShr 1, AndMask, PrefixStore, TmpShr 26, MovTmp,
     NextReg, OrShlMask 25 19, PrefixStore, TmpShr 19, MovTmp, NextReg, OrShlMask 25 12,
     PrefixStore, TmpShr 12, MovTmp, NextReg, OrShlMask 25 5, PrefixStore, TmpShr 5, AndMask,
     PrefixStore, TmpShr 30, MovTmp, NextReg, OrShlMask 25 23, PrefixStore, TmpShr 23, MovTmp,
     NextReg, OrShlMask 25 16, PrefixStore, TmpShr 16, MovTmp, NextReg, OrShlMask 25 9,
     PrefixStore, TmpShr 9, MovTmp, NextReg, OrShlMask 25 2, PrefixStore, TmpShr 2, AndMask,
     PrefixStore, TmpShr 27, MovTmp, NextReg, OrShlMask 25 20, PrefixStore, TmpShr 20, MovTmp,
     NextReg, OrShlMask 25 13, PrefixStore, TmpShr 13, MovTmp, NextReg, OrShlMask 25 6,
     PrefixStore, TmpShr 6, AndMask, PrefixStore, TmpShr 31, MovTmp, NextReg, OrShlMask 25 24,
     PrefixStore, TmpShr 24, MovTmp, NextReg, OrShlMask 25 17, PrefixStore, TmpShr 17, MovTmp,
     NextReg, OrShlMask 25 10, PrefixStore, TmpShr 10, MovTmp, NextReg, OrShlMask 25 3,
     PrefixStore, TmpShr 3, AndMask, PrefixStore, TmpShr 28, MovTmp, NextReg, OrShlMask 25 21,
     PrefixStore, TmpShr 21, MovTmp, NextReg, OrShlMask 25 14, PrefixStore, TmpShr 14, MovTmp,
     NextReg, OrShlMask 25 7, PrefixStore, TmpShr 7, MovTmp, PrefixStore]"

definition iunpack26 :: "m128 \<Rightarrow> m128 list \<Rightarrow> m128 list option" where
  "iunpack26 = run_unpack
    [LoadReg, SetMask 26, TmpReg, AndMask, PrefixStore, TmpShr 26, MovTmp, NextReg, OrShlMask 26
     20, PrefixStore, TmpShr 20, MovTmp, NextReg, OrShlMask 26 14, PrefixStore, TmpShr 14, MovTmp,
     NextReg, OrShlMask 26 8, PrefixStore, TmpShr 8, MovTmp, NextReg, OrShlMask 26 2, PrefixStore,
     TmpShr 2, AndMask, PrefixStore, TmpShr 28, MovTmp, NextReg, OrShlMask 26 22, PrefixStore,
     TmpShr 22, MovTmp, NextReg, OrShlMask 26 16, PrefixStore, TmpShr 16, MovTmp, NextReg,
     OrShlMask 26 10, PrefixStore, TmpShr 10, MovTmp, NextReg, OrShlMask 26 4, PrefixStore, TmpShr
     4, AndMask, PrefixStore, TmpShr 30, MovTmp, NextReg, OrShlMask 26 24, PrefixStore, TmpShr 24,
     MovTmp, NextReg, OrShlMask 26 18, PrefixStore, TmpShr 18, MovTmp, NextReg, OrShlMask 26 12,
     PrefixStore, TmpShr 12, MovTmp, NextReg, OrShlMask 26 6, PrefixStore, TmpShr 6, MovTmp,
     NextReg, PrefixStore, TmpReg, AndMask, PrefixStore, TmpShr 26, MovTmp, NextReg, OrShlMask 26
     20, PrefixStore, TmpShr 20, MovTmp, NextReg, OrShlMask 26 14, PrefixStore, TmpShr 14, MovTmp,
     NextReg, OrShlMask 26 8, PrefixStore, TmpShr 8, MovTmp, NextReg, OrShlMask 26 2, PrefixStore,
     TmpShr 2, AndMask, PrefixStore, TmpShr 28, MovTmp, NextReg, OrShlMask 26 22, PrefixStore,
     TmpShr 22, MovTmp, NextReg, OrShlMask 26 16, PrefixStore, TmpShr 16, MovTmp, NextReg,
     OrShlMask 26 10, PrefixStore, TmpShr 10, MovTmp, NextReg, OrShlMask 26 4, PrefixStore, TmpShr
     4, AndMask, PrefixStore, TmpShr 30, MovTmp, NextReg, OrShlMask 26 24, PrefixStore, TmpShr 24,
     MovTmp, NextReg, OrShlMask 26 18, PrefixStore, TmpShr 18, MovTmp, NextReg, OrShlMask 26 12,
     PrefixStore, TmpShr 12, MovTmp, NextReg, OrShlMask 26 6, PrefixStore, TmpShr 6, MovTmp,
     PrefixStore]"

definition iunpack27 :: "m128 \<Rightarrow> m128 list \<Rightarrow> m128 list option" where
  "iunpack27 = run_unpack
    [LoadReg, SetMask 27, TmpReg, AndMask, PrefixStore, TmpShr 27, MovTmp, NextReg, OrShlMask 27
     22, PrefixStore, TmpShr 22, MovTmp, NextReg, OrShlMask 27 17, PrefixStore, TmpShr 17, MovTmp,
     NextReg, OrShlMask 27 12, PrefixStore, TmpShr 12, MovTmp, NextReg, OrShlMask 27 7,
     PrefixStore, TmpShr 7, MovTmp, NextReg, OrShlMask 27 2, PrefixStore, TmpShr 2, AndMask,
     PrefixStore, TmpShr 29, MovTmp, NextReg, OrShlMask 27 24, PrefixStore, TmpShr 24, MovTmp,
     NextReg, OrShlMask 27 19, PrefixStore, TmpShr 19, MovTmp, NextReg, OrShlMask 27 14,
     PrefixStore, TmpShr 14, MovTmp, NextReg, OrShlMask 27 9, PrefixStore, TmpShr 9, MovTmp,
     NextReg, OrShlMask 27 4, PrefixStore, TmpShr 4, AndMask, PrefixStore, TmpShr 31, MovTmp,
     NextReg, OrShlMask 27 26, PrefixStore, TmpShr 26, MovTmp, NextReg, OrShlMask 27 21,
     PrefixStore, TmpShr 21, MovTmp, NextReg, OrShlMask 27 16, PrefixStore, TmpShr 16, MovTmp,
     NextReg, OrShlMask 27 11, PrefixStore, TmpShr 11, MovTmp, NextReg, OrShlMask 27 6,
     PrefixStore, TmpShr 6, MovTmp, NextReg, OrShlMask 27 1, PrefixStore, TmpShr 1, AndMask,
     PrefixStore, TmpShr 28, MovTmp, NextReg, OrShlMask 27 23, PrefixStore, TmpShr 23, MovTmp,
     NextReg, OrShlMask 27 18, PrefixStore, TmpShr 18, MovTmp, NextReg, OrShlMask 27 13,
     PrefixStore, TmpShr 13, MovTmp, NextReg, OrShlMask 27 8, PrefixStore, TmpShr 8, MovTmp,
     NextReg, OrShlMask 27 3, PrefixStore, TmpShr 3, AndMask, PrefixStore, TmpShr 30, MovTmp,
     NextReg, OrShlMask 27 25, PrefixStore, TmpShr 25, MovTmp, NextReg, OrShlMask 27 20,
     PrefixStore, TmpShr 20, MovTmp, NextReg, OrShlMask 27 15, PrefixStore, TmpShr 15, MovTmp,
     NextReg, OrShlMask 27 10, PrefixStore, TmpShr 10, MovTmp, NextReg, OrShlMask 27 5,
     PrefixStore, TmpShr 5, MovTmp, PrefixStore]"

definition iunpack28 :: "m128 \<Rightarrow> m128 list \<Rightarrow> m128 list option" where
  "iunpack28 = run_unpack
    [LoadReg, SetMask 28, TmpReg, AndMask, PrefixStore, TmpShr 28, MovTmp, NextReg, OrShlMask 28
     24, PrefixStore, TmpShr 24, MovTmp, NextReg, OrShlMask 28 20, PrefixStore, TmpShr 20, MovTmp,
     NextReg, OrShlMask 28 16, PrefixStore, TmpShr 16, MovTmp, NextReg, OrShlMask 28 12,
     PrefixStore, TmpShr 12, MovTmp, NextReg, OrShlMask 28 8, PrefixStore, TmpShr 8, MovTmp,
     NextReg, OrShlMask 28 4, PrefixStore, TmpShr 4, MovTmp, NextReg, PrefixStore, TmpReg, AndMask,
     PrefixStore, TmpShr 28, MovTmp, NextReg, OrShlMask 28 24, PrefixStore, TmpShr 24, MovTmp,
     NextReg, OrShlMask 28 20, PrefixStore, TmpShr 20, MovTmp, NextReg, OrShlMask 28 16,
     PrefixStore, TmpShr 16, MovTmp, NextReg, OrShlMask 28 12, PrefixStore, TmpShr 12, MovTmp,
     NextReg, OrShlMask 28 8, PrefixStore, TmpShr 8, MovTmp, NextReg, OrShlMask 28 4, PrefixStore,
     TmpShr 4, MovTmp, NextReg, PrefixStore, TmpReg, AndMask, PrefixStore, TmpShr 28, MovTmp,
     NextReg, OrShlMask 28 24, PrefixStore, TmpShr 24, MovTmp, NextReg, OrShlMask 28 20,
     PrefixStore, TmpShr 20, MovTmp, NextReg, OrShlMask 28 16, PrefixStore, TmpShr 16, MovTmp,
     NextReg, OrShlMask 28 12, PrefixStore, TmpShr 12, MovTmp, NextReg, OrShlMask 28 8,
     PrefixStore, TmpShr 8, MovTmp, NextReg, OrShlMask 28 4, PrefixStore, TmpShr 4, MovTmp,
     NextReg, PrefixStore, TmpReg, AndMask, PrefixStore, TmpShr 28, MovTmp, NextReg, OrShlMask 28
     24, PrefixStore, TmpShr 24, MovTmp, NextReg, OrShlMask 28 20, PrefixStore, TmpShr 20, MovTmp,
     NextReg, OrShlMask 28 16, PrefixStore, TmpShr 16, MovTmp, NextReg, OrShlMask 28 12,
     PrefixStore, TmpShr 12, MovTmp, NextReg, OrShlMask 28 8, PrefixStore, TmpShr 8, MovTmp,
     NextReg, OrShlMask 28 4, PrefixStore, TmpShr 4, MovTmp, PrefixStore]"

definition iunpack29 :: "m128 \<Rightarrow> m128 list \<Rightarrow> m128 list option" where
  "iunpack29 = run_unpack
    [LoadReg, SetMask 29, TmpReg, AndMask, PrefixStore, TmpShr 29, MovTmp, NextReg, OrShlMask 29
     26, PrefixStore, TmpShr 26, MovTmp, NextReg, OrShlMask 29 23, PrefixStore, TmpShr 23, MovTmp,
     NextReg, OrShlMask 29 20, PrefixStore, TmpShr 20, MovTmp, NextReg, OrShlMask 29 17,
     PrefixStore, TmpShr 17, MovTmp, NextReg, OrShlMask 29 14, PrefixStore, TmpShr 14, MovTmp,
     NextReg, OrShlMask 29 11, PrefixStore, TmpShr 11, MovTmp, NextReg, OrShlMask 29 8,
     PrefixStore, TmpShr 8, MovTmp, NextReg, OrShlMask 29 5, PrefixStore, TmpShr 5, MovTmp,
     NextReg, OrShlMask 29 2, PrefixStore, TmpShr 2, AndMask, PrefixStore, TmpShr 31, MovTmp,
     NextReg, OrShlMask 29 28, PrefixStore, TmpShr 28, MovTmp, NextReg, OrShlMask 29 25,
     PrefixStore, TmpShr 25, MovTmp, NextReg, OrShlMask 29 22, PrefixStore, TmpShr 22, MovTmp,
     NextReg, OrShlMask 29 19, PrefixStore, TmpShr 19, MovTmp, NextReg, OrShlMask 29 16,
     PrefixStore, TmpShr 16, MovTmp, NextReg, OrShlMask 29 13, PrefixStore, TmpShr 13, MovTmp,
     NextReg, OrShlMask 29 10, PrefixStore, TmpShr 10, MovTmp, NextReg, OrShlMask 29 7,
     PrefixStore, TmpShr 7, MovTmp, NextReg, OrShlMask 29 4, PrefixStore, TmpShr 4, MovTmp,
     NextReg, OrShlMask 29 1, PrefixStore, TmpShr 1, AndMask, PrefixStore, TmpShr 30, MovTmp,
     NextReg, OrShlMask 29 27, PrefixStore, TmpShr 27, MovTmp, NextReg, OrShlMask 29 24,
     PrefixStore, TmpShr 24, MovTmp, NextReg, OrShlMask 29 21, PrefixStore, TmpShr 21, MovTmp,
     NextReg, OrShlMask 29 18, PrefixStore, TmpShr 18, MovTmp, NextReg, OrShlMask 29 15,
     PrefixStore, TmpShr 15, MovTmp, NextReg, OrShlMask 29 12, PrefixStore, TmpShr 12, MovTmp,
     NextReg, OrShlMask 29 9, PrefixStore, TmpShr 9, MovTmp, NextReg, OrShlMask 29 6, PrefixStore,
     TmpShr 6, MovTmp, NextReg, OrShlMask 29 3, PrefixStore, TmpShr 3, MovTmp, PrefixStore]"

definition iunpack30 :: "m128 \<Rightarrow> m128 list \<Rightarrow> m128 list option" where
  "iunpack30 = run_unpack
    [LoadReg, SetMask 30, TmpReg, AndMask, PrefixStore, TmpShr 30, MovTmp, NextReg, OrShlMask 30
     28, PrefixStore, TmpShr 28, MovTmp, NextReg, OrShlMask 30 26, PrefixStore, TmpShr 26, MovTmp,
     NextReg, OrShlMask 30 24, PrefixStore, TmpShr 24, MovTmp, NextReg, OrShlMask 30 22,
     PrefixStore, TmpShr 22, MovTmp, NextReg, OrShlMask 30 20, PrefixStore, TmpShr 20, MovTmp,
     NextReg, OrShlMask 30 18, PrefixStore, TmpShr 18, MovTmp, NextReg, OrShlMask 30 16,
     PrefixStore, TmpShr 16, MovTmp, NextReg, OrShlMask 30 14, PrefixStore, TmpShr 14, MovTmp,
     NextReg, OrShlMask 30 12, PrefixStore, TmpShr 12, MovTmp, NextReg, OrShlMask 30 10,
     PrefixStore, TmpShr 10, MovTmp, NextReg, OrShlMask 30 8, PrefixStore, TmpShr 8, MovTmp,
     NextReg, OrShlMask 30 6, PrefixStore, TmpShr 6, MovTmp, NextReg, OrShlMask 30 4, PrefixStore,
     TmpShr 4, MovTmp, NextReg, OrShlMask 30 2, PrefixStore, TmpShr 2, MovTmp, NextReg,
     PrefixStore, TmpReg, AndMask, PrefixStore, TmpShr 30, MovTmp, NextReg, OrShlMask 30 28,
     PrefixStore, TmpShr 28, MovTmp, NextReg, OrShlMask 30 26, PrefixStore, TmpShr 26, MovTmp,
     NextReg, OrShlMask 30 24, PrefixStore, TmpShr 24, MovTmp, NextReg, OrShlMask 30 22,
     PrefixStore, TmpShr 22, MovTmp, NextReg, OrShlMask 30 20, PrefixStore, TmpShr 20, MovTmp,
     NextReg, OrShlMask 30 18, PrefixStore, TmpShr 18, MovTmp, NextReg, OrShlMask 30 16,
     PrefixStore, TmpShr 16, MovTmp, NextReg, OrShlMask 30 14, PrefixStore, TmpShr 14, MovTmp,
     NextReg, OrShlMask 30 12, PrefixStore, TmpShr 12, MovTmp, NextReg, OrShlMask 30 10,
     PrefixStore, TmpShr 10, MovTmp, NextReg, OrShlMask 30 8, PrefixStore, TmpShr 8, MovTmp,
     NextReg, OrShlMask 30 6, PrefixStore, TmpShr 6, MovTmp, NextReg, OrShlMask 30 4, PrefixStore,
     TmpShr 4, MovTmp, NextReg, OrShlMask 30 2, PrefixStore, TmpShr 2, MovTmp, PrefixStore]"

definition iunpack31 :: "m128 \<Rightarrow> m128 list \<Rightarrow> m128 list option" where
  "iunpack31 = run_unpack
    [LoadReg, SetMask 31, TmpReg, AndMask, PrefixStore, TmpShr 31, MovTmp, NextReg, OrShlMask 31
     30, PrefixStore, TmpShr 30, MovTmp, NextReg, OrShlMask 31 29, PrefixStore, TmpShr 29, MovTmp,
     NextReg, OrShlMask 31 28, PrefixStore, TmpShr 28, MovTmp, NextReg, OrShlMask 31 27,
     PrefixStore, TmpShr 27, MovTmp, NextReg, OrShlMask 31 26, PrefixStore, TmpShr 26, MovTmp,
     NextReg, OrShlMask 31 25, PrefixStore, TmpShr 25, MovTmp, NextReg, OrShlMask 31 24,
     PrefixStore, TmpShr 24, MovTmp, NextReg, OrShlMask 31 23, PrefixStore, TmpShr 23, MovTmp,
     NextReg, OrShlMask 31 22, PrefixStore, TmpShr 22, MovTmp, NextReg, OrShlMask 31 21,
     PrefixStore, TmpShr 21, MovTmp, NextReg, OrShlMask 31 20, PrefixStore, TmpShr 20, MovTmp,
     NextReg, OrShlMask 31 19, PrefixStore, TmpShr 19, MovTmp, NextReg, OrShlMask 31 18,
     PrefixStore, TmpShr 18, MovTmp, NextReg, OrShlMask 31 17, PrefixStore, TmpShr 17, MovTmp,
     NextReg, OrShlMask 31 16, PrefixStore, TmpShr 16, MovTmp, NextReg, OrShlMask 31 15,
     PrefixStore, TmpShr 15, MovTmp, NextReg, OrShlMask 31 14, PrefixStore, TmpShr 14, MovTmp,
     NextReg, OrShlMask 31 13, PrefixStore, TmpShr 13, MovTmp, NextReg, OrShlMask 31 12,
     PrefixStore, TmpShr 12, MovTmp, NextReg, OrShlMask 31 11, PrefixStore, TmpShr 11, MovTmp,
     NextReg, OrShlMask 31 10, PrefixStore, TmpShr 10, MovTmp, NextReg, OrShlMask 31 9,
     PrefixStore, TmpShr 9, MovTmp, NextReg, OrShlMask 31 8, PrefixStore, TmpShr 8, MovTmp,
     NextReg, OrShlMask 31 7, PrefixStore, TmpShr 7, MovTmp, NextReg, OrShlMask 31 6, PrefixStore,
     TmpShr 6, MovTmp, NextReg, OrShlMask 31 5, PrefixStore, TmpShr 5, MovTmp, NextReg, OrShlMask
     31 4, PrefixStore, TmpShr 4, MovTmp, NextReg, OrShlMask 31 3, PrefixStore, TmpShr 3, MovTmp,
     NextReg, OrShlMask 31 2, PrefixStore, TmpShr 2, MovTmp, NextReg, OrShlMask 31 1, PrefixStore,
     TmpShr 1, MovTmp, PrefixStore]"

section \<open>The dispatcher\<close>

text \<open>
  For a width above 32 no case matches and the output is left as it was; the model has no
  registers to return then, which is \<open>None\<close>.
\<close>

definition simdunpackd1 :: "u32 \<Rightarrow> m128 list \<Rightarrow> u32 \<Rightarrow> m128 list option" where
  "simdunpackd1 initvalue inp b =
     (let initOffset = mm_set1_epi32 initvalue in
      if b = 0 then iunpack0 initOffset inp
      else if b = 1 then iunpack1 initOffset inp
      else if b = 2 then iunpack2 initOffset inp
      else if b = 3 then iunpack3 initOffset inp
      else if b = 4 then iunpack4 initOffset inp
      else if b = 5 then iunpack5 initOffset inp
      else if b = 6 then iunpack6 initOffset inp
      else if b = 7 then iunpack7 initOffset inp
      else if b = 8 then iunpack8 initOffset inp
      else if b = 9 then iunpack9 initOffset inp
      else if b = 10 then iunpack10 initOffset inp
      else if b = 11 then iunpack11 initOffset inp
      else if b = 12 then iunpack12 initOffset inp
      else if b = 13 then iunpack13 initOffset inp
      else if b = 14 then iunpack14 initOffset inp
      else if b = 15 then iunpack15 initOffset inp
      else if b = 16 then iunpack16 initOffset inp
      else if b = 17 then iunpack17 initOffset inp
      else if b = 18 then iunpack18 initOffset inp
      else if b = 19 then iunpack19 initOffset inp
      else if b = 20 then iunpack20 initOffset inp
      else if b = 21 then iunpack21 initOffset inp
      else if b = 22 then iunpack22 initOffset inp
      else if b = 23 then iunpack23 initOffset inp
      else if b = 24 then iunpack24 initOffset inp
      else if b = 25 then iunpack25 initOffset inp
      else if b = 26 then iunpack26 initOffset inp
      else if b = 27 then iunpack27 initOffset inp
      else if b = 28 then iunpack28 initOffset inp
      else if b = 29 then iunpack29 initOffset inp
      else if b = 30 then iunpack30 initOffset inp
      else if b = 31 then iunpack31 initOffset inp
      else if b = 32 then iunpack32 initOffset inp
      else None)"

section \<open>Unpacking a packed block\<close>

lemma unpack_exec_append:
  "unpack_exec inp (xs @ ys) s = Option.bind (unpack_exec inp xs s) (unpack_exec inp ys)"
proof (induction xs arbitrary: s)
  case (Cons x xs)
  then show ?case by (cases "unpack_step inp x s") auto
qed simp

definition unpack_value :: "nat \<Rightarrow> nat \<Rightarrow> unpack_stmt list" where
  "unpack_value b i =
     (let p = i * b mod 32 in
      (if p = 0 then [TmpReg] else [TmpShr p])
      @ (if p + b < 32 then [AndMask]
         else if p + b = 32 then (if i = 31 then [MovTmp] else [MovTmp, NextReg])
         else [MovTmp, NextReg, OrShlMask b (p + b - 32)])
      @ [PrefixStore])"

definition unpack_schedule :: "nat \<Rightarrow> unpack_stmt list" where
  "unpack_schedule b = [LoadReg, SetMask b] @ concat (map (unpack_value b) [0..<32])"

lemmas unpack_schedule_unfold = unpack_schedule_def unpack_value_def upt_32 Let_def

definition unpack_inv :: "nat \<Rightarrow> m128 \<Rightarrow> m128 list \<Rightarrow> m128 list \<Rightarrow> nat \<Rightarrow> unpack_state \<Rightarrow> bool" where
  "unpack_inv b off orig inp i s \<longleftrightarrow>
     us_in s = (if i < 32 then i * b div 32 else b - 1) \<and>
     us_inreg s = inp ! us_in s \<and>
     us_mask s = mm_set1_epi32 (low_mask b) \<and>
     us_off s = (if i = 0 then off else orig ! (i - 1)) \<and>
     us_mem s = take i orig"

lemma unpack_value_inv:
  assumes inv: "unpack_inv b off orig inp i s" and orig: "length orig = 32" and i: "i < 32"
    and f: "fits b (delta_regs off orig ! i)" and b: "0 < b" "b < 32"
    and packed: "packed_block b (delta_regs off orig) inp"
  shows "\<exists>s'. unpack_exec inp (unpack_value b i) s = Some s' \<and> unpack_inv b off orig inp (Suc i) s'"
proof -
  let ?ds = "delta_regs off orig"
  define p where "p = i * b mod 32"
  define q where "q = i * b div 32"
  have p: "p < 32" and ib: "i * b = 32 * q + p" by (simp_all add: p_def q_def)
  have suc: "Suc i * b div 32 = q + (if p + b < 32 then 0 else 1)"
    using div_mod_Suc_mult[OF b(2), of i] by (simp only: p_def q_def)
  have i31: "p + b = 32 \<and> q = b - 1" if "i = 31"
    using last_value_ends_register[OF b] that by (simp add: p_def q_def)
  have next_in: "Suc q < b" if "32 < p + b \<or> p + b = 32 \<and> i \<noteq> 31"
    using register_follows[OF b i] that by (simp only: p_def q_def)
  have qb: "q < b" using value_register[OF i b(1)] by (simp only: q_def)
  note reg = packed_register[OF packed qb]
  have sum: "PrefixSum (?ds ! i) (us_off s) = orig ! i"
    using inv i orig by (simp add: unpack_inv_def nth_delta_regs)
  have mem: "us_mem s @ [orig ! i] = take (Suc i) orig"
    using inv i orig by (simp add: unpack_inv_def take_Suc_conv_app_nth)
  have st: "us_in s = q" "us_inreg s = inp ! q" "us_mask s = mm_set1_epi32 (low_mask b)"
    using inv i by (simp_all add: unpack_inv_def q_def)
  define s1 where "s1 = s\<lparr>us_tmp := mm_srli_epi32 (inp ! q) p\<rparr>"
  define tl where "tl = (if p + b < 32 then [AndMask]
         else if p + b = 32 then (if i = 31 then [MovTmp] else [MovTmp, NextReg])
         else [MovTmp, NextReg, OrShlMask b (p + b - 32)])"
  have "unpack_exec inp (if p = 0 then [TmpReg] else [TmpShr p]) s = Some s1"
    using st by (simp add: s1_def)
  then have exec: "unpack_exec inp (unpack_value b i) s = unpack_exec inp (tl @ [PrefixStore]) s1"
    by (simp only: unpack_value_def Let_def unpack_exec_append p_def[symmetric] tl_def[symmetric]
          bind.simps)
  note ex1 = extract_one[OF reg(2) ib f _ p b(2)]
  consider "p + b < 32" | "p + b = 32" | "32 < p + b" by linarith
  then show ?thesis
  proof cases
    case 1
    with i31 i have "Suc i < 32" by (cases "i = 31") auto
    with 1 st ex1(1) sum mem suc show ?thesis
      by (simp add: exec tl_def s1_def unpack_inv_def Let_def)
  next
    case 2
    show ?thesis
    proof (cases "i = 31")
      case True
      with 2 st ex1(2) sum mem i31 exec show ?thesis
        by (simp add: tl_def s1_def unpack_inv_def Let_def)
    next
      case False
      note reg' = packed_register[OF packed next_in]
      from 2 False i st ex1(2) sum mem suc reg' show ?thesis by (simp add: exec tl_def s1_def unpack_inv_def Let_def)
    qed
  next
    case 3
    with i31 i have i': "Suc i < 32" by (cases "i = 31") auto
    note reg' = packed_register[OF packed next_in]
    from 3 i' st extract_two[OF reg(2) reg'(2) ib f _ p b(2)] sum mem suc reg'(1) show ?thesis
      by (simp add: exec tl_def s1_def unpack_inv_def Let_def)
  qed
qed

lemma unpack_values_inv:
  assumes len: "length orig = 32" and b: "0 < b" "b < 32"
    and f: "\<forall>i<32. fits b (delta_regs off orig ! i)" and packed: "packed_block b (delta_regs off orig) inp"
    and init: "unpack_inv b off orig inp 0 s0"
  shows "n \<le> 32 \<Longrightarrow> \<exists>s. unpack_exec inp (concat (map (unpack_value b) [0..<n])) s0 = Some s
    \<and> unpack_inv b off orig inp n s"
proof (induction n)
  case 0
  with init show ?case by simp
next
  case (Suc n)
  then obtain s where "unpack_exec inp (concat (map (unpack_value b) [0..<n])) s0 = Some s"
    and "unpack_inv b off orig inp n s" by auto
  moreover from this(2) Suc.prems f b packed obtain s' where "unpack_exec inp (unpack_value b n) s = Some s'"
    and "unpack_inv b off orig inp (Suc n) s'"
    using unpack_value_inv[OF _ len] by (metis Suc_le_lessD)
  ultimately show ?case by (simp add: unpack_exec_append)
qed

lemma run_unpack_schedule:
  assumes len: "length orig = 32" and b: "0 < b" "b < 32"
    and f: "\<forall>i<32. fits b (delta_regs off orig ! i)" and packed: "packed_block b (delta_regs off orig) inp"
  shows "run_unpack (unpack_schedule b) off inp = Some orig"
proof -
  define s0 where "s0 = (unpack_init off)\<lparr>us_inreg := inp ! 0, us_mask := mm_set1_epi32 (low_mask b)\<rparr>"
  have "unpack_inv b off orig inp 0 s0"
    by (simp add: unpack_inv_def s0_def unpack_init_def)
  from unpack_values_inv[OF assms this, of 32] obtain s where
    s: "unpack_exec inp (concat (map (unpack_value b) [0..<32])) s0 = Some s" "unpack_inv b off orig inp 32 s"
    by auto
  have "unpack_exec inp [LoadReg, SetMask b] (unpack_init off) = Some s0"
    using packed b by (auto simp: s0_def unpack_init_def packed_block_def)
  with s(1) have "unpack_exec inp (unpack_schedule b) (unpack_init off) = Some s"
    unfolding unpack_schedule_def unpack_exec_append by simp
  with s(2) len show ?thesis by (simp add: run_unpack_def unpack_inv_def)
qed

subsection \<open>Every function is the schedule of its width\<close>

lemma iunpack1_schedule: "iunpack1 = run_unpack (unpack_schedule 1)"
  by (simp add: iunpack1_def unpack_schedule_unfold)

lemma iunpack2_schedule: "iunpack2 = run_unpack (unpack_schedule 2)"
  by (simp add: iunpack2_def unpack_schedule_unfold)

lemma iunpack3_schedule: "iunpack3 = run_unpack (unpack_schedule 3)"
  by (simp add: iunpack3_def unpack_schedule_unfold)

lemma iunpack4_schedule: "iunpack4 = run_unpack (unpack_schedule 4)"
  by (simp add: iunpack4_def unpack_schedule_unfold)

lemma iunpack5_schedule: "iunpack5 = run_unpack (unpack_schedule 5)"
  by (simp add: iunpack5_def unpack_schedule_unfold)

lemma iunpack6_schedule: "iunpack6 = run_unpack (unpack_schedule 6)"
  by (simp add: iunpack6_def unpack_schedule_unfold)

lemma iunpack7_schedule: "iunpack7 = run_unpack (unpack_schedule 7)"
  by (simp add: iunpack7_def unpack_schedule_unfold)

lemma iunpack8_schedule: "iunpack8 = run_unpack (unpack_schedule 8)"
  by (simp add: iunpack8_def unpack_schedule_unfold)

lemma iunpack9_schedule: "iunpack9 = run_unpack (unpack_schedule 9)"
  by (simp add: iunpack9_def unpack_schedule_unfold)

lemma iunpack10_schedule: "iunpack10 = run_unpack (unpack_schedule 10)"
  by (simp add: iunpack10_def unpack_schedule_unfold)

lemma iunpack11_schedule: "iunpack11 = run_unpack (unpack_schedule 11)"
  by (simp add: iunpack11_def unpack_schedule_unfold)

lemma iunpack12_schedule: "iunpack12 = run_unpack (unpack_schedule 12)"
  by (simp add: iunpack12_def unpack_schedule_unfold)

lemma iunpack13_schedule: "iunpack13 = run_unpack (unpack_schedule 13)"
  by (simp add: iunpack13_def unpack_schedule_unfold)

lemma iunpack14_schedule: "iunpack14 = run_unpack (unpack_schedule 14)"
  by (simp add: iunpack14_def unpack_schedule_unfold)

lemma iunpack15_schedule: "iunpack15 = run_unpack (unpack_schedule 15)"
  by (simp add: iunpack15_def unpack_schedule_unfold)

lemma iunpack16_schedule: "iunpack16 = run_unpack (unpack_schedule 16)"
  by (simp add: iunpack16_def unpack_schedule_unfold)

lemma iunpack17_schedule: "iunpack17 = run_unpack (unpack_schedule 17)"
  by (simp add: iunpack17_def unpack_schedule_unfold)

lemma iunpack18_schedule: "iunpack18 = run_unpack (unpack_schedule 18)"
  by (simp add: iunpack18_def unpack_schedule_unfold)

lemma iunpack19_schedule: "iunpack19 = run_unpack (unpack_schedule 19)"
  by (simp add: iunpack19_def unpack_schedule_unfold)

lemma iunpack20_schedule: "iunpack20 = run_unpack (unpack_schedule 20)"
  by (simp add: iunpack20_def unpack_schedule_unfold)

lemma iunpack21_schedule: "iunpack21 = run_unpack (unpack_schedule 21)"
  by (simp add: iunpack21_def unpack_schedule_unfold)

lemma iunpack22_schedule: "iunpack22 = run_unpack (unpack_schedule 22)"
  by (simp add: iunpack22_def unpack_schedule_unfold)

lemma iunpack23_schedule: "iunpack23 = run_unpack (unpack_schedule 23)"
  by (simp add: iunpack23_def unpack_schedule_unfold)

lemma iunpack24_schedule: "iunpack24 = run_unpack (unpack_schedule 24)"
  by (simp add: iunpack24_def unpack_schedule_unfold)

lemma iunpack25_schedule: "iunpack25 = run_unpack (unpack_schedule 25)"
  by (simp add: iunpack25_def unpack_schedule_unfold)

lemma iunpack26_schedule: "iunpack26 = run_unpack (unpack_schedule 26)"
  by (simp add: iunpack26_def unpack_schedule_unfold)

lemma iunpack27_schedule: "iunpack27 = run_unpack (unpack_schedule 27)"
  by (simp add: iunpack27_def unpack_schedule_unfold)

lemma iunpack28_schedule: "iunpack28 = run_unpack (unpack_schedule 28)"
  by (simp add: iunpack28_def unpack_schedule_unfold)

lemma iunpack29_schedule: "iunpack29 = run_unpack (unpack_schedule 29)"
  by (simp add: iunpack29_def unpack_schedule_unfold)

lemma iunpack30_schedule: "iunpack30 = run_unpack (unpack_schedule 30)"
  by (simp add: iunpack30_def unpack_schedule_unfold)

lemma iunpack31_schedule: "iunpack31 = run_unpack (unpack_schedule 31)"
  by (simp add: iunpack31_def unpack_schedule_unfold)

section \<open>The dispatcher selects the schedule of its width\<close>

lemmas unpack_schedules =
  iunpack1_schedule iunpack2_schedule iunpack3_schedule iunpack4_schedule
  iunpack5_schedule iunpack6_schedule iunpack7_schedule iunpack8_schedule
  iunpack9_schedule iunpack10_schedule iunpack11_schedule iunpack12_schedule
  iunpack13_schedule iunpack14_schedule iunpack15_schedule iunpack16_schedule
  iunpack17_schedule iunpack18_schedule iunpack19_schedule iunpack20_schedule
  iunpack21_schedule iunpack22_schedule iunpack23_schedule iunpack24_schedule
  iunpack25_schedule iunpack26_schedule iunpack27_schedule iunpack28_schedule
  iunpack29_schedule iunpack30_schedule iunpack31_schedule

lemma simdunpackd1_schedule:
  assumes "0 < b" and "b < 32"
  shows "simdunpackd1 v inp (of_nat b) = run_unpack (unpack_schedule b) (mm_set1_epi32 v) inp"
  using width_cases[OF assms]
  by (elim insertE emptyE) (simp_all add: simdunpackd1_def unpack_schedules)

section \<open>Round trip of one block\<close>

lemma PrefixSum_zero: "PrefixSum (mm_set1_epi32 0) r = mm_shuffle_ff r"
  by (simp add: mm_set1_epi32_def PrefixSum_M128 mm_shuffle_ff_def)

lemma iunpack0_rounds_eq:
  "mm_shuffle_ff off = off \<Longrightarrow> iunpack0_rounds n off = replicate (4 * n) off"
  by (induction n) (simp_all add: PrefixSum_zero Let_def eval_nat_numeral)

lemma mm_shuffle_set1 [simp]: "mm_shuffle_ff (mm_set1_epi32 v) = mm_set1_epi32 v"
  by (simp add: mm_shuffle_ff_def mm_set1_epi32_def)

text \<open>Width 0 fits only if every difference is zero, so that all registers repeat the first value.\<close>

lemma fits_zero: "fits 0 r \<Longrightarrow> r = mm_set1_epi32 0"
  by (rule m128_eqI, rule bit_word_eqI) (simp add: fits_bit)

lemma delta_zero_constant:
  assumes "\<forall>i<length rs. fits 0 (delta_regs (mm_set1_epi32 v) rs ! i)"
  shows "i < length rs \<Longrightarrow> rs ! i = mm_set1_epi32 v"
proof (induction i)
  case 0
  have "Delta (rs ! 0) (mm_set1_epi32 v) = mm_set1_epi32 0"
    using assms 0 fits_zero by (auto simp: nth_delta_regs dest!: spec[of _ 0])
  then have "rs ! 0 = PrefixSum (mm_set1_epi32 0) (mm_set1_epi32 v)" by (metis PrefixSum_Delta)
  then show ?case by (simp add: PrefixSum_zero)
next
  case (Suc i)
  have "Delta (rs ! Suc i) (rs ! i) = mm_set1_epi32 0"
    using assms Suc.prems fits_zero by (auto simp: nth_delta_regs dest!: spec[of _ "Suc i"])
  then have "rs ! Suc i = PrefixSum (mm_set1_epi32 0) (rs ! i)" by (metis PrefixSum_Delta)
  with Suc show ?case by (simp add: PrefixSum_zero)
qed

lemma simdunpackd1_zero:
  assumes "length rs = 32" and "\<forall>i<32. fits 0 (delta_regs (mm_set1_epi32 v) rs ! i)"
  shows "simdunpackd1 v inp 0 = Some rs"
proof -
  have "rs = replicate 32 (mm_set1_epi32 v)"
    using delta_zero_constant[of rs v] assms by (intro nth_equalityI) auto
  then show ?thesis by (simp add: simdunpackd1_def iunpack0_def iunpack0_rounds_eq)
qed

lemma simdunpackd1_32: "length inp = 32 \<Longrightarrow> simdunpackd1 v (inp @ rest) 32 = Some inp"
  by (simp add: simdunpackd1_def iunpack32_def)

text \<open>
  For every width from 0 to 32: packing succeeds, writes exactly \<open>b\<close> registers, and unpacking
  them gives the 32 registers of the block back, whatever follows them in memory, as long as the
  differences fit the width.
\<close>

lemma pack_unpack_block:
  assumes len: "length rs = 32" and b: "b \<le> 32"
    and f: "b < 32 \<longrightarrow> (\<forall>i<32. fits b (delta_regs (mm_set1_epi32 v) rs ! i))"
  shows "\<exists>out. simdpackwithoutmaskd1 v rs (of_nat b) = Some out \<and> length out = b
    \<and> simdunpackd1 v (out @ rest) (of_nat b) = Some rs"
proof -
  consider "b = 0" | "0 < b" "b < 32" | "b = 32" using b by linarith
  then show ?thesis
  proof cases
    case 1
    with len f simdunpackd1_zero[of rs v rest] show ?thesis by simp
  next
    case 2
    with f have f': "\<forall>i<32. fits b (delta_regs (mm_set1_epi32 v) rs ! i)" by simp
    from simdpackwithoutmaskd1_packs[OF len 2 f'] obtain out
      where out: "simdpackwithoutmaskd1 v rs (of_nat b) = Some out"
        "length out = b" "packed_block b (delta_regs (mm_set1_epi32 v) rs) out" by blast
    from run_unpack_schedule[OF len 2 f' packed_block_append[OF out(3)]] simdunpackd1_schedule[OF 2] out
    show ?thesis by simp
  next
    case 3
    with len show ?thesis by (simp add: simdpackwithoutmaskd1_32 simdunpackd1_32)
  qed
qed

end
