(* ===== verification/SimdBinaryPacking.thy ===== *)
theory SimdBinaryPacking
  imports IUnpack
begin

text \<open>
  The codec \<open>SIMDBinaryPacking\<close> of \<^verbatim>\<open>varint/bitpacking/simdbinarypacking.h\<close> with the helpers
  of \<^verbatim>\<open>varint/bitpacking/util.h\<close>: blocks of 2048 integers, cut into 16 miniblocks of 128, each
  stored with the bit width of its largest member.  A word buffer is a list of 32-bit words; an
  address is counted in words, so that alignment to 128 bits is divisibility by 4.
\<close>

section \<open>Helpers of util.h\<close>

text \<open>\<open>__builtin_clz\<close>: the number of zero bits above the highest one.\<close>

definition builtin_clz :: "u32 \<Rightarrow> nat" where
  "builtin_clz v = length (takeWhile (\<lambda>n. \<not> bit v n) (rev [0..<32]))"

definition gccbits :: "u32 \<Rightarrow> nat" where
  "gccbits v = (if v = 0 then 0 else 32 - builtin_clz v)"

fun maxbits_loop :: "u32 \<Rightarrow> u32 list \<Rightarrow> u32" where
  "maxbits_loop accumulator [] = accumulator"
| "maxbits_loop accumulator (k # ks) = maxbits_loop (accumulator OR k) ks"

definition maxbits :: "u32 list \<Rightarrow> nat" where
  "maxbits ks = gccbits (maxbits_loop 0 ks)"

definition divisibleby :: "nat \<Rightarrow> nat \<Rightarrow> bool" where
  "divisibleby a x = (a mod x = 0)"

definition checkifdivisibleby :: "nat \<Rightarrow> nat \<Rightarrow> unit res" where
  "checkifdivisibleby a x = (if \<not> divisibleby a x then Inl LogicError else Inr ())"

definition needPaddingTo128Bits :: "nat \<Rightarrow> bool" where
  "needPaddingTo128Bits addr = (addr mod 4 \<noteq> 0)"

section \<open>Registers in a word buffer\<close>

fun regs_of :: "u32 list \<Rightarrow> m128 list" where
  "regs_of (a # b # c # d # xs) = M128 a b c d # regs_of xs"
| "regs_of xs = []"

fun words_of :: "m128 list \<Rightarrow> u32 list" where
  "words_of [] = []"
| "words_of (M128 a b c d # rs) = a # b # c # d # words_of rs"

section \<open>The codec\<close>

definition CookiePadder :: u32 where "CookiePadder = 123456"
definition MiniBlockSize :: nat where "MiniBlockSize = 128"
definition HowManyMiniBlocks :: nat where "HowManyMiniBlocks = 16"
definition BlockSize :: nat where "BlockSize = HowManyMiniBlocks * MiniBlockSize"

lemmas block_consts = MiniBlockSize_def HowManyMiniBlocks_def BlockSize_def

text \<open>\<open>while(needPaddingTo128Bits(out)) *out++ = CookiePadder\<close>, from address \<open>addr\<close> on.\<close>

function pad_loop :: "nat \<Rightarrow> u32 list" where
  "pad_loop addr = (if needPaddingTo128Bits addr then CookiePadder # pad_loop (Suc addr) else [])"
  by pat_completeness auto
termination
  by (relation "measure (\<lambda>addr. (4 - addr mod 4) mod 4)")
    (auto simp: needPaddingTo128Bits_def mod_Suc)

declare pad_loop.simps [simp del]

definition miniblock :: "u32 list \<Rightarrow> nat \<Rightarrow> u32 list" where
  "miniblock inp i = take MiniBlockSize (drop (i * MiniBlockSize) inp)"

definition block_bits :: "u32 list \<Rightarrow> nat list" where
  "block_bits inp = map (\<lambda>i. maxbits (miniblock inp i)) [0..<HowManyMiniBlocks]"

text \<open>One header word: four widths, the first in the highest byte.\<close>

definition header_word :: "nat list \<Rightarrow> nat \<Rightarrow> u32" where
  "header_word Bs i =
     push_bit 24 (of_nat (Bs ! (4 * i))) OR push_bit 16 (of_nat (Bs ! (4 * i + 1)))
     OR push_bit 8 (of_nat (Bs ! (4 * i + 2))) OR of_nat (Bs ! (4 * i + 3))"

fun pack_miniblocks :: "u32 list \<Rightarrow> nat list \<Rightarrow> nat list \<Rightarrow> u32 list res" where
  "pack_miniblocks inp Bs [] = Inr []"
| "pack_miniblocks inp Bs (i # is) =
     rbind (in_bounds (simdpackwithoutmaskd1 0 (regs_of (miniblock inp i)) (of_nat (Bs ! i))))
       (\<lambda>out. rbind (pack_miniblocks inp Bs is) (\<lambda>rest. Inr (words_of out @ rest)))"

definition encode_block :: "u32 list \<Rightarrow> u32 list res" where
  "encode_block inp =
     (let Bs = block_bits inp in
      rbind (pack_miniblocks inp Bs [0..<HowManyMiniBlocks])
        (\<lambda>body. Inr (map (header_word Bs) [0..<4] @ body)))"

text \<open>The loop \<open>for (final = in + length; in + BlockSize <= final; in += BlockSize)\<close>.\<close>

function encode_blocks :: "u32 list \<Rightarrow> u32 list res" where
  "encode_blocks inp =
     (if BlockSize \<le> length inp
      then rbind (encode_block (take BlockSize inp))
             (\<lambda>out. rbind (encode_blocks (drop BlockSize inp)) (\<lambda>rest. Inr (out @ rest)))
      else Inr [])"
  by pat_completeness auto
termination by (relation "measure length") (auto simp: block_consts)

declare encode_blocks.simps [simp del]

text \<open>
  \<open>encodeArray\<close>: the words written from address \<open>addr\<close> on; their number is what the code
  leaves in \<open>nvalue\<close>.
\<close>

definition simd_encodeArray :: "nat \<Rightarrow> u32 list \<Rightarrow> u32 list res" where
  "simd_encodeArray addr inp =
     rbind (checkifdivisibleby (length inp) BlockSize)
       (\<lambda>_. rbind (encode_blocks inp)
         (\<lambda>body. Inr (of_nat (length inp) # pad_loop (Suc addr) @ body)))"

text \<open>\<open>compressedSize\<close>, in bytes.\<close>

function compressed_words :: "nat \<Rightarrow> u32 list \<Rightarrow> nat" where
  "compressed_words nvalue inp =
     (if BlockSize \<le> length inp
      then compressed_words
             (nvalue + 4 + sum_list (map (\<lambda>B. MiniBlockSize div 32 * B) (block_bits (take BlockSize inp))))
             (drop BlockSize inp)
      else nvalue)"
  by pat_completeness auto
termination by (relation "measure (\<lambda>(n, inp). length inp)") (auto simp: block_consts)

declare compressed_words.simps [simp del]

definition simd_compressedSize :: "u32 list \<Rightarrow> nat" where
  "simd_compressedSize inp = compressed_words 4 inp * 4"

text \<open>
  \<open>decodeArray\<close>.  \<open>inp\<close> is the memory from the current \<open>in\<close> to the end of the source buffer.
  The cookie loop leaves the pointer at the next address divisible by 4.
\<close>

fun skip_cookies :: "nat \<Rightarrow> u32 list \<Rightarrow> u32 list res" where
  "skip_cookies addr [] = (if needPaddingTo128Bits addr then Inl OutOfBounds else Inr [])"
| "skip_cookies addr (w # ws) =
     (if needPaddingTo128Bits addr
      then (if w \<noteq> CookiePadder then Inl LogicError else skip_cookies (Suc addr) ws)
      else Inr (w # ws))"

text \<open>\<open>static_cast<uint8_t>(in[0] >> n)\<close>.\<close>

definition header_byte :: "u32 \<Rightarrow> nat \<Rightarrow> nat" where
  "header_byte w n = unat (ucast (drop_bit n w) :: u8)"

definition header_bits :: "u32 \<Rightarrow> nat list" where
  "header_bits w = [header_byte w 24, header_byte w 16, header_byte w 8, header_byte w 0]"

fun unpack_miniblocks :: "nat list \<Rightarrow> u32 list \<Rightarrow> (u32 list \<times> u32 list) res" where
  "unpack_miniblocks [] inp = Inr ([], inp)"
| "unpack_miniblocks (B # Bs) inp =
     rbind (in_bounds (simdunpackd1 0 (regs_of inp) (of_nat B)))
       (\<lambda>out. rbind (unpack_miniblocks Bs (drop (MiniBlockSize div 32 * B) inp))
         (\<lambda>(rest, inp'). Inr (words_of out @ rest, inp')))"

definition decode_block :: "u32 list \<Rightarrow> (u32 list \<times> u32 list) res" where
  "decode_block inp =
     (if length inp < 4 then Inl OutOfBounds
      else unpack_miniblocks (concat (map header_bits (take 4 inp))) (drop 4 inp))"

text \<open>
  The loop \<open>for (; out < initout + actuallength; out += BlockSize)\<close>; \<open>n\<close> is
  \<open>out - initout\<close>.  The result is the words written, the rest of the source and \<open>nvalue\<close>.
\<close>

function decode_blocks :: "nat \<Rightarrow> nat \<Rightarrow> u32 list \<Rightarrow> (u32 list \<times> u32 list \<times> nat) res" where
  "decode_blocks actuallength n inp =
     (if n < actuallength
      then rbind (decode_block inp)
             (\<lambda>(out, inp'). rbind (decode_blocks actuallength (n + BlockSize) inp')
               (\<lambda>(rest, inp'', n'). Inr (out @ rest, inp'', n')))
      else Inr ([], inp, n))"
  by pat_completeness auto
termination by (relation "measure (\<lambda>(a, n, inp). a - n)") (auto simp: block_consts)

declare decode_blocks.simps [simp del]

definition simd_decodeArray :: "nat \<Rightarrow> nat \<Rightarrow> u32 list \<Rightarrow> (u32 list \<times> u32 list \<times> nat) res" where
  "simd_decodeArray inaddr outaddr inp =
     (case inp of
        [] \<Rightarrow> Inl OutOfBounds
      | actuallength # inp' \<Rightarrow>
          if needPaddingTo128Bits outaddr then Inl RuntimeError
          else rbind (skip_cookies (Suc inaddr) inp')
                 (\<lambda>body. decode_blocks (unat actuallength) 0 body))"

section \<open>Bit widths\<close>

lemma builtin_clz_zero_bits:
  assumes "32 - builtin_clz v \<le> m" and "m < 32"
  shows "\<not> bit v m"
proof -
  let ?tw = "takeWhile (\<lambda>n. \<not> bit v n) (rev [0..<32])"
  have j: "31 - m < length ?tw" using assms by (simp add: builtin_clz_def)
  have "?tw ! (31 - m) = m"
    using takeWhile_nth[OF j] assms(2) by (simp add: rev_nth)
  with nth_mem[OF j] show ?thesis by (metis set_takeWhileD)
qed

lemma gccbits_bits: "gccbits v \<le> m \<Longrightarrow> \<not> bit v m"
proof (cases "m < 32")
  case True
  assume "gccbits v \<le> m"
  then show ?thesis
    using builtin_clz_zero_bits[of v m] True by (auto simp: gccbits_def split: if_splits)
qed (auto dest: bit_imp_le_length)

lemma gccbits_le: "gccbits v \<le> 32"
  by (simp add: gccbits_def)

lemma bit_maxbits_loop: "bit (maxbits_loop a ks) n \<longleftrightarrow> bit a n \<or> (\<exists>k\<in>set ks. bit k n)"
  by (induction ks arbitrary: a) (auto simp: bit_simps)

text \<open>Every member of a list fits the list's bit width.\<close>

lemma maxbits_bound: "x \<in> set ks \<Longrightarrow> unat x < 2 ^ maxbits ks"
  using gccbits_bits[of "maxbits_loop 0 ks"]
  by (auto simp: unat_less_power_iff_bits maxbits_def bit_maxbits_loop)

lemma maxbits_le [simp]: "maxbits ks \<le> 32"
  by (simp add: maxbits_def gccbits_le)

section \<open>Buffers and registers\<close>

lemma length_words_of [simp]: "length (words_of rs) = 4 * length rs"
  by (induction rs rule: words_of.induct) auto

lemma regs_of_words_of [simp]: "regs_of (words_of rs @ ws) = rs @ regs_of ws"
  by (induction rs rule: words_of.induct) auto

lemma words_of_regs_of: "4 dvd length ws \<Longrightarrow> words_of (regs_of ws) = ws"
proof (induction ws rule: regs_of.induct)
  case (1 a b c d xs)
  from 1(2) have "4 dvd 4 + length xs" by (simp add: eval_nat_numeral)
  then have "4 dvd length xs" by (simp only: dvd_add_right_iff dvd_refl)
  with 1 show ?case by simp
qed (auto dest: dvd_imp_le)

lemma length_regs_of: "length (regs_of ws) = length ws div 4"
  by (induction ws rule: regs_of.induct) auto

lemma nth_regs_of:
  "4 * i + 3 < length ws \<Longrightarrow>
     regs_of ws ! i = M128 (ws ! (4 * i)) (ws ! (4 * i + 1)) (ws ! (4 * i + 2)) (ws ! (4 * i + 3))"
proof (induction ws arbitrary: i rule: regs_of.induct)
  case (1 a b c d xs)
  show ?case
  proof (cases i)
    case (Suc j)
    with 1 show ?thesis by (simp add: eval_nat_numeral)
  qed simp
qed auto

text \<open>In a non-decreasing list each difference is no longer than the list's width.\<close>

lemma unat_diff_less: "a \<le> b \<Longrightarrow> unat b < 2 ^ n \<Longrightarrow> unat (b - a :: 'a::len word) < 2 ^ n"
  by (simp add: unat_sub word_le_nat_alt less_imp_diff_less)

lemma fits_M128:
  "fits b (M128 w x y z) \<longleftrightarrow> unat w < 2 ^ b \<and> unat x < 2 ^ b \<and> unat y < 2 ^ b \<and> unat z < 2 ^ b"
  unfolding fits_def by (auto simp: lane_cases less_Suc_eq numeral_eq_Suc)

lemma sorted_deltas_fit:
  assumes s: "sorted ws" and len: "length ws = 128" and i: "i < 32"
    and bound: "\<forall>w\<in>set ws. unat w < 2 ^ b"
  shows "fits b (delta_regs (mm_set1_epi32 0) (regs_of ws) ! i)"
proof -
  have le: "ws ! j \<le> ws ! k" if "j \<le> k" "k < 128" for j k
    using sorted_nth_mono[OF s] that len by simp
  have bd: "unat (ws ! k) < 2 ^ b" if "k < 128" for k
    using bound that len by simp
  have prev: "lane3 (if i = 0 then mm_set1_epi32 0 else regs_of ws ! (i - 1)) \<le> ws ! (4 * i)"
  proof (cases i)
    case 0
    then show ?thesis by (simp add: mm_set1_epi32_def)
  next
    case (Suc j)
    with nth_regs_of[of j ws] i len have "lane3 (regs_of ws ! (i - 1)) = ws ! (4 * j + 3)" by simp
    with le[of "4 * j + 3" "4 * i"] Suc i show ?thesis by simp
  qed
  have "delta_regs (mm_set1_epi32 0) (regs_of ws) ! i
      = Delta (M128 (ws ! (4 * i)) (ws ! (4 * i + 1)) (ws ! (4 * i + 2)) (ws ! (4 * i + 3)))
          (if i = 0 then mm_set1_epi32 0 else regs_of ws ! (i - 1))"
    using i len nth_regs_of[of i ws] by (simp add: nth_delta_regs length_regs_of)
  then show ?thesis
    using i prev unat_diff_less[OF prev bd[of "4 * i"]]
      unat_diff_less[OF le bd, of "4 * i" "4 * i + 1"] unat_diff_less[OF le bd, of "4 * i + 1" "4 * i + 2"]
      unat_diff_less[OF le bd, of "4 * i + 2" "4 * i + 3"]
    by (simp add: Delta_M128 fits_M128)
qed

section \<open>Round trip of one block\<close>

lemma pack_miniblock:
  assumes "sorted ws" and "length ws = 128"
  shows "\<exists>out. simdpackwithoutmaskd1 0 (regs_of ws) (of_nat (maxbits ws)) = Some out
    \<and> length out = maxbits ws
    \<and> (\<forall>rest. simdunpackd1 0 (out @ rest) (of_nat (maxbits ws)) = Some (regs_of ws))"
proof -
  have len: "length (regs_of ws) = 32" using assms(2) by (simp add: length_regs_of)
  have f: "maxbits ws < 32 \<longrightarrow> (\<forall>i<32. fits (maxbits ws) (delta_regs (mm_set1_epi32 0) (regs_of ws) ! i))"
    using sorted_deltas_fit[OF assms] maxbits_bound by blast
  show ?thesis using pack_unpack_block[OF len _ f] by (simp; metis option.inject)
qed

lemma pack_miniblocks_roundtrip:
  assumes "\<forall>i\<in>set is. sorted (miniblock inp i) \<and> length (miniblock inp i) = 128
      \<and> Bs ! i = maxbits (miniblock inp i)"
  shows "\<exists>out. pack_miniblocks inp Bs is = Inr out
    \<and> length out = sum_list (map (\<lambda>i. 4 * Bs ! i) is)
    \<and> (\<forall>rest. unpack_miniblocks (map ((!) Bs) is) (out @ rest)
          = Inr (concat (map (miniblock inp) is), rest))"
  using assms
proof (induction "is")
  case (Cons i "is")
  let ?m = "miniblock inp i"
  from Cons obtain out where IH: "pack_miniblocks inp Bs is = Inr out"
    "length out = sum_list (map (\<lambda>i. 4 * Bs ! i) is)"
    "\<And>rest. unpack_miniblocks (map ((!) Bs) is) (out @ rest) = Inr (concat (map (miniblock inp) is), rest)"
    by auto
  from pack_miniblock[of ?m] Cons.prems obtain regs
    where regs: "simdpackwithoutmaskd1 0 (regs_of ?m) (of_nat (Bs ! i)) = Some regs"
      "length regs = Bs ! i"
      "\<And>rest. simdunpackd1 0 (regs @ rest) (of_nat (Bs ! i)) = Some (regs_of ?m)"
    by auto
  have "words_of (regs_of ?m) = ?m" using Cons.prems by (simp add: words_of_regs_of)
  then show ?case
    using IH regs by (simp add: block_consts)
qed simp

lemma bit_byte_lt: "a < 256 \<Longrightarrow> bit (a::nat) n \<Longrightarrow> n < 8"
proof -
  assume "a < 256" and "bit a n"
  moreover have "take_bit 8 a = a" using \<open>a < 256\<close> by (simp add: take_bit_nat_eq_self)
  ultimately show ?thesis by (metis bit_take_bit_iff)
qed

lemma header_bits_header:
  assumes "a < 256" "b < 256" "c < 256" "d < 256"
  shows "header_bits (push_bit 24 (of_nat a) OR push_bit 16 (of_nat b) OR push_bit 8 (of_nat c) OR of_nat d)
    = [a, b, c, d]"
proof -
  note lt = assms[THEN bit_byte_lt]
  have byte: "header_byte w n = x" if "x < 256" and "\<And>m. m < 8 \<Longrightarrow> bit w (m + n) = bit x m" for w n x
  proof -
    have "(ucast (drop_bit n w) :: u8) = of_nat x"
      by (rule bit_word_eqI) (use that(2) in \<open>auto simp: bit_simps ac_simps dest: bit_imp_le_length\<close>)
    with that(1) show ?thesis by (simp add: header_byte_def unat_of_nat)
  qed
  show ?thesis
    unfolding header_bits_def
    by (simp, intro conjI byte assms) (auto simp: bit_simps dest: lt)
qed

lemma upt_16: "[0..<16] = [0,1,2,3,4,5,6,7,8,9,10,11,12,13,14,15]"
  and upt_4: "[0..<4] = [0,1,2,3]"
  by (simp_all add: upt_rec)

lemma header_block:
  assumes "length Bs = 16" and "\<forall>B\<in>set Bs. B < 256"
  shows "concat (map header_bits (map (header_word Bs) [0..<4])) = Bs"
proof -
  have B: "Bs ! i < 256" if "i < 16" for i using assms that by simp
  have "concat (map header_bits (map (header_word Bs) [0..<4])) = map ((!) Bs) [0..<16]"
    by (simp add: header_word_def header_bits_header B upt_16 upt_4 numeral_2_eq_2)
  also have "\<dots> = Bs" using assms(1) by (metis map_nth)
  finally show ?thesis .
qed

lemma length_block_bits [simp]: "length (block_bits inp) = 16"
  by (simp add: block_bits_def block_consts)

lemma block_bits_lt: "\<forall>B\<in>set (block_bits inp). B < 256"
  by (auto simp: block_bits_def intro: le_less_trans[OF maxbits_le])

lemma nth_block_bits [simp]: "i < 16 \<Longrightarrow> block_bits inp ! i = maxbits (miniblock inp i)"
  by (simp add: block_bits_def block_consts)

lemma concat_miniblocks: "concat (map (miniblock inp) [0..<n]) = take (n * MiniBlockSize) inp"
proof (induction n)
  case (Suc n)
  have "Suc n * MiniBlockSize = n * MiniBlockSize + MiniBlockSize" by simp
  with Suc show ?case by (simp only: concat_map_upt_Suc take_add miniblock_def)
qed simp

text \<open>The bytes of one block: four header words and the packed miniblocks.\<close>

definition block_words :: "u32 list \<Rightarrow> nat" where
  "block_words inp = 4 + sum_list (map (\<lambda>B. MiniBlockSize div 32 * B) (block_bits inp))"

lemma encode_block_roundtrip:
  assumes "sorted inp" and "length inp = BlockSize"
  shows "\<exists>out. encode_block inp = Inr out \<and> length out = block_words inp
    \<and> (\<forall>rest. decode_block (out @ rest) = Inr (inp, rest))"
proof -
  let ?Bs = "block_bits inp" and ?is = "[0..<16]"
  have mini: "sorted (miniblock inp i) \<and> length (miniblock inp i) = 128" if "i < 16" for i
    using assms that by (simp add: miniblock_def block_consts sorted_wrt_take sorted_wrt_drop)
  then have "\<forall>i\<in>set ?is. sorted (miniblock inp i) \<and> length (miniblock inp i) = 128
      \<and> ?Bs ! i = maxbits (miniblock inp i)" by simp
  from pack_miniblocks_roundtrip[OF this] obtain body
    where body: "pack_miniblocks inp ?Bs ?is = Inr body"
      "length body = sum_list (map (\<lambda>i. 4 * ?Bs ! i) ?is)"
      "\<And>rest. unpack_miniblocks (map ((!) ?Bs) ?is) (body @ rest)
         = Inr (concat (map (miniblock inp) ?is), rest)" by blast
  have Bs: "map ((!) ?Bs) ?is = ?Bs" by (metis length_block_bits map_nth)
  have cat: "concat (map (miniblock inp) ?is) = inp"
    using assms(2) by (simp only: concat_miniblocks) (simp add: block_consts)
  have "map (\<lambda>i. 4 * ?Bs ! i) ?is = map (\<lambda>B. 4 * B) ?Bs"
    by (subst (2) Bs[symmetric]) (simp only: map_map comp_def)
  then have len: "length body = sum_list (map (\<lambda>B. 4 * B) ?Bs)" using body(2) by simp
  have enc: "encode_block inp = Inr (map (header_word ?Bs) [0..<4] @ body)"
    using body(1) by (simp only: encode_block_def Let_def HowManyMiniBlocks_def rbind_simps)
  have dec: "decode_block ((map (header_word ?Bs) [0..<4] @ body) @ rest) = Inr (inp, rest)" for rest
  proof -
    let ?h = "map (header_word ?Bs) [0..<4]"
    have "take 4 ((?h @ body) @ rest) = ?h" and "drop 4 ((?h @ body) @ rest) = body @ rest"
      and "\<not> length ((?h @ body) @ rest) < 4" by simp_all
    then have "decode_block ((?h @ body) @ rest) = unpack_miniblocks (concat (map header_bits ?h)) (body @ rest)"
      by (simp only: decode_block_def if_False)
    also have "\<dots> = unpack_miniblocks (map ((!) ?Bs) ?is) (body @ rest)"
      by (simp only: header_block[OF length_block_bits block_bits_lt] Bs)
    also have "\<dots> = Inr (inp, rest)" using body(3)[of rest] by (simp only: cat)
    finally show ?thesis .
  qed
  from enc dec len show ?thesis by (simp add: block_words_def block_consts)
qed

section \<open>Round trip of an array\<close>

lemma encode_blocks_step:
  "BlockSize \<le> length inp \<Longrightarrow> encode_blocks inp =
     rbind (encode_block (take BlockSize inp))
       (\<lambda>out. rbind (encode_blocks (drop BlockSize inp)) (\<lambda>rest. Inr (out @ rest)))"
  by (subst encode_blocks.simps) simp

lemma decode_blocks_step:
  "n < a \<Longrightarrow> decode_blocks a n inp =
     rbind (decode_block inp)
       (\<lambda>(out, inp'). rbind (decode_blocks a (n + BlockSize) inp')
         (\<lambda>(rest, inp'', n'). Inr (out @ rest, inp'', n')))"
  by (subst decode_blocks.simps) simp

text \<open>The accumulator of \<open>compressedSize\<close> is the number of words of the blocks.\<close>

fun blocks_words :: "nat \<Rightarrow> u32 list \<Rightarrow> nat" where
  "blocks_words 0 inp = 0"
| "blocks_words (Suc k) inp = block_words (take BlockSize inp) + blocks_words k (drop BlockSize inp)"

lemma compressed_words_blocks:
  "length inp = k * BlockSize \<Longrightarrow> compressed_words nv inp = nv + blocks_words k inp"
proof (induction k arbitrary: inp nv)
  case 0
  then show ?case by (subst compressed_words.simps) (simp add: block_consts)
next
  case (Suc k)
  then show ?case by (subst compressed_words.simps) (simp add: block_words_def)
qed

lemma encode_blocks_roundtrip:
  assumes "sorted inp" and "length inp = k * BlockSize"
  shows "\<exists>out. encode_blocks inp = Inr out \<and> length out = blocks_words k inp
    \<and> (\<forall>n rest. decode_blocks (n + length inp) n (out @ rest) = Inr (inp, rest, n + length inp))"
  using assms
proof (induction k arbitrary: inp)
  case 0
  then show ?case by (subst encode_blocks.simps) (simp add: block_consts decode_blocks.simps)
next
  case (Suc k)
  let ?a = "take BlockSize inp" and ?b = "drop BlockSize inp"
  have len: "length ?a = BlockSize" "length ?b = k * BlockSize" "BlockSize \<le> length inp"
    "0 < BlockSize" using Suc.prems by (simp_all add: block_consts)
  have srt: "sorted ?a" "sorted ?b" using Suc.prems by (simp_all add: sorted_wrt_take sorted_wrt_drop)
  from encode_block_roundtrip[OF srt(1) len(1)] obtain o1 where
    o1: "encode_block ?a = Inr o1" "length o1 = block_words ?a"
      "\<And>rest. decode_block (o1 @ rest) = Inr (?a, rest)" by blast
  from Suc.IH[OF srt(2) len(2)] obtain o2 where
    o2: "encode_blocks ?b = Inr o2" "length o2 = blocks_words k ?b"
      "\<And>n rest. decode_blocks (n + length ?b) n (o2 @ rest) = Inr (?b, rest, n + length ?b)" by blast
  have "decode_blocks (n + length inp) n ((o1 @ o2) @ rest) = Inr (inp, rest, n + length inp)" for n rest
  proof -
    have "n < n + length inp" using len(3,4) by linarith
    moreover have "decode_blocks (n + length inp) (n + BlockSize) (o2 @ rest) = Inr (?b, rest, n + length inp)"
      using o2(3)[of "n + BlockSize" rest] len by simp
    ultimately show ?thesis using o1(3)[of "o2 @ rest"] by (simp add: decode_blocks_step)
  qed
  with o1 o2 len show ?case by (auto simp: encode_blocks_step)
qed

lemma pad_loop_cases:
  "needPaddingTo128Bits addr \<Longrightarrow> pad_loop addr = CookiePadder # pad_loop (Suc addr)"
  "\<not> needPaddingTo128Bits addr \<Longrightarrow> pad_loop addr = []"
  by (subst pad_loop.simps, simp)+

lemma skip_cookies_pad: "skip_cookies addr (pad_loop addr @ rest) = Inr rest"
proof (induction addr rule: pad_loop.induct)
  case (1 addr)
  show ?case
  proof (cases "needPaddingTo128Bits addr")
    case True
    with 1 show ?thesis by (simp add: pad_loop_cases)
  next
    case False
    then show ?thesis by (cases rest) (simp_all add: pad_loop_cases)
  qed
qed

text \<open>
  The codec's round trip on a sorted array of whole blocks, written and read at addresses with
  the same alignment: decoding gives the array, consumes exactly what was written and reports
  the number of integers.
\<close>

lemma simd_roundtrip:
  assumes "sorted inp" and "BlockSize dvd length inp" and "length inp < 2 ^ 32"
    and "\<not> needPaddingTo128Bits outaddr"
  shows "\<exists>out. simd_encodeArray addr inp = Inr out
    \<and> length out = 1 + length (pad_loop (Suc addr)) + blocks_words (length inp div BlockSize) inp
    \<and> (\<forall>rest. simd_decodeArray addr outaddr (out @ rest) = Inr (inp, rest, length inp))"
proof -
  have k: "length inp = (length inp div BlockSize) * BlockSize" using assms(2) by simp
  from encode_blocks_roundtrip[OF assms(1) k] obtain body where
    body: "encode_blocks inp = Inr body" "length body = blocks_words (length inp div BlockSize) inp"
      "\<And>n rest. decode_blocks (n + length inp) n (body @ rest) = Inr (inp, rest, n + length inp)" by blast
  have n: "unat (of_nat (length inp) :: u32) = length inp"
    using assms(3) by (simp add: unat_of_nat)
  show ?thesis
    using body(1,2) body(3)[of 0] n assms(2,4)
    by (auto simp: simd_encodeArray_def simd_decodeArray_def checkifdivisibleby_def divisibleby_def
      skip_cookies_pad)
qed

text \<open>\<open>compressedSize\<close> is exact for an output whose second word is followed by three cookies.\<close>

lemma pad_loop_aligned: "addr mod 4 = 0 \<Longrightarrow> pad_loop (Suc addr) = replicate 3 CookiePadder"
proof -
  assume "addr mod 4 = 0"
  then have "needPaddingTo128Bits (Suc addr)" "needPaddingTo128Bits (Suc (Suc addr))"
    "needPaddingTo128Bits (Suc (Suc (Suc addr)))" "\<not> needPaddingTo128Bits (Suc (Suc (Suc (Suc addr))))"
    by (simp_all add: needPaddingTo128Bits_def mod_Suc)
  then have "pad_loop (Suc addr) = [CookiePadder, CookiePadder, CookiePadder]"
    by (metis pad_loop_cases)
  then show ?thesis by (simp add: numeral_3_eq_3)
qed

lemma simd_compressedSize_exact:
  assumes "addr mod 4 = 0" and "BlockSize dvd length inp" and "simd_encodeArray addr inp = Inr out"
    and "sorted inp"
  shows "simd_compressedSize inp = 4 * length out"
proof -
  have k: "length inp = (length inp div BlockSize) * BlockSize" using assms(2) by simp
  from encode_blocks_roundtrip[OF assms(4) k] obtain body where
    "encode_blocks inp = Inr body" "length body = blocks_words (length inp div BlockSize) inp" by blast
  with assms pad_loop_aligned[OF assms(1)] compressed_words_blocks[OF k, of 4] show ?thesis
    by (auto simp: simd_encodeArray_def simd_compressedSize_def checkifdivisibleby_def divisibleby_def)
qed
end
