(* ===== verification/PlainPack.thy ===== *)
theory PlainPack
  imports PackStmts
begin

text \<open>
  The unmasked packers \<open>__SIMD_fastpackwithoutmask1_32\<close> to \<open>__SIMD_fastpackwithoutmask32_32\<close> of
  \<^verbatim>\<open>varint/bitpacking/bitpacksimd.cpp\<close> and their dispatcher \<open>simdpackwithoutmask\<close>: they pack the
  values themselves, without the differential step of \<open>IPack\<close>.  The aligned loads and stores
  (\<open>_mm_load_si128\<close>, \<open>_mm_store_si128\<close>) are those of \<open>PackStmts\<close>: the buffers are taken to be
  aligned.  \<open>InReg = _mm_load_si128(++in)\<close> is the two statements \<open>IncIn, LoadIn\<close>.  The functions of
  the widths 4, 8 and 16 are loops, and load one more register after the last round.
\<close>

section \<open>The packing functions\<close>

text \<open>These functions have no \<open>initOffset\<close>; the field of the state is not read.\<close>

definition run_plain :: "pack_stmt list \<Rightarrow> m128 list \<Rightarrow> m128 list option" where
  "run_plain prog = run_pack prog (mm_set1_epi32 0)"

definition SIMD_fastpackwithoutmask1_32 :: "m128 list \<Rightarrow> m128 list option" where
  "SIMD_fastpackwithoutmask1_32 = run_plain
    [LoadIn, MovOut, IncIn, LoadIn, OrShl 1, IncIn, LoadIn, OrShl 2, IncIn, LoadIn, OrShl 3, IncIn,
     LoadIn, OrShl 4, IncIn, LoadIn, OrShl 5, IncIn, LoadIn, OrShl 6, IncIn, LoadIn, OrShl 7,
     IncIn, LoadIn, OrShl 8, IncIn, LoadIn, OrShl 9, IncIn, LoadIn, OrShl 10, IncIn, LoadIn,
     OrShl 11, IncIn, LoadIn, OrShl 12, IncIn, LoadIn, OrShl 13, IncIn, LoadIn, OrShl 14, IncIn,
     LoadIn, OrShl 15, IncIn, LoadIn, OrShl 16, IncIn, LoadIn, OrShl 17, IncIn, LoadIn, OrShl 18,
     IncIn, LoadIn, OrShl 19, IncIn, LoadIn, OrShl 20, IncIn, LoadIn, OrShl 21, IncIn, LoadIn,
     OrShl 22, IncIn, LoadIn, OrShl 23, IncIn, LoadIn, OrShl 24, IncIn, LoadIn, OrShl 25, IncIn,
     LoadIn, OrShl 26, IncIn, LoadIn, OrShl 27, IncIn, LoadIn, OrShl 28, IncIn, LoadIn, OrShl 29,
     IncIn, LoadIn, OrShl 30, IncIn, LoadIn, OrShl 31, Store]"

definition SIMD_fastpackwithoutmask2_32 :: "m128 list \<Rightarrow> m128 list option" where
  "SIMD_fastpackwithoutmask2_32 = run_plain
    [LoadIn, MovOut, IncIn, LoadIn, OrShl 2, IncIn, LoadIn, OrShl 4, IncIn, LoadIn, OrShl 6, IncIn,
     LoadIn, OrShl 8, IncIn, LoadIn, OrShl 10, IncIn, LoadIn, OrShl 12, IncIn, LoadIn, OrShl 14,
     IncIn, LoadIn, OrShl 16, IncIn, LoadIn, OrShl 18, IncIn, LoadIn, OrShl 20, IncIn, LoadIn,
     OrShl 22, IncIn, LoadIn, OrShl 24, IncIn, LoadIn, OrShl 26, IncIn, LoadIn, OrShl 28, IncIn,
     LoadIn, OrShl 30, Store, IncOut, IncIn, LoadIn, MovOut, IncIn, LoadIn, OrShl 2, IncIn, LoadIn,
     OrShl 4, IncIn, LoadIn, OrShl 6, IncIn, LoadIn, OrShl 8, IncIn, LoadIn, OrShl 10, IncIn,
     LoadIn, OrShl 12, IncIn, LoadIn, OrShl 14, IncIn, LoadIn, OrShl 16, IncIn, LoadIn, OrShl 18,
     IncIn, LoadIn, OrShl 20, IncIn, LoadIn, OrShl 22, IncIn, LoadIn, OrShl 24, IncIn, LoadIn,
     OrShl 26, IncIn, LoadIn, OrShl 28, IncIn, LoadIn, OrShl 30, Store]"

definition SIMD_fastpackwithoutmask3_32 :: "m128 list \<Rightarrow> m128 list option" where
  "SIMD_fastpackwithoutmask3_32 = run_plain
    [LoadIn, MovOut, IncIn, LoadIn, OrShl 3, IncIn, LoadIn, OrShl 6, IncIn, LoadIn, OrShl 9, IncIn,
     LoadIn, OrShl 12, IncIn, LoadIn, OrShl 15, IncIn, LoadIn, OrShl 18, IncIn, LoadIn, OrShl 21,
     IncIn, LoadIn, OrShl 24, IncIn, LoadIn, OrShl 27, IncIn, LoadIn, OrShl 30, Store, IncOut,
     ShrOut 3 1, IncIn, LoadIn, OrShl 1, IncIn, LoadIn, OrShl 4, IncIn, LoadIn, OrShl 7, IncIn,
     LoadIn, OrShl 10, IncIn, LoadIn, OrShl 13, IncIn, LoadIn, OrShl 16, IncIn, LoadIn, OrShl 19,
     IncIn, LoadIn, OrShl 22, IncIn, LoadIn, OrShl 25, IncIn, LoadIn, OrShl 28, IncIn, LoadIn,
     OrShl 31, Store, IncOut, ShrOut 3 2, IncIn, LoadIn, OrShl 2, IncIn, LoadIn, OrShl 5, IncIn,
     LoadIn, OrShl 8, IncIn, LoadIn, OrShl 11, IncIn, LoadIn, OrShl 14, IncIn, LoadIn, OrShl 17,
     IncIn, LoadIn, OrShl 20, IncIn, LoadIn, OrShl 23, IncIn, LoadIn, OrShl 26, IncIn, LoadIn,
     OrShl 29, Store]"

definition SIMD_fastpackwithoutmask4_32 :: "m128 list \<Rightarrow> m128 list option" where
  "SIMD_fastpackwithoutmask4_32 = run_plain
    ([LoadIn]
     @ concat (replicate 4
         [MovOut, IncIn, LoadIn, OrShl 4, IncIn, LoadIn, OrShl 8, IncIn, LoadIn, OrShl 12, IncIn,
          LoadIn, OrShl 16, IncIn, LoadIn, OrShl 20, IncIn, LoadIn, OrShl 24, IncIn, LoadIn, OrShl 28,
          Store, IncOut, IncIn, LoadIn]))"

definition SIMD_fastpackwithoutmask5_32 :: "m128 list \<Rightarrow> m128 list option" where
  "SIMD_fastpackwithoutmask5_32 = run_plain
    [LoadIn, MovOut, IncIn, LoadIn, OrShl 5, IncIn, LoadIn, OrShl 10, IncIn, LoadIn, OrShl 15,
     IncIn, LoadIn, OrShl 20, IncIn, LoadIn, OrShl 25, IncIn, LoadIn, OrShl 30, Store, IncOut,
     ShrOut 5 3, IncIn, LoadIn, OrShl 3, IncIn, LoadIn, OrShl 8, IncIn, LoadIn, OrShl 13, IncIn,
     LoadIn, OrShl 18, IncIn, LoadIn, OrShl 23, IncIn, LoadIn, OrShl 28, Store, IncOut, ShrOut 5 1,
     IncIn, LoadIn, OrShl 1, IncIn, LoadIn, OrShl 6, IncIn, LoadIn, OrShl 11, IncIn, LoadIn,
     OrShl 16, IncIn, LoadIn, OrShl 21, IncIn, LoadIn, OrShl 26, IncIn, LoadIn, OrShl 31, Store,
     IncOut, ShrOut 5 4, IncIn, LoadIn, OrShl 4, IncIn, LoadIn, OrShl 9, IncIn, LoadIn, OrShl 14,
     IncIn, LoadIn, OrShl 19, IncIn, LoadIn, OrShl 24, IncIn, LoadIn, OrShl 29, Store, IncOut,
     ShrOut 5 2, IncIn, LoadIn, OrShl 2, IncIn, LoadIn, OrShl 7, IncIn, LoadIn, OrShl 12, IncIn,
     LoadIn, OrShl 17, IncIn, LoadIn, OrShl 22, IncIn, LoadIn, OrShl 27, Store]"

definition SIMD_fastpackwithoutmask6_32 :: "m128 list \<Rightarrow> m128 list option" where
  "SIMD_fastpackwithoutmask6_32 = run_plain
    [LoadIn, MovOut, IncIn, LoadIn, OrShl 6, IncIn, LoadIn, OrShl 12, IncIn, LoadIn, OrShl 18,
     IncIn, LoadIn, OrShl 24, IncIn, LoadIn, OrShl 30, Store, IncOut, ShrOut 6 4, IncIn, LoadIn,
     OrShl 4, IncIn, LoadIn, OrShl 10, IncIn, LoadIn, OrShl 16, IncIn, LoadIn, OrShl 22, IncIn,
     LoadIn, OrShl 28, Store, IncOut, ShrOut 6 2, IncIn, LoadIn, OrShl 2, IncIn, LoadIn, OrShl 8,
     IncIn, LoadIn, OrShl 14, IncIn, LoadIn, OrShl 20, IncIn, LoadIn, OrShl 26, Store, IncOut,
     IncIn, LoadIn, MovOut, IncIn, LoadIn, OrShl 6, IncIn, LoadIn, OrShl 12, IncIn, LoadIn,
     OrShl 18, IncIn, LoadIn, OrShl 24, IncIn, LoadIn, OrShl 30, Store, IncOut, ShrOut 6 4, IncIn,
     LoadIn, OrShl 4, IncIn, LoadIn, OrShl 10, IncIn, LoadIn, OrShl 16, IncIn, LoadIn, OrShl 22,
     IncIn, LoadIn, OrShl 28, Store, IncOut, ShrOut 6 2, IncIn, LoadIn, OrShl 2, IncIn, LoadIn,
     OrShl 8, IncIn, LoadIn, OrShl 14, IncIn, LoadIn, OrShl 20, IncIn, LoadIn, OrShl 26, Store]"

definition SIMD_fastpackwithoutmask7_32 :: "m128 list \<Rightarrow> m128 list option" where
  "SIMD_fastpackwithoutmask7_32 = run_plain
    [LoadIn, MovOut, IncIn, LoadIn, OrShl 7, IncIn, LoadIn, OrShl 14, IncIn, LoadIn, OrShl 21,
     IncIn, LoadIn, OrShl 28, Store, IncOut, ShrOut 7 3, IncIn, LoadIn, OrShl 3, IncIn, LoadIn,
     OrShl 10, IncIn, LoadIn, OrShl 17, IncIn, LoadIn, OrShl 24, IncIn, LoadIn, OrShl 31, Store,
     IncOut, ShrOut 7 6, IncIn, LoadIn, OrShl 6, IncIn, LoadIn, OrShl 13, IncIn, LoadIn, OrShl 20,
     IncIn, LoadIn, OrShl 27, Store, IncOut, ShrOut 7 2, IncIn, LoadIn, OrShl 2, IncIn, LoadIn,
     OrShl 9, IncIn, LoadIn, OrShl 16, IncIn, LoadIn, OrShl 23, IncIn, LoadIn, OrShl 30, Store,
     IncOut, ShrOut 7 5, IncIn, LoadIn, OrShl 5, IncIn, LoadIn, OrShl 12, IncIn, LoadIn, OrShl 19,
     IncIn, LoadIn, OrShl 26, Store, IncOut, ShrOut 7 1, IncIn, LoadIn, OrShl 1, IncIn, LoadIn,
     OrShl 8, IncIn, LoadIn, OrShl 15, IncIn, LoadIn, OrShl 22, IncIn, LoadIn, OrShl 29, Store,
     IncOut, ShrOut 7 4, IncIn, LoadIn, OrShl 4, IncIn, LoadIn, OrShl 11, IncIn, LoadIn, OrShl 18,
     IncIn, LoadIn, OrShl 25, Store]"

definition SIMD_fastpackwithoutmask8_32 :: "m128 list \<Rightarrow> m128 list option" where
  "SIMD_fastpackwithoutmask8_32 = run_plain
    ([LoadIn]
     @ concat (replicate 8
         [MovOut, IncIn, LoadIn, OrShl 8, IncIn, LoadIn, OrShl 16, IncIn, LoadIn, OrShl 24, Store,
          IncOut, IncIn, LoadIn]))"

definition SIMD_fastpackwithoutmask9_32 :: "m128 list \<Rightarrow> m128 list option" where
  "SIMD_fastpackwithoutmask9_32 = run_plain
    [LoadIn, MovOut, IncIn, LoadIn, OrShl 9, IncIn, LoadIn, OrShl 18, IncIn, LoadIn, OrShl 27,
     Store, IncOut, ShrOut 9 4, IncIn, LoadIn, OrShl 4, IncIn, LoadIn, OrShl 13, IncIn, LoadIn,
     OrShl 22, IncIn, LoadIn, OrShl 31, Store, IncOut, ShrOut 9 8, IncIn, LoadIn, OrShl 8, IncIn,
     LoadIn, OrShl 17, IncIn, LoadIn, OrShl 26, Store, IncOut, ShrOut 9 3, IncIn, LoadIn, OrShl 3,
     IncIn, LoadIn, OrShl 12, IncIn, LoadIn, OrShl 21, IncIn, LoadIn, OrShl 30, Store, IncOut,
     ShrOut 9 7, IncIn, LoadIn, OrShl 7, IncIn, LoadIn, OrShl 16, IncIn, LoadIn, OrShl 25, Store,
     IncOut, ShrOut 9 2, IncIn, LoadIn, OrShl 2, IncIn, LoadIn, OrShl 11, IncIn, LoadIn, OrShl 20,
     IncIn, LoadIn, OrShl 29, Store, IncOut, ShrOut 9 6, IncIn, LoadIn, OrShl 6, IncIn, LoadIn,
     OrShl 15, IncIn, LoadIn, OrShl 24, Store, IncOut, ShrOut 9 1, IncIn, LoadIn, OrShl 1, IncIn,
     LoadIn, OrShl 10, IncIn, LoadIn, OrShl 19, IncIn, LoadIn, OrShl 28, Store, IncOut, ShrOut 9 5,
     IncIn, LoadIn, OrShl 5, IncIn, LoadIn, OrShl 14, IncIn, LoadIn, OrShl 23, Store]"

definition SIMD_fastpackwithoutmask10_32 :: "m128 list \<Rightarrow> m128 list option" where
  "SIMD_fastpackwithoutmask10_32 = run_plain
    [LoadIn, MovOut, IncIn, LoadIn, OrShl 10, IncIn, LoadIn, OrShl 20, IncIn, LoadIn, OrShl 30,
     Store, IncOut, ShrOut 10 8, IncIn, LoadIn, OrShl 8, IncIn, LoadIn, OrShl 18, IncIn, LoadIn,
     OrShl 28, Store, IncOut, ShrOut 10 6, IncIn, LoadIn, OrShl 6, IncIn, LoadIn, OrShl 16, IncIn,
     LoadIn, OrShl 26, Store, IncOut, ShrOut 10 4, IncIn, LoadIn, OrShl 4, IncIn, LoadIn, OrShl 14,
     IncIn, LoadIn, OrShl 24, Store, IncOut, ShrOut 10 2, IncIn, LoadIn, OrShl 2, IncIn, LoadIn,
     OrShl 12, IncIn, LoadIn, OrShl 22, Store, IncOut, IncIn, LoadIn, MovOut, IncIn, LoadIn,
     OrShl 10, IncIn, LoadIn, OrShl 20, IncIn, LoadIn, OrShl 30, Store, IncOut, ShrOut 10 8, IncIn,
     LoadIn, OrShl 8, IncIn, LoadIn, OrShl 18, IncIn, LoadIn, OrShl 28, Store, IncOut, ShrOut 10 6,
     IncIn, LoadIn, OrShl 6, IncIn, LoadIn, OrShl 16, IncIn, LoadIn, OrShl 26, Store, IncOut,
     ShrOut 10 4, IncIn, LoadIn, OrShl 4, IncIn, LoadIn, OrShl 14, IncIn, LoadIn, OrShl 24, Store,
     IncOut, ShrOut 10 2, IncIn, LoadIn, OrShl 2, IncIn, LoadIn, OrShl 12, IncIn, LoadIn, OrShl 22,
     Store]"

definition SIMD_fastpackwithoutmask11_32 :: "m128 list \<Rightarrow> m128 list option" where
  "SIMD_fastpackwithoutmask11_32 = run_plain
    [LoadIn, MovOut, IncIn, LoadIn, OrShl 11, IncIn, LoadIn, OrShl 22, Store, IncOut, ShrOut 11 1,
     IncIn, LoadIn, OrShl 1, IncIn, LoadIn, OrShl 12, IncIn, LoadIn, OrShl 23, Store, IncOut,
     ShrOut 11 2, IncIn, LoadIn, OrShl 2, IncIn, LoadIn, OrShl 13, IncIn, LoadIn, OrShl 24, Store,
     IncOut, ShrOut 11 3, IncIn, LoadIn, OrShl 3, IncIn, LoadIn, OrShl 14, IncIn, LoadIn, OrShl 25,
     Store, IncOut, ShrOut 11 4, IncIn, LoadIn, OrShl 4, IncIn, LoadIn, OrShl 15, IncIn, LoadIn,
     OrShl 26, Store, IncOut, ShrOut 11 5, IncIn, LoadIn, OrShl 5, IncIn, LoadIn, OrShl 16, IncIn,
     LoadIn, OrShl 27, Store, IncOut, ShrOut 11 6, IncIn, LoadIn, OrShl 6, IncIn, LoadIn, OrShl 17,
     IncIn, LoadIn, OrShl 28, Store, IncOut, ShrOut 11 7, IncIn, LoadIn, OrShl 7, IncIn, LoadIn,
     OrShl 18, IncIn, LoadIn, OrShl 29, Store, IncOut, ShrOut 11 8, IncIn, LoadIn, OrShl 8, IncIn,
     LoadIn, OrShl 19, IncIn, LoadIn, OrShl 30, Store, IncOut, ShrOut 11 9, IncIn, LoadIn, OrShl 9,
     IncIn, LoadIn, OrShl 20, IncIn, LoadIn, OrShl 31, Store, IncOut, ShrOut 11 10, IncIn, LoadIn,
     OrShl 10, IncIn, LoadIn, OrShl 21, Store]"

definition SIMD_fastpackwithoutmask12_32 :: "m128 list \<Rightarrow> m128 list option" where
  "SIMD_fastpackwithoutmask12_32 = run_plain
    [LoadIn, MovOut, IncIn, LoadIn, OrShl 12, IncIn, LoadIn, OrShl 24, Store, IncOut, ShrOut 12 4,
     IncIn, LoadIn, OrShl 4, IncIn, LoadIn, OrShl 16, IncIn, LoadIn, OrShl 28, Store, IncOut,
     ShrOut 12 8, IncIn, LoadIn, OrShl 8, IncIn, LoadIn, OrShl 20, Store, IncOut, IncIn, LoadIn,
     MovOut, IncIn, LoadIn, OrShl 12, IncIn, LoadIn, OrShl 24, Store, IncOut, ShrOut 12 4, IncIn,
     LoadIn, OrShl 4, IncIn, LoadIn, OrShl 16, IncIn, LoadIn, OrShl 28, Store, IncOut, ShrOut 12 8,
     IncIn, LoadIn, OrShl 8, IncIn, LoadIn, OrShl 20, Store, IncOut, IncIn, LoadIn, MovOut, IncIn,
     LoadIn, OrShl 12, IncIn, LoadIn, OrShl 24, Store, IncOut, ShrOut 12 4, IncIn, LoadIn, OrShl 4,
     IncIn, LoadIn, OrShl 16, IncIn, LoadIn, OrShl 28, Store, IncOut, ShrOut 12 8, IncIn, LoadIn,
     OrShl 8, IncIn, LoadIn, OrShl 20, Store, IncOut, IncIn, LoadIn, MovOut, IncIn, LoadIn,
     OrShl 12, IncIn, LoadIn, OrShl 24, Store, IncOut, ShrOut 12 4, IncIn, LoadIn, OrShl 4, IncIn,
     LoadIn, OrShl 16, IncIn, LoadIn, OrShl 28, Store, IncOut, ShrOut 12 8, IncIn, LoadIn, OrShl 8,
     IncIn, LoadIn, OrShl 20, Store]"

definition SIMD_fastpackwithoutmask13_32 :: "m128 list \<Rightarrow> m128 list option" where
  "SIMD_fastpackwithoutmask13_32 = run_plain
    [LoadIn, MovOut, IncIn, LoadIn, OrShl 13, IncIn, LoadIn, OrShl 26, Store, IncOut, ShrOut 13 7,
     IncIn, LoadIn, OrShl 7, IncIn, LoadIn, OrShl 20, Store, IncOut, ShrOut 13 1, IncIn, LoadIn,
     OrShl 1, IncIn, LoadIn, OrShl 14, IncIn, LoadIn, OrShl 27, Store, IncOut, ShrOut 13 8, IncIn,
     LoadIn, OrShl 8, IncIn, LoadIn, OrShl 21, Store, IncOut, ShrOut 13 2, IncIn, LoadIn, OrShl 2,
     IncIn, LoadIn, OrShl 15, IncIn, LoadIn, OrShl 28, Store, IncOut, ShrOut 13 9, IncIn, LoadIn,
     OrShl 9, IncIn, LoadIn, OrShl 22, Store, IncOut, ShrOut 13 3, IncIn, LoadIn, OrShl 3, IncIn,
     LoadIn, OrShl 16, IncIn, LoadIn, OrShl 29, Store, IncOut, ShrOut 13 10, IncIn, LoadIn,
     OrShl 10, IncIn, LoadIn, OrShl 23, Store, IncOut, ShrOut 13 4, IncIn, LoadIn, OrShl 4, IncIn,
     LoadIn, OrShl 17, IncIn, LoadIn, OrShl 30, Store, IncOut, ShrOut 13 11, IncIn, LoadIn,
     OrShl 11, IncIn, LoadIn, OrShl 24, Store, IncOut, ShrOut 13 5, IncIn, LoadIn, OrShl 5, IncIn,
     LoadIn, OrShl 18, IncIn, LoadIn, OrShl 31, Store, IncOut, ShrOut 13 12, IncIn, LoadIn,
     OrShl 12, IncIn, LoadIn, OrShl 25, Store, IncOut, ShrOut 13 6, IncIn, LoadIn, OrShl 6, IncIn,
     LoadIn, OrShl 19, Store]"

definition SIMD_fastpackwithoutmask14_32 :: "m128 list \<Rightarrow> m128 list option" where
  "SIMD_fastpackwithoutmask14_32 = run_plain
    [LoadIn, MovOut, IncIn, LoadIn, OrShl 14, IncIn, LoadIn, OrShl 28, Store, IncOut, ShrOut 14 10,
     IncIn, LoadIn, OrShl 10, IncIn, LoadIn, OrShl 24, Store, IncOut, ShrOut 14 6, IncIn, LoadIn,
     OrShl 6, IncIn, LoadIn, OrShl 20, Store, IncOut, ShrOut 14 2, IncIn, LoadIn, OrShl 2, IncIn,
     LoadIn, OrShl 16, IncIn, LoadIn, OrShl 30, Store, IncOut, ShrOut 14 12, IncIn, LoadIn,
     OrShl 12, IncIn, LoadIn, OrShl 26, Store, IncOut, ShrOut 14 8, IncIn, LoadIn, OrShl 8, IncIn,
     LoadIn, OrShl 22, Store, IncOut, ShrOut 14 4, IncIn, LoadIn, OrShl 4, IncIn, LoadIn, OrShl 18,
     Store, IncOut, IncIn, LoadIn, MovOut, IncIn, LoadIn, OrShl 14, IncIn, LoadIn, OrShl 28, Store,
     IncOut, ShrOut 14 10, IncIn, LoadIn, OrShl 10, IncIn, LoadIn, OrShl 24, Store, IncOut,
     ShrOut 14 6, IncIn, LoadIn, OrShl 6, IncIn, LoadIn, OrShl 20, Store, IncOut, ShrOut 14 2,
     IncIn, LoadIn, OrShl 2, IncIn, LoadIn, OrShl 16, IncIn, LoadIn, OrShl 30, Store, IncOut,
     ShrOut 14 12, IncIn, LoadIn, OrShl 12, IncIn, LoadIn, OrShl 26, Store, IncOut, ShrOut 14 8,
     IncIn, LoadIn, OrShl 8, IncIn, LoadIn, OrShl 22, Store, IncOut, ShrOut 14 4, IncIn, LoadIn,
     OrShl 4, IncIn, LoadIn, OrShl 18, Store]"

definition SIMD_fastpackwithoutmask15_32 :: "m128 list \<Rightarrow> m128 list option" where
  "SIMD_fastpackwithoutmask15_32 = run_plain
    [LoadIn, MovOut, IncIn, LoadIn, OrShl 15, IncIn, LoadIn, OrShl 30, Store, IncOut, ShrOut 15 13,
     IncIn, LoadIn, OrShl 13, IncIn, LoadIn, OrShl 28, Store, IncOut, ShrOut 15 11, IncIn, LoadIn,
     OrShl 11, IncIn, LoadIn, OrShl 26, Store, IncOut, ShrOut 15 9, IncIn, LoadIn, OrShl 9, IncIn,
     LoadIn, OrShl 24, Store, IncOut, ShrOut 15 7, IncIn, LoadIn, OrShl 7, IncIn, LoadIn, OrShl 22,
     Store, IncOut, ShrOut 15 5, IncIn, LoadIn, OrShl 5, IncIn, LoadIn, OrShl 20, Store, IncOut,
     ShrOut 15 3, IncIn, LoadIn, OrShl 3, IncIn, LoadIn, OrShl 18, Store, IncOut, ShrOut 15 1,
     IncIn, LoadIn, OrShl 1, IncIn, LoadIn, OrShl 16, IncIn, LoadIn, OrShl 31, Store, IncOut,
     ShrOut 15 14, IncIn, LoadIn, OrShl 14, IncIn, LoadIn, OrShl 29, Store, IncOut, ShrOut 15 12,
     IncIn, LoadIn, OrShl 12, IncIn, LoadIn, OrShl 27, Store, IncOut, ShrOut 15 10, IncIn, LoadIn,
     OrShl 10, IncIn, LoadIn, OrShl 25, Store, IncOut, ShrOut 15 8, IncIn, LoadIn, OrShl 8, IncIn,
     LoadIn, OrShl 23, Store, IncOut, ShrOut 15 6, IncIn, LoadIn, OrShl 6, IncIn, LoadIn, OrShl 21,
     Store, IncOut, ShrOut 15 4, IncIn, LoadIn, OrShl 4, IncIn, LoadIn, OrShl 19, Store, IncOut,
     ShrOut 15 2, IncIn, LoadIn, OrShl 2, IncIn, LoadIn, OrShl 17, Store]"

definition SIMD_fastpackwithoutmask16_32 :: "m128 list \<Rightarrow> m128 list option" where
  "SIMD_fastpackwithoutmask16_32 = run_plain
    ([LoadIn]
     @ concat (replicate 16
         [MovOut, IncIn, LoadIn, OrShl 16, Store, IncOut, IncIn, LoadIn]))"

definition SIMD_fastpackwithoutmask17_32 :: "m128 list \<Rightarrow> m128 list option" where
  "SIMD_fastpackwithoutmask17_32 = run_plain
    [LoadIn, MovOut, IncIn, LoadIn, OrShl 17, Store, IncOut, ShrOut 17 2, IncIn, LoadIn, OrShl 2,
     IncIn, LoadIn, OrShl 19, Store, IncOut, ShrOut 17 4, IncIn, LoadIn, OrShl 4, IncIn, LoadIn,
     OrShl 21, Store, IncOut, ShrOut 17 6, IncIn, LoadIn, OrShl 6, IncIn, LoadIn, OrShl 23, Store,
     IncOut, ShrOut 17 8, IncIn, LoadIn, OrShl 8, IncIn, LoadIn, OrShl 25, Store, IncOut,
     ShrOut 17 10, IncIn, LoadIn, OrShl 10, IncIn, LoadIn, OrShl 27, Store, IncOut, ShrOut 17 12,
     IncIn, LoadIn, OrShl 12, IncIn, LoadIn, OrShl 29, Store, IncOut, ShrOut 17 14, IncIn, LoadIn,
     OrShl 14, IncIn, LoadIn, OrShl 31, Store, IncOut, ShrOut 17 16, IncIn, LoadIn, OrShl 16,
     Store, IncOut, ShrOut 17 1, IncIn, LoadIn, OrShl 1, IncIn, LoadIn, OrShl 18, Store, IncOut,
     ShrOut 17 3, IncIn, LoadIn, OrShl 3, IncIn, LoadIn, OrShl 20, Store, IncOut, ShrOut 17 5,
     IncIn, LoadIn, OrShl 5, IncIn, LoadIn, OrShl 22, Store, IncOut, ShrOut 17 7, IncIn, LoadIn,
     OrShl 7, IncIn, LoadIn, OrShl 24, Store, IncOut, ShrOut 17 9, IncIn, LoadIn, OrShl 9, IncIn,
     LoadIn, OrShl 26, Store, IncOut, ShrOut 17 11, IncIn, LoadIn, OrShl 11, IncIn, LoadIn,
     OrShl 28, Store, IncOut, ShrOut 17 13, IncIn, LoadIn, OrShl 13, IncIn, LoadIn, OrShl 30,
     Store, IncOut, ShrOut 17 15, IncIn, LoadIn, OrShl 15, Store]"

definition SIMD_fastpackwithoutmask18_32 :: "m128 list \<Rightarrow> m128 list option" where
  "SIMD_fastpackwithoutmask18_32 = run_plain
    [LoadIn, MovOut, IncIn, LoadIn, OrShl 18, Store, IncOut, ShrOut 18 4, IncIn, LoadIn, OrShl 4,
     IncIn, LoadIn, OrShl 22, Store, IncOut, ShrOut 18 8, IncIn, LoadIn, OrShl 8, IncIn, LoadIn,
     OrShl 26, Store, IncOut, ShrOut 18 12, IncIn, LoadIn, OrShl 12, IncIn, LoadIn, OrShl 30,
     Store, IncOut, ShrOut 18 16, IncIn, LoadIn, OrShl 16, Store, IncOut, ShrOut 18 2, IncIn,
     LoadIn, OrShl 2, IncIn, LoadIn, OrShl 20, Store, IncOut, ShrOut 18 6, IncIn, LoadIn, OrShl 6,
     IncIn, LoadIn, OrShl 24, Store, IncOut, ShrOut 18 10, IncIn, LoadIn, OrShl 10, IncIn, LoadIn,
     OrShl 28, Store, IncOut, ShrOut 18 14, IncIn, LoadIn, OrShl 14, Store, IncOut, IncIn, LoadIn,
     MovOut, IncIn, LoadIn, OrShl 18, Store, IncOut, ShrOut 18 4, IncIn, LoadIn, OrShl 4, IncIn,
     LoadIn, OrShl 22, Store, IncOut, ShrOut 18 8, IncIn, LoadIn, OrShl 8, IncIn, LoadIn, OrShl 26,
     Store, IncOut, ShrOut 18 12, IncIn, LoadIn, OrShl 12, IncIn, LoadIn, OrShl 30, Store, IncOut,
     ShrOut 18 16, IncIn, LoadIn, OrShl 16, Store, IncOut, ShrOut 18 2, IncIn, LoadIn, OrShl 2,
     IncIn, LoadIn, OrShl 20, Store, IncOut, ShrOut 18 6, IncIn, LoadIn, OrShl 6, IncIn, LoadIn,
     OrShl 24, Store, IncOut, ShrOut 18 10, IncIn, LoadIn, OrShl 10, IncIn, LoadIn, OrShl 28,
     Store, IncOut, ShrOut 18 14, IncIn, LoadIn, OrShl 14, Store]"

definition SIMD_fastpackwithoutmask19_32 :: "m128 list \<Rightarrow> m128 list option" where
  "SIMD_fastpackwithoutmask19_32 = run_plain
    [LoadIn, MovOut, IncIn, LoadIn, OrShl 19, Store, IncOut, ShrOut 19 6, IncIn, LoadIn, OrShl 6,
     IncIn, LoadIn, OrShl 25, Store, IncOut, ShrOut 19 12, IncIn, LoadIn, OrShl 12, IncIn, LoadIn,
     OrShl 31, Store, IncOut, ShrOut 19 18, IncIn, LoadIn, OrShl 18, Store, IncOut, ShrOut 19 5,
     IncIn, LoadIn, OrShl 5, IncIn, LoadIn, OrShl 24, Store, IncOut, ShrOut 19 11, IncIn, LoadIn,
     OrShl 11, IncIn, LoadIn, OrShl 30, Store, IncOut, ShrOut 19 17, IncIn, LoadIn, OrShl 17,
     Store, IncOut, ShrOut 19 4, IncIn, LoadIn, OrShl 4, IncIn, LoadIn, OrShl 23, Store, IncOut,
     ShrOut 19 10, IncIn, LoadIn, OrShl 10, IncIn, LoadIn, OrShl 29, Store, IncOut, ShrOut 19 16,
     IncIn, LoadIn, OrShl 16, Store, IncOut, ShrOut 19 3, IncIn, LoadIn, OrShl 3, IncIn, LoadIn,
     OrShl 22, Store, IncOut, ShrOut 19 9, IncIn, LoadIn, OrShl 9, IncIn, LoadIn, OrShl 28, Store,
     IncOut, ShrOut 19 15, IncIn, LoadIn, OrShl 15, Store, IncOut, ShrOut 19 2, IncIn, LoadIn,
     OrShl 2, IncIn, LoadIn, OrShl 21, Store, IncOut, ShrOut 19 8, IncIn, LoadIn, OrShl 8, IncIn,
     LoadIn, OrShl 27, Store, IncOut, ShrOut 19 14, IncIn, LoadIn, OrShl 14, Store, IncOut,
     ShrOut 19 1, IncIn, LoadIn, OrShl 1, IncIn, LoadIn, OrShl 20, Store, IncOut, ShrOut 19 7,
     IncIn, LoadIn, OrShl 7, IncIn, LoadIn, OrShl 26, Store, IncOut, ShrOut 19 13, IncIn, LoadIn,
     OrShl 13, Store]"

definition SIMD_fastpackwithoutmask20_32 :: "m128 list \<Rightarrow> m128 list option" where
  "SIMD_fastpackwithoutmask20_32 = run_plain
    [LoadIn, MovOut, IncIn, LoadIn, OrShl 20, Store, IncOut, ShrOut 20 8, IncIn, LoadIn, OrShl 8,
     IncIn, LoadIn, OrShl 28, Store, IncOut, ShrOut 20 16, IncIn, LoadIn, OrShl 16, Store, IncOut,
     ShrOut 20 4, IncIn, LoadIn, OrShl 4, IncIn, LoadIn, OrShl 24, Store, IncOut, ShrOut 20 12,
     IncIn, LoadIn, OrShl 12, Store, IncOut, IncIn, LoadIn, MovOut, IncIn, LoadIn, OrShl 20, Store,
     IncOut, ShrOut 20 8, IncIn, LoadIn, OrShl 8, IncIn, LoadIn, OrShl 28, Store, IncOut,
     ShrOut 20 16, IncIn, LoadIn, OrShl 16, Store, IncOut, ShrOut 20 4, IncIn, LoadIn, OrShl 4,
     IncIn, LoadIn, OrShl 24, Store, IncOut, ShrOut 20 12, IncIn, LoadIn, OrShl 12, Store, IncOut,
     IncIn, LoadIn, MovOut, IncIn, LoadIn, OrShl 20, Store, IncOut, ShrOut 20 8, IncIn, LoadIn,
     OrShl 8, IncIn, LoadIn, OrShl 28, Store, IncOut, ShrOut 20 16, IncIn, LoadIn, OrShl 16, Store,
     IncOut, ShrOut 20 4, IncIn, LoadIn, OrShl 4, IncIn, LoadIn, OrShl 24, Store, IncOut,
     ShrOut 20 12, IncIn, LoadIn, OrShl 12, Store, IncOut, IncIn, LoadIn, MovOut, IncIn, LoadIn,
     OrShl 20, Store, IncOut, ShrOut 20 8, IncIn, LoadIn, OrShl 8, IncIn, LoadIn, OrShl 28, Store,
     IncOut, ShrOut 20 16, IncIn, LoadIn, OrShl 16, Store, IncOut, ShrOut 20 4, IncIn, LoadIn,
     OrShl 4, IncIn, LoadIn, OrShl 24, Store, IncOut, ShrOut 20 12, IncIn, LoadIn, OrShl 12, Store]"

definition SIMD_fastpackwithoutmask21_32 :: "m128 list \<Rightarrow> m128 list option" where
  "SIMD_fastpackwithoutmask21_32 = run_plain
    [LoadIn, MovOut, IncIn, LoadIn, OrShl 21, Store, IncOut, ShrOut 21 10, IncIn, LoadIn, OrShl 10,
     IncIn, LoadIn, OrShl 31, Store, IncOut, ShrOut 21 20, IncIn, LoadIn, OrShl 20, Store, IncOut,
     ShrOut 21 9, IncIn, LoadIn, OrShl 9, IncIn, LoadIn, OrShl 30, Store, IncOut, ShrOut 21 19,
     IncIn, LoadIn, OrShl 19, Store, IncOut, ShrOut 21 8, IncIn, LoadIn, OrShl 8, IncIn, LoadIn,
     OrShl 29, Store, IncOut, ShrOut 21 18, IncIn, LoadIn, OrShl 18, Store, IncOut, ShrOut 21 7,
     IncIn, LoadIn, OrShl 7, IncIn, LoadIn, OrShl 28, Store, IncOut, ShrOut 21 17, IncIn, LoadIn,
     OrShl 17, Store, IncOut, ShrOut 21 6, IncIn, LoadIn, OrShl 6, IncIn, LoadIn, OrShl 27, Store,
     IncOut, ShrOut 21 16, IncIn, LoadIn, OrShl 16, Store, IncOut, ShrOut 21 5, IncIn, LoadIn,
     OrShl 5, IncIn, LoadIn, OrShl 26, Store, IncOut, ShrOut 21 15, IncIn, LoadIn, OrShl 15, Store,
     IncOut, ShrOut 21 4, IncIn, LoadIn, OrShl 4, IncIn, LoadIn, OrShl 25, Store, IncOut,
     ShrOut 21 14, IncIn, LoadIn, OrShl 14, Store, IncOut, ShrOut 21 3, IncIn, LoadIn, OrShl 3,
     IncIn, LoadIn, OrShl 24, Store, IncOut, ShrOut 21 13, IncIn, LoadIn, OrShl 13, Store, IncOut,
     ShrOut 21 2, IncIn, LoadIn, OrShl 2, IncIn, LoadIn, OrShl 23, Store, IncOut, ShrOut 21 12,
     IncIn, LoadIn, OrShl 12, Store, IncOut, ShrOut 21 1, IncIn, LoadIn, OrShl 1, IncIn, LoadIn,
     OrShl 22, Store, IncOut, ShrOut 21 11, IncIn, LoadIn, OrShl 11, Store]"

definition SIMD_fastpackwithoutmask22_32 :: "m128 list \<Rightarrow> m128 list option" where
  "SIMD_fastpackwithoutmask22_32 = run_plain
    [LoadIn, MovOut, IncIn, LoadIn, OrShl 22, Store, IncOut, ShrOut 22 12, IncIn, LoadIn, OrShl 12,
     Store, IncOut, ShrOut 22 2, IncIn, LoadIn, OrShl 2, IncIn, LoadIn, OrShl 24, Store, IncOut,
     ShrOut 22 14, IncIn, LoadIn, OrShl 14, Store, IncOut, ShrOut 22 4, IncIn, LoadIn, OrShl 4,
     IncIn, LoadIn, OrShl 26, Store, IncOut, ShrOut 22 16, IncIn, LoadIn, OrShl 16, Store, IncOut,
     ShrOut 22 6, IncIn, LoadIn, OrShl 6, IncIn, LoadIn, OrShl 28, Store, IncOut, ShrOut 22 18,
     IncIn, LoadIn, OrShl 18, Store, IncOut, ShrOut 22 8, IncIn, LoadIn, OrShl 8, IncIn, LoadIn,
     OrShl 30, Store, IncOut, ShrOut 22 20, IncIn, LoadIn, OrShl 20, Store, IncOut, ShrOut 22 10,
     IncIn, LoadIn, OrShl 10, Store, IncOut, IncIn, LoadIn, MovOut, IncIn, LoadIn, OrShl 22, Store,
     IncOut, ShrOut 22 12, IncIn, LoadIn, OrShl 12, Store, IncOut, ShrOut 22 2, IncIn, LoadIn,
     OrShl 2, IncIn, LoadIn, OrShl 24, Store, IncOut, ShrOut 22 14, IncIn, LoadIn, OrShl 14, Store,
     IncOut, ShrOut 22 4, IncIn, LoadIn, OrShl 4, IncIn, LoadIn, OrShl 26, Store, IncOut,
     ShrOut 22 16, IncIn, LoadIn, OrShl 16, Store, IncOut, ShrOut 22 6, IncIn, LoadIn, OrShl 6,
     IncIn, LoadIn, OrShl 28, Store, IncOut, ShrOut 22 18, IncIn, LoadIn, OrShl 18, Store, IncOut,
     ShrOut 22 8, IncIn, LoadIn, OrShl 8, IncIn, LoadIn, OrShl 30, Store, IncOut, ShrOut 22 20,
     IncIn, LoadIn, OrShl 20, Store, IncOut, ShrOut 22 10, IncIn, LoadIn, OrShl 10, Store]"

definition SIMD_fastpackwithoutmask23_32 :: "m128 list \<Rightarrow> m128 list option" where
  "SIMD_fastpackwithoutmask23_32 = run_plain
    [LoadIn, MovOut, IncIn, LoadIn, OrShl 23, Store, IncOut, ShrOut 23 14, IncIn, LoadIn, OrShl 14,
     Store, IncOut, ShrOut 23 5, IncIn, LoadIn, OrShl 5, IncIn, LoadIn, OrShl 28, Store, IncOut,
     ShrOut 23 19, IncIn, LoadIn, OrShl 19, Store, IncOut, ShrOut 23 10, IncIn, LoadIn, OrShl 10,
     Store, IncOut, ShrOut 23 1, IncIn, LoadIn, OrShl 1, IncIn, LoadIn, OrShl 24, Store, IncOut,
     ShrOut 23 15, IncIn, LoadIn, OrShl 15, Store, IncOut, ShrOut 23 6, IncIn, LoadIn, OrShl 6,
     IncIn, LoadIn, OrShl 29, Store, IncOut, ShrOut 23 20, IncIn, LoadIn, OrShl 20, Store, IncOut,
     ShrOut 23 11, IncIn, LoadIn, OrShl 11, Store, IncOut, ShrOut 23 2, IncIn, LoadIn, OrShl 2,
     IncIn, LoadIn, OrShl 25, Store, IncOut, ShrOut 23 16, IncIn, LoadIn, OrShl 16, Store, IncOut,
     ShrOut 23 7, IncIn, LoadIn, OrShl 7, IncIn, LoadIn, OrShl 30, Store, IncOut, ShrOut 23 21,
     IncIn, LoadIn, OrShl 21, Store, IncOut, ShrOut 23 12, IncIn, LoadIn, OrShl 12, Store, IncOut,
     ShrOut 23 3, IncIn, LoadIn, OrShl 3, IncIn, LoadIn, OrShl 26, Store, IncOut, ShrOut 23 17,
     IncIn, LoadIn, OrShl 17, Store, IncOut, ShrOut 23 8, IncIn, LoadIn, OrShl 8, IncIn, LoadIn,
     OrShl 31, Store, IncOut, ShrOut 23 22, IncIn, LoadIn, OrShl 22, Store, IncOut, ShrOut 23 13,
     IncIn, LoadIn, OrShl 13, Store, IncOut, ShrOut 23 4, IncIn, LoadIn, OrShl 4, IncIn, LoadIn,
     OrShl 27, Store, IncOut, ShrOut 23 18, IncIn, LoadIn, OrShl 18, Store, IncOut, ShrOut 23 9,
     IncIn, LoadIn, OrShl 9, Store]"

definition SIMD_fastpackwithoutmask24_32 :: "m128 list \<Rightarrow> m128 list option" where
  "SIMD_fastpackwithoutmask24_32 = run_plain
    [LoadIn, MovOut, IncIn, LoadIn, OrShl 24, Store, IncOut, ShrOut 24 16, IncIn, LoadIn, OrShl 16,
     Store, IncOut, ShrOut 24 8, IncIn, LoadIn, OrShl 8, Store, IncOut, IncIn, LoadIn, MovOut,
     IncIn, LoadIn, OrShl 24, Store, IncOut, ShrOut 24 16, IncIn, LoadIn, OrShl 16, Store, IncOut,
     ShrOut 24 8, IncIn, LoadIn, OrShl 8, Store, IncOut, IncIn, LoadIn, MovOut, IncIn, LoadIn,
     OrShl 24, Store, IncOut, ShrOut 24 16, IncIn, LoadIn, OrShl 16, Store, IncOut, ShrOut 24 8,
     IncIn, LoadIn, OrShl 8, Store, IncOut, IncIn, LoadIn, MovOut, IncIn, LoadIn, OrShl 24, Store,
     IncOut, ShrOut 24 16, IncIn, LoadIn, OrShl 16, Store, IncOut, ShrOut 24 8, IncIn, LoadIn,
     OrShl 8, Store, IncOut, IncIn, LoadIn, MovOut, IncIn, LoadIn, OrShl 24, Store, IncOut,
     ShrOut 24 16, IncIn, LoadIn, OrShl 16, Store, IncOut, ShrOut 24 8, IncIn, LoadIn, OrShl 8,
     Store, IncOut, IncIn, LoadIn, MovOut, IncIn, LoadIn, OrShl 24, Store, IncOut, ShrOut 24 16,
     IncIn, LoadIn, OrShl 16, Store, IncOut, ShrOut 24 8, IncIn, LoadIn, OrShl 8, Store, IncOut,
     IncIn, LoadIn, MovOut, IncIn, LoadIn, OrShl 24, Store, IncOut, ShrOut 24 16, IncIn, LoadIn,
     OrShl 16, Store, IncOut, ShrOut 24 8, IncIn, LoadIn, OrShl 8, Store, IncOut, IncIn, LoadIn,
     MovOut, IncIn, LoadIn, OrShl 24, Store, IncOut, ShrOut 24 16, IncIn, LoadIn, OrShl 16, Store,
     IncOut, ShrOut 24 8, IncIn, LoadIn, OrShl 8, Store]"

definition SIMD_fastpackwithoutmask25_32 :: "m128 list \<Rightarrow> m128 list option" where
  "SIMD_fastpackwithoutmask25_32 = run_plain
    [LoadIn, MovOut, IncIn, LoadIn, OrShl 25, Store, IncOut, ShrOut 25 18, IncIn, LoadIn, OrShl 18,
     Store, IncOut, ShrOut 25 11, IncIn, LoadIn, OrShl 11, Store, IncOut, ShrOut 25 4, IncIn,
     LoadIn, OrShl 4, IncIn, LoadIn, OrShl 29, Store, IncOut, ShrOut 25 22, IncIn, LoadIn,
     OrShl 22, Store, IncOut, ShrOut 25 15, IncIn, LoadIn, OrShl 15, Store, IncOut, ShrOut 25 8,
     IncIn, LoadIn, OrShl 8, Store, IncOut, ShrOut 25 1, IncIn, LoadIn, OrShl 1, IncIn, LoadIn,
     OrShl 26, Store, IncOut, ShrOut 25 19, IncIn, LoadIn, OrShl 19, Store, IncOut, ShrOut 25 12,
     IncIn, LoadIn, OrShl 12, Store, IncOut, ShrOut 25 5, IncIn, LoadIn, OrShl 5, IncIn, LoadIn,
     OrShl 30, Store, IncOut, ShrOut 25 23, IncIn, LoadIn, OrShl 23, Store, IncOut, ShrOut 25 16,
     IncIn, LoadIn, OrShl 16, Store, IncOut, ShrOut 25 9, IncIn, LoadIn, OrShl 9, Store, IncOut,
     ShrOut 25 2, IncIn, LoadIn, OrShl 2, IncIn, LoadIn, OrShl 27, Store, IncOut, ShrOut 25 20,
     IncIn, LoadIn, OrShl 20, Store, IncOut, ShrOut 25 13, IncIn, LoadIn, OrShl 13, Store, IncOut,
     ShrOut 25 6, IncIn, LoadIn, OrShl 6, IncIn, LoadIn, OrShl 31, Store, IncOut, ShrOut 25 24,
     IncIn, LoadIn, OrShl 24, Store, IncOut, ShrOut 25 17, IncIn, LoadIn, OrShl 17, Store, IncOut,
     ShrOut 25 10, IncIn, LoadIn, OrShl 10, Store, IncOut, ShrOut 25 3, IncIn, LoadIn, OrShl 3,
     IncIn, LoadIn, OrShl 28, Store, IncOut, ShrOut 25 21, IncIn, LoadIn, OrShl 21, Store, IncOut,
     ShrOut 25 14, IncIn, LoadIn, OrShl 14, Store, IncOut, ShrOut 25 7, IncIn, LoadIn, OrShl 7,
     Store]"

definition SIMD_fastpackwithoutmask26_32 :: "m128 list \<Rightarrow> m128 list option" where
  "SIMD_fastpackwithoutmask26_32 = run_plain
    [LoadIn, MovOut, IncIn, LoadIn, OrShl 26, Store, IncOut, ShrOut 26 20, IncIn, LoadIn, OrShl 20,
     Store, IncOut, ShrOut 26 14, IncIn, LoadIn, OrShl 14, Store, IncOut, ShrOut 26 8, IncIn,
     LoadIn, OrShl 8, Store, IncOut, ShrOut 26 2, IncIn, LoadIn, OrShl 2, IncIn, LoadIn, OrShl 28,
     Store, IncOut, ShrOut 26 22, IncIn, LoadIn, OrShl 22, Store, IncOut, ShrOut 26 16, IncIn,
     LoadIn, OrShl 16, Store, IncOut, ShrOut 26 10, IncIn, LoadIn, OrShl 10, Store, IncOut,
     ShrOut 26 4, IncIn, LoadIn, OrShl 4, IncIn, LoadIn, OrShl 30, Store, IncOut, ShrOut 26 24,
     IncIn, LoadIn, OrShl 24, Store, IncOut, ShrOut 26 18, IncIn, LoadIn, OrShl 18, Store, IncOut,
     ShrOut 26 12, IncIn, LoadIn, OrShl 12, Store, IncOut, ShrOut 26 6, IncIn, LoadIn, OrShl 6,
     Store, IncOut, IncIn, LoadIn, MovOut, IncIn, LoadIn, OrShl 26, Store, IncOut, ShrOut 26 20,
     IncIn, LoadIn, OrShl 20, Store, IncOut, ShrOut 26 14, IncIn, LoadIn, OrShl 14, Store, IncOut,
     ShrOut 26 8, IncIn, LoadIn, OrShl 8, Store, IncOut, ShrOut 26 2, IncIn, LoadIn, OrShl 2,
     IncIn, LoadIn, OrShl 28, Store, IncOut, ShrOut 26 22, IncIn, LoadIn, OrShl 22, Store, IncOut,
     ShrOut 26 16, IncIn, LoadIn, OrShl 16, Store, IncOut, ShrOut 26 10, IncIn, LoadIn, OrShl 10,
     Store, IncOut, ShrOut 26 4, IncIn, LoadIn, OrShl 4, IncIn, LoadIn, OrShl 30, Store, IncOut,
     ShrOut 26 24, IncIn, LoadIn, OrShl 24, Store, IncOut, ShrOut 26 18, IncIn, LoadIn, OrShl 18,
     Store, IncOut, ShrOut 26 12, IncIn, LoadIn, OrShl 12, Store, IncOut, ShrOut 26 6, IncIn,
     LoadIn, OrShl 6, Store]"

definition SIMD_fastpackwithoutmask27_32 :: "m128 list \<Rightarrow> m128 list option" where
  "SIMD_fastpackwithoutmask27_32 = run_plain
    [LoadIn, MovOut, IncIn, LoadIn, OrShl 27, Store, IncOut, ShrOut 27 22, IncIn, LoadIn, OrShl 22,
     Store, IncOut, ShrOut 27 17, IncIn, LoadIn, OrShl 17, Store, IncOut, ShrOut 27 12, IncIn,
     LoadIn, OrShl 12, Store, IncOut, ShrOut 27 7, IncIn, LoadIn, OrShl 7, Store, IncOut,
     ShrOut 27 2, IncIn, LoadIn, OrShl 2, IncIn, LoadIn, OrShl 29, Store, IncOut, ShrOut 27 24,
     IncIn, LoadIn, OrShl 24, Store, IncOut, ShrOut 27 19, IncIn, LoadIn, OrShl 19, Store, IncOut,
     ShrOut 27 14, IncIn, LoadIn, OrShl 14, Store, IncOut, ShrOut 27 9, IncIn, LoadIn, OrShl 9,
     Store, IncOut, ShrOut 27 4, IncIn, LoadIn, OrShl 4, IncIn, LoadIn, OrShl 31, Store, IncOut,
     ShrOut 27 26, IncIn, LoadIn, OrShl 26, Store, IncOut, ShrOut 27 21, IncIn, LoadIn, OrShl 21,
     Store, IncOut, ShrOut 27 16, IncIn, LoadIn, OrShl 16, Store, IncOut, ShrOut 27 11, IncIn,
     LoadIn, OrShl 11, Store, IncOut, ShrOut 27 6, IncIn, LoadIn, OrShl 6, Store, IncOut,
     ShrOut 27 1, IncIn, LoadIn, OrShl 1, IncIn, LoadIn, OrShl 28, Store, IncOut, ShrOut 27 23,
     IncIn, LoadIn, OrShl 23, Store, IncOut, ShrOut 27 18, IncIn, LoadIn, OrShl 18, Store, IncOut,
     ShrOut 27 13, IncIn, LoadIn, OrShl 13, Store, IncOut, ShrOut 27 8, IncIn, LoadIn, OrShl 8,
     Store, IncOut, ShrOut 27 3, IncIn, LoadIn, OrShl 3, IncIn, LoadIn, OrShl 30, Store, IncOut,
     ShrOut 27 25, IncIn, LoadIn, OrShl 25, Store, IncOut, ShrOut 27 20, IncIn, LoadIn, OrShl 20,
     Store, IncOut, ShrOut 27 15, IncIn, LoadIn, OrShl 15, Store, IncOut, ShrOut 27 10, IncIn,
     LoadIn, OrShl 10, Store, IncOut, ShrOut 27 5, IncIn, LoadIn, OrShl 5, Store]"

definition SIMD_fastpackwithoutmask28_32 :: "m128 list \<Rightarrow> m128 list option" where
  "SIMD_fastpackwithoutmask28_32 = run_plain
    [LoadIn, MovOut, IncIn, LoadIn, OrShl 28, Store, IncOut, ShrOut 28 24, IncIn, LoadIn, OrShl 24,
     Store, IncOut, ShrOut 28 20, IncIn, LoadIn, OrShl 20, Store, IncOut, ShrOut 28 16, IncIn,
     LoadIn, OrShl 16, Store, IncOut, ShrOut 28 12, IncIn, LoadIn, OrShl 12, Store, IncOut,
     ShrOut 28 8, IncIn, LoadIn, OrShl 8, Store, IncOut, ShrOut 28 4, IncIn, LoadIn, OrShl 4,
     Store, IncOut, IncIn, LoadIn, MovOut, IncIn, LoadIn, OrShl 28, Store, IncOut, ShrOut 28 24,
     IncIn, LoadIn, OrShl 24, Store, IncOut, ShrOut 28 20, IncIn, LoadIn, OrShl 20, Store, IncOut,
     ShrOut 28 16, IncIn, LoadIn, OrShl 16, Store, IncOut, ShrOut 28 12, IncIn, LoadIn, OrShl 12,
     Store, IncOut, ShrOut 28 8, IncIn, LoadIn, OrShl 8, Store, IncOut, ShrOut 28 4, IncIn, LoadIn,
     OrShl 4, Store, IncOut, IncIn, LoadIn, MovOut, IncIn, LoadIn, OrShl 28, Store, IncOut,
     ShrOut 28 24, IncIn, LoadIn, OrShl 24, Store, IncOut, ShrOut 28 20, IncIn, LoadIn, OrShl 20,
     Store, IncOut, ShrOut 28 16, IncIn, LoadIn, OrShl 16, Store, IncOut, ShrOut 28 12, IncIn,
     LoadIn, OrShl 12, Store, IncOut, ShrOut 28 8, IncIn, LoadIn, OrShl 8, Store, IncOut,
     ShrOut 28 4, IncIn, LoadIn, OrShl 4, Store, IncOut, IncIn, LoadIn, MovOut, IncIn, LoadIn,
     OrShl 28, Store, IncOut, ShrOut 28 24, IncIn, LoadIn, OrShl 24, Store, IncOut, ShrOut 28 20,
     IncIn, LoadIn, OrShl 20, Store, IncOut, ShrOut 28 16, IncIn, LoadIn, OrShl 16, Store, IncOut,
     ShrOut 28 12, IncIn, LoadIn, OrShl 12, Store, IncOut, ShrOut 28 8, IncIn, LoadIn, OrShl 8,
     Store, IncOut, ShrOut 28 4, IncIn, LoadIn, OrShl 4, Store]"

definition SIMD_fastpackwithoutmask29_32 :: "m128 list \<Rightarrow> m128 list option" where
  "SIMD_fastpackwithoutmask29_32 = run_plain
    [LoadIn, MovOut, IncIn, LoadIn, OrShl 29, Store, IncOut, ShrOut 29 26, IncIn, LoadIn, OrShl 26,
     Store, IncOut, ShrOut 29 23, IncIn, LoadIn, OrShl 23, Store, IncOut, ShrOut 29 20, IncIn,
     LoadIn, OrShl 20, Store, IncOut, ShrOut 29 17, IncIn, LoadIn, OrShl 17, Store, IncOut,
     ShrOut 29 14, IncIn, LoadIn, OrShl 14, Store, IncOut, ShrOut 29 11, IncIn, LoadIn, OrShl 11,
     Store, IncOut, ShrOut 29 8, IncIn, LoadIn, OrShl 8, Store, IncOut, ShrOut 29 5, IncIn, LoadIn,
     OrShl 5, Store, IncOut, ShrOut 29 2, IncIn, LoadIn, OrShl 2, IncIn, LoadIn, OrShl 31, Store,
     IncOut, ShrOut 29 28, IncIn, LoadIn, OrShl 28, Store, IncOut, ShrOut 29 25, IncIn, LoadIn,
     OrShl 25, Store, IncOut, ShrOut 29 22, IncIn, LoadIn, OrShl 22, Store, IncOut, ShrOut 29 19,
     IncIn, LoadIn, OrShl 19, Store, IncOut, ShrOut 29 16, IncIn, LoadIn, OrShl 16, Store, IncOut,
     ShrOut 29 13, IncIn, LoadIn, OrShl 13, Store, IncOut, ShrOut 29 10, IncIn, LoadIn, OrShl 10,
     Store, IncOut, ShrOut 29 7, IncIn, LoadIn, OrShl 7, Store, IncOut, ShrOut 29 4, IncIn, LoadIn,
     OrShl 4, Store, IncOut, ShrOut 29 1, IncIn, LoadIn, OrShl 1, IncIn, LoadIn, OrShl 30, Store,
     IncOut, ShrOut 29 27, IncIn, LoadIn, OrShl 27, Store, IncOut, ShrOut 29 24, IncIn, LoadIn,
     OrShl 24, Store, IncOut, ShrOut 29 21, IncIn, LoadIn, OrShl 21, Store, IncOut, ShrOut 29 18,
     IncIn, LoadIn, OrShl 18, Store, IncOut, ShrOut 29 15, IncIn, LoadIn, OrShl 15, Store, IncOut,
     ShrOut 29 12, IncIn, LoadIn, OrShl 12, Store, IncOut, ShrOut 29 9, IncIn, LoadIn, OrShl 9,
     Store, IncOut, ShrOut 29 6, IncIn, LoadIn, OrShl 6, Store, IncOut, ShrOut 29 3, IncIn, LoadIn,
     OrShl 3, Store]"

definition SIMD_fastpackwithoutmask30_32 :: "m128 list \<Rightarrow> m128 list option" where
  "SIMD_fastpackwithoutmask30_32 = run_plain
    [LoadIn, MovOut, IncIn, LoadIn, OrShl 30, Store, IncOut, ShrOut 30 28, IncIn, LoadIn, OrShl 28,
     Store, IncOut, ShrOut 30 26, IncIn, LoadIn, OrShl 26, Store, IncOut, ShrOut 30 24, IncIn,
     LoadIn, OrShl 24, Store, IncOut, ShrOut 30 22, IncIn, LoadIn, OrShl 22, Store, IncOut,
     ShrOut 30 20, IncIn, LoadIn, OrShl 20, Store, IncOut, ShrOut 30 18, IncIn, LoadIn, OrShl 18,
     Store, IncOut, ShrOut 30 16, IncIn, LoadIn, OrShl 16, Store, IncOut, ShrOut 30 14, IncIn,
     LoadIn, OrShl 14, Store, IncOut, ShrOut 30 12, IncIn, LoadIn, OrShl 12, Store, IncOut,
     ShrOut 30 10, IncIn, LoadIn, OrShl 10, Store, IncOut, ShrOut 30 8, IncIn, LoadIn, OrShl 8,
     Store, IncOut, ShrOut 30 6, IncIn, LoadIn, OrShl 6, Store, IncOut, ShrOut 30 4, IncIn, LoadIn,
     OrShl 4, Store, IncOut, ShrOut 30 2, IncIn, LoadIn, OrShl 2, Store, IncOut, IncIn, LoadIn,
     MovOut, IncIn, LoadIn, OrShl 30, Store, IncOut, ShrOut 30 28, IncIn, LoadIn, OrShl 28, Store,
     IncOut, ShrOut 30 26, IncIn, LoadIn, OrShl 26, Store, IncOut, ShrOut 30 24, IncIn, LoadIn,
     OrShl 24, Store, IncOut, ShrOut 30 22, IncIn, LoadIn, OrShl 22, Store, IncOut, ShrOut 30 20,
     IncIn, LoadIn, OrShl 20, Store, IncOut, ShrOut 30 18, IncIn, LoadIn, OrShl 18, Store, IncOut,
     ShrOut 30 16, IncIn, LoadIn, OrShl 16, Store, IncOut, ShrOut 30 14, IncIn, LoadIn, OrShl 14,
     Store, IncOut, ShrOut 30 12, IncIn, LoadIn, OrShl 12, Store, IncOut, ShrOut 30 10, IncIn,
     LoadIn, OrShl 10, Store, IncOut, ShrOut 30 8, IncIn, LoadIn, OrShl 8, Store, IncOut,
     ShrOut 30 6, IncIn, LoadIn, OrShl 6, Store, IncOut, ShrOut 30 4, IncIn, LoadIn, OrShl 4,
     Store, IncOut, ShrOut 30 2, IncIn, LoadIn, OrShl 2, Store]"

definition SIMD_fastpackwithoutmask31_32 :: "m128 list \<Rightarrow> m128 list option" where
  "SIMD_fastpackwithoutmask31_32 = run_plain
    [LoadIn, MovOut, IncIn, LoadIn, OrShl 31, Store, IncOut, ShrOut 31 30, IncIn, LoadIn, OrShl 30,
     Store, IncOut, ShrOut 31 29, IncIn, LoadIn, OrShl 29, Store, IncOut, ShrOut 31 28, IncIn,
     LoadIn, OrShl 28, Store, IncOut, ShrOut 31 27, IncIn, LoadIn, OrShl 27, Store, IncOut,
     ShrOut 31 26, IncIn, LoadIn, OrShl 26, Store, IncOut, ShrOut 31 25, IncIn, LoadIn, OrShl 25,
     Store, IncOut, ShrOut 31 24, IncIn, LoadIn, OrShl 24, Store, IncOut, ShrOut 31 23, IncIn,
     LoadIn, OrShl 23, Store, IncOut, ShrOut 31 22, IncIn, LoadIn, OrShl 22, Store, IncOut,
     ShrOut 31 21, IncIn, LoadIn, OrShl 21, Store, IncOut, ShrOut 31 20, IncIn, LoadIn, OrShl 20,
     Store, IncOut, ShrOut 31 19, IncIn, LoadIn, OrShl 19, Store, IncOut, ShrOut 31 18, IncIn,
     LoadIn, OrShl 18, Store, IncOut, ShrOut 31 17, IncIn, LoadIn, OrShl 17, Store, IncOut,
     ShrOut 31 16, IncIn, LoadIn, OrShl 16, Store, IncOut, ShrOut 31 15, IncIn, LoadIn, OrShl 15,
     Store, IncOut, ShrOut 31 14, IncIn, LoadIn, OrShl 14, Store, IncOut, ShrOut 31 13, IncIn,
     LoadIn, OrShl 13, Store, IncOut, ShrOut 31 12, IncIn, LoadIn, OrShl 12, Store, IncOut,
     ShrOut 31 11, IncIn, LoadIn, OrShl 11, Store, IncOut, ShrOut 31 10, IncIn, LoadIn, OrShl 10,
     Store, IncOut, ShrOut 31 9, IncIn, LoadIn, OrShl 9, Store, IncOut, ShrOut 31 8, IncIn, LoadIn,
     OrShl 8, Store, IncOut, ShrOut 31 7, IncIn, LoadIn, OrShl 7, Store, IncOut, ShrOut 31 6,
     IncIn, LoadIn, OrShl 6, Store, IncOut, ShrOut 31 5, IncIn, LoadIn, OrShl 5, Store, IncOut,
     ShrOut 31 4, IncIn, LoadIn, OrShl 4, Store, IncOut, ShrOut 31 3, IncIn, LoadIn, OrShl 3,
     Store, IncOut, ShrOut 31 2, IncIn, LoadIn, OrShl 2, Store, IncOut, ShrOut 31 1, IncIn, LoadIn,
     OrShl 1, Store]"

definition SIMD_fastpackwithoutmask32_32 :: "m128 list \<Rightarrow> m128 list option" where
  "SIMD_fastpackwithoutmask32_32 = run_plain
    [LoadIn, MovOut, Store, IncOut, IncIn, LoadIn, MovOut, Store, IncOut, IncIn, LoadIn, MovOut,
     Store, IncOut, IncIn, LoadIn, MovOut, Store, IncOut, IncIn, LoadIn, MovOut, Store, IncOut,
     IncIn, LoadIn, MovOut, Store, IncOut, IncIn, LoadIn, MovOut, Store, IncOut, IncIn, LoadIn,
     MovOut, Store, IncOut, IncIn, LoadIn, MovOut, Store, IncOut, IncIn, LoadIn, MovOut, Store,
     IncOut, IncIn, LoadIn, MovOut, Store, IncOut, IncIn, LoadIn, MovOut, Store, IncOut, IncIn,
     LoadIn, MovOut, Store, IncOut, IncIn, LoadIn, MovOut, Store, IncOut, IncIn, LoadIn, MovOut,
     Store, IncOut, IncIn, LoadIn, MovOut, Store, IncOut, IncIn, LoadIn, MovOut, Store, IncOut,
     IncIn, LoadIn, MovOut, Store, IncOut, IncIn, LoadIn, MovOut, Store, IncOut, IncIn, LoadIn,
     MovOut, Store, IncOut, IncIn, LoadIn, MovOut, Store, IncOut, IncIn, LoadIn, MovOut, Store,
     IncOut, IncIn, LoadIn, MovOut, Store, IncOut, IncIn, LoadIn, MovOut, Store, IncOut, IncIn,
     LoadIn, MovOut, Store, IncOut, IncIn, LoadIn, MovOut, Store, IncOut, IncIn, LoadIn, MovOut,
     Store, IncOut, IncIn, LoadIn, MovOut, Store, IncOut, IncIn, LoadIn, MovOut, Store, IncOut,
     IncIn, LoadIn, MovOut, Store, IncOut, IncIn, LoadIn, MovOut, Store, IncOut, IncIn, LoadIn,
     MovOut, Store]"

section \<open>The dispatcher\<close>

definition simdpackwithoutmask :: "m128 list \<Rightarrow> u32 \<Rightarrow> m128 list res" where
  "simdpackwithoutmask inp b =
     (if b = 0 then Inr []
      else if b = 1 then in_bounds (SIMD_fastpackwithoutmask1_32 inp)
      else if b = 2 then in_bounds (SIMD_fastpackwithoutmask2_32 inp)
      else if b = 3 then in_bounds (SIMD_fastpackwithoutmask3_32 inp)
      else if b = 4 then in_bounds (SIMD_fastpackwithoutmask4_32 inp)
      else if b = 5 then in_bounds (SIMD_fastpackwithoutmask5_32 inp)
      else if b = 6 then in_bounds (SIMD_fastpackwithoutmask6_32 inp)
      else if b = 7 then in_bounds (SIMD_fastpackwithoutmask7_32 inp)
      else if b = 8 then in_bounds (SIMD_fastpackwithoutmask8_32 inp)
      else if b = 9 then in_bounds (SIMD_fastpackwithoutmask9_32 inp)
      else if b = 10 then in_bounds (SIMD_fastpackwithoutmask10_32 inp)
      else if b = 11 then in_bounds (SIMD_fastpackwithoutmask11_32 inp)
      else if b = 12 then in_bounds (SIMD_fastpackwithoutmask12_32 inp)
      else if b = 13 then in_bounds (SIMD_fastpackwithoutmask13_32 inp)
      else if b = 14 then in_bounds (SIMD_fastpackwithoutmask14_32 inp)
      else if b = 15 then in_bounds (SIMD_fastpackwithoutmask15_32 inp)
      else if b = 16 then in_bounds (SIMD_fastpackwithoutmask16_32 inp)
      else if b = 17 then in_bounds (SIMD_fastpackwithoutmask17_32 inp)
      else if b = 18 then in_bounds (SIMD_fastpackwithoutmask18_32 inp)
      else if b = 19 then in_bounds (SIMD_fastpackwithoutmask19_32 inp)
      else if b = 20 then in_bounds (SIMD_fastpackwithoutmask20_32 inp)
      else if b = 21 then in_bounds (SIMD_fastpackwithoutmask21_32 inp)
      else if b = 22 then in_bounds (SIMD_fastpackwithoutmask22_32 inp)
      else if b = 23 then in_bounds (SIMD_fastpackwithoutmask23_32 inp)
      else if b = 24 then in_bounds (SIMD_fastpackwithoutmask24_32 inp)
      else if b = 25 then in_bounds (SIMD_fastpackwithoutmask25_32 inp)
      else if b = 26 then in_bounds (SIMD_fastpackwithoutmask26_32 inp)
      else if b = 27 then in_bounds (SIMD_fastpackwithoutmask27_32 inp)
      else if b = 28 then in_bounds (SIMD_fastpackwithoutmask28_32 inp)
      else if b = 29 then in_bounds (SIMD_fastpackwithoutmask29_32 inp)
      else if b = 30 then in_bounds (SIMD_fastpackwithoutmask30_32 inp)
      else if b = 31 then in_bounds (SIMD_fastpackwithoutmask31_32 inp)
      else if b = 32 then in_bounds (SIMD_fastpackwithoutmask32_32 inp)
      else Inl LogicError)"

definition SIMD_fastpackwithoutmask_32 :: "m128 list \<Rightarrow> u32 \<Rightarrow> m128 list res" where
  "SIMD_fastpackwithoutmask_32 inp b = simdpackwithoutmask inp b"

section \<open>Each function is the schedule of its width\<close>

lemma rounds:
  "replicate 4 x = [x, x, x, x]"
  "replicate 8 x = [x, x, x, x, x, x, x, x]"
  "replicate 16 x = [x, x, x, x, x, x, x, x, x, x, x, x, x, x, x, x]"
  by (simp_all add: eval_nat_numeral)

lemma fastpackwithoutmask1_schedule: "SIMD_fastpackwithoutmask1_32 = run_plain (pack_schedule [LoadIn] 1)"
  by (simp add: SIMD_fastpackwithoutmask1_32_def schedule_unfold)

lemma fastpackwithoutmask2_schedule: "SIMD_fastpackwithoutmask2_32 = run_plain (pack_schedule [LoadIn] 2)"
  by (simp add: SIMD_fastpackwithoutmask2_32_def schedule_unfold)

lemma fastpackwithoutmask3_schedule: "SIMD_fastpackwithoutmask3_32 = run_plain (pack_schedule [LoadIn] 3)"
  by (simp add: SIMD_fastpackwithoutmask3_32_def schedule_unfold)

lemma fastpackwithoutmask4_schedule: "SIMD_fastpackwithoutmask4_32 = run_plain (loop_schedule [LoadIn] 4)"
  by (simp add: SIMD_fastpackwithoutmask4_32_def loop_schedule_def schedule_unfold rounds)

lemma fastpackwithoutmask5_schedule: "SIMD_fastpackwithoutmask5_32 = run_plain (pack_schedule [LoadIn] 5)"
  by (simp add: SIMD_fastpackwithoutmask5_32_def schedule_unfold)

lemma fastpackwithoutmask6_schedule: "SIMD_fastpackwithoutmask6_32 = run_plain (pack_schedule [LoadIn] 6)"
  by (simp add: SIMD_fastpackwithoutmask6_32_def schedule_unfold)

lemma fastpackwithoutmask7_schedule: "SIMD_fastpackwithoutmask7_32 = run_plain (pack_schedule [LoadIn] 7)"
  by (simp add: SIMD_fastpackwithoutmask7_32_def schedule_unfold)

lemma fastpackwithoutmask8_schedule: "SIMD_fastpackwithoutmask8_32 = run_plain (loop_schedule [LoadIn] 8)"
  by (simp add: SIMD_fastpackwithoutmask8_32_def loop_schedule_def schedule_unfold rounds)

lemma fastpackwithoutmask9_schedule: "SIMD_fastpackwithoutmask9_32 = run_plain (pack_schedule [LoadIn] 9)"
  by (simp add: SIMD_fastpackwithoutmask9_32_def schedule_unfold)

lemma fastpackwithoutmask10_schedule: "SIMD_fastpackwithoutmask10_32 = run_plain (pack_schedule [LoadIn] 10)"
  by (simp add: SIMD_fastpackwithoutmask10_32_def schedule_unfold)

lemma fastpackwithoutmask11_schedule: "SIMD_fastpackwithoutmask11_32 = run_plain (pack_schedule [LoadIn] 11)"
  by (simp add: SIMD_fastpackwithoutmask11_32_def schedule_unfold)

lemma fastpackwithoutmask12_schedule: "SIMD_fastpackwithoutmask12_32 = run_plain (pack_schedule [LoadIn] 12)"
  by (simp add: SIMD_fastpackwithoutmask12_32_def schedule_unfold)

lemma fastpackwithoutmask13_schedule: "SIMD_fastpackwithoutmask13_32 = run_plain (pack_schedule [LoadIn] 13)"
  by (simp add: SIMD_fastpackwithoutmask13_32_def schedule_unfold)

lemma fastpackwithoutmask14_schedule: "SIMD_fastpackwithoutmask14_32 = run_plain (pack_schedule [LoadIn] 14)"
  by (simp add: SIMD_fastpackwithoutmask14_32_def schedule_unfold)

lemma fastpackwithoutmask15_schedule: "SIMD_fastpackwithoutmask15_32 = run_plain (pack_schedule [LoadIn] 15)"
  by (simp add: SIMD_fastpackwithoutmask15_32_def schedule_unfold)

lemma fastpackwithoutmask16_schedule: "SIMD_fastpackwithoutmask16_32 = run_plain (loop_schedule [LoadIn] 16)"
  by (simp add: SIMD_fastpackwithoutmask16_32_def loop_schedule_def schedule_unfold rounds)

lemma fastpackwithoutmask17_schedule: "SIMD_fastpackwithoutmask17_32 = run_plain (pack_schedule [LoadIn] 17)"
  by (simp add: SIMD_fastpackwithoutmask17_32_def schedule_unfold)

lemma fastpackwithoutmask18_schedule: "SIMD_fastpackwithoutmask18_32 = run_plain (pack_schedule [LoadIn] 18)"
  by (simp add: SIMD_fastpackwithoutmask18_32_def schedule_unfold)

lemma fastpackwithoutmask19_schedule: "SIMD_fastpackwithoutmask19_32 = run_plain (pack_schedule [LoadIn] 19)"
  by (simp add: SIMD_fastpackwithoutmask19_32_def schedule_unfold)

lemma fastpackwithoutmask20_schedule: "SIMD_fastpackwithoutmask20_32 = run_plain (pack_schedule [LoadIn] 20)"
  by (simp add: SIMD_fastpackwithoutmask20_32_def schedule_unfold)

lemma fastpackwithoutmask21_schedule: "SIMD_fastpackwithoutmask21_32 = run_plain (pack_schedule [LoadIn] 21)"
  by (simp add: SIMD_fastpackwithoutmask21_32_def schedule_unfold)

lemma fastpackwithoutmask22_schedule: "SIMD_fastpackwithoutmask22_32 = run_plain (pack_schedule [LoadIn] 22)"
  by (simp add: SIMD_fastpackwithoutmask22_32_def schedule_unfold)

lemma fastpackwithoutmask23_schedule: "SIMD_fastpackwithoutmask23_32 = run_plain (pack_schedule [LoadIn] 23)"
  by (simp add: SIMD_fastpackwithoutmask23_32_def schedule_unfold)

lemma fastpackwithoutmask24_schedule: "SIMD_fastpackwithoutmask24_32 = run_plain (pack_schedule [LoadIn] 24)"
  by (simp add: SIMD_fastpackwithoutmask24_32_def schedule_unfold)

lemma fastpackwithoutmask25_schedule: "SIMD_fastpackwithoutmask25_32 = run_plain (pack_schedule [LoadIn] 25)"
  by (simp add: SIMD_fastpackwithoutmask25_32_def schedule_unfold)

lemma fastpackwithoutmask26_schedule: "SIMD_fastpackwithoutmask26_32 = run_plain (pack_schedule [LoadIn] 26)"
  by (simp add: SIMD_fastpackwithoutmask26_32_def schedule_unfold)

lemma fastpackwithoutmask27_schedule: "SIMD_fastpackwithoutmask27_32 = run_plain (pack_schedule [LoadIn] 27)"
  by (simp add: SIMD_fastpackwithoutmask27_32_def schedule_unfold)

lemma fastpackwithoutmask28_schedule: "SIMD_fastpackwithoutmask28_32 = run_plain (pack_schedule [LoadIn] 28)"
  by (simp add: SIMD_fastpackwithoutmask28_32_def schedule_unfold)

lemma fastpackwithoutmask29_schedule: "SIMD_fastpackwithoutmask29_32 = run_plain (pack_schedule [LoadIn] 29)"
  by (simp add: SIMD_fastpackwithoutmask29_32_def schedule_unfold)

lemma fastpackwithoutmask30_schedule: "SIMD_fastpackwithoutmask30_32 = run_plain (pack_schedule [LoadIn] 30)"
  by (simp add: SIMD_fastpackwithoutmask30_32_def schedule_unfold)

lemma fastpackwithoutmask31_schedule: "SIMD_fastpackwithoutmask31_32 = run_plain (pack_schedule [LoadIn] 31)"
  by (simp add: SIMD_fastpackwithoutmask31_32_def schedule_unfold)

lemma fastpackwithoutmask32_schedule: "SIMD_fastpackwithoutmask32_32 = run_plain (concat (map copy_value [0..<32]))"
  by (simp add: SIMD_fastpackwithoutmask32_32_def copy_value_def upt_32)

lemmas fastpackwithoutmask_schedules =
  fastpackwithoutmask1_schedule fastpackwithoutmask2_schedule fastpackwithoutmask3_schedule fastpackwithoutmask4_schedule
  fastpackwithoutmask5_schedule fastpackwithoutmask6_schedule fastpackwithoutmask7_schedule fastpackwithoutmask8_schedule
  fastpackwithoutmask9_schedule fastpackwithoutmask10_schedule fastpackwithoutmask11_schedule fastpackwithoutmask12_schedule
  fastpackwithoutmask13_schedule fastpackwithoutmask14_schedule fastpackwithoutmask15_schedule fastpackwithoutmask16_schedule
  fastpackwithoutmask17_schedule fastpackwithoutmask18_schedule fastpackwithoutmask19_schedule fastpackwithoutmask20_schedule
  fastpackwithoutmask21_schedule fastpackwithoutmask22_schedule fastpackwithoutmask23_schedule fastpackwithoutmask24_schedule
  fastpackwithoutmask25_schedule fastpackwithoutmask26_schedule fastpackwithoutmask27_schedule fastpackwithoutmask28_schedule
  fastpackwithoutmask29_schedule fastpackwithoutmask30_schedule fastpackwithoutmask31_schedule fastpackwithoutmask32_schedule

lemmas fastpackwithoutmask_unfold = fastpackwithoutmask_schedules plain_schedule_def

lemma simdpackwithoutmask_schedule:
  assumes "0 < b" and "b < 32"
  shows "simdpackwithoutmask inp (of_nat b) = in_bounds (run_plain (plain_schedule [LoadIn] b) inp)"
  using width_cases[OF assms]
  by (elim insertE emptyE) (simp_all add: simdpackwithoutmask_def fastpackwithoutmask_unfold)

section \<open>What the functions write\<close>

interpretation plain: packer "[LoadIn]" "\<lambda>off inp. inp" "\<lambda>off inp i. off"
  by unfold_locales auto

lemma simdpackwithoutmask_packs:
  assumes "pack_room b inp" and "0 < b" "b < 32" and "\<forall>i<32. fits b (inp ! i)"
  shows "\<exists>out. simdpackwithoutmask inp (of_nat b) = Inr out \<and> length out = b \<and> packed_block b inp out"
  using plain.run_plain_schedule[where off = "mm_set1_epi32 0", OF assms] simdpackwithoutmask_schedule[OF assms(2,3)]
  by (auto simp: run_plain_def)

lemma fastpackwithoutmask32_copies: "32 \<le> length inp \<Longrightarrow> SIMD_fastpackwithoutmask32_32 inp = Some (take 32 inp)"
  by (simp add: fastpackwithoutmask32_schedule run_plain_def run_copy_values)

end
