(* ===== verification/PlainPackMask.thy ===== *)
theory PlainPackMask
  imports PlainPack
begin

text \<open>
  The masks \<open>mask1\<close> to \<open>mask31\<close> of \<^verbatim>\<open>varint/bitpacking/bitpacksimd.cpp\<close>, the masking packers
  \<open>__SIMD_fastpack1_32\<close> to \<open>__SIMD_fastpack32_32\<close> and their dispatcher \<open>simdpack\<close>.
  \<open>InReg = _mm_and_si128(_mm_load_si128(++in), mask3)\<close> is \<open>IncIn, LoadIn, AndIn mask3\<close>.
\<close>

section \<open>The masks\<close>

definition mask1 :: m128 where
  "mask1 = mm_set1_epi32 1"

definition mask2 :: m128 where
  "mask2 = mm_set1_epi32 3"

definition mask3 :: m128 where
  "mask3 = mm_set1_epi32 7"

definition mask4 :: m128 where
  "mask4 = mm_set1_epi32 15"

definition mask5 :: m128 where
  "mask5 = mm_set1_epi32 31"

definition mask6 :: m128 where
  "mask6 = mm_set1_epi32 63"

definition mask7 :: m128 where
  "mask7 = mm_set1_epi32 127"

definition mask8 :: m128 where
  "mask8 = mm_set1_epi32 255"

definition mask9 :: m128 where
  "mask9 = mm_set1_epi32 511"

definition mask10 :: m128 where
  "mask10 = mm_set1_epi32 1023"

definition mask11 :: m128 where
  "mask11 = mm_set1_epi32 2047"

definition mask12 :: m128 where
  "mask12 = mm_set1_epi32 4095"

definition mask13 :: m128 where
  "mask13 = mm_set1_epi32 8191"

definition mask14 :: m128 where
  "mask14 = mm_set1_epi32 16383"

definition mask15 :: m128 where
  "mask15 = mm_set1_epi32 32767"

definition mask16 :: m128 where
  "mask16 = mm_set1_epi32 65535"

definition mask17 :: m128 where
  "mask17 = mm_set1_epi32 131071"

definition mask18 :: m128 where
  "mask18 = mm_set1_epi32 262143"

definition mask19 :: m128 where
  "mask19 = mm_set1_epi32 524287"

definition mask20 :: m128 where
  "mask20 = mm_set1_epi32 1048575"

definition mask21 :: m128 where
  "mask21 = mm_set1_epi32 2097151"

definition mask22 :: m128 where
  "mask22 = mm_set1_epi32 4194303"

definition mask23 :: m128 where
  "mask23 = mm_set1_epi32 8388607"

definition mask24 :: m128 where
  "mask24 = mm_set1_epi32 16777215"

definition mask25 :: m128 where
  "mask25 = mm_set1_epi32 33554431"

definition mask26 :: m128 where
  "mask26 = mm_set1_epi32 67108863"

definition mask27 :: m128 where
  "mask27 = mm_set1_epi32 134217727"

definition mask28 :: m128 where
  "mask28 = mm_set1_epi32 268435455"

definition mask29 :: m128 where
  "mask29 = mm_set1_epi32 536870911"

definition mask30 :: m128 where
  "mask30 = mm_set1_epi32 1073741823"

definition mask31 :: m128 where
  "mask31 = mm_set1_epi32 2147483647"

lemmas masks_def =
  mask1_def mask2_def mask3_def mask4_def mask5_def mask6_def mask7_def mask8_def
  mask9_def mask10_def mask11_def mask12_def mask13_def mask14_def mask15_def mask16_def
  mask17_def mask18_def mask19_def mask20_def mask21_def mask22_def mask23_def mask24_def
  mask25_def mask26_def mask27_def mask28_def mask29_def mask30_def mask31_def

lemma masks_eq:
  "mask1 = mask_of 1"
  "mask2 = mask_of 2"
  "mask3 = mask_of 3"
  "mask4 = mask_of 4"
  "mask5 = mask_of 5"
  "mask6 = mask_of 6"
  "mask7 = mask_of 7"
  "mask8 = mask_of 8"
  "mask9 = mask_of 9"
  "mask10 = mask_of 10"
  "mask11 = mask_of 11"
  "mask12 = mask_of 12"
  "mask13 = mask_of 13"
  "mask14 = mask_of 14"
  "mask15 = mask_of 15"
  "mask16 = mask_of 16"
  "mask17 = mask_of 17"
  "mask18 = mask_of 18"
  "mask19 = mask_of 19"
  "mask20 = mask_of 20"
  "mask21 = mask_of 21"
  "mask22 = mask_of 22"
  "mask23 = mask_of 23"
  "mask24 = mask_of 24"
  "mask25 = mask_of 25"
  "mask26 = mask_of 26"
  "mask27 = mask_of 27"
  "mask28 = mask_of 28"
  "mask29 = mask_of 29"
  "mask30 = mask_of 30"
  "mask31 = mask_of 31"
  by (simp_all add: masks_def mask_unfold)

section \<open>The packing functions\<close>

definition SIMD_fastpack1_32 :: "m128 list \<Rightarrow> m128 list option" where
  "SIMD_fastpack1_32 = run_plain
    [LoadIn, AndIn mask1, MovOut, IncIn, LoadIn, AndIn mask1, OrShl 1, IncIn, LoadIn, AndIn mask1,
     OrShl 2, IncIn, LoadIn, AndIn mask1, OrShl 3, IncIn, LoadIn, AndIn mask1, OrShl 4, IncIn,
     LoadIn, AndIn mask1, OrShl 5, IncIn, LoadIn, AndIn mask1, OrShl 6, IncIn, LoadIn, AndIn mask1,
     OrShl 7, IncIn, LoadIn, AndIn mask1, OrShl 8, IncIn, LoadIn, AndIn mask1, OrShl 9, IncIn,
     LoadIn, AndIn mask1, OrShl 10, IncIn, LoadIn, AndIn mask1, OrShl 11, IncIn, LoadIn,
     AndIn mask1, OrShl 12, IncIn, LoadIn, AndIn mask1, OrShl 13, IncIn, LoadIn, AndIn mask1,
     OrShl 14, IncIn, LoadIn, AndIn mask1, OrShl 15, IncIn, LoadIn, AndIn mask1, OrShl 16, IncIn,
     LoadIn, AndIn mask1, OrShl 17, IncIn, LoadIn, AndIn mask1, OrShl 18, IncIn, LoadIn,
     AndIn mask1, OrShl 19, IncIn, LoadIn, AndIn mask1, OrShl 20, IncIn, LoadIn, AndIn mask1,
     OrShl 21, IncIn, LoadIn, AndIn mask1, OrShl 22, IncIn, LoadIn, AndIn mask1, OrShl 23, IncIn,
     LoadIn, AndIn mask1, OrShl 24, IncIn, LoadIn, AndIn mask1, OrShl 25, IncIn, LoadIn,
     AndIn mask1, OrShl 26, IncIn, LoadIn, AndIn mask1, OrShl 27, IncIn, LoadIn, AndIn mask1,
     OrShl 28, IncIn, LoadIn, AndIn mask1, OrShl 29, IncIn, LoadIn, AndIn mask1, OrShl 30, IncIn,
     LoadIn, AndIn mask1, OrShl 31, Store]"

definition SIMD_fastpack2_32 :: "m128 list \<Rightarrow> m128 list option" where
  "SIMD_fastpack2_32 = run_plain
    [LoadIn, AndIn mask2, MovOut, IncIn, LoadIn, AndIn mask2, OrShl 2, IncIn, LoadIn, AndIn mask2,
     OrShl 4, IncIn, LoadIn, AndIn mask2, OrShl 6, IncIn, LoadIn, AndIn mask2, OrShl 8, IncIn,
     LoadIn, AndIn mask2, OrShl 10, IncIn, LoadIn, AndIn mask2, OrShl 12, IncIn, LoadIn,
     AndIn mask2, OrShl 14, IncIn, LoadIn, AndIn mask2, OrShl 16, IncIn, LoadIn, AndIn mask2,
     OrShl 18, IncIn, LoadIn, AndIn mask2, OrShl 20, IncIn, LoadIn, AndIn mask2, OrShl 22, IncIn,
     LoadIn, AndIn mask2, OrShl 24, IncIn, LoadIn, AndIn mask2, OrShl 26, IncIn, LoadIn,
     AndIn mask2, OrShl 28, IncIn, LoadIn, AndIn mask2, OrShl 30, Store, IncOut, IncIn, LoadIn,
     AndIn mask2, MovOut, IncIn, LoadIn, AndIn mask2, OrShl 2, IncIn, LoadIn, AndIn mask2, OrShl 4,
     IncIn, LoadIn, AndIn mask2, OrShl 6, IncIn, LoadIn, AndIn mask2, OrShl 8, IncIn, LoadIn,
     AndIn mask2, OrShl 10, IncIn, LoadIn, AndIn mask2, OrShl 12, IncIn, LoadIn, AndIn mask2,
     OrShl 14, IncIn, LoadIn, AndIn mask2, OrShl 16, IncIn, LoadIn, AndIn mask2, OrShl 18, IncIn,
     LoadIn, AndIn mask2, OrShl 20, IncIn, LoadIn, AndIn mask2, OrShl 22, IncIn, LoadIn,
     AndIn mask2, OrShl 24, IncIn, LoadIn, AndIn mask2, OrShl 26, IncIn, LoadIn, AndIn mask2,
     OrShl 28, IncIn, LoadIn, AndIn mask2, OrShl 30, Store]"

definition SIMD_fastpack3_32 :: "m128 list \<Rightarrow> m128 list option" where
  "SIMD_fastpack3_32 = run_plain
    [LoadIn, AndIn mask3, MovOut, IncIn, LoadIn, AndIn mask3, OrShl 3, IncIn, LoadIn, AndIn mask3,
     OrShl 6, IncIn, LoadIn, AndIn mask3, OrShl 9, IncIn, LoadIn, AndIn mask3, OrShl 12, IncIn,
     LoadIn, AndIn mask3, OrShl 15, IncIn, LoadIn, AndIn mask3, OrShl 18, IncIn, LoadIn,
     AndIn mask3, OrShl 21, IncIn, LoadIn, AndIn mask3, OrShl 24, IncIn, LoadIn, AndIn mask3,
     OrShl 27, IncIn, LoadIn, AndIn mask3, OrShl 30, Store, IncOut, ShrOut 3 1, IncIn, LoadIn,
     AndIn mask3, OrShl 1, IncIn, LoadIn, AndIn mask3, OrShl 4, IncIn, LoadIn, AndIn mask3,
     OrShl 7, IncIn, LoadIn, AndIn mask3, OrShl 10, IncIn, LoadIn, AndIn mask3, OrShl 13, IncIn,
     LoadIn, AndIn mask3, OrShl 16, IncIn, LoadIn, AndIn mask3, OrShl 19, IncIn, LoadIn,
     AndIn mask3, OrShl 22, IncIn, LoadIn, AndIn mask3, OrShl 25, IncIn, LoadIn, AndIn mask3,
     OrShl 28, IncIn, LoadIn, AndIn mask3, OrShl 31, Store, IncOut, ShrOut 3 2, IncIn, LoadIn,
     AndIn mask3, OrShl 2, IncIn, LoadIn, AndIn mask3, OrShl 5, IncIn, LoadIn, AndIn mask3,
     OrShl 8, IncIn, LoadIn, AndIn mask3, OrShl 11, IncIn, LoadIn, AndIn mask3, OrShl 14, IncIn,
     LoadIn, AndIn mask3, OrShl 17, IncIn, LoadIn, AndIn mask3, OrShl 20, IncIn, LoadIn,
     AndIn mask3, OrShl 23, IncIn, LoadIn, AndIn mask3, OrShl 26, IncIn, LoadIn, AndIn mask3,
     OrShl 29, Store]"

definition SIMD_fastpack4_32 :: "m128 list \<Rightarrow> m128 list option" where
  "SIMD_fastpack4_32 = run_plain
    ([LoadIn, AndIn mask4]
     @ concat (replicate 4
         [MovOut, IncIn, LoadIn, AndIn mask4, OrShl 4, IncIn, LoadIn, AndIn mask4, OrShl 8, IncIn,
          LoadIn, AndIn mask4, OrShl 12, IncIn, LoadIn, AndIn mask4, OrShl 16, IncIn, LoadIn,
          AndIn mask4, OrShl 20, IncIn, LoadIn, AndIn mask4, OrShl 24, IncIn, LoadIn, AndIn mask4,
          OrShl 28, Store, IncOut, IncIn, LoadIn, AndIn mask4]))"

definition SIMD_fastpack5_32 :: "m128 list \<Rightarrow> m128 list option" where
  "SIMD_fastpack5_32 = run_plain
    [LoadIn, AndIn mask5, MovOut, IncIn, LoadIn, AndIn mask5, OrShl 5, IncIn, LoadIn, AndIn mask5,
     OrShl 10, IncIn, LoadIn, AndIn mask5, OrShl 15, IncIn, LoadIn, AndIn mask5, OrShl 20, IncIn,
     LoadIn, AndIn mask5, OrShl 25, IncIn, LoadIn, AndIn mask5, OrShl 30, Store, IncOut,
     ShrOut 5 3, IncIn, LoadIn, AndIn mask5, OrShl 3, IncIn, LoadIn, AndIn mask5, OrShl 8, IncIn,
     LoadIn, AndIn mask5, OrShl 13, IncIn, LoadIn, AndIn mask5, OrShl 18, IncIn, LoadIn,
     AndIn mask5, OrShl 23, IncIn, LoadIn, AndIn mask5, OrShl 28, Store, IncOut, ShrOut 5 1, IncIn,
     LoadIn, AndIn mask5, OrShl 1, IncIn, LoadIn, AndIn mask5, OrShl 6, IncIn, LoadIn, AndIn mask5,
     OrShl 11, IncIn, LoadIn, AndIn mask5, OrShl 16, IncIn, LoadIn, AndIn mask5, OrShl 21, IncIn,
     LoadIn, AndIn mask5, OrShl 26, IncIn, LoadIn, AndIn mask5, OrShl 31, Store, IncOut,
     ShrOut 5 4, IncIn, LoadIn, AndIn mask5, OrShl 4, IncIn, LoadIn, AndIn mask5, OrShl 9, IncIn,
     LoadIn, AndIn mask5, OrShl 14, IncIn, LoadIn, AndIn mask5, OrShl 19, IncIn, LoadIn,
     AndIn mask5, OrShl 24, IncIn, LoadIn, AndIn mask5, OrShl 29, Store, IncOut, ShrOut 5 2, IncIn,
     LoadIn, AndIn mask5, OrShl 2, IncIn, LoadIn, AndIn mask5, OrShl 7, IncIn, LoadIn, AndIn mask5,
     OrShl 12, IncIn, LoadIn, AndIn mask5, OrShl 17, IncIn, LoadIn, AndIn mask5, OrShl 22, IncIn,
     LoadIn, AndIn mask5, OrShl 27, Store]"

definition SIMD_fastpack6_32 :: "m128 list \<Rightarrow> m128 list option" where
  "SIMD_fastpack6_32 = run_plain
    [LoadIn, AndIn mask6, MovOut, IncIn, LoadIn, AndIn mask6, OrShl 6, IncIn, LoadIn, AndIn mask6,
     OrShl 12, IncIn, LoadIn, AndIn mask6, OrShl 18, IncIn, LoadIn, AndIn mask6, OrShl 24, IncIn,
     LoadIn, AndIn mask6, OrShl 30, Store, IncOut, ShrOut 6 4, IncIn, LoadIn, AndIn mask6, OrShl 4,
     IncIn, LoadIn, AndIn mask6, OrShl 10, IncIn, LoadIn, AndIn mask6, OrShl 16, IncIn, LoadIn,
     AndIn mask6, OrShl 22, IncIn, LoadIn, AndIn mask6, OrShl 28, Store, IncOut, ShrOut 6 2, IncIn,
     LoadIn, AndIn mask6, OrShl 2, IncIn, LoadIn, AndIn mask6, OrShl 8, IncIn, LoadIn, AndIn mask6,
     OrShl 14, IncIn, LoadIn, AndIn mask6, OrShl 20, IncIn, LoadIn, AndIn mask6, OrShl 26, Store,
     IncOut, IncIn, LoadIn, AndIn mask6, MovOut, IncIn, LoadIn, AndIn mask6, OrShl 6, IncIn,
     LoadIn, AndIn mask6, OrShl 12, IncIn, LoadIn, AndIn mask6, OrShl 18, IncIn, LoadIn,
     AndIn mask6, OrShl 24, IncIn, LoadIn, AndIn mask6, OrShl 30, Store, IncOut, ShrOut 6 4, IncIn,
     LoadIn, AndIn mask6, OrShl 4, IncIn, LoadIn, AndIn mask6, OrShl 10, IncIn, LoadIn,
     AndIn mask6, OrShl 16, IncIn, LoadIn, AndIn mask6, OrShl 22, IncIn, LoadIn, AndIn mask6,
     OrShl 28, Store, IncOut, ShrOut 6 2, IncIn, LoadIn, AndIn mask6, OrShl 2, IncIn, LoadIn,
     AndIn mask6, OrShl 8, IncIn, LoadIn, AndIn mask6, OrShl 14, IncIn, LoadIn, AndIn mask6,
     OrShl 20, IncIn, LoadIn, AndIn mask6, OrShl 26, Store]"

definition SIMD_fastpack7_32 :: "m128 list \<Rightarrow> m128 list option" where
  "SIMD_fastpack7_32 = run_plain
    [LoadIn, AndIn mask7, MovOut, IncIn, LoadIn, AndIn mask7, OrShl 7, IncIn, LoadIn, AndIn mask7,
     OrShl 14, IncIn, LoadIn, AndIn mask7, OrShl 21, IncIn, LoadIn, AndIn mask7, OrShl 28, Store,
     IncOut, ShrOut 7 3, IncIn, LoadIn, AndIn mask7, OrShl 3, IncIn, LoadIn, AndIn mask7, OrShl 10,
     IncIn, LoadIn, AndIn mask7, OrShl 17, IncIn, LoadIn, AndIn mask7, OrShl 24, IncIn, LoadIn,
     AndIn mask7, OrShl 31, Store, IncOut, ShrOut 7 6, IncIn, LoadIn, AndIn mask7, OrShl 6, IncIn,
     LoadIn, AndIn mask7, OrShl 13, IncIn, LoadIn, AndIn mask7, OrShl 20, IncIn, LoadIn,
     AndIn mask7, OrShl 27, Store, IncOut, ShrOut 7 2, IncIn, LoadIn, AndIn mask7, OrShl 2, IncIn,
     LoadIn, AndIn mask7, OrShl 9, IncIn, LoadIn, AndIn mask7, OrShl 16, IncIn, LoadIn,
     AndIn mask7, OrShl 23, IncIn, LoadIn, AndIn mask7, OrShl 30, Store, IncOut, ShrOut 7 5, IncIn,
     LoadIn, AndIn mask7, OrShl 5, IncIn, LoadIn, AndIn mask7, OrShl 12, IncIn, LoadIn,
     AndIn mask7, OrShl 19, IncIn, LoadIn, AndIn mask7, OrShl 26, Store, IncOut, ShrOut 7 1, IncIn,
     LoadIn, AndIn mask7, OrShl 1, IncIn, LoadIn, AndIn mask7, OrShl 8, IncIn, LoadIn, AndIn mask7,
     OrShl 15, IncIn, LoadIn, AndIn mask7, OrShl 22, IncIn, LoadIn, AndIn mask7, OrShl 29, Store,
     IncOut, ShrOut 7 4, IncIn, LoadIn, AndIn mask7, OrShl 4, IncIn, LoadIn, AndIn mask7, OrShl 11,
     IncIn, LoadIn, AndIn mask7, OrShl 18, IncIn, LoadIn, AndIn mask7, OrShl 25, Store]"

definition SIMD_fastpack8_32 :: "m128 list \<Rightarrow> m128 list option" where
  "SIMD_fastpack8_32 = run_plain
    ([LoadIn, AndIn mask8]
     @ concat (replicate 8
         [MovOut, IncIn, LoadIn, AndIn mask8, OrShl 8, IncIn, LoadIn, AndIn mask8, OrShl 16, IncIn,
          LoadIn, AndIn mask8, OrShl 24, Store, IncOut, IncIn, LoadIn, AndIn mask8]))"

definition SIMD_fastpack9_32 :: "m128 list \<Rightarrow> m128 list option" where
  "SIMD_fastpack9_32 = run_plain
    [LoadIn, AndIn mask9, MovOut, IncIn, LoadIn, AndIn mask9, OrShl 9, IncIn, LoadIn, AndIn mask9,
     OrShl 18, IncIn, LoadIn, AndIn mask9, OrShl 27, Store, IncOut, ShrOut 9 4, IncIn, LoadIn,
     AndIn mask9, OrShl 4, IncIn, LoadIn, AndIn mask9, OrShl 13, IncIn, LoadIn, AndIn mask9,
     OrShl 22, IncIn, LoadIn, AndIn mask9, OrShl 31, Store, IncOut, ShrOut 9 8, IncIn, LoadIn,
     AndIn mask9, OrShl 8, IncIn, LoadIn, AndIn mask9, OrShl 17, IncIn, LoadIn, AndIn mask9,
     OrShl 26, Store, IncOut, ShrOut 9 3, IncIn, LoadIn, AndIn mask9, OrShl 3, IncIn, LoadIn,
     AndIn mask9, OrShl 12, IncIn, LoadIn, AndIn mask9, OrShl 21, IncIn, LoadIn, AndIn mask9,
     OrShl 30, Store, IncOut, ShrOut 9 7, IncIn, LoadIn, AndIn mask9, OrShl 7, IncIn, LoadIn,
     AndIn mask9, OrShl 16, IncIn, LoadIn, AndIn mask9, OrShl 25, Store, IncOut, ShrOut 9 2, IncIn,
     LoadIn, AndIn mask9, OrShl 2, IncIn, LoadIn, AndIn mask9, OrShl 11, IncIn, LoadIn,
     AndIn mask9, OrShl 20, IncIn, LoadIn, AndIn mask9, OrShl 29, Store, IncOut, ShrOut 9 6, IncIn,
     LoadIn, AndIn mask9, OrShl 6, IncIn, LoadIn, AndIn mask9, OrShl 15, IncIn, LoadIn,
     AndIn mask9, OrShl 24, Store, IncOut, ShrOut 9 1, IncIn, LoadIn, AndIn mask9, OrShl 1, IncIn,
     LoadIn, AndIn mask9, OrShl 10, IncIn, LoadIn, AndIn mask9, OrShl 19, IncIn, LoadIn,
     AndIn mask9, OrShl 28, Store, IncOut, ShrOut 9 5, IncIn, LoadIn, AndIn mask9, OrShl 5, IncIn,
     LoadIn, AndIn mask9, OrShl 14, IncIn, LoadIn, AndIn mask9, OrShl 23, Store]"

definition SIMD_fastpack10_32 :: "m128 list \<Rightarrow> m128 list option" where
  "SIMD_fastpack10_32 = run_plain
    [LoadIn, AndIn mask10, MovOut, IncIn, LoadIn, AndIn mask10, OrShl 10, IncIn, LoadIn,
     AndIn mask10, OrShl 20, IncIn, LoadIn, AndIn mask10, OrShl 30, Store, IncOut, ShrOut 10 8,
     IncIn, LoadIn, AndIn mask10, OrShl 8, IncIn, LoadIn, AndIn mask10, OrShl 18, IncIn, LoadIn,
     AndIn mask10, OrShl 28, Store, IncOut, ShrOut 10 6, IncIn, LoadIn, AndIn mask10, OrShl 6,
     IncIn, LoadIn, AndIn mask10, OrShl 16, IncIn, LoadIn, AndIn mask10, OrShl 26, Store, IncOut,
     ShrOut 10 4, IncIn, LoadIn, AndIn mask10, OrShl 4, IncIn, LoadIn, AndIn mask10, OrShl 14,
     IncIn, LoadIn, AndIn mask10, OrShl 24, Store, IncOut, ShrOut 10 2, IncIn, LoadIn,
     AndIn mask10, OrShl 2, IncIn, LoadIn, AndIn mask10, OrShl 12, IncIn, LoadIn, AndIn mask10,
     OrShl 22, Store, IncOut, IncIn, LoadIn, AndIn mask10, MovOut, IncIn, LoadIn, AndIn mask10,
     OrShl 10, IncIn, LoadIn, AndIn mask10, OrShl 20, IncIn, LoadIn, AndIn mask10, OrShl 30, Store,
     IncOut, ShrOut 10 8, IncIn, LoadIn, AndIn mask10, OrShl 8, IncIn, LoadIn, AndIn mask10,
     OrShl 18, IncIn, LoadIn, AndIn mask10, OrShl 28, Store, IncOut, ShrOut 10 6, IncIn, LoadIn,
     AndIn mask10, OrShl 6, IncIn, LoadIn, AndIn mask10, OrShl 16, IncIn, LoadIn, AndIn mask10,
     OrShl 26, Store, IncOut, ShrOut 10 4, IncIn, LoadIn, AndIn mask10, OrShl 4, IncIn, LoadIn,
     AndIn mask10, OrShl 14, IncIn, LoadIn, AndIn mask10, OrShl 24, Store, IncOut, ShrOut 10 2,
     IncIn, LoadIn, AndIn mask10, OrShl 2, IncIn, LoadIn, AndIn mask10, OrShl 12, IncIn, LoadIn,
     AndIn mask10, OrShl 22, Store]"

definition SIMD_fastpack11_32 :: "m128 list \<Rightarrow> m128 list option" where
  "SIMD_fastpack11_32 = run_plain
    [LoadIn, AndIn mask11, MovOut, IncIn, LoadIn, AndIn mask11, OrShl 11, IncIn, LoadIn,
     AndIn mask11, OrShl 22, Store, IncOut, ShrOut 11 1, IncIn, LoadIn, AndIn mask11, OrShl 1,
     IncIn, LoadIn, AndIn mask11, OrShl 12, IncIn, LoadIn, AndIn mask11, OrShl 23, Store, IncOut,
     ShrOut 11 2, IncIn, LoadIn, AndIn mask11, OrShl 2, IncIn, LoadIn, AndIn mask11, OrShl 13,
     IncIn, LoadIn, AndIn mask11, OrShl 24, Store, IncOut, ShrOut 11 3, IncIn, LoadIn,
     AndIn mask11, OrShl 3, IncIn, LoadIn, AndIn mask11, OrShl 14, IncIn, LoadIn, AndIn mask11,
     OrShl 25, Store, IncOut, ShrOut 11 4, IncIn, LoadIn, AndIn mask11, OrShl 4, IncIn, LoadIn,
     AndIn mask11, OrShl 15, IncIn, LoadIn, AndIn mask11, OrShl 26, Store, IncOut, ShrOut 11 5,
     IncIn, LoadIn, AndIn mask11, OrShl 5, IncIn, LoadIn, AndIn mask11, OrShl 16, IncIn, LoadIn,
     AndIn mask11, OrShl 27, Store, IncOut, ShrOut 11 6, IncIn, LoadIn, AndIn mask11, OrShl 6,
     IncIn, LoadIn, AndIn mask11, OrShl 17, IncIn, LoadIn, AndIn mask11, OrShl 28, Store, IncOut,
     ShrOut 11 7, IncIn, LoadIn, AndIn mask11, OrShl 7, IncIn, LoadIn, AndIn mask11, OrShl 18,
     IncIn, LoadIn, AndIn mask11, OrShl 29, Store, IncOut, ShrOut 11 8, IncIn, LoadIn,
     AndIn mask11, OrShl 8, IncIn, LoadIn, AndIn mask11, OrShl 19, IncIn, LoadIn, AndIn mask11,
     OrShl 30, Store, IncOut, ShrOut 11 9, IncIn, LoadIn, AndIn mask11, OrShl 9, IncIn, LoadIn,
     AndIn mask11, OrShl 20, IncIn, LoadIn, AndIn mask11, OrShl 31, Store, IncOut, ShrOut 11 10,
     IncIn, LoadIn, AndIn mask11, OrShl 10, IncIn, LoadIn, AndIn mask11, OrShl 21, Store]"

definition SIMD_fastpack12_32 :: "m128 list \<Rightarrow> m128 list option" where
  "SIMD_fastpack12_32 = run_plain
    [LoadIn, AndIn mask12, MovOut, IncIn, LoadIn, AndIn mask12, OrShl 12, IncIn, LoadIn,
     AndIn mask12, OrShl 24, Store, IncOut, ShrOut 12 4, IncIn, LoadIn, AndIn mask12, OrShl 4,
     IncIn, LoadIn, AndIn mask12, OrShl 16, IncIn, LoadIn, AndIn mask12, OrShl 28, Store, IncOut,
     ShrOut 12 8, IncIn, LoadIn, AndIn mask12, OrShl 8, IncIn, LoadIn, AndIn mask12, OrShl 20,
     Store, IncOut, IncIn, LoadIn, AndIn mask12, MovOut, IncIn, LoadIn, AndIn mask12, OrShl 12,
     IncIn, LoadIn, AndIn mask12, OrShl 24, Store, IncOut, ShrOut 12 4, IncIn, LoadIn,
     AndIn mask12, OrShl 4, IncIn, LoadIn, AndIn mask12, OrShl 16, IncIn, LoadIn, AndIn mask12,
     OrShl 28, Store, IncOut, ShrOut 12 8, IncIn, LoadIn, AndIn mask12, OrShl 8, IncIn, LoadIn,
     AndIn mask12, OrShl 20, Store, IncOut, IncIn, LoadIn, AndIn mask12, MovOut, IncIn, LoadIn,
     AndIn mask12, OrShl 12, IncIn, LoadIn, AndIn mask12, OrShl 24, Store, IncOut, ShrOut 12 4,
     IncIn, LoadIn, AndIn mask12, OrShl 4, IncIn, LoadIn, AndIn mask12, OrShl 16, IncIn, LoadIn,
     AndIn mask12, OrShl 28, Store, IncOut, ShrOut 12 8, IncIn, LoadIn, AndIn mask12, OrShl 8,
     IncIn, LoadIn, AndIn mask12, OrShl 20, Store, IncOut, IncIn, LoadIn, AndIn mask12, MovOut,
     IncIn, LoadIn, AndIn mask12, OrShl 12, IncIn, LoadIn, AndIn mask12, OrShl 24, Store, IncOut,
     ShrOut 12 4, IncIn, LoadIn, AndIn mask12, OrShl 4, IncIn, LoadIn, AndIn mask12, OrShl 16,
     IncIn, LoadIn, AndIn mask12, OrShl 28, Store, IncOut, ShrOut 12 8, IncIn, LoadIn,
     AndIn mask12, OrShl 8, IncIn, LoadIn, AndIn mask12, OrShl 20, Store]"

definition SIMD_fastpack13_32 :: "m128 list \<Rightarrow> m128 list option" where
  "SIMD_fastpack13_32 = run_plain
    [LoadIn, AndIn mask13, MovOut, IncIn, LoadIn, AndIn mask13, OrShl 13, IncIn, LoadIn,
     AndIn mask13, OrShl 26, Store, IncOut, ShrOut 13 7, IncIn, LoadIn, AndIn mask13, OrShl 7,
     IncIn, LoadIn, AndIn mask13, OrShl 20, Store, IncOut, ShrOut 13 1, IncIn, LoadIn,
     AndIn mask13, OrShl 1, IncIn, LoadIn, AndIn mask13, OrShl 14, IncIn, LoadIn, AndIn mask13,
     OrShl 27, Store, IncOut, ShrOut 13 8, IncIn, LoadIn, AndIn mask13, OrShl 8, IncIn, LoadIn,
     AndIn mask13, OrShl 21, Store, IncOut, ShrOut 13 2, IncIn, LoadIn, AndIn mask13, OrShl 2,
     IncIn, LoadIn, AndIn mask13, OrShl 15, IncIn, LoadIn, AndIn mask13, OrShl 28, Store, IncOut,
     ShrOut 13 9, IncIn, LoadIn, AndIn mask13, OrShl 9, IncIn, LoadIn, AndIn mask13, OrShl 22,
     Store, IncOut, ShrOut 13 3, IncIn, LoadIn, AndIn mask13, OrShl 3, IncIn, LoadIn, AndIn mask13,
     OrShl 16, IncIn, LoadIn, AndIn mask13, OrShl 29, Store, IncOut, ShrOut 13 10, IncIn, LoadIn,
     AndIn mask13, OrShl 10, IncIn, LoadIn, AndIn mask13, OrShl 23, Store, IncOut, ShrOut 13 4,
     IncIn, LoadIn, AndIn mask13, OrShl 4, IncIn, LoadIn, AndIn mask13, OrShl 17, IncIn, LoadIn,
     AndIn mask13, OrShl 30, Store, IncOut, ShrOut 13 11, IncIn, LoadIn, AndIn mask13, OrShl 11,
     IncIn, LoadIn, AndIn mask13, OrShl 24, Store, IncOut, ShrOut 13 5, IncIn, LoadIn,
     AndIn mask13, OrShl 5, IncIn, LoadIn, AndIn mask13, OrShl 18, IncIn, LoadIn, AndIn mask13,
     OrShl 31, Store, IncOut, ShrOut 13 12, IncIn, LoadIn, AndIn mask13, OrShl 12, IncIn, LoadIn,
     AndIn mask13, OrShl 25, Store, IncOut, ShrOut 13 6, IncIn, LoadIn, AndIn mask13, OrShl 6,
     IncIn, LoadIn, AndIn mask13, OrShl 19, Store]"

definition SIMD_fastpack14_32 :: "m128 list \<Rightarrow> m128 list option" where
  "SIMD_fastpack14_32 = run_plain
    [LoadIn, AndIn mask14, MovOut, IncIn, LoadIn, AndIn mask14, OrShl 14, IncIn, LoadIn,
     AndIn mask14, OrShl 28, Store, IncOut, ShrOut 14 10, IncIn, LoadIn, AndIn mask14, OrShl 10,
     IncIn, LoadIn, AndIn mask14, OrShl 24, Store, IncOut, ShrOut 14 6, IncIn, LoadIn,
     AndIn mask14, OrShl 6, IncIn, LoadIn, AndIn mask14, OrShl 20, Store, IncOut, ShrOut 14 2,
     IncIn, LoadIn, AndIn mask14, OrShl 2, IncIn, LoadIn, AndIn mask14, OrShl 16, IncIn, LoadIn,
     AndIn mask14, OrShl 30, Store, IncOut, ShrOut 14 12, IncIn, LoadIn, AndIn mask14, OrShl 12,
     IncIn, LoadIn, AndIn mask14, OrShl 26, Store, IncOut, ShrOut 14 8, IncIn, LoadIn,
     AndIn mask14, OrShl 8, IncIn, LoadIn, AndIn mask14, OrShl 22, Store, IncOut, ShrOut 14 4,
     IncIn, LoadIn, AndIn mask14, OrShl 4, IncIn, LoadIn, AndIn mask14, OrShl 18, Store, IncOut,
     IncIn, LoadIn, AndIn mask14, MovOut, IncIn, LoadIn, AndIn mask14, OrShl 14, IncIn, LoadIn,
     AndIn mask14, OrShl 28, Store, IncOut, ShrOut 14 10, IncIn, LoadIn, AndIn mask14, OrShl 10,
     IncIn, LoadIn, AndIn mask14, OrShl 24, Store, IncOut, ShrOut 14 6, IncIn, LoadIn,
     AndIn mask14, OrShl 6, IncIn, LoadIn, AndIn mask14, OrShl 20, Store, IncOut, ShrOut 14 2,
     IncIn, LoadIn, AndIn mask14, OrShl 2, IncIn, LoadIn, AndIn mask14, OrShl 16, IncIn, LoadIn,
     AndIn mask14, OrShl 30, Store, IncOut, ShrOut 14 12, IncIn, LoadIn, AndIn mask14, OrShl 12,
     IncIn, LoadIn, AndIn mask14, OrShl 26, Store, IncOut, ShrOut 14 8, IncIn, LoadIn,
     AndIn mask14, OrShl 8, IncIn, LoadIn, AndIn mask14, OrShl 22, Store, IncOut, ShrOut 14 4,
     IncIn, LoadIn, AndIn mask14, OrShl 4, IncIn, LoadIn, AndIn mask14, OrShl 18, Store]"

definition SIMD_fastpack15_32 :: "m128 list \<Rightarrow> m128 list option" where
  "SIMD_fastpack15_32 = run_plain
    [LoadIn, AndIn mask15, MovOut, IncIn, LoadIn, AndIn mask15, OrShl 15, IncIn, LoadIn,
     AndIn mask15, OrShl 30, Store, IncOut, ShrOut 15 13, IncIn, LoadIn, AndIn mask15, OrShl 13,
     IncIn, LoadIn, AndIn mask15, OrShl 28, Store, IncOut, ShrOut 15 11, IncIn, LoadIn,
     AndIn mask15, OrShl 11, IncIn, LoadIn, AndIn mask15, OrShl 26, Store, IncOut, ShrOut 15 9,
     IncIn, LoadIn, AndIn mask15, OrShl 9, IncIn, LoadIn, AndIn mask15, OrShl 24, Store, IncOut,
     ShrOut 15 7, IncIn, LoadIn, AndIn mask15, OrShl 7, IncIn, LoadIn, AndIn mask15, OrShl 22,
     Store, IncOut, ShrOut 15 5, IncIn, LoadIn, AndIn mask15, OrShl 5, IncIn, LoadIn, AndIn mask15,
     OrShl 20, Store, IncOut, ShrOut 15 3, IncIn, LoadIn, AndIn mask15, OrShl 3, IncIn, LoadIn,
     AndIn mask15, OrShl 18, Store, IncOut, ShrOut 15 1, IncIn, LoadIn, AndIn mask15, OrShl 1,
     IncIn, LoadIn, AndIn mask15, OrShl 16, IncIn, LoadIn, AndIn mask15, OrShl 31, Store, IncOut,
     ShrOut 15 14, IncIn, LoadIn, AndIn mask15, OrShl 14, IncIn, LoadIn, AndIn mask15, OrShl 29,
     Store, IncOut, ShrOut 15 12, IncIn, LoadIn, AndIn mask15, OrShl 12, IncIn, LoadIn,
     AndIn mask15, OrShl 27, Store, IncOut, ShrOut 15 10, IncIn, LoadIn, AndIn mask15, OrShl 10,
     IncIn, LoadIn, AndIn mask15, OrShl 25, Store, IncOut, ShrOut 15 8, IncIn, LoadIn,
     AndIn mask15, OrShl 8, IncIn, LoadIn, AndIn mask15, OrShl 23, Store, IncOut, ShrOut 15 6,
     IncIn, LoadIn, AndIn mask15, OrShl 6, IncIn, LoadIn, AndIn mask15, OrShl 21, Store, IncOut,
     ShrOut 15 4, IncIn, LoadIn, AndIn mask15, OrShl 4, IncIn, LoadIn, AndIn mask15, OrShl 19,
     Store, IncOut, ShrOut 15 2, IncIn, LoadIn, AndIn mask15, OrShl 2, IncIn, LoadIn, AndIn mask15,
     OrShl 17, Store]"

definition SIMD_fastpack16_32 :: "m128 list \<Rightarrow> m128 list option" where
  "SIMD_fastpack16_32 = run_plain
    ([LoadIn, AndIn mask16]
     @ concat (replicate 16
         [MovOut, IncIn, LoadIn, AndIn mask16, OrShl 16, Store, IncOut, IncIn, LoadIn, AndIn mask16]))"

definition SIMD_fastpack17_32 :: "m128 list \<Rightarrow> m128 list option" where
  "SIMD_fastpack17_32 = run_plain
    [LoadIn, AndIn mask17, MovOut, IncIn, LoadIn, AndIn mask17, OrShl 17, Store, IncOut,
     ShrOut 17 2, IncIn, LoadIn, AndIn mask17, OrShl 2, IncIn, LoadIn, AndIn mask17, OrShl 19,
     Store, IncOut, ShrOut 17 4, IncIn, LoadIn, AndIn mask17, OrShl 4, IncIn, LoadIn, AndIn mask17,
     OrShl 21, Store, IncOut, ShrOut 17 6, IncIn, LoadIn, AndIn mask17, OrShl 6, IncIn, LoadIn,
     AndIn mask17, OrShl 23, Store, IncOut, ShrOut 17 8, IncIn, LoadIn, AndIn mask17, OrShl 8,
     IncIn, LoadIn, AndIn mask17, OrShl 25, Store, IncOut, ShrOut 17 10, IncIn, LoadIn,
     AndIn mask17, OrShl 10, IncIn, LoadIn, AndIn mask17, OrShl 27, Store, IncOut, ShrOut 17 12,
     IncIn, LoadIn, AndIn mask17, OrShl 12, IncIn, LoadIn, AndIn mask17, OrShl 29, Store, IncOut,
     ShrOut 17 14, IncIn, LoadIn, AndIn mask17, OrShl 14, IncIn, LoadIn, AndIn mask17, OrShl 31,
     Store, IncOut, ShrOut 17 16, IncIn, LoadIn, AndIn mask17, OrShl 16, Store, IncOut,
     ShrOut 17 1, IncIn, LoadIn, AndIn mask17, OrShl 1, IncIn, LoadIn, AndIn mask17, OrShl 18,
     Store, IncOut, ShrOut 17 3, IncIn, LoadIn, AndIn mask17, OrShl 3, IncIn, LoadIn, AndIn mask17,
     OrShl 20, Store, IncOut, ShrOut 17 5, IncIn, LoadIn, AndIn mask17, OrShl 5, IncIn, LoadIn,
     AndIn mask17, OrShl 22, Store, IncOut, ShrOut 17 7, IncIn, LoadIn, AndIn mask17, OrShl 7,
     IncIn, LoadIn, AndIn mask17, OrShl 24, Store, IncOut, ShrOut 17 9, IncIn, LoadIn,
     AndIn mask17, OrShl 9, IncIn, LoadIn, AndIn mask17, OrShl 26, Store, IncOut, ShrOut 17 11,
     IncIn, LoadIn, AndIn mask17, OrShl 11, IncIn, LoadIn, AndIn mask17, OrShl 28, Store, IncOut,
     ShrOut 17 13, IncIn, LoadIn, AndIn mask17, OrShl 13, IncIn, LoadIn, AndIn mask17, OrShl 30,
     Store, IncOut, ShrOut 17 15, IncIn, LoadIn, AndIn mask17, OrShl 15, Store]"

definition SIMD_fastpack18_32 :: "m128 list \<Rightarrow> m128 list option" where
  "SIMD_fastpack18_32 = run_plain
    [LoadIn, AndIn mask18, MovOut, IncIn, LoadIn, AndIn mask18, OrShl 18, Store, IncOut,
     ShrOut 18 4, IncIn, LoadIn, AndIn mask18, OrShl 4, IncIn, LoadIn, AndIn mask18, OrShl 22,
     Store, IncOut, ShrOut 18 8, IncIn, LoadIn, AndIn mask18, OrShl 8, IncIn, LoadIn, AndIn mask18,
     OrShl 26, Store, IncOut, ShrOut 18 12, IncIn, LoadIn, AndIn mask18, OrShl 12, IncIn, LoadIn,
     AndIn mask18, OrShl 30, Store, IncOut, ShrOut 18 16, IncIn, LoadIn, AndIn mask18, OrShl 16,
     Store, IncOut, ShrOut 18 2, IncIn, LoadIn, AndIn mask18, OrShl 2, IncIn, LoadIn, AndIn mask18,
     OrShl 20, Store, IncOut, ShrOut 18 6, IncIn, LoadIn, AndIn mask18, OrShl 6, IncIn, LoadIn,
     AndIn mask18, OrShl 24, Store, IncOut, ShrOut 18 10, IncIn, LoadIn, AndIn mask18, OrShl 10,
     IncIn, LoadIn, AndIn mask18, OrShl 28, Store, IncOut, ShrOut 18 14, IncIn, LoadIn,
     AndIn mask18, OrShl 14, Store, IncOut, IncIn, LoadIn, AndIn mask18, MovOut, IncIn, LoadIn,
     AndIn mask18, OrShl 18, Store, IncOut, ShrOut 18 4, IncIn, LoadIn, AndIn mask18, OrShl 4,
     IncIn, LoadIn, AndIn mask18, OrShl 22, Store, IncOut, ShrOut 18 8, IncIn, LoadIn,
     AndIn mask18, OrShl 8, IncIn, LoadIn, AndIn mask18, OrShl 26, Store, IncOut, ShrOut 18 12,
     IncIn, LoadIn, AndIn mask18, OrShl 12, IncIn, LoadIn, AndIn mask18, OrShl 30, Store, IncOut,
     ShrOut 18 16, IncIn, LoadIn, AndIn mask18, OrShl 16, Store, IncOut, ShrOut 18 2, IncIn,
     LoadIn, AndIn mask18, OrShl 2, IncIn, LoadIn, AndIn mask18, OrShl 20, Store, IncOut,
     ShrOut 18 6, IncIn, LoadIn, AndIn mask18, OrShl 6, IncIn, LoadIn, AndIn mask18, OrShl 24,
     Store, IncOut, ShrOut 18 10, IncIn, LoadIn, AndIn mask18, OrShl 10, IncIn, LoadIn,
     AndIn mask18, OrShl 28, Store, IncOut, ShrOut 18 14, IncIn, LoadIn, AndIn mask18, OrShl 14,
     Store]"

definition SIMD_fastpack19_32 :: "m128 list \<Rightarrow> m128 list option" where
  "SIMD_fastpack19_32 = run_plain
    [LoadIn, AndIn mask19, MovOut, IncIn, LoadIn, AndIn mask19, OrShl 19, Store, IncOut,
     ShrOut 19 6, IncIn, LoadIn, AndIn mask19, OrShl 6, IncIn, LoadIn, AndIn mask19, OrShl 25,
     Store, IncOut, ShrOut 19 12, IncIn, LoadIn, AndIn mask19, OrShl 12, IncIn, LoadIn,
     AndIn mask19, OrShl 31, Store, IncOut, ShrOut 19 18, IncIn, LoadIn, AndIn mask19, OrShl 18,
     Store, IncOut, ShrOut 19 5, IncIn, LoadIn, AndIn mask19, OrShl 5, IncIn, LoadIn, AndIn mask19,
     OrShl 24, Store, IncOut, ShrOut 19 11, IncIn, LoadIn, AndIn mask19, OrShl 11, IncIn, LoadIn,
     AndIn mask19, OrShl 30, Store, IncOut, ShrOut 19 17, IncIn, LoadIn, AndIn mask19, OrShl 17,
     Store, IncOut, ShrOut 19 4, IncIn, LoadIn, AndIn mask19, OrShl 4, IncIn, LoadIn, AndIn mask19,
     OrShl 23, Store, IncOut, ShrOut 19 10, IncIn, LoadIn, AndIn mask19, OrShl 10, IncIn, LoadIn,
     AndIn mask19, OrShl 29, Store, IncOut, ShrOut 19 16, IncIn, LoadIn, AndIn mask19, OrShl 16,
     Store, IncOut, ShrOut 19 3, IncIn, LoadIn, AndIn mask19, OrShl 3, IncIn, LoadIn, AndIn mask19,
     OrShl 22, Store, IncOut, ShrOut 19 9, IncIn, LoadIn, AndIn mask19, OrShl 9, IncIn, LoadIn,
     AndIn mask19, OrShl 28, Store, IncOut, ShrOut 19 15, IncIn, LoadIn, AndIn mask19, OrShl 15,
     Store, IncOut, ShrOut 19 2, IncIn, LoadIn, AndIn mask19, OrShl 2, IncIn, LoadIn, AndIn mask19,
     OrShl 21, Store, IncOut, ShrOut 19 8, IncIn, LoadIn, AndIn mask19, OrShl 8, IncIn, LoadIn,
     AndIn mask19, OrShl 27, Store, IncOut, ShrOut 19 14, IncIn, LoadIn, AndIn mask19, OrShl 14,
     Store, IncOut, ShrOut 19 1, IncIn, LoadIn, AndIn mask19, OrShl 1, IncIn, LoadIn, AndIn mask19,
     OrShl 20, Store, IncOut, ShrOut 19 7, IncIn, LoadIn, AndIn mask19, OrShl 7, IncIn, LoadIn,
     AndIn mask19, OrShl 26, Store, IncOut, ShrOut 19 13, IncIn, LoadIn, AndIn mask19, OrShl 13,
     Store]"

definition SIMD_fastpack20_32 :: "m128 list \<Rightarrow> m128 list option" where
  "SIMD_fastpack20_32 = run_plain
    [LoadIn, AndIn mask20, MovOut, IncIn, LoadIn, AndIn mask20, OrShl 20, Store, IncOut,
     ShrOut 20 8, IncIn, LoadIn, AndIn mask20, OrShl 8, IncIn, LoadIn, AndIn mask20, OrShl 28,
     Store, IncOut, ShrOut 20 16, IncIn, LoadIn, AndIn mask20, OrShl 16, Store, IncOut,
     ShrOut 20 4, IncIn, LoadIn, AndIn mask20, OrShl 4, IncIn, LoadIn, AndIn mask20, OrShl 24,
     Store, IncOut, ShrOut 20 12, IncIn, LoadIn, AndIn mask20, OrShl 12, Store, IncOut, IncIn,
     LoadIn, AndIn mask20, MovOut, IncIn, LoadIn, AndIn mask20, OrShl 20, Store, IncOut,
     ShrOut 20 8, IncIn, LoadIn, AndIn mask20, OrShl 8, IncIn, LoadIn, AndIn mask20, OrShl 28,
     Store, IncOut, ShrOut 20 16, IncIn, LoadIn, AndIn mask20, OrShl 16, Store, IncOut,
     ShrOut 20 4, IncIn, LoadIn, AndIn mask20, OrShl 4, IncIn, LoadIn, AndIn mask20, OrShl 24,
     Store, IncOut, ShrOut 20 12, IncIn, LoadIn, AndIn mask20, OrShl 12, Store, IncOut, IncIn,
     LoadIn, AndIn mask20, MovOut, IncIn, LoadIn, AndIn mask20, OrShl 20, Store, IncOut,
     ShrOut 20 8, IncIn, LoadIn, AndIn mask20, OrShl 8, IncIn, LoadIn, AndIn mask20, OrShl 28,
     Store, IncOut, ShrOut 20 16, IncIn, LoadIn, AndIn mask20, OrShl 16, Store, IncOut,
     ShrOut 20 4, IncIn, LoadIn, AndIn mask20, OrShl 4, IncIn, LoadIn, AndIn mask20, OrShl 24,
     Store, IncOut, ShrOut 20 12, IncIn, LoadIn, AndIn mask20, OrShl 12, Store, IncOut, IncIn,
     LoadIn, AndIn mask20, MovOut, IncIn, LoadIn, AndIn mask20, OrShl 20, Store, IncOut,
     ShrOut 20 8, IncIn, LoadIn, AndIn mask20, OrShl 8, IncIn, LoadIn, AndIn mask20, OrShl 28,
     Store, IncOut, ShrOut 20 16, IncIn, LoadIn, AndIn mask20, OrShl 16, Store, IncOut,
     ShrOut 20 4, IncIn, LoadIn, AndIn mask20, OrShl 4, IncIn, LoadIn, AndIn mask20, OrShl 24,
     Store, IncOut, ShrOut 20 12, IncIn, LoadIn, AndIn mask20, OrShl 12, Store]"

definition SIMD_fastpack21_32 :: "m128 list \<Rightarrow> m128 list option" where
  "SIMD_fastpack21_32 = run_plain
    [LoadIn, AndIn mask21, MovOut, IncIn, LoadIn, AndIn mask21, OrShl 21, Store, IncOut,
     ShrOut 21 10, IncIn, LoadIn, AndIn mask21, OrShl 10, IncIn, LoadIn, AndIn mask21, OrShl 31,
     Store, IncOut, ShrOut 21 20, IncIn, LoadIn, AndIn mask21, OrShl 20, Store, IncOut,
     ShrOut 21 9, IncIn, LoadIn, AndIn mask21, OrShl 9, IncIn, LoadIn, AndIn mask21, OrShl 30,
     Store, IncOut, ShrOut 21 19, IncIn, LoadIn, AndIn mask21, OrShl 19, Store, IncOut,
     ShrOut 21 8, IncIn, LoadIn, AndIn mask21, OrShl 8, IncIn, LoadIn, AndIn mask21, OrShl 29,
     Store, IncOut, ShrOut 21 18, IncIn, LoadIn, AndIn mask21, OrShl 18, Store, IncOut,
     ShrOut 21 7, IncIn, LoadIn, AndIn mask21, OrShl 7, IncIn, LoadIn, AndIn mask21, OrShl 28,
     Store, IncOut, ShrOut 21 17, IncIn, LoadIn, AndIn mask21, OrShl 17, Store, IncOut,
     ShrOut 21 6, IncIn, LoadIn, AndIn mask21, OrShl 6, IncIn, LoadIn, AndIn mask21, OrShl 27,
     Store, IncOut, ShrOut 21 16, IncIn, LoadIn, AndIn mask21, OrShl 16, Store, IncOut,
     ShrOut 21 5, IncIn, LoadIn, AndIn mask21, OrShl 5, IncIn, LoadIn, AndIn mask21, OrShl 26,
     Store, IncOut, ShrOut 21 15, IncIn, LoadIn, AndIn mask21, OrShl 15, Store, IncOut,
     ShrOut 21 4, IncIn, LoadIn, AndIn mask21, OrShl 4, IncIn, LoadIn, AndIn mask21, OrShl 25,
     Store, IncOut, ShrOut 21 14, IncIn, LoadIn, AndIn mask21, OrShl 14, Store, IncOut,
     ShrOut 21 3, IncIn, LoadIn, AndIn mask21, OrShl 3, IncIn, LoadIn, AndIn mask21, OrShl 24,
     Store, IncOut, ShrOut 21 13, IncIn, LoadIn, AndIn mask21, OrShl 13, Store, IncOut,
     ShrOut 21 2, IncIn, LoadIn, AndIn mask21, OrShl 2, IncIn, LoadIn, AndIn mask21, OrShl 23,
     Store, IncOut, ShrOut 21 12, IncIn, LoadIn, AndIn mask21, OrShl 12, Store, IncOut,
     ShrOut 21 1, IncIn, LoadIn, AndIn mask21, OrShl 1, IncIn, LoadIn, AndIn mask21, OrShl 22,
     Store, IncOut, ShrOut 21 11, IncIn, LoadIn, AndIn mask21, OrShl 11, Store]"

definition SIMD_fastpack22_32 :: "m128 list \<Rightarrow> m128 list option" where
  "SIMD_fastpack22_32 = run_plain
    [LoadIn, AndIn mask22, MovOut, IncIn, LoadIn, AndIn mask22, OrShl 22, Store, IncOut,
     ShrOut 22 12, IncIn, LoadIn, AndIn mask22, OrShl 12, Store, IncOut, ShrOut 22 2, IncIn,
     LoadIn, AndIn mask22, OrShl 2, IncIn, LoadIn, AndIn mask22, OrShl 24, Store, IncOut,
     ShrOut 22 14, IncIn, LoadIn, AndIn mask22, OrShl 14, Store, IncOut, ShrOut 22 4, IncIn,
     LoadIn, AndIn mask22, OrShl 4, IncIn, LoadIn, AndIn mask22, OrShl 26, Store, IncOut,
     ShrOut 22 16, IncIn, LoadIn, AndIn mask22, OrShl 16, Store, IncOut, ShrOut 22 6, IncIn,
     LoadIn, AndIn mask22, OrShl 6, IncIn, LoadIn, AndIn mask22, OrShl 28, Store, IncOut,
     ShrOut 22 18, IncIn, LoadIn, AndIn mask22, OrShl 18, Store, IncOut, ShrOut 22 8, IncIn,
     LoadIn, AndIn mask22, OrShl 8, IncIn, LoadIn, AndIn mask22, OrShl 30, Store, IncOut,
     ShrOut 22 20, IncIn, LoadIn, AndIn mask22, OrShl 20, Store, IncOut, ShrOut 22 10, IncIn,
     LoadIn, AndIn mask22, OrShl 10, Store, IncOut, IncIn, LoadIn, AndIn mask22, MovOut, IncIn,
     LoadIn, AndIn mask22, OrShl 22, Store, IncOut, ShrOut 22 12, IncIn, LoadIn, AndIn mask22,
     OrShl 12, Store, IncOut, ShrOut 22 2, IncIn, LoadIn, AndIn mask22, OrShl 2, IncIn, LoadIn,
     AndIn mask22, OrShl 24, Store, IncOut, ShrOut 22 14, IncIn, LoadIn, AndIn mask22, OrShl 14,
     Store, IncOut, ShrOut 22 4, IncIn, LoadIn, AndIn mask22, OrShl 4, IncIn, LoadIn, AndIn mask22,
     OrShl 26, Store, IncOut, ShrOut 22 16, IncIn, LoadIn, AndIn mask22, OrShl 16, Store, IncOut,
     ShrOut 22 6, IncIn, LoadIn, AndIn mask22, OrShl 6, IncIn, LoadIn, AndIn mask22, OrShl 28,
     Store, IncOut, ShrOut 22 18, IncIn, LoadIn, AndIn mask22, OrShl 18, Store, IncOut,
     ShrOut 22 8, IncIn, LoadIn, AndIn mask22, OrShl 8, IncIn, LoadIn, AndIn mask22, OrShl 30,
     Store, IncOut, ShrOut 22 20, IncIn, LoadIn, AndIn mask22, OrShl 20, Store, IncOut,
     ShrOut 22 10, IncIn, LoadIn, AndIn mask22, OrShl 10, Store]"

definition SIMD_fastpack23_32 :: "m128 list \<Rightarrow> m128 list option" where
  "SIMD_fastpack23_32 = run_plain
    [LoadIn, AndIn mask23, MovOut, IncIn, LoadIn, AndIn mask23, OrShl 23, Store, IncOut,
     ShrOut 23 14, IncIn, LoadIn, AndIn mask23, OrShl 14, Store, IncOut, ShrOut 23 5, IncIn,
     LoadIn, AndIn mask23, OrShl 5, IncIn, LoadIn, AndIn mask23, OrShl 28, Store, IncOut,
     ShrOut 23 19, IncIn, LoadIn, AndIn mask23, OrShl 19, Store, IncOut, ShrOut 23 10, IncIn,
     LoadIn, AndIn mask23, OrShl 10, Store, IncOut, ShrOut 23 1, IncIn, LoadIn, AndIn mask23,
     OrShl 1, IncIn, LoadIn, AndIn mask23, OrShl 24, Store, IncOut, ShrOut 23 15, IncIn, LoadIn,
     AndIn mask23, OrShl 15, Store, IncOut, ShrOut 23 6, IncIn, LoadIn, AndIn mask23, OrShl 6,
     IncIn, LoadIn, AndIn mask23, OrShl 29, Store, IncOut, ShrOut 23 20, IncIn, LoadIn,
     AndIn mask23, OrShl 20, Store, IncOut, ShrOut 23 11, IncIn, LoadIn, AndIn mask23, OrShl 11,
     Store, IncOut, ShrOut 23 2, IncIn, LoadIn, AndIn mask23, OrShl 2, IncIn, LoadIn, AndIn mask23,
     OrShl 25, Store, IncOut, ShrOut 23 16, IncIn, LoadIn, AndIn mask23, OrShl 16, Store, IncOut,
     ShrOut 23 7, IncIn, LoadIn, AndIn mask23, OrShl 7, IncIn, LoadIn, AndIn mask23, OrShl 30,
     Store, IncOut, ShrOut 23 21, IncIn, LoadIn, AndIn mask23, OrShl 21, Store, IncOut,
     ShrOut 23 12, IncIn, LoadIn, AndIn mask23, OrShl 12, Store, IncOut, ShrOut 23 3, IncIn,
     LoadIn, AndIn mask23, OrShl 3, IncIn, LoadIn, AndIn mask23, OrShl 26, Store, IncOut,
     ShrOut 23 17, IncIn, LoadIn, AndIn mask23, OrShl 17, Store, IncOut, ShrOut 23 8, IncIn,
     LoadIn, AndIn mask23, OrShl 8, IncIn, LoadIn, AndIn mask23, OrShl 31, Store, IncOut,
     ShrOut 23 22, IncIn, LoadIn, AndIn mask23, OrShl 22, Store, IncOut, ShrOut 23 13, IncIn,
     LoadIn, AndIn mask23, OrShl 13, Store, IncOut, ShrOut 23 4, IncIn, LoadIn, AndIn mask23,
     OrShl 4, IncIn, LoadIn, AndIn mask23, OrShl 27, Store, IncOut, ShrOut 23 18, IncIn, LoadIn,
     AndIn mask23, OrShl 18, Store, IncOut, ShrOut 23 9, IncIn, LoadIn, AndIn mask23, OrShl 9,
     Store]"

definition SIMD_fastpack24_32 :: "m128 list \<Rightarrow> m128 list option" where
  "SIMD_fastpack24_32 = run_plain
    [LoadIn, AndIn mask24, MovOut, IncIn, LoadIn, AndIn mask24, OrShl 24, Store, IncOut,
     ShrOut 24 16, IncIn, LoadIn, AndIn mask24, OrShl 16, Store, IncOut, ShrOut 24 8, IncIn,
     LoadIn, AndIn mask24, OrShl 8, Store, IncOut, IncIn, LoadIn, AndIn mask24, MovOut, IncIn,
     LoadIn, AndIn mask24, OrShl 24, Store, IncOut, ShrOut 24 16, IncIn, LoadIn, AndIn mask24,
     OrShl 16, Store, IncOut, ShrOut 24 8, IncIn, LoadIn, AndIn mask24, OrShl 8, Store, IncOut,
     IncIn, LoadIn, AndIn mask24, MovOut, IncIn, LoadIn, AndIn mask24, OrShl 24, Store, IncOut,
     ShrOut 24 16, IncIn, LoadIn, AndIn mask24, OrShl 16, Store, IncOut, ShrOut 24 8, IncIn,
     LoadIn, AndIn mask24, OrShl 8, Store, IncOut, IncIn, LoadIn, AndIn mask24, MovOut, IncIn,
     LoadIn, AndIn mask24, OrShl 24, Store, IncOut, ShrOut 24 16, IncIn, LoadIn, AndIn mask24,
     OrShl 16, Store, IncOut, ShrOut 24 8, IncIn, LoadIn, AndIn mask24, OrShl 8, Store, IncOut,
     IncIn, LoadIn, AndIn mask24, MovOut, IncIn, LoadIn, AndIn mask24, OrShl 24, Store, IncOut,
     ShrOut 24 16, IncIn, LoadIn, AndIn mask24, OrShl 16, Store, IncOut, ShrOut 24 8, IncIn,
     LoadIn, AndIn mask24, OrShl 8, Store, IncOut, IncIn, LoadIn, AndIn mask24, MovOut, IncIn,
     LoadIn, AndIn mask24, OrShl 24, Store, IncOut, ShrOut 24 16, IncIn, LoadIn, AndIn mask24,
     OrShl 16, Store, IncOut, ShrOut 24 8, IncIn, LoadIn, AndIn mask24, OrShl 8, Store, IncOut,
     IncIn, LoadIn, AndIn mask24, MovOut, IncIn, LoadIn, AndIn mask24, OrShl 24, Store, IncOut,
     ShrOut 24 16, IncIn, LoadIn, AndIn mask24, OrShl 16, Store, IncOut, ShrOut 24 8, IncIn,
     LoadIn, AndIn mask24, OrShl 8, Store, IncOut, IncIn, LoadIn, AndIn mask24, MovOut, IncIn,
     LoadIn, AndIn mask24, OrShl 24, Store, IncOut, ShrOut 24 16, IncIn, LoadIn, AndIn mask24,
     OrShl 16, Store, IncOut, ShrOut 24 8, IncIn, LoadIn, AndIn mask24, OrShl 8, Store]"

definition SIMD_fastpack25_32 :: "m128 list \<Rightarrow> m128 list option" where
  "SIMD_fastpack25_32 = run_plain
    [LoadIn, AndIn mask25, MovOut, IncIn, LoadIn, AndIn mask25, OrShl 25, Store, IncOut,
     ShrOut 25 18, IncIn, LoadIn, AndIn mask25, OrShl 18, Store, IncOut, ShrOut 25 11, IncIn,
     LoadIn, AndIn mask25, OrShl 11, Store, IncOut, ShrOut 25 4, IncIn, LoadIn, AndIn mask25,
     OrShl 4, IncIn, LoadIn, AndIn mask25, OrShl 29, Store, IncOut, ShrOut 25 22, IncIn, LoadIn,
     AndIn mask25, OrShl 22, Store, IncOut, ShrOut 25 15, IncIn, LoadIn, AndIn mask25, OrShl 15,
     Store, IncOut, ShrOut 25 8, IncIn, LoadIn, AndIn mask25, OrShl 8, Store, IncOut, ShrOut 25 1,
     IncIn, LoadIn, AndIn mask25, OrShl 1, IncIn, LoadIn, AndIn mask25, OrShl 26, Store, IncOut,
     ShrOut 25 19, IncIn, LoadIn, AndIn mask25, OrShl 19, Store, IncOut, ShrOut 25 12, IncIn,
     LoadIn, AndIn mask25, OrShl 12, Store, IncOut, ShrOut 25 5, IncIn, LoadIn, AndIn mask25,
     OrShl 5, IncIn, LoadIn, AndIn mask25, OrShl 30, Store, IncOut, ShrOut 25 23, IncIn, LoadIn,
     AndIn mask25, OrShl 23, Store, IncOut, ShrOut 25 16, IncIn, LoadIn, AndIn mask25, OrShl 16,
     Store, IncOut, ShrOut 25 9, IncIn, LoadIn, AndIn mask25, OrShl 9, Store, IncOut, ShrOut 25 2,
     IncIn, LoadIn, AndIn mask25, OrShl 2, IncIn, LoadIn, AndIn mask25, OrShl 27, Store, IncOut,
     ShrOut 25 20, IncIn, LoadIn, AndIn mask25, OrShl 20, Store, IncOut, ShrOut 25 13, IncIn,
     LoadIn, AndIn mask25, OrShl 13, Store, IncOut, ShrOut 25 6, IncIn, LoadIn, AndIn mask25,
     OrShl 6, IncIn, LoadIn, AndIn mask25, OrShl 31, Store, IncOut, ShrOut 25 24, IncIn, LoadIn,
     AndIn mask25, OrShl 24, Store, IncOut, ShrOut 25 17, IncIn, LoadIn, AndIn mask25, OrShl 17,
     Store, IncOut, ShrOut 25 10, IncIn, LoadIn, AndIn mask25, OrShl 10, Store, IncOut,
     ShrOut 25 3, IncIn, LoadIn, AndIn mask25, OrShl 3, IncIn, LoadIn, AndIn mask25, OrShl 28,
     Store, IncOut, ShrOut 25 21, IncIn, LoadIn, AndIn mask25, OrShl 21, Store, IncOut,
     ShrOut 25 14, IncIn, LoadIn, AndIn mask25, OrShl 14, Store, IncOut, ShrOut 25 7, IncIn,
     LoadIn, AndIn mask25, OrShl 7, Store]"

definition SIMD_fastpack26_32 :: "m128 list \<Rightarrow> m128 list option" where
  "SIMD_fastpack26_32 = run_plain
    [LoadIn, AndIn mask26, MovOut, IncIn, LoadIn, AndIn mask26, OrShl 26, Store, IncOut,
     ShrOut 26 20, IncIn, LoadIn, AndIn mask26, OrShl 20, Store, IncOut, ShrOut 26 14, IncIn,
     LoadIn, AndIn mask26, OrShl 14, Store, IncOut, ShrOut 26 8, IncIn, LoadIn, AndIn mask26,
     OrShl 8, Store, IncOut, ShrOut 26 2, IncIn, LoadIn, AndIn mask26, OrShl 2, IncIn, LoadIn,
     AndIn mask26, OrShl 28, Store, IncOut, ShrOut 26 22, IncIn, LoadIn, AndIn mask26, OrShl 22,
     Store, IncOut, ShrOut 26 16, IncIn, LoadIn, AndIn mask26, OrShl 16, Store, IncOut,
     ShrOut 26 10, IncIn, LoadIn, AndIn mask26, OrShl 10, Store, IncOut, ShrOut 26 4, IncIn,
     LoadIn, AndIn mask26, OrShl 4, IncIn, LoadIn, AndIn mask26, OrShl 30, Store, IncOut,
     ShrOut 26 24, IncIn, LoadIn, AndIn mask26, OrShl 24, Store, IncOut, ShrOut 26 18, IncIn,
     LoadIn, AndIn mask26, OrShl 18, Store, IncOut, ShrOut 26 12, IncIn, LoadIn, AndIn mask26,
     OrShl 12, Store, IncOut, ShrOut 26 6, IncIn, LoadIn, AndIn mask26, OrShl 6, Store, IncOut,
     IncIn, LoadIn, AndIn mask26, MovOut, IncIn, LoadIn, AndIn mask26, OrShl 26, Store, IncOut,
     ShrOut 26 20, IncIn, LoadIn, AndIn mask26, OrShl 20, Store, IncOut, ShrOut 26 14, IncIn,
     LoadIn, AndIn mask26, OrShl 14, Store, IncOut, ShrOut 26 8, IncIn, LoadIn, AndIn mask26,
     OrShl 8, Store, IncOut, ShrOut 26 2, IncIn, LoadIn, AndIn mask26, OrShl 2, IncIn, LoadIn,
     AndIn mask26, OrShl 28, Store, IncOut, ShrOut 26 22, IncIn, LoadIn, AndIn mask26, OrShl 22,
     Store, IncOut, ShrOut 26 16, IncIn, LoadIn, AndIn mask26, OrShl 16, Store, IncOut,
     ShrOut 26 10, IncIn, LoadIn, AndIn mask26, OrShl 10, Store, IncOut, ShrOut 26 4, IncIn,
     LoadIn, AndIn mask26, OrShl 4, IncIn, LoadIn, AndIn mask26, OrShl 30, Store, IncOut,
     ShrOut 26 24, IncIn, LoadIn, AndIn mask26, OrShl 24, Store, IncOut, ShrOut 26 18, IncIn,
     LoadIn, AndIn mask26, OrShl 18, Store, IncOut, ShrOut 26 12, IncIn, LoadIn, AndIn mask26,
     OrShl 12, Store, IncOut, ShrOut 26 6, IncIn, LoadIn, AndIn mask26, OrShl 6, Store]"

definition SIMD_fastpack27_32 :: "m128 list \<Rightarrow> m128 list option" where
  "SIMD_fastpack27_32 = run_plain
    [LoadIn, AndIn mask27, MovOut, IncIn, LoadIn, AndIn mask27, OrShl 27, Store, IncOut,
     ShrOut 27 22, IncIn, LoadIn, AndIn mask27, OrShl 22, Store, IncOut, ShrOut 27 17, IncIn,
     LoadIn, AndIn mask27, OrShl 17, Store, IncOut, ShrOut 27 12, IncIn, LoadIn, AndIn mask27,
     OrShl 12, Store, IncOut, ShrOut 27 7, IncIn, LoadIn, AndIn mask27, OrShl 7, Store, IncOut,
     ShrOut 27 2, IncIn, LoadIn, AndIn mask27, OrShl 2, IncIn, LoadIn, AndIn mask27, OrShl 29,
     Store, IncOut, ShrOut 27 24, IncIn, LoadIn, AndIn mask27, OrShl 24, Store, IncOut,
     ShrOut 27 19, IncIn, LoadIn, AndIn mask27, OrShl 19, Store, IncOut, ShrOut 27 14, IncIn,
     LoadIn, AndIn mask27, OrShl 14, Store, IncOut, ShrOut 27 9, IncIn, LoadIn, AndIn mask27,
     OrShl 9, Store, IncOut, ShrOut 27 4, IncIn, LoadIn, AndIn mask27, OrShl 4, IncIn, LoadIn,
     AndIn mask27, OrShl 31, Store, IncOut, ShrOut 27 26, IncIn, LoadIn, AndIn mask27, OrShl 26,
     Store, IncOut, ShrOut 27 21, IncIn, LoadIn, AndIn mask27, OrShl 21, Store, IncOut,
     ShrOut 27 16, IncIn, LoadIn, AndIn mask27, OrShl 16, Store, IncOut, ShrOut 27 11, IncIn,
     LoadIn, AndIn mask27, OrShl 11, Store, IncOut, ShrOut 27 6, IncIn, LoadIn, AndIn mask27,
     OrShl 6, Store, IncOut, ShrOut 27 1, IncIn, LoadIn, AndIn mask27, OrShl 1, IncIn, LoadIn,
     AndIn mask27, OrShl 28, Store, IncOut, ShrOut 27 23, IncIn, LoadIn, AndIn mask27, OrShl 23,
     Store, IncOut, ShrOut 27 18, IncIn, LoadIn, AndIn mask27, OrShl 18, Store, IncOut,
     ShrOut 27 13, IncIn, LoadIn, AndIn mask27, OrShl 13, Store, IncOut, ShrOut 27 8, IncIn,
     LoadIn, AndIn mask27, OrShl 8, Store, IncOut, ShrOut 27 3, IncIn, LoadIn, AndIn mask27,
     OrShl 3, IncIn, LoadIn, AndIn mask27, OrShl 30, Store, IncOut, ShrOut 27 25, IncIn, LoadIn,
     AndIn mask27, OrShl 25, Store, IncOut, ShrOut 27 20, IncIn, LoadIn, AndIn mask27, OrShl 20,
     Store, IncOut, ShrOut 27 15, IncIn, LoadIn, AndIn mask27, OrShl 15, Store, IncOut,
     ShrOut 27 10, IncIn, LoadIn, AndIn mask27, OrShl 10, Store, IncOut, ShrOut 27 5, IncIn,
     LoadIn, AndIn mask27, OrShl 5, Store]"

definition SIMD_fastpack28_32 :: "m128 list \<Rightarrow> m128 list option" where
  "SIMD_fastpack28_32 = run_plain
    [LoadIn, AndIn mask28, MovOut, IncIn, LoadIn, AndIn mask28, OrShl 28, Store, IncOut,
     ShrOut 28 24, IncIn, LoadIn, AndIn mask28, OrShl 24, Store, IncOut, ShrOut 28 20, IncIn,
     LoadIn, AndIn mask28, OrShl 20, Store, IncOut, ShrOut 28 16, IncIn, LoadIn, AndIn mask28,
     OrShl 16, Store, IncOut, ShrOut 28 12, IncIn, LoadIn, AndIn mask28, OrShl 12, Store, IncOut,
     ShrOut 28 8, IncIn, LoadIn, AndIn mask28, OrShl 8, Store, IncOut, ShrOut 28 4, IncIn, LoadIn,
     AndIn mask28, OrShl 4, Store, IncOut, IncIn, LoadIn, AndIn mask28, MovOut, IncIn, LoadIn,
     AndIn mask28, OrShl 28, Store, IncOut, ShrOut 28 24, IncIn, LoadIn, AndIn mask28, OrShl 24,
     Store, IncOut, ShrOut 28 20, IncIn, LoadIn, AndIn mask28, OrShl 20, Store, IncOut,
     ShrOut 28 16, IncIn, LoadIn, AndIn mask28, OrShl 16, Store, IncOut, ShrOut 28 12, IncIn,
     LoadIn, AndIn mask28, OrShl 12, Store, IncOut, ShrOut 28 8, IncIn, LoadIn, AndIn mask28,
     OrShl 8, Store, IncOut, ShrOut 28 4, IncIn, LoadIn, AndIn mask28, OrShl 4, Store, IncOut,
     IncIn, LoadIn, AndIn mask28, MovOut, IncIn, LoadIn, AndIn mask28, OrShl 28, Store, IncOut,
     ShrOut 28 24, IncIn, LoadIn, AndIn mask28, OrShl 24, Store, IncOut, ShrOut 28 20, IncIn,
     LoadIn, AndIn mask28, OrShl 20, Store, IncOut, ShrOut 28 16, IncIn, LoadIn, AndIn mask28,
     OrShl 16, Store, IncOut, ShrOut 28 12, IncIn, LoadIn, AndIn mask28, OrShl 12, Store, IncOut,
     ShrOut 28 8, IncIn, LoadIn, AndIn mask28, OrShl 8, Store, IncOut, ShrOut 28 4, IncIn, LoadIn,
     AndIn mask28, OrShl 4, Store, IncOut, IncIn, LoadIn, AndIn mask28, MovOut, IncIn, LoadIn,
     AndIn mask28, OrShl 28, Store, IncOut, ShrOut 28 24, IncIn, LoadIn, AndIn mask28, OrShl 24,
     Store, IncOut, ShrOut 28 20, IncIn, LoadIn, AndIn mask28, OrShl 20, Store, IncOut,
     ShrOut 28 16, IncIn, LoadIn, AndIn mask28, OrShl 16, Store, IncOut, ShrOut 28 12, IncIn,
     LoadIn, AndIn mask28, OrShl 12, Store, IncOut, ShrOut 28 8, IncIn, LoadIn, AndIn mask28,
     OrShl 8, Store, IncOut, ShrOut 28 4, IncIn, LoadIn, AndIn mask28, OrShl 4, Store]"

definition SIMD_fastpack29_32 :: "m128 list \<Rightarrow> m128 list option" where
  "SIMD_fastpack29_32 = run_plain
    [LoadIn, AndIn mask29, MovOut, IncIn, LoadIn, AndIn mask29, OrShl 29, Store, IncOut,
     ShrOut 29 26, IncIn, LoadIn, AndIn mask29, OrShl 26, Store, IncOut, ShrOut 29 23, IncIn,
     LoadIn, AndIn mask29, OrShl 23, Store, IncOut, ShrOut 29 20, IncIn, LoadIn, AndIn mask29,
     OrShl 20, Store, IncOut, ShrOut 29 17, IncIn, LoadIn, AndIn mask29, OrShl 17, Store, IncOut,
     ShrOut 29 14, IncIn, LoadIn, AndIn mask29, OrShl 14, Store, IncOut, ShrOut 29 11, IncIn,
     LoadIn, AndIn mask29, OrShl 11, Store, IncOut, ShrOut 29 8, IncIn, LoadIn, AndIn mask29,
     OrShl 8, Store, IncOut, ShrOut 29 5, IncIn, LoadIn, AndIn mask29, OrShl 5, Store, IncOut,
     ShrOut 29 2, IncIn, LoadIn, AndIn mask29, OrShl 2, IncIn, LoadIn, AndIn mask29, OrShl 31,
     Store, IncOut, ShrOut 29 28, IncIn, LoadIn, AndIn mask29, OrShl 28, Store, IncOut,
     ShrOut 29 25, IncIn, LoadIn, AndIn mask29, OrShl 25, Store, IncOut, ShrOut 29 22, IncIn,
     LoadIn, AndIn mask29, OrShl 22, Store, IncOut, ShrOut 29 19, IncIn, LoadIn, AndIn mask29,
     OrShl 19, Store, IncOut, ShrOut 29 16, IncIn, LoadIn, AndIn mask29, OrShl 16, Store, IncOut,
     ShrOut 29 13, IncIn, LoadIn, AndIn mask29, OrShl 13, Store, IncOut, ShrOut 29 10, IncIn,
     LoadIn, AndIn mask29, OrShl 10, Store, IncOut, ShrOut 29 7, IncIn, LoadIn, AndIn mask29,
     OrShl 7, Store, IncOut, ShrOut 29 4, IncIn, LoadIn, AndIn mask29, OrShl 4, Store, IncOut,
     ShrOut 29 1, IncIn, LoadIn, AndIn mask29, OrShl 1, IncIn, LoadIn, AndIn mask29, OrShl 30,
     Store, IncOut, ShrOut 29 27, IncIn, LoadIn, AndIn mask29, OrShl 27, Store, IncOut,
     ShrOut 29 24, IncIn, LoadIn, AndIn mask29, OrShl 24, Store, IncOut, ShrOut 29 21, IncIn,
     LoadIn, AndIn mask29, OrShl 21, Store, IncOut, ShrOut 29 18, IncIn, LoadIn, AndIn mask29,
     OrShl 18, Store, IncOut, ShrOut 29 15, IncIn, LoadIn, AndIn mask29, OrShl 15, Store, IncOut,
     ShrOut 29 12, IncIn, LoadIn, AndIn mask29, OrShl 12, Store, IncOut, ShrOut 29 9, IncIn,
     LoadIn, AndIn mask29, OrShl 9, Store, IncOut, ShrOut 29 6, IncIn, LoadIn, AndIn mask29,
     OrShl 6, Store, IncOut, ShrOut 29 3, IncIn, LoadIn, AndIn mask29, OrShl 3, Store]"

definition SIMD_fastpack30_32 :: "m128 list \<Rightarrow> m128 list option" where
  "SIMD_fastpack30_32 = run_plain
    [LoadIn, AndIn mask30, MovOut, IncIn, LoadIn, AndIn mask30, OrShl 30, Store, IncOut,
     ShrOut 30 28, IncIn, LoadIn, AndIn mask30, OrShl 28, Store, IncOut, ShrOut 30 26, IncIn,
     LoadIn, AndIn mask30, OrShl 26, Store, IncOut, ShrOut 30 24, IncIn, LoadIn, AndIn mask30,
     OrShl 24, Store, IncOut, ShrOut 30 22, IncIn, LoadIn, AndIn mask30, OrShl 22, Store, IncOut,
     ShrOut 30 20, IncIn, LoadIn, AndIn mask30, OrShl 20, Store, IncOut, ShrOut 30 18, IncIn,
     LoadIn, AndIn mask30, OrShl 18, Store, IncOut, ShrOut 30 16, IncIn, LoadIn, AndIn mask30,
     OrShl 16, Store, IncOut, ShrOut 30 14, IncIn, LoadIn, AndIn mask30, OrShl 14, Store, IncOut,
     ShrOut 30 12, IncIn, LoadIn, AndIn mask30, OrShl 12, Store, IncOut, ShrOut 30 10, IncIn,
     LoadIn, AndIn mask30, OrShl 10, Store, IncOut, ShrOut 30 8, IncIn, LoadIn, AndIn mask30,
     OrShl 8, Store, IncOut, ShrOut 30 6, IncIn, LoadIn, AndIn mask30, OrShl 6, Store, IncOut,
     ShrOut 30 4, IncIn, LoadIn, AndIn mask30, OrShl 4, Store, IncOut, ShrOut 30 2, IncIn, LoadIn,
     AndIn mask30, OrShl 2, Store, IncOut, IncIn, LoadIn, AndIn mask30, MovOut, IncIn, LoadIn,
     AndIn mask30, OrShl 30, Store, IncOut, ShrOut 30 28, IncIn, LoadIn, AndIn mask30, OrShl 28,
     Store, IncOut, ShrOut 30 26, IncIn, LoadIn, AndIn mask30, OrShl 26, Store, IncOut,
     ShrOut 30 24, IncIn, LoadIn, AndIn mask30, OrShl 24, Store, IncOut, ShrOut 30 22, IncIn,
     LoadIn, AndIn mask30, OrShl 22, Store, IncOut, ShrOut 30 20, IncIn, LoadIn, AndIn mask30,
     OrShl 20, Store, IncOut, ShrOut 30 18, IncIn, LoadIn, AndIn mask30, OrShl 18, Store, IncOut,
     ShrOut 30 16, IncIn, LoadIn, AndIn mask30, OrShl 16, Store, IncOut, ShrOut 30 14, IncIn,
     LoadIn, AndIn mask30, OrShl 14, Store, IncOut, ShrOut 30 12, IncIn, LoadIn, AndIn mask30,
     OrShl 12, Store, IncOut, ShrOut 30 10, IncIn, LoadIn, AndIn mask30, OrShl 10, Store, IncOut,
     ShrOut 30 8, IncIn, LoadIn, AndIn mask30, OrShl 8, Store, IncOut, ShrOut 30 6, IncIn, LoadIn,
     AndIn mask30, OrShl 6, Store, IncOut, ShrOut 30 4, IncIn, LoadIn, AndIn mask30, OrShl 4,
     Store, IncOut, ShrOut 30 2, IncIn, LoadIn, AndIn mask30, OrShl 2, Store]"

definition SIMD_fastpack31_32 :: "m128 list \<Rightarrow> m128 list option" where
  "SIMD_fastpack31_32 = run_plain
    [LoadIn, AndIn mask31, MovOut, IncIn, LoadIn, AndIn mask31, OrShl 31, Store, IncOut,
     ShrOut 31 30, IncIn, LoadIn, AndIn mask31, OrShl 30, Store, IncOut, ShrOut 31 29, IncIn,
     LoadIn, AndIn mask31, OrShl 29, Store, IncOut, ShrOut 31 28, IncIn, LoadIn, AndIn mask31,
     OrShl 28, Store, IncOut, ShrOut 31 27, IncIn, LoadIn, AndIn mask31, OrShl 27, Store, IncOut,
     ShrOut 31 26, IncIn, LoadIn, AndIn mask31, OrShl 26, Store, IncOut, ShrOut 31 25, IncIn,
     LoadIn, AndIn mask31, OrShl 25, Store, IncOut, ShrOut 31 24, IncIn, LoadIn, AndIn mask31,
     OrShl 24, Store, IncOut, ShrOut 31 23, IncIn, LoadIn, AndIn mask31, OrShl 23, Store, IncOut,
     ShrOut 31 22, IncIn, LoadIn, AndIn mask31, OrShl 22, Store, IncOut, ShrOut 31 21, IncIn,
     LoadIn, AndIn mask31, OrShl 21, Store, IncOut, ShrOut 31 20, IncIn, LoadIn, AndIn mask31,
     OrShl 20, Store, IncOut, ShrOut 31 19, IncIn, LoadIn, AndIn mask31, OrShl 19, Store, IncOut,
     ShrOut 31 18, IncIn, LoadIn, AndIn mask31, OrShl 18, Store, IncOut, ShrOut 31 17, IncIn,
     LoadIn, AndIn mask31, OrShl 17, Store, IncOut, ShrOut 31 16, IncIn, LoadIn, AndIn mask31,
     OrShl 16, Store, IncOut, ShrOut 31 15, IncIn, LoadIn, AndIn mask31, OrShl 15, Store, IncOut,
     ShrOut 31 14, IncIn, LoadIn, AndIn mask31, OrShl 14, Store, IncOut, ShrOut 31 13, IncIn,
     LoadIn, AndIn mask31, OrShl 13, Store, IncOut, ShrOut 31 12, IncIn, LoadIn, AndIn mask31,
     OrShl 12, Store, IncOut, ShrOut 31 11, IncIn, LoadIn, AndIn mask31, OrShl 11, Store, IncOut,
     ShrOut 31 10, IncIn, LoadIn, AndIn mask31, OrShl 10, Store, IncOut, ShrOut 31 9, IncIn,
     LoadIn, AndIn mask31, OrShl 9, Store, IncOut, ShrOut 31 8, IncIn, LoadIn, AndIn mask31,
     OrShl 8, Store, IncOut, ShrOut 31 7, IncIn, LoadIn, AndIn mask31, OrShl 7, Store, IncOut,
     ShrOut 31 6, IncIn, LoadIn, AndIn mask31, OrShl 6, Store, IncOut, ShrOut 31 5, IncIn, LoadIn,
     AndIn mask31, OrShl 5, Store, IncOut, ShrOut 31 4, IncIn, LoadIn, AndIn mask31, OrShl 4,
     Store, IncOut, ShrOut 31 3, IncIn, LoadIn, AndIn mask31, OrShl 3, Store, IncOut, ShrOut 31 2,
     IncIn, LoadIn, AndIn mask31, OrShl 2, Store, IncOut, ShrOut 31 1, IncIn, LoadIn, AndIn mask31,
     OrShl 1, Store]"

definition SIMD_fastpack32_32 :: "m128 list \<Rightarrow> m128 list option" where
  "SIMD_fastpack32_32 = run_plain
    [LoadIn, MovOut, Store, IncOut, IncIn, LoadIn, MovOut, Store, IncOut, IncIn, LoadIn, MovOut,
     Store, IncOut, IncIn, LoadIn, MovOut, Store, IncOut, IncIn, LoadIn, MovOut, Store, IncOut,
     IncIn, LoadIn, MovOut, Store, IncOut, IncIn, LoadIn, MovOut, Store, IncOut, IncIn, LoadIn,
     MovOut, Store, IncOut, IncIn, LoadIn, MovOut, Store, IncOut, IncIn, LoadIn, MovOut, Store,
     IncOut, IncIn, LoadIn, MovOut, Store, IncOut, IncIn, LoadIn, MovOut, Store, IncOut, IncIn,
     LoadIn, MovOut, Store, IncOut, IncIn, LoadIn, MovOut, Store, IncOut, IncIn, LoadIn, MovOut,
     Store, IncOut, IncIn, LoadIn, MovOut, Store, IncOut, IncIn, LoadIn, MovOut, Store, IncOut,
     IncIn, LoadIn, MovOut, Store, IncOut, IncIn, LoadIn, MovOut, Store, IncOut, IncIn, LoadIn,
     MovOut, Store, IncOut, IncIn, LoadIn, MovOut, Store, IncOut, IncIn, LoadIn, MovOut, Store,
     IncOut, IncIn, LoadIn, MovOut, Store, IncOut, IncIn, LoadIn, MovOut, Store, IncOut, IncIn,
     LoadIn, MovOut, Store, IncOut, IncIn, LoadIn, MovOut, Store, IncOut, IncIn, LoadIn, MovOut,
     Store, IncOut, IncIn, LoadIn, MovOut, Store, IncOut, IncIn, LoadIn, MovOut, Store, IncOut,
     IncIn, LoadIn, MovOut, Store, IncOut, IncIn, LoadIn, MovOut, Store, IncOut, IncIn, LoadIn,
     MovOut, Store]"

section \<open>The dispatcher\<close>

definition simdpack :: "m128 list \<Rightarrow> u32 \<Rightarrow> m128 list res" where
  "simdpack inp b =
     (if b = 0 then Inr []
      else if b = 1 then in_bounds (SIMD_fastpack1_32 inp)
      else if b = 2 then in_bounds (SIMD_fastpack2_32 inp)
      else if b = 3 then in_bounds (SIMD_fastpack3_32 inp)
      else if b = 4 then in_bounds (SIMD_fastpack4_32 inp)
      else if b = 5 then in_bounds (SIMD_fastpack5_32 inp)
      else if b = 6 then in_bounds (SIMD_fastpack6_32 inp)
      else if b = 7 then in_bounds (SIMD_fastpack7_32 inp)
      else if b = 8 then in_bounds (SIMD_fastpack8_32 inp)
      else if b = 9 then in_bounds (SIMD_fastpack9_32 inp)
      else if b = 10 then in_bounds (SIMD_fastpack10_32 inp)
      else if b = 11 then in_bounds (SIMD_fastpack11_32 inp)
      else if b = 12 then in_bounds (SIMD_fastpack12_32 inp)
      else if b = 13 then in_bounds (SIMD_fastpack13_32 inp)
      else if b = 14 then in_bounds (SIMD_fastpack14_32 inp)
      else if b = 15 then in_bounds (SIMD_fastpack15_32 inp)
      else if b = 16 then in_bounds (SIMD_fastpack16_32 inp)
      else if b = 17 then in_bounds (SIMD_fastpack17_32 inp)
      else if b = 18 then in_bounds (SIMD_fastpack18_32 inp)
      else if b = 19 then in_bounds (SIMD_fastpack19_32 inp)
      else if b = 20 then in_bounds (SIMD_fastpack20_32 inp)
      else if b = 21 then in_bounds (SIMD_fastpack21_32 inp)
      else if b = 22 then in_bounds (SIMD_fastpack22_32 inp)
      else if b = 23 then in_bounds (SIMD_fastpack23_32 inp)
      else if b = 24 then in_bounds (SIMD_fastpack24_32 inp)
      else if b = 25 then in_bounds (SIMD_fastpack25_32 inp)
      else if b = 26 then in_bounds (SIMD_fastpack26_32 inp)
      else if b = 27 then in_bounds (SIMD_fastpack27_32 inp)
      else if b = 28 then in_bounds (SIMD_fastpack28_32 inp)
      else if b = 29 then in_bounds (SIMD_fastpack29_32 inp)
      else if b = 30 then in_bounds (SIMD_fastpack30_32 inp)
      else if b = 31 then in_bounds (SIMD_fastpack31_32 inp)
      else if b = 32 then in_bounds (SIMD_fastpack32_32 inp)
      else Inl LogicError)"

definition SIMD_fastpack_32 :: "m128 list \<Rightarrow> u32 \<Rightarrow> m128 list res" where
  "SIMD_fastpack_32 inp b = simdpack inp b"

section \<open>Each function is the schedule of its width\<close>

lemma fastpack1_schedule: "SIMD_fastpack1_32 = run_plain (pack_schedule [LoadIn, AndIn (mask_of 1)] 1)"
  by (simp add: SIMD_fastpack1_32_def schedule_unfold masks_eq(1))

lemma fastpack2_schedule: "SIMD_fastpack2_32 = run_plain (pack_schedule [LoadIn, AndIn (mask_of 2)] 2)"
  by (simp add: SIMD_fastpack2_32_def schedule_unfold masks_eq(2))

lemma fastpack3_schedule: "SIMD_fastpack3_32 = run_plain (pack_schedule [LoadIn, AndIn (mask_of 3)] 3)"
  by (simp add: SIMD_fastpack3_32_def schedule_unfold masks_eq(3))

lemma fastpack4_schedule: "SIMD_fastpack4_32 = run_plain (loop_schedule [LoadIn, AndIn (mask_of 4)] 4)"
  by (simp add: SIMD_fastpack4_32_def loop_schedule_def schedule_unfold rounds masks_eq(4))

lemma fastpack5_schedule: "SIMD_fastpack5_32 = run_plain (pack_schedule [LoadIn, AndIn (mask_of 5)] 5)"
  by (simp add: SIMD_fastpack5_32_def schedule_unfold masks_eq(5))

lemma fastpack6_schedule: "SIMD_fastpack6_32 = run_plain (pack_schedule [LoadIn, AndIn (mask_of 6)] 6)"
  by (simp add: SIMD_fastpack6_32_def schedule_unfold masks_eq(6))

lemma fastpack7_schedule: "SIMD_fastpack7_32 = run_plain (pack_schedule [LoadIn, AndIn (mask_of 7)] 7)"
  by (simp add: SIMD_fastpack7_32_def schedule_unfold masks_eq(7))

lemma fastpack8_schedule: "SIMD_fastpack8_32 = run_plain (loop_schedule [LoadIn, AndIn (mask_of 8)] 8)"
  by (simp add: SIMD_fastpack8_32_def loop_schedule_def schedule_unfold rounds masks_eq(8))

lemma fastpack9_schedule: "SIMD_fastpack9_32 = run_plain (pack_schedule [LoadIn, AndIn (mask_of 9)] 9)"
  by (simp add: SIMD_fastpack9_32_def schedule_unfold masks_eq(9))

lemma fastpack10_schedule: "SIMD_fastpack10_32 = run_plain (pack_schedule [LoadIn, AndIn (mask_of 10)] 10)"
  by (simp add: SIMD_fastpack10_32_def schedule_unfold masks_eq(10))

lemma fastpack11_schedule: "SIMD_fastpack11_32 = run_plain (pack_schedule [LoadIn, AndIn (mask_of 11)] 11)"
  by (simp add: SIMD_fastpack11_32_def schedule_unfold masks_eq(11))

lemma fastpack12_schedule: "SIMD_fastpack12_32 = run_plain (pack_schedule [LoadIn, AndIn (mask_of 12)] 12)"
  by (simp add: SIMD_fastpack12_32_def schedule_unfold masks_eq(12))

lemma fastpack13_schedule: "SIMD_fastpack13_32 = run_plain (pack_schedule [LoadIn, AndIn (mask_of 13)] 13)"
  by (simp add: SIMD_fastpack13_32_def schedule_unfold masks_eq(13))

lemma fastpack14_schedule: "SIMD_fastpack14_32 = run_plain (pack_schedule [LoadIn, AndIn (mask_of 14)] 14)"
  by (simp add: SIMD_fastpack14_32_def schedule_unfold masks_eq(14))

lemma fastpack15_schedule: "SIMD_fastpack15_32 = run_plain (pack_schedule [LoadIn, AndIn (mask_of 15)] 15)"
  by (simp add: SIMD_fastpack15_32_def schedule_unfold masks_eq(15))

lemma fastpack16_schedule: "SIMD_fastpack16_32 = run_plain (loop_schedule [LoadIn, AndIn (mask_of 16)] 16)"
  by (simp add: SIMD_fastpack16_32_def loop_schedule_def schedule_unfold rounds masks_eq(16))

lemma fastpack17_schedule: "SIMD_fastpack17_32 = run_plain (pack_schedule [LoadIn, AndIn (mask_of 17)] 17)"
  by (simp add: SIMD_fastpack17_32_def schedule_unfold masks_eq(17))

lemma fastpack18_schedule: "SIMD_fastpack18_32 = run_plain (pack_schedule [LoadIn, AndIn (mask_of 18)] 18)"
  by (simp add: SIMD_fastpack18_32_def schedule_unfold masks_eq(18))

lemma fastpack19_schedule: "SIMD_fastpack19_32 = run_plain (pack_schedule [LoadIn, AndIn (mask_of 19)] 19)"
  by (simp add: SIMD_fastpack19_32_def schedule_unfold masks_eq(19))

lemma fastpack20_schedule: "SIMD_fastpack20_32 = run_plain (pack_schedule [LoadIn, AndIn (mask_of 20)] 20)"
  by (simp add: SIMD_fastpack20_32_def schedule_unfold masks_eq(20))

lemma fastpack21_schedule: "SIMD_fastpack21_32 = run_plain (pack_schedule [LoadIn, AndIn (mask_of 21)] 21)"
  by (simp add: SIMD_fastpack21_32_def schedule_unfold masks_eq(21))

lemma fastpack22_schedule: "SIMD_fastpack22_32 = run_plain (pack_schedule [LoadIn, AndIn (mask_of 22)] 22)"
  by (simp add: SIMD_fastpack22_32_def schedule_unfold masks_eq(22))

lemma fastpack23_schedule: "SIMD_fastpack23_32 = run_plain (pack_schedule [LoadIn, AndIn (mask_of 23)] 23)"
  by (simp add: SIMD_fastpack23_32_def schedule_unfold masks_eq(23))

lemma fastpack24_schedule: "SIMD_fastpack24_32 = run_plain (pack_schedule [LoadIn, AndIn (mask_of 24)] 24)"
  by (simp add: SIMD_fastpack24_32_def schedule_unfold masks_eq(24))

lemma fastpack25_schedule: "SIMD_fastpack25_32 = run_plain (pack_schedule [LoadIn, AndIn (mask_of 25)] 25)"
  by (simp add: SIMD_fastpack25_32_def schedule_unfold masks_eq(25))

lemma fastpack26_schedule: "SIMD_fastpack26_32 = run_plain (pack_schedule [LoadIn, AndIn (mask_of 26)] 26)"
  by (simp add: SIMD_fastpack26_32_def schedule_unfold masks_eq(26))

lemma fastpack27_schedule: "SIMD_fastpack27_32 = run_plain (pack_schedule [LoadIn, AndIn (mask_of 27)] 27)"
  by (simp add: SIMD_fastpack27_32_def schedule_unfold masks_eq(27))

lemma fastpack28_schedule: "SIMD_fastpack28_32 = run_plain (pack_schedule [LoadIn, AndIn (mask_of 28)] 28)"
  by (simp add: SIMD_fastpack28_32_def schedule_unfold masks_eq(28))

lemma fastpack29_schedule: "SIMD_fastpack29_32 = run_plain (pack_schedule [LoadIn, AndIn (mask_of 29)] 29)"
  by (simp add: SIMD_fastpack29_32_def schedule_unfold masks_eq(29))

lemma fastpack30_schedule: "SIMD_fastpack30_32 = run_plain (pack_schedule [LoadIn, AndIn (mask_of 30)] 30)"
  by (simp add: SIMD_fastpack30_32_def schedule_unfold masks_eq(30))

lemma fastpack31_schedule: "SIMD_fastpack31_32 = run_plain (pack_schedule [LoadIn, AndIn (mask_of 31)] 31)"
  by (simp add: SIMD_fastpack31_32_def schedule_unfold masks_eq(31))

lemma fastpack32_schedule: "SIMD_fastpack32_32 = run_plain (concat (map copy_value [0..<32]))"
  by (simp add: SIMD_fastpack32_32_def copy_value_def upt_32)

lemmas fastpack_schedules =
  fastpack1_schedule fastpack2_schedule fastpack3_schedule fastpack4_schedule fastpack5_schedule
  fastpack6_schedule fastpack7_schedule fastpack8_schedule fastpack9_schedule fastpack10_schedule
  fastpack11_schedule fastpack12_schedule fastpack13_schedule fastpack14_schedule fastpack15_schedule
  fastpack16_schedule fastpack17_schedule fastpack18_schedule fastpack19_schedule fastpack20_schedule
  fastpack21_schedule fastpack22_schedule fastpack23_schedule fastpack24_schedule fastpack25_schedule
  fastpack26_schedule fastpack27_schedule fastpack28_schedule fastpack29_schedule fastpack30_schedule
  fastpack31_schedule fastpack32_schedule

lemmas fastpack_unfold = fastpack_schedules plain_schedule_def

lemma simdpack_schedule:
  assumes "0 < b" and "b < 32"
  shows "simdpack inp (of_nat b)
    = in_bounds (run_plain (plain_schedule [LoadIn, AndIn (mask_of b)] b) inp)"
  using width_cases[OF assms]
  by (elim insertE emptyE) (simp_all add: simdpack_def fastpack_unfold)

section \<open>What the functions write\<close>

interpretation plain_mask: packer "[LoadIn, AndIn m]"
  "\<lambda>off. map (\<lambda>r. mm_and_si128 r m)" "\<lambda>off inp i. off" for m
  by unfold_locales auto

lemma simdpack_packs:
  assumes "pack_room b inp" and "0 < b" "b < 32"
  shows "\<exists>out. simdpack inp (of_nat b) = Inr out \<and> length out = b
    \<and> packed_block b (map (\<lambda>r. mm_and_si128 r (mask_of b)) inp) out"
  using plain_mask.run_plain_schedule[where m = "mask_of b" and off = "mm_set1_epi32 0", OF assms] simdpack_schedule[OF assms(2,3)] assms
  by (auto simp: run_plain_def fits_masked pack_room_def)

lemma fastpack32_copies: "32 \<le> length inp \<Longrightarrow> SIMD_fastpack32_32 inp = Some (take 32 inp)"
  by (simp add: fastpack32_schedule run_plain_def run_copy_values)

text \<open>On exactly 32 registers, the loops of the widths 4, 8 and 16 read past the input.\<close>

lemma simdpack_32_fails:
  assumes "length inp = 32" and "0 < b" "b < 32"
  shows "(simdpack inp (of_nat b) = Inl OutOfBounds) = (b \<in> {4, 8, 16})"
    and "isl (simdpack inp (of_nat b)) = (b \<in> {4, 8, 16})"
proof -
  have n: "run_plain (plain_schedule [LoadIn, AndIn (mask_of b)] b) inp = None \<longleftrightarrow> b \<in> {4, 8, 16}"
    using plain_mask.run_plain_schedule_32[of inp b "mask_of b" "mm_set1_epi32 0"] assms by (simp add: run_plain_def fits_masked)
  show "(simdpack inp (of_nat b) = Inl OutOfBounds) = (b \<in> {4, 8, 16})"
    and "isl (simdpack inp (of_nat b)) = (b \<in> {4, 8, 16})"
    using n by (auto simp: simdpack_schedule[OF assms(2,3)] in_bounds_def split: option.splits)
qed

end
