(* ===== verification/PlainUnpack.thy ===== *)
theory PlainUnpack
  imports PlainPackMask
begin

text \<open>
  The unpackers \<open>__SIMD_fastunpack1_32\<close> to \<open>__SIMD_fastunpack32_32\<close> of
  \<^verbatim>\<open>varint/bitpacking/bitpacksimd.cpp\<close> and their dispatcher \<open>simdunpack\<close>, statement by
  statement, and the proof that for every width they give back the registers packed by
  \<open>simdpack\<close>, masked to the width, and those packed by \<open>simdpackwithoutmask\<close>.
\<close>

section \<open>Statements\<close>

text \<open>
  The C variables of an unpacking function; \<open>vs_in\<close> counts the registers \<open>in\<close> has advanced and
  \<open>vs_mem\<close> is the memory written through \<open>out++\<close>.
\<close>

record plain_state =
  vs_in :: nat
  vs_inreg :: m128
  vs_outreg :: m128
  vs_mem :: "m128 list"

text \<open>
  \<open>LoadFirst\<close> is \<open>InReg = _mm_load_si128(in)\<close> and \<open>LoadNext\<close> is \<open>InReg = _mm_load_si128(++in)\<close>;
  \<open>AndReg m\<close> is \<open>OutReg = _mm_and_si128(InReg, m)\<close>, \<open>ShrAnd n m\<close> is
  \<open>OutReg = _mm_and_si128(_mm_srli_epi32(InReg, n), m)\<close>, \<open>ShrReg n\<close> is
  \<open>OutReg = _mm_srli_epi32(InReg, n)\<close>, \<open>OrAndShl m b k\<close> is
  \<open>OutReg = _mm_or_si128(OutReg, _mm_slli_epi32(_mm_and_si128(InReg, m), b-k))\<close> and \<open>StoreOut\<close> is
  \<open>_mm_store_si128(out++, OutReg)\<close>.
\<close>

datatype plain_stmt =
  LoadFirst | LoadNext | AndReg m128 | ShrAnd nat m128 | ShrReg nat | OrAndShl m128 nat nat | StoreOut

fun plain_step :: "m128 list \<Rightarrow> plain_stmt \<Rightarrow> plain_state \<Rightarrow> plain_state option" where
  "plain_step inp LoadFirst s =
     (if vs_in s < length inp then Some (s\<lparr>vs_inreg := inp ! vs_in s\<rparr>) else None)"
| "plain_step inp LoadNext s =
     (if Suc (vs_in s) < length inp
      then Some (s\<lparr>vs_in := Suc (vs_in s), vs_inreg := inp ! Suc (vs_in s)\<rparr>) else None)"
| "plain_step inp (AndReg m) s = Some (s\<lparr>vs_outreg := mm_and_si128 (vs_inreg s) m\<rparr>)"
| "plain_step inp (ShrAnd n m) s =
     Some (s\<lparr>vs_outreg := mm_and_si128 (mm_srli_epi32 (vs_inreg s) n) m\<rparr>)"
| "plain_step inp (ShrReg n) s = Some (s\<lparr>vs_outreg := mm_srli_epi32 (vs_inreg s) n\<rparr>)"
| "plain_step inp (OrAndShl m b k) s =
     Some (s\<lparr>vs_outreg := mm_or_si128 (vs_outreg s)
                (mm_slli_epi32 (mm_and_si128 (vs_inreg s) m) (b - k))\<rparr>)"
| "plain_step inp StoreOut s = Some (s\<lparr>vs_mem := vs_mem s @ [vs_outreg s]\<rparr>)"

fun plain_exec :: "m128 list \<Rightarrow> plain_stmt list \<Rightarrow> plain_state \<Rightarrow> plain_state option" where
  "plain_exec inp [] s = Some s"
| "plain_exec inp (c # cs) s = Option.bind (plain_step inp c s) (plain_exec inp cs)"

text \<open>No function reads a register before it has written it; the model starts them at zero.\<close>

definition plain_init :: plain_state where
  "plain_init = \<lparr>vs_in = 0, vs_inreg = mm_set1_epi32 0, vs_outreg = mm_set1_epi32 0, vs_mem = []\<rparr>"

definition run_plain_unpack :: "plain_stmt list \<Rightarrow> m128 list \<Rightarrow> m128 list option" where
  "run_plain_unpack prog inp = map_option vs_mem (plain_exec inp prog plain_init)"

section \<open>The unpacking functions\<close>

text \<open>
  Width 0 zeroes the output; width 1 is a loop of eight rounds over one register, with the
  shift counted up by every use; width 32 copies.
\<close>

definition SIMD_nullunpacker32 :: "m128 list \<Rightarrow> m128 list option" where
  "SIMD_nullunpacker32 inp = Some (replicate 32 (mm_set1_epi32 0))"

fun fastunpack1_rounds :: "nat \<Rightarrow> m128 \<Rightarrow> m128 \<Rightarrow> nat \<Rightarrow> m128 list" where
  "fastunpack1_rounds 0 InReg1 InReg2 shift = []"
| "fastunpack1_rounds (Suc n) InReg1 InReg2 shift =
     (let OutReg1 = mm_and_si128 (mm_srli_epi32 InReg1 shift) mask1;
          OutReg2 = mm_and_si128 (mm_srli_epi32 InReg2 (shift + 1)) mask1;
          OutReg3 = mm_and_si128 (mm_srli_epi32 InReg1 (shift + 2)) mask1;
          OutReg4 = mm_and_si128 (mm_srli_epi32 InReg2 (shift + 3)) mask1
      in OutReg1 # OutReg2 # OutReg3 # OutReg4 # fastunpack1_rounds n InReg1 InReg2 (shift + 4))"

definition SIMD_fastunpack1_32 :: "m128 list \<Rightarrow> m128 list option" where
  "SIMD_fastunpack1_32 inp = (case inp of [] \<Rightarrow> None | r # rs \<Rightarrow> Some (fastunpack1_rounds 8 r r 0))"

definition SIMD_fastunpack32_32 :: "m128 list \<Rightarrow> m128 list option" where
  "SIMD_fastunpack32_32 inp = (if 32 \<le> length inp then Some (take 32 inp) else None)"

definition SIMD_fastunpack2_32 :: "m128 list \<Rightarrow> m128 list option" where
  "SIMD_fastunpack2_32 = run_plain_unpack
    [LoadFirst, AndReg mask2, StoreOut, ShrAnd 2 mask2, StoreOut, ShrAnd 4 mask2, StoreOut,
     ShrAnd 6 mask2, StoreOut, ShrAnd 8 mask2, StoreOut, ShrAnd 10 mask2, StoreOut,
     ShrAnd 12 mask2, StoreOut, ShrAnd 14 mask2, StoreOut, ShrAnd 16 mask2, StoreOut,
     ShrAnd 18 mask2, StoreOut, ShrAnd 20 mask2, StoreOut, ShrAnd 22 mask2, StoreOut,
     ShrAnd 24 mask2, StoreOut, ShrAnd 26 mask2, StoreOut, ShrAnd 28 mask2, StoreOut, ShrReg 30,
     LoadNext, StoreOut, AndReg mask2, StoreOut, ShrAnd 2 mask2, StoreOut, ShrAnd 4 mask2,
     StoreOut, ShrAnd 6 mask2, StoreOut, ShrAnd 8 mask2, StoreOut, ShrAnd 10 mask2, StoreOut,
     ShrAnd 12 mask2, StoreOut, ShrAnd 14 mask2, StoreOut, ShrAnd 16 mask2, StoreOut,
     ShrAnd 18 mask2, StoreOut, ShrAnd 20 mask2, StoreOut, ShrAnd 22 mask2, StoreOut,
     ShrAnd 24 mask2, StoreOut, ShrAnd 26 mask2, StoreOut, ShrAnd 28 mask2, StoreOut, ShrReg 30,
     StoreOut]"

definition SIMD_fastunpack3_32 :: "m128 list \<Rightarrow> m128 list option" where
  "SIMD_fastunpack3_32 = run_plain_unpack
    [LoadFirst, AndReg mask3, StoreOut, ShrAnd 3 mask3, StoreOut, ShrAnd 6 mask3, StoreOut,
     ShrAnd 9 mask3, StoreOut, ShrAnd 12 mask3, StoreOut, ShrAnd 15 mask3, StoreOut,
     ShrAnd 18 mask3, StoreOut, ShrAnd 21 mask3, StoreOut, ShrAnd 24 mask3, StoreOut,
     ShrAnd 27 mask3, StoreOut, ShrReg 30, LoadNext, OrAndShl mask1 3 1, StoreOut, ShrAnd 1 mask3,
     StoreOut, ShrAnd 4 mask3, StoreOut, ShrAnd 7 mask3, StoreOut, ShrAnd 10 mask3, StoreOut,
     ShrAnd 13 mask3, StoreOut, ShrAnd 16 mask3, StoreOut, ShrAnd 19 mask3, StoreOut,
     ShrAnd 22 mask3, StoreOut, ShrAnd 25 mask3, StoreOut, ShrAnd 28 mask3, StoreOut, ShrReg 31,
     LoadNext, OrAndShl mask2 3 2, StoreOut, ShrAnd 2 mask3, StoreOut, ShrAnd 5 mask3, StoreOut,
     ShrAnd 8 mask3, StoreOut, ShrAnd 11 mask3, StoreOut, ShrAnd 14 mask3, StoreOut,
     ShrAnd 17 mask3, StoreOut, ShrAnd 20 mask3, StoreOut, ShrAnd 23 mask3, StoreOut,
     ShrAnd 26 mask3, StoreOut, ShrReg 29, StoreOut]"

definition SIMD_fastunpack4_32 :: "m128 list \<Rightarrow> m128 list option" where
  "SIMD_fastunpack4_32 = run_plain_unpack
    [LoadFirst, AndReg mask4, StoreOut, ShrAnd 4 mask4, StoreOut, ShrAnd 8 mask4, StoreOut,
     ShrAnd 12 mask4, StoreOut, ShrAnd 16 mask4, StoreOut, ShrAnd 20 mask4, StoreOut,
     ShrAnd 24 mask4, StoreOut, ShrReg 28, LoadNext, StoreOut, AndReg mask4, StoreOut,
     ShrAnd 4 mask4, StoreOut, ShrAnd 8 mask4, StoreOut, ShrAnd 12 mask4, StoreOut,
     ShrAnd 16 mask4, StoreOut, ShrAnd 20 mask4, StoreOut, ShrAnd 24 mask4, StoreOut, ShrReg 28,
     LoadNext, StoreOut, AndReg mask4, StoreOut, ShrAnd 4 mask4, StoreOut, ShrAnd 8 mask4,
     StoreOut, ShrAnd 12 mask4, StoreOut, ShrAnd 16 mask4, StoreOut, ShrAnd 20 mask4, StoreOut,
     ShrAnd 24 mask4, StoreOut, ShrReg 28, LoadNext, StoreOut, AndReg mask4, StoreOut,
     ShrAnd 4 mask4, StoreOut, ShrAnd 8 mask4, StoreOut, ShrAnd 12 mask4, StoreOut,
     ShrAnd 16 mask4, StoreOut, ShrAnd 20 mask4, StoreOut, ShrAnd 24 mask4, StoreOut, ShrReg 28,
     StoreOut]"

definition SIMD_fastunpack5_32 :: "m128 list \<Rightarrow> m128 list option" where
  "SIMD_fastunpack5_32 = run_plain_unpack
    [LoadFirst, AndReg mask5, StoreOut, ShrAnd 5 mask5, StoreOut, ShrAnd 10 mask5, StoreOut,
     ShrAnd 15 mask5, StoreOut, ShrAnd 20 mask5, StoreOut, ShrAnd 25 mask5, StoreOut, ShrReg 30,
     LoadNext, OrAndShl mask3 5 3, StoreOut, ShrAnd 3 mask5, StoreOut, ShrAnd 8 mask5, StoreOut,
     ShrAnd 13 mask5, StoreOut, ShrAnd 18 mask5, StoreOut, ShrAnd 23 mask5, StoreOut, ShrReg 28,
     LoadNext, OrAndShl mask1 5 1, StoreOut, ShrAnd 1 mask5, StoreOut, ShrAnd 6 mask5, StoreOut,
     ShrAnd 11 mask5, StoreOut, ShrAnd 16 mask5, StoreOut, ShrAnd 21 mask5, StoreOut,
     ShrAnd 26 mask5, StoreOut, ShrReg 31, LoadNext, OrAndShl mask4 5 4, StoreOut, ShrAnd 4 mask5,
     StoreOut, ShrAnd 9 mask5, StoreOut, ShrAnd 14 mask5, StoreOut, ShrAnd 19 mask5, StoreOut,
     ShrAnd 24 mask5, StoreOut, ShrReg 29, LoadNext, OrAndShl mask2 5 2, StoreOut, ShrAnd 2 mask5,
     StoreOut, ShrAnd 7 mask5, StoreOut, ShrAnd 12 mask5, StoreOut, ShrAnd 17 mask5, StoreOut,
     ShrAnd 22 mask5, StoreOut, ShrReg 27, StoreOut]"

definition SIMD_fastunpack6_32 :: "m128 list \<Rightarrow> m128 list option" where
  "SIMD_fastunpack6_32 = run_plain_unpack
    [LoadFirst, AndReg mask6, StoreOut, ShrAnd 6 mask6, StoreOut, ShrAnd 12 mask6, StoreOut,
     ShrAnd 18 mask6, StoreOut, ShrAnd 24 mask6, StoreOut, ShrReg 30, LoadNext, OrAndShl mask4 6 4,
     StoreOut, ShrAnd 4 mask6, StoreOut, ShrAnd 10 mask6, StoreOut, ShrAnd 16 mask6, StoreOut,
     ShrAnd 22 mask6, StoreOut, ShrReg 28, LoadNext, OrAndShl mask2 6 2, StoreOut, ShrAnd 2 mask6,
     StoreOut, ShrAnd 8 mask6, StoreOut, ShrAnd 14 mask6, StoreOut, ShrAnd 20 mask6, StoreOut,
     ShrReg 26, LoadNext, StoreOut, AndReg mask6, StoreOut, ShrAnd 6 mask6, StoreOut,
     ShrAnd 12 mask6, StoreOut, ShrAnd 18 mask6, StoreOut, ShrAnd 24 mask6, StoreOut, ShrReg 30,
     LoadNext, OrAndShl mask4 6 4, StoreOut, ShrAnd 4 mask6, StoreOut, ShrAnd 10 mask6, StoreOut,
     ShrAnd 16 mask6, StoreOut, ShrAnd 22 mask6, StoreOut, ShrReg 28, LoadNext, OrAndShl mask2 6 2,
     StoreOut, ShrAnd 2 mask6, StoreOut, ShrAnd 8 mask6, StoreOut, ShrAnd 14 mask6, StoreOut,
     ShrAnd 20 mask6, StoreOut, ShrReg 26, StoreOut]"

definition SIMD_fastunpack7_32 :: "m128 list \<Rightarrow> m128 list option" where
  "SIMD_fastunpack7_32 = run_plain_unpack
    [LoadFirst, AndReg mask7, StoreOut, ShrAnd 7 mask7, StoreOut, ShrAnd 14 mask7, StoreOut,
     ShrAnd 21 mask7, StoreOut, ShrReg 28, LoadNext, OrAndShl mask3 7 3, StoreOut, ShrAnd 3 mask7,
     StoreOut, ShrAnd 10 mask7, StoreOut, ShrAnd 17 mask7, StoreOut, ShrAnd 24 mask7, StoreOut,
     ShrReg 31, LoadNext, OrAndShl mask6 7 6, StoreOut, ShrAnd 6 mask7, StoreOut, ShrAnd 13 mask7,
     StoreOut, ShrAnd 20 mask7, StoreOut, ShrReg 27, LoadNext, OrAndShl mask2 7 2, StoreOut,
     ShrAnd 2 mask7, StoreOut, ShrAnd 9 mask7, StoreOut, ShrAnd 16 mask7, StoreOut,
     ShrAnd 23 mask7, StoreOut, ShrReg 30, LoadNext, OrAndShl mask5 7 5, StoreOut, ShrAnd 5 mask7,
     StoreOut, ShrAnd 12 mask7, StoreOut, ShrAnd 19 mask7, StoreOut, ShrReg 26, LoadNext,
     OrAndShl mask1 7 1, StoreOut, ShrAnd 1 mask7, StoreOut, ShrAnd 8 mask7, StoreOut,
     ShrAnd 15 mask7, StoreOut, ShrAnd 22 mask7, StoreOut, ShrReg 29, LoadNext, OrAndShl mask4 7 4,
     StoreOut, ShrAnd 4 mask7, StoreOut, ShrAnd 11 mask7, StoreOut, ShrAnd 18 mask7, StoreOut,
     ShrReg 25, StoreOut]"

definition SIMD_fastunpack8_32 :: "m128 list \<Rightarrow> m128 list option" where
  "SIMD_fastunpack8_32 = run_plain_unpack
    [LoadFirst, AndReg mask8, StoreOut, ShrAnd 8 mask8, StoreOut, ShrAnd 16 mask8, StoreOut,
     ShrReg 24, LoadNext, StoreOut, AndReg mask8, StoreOut, ShrAnd 8 mask8, StoreOut,
     ShrAnd 16 mask8, StoreOut, ShrReg 24, LoadNext, StoreOut, AndReg mask8, StoreOut,
     ShrAnd 8 mask8, StoreOut, ShrAnd 16 mask8, StoreOut, ShrReg 24, LoadNext, StoreOut,
     AndReg mask8, StoreOut, ShrAnd 8 mask8, StoreOut, ShrAnd 16 mask8, StoreOut, ShrReg 24,
     LoadNext, StoreOut, AndReg mask8, StoreOut, ShrAnd 8 mask8, StoreOut, ShrAnd 16 mask8,
     StoreOut, ShrReg 24, LoadNext, StoreOut, AndReg mask8, StoreOut, ShrAnd 8 mask8, StoreOut,
     ShrAnd 16 mask8, StoreOut, ShrReg 24, LoadNext, StoreOut, AndReg mask8, StoreOut,
     ShrAnd 8 mask8, StoreOut, ShrAnd 16 mask8, StoreOut, ShrReg 24, LoadNext, StoreOut,
     AndReg mask8, StoreOut, ShrAnd 8 mask8, StoreOut, ShrAnd 16 mask8, StoreOut, ShrReg 24,
     StoreOut]"

definition SIMD_fastunpack9_32 :: "m128 list \<Rightarrow> m128 list option" where
  "SIMD_fastunpack9_32 = run_plain_unpack
    [LoadFirst, AndReg mask9, StoreOut, ShrAnd 9 mask9, StoreOut, ShrAnd 18 mask9, StoreOut,
     ShrReg 27, LoadNext, OrAndShl mask4 9 4, StoreOut, ShrAnd 4 mask9, StoreOut, ShrAnd 13 mask9,
     StoreOut, ShrAnd 22 mask9, StoreOut, ShrReg 31, LoadNext, OrAndShl mask8 9 8, StoreOut,
     ShrAnd 8 mask9, StoreOut, ShrAnd 17 mask9, StoreOut, ShrReg 26, LoadNext, OrAndShl mask3 9 3,
     StoreOut, ShrAnd 3 mask9, StoreOut, ShrAnd 12 mask9, StoreOut, ShrAnd 21 mask9, StoreOut,
     ShrReg 30, LoadNext, OrAndShl mask7 9 7, StoreOut, ShrAnd 7 mask9, StoreOut, ShrAnd 16 mask9,
     StoreOut, ShrReg 25, LoadNext, OrAndShl mask2 9 2, StoreOut, ShrAnd 2 mask9, StoreOut,
     ShrAnd 11 mask9, StoreOut, ShrAnd 20 mask9, StoreOut, ShrReg 29, LoadNext, OrAndShl mask6 9 6,
     StoreOut, ShrAnd 6 mask9, StoreOut, ShrAnd 15 mask9, StoreOut, ShrReg 24, LoadNext,
     OrAndShl mask1 9 1, StoreOut, ShrAnd 1 mask9, StoreOut, ShrAnd 10 mask9, StoreOut,
     ShrAnd 19 mask9, StoreOut, ShrReg 28, LoadNext, OrAndShl mask5 9 5, StoreOut, ShrAnd 5 mask9,
     StoreOut, ShrAnd 14 mask9, StoreOut, ShrReg 23, StoreOut]"

definition SIMD_fastunpack10_32 :: "m128 list \<Rightarrow> m128 list option" where
  "SIMD_fastunpack10_32 = run_plain_unpack
    [LoadFirst, AndReg mask10, StoreOut, ShrAnd 10 mask10, StoreOut, ShrAnd 20 mask10, StoreOut,
     ShrReg 30, LoadNext, OrAndShl mask8 10 8, StoreOut, ShrAnd 8 mask10, StoreOut,
     ShrAnd 18 mask10, StoreOut, ShrReg 28, LoadNext, OrAndShl mask6 10 6, StoreOut,
     ShrAnd 6 mask10, StoreOut, ShrAnd 16 mask10, StoreOut, ShrReg 26, LoadNext,
     OrAndShl mask4 10 4, StoreOut, ShrAnd 4 mask10, StoreOut, ShrAnd 14 mask10, StoreOut,
     ShrReg 24, LoadNext, OrAndShl mask2 10 2, StoreOut, ShrAnd 2 mask10, StoreOut,
     ShrAnd 12 mask10, StoreOut, ShrReg 22, LoadNext, StoreOut, AndReg mask10, StoreOut,
     ShrAnd 10 mask10, StoreOut, ShrAnd 20 mask10, StoreOut, ShrReg 30, LoadNext,
     OrAndShl mask8 10 8, StoreOut, ShrAnd 8 mask10, StoreOut, ShrAnd 18 mask10, StoreOut,
     ShrReg 28, LoadNext, OrAndShl mask6 10 6, StoreOut, ShrAnd 6 mask10, StoreOut,
     ShrAnd 16 mask10, StoreOut, ShrReg 26, LoadNext, OrAndShl mask4 10 4, StoreOut,
     ShrAnd 4 mask10, StoreOut, ShrAnd 14 mask10, StoreOut, ShrReg 24, LoadNext,
     OrAndShl mask2 10 2, StoreOut, ShrAnd 2 mask10, StoreOut, ShrAnd 12 mask10, StoreOut,
     ShrReg 22, StoreOut]"

definition SIMD_fastunpack11_32 :: "m128 list \<Rightarrow> m128 list option" where
  "SIMD_fastunpack11_32 = run_plain_unpack
    [LoadFirst, AndReg mask11, StoreOut, ShrAnd 11 mask11, StoreOut, ShrReg 22, LoadNext,
     OrAndShl mask1 11 1, StoreOut, ShrAnd 1 mask11, StoreOut, ShrAnd 12 mask11, StoreOut,
     ShrReg 23, LoadNext, OrAndShl mask2 11 2, StoreOut, ShrAnd 2 mask11, StoreOut,
     ShrAnd 13 mask11, StoreOut, ShrReg 24, LoadNext, OrAndShl mask3 11 3, StoreOut,
     ShrAnd 3 mask11, StoreOut, ShrAnd 14 mask11, StoreOut, ShrReg 25, LoadNext,
     OrAndShl mask4 11 4, StoreOut, ShrAnd 4 mask11, StoreOut, ShrAnd 15 mask11, StoreOut,
     ShrReg 26, LoadNext, OrAndShl mask5 11 5, StoreOut, ShrAnd 5 mask11, StoreOut,
     ShrAnd 16 mask11, StoreOut, ShrReg 27, LoadNext, OrAndShl mask6 11 6, StoreOut,
     ShrAnd 6 mask11, StoreOut, ShrAnd 17 mask11, StoreOut, ShrReg 28, LoadNext,
     OrAndShl mask7 11 7, StoreOut, ShrAnd 7 mask11, StoreOut, ShrAnd 18 mask11, StoreOut,
     ShrReg 29, LoadNext, OrAndShl mask8 11 8, StoreOut, ShrAnd 8 mask11, StoreOut,
     ShrAnd 19 mask11, StoreOut, ShrReg 30, LoadNext, OrAndShl mask9 11 9, StoreOut,
     ShrAnd 9 mask11, StoreOut, ShrAnd 20 mask11, StoreOut, ShrReg 31, LoadNext,
     OrAndShl mask10 11 10, StoreOut, ShrAnd 10 mask11, StoreOut, ShrReg 21, StoreOut]"

definition SIMD_fastunpack12_32 :: "m128 list \<Rightarrow> m128 list option" where
  "SIMD_fastunpack12_32 = run_plain_unpack
    [LoadFirst, AndReg mask12, StoreOut, ShrAnd 12 mask12, StoreOut, ShrReg 24, LoadNext,
     OrAndShl mask4 12 4, StoreOut, ShrAnd 4 mask12, StoreOut, ShrAnd 16 mask12, StoreOut,
     ShrReg 28, LoadNext, OrAndShl mask8 12 8, StoreOut, ShrAnd 8 mask12, StoreOut, ShrReg 20,
     LoadNext, StoreOut, AndReg mask12, StoreOut, ShrAnd 12 mask12, StoreOut, ShrReg 24, LoadNext,
     OrAndShl mask4 12 4, StoreOut, ShrAnd 4 mask12, StoreOut, ShrAnd 16 mask12, StoreOut,
     ShrReg 28, LoadNext, OrAndShl mask8 12 8, StoreOut, ShrAnd 8 mask12, StoreOut, ShrReg 20,
     LoadNext, StoreOut, AndReg mask12, StoreOut, ShrAnd 12 mask12, StoreOut, ShrReg 24, LoadNext,
     OrAndShl mask4 12 4, StoreOut, ShrAnd 4 mask12, StoreOut, ShrAnd 16 mask12, StoreOut,
     ShrReg 28, LoadNext, OrAndShl mask8 12 8, StoreOut, ShrAnd 8 mask12, StoreOut, ShrReg 20,
     LoadNext, StoreOut, AndReg mask12, StoreOut, ShrAnd 12 mask12, StoreOut, ShrReg 24, LoadNext,
     OrAndShl mask4 12 4, StoreOut, ShrAnd 4 mask12, StoreOut, ShrAnd 16 mask12, StoreOut,
     ShrReg 28, LoadNext, OrAndShl mask8 12 8, StoreOut, ShrAnd 8 mask12, StoreOut, ShrReg 20,
     StoreOut]"

definition SIMD_fastunpack13_32 :: "m128 list \<Rightarrow> m128 list option" where
  "SIMD_fastunpack13_32 = run_plain_unpack
    [LoadFirst, AndReg mask13, StoreOut, ShrAnd 13 mask13, StoreOut, ShrReg 26, LoadNext,
     OrAndShl mask7 13 7, StoreOut, ShrAnd 7 mask13, StoreOut, ShrReg 20, LoadNext,
     OrAndShl mask1 13 1, StoreOut, ShrAnd 1 mask13, StoreOut, ShrAnd 14 mask13, StoreOut,
     ShrReg 27, LoadNext, OrAndShl mask8 13 8, StoreOut, ShrAnd 8 mask13, StoreOut, ShrReg 21,
     LoadNext, OrAndShl mask2 13 2, StoreOut, ShrAnd 2 mask13, StoreOut, ShrAnd 15 mask13,
     StoreOut, ShrReg 28, LoadNext, OrAndShl mask9 13 9, StoreOut, ShrAnd 9 mask13, StoreOut,
     ShrReg 22, LoadNext, OrAndShl mask3 13 3, StoreOut, ShrAnd 3 mask13, StoreOut,
     ShrAnd 16 mask13, StoreOut, ShrReg 29, LoadNext, OrAndShl mask10 13 10, StoreOut,
     ShrAnd 10 mask13, StoreOut, ShrReg 23, LoadNext, OrAndShl mask4 13 4, StoreOut,
     ShrAnd 4 mask13, StoreOut, ShrAnd 17 mask13, StoreOut, ShrReg 30, LoadNext,
     OrAndShl mask11 13 11, StoreOut, ShrAnd 11 mask13, StoreOut, ShrReg 24, LoadNext,
     OrAndShl mask5 13 5, StoreOut, ShrAnd 5 mask13, StoreOut, ShrAnd 18 mask13, StoreOut,
     ShrReg 31, LoadNext, OrAndShl mask12 13 12, StoreOut, ShrAnd 12 mask13, StoreOut, ShrReg 25,
     LoadNext, OrAndShl mask6 13 6, StoreOut, ShrAnd 6 mask13, StoreOut, ShrReg 19, StoreOut]"

definition SIMD_fastunpack14_32 :: "m128 list \<Rightarrow> m128 list option" where
  "SIMD_fastunpack14_32 = run_plain_unpack
    [LoadFirst, AndReg mask14, StoreOut, ShrAnd 14 mask14, StoreOut, ShrReg 28, LoadNext,
     OrAndShl mask10 14 10, StoreOut, ShrAnd 10 mask14, StoreOut, ShrReg 24, LoadNext,
     OrAndShl mask6 14 6, StoreOut, ShrAnd 6 mask14, StoreOut, ShrReg 20, LoadNext,
     OrAndShl mask2 14 2, StoreOut, ShrAnd 2 mask14, StoreOut, ShrAnd 16 mask14, StoreOut,
     ShrReg 30, LoadNext, OrAndShl mask12 14 12, StoreOut, ShrAnd 12 mask14, StoreOut, ShrReg 26,
     LoadNext, OrAndShl mask8 14 8, StoreOut, ShrAnd 8 mask14, StoreOut, ShrReg 22, LoadNext,
     OrAndShl mask4 14 4, StoreOut, ShrAnd 4 mask14, StoreOut, ShrReg 18, LoadNext, StoreOut,
     AndReg mask14, StoreOut, ShrAnd 14 mask14, StoreOut, ShrReg 28, LoadNext,
     OrAndShl mask10 14 10, StoreOut, ShrAnd 10 mask14, StoreOut, ShrReg 24, LoadNext,
     OrAndShl mask6 14 6, StoreOut, ShrAnd 6 mask14, StoreOut, ShrReg 20, LoadNext,
     OrAndShl mask2 14 2, StoreOut, ShrAnd 2 mask14, StoreOut, ShrAnd 16 mask14, StoreOut,
     ShrReg 30, LoadNext, OrAndShl mask12 14 12, StoreOut, ShrAnd 12 mask14, StoreOut, ShrReg 26,
     LoadNext, OrAndShl mask8 14 8, StoreOut, ShrAnd 8 mask14, StoreOut, ShrReg 22, LoadNext,
     OrAndShl mask4 14 4, StoreOut, ShrAnd 4 mask14, StoreOut, ShrReg 18, StoreOut]"

definition SIMD_fastunpack15_32 :: "m128 list \<Rightarrow> m128 list option" where
  "SIMD_fastunpack15_32 = run_plain_unpack
    [LoadFirst, AndReg mask15, StoreOut, ShrAnd 15 mask15, StoreOut, ShrReg 30, LoadNext,
     OrAndShl mask13 15 13, StoreOut, ShrAnd 13 mask15, StoreOut, ShrReg 28, LoadNext,
     OrAndShl mask11 15 11, StoreOut, ShrAnd 11 mask15, StoreOut, ShrReg 26, LoadNext,
     OrAndShl mask9 15 9, StoreOut, ShrAnd 9 mask15, StoreOut, ShrReg 24, LoadNext,
     OrAndShl mask7 15 7, StoreOut, ShrAnd 7 mask15, StoreOut, ShrReg 22, LoadNext,
     OrAndShl mask5 15 5, StoreOut, ShrAnd 5 mask15, StoreOut, ShrReg 20, LoadNext,
     OrAndShl mask3 15 3, StoreOut, ShrAnd 3 mask15, StoreOut, ShrReg 18, LoadNext,
     OrAndShl mask1 15 1, StoreOut, ShrAnd 1 mask15, StoreOut, ShrAnd 16 mask15, StoreOut,
     ShrReg 31, LoadNext, OrAndShl mask14 15 14, StoreOut, ShrAnd 14 mask15, StoreOut, ShrReg 29,
     LoadNext, OrAndShl mask12 15 12, StoreOut, ShrAnd 12 mask15, StoreOut, ShrReg 27, LoadNext,
     OrAndShl mask10 15 10, StoreOut, ShrAnd 10 mask15, StoreOut, ShrReg 25, LoadNext,
     OrAndShl mask8 15 8, StoreOut, ShrAnd 8 mask15, StoreOut, ShrReg 23, LoadNext,
     OrAndShl mask6 15 6, StoreOut, ShrAnd 6 mask15, StoreOut, ShrReg 21, LoadNext,
     OrAndShl mask4 15 4, StoreOut, ShrAnd 4 mask15, StoreOut, ShrReg 19, LoadNext,
     OrAndShl mask2 15 2, StoreOut, ShrAnd 2 mask15, StoreOut, ShrReg 17, StoreOut]"

definition SIMD_fastunpack16_32 :: "m128 list \<Rightarrow> m128 list option" where
  "SIMD_fastunpack16_32 = run_plain_unpack
    [LoadFirst, AndReg mask16, StoreOut, ShrReg 16, LoadNext, StoreOut, AndReg mask16, StoreOut,
     ShrReg 16, LoadNext, StoreOut, AndReg mask16, StoreOut, ShrReg 16, LoadNext, StoreOut,
     AndReg mask16, StoreOut, ShrReg 16, LoadNext, StoreOut, AndReg mask16, StoreOut, ShrReg 16,
     LoadNext, StoreOut, AndReg mask16, StoreOut, ShrReg 16, LoadNext, StoreOut, AndReg mask16,
     StoreOut, ShrReg 16, LoadNext, StoreOut, AndReg mask16, StoreOut, ShrReg 16, LoadNext,
     StoreOut, AndReg mask16, StoreOut, ShrReg 16, LoadNext, StoreOut, AndReg mask16, StoreOut,
     ShrReg 16, LoadNext, StoreOut, AndReg mask16, StoreOut, ShrReg 16, LoadNext, StoreOut,
     AndReg mask16, StoreOut, ShrReg 16, LoadNext, StoreOut, AndReg mask16, StoreOut, ShrReg 16,
     LoadNext, StoreOut, AndReg mask16, StoreOut, ShrReg 16, LoadNext, StoreOut, AndReg mask16,
     StoreOut, ShrReg 16, LoadNext, StoreOut, AndReg mask16, StoreOut, ShrReg 16, StoreOut]"

definition SIMD_fastunpack17_32 :: "m128 list \<Rightarrow> m128 list option" where
  "SIMD_fastunpack17_32 = run_plain_unpack
    [LoadFirst, AndReg mask17, StoreOut, ShrReg 17, LoadNext, OrAndShl mask2 17 2, StoreOut,
     ShrAnd 2 mask17, StoreOut, ShrReg 19, LoadNext, OrAndShl mask4 17 4, StoreOut,
     ShrAnd 4 mask17, StoreOut, ShrReg 21, LoadNext, OrAndShl mask6 17 6, StoreOut,
     ShrAnd 6 mask17, StoreOut, ShrReg 23, LoadNext, OrAndShl mask8 17 8, StoreOut,
     ShrAnd 8 mask17, StoreOut, ShrReg 25, LoadNext, OrAndShl mask10 17 10, StoreOut,
     ShrAnd 10 mask17, StoreOut, ShrReg 27, LoadNext, OrAndShl mask12 17 12, StoreOut,
     ShrAnd 12 mask17, StoreOut, ShrReg 29, LoadNext, OrAndShl mask14 17 14, StoreOut,
     ShrAnd 14 mask17, StoreOut, ShrReg 31, LoadNext, OrAndShl mask16 17 16, StoreOut, ShrReg 16,
     LoadNext, OrAndShl mask1 17 1, StoreOut, ShrAnd 1 mask17, StoreOut, ShrReg 18, LoadNext,
     OrAndShl mask3 17 3, StoreOut, ShrAnd 3 mask17, StoreOut, ShrReg 20, LoadNext,
     OrAndShl mask5 17 5, StoreOut, ShrAnd 5 mask17, StoreOut, ShrReg 22, LoadNext,
     OrAndShl mask7 17 7, StoreOut, ShrAnd 7 mask17, StoreOut, ShrReg 24, LoadNext,
     OrAndShl mask9 17 9, StoreOut, ShrAnd 9 mask17, StoreOut, ShrReg 26, LoadNext,
     OrAndShl mask11 17 11, StoreOut, ShrAnd 11 mask17, StoreOut, ShrReg 28, LoadNext,
     OrAndShl mask13 17 13, StoreOut, ShrAnd 13 mask17, StoreOut, ShrReg 30, LoadNext,
     OrAndShl mask15 17 15, StoreOut, ShrReg 15, StoreOut]"

definition SIMD_fastunpack18_32 :: "m128 list \<Rightarrow> m128 list option" where
  "SIMD_fastunpack18_32 = run_plain_unpack
    [LoadFirst, AndReg mask18, StoreOut, ShrReg 18, LoadNext, OrAndShl mask4 18 4, StoreOut,
     ShrAnd 4 mask18, StoreOut, ShrReg 22, LoadNext, OrAndShl mask8 18 8, StoreOut,
     ShrAnd 8 mask18, StoreOut, ShrReg 26, LoadNext, OrAndShl mask12 18 12, StoreOut,
     ShrAnd 12 mask18, StoreOut, ShrReg 30, LoadNext, OrAndShl mask16 18 16, StoreOut, ShrReg 16,
     LoadNext, OrAndShl mask2 18 2, StoreOut, ShrAnd 2 mask18, StoreOut, ShrReg 20, LoadNext,
     OrAndShl mask6 18 6, StoreOut, ShrAnd 6 mask18, StoreOut, ShrReg 24, LoadNext,
     OrAndShl mask10 18 10, StoreOut, ShrAnd 10 mask18, StoreOut, ShrReg 28, LoadNext,
     OrAndShl mask14 18 14, StoreOut, ShrReg 14, LoadNext, StoreOut, AndReg mask18, StoreOut,
     ShrReg 18, LoadNext, OrAndShl mask4 18 4, StoreOut, ShrAnd 4 mask18, StoreOut, ShrReg 22,
     LoadNext, OrAndShl mask8 18 8, StoreOut, ShrAnd 8 mask18, StoreOut, ShrReg 26, LoadNext,
     OrAndShl mask12 18 12, StoreOut, ShrAnd 12 mask18, StoreOut, ShrReg 30, LoadNext,
     OrAndShl mask16 18 16, StoreOut, ShrReg 16, LoadNext, OrAndShl mask2 18 2, StoreOut,
     ShrAnd 2 mask18, StoreOut, ShrReg 20, LoadNext, OrAndShl mask6 18 6, StoreOut,
     ShrAnd 6 mask18, StoreOut, ShrReg 24, LoadNext, OrAndShl mask10 18 10, StoreOut,
     ShrAnd 10 mask18, StoreOut, ShrReg 28, LoadNext, OrAndShl mask14 18 14, StoreOut, ShrReg 14,
     StoreOut]"

definition SIMD_fastunpack19_32 :: "m128 list \<Rightarrow> m128 list option" where
  "SIMD_fastunpack19_32 = run_plain_unpack
    [LoadFirst, AndReg mask19, StoreOut, ShrReg 19, LoadNext, OrAndShl mask6 19 6, StoreOut,
     ShrAnd 6 mask19, StoreOut, ShrReg 25, LoadNext, OrAndShl mask12 19 12, StoreOut,
     ShrAnd 12 mask19, StoreOut, ShrReg 31, LoadNext, OrAndShl mask18 19 18, StoreOut, ShrReg 18,
     LoadNext, OrAndShl mask5 19 5, StoreOut, ShrAnd 5 mask19, StoreOut, ShrReg 24, LoadNext,
     OrAndShl mask11 19 11, StoreOut, ShrAnd 11 mask19, StoreOut, ShrReg 30, LoadNext,
     OrAndShl mask17 19 17, StoreOut, ShrReg 17, LoadNext, OrAndShl mask4 19 4, StoreOut,
     ShrAnd 4 mask19, StoreOut, ShrReg 23, LoadNext, OrAndShl mask10 19 10, StoreOut,
     ShrAnd 10 mask19, StoreOut, ShrReg 29, LoadNext, OrAndShl mask16 19 16, StoreOut, ShrReg 16,
     LoadNext, OrAndShl mask3 19 3, StoreOut, ShrAnd 3 mask19, StoreOut, ShrReg 22, LoadNext,
     OrAndShl mask9 19 9, StoreOut, ShrAnd 9 mask19, StoreOut, ShrReg 28, LoadNext,
     OrAndShl mask15 19 15, StoreOut, ShrReg 15, LoadNext, OrAndShl mask2 19 2, StoreOut,
     ShrAnd 2 mask19, StoreOut, ShrReg 21, LoadNext, OrAndShl mask8 19 8, StoreOut,
     ShrAnd 8 mask19, StoreOut, ShrReg 27, LoadNext, OrAndShl mask14 19 14, StoreOut, ShrReg 14,
     LoadNext, OrAndShl mask1 19 1, StoreOut, ShrAnd 1 mask19, StoreOut, ShrReg 20, LoadNext,
     OrAndShl mask7 19 7, StoreOut, ShrAnd 7 mask19, StoreOut, ShrReg 26, LoadNext,
     OrAndShl mask13 19 13, StoreOut, ShrReg 13, StoreOut]"

definition SIMD_fastunpack20_32 :: "m128 list \<Rightarrow> m128 list option" where
  "SIMD_fastunpack20_32 = run_plain_unpack
    [LoadFirst, AndReg mask20, StoreOut, ShrReg 20, LoadNext, OrAndShl mask8 20 8, StoreOut,
     ShrAnd 8 mask20, StoreOut, ShrReg 28, LoadNext, OrAndShl mask16 20 16, StoreOut, ShrReg 16,
     LoadNext, OrAndShl mask4 20 4, StoreOut, ShrAnd 4 mask20, StoreOut, ShrReg 24, LoadNext,
     OrAndShl mask12 20 12, StoreOut, ShrReg 12, LoadNext, StoreOut, AndReg mask20, StoreOut,
     ShrReg 20, LoadNext, OrAndShl mask8 20 8, StoreOut, ShrAnd 8 mask20, StoreOut, ShrReg 28,
     LoadNext, OrAndShl mask16 20 16, StoreOut, ShrReg 16, LoadNext, OrAndShl mask4 20 4, StoreOut,
     ShrAnd 4 mask20, StoreOut, ShrReg 24, LoadNext, OrAndShl mask12 20 12, StoreOut, ShrReg 12,
     LoadNext, StoreOut, AndReg mask20, StoreOut, ShrReg 20, LoadNext, OrAndShl mask8 20 8,
     StoreOut, ShrAnd 8 mask20, StoreOut, ShrReg 28, LoadNext, OrAndShl mask16 20 16, StoreOut,
     ShrReg 16, LoadNext, OrAndShl mask4 20 4, StoreOut, ShrAnd 4 mask20, StoreOut, ShrReg 24,
     LoadNext, OrAndShl mask12 20 12, StoreOut, ShrReg 12, LoadNext, StoreOut, AndReg mask20,
     StoreOut, ShrReg 20, LoadNext, OrAndShl mask8 20 8, StoreOut, ShrAnd 8 mask20, StoreOut,
     ShrReg 28, LoadNext, OrAndShl mask16 20 16, StoreOut, ShrReg 16, LoadNext,
     OrAndShl mask4 20 4, StoreOut, ShrAnd 4 mask20, StoreOut, ShrReg 24, LoadNext,
     OrAndShl mask12 20 12, StoreOut, ShrReg 12, StoreOut]"

definition SIMD_fastunpack21_32 :: "m128 list \<Rightarrow> m128 list option" where
  "SIMD_fastunpack21_32 = run_plain_unpack
    [LoadFirst, AndReg mask21, StoreOut, ShrReg 21, LoadNext, OrAndShl mask10 21 10, StoreOut,
     ShrAnd 10 mask21, StoreOut, ShrReg 31, LoadNext, OrAndShl mask20 21 20, StoreOut, ShrReg 20,
     LoadNext, OrAndShl mask9 21 9, StoreOut, ShrAnd 9 mask21, StoreOut, ShrReg 30, LoadNext,
     OrAndShl mask19 21 19, StoreOut, ShrReg 19, LoadNext, OrAndShl mask8 21 8, StoreOut,
     ShrAnd 8 mask21, StoreOut, ShrReg 29, LoadNext, OrAndShl mask18 21 18, StoreOut, ShrReg 18,
     LoadNext, OrAndShl mask7 21 7, StoreOut, ShrAnd 7 mask21, StoreOut, ShrReg 28, LoadNext,
     OrAndShl mask17 21 17, StoreOut, ShrReg 17, LoadNext, OrAndShl mask6 21 6, StoreOut,
     ShrAnd 6 mask21, StoreOut, ShrReg 27, LoadNext, OrAndShl mask16 21 16, StoreOut, ShrReg 16,
     LoadNext, OrAndShl mask5 21 5, StoreOut, ShrAnd 5 mask21, StoreOut, ShrReg 26, LoadNext,
     OrAndShl mask15 21 15, StoreOut, ShrReg 15, LoadNext, OrAndShl mask4 21 4, StoreOut,
     ShrAnd 4 mask21, StoreOut, ShrReg 25, LoadNext, OrAndShl mask14 21 14, StoreOut, ShrReg 14,
     LoadNext, OrAndShl mask3 21 3, StoreOut, ShrAnd 3 mask21, StoreOut, ShrReg 24, LoadNext,
     OrAndShl mask13 21 13, StoreOut, ShrReg 13, LoadNext, OrAndShl mask2 21 2, StoreOut,
     ShrAnd 2 mask21, StoreOut, ShrReg 23, LoadNext, OrAndShl mask12 21 12, StoreOut, ShrReg 12,
     LoadNext, OrAndShl mask1 21 1, StoreOut, ShrAnd 1 mask21, StoreOut, ShrReg 22, LoadNext,
     OrAndShl mask11 21 11, StoreOut, ShrReg 11, StoreOut]"

definition SIMD_fastunpack22_32 :: "m128 list \<Rightarrow> m128 list option" where
  "SIMD_fastunpack22_32 = run_plain_unpack
    [LoadFirst, AndReg mask22, StoreOut, ShrReg 22, LoadNext, OrAndShl mask12 22 12, StoreOut,
     ShrReg 12, LoadNext, OrAndShl mask2 22 2, StoreOut, ShrAnd 2 mask22, StoreOut, ShrReg 24,
     LoadNext, OrAndShl mask14 22 14, StoreOut, ShrReg 14, LoadNext, OrAndShl mask4 22 4, StoreOut,
     ShrAnd 4 mask22, StoreOut, ShrReg 26, LoadNext, OrAndShl mask16 22 16, StoreOut, ShrReg 16,
     LoadNext, OrAndShl mask6 22 6, StoreOut, ShrAnd 6 mask22, StoreOut, ShrReg 28, LoadNext,
     OrAndShl mask18 22 18, StoreOut, ShrReg 18, LoadNext, OrAndShl mask8 22 8, StoreOut,
     ShrAnd 8 mask22, StoreOut, ShrReg 30, LoadNext, OrAndShl mask20 22 20, StoreOut, ShrReg 20,
     LoadNext, OrAndShl mask10 22 10, StoreOut, ShrReg 10, LoadNext, StoreOut, AndReg mask22,
     StoreOut, ShrReg 22, LoadNext, OrAndShl mask12 22 12, StoreOut, ShrReg 12, LoadNext,
     OrAndShl mask2 22 2, StoreOut, ShrAnd 2 mask22, StoreOut, ShrReg 24, LoadNext,
     OrAndShl mask14 22 14, StoreOut, ShrReg 14, LoadNext, OrAndShl mask4 22 4, StoreOut,
     ShrAnd 4 mask22, StoreOut, ShrReg 26, LoadNext, OrAndShl mask16 22 16, StoreOut, ShrReg 16,
     LoadNext, OrAndShl mask6 22 6, StoreOut, ShrAnd 6 mask22, StoreOut, ShrReg 28, LoadNext,
     OrAndShl mask18 22 18, StoreOut, ShrReg 18, LoadNext, OrAndShl mask8 22 8, StoreOut,
     ShrAnd 8 mask22, StoreOut, ShrReg 30, LoadNext, OrAndShl mask20 22 20, StoreOut, ShrReg 20,
     LoadNext, OrAndShl mask10 22 10, StoreOut, ShrReg 10, StoreOut]"

definition SIMD_fastunpack23_32 :: "m128 list \<Rightarrow> m128 list option" where
  "SIMD_fastunpack23_32 = run_plain_unpack
    [LoadFirst, AndReg mask23, StoreOut, ShrReg 23, LoadNext, OrAndShl mask14 23 14, StoreOut,
     ShrReg 14, LoadNext, OrAndShl mask5 23 5, StoreOut, ShrAnd 5 mask23, StoreOut, ShrReg 28,
     LoadNext, OrAndShl mask19 23 19, StoreOut, ShrReg 19, LoadNext, OrAndShl mask10 23 10,
     StoreOut, ShrReg 10, LoadNext, OrAndShl mask1 23 1, StoreOut, ShrAnd 1 mask23, StoreOut,
     ShrReg 24, LoadNext, OrAndShl mask15 23 15, StoreOut, ShrReg 15, LoadNext,
     OrAndShl mask6 23 6, StoreOut, ShrAnd 6 mask23, StoreOut, ShrReg 29, LoadNext,
     OrAndShl mask20 23 20, StoreOut, ShrReg 20, LoadNext, OrAndShl mask11 23 11, StoreOut,
     ShrReg 11, LoadNext, OrAndShl mask2 23 2, StoreOut, ShrAnd 2 mask23, StoreOut, ShrReg 25,
     LoadNext, OrAndShl mask16 23 16, StoreOut, ShrReg 16, LoadNext, OrAndShl mask7 23 7, StoreOut,
     ShrAnd 7 mask23, StoreOut, ShrReg 30, LoadNext, OrAndShl mask21 23 21, StoreOut, ShrReg 21,
     LoadNext, OrAndShl mask12 23 12, StoreOut, ShrReg 12, LoadNext, OrAndShl mask3 23 3, StoreOut,
     ShrAnd 3 mask23, StoreOut, ShrReg 26, LoadNext, OrAndShl mask17 23 17, StoreOut, ShrReg 17,
     LoadNext, OrAndShl mask8 23 8, StoreOut, ShrAnd 8 mask23, StoreOut, ShrReg 31, LoadNext,
     OrAndShl mask22 23 22, StoreOut, ShrReg 22, LoadNext, OrAndShl mask13 23 13, StoreOut,
     ShrReg 13, LoadNext, OrAndShl mask4 23 4, StoreOut, ShrAnd 4 mask23, StoreOut, ShrReg 27,
     LoadNext, OrAndShl mask18 23 18, StoreOut, ShrReg 18, LoadNext, OrAndShl mask9 23 9, StoreOut,
     ShrReg 9, StoreOut]"

definition SIMD_fastunpack24_32 :: "m128 list \<Rightarrow> m128 list option" where
  "SIMD_fastunpack24_32 = run_plain_unpack
    [LoadFirst, AndReg mask24, StoreOut, ShrReg 24, LoadNext, OrAndShl mask16 24 16, StoreOut,
     ShrReg 16, LoadNext, OrAndShl mask8 24 8, StoreOut, ShrReg 8, LoadNext, StoreOut,
     AndReg mask24, StoreOut, ShrReg 24, LoadNext, OrAndShl mask16 24 16, StoreOut, ShrReg 16,
     LoadNext, OrAndShl mask8 24 8, StoreOut, ShrReg 8, LoadNext, StoreOut, AndReg mask24,
     StoreOut, ShrReg 24, LoadNext, OrAndShl mask16 24 16, StoreOut, ShrReg 16, LoadNext,
     OrAndShl mask8 24 8, StoreOut, ShrReg 8, LoadNext, StoreOut, AndReg mask24, StoreOut,
     ShrReg 24, LoadNext, OrAndShl mask16 24 16, StoreOut, ShrReg 16, LoadNext,
     OrAndShl mask8 24 8, StoreOut, ShrReg 8, LoadNext, StoreOut, AndReg mask24, StoreOut,
     ShrReg 24, LoadNext, OrAndShl mask16 24 16, StoreOut, ShrReg 16, LoadNext,
     OrAndShl mask8 24 8, StoreOut, ShrReg 8, LoadNext, StoreOut, AndReg mask24, StoreOut,
     ShrReg 24, LoadNext, OrAndShl mask16 24 16, StoreOut, ShrReg 16, LoadNext,
     OrAndShl mask8 24 8, StoreOut, ShrReg 8, LoadNext, StoreOut, AndReg mask24, StoreOut,
     ShrReg 24, LoadNext, OrAndShl mask16 24 16, StoreOut, ShrReg 16, LoadNext,
     OrAndShl mask8 24 8, StoreOut, ShrReg 8, LoadNext, StoreOut, AndReg mask24, StoreOut,
     ShrReg 24, LoadNext, OrAndShl mask16 24 16, StoreOut, ShrReg 16, LoadNext,
     OrAndShl mask8 24 8, StoreOut, ShrReg 8, StoreOut]"

definition SIMD_fastunpack25_32 :: "m128 list \<Rightarrow> m128 list option" where
  "SIMD_fastunpack25_32 = run_plain_unpack
    [LoadFirst, AndReg mask25, StoreOut, ShrReg 25, LoadNext, OrAndShl mask18 25 18, StoreOut,
     ShrReg 18, LoadNext, OrAndShl mask11 25 11, StoreOut, ShrReg 11, LoadNext,
     OrAndShl mask4 25 4, StoreOut, ShrAnd 4 mask25, StoreOut, ShrReg 29, LoadNext,
     OrAndShl mask22 25 22, StoreOut, ShrReg 22, LoadNext, OrAndShl mask15 25 15, StoreOut,
     ShrReg 15, LoadNext, OrAndShl mask8 25 8, StoreOut, ShrReg 8, LoadNext, OrAndShl mask1 25 1,
     StoreOut, ShrAnd 1 mask25, StoreOut, ShrReg 26, LoadNext, OrAndShl mask19 25 19, StoreOut,
     ShrReg 19, LoadNext, OrAndShl mask12 25 12, StoreOut, ShrReg 12, LoadNext,
     OrAndShl mask5 25 5, StoreOut, ShrAnd 5 mask25, StoreOut, ShrReg 30, LoadNext,
     OrAndShl mask23 25 23, StoreOut, ShrReg 23, LoadNext, OrAndShl mask16 25 16, StoreOut,
     ShrReg 16, LoadNext, OrAndShl mask9 25 9, StoreOut, ShrReg 9, LoadNext, OrAndShl mask2 25 2,
     StoreOut, ShrAnd 2 mask25, StoreOut, ShrReg 27, LoadNext, OrAndShl mask20 25 20, StoreOut,
     ShrReg 20, LoadNext, OrAndShl mask13 25 13, StoreOut, ShrReg 13, LoadNext,
     OrAndShl mask6 25 6, StoreOut, ShrAnd 6 mask25, StoreOut, ShrReg 31, LoadNext,
     OrAndShl mask24 25 24, StoreOut, ShrReg 24, LoadNext, OrAndShl mask17 25 17, StoreOut,
     ShrReg 17, LoadNext, OrAndShl mask10 25 10, StoreOut, ShrReg 10, LoadNext,
     OrAndShl mask3 25 3, StoreOut, ShrAnd 3 mask25, StoreOut, ShrReg 28, LoadNext,
     OrAndShl mask21 25 21, StoreOut, ShrReg 21, LoadNext, OrAndShl mask14 25 14, StoreOut,
     ShrReg 14, LoadNext, OrAndShl mask7 25 7, StoreOut, ShrReg 7, StoreOut]"

definition SIMD_fastunpack26_32 :: "m128 list \<Rightarrow> m128 list option" where
  "SIMD_fastunpack26_32 = run_plain_unpack
    [LoadFirst, AndReg mask26, StoreOut, ShrReg 26, LoadNext, OrAndShl mask20 26 20, StoreOut,
     ShrReg 20, LoadNext, OrAndShl mask14 26 14, StoreOut, ShrReg 14, LoadNext,
     OrAndShl mask8 26 8, StoreOut, ShrReg 8, LoadNext, OrAndShl mask2 26 2, StoreOut,
     ShrAnd 2 mask26, StoreOut, ShrReg 28, LoadNext, OrAndShl mask22 26 22, StoreOut, ShrReg 22,
     LoadNext, OrAndShl mask16 26 16, StoreOut, ShrReg 16, LoadNext, OrAndShl mask10 26 10,
     StoreOut, ShrReg 10, LoadNext, OrAndShl mask4 26 4, StoreOut, ShrAnd 4 mask26, StoreOut,
     ShrReg 30, LoadNext, OrAndShl mask24 26 24, StoreOut, ShrReg 24, LoadNext,
     OrAndShl mask18 26 18, StoreOut, ShrReg 18, LoadNext, OrAndShl mask12 26 12, StoreOut,
     ShrReg 12, LoadNext, OrAndShl mask6 26 6, StoreOut, ShrReg 6, LoadNext, StoreOut,
     AndReg mask26, StoreOut, ShrReg 26, LoadNext, OrAndShl mask20 26 20, StoreOut, ShrReg 20,
     LoadNext, OrAndShl mask14 26 14, StoreOut, ShrReg 14, LoadNext, OrAndShl mask8 26 8, StoreOut,
     ShrReg 8, LoadNext, OrAndShl mask2 26 2, StoreOut, ShrAnd 2 mask26, StoreOut, ShrReg 28,
     LoadNext, OrAndShl mask22 26 22, StoreOut, ShrReg 22, LoadNext, OrAndShl mask16 26 16,
     StoreOut, ShrReg 16, LoadNext, OrAndShl mask10 26 10, StoreOut, ShrReg 10, LoadNext,
     OrAndShl mask4 26 4, StoreOut, ShrAnd 4 mask26, StoreOut, ShrReg 30, LoadNext,
     OrAndShl mask24 26 24, StoreOut, ShrReg 24, LoadNext, OrAndShl mask18 26 18, StoreOut,
     ShrReg 18, LoadNext, OrAndShl mask12 26 12, StoreOut, ShrReg 12, LoadNext,
     OrAndShl mask6 26 6, StoreOut, ShrReg 6, StoreOut]"

definition SIMD_fastunpack27_32 :: "m128 list \<Rightarrow> m128 list option" where
  "SIMD_fastunpack27_32 = run_plain_unpack
    [LoadFirst, AndReg mask27, StoreOut, ShrReg 27, LoadNext, OrAndShl mask22 27 22, StoreOut,
     ShrReg 22, LoadNext, OrAndShl mask17 27 17, StoreOut, ShrReg 17, LoadNext,
     OrAndShl mask12 27 12, StoreOut, ShrReg 12, LoadNext, OrAndShl mask7 27 7, StoreOut, ShrReg 7,
     LoadNext, OrAndShl mask2 27 2, StoreOut, ShrAnd 2 mask27, StoreOut, ShrReg 29, LoadNext,
     OrAndShl mask24 27 24, StoreOut, ShrReg 24, LoadNext, OrAndShl mask19 27 19, StoreOut,
     ShrReg 19, LoadNext, OrAndShl mask14 27 14, StoreOut, ShrReg 14, LoadNext,
     OrAndShl mask9 27 9, StoreOut, ShrReg 9, LoadNext, OrAndShl mask4 27 4, StoreOut,
     ShrAnd 4 mask27, StoreOut, ShrReg 31, LoadNext, OrAndShl mask26 27 26, StoreOut, ShrReg 26,
     LoadNext, OrAndShl mask21 27 21, StoreOut, ShrReg 21, LoadNext, OrAndShl mask16 27 16,
     StoreOut, ShrReg 16, LoadNext, OrAndShl mask11 27 11, StoreOut, ShrReg 11, LoadNext,
     OrAndShl mask6 27 6, StoreOut, ShrReg 6, LoadNext, OrAndShl mask1 27 1, StoreOut,
     ShrAnd 1 mask27, StoreOut, ShrReg 28, LoadNext, OrAndShl mask23 27 23, StoreOut, ShrReg 23,
     LoadNext, OrAndShl mask18 27 18, StoreOut, ShrReg 18, LoadNext, OrAndShl mask13 27 13,
     StoreOut, ShrReg 13, LoadNext, OrAndShl mask8 27 8, StoreOut, ShrReg 8, LoadNext,
     OrAndShl mask3 27 3, StoreOut, ShrAnd 3 mask27, StoreOut, ShrReg 30, LoadNext,
     OrAndShl mask25 27 25, StoreOut, ShrReg 25, LoadNext, OrAndShl mask20 27 20, StoreOut,
     ShrReg 20, LoadNext, OrAndShl mask15 27 15, StoreOut, ShrReg 15, LoadNext,
     OrAndShl mask10 27 10, StoreOut, ShrReg 10, LoadNext, OrAndShl mask5 27 5, StoreOut, ShrReg 5,
     StoreOut]"

definition SIMD_fastunpack28_32 :: "m128 list \<Rightarrow> m128 list option" where
  "SIMD_fastunpack28_32 = run_plain_unpack
    [LoadFirst, AndReg mask28, StoreOut, ShrReg 28, LoadNext, OrAndShl mask24 28 24, StoreOut,
     ShrReg 24, LoadNext, OrAndShl mask20 28 20, StoreOut, ShrReg 20, LoadNext,
     OrAndShl mask16 28 16, StoreOut, ShrReg 16, LoadNext, OrAndShl mask12 28 12, StoreOut,
     ShrReg 12, LoadNext, OrAndShl mask8 28 8, StoreOut, ShrReg 8, LoadNext, OrAndShl mask4 28 4,
     StoreOut, ShrReg 4, LoadNext, StoreOut, AndReg mask28, StoreOut, ShrReg 28, LoadNext,
     OrAndShl mask24 28 24, StoreOut, ShrReg 24, LoadNext, OrAndShl mask20 28 20, StoreOut,
     ShrReg 20, LoadNext, OrAndShl mask16 28 16, StoreOut, ShrReg 16, LoadNext,
     OrAndShl mask12 28 12, StoreOut, ShrReg 12, LoadNext, OrAndShl mask8 28 8, StoreOut, ShrReg 8,
     LoadNext, OrAndShl mask4 28 4, StoreOut, ShrReg 4, LoadNext, StoreOut, AndReg mask28,
     StoreOut, ShrReg 28, LoadNext, OrAndShl mask24 28 24, StoreOut, ShrReg 24, LoadNext,
     OrAndShl mask20 28 20, StoreOut, ShrReg 20, LoadNext, OrAndShl mask16 28 16, StoreOut,
     ShrReg 16, LoadNext, OrAndShl mask12 28 12, StoreOut, ShrReg 12, LoadNext,
     OrAndShl mask8 28 8, StoreOut, ShrReg 8, LoadNext, OrAndShl mask4 28 4, StoreOut, ShrReg 4,
     LoadNext, StoreOut, AndReg mask28, StoreOut, ShrReg 28, LoadNext, OrAndShl mask24 28 24,
     StoreOut, ShrReg 24, LoadNext, OrAndShl mask20 28 20, StoreOut, ShrReg 20, LoadNext,
     OrAndShl mask16 28 16, StoreOut, ShrReg 16, LoadNext, OrAndShl mask12 28 12, StoreOut,
     ShrReg 12, LoadNext, OrAndShl mask8 28 8, StoreOut, ShrReg 8, LoadNext, OrAndShl mask4 28 4,
     StoreOut, ShrReg 4, StoreOut]"

definition SIMD_fastunpack29_32 :: "m128 list \<Rightarrow> m128 list option" where
  "SIMD_fastunpack29_32 = run_plain_unpack
    [LoadFirst, AndReg mask29, StoreOut, ShrReg 29, LoadNext, OrAndShl mask26 29 26, StoreOut,
     ShrReg 26, LoadNext, OrAndShl mask23 29 23, StoreOut, ShrReg 23, LoadNext,
     OrAndShl mask20 29 20, StoreOut, ShrReg 20, LoadNext, OrAndShl mask17 29 17, StoreOut,
     ShrReg 17, LoadNext, OrAndShl mask14 29 14, StoreOut, ShrReg 14, LoadNext,
     OrAndShl mask11 29 11, StoreOut, ShrReg 11, LoadNext, OrAndShl mask8 29 8, StoreOut, ShrReg 8,
     LoadNext, OrAndShl mask5 29 5, StoreOut, ShrReg 5, LoadNext, OrAndShl mask2 29 2, StoreOut,
     ShrAnd 2 mask29, StoreOut, ShrReg 31, LoadNext, OrAndShl mask28 29 28, StoreOut, ShrReg 28,
     LoadNext, OrAndShl mask25 29 25, StoreOut, ShrReg 25, LoadNext, OrAndShl mask22 29 22,
     StoreOut, ShrReg 22, LoadNext, OrAndShl mask19 29 19, StoreOut, ShrReg 19, LoadNext,
     OrAndShl mask16 29 16, StoreOut, ShrReg 16, LoadNext, OrAndShl mask13 29 13, StoreOut,
     ShrReg 13, LoadNext, OrAndShl mask10 29 10, StoreOut, ShrReg 10, LoadNext,
     OrAndShl mask7 29 7, StoreOut, ShrReg 7, LoadNext, OrAndShl mask4 29 4, StoreOut, ShrReg 4,
     LoadNext, OrAndShl mask1 29 1, StoreOut, ShrAnd 1 mask29, StoreOut, ShrReg 30, LoadNext,
     OrAndShl mask27 29 27, StoreOut, ShrReg 27, LoadNext, OrAndShl mask24 29 24, StoreOut,
     ShrReg 24, LoadNext, OrAndShl mask21 29 21, StoreOut, ShrReg 21, LoadNext,
     OrAndShl mask18 29 18, StoreOut, ShrReg 18, LoadNext, OrAndShl mask15 29 15, StoreOut,
     ShrReg 15, LoadNext, OrAndShl mask12 29 12, StoreOut, ShrReg 12, LoadNext,
     OrAndShl mask9 29 9, StoreOut, ShrReg 9, LoadNext, OrAndShl mask6 29 6, StoreOut, ShrReg 6,
     LoadNext, OrAndShl mask3 29 3, StoreOut, ShrReg 3, StoreOut]"

definition SIMD_fastunpack30_32 :: "m128 list \<Rightarrow> m128 list option" where
  "SIMD_fastunpack30_32 = run_plain_unpack
    [LoadFirst, AndReg mask30, StoreOut, ShrReg 30, LoadNext, OrAndShl mask28 30 28, StoreOut,
     ShrReg 28, LoadNext, OrAndShl mask26 30 26, StoreOut, ShrReg 26, LoadNext,
     OrAndShl mask24 30 24, StoreOut, ShrReg 24, LoadNext, OrAndShl mask22 30 22, StoreOut,
     ShrReg 22, LoadNext, OrAndShl mask20 30 20, StoreOut, ShrReg 20, LoadNext,
     OrAndShl mask18 30 18, StoreOut, ShrReg 18, LoadNext, OrAndShl mask16 30 16, StoreOut,
     ShrReg 16, LoadNext, OrAndShl mask14 30 14, StoreOut, ShrReg 14, LoadNext,
     OrAndShl mask12 30 12, StoreOut, ShrReg 12, LoadNext, OrAndShl mask10 30 10, StoreOut,
     ShrReg 10, LoadNext, OrAndShl mask8 30 8, StoreOut, ShrReg 8, LoadNext, OrAndShl mask6 30 6,
     StoreOut, ShrReg 6, LoadNext, OrAndShl mask4 30 4, StoreOut, ShrReg 4, LoadNext,
     OrAndShl mask2 30 2, StoreOut, ShrReg 2, LoadNext, StoreOut, AndReg mask30, StoreOut,
     ShrReg 30, LoadNext, OrAndShl mask28 30 28, StoreOut, ShrReg 28, LoadNext,
     OrAndShl mask26 30 26, StoreOut, ShrReg 26, LoadNext, OrAndShl mask24 30 24, StoreOut,
     ShrReg 24, LoadNext, OrAndShl mask22 30 22, StoreOut, ShrReg 22, LoadNext,
     OrAndShl mask20 30 20, StoreOut, ShrReg 20, LoadNext, OrAndShl mask18 30 18, StoreOut,
     ShrReg 18, LoadNext, OrAndShl mask16 30 16, StoreOut, ShrReg 16, LoadNext,
     OrAndShl mask14 30 14, StoreOut, ShrReg 14, LoadNext, OrAndShl mask12 30 12, StoreOut,
     ShrReg 12, LoadNext, OrAndShl mask10 30 10, StoreOut, ShrReg 10, LoadNext,
     OrAndShl mask8 30 8, StoreOut, ShrReg 8, LoadNext, OrAndShl mask6 30 6, StoreOut, ShrReg 6,
     LoadNext, OrAndShl mask4 30 4, StoreOut, ShrReg 4, LoadNext, OrAndShl mask2 30 2, StoreOut,
     ShrReg 2, StoreOut]"

definition SIMD_fastunpack31_32 :: "m128 list \<Rightarrow> m128 list option" where
  "SIMD_fastunpack31_32 = run_plain_unpack
    [LoadFirst, AndReg mask31, StoreOut, ShrReg 31, LoadNext, OrAndShl mask30 31 30, StoreOut,
     ShrReg 30, LoadNext, OrAndShl mask29 31 29, StoreOut, ShrReg 29, LoadNext,
     OrAndShl mask28 31 28, StoreOut, ShrReg 28, LoadNext, OrAndShl mask27 31 27, StoreOut,
     ShrReg 27, LoadNext, OrAndShl mask26 31 26, StoreOut, ShrReg 26, LoadNext,
     OrAndShl mask25 31 25, StoreOut, ShrReg 25, LoadNext, OrAndShl mask24 31 24, StoreOut,
     ShrReg 24, LoadNext, OrAndShl mask23 31 23, StoreOut, ShrReg 23, LoadNext,
     OrAndShl mask22 31 22, StoreOut, ShrReg 22, LoadNext, OrAndShl mask21 31 21, StoreOut,
     ShrReg 21, LoadNext, OrAndShl mask20 31 20, StoreOut, ShrReg 20, LoadNext,
     OrAndShl mask19 31 19, StoreOut, ShrReg 19, LoadNext, OrAndShl mask18 31 18, StoreOut,
     ShrReg 18, LoadNext, OrAndShl mask17 31 17, StoreOut, ShrReg 17, LoadNext,
     OrAndShl mask16 31 16, StoreOut, ShrReg 16, LoadNext, OrAndShl mask15 31 15, StoreOut,
     ShrReg 15, LoadNext, OrAndShl mask14 31 14, StoreOut, ShrReg 14, LoadNext,
     OrAndShl mask13 31 13, StoreOut, ShrReg 13, LoadNext, OrAndShl mask12 31 12, StoreOut,
     ShrReg 12, LoadNext, OrAndShl mask11 31 11, StoreOut, ShrReg 11, LoadNext,
     OrAndShl mask10 31 10, StoreOut, ShrReg 10, LoadNext, OrAndShl mask9 31 9, StoreOut, ShrReg 9,
     LoadNext, OrAndShl mask8 31 8, StoreOut, ShrReg 8, LoadNext, OrAndShl mask7 31 7, StoreOut,
     ShrReg 7, LoadNext, OrAndShl mask6 31 6, StoreOut, ShrReg 6, LoadNext, OrAndShl mask5 31 5,
     StoreOut, ShrReg 5, LoadNext, OrAndShl mask4 31 4, StoreOut, ShrReg 4, LoadNext,
     OrAndShl mask3 31 3, StoreOut, ShrReg 3, LoadNext, OrAndShl mask2 31 2, StoreOut, ShrReg 2,
     LoadNext, OrAndShl mask1 31 1, StoreOut, ShrReg 1, StoreOut]"

section \<open>The dispatcher\<close>

definition simdunpack :: "m128 list \<Rightarrow> u32 \<Rightarrow> m128 list res" where
  "simdunpack inp b =
     (if b = 0 then in_bounds (SIMD_nullunpacker32 inp)
      else if b = 1 then in_bounds (SIMD_fastunpack1_32 inp)
      else if b = 2 then in_bounds (SIMD_fastunpack2_32 inp)
      else if b = 3 then in_bounds (SIMD_fastunpack3_32 inp)
      else if b = 4 then in_bounds (SIMD_fastunpack4_32 inp)
      else if b = 5 then in_bounds (SIMD_fastunpack5_32 inp)
      else if b = 6 then in_bounds (SIMD_fastunpack6_32 inp)
      else if b = 7 then in_bounds (SIMD_fastunpack7_32 inp)
      else if b = 8 then in_bounds (SIMD_fastunpack8_32 inp)
      else if b = 9 then in_bounds (SIMD_fastunpack9_32 inp)
      else if b = 10 then in_bounds (SIMD_fastunpack10_32 inp)
      else if b = 11 then in_bounds (SIMD_fastunpack11_32 inp)
      else if b = 12 then in_bounds (SIMD_fastunpack12_32 inp)
      else if b = 13 then in_bounds (SIMD_fastunpack13_32 inp)
      else if b = 14 then in_bounds (SIMD_fastunpack14_32 inp)
      else if b = 15 then in_bounds (SIMD_fastunpack15_32 inp)
      else if b = 16 then in_bounds (SIMD_fastunpack16_32 inp)
      else if b = 17 then in_bounds (SIMD_fastunpack17_32 inp)
      else if b = 18 then in_bounds (SIMD_fastunpack18_32 inp)
      else if b = 19 then in_bounds (SIMD_fastunpack19_32 inp)
      else if b = 20 then in_bounds (SIMD_fastunpack20_32 inp)
      else if b = 21 then in_bounds (SIMD_fastunpack21_32 inp)
      else if b = 22 then in_bounds (SIMD_fastunpack22_32 inp)
      else if b = 23 then in_bounds (SIMD_fastunpack23_32 inp)
      else if b = 24 then in_bounds (SIMD_fastunpack24_32 inp)
      else if b = 25 then in_bounds (SIMD_fastunpack25_32 inp)
      else if b = 26 then in_bounds (SIMD_fastunpack26_32 inp)
      else if b = 27 then in_bounds (SIMD_fastunpack27_32 inp)
      else if b = 28 then in_bounds (SIMD_fastunpack28_32 inp)
      else if b = 29 then in_bounds (SIMD_fastunpack29_32 inp)
      else if b = 30 then in_bounds (SIMD_fastunpack30_32 inp)
      else if b = 31 then in_bounds (SIMD_fastunpack31_32 inp)
      else if b = 32 then in_bounds (SIMD_fastunpack32_32 inp)
      else Inl LogicError)"

definition SIMD_fastunpack_32 :: "m128 list \<Rightarrow> u32 \<Rightarrow> m128 list res" where
  "SIMD_fastunpack_32 inp b = simdunpack inp b"

section \<open>Each function is the schedule of its width\<close>

definition plain_value :: "nat \<Rightarrow> nat \<Rightarrow> plain_stmt list" where
  "plain_value b i =
     (let p = i * b mod 32 in
      (if p + b < 32 then (if p = 0 then [AndReg (mask_of b)] else [ShrAnd p (mask_of b)])
       else if p + b = 32 then (if i = 31 then [ShrReg p] else [ShrReg p, LoadNext])
       else [ShrReg p, LoadNext, OrAndShl (mask_of (p + b - 32)) b (p + b - 32)])
      @ [StoreOut])"

definition plain_unpack_schedule :: "nat \<Rightarrow> plain_stmt list" where
  "plain_unpack_schedule b = LoadFirst # concat (map (plain_value b) [0..<32])"

lemmas plain_unpack_unfold = plain_unpack_schedule_def plain_value_def upt_32 Let_def masks_eq

lemma fastunpack2_schedule: "SIMD_fastunpack2_32 = run_plain_unpack (plain_unpack_schedule 2)"
  by (simp add: SIMD_fastunpack2_32_def plain_unpack_unfold)

lemma fastunpack3_schedule: "SIMD_fastunpack3_32 = run_plain_unpack (plain_unpack_schedule 3)"
  by (simp add: SIMD_fastunpack3_32_def plain_unpack_unfold)

lemma fastunpack4_schedule: "SIMD_fastunpack4_32 = run_plain_unpack (plain_unpack_schedule 4)"
  by (simp add: SIMD_fastunpack4_32_def plain_unpack_unfold)

lemma fastunpack5_schedule: "SIMD_fastunpack5_32 = run_plain_unpack (plain_unpack_schedule 5)"
  by (simp add: SIMD_fastunpack5_32_def plain_unpack_unfold)

lemma fastunpack6_schedule: "SIMD_fastunpack6_32 = run_plain_unpack (plain_unpack_schedule 6)"
  by (simp add: SIMD_fastunpack6_32_def plain_unpack_unfold)

lemma fastunpack7_schedule: "SIMD_fastunpack7_32 = run_plain_unpack (plain_unpack_schedule 7)"
  by (simp add: SIMD_fastunpack7_32_def plain_unpack_unfold)

lemma fastunpack8_schedule: "SIMD_fastunpack8_32 = run_plain_unpack (plain_unpack_schedule 8)"
  by (simp add: SIMD_fastunpack8_32_def plain_unpack_unfold)

lemma fastunpack9_schedule: "SIMD_fastunpack9_32 = run_plain_unpack (plain_unpack_schedule 9)"
  by (simp add: SIMD_fastunpack9_32_def plain_unpack_unfold)

lemma fastunpack10_schedule: "SIMD_fastunpack10_32 = run_plain_unpack (plain_unpack_schedule 10)"
  by (simp add: SIMD_fastunpack10_32_def plain_unpack_unfold)

lemma fastunpack11_schedule: "SIMD_fastunpack11_32 = run_plain_unpack (plain_unpack_schedule 11)"
  by (simp add: SIMD_fastunpack11_32_def plain_unpack_unfold)

lemma fastunpack12_schedule: "SIMD_fastunpack12_32 = run_plain_unpack (plain_unpack_schedule 12)"
  by (simp add: SIMD_fastunpack12_32_def plain_unpack_unfold)

lemma fastunpack13_schedule: "SIMD_fastunpack13_32 = run_plain_unpack (plain_unpack_schedule 13)"
  by (simp add: SIMD_fastunpack13_32_def plain_unpack_unfold)

lemma fastunpack14_schedule: "SIMD_fastunpack14_32 = run_plain_unpack (plain_unpack_schedule 14)"
  by (simp add: SIMD_fastunpack14_32_def plain_unpack_unfold)

lemma fastunpack15_schedule: "SIMD_fastunpack15_32 = run_plain_unpack (plain_unpack_schedule 15)"
  by (simp add: SIMD_fastunpack15_32_def plain_unpack_unfold)

lemma fastunpack16_schedule: "SIMD_fastunpack16_32 = run_plain_unpack (plain_unpack_schedule 16)"
  by (simp add: SIMD_fastunpack16_32_def plain_unpack_unfold)

lemma fastunpack17_schedule: "SIMD_fastunpack17_32 = run_plain_unpack (plain_unpack_schedule 17)"
  by (simp add: SIMD_fastunpack17_32_def plain_unpack_unfold)

lemma fastunpack18_schedule: "SIMD_fastunpack18_32 = run_plain_unpack (plain_unpack_schedule 18)"
  by (simp add: SIMD_fastunpack18_32_def plain_unpack_unfold)

lemma fastunpack19_schedule: "SIMD_fastunpack19_32 = run_plain_unpack (plain_unpack_schedule 19)"
  by (simp add: SIMD_fastunpack19_32_def plain_unpack_unfold)

lemma fastunpack20_schedule: "SIMD_fastunpack20_32 = run_plain_unpack (plain_unpack_schedule 20)"
  by (simp add: SIMD_fastunpack20_32_def plain_unpack_unfold)

lemma fastunpack21_schedule: "SIMD_fastunpack21_32 = run_plain_unpack (plain_unpack_schedule 21)"
  by (simp add: SIMD_fastunpack21_32_def plain_unpack_unfold)

lemma fastunpack22_schedule: "SIMD_fastunpack22_32 = run_plain_unpack (plain_unpack_schedule 22)"
  by (simp add: SIMD_fastunpack22_32_def plain_unpack_unfold)

lemma fastunpack23_schedule: "SIMD_fastunpack23_32 = run_plain_unpack (plain_unpack_schedule 23)"
  by (simp add: SIMD_fastunpack23_32_def plain_unpack_unfold)

lemma fastunpack24_schedule: "SIMD_fastunpack24_32 = run_plain_unpack (plain_unpack_schedule 24)"
  by (simp add: SIMD_fastunpack24_32_def plain_unpack_unfold)

lemma fastunpack25_schedule: "SIMD_fastunpack25_32 = run_plain_unpack (plain_unpack_schedule 25)"
  by (simp add: SIMD_fastunpack25_32_def plain_unpack_unfold)

lemma fastunpack26_schedule: "SIMD_fastunpack26_32 = run_plain_unpack (plain_unpack_schedule 26)"
  by (simp add: SIMD_fastunpack26_32_def plain_unpack_unfold)

lemma fastunpack27_schedule: "SIMD_fastunpack27_32 = run_plain_unpack (plain_unpack_schedule 27)"
  by (simp add: SIMD_fastunpack27_32_def plain_unpack_unfold)

lemma fastunpack28_schedule: "SIMD_fastunpack28_32 = run_plain_unpack (plain_unpack_schedule 28)"
  by (simp add: SIMD_fastunpack28_32_def plain_unpack_unfold)

lemma fastunpack29_schedule: "SIMD_fastunpack29_32 = run_plain_unpack (plain_unpack_schedule 29)"
  by (simp add: SIMD_fastunpack29_32_def plain_unpack_unfold)

lemma fastunpack30_schedule: "SIMD_fastunpack30_32 = run_plain_unpack (plain_unpack_schedule 30)"
  by (simp add: SIMD_fastunpack30_32_def plain_unpack_unfold)

lemma fastunpack31_schedule: "SIMD_fastunpack31_32 = run_plain_unpack (plain_unpack_schedule 31)"
  by (simp add: SIMD_fastunpack31_32_def plain_unpack_unfold)

lemmas fastunpack_schedules =
  fastunpack2_schedule fastunpack3_schedule fastunpack4_schedule fastunpack5_schedule fastunpack6_schedule
  fastunpack7_schedule fastunpack8_schedule fastunpack9_schedule fastunpack10_schedule fastunpack11_schedule
  fastunpack12_schedule fastunpack13_schedule fastunpack14_schedule fastunpack15_schedule fastunpack16_schedule
  fastunpack17_schedule fastunpack18_schedule fastunpack19_schedule fastunpack20_schedule fastunpack21_schedule
  fastunpack22_schedule fastunpack23_schedule fastunpack24_schedule fastunpack25_schedule fastunpack26_schedule
  fastunpack27_schedule fastunpack28_schedule fastunpack29_schedule fastunpack30_schedule fastunpack31_schedule

lemma simdunpack_schedule:
  assumes "1 < b" and "b < 32"
  shows "simdunpack inp (of_nat b) = in_bounds (run_plain_unpack (plain_unpack_schedule b) inp)"
proof -
  have "b \<in> {1,2,3,4,5,6,7,8,9,10,11,12,13,14,15,16,17,18,19,20,21,22,23,24,25,26,27,28,29,30,31}"
    using assms by (intro width_cases) simp_all
  with assms(1) show ?thesis
    by (elim insertE emptyE) (simp_all add: simdunpack_def fastunpack_schedules)
qed

section \<open>What the functions read\<close>

lemma plain_exec_append:
  "plain_exec inp (xs @ ys) s = Option.bind (plain_exec inp xs s) (plain_exec inp ys)"
proof (induction xs arbitrary: s)
  case (Cons x xs)
  then show ?case by (cases "plain_step inp x s") auto
qed simp

text \<open>Masking before the shift keeps the bits that masking after it keeps.\<close>

lemma and_slli_mask:
  assumes "k \<le> b" and "b < 32"
  shows "mm_slli_epi32 (mm_and_si128 r (mask_of k)) (b - k)
    = mm_and_si128 (mm_slli_epi32 r (b - k)) (mm_set1_epi32 (low_mask b))"
  by (rule m128_eqI, rule bit_word_eqI) (use assms in \<open>auto simp: mask_of_def bit_simps bit_low_mask\<close>)

definition plain_inv :: "nat \<Rightarrow> m128 list \<Rightarrow> m128 list \<Rightarrow> nat \<Rightarrow> plain_state \<Rightarrow> bool" where
  "plain_inv b ds inp i s \<longleftrightarrow>
     vs_in s = (if i < 32 then i * b div 32 else b - 1) \<and> vs_inreg s = inp ! vs_in s \<and>
     vs_mem s = take i ds"

lemma plain_value_inv:
  assumes inv: "plain_inv b ds inp i s" and len: "32 \<le> length ds" and i: "i < 32"
    and f: "fits b (ds ! i)" and b: "0 < b" "b < 32" and packed: "packed_block b ds inp"
  shows "\<exists>s'. plain_exec inp (plain_value b i) s = Some s' \<and> plain_inv b ds inp (Suc i) s'"
proof -
  define p where "p = i * b mod 32"
  define q where "q = i * b div 32"
  have p: "p < 32" and ib: "i * b = 32 * q + p" by (simp_all add: p_def q_def)
  have suc: "Suc i * b div 32 = q + (if p + b < 32 then 0 else 1)"
    using div_mod_Suc_mult[OF b(2), of i] by (simp only: p_def q_def)
  have i31: "p + b = 32 \<and> q = b - 1" if "i = 31"
    using last_value_ends_register[OF b] that by (simp add: p_def q_def)
  have next_in: "Suc q < b" if "32 < p + b \<or> p + b = 32 \<and> i \<noteq> 31"
    using register_follows[OF b i] that by (simp only: p_def q_def)
  have "q < b" using value_register[OF i b(1)] by (simp only: q_def)
  note reg = packed_register[OF packed this] and reg' = packed_register[OF packed next_in]
  note ex1 = extract_one[OF reg(2) ib f _ p b(2), folded mask_of_def]
  have st: "vs_in s = q" "vs_inreg s = inp ! q" "vs_mem s @ [ds ! i] = take (Suc i) ds"
    using inv i len by (simp_all add: plain_inv_def q_def take_Suc_conv_app_nth)
  have stmts: "plain_value b i =
      (if p + b < 32 then (if p = 0 then [AndReg (mask_of b)] else [ShrAnd p (mask_of b)])
       else if p + b = 32 then (if i = 31 then [ShrReg p] else [ShrReg p, LoadNext])
       else [ShrReg p, LoadNext, OrAndShl (mask_of (p + b - 32)) b (p + b - 32)]) @ [StoreOut]"
    by (simp only: plain_value_def Let_def p_def)
  consider "p + b < 32" | "p + b = 32" "i = 31" | "p + b = 32" "i \<noteq> 31" | "32 < p + b" by linarith
  then show ?thesis
  proof cases
    case 1
    with i31 i have "Suc i < 32" by (cases "i = 31") auto
    with 1 st ex1(1) suc show ?thesis
      by (cases "p = 0") (simp_all add: stmts plain_inv_def)
  next
    case 2
    with st ex1(2) i31 show ?thesis unfolding stmts by (simp add: plain_inv_def)
  next
    case 3
    with i st ex1(2) suc reg' show ?thesis by (simp add: stmts plain_inv_def)
  next
    case 4
    with i31 i have "Suc i < 32" by (cases "i = 31") auto
    moreover have "mm_or_si128 (mm_srli_epi32 (inp ! q) p)
        (mm_slli_epi32 (mm_and_si128 (inp ! Suc q) (mask_of (p + b - 32))) (b - (p + b - 32))) = ds ! i"
      using extract_two[OF reg(2) reg'(2) ib f 4 p b(2)] 4 p b(2) by (subst and_slli_mask) simp_all
    ultimately show ?thesis using 4 st suc reg'(1) by (simp add: stmts plain_inv_def)
  qed
qed

lemma plain_values_inv:
  assumes len: "32 \<le> length ds" and b: "0 < b" "b < 32" and f: "\<forall>i<32. fits b (ds ! i)"
    and packed: "packed_block b ds inp" and init: "plain_inv b ds inp 0 s0"
  shows "n \<le> 32 \<Longrightarrow> \<exists>s. plain_exec inp (concat (map (plain_value b) [0..<n])) s0 = Some s
    \<and> plain_inv b ds inp n s"
proof (induction n)
  case 0
  with init show ?case by simp
next
  case (Suc n)
  then obtain s where "plain_exec inp (concat (map (plain_value b) [0..<n])) s0 = Some s"
    and "plain_inv b ds inp n s" by auto
  moreover from this(2) Suc.prems f b packed obtain s' where "plain_exec inp (plain_value b n) s = Some s'"
    and "plain_inv b ds inp (Suc n) s'"
    using plain_value_inv[OF _ len] by (metis Suc_le_lessD)
  ultimately show ?case by (simp add: plain_exec_append)
qed

lemma run_plain_unpack_schedule:
  assumes "32 \<le> length ds" and "0 < b" "b < 32" and "\<forall>i<32. fits b (ds ! i)" and "packed_block b ds inp"
  shows "run_plain_unpack (plain_unpack_schedule b) inp = Some (take 32 ds)"
proof -
  define s0 where "s0 = plain_init\<lparr>vs_inreg := inp ! 0\<rparr>"
  have "0 < length inp" using assms(2,5) unfolding packed_block_def by linarith
  then have "plain_step inp LoadFirst plain_init = Some s0" by (simp add: s0_def plain_init_def)
  moreover have "plain_inv b ds inp 0 s0" by (simp add: s0_def plain_init_def plain_inv_def)
  from plain_values_inv[OF assms this, of 32] obtain s
    where "plain_exec inp (concat (map (plain_value b) [0..<32])) s0 = Some s" "vs_mem s = take 32 ds"
    by (auto simp: plain_inv_def)
  ultimately show ?thesis by (simp add: run_plain_unpack_def plain_unpack_schedule_def)
qed

lemma fastunpack1_rounds_eq:
  "fastunpack1_rounds n r r k = map (\<lambda>i. mm_and_si128 (mm_srli_epi32 r i) mask1) [k..<k + 4 * n]"
proof (induction n arbitrary: k)
  case (Suc n)
  have "[k..<k + 4 * Suc n] = k # Suc k # Suc (Suc k) # Suc (Suc (Suc k)) # [k + 4..<k + 4 + 4 * n]"
    by (simp add: upt_rec numeral_eq_Suc)
  with Suc show ?case by (simp add: Let_def numeral_3_eq_3)
qed simp

lemma fastunpack1_block:
  assumes len: "32 \<le> length ds" and f: "\<forall>i<32. fits 1 (ds ! i)" and packed: "packed_block 1 ds inp"
  shows "SIMD_fastunpack1_32 inp = Some (take 32 ds)"
proof -
  obtain r rs where inp: "inp = r # rs" and r: "holds 1 ds 0 32 r"
    using packed by (cases inp) (auto simp: packed_block_def)
  have "mm_and_si128 (mm_srli_epi32 r i) mask1 = ds ! i" if "i < 32" for i
    using extract_one(1)[OF r, of i i] f that by (simp add: masks_eq(1) mask_of_def)
  then have "fastunpack1_rounds 8 r r 0 = take 32 ds"
    using len by (intro nth_equalityI) (simp_all add: fastunpack1_rounds_eq)
  with inp show ?thesis by (simp add: SIMD_fastunpack1_32_def)
qed

lemma simdunpack_block:
  assumes "32 \<le> length ds" and "0 < b" "b < 32" and "\<forall>i<32. fits b (ds ! i)" and "packed_block b ds inp"
  shows "simdunpack inp (of_nat b) = Inr (take 32 ds)"
proof (cases "b = 1")
  case True
  with assms fastunpack1_block show ?thesis by (simp add: simdunpack_def)
next
  case False
  with assms(2) have "1 < b" by simp
  from simdunpack_schedule[OF this assms(3)] run_plain_unpack_schedule[OF assms] show ?thesis by simp
qed

section \<open>Round trip\<close>

lemma mask_of_32: "mm_and_si128 r (mask_of 32) = r"
proof (rule m128_eqI)
  have "low_mask 32 = - 1" by (simp add: low_mask_def)
  then show "lane l (mm_and_si128 r (mask_of 32)) = lane l r" for l by (simp add: mask_of_def)
qed

lemma mask_of_0: "mm_and_si128 r (mask_of 0) = mm_set1_epi32 0"
  by (rule m128_eqI) (simp add: mask_of_def low_mask_def)

lemma pack_room_append: "length rs = 32 \<Longrightarrow> pack_room b (rs @ after) = (after = [] \<longrightarrow> b \<notin> {4, 8, 16})"
  by (cases after) (auto simp: pack_room_def)

text \<open>
  With the room they need, masking and packing always succeed, write exactly \<open>b\<close> registers, and
  unpacking these gives the masked values back.
\<close>

lemma simdpack_unpack:
  assumes len: "length rs = 32" and room: "pack_room b (rs @ after)" and b: "b \<le> 32"
  shows "\<exists>out. simdpack (rs @ after) (of_nat b) = Inr out \<and> length out = b
    \<and> (\<forall>rest. simdunpack (out @ rest) (of_nat b) = Inr (map (\<lambda>r. mm_and_si128 r (mask_of b)) rs))"
proof -
  consider "b = 0" | "0 < b" "b < 32" | "b = 32" using b by linarith
  then show ?thesis
  proof cases
    case 1
    with len show ?thesis
      by (simp add: simdpack_def simdunpack_def SIMD_nullunpacker32_def mask_of_0 map_replicate_const)
  next
    case 2
    let ?ds = "map (\<lambda>r. mm_and_si128 r (mask_of b)) (rs @ after)"
    from simdpack_packs[OF room 2] obtain out where out: "simdpack (rs @ after) (of_nat b) = Inr out"
      "length out = b" "packed_block b ?ds out" by blast
    have "\<forall>i<32. fits b (?ds ! i)" using 2 len by (simp add: fits_masked nth_append)
    from simdunpack_block[OF _ 2 this packed_block_append[OF out(3)]] len out(1,2)
    show ?thesis by simp
  next
    case 3
    with len show ?thesis
      by (simp add: simdpack_def simdunpack_def fastpack32_copies SIMD_fastunpack32_32_def mask_of_32)
  qed
qed

text \<open>Without the room, they read past the input; for values that fit the mask is idle.\<close>

lemma simdpack_no_room:
  assumes "length rs = 32" and "\<not> pack_room b rs"
  shows "simdpack rs (of_nat b) = Inl OutOfBounds"
proof -
  from assms have "b \<in> {4, 8, 16}" by (auto simp: pack_room_def)
  then have "0 < b" "b < 32" "b \<in> {4, 8, 16}" by auto
  with simdpack_32_fails(1)[OF assms(1) this(1,2)] show ?thesis by simp
qed

lemma simdpackwithoutmask_simdpack:
  assumes room: "pack_room b inp" and b: "b \<le> 32" and f: "b < 32 \<longrightarrow> (\<forall>r\<in>set inp. fits b r)"
  shows "simdpackwithoutmask inp (of_nat b) = simdpack inp (of_nat b)"
proof -
  have len: "32 \<le> length inp" using room by (simp add: pack_room_def)
  consider "b = 0" | "0 < b" "b < 32" | "b = 32" using b by linarith
  then show ?thesis
  proof cases
    case 2
    with f have fr: "\<forall>r\<in>set inp. fits b r" by simp
    with 2 have same: "map (\<lambda>r. mm_and_si128 r (mask_of b)) inp = inp"
      by (intro map_idI) (simp add: masked_fits)
    from fr len have "\<forall>i<32. fits b (inp ! i)" by simp
    from simdpackwithoutmask_packs[OF room 2 this] simdpack_packs[OF room 2] show ?thesis
      using packed_block_unique by (metis same)
  qed (use len in \<open>simp_all add: simdpack_def simdpackwithoutmask_def fastpack32_copies
      fastpackwithoutmask32_copies\<close>)
qed

text \<open>All three outcomes of \<open>simdpack\<close>, for any width.\<close>

lemma simdpack_large: "32 < b \<Longrightarrow> simdpack inp b = Inl LogicError"
  by (auto simp: simdpack_def)

lemma simdpack_total:
  assumes len: "length rs = 32"
  shows "case simdpack (rs @ after) b of
      Inl e \<Rightarrow> e = LogicError \<and> 32 < b \<or> e = OutOfBounds \<and> b \<in> {4, 8, 16} \<and> after = []
    | Inr out \<Rightarrow> b \<le> 32 \<and> length out = unat b \<and> (b \<in> {4, 8, 16} \<longrightarrow> after \<noteq> [])
        \<and> simdunpack (out @ rest) b = Inr (map (\<lambda>r. mm_and_si128 r (mask_of (unat b))) rs)"
proof (cases "b \<le> 32")
  case False
  then show ?thesis by (simp add: simdpack_large not_le)
next
  case True
  then have le: "unat b \<le> 32" by (simp add: word_le_nat_alt)
  have small: "unat b \<in> {4, 8, 16} \<longleftrightarrow> b \<in> {4, 8, 16}" by (simp add: word_unat_eq_iff)
  show ?thesis
  proof (cases "pack_room (unat b) (rs @ after)")
    case True
    from simdpack_unpack[OF len this le] obtain out where "simdpack (rs @ after) b = Inr out"
      "length out = unat b"
      "simdunpack (out @ rest) b = Inr (map (\<lambda>r. mm_and_si128 r (mask_of (unat b))) rs)" by auto
    with \<open>b \<le> 32\<close> True show ?thesis by (simp only: sum.case pack_room_append[OF len] small) blast
  next
    case False
    then have "after = []" "b \<in> {4, 8, 16}" by (simp_all only: pack_room_append[OF len] small) blast+
    with False simdpack_no_room[OF len, of "unat b"] show ?thesis by simp
  qed
qed

end
