(* ===== verification/GlobalPacking.thy ===== *)
theory GlobalPacking
  imports SimdBinaryPacking PlainUnpack
begin

text \<open>
  The codec \<open>SIMDGlobalBinaryPacking\<close> of \<^verbatim>\<open>varint/bitpacking/simdbinarypacking.h\<close>, which stores a whole array with
  one bit width over the packers of \<open>PlainPack\<close>, and the bit widths of
  \<^verbatim>\<open>varint/bitpacking/simdcomputil.c\<close>.
\<close>

section \<open>The codec\<close>

definition GlobalBlockSize :: nat where "GlobalBlockSize = 128"

text \<open>
  The input is the memory from the pointer \<open>inp\<close> on, of which \<open>n\<close> integers are to be encoded: some
  packers look past their block.
\<close>

fun pack_blocks :: "nat \<Rightarrow> u32 list \<Rightarrow> u32 \<Rightarrow> u32 list res" where
  "pack_blocks 0 inp Bs = Inr []"
| "pack_blocks (Suc k) inp Bs =
     rbind (SIMD_fastpackwithoutmask_32 (regs_of inp) Bs) (\<lambda>out.
     rbind (pack_blocks k (drop GlobalBlockSize inp) Bs) (\<lambda>rest.
       Inr (words_of out @ rest)))"

definition global_encodeArray :: "nat \<Rightarrow> u32 list \<Rightarrow> nat \<Rightarrow> u32 list res" where
  "global_encodeArray addr inp n =
     rbind (checkifdivisibleby n GlobalBlockSize) (\<lambda>_.
     let Bs = maxbits (take n inp) in
     rbind (pack_blocks (n div GlobalBlockSize) inp (of_nat Bs)) (\<lambda>body.
       Inr (of_nat n # of_nat Bs # pad_loop (addr + 2) @ body)))"

text \<open>
  The loop of \<open>decodeArray\<close> from block \<open>k\<close> on; its offset \<open>4 * Bs * k\<close> is computed in 32 bits.
\<close>

fun unpack_blocks :: "nat \<Rightarrow> nat \<Rightarrow> u32 list \<Rightarrow> u32 \<Rightarrow> u32 list res" where
  "unpack_blocks 0 k inp Bs = Inr []"
| "unpack_blocks (Suc m) k inp Bs =
     rbind (SIMD_fastunpack_32 (regs_of (drop (unat (4 * Bs * of_nat k)) inp)) Bs) (\<lambda>out.
     rbind (unpack_blocks m (Suc k) inp Bs) (\<lambda>rest.
       Inr (words_of out @ rest)))"

text \<open>What is written, the memory from the pointer that is returned on, and \<open>nvalue\<close>.\<close>

definition global_decodeArray :: "nat \<Rightarrow> nat \<Rightarrow> u32 list \<Rightarrow> (u32 list \<times> u32 list \<times> nat) res" where
  "global_decodeArray addr outaddr inp =
     (case inp of
        actuallength # Bs # inp1 \<Rightarrow>
          if needPaddingTo128Bits outaddr then Inl RuntimeError
          else
            rbind (skip_cookies (addr + 2) inp1) (\<lambda>inp2.
            rbind (unpack_blocks (unat (actuallength div 128)) 0 inp2 Bs) (\<lambda>out.
              Inr (out, drop (unat (4 * Bs * actuallength div 128)) inp2, unat actuallength)))
      | _ \<Rightarrow> Inl OutOfBounds)"

definition global_compressedSize :: "u32 list \<Rightarrow> nat" where
  "global_compressedSize inp = (2 + (length inp div GlobalBlockSize) * (4 * maxbits inp)) * 4"

section \<open>One block\<close>

lemma fits_0: "fits 0 r \<Longrightarrow> r = mm_set1_epi32 0"
  by (cases r) (simp add: fits_M128 unat_eq_zero mm_set1_epi32_def)

lemma plain_pack_unpack:
  assumes room: "pack_room b inp" and b: "b \<le> 32" and f: "b < 32 \<longrightarrow> (\<forall>i<32. fits b (inp ! i))"
  shows "\<exists>out. simdpackwithoutmask inp (of_nat b) = Inr out \<and> length out = b
    \<and> (\<forall>rest. simdunpack (out @ rest) (of_nat b) = Inr (take 32 inp))"
proof -
  have len: "32 \<le> length inp" using room by (simp add: pack_room_def)
  consider "b = 0" | "0 < b" "b < 32" | "b = 32" using b by linarith
  then show ?thesis
  proof cases
    case 1
    have "take 32 inp = replicate 32 (mm_set1_epi32 0)"
      using len f 1 fits_0 by (intro nth_equalityI) auto
    with 1 show ?thesis by (simp add: simdpackwithoutmask_def simdunpack_def SIMD_nullunpacker32_def)
  next
    case 2
    from simdpackwithoutmask_packs[OF room 2] f 2 obtain out where
      out: "simdpackwithoutmask inp (of_nat b) = Inr out" "length out = b" "packed_block b inp out" by blast
    have "simdunpack (out @ rest) (of_nat b) = Inr (take 32 inp)" for rest
      using simdunpack_block[OF len 2 _ packed_block_append[OF out(3)]] f 2 by simp
    with out show ?thesis by blast
  next
    case 3
    with len show ?thesis
      by (simp add: simdpackwithoutmask_def simdunpack_def fastpackwithoutmask32_copies SIMD_fastunpack32_32_def)
  qed
qed

section \<open>An array\<close>

lemma words_of_take_regs: "4 * k \<le> length ws \<Longrightarrow> words_of (take k (regs_of ws)) = take (4 * k) ws"
proof (induction k arbitrary: ws)
  case (Suc k)
  then obtain a b c d xs where ws: "ws = a # b # c # d # xs"
    by (cases ws rule: regs_of.cases) auto
  with Suc show ?case by (simp add: numeral_eq_Suc)
qed simp

lemma regs_of_fits:
  assumes "\<forall>x\<in>set (take 128 ws). unat x < 2 ^ b" and "128 \<le> length ws" and "i < 32"
  shows "fits b (regs_of ws ! i)"
proof -
  have "unat (ws ! j) < 2 ^ b" if "j < 128" for j
    using assms(1,2) that by (metis in_set_conv_nth length_take min.absorb2 nth_take)
  with assms(2,3) show ?thesis by (simp add: nth_regs_of fits_M128)
qed

lemma word_product:
  assumes "4 * b * k < 2 ^ 32"
  shows "unat (4 * of_nat b * of_nat k :: u32) = 4 * b * k"
proof -
  have "(4 * of_nat b * of_nat k :: u32) = of_nat (4 * b * k)" by simp
  then show ?thesis using assms by (simp only: unat_of_nat) simp
qed

lemma pack_blocks_roundtrip:
  assumes "128 * m \<le> length inp" and "b \<in> {4, 8, 16} \<longrightarrow> 128 * m + 4 \<le> length inp" and b: "b \<le> 32"
    and "\<forall>x\<in>set (take (128 * m) inp). unat x < 2 ^ b"
  shows "\<exists>out. pack_blocks m inp (of_nat b) = Inr out \<and> length out = 4 * b * m
    \<and> (\<forall>pre rest k. length pre = 4 * b * k \<longrightarrow> 4 * b * (k + m) < 2 ^ 32 \<longrightarrow>
         unpack_blocks m k (pre @ out @ rest) (of_nat b) = Inr (take (128 * m) inp))"
  using assms(1,2,4)
proof (induction m arbitrary: inp)
  case 0
  then show ?case by simp
next
  case (Suc m)
  have len: "128 \<le> length inp" using Suc.prems(1) by simp
  have fit: "\<forall>x\<in>set (take 128 inp). unat x < 2 ^ b"
    and fits: "\<forall>x\<in>set (take (128 * m) (drop 128 inp)). unat x < 2 ^ b"
    using Suc.prems(3) set_take_subset_set_take[of 128 "128 * Suc m" inp]
    by (auto simp: take_drop add.commute dest: in_set_dropD)
  have room: "pack_room b (regs_of inp)"
    using Suc.prems(1,2) by (auto simp: pack_room_def length_regs_of)
  from plain_pack_unpack[OF room b] regs_of_fits[OF fit len] obtain regs where
    r: "simdpackwithoutmask (regs_of inp) (of_nat b) = Inr regs" "length regs = b"
      "\<And>rest. simdunpack (regs @ rest) (of_nat b) = Inr (take 32 (regs_of inp))" by blast
  have prems: "128 * m \<le> length (drop 128 inp)" "b \<in> {4, 8, 16} \<longrightarrow> 128 * m + 4 \<le> length (drop 128 inp)"
    using Suc.prems(1,2) by auto
  from Suc.IH[OF prems fits] obtain out where
    out: "pack_blocks m (drop 128 inp) (of_nat b) = Inr out" "length out = 4 * b * m"
      "\<And>pre rest k. length pre = 4 * b * k \<Longrightarrow> 4 * b * (k + m) < 2 ^ 32 \<Longrightarrow>
         unpack_blocks m k (pre @ out @ rest) (of_nat b) = Inr (take (128 * m) (drop 128 inp))" by blast
  have words: "words_of (take 32 (regs_of inp)) = take 128 inp"
    using words_of_take_regs[of 32 inp] len by simp
  have "unpack_blocks (Suc m) k (pre @ (words_of regs @ out) @ rest) (of_nat b) = Inr (take (128 * Suc m) inp)"
    if p: "length pre = 4 * b * k" "4 * b * (k + Suc m) < 2 ^ 32" for pre rest k
  proof -
    have "4 * b * k \<le> 4 * b * (k + Suc m)" by (rule mult_le_mono2) simp
    with p(2) have "unat (4 * of_nat b * of_nat k :: u32) = length pre" using p(1) word_product[of b k] by simp
    then have "drop (unat (4 * of_nat b * of_nat k :: u32)) (pre @ (words_of regs @ out) @ rest) = words_of regs @ out @ rest"
      by simp
    moreover have "unpack_blocks m (Suc k) ((pre @ words_of regs) @ out @ rest) (of_nat b) = Inr (take (128 * m) (drop 128 inp))"
      by (rule out(3)) (use p r(2) in \<open>simp_all add: algebra_simps\<close>)
    ultimately show ?thesis
      using r(3) words by (simp add: SIMD_fastunpack_32_def take_add)
  qed
  moreover have "pack_blocks (Suc m) inp (of_nat b) = Inr (words_of regs @ out)"
    using r(1) out(1) by (simp add: SIMD_fastpackwithoutmask_32_def GlobalBlockSize_def)
  moreover have "length (words_of regs @ out) = 4 * b * Suc m" using r(2) out(2) by simp
  ultimately show ?case by blast
qed

text \<open>
  The round trip, when the input may be read one register further and the offsets fit 32 bits.
  What is written is as long as \<open>compressedSize\<close> says and the padding behind the two header words.
\<close>

lemma global_roundtrip:
  fixes inp :: "u32 list" and n :: nat
  defines "b \<equiv> maxbits (take n inp)"
  assumes n: "128 dvd n" "n \<le> length inp" and room: "b \<in> {4, 8, 16} \<longrightarrow> n + 4 \<le> length inp"
    and small: "4 * b * n < 2 ^ 32" "n < 2 ^ 32" and out: "\<not> needPaddingTo128Bits outaddr"
  shows "\<exists>out. global_encodeArray addr inp n = Inr out
    \<and> 4 * length out = global_compressedSize (take n inp) + 4 * length (pad_loop (addr + 2))
    \<and> (\<forall>rest. global_decodeArray addr outaddr (out @ rest) = Inr (take n inp, rest, n))"
proof -
  from n(1) obtain m where m: "n = 128 * m" by (elim dvdE)
  have b: "b \<le> 32" unfolding b_def by simp
  have fit: "\<forall>x\<in>set (take (128 * m) inp). unat x < 2 ^ b" unfolding b_def m using maxbits_bound by blast
  from pack_blocks_roundtrip[OF _ _ b fit] n room m obtain body where
    body: "pack_blocks m inp (of_nat b) = Inr body" "length body = 4 * b * m"
      "\<And>pre rest k. length pre = 4 * b * k \<Longrightarrow> 4 * b * (k + m) < 2 ^ 32 \<Longrightarrow>
         unpack_blocks m k (pre @ body @ rest) (of_nat b) = Inr (take (128 * m) inp)" by auto
  have "4 * b * (0 + m) \<le> 4 * b * n" unfolding m by (rule mult_le_mono2) simp
  then have dec: "unpack_blocks m 0 (body @ rest) (of_nat b) = Inr (take n inp)" for rest
    using body(3)[of "[]" 0 rest] small(1) m by simp
  have nm: "n div 128 = m" "n mod 128 = 0" using m by simp_all
  have n1: "unat (of_nat n :: u32) = n" using small(2) by (simp add: unat_of_nat)
  have "unat (of_nat n div 128 :: u32) = n div 128" using n1 by (simp add: unat_div)
  then have n': "unat (of_nat n :: u32) = n" "unat (of_nat n div 128 :: u32) = m" using n1 m by simp_all
  have "unat (4 * of_nat b * of_nat n div 128 :: u32) = 4 * b * n div 128"
    using word_product[OF small(1)] by (simp add: unat_div)
  also have "\<dots> = length body" by (simp add: body(2) m)
  finally have off: "unat (4 * of_nat b * of_nat n div 128 :: u32) = length body" .
  have "global_encodeArray addr inp n = Inr (of_nat n # of_nat b # pad_loop (addr + 2) @ body)"
    using nm body(1) by (simp add: global_encodeArray_def checkifdivisibleby_def divisibleby_def GlobalBlockSize_def b_def[symmetric] Let_def)
  moreover have "4 * length (of_nat n # of_nat b # pad_loop (addr + 2) @ body)
      = global_compressedSize (take n inp) + 4 * length (pad_loop (addr + 2))"
    using n(2) nm body(2) by (simp add: global_compressedSize_def GlobalBlockSize_def b_def[symmetric])
  moreover have "global_decodeArray addr outaddr ((of_nat n # of_nat b # pad_loop (addr + 2) @ body) @ rest)
      = Inr (take n inp, rest, n)" for rest
    using out dec n' off by (simp add: global_decodeArray_def skip_cookies_pad)
  ultimately show ?thesis by blast
qed

section \<open>Bit widths of differences\<close>

definition bits :: "u32 \<Rightarrow> nat" where
  "bits v = (if v = 0 then 0 else 32 - builtin_clz v)"

definition block_maxbits :: "u32 list \<Rightarrow> nat res" where
  "block_maxbits begin =
     (if length begin < 128 then Inl OutOfBounds else Inr (bits (maxbits_loop 0 (take 128 begin))))"

definition maxbitas32int :: "m128 \<Rightarrow> nat" where
  "maxbitas32int accumulator =
     bits (lane0 accumulator OR lane1 accumulator OR lane2 accumulator OR lane3 accumulator)"

text \<open>The loop: the accumulator, the last register and those that are left.\<close>

fun maxbitsd1_loop :: "m128 \<Rightarrow> m128 \<Rightarrow> m128 list \<Rightarrow> m128" where
  "maxbitsd1_loop accumulator oldvec [] = accumulator"
| "maxbitsd1_loop accumulator oldvec (newvec # pin) =
     maxbitsd1_loop (mm_or_si128 accumulator (Delta newvec oldvec)) newvec pin"

definition simdmaxbitsd1 :: "u32 \<Rightarrow> m128 list \<Rightarrow> nat res" where
  "simdmaxbitsd1 initvalue pin =
     (if length pin < 32 then Inl OutOfBounds
      else
        let newvec = hd pin;
            accumulator = Delta newvec (mm_set1_epi32 initvalue) in
        Inr (maxbitas32int (maxbitsd1_loop accumulator newvec (tl (take 32 pin)))))"

text \<open>The width is the least that fits: all differences fit \<open>b\<close> bits iff \<open>b\<close> is not below it.\<close>

lemma bits_le: "bits v \<le> b \<longleftrightarrow> unat v < 2 ^ b"
proof
  assume "bits v \<le> b"
  then have "\<not> bit v m" if "b \<le> m" for m
    using that gccbits_bits[of v m] by (simp add: bits_def gccbits_def split: if_splits)
  then show "unat v < 2 ^ b" by (simp add: unat_less_power_iff_bits)
next
  assume "unat v < 2 ^ b"
  then have z: "\<not> bit v m" if "b \<le> m" for m using that by (simp add: unat_less_power_iff_bits)
  show "bits v \<le> b"
  proof (cases "v = 0 \<or> 32 \<le> b")
    case False
    then have "[0..<32] = [0..<b] @ [b..<32]" by (metis le_add_diff_inverse linear upt_add_eq_append zero_le)
    then have "rev [0..<32] = rev [b..<32] @ rev [0..<b]" by (metis rev_append)
    moreover have "takeWhile (\<lambda>n. \<not> bit v n) (rev [b..<32] @ rev [0..<b])
        = rev [b..<32] @ takeWhile (\<lambda>n. \<not> bit v n) (rev [0..<b])"
      by (rule takeWhile_append2) (simp add: z)
    ultimately have "takeWhile (\<lambda>n. \<not> bit v n) (rev [0..<32])
        = rev [b..<32] @ takeWhile (\<lambda>n. \<not> bit v n) (rev [0..<b])" by (simp only:)
    then have "32 - b \<le> builtin_clz v" by (simp add: builtin_clz_def)
    with False show ?thesis by (simp add: bits_def)
  qed (auto simp: bits_def)
qed

lemma unat_or_less: "unat (v OR w :: u32) < 2 ^ b \<longleftrightarrow> unat v < 2 ^ b \<and> unat w < 2 ^ b"
  by (auto simp: unat_less_power_iff_bits bit_simps)

lemma maxbitas32int_le: "maxbitas32int r \<le> b \<longleftrightarrow> fits b r"
  by (cases r) (simp add: maxbitas32int_def bits_le unat_or_less fits_M128)

lemma fits_or: "fits b (mm_or_si128 r s) \<longleftrightarrow> fits b r \<and> fits b s"
  by (cases r; cases s) (auto simp: fits_M128 unat_or_less mm_or_si128_def zip_lanes_def)

lemma maxbitsd1_loop_fits:
  "fits b (maxbitsd1_loop acc old rs) \<longleftrightarrow> fits b acc \<and> (\<forall>d\<in>set (delta_regs old rs). fits b d)"
  by (induction rs arbitrary: acc old) (auto simp: fits_or)

lemma simdmaxbitsd1_least:
  assumes "length rs = 32"
  shows "\<exists>m\<le>32. simdmaxbitsd1 v rs = Inr m
    \<and> (\<forall>b. m \<le> b \<longleftrightarrow> (\<forall>i<32. fits b (delta_regs (mm_set1_epi32 v) rs ! i)))"
proof -
  obtain r rs' where rs: "rs = r # rs'" using assms by (cases rs) auto
  let ?acc = "maxbitsd1_loop (Delta r (mm_set1_epi32 v)) r rs'"
  have "fits b ?acc \<longleftrightarrow> (\<forall>d\<in>set (delta_regs (mm_set1_epi32 v) rs). fits b d)" for b
    by (simp add: maxbitsd1_loop_fits rs)
  then have "maxbitas32int ?acc \<le> b \<longleftrightarrow> (\<forall>i<32. fits b (delta_regs (mm_set1_epi32 v) rs ! i))" for b
    using assms by (auto simp: maxbitas32int_le all_set_conv_all_nth)
  moreover have "simdmaxbitsd1 v rs = Inr (maxbitas32int ?acc)"
    using assms by (simp add: simdmaxbitsd1_def rs)
  moreover have "maxbitas32int ?acc \<le> 32" by (simp add: maxbitas32int_def bits_def)
  ultimately show ?thesis by blast
qed

text \<open>Packing the differences with that width loses nothing.\<close>

lemma simdmaxbitsd1_packs:
  assumes "length rs = 32"
  shows "\<exists>m out. simdmaxbitsd1 v rs = Inr m \<and> simdpackwithoutmaskd1 v rs (of_nat m) = Some out \<and> length out = m
    \<and> (\<forall>rest. simdunpackd1 v (out @ rest) (of_nat m) = Some rs)"
proof -
  from simdmaxbitsd1_least[OF assms, of v] obtain m where
    m: "m \<le> 32" "simdmaxbitsd1 v rs = Inr m"
      "\<forall>b. m \<le> b \<longleftrightarrow> (\<forall>i<32. fits b (delta_regs (mm_set1_epi32 v) rs ! i))" by blast
  then have f: "m < 32 \<longrightarrow> (\<forall>i<32. fits m (delta_regs (mm_set1_epi32 v) rs ! i))" by blast
  note p = pack_unpack_block[OF assms m(1) f]
  from p obtain out where out: "simdpackwithoutmaskd1 v rs (of_nat m) = Some out" "length out = m" by blast
  with p have "simdunpackd1 v (out @ rest) (of_nat m) = Some rs" for rest by (metis option.inject)
  with out m(2) show ?thesis by blast
qed

end
