(* ===== verification/ByteStream.thy ===== *)
theory ByteStream
  imports Prelude
begin

text \<open>
  Words in memory and in streams.  The sources write integers with
  \<open>out.write((char*)&x, 4)\<close> and read them back the same way, on little-endian machines; a
  \<open>uint32_t\<close> buffer that is also used as a byte buffer has the same layout.
\<close>

section \<open>Little-endian words\<close>

definition word_bytes :: "u32 \<Rightarrow> bytes" where
  "word_bytes w = [ucast w, ucast (drop_bit 8 w), ucast (drop_bit 16 w), ucast (drop_bit 24 w)]"

definition word_of_bytes :: "u8 \<Rightarrow> u8 \<Rightarrow> u8 \<Rightarrow> u8 \<Rightarrow> u32" where
  "word_of_bytes a b c d =
     ucast a OR push_bit 8 (ucast b) OR push_bit 16 (ucast c) OR push_bit 24 (ucast d)"

fun words_bytes :: "u32 list \<Rightarrow> bytes" where
  "words_bytes [] = []"
| "words_bytes (w # ws) = word_bytes w @ words_bytes ws"

fun bytes_words :: "bytes \<Rightarrow> u32 list" where
  "bytes_words (a # b # c # d # bs) = word_of_bytes a b c d # bytes_words bs"
| "bytes_words bs = []"

lemma word_of_word_bytes:
  "word_of_bytes (ucast w) (ucast (drop_bit 8 w)) (ucast (drop_bit 16 w)) (ucast (drop_bit 24 w)) = w"
  unfolding word_of_bytes_def
proof (rule bit_word_eqI)
  fix n
  show "bit (ucast (ucast w :: u8) OR push_bit 8 (ucast (ucast (drop_bit 8 w) :: u8))
      OR push_bit 16 (ucast (ucast (drop_bit 16 w) :: u8))
      OR push_bit 24 (ucast (ucast (drop_bit 24 w) :: u8)) :: u32) n = bit w n" if "n < LENGTH(32)"
    using that by (cases "24 \<le> n"; cases "16 \<le> n"; auto simp: bit_simps)
qed

lemma bytes_of_word_of_bytes:
  "ucast (word_of_bytes a b c d) = a"
  "ucast (drop_bit 8 (word_of_bytes a b c d)) = b"
  "ucast (drop_bit 16 (word_of_bytes a b c d)) = c"
  "ucast (drop_bit 24 (word_of_bytes a b c d)) = d"
  unfolding word_of_bytes_def
  by (rule bit_word_eqI; auto simp: bit_simps dest: bit_imp_le_length)+

lemma length_word_bytes [simp]: "length (word_bytes w) = 4"
  by (simp add: word_bytes_def)

lemma length_words_bytes [simp]: "length (words_bytes ws) = 4 * length ws"
  by (induction ws) auto

lemma bytes_words_word_bytes [simp]: "bytes_words (word_bytes w @ bs) = w # bytes_words bs"
  by (simp add: word_bytes_def word_of_word_bytes)

lemma bytes_words_words_bytes [simp]: "bytes_words (words_bytes ws @ bs) = ws @ bytes_words bs"
  by (induction ws) auto

lemma bytes_words_words_bytes' [simp]: "bytes_words (words_bytes ws) = ws"
  using bytes_words_words_bytes[of ws "[]"] by simp

lemma words_bytes_bytes_words: "4 dvd length bs \<Longrightarrow> words_bytes (bytes_words bs) = bs"
proof (induction bs rule: bytes_words.induct)
  case (1 a b c d bs)
  from 1(2) have "4 dvd 4 + length bs" by (simp add: eval_nat_numeral)
  then have "4 dvd length bs" by (simp only: dvd_add_right_iff dvd_refl)
  with 1 show ?case by (simp add: word_bytes_def bytes_of_word_of_bytes)
qed (auto dest: dvd_imp_le)

lemma words_bytes_append [simp]: "words_bytes (ws @ vs) = words_bytes ws @ words_bytes vs"
  by (induction ws) auto

section \<open>Input streams\<close>

text \<open>
  \<open>in.read(p, n)\<close> takes the next \<open>n\<close> bytes.  The sources do not test the stream after a
  read; where it ends too early they go on with whatever memory held, and the model stops with
  an error.
\<close>

definition stream_read :: "nat \<Rightarrow> bytes \<Rightarrow> (bytes \<times> bytes) res" where
  "stream_read n s = (if n \<le> length s then Inr (take n s, drop n s) else Inl OutOfBounds)"

definition read_word :: "bytes \<Rightarrow> (u32 \<times> bytes) res" where
  "read_word s = rbind (stream_read 4 s) (\<lambda>(bs, s'). Inr (hd (bytes_words bs), s'))"

definition read_words :: "nat \<Rightarrow> bytes \<Rightarrow> (u32 list \<times> bytes) res" where
  "read_words n s = rbind (stream_read (n * 4) s) (\<lambda>(bs, s'). Inr (bytes_words bs, s'))"

lemma stream_read_append [simp]: "n = length bs \<Longrightarrow> stream_read n (bs @ s) = Inr (bs, s)"
  by (simp add: stream_read_def)

lemma read_word_append [simp]: "read_word (word_bytes w @ s) = Inr (w, s)"
  using bytes_words_word_bytes[of w "[]"] by (simp add: read_word_def)

lemma read_words_append [simp]: "n = length ws \<Longrightarrow> read_words n (words_bytes ws @ s) = Inr (ws, s)"
  by (simp add: read_words_def)

end
