(* ===== verification/ZUtil.thy ===== *)
theory ZUtil
  imports ByteStream
begin

text \<open>
  The helpers of \<open>src/src/ZUtil.hpp\<close>: variable-length integers of 64 and 32 bits, strings
  prefixed with their length, and the decimal conversions.  A pointer and its limit are the
  bytes between them; a \<open>leveldb::Slice\<close> is its bytes.
\<close>

section \<open>Variable-length integers\<close>

text \<open>The bytes \<open>EncodeVarint64\<close> stores behind \<open>dst\<close>.\<close>

function EncodeVarint64 :: "u64 \<Rightarrow> bytes" where
  "EncodeVarint64 v =
     (if v \<ge> 128 then ucast ((v AND 127) OR 128) # EncodeVarint64 (drop_bit 7 v) else [ucast v])"
  by pat_completeness auto
termination
  by (relation "measure unat") (auto simp: drop_bit_eq_div word_le_nat_alt word_less_nat_alt unat_div)

declare EncodeVarint64.simps [simp del]

text \<open>The buffer is \<open>char buf[10]\<close>.\<close>

definition PutVarint64 :: "bytes \<Rightarrow> u64 \<Rightarrow> bytes res" where
  "PutVarint64 dst v =
     (let out = EncodeVarint64 v in if length out \<le> 10 then Inr (dst @ out) else Inl OutOfBounds)"

definition EncodeVarint32 :: "u32 \<Rightarrow> bytes" where
  "EncodeVarint32 v =
     (if v < 2 ^ 7 then [ucast v]
      else if v < 2 ^ 14 then [ucast (v OR 128), ucast (drop_bit 7 v)]
      else if v < 2 ^ 21 then [ucast (v OR 128), ucast (drop_bit 7 v OR 128), ucast (drop_bit 14 v)]
      else if v < 2 ^ 28 then
        [ucast (v OR 128), ucast (drop_bit 7 v OR 128), ucast (drop_bit 14 v OR 128), ucast (drop_bit 21 v)]
      else [ucast (v OR 128), ucast (drop_bit 7 v OR 128), ucast (drop_bit 14 v OR 128),
            ucast (drop_bit 21 v OR 128), ucast (drop_bit 28 v)])"

definition PutVarint32 :: "bytes \<Rightarrow> u32 \<Rightarrow> bytes res" where
  "PutVarint32 dst v =
     (let out = EncodeVarint32 v in if length out \<le> 5 then Inr (dst @ out) else Inl OutOfBounds)"

text \<open>The loop of \<open>GetVarint32PtrFallback\<close> from the pointer on; \<open>None\<close> is the null pointer.\<close>

fun varint32_loop :: "nat \<Rightarrow> u32 \<Rightarrow> bytes \<Rightarrow> (u32 \<times> bytes) option" where
  "varint32_loop shift result [] = None"
| "varint32_loop shift result (b # p) =
     (if shift \<le> 28 then
        let byte = ucast b :: u32 in
        if byte AND 128 \<noteq> 0 then varint32_loop (shift + 7) (result OR push_bit shift (byte AND 127)) p
        else Some (result OR push_bit shift byte, p)
      else None)"

definition GetVarint32PtrFallback :: "bytes \<Rightarrow> (u32 \<times> bytes) option" where
  "GetVarint32PtrFallback p = varint32_loop 0 0 p"

definition GetVarint32Ptr :: "bytes \<Rightarrow> (u32 \<times> bytes) option" where
  "GetVarint32Ptr p =
     (case p of
        [] \<Rightarrow> GetVarint32PtrFallback p
      | b # p' \<Rightarrow> (let result = ucast b :: u32 in
          if result AND 128 = 0 then Some (result, p') else GetVarint32PtrFallback p))"

text \<open>\<open>GetVarint32(Slice* input, uint32_t* value)\<close>: what it returns, and both pointees afterwards.\<close>

definition GetVarint32 :: "bytes \<Rightarrow> u32 \<Rightarrow> bool \<times> bytes \<times> u32" where
  "GetVarint32 input value =
     (case GetVarint32Ptr input of
        None \<Rightarrow> (False, input, value)
      | Some (v, q) \<Rightarrow> (True, q, v))"

section \<open>Strings with a length prefix\<close>

definition PutLengthPrefixedSlice :: "bytes \<Rightarrow> bytes \<Rightarrow> bytes res" where
  "PutLengthPrefixedSlice dst value =
     rbind (PutVarint32 dst (of_nat (length value))) (\<lambda>dst'. Inr (dst' @ value))"

text \<open>The overload on pointers; the result is the slice and the position behind it.\<close>

definition GetLengthPrefixedSlicePtr :: "bytes \<Rightarrow> (bytes \<times> bytes) option" where
  "GetLengthPrefixedSlicePtr p =
     (case GetVarint32Ptr p of
        None \<Rightarrow> None
      | Some (len, p') \<Rightarrow>
          if unat len > length p' then None else Some (take (unat len) p', drop (unat len) p'))"

text \<open>The overload on slices: a length that is read is consumed even when the string is too short.\<close>

definition GetLengthPrefixedSlice :: "bytes \<Rightarrow> bytes \<Rightarrow> bool \<times> bytes \<times> bytes" where
  "GetLengthPrefixedSlice input result =
     (case GetVarint32 input 0 of (ok, input', len) \<Rightarrow>
        if ok \<and> unat len \<le> length input' then (True, drop (unat len) input', take (unat len) input')
        else (False, input', result))"

section \<open>The reference encoding\<close>

text \<open>Base 128, least significant group first, the top bit set on all bytes but the last.\<close>

fun base128 :: "nat \<Rightarrow> bytes" where
  "base128 n = (if n < 128 then [of_nat n] else of_nat (n mod 128 + 128) # base128 (n div 128))"

declare base128.simps [simp del]

lemma low_group_add:
  fixes w :: "'a::len word"
  assumes "8 \<le> LENGTH('a)"
  shows "(of_nat (unat w mod 128 + 128) :: u8) = take_bit 7 (ucast w) OR 128"
proof -
  have "unat w mod 128 = unat (take_bit 7 w)"
    by (simp add: unsigned_take_bit_eq take_bit_eq_mod[of 7 "unat w"])
  then have "(of_nat (unat w mod 128 + 128) :: u8) = ucast (take_bit 7 w) + 128"
    by simp
  also have "(ucast (take_bit 7 w) :: u8) = take_bit 7 (ucast w)"
    using assms by (intro bit_word_eqI) (auto simp: bit_simps)
  also have "(take_bit 7 (ucast w) :: u8) + 128 = take_bit 7 (ucast w) OR 128"
  proof (rule disjunctive_add)
    fix n show "\<not> bit (take_bit 7 (ucast w :: u8)) n \<or> \<not> bit (128 :: u8) n"
      using bit_exp_iff[of 7 n, where 'a = u8] by (auto simp: bit_simps)
  qed
  finally show ?thesis .
qed
lemma low_group:
  fixes w :: "'a::len word"
  assumes "8 \<le> LENGTH('a)"
  shows "(ucast ((w AND 127) OR 128) :: u8) = of_nat (unat w mod 128 + 128)"
    and "(ucast (w OR 128) :: u8) = of_nat (unat w mod 128 + 128)"
  unfolding low_group_add[OF assms] using assms
  by (intro bit_word_eqI; auto simp: bit_simps bit_127 bit_128)+

lemma unat_shift: "unat (drop_bit k w) = unat w div 2 ^ k"
  by (rule trans[OF unat_drop_bit_eq drop_bit_eq_div])

lemma EncodeVarint64_base128: "EncodeVarint64 v = base128 (unat v)"
proof (induction v rule: EncodeVarint64.induct)
  case (1 v)
  show ?case
  proof (cases "128 \<le> v")
    case True
    then have "\<not> unat v < 128" by (simp add: word_le_nat_alt)
    with True 1[OF True] low_group(1)[of v] unat_shift[of 7 v] show ?thesis
      by (subst EncodeVarint64.simps, subst base128.simps) simp
  next
    case False
    then have "unat v < 128" by (simp add: word_le_nat_alt)
    with False show ?thesis
      by (subst EncodeVarint64.simps, subst base128.simps) simp
  qed
qed

lemma base128_small: "n < 128 \<Longrightarrow> base128 n = [of_nat n]"
  by (subst base128.simps) simp

lemma base128_large: "\<not> n < 128 \<Longrightarrow> base128 n = of_nat (n mod 128 + 128) # base128 (n div 128)"
  by (subst base128.simps) simp

lemma EncodeVarint32_base128: "EncodeVarint32 v = base128 (unat v)"
proof -
  have group: "(ucast (drop_bit k v OR 128) :: u8) = of_nat (unat v div 2 ^ k mod 128 + 128)" for k
    using low_group(2)[of "drop_bit k v"] by (simp add: unat_shift)
  have last: "(ucast (drop_bit k v) :: u8) = of_nat (unat v div 2 ^ k)" for k
    by (simp flip: unat_shift)
  have below: "unat v < 4294967296" using unsigned_less[of v] by simp
  show ?thesis
    using below low_group(2)[of v] last[of 0]
    by (simp add: EncodeVarint32_def word_less_nat_alt group last base128_small base128_large
        div_mult2_eq[symmetric] del: of_nat_unat of_nat_add)
qed

lemma length_base128: "n < 128 ^ Suc k \<Longrightarrow> length (base128 n) \<le> Suc k"
proof (induction k arbitrary: n)
  case 0 then show ?case by (simp add: base128_small)
next
  case (Suc k)
  then have "n div 128 < 128 ^ Suc k" by (simp add: div_less_iff_less_mult mult.commute)
  from Suc.IH[OF this] show ?case by (cases "n < 128") (simp_all add: base128_small base128_large)
qed

lemma PutVarint64_ok [simp]: "PutVarint64 dst v = Inr (dst @ base128 (unat v))"
  using length_base128[of "unat v" 9] unat_u64[of v] by (simp add: PutVarint64_def EncodeVarint64_base128 Let_def)

lemma PutVarint32_ok [simp]: "PutVarint32 dst v = Inr (dst @ base128 (unat v))"
  using length_base128[of "unat v" 4] unat_u32[of v] by (simp add: PutVarint32_def EncodeVarint32_base128 Let_def)

lemma base128_neq_Nil [simp]: "base128 n \<noteq> []"
  by (subst base128.simps) simp

text \<open>No encoding is a proper prefix of another: two strings that start with one agree on it.\<close>

lemma base128_last: "n < 128 \<Longrightarrow> (of_nat n :: u8) < 128"
  by (simp add: word_less_nat_alt unat_of_nat)

lemma base128_more: "\<not> (of_nat (n mod 128 + 128) :: u8) < 128"
proof -
  have "n mod 128 + 128 < 256" using mod_less_divisor[of 128 n] by linarith
  then show ?thesis by (simp add: word_less_nat_alt unat_of_nat del: of_nat_add)
qed

lemma of_nat_u8_eq: "m < 256 \<Longrightarrow> n < 256 \<Longrightarrow> (of_nat m :: u8) = of_nat n \<longleftrightarrow> m = n"
  by (simp add: word_unat_eq_iff unat_of_nat)

lemma base128_prefix: "base128 m @ xs = base128 n @ ys \<longleftrightarrow> m = n \<and> xs = ys"
proof (induction m arbitrary: n rule: base128.induct)
  case (1 m)
  consider (ss) "m < 128" "n < 128" | (sl) "m < 128" "\<not> n < 128" | (ls) "\<not> m < 128" "n < 128" | (ll) "\<not> m < 128" "\<not> n < 128"
    by blast
  then show ?case
  proof cases
    case ss then show ?thesis by (auto simp: base128_small of_nat_u8_eq)
  next
    case sl
    then have "base128 m @ xs \<noteq> base128 n @ ys" using base128_last[of m] base128_more[of n]
      by (auto simp: base128_small base128_large simp del: of_nat_add)
    with sl show ?thesis by auto
  next
    case ls
    then have "base128 m @ xs \<noteq> base128 n @ ys" using base128_last[of n] base128_more[of m]
      by (auto simp: base128_small base128_large simp del: of_nat_add)
    with ls show ?thesis by auto
  next
    case ll
    have "m mod 128 + 128 < 256" "n mod 128 + 128 < 256" by (simp_all add: mod_less_divisor less_diff_conv[symmetric])
    then have "(of_nat (m mod 128 + 128) :: u8) = of_nat (n mod 128 + 128) \<longleftrightarrow> m mod 128 = n mod 128"
      by (simp add: of_nat_u8_eq del: of_nat_add)
    with ll 1[OF ll(1), of "n div 128"] show ?thesis
      by (simp add: base128_large del: of_nat_add) (metis div_mult_mod_eq)
  qed
qed

lemma base128_inj [simp]: "base128 m = base128 n \<longleftrightarrow> m = n"
  using base128_prefix[of m "[]" n "[]"] by simp

section \<open>Decoding\<close>

lemma of_nat_take_bit: "(of_nat (unat (x :: u32) mod 128) :: u32) = x AND 127"
proof -
  have "(of_nat (unat x mod 128) :: u32) = take_bit 7 x"
    by (simp add: take_bit_eq_mod word_unat_eq_iff unat_of_nat unat_mod_distrib)
  then show ?thesis by (simp add: take_bit_eq_mask mask_eq_exp_minus_1)
qed

lemma small_bits: "unat (x :: u32) < 128 \<Longrightarrow> 7 \<le> n \<Longrightarrow> \<not> bit x n"
  using unat_less_power_iff_bits[of x 7] by auto

lemma group_last:
  assumes "unat (x :: u32) < 128"
  shows "(ucast (of_nat (unat x) :: u8) :: u32) = x" and "x AND 128 = 0"
proof -
  show "x AND 128 = 0"
    using small_bits[OF assms] by (intro bit_word_eqI) (auto simp: bit_simps bit_128)
  show "(ucast (of_nat (unat x) :: u8) :: u32) = x"
    unfolding of_nat_unat
  proof (rule bit_word_eqI)
    fix n show "bit (ucast (ucast x :: u8) :: u32) n \<longleftrightarrow> bit x n"
      using small_bits[OF assms, of n] by (cases "n < 8") (auto simp: bit_simps dest: bit_imp_le_length)
  qed
qed

lemma group_more:
  "(ucast (of_nat (unat (x :: u32) mod 128 + 128) :: u8) :: u32) AND 127 = x AND 127"
  "(ucast (of_nat (unat (x :: u32) mod 128 + 128) :: u8) :: u32) AND 128 \<noteq> 0"
proof -
  have eq: "(of_nat (unat x mod 128 + 128) :: u8) = ucast (x OR 128)"
    using low_group(2)[of x] by simp
  show "(ucast (of_nat (unat x mod 128 + 128) :: u8) :: u32) AND 127 = x AND 127"
    unfolding eq by (intro bit_word_eqI) (auto simp: bit_simps bit_127 bit_128)
  have "bit ((ucast (ucast (x OR 128) :: u8) :: u32) AND 128) 7"
    by (simp add: bit_simps bit_128)
  then show "(ucast (of_nat (unat x mod 128 + 128) :: u8) :: u32) AND 128 \<noteq> 0"
    unfolding eq by (metis bit_0_eq bot_apply bot_bool_def)
qed

lemma push_groups:
  "(r OR push_bit shift (x AND 127)) OR push_bit (shift + 7) (drop_bit 7 x) = r OR push_bit shift (x :: u32)"
proof (intro bit_word_eqI)
  fix n
  show "bit ((r OR push_bit shift (x AND 127)) OR push_bit (shift + 7) (drop_bit 7 x)) n \<longleftrightarrow> bit (r OR push_bit shift x) n"
    if "n < LENGTH(32)"
    using that by (cases "shift + 7 \<le> n") (auto simp: bit_simps bit_127)
qed

lemma varint32_loop_base128:
  "shift + 7 * length (base128 (unat x)) \<le> 35 \<Longrightarrow>
   varint32_loop shift r (base128 (unat x) @ rest) = Some (r OR push_bit shift x, rest)"
proof (induction "unat x" arbitrary: x shift r rule: base128.induct)
  case 1
  show ?case
  proof (cases "unat x < 128")
    case True
    with 1(2) group_last[OF True] show ?thesis by (simp add: base128_small del: of_nat_unat)
  next
    case False
    have eq: "unat (drop_bit 7 x) = unat x div 128" using unat_shift[of 7 x] by simp
    from 1(2) False have "shift + 7 + 7 * length (base128 (unat (drop_bit 7 x))) \<le> 35" 
      by (simp add: base128_large eq)
    from 1(1)[OF False eq[symmetric] this] False 1(2) push_groups[of r shift x] show ?thesis
      by (simp add: base128_large group_more eq Let_def del: of_nat_add)
  qed
qed

theorem GetVarint32Ptr_base128: "GetVarint32Ptr (base128 (unat v) @ rest) = Some (v, rest)"
proof -
  have len: "7 * length (base128 (unat v)) \<le> 35"
    using length_base128[of "unat v" 4] unat_u32[of v] by simp
  have fallback: "GetVarint32PtrFallback (base128 (unat v) @ rest) = Some (v, rest)"
    using varint32_loop_base128[of 0 v 0 rest] len by (simp add: GetVarint32PtrFallback_def)
  show ?thesis
  proof (cases "unat v < 128")
    case True
    then show ?thesis using group_last[OF True] by (simp add: GetVarint32Ptr_def base128_small Let_def del: of_nat_unat)
  next
    case False
    then show ?thesis using fallback group_more(2)[of v]
      by (simp add: GetVarint32Ptr_def base128_large Let_def del: of_nat_add)
  qed
qed

lemma GetVarint32_base128 [simp]: "GetVarint32 (base128 (unat v) @ rest) x = (True, rest, v)"
  by (simp add: GetVarint32_def GetVarint32Ptr_base128)

lemma GetVarint32_Nil [simp]: "GetVarint32 [] x = (False, [], x)"
  by (simp add: GetVarint32_def GetVarint32Ptr_def GetVarint32PtrFallback_def)

lemma GetLengthPrefixedSlice_Nil [simp]: "GetLengthPrefixedSlice [] r = (False, [], r)"
  by (simp add: GetLengthPrefixedSlice_def)

text \<open>A string with its prefix, and reading it back.\<close>

definition prefixed :: "bytes \<Rightarrow> bytes" where
  "prefixed s = base128 (length s) @ s"

lemma PutLengthPrefixedSlice_ok:
  assumes "length s < 2 ^ 32"
  shows "PutLengthPrefixedSlice dst s = Inr (dst @ prefixed s)"
  using assms by (simp add: PutLengthPrefixedSlice_def prefixed_def unat_of_nat take_bit_nat_eq_self)

lemma GetLengthPrefixedSlice_prefixed:
  assumes "length s < 2 ^ 32"
  shows "GetLengthPrefixedSlice (prefixed s @ rest) r = (True, rest, s)"
proof -
  have "unat (of_nat (length s) :: u32) = length s"
    using assms by (simp add: unat_of_nat take_bit_nat_eq_self)
  then show ?thesis
    using GetVarint32_base128[of "of_nat (length s)" "s @ rest" 0]
    by (simp add: GetLengthPrefixedSlice_def prefixed_def)
qed

text \<open>A string cut short is refused, with its length consumed.\<close>

lemma GetLengthPrefixedSlice_short:
  assumes "length s < 2 ^ 32" and "n < length s"
  shows "GetLengthPrefixedSlice (base128 (length s) @ take n s) r = (False, take n s, r)"
proof -
  have "unat (of_nat (length s) :: u32) = length s"
    using assms by (simp add: unat_of_nat take_bit_nat_eq_self)
  then show ?thesis
    using GetVarint32_base128[of "of_nat (length s)" "take n s" 0] assms
    by (simp add: GetLengthPrefixedSlice_def)
qed

end
