(* ===== verification/KVStore.thy ===== *)
theory KVStore
  imports ZUtil
begin

text \<open>
  The key-value stores: the interface \<open>src/src/IKVStore.h\<close> with its contract, the store in
  memory (\<open>src/src/KVStoreInMemory.hpp\<close>) and the view of a store under a name space
  (\<open>src/src/NameSpaceKVStore.hpp\<close>).  Integer keys are stored as their variable-length encoding.
\<close>

section \<open>The interface\<close>

datatype status = kOk | kNotFound | kCorruption | kNotSupported | kInvalidArgument | kIOError

definition status_ok :: "status \<Rightarrow> bool" where
  "status_ok s \<longleftrightarrow> s = kOk"

lemma status_ok_simps [simp]: "status_ok kOk" "\<not> status_ok kNotFound"
  by (simp_all add: status_ok_def)

text \<open>
  The virtual methods.  \<open>Get\<close> takes the value its reference argument holds and returns the one it
  holds afterwards; the overloads on integers build the key first, which could fail.
\<close>

record 's kv_vtable =
  kv_Put :: "bytes \<Rightarrow> bytes \<Rightarrow> 's \<Rightarrow> status \<times> 's"
  kv_Put64 :: "u64 \<Rightarrow> bytes \<Rightarrow> 's \<Rightarrow> (status \<times> 's) res"
  kv_Get :: "bytes \<Rightarrow> bytes \<Rightarrow> 's \<Rightarrow> status \<times> bytes"
  kv_Get64 :: "u64 \<Rightarrow> bytes \<Rightarrow> 's \<Rightarrow> (status \<times> bytes) res"
  kv_Delete :: "bytes \<Rightarrow> 's \<Rightarrow> status \<times> 's"
  kv_Delete64 :: "u64 \<Rightarrow> 's \<Rightarrow> (status \<times> 's) res"
  kv_PutMany :: "(bytes \<times> bytes) list \<Rightarrow> 's \<Rightarrow> status \<times> 's"
  kv_PutMany32 :: "(u32 \<times> bytes) list \<Rightarrow> 's \<Rightarrow> (status \<times> 's) res"

text \<open>The key an integer is stored under.\<close>

definition int_key :: "'a::len word \<Rightarrow> bytes" where
  "int_key n = base128 (unat n)"

lemma int_key_inj [simp]: "int_key m = int_key n \<longleftrightarrow> m = n"
  by (simp add: int_key_def word_unat_eq_iff)

lemma int_key_ucast: "int_key (ucast (n :: u32) :: u64) = int_key n"
proof -
  have "unat (ucast n :: u64) = unat n" by (simp add: unsigned_ucast_eq take_bit_nat_eq_self order_less_le_trans[OF unat_u32])
  then show ?thesis by (simp add: int_key_def)
qed

section \<open>The contract\<close>

text \<open>Writing the pairs of a list one after the other.\<close>

definition put_all :: "('k \<times> 'v) list \<Rightarrow> ('k \<rightharpoonup> 'v) \<Rightarrow> ('k \<rightharpoonup> 'v)" where
  "put_all ws m = fold (\<lambda>(k, v) m. m(k \<mapsto> v)) ws m"

lemma put_all_simps [simp]: "put_all [] m = m" "put_all ((k, v) # ws) m = put_all ws (m(k \<mapsto> v))"
  by (simp_all add: put_all_def)

lemma put_all_apply: "put_all ws m k = (case map_of (rev ws) k of None \<Rightarrow> m k | Some v \<Rightarrow> Some v)"
  by (induction ws arbitrary: m) (auto simp: map_add_def split: option.splits)

text \<open>
  \<open>amap\<close> is the finite map a store stands for.  Every write succeeds and every read is answered from
  the map.
\<close>

locale kv_store =
  fixes V :: "'s kv_vtable" and amap :: "'s \<Rightarrow> (bytes \<rightharpoonup> bytes)" and wf :: "'s \<Rightarrow> bool"
  assumes Put: "wf s \<Longrightarrow> \<exists>s'. kv_Put V k v s = (kOk, s') \<and> amap s' = (amap s)(k \<mapsto> v) \<and> wf s'"
    and Get: "wf s \<Longrightarrow> kv_Get V k x s = (case amap s k of None \<Rightarrow> (kNotFound, x) | Some v \<Rightarrow> (kOk, v))"
    and Delete: "wf s \<Longrightarrow> \<exists>st s'. kv_Delete V k s = (st, s') \<and> amap s' = (amap s)(k := None) \<and> wf s'"
    and PutMany: "wf s \<Longrightarrow> \<exists>s'. kv_PutMany V ws s = (kOk, s') \<and> amap s' = put_all ws (amap s) \<and> wf s'"
    and Put64: "kv_Put64 V n v s = Inr (kv_Put V (int_key n) v s)"
    and Get64: "kv_Get64 V n x s = Inr (kv_Get V (int_key n) x s)"
    and Delete64: "kv_Delete64 V n s = Inr (kv_Delete V (int_key n) s)"
    and PutMany32: "wf s \<Longrightarrow> \<exists>s'. kv_PutMany32 V iws s = Inr (kOk, s')
      \<and> amap s' = put_all (map (\<lambda>(n, v). (int_key n, v)) iws) (amap s) \<and> wf s'"

section \<open>The store in memory\<close>

text \<open>A \<open>std::map\<close> is read and written by key only, so it is the map itself.\<close>

record kv_memory =
  mem_map :: "bytes \<rightharpoonup> bytes"
  mem_batch :: "(bytes \<times> bytes) list"

definition new_kv_memory :: kv_memory where
  "new_kv_memory = \<lparr>mem_map = (\<lambda>_. None), mem_batch = []\<rparr>"

definition mem_Open :: "kv_memory \<Rightarrow> status \<times> kv_memory" where
  "mem_Open s = (kOk, s)"

definition mem_Put :: "bytes \<Rightarrow> bytes \<Rightarrow> kv_memory \<Rightarrow> status \<times> kv_memory" where
  "mem_Put key value s =
     (case mem_map s key of
        Some _ \<Rightarrow> (kOk, s\<lparr>mem_map := (mem_map s)(key \<mapsto> value)\<rparr>)
      | None \<Rightarrow> (kOk, s\<lparr>mem_map := (mem_map s)(key \<mapsto> value)\<rparr>))"

definition mem_Put64 :: "u64 \<Rightarrow> bytes \<Rightarrow> kv_memory \<Rightarrow> (status \<times> kv_memory) res" where
  "mem_Put64 key value s = rbind (PutVarint64 [] key) (\<lambda>strKey. Inr (mem_Put strKey value s))"

definition mem_Get :: "bytes \<Rightarrow> bytes \<Rightarrow> kv_memory \<Rightarrow> status \<times> bytes" where
  "mem_Get key value s =
     (case mem_map s key of Some v \<Rightarrow> (kOk, v) | None \<Rightarrow> (kNotFound, value))"

definition mem_Get64 :: "u64 \<Rightarrow> bytes \<Rightarrow> kv_memory \<Rightarrow> (status \<times> bytes) res" where
  "mem_Get64 key value s = rbind (PutVarint64 [] key) (\<lambda>strKey. Inr (mem_Get strKey value s))"

definition mem_Delete :: "bytes \<Rightarrow> kv_memory \<Rightarrow> status \<times> kv_memory" where
  "mem_Delete key s =
     (case mem_map s key of
        Some _ \<Rightarrow> (kOk, s\<lparr>mem_map := (mem_map s)(key := None)\<rparr>)
      | None \<Rightarrow> (kNotFound, s))"

definition mem_Delete64 :: "u64 \<Rightarrow> kv_memory \<Rightarrow> (status \<times> kv_memory) res" where
  "mem_Delete64 key s = rbind (PutVarint64 [] key) (\<lambda>strKey. Inr (mem_Delete strKey s))"

text \<open>The two loops that count the writes that failed.\<close>

fun mem_PutMany32_loop :: "(u32 \<times> bytes) list \<Rightarrow> u32 \<Rightarrow> kv_memory \<Rightarrow> (u32 \<times> kv_memory) res" where
  "mem_PutMany32_loop [] countMissed s = Inr (countMissed, s)"
| "mem_PutMany32_loop (w # writes) countMissed s =
     rbind (mem_Put64 (ucast (fst w)) (snd w) s) (\<lambda>(st, s').
       mem_PutMany32_loop writes (if \<not> status_ok st then countMissed + 1 else countMissed) s')"

definition mem_PutMany32 :: "(u32 \<times> bytes) list \<Rightarrow> kv_memory \<Rightarrow> (status \<times> kv_memory) res" where
  "mem_PutMany32 writes s =
     rbind (mem_PutMany32_loop writes 0 s) (\<lambda>(countMissed, s').
       Inr (if countMissed \<noteq> 0 then kCorruption else kOk, s'))"

fun mem_PutMany_loop :: "(bytes \<times> bytes) list \<Rightarrow> u32 \<Rightarrow> kv_memory \<Rightarrow> u32 \<times> kv_memory" where
  "mem_PutMany_loop [] countMissed s = (countMissed, s)"
| "mem_PutMany_loop (w # writes) countMissed s =
     (case mem_Put (fst w) (snd w) s of (st, s') \<Rightarrow>
       mem_PutMany_loop writes (if \<not> status_ok st then countMissed + 1 else countMissed) s')"

definition mem_PutMany :: "(bytes \<times> bytes) list \<Rightarrow> kv_memory \<Rightarrow> status \<times> kv_memory" where
  "mem_PutMany writes s =
     (case mem_PutMany_loop writes 0 s of (countMissed, s') \<Rightarrow>
       (if countMissed \<noteq> 0 then kCorruption else kOk, s'))"

text \<open>The batch: \<open>DeleteBatch\<close> does nothing and \<open>writeBatch\<close> keeps what it wrote.\<close>

definition mem_PutBatch :: "bytes \<Rightarrow> bytes \<Rightarrow> kv_memory \<Rightarrow> kv_memory" where
  "mem_PutBatch key value s = s\<lparr>mem_batch := mem_batch s @ [(key, value)]\<rparr>"

definition mem_PutBatch64 :: "u64 \<Rightarrow> bytes \<Rightarrow> kv_memory \<Rightarrow> kv_memory res" where
  "mem_PutBatch64 key value s = rbind (PutVarint64 [] key) (\<lambda>keystr. Inr (mem_PutBatch keystr value s))"

definition mem_DeleteBatch :: "bytes \<Rightarrow> kv_memory \<Rightarrow> kv_memory" where
  "mem_DeleteBatch key s = s"

definition mem_ClearBatch :: "kv_memory \<Rightarrow> kv_memory" where
  "mem_ClearBatch s = s\<lparr>mem_batch := []\<rparr>"

definition mem_writeBatch :: "kv_memory \<Rightarrow> status \<times> kv_memory" where
  "mem_writeBatch s = (case mem_PutMany (mem_batch s) s of (_, s') \<Rightarrow> (kOk, s'))"

definition mem_vtable :: "kv_memory kv_vtable" where
  "mem_vtable = \<lparr>kv_Put = mem_Put, kv_Put64 = mem_Put64, kv_Get = mem_Get, kv_Get64 = mem_Get64,
     kv_Delete = mem_Delete, kv_Delete64 = mem_Delete64, kv_PutMany = mem_PutMany,
     kv_PutMany32 = mem_PutMany32\<rparr>"

lemma mem_Put_simp [simp]: "mem_Put k v s = (kOk, s\<lparr>mem_map := (mem_map s)(k \<mapsto> v)\<rparr>)"
  by (simp add: mem_Put_def split: option.splits)

lemma mem_PutMany_loop_ok:
  "mem_PutMany_loop ws c s = (c, s\<lparr>mem_map := put_all ws (mem_map s)\<rparr>)"
  by (induction ws arbitrary: s) (auto simp: case_prod_beta)

lemma mem_PutMany32_loop_ok:
  "mem_PutMany32_loop ws c s = Inr (c, s\<lparr>mem_map := put_all (map (\<lambda>(n, v). (int_key n, v)) ws) (mem_map s)\<rparr>)"
proof (induction ws arbitrary: s)
  case (Cons w ws)
  show ?case
    using Cons int_key_ucast[of "fst w"] by (cases w) (simp add: mem_Put64_def int_key_def fun_upd_def)
qed simp

interpretation mem: kv_store mem_vtable mem_map "\<lambda>_. True"
proof
  show "kv_Get mem_vtable k x s = (case mem_map s k of None \<Rightarrow> (kNotFound, x) | Some v \<Rightarrow> (kOk, v))" for k x s
    by (simp add: mem_vtable_def mem_Get_def split: option.split)
  show "\<exists>st s'. kv_Delete mem_vtable k s = (st, s') \<and> mem_map s' = (mem_map s)(k := None) \<and> True" for k s
    by (auto simp: mem_vtable_def mem_Delete_def fun_upd_idem split: option.split)
qed (simp_all add: mem_vtable_def mem_PutMany_def mem_PutMany_loop_ok mem_PutMany32_def mem_PutMany32_loop_ok
    mem_Put64_def mem_Get64_def mem_Delete64_def int_key_def)

section \<open>Name spaces\<close>

text \<open>A store seen through keys that all begin with the character \<open>n\<close>.\<close>

definition ns_Open :: "'s \<Rightarrow> status \<times> 's" where
  "ns_Open s = (kOk, s)"

definition ns_Put :: "'s kv_vtable \<Rightarrow> u8 \<Rightarrow> bytes \<Rightarrow> bytes \<Rightarrow> 's \<Rightarrow> status \<times> 's" where
  "ns_Put V n key value s = (let nkey = n # key in kv_Put V nkey value s)"

definition ns_Put64 :: "'s kv_vtable \<Rightarrow> u8 \<Rightarrow> u64 \<Rightarrow> bytes \<Rightarrow> 's \<Rightarrow> (status \<times> 's) res" where
  "ns_Put64 V n key value s = rbind (PutVarint64 [] key) (\<lambda>keystr. Inr (kv_Put V (n # keystr) value s))"

definition ns_Get :: "'s kv_vtable \<Rightarrow> u8 \<Rightarrow> bytes \<Rightarrow> bytes \<Rightarrow> 's \<Rightarrow> status \<times> bytes" where
  "ns_Get V n key value s = (let nkey = n # key in kv_Get V nkey value s)"

definition ns_Get64 :: "'s kv_vtable \<Rightarrow> u8 \<Rightarrow> u64 \<Rightarrow> bytes \<Rightarrow> 's \<Rightarrow> (status \<times> bytes) res" where
  "ns_Get64 V n key value s = rbind (PutVarint64 [] key) (\<lambda>keystr. Inr (kv_Get V (n # keystr) value s))"

definition ns_Delete :: "'s kv_vtable \<Rightarrow> u8 \<Rightarrow> bytes \<Rightarrow> 's \<Rightarrow> status \<times> 's" where
  "ns_Delete V n key s = (let nkey = n # key in kv_Delete V nkey s)"

definition ns_Delete64 :: "'s kv_vtable \<Rightarrow> u8 \<Rightarrow> u64 \<Rightarrow> 's \<Rightarrow> (status \<times> 's) res" where
  "ns_Delete64 V n key s = rbind (PutVarint64 [] key) (\<lambda>keystr. Inr (kv_Delete V (n # keystr) s))"

definition ns_PutMany :: "'s kv_vtable \<Rightarrow> u8 \<Rightarrow> (bytes \<times> bytes) list \<Rightarrow> 's \<Rightarrow> status \<times> 's" where
  "ns_PutMany V n writes s = kv_PutMany V (map (\<lambda>w. (n # fst w, snd w)) writes) s"

definition ns_writes32 :: "u8 \<Rightarrow> (u32 \<times> bytes) list \<Rightarrow> (bytes \<times> bytes) list res" where
  "ns_writes32 n writes =
     fold_res (\<lambda>writesNs w. rbind (PutVarint64 [] (ucast (fst w))) (\<lambda>keystr.
       Inr (writesNs @ [(n # keystr, snd w)]))) [] writes"

definition ns_PutMany32 :: "'s kv_vtable \<Rightarrow> u8 \<Rightarrow> (u32 \<times> bytes) list \<Rightarrow> 's \<Rightarrow> (status \<times> 's) res" where
  "ns_PutMany32 V n writes s =
     rbind (ns_writes32 n writes) (\<lambda>writesNs. Inr (kv_PutMany V writesNs s))"

definition ns_vtable :: "u8 \<Rightarrow> 's kv_vtable \<Rightarrow> 's kv_vtable" where
  "ns_vtable n V = \<lparr>kv_Put = ns_Put V n, kv_Put64 = ns_Put64 V n, kv_Get = ns_Get V n, kv_Get64 = ns_Get64 V n,
     kv_Delete = ns_Delete V n, kv_Delete64 = ns_Delete64 V n, kv_PutMany = ns_PutMany V n,
     kv_PutMany32 = ns_PutMany32 V n\<rparr>"

definition ns_abs :: "u8 \<Rightarrow> ('s \<Rightarrow> (bytes \<rightharpoonup> bytes)) \<Rightarrow> 's \<Rightarrow> (bytes \<rightharpoonup> bytes)" where
  "ns_abs n amap s = (\<lambda>k. amap s (n # k))"

lemma put_all_prefix: "(\<lambda>k. put_all (map (\<lambda>w. (n # fst w, snd w)) ws) m (n # k)) = put_all ws (\<lambda>k. m (n # k))"
proof (induction ws arbitrary: m)
  case (Cons w ws)
  have "(\<lambda>k. (m(n # fst w \<mapsto> snd w)) (n # k)) = (\<lambda>k. m (n # k))(fst w \<mapsto> snd w)" by auto
  with Cons show ?case by (cases w) simp
qed simp

lemma put_all_other: "a \<noteq> n \<Longrightarrow> put_all (map (\<lambda>w. (n # fst w, snd w)) ws) m (a # k) = m (a # k)"
  by (induction ws arbitrary: m) auto

lemma ns_writes32_ok:
  "ns_writes32 n iws = Inr (map (\<lambda>w. (n # fst w, snd w)) (map (\<lambda>(i, v). (int_key i, v)) iws))"
proof -
  have "fold_res (\<lambda>writesNs w. rbind (PutVarint64 [] (ucast (fst w))) (\<lambda>keystr. Inr (writesNs @ [(n # keystr, snd w)]))) acc iws
    = Inr (acc @ map (\<lambda>w. (n # fst w, snd w)) (map (\<lambda>(i, v). (int_key i, v)) iws))" for acc
  proof (induction iws arbitrary: acc)
    case (Cons w iws)
    then show ?case using int_key_ucast[of "fst w"] by (cases w) (simp add: int_key_def)
  qed simp
  from this[of "[]"] show ?thesis by (simp add: ns_writes32_def)
qed

context kv_store
begin

text \<open>A name space of a store keeps the contract of a store, on its part of the map.\<close>

lemma name_space: "kv_store (ns_vtable n V) (ns_abs n amap) wf"
proof
  show "\<exists>s'. kv_Put (ns_vtable n V) k v s = (kOk, s') \<and> ns_abs n amap s' = (ns_abs n amap s)(k \<mapsto> v) \<and> wf s'"
    if "wf s" for s k v
    using Put[OF that, of "n # k" v] by (auto simp: ns_vtable_def ns_Put_def ns_abs_def fun_eq_iff)
  show "kv_Get (ns_vtable n V) k x s = (case ns_abs n amap s k of None \<Rightarrow> (kNotFound, x) | Some v \<Rightarrow> (kOk, v))"
    if "wf s" for s k x
    using Get[OF that, of "n # k" x] by (simp add: ns_vtable_def ns_Get_def ns_abs_def)
  show "\<exists>st s'. kv_Delete (ns_vtable n V) k s = (st, s') \<and> ns_abs n amap s' = (ns_abs n amap s)(k := None) \<and> wf s'"
    if "wf s" for s k
    using Delete[OF that, of "n # k"] by (auto simp: ns_vtable_def ns_Delete_def ns_abs_def fun_eq_iff)
  show "\<exists>s'. kv_PutMany (ns_vtable n V) ws s = (kOk, s') \<and> ns_abs n amap s' = put_all ws (ns_abs n amap s) \<and> wf s'"
    if "wf s" for s ws
    using PutMany[OF that, of "map (\<lambda>w. (n # fst w, snd w)) ws"]
    by (auto simp: ns_vtable_def ns_PutMany_def ns_abs_def put_all_prefix)
  show "\<exists>s'. kv_PutMany32 (ns_vtable n V) iws s = Inr (kOk, s')
      \<and> ns_abs n amap s' = put_all (map (\<lambda>(n, v). (int_key n, v)) iws) (ns_abs n amap s) \<and> wf s'"
    if "wf s" for s iws
    using PutMany[OF that, of "map (\<lambda>w. (n # fst w, snd w)) (map (\<lambda>(n, v). (int_key n, v)) iws)"]
    by (auto simp: ns_vtable_def ns_PutMany32_def ns_abs_def ns_writes32_ok simp flip: put_all_prefix simp del: map_map)
qed (simp_all add: ns_vtable_def ns_Put64_def ns_Get64_def ns_Delete64_def ns_Put_def ns_Get_def ns_Delete_def int_key_def)

end

interpretation ns_mem: kv_store "ns_vtable n mem_vtable" "ns_abs n mem_map" "\<lambda>_. True" for n
  by (rule mem.name_space)

end
