(* ===== verification/VariableByte.thy ===== *)
theory VariableByte
  imports Prelude
begin

text \<open>
  The codec \<open>VariableByte\<close> of \<^verbatim>\<open>varint/bitpacking/variablebyte.h\<close>: seven bits a byte, low
  bits first, the last byte of a value marked by its high bit, and the whole padded with zero
  bytes to a multiple of four.  Decoding has a fast loop, which reads whole values while more
  than five bytes are left, and a slow one, which watches the end of the buffer.
\<close>

section \<open>Encoding\<close>

definition extract7bits :: "nat \<Rightarrow> u32 \<Rightarrow> u32" where
  "extract7bits i val = drop_bit (7 * i) val AND (push_bit 7 1 - 1)"

definition extract7bitsmaskless :: "nat \<Rightarrow> u32 \<Rightarrow> u32" where
  "extract7bitsmaskless i val = drop_bit (7 * i) val"

text \<open>The bytes one value is written as; an assignment to \<open>*bout\<close> keeps the low eight bits.\<close>

definition vb_encode_value :: "u32 \<Rightarrow> bytes" where
  "vb_encode_value val =
     (if val < push_bit 7 1 then
        [ucast (val OR push_bit 7 1)]
      else if val < push_bit 14 1 then
        [ucast (extract7bits 0 val), ucast (extract7bitsmaskless 1 val OR push_bit 7 1)]
      else if val < push_bit 21 1 then
        [ucast (extract7bits 0 val), ucast (extract7bits 1 val),
         ucast (extract7bitsmaskless 2 val OR push_bit 7 1)]
      else if val < push_bit 28 1 then
        [ucast (extract7bits 0 val), ucast (extract7bits 1 val), ucast (extract7bits 2 val),
         ucast (extract7bitsmaskless 3 val OR push_bit 7 1)]
      else
        [ucast (extract7bits 0 val), ucast (extract7bits 1 val), ucast (extract7bits 2 val),
         ucast (extract7bits 3 val), ucast (extract7bitsmaskless 4 val OR push_bit 7 1)])"

fun vb_encode_values :: "u32 list \<Rightarrow> bytes" where
  "vb_encode_values [] = []"
| "vb_encode_values (val # vals) = vb_encode_value val @ vb_encode_values vals"

text \<open>
  \<open>while (needPaddingTo32Bits(bout)) *bout++ = 0\<close>: \<open>out\<close> points to 32-bit words, so that the
  alignment of \<open>bout\<close> is that of the number of bytes written.
\<close>

function vb_pad :: "nat \<Rightarrow> bytes" where
  "vb_pad n = (if n mod 4 \<noteq> 0 then 0 # vb_pad (Suc n) else [])"
  by pat_completeness auto
termination
  by (relation "measure (\<lambda>n. (4 - n mod 4) mod 4)") (auto simp: mod_Suc)

declare vb_pad.simps [simp del]

definition vb_encodeArray :: "u32 list \<Rightarrow> bytes" where
  "vb_encodeArray inp = vb_encode_values inp @ vb_pad (length (vb_encode_values inp))"

text \<open>\<open>compressedSize\<close> counts in \<open>uint32_t byteOut\<close>, which wraps.\<close>

fun vb_count :: "u32 \<Rightarrow> u32 list \<Rightarrow> u32" where
  "vb_count byteOut [] = byteOut"
| "vb_count byteOut (val # vals) =
     vb_count (if val < push_bit 7 1 then byteOut + 1
               else if val < push_bit 14 1 then byteOut + 2
               else if val < push_bit 21 1 then byteOut + 3
               else if val < push_bit 28 1 then byteOut + 4
               else byteOut + 5) vals"

lemma unat_and_3: "unat (byteOut AND 3 :: u32) = unat byteOut mod 4"
proof -
  have "unat byteOut AND 3 = take_bit 2 (unat byteOut)" using take_bit_eq_mask[of 2 "unat byteOut"] by (simp add: mask_eq_exp_minus_1)
  then show ?thesis by (simp add: unsigned_and_eq take_bit_eq_mod)
qed

function vb_round_up :: "u32 \<Rightarrow> u32" where
  "vb_round_up byteOut = (if byteOut AND 3 \<noteq> 0 then vb_round_up (byteOut + 1) else byteOut)"
  by pat_completeness auto
termination
proof (relation "measure (\<lambda>n :: u32. (4 - unat n mod 4) mod 4)", goal_cases)
  case (2 n)
  have "unat n mod 4 \<noteq> 0" using 2 unat_and_3[of n] by (metis unat_eq_zero)
  moreover have "unat n mod 4 < 4" by simp
  ultimately consider "unat n mod 4 = 1" | "unat n mod 4 = 2" | "unat n mod 4 = 3" by linarith
  moreover have "unat (n + 1) mod 4 = Suc (unat n) mod 4" by (simp add: unat_word_ariths mod_mod_cancel)
  ultimately show ?case by cases (simp_all add: mod_Suc)
qed simp

declare vb_round_up.simps [simp del]

definition vb_compressedSize :: "u32 list \<Rightarrow> nat" where
  "vb_compressedSize inp = unat (vb_round_up (vb_count 0 inp))"

section \<open>Decoding\<close>

text \<open>\<open>read_int\<close>: the value read and the number of bytes it took.\<close>

definition low7 :: "u8 \<Rightarrow> u32" where
  "low7 b = ucast b AND 0x7F"

definition read_int :: "bytes \<Rightarrow> (u32 \<times> nat) option" where
  "read_int inp =
     (let byte = (\<lambda>i. if i < length inp then Some (inp ! i) else None) in
      Option.bind (byte 0) (\<lambda>b0. let v0 = low7 b0 in if b0 \<ge> 128 then Some (v0, 1) else
      Option.bind (byte 1) (\<lambda>b1. let v1 = push_bit 7 (low7 b1) OR v0 in if b1 \<ge> 128 then Some (v1, 2) else
      Option.bind (byte 2) (\<lambda>b2. let v2 = push_bit 14 (low7 b2) OR v1 in if b2 \<ge> 128 then Some (v2, 3) else
      Option.bind (byte 3) (\<lambda>b3. let v3 = push_bit 21 (low7 b3) OR v2 in if b3 \<ge> 128 then Some (v3, 4) else
      Option.bind (byte 4) (\<lambda>b4. Some (push_bit 28 (low7 b4) OR v3, 5)))))))"

lemma read_int_pos: "read_int inp = Some (v, n) \<Longrightarrow> 0 < n"
  by (auto simp: read_int_def Let_def bind_eq_Some_conv split: if_splits)

text \<open>\<open>while (endbyte > inbyte + 5)\<close>: the values read and the bytes left.\<close>

function vb_fast :: "bytes \<Rightarrow> (u32 list \<times> bytes) res" where
  "vb_fast inp =
     (if length inp > 5
      then (case read_int inp of
              None \<Rightarrow> Inl OutOfBounds
            | Some (v, n) \<Rightarrow> rbind (vb_fast (drop n inp)) (\<lambda>(vs, rest). Inr (v # vs, rest)))
      else Inr ([], inp))"
  by pat_completeness auto
termination
  by (relation "measure length") (auto dest: read_int_pos)

declare vb_fast.simps [simp del]

text \<open>The inner loop of the second phase: one value, or nothing when the bytes run out.\<close>

fun vb_slow_value :: "nat \<Rightarrow> u32 \<Rightarrow> bytes \<Rightarrow> u32 option \<times> bytes" where
  "vb_slow_value shift v [] = (None, [])"
| "vb_slow_value shift v (c # cs) =
     (let v' = v + push_bit shift (ucast (c AND 127)) in
      if c AND 128 \<noteq> 0 then (Some v', cs) else vb_slow_value (shift + 7) v' cs)"

lemma vb_slow_value_shorter:
  "vb_slow_value shift v inp = (r, rest) \<Longrightarrow> inp \<noteq> [] \<Longrightarrow> length rest < length inp"
proof (induction shift v inp rule: vb_slow_value.induct)
  case (2 shift v c cs)
  then show ?case by (cases "cs = []") (auto simp: Let_def split: if_splits)
qed simp

function vb_slow :: "bytes \<Rightarrow> u32 list" where
  "vb_slow inp =
     (if inp = [] then []
      else case vb_slow_value 0 0 inp of
        (None, rest) \<Rightarrow> vb_slow rest
      | (Some v, rest) \<Rightarrow> v # vb_slow rest)"
  by pat_completeness auto
termination
  by (relation "measure length") (auto dest: vb_slow_value_shorter sym)

declare vb_slow.simps [simp del]

definition vb_decodeArray :: "bytes \<Rightarrow> u32 list res" where
  "vb_decodeArray inp =
     (if inp = [] then Inr []
      else rbind (vb_fast inp) (\<lambda>(vs, rest). Inr (vs @ vb_slow rest)))"

section \<open>Bytes of one value\<close>

lemmas value_defs = vb_encode_value_def extract7bits_def extract7bitsmaskless_def

lemma high_bit_iff: "(c AND 128 \<noteq> 0) \<longleftrightarrow> bit (c::u8) 7"
proof -
  have "c AND 128 = (if bit c 7 then 128 else 0)"
    using and_exp_eq_0_iff_not_bit[of c 7]
    by (intro bit_word_eqI) (auto simp: bit_simps less_Suc_eq numeral_eq_Suc)
  then show ?thesis by simp
qed

lemma ge_128_iff: "128 \<le> c \<longleftrightarrow> bit (c::u8) 7"
proof -
  have "128 \<le> c \<longleftrightarrow> \<not> unat c < 2 ^ 7" by (auto simp: word_le_nat_alt)
  also have "\<dots> \<longleftrightarrow> (\<exists>m\<ge>7. bit c m)" by (simp only: unat_less_power_iff_bits) blast
  also have "\<dots> \<longleftrightarrow> bit c 7"
  proof -
    have "m = 7" if "7 \<le> m" "bit c m" for m
      using bit_imp_le_length[OF that(2)] that(1) by simp
    then show ?thesis by auto
  qed
  finally show ?thesis .
qed

lemma unat_exp_u32: "n < 32 \<Longrightarrow> unat (2 ^ n :: u32) = 2 ^ n"
proof -
  assume "n < 32"
  then have "(2::nat) ^ n < 2 ^ LENGTH(32)" by (intro power_strict_increasing) simp_all
  then have "unat (of_nat (2 ^ n) :: u32) = 2 ^ n" by (simp add: unat_of_nat del: of_nat_power)
  then show ?thesis by simp
qed

lemma less_push_bit_1: "n < 32 \<Longrightarrow> (val::u32) < push_bit n 1 \<longleftrightarrow> (\<forall>m\<ge>n. \<not> bit val m)"
  by (simp add: word_less_nat_alt unat_exp_u32 flip: unat_less_power_iff_bits)

text \<open>The simplifier reads a word numeral's bits off the integer numeral.\<close>

declare bit_127 [simp] bit_128 [simp]

lemma bit_extract7: "bit (extract7bits i v) n \<longleftrightarrow> n < 7 \<and> bit v (7 * i + n)"
proof -
  have "push_bit 7 1 - 1 = (127::u32)" by simp
  then have "extract7bits i v = drop_bit (7 * i) v AND 127" by (simp only: extract7bits_def)
  then show ?thesis by (auto simp: bit_simps)
qed

lemma bit_maskless: "bit (extract7bitsmaskless i v) n \<longleftrightarrow> bit v (7 * i + n)"
  by (simp add: extract7bitsmaskless_def bit_simps)

lemma low7_ucast: "low7 b = ucast (b AND 127)"
  unfolding low7_def by (rule bit_word_eqI) (auto simp: bit_simps)

text \<open>A byte that is not the last one carries its group and no mark; the last one both.\<close>

lemma byte_more:
  "low7 (ucast (extract7bits i v)) = extract7bits i v"
  "\<not> bit (ucast (extract7bits i v) :: u8) 7"
  unfolding low7_def
  by (rule bit_word_eqI) (auto simp: bit_simps bit_extract7)

lemma byte_last:
  assumes "\<forall>m\<ge>7 * i + 7. \<not> bit v m"
  shows "low7 (ucast (extract7bitsmaskless i v OR push_bit 7 1)) = extract7bitsmaskless i v"
    and "bit (ucast (extract7bitsmaskless i v OR push_bit 7 1) :: u8) 7"
proof -
  have lt: "n < 7" if "bit v (7 * i + n)" for n using assms that by (metis add_le_cancel_left not_less)
  show "low7 (ucast (extract7bitsmaskless i v OR push_bit 7 1)) = extract7bitsmaskless i v"
    unfolding low7_def
    by (rule bit_word_eqI) (auto simp: bit_simps bit_maskless dest: lt)
qed (simp add: bit_simps)

text \<open>The groups of seven bits put a value together again, by or and by addition.\<close>

definition groups :: "nat \<Rightarrow> u32 \<Rightarrow> u32" where
  "groups k v = take_bit (7 * k) v"

lemma groups_Suc_or: "push_bit (7 * k) (extract7bits k v) OR groups k v = groups (Suc k) v"
  unfolding groups_def
  by (rule bit_word_eqI) (auto simp: bit_simps bit_extract7)

lemma groups_last_or: "push_bit (7 * k) (extract7bitsmaskless k v) OR groups k v = v"
  unfolding groups_def
  by (rule bit_word_eqI) (auto simp: bit_simps bit_maskless)

lemma groups_disjoint: "groups k v AND push_bit (7 * k) w = 0"
  unfolding groups_def
  by (rule bit_word_eqI) (auto simp: bit_simps)

lemma groups_add: "groups k v + push_bit (7 * k) w = push_bit (7 * k) w OR groups k v"
  by (simp add: disjunctive_add_eq_or groups_disjoint or.commute)


section \<open>Round trip of one value\<close>

text \<open>The five shapes of an encoded value: its groups of seven bits and where it ends.\<close>

lemma vb_encode_value_cases:
  obtains (last) k where "k \<le> 4" and "\<forall>m\<ge>7 * k + 7. \<not> bit val m"
    and "vb_encode_value val =
      map (\<lambda>i. ucast (extract7bits i val)) [0..<k] @ [ucast (extract7bitsmaskless k val OR push_bit 7 1)]"
proof -
  have m0: "extract7bitsmaskless 0 val = val" by (simp add: extract7bitsmaskless_def)
  have top: "\<forall>m\<ge>35. \<not> bit val m" by (auto dest: bit_imp_le_length)
  consider "val < push_bit 7 1"
    | "\<not> val < push_bit 7 1" "val < push_bit 14 1"
    | "\<not> val < push_bit 7 1" "\<not> val < push_bit 14 1" "val < push_bit 21 1"
    | "\<not> val < push_bit 7 1" "\<not> val < push_bit 14 1" "\<not> val < push_bit 21 1" "val < push_bit 28 1"
    | "\<not> val < push_bit 7 1" "\<not> val < push_bit 14 1" "\<not> val < push_bit 21 1" "\<not> val < push_bit 28 1"
    by blast
  then show thesis
  proof cases
    case 1
    then show thesis
      using less_push_bit_1[of 7 val] by (intro last[of 0]) (simp_all add: vb_encode_value_def m0)
  next
    case 2
    then show thesis
      using less_push_bit_1[of 14 val] by (intro last[of 1]) (simp_all add: vb_encode_value_def)
  next
    case 3
    then show thesis
      using less_push_bit_1[of 21 val]
      by (intro last[of 2]) (simp_all add: vb_encode_value_def numeral_2_eq_2)
  next
    case 4
    then show thesis
      using less_push_bit_1[of 28 val]
      by (intro last[of 3]) (simp_all add: vb_encode_value_def numeral_3_eq_3 numeral_2_eq_2)
  next
    case 5
    then show thesis
      using top by (intro last[of 4]) (simp_all add: vb_encode_value_def upt_rec numeral_3_eq_3 numeral_2_eq_2)
  qed
qed

lemma length_vb_encode_value: "0 < length (vb_encode_value val)" "length (vb_encode_value val) \<le> 5"
  by (cases val rule: vb_encode_value_cases; simp)+

lemma groups_0: "groups 0 v = 0"
  by (simp add: groups_def)

lemma read_int_value: "read_int (vb_encode_value val @ rest) = Some (val, length (vb_encode_value val))"
proof (cases val rule: vb_encode_value_cases)
  case (last k)
  have g: "push_bit (7 * i) (extract7bits i val) OR groups i val = groups (Suc i) val" for i
    by (rule groups_Suc_or)
  have g1: "groups (Suc 0) val = extract7bits 0 val"
    using g[of 0] by (simp add: groups_0)
  have g4: "groups (Suc (Suc (Suc (Suc 0)))) val = groups 4 val" by (simp add: eval_nat_numeral)
  have l0: "k = 0 \<Longrightarrow> extract7bitsmaskless 0 val = val" by (simp add: extract7bitsmaskless_def)
  note more = byte_more[of _ val] and lastb = byte_last[OF last(2)]
  from last(1) consider "k = 0" | "k = 1" | "k = 2" | "k = 3" | "k = 4" by linarith
  then show ?thesis
  proof cases
    case 1
    with last(3) lastb l0 show ?thesis by (simp add: read_int_def ge_128_iff Let_def)
  next
    case 2
    with last(3) lastb more g1 groups_last_or[of 1 val] show ?thesis
      by (simp add: read_int_def ge_128_iff Let_def)
  next
    case 3
    with last(3) lastb more g1 g[of 1] groups_last_or[of 2 val] show ?thesis
      by (simp add: read_int_def ge_128_iff Let_def numeral_2_eq_2)
  next
    case 4
    with last(3) lastb more g1 g[of 1] g[of 2] groups_last_or[of 3 val] show ?thesis
      by (simp add: read_int_def ge_128_iff Let_def numeral_3_eq_3 numeral_2_eq_2)
  next
    case 5
    with last(3) lastb more g1 g4 g[of 1] g[of 2] g[of 3] groups_last_or[of 4 val] show ?thesis
      by (simp add: read_int_def ge_128_iff Let_def upt_rec numeral_3_eq_3 numeral_2_eq_2)
  qed
qed


lemma vb_slow_groups:
  assumes "i \<le> k" and "\<forall>m\<ge>7 * k + 7. \<not> bit val m"
  shows "vb_slow_value (7 * i) (groups i val)
      (map (\<lambda>i. ucast (extract7bits i val)) [i..<k]
        @ ucast (extract7bitsmaskless k val OR push_bit 7 1) # rest) = (Some val, rest)"
  using assms(1)
proof (induction i rule: inc_induct)
  case base
  have "groups k val + push_bit (7 * k) (extract7bitsmaskless k val) = val"
    by (simp add: groups_add groups_last_or)
  with byte_last[OF assms(2)] show ?case
    by (simp add: Let_def high_bit_iff flip: low7_ucast)
next
  case (step i)
  have "groups i val + push_bit (7 * i) (extract7bits i val) = groups (Suc i) val"
    by (simp add: groups_add groups_Suc_or)
  then show ?case using step byte_more[of i val]
    by (simp add: Let_def high_bit_iff upt_conv_Cons add.commute[of "7 * i"] flip: low7_ucast)
qed

lemma vb_slow_value_encoded: "vb_slow_value 0 0 (vb_encode_value val @ rest) = (Some val, rest)"
proof (cases val rule: vb_encode_value_cases)
  case (last k)
  from vb_slow_groups[OF le0 last(2), of rest] show ?thesis
    by (simp add: last(3) groups_0)
qed

section \<open>Round trip of an array\<close>

lemma vb_slow_value_zeros: "vb_slow_value shift v (replicate n 0) = (None, [])"
  by (induction n arbitrary: shift v) (simp_all add: Let_def)

lemma vb_slow_zeros: "vb_slow (replicate n 0) = []"
  by (cases n) (simp_all add: vb_slow.simps vb_slow_value_zeros del: replicate_Suc
      flip: replicate_Suc)

lemma vb_slow_encoded: "vb_slow (vb_encode_values vals @ replicate n 0) = vals"
proof (induction vals)
  case (Cons val vals)
  have "vb_encode_value val @ vb_encode_values vals @ replicate n 0 \<noteq> []"
    using length_vb_encode_value(1)[of val] by auto
  with Cons show ?case
    by (simp add: vb_slow_value_encoded vb_slow.simps[of "vb_encode_value val @ _"])
qed (simp add: vb_slow_zeros)

lemma vb_fast_encoded:
  assumes "n \<le> 3"
  shows "\<exists>vs ws. vb_fast (vb_encode_values vals @ replicate n 0)
      = Inr (vs, vb_encode_values ws @ replicate n 0) \<and> vals = vs @ ws"
proof (induction vals)
  case Nil
  from assms show ?case by (simp add: vb_fast.simps)
next
  case (Cons val vals)
  let ?rest = "vb_encode_values vals @ replicate n 0"
  show ?case
  proof (cases "length (vb_encode_value val @ ?rest) > 5")
    case True
    from Cons obtain vs ws where "vb_fast ?rest = Inr (vs, vb_encode_values ws @ replicate n 0)"
      and "vals = vs @ ws" by blast
    with True read_int_value[of val ?rest]
    have "vb_fast (vb_encode_value val @ ?rest) = Inr (val # vs, vb_encode_values ws @ replicate n 0)"
      by (subst vb_fast.simps) simp
    with \<open>vals = vs @ ws\<close> show ?thesis by (metis append_Cons append.assoc vb_encode_values.simps(2))
  next
    case False
    then have "vb_fast (vb_encode_value val @ ?rest) = Inr ([], vb_encode_value val @ ?rest)"
      by (subst vb_fast.simps) simp
    then show ?thesis by (metis append.assoc append_Nil vb_encode_values.simps(2))
  qed
qed

lemma vb_pad_replicate: "vb_pad n = replicate ((4 - n mod 4) mod 4) 0"
proof (induction n rule: vb_pad.induct)
  case (1 n)
  show ?case
  proof (cases "n mod 4 = 0")
    case True
    then show ?thesis by (subst vb_pad.simps) simp
  next
    case False
    then have "Suc ((4 - Suc n mod 4) mod 4) = (4 - n mod 4) mod 4"
      by (auto simp: mod_Suc)
    with 1 False show ?thesis by (subst vb_pad.simps) (metis replicate_Suc)
  qed
qed

lemma padded_dvd_4: "4 dvd n + (4 - n mod 4) mod (4::nat)"
proof -
  have "(n mod 4 + (4 - n mod 4) mod 4) mod 4 = 0"
    by (cases "n mod 4 = 0") simp_all
  then show ?thesis by (metis mod_add_left_eq mod_eq_0_iff_dvd)
qed

lemma vb_decode_encode: "vb_decodeArray (vb_encodeArray vals) = Inr vals"
proof -
  define k :: nat where "k = (4 - length (vb_encode_values vals) mod 4) mod 4"
  have "k < 4" by (simp add: k_def)
  then have k: "k \<le> 3" "vb_pad (length (vb_encode_values vals)) = replicate k 0"
    by (simp_all add: vb_pad_replicate k_def)
  from vb_fast_encoded[OF k(1), of vals] obtain vs ws where
    fast: "vb_fast (vb_encode_values vals @ replicate k 0) = Inr (vs, vb_encode_values ws @ replicate k 0)"
      "vals = vs @ ws" by blast
  show ?thesis
  proof (cases "vb_encodeArray vals = []")
    case True
    then have "vals = []" using length_vb_encode_value(1) by (cases vals) (auto simp: vb_encodeArray_def)
    with True show ?thesis by (simp add: vb_decodeArray_def)
  next
    case False
    with fast k show ?thesis
      by (auto simp: vb_decodeArray_def vb_encodeArray_def vb_slow_encoded)
  qed
qed

section \<open>The compressed size is exact\<close>

lemma vb_count_length: "vb_count n vals = n + of_nat (length (vb_encode_values vals))"
  by (induction vals arbitrary: n) (simp_all add: vb_encode_value_def)

lemma vb_round_up_pad: "vb_round_up (of_nat n) = of_nat (n + length (vb_pad n))"
proof (induction n rule: vb_pad.induct)
  case (1 n)
  have "unat (of_nat n AND 3 :: u32) = n mod 4" by (simp add: unat_and_3 unat_of_nat take_bit_eq_mod mod_mod_cancel)
  then have "((of_nat n :: u32) AND 3 \<noteq> 0) = (n mod 4 \<noteq> 0)" by (metis unat_eq_zero)
  with 1 show ?case
    by (cases "n mod 4 = 0") (simp_all add: vb_round_up.simps[of "of_nat n"] vb_pad.simps[of n] add.commute)
qed

lemma vb_compressedSize_exact: "vb_compressedSize vals = length (vb_encodeArray vals) mod 2 ^ 32"
  unfolding vb_compressedSize_def vb_count_length add_0_left vb_round_up_pad vb_encodeArray_def
  by (simp add: unat_of_nat take_bit_eq_mod del: of_nat_add)

lemma vb_encode_values_short: "length (vb_encode_values vals) \<le> 5 * length vals"
proof (induction vals)
  case (Cons val vals)
  have "length (vb_encode_value val) \<le> 5" by (simp add: vb_encode_value_def)
  with Cons show ?case by simp
qed simp

lemma vb_compressedSize_short:
  assumes "length vals < 2 ^ 29"
  shows "vb_compressedSize vals = length (vb_encodeArray vals)"
proof -
  have "length (vb_pad n) < 4" for n by (simp add: vb_pad_replicate)
  moreover have "length (vb_encodeArray vals) = length (vb_encode_values vals) + length (vb_pad (length (vb_encode_values vals)))"
    by (simp add: vb_encodeArray_def)
  ultimately have "length (vb_encodeArray vals) < 5 * length vals + 4"
    using vb_encode_values_short[of vals] by (metis add_le_less_mono)
  with assms show ?thesis by (simp add: vb_compressedSize_exact)
qed

end
