(* ===== verification/Codec.thy ===== *)
theory Codec
  imports SimdBinaryPacking VariableByte ByteStream
begin

text \<open>
  \<open>CompositeCodec<SIMDBinaryPacking,VariableByte>\<close>
  (\<^verbatim>\<open>varint/bitpacking/compositecodec.h\<close>) and the class \<open>Codec\<close> over it
  (\<^verbatim>\<open>varint/Codec.h\<close>), with the byte chunks of \<^verbatim>\<open>varint/CompressedDeltaChunk.cpp\<close> it fills.
  The first codec takes the whole blocks of 2048 integers and the second the rest.
\<close>

section \<open>CompositeCodec\<close>

definition roundedlength :: "nat \<Rightarrow> nat" where
  "roundedlength n = n div BlockSize * BlockSize"

text \<open>
  \<open>encodeArray(in, length, out, nvalue)\<close> at word address \<open>addr\<close>; the result is the bytes
  written, a multiple of four of them.
\<close>

definition composite_encodeArray :: "nat \<Rightarrow> nat \<Rightarrow> u32 list \<Rightarrow> bytes res" where
  "composite_encodeArray addr nvalue inp =
     (let r = roundedlength (length inp) in
      rbind (simd_encodeArray addr (take r inp))
        (\<lambda>o1. if r < length inp
              then (if length o1 \<le> nvalue
                    then Inr (words_bytes o1 @ vb_encodeArray (drop r inp))
                    else Inl AssertFailed)
              else Inr (words_bytes o1)))"

definition composite_decodeArray :: "nat \<Rightarrow> nat \<Rightarrow> nat \<Rightarrow> u32 list \<Rightarrow> u32 list res" where
  "composite_decodeArray inaddr outaddr nvalue inp =
     rbind (simd_decodeArray inaddr outaddr inp)
       (\<lambda>(o1, in2, mynvalue1).
          if in2 \<noteq> []
          then (if mynvalue1 < nvalue
                then rbind (vb_decodeArray (words_bytes in2)) (\<lambda>o2. Inr (o1 @ o2))
                else Inl AssertFailed)
          else Inr o1)"

definition composite_compressedSize :: "u32 list \<Rightarrow> nat" where
  "composite_compressedSize inp =
     (let r = roundedlength (length inp);
          nbytes = simd_compressedSize inp
      in if r < length inp then nbytes + vb_compressedSize (drop r inp) else nbytes)"

section \<open>CompressedDeltaChunk\<close>

record chunk =
  chunk_data :: bytes
  compressedSize :: nat

definition new_chunk :: "nat \<Rightarrow> chunk" where
  "new_chunk n = \<lparr>chunk_data = replicate n 0, compressedSize = n\<rparr>"

definition chunk_resize :: "nat \<Rightarrow> chunk \<Rightarrow> chunk" where
  "chunk_resize n c =
     c\<lparr>chunk_data := take n (chunk_data c) @ replicate (n - length (chunk_data c)) 0, compressedSize := n\<rparr>"

text \<open>
  \<open>write\<close> puts the low four bytes of \<open>compressedSize_\<close> and that many bytes of data; the
  stream constructor reads the size into a \<open>size_t\<close> that is zero, and the data.
\<close>

definition chunk_write :: "chunk \<Rightarrow> bytes" where
  "chunk_write c = word_bytes (of_nat (compressedSize c)) @ take (compressedSize c) (chunk_data c)"

definition chunk_read :: "bytes \<Rightarrow> (chunk \<times> bytes) res" where
  "chunk_read s =
     rbind (read_word s)
       (\<lambda>(w, s1). rbind (stream_read (unat w) s1)
         (\<lambda>(d, s2). Inr (\<lparr>chunk_data = d, compressedSize = unat w\<rparr>, s2)))"

definition chunk_inv :: "chunk \<Rightarrow> bool" where
  "chunk_inv c \<longleftrightarrow> compressedSize c = length (chunk_data c) \<and> compressedSize c < 2 ^ 32"

section \<open>Codec\<close>

text \<open>
  \<open>Compress\<close> sizes the chunk with \<open>compressedSize\<close> and encodes into it; an encoding longer
  than the chunk would write past its end.  Chunks and blocks are allocated on 64 and 256 byte
  boundaries, which is the address 0 modulo 16 bytes.
\<close>

definition Compress :: "u32 list \<Rightarrow> chunk res" where
  "Compress src =
     (let nbyte = composite_compressedSize src in
      rbind (composite_encodeArray 0 (nbyte div 4) src)
        (\<lambda>bs. if length bs \<le> nbyte
              then Inr ((new_chunk nbyte)\<lparr>chunk_data := bs @ drop (length bs) (chunk_data (new_chunk nbyte))\<rparr>)
              else Inl OutOfBounds))"

text \<open>
  \<open>Uncompress(src, dst, size)\<close>: the integers written to \<open>dst\<close>; the function returns four times
  their number.  The source is the first \<open>compressedSize_\<close> bytes of the chunk, read as whole words.
\<close>

definition Uncompress :: "chunk \<Rightarrow> nat \<Rightarrow> u32 list res" where
  "Uncompress c dstSize = composite_decodeArray 0 0 dstSize (bytes_words (take (compressedSize c) (chunk_data c)))"

definition uncompress_result :: "u32 list \<Rightarrow> nat" where
  "uncompress_result ids = length ids * 4"

text \<open>\<open>findInArray(array, size, target)\<close> from position \<open>idx\<close> on.\<close>

function findInArray :: "u32 list \<Rightarrow> nat \<Rightarrow> nat \<Rightarrow> u32 \<Rightarrow> bool res" where
  "findInArray arr sz idx target =
     (if idx < sz then
        rbind (vec_at arr (int idx))
          (\<lambda>lastId. if lastId \<ge> target then Inr (lastId = target) else findInArray arr sz (idx + 1) target)
      else Inr False)"
  by pat_completeness auto
termination by (relation "measure (\<lambda>(a, n, i, t). n - i)") auto

declare findInArray.simps [simp del]

section \<open>Properties of the codec\<close>

lemma roundedlength_le: "roundedlength n \<le> n"
  by (simp add: roundedlength_def)

lemma BlockSize_dvd_rounded: "BlockSize dvd length (take (roundedlength (length inp)) inp)"
  by (simp add: roundedlength_le min_absorb2) (simp add: roundedlength_def)

text \<open>\<open>compressedSize\<close> of the first codec only looks at whole blocks.\<close>

lemma compressed_words_rounded:
  "compressed_words nv (take (roundedlength (length inp)) inp) = compressed_words nv inp"
proof (induction nv inp rule: compressed_words.induct)
  case (1 nv inp)
  show ?case
  proof (cases "BlockSize \<le> length inp")
    case True
    define r where "r = roundedlength (length inp)"
    have r: "r = BlockSize + roundedlength (length inp - BlockSize)" and b: "0 < BlockSize"
      using True by (simp_all add: r_def roundedlength_def le_div_geq block_consts)
    have t: "take BlockSize (take r inp) = take BlockSize inp"
      "drop BlockSize (take r inp) = take (roundedlength (length inp - BlockSize)) (drop BlockSize inp)"
      by (simp_all add: r min_def drop_take)
    have "BlockSize \<le> length (take r inp)" using True r by simp
    with 1 True t show ?thesis
      by (subst (1 2) compressed_words.simps) (simp add: r_def)
  next
    case False
    then have "roundedlength (length inp) = 0" by (simp add: roundedlength_def)
    with False show ?thesis by (subst (1 2) compressed_words.simps) (simp add: block_consts)
  qed
qed

lemma composite_encode_size:
  assumes "sorted (take (roundedlength (length inp)) inp)"
    and "length inp < 2 ^ 32"
  shows "\<exists>bs. composite_encodeArray 0 (composite_compressedSize inp div 4) inp = Inr bs
    \<and> length bs = composite_compressedSize inp
    \<and> (length inp \<le> n \<longrightarrow> composite_decodeArray 0 0 n (bytes_words bs) = Inr inp)"
proof -
  let ?r = "roundedlength (length inp)"
  have "length (take ?r inp) < 2 ^ 32" using assms(2) by simp
  from simd_roundtrip[OF assms(1) BlockSize_dvd_rounded this, of 0 0] obtain o1 where
    o1: "simd_encodeArray 0 (take ?r inp) = Inr o1"
      "\<And>rest. simd_decodeArray 0 0 (o1 @ rest) = Inr (take ?r inp, rest, length (take ?r inp))"
    by (auto simp: needPaddingTo128Bits_def)
  have size1: "simd_compressedSize inp = 4 * length o1"
    using simd_compressedSize_exact[OF _ BlockSize_dvd_rounded o1(1) assms(1)]
    by (simp add: simd_compressedSize_def compressed_words_rounded)
  show ?thesis
  proof (cases "?r < length inp")
    case False
    then have "?r = length inp" using roundedlength_le[of "length inp"] by simp
    with o1(1) o1(2)[of "[]"] size1 show ?thesis
      by (simp add: composite_encodeArray_def composite_compressedSize_def composite_decodeArray_def)
  next
    case True
    let ?bs = "vb_encodeArray (drop ?r inp)"
    have dvd: "4 dvd length ?bs"
      by (simp add: vb_encodeArray_def vb_pad_replicate padded_dvd_4)
    have "length inp - ?r < BlockSize" by (simp add: roundedlength_def minus_div_mult_eq_mod[symmetric] block_consts)
    then have "length (drop ?r inp) < 2 ^ 29" by (simp add: block_consts)
    then have short: "vb_compressedSize (drop ?r inp) = length ?bs" by (rule vb_compressedSize_short)
    have ne: "bytes_words ?bs \<noteq> []"
      using words_bytes_bytes_words[OF dvd] vb_decode_encode[of "drop ?r inp"] True
      by (auto simp: vb_decodeArray_def)
    from True o1(1) o1(2)[of "bytes_words ?bs"] size1 dvd ne show ?thesis
      by (auto simp: composite_encodeArray_def composite_compressedSize_def composite_decodeArray_def
        short words_bytes_bytes_words vb_decode_encode)
  qed
qed

text \<open>Compression never writes past its chunk, and decompression gives the array back.\<close>

lemma Compress_Uncompress:
  assumes "sorted (take (roundedlength (length inp)) inp)" and "length inp < 2 ^ 32"
    and "length inp \<le> n"
  shows "\<exists>c. Compress inp = Inr c \<and> compressedSize c = length (chunk_data c)
    \<and> length (chunk_data c) = composite_compressedSize inp \<and> Uncompress c n = Inr inp"
  using composite_encode_size[OF assms(1,2), of n] assms(3)
  by (auto simp: Compress_def Uncompress_def new_chunk_def)

text \<open>A chunk is read back as it was written, whatever follows it in the stream.\<close>

lemma chunk_read_write: "chunk_inv c \<Longrightarrow> chunk_read (chunk_write c @ s) = Inr (c, s)"
  by (cases c) (simp add: chunk_inv_def chunk_read_def chunk_write_def unat_of_nat)

text \<open>The largest size of a compressed block of 2048 integers.\<close>

lemma blocks_words_le: "blocks_words k inp \<le> k * (4 + 16 * 128)"
proof (induction k arbitrary: inp)
  case (Suc k)
  have "sum_list (map (\<lambda>B. MiniBlockSize div 32 * B) (block_bits (take BlockSize inp)))
      \<le> sum_list (map (\<lambda>B. 128) (block_bits (take BlockSize inp)))"
    by (rule sum_list_mono) (auto simp: block_bits_def block_consts)
  then have "block_words (take BlockSize inp) \<le> 4 + 16 * 128"
    by (simp add: block_words_def sum_list_triv)
  with Suc[of "drop BlockSize inp"] show ?case by simp
qed simp

lemma roundedlength_block: "roundedlength BlockSize = BlockSize"
  by (simp add: roundedlength_def block_consts)

lemma compressedSize_block_bits:
  assumes "length inp = BlockSize"
  shows "composite_compressedSize inp = 32 + 16 * sum_list (block_bits inp)"
proof -
  have "MiniBlockSize div 32 = 4" "sum_list (map ((*) 4) xs) = 4 * sum_list xs" for xs :: "nat list"
    by (simp add: block_consts, induction xs) simp_all
  then have "compressed_words 4 inp = 8 + 4 * sum_list (block_bits inp)"
    using compressed_words_blocks[of inp 1 4] assms by (simp add: block_words_def)
  then show ?thesis by (simp add: composite_compressedSize_def assms roundedlength_block simd_compressedSize_def)
qed

lemma compressedSize_block:
  "length inp = BlockSize \<Longrightarrow> composite_compressedSize inp \<le> 8224"
  using compressed_words_blocks[of inp 1 4] blocks_words_le[of 1 inp]
  by (simp add: composite_compressedSize_def roundedlength_block simd_compressedSize_def)

section \<open>The contract of a block codec\<close>

text \<open>
  What a set built on compressed blocks needs of its codec: full sorted blocks can be
  compressed into chunks that survive serialization, and decompressed again.
\<close>

locale block_codec =
  fixes compress :: "u32 list \<Rightarrow> chunk res"
    and uncompress :: "chunk \<Rightarrow> u32 list res"
    and blockLen :: nat
  assumes compress_block:
    "\<lbrakk>length blk = blockLen; sorted blk\<rbrakk> \<Longrightarrow>
       \<exists>c. compress blk = Inr c \<and> chunk_inv c \<and> uncompress c = Inr blk"
begin

text \<open>\<open>c\<close> is the compressed form of the block \<open>blk\<close>.\<close>

definition represents :: "chunk \<Rightarrow> u32 list \<Rightarrow> bool" where
  "represents c blk \<longleftrightarrow> chunk_inv c \<and> length blk = blockLen \<and> uncompress c = Inr blk"

lemma compress_represents:
  assumes "length blk = blockLen" and "sorted blk"
  obtains c where "compress blk = Inr c" and "represents c blk"
  using compress_block[OF assms] assms(1) by (auto simp: represents_def)

lemma represents_unique: "represents c a \<Longrightarrow> represents c b \<Longrightarrow> a = b"
  by (simp add: represents_def)

end

interpretation pfor: block_codec Compress "\<lambda>c. Uncompress c BlockSize" BlockSize
proof
  fix blk :: "u32 list" assume len: "length blk = BlockSize" and "sorted blk"
  then have "sorted (take (roundedlength (length blk)) blk)" by (simp add: sorted_wrt_take)
  moreover have "length blk < 2 ^ 32" using len by (simp add: block_consts)
  ultimately obtain c where "Compress blk = Inr c" "compressedSize c = length (chunk_data c)"
    "length (chunk_data c) = composite_compressedSize blk" "Uncompress c BlockSize = Inr blk"
    using Compress_Uncompress[of blk BlockSize] len by auto
  with compressedSize_block[OF len]
  show "\<exists>c. Compress blk = Inr c \<and> chunk_inv c \<and> Uncompress c BlockSize = Inr blk"
    by (auto simp: chunk_inv_def)
qed

end
