(* ===== verification/DeltaChunkStore.thy ===== *)
theory DeltaChunkStore
  imports Codec
begin

text \<open>
  \<^verbatim>\<open>varint/DeltaChunkStore.h\<close>: the sequence of compressed blocks of a set.  The chunks are
  shared pointers, but nothing changes a chunk after it was added, so the store holds their values.
\<close>

section \<open>The store and its operations\<close>

record delta_chunk_store =
  data2 :: "chunk list"

definition empty_store :: delta_chunk_store where
  "empty_store = \<lparr>data2 = []\<rparr>"

definition allocateBlock :: "nat \<Rightarrow> chunk" where
  "allocateBlock sz = new_chunk sz"

definition store_add :: "chunk \<Rightarrow> delta_chunk_store \<Rightarrow> delta_chunk_store" where
  "store_add val st = st\<lparr>data2 := data2 st @ [val]\<rparr>"

definition store_get :: "delta_chunk_store \<Rightarrow> int \<Rightarrow> chunk res" where
  "store_get st index = vec_at (data2 st) index"

text \<open>\<open>compact\<close> copies the vector to drop its spare capacity, which the model does not have.\<close>

definition store_compact :: "delta_chunk_store \<Rightarrow> delta_chunk_store" where
  "store_compact st = (let tmp = data2 st in st\<lparr>data2 := tmp\<rparr>)"

definition store_size :: "delta_chunk_store \<Rightarrow> nat" where
  "store_size st = length (data2 st)"

definition getSerialIntNum :: "delta_chunk_store \<Rightarrow> int" where
  "getSerialIntNum st = sint (foldl (\<lambda>num c. num + 1 + of_nat (compressedSize c)) (1 :: u32) (data2 st))"

fun write_chunks :: "chunk list \<Rightarrow> bytes" where
  "write_chunks [] = []"
| "write_chunks (c # cs) = chunk_write c @ write_chunks cs"

definition store_write :: "delta_chunk_store \<Rightarrow> bytes" where
  "store_write st = word_bytes (of_nat (length (data2 st))) @ write_chunks (data2 st)"

fun read_chunks :: "nat \<Rightarrow> bytes \<Rightarrow> (chunk list \<times> bytes) res" where
  "read_chunks 0 s = Inr ([], s)"
| "read_chunks (Suc n) s =
     rbind (chunk_read s) (\<lambda>(c, s1). rbind (read_chunks n s1) (\<lambda>(cs, s2). Inr (c # cs, s2)))"

text \<open>\<open>size\<close> is a signed \<open>int\<close>: a negative one reads no chunk.\<close>

definition store_read :: "bytes \<Rightarrow> (delta_chunk_store \<times> bytes) res" where
  "store_read s =
     rbind (read_word s) (\<lambda>(w, s1). rbind (read_chunks (nat (sint w)) s1)
       (\<lambda>(cs, s2). Inr (\<lparr>data2 = cs\<rparr>, s2)))"

definition store_swap :: "delta_chunk_store \<times> delta_chunk_store \<Rightarrow> delta_chunk_store \<times> delta_chunk_store" where
  "store_swap p = (case p of (this, x) \<Rightarrow> (this\<lparr>data2 := data2 x\<rparr>, x\<lparr>data2 := data2 this\<rparr>))"

section \<open>Serialization\<close>

lemma read_chunks_write:
  "\<forall>c\<in>set cs. chunk_inv c \<Longrightarrow> read_chunks (length cs) (write_chunks cs @ s) = Inr (cs, s)"
  by (induction cs) (simp_all add: chunk_read_write)

lemma store_read_write:
  assumes "\<forall>c\<in>set (data2 st). chunk_inv c" and "length (data2 st) < 2 ^ 31"
  shows "store_read (store_write st @ s) = Inr (st, s)"
  using assms by (cases st) (simp add: store_read_def store_write_def sint_of_nat_u32 read_chunks_write)

end
