(* ===== verification/CollectionHelper.thy ===== *)
theory CollectionHelper
  imports Prelude
begin

text \<open>
  The binary searches of \<^verbatim>\<open>varint/CollectionHelper.h\<close>.  An index outside the array is an
  error; the result is an \<open>int\<close>, -1 for "not found" as in the code.
\<close>

section \<open>First element that is equal to or larger than the target\<close>

text \<open>
  The two overloads, on a vector and on a pointer, are the same text.  Indices are never
  negative here: every caller passes a non-empty range.
\<close>

function binarySearchForFirstElementEqualOrLargerThanTarget ::
    "u32 list \<Rightarrow> nat \<Rightarrow> nat \<Rightarrow> u32 \<Rightarrow> int res" where
  "binarySearchForFirstElementEqualOrLargerThanTarget xs start stop target =
     (if start < stop
      then let mid = (start + stop) div 2 in
        if \<not> mid < length xs then Inl OutOfBounds
        else if xs ! mid < target
          then binarySearchForFirstElementEqualOrLargerThanTarget xs (mid + 1) stop target
        else if xs ! mid = target then Inr (int mid)
        else binarySearchForFirstElementEqualOrLargerThanTarget xs start mid target
      else if \<not> start < length xs then Inl OutOfBounds
      else if xs ! start \<ge> target then Inr (int start) else Inr (-1))"
  by pat_completeness auto
termination by (relation "measure (\<lambda>(xs, s, e, t). e - s)") auto

declare binarySearchForFirstElementEqualOrLargerThanTarget.simps [simp del]

definition binarySearchInBaseListForBlockThatMayContainTarget ::
    "u32 list \<Rightarrow> nat \<Rightarrow> nat \<Rightarrow> u32 \<Rightarrow> int res" where
  "binarySearchInBaseListForBlockThatMayContainTarget xs start stop target =
     binarySearchForFirstElementEqualOrLargerThanTarget xs start stop target"

section \<open>The target itself\<close>

text \<open>
  The sum of the bounds is an \<open>int\<close> in the code, as in the search above: it does not overflow in arrays of
  up to \<open>2 ^ 30\<close> elements, which is all the model is about.
\<close>

function binarySearchForTarget :: "u32 list \<Rightarrow> int \<Rightarrow> int \<Rightarrow> u32 \<Rightarrow> int res" where
  "binarySearchForTarget vals start stop target =
     (if start \<le> stop
      then let mid = (start + stop) div 2 in
        if mid < 0 \<or> int (length vals) \<le> mid then Inl OutOfBounds
        else if vals ! nat mid < target then binarySearchForTarget vals (mid + 1) stop target
        else if vals ! nat mid = target then Inr mid
        else binarySearchForTarget vals start (mid - 1) target
      else Inr (-1))"
  by pat_completeness auto
termination by (relation "measure (\<lambda>(xs, s, e, t). nat (e + 1 - s))") auto

declare binarySearchForTarget.simps [simp del]

section \<open>Correctness\<close>

text \<open>The least index of a range at which a strictly sorted list reaches the target.\<close>

definition first_at_least :: "u32 list \<Rightarrow> nat \<Rightarrow> u32 \<Rightarrow> nat \<Rightarrow> bool" where
  "first_at_least xs start target i \<longleftrightarrow>
     start \<le> i \<and> target \<le> xs ! i \<and> (\<forall>j. start \<le> j \<and> j < i \<longrightarrow> xs ! j < target)"

lemma sorted_nth_less: "sorted_wrt (<) (xs :: u32 list) \<Longrightarrow> i < j \<Longrightarrow> j < length xs \<Longrightarrow> xs ! i < xs ! j"
  by (rule sorted_wrt_nth_less)

lemma binarySearchForFirst_correct:
  assumes "sorted_wrt (<) xs" and "start \<le> stop" and "stop < length xs"
  shows "if xs ! stop < target
    then binarySearchForFirstElementEqualOrLargerThanTarget xs start stop target = Inr (-1)
    else (\<exists>i\<le> stop. binarySearchForFirstElementEqualOrLargerThanTarget xs start stop target = Inr (int i)
      \<and> first_at_least xs start target i)"
  using assms
proof (induction xs start stop target rule: binarySearchForFirstElementEqualOrLargerThanTarget.induct)
  case (1 xs start stop target)
  note srt = sorted_nth_less[OF 1(3)]
  show ?case
  proof (cases "start < stop")
    case False
    then have eq: "start = stop" using "1.prems"(2) by simp
    have "binarySearchForFirstElementEqualOrLargerThanTarget xs start stop target
        = (if xs ! stop \<ge> target then Inr (int stop) else Inr (-1))"
      using "1.prems"(3) eq by (subst binarySearchForFirstElementEqualOrLargerThanTarget.simps) simp
    then show ?thesis using eq by (auto simp: first_at_least_def not_less)
  next
    case True
    let ?mid = "(start + stop) div 2"
    have mid: "start \<le> ?mid" "?mid < stop" "?mid < length xs" using True "1.prems" by auto
    have step: "binarySearchForFirstElementEqualOrLargerThanTarget xs start stop target =
        (if xs ! ?mid < target
         then binarySearchForFirstElementEqualOrLargerThanTarget xs (?mid + 1) stop target
         else if xs ! ?mid = target then Inr (int ?mid)
         else binarySearchForFirstElementEqualOrLargerThanTarget xs start ?mid target)"
      using True mid(3) by (subst binarySearchForFirstElementEqualOrLargerThanTarget.simps)
        (simp only: Let_def if_True if_False simp_thms)
    consider (lt) "xs ! ?mid < target" | (eq) "xs ! ?mid = target" | (gt) "target < xs ! ?mid"
      by (meson linorder_neqE)
    then show ?thesis
    proof cases
      case lt
      then have below: "xs ! j < target" if "j \<le> ?mid" for j
        using srt[of j ?mid] mid that by (cases "j = ?mid") auto
      have "first_at_least xs (?mid + 1) target i \<Longrightarrow> first_at_least xs start target i" for i
        using below mid(1) unfolding first_at_least_def by (metis Suc_eq_plus1 le_Suc_eq le_trans not_less_eq_eq not_le)
      moreover have "\<not> \<not> ?mid < length xs" "?mid + 1 \<le> stop" using mid by simp_all
      ultimately show ?thesis
        using "1.IH"(1)[OF True refl _ lt "1.prems"(1) _ "1.prems"(3)] step lt by (auto split: if_splits)
    next
      case eq
      have "\<not> xs ! stop < target" using srt[of ?mid stop] mid eq "1.prems"(3) by auto
      moreover have "first_at_least xs start target ?mid"
        using eq mid srt by (auto simp: first_at_least_def)
      ultimately show ?thesis using eq step mid by auto
    next
      case gt
      have "\<not> xs ! stop < target" using srt[of ?mid stop] mid gt "1.prems"(3) by auto
      moreover have ne: "\<not> xs ! ?mid < target" "xs ! ?mid \<noteq> target" using gt by auto
      then obtain i where "i \<le> ?mid"
        "binarySearchForFirstElementEqualOrLargerThanTarget xs start ?mid target = Inr (int i)"
        "first_at_least xs start target i"
        using "1.IH"(2)[OF True refl _ _ _ "1.prems"(1) mid(1,3)] mid(3) by auto
      ultimately show ?thesis using mid step ne by (auto intro!: exI[of _ i])
    qed
  qed
qed

text \<open>The search does not look past the range it is given.\<close>

lemma binarySearchForFirst_prefix:
  assumes "start \<le> stop" and "stop < n" and "n \<le> length xs"
  shows "binarySearchForFirstElementEqualOrLargerThanTarget xs start stop target
    = binarySearchForFirstElementEqualOrLargerThanTarget (take n xs) start stop target"
  using assms
proof (induction xs start stop target rule: binarySearchForFirstElementEqualOrLargerThanTarget.induct)
  case (1 xs start stop target)
  show ?case
  proof (cases "start < stop")
    case False
    with "1.prems" show ?thesis
      by (subst (1 2) binarySearchForFirstElementEqualOrLargerThanTarget.simps) simp
  next
    case True
    define mid where mid: "mid = (start + stop) div 2"
    have b: "mid < stop" "mid < n" "mid < length xs" "start \<le> mid" "mid + 1 \<le> stop"
      using True "1.prems" by (auto simp: mid)
    note ih = "1.IH"[OF True mid, simplified b, simplified]
    show ?thesis
      using ih b True "1.prems"
      by (subst (1 2) binarySearchForFirstElementEqualOrLargerThanTarget.simps)
        (simp add: mid[symmetric] Let_def)
  qed
qed

lemma first_at_least_skip:
  assumes "first_at_least xs start target i" and "i < length xs" and "start \<le> i"
  shows "dropWhile (\<lambda>x. x < target) (drop start xs) = drop i xs"
proof -
  have "drop start xs = take (i - start) (drop start xs) @ drop i xs"
    using assms(3) by (metis append_take_drop_id drop_drop le_add_diff_inverse2)
  moreover have "\<forall>x\<in>set (take (i - start) (drop start xs)). x < target"
    using assms by (auto simp: first_at_least_def in_set_conv_nth)
  moreover have "\<not> xs ! i < target" using assms(1) unfolding first_at_least_def by (meson leD)
  then have "dropWhile (\<lambda>x. x < target) (drop i xs) = drop i xs"
    using Cons_nth_drop_Suc[OF assms(2)] by (metis dropWhile.simps(2))
  ultimately show ?thesis
    using dropWhile_append2[of "take (i - start) (drop start xs)" "\<lambda>x. x < target" "drop i xs"] by simp
qed

definition occurs_between :: "u32 list \<Rightarrow> int \<Rightarrow> int \<Rightarrow> u32 \<Rightarrow> bool" where
  "occurs_between vals start stop target \<longleftrightarrow> (\<exists>i. start \<le> int i \<and> int i \<le> stop \<and> vals ! i = target)"

lemma binarySearchForTarget_step:
  assumes "start \<le> stop" and "m = (start + stop) div 2" and "\<not> (m < 0 \<or> int (length vals) \<le> m)"
  shows "binarySearchForTarget vals start stop target =
    (if vals ! nat m < target then binarySearchForTarget vals (m + 1) stop target
     else if vals ! nat m = target then Inr m else binarySearchForTarget vals start (m - 1) target)"
  using assms(1,3) unfolding assms(2)
  by (subst binarySearchForTarget.simps) (simp only: Let_def if_True if_False simp_thms)

lemma occurs_between_right:
  assumes "sorted_wrt (<) vals" and "stop < int (length vals)" and "start \<le> m" and "m \<le> stop"
    and "0 \<le> start" and "vals ! nat m < target"
  shows "occurs_between vals start stop target = occurs_between vals (m + 1) stop target"
proof -
  have "m + 1 \<le> int i" if i: "int i \<le> stop" "vals ! i = target" for i
  proof (rule ccontr)
    assume "\<not> m + 1 \<le> int i"
    then consider "i = nat m" | "i < nat m" by linarith
    moreover have "nat m < length vals" using assms(2-5) by linarith
    ultimately show False using sorted_nth_less[OF assms(1), of i "nat m"] assms(6) i(2) by cases auto
  qed
  moreover have "start \<le> int i" if "m + 1 \<le> int i" for i using that assms(3) by simp
  ultimately show ?thesis unfolding occurs_between_def by blast
qed

lemma occurs_between_left:
  assumes "sorted_wrt (<) vals" and "stop < int (length vals)" and "start \<le> m" and "m \<le> stop"
    and "0 \<le> start" and "target < vals ! nat m"
  shows "occurs_between vals start stop target = occurs_between vals start (m - 1) target"
proof -
  have "int i \<le> m - 1" if i: "int i \<le> stop" "vals ! i = target" for i
  proof (rule ccontr)
    assume "\<not> int i \<le> m - 1"
    then consider "i = nat m" | "nat m < i" using assms(3,5) by linarith
    then show False using sorted_nth_less[OF assms(1), of "nat m" i] assms(2,6) i by cases auto
  qed
  moreover have "int i \<le> stop" if "int i \<le> m - 1" for i using that assms(4) by simp
  ultimately show ?thesis unfolding occurs_between_def by blast
qed

lemma binarySearchForTarget_correct:
  assumes "sorted_wrt (<) vals" and "0 \<le> start" and "stop < int (length vals)"
  shows "\<exists>r. binarySearchForTarget vals start stop target = Inr r
    \<and> (if occurs_between vals start stop target
       then vals ! nat r = target \<and> start \<le> r \<and> r \<le> stop else r = -1)"
  using assms
proof (induction vals start stop target rule: binarySearchForTarget.induct)
  case (1 vals start stop target)
  show ?case
  proof (cases "start \<le> stop")
    case False
    then show ?thesis by (subst binarySearchForTarget.simps) (auto simp: occurs_between_def)
  next
    case True
    define m where m: "m = (start + stop) div 2"
    have mid: "start \<le> m" "m \<le> stop" "\<not> (m < 0 \<or> int (length vals) \<le> m)"
      using True "1.prems" m by auto
    note step = binarySearchForTarget_step[OF True m mid(3), of target]
    consider (lt) "vals ! nat m < target" | (eq) "vals ! nat m = target" | (gt) "target < vals ! nat m"
      by (meson linorder_neqE)
    then show ?thesis
    proof cases
      case lt
      have "0 \<le> m + 1" using mid(3) by simp
      then show ?thesis using "1.IH"(1)[OF True m mid(3) lt "1.prems"(1) _ "1.prems"(3)] mid(1) step lt
          occurs_between_right[OF "1.prems"(1,3) mid(1,2) "1.prems"(2) lt] by (auto split: if_splits)
    next
      case eq
      moreover have "occurs_between vals start stop target"
        using eq mid unfolding occurs_between_def by (intro exI[of _ "nat m"]) simp
      ultimately show ?thesis using step mid by simp
    next
      case gt
      have "m - 1 < int (length vals)" and ne: "\<not> vals ! nat m < target" "vals ! nat m \<noteq> target"
        using mid(3) gt by auto
      then show ?thesis using "1.IH"(2)[OF True m mid(3) ne "1.prems"(1,2)] mid(2) step
          occurs_between_left[OF "1.prems"(1,3) mid(1,2) "1.prems"(2) gt] by (auto split: if_splits)
    qed
  qed
qed

end
