(* ===== verification/DocIterator.thy ===== *)
theory DocIterator
  imports Prelude
begin

text \<open>
  The interface \<open>Set::Iterator\<close> of \<^verbatim>\<open>varint/Set.h\<close> and the clients of it that the class
  \<open>Set\<close> itself has.  Virtual calls go through a record of the three methods; the contract of
  the methods is the locale \<open>doc_stream\<close> (for \<open>nextDoc\<close>) and its extension \<open>doc_iterator\<close> (with
  \<open>Advance\<close>), which set implementations interpret and lazy sets use for their operands.
\<close>

section \<open>The virtual methods\<close>

definition NO_MORE_DOCS :: u32 where
  "NO_MORE_DOCS = - 1"

record 's iter_vtable =
  vt_docID :: "'s \<Rightarrow> u32"
  vt_nextDoc :: "'s \<Rightarrow> (u32 \<times> 's) res"
  vt_Advance :: "u32 \<Rightarrow> 's \<Rightarrow> (u32 \<times> 's) res"

lemma le_NO_MORE_DOCS [simp]: "x \<le> NO_MORE_DOCS"
  by (simp add: NO_MORE_DOCS_def)

lemma less_NO_MORE_DOCS [simp]: "x < NO_MORE_DOCS \<longleftrightarrow> x \<noteq> NO_MORE_DOCS"
  by (simp add: order.strict_iff_order)

section \<open>The contract\<close>

text \<open>
  The documents an iterator still has to deliver; \<open>skip_to\<close> is what \<open>Advance(target)\<close> leaves
  of them: the first one not below the target is delivered, the smaller ones are passed over.
\<close>

definition skip_to :: "u32 \<Rightarrow> u32 list \<Rightarrow> u32 list" where
  "skip_to target xs = dropWhile (\<lambda>x. x < target) xs"

text \<open>Document lists: strictly increasing, and none is the end marker.\<close>

definition doc_list :: "u32 list \<Rightarrow> bool" where
  "doc_list xs \<longleftrightarrow> sorted_wrt (<) xs \<and> NO_MORE_DOCS \<notin> set xs"

text \<open>
  \<open>at s xs\<close>: the iterator is before the documents \<open>xs\<close> and has not reported the end;
  \<open>ended s\<close>: it has.  \<open>Set.h\<close> asks that calling \<open>nextDoc\<close> past the end has no effect; not every
  implementation keeps that, and no client relies on it, so the contract is silent about it.
\<close>

locale doc_stream =
  fixes V :: "'s iter_vtable"
    and at :: "'s \<Rightarrow> u32 list \<Rightarrow> bool"
    and ended :: "'s \<Rightarrow> bool"
  assumes at_docs: "at s xs \<Longrightarrow> doc_list xs"
    and next_Nil: "at s [] \<Longrightarrow> \<exists>s'. vt_nextDoc V s = Inr (NO_MORE_DOCS, s') \<and> ended s'"
    and next_Cons: "at s (x # xs) \<Longrightarrow> \<exists>s'. vt_nextDoc V s = Inr (x, s') \<and> at s' xs \<and> vt_docID V s' = x"

text \<open>An iterator that also skips: \<open>Advance\<close> goes on to the first document that is not below the target.\<close>

locale doc_iterator = doc_stream +
  assumes advance_Nil: "\<lbrakk>at s xs; skip_to t xs = []\<rbrakk> \<Longrightarrow>
        \<exists>s'. vt_Advance V t s = Inr (NO_MORE_DOCS, s') \<and> ended s'"
    and advance_Cons: "\<lbrakk>at s xs; skip_to t xs = y # ys\<rbrakk> \<Longrightarrow>
        \<exists>s'. vt_Advance V t s = Inr (y, s') \<and> at s' ys \<and> vt_docID V s' = y"
    and advance_ended: "ended s \<Longrightarrow> \<exists>s'. vt_Advance V t s = Inr (NO_MORE_DOCS, s') \<and> ended s'"

section \<open>Clients\<close>

text \<open>
  \<open>while (it.nextDoc() != NO_MORE_DOCS)\<close>, collecting what is delivered.  A loop over an
  arbitrary iterator need not end, so it is run with fuel; \<open>None\<close> is running out of it.
\<close>

fun drain :: "'s iter_vtable \<Rightarrow> nat \<Rightarrow> 's \<Rightarrow> u32 list res option" where
  "drain V 0 s = None"
| "drain V (Suc n) s =
     (case vt_nextDoc V s of
        Inl e \<Rightarrow> Some (Inl e)
      | Inr (d, s') \<Rightarrow>
          if d = NO_MORE_DOCS then Some (Inr [])
          else map_option (\<lambda>r. rbind r (\<lambda>ds. Inr (d # ds))) (drain V n s'))"

text \<open>\<open>Set::equals\<close>: both iterators are pulled in step.\<close>

fun set_equals :: "'s iter_vtable \<Rightarrow> 't iter_vtable \<Rightarrow> nat \<Rightarrow> 's \<Rightarrow> 't \<Rightarrow> bool res option" where
  "set_equals V W 0 s t = None"
| "set_equals V W (Suc n) s t =
     (case vt_nextDoc V s of
        Inl e \<Rightarrow> Some (Inl e)
      | Inr (d, s') \<Rightarrow>
          (case vt_nextDoc W t of
             Inl e \<Rightarrow> Some (Inl e)
           | Inr (d', t') \<Rightarrow>
               if d = NO_MORE_DOCS then Some (Inr (NO_MORE_DOCS = d'))
               else if d' = NO_MORE_DOCS then Some (Inr False)
               else if vt_docID V s' \<noteq> vt_docID W t' then Some (Inr False)
               else set_equals V W n s' t'))"

lemma doc_list_simps [simp]:
  "doc_list []"
  "doc_list (x # xs) \<longleftrightarrow> (\<forall>y\<in>set xs. x < y) \<and> x \<noteq> NO_MORE_DOCS \<and> doc_list xs"
  by (auto simp: doc_list_def)

lemma skip_to_doc_list: "doc_list xs \<Longrightarrow> doc_list (skip_to t xs)"
  unfolding skip_to_def by (induction xs) auto

lemma skip_to_simps [simp]:
  "skip_to t [] = []"
  "skip_to t (x # xs) = (if x < t then skip_to t xs else x # xs)"
  by (simp_all add: skip_to_def)

lemma set_skip_to: "doc_list xs \<Longrightarrow> set (skip_to t xs) = {x \<in> set xs. t \<le> x}"
  by (induction xs) (auto simp: not_less)

lemma skip_to_all: "(\<forall>x\<in>set xs. t \<le> x) \<Longrightarrow> skip_to t xs = xs"
  by (cases xs) (auto simp: not_less)

text \<open>A document list is no longer than there are ids, which bounds the loops over iterators.\<close>

lemma length_doc_list: "doc_list xs \<Longrightarrow> length xs \<le> 2 ^ 32"
proof -
  assume "doc_list xs"
  then have "card (set xs) = length xs"
    unfolding doc_list_def by (metis distinct_card strict_sorted_iff)
  moreover have "card (set xs) \<le> card (UNIV :: u32 set)" by (rule card_mono) auto
  ultimately show ?thesis by (simp add: card_word)
qed

lemma doc_list_eqI: "doc_list xs \<Longrightarrow> doc_list ys \<Longrightarrow> set xs = set ys \<Longrightarrow> xs = ys"
  unfolding doc_list_def by (metis sorted_list_of_set.idem_if_sorted_distinct strict_sorted_iff)

definition rest_of :: "('s \<Rightarrow> u32 list \<Rightarrow> bool) \<Rightarrow> 's \<Rightarrow> u32 list" where
  "rest_of at s = (THE xs. at s xs)"

context doc_stream begin

text \<open>An iterator is before one list of documents only, since \<open>nextDoc\<close> is a function.\<close>

lemma at_unique: "at s xs \<Longrightarrow> at s ys \<Longrightarrow> xs = ys"
proof (induction xs arbitrary: s ys)
  case Nil
  show ?case
  proof (cases ys)
    case (Cons y ys')
    with next_Cons[of s y ys'] next_Nil[OF Nil(1)] at_docs[OF Nil(2)] Nil(2) show ?thesis by auto
  qed simp
next
  case (Cons x xs)
  show ?case
  proof (cases ys)
    case Nil
    with next_Cons[OF Cons.prems(1)] next_Nil[of s] at_docs[OF Cons.prems(1)] Cons.prems(2) show ?thesis by auto
  next
    case (Cons y ys')
    with next_Cons[OF Cons.prems(1)] next_Cons[of s y ys'] Cons.prems(2) Cons.IH show ?thesis by auto
  qed
qed

lemma rest_of_eq: "at s xs \<Longrightarrow> rest_of at s = xs"
  unfolding rest_of_def using at_unique by blast

lemma drain_at: "at s xs \<Longrightarrow> length xs < n \<Longrightarrow> drain V n s = Some (Inr xs)"
proof (induction xs arbitrary: s n)
  case Nil
  then obtain m where "n = Suc m" by (cases n) auto
  with next_Nil[OF Nil(1)] show ?case by auto
next
  case (Cons x xs)
  then obtain m where n: "n = Suc m" "length xs < m" by (cases n) auto
  from next_Cons[OF Cons.prems(1)] obtain s' where "vt_nextDoc V s = Inr (x, s')" "at s' xs" by blast
  with Cons.IH[OF _ n(2)] n(1) at_docs[OF Cons.prems(1)] show ?case by simp
qed

text \<open>What a merging loop has to know of the call that moves an operand: it passes over documents below \<open>t\<close> only.\<close>

definition pull_ok :: "u32 \<Rightarrow> ('s \<Rightarrow> (u32 \<times> 's) res) \<Rightarrow> bool" where
  "pull_ok t pull \<longleftrightarrow> (\<forall>s ys. at s ys \<longrightarrow>
     (\<exists>d s'. pull s = Inr (d, s') \<and>
       (if d = NO_MORE_DOCS then \<forall>y\<in>set ys. y < t
        else \<exists>pre zs. ys = pre @ d # zs \<and> at s' zs \<and> (\<forall>y\<in>set pre. y < t))))"

lemma nextDoc_pull_ok: "pull_ok t (vt_nextDoc V)"
  unfolding pull_ok_def
proof (intro allI impI)
  fix s ys assume a: "at s ys"
  show "\<exists>d s'. vt_nextDoc V s = Inr (d, s') \<and>
       (if d = NO_MORE_DOCS then \<forall>y\<in>set ys. y < t
        else \<exists>pre zs. ys = pre @ d # zs \<and> at s' zs \<and> (\<forall>y\<in>set pre. y < t))"
  proof (cases ys)
    case Nil
    with a next_Nil show ?thesis by fastforce
  next
    case (Cons y zs)
    with a obtain s' where "vt_nextDoc V s = Inr (y, s')" "at s' zs" using next_Cons by blast
    moreover have "y \<noteq> NO_MORE_DOCS" using at_docs[OF a] Cons by simp
    ultimately show ?thesis using Cons by (auto intro: exI[of _ "[]"])
  qed
qed

end

context doc_iterator begin

lemma advance_at:
  assumes "at s xs"
  shows "\<exists>d s'. vt_Advance V t s = Inr (d, s')
    \<and> (case skip_to t xs of [] \<Rightarrow> d = NO_MORE_DOCS \<and> ended s'
       | y # ys \<Rightarrow> d = y \<and> at s' ys \<and> vt_docID V s' = y)"
proof (cases "skip_to t xs")
  case Nil
  with advance_Nil[OF assms] show ?thesis by auto
next
  case (Cons y ys)
  with advance_Cons[OF assms] show ?thesis by auto
qed

text \<open>A \<open>find\<close> written with \<open>Advance\<close> on a fresh iterator is membership.\<close>

lemma advance_finds:
  assumes "at s xs" and "val \<noteq> NO_MORE_DOCS"
  shows "\<exists>d s'. vt_Advance V val s = Inr (d, s') \<and> (d \<noteq> NO_MORE_DOCS \<and> d = val \<longleftrightarrow> val \<in> set xs)"
proof -
  have docs: "doc_list xs" using at_docs[OF assms(1)] .
  have "val \<in> set xs \<longleftrightarrow> (\<exists>ys. skip_to val xs = val # ys)"
    using docs by (induction xs) (auto split: if_splits)
  with advance_at[OF assms(1), of val] assms(2) show ?thesis
    by (cases "skip_to val xs") auto
qed

lemma Advance_pull_ok: "pull_ok t (vt_Advance V t)"
  unfolding pull_ok_def
proof (intro allI impI)
  fix s ys assume a: "at s ys"
  have "\<forall>y\<in>set (takeWhile (\<lambda>x. x < t) ys). y < t" by (auto dest: set_takeWhileD)
  moreover have "NO_MORE_DOCS \<notin> set ys" using at_docs[OF a] by (simp add: doc_list_def)
  ultimately show "\<exists>d s'. vt_Advance V t s = Inr (d, s') \<and>
       (if d = NO_MORE_DOCS then \<forall>y\<in>set ys. y < t
        else \<exists>pre zs. ys = pre @ d # zs \<and> at s' zs \<and> (\<forall>y\<in>set pre. y < t))"
  proof (cases "skip_to t ys")
    case Nil
    with advance_Nil[OF a Nil] set_skip_to[OF at_docs[OF a], of t] show ?thesis by (auto simp: not_le)
  next
    case (Cons z zs)
    then have "z \<in> set ys" using set_skip_to[OF at_docs[OF a], of t] by auto
    with \<open>NO_MORE_DOCS \<notin> set ys\<close> have "z \<noteq> NO_MORE_DOCS" by auto
    moreover have "ys = takeWhile (\<lambda>x. x < t) ys @ z # zs"
      using Cons takeWhile_dropWhile_id[of "\<lambda>x. x < t" ys] by (simp add: skip_to_def)
    ultimately show ?thesis using advance_Cons[OF a Cons] \<open>\<forall>y\<in>set (takeWhile _ ys). y < t\<close> by (metis (no_types))
  qed
qed

lemma Advance_ge: "at s ys \<Longrightarrow> vt_Advance V t s = Inr (d, s') \<Longrightarrow> t \<le> d"
proof -
  assume a: "at s ys" and eq: "vt_Advance V t s = Inr (d, s')"
  show "t \<le> d"
  proof (cases "skip_to t ys")
    case Nil
    with advance_Nil[OF a Nil] eq show ?thesis by auto
  next
    case (Cons z zs)
    with advance_Cons[OF a Cons] eq set_skip_to[OF at_docs[OF a], of t] show ?thesis by auto
  qed
qed

end

lemma set_equals_at:
  assumes V: "doc_stream V at ended" and W: "doc_stream W at' ended'"
    and "at s xs" and "at' t ys" and "length xs < n"
  shows "set_equals V W n s t = Some (Inr (xs = ys))"
  using assms(3-)
proof (induction xs arbitrary: s t ys n)
  case Nil
  then obtain m where n: "n = Suc m" by (cases n) auto
  from doc_stream.next_Nil[OF V Nil(1)] obtain s' where "vt_nextDoc V s = Inr (NO_MORE_DOCS, s')" by blast
  with n doc_stream.next_Nil[OF W, of t] doc_stream.next_Cons[OF W, of t]
    doc_stream.at_docs[OF W Nil(2)] Nil(2)
  show ?case by (cases ys) fastforce+
next
  case (Cons x xs)
  then obtain m where n: "n = Suc m" "length xs < m" by (cases n) auto
  from doc_stream.next_Cons[OF V Cons.prems(1)] obtain s' where
    s': "vt_nextDoc V s = Inr (x, s')" "at s' xs" "vt_docID V s' = x" by blast
  have x: "x \<noteq> NO_MORE_DOCS" using doc_stream.at_docs[OF V Cons.prems(1)] by simp
  show ?case
  proof (cases ys)
    case Nil
    with doc_stream.next_Nil[OF W] Cons.prems(2) obtain t' where "vt_nextDoc W t = Inr (NO_MORE_DOCS, t')"
      by blast
    with s' n x Nil show ?thesis by simp
  next
    case (Cons y ys')
    with doc_stream.next_Cons[OF W] Cons.prems(2) obtain t' where
      "vt_nextDoc W t = Inr (y, t')" "at' t' ys'" "vt_docID W t' = y" by blast
    moreover have "y \<noteq> NO_MORE_DOCS"
      using doc_stream.at_docs[OF W Cons.prems(2)] Cons by simp
    ultimately show ?thesis using s' n x Cons Cons.IH[OF s'(2) _ n(2)] by simp
  qed
qed

end
