(* ===== verification/CompressedSet.thy ===== *)
theory CompressedSet
  imports DeltaChunkStore CollectionHelper DocIterator
begin

text \<open>
  \<^verbatim>\<open>varint/CompressedSet.cpp\<close>: a set of increasing document ids, as full blocks of 2048
  that are compressed and one block that is not, with the last id of every compressed block
  kept for skipping.
\<close>

section \<open>State\<close>

definition DEFAULT_BATCH_SIZE :: nat where
  "DEFAULT_BATCH_SIZE = 2048"

definition BLOCK_SIZE_MODULO :: int where
  "BLOCK_SIZE_MODULO = 2047"

definition BLOCK_INDEX_SHIFT_BITS :: nat where
  "BLOCK_INDEX_SHIFT_BITS = 11"

record compressed_set =
  sizeOfCurrentNoCompBlock :: nat
  baseListForOnlyCompBlocks :: "u32 list"
  totalDocIdNum :: u32
  currentNoCompBlock :: "u32 list"
  sequenceOfCompBlocks :: delta_chunk_store

definition new_compressed_set :: compressed_set where
  "new_compressed_set =
     \<lparr>sizeOfCurrentNoCompBlock = 0, baseListForOnlyCompBlocks = [], totalDocIdNum = 0,
      currentNoCompBlock = [], sequenceOfCompBlocks = empty_store\<rparr>"

text \<open>
  The copy constructor: the assertion reads the new object's count before it is set, the blocks and the
  bases are not copied, and as many ids are copied as a full block has, whatever the other one holds.
\<close>

definition cs_copy :: "u32 \<Rightarrow> compressed_set \<Rightarrow> compressed_set res" where
  "cs_copy uninitialised other =
     (if \<not> uninitialised \<le> 1 then Inl AssertFailed
      else if length (currentNoCompBlock other) < DEFAULT_BATCH_SIZE then Inl OutOfBounds
      else Inr \<lparr>sizeOfCurrentNoCompBlock = sizeOfCurrentNoCompBlock other, baseListForOnlyCompBlocks = [],
                totalDocIdNum = totalDocIdNum other,
                currentNoCompBlock = take DEFAULT_BATCH_SIZE (currentNoCompBlock other),
                sequenceOfCompBlocks = empty_store\<rparr>)"

lemma cs_copy_new: "cs_copy uninitialised new_compressed_set = Inl (if uninitialised \<le> 1 then OutOfBounds else AssertFailed)"
  by (simp add: cs_copy_def new_compressed_set_def DEFAULT_BATCH_SIZE_def)

text \<open>\<open>memcpy\<close> of words into a vector, at an offset; it must not run over the end.\<close>

definition copy_into :: "u32 list \<Rightarrow> nat \<Rightarrow> u32 list \<Rightarrow> u32 list res" where
  "copy_into dst off src =
     (if off + length src \<le> length dst
      then Inr (take off dst @ src @ drop (off + length src) dst) else Inl OutOfBounds)"

text \<open>The words \<open>&p[start] .. &p[start + len - 1]\<close> of an array.\<close>

definition slice_of :: "u32 list \<Rightarrow> nat \<Rightarrow> nat \<Rightarrow> u32 list res" where
  "slice_of p start len = (if start + len \<le> length p then Inr (take len (drop start p)) else Inl OutOfBounds)"

section \<open>Adding documents\<close>

definition PForDeltaCompressOneBlock :: "u32 list \<Rightarrow> chunk res" where
  "PForDeltaCompressOneBlock block = Compress block"

definition PForDeltaCompressCurrentBlock :: "compressed_set \<Rightarrow> chunk res" where
  "PForDeltaCompressCurrentBlock s =
     rbind (slice_of (currentNoCompBlock s) 0 (sizeOfCurrentNoCompBlock s)) PForDeltaCompressOneBlock"

definition cs_addDoc :: "u32 \<Rightarrow> compressed_set \<Rightarrow> compressed_set res" where
  "cs_addDoc docId s =
     rbind
       (if sizeOfCurrentNoCompBlock s \<noteq> DEFAULT_BATCH_SIZE then
          let cur = vec_resize (sizeOfCurrentNoCompBlock s + 1) (currentNoCompBlock s) in
          Inr (s\<lparr>currentNoCompBlock := cur[sizeOfCurrentNoCompBlock s := docId],
                 sizeOfCurrentNoCompBlock := sizeOfCurrentNoCompBlock s + 1\<rparr>)
        else
          rbind (vec_at (currentNoCompBlock s) (int (sizeOfCurrentNoCompBlock s) - 1)) (\<lambda>base.
          rbind (PForDeltaCompressCurrentBlock s) (\<lambda>compRes.
            Inr (s\<lparr>baseListForOnlyCompBlocks := baseListForOnlyCompBlocks s @ [base],
                   sequenceOfCompBlocks := store_add compRes (sequenceOfCompBlocks s),
                   sizeOfCurrentNoCompBlock := 1,
                   currentNoCompBlock := (vec_resize 1 (currentNoCompBlock s))[0 := docId]\<rparr>))))
       (\<lambda>s'. Inr (s'\<lparr>totalDocIdNum := totalDocIdNum s' + 1\<rparr>))"

text \<open>
  The same with an \<open>int\<close> for the start, as \<open>addDocs\<close> has it: a negative one is in front of the array.
\<close>

definition int_slice_of :: "u32 list \<Rightarrow> int \<Rightarrow> int \<Rightarrow> u32 list res" where
  "int_slice_of p start len = (if 0 \<le> start \<and> 0 \<le> len then slice_of p (nat start) (nat len) else Inl OutOfBounds)"

text \<open>
  The \<open>while\<close> loop of \<open>addDocs\<close> over the full blocks in the middle; \<open>newStart\<close> and \<open>leftLen\<close> are of
  type \<open>int\<close>.
\<close>

function addDocs_middle :: "u32 list \<Rightarrow> int \<Rightarrow> int \<Rightarrow> compressed_set \<Rightarrow> (int \<times> int \<times> compressed_set) res" where
  "addDocs_middle docids newStart leftLen s =
     (if leftLen > int DEFAULT_BATCH_SIZE then
        rbind (vec_at docids (int32 (newStart + int DEFAULT_BATCH_SIZE - 1))) (\<lambda>base.
        rbind (int_slice_of docids newStart (int DEFAULT_BATCH_SIZE)) (\<lambda>blk.
        rbind (copy_into (currentNoCompBlock s) 0 blk) (\<lambda>cur.
        let s1 = s\<lparr>baseListForOnlyCompBlocks := baseListForOnlyCompBlocks s @ [base],
                   currentNoCompBlock := cur\<rparr> in
        rbind (PForDeltaCompressCurrentBlock s1) (\<lambda>compRes.
          addDocs_middle docids (int32 (newStart + int DEFAULT_BATCH_SIZE)) (leftLen - int DEFAULT_BATCH_SIZE)
            (s1\<lparr>sequenceOfCompBlocks := store_add compRes (sequenceOfCompBlocks s1)\<rparr>)))))
      else Inr (newStart, leftLen, s))"
  by pat_completeness auto
termination by (relation "measure (\<lambda>(d, n, l, s). nat l)") (auto simp: DEFAULT_BATCH_SIZE_def)

declare addDocs_middle.simps [simp del]

text \<open>
  \<open>start\<close> and \<open>len\<close> are of type \<open>size_t\<close>, what is computed from them is stored in variables of type
  \<open>int\<close>.  A negative \<open>leftLen\<close> would become the size of the open block; the state here has no such
  size, and any use of it would be out of bounds.
\<close>

definition cs_addDocs :: "u32 list \<Rightarrow> u64 \<Rightarrow> u64 \<Rightarrow> compressed_set \<Rightarrow> compressed_set res" where
  "cs_addDocs docids start len s =
     rbind
       (if len + of_nat (sizeOfCurrentNoCompBlock s) \<le> of_nat DEFAULT_BATCH_SIZE then
          rbind (slice_of docids (unat start) (unat len)) (\<lambda>new.
          rbind (copy_into (vec_resize (unat (len + of_nat (sizeOfCurrentNoCompBlock s))) (currentNoCompBlock s))
                   (sizeOfCurrentNoCompBlock s) new) (\<lambda>cur.
            Inr (s\<lparr>currentNoCompBlock := cur,
                   sizeOfCurrentNoCompBlock := sizeOfCurrentNoCompBlock s + unat len\<rparr>)))
        else
          let copyLen = DEFAULT_BATCH_SIZE - sizeOfCurrentNoCompBlock s in
          rbind (slice_of docids (unat start) copyLen) (\<lambda>new.
          rbind (copy_into (vec_resize DEFAULT_BATCH_SIZE (currentNoCompBlock s))
                   (sizeOfCurrentNoCompBlock s) new) (\<lambda>cur.
          let s1 = s\<lparr>currentNoCompBlock := cur, sizeOfCurrentNoCompBlock := DEFAULT_BATCH_SIZE\<rparr> in
          rbind (vec_at cur (int DEFAULT_BATCH_SIZE - 1)) (\<lambda>base.
          rbind (PForDeltaCompressCurrentBlock s1) (\<lambda>compRes.
          rbind (addDocs_middle docids (int32 (uint (start + of_nat copyLen))) (int32 (uint (len - of_nat copyLen)))
                   (s1\<lparr>baseListForOnlyCompBlocks := baseListForOnlyCompBlocks s1 @ [base],
                       sequenceOfCompBlocks := store_add compRes (sequenceOfCompBlocks s1)\<rparr>))
            (\<lambda>(newStart, leftLen, s2).
          rbind (if leftLen > 0
                 then rbind (int_slice_of docids newStart leftLen) (copy_into (currentNoCompBlock s2) 0)
                 else Inr (currentNoCompBlock s2)) (\<lambda>cur2.
            if leftLen < 0 then Inl OutOfBounds
            else Inr (s2\<lparr>currentNoCompBlock := cur2, sizeOfCurrentNoCompBlock := nat leftLen\<rparr>))))))))
       (\<lambda>s'. Inr (s'\<lparr>totalDocIdNum := totalDocIdNum s' + ucast len\<rparr>))"

section \<open>Housekeeping\<close>

definition compactBaseListForOnlyCompBlocks :: "compressed_set \<Rightarrow> compressed_set" where
  "compactBaseListForOnlyCompBlocks s =
     (let tmp = baseListForOnlyCompBlocks s in s\<lparr>baseListForOnlyCompBlocks := tmp\<rparr>)"

definition cs_compact :: "compressed_set \<Rightarrow> compressed_set" where
  "cs_compact s = compactBaseListForOnlyCompBlocks
     (s\<lparr>sequenceOfCompBlocks := store_compact (sequenceOfCompBlocks s)\<rparr>)"

definition cs_size :: "compressed_set \<Rightarrow> u32" where
  "cs_size s = totalDocIdNum s"

definition cs_removeDocId :: "u32 \<Rightarrow> compressed_set \<Rightarrow> compressed_set res" where
  "cs_removeDocId docId s = Inl (Thrown (- 17))"

definition cs_swap :: "compressed_set \<times> compressed_set \<Rightarrow> compressed_set \<times> compressed_set" where
  "cs_swap p = (case p of (this, x) \<Rightarrow>
     (case store_swap (sequenceOfCompBlocks this, sequenceOfCompBlocks x) of (q1, q2) \<Rightarrow>
       (this\<lparr>sizeOfCurrentNoCompBlock := sizeOfCurrentNoCompBlock x,
             baseListForOnlyCompBlocks := baseListForOnlyCompBlocks x,
             totalDocIdNum := totalDocIdNum x,
             currentNoCompBlock := currentNoCompBlock x,
             sequenceOfCompBlocks := q1\<rparr>,
        x\<lparr>sizeOfCurrentNoCompBlock := sizeOfCurrentNoCompBlock this,
          baseListForOnlyCompBlocks := baseListForOnlyCompBlocks this,
          totalDocIdNum := totalDocIdNum this,
          currentNoCompBlock := currentNoCompBlock this,
          sequenceOfCompBlocks := q2\<rparr>)))"

section \<open>Serialization\<close>

definition cs_write :: "compressed_set \<Rightarrow> bytes res" where
  "cs_write s =
     rbind
       (if totalDocIdNum s > 0 then
          rbind (slice_of (currentNoCompBlock s) 0 (sizeOfCurrentNoCompBlock s)) (\<lambda>cur.
            Inr ((if totalDocIdNum s \<ge> of_nat DEFAULT_BATCH_SIZE
                  then word_bytes (of_nat (sizeOfCurrentNoCompBlock s)) else [])
                 @ words_bytes cur))
        else Inr [])
       (\<lambda>out1. Inr (word_bytes (totalDocIdNum s) @ out1
          @ (if totalDocIdNum s > of_nat DEFAULT_BATCH_SIZE
             then word_bytes (of_nat (length (baseListForOnlyCompBlocks s)))
               @ words_bytes (baseListForOnlyCompBlocks s)
               @ store_write (sequenceOfCompBlocks s)
             else [])))"

text \<open>
  \<open>read\<close> into the set \<open>s\<close>.  A size that is negative as an \<open>int\<close> makes \<open>resize\<close> throw; no
  stream is long enough for it as an unsigned number either, so it is an error here too.
\<close>

definition cs_read :: "bytes \<Rightarrow> compressed_set \<Rightarrow> (compressed_set \<times> bytes) res" where
  "cs_read inp s =
     rbind (read_word inp) (\<lambda>(total, in1).
     let s1 = s\<lparr>totalDocIdNum := total\<rparr> in
     if total > 0 then
       rbind (if total < of_nat DEFAULT_BATCH_SIZE then Inr (total, in1) else read_word in1) (\<lambda>(sz, in2).
       rbind (read_words (unat sz) in2) (\<lambda>(cur, in3).
       let s2 = s1\<lparr>sizeOfCurrentNoCompBlock := unat sz, currentNoCompBlock := cur\<rparr> in
       if total > of_nat DEFAULT_BATCH_SIZE then
         rbind (read_word in3) (\<lambda>(nb, in4).
         rbind (read_words (unat nb) in4) (\<lambda>(bases, in5).
         rbind (store_read in5) (\<lambda>(st, in6).
           Inr (s2\<lparr>baseListForOnlyCompBlocks := bases, sequenceOfCompBlocks := st\<rparr>, in6))))
       else Inr (s2, in3)))
     else Inr (s1, in1))"

section \<open>Membership\<close>

text \<open>The linear scan of the uncompressed block: the index of the first id not below the target.\<close>

function scan_noComp :: "u32 list \<Rightarrow> nat \<Rightarrow> nat \<Rightarrow> u32 \<Rightarrow> nat res" where
  "scan_noComp cur sz i target =
     (if i < sz then
        rbind (vec_at cur (int i)) (\<lambda>v. if v \<ge> target then Inr i else scan_noComp cur sz (i + 1) target)
      else Inr i)"
  by pat_completeness auto
termination by (relation "measure (\<lambda>(c, n, i, t). n - i)") auto

declare scan_noComp.simps [simp del]

text \<open>\<open>Uncompress\<close> of one block of the store, into a buffer of the caller.\<close>

definition uncompress_block :: "delta_chunk_store \<Rightarrow> int \<Rightarrow> u32 list \<Rightarrow> (nat \<times> u32 list) res" where
  "uncompress_block st index buf =
     rbind (store_get st index) (\<lambda>c.
     rbind (Uncompress c DEFAULT_BATCH_SIZE) (\<lambda>ids.
     rbind (copy_into buf 0 ids) (\<lambda>buf'. Inr (uncompress_result ids, buf'))))"

definition cs_find :: "u32 \<Rightarrow> compressed_set \<Rightarrow> bool res" where
  "cs_find target s =
     (let bases = baseListForOnlyCompBlocks s;
          n = sizeOfCurrentNoCompBlock s;
          search_blocks =
            (if length bases > 0 then
               rbind (binarySearchInBaseListForBlockThatMayContainTarget bases 0 (length bases - 1) target)
                 (\<lambda>index. if index < 0 then Inr False
                    else rbind (uncompress_block (sequenceOfCompBlocks s) index (replicate DEFAULT_BATCH_SIZE 0))
                           (\<lambda>(uncompSize, buf). findInArray buf uncompSize 0 target))
             else Inr False)
      in if totalDocIdNum s = 0 then Inr False
         else if n \<noteq> 0 then
           rbind (vec_at (currentNoCompBlock s) (int n - 1)) (\<lambda>lastId.
             if target > lastId then Inr False
             else if length bases = 0 \<or> target > bases ! (length bases - 1) then
               rbind (scan_noComp (currentNoCompBlock s) n 0 target) (\<lambda>i.
                 if i = n then Inr False
                 else rbind (vec_at (currentNoCompBlock s) (int i)) (\<lambda>v. Inr (v = target)))
             else search_blocks)
         else search_blocks)"

section \<open>The documents of a set\<close>

text \<open>
  \<open>cs_blocks s blocks rest\<close>: the compressed blocks decompress to \<open>blocks\<close>, \<open>rest\<close> is in the
  uncompressed block, and together they are a document list.
\<close>

definition cs_blocks :: "compressed_set \<Rightarrow> u32 list list \<Rightarrow> u32 list \<Rightarrow> bool" where
  "cs_blocks s blocks rest \<longleftrightarrow>
     list_all2 pfor.represents (data2 (sequenceOfCompBlocks s)) blocks
   \<and> baseListForOnlyCompBlocks s = map last blocks
   \<and> sizeOfCurrentNoCompBlock s = length rest \<and> length rest \<le> DEFAULT_BATCH_SIZE
   \<and> length rest \<le> length (currentNoCompBlock s) \<and> length (currentNoCompBlock s) \<le> DEFAULT_BATCH_SIZE
   \<and> take (length rest) (currentNoCompBlock s) = rest
   \<and> (blocks \<noteq> [] \<longrightarrow> rest \<noteq> [])
   \<and> doc_list (concat blocks @ rest)
   \<and> totalDocIdNum s = of_nat (length (concat blocks @ rest))
   \<and> length (concat blocks @ rest) < 2 ^ 31"

definition cs_docs :: "compressed_set \<Rightarrow> u32 list \<Rightarrow> bool" where
  "cs_docs s xs \<longleftrightarrow> (\<exists>blocks rest. cs_blocks s blocks rest \<and> xs = concat blocks @ rest)"

lemma batch_is_block: "DEFAULT_BATCH_SIZE = BlockSize"
  by (simp add: DEFAULT_BATCH_SIZE_def block_consts)

lemma vec_resize_push:
  assumes "n \<le> length xs"
  shows "(vec_resize (Suc n) xs)[n := d] = take n xs @ [d]"
proof (cases "n = length xs")
  case False
  with assms have "n < length xs" by simp
  then show ?thesis by (simp add: vec_resize_def take_Suc_conv_app_nth list_update_append)
qed (simp add: vec_resize_def list_update_append)

lemma vec_resize_one: "vec_resize (Suc 0) xs = [if xs = [] then 0 else hd xs]"
  by (cases xs) (auto simp: vec_resize_def)

lemma cs_docs_doc_list: "cs_docs s xs \<Longrightarrow> doc_list xs"
  by (auto simp: cs_docs_def cs_blocks_def)

lemma cs_docs_new: "cs_docs new_compressed_set []"
  unfolding cs_docs_def
  by (rule exI[of _ "[]"], rule exI[of _ "[]"])
    (simp add: cs_blocks_def new_compressed_set_def empty_store_def)

lemma cs_blocks_represents:
  assumes "cs_blocks s blocks rest" and "b < length blocks"
  shows "pfor.represents (data2 (sequenceOfCompBlocks s) ! b) (blocks ! b)"
    and "length (data2 (sequenceOfCompBlocks s)) = length blocks"
  using assms by (auto simp: cs_blocks_def list_all2_conv_all_nth)

lemma cs_blocks_lengths:
  assumes "cs_blocks s blocks rest"
  shows "\<forall>blk\<in>set blocks. length blk = DEFAULT_BATCH_SIZE"
proof
  fix blk assume "blk \<in> set blocks"
  then obtain b where "b < length blocks" "blk = blocks ! b" by (metis in_set_conv_nth)
  then show "length blk = DEFAULT_BATCH_SIZE"
    using cs_blocks_represents(1)[OF assms, of b] by (simp add: pfor.represents_def batch_is_block)
qed

lemma uncompress_block_represents:
  assumes "cs_blocks s blocks rest" and "b < length blocks" and "length buf = DEFAULT_BATCH_SIZE"
  shows "uncompress_block (sequenceOfCompBlocks s) (int b) buf = Inr (4 * DEFAULT_BATCH_SIZE, blocks ! b)"
proof -
  from cs_blocks_represents[OF assms(1,2)] assms(2) have
    "store_get (sequenceOfCompBlocks s) (int b) = Inr (data2 (sequenceOfCompBlocks s) ! b)"
    "Uncompress (data2 (sequenceOfCompBlocks s) ! b) DEFAULT_BATCH_SIZE = Inr (blocks ! b)"
    "length (blocks ! b) = DEFAULT_BATCH_SIZE"
    by (simp_all add: store_get_def pfor.represents_def batch_is_block)
  with assms(3) show ?thesis by (simp add: uncompress_block_def copy_into_def uncompress_result_def)
qed

section \<open>Adding a document\<close>

lemma compress_current:
  assumes "cs_blocks s blocks rest" and "length rest = DEFAULT_BATCH_SIZE"
  obtains c where "PForDeltaCompressCurrentBlock s = Inr c" and "pfor.represents c rest"
proof -
  from assms(1) have "sorted rest"
    by (auto simp: cs_blocks_def doc_list_def sorted_wrt_append intro: sorted_wrt_less_imp_sorted)
  with assms(2) obtain c where "Compress rest = Inr c" "pfor.represents c rest"
    using pfor.compress_represents[of rest] by (auto simp: batch_is_block)
  moreover from assms have "slice_of (currentNoCompBlock s) 0 (sizeOfCurrentNoCompBlock s) = Inr rest"
    by (simp add: cs_blocks_def slice_of_def)
  ultimately show ?thesis
    using that by (simp add: PForDeltaCompressCurrentBlock_def PForDeltaCompressOneBlock_def)
qed

lemma cs_addDoc_docs:
  assumes "cs_docs s xs" and "doc_list (xs @ [d])" and "length xs + 1 < 2 ^ 31"
  shows "\<exists>s'. cs_addDoc d s = Inr s' \<and> cs_docs s' (xs @ [d])"
proof -
  from assms(1) obtain blocks rest where b: "cs_blocks s blocks rest" and xs: "xs = concat blocks @ rest"
    by (auto simp: cs_docs_def)
  show ?thesis
  proof (cases "length rest = DEFAULT_BATCH_SIZE")
    case False
    then have "length rest < DEFAULT_BATCH_SIZE" "sizeOfCurrentNoCompBlock s \<noteq> DEFAULT_BATCH_SIZE"
      using b by (simp_all add: cs_blocks_def)
    with b xs assms(2,3) False have "\<exists>s'. cs_addDoc d s = Inr s' \<and> cs_blocks s' blocks (rest @ [d])"
      by (simp add: cs_addDoc_def cs_blocks_def Let_def vec_resize_push)
    then show ?thesis by (auto simp: cs_docs_def xs)
  next
    case True
    from compress_current[OF b True] obtain c where
      c: "PForDeltaCompressCurrentBlock s = Inr c" "pfor.represents c rest" .
    have rest: "rest \<noteq> []" using True by (auto simp: DEFAULT_BATCH_SIZE_def)
    have "currentNoCompBlock s = rest" "sizeOfCurrentNoCompBlock s = DEFAULT_BATCH_SIZE"
      using b True by (auto simp: cs_blocks_def)
    with b c xs assms(2,3) rest True
    have "\<exists>s'. cs_addDoc d s = Inr s' \<and> cs_blocks s' (blocks @ [rest]) [d]"
      by (simp add: cs_addDoc_def cs_blocks_def vec_resize_one store_add_def vec_at_def last_conv_nth
        nat_diff_distrib DEFAULT_BATCH_SIZE_def list_all2_appendI)
    then show ?thesis by (auto simp: cs_docs_def xs) (metis append.assoc concat.simps concat_append append_Nil2)
  qed
qed

lemma addDocs_all_docs:
  assumes "cs_docs s xs" and "doc_list (xs @ ys)" and "length (xs @ ys) < 2 ^ 31"
  shows "\<exists>s'. fold_res (\<lambda>s d. cs_addDoc d s) s ys = Inr s' \<and> cs_docs s' (xs @ ys)"
  using assms
proof (induction ys arbitrary: s xs)
  case (Cons d ys)
  have "doc_list (xs @ [d])" using Cons.prems(2) by (auto simp: doc_list_def sorted_wrt_append)
  with cs_addDoc_docs[OF Cons.prems(1), of d] Cons.prems(3) obtain s' where
    "cs_addDoc d s = Inr s'" "cs_docs s' (xs @ [d])" by auto
  with Cons.IH[of s' "xs @ [d]"] Cons.prems show ?case by simp
qed simp

section \<open>Serialization round trip\<close>

lemma concat_length_blocks:
  "\<forall>blk\<in>set blocks. length blk = n \<Longrightarrow> length (concat blocks) = length blocks * n"
  by (induction blocks) auto

text \<open>Two sets are equal as far as any operation can see: the spare part of the last block is not.\<close>

definition cs_trim :: "compressed_set \<Rightarrow> compressed_set" where
  "cs_trim s = s\<lparr>currentNoCompBlock := take (sizeOfCurrentNoCompBlock s) (currentNoCompBlock s)\<rparr>"

lemma cs_docs_trim: "cs_docs s xs \<Longrightarrow> cs_docs (cs_trim s) xs"
  unfolding cs_docs_def by (force simp: cs_blocks_def cs_trim_def)

lemma cs_read_write:
  assumes "cs_docs s xs"
  shows "\<exists>out. cs_write s = Inr out \<and> cs_read (out @ rst) new_compressed_set = Inr (cs_trim s, rst)"
proof -
  from assms obtain blocks rest where b: "cs_blocks s blocks rest" and xs: "xs = concat blocks @ rest"
    by (auto simp: cs_docs_def)
  let ?n = "length blocks * DEFAULT_BATCH_SIZE + length rest"
  have len: "length (concat blocks) = length blocks * DEFAULT_BATCH_SIZE"
    using concat_length_blocks[OF cs_blocks_lengths[OF b]] .
  have small: "?n < 2 ^ 31" and tot1: "totalDocIdNum s = of_nat ?n"
    and rest: "length rest \<le> DEFAULT_BATCH_SIZE" "blocks \<noteq> [] \<longrightarrow> rest \<noteq> []"
    using b len by (simp_all add: cs_blocks_def)
  have tot: "totalDocIdNum s = of_nat ?n" "unat (totalDocIdNum s) = ?n"
    unfolding tot1 using unat_of_nat_u32[OF small] by (simp_all only:)
  have chunks: "\<forall>c\<in>set (data2 (sequenceOfCompBlocks s)). chunk_inv c"
    using b by (auto simp: cs_blocks_def list_all2_conv_all_nth pfor.represents_def in_set_conv_nth)
  have few: "length (data2 (sequenceOfCompBlocks s)) = length blocks" "length blocks < 2 ^ 31"
    using b small by (auto simp: cs_blocks_def list_all2_lengthD DEFAULT_BATCH_SIZE_def)
  then have st: "store_read (store_write (sequenceOfCompBlocks s) @ rst) = Inr (sequenceOfCompBlocks s, rst)"
    using chunks by (simp add: store_read_write)
  have cmp: "(0 < totalDocIdNum s) = (0 < ?n)" "(of_nat DEFAULT_BATCH_SIZE \<le> totalDocIdNum s) = (DEFAULT_BATCH_SIZE \<le> ?n)"
    "(of_nat DEFAULT_BATCH_SIZE < totalDocIdNum s) = (DEFAULT_BATCH_SIZE < ?n)"
    "(totalDocIdNum s < of_nat DEFAULT_BATCH_SIZE) = (?n < DEFAULT_BATCH_SIZE)"
    using tot(2) by (simp_all add: word_less_nat_alt word_le_nat_alt DEFAULT_BATCH_SIZE_def)
  have cur: "slice_of (currentNoCompBlock s) 0 (sizeOfCurrentNoCompBlock s) = Inr rest"
    "take (sizeOfCurrentNoCompBlock s) (currentNoCompBlock s) = rest"
    "sizeOfCurrentNoCompBlock s = length rest" "baseListForOnlyCompBlocks s = map last blocks"
    using b by (simp_all add: cs_blocks_def slice_of_def)
  have un: "unat (of_nat (length rest) :: u32) = length rest" "unat (of_nat (length blocks) :: u32) = length blocks"
    using few small by (simp_all add: unat_of_nat DEFAULT_BATCH_SIZE_def)
  consider "?n = 0" | "blocks = []" "0 < ?n" "?n < DEFAULT_BATCH_SIZE"
    | "blocks = []" "?n = DEFAULT_BATCH_SIZE" | "blocks \<noteq> []" "DEFAULT_BATCH_SIZE < ?n"
    using rest by (cases "blocks = []") (fastforce simp: DEFAULT_BATCH_SIZE_def neq_Nil_conv)+
  then show ?thesis
  proof cases
    case 1
    then have "blocks = []" "rest = []" using rest(2) by auto
    with few cur tot cmp show ?thesis
      by (cases s) (auto simp: cs_write_def cs_read_def cs_trim_def new_compressed_set_def empty_store_def)
  next
    case 2
    with few cur tot cmp show ?thesis
      by (cases s) (auto simp: cs_write_def cs_read_def cs_trim_def new_compressed_set_def empty_store_def)
  next
    case 3
    with few cur tot cmp un show ?thesis
      by (cases s) (auto simp: cs_write_def cs_read_def cs_trim_def new_compressed_set_def empty_store_def)
  next
    case 4
    with few cur tot cmp un st show ?thesis
      by (cases s) (auto simp: cs_write_def cs_read_def cs_trim_def new_compressed_set_def)
  qed
qed

end
