(* ===== verification/CompressedSetSearch.thy ===== *)
theory CompressedSetSearch
  imports CompressedSet
begin

text \<open>
  Positions in a compressed set: how an index into the document list splits into a block and an
  offset, where the first document not below a target is, and with it the correctness of
  \<open>CompressedSet::find\<close> and of the bulk insertion \<open>addDocs\<close>.
\<close>

section \<open>The position of a target\<close>

definition found :: "u32 list \<Rightarrow> u32 \<Rightarrow> nat \<Rightarrow> bool" where
  "found xs t i \<longleftrightarrow> i < length xs \<and> t \<le> xs ! i \<and> (0 < i \<longrightarrow> xs ! (i - 1) < t)"

lemma doc_list_nth_less: "doc_list xs \<Longrightarrow> i < j \<Longrightarrow> j < length xs \<Longrightarrow> xs ! i < xs ! j"
  by (simp add: doc_list_def sorted_wrt_nth_less)

lemma doc_list_nth_le: "doc_list xs \<Longrightarrow> i \<le> j \<Longrightarrow> j < length xs \<Longrightarrow> xs ! i \<le> xs ! j"
  using doc_list_nth_less[of xs i j] by (cases "i = j") auto

lemma doc_list_below:
  assumes "doc_list xs" and "j < n" and "n \<le> length xs" and "xs ! (n - 1) < t"
  shows "xs ! j < t"
proof -
  have "j \<le> n - 1" "n - 1 < length xs" using assms(2,3) by auto
  from doc_list_nth_le[OF assms(1) this] assms(4) show ?thesis by (rule le_less_trans)
qed

lemma doc_list_appendD: "doc_list (xs @ ys) \<Longrightarrow> doc_list xs" "doc_list (xs @ ys) \<Longrightarrow> doc_list ys"
  by (auto simp: doc_list_def sorted_wrt_append)

lemma doc_list_nth_block: "doc_list (concat blocks) \<Longrightarrow> blk \<in> set blocks \<Longrightarrow> doc_list blk"
  by (induction blocks) (auto dest: doc_list_appendD)

lemma found_before: "doc_list xs \<Longrightarrow> found xs t i \<Longrightarrow> j < i \<Longrightarrow> xs ! j < t"
  by (rule doc_list_below[of xs j i]) (auto simp: found_def)

lemma found_skip:
  assumes "doc_list xs" and "found xs t i"
  shows "skip_to t xs = drop i xs"
proof -
  have "\<forall>x\<in>set (take i xs). x < t"
    using found_before[OF assms] assms(2) by (auto simp: in_set_conv_nth)
  then have "dropWhile (\<lambda>x. x < t) (take i xs @ drop i xs) = dropWhile (\<lambda>x. x < t) (drop i xs)"
    by (intro dropWhile_append2) auto
  then have "skip_to t xs = dropWhile (\<lambda>x. x < t) (drop i xs)" by (simp add: skip_to_def)
  moreover have "drop i xs = xs ! i # drop (Suc i) xs" "\<not> xs ! i < t"
    using assms(2) by (simp_all add: found_def Cons_nth_drop_Suc not_less)
  ultimately show ?thesis by simp
qed

lemma found_Cons: "found xs t i \<Longrightarrow> drop i xs = xs ! i # drop (Suc i) xs"
  by (simp add: found_def Cons_nth_drop_Suc)

lemma first_at_least_found: "first_at_least xs 0 t i \<Longrightarrow> i < length xs \<Longrightarrow> found xs t i"
  by (simp add: first_at_least_def found_def)

lemma skip_to_Nil:
  assumes "doc_list xs" and "xs \<noteq> []" and "last xs < t"
  shows "skip_to t xs = []"
proof -
  have "x < t" if "x \<in> set xs" for x
  proof -
    from that obtain j where "j < length xs" "x = xs ! j" by (auto simp: in_set_conv_nth)
    with doc_list_below[OF assms(1), of j "length xs" t] assms(2,3) show ?thesis
      by (simp add: last_conv_nth)
  qed
  then show ?thesis by (simp add: skip_to_def dropWhile_eq_Nil_conv)
qed

lemma skip_to_drop:
  assumes "doc_list xs" and "n \<le> length xs" and "0 < n \<longrightarrow> xs ! (n - 1) < t"
  shows "skip_to t (drop n xs) = skip_to t xs"
proof -
  have "\<forall>x\<in>set (take n xs). x < t"
  proof
    fix x assume "x \<in> set (take n xs)"
    then obtain j where "j < n" "x = xs ! j" using assms(2) by (auto simp: in_set_conv_nth)
    moreover from this have "xs ! (n - 1) < t" using assms(3) by (cases n) auto
    ultimately show "x < t" using doc_list_below[OF assms(1) _ assms(2)] by blast
  qed
  then have "dropWhile (\<lambda>x. x < t) (take n xs @ drop n xs) = dropWhile (\<lambda>x. x < t) (drop n xs)"
    by (intro dropWhile_append2) auto
  then show ?thesis unfolding skip_to_def append_take_drop_id by (rule sym)
qed

lemma mem_skip_to: "doc_list xs \<Longrightarrow> t \<in> set xs \<longleftrightarrow> (\<exists>ys. skip_to t xs = t # ys)"
  by (induction xs) auto

lemma found_mem: "doc_list xs \<Longrightarrow> found xs t i \<Longrightarrow> t \<in> set xs \<longleftrightarrow> xs ! i = t"
  by (auto simp: mem_skip_to found_skip found_Cons)

section \<open>Blocks and offsets\<close>

lemma nth_blocks:
  assumes "\<forall>blk\<in>set blocks. length blk = n" and "b < length blocks" and "j < n"
  shows "(concat blocks @ rest) ! (n * b + j) = blocks ! b ! j"
  using assms
proof (induction blocks arbitrary: b)
  case (Cons blk blocks)
  then show ?case by (cases b) (simp_all add: nth_append add.assoc)
qed simp

lemma nth_rest:
  "\<forall>blk\<in>set blocks. length blk = n \<Longrightarrow> (concat blocks @ rest) ! (n * length blocks + j) = rest ! j"
  using concat_length_blocks[of blocks n] by (simp add: nth_append mult.commute)

text \<open>The lengths of a represented set, and the order of its block bases.\<close>

lemma cs_blocks_facts:
  assumes "cs_blocks s blocks rest"
  shows "length (concat blocks @ rest) = DEFAULT_BATCH_SIZE * length blocks + length rest"
    and "\<And>b j. b < length blocks \<Longrightarrow> j < DEFAULT_BATCH_SIZE \<Longrightarrow>
           (concat blocks @ rest) ! (DEFAULT_BATCH_SIZE * b + j) = blocks ! b ! j"
    and "\<And>j. (concat blocks @ rest) ! (DEFAULT_BATCH_SIZE * length blocks + j) = rest ! j"
    and "\<And>b. b < length blocks \<Longrightarrow> map last blocks ! b = blocks ! b ! (DEFAULT_BATCH_SIZE - 1)"
    and "doc_list (concat blocks @ rest)" and "doc_list rest"
    and "\<And>b. b < length blocks \<Longrightarrow> doc_list (blocks ! b)"
    and "\<And>b. b < length blocks \<Longrightarrow> length (blocks ! b) = DEFAULT_BATCH_SIZE"
proof -
  note len = cs_blocks_lengths[OF assms]
  show "length (concat blocks @ rest) = DEFAULT_BATCH_SIZE * length blocks + length rest"
    using concat_length_blocks[OF len] by simp
  show "\<And>b j. b < length blocks \<Longrightarrow> j < DEFAULT_BATCH_SIZE \<Longrightarrow>
      (concat blocks @ rest) ! (DEFAULT_BATCH_SIZE * b + j) = blocks ! b ! j"
    by (rule nth_blocks[OF len])
  show "\<And>j. (concat blocks @ rest) ! (DEFAULT_BATCH_SIZE * length blocks + j) = rest ! j"
    by (rule nth_rest[OF len])
  show d: "doc_list (concat blocks @ rest)" using assms by (simp add: cs_blocks_def)
  then show "doc_list rest" by (rule doc_list_appendD)
  show "\<And>b. b < length blocks \<Longrightarrow> doc_list (blocks ! b)"
    using doc_list_nth_block[OF doc_list_appendD(1)[OF d]] by simp
  show l: "\<And>b. b < length blocks \<Longrightarrow> length (blocks ! b) = DEFAULT_BATCH_SIZE"
    using len by simp
  then show "map last blocks ! b = blocks ! b ! (DEFAULT_BATCH_SIZE - 1)" if "b < length blocks" for b
  proof -
    have "blocks ! b \<noteq> []" using l[OF that] by (auto simp: DEFAULT_BATCH_SIZE_def)
    then show ?thesis using last_conv_nth[of "blocks ! b"] l[OF that] that by simp
  qed
qed

lemma bases_sorted:
  assumes "cs_blocks s blocks rest"
  shows "sorted_wrt (<) (map last blocks)"
  unfolding sorted_wrt_iff_nth_less
proof (intro allI impI)
  fix i j assume ij: "i < j" "j < length (map last blocks)"
  note f = cs_blocks_facts[OF assms]
  let ?l = "DEFAULT_BATCH_SIZE - 1"
  have l: "?l < DEFAULT_BATCH_SIZE" by (simp add: DEFAULT_BATCH_SIZE_def)
  have "DEFAULT_BATCH_SIZE * i + ?l < DEFAULT_BATCH_SIZE * j + ?l" using ij(1) by (simp add: DEFAULT_BATCH_SIZE_def)
  moreover have "DEFAULT_BATCH_SIZE * (j + 1) \<le> DEFAULT_BATCH_SIZE * length blocks"
    using ij(2) by (intro mult_le_mono2) simp
  then have "DEFAULT_BATCH_SIZE * j + ?l < length (concat blocks @ rest)"
    unfolding f(1) using l by simp
  ultimately have "(concat blocks @ rest) ! (DEFAULT_BATCH_SIZE * i + ?l)
      < (concat blocks @ rest) ! (DEFAULT_BATCH_SIZE * j + ?l)"
    by (rule doc_list_nth_less[OF f(5)])
  then show "map last blocks ! i < map last blocks ! j"
    using ij f(2)[of i ?l] f(2)[of j ?l] f(4)[of i] f(4)[of j] l by simp
qed

text \<open>A target found inside a block, or inside the uncompressed block, is found in the whole set.\<close>

lemma found_in_block:
  assumes "cs_blocks s blocks rest" and "b < length blocks" and "found (blocks ! b) t j"
    and "0 < b \<longrightarrow> map last blocks ! (b - 1) < t"
  shows "found (concat blocks @ rest) t (DEFAULT_BATCH_SIZE * b + j)"
    and "(concat blocks @ rest) ! (DEFAULT_BATCH_SIZE * b + j) = blocks ! b ! j"
proof -
  note f = cs_blocks_facts[OF assms(1)]
  let ?l = "DEFAULT_BATCH_SIZE - 1"
  have j: "j < DEFAULT_BATCH_SIZE" using assms(3) f(8)[OF assms(2)] by (simp add: found_def)
  show nth: "(concat blocks @ rest) ! (DEFAULT_BATCH_SIZE * b + j) = blocks ! b ! j"
    by (rule f(2)[OF assms(2) j])
  have "DEFAULT_BATCH_SIZE * (b + 1) \<le> DEFAULT_BATCH_SIZE * length blocks"
    using assms(2) by (intro mult_le_mono2) simp
  then have "DEFAULT_BATCH_SIZE * b + j < length (concat blocks @ rest)"
    unfolding f(1) using j by simp
  moreover have "(concat blocks @ rest) ! (DEFAULT_BATCH_SIZE * b + j - 1) < t"
    if "0 < DEFAULT_BATCH_SIZE * b + j"
  proof (cases j)
    case 0
    with that have b: "0 < b" by simp
    then have "DEFAULT_BATCH_SIZE * b + j - 1 = DEFAULT_BATCH_SIZE * (b - 1) + ?l"
      using 0 by (cases b) (simp_all add: DEFAULT_BATCH_SIZE_def)
    with b assms(2,4) f(2)[of "b - 1" ?l] f(4)[of "b - 1"] show ?thesis
      by (simp add: DEFAULT_BATCH_SIZE_def)
  next
    case (Suc i)
    with assms(3) f(2)[OF assms(2), of i] j show ?thesis by (simp add: found_def)
  qed
  ultimately show "found (concat blocks @ rest) t (DEFAULT_BATCH_SIZE * b + j)"
    using nth assms(3) by (simp add: found_def)
qed

lemma found_in_rest:
  assumes "cs_blocks s blocks rest" and "found rest t j"
    and "blocks \<noteq> [] \<longrightarrow> last (map last blocks) < t \<or> 0 < j"
  shows "found (concat blocks @ rest) t (DEFAULT_BATCH_SIZE * length blocks + j)"
proof -
  note f = cs_blocks_facts[OF assms(1)]
  let ?l = "DEFAULT_BATCH_SIZE - 1" and ?n = "length blocks"
  have "(concat blocks @ rest) ! (DEFAULT_BATCH_SIZE * ?n + j - 1) < t"
    if "0 < DEFAULT_BATCH_SIZE * ?n + j"
  proof (cases j)
    case 0
    with that have b: "blocks \<noteq> []" by simp
    then have "DEFAULT_BATCH_SIZE * ?n + j - 1 = DEFAULT_BATCH_SIZE * (?n - 1) + ?l"
      using 0 by (cases ?n) (simp_all add: DEFAULT_BATCH_SIZE_def)
    with b 0 assms(3) f(2)[of "?n - 1" ?l] f(4)[of "?n - 1"] show ?thesis
      by (simp add: DEFAULT_BATCH_SIZE_def last_conv_nth)
  next
    case (Suc i)
    with assms(2) f(3)[of i] show ?thesis by (simp add: found_def)
  qed
  then show ?thesis using assms(2) f(3)[of j] unfolding found_def f(1) by simp
qed

section \<open>The searches\<close>

lemma search_rest:
  assumes "doc_list rest" and "rest \<noteq> []" and "take (length rest) cur = rest"
  shows "if last rest < t
    then binarySearchForFirstElementEqualOrLargerThanTarget cur 0 (length rest - 1) t = Inr (- 1)
    else (\<exists>j. found rest t j
      \<and> binarySearchForFirstElementEqualOrLargerThanTarget cur 0 (length rest - 1) t = Inr (int j))"
proof -
  let ?n = "length rest - 1"
  have srt: "sorted_wrt (<) rest" and n: "?n < length rest" and le: "length rest \<le> length cur"
    using assms by (auto simp: doc_list_def dest: arg_cong[of _ _ length])
  have eq: "binarySearchForFirstElementEqualOrLargerThanTarget cur 0 ?n t
      = binarySearchForFirstElementEqualOrLargerThanTarget rest 0 ?n t"
    using binarySearchForFirst_prefix[OF le0 n le, of t] assms(3) by simp
  show ?thesis
    using binarySearchForFirst_correct[OF srt le0 n, of t] n
    unfolding eq last_conv_nth[OF assms(2)] by (auto intro!: first_at_least_found)
qed

lemma search_block:
  assumes "doc_list blk" and "length blk = DEFAULT_BATCH_SIZE" and "t \<le> blk ! (DEFAULT_BATCH_SIZE - 1)"
  shows "\<exists>j. found blk t j
    \<and> binarySearchForFirstElementEqualOrLargerThanTarget blk 0 (DEFAULT_BATCH_SIZE - 1) t = Inr (int j)"
proof -
  have "sorted_wrt (<) blk" "DEFAULT_BATCH_SIZE - 1 < length blk"
    using assms by (simp_all add: doc_list_def DEFAULT_BATCH_SIZE_def)
  from binarySearchForFirst_correct[OF this(1) le0 this(2), of t] assms(2,3) show ?thesis
    by (fastforce simp: not_less[symmetric] DEFAULT_BATCH_SIZE_def intro!: first_at_least_found)
qed

lemma search_bases:
  assumes "cs_blocks s blocks rest" and "blocks \<noteq> []" and "start < length blocks"
    and "0 < start \<longrightarrow> map last blocks ! (start - 1) < t" and "t \<le> last (map last blocks)"
  shows "\<exists>b j. start \<le> b \<and> b < length blocks
    \<and> binarySearchInBaseListForBlockThatMayContainTarget (map last blocks) start (length blocks - 1) t = Inr (int b)
    \<and> found (blocks ! b) t j \<and> found (concat blocks @ rest) t (DEFAULT_BATCH_SIZE * b + j)
    \<and> binarySearchForFirstElementEqualOrLargerThanTarget (blocks ! b) 0 (DEFAULT_BATCH_SIZE - 1) t = Inr (int j)"
proof -
  let ?bases = "map last blocks"
  have "start \<le> length blocks - 1" "length blocks - 1 < length ?bases" using assms(2,3) by auto
  moreover have "\<not> ?bases ! (length blocks - 1) < t"
    using assms(2,5) last_conv_nth[of ?bases] by (simp add: not_less)
  ultimately obtain b where b: "b \<le> length blocks - 1" "first_at_least ?bases start t b"
    "binarySearchForFirstElementEqualOrLargerThanTarget ?bases start (length blocks - 1) t = Inr (int b)"
    using binarySearchForFirst_correct[OF bases_sorted[OF assms(1)], of start "length blocks - 1" t] by auto
  have lb: "b < length blocks" using b(1) assms(2) by (cases blocks) auto
  have prev: "0 < b \<longrightarrow> ?bases ! (b - 1) < t"
  proof
    assume "0 < b"
    show "?bases ! (b - 1) < t"
    proof (cases "b = start")
      case False
      with b(2) \<open>0 < b\<close> have "start \<le> b - 1" "b - 1 < b" by (auto simp: first_at_least_def)
      with b(2) show ?thesis unfolding first_at_least_def by blast
    qed (use assms(4) \<open>0 < b\<close> in simp)
  qed
  note f = cs_blocks_facts[OF assms(1)]
  have "t \<le> blocks ! b ! (DEFAULT_BATCH_SIZE - 1)"
    using b(2) f(4)[OF lb] unfolding first_at_least_def by simp
  from search_block[OF f(7)[OF lb] f(8)[OF lb] this] obtain j where j: "found (blocks ! b) t j"
    "binarySearchForFirstElementEqualOrLargerThanTarget (blocks ! b) 0 (DEFAULT_BATCH_SIZE - 1) t = Inr (int j)"
    by blast
  with found_in_block(1)[OF assms(1) lb j(1) prev] b lb show ?thesis
    unfolding binarySearchInBaseListForBlockThatMayContainTarget_def first_at_least_def by blast
qed

section \<open>find\<close>

lemma vec_at_prefix:
  assumes "take (length rest) cur = rest" and "j < length rest"
  shows "vec_at cur (int j) = Inr (rest ! j)"
proof -
  have "length rest \<le> length cur" using assms(1) by (metis length_take min.cobounded1)
  then have "j < length cur" "cur ! j = rest ! j"
    using assms(2) nth_take[OF assms(2), of cur] unfolding assms(1) by simp_all
  then show ?thesis by simp
qed

lemma vec_at_last:
  assumes "take (length rest) cur = rest" and "rest \<noteq> []"
  shows "vec_at cur (int (length rest) - 1) = Inr (last rest)"
proof -
  have eq: "int (length rest) - 1 = int (length rest - 1)" and "length rest - 1 < length rest"
    using assms(2) by (cases rest; simp)+
  then show ?thesis unfolding eq last_conv_nth[OF assms(2)] by (intro vec_at_prefix[OF assms(1)])
qed

lemma scan_noComp_found:
  assumes "i \<le> length rest" and "length rest \<le> length cur" and "take (length rest) cur = rest"
    and "\<forall>k<i. rest ! k < t" and "rest \<noteq> []" and "t \<le> last rest"
  shows "\<exists>j. scan_noComp cur (length rest) i t = Inr j \<and> found rest t j"
  using assms(1,4)
proof (induction "length rest - i" arbitrary: i)
  case 0
  then have "length rest - 1 < i" using assms(5) by (cases rest) auto
  then have "rest ! (length rest - 1) < t" using 0 by blast
  with assms(5,6) have False by (simp add: last_conv_nth leD)
  then show ?case ..
next
  case (Suc k)
  then have i: "i < length rest" by simp
  with assms(3) have at: "vec_at cur (int i) = Inr (rest ! i)" by (intro vec_at_prefix)
  show ?case
  proof (cases "t \<le> rest ! i")
    case True
    then show ?thesis using i at Suc.prems(2) by (subst scan_noComp.simps) (simp add: found_def)
  next
    case False
    then have "\<forall>k<i + 1. rest ! k < t" using Suc.prems(2) by (auto simp: less_Suc_eq not_le)
    with Suc.hyps(1)[of "i + 1"] Suc.hyps(2) i at False show ?thesis
      by (subst scan_noComp.simps) simp
  qed
qed

text \<open>
  \<open>Uncompress\<close> reports bytes, so \<open>find\<close> lets \<open>findInArray\<close> look at four times the buffer; the
  search ends inside it all the same, at the first id not below the target.
\<close>

lemma findInArray_found:
  assumes "doc_list xs" and "found xs t j" and "i \<le> j" and "length xs \<le> sz"
  shows "findInArray xs sz i t = Inr (xs ! j = t)"
  using assms(3)
proof (induction "j - i" arbitrary: i)
  case 0
  with assms(2,4) show ?case by (subst findInArray.simps) (auto simp: found_def)
next
  case (Suc n)
  then have "i < j" by simp
  with found_before[OF assms(1,2) this] assms(2) have "i < length xs" "\<not> t \<le> xs ! i"
    by (auto simp: found_def not_le)
  moreover from Suc have "findInArray xs sz (i + 1) t = Inr (xs ! j = t)" by simp
  ultimately show ?case using assms(4) by (subst findInArray.simps) simp
qed

lemma cs_find_mem:
  assumes "cs_docs s xs"
  shows "cs_find t s = Inr (t \<in> set xs)"
proof -
  from assms obtain blocks rest where b: "cs_blocks s blocks rest" and xs: "xs = concat blocks @ rest"
    by (auto simp: cs_docs_def)
  note f = cs_blocks_facts[OF b]
  have bases: "baseListForOnlyCompBlocks s = map last blocks" and sz: "sizeOfCurrentNoCompBlock s = length rest"
    and cur: "take (length rest) (currentNoCompBlock s) = rest" "length rest \<le> length (currentNoCompBlock s)"
    and ne: "blocks \<noteq> [] \<longrightarrow> rest \<noteq> []"
    and tot: "totalDocIdNum s = of_nat (length xs)" and small: "length xs < 2 ^ 31"
    using b xs by (simp_all add: cs_blocks_def)
  show ?thesis
  proof (cases "rest = []")
    case True
    with ne xs tot show ?thesis by (simp add: cs_find_def)
  next
    case False
    then have "0 < length xs" using xs by simp
    then have nz: "totalDocIdNum s \<noteq> 0" using tot unat_of_nat_u32[OF small] by (metis unat_0 less_irrefl)
    have at: "vec_at (currentNoCompBlock s) (int (length rest) - 1) = Inr (last rest)"
      using cur(1) False by (rule vec_at_last)
    have last: "last xs = last rest" "xs \<noteq> []" using False xs by auto
    consider (out) "last rest < t" | (rest) "t \<le> last rest" "blocks = [] \<or> last (map last blocks) < t"
      | (blk) "t \<le> last rest" "blocks \<noteq> []" "t \<le> last (map last blocks)"
      by (meson not_le)
    then show ?thesis
    proof cases
      case out
      have "doc_list xs" using f(5) xs by simp
      with out have "t \<notin> set xs" using skip_to_Nil[of xs t] mem_skip_to[of xs t] last by simp
      with out nz False at show ?thesis by (simp add: cs_find_def sz)
    next
      case rest
      then obtain j where j: "scan_noComp (currentNoCompBlock s) (length rest) 0 t = Inr j" "found rest t j"
        using scan_noComp_found[of 0 rest "currentNoCompBlock s" t] cur False by auto
      have "found xs t (DEFAULT_BATCH_SIZE * length blocks + j)"
        unfolding xs using rest(2) by (intro found_in_rest[OF b j(2)]) auto
      then have "t \<in> set xs \<longleftrightarrow> rest ! j = t" using found_mem f(3,5) xs by metis
      moreover have "vec_at (currentNoCompBlock s) (int j) = Inr (rest ! j)" "j \<noteq> length rest"
        using j(2) vec_at_prefix[OF cur(1)] by (auto simp: found_def)
      moreover have "length (map last blocks) = 0 \<or> map last blocks ! (length (map last blocks) - 1) < t"
        using rest(2) last_conv_nth[of "map last blocks"] by (cases "blocks = []") simp_all
      ultimately show ?thesis using nz False at rest(1) j(1)
        unfolding cs_find_def Let_def sz bases by (auto simp: not_less)
    next
      case blk
      from search_bases[OF b blk(2) _ _ blk(3), of 0] blk(2) obtain k j where
        k: "k < length blocks" "found (blocks ! k) t j" "found xs t (DEFAULT_BATCH_SIZE * k + j)"
        "binarySearchInBaseListForBlockThatMayContainTarget (map last blocks) 0 (length blocks - 1) t = Inr (int k)"
        unfolding xs by auto
      have "findInArray (blocks ! k) (4 * DEFAULT_BATCH_SIZE) 0 t = Inr (blocks ! k ! j = t)"
        using k(2) f(8)[OF k(1)] by (intro findInArray_found[OF f(7)[OF k(1)] k(2)]) simp_all
      moreover have "t \<in> set xs \<longleftrightarrow> blocks ! k ! j = t"
        using found_mem[OF _ k(3)] f(5) f(2)[OF k(1), of j] k(2) f(8)[OF k(1)] xs by (simp add: found_def)
      moreover have "uncompress_block (sequenceOfCompBlocks s) (int k) (replicate DEFAULT_BATCH_SIZE 0)
          = Inr (4 * DEFAULT_BATCH_SIZE, blocks ! k)"
        using uncompress_block_represents[OF b k(1)] by simp
      moreover have "\<not> map last blocks ! (length (map last blocks) - 1) < t"
        using blk(2,3) last_conv_nth[of "map last blocks"] by (simp add: not_less)
      ultimately show ?thesis using nz False at blk k(4) f(8)[OF k(1)]
        unfolding cs_find_def Let_def sz bases by (auto simp: not_less)
    qed
  qed
qed

section \<open>addDocs\<close>

text \<open>A state between two blocks of \<open>addDocs\<close>: the buffer is full size, its content is compressed.\<close>

definition cs_full :: "compressed_set \<Rightarrow> u32 list list \<Rightarrow> bool" where
  "cs_full s blocks \<longleftrightarrow>
     list_all2 pfor.represents (data2 (sequenceOfCompBlocks s)) blocks
   \<and> baseListForOnlyCompBlocks s = map last blocks
   \<and> sizeOfCurrentNoCompBlock s = DEFAULT_BATCH_SIZE
   \<and> length (currentNoCompBlock s) = DEFAULT_BATCH_SIZE"

lemma compress_full:
  assumes "doc_list blk" and "length blk = DEFAULT_BATCH_SIZE"
    and "currentNoCompBlock s = blk" and "sizeOfCurrentNoCompBlock s = DEFAULT_BATCH_SIZE"
  obtains c where "PForDeltaCompressCurrentBlock s = Inr c" and "pfor.represents c blk"
proof -
  have "sorted blk" using assms(1) by (auto simp: doc_list_def intro: sorted_wrt_less_imp_sorted)
  then obtain c where "Compress blk = Inr c" "pfor.represents c blk"
    using pfor.compress_represents[of blk] assms(2) by (auto simp: batch_is_block)
  then show ?thesis using that assms
    by (simp add: PForDeltaCompressCurrentBlock_def PForDeltaCompressOneBlock_def slice_of_def)
qed

text \<open>One round of the loop, while the positions are small enough for an \<open>int\<close>.\<close>

lemma addDocs_middle_round:
  assumes "cs_full s blocks" and "newStart + leftLen \<le> length docids" and "newStart + leftLen < 2 ^ 31"
    and "DEFAULT_BATCH_SIZE < leftLen" and "doc_list (concat blocks @ take leftLen (drop newStart docids))"
  shows "\<exists>s'. addDocs_middle docids (int newStart) (int leftLen) s
      = addDocs_middle docids (int (newStart + DEFAULT_BATCH_SIZE)) (int (leftLen - DEFAULT_BATCH_SIZE)) s'
    \<and> cs_full s' (blocks @ [take DEFAULT_BATCH_SIZE (drop newStart docids)]) \<and> totalDocIdNum s' = totalDocIdNum s"
proof -
  define blk where "blk = take DEFAULT_BATCH_SIZE (drop newStart docids)"
  have split: "take leftLen (drop newStart docids)
      = blk @ take (leftLen - DEFAULT_BATCH_SIZE) (drop (newStart + DEFAULT_BATCH_SIZE) docids)"
    using assms(4) take_add[of DEFAULT_BATCH_SIZE "leftLen - DEFAULT_BATCH_SIZE" "drop newStart docids"]
    by (simp add: blk_def add.commute)
  have blk: "length blk = DEFAULT_BATCH_SIZE" "doc_list blk"
    using assms(2,4,5) unfolding split by (auto simp: blk_def dest: doc_list_appendD)
  have lastblk: "docids ! (newStart + DEFAULT_BATCH_SIZE - 1) = last blk"
    using blk(1) assms(2,4) last_conv_nth[of blk]
    by (auto simp: blk_def DEFAULT_BATCH_SIZE_def add.commute)
  have "int (newStart + DEFAULT_BATCH_SIZE - 1) = int newStart + int DEFAULT_BATCH_SIZE - 1" by (simp add: DEFAULT_BATCH_SIZE_def)
  then have "int32 (int newStart + int DEFAULT_BATCH_SIZE - 1) = int (newStart + DEFAULT_BATCH_SIZE - 1)"
    using assms(3,4) by simp
  moreover have "vec_at docids (int (newStart + DEFAULT_BATCH_SIZE - 1)) = Inr (last blk)"
    using assms(2,4) unfolding lastblk[symmetric] by (intro vec_at_int) (simp add: DEFAULT_BATCH_SIZE_def)
  ultimately have at: "vec_at docids (int32 (int newStart + int DEFAULT_BATCH_SIZE - 1)) = Inr (last blk)" by simp
  have slice: "int_slice_of docids (int newStart) (int DEFAULT_BATCH_SIZE) = Inr blk"
    using assms(2,4) by (simp add: int_slice_of_def slice_of_def blk_def)
  have start: "int32 (int newStart + int DEFAULT_BATCH_SIZE) = int (newStart + DEFAULT_BATCH_SIZE)" using assms(3,4) by simp
  have left: "int leftLen - int DEFAULT_BATCH_SIZE = int (leftLen - DEFAULT_BATCH_SIZE)" using assms(4) by simp
  have copy: "copy_into (currentNoCompBlock s) 0 blk = Inr blk"
    using assms(1) blk(1) by (simp add: copy_into_def cs_full_def)
  let ?s1 = "s\<lparr>baseListForOnlyCompBlocks := baseListForOnlyCompBlocks s @ [last blk], currentNoCompBlock := blk\<rparr>"
  obtain c where c: "PForDeltaCompressCurrentBlock ?s1 = Inr c" "pfor.represents c blk"
    using compress_full[OF blk(2,1), of ?s1] assms(1) by (auto simp: cs_full_def)
  let ?s2 = "?s1\<lparr>sequenceOfCompBlocks := store_add c (sequenceOfCompBlocks ?s1)\<rparr>"
  have "cs_full ?s2 (blocks @ [blk])"
    using assms(1) c(2) blk(1) by (simp add: cs_full_def store_add_def list_all2_appendI)
  moreover have "addDocs_middle docids (int newStart) (int leftLen) s
      = addDocs_middle docids (int (newStart + DEFAULT_BATCH_SIZE)) (int (leftLen - DEFAULT_BATCH_SIZE)) ?s2"
    using assms(4) at slice copy c(1) start left by (subst addDocs_middle.simps) (simp add: Let_def)
  ultimately show ?thesis unfolding blk_def by (intro exI[of _ ?s2]) (simp add: blk_def)
qed

lemma addDocs_middle_correct:
  assumes "cs_full s blocks" and "newStart + leftLen \<le> length docids" and "newStart + leftLen < 2 ^ 31" and "0 < leftLen"
    and "doc_list (concat blocks @ take leftLen (drop newStart docids))"
  shows "\<exists>ns ll s' blocks'. addDocs_middle docids (int newStart) (int leftLen) s = Inr (int ns, int ll, s')
    \<and> cs_full s' blocks' \<and> ns + ll = newStart + leftLen \<and> 0 < ll \<and> ll \<le> DEFAULT_BATCH_SIZE
    \<and> totalDocIdNum s' = totalDocIdNum s
    \<and> concat blocks' @ take ll (drop ns docids) = concat blocks @ take leftLen (drop newStart docids)"
  using assms
proof (induction leftLen arbitrary: newStart s blocks rule: less_induct)
  case (less leftLen)
  show ?case
  proof (cases "DEFAULT_BATCH_SIZE < leftLen")
    case False
    then have "addDocs_middle docids (int newStart) (int leftLen) s = Inr (int newStart, int leftLen, s)"
      by (subst addDocs_middle.simps) simp
    with False less.prems show ?thesis by (intro exI[of _ newStart] exI[of _ leftLen] exI[of _ s] exI[of _ blocks]) simp
  next
    case True
    let ?blk = "take DEFAULT_BATCH_SIZE (drop newStart docids)"
    let ?n = "newStart + DEFAULT_BATCH_SIZE" and ?l = "leftLen - DEFAULT_BATCH_SIZE"
    have split: "take leftLen (drop newStart docids) = ?blk @ take ?l (drop ?n docids)"
      using True take_add[of DEFAULT_BATCH_SIZE ?l "drop newStart docids"] by (simp add: add.commute)
    from addDocs_middle_round[OF less.prems(1-3) True less.prems(5)] obtain s1 where
      s1: "addDocs_middle docids (int newStart) (int leftLen) s = addDocs_middle docids (int ?n) (int ?l) s1"
        "cs_full s1 (blocks @ [?blk])" "totalDocIdNum s1 = totalDocIdNum s" by blast
    have smaller: "?l < leftLen" "0 < ?l" "?n + ?l = newStart + leftLen" using True by (simp_all add: DEFAULT_BATCH_SIZE_def)
    have "doc_list (concat (blocks @ [?blk]) @ take ?l (drop ?n docids))" using less.prems(5) unfolding split by simp
    from less.IH[OF smaller(1) s1(2) _ _ smaller(2) this] less.prems(2,3) smaller(3) obtain ns ll s' blocks' where
      "addDocs_middle docids (int ?n) (int ?l) s1 = Inr (int ns, int ll, s')" "cs_full s' blocks'" "ns + ll = ?n + ?l"
      "0 < ll" "ll \<le> DEFAULT_BATCH_SIZE" "totalDocIdNum s' = totalDocIdNum s1"
      "concat blocks' @ take ll (drop ns docids) = concat (blocks @ [?blk]) @ take ?l (drop ?n docids)" by auto
    then show ?thesis unfolding s1(1) split s1(3)[symmetric] smaller(3)[symmetric]
      by (intro exI[of _ ns] exI[of _ ll] exI[of _ s'] exI[of _ blocks']) simp
  qed
qed

text \<open>
  \<open>addDocs\<close> appends the range it is given, as the same calls of \<open>addDoc\<close> would, when the end of the
  range fits into an \<open>int\<close>.
\<close>

lemma cs_addDocs_docs:
  assumes "cs_docs s xs" and "start + len \<le> length docids"
    and "doc_list (xs @ take len (drop start docids))" and "length xs + len < 2 ^ 31" and "start + len < 2 ^ 31"
  shows "\<exists>s'. cs_addDocs docids (of_nat start) (of_nat len) s = Inr s' \<and> cs_docs s' (xs @ take len (drop start docids))"
proof -
  have args: "unat (of_nat start :: u64) = start" "unat (of_nat len :: u64) = len"
    using assms(5) by (simp_all add: unat_of_nat take_bit_nat_eq_self)
  have u64: "unat (of_nat n :: u64) = n" if "n < 2 ^ 32" for n
    using that by (simp add: unat_of_nat take_bit_nat_eq_self)
  from assms(1) obtain blocks rest where b: "cs_blocks s blocks rest" and xs: "xs = concat blocks @ rest"
    by (auto simp: cs_docs_def)
  let ?n = "length rest" and ?new = "take len (drop start docids)"
  have cur: "take ?n (currentNoCompBlock s) = rest" "?n \<le> length (currentNoCompBlock s)" "?n \<le> DEFAULT_BATCH_SIZE"
      "length (currentNoCompBlock s) \<le> DEFAULT_BATCH_SIZE" "sizeOfCurrentNoCompBlock s = ?n"
    using b by (simp_all add: cs_blocks_def)
  have resize: "take ?n (vec_resize m (currentNoCompBlock s)) = rest" "length (vec_resize m (currentNoCompBlock s)) = m"
    if "?n \<le> m" for m
    using that cur by (auto simp: vec_resize_def min_def)
  have "(of_nat len + of_nat ?n :: u64) = of_nat (len + ?n)" by simp
  moreover have small: "len + ?n < 2 ^ 32" "DEFAULT_BATCH_SIZE < 2 ^ 32" using assms(5) cur(3) by (simp_all add: DEFAULT_BATCH_SIZE_def)
  ultimately have sum: "unat (of_nat len + of_nat ?n :: u64) = len + ?n"
    "((of_nat len + of_nat ?n :: u64) \<le> of_nat DEFAULT_BATCH_SIZE) = (len + ?n \<le> DEFAULT_BATCH_SIZE)"
    using u64[OF small(1)] u64[OF small(2)] by (simp_all only: word_le_nat_alt)
  have total: "(ucast (of_nat len :: u64) :: u32) = of_nat len" using args(2) by (metis of_nat_unat)
  show ?thesis
  proof (cases "len + ?n \<le> DEFAULT_BATCH_SIZE")
    case True
    have "copy_into (vec_resize (len + ?n) (currentNoCompBlock s)) ?n ?new = Inr (rest @ ?new)"
      using resize[of "len + ?n"] assms(2) by (simp add: copy_into_def)
    moreover have "slice_of docids start len = Inr ?new" using assms(2) by (simp add: slice_of_def)
    ultimately have "\<exists>s'. cs_addDocs docids (of_nat start) (of_nat len) s = Inr s' \<and> cs_blocks s' blocks (rest @ ?new)"
      using True b assms(2-4) xs by (simp add: cs_addDocs_def cs_blocks_def args sum total cur(5))
    then show ?thesis by (auto simp: cs_docs_def xs)
  next
    case False
    define copyLen where "copyLen = DEFAULT_BATCH_SIZE - ?n"
    define fill where "fill = take copyLen (drop start docids)"
    have cl: "copyLen < len" "start + copyLen \<le> length docids" "?n + copyLen = DEFAULT_BATCH_SIZE"
      using False cur(3) assms(2) by (auto simp: copyLen_def)
    have split: "?new = fill @ take (len - copyLen) (drop (start + copyLen) docids)"
      using cl take_add[of copyLen "len - copyLen" "drop start docids"] by (simp add: fill_def add.commute)
    have fill: "length (rest @ fill) = DEFAULT_BATCH_SIZE" using cl by (simp add: fill_def)
    have docs: "doc_list (rest @ fill)"
      using assms(3) unfolding xs split by (metis append.assoc doc_list_appendD)
    have copy: "copy_into (vec_resize DEFAULT_BATCH_SIZE (currentNoCompBlock s)) ?n fill = Inr (rest @ fill)"
      using resize[OF cur(3)] fill by (simp add: copy_into_def)
    have slice: "slice_of docids start copyLen = Inr fill" using cl by (simp add: slice_of_def fill_def)
    let ?s1 = "s\<lparr>currentNoCompBlock := rest @ fill, sizeOfCurrentNoCompBlock := DEFAULT_BATCH_SIZE\<rparr>"
    obtain c where c: "PForDeltaCompressCurrentBlock ?s1 = Inr c" "pfor.represents c (rest @ fill)"
      using compress_full[OF docs fill, of ?s1] by auto
    have at: "vec_at (rest @ fill) (int DEFAULT_BATCH_SIZE - 1) = Inr (last (rest @ fill))"
    proof -
      have "rest @ fill \<noteq> []" using fill by (auto simp: DEFAULT_BATCH_SIZE_def)
      then show ?thesis using vec_at_last[OF take_all[OF order_refl], of "rest @ fill"] unfolding fill by blast
    qed
    let ?s2 = "?s1\<lparr>baseListForOnlyCompBlocks := baseListForOnlyCompBlocks ?s1 @ [last (rest @ fill)],
                    sequenceOfCompBlocks := store_add c (sequenceOfCompBlocks ?s1)\<rparr>"
    have "cs_full ?s2 (blocks @ [rest @ fill])"
      using b c(2) fill by (simp add: cs_full_def cs_blocks_def store_add_def list_all2_appendI)
    moreover have "start + copyLen + (len - copyLen) \<le> length docids" "start + copyLen + (len - copyLen) < 2 ^ 31"
      "0 < len - copyLen" using cl assms(2,5) by auto
    moreover have "doc_list (concat (blocks @ [rest @ fill]) @ take (len - copyLen) (drop (start + copyLen) docids))"
      using assms(3) unfolding xs split by simp
    ultimately obtain ns ll s3 blocks' where m:
      "addDocs_middle docids (int (start + copyLen)) (int (len - copyLen)) ?s2 = Inr (int ns, int ll, s3)"
      "cs_full s3 blocks'" "ns + ll = start + copyLen + (len - copyLen)" "0 < ll" "ll \<le> DEFAULT_BATCH_SIZE"
      "totalDocIdNum s3 = totalDocIdNum ?s2"
      "concat blocks' @ take ll (drop ns docids)
        = concat (blocks @ [rest @ fill]) @ take (len - copyLen) (drop (start + copyLen) docids)"
      using addDocs_middle_correct by blast
    have "(of_nat start + of_nat copyLen :: u64) = of_nat (start + copyLen)"
      "(of_nat len - of_nat copyLen :: u64) = of_nat (len - copyLen)" using cl(1) by simp_all
    moreover have "start + copyLen < 2 ^ 31" "len - copyLen < 2 ^ 31" using cl(1) assms(5) by simp_all
    moreover have "int32 (uint (of_nat n :: u64)) = int n" if "n < 2 ^ 31" for n
      using that u64[of n] by (simp add: uint_nat del: of_nat_unat)
    ultimately have ints: "int32 (uint (of_nat start + of_nat copyLen :: u64)) = int (start + copyLen)"
      "int32 (uint (of_nat len - of_nat copyLen :: u64)) = int (len - copyLen)" by (simp_all only:)
    let ?last = "take ll (drop ns docids)"
    have whole: "concat blocks' @ ?last = xs @ ?new" using m(7) unfolding xs split by simp
    have nl: "ns + ll \<le> length docids" "length ?last = ll" using m(3) cl assms(2) by auto
    let ?s4 = "s3\<lparr>currentNoCompBlock := ?last @ drop ll (currentNoCompBlock s3), sizeOfCurrentNoCompBlock := ll,
                  totalDocIdNum := totalDocIdNum s3 + of_nat len\<rparr>"
    have "cs_addDocs docids (of_nat start) (of_nat len) s = Inr ?s4"
      using False m(1,2,4,5) nl slice copy c(1) at
      unfolding cs_addDocs_def cur(5) args sum Let_def copyLen_def[symmetric] ints total
      by (simp add: int_slice_of_def slice_of_def copy_into_def cs_full_def)
    moreover have "length (xs @ ?new) = length xs + len" using assms(2) by simp
    then have "cs_blocks ?s4 blocks' ?last"
      using m(2,4,5,6) nl b assms(3,4) xs unfolding cs_blocks_def whole by (simp add: cs_full_def)
    ultimately show ?thesis using whole unfolding cs_docs_def by metis
  qed
qed

end
