(* ===== verification/PostingSet.thy ===== *)
theory PostingSet
  imports CompressedSetSearch
begin

text \<open>
  What the index needs of a document set: the factory \<open>src/varint/ISetFactory.h\<close> and the part of
  \<open>src/varint/Set.h\<close> that fills, asks and stores a set, with their contract.  The engine runs with
  \<open>src/varint/SetFactory.h\<close>, whose sets are compressed sets.
\<close>

section \<open>The interface\<close>

record 'p set_vtable =
  createSparseSet :: 'p
  sv_addDoc :: "u32 \<Rightarrow> 'p \<Rightarrow> 'p res"
  sv_removeDocId :: "u32 \<Rightarrow> 'p \<Rightarrow> 'p res"
  sv_find :: "u32 \<Rightarrow> 'p \<Rightarrow> bool res"
  sv_write :: "'p \<Rightarrow> bytes res"
  sv_read :: "bytes \<Rightarrow> 'p \<Rightarrow> 'p res"

text \<open>
  \<open>docs p xs\<close>: the set holds the documents \<open>xs\<close>, in increasing order.  Documents are only added at
  the end, and a set that is written and read again holds the same ones.
\<close>

locale posting_set =
  fixes S :: "'p set_vtable" and docs :: "'p \<Rightarrow> u32 list \<Rightarrow> bool"
  assumes docs_list: "docs p xs \<Longrightarrow> doc_list xs"
    and docs_create: "docs (createSparseSet S) []"
    and docs_addDoc: "docs p xs \<Longrightarrow> doc_list (xs @ [d]) \<Longrightarrow> length xs + 1 < 2 ^ 31 \<Longrightarrow>
      \<exists>p'. sv_addDoc S d p = Inr p' \<and> docs p' (xs @ [d])"
    and docs_find: "docs p xs \<Longrightarrow> sv_find S d p = Inr (d \<in> set xs)"
    and docs_write: "docs p xs \<Longrightarrow>
      \<exists>out p'. sv_write S p = Inr out \<and> sv_read S out (createSparseSet S) = Inr p' \<and> docs p' xs"
begin

text \<open>
  \<open>if (!set->find(d)) set->addDoc(d)\<close> for the documents of a list: those that are new come after
  the others.
\<close>

lemma add_missing:
  assumes "docs p xs" and "doc_list (xs @ filter (\<lambda>d. d \<notin> set xs) ds)" and "distinct ds"
    and "length xs + length ds < 2 ^ 31"
  shows "\<exists>p'. fold_res (\<lambda>p d. rbind (sv_find S d p) (\<lambda>b. if \<not> b then sv_addDoc S d p else Inr p)) p ds = Inr p'
    \<and> docs p' (xs @ filter (\<lambda>d. d \<notin> set xs) ds)"
  using assms
proof (induction ds arbitrary: p xs)
  case (Cons d ds)
  show ?case
  proof (cases "d \<in> set xs")
    case True
    with Cons show ?thesis by (simp add: docs_find)
  next
    case False
    then have "doc_list (xs @ [d])" using Cons.prems(2) by (auto simp: doc_list_def sorted_wrt_append)
    from docs_addDoc[OF Cons.prems(1) this] Cons.prems(4) obtain p1 where
      p1: "sv_addDoc S d p = Inr p1" "docs p1 (xs @ [d])" by auto
    have "filter (\<lambda>e. e \<notin> set (xs @ [d])) ds = filter (\<lambda>e. e \<notin> set xs) ds"
      using Cons.prems(3) by (intro filter_cong) auto
    with Cons.IH[OF p1(2)] Cons.prems False p1(1) show ?thesis by (simp add: docs_find)
  qed
qed simp

lemma add_new:
  assumes "docs p xs" and "doc_list (xs @ ds)" and "length (xs @ ds) < 2 ^ 31"
  shows "\<exists>p'. fold_res (\<lambda>p d. sv_addDoc S d p) p ds = Inr p' \<and> docs p' (xs @ ds)"
  using assms
proof (induction ds arbitrary: p xs)
  case (Cons d ds)
  have "doc_list (xs @ [d])" using Cons.prems(2) by (auto simp: doc_list_def sorted_wrt_append)
  from docs_addDoc[OF Cons.prems(1) this] Cons.prems(3) obtain p1 where
    "sv_addDoc S d p = Inr p1" "docs p1 (xs @ [d])" by auto
  with Cons.IH[of p1 "xs @ [d]"] Cons.prems show ?case by simp
qed simp

end

section \<open>Compressed sets\<close>

definition SetFactory :: "compressed_set set_vtable" where
  "SetFactory = \<lparr>createSparseSet = new_compressed_set, sv_addDoc = cs_addDoc, sv_removeDocId = cs_removeDocId,
     sv_find = cs_find, sv_write = cs_write, sv_read = (\<lambda>inp s. rbind (cs_read inp s) (\<lambda>(s', _). Inr s'))\<rparr>"

interpretation cset: posting_set SetFactory cs_docs
proof
  show "\<exists>out p'. sv_write SetFactory p = Inr out \<and> sv_read SetFactory out (createSparseSet SetFactory) = Inr p' \<and> cs_docs p' xs"
    if "cs_docs p xs" for p xs
    using cs_read_write[OF that, of "[]"] cs_docs_trim[OF that] by (auto simp: SetFactory_def)
qed (simp_all add: SetFactory_def cs_docs_doc_list cs_docs_new cs_addDoc_docs cs_find_mem)

end
