(* ===== verification/InvertedIndex.thy ===== *)
theory InvertedIndex
  imports KVStore PostingSet
begin

text \<open>
  The inverted index without batching (\<open>src/src/InvertedIndexImpl.hpp\<close>): for every word the set of
  the documents that contain it, serialized, under the word's number in a key-value store.
\<close>

section \<open>Operations\<close>

text \<open>\<open>get\<close> answers 1 and sets its reference argument, or answers 0.\<close>

definition index_get :: "'s kv_vtable \<Rightarrow> 'p set_vtable \<Rightarrow> u32 \<Rightarrow> 's \<Rightarrow> 'p option res" where
  "index_get V S wordId s =
     rbind (kv_Get64 V (ucast wordId) [] s) (\<lambda>(st, bitmap).
       if status_ok st then rbind (sv_read S bitmap (createSparseSet S)) (\<lambda>outset. Inr (Some outset))
       else Inr None)"

definition index_exist :: "'s kv_vtable \<Rightarrow> u32 \<Rightarrow> 's \<Rightarrow> bool res" where
  "index_exist V wordId s = rbind (kv_Get64 V (ucast wordId) [] s) (\<lambda>(st, ret). Inr (status_ok st))"

definition index_put :: "'s kv_vtable \<Rightarrow> 'p set_vtable \<Rightarrow> u32 \<Rightarrow> 'p \<Rightarrow> 's \<Rightarrow> (int \<times> 's) res" where
  "index_put V S wordId p s =
     rbind (sv_write S p) (\<lambda>bitmap.
     rbind (kv_Put64 V (ucast wordId) bitmap s) (\<lambda>(st, s').
       Inr (if status_ok st then 1 else 0, s')))"

definition index_add :: "'s kv_vtable \<Rightarrow> 'p set_vtable \<Rightarrow> u32 \<Rightarrow> u32 \<Rightarrow> 's \<Rightarrow> (int \<times> 's) res" where
  "index_add V S wordId docid s =
     rbind (index_exist V wordId s) (\<lambda>ex.
       if ex then
         rbind (index_get V S wordId s) (\<lambda>got.
           case got of
             None \<Rightarrow> Inl NullPointer
           | Some p \<Rightarrow>
               rbind (sv_find S docid p) (\<lambda>b.
                 if \<not> b then
                   rbind (sv_addDoc S docid p) (\<lambda>p'.
                   rbind (index_put V S wordId p' s) (\<lambda>(_, s'). Inr (1, s')))
                 else Inr (1, s)))
       else
         rbind (sv_addDoc S docid (createSparseSet S)) (\<lambda>p.
         rbind (index_put V S wordId p s) (\<lambda>(_, s'). Inr (1, s'))))"

text \<open>The words are a \<open>std::set\<close>, here the list of its elements in the order of its iterator.\<close>

definition index_add_words :: "'s kv_vtable \<Rightarrow> 'p set_vtable \<Rightarrow> u32 \<Rightarrow> u32 list \<Rightarrow> 's \<Rightarrow> 's res" where
  "index_add_words V S docId words s =
     fold_res (\<lambda>s word. rbind (index_add V S word docId s) (\<lambda>(_, s'). Inr s')) s words"

definition index_remove :: "'s kv_vtable \<Rightarrow> 'p set_vtable \<Rightarrow> u32 \<Rightarrow> u32 \<Rightarrow> 's \<Rightarrow> (int \<times> 's) res" where
  "index_remove V S wordId docId s =
     rbind (index_get V S wordId s) (\<lambda>got.
       case got of
         Some p \<Rightarrow>
           rbind (sv_find S docId p) (\<lambda>b.
             if b then rbind (sv_removeDocId S docId p) (\<lambda>p'. index_put V S wordId p' s)
             else Inr (0, s))
       | None \<Rightarrow> Inr (0, s))"

section \<open>What an index holds\<close>

text \<open>\<open>index_holds S docs m P\<close>: read back, the entries of the store \<open>m\<close> give the document lists \<open>P\<close>.\<close>

definition index_holds ::
    "'p set_vtable \<Rightarrow> ('p \<Rightarrow> u32 list \<Rightarrow> bool) \<Rightarrow> (bytes \<rightharpoonup> bytes) \<Rightarrow> (u32 \<rightharpoonup> u32 list) \<Rightarrow> bool" where
  "index_holds S docs m P \<longleftrightarrow>
     (\<forall>w. case m (int_key w) of
            None \<Rightarrow> P w = None
          | Some bitmap \<Rightarrow> \<exists>p xs. sv_read S bitmap (createSparseSet S) = Inr p \<and> docs p xs \<and> P w = Some xs)"

text \<open>A document added to a list of them.\<close>

definition post_doc :: "u32 \<Rightarrow> u32 list \<Rightarrow> u32 list" where
  "post_doc d xs = (if d \<in> set xs then xs else xs @ [d])"

definition docs_of :: "(u32 \<rightharpoonup> u32 list) \<Rightarrow> u32 \<Rightarrow> u32 list" where
  "docs_of P w = (case P w of None \<Rightarrow> [] | Some xs \<Rightarrow> xs)"

lemma docs_of_upd [simp]: "docs_of (P(w \<mapsto> xs)) v = (if v = w then xs else docs_of P v)"
  by (simp add: docs_of_def)

locale inverted_index = kv_store V amap wf + posting_set S docs
  for V :: "'s kv_vtable" and amap wf and S :: "'p set_vtable" and docs
begin

lemma holds_none: "index_holds S docs m P \<Longrightarrow> P w = None \<Longrightarrow> m (int_key w) = None"
  by (auto simp: index_holds_def dest!: spec[of _ w] split: option.splits)

lemma holds_some:
  "index_holds S docs m P \<Longrightarrow> P w = Some xs \<Longrightarrow>
    \<exists>bitmap p. m (int_key w) = Some bitmap \<and> sv_read S bitmap (createSparseSet S) = Inr p \<and> docs p xs"
  by (auto simp: index_holds_def dest!: spec[of _ w] split: option.splits)

lemma holds_list: "index_holds S docs m P \<Longrightarrow> P w = Some xs \<Longrightarrow> doc_list xs"
  using holds_some docs_list by blast

lemma exist_holds:
  assumes "index_holds S docs (amap s) P" and "wf s"
  shows "index_exist V w s = Inr (P w \<noteq> None)"
  using holds_none[OF assms(1), of w] holds_some[OF assms(1), of w] assms(2)
  by (cases "P w") (auto simp: index_exist_def Get64 Get int_key_ucast)

lemma get_none:
  assumes "index_holds S docs (amap s) P" and "wf s" and "P w = None"
  shows "index_get V S w s = Inr None"
  using holds_none[OF assms(1,3)] assms(2) by (simp add: index_get_def Get64 Get int_key_ucast)

lemma get_some:
  assumes "index_holds S docs (amap s) P" and "wf s" and "P w = Some xs"
  shows "\<exists>p. index_get V S w s = Inr (Some p) \<and> docs p xs"
  using holds_some[OF assms(1,3)] assms(2) by (auto simp: index_get_def Get64 Get int_key_ucast)

text \<open>Storing the bitmap of a set under a word.\<close>

lemma holds_upd:
  assumes "index_holds S docs m P" and "sv_read S bitmap (createSparseSet S) = Inr p" and "docs p xs"
  shows "index_holds S docs (m(int_key w \<mapsto> bitmap)) (P(w \<mapsto> xs))"
  unfolding index_holds_def
proof
  fix v
  show "case (m(int_key w \<mapsto> bitmap)) (int_key v) of None \<Rightarrow> (P(w \<mapsto> xs)) v = None
    | Some bm \<Rightarrow> \<exists>p xs'. sv_read S bm (createSparseSet S) = Inr p \<and> docs p xs' \<and> (P(w \<mapsto> xs)) v = Some xs'"
    using assms(1)[unfolded index_holds_def, rule_format, of v] assms(2,3)
    by (cases "v = w"; cases "m (int_key v)") simp_all
qed

lemma put_holds:
  assumes "index_holds S docs (amap s) P" and "wf s" and "docs p xs"
  shows "\<exists>s'. index_put V S w p s = Inr (1, s') \<and> wf s' \<and> index_holds S docs (amap s') (P(w \<mapsto> xs))"
proof -
  from docs_write[OF assms(3)] obtain out p' where
    w: "sv_write S p = Inr out" "sv_read S out (createSparseSet S) = Inr p'" "docs p' xs" by blast
  from Put[OF assms(2), of "int_key w" out] obtain s' where
    s': "kv_Put V (int_key w) out s = (kOk, s')" "amap s' = (amap s)(int_key w \<mapsto> out)" "wf s'" by blast
  from holds_upd[OF assms(1) w(2,3), of w] w(1) s' show ?thesis
    by (simp add: index_put_def Put64 int_key_ucast)
qed

lemma add_holds:
  assumes "index_holds S docs (amap s) P" and "wf s" and "doc_list (post_doc d (docs_of P w))"
    and "length (docs_of P w) + 1 < 2 ^ 31"
  shows "\<exists>s'. index_add V S w d s = Inr (1, s') \<and> wf s'
    \<and> index_holds S docs (amap s') (P(w \<mapsto> post_doc d (docs_of P w)))"
proof (cases "P w")
  case None
  with assms(3) docs_addDoc[OF docs_create, of d] obtain p where
    p: "sv_addDoc S d (createSparseSet S) = Inr p" "docs p [d]" by (auto simp: post_doc_def docs_of_def)
  from put_holds[OF assms(1,2) p(2), of w] p(1) None show ?thesis
    by (auto simp: index_add_def exist_holds[OF assms(1,2)] docs_of_def post_doc_def)
next
  case (Some xs)
  from get_some[OF assms(1,2) Some] obtain p where p: "index_get V S w s = Inr (Some p)" "docs p xs" by blast
  show ?thesis
  proof (cases "d \<in> set xs")
    case True
    then show ?thesis using p Some assms(1,2)
      by (simp add: index_add_def exist_holds[OF assms(1,2)] docs_find docs_of_def post_doc_def fun_upd_idem)
  next
    case False
    with assms(3,4) Some docs_addDoc[OF p(2), of d] obtain p' where
      p': "sv_addDoc S d p = Inr p'" "docs p' (xs @ [d])" by (auto simp: docs_of_def post_doc_def)
    from put_holds[OF assms(1,2) p'(2), of w] p p'(1) Some False show ?thesis
      by (auto simp: index_add_def exist_holds[OF assms(1,2)] docs_find docs_of_def post_doc_def)
  qed
qed

text \<open>The words of a document, one after the other.\<close>

lemma add_words_holds:
  assumes "index_holds S docs (amap s) P" and "wf s" and "distinct ws"
    and "\<forall>w\<in>set ws. doc_list (post_doc d (docs_of P w)) \<and> length (docs_of P w) + 1 < 2 ^ 31"
  shows "\<exists>s'. index_add_words V S d ws s = Inr s' \<and> wf s'
    \<and> index_holds S docs (amap s') (\<lambda>w. if w \<in> set ws then Some (post_doc d (docs_of P w)) else P w)"
  using assms
proof (induction ws arbitrary: s P)
  case (Cons w ws)
  let ?P1 = "P(w \<mapsto> post_doc d (docs_of P w))"
  from add_holds[OF Cons.prems(1,2), of d w] Cons.prems(4) obtain s1 where
    s1: "index_add V S w d s = Inr (1, s1)" "wf s1" "index_holds S docs (amap s1) ?P1" by auto
  have same: "docs_of ?P1 v = docs_of P v" if "v \<in> set ws" for v using Cons.prems(3) that by auto
  have "\<forall>v\<in>set ws. doc_list (post_doc d (docs_of ?P1 v)) \<and> length (docs_of ?P1 v) + 1 < 2 ^ 31"
    using Cons.prems(4) same by (simp del: docs_of_upd)
  from Cons.IH[OF s1(3,2) _ this] Cons.prems(3) obtain s' where
    s': "index_add_words V S d ws s1 = Inr s'" "wf s'"
      "index_holds S docs (amap s') (\<lambda>v. if v \<in> set ws then Some (post_doc d (docs_of ?P1 v)) else ?P1 v)" by auto
  have "(\<lambda>v. if v \<in> set ws then Some (post_doc d (docs_of ?P1 v)) else ?P1 v)
      = (\<lambda>v. if v \<in> set (w # ws) then Some (post_doc d (docs_of P v)) else P v)"
    using Cons.prems(3) by (intro ext) auto
  with s' s1(1) show ?case by (auto simp: index_add_words_def)
qed (simp add: index_add_words_def)

end

text \<open>The index over compressed sets in a name space of the store in memory.\<close>

interpretation index: inverted_index "ns_vtable n mem_vtable" "ns_abs n mem_map" "\<lambda>_. True" SetFactory cs_docs for n
  by (rule inverted_index.intro[OF ns_mem.kv_store_axioms cset.posting_set_axioms])

end
