(* ===== verification/Decimal.thy ===== *)
theory Decimal
  imports ZUtil
begin

text \<open>
  The decimal conversions of \<open>src/src/ZUtil.hpp\<close>.  \<open>fbUint64ToChar\<close> fills its buffer from the
  end, two digits at a time, through a table of the hundred pairs.
\<close>

section \<open>Printing\<close>

definition digits :: bytes where
  "digits = map of_char
     (''0001020304050607080910111213141516171819'' @
      ''2021222324252627282930313233343536373839'' @
      ''4041424344454647484950515253545556575859'' @
      ''6061626364656667686970717273747576777879'' @
      ''8081828384858687888990919293949596979899'') @ [0]"

text \<open>\<open>numeric_limits<uint64_t>::digits10\<close>.\<close>

definition digits10 :: int where
  "digits10 = 19"

function char_loop :: "u64 \<Rightarrow> int \<Rightarrow> bytes \<Rightarrow> (u64 \<times> int \<times> bytes) res" where
  "char_loop value nxt dst =
     (if value \<ge> 100 then
        let i = uint ((value mod 100) * 2) in
        rbind (vec_at digits (i + 1)) (\<lambda>c1.
        rbind (vec_set dst nxt c1) (\<lambda>dst1.
        rbind (vec_at digits i) (\<lambda>c0.
        rbind (vec_set dst1 (nxt - 1) c0) (\<lambda>dst2.
          char_loop (value div 100) (nxt - 2) dst2))))
      else Inr (value, nxt, dst))"
  by pat_completeness auto
termination
  by (relation "measure (\<lambda>(v, n, d). unat v)") (auto simp: word_le_nat_alt unat_div)

declare char_loop.simps [simp del]

text \<open>The result of \<open>fbUint64ToChar\<close> and the buffer it leaves.\<close>

definition fbUint64ToChar :: "bytes \<Rightarrow> u64 \<Rightarrow> (u32 \<times> bytes) res" where
  "fbUint64ToChar dst value =
     rbind (char_loop value (digits10 - 1) dst) (\<lambda>(value', nxt, dst').
       if value' < 10 then
         rbind (vec_set dst' nxt (ucast (48 + (ucast value' :: u32)))) (\<lambda>dst''.
           Inr (of_int (digits10 - nxt), dst''))
       else
         let i = uint ((ucast value' :: u32) * 2) in
         rbind (vec_at digits (i + 1)) (\<lambda>c1.
         rbind (vec_set dst' nxt c1) (\<lambda>dst1.
         rbind (vec_at digits i) (\<lambda>c0.
         rbind (vec_set dst1 (nxt - 1) c0) (\<lambda>dst2.
           Inr (of_int (digits10 - nxt + 1), dst2))))))"

text \<open>
  \<open>buf\<close> holds whatever the stack had there; the bytes appended are the first \<open>len\<close> of it.
\<close>

definition PutUint64 :: "bytes \<Rightarrow> bytes \<Rightarrow> u64 \<Rightarrow> bytes res" where
  "PutUint64 buf dst v =
     rbind (fbUint64ToChar buf v) (\<lambda>(len, buf').
       if unat len \<le> length buf' then Inr (dst @ take (unat len) buf') else Inl OutOfBounds)"

section \<open>Parsing\<close>

text \<open>
  \<open>atoi\<close> on a \<open>long\<close> of 64 bits, with the two shifts the code multiplies by ten with; \<open>char\<close> is
  signed.
\<close>

fun atoi_loop :: "u64 \<Rightarrow> bytes \<Rightarrow> u64 res" where
  "atoi_loop num [] = Inl OutOfBounds"
| "atoi_loop num (c # str) =
     (if c \<noteq> 0 then atoi_loop (push_bit 1 num + push_bit 3 num + scast c - 48) str else Inr num)"

definition atoi :: "bytes \<Rightarrow> u64 res" where
  "atoi str = atoi_loop 0 str"

section \<open>Decimal notation\<close>

text \<open>\<open>std::isspace\<close> in the "C" locale, which separates fields for \<open>operator>>\<close>.\<close>

definition isspace :: "u8 \<Rightarrow> bool" where
  "isspace c \<longleftrightarrow> c = 32 \<or> 9 \<le> c \<and> c \<le> 13"


fun decimal :: "nat \<Rightarrow> bytes" where
  "decimal n = (if n < 10 then [of_nat (48 + n)] else decimal (n div 10) @ [of_nat (48 + n mod 10)])"

declare decimal.simps [simp del]

lemma decimal_digit: "n < 10 \<Longrightarrow> decimal n = [of_nat (48 + n)]"
  by (subst decimal.simps) simp

lemma decimal_tens: "10 \<le> n \<Longrightarrow> decimal n = decimal (n div 10) @ [of_nat (48 + n mod 10)]"
  by (subst decimal.simps) simp

lemma decimal_pair: "10 \<le> n \<Longrightarrow> n < 100 \<Longrightarrow> decimal n = [of_nat (48 + n div 10), of_nat (48 + n mod 10)]"
  by (simp add: decimal_tens decimal_digit div_less_iff_less_mult del: of_nat_add)

lemma decimal_hundreds:
  assumes "100 \<le> n"
  shows "decimal n = decimal (n div 100) @ [of_nat (48 + n mod 100 div 10), of_nat (48 + n mod 10)]"
proof -
  have "n div 10 mod 10 = n mod 100 div 10" using mod_mult2_eq[of n 10 10] by simp
  moreover have "n div 10 div 10 = n div 100" by (simp add: div_mult2_eq[symmetric])
  moreover have "10 \<le> n div 10" "10 \<le> n" using assms by simp_all
  ultimately show ?thesis
    using decimal_tens[of n] decimal_tens[of "n div 10"] by (simp del: of_nat_add)
qed

lemma decimal_neq_Nil [simp]: "decimal n \<noteq> []"
  by (cases "n < 10") (simp_all add: decimal_digit decimal_tens)

lemma length_decimal: "length (decimal n) \<le> Suc k \<longleftrightarrow> n < 10 ^ Suc k"
proof (induction k arbitrary: n)
  case 0
  then show ?case by (cases "n < 10") (simp_all add: decimal_digit decimal_tens)
next
  case (Suc k)
  have "n div 10 < 10 ^ Suc k \<longleftrightarrow> n < 10 ^ Suc (Suc k)" by (simp add: div_less_iff_less_mult mult.commute)
  with Suc.IH[of "n div 10"] one_le_power[of "10 :: nat" "Suc k"] show ?case
    by (cases "n < 10") (auto simp: decimal_digit decimal_tens)
qed

lemma concat_pairs_nth:
  "i < n \<Longrightarrow> concat (map (\<lambda>i. [f i, g i]) [0..<n]) ! (2 * i) = f i
    \<and> concat (map (\<lambda>i. [f i, g i]) [0..<n]) ! (2 * i + 1) = g i"
proof (induction n)
  case (Suc n)
  have len: "length (concat (map (\<lambda>i. [f i, g i]) [0..<n])) = 2 * n" by (induction n) auto
  show ?case
    using Suc by (cases "i = n") (auto simp: nth_append len)
qed simp

lemma digits_pairs: "digits = concat (map (\<lambda>i. [of_nat (48 + i div 10), of_nat (48 + i mod 10)]) [0..<100]) @ [0]"
  by (simp add: digits_def upt_rec[of _ "numeral _"])

lemma length_digits: "length digits = 201"
  by (simp add: digits_def)

lemma digits_table:
  "i < 100 \<Longrightarrow> digits ! (2 * i) = of_nat (48 + i div 10) \<and> digits ! (2 * i + 1) = of_nat (48 + i mod 10)"
proof -
  assume i: "i < 100"
  have "length (concat (map (\<lambda>i. [of_nat (48 + i div 10), of_nat (48 + i mod 10) :: u8]) [0..<100])) = 200"
    using length_digits by (simp add: digits_pairs)
  with i concat_pairs_nth[OF i, of "\<lambda>i. of_nat (48 + i div 10)" "\<lambda>i. of_nat (48 + i mod 10)"] show ?thesis
    by (simp add: digits_pairs nth_append del: of_nat_add)
qed

section \<open>What fbUint64ToChar prints\<close>

lemma vec_set_take:
  assumes "k < length g"
  shows "vec_set (take (Suc k) g @ w) (int k) x = Inr (take k g @ x # w)"
  using assms by (simp add: vec_set_def list_update_append take_Suc_conv_app_nth)

lemma pair_at:
  assumes "n < 100"
  shows "vec_at digits (int (2 * n) + 1) = Inr (of_nat (48 + n mod 10))"
    and "vec_at digits (int (2 * n)) = Inr (of_nat (48 + n div 10))"
  using digits_table[OF assms] length_digits assms
  by (simp_all add: vec_at_def nat_add_distrib nat_mult_distrib del: of_nat_add)

lemma unat_pair:
  assumes "n < 100" and "8 \<le> LENGTH('a)"
  shows "uint ((of_nat n :: 'a::len word) * 2) = int (2 * n)"
proof -
  have "(256 :: nat) \<le> 2 ^ LENGTH('a)" using assms(2) power_increasing[of 8 "LENGTH('a)" "2 :: nat"] by simp
  then have "unat (of_nat m :: 'a word) = m" if "m < 256" for m
    using that by (simp add: unat_of_nat take_bit_nat_eq_self)
  from this[of "2 * n"] assms(1) have "unat (of_nat (2 * n) :: 'a word) = 2 * n" by (simp del: of_nat_mult)
  then show ?thesis by (metis mult.commute of_nat_mult of_nat_numeral uint_nat)
qed

lemma char_loop_decimal:
  assumes "length (decimal (unat v)) \<le> k + 1" and "k \<le> length g"
  shows "\<exists>v' k' suf. char_loop v (int k - 1) (take k g @ w) = Inr (v', int k' - 1, take k' g @ suf @ w)
     \<and> unat v' < 100 \<and> decimal (unat v) = decimal (unat v') @ suf \<and> k = k' + length suf"
  using assms
proof (induction "unat v" arbitrary: v k w rule: less_induct)
  case less
  show ?case
  proof (cases "v \<ge> 100")
    case False
    then have "unat v < 100" by (simp add: word_le_nat_alt)
    with False show ?thesis
      by (intro exI[of _ v] exI[of _ k] exI[of _ "[]"]) (simp add: char_loop.simps[of v])
  next
    case True
    then have big: "100 \<le> unat v" by (simp add: word_le_nat_alt)
    let ?m = "unat v mod 100"
    let ?p = "[of_nat (48 + ?m div 10), of_nat (48 + unat v mod 10) :: u8]"
    have m: "?m < 100" "?m mod 10 = unat v mod 10" by (simp_all add: mod_mod_cancel)
    have "v mod 100 = of_nat ?m" by (simp add: word_unat_eq_iff unat_mod_distrib unat_of_nat)
    then have i: "uint ((v mod 100) * 2) = int (2 * ?m)" using unat_pair[OF m(1), where 'a = 64] by simp
    have dec: "decimal (unat v) = decimal (unat (v div 100)) @ ?p"
      using decimal_hundreds[OF big] by (simp add: unat_div)
    then obtain k0 where k: "k = Suc (Suc k0)" using less.prems(1) by (cases k; cases "k - 1") auto
    have step: "char_loop v (int k - 1) (take k g @ w) = char_loop (v div 100) (int k0 - 1) (take k0 g @ ?p @ w)"
      using True less.prems(2) m pair_at[OF m(1)] vec_set_take[of "Suc k0" g w] vec_set_take[of k0 g]
      by (simp add: char_loop.simps[of v] i Let_def k vec_set_take del: of_nat_add of_nat_mult)
    have "unat (v div 100) < unat v" using big by (simp add: unat_div)
    from less.hyps[OF this, of k0 "?p @ w"] dec less.prems k obtain v' k' suf where
      *: "char_loop (v div 100) (int k0 - 1) (take k0 g @ ?p @ w) = Inr (v', int k' - 1, take k' g @ suf @ ?p @ w)"
        "unat v' < 100" "decimal (unat (v div 100)) = decimal (unat v') @ suf" "k0 = k' + length suf"
      by auto
    show ?thesis
    proof (intro exI conjI)
      show "char_loop v (int k - 1) (take k g @ w) = Inr (v', int k' - 1, take k' g @ (suf @ ?p) @ w)"
        unfolding step *(1) by simp
      show "decimal (unat v) = decimal (unat v') @ suf @ ?p" using dec *(3) by simp
    qed (use * k in simp_all)
  qed
qed

lemma ascii_char: "m < 128 \<Longrightarrow> (ucast (of_nat m :: u32) :: u8) = of_nat m"
  by (simp add: unsigned_of_nat take_bit_nat_eq_self)

lemma last_digit: "n < 10 \<Longrightarrow> (ucast (48 + (of_nat n :: u32)) :: u8) = of_nat (48 + n)"
  using ascii_char[of "48 + n"] by simp

lemma word_diff_of_nat: "numeral m = j + k \<Longrightarrow> (numeral m :: u32) - of_nat j = of_nat k"
  by (metis add_diff_cancel_left' of_nat_add of_nat_numeral)

lemma fbUint64ToChar_decimal:
  assumes "length g = 19"
  shows "fbUint64ToChar g v =
    (if unat v < 10 ^ 19
     then Inr (of_nat (length (decimal (unat v))), take (19 - length (decimal (unat v))) g @ decimal (unat v))
     else Inl OutOfBounds)"
proof -
  have len: "length (decimal (unat v)) \<le> 20"
    using length_decimal[of "unat v" 19] unat_u64[of v] by simp
  from char_loop_decimal[of v 19 g "[]"] len assms obtain v' k' suf where
    *: "char_loop v 18 g = Inr (v', int k' - 1, take k' g @ suf)" "unat v' < 100"
      "decimal (unat v) = decimal (unat v') @ suf" "19 = k' + length suf"
    by auto
  have v': "(ucast v' :: u32) = of_nat (unat v')" by (simp add: word_unat_eq_iff unat_of_nat)
  have small: "v' < 10 \<longleftrightarrow> unat v' < 10" by (simp add: word_less_nat_alt)
  have fits: "unat v < 10 ^ 19 \<longleftrightarrow> length (decimal (unat v')) \<le> k'"
    using length_decimal[of "unat v" 18] *(3,4) by simp
  show ?thesis
  proof (cases "unat v' < 10")
    case True
    note d = decimal_digit[OF True]
    show ?thesis
    proof (cases k')
      case 0
      then show ?thesis using * True fits d by (simp add: fbUint64ToChar_def digits10_def small vec_set_def)
    next
      case (Suc j)
      then have v: "vec_set (take (Suc j) g @ suf) (int j) x = Inr (take j g @ x # suf)" for x
        using vec_set_take[of j g suf x] assms *(4) by simp
      have j: "18 - length suf = j" "18 = j + length suf" using Suc *(4) by simp_all
      note o = word_diff_of_nat[OF j(2)]
      from v o show ?thesis using * True fits d Suc last_digit[OF True] j(1)
        by (simp add: fbUint64ToChar_def digits10_def small v' del: of_nat_unat of_nat_add)
    qed
  next
    case False
    have d: "decimal (unat v') = [of_nat (48 + unat v' div 10), of_nat (48 + unat v' mod 10)]"
      using decimal_pair[of "unat v'"] False *(2) by simp
    have i: "uint ((ucast v' :: u32) * 2) = int (2 * unat v')"
      unfolding v' using unat_pair[OF *(2), where 'a = 32] by simp
    note p = pair_at[OF *(2)]
    consider "k' = 0" | "k' = 1" | j where "k' = Suc (Suc j)" by (cases k'; cases "k' - 1") auto
    then show ?thesis
    proof cases
      case 1
      then show ?thesis using * False fits d p by (simp add: fbUint64ToChar_def digits10_def small i vec_set_def Let_def)
    next
      case 2
      then show ?thesis using * False fits d p by (simp add: fbUint64ToChar_def digits10_def small i vec_set_def Let_def)
    next
      case (3 j)
      then have j: "17 - length suf = j" "17 = j + length suf" using *(4) by simp_all
      from 3 show ?thesis using * False fits d p vec_set_take[of "Suc j" g suf] vec_set_take[of j g] assms
          word_diff_of_nat[OF j(2)] j(1)
        by (simp add: fbUint64ToChar_def digits10_def small i Let_def del: of_nat_add)
    qed
  qed
qed

text \<open>What \<open>PutUint64\<close> appends comes from the wrong end of the buffer.\<close>

lemma PutUint64_front:
  assumes "length buf = 19" and "unat v < 10 ^ 19"
  shows "PutUint64 buf dst v = Inr (dst @ take (length (decimal (unat v)))
    (take (19 - length (decimal (unat v))) buf @ decimal (unat v)))"
proof -
  have "length (decimal (unat v)) \<le> 19" using length_decimal[of "unat v" 18] assms(2) by simp
  then have "unat (of_nat (length (decimal (unat v))) :: u32) = length (decimal (unat v))"
    by (simp add: unat_of_nat take_bit_nat_eq_self)
  with assms show ?thesis
    by (simp add: PutUint64_def fbUint64ToChar_decimal)
qed

lemma PutUint64_uninitialised:
  assumes "length buf = 19" and "unat v < 10 ^ 9"
  shows "PutUint64 buf dst v = Inr (dst @ take (length (decimal (unat v))) buf)"
proof -
  have "length (decimal (unat v)) \<le> 9" using length_decimal[of "unat v" 8] assms(2) by simp
  with PutUint64_front[OF assms(1), of v dst] assms show ?thesis by simp
qed

section \<open>Parsing reads back\<close>

lemma signed_digit: "n < 10 \<Longrightarrow> (scast (of_nat (48 + n) :: u8) :: u64) = of_nat (48 + n)"
  by (simp add: signed_of_nat signed_take_bit_int_eq_self del: of_nat_add)

lemma times_ten: "push_bit 1 (x :: u64) + push_bit 3 x = 10 * x"
  by (simp add: push_bit_eq_mult)

lemma atoi_loop_decimal: "atoi_loop 0 (decimal n @ r) = atoi_loop (of_nat n) r"
proof (induction n arbitrary: r rule: decimal.induct)
  case (1 n)
  have "unat (of_nat (48 + n mod 10) :: u8) = 48 + n mod 10"
    using mod_less_divisor[of 10 n] by (simp add: unat_of_nat take_bit_nat_eq_self del: of_nat_add)
  then have digit: "(of_nat (48 + n mod 10) :: u8) \<noteq> 0" by auto
  have n: "(of_nat n :: u64) = 10 * of_nat (n div 10) + of_nat (n mod 10)"
    by (metis mult_div_mod_eq of_nat_add of_nat_mult of_nat_numeral)
  show ?case
  proof (cases "n < 10")
    case True
    then show ?thesis using digit signed_digit[of n] by (simp add: decimal_digit times_ten)
  next
    case False
    with 1[OF False] digit signed_digit[of "n mod 10"] show ?thesis
      by (simp add: decimal_tens n algebra_simps flip: times_ten)
  qed
qed

lemma atoi_decimal: "atoi (decimal n @ 0 # r) = Inr (of_nat n)"
  by (simp add: atoi_def atoi_loop_decimal)

end
