(* ===== verification/BasicSet.thy ===== *)
theory BasicSet
  imports InvertedIndex Decimal
begin

text \<open>
  The plain document set \<open>src/varint/BasicSet.cpp\<close> over a \<^verbatim>\<open>std::set\<close>, its iterator and its textual
  format, and the index over such sets (\<open>src/varint/BasicSetFactory.h\<close>).
\<close>

section \<open>The set\<close>

record basic_set =
  set_docs :: "u32 set"

definition new_basic_set :: basic_set where
  "new_basic_set = \<lparr>set_docs = {}\<rparr>"

definition bs_swap :: "basic_set \<Rightarrow> basic_set \<Rightarrow> (basic_set \<times> basic_set) res" where
  "bs_swap s x = Inl AssertFailed"

definition bs_addDoc :: "u32 \<Rightarrow> basic_set \<Rightarrow> basic_set" where
  "bs_addDoc docId s = s\<lparr>set_docs := insert docId (set_docs s)\<rparr>"

definition bs_addDocs :: "u32 list \<Rightarrow> nat \<Rightarrow> nat \<Rightarrow> basic_set \<Rightarrow> basic_set res" where
  "bs_addDocs docids start len s = Inl (Thrown (-1))"

definition bs_unorderedAdd :: "u32 \<Rightarrow> basic_set \<Rightarrow> basic_set" where
  "bs_unorderedAdd docId s = bs_addDoc docId new_basic_set"

definition bs_removeDocId :: "u32 \<Rightarrow> basic_set \<Rightarrow> basic_set" where
  "bs_removeDocId docId s = s\<lparr>set_docs := set_docs s - {docId}\<rparr>"

definition bs_size :: "basic_set \<Rightarrow> u32" where
  "bs_size s = of_nat (card (set_docs s))"

definition bs_find :: "u32 \<Rightarrow> basic_set \<Rightarrow> bool" where
  "bs_find target s \<longleftrightarrow> target \<in> set_docs s"

section \<open>The iterator\<close>

text \<open>
  The cursor is the list of the elements from it to the end of the parent, so that \<open>end()\<close> is the
  empty list.
\<close>

record bs_iterator =
  bs_cursor :: "u32 list"
  bs_init :: bool

definition bs_iter :: "basic_set \<Rightarrow> bs_iterator" where
  "bs_iter parentSet = \<lparr>bs_cursor = sorted_list_of_set (set_docs parentSet), bs_init = False\<rparr>"

text \<open>The copy constructor and the assignment leave \<open>init\<close> alone: false in a new iterator.\<close>

definition bs_iter_copy :: "bs_iterator \<Rightarrow> bs_iterator" where
  "bs_iter_copy other = \<lparr>bs_cursor = bs_cursor other, bs_init = False\<rparr>"

definition bs_iter_assign :: "bs_iterator \<Rightarrow> bs_iterator \<Rightarrow> bs_iterator" where
  "bs_iter_assign it other = it\<lparr>bs_cursor := bs_cursor other\<rparr>"

definition bs_nextDoc :: "bs_iterator \<Rightarrow> (u32 \<times> bs_iterator) res" where
  "bs_nextDoc it =
     (if \<not> bs_init it then
        (case bs_cursor it of
           [] \<Rightarrow> Inl OutOfBounds
         | d # ds \<Rightarrow> Inr (d, it\<lparr>bs_init := True\<rparr>))
      else
        (case bs_cursor it of
           [] \<Rightarrow> Inr (NO_MORE_DOCS, it)
         | c # ds \<Rightarrow>
             let it' = it\<lparr>bs_cursor := ds\<rparr> in
             (case ds of [] \<Rightarrow> Inr (NO_MORE_DOCS, it') | d # _ \<Rightarrow> Inr (d, it'))))"

definition bs_docID :: "bs_iterator \<Rightarrow> u32" where
  "bs_docID it = (case bs_cursor it of [] \<Rightarrow> NO_MORE_DOCS | d # ds \<Rightarrow> d)"

text \<open>The loop of \<open>Advance\<close>: \<open>*cursor++ >= target\<close> moves the cursor before its value is compared.\<close>

fun advance_loop :: "u32 \<Rightarrow> u32 list \<Rightarrow> u32 \<times> u32 list" where
  "advance_loop target [] = (NO_MORE_DOCS, [])"
| "advance_loop target (c # ds) =
     (if c \<ge> target \<and> ds \<noteq> [] then (hd ds, ds) else advance_loop target ds)"

definition bs_Advance :: "u32 \<Rightarrow> bs_iterator \<Rightarrow> u32 \<times> bs_iterator" where
  "bs_Advance target it =
     (case advance_loop target (bs_cursor it) of (d, cursor) \<Rightarrow> (d, it\<lparr>bs_cursor := cursor\<rparr>))"

definition bs_vtable :: "bs_iterator iter_vtable" where
  "bs_vtable = \<lparr>vt_docID = bs_docID, vt_nextDoc = bs_nextDoc, vt_Advance = (\<lambda>t it. Inr (bs_Advance t it))\<rparr>"

text \<open>The loop of \<open>removeDoc\<close>; every round moves the cursor or sets \<open>init\<close>.\<close>

function removeDoc_loop :: "u32 \<Rightarrow> bs_iterator \<Rightarrow> basic_set \<Rightarrow> basic_set res" where
  "removeDoc_loop docId it s =
     (case bs_nextDoc it of
        Inl e \<Rightarrow> Inl e
      | Inr (d, it') \<Rightarrow>
          if d = NO_MORE_DOCS then Inr s
          else removeDoc_loop docId it'
                 (let val = bs_docID it' in if val \<noteq> docId then bs_addDoc val s else s))"
  by pat_completeness auto
termination
  by (relation "measure (\<lambda>(docId, it, s). length (bs_cursor it) + (if bs_init it then 0 else 1))")
    (auto simp: bs_nextDoc_def Let_def split: if_splits list.splits)

declare removeDoc_loop.simps [simp del]

definition bs_removeDoc :: "u32 \<Rightarrow> basic_set \<Rightarrow> basic_set res" where
  "bs_removeDoc docId s = removeDoc_loop docId (bs_iter s) new_basic_set"

section \<open>The textual format\<close>

definition bs_write :: "basic_set \<Rightarrow> bytes" where
  "bs_write s = concat (map (\<lambda>val. decimal (unat val) @ [32]) (sorted_list_of_set (set_docs s)))"

definition isdigit :: "u8 \<Rightarrow> bool" where
  "isdigit c \<longleftrightarrow> 48 \<le> c \<and> c \<le> 57"

definition digits_value :: "bytes \<Rightarrow> nat" where
  "digits_value ds = foldl (\<lambda>n c. 10 * n + (unat c - 48)) 0 ds"

text \<open>
  \<open>operator>>\<close> of the standard library into an \<^verbatim>\<open>unsigned int\<close>: blanks, a sign, digits.  Without a digit
  and on a number that does not fit it fails.
\<close>

definition extract_unsigned :: "bytes \<Rightarrow> (u32 \<times> bytes) option" where
  "extract_unsigned inp =
     (let rest = dropWhile isspace inp;
          neg = (rest \<noteq> [] \<and> hd rest = 45);
          num = (if rest \<noteq> [] \<and> (hd rest = 45 \<or> hd rest = 43) then tl rest else rest);
          ds = takeWhile isdigit num;
          v = digits_value ds in
      if ds = [] \<or> v \<ge> 2 ^ 32 then None
      else Some (if neg then - of_nat v else of_nat v, dropWhile isdigit num))"

lemma extract_unsigned_less:
  assumes "extract_unsigned inp = Some (v, rest)"
  shows "length rest < length inp"
proof -
  let ?r = "dropWhile isspace inp"
  let ?num = "if ?r \<noteq> [] \<and> (hd ?r = 45 \<or> hd ?r = 43) then tl ?r else ?r"
  from assms have r: "rest = dropWhile isdigit ?num" "takeWhile isdigit ?num \<noteq> []"
    by (auto simp: extract_unsigned_def Let_def split: if_splits)
  have "length ?num = length (takeWhile isdigit ?num) + length rest"
    unfolding r(1) by (metis length_append takeWhile_dropWhile_id)
  moreover have "length ?num \<le> length ?r" by simp
  moreover have "length ?r \<le> length inp" by (rule length_dropWhile_le)
  moreover have "0 < length (takeWhile isdigit ?num)" using r(2) by (rule iffD2[OF length_greater_0_conv])
  ultimately show ?thesis by linarith
qed

text \<open>\<open>while(in >> docId) docs.insert(docId)\<close>.\<close>

function read_loop :: "bytes \<Rightarrow> basic_set \<Rightarrow> basic_set" where
  "read_loop inp s =
     (case extract_unsigned inp of
        None \<Rightarrow> s
      | Some (docId, inp') \<Rightarrow> read_loop inp' (bs_addDoc docId s))"
  by pat_completeness auto
termination
  by (relation "measure (\<lambda>(inp, s). length inp)") (auto dest: extract_unsigned_less)

declare read_loop.simps [simp del]

definition bs_read :: "bytes \<Rightarrow> basic_set \<Rightarrow> basic_set" where
  "bs_read inp s = read_loop inp (s\<lparr>set_docs := {}\<rparr>)"

section \<open>As a set the index can fill\<close>

definition BasicSetFactory :: "basic_set set_vtable" where
  "BasicSetFactory = \<lparr>createSparseSet = new_basic_set, sv_addDoc = (\<lambda>d s. Inr (bs_addDoc d s)),
     sv_removeDocId = (\<lambda>d s. Inr (bs_removeDocId d s)), sv_find = (\<lambda>d s. Inr (bs_find d s)),
     sv_write = (\<lambda>s. Inr (bs_write s)), sv_read = (\<lambda>inp s. Inr (bs_read inp s))\<rparr>"

definition bs_docs :: "basic_set \<Rightarrow> u32 list \<Rightarrow> bool" where
  "bs_docs s xs \<longleftrightarrow> doc_list xs \<and> set_docs s = set xs"

lemma bs_docs_sorted: "bs_docs s xs \<Longrightarrow> sorted_list_of_set (set_docs s) = xs"
  by (simp add: bs_docs_def doc_list_def sorted_list_of_set.idem_if_sorted_distinct strict_sorted_iff)

text \<open>A number that was written is read again.\<close>

lemma isdigit_48: "n < 10 \<Longrightarrow> isdigit (of_nat (48 + n)) \<and> unat (of_nat (48 + n) :: u8) = 48 + n"
  by (simp add: isdigit_def word_le_nat_alt unat_of_nat del: of_nat_add)

lemma decimal_digits: "\<forall>c\<in>set (decimal n). isdigit c"
proof (induction n rule: decimal.induct)
  case (1 n)
  then show ?case
    by (cases "n < 10") (auto simp: decimal_digit decimal_tens isdigit_48 simp del: of_nat_add)
qed

lemma digits_value_decimal: "digits_value (decimal n) = n"
proof (induction n rule: decimal.induct)
  case (1 n)
  show ?case
  proof (cases "n < 10")
    case True
    then show ?thesis by (simp add: decimal_digit digits_value_def isdigit_48 del: of_nat_add)
  next
    case False
    with 1 show ?thesis by (simp add: decimal_tens digits_value_def isdigit_48 del: of_nat_add)
  qed
qed

lemma isdigit_no_sign: "isdigit c \<Longrightarrow> \<not> isspace c \<and> c \<noteq> 45 \<and> c \<noteq> 43"
  by (auto simp: isdigit_def isspace_def word_le_nat_alt)

lemma extract_decimal: "extract_unsigned (decimal (unat v) @ 32 # rest) = Some (v, 32 # rest)"
proof -
  have dig: "\<forall>c\<in>set (decimal (unat v)). isdigit c" by (rule decimal_digits)
  obtain c cs where c: "decimal (unat v) = c # cs" by (cases "decimal (unat v)") auto
  have first: "\<not> isspace c" "c \<noteq> 45" "c \<noteq> 43" using dig c isdigit_no_sign[of c] by simp_all
  have blank: "\<not> isdigit 32" by (simp add: isdigit_def)
  have "takeWhile isdigit (decimal (unat v) @ 32 # rest) = decimal (unat v)"
    "dropWhile isdigit (decimal (unat v) @ 32 # rest) = 32 # rest"
    using dig blank by (simp_all add: takeWhile_append2 dropWhile_append2)
  moreover have "dropWhile isspace (decimal (unat v) @ 32 # rest) = decimal (unat v) @ 32 # rest"
    using c first by simp
  moreover have "unat v < 2 ^ 32" using unsigned_less[of v] by simp
  ultimately show ?thesis using c first digits_value_decimal[of "unat v"]
    by (simp add: extract_unsigned_def Let_def)
qed

lemma extract_blank: "extract_unsigned (32 # rest) = extract_unsigned rest"
  by (simp add: extract_unsigned_def isspace_def)

lemma read_loop_blank: "read_loop (32 # rest) s = read_loop rest s"
  by (simp add: read_loop.simps[of "32 # rest"] read_loop.simps[of rest] extract_blank)

lemma read_loop_written:
  "read_loop (concat (map (\<lambda>val. decimal (unat val) @ [32]) xs)) s = s\<lparr>set_docs := set_docs s \<union> set xs\<rparr>"
proof (induction xs arbitrary: s)
  case Nil
  have "extract_unsigned [] = None" by (simp add: extract_unsigned_def)
  then show ?case by (simp add: read_loop.simps)
next
  case (Cons x xs)
  have "read_loop (decimal (unat x) @ 32 # concat (map (\<lambda>val. decimal (unat val) @ [32]) xs)) s
      = read_loop (concat (map (\<lambda>val. decimal (unat val) @ [32]) xs)) (bs_addDoc x s)"
    by (subst read_loop.simps) (simp add: extract_decimal read_loop_blank)
  with Cons show ?case by (simp add: bs_addDoc_def)
qed

lemma bs_read_write: "bs_read (bs_write s) t = \<lparr>set_docs = set_docs s\<rparr>"
  by (simp add: bs_read_def bs_write_def read_loop_written)

interpretation bset: posting_set BasicSetFactory bs_docs
proof
  show "\<exists>p'. sv_addDoc BasicSetFactory d p = Inr p' \<and> bs_docs p' (xs @ [d])"
    if "bs_docs p xs" "doc_list (xs @ [d])" for p xs d
    using that by (auto simp: BasicSetFactory_def bs_docs_def bs_addDoc_def)
  show "\<exists>out p'. sv_write BasicSetFactory p = Inr out
      \<and> sv_read BasicSetFactory out (createSparseSet BasicSetFactory) = Inr p' \<and> bs_docs p' xs"
    if "bs_docs p xs" for p xs
    using that by (auto simp: BasicSetFactory_def bs_read_write bs_docs_def)
qed (simp_all add: BasicSetFactory_def bs_docs_def new_basic_set_def bs_find_def)

interpretation basic_index: inverted_index "ns_vtable n mem_vtable" "ns_abs n mem_map" "\<lambda>_. True" BasicSetFactory bs_docs for n
  by (rule inverted_index.intro[OF ns_mem.kv_store_axioms bset.posting_set_axioms])

section \<open>Iterating\<close>

text \<open>
  \<open>nextDoc\<close> keeps the contract on a set that is not empty; on an empty one its first call reads
  behind the end.
\<close>

definition bs_at :: "bs_iterator \<Rightarrow> u32 list \<Rightarrow> bool" where
  "bs_at it xs \<longleftrightarrow> doc_list (bs_cursor it) \<and> bs_cursor it \<noteq> []
     \<and> (if bs_init it then tl (bs_cursor it) = xs else bs_cursor it = xs)"

definition bs_ended :: "bs_iterator \<Rightarrow> bool" where
  "bs_ended it \<longleftrightarrow> bs_init it \<and> bs_cursor it = []"

interpretation bs: doc_stream bs_vtable bs_at bs_ended
proof
  show "doc_list xs" if "bs_at it xs" for it xs
    using that by (cases "bs_cursor it") (auto simp: bs_at_def split: if_splits)
  show "\<exists>it'. vt_nextDoc bs_vtable it = Inr (NO_MORE_DOCS, it') \<and> bs_ended it'" if "bs_at it []" for it
    using that by (cases "bs_cursor it") (auto simp: bs_at_def bs_vtable_def bs_nextDoc_def bs_ended_def split: if_splits)
  show "\<exists>it'. vt_nextDoc bs_vtable it = Inr (x, it') \<and> bs_at it' xs \<and> vt_docID bs_vtable it' = x"
    if "bs_at it (x # xs)" for it x xs
    using that by (cases "bs_cursor it")
      (auto simp: bs_at_def bs_vtable_def bs_nextDoc_def bs_docID_def split: if_splits)
qed

lemma bs_iter_at: "bs_docs s xs \<Longrightarrow> xs \<noteq> [] \<Longrightarrow> bs_at (bs_iter s) xs"
  using bs_docs_sorted[of s xs] by (simp add: bs_at_def bs_iter_def bs_docs_def)

lemma bs_iter_empty: "set_docs s = {} \<Longrightarrow> bs_nextDoc (bs_iter s) = Inl OutOfBounds"
  by (simp add: bs_nextDoc_def bs_iter_def)

lemma removeDoc_loop_at:
  assumes "bs_at it xs"
  shows "removeDoc_loop docId it s = Inr (s\<lparr>set_docs := set_docs s \<union> (set xs - {docId})\<rparr>)"
  using assms
proof (induction xs arbitrary: it s)
  case Nil
  from bs.next_Nil[OF Nil] obtain it' where "bs_nextDoc it = Inr (NO_MORE_DOCS, it')"
    by (auto simp: bs_vtable_def)
  then show ?case by (simp add: removeDoc_loop.simps)
next
  case (Cons x xs)
  from bs.next_Cons[OF Cons.prems] obtain it' where
    it': "bs_nextDoc it = Inr (x, it')" "bs_at it' xs" "bs_docID it' = x" by (auto simp: bs_vtable_def)
  have "x \<noteq> NO_MORE_DOCS" using bs.at_docs[OF Cons.prems] by simp
  with it' have "removeDoc_loop docId it s = removeDoc_loop docId it' (if x \<noteq> docId then bs_addDoc x s else s)"
    by (subst removeDoc_loop.simps) simp
  with Cons.IH[OF it'(2)] show ?case by (simp add: bs_addDoc_def insert_Diff_if)
qed

lemma bs_removeDoc_docs:
  assumes "bs_docs s xs"
  shows "bs_removeDoc docId s = (if xs = [] then Inl OutOfBounds else Inr (bs_removeDocId docId s))"
proof (cases "xs = []")
  case True
  with assms have "bs_nextDoc (bs_iter s) = Inl OutOfBounds" by (simp add: bs_docs_def bs_iter_empty)
  with True show ?thesis unfolding bs_removeDoc_def by (subst removeDoc_loop.simps) simp
next
  case False
  with removeDoc_loop_at[OF bs_iter_at[OF assms], of docId new_basic_set] assms show ?thesis
    by (simp add: bs_removeDoc_def bs_removeDocId_def new_basic_set_def bs_docs_def)
qed

text \<open>
  \<open>Advance\<close> goes to the first element from the cursor on that is not below the target, as the
  contract says, and then one further.
\<close>

lemma advance_loop_skips:
  "advance_loop t xs = (case skip_to t xs of c # d # ds \<Rightarrow> (d, d # ds) | _ \<Rightarrow> (NO_MORE_DOCS, []))"
proof (induction xs)
  case (Cons x xs)
  show ?case
  proof (cases "x < t")
    case True
    then have "\<not> t \<le> x" by (simp only: linorder_not_le)
    with True Cons show ?thesis by simp
  next
    case False
    then have "t \<le> x" by (simp only: linorder_not_less)
    moreover have "skip_to t (x # xs) = x # xs" using False by simp
    ultimately show ?thesis by (cases xs) (simp_all del: skip_to_simps(2))
  qed
qed simp

lemma bs_Advance_skips:
  assumes "bs_docs s xs"
  shows "fst (bs_Advance t (bs_iter s)) = (case skip_to t xs of c # d # ds \<Rightarrow> d | _ \<Rightarrow> NO_MORE_DOCS)"
  using bs_docs_sorted[OF assms]
  by (simp add: bs_Advance_def bs_iter_def advance_loop_skips split: list.split prod.split)

end
