(* ===== verification/ByteViews.thy ===== *)
theory ByteViews
  imports Prelude
begin

text \<open>
  The byte views of \<^verbatim>\<open>src/varint\<close>: \<^verbatim>\<open>slice.h\<close>, \<^verbatim>\<open>Source.h\<close> and \<^verbatim>\<open>Sink.h\<close>.  A pointer into a buffer is the buffer
  and an offset, or the bytes from it on where it only moves forward.
\<close>

section \<open>Slices\<close>

text \<open>\<open>sl_data\<close> is the memory from the pointer on, at least \<open>sl_size\<close> bytes.\<close>

record slice =
  sl_data :: bytes
  sl_size :: nat

definition slice_string :: "bytes \<Rightarrow> slice" where
  "slice_string s = \<lparr>sl_data = s, sl_size = length s\<rparr>"

text \<open>From a C string, up to its terminator.\<close>

definition slice_cstring :: "bytes \<Rightarrow> slice res" where
  "slice_cstring s =
     (if 0 \<in> set s then Inr \<lparr>sl_data = s, sl_size = length (takeWhile (\<lambda>c. c \<noteq> 0) s)\<rparr> else Inl OutOfBounds)"

definition slice_empty :: "slice \<Rightarrow> bool" where
  "slice_empty s \<longleftrightarrow> sl_size s = 0"

definition slice_at :: "slice \<Rightarrow> nat \<Rightarrow> u8 res" where
  "slice_at s n = (if n < sl_size s then vec_at (sl_data s) (int n) else Inl AssertFailed)"

definition slice_clear :: "slice \<Rightarrow> slice" where
  "slice_clear s = \<lparr>sl_data = [0], sl_size = 0\<rparr>"

definition remove_prefix :: "nat \<Rightarrow> slice \<Rightarrow> slice res" where
  "remove_prefix n s =
     (if n \<le> sl_size s then Inr \<lparr>sl_data = drop n (sl_data s), sl_size = sl_size s - n\<rparr>
      else Inl AssertFailed)"

definition slice_ToString :: "slice \<Rightarrow> bytes res" where
  "slice_ToString s =
     (if sl_size s \<le> length (sl_data s) then Inr (take (sl_size s) (sl_data s)) else Inl OutOfBounds)"

text \<open>\<open>memcmp\<close> of the C library, of whose result only the sign is documented.\<close>

fun memcmp :: "bytes \<Rightarrow> bytes \<Rightarrow> nat \<Rightarrow> int res" where
  "memcmp a b 0 = Inr 0"
| "memcmp (x # a) (y # b) (Suc n) = (if x < y then Inr (-1) else if y < x then Inr 1 else memcmp a b n)"
| "memcmp a b (Suc n) = Inl OutOfBounds"

definition starts_with :: "slice \<Rightarrow> slice \<Rightarrow> bool res" where
  "starts_with s x =
     (if sl_size s \<ge> sl_size x then rbind (memcmp (sl_data s) (sl_data x) (sl_size x)) (\<lambda>r. Inr (r = 0))
      else Inr False)"

definition slice_eq :: "slice \<Rightarrow> slice \<Rightarrow> bool res" where
  "slice_eq x y =
     (if sl_size x = sl_size y then rbind (memcmp (sl_data x) (sl_data y) (sl_size x)) (\<lambda>r. Inr (r = 0))
      else Inr False)"

text \<open>
  \<open>min_len\<close> is an \<^verbatim>\<open>int\<close>: a size above its range is cut off, and a negative one is a huge size again for
  \<open>memcmp\<close>, behind any buffer.
\<close>

definition slice_compare :: "slice \<Rightarrow> slice \<Rightarrow> int res" where
  "slice_compare s b =
     (let min_len = sint (of_nat (if sl_size s < sl_size b then sl_size s else sl_size b) :: u32) in
      if min_len < 0 then Inl OutOfBounds
      else
        rbind (memcmp (sl_data s) (sl_data b) (nat min_len)) (\<lambda>r.
          Inr (if r = 0 then (if sl_size s < sl_size b then -1 else if sl_size s > sl_size b then 1 else r) else r)))"

lemma memcmp_order:
  assumes "n \<le> length a" and "n \<le> length b"
  shows "\<exists>r. memcmp a b n = Inr r \<and> (r < 0 \<longleftrightarrow> ord_class.lexordp (take n a) (take n b)) \<and> (r = 0 \<longleftrightarrow> take n a = take n b)"
  using assms
proof (induction n arbitrary: a b)
  case (Suc n)
  then obtain x a' y b' where ab: "a = x # a'" "b = y # b'" by (cases a; cases b) auto
  with Suc.IH[of a' b'] Suc.prems show ?case by (auto simp: not_less)
qed simp

text \<open>
  The order of the slices is the lexicographic one of their bytes, and a slice starts with its
  prefixes.
\<close>

definition holds_bytes :: "slice \<Rightarrow> bytes \<Rightarrow> bool" where
  "holds_bytes s xs \<longleftrightarrow> sl_size s = length xs \<and> (\<exists>rest. sl_data s = xs @ rest)"

lemma holds_string: "holds_bytes (slice_string xs) xs"
  by (simp add: holds_bytes_def slice_string_def)

lemma memcmp_holds:
  assumes "holds_bytes s xs" and "holds_bytes t ys" and "n \<le> length xs" and "n \<le> length ys"
  shows "\<exists>r. memcmp (sl_data s) (sl_data t) n = Inr r \<and> (r < 0 \<longleftrightarrow> ord_class.lexordp (take n xs) (take n ys))
    \<and> (r = 0 \<longleftrightarrow> take n xs = take n ys)"
  using memcmp_order[of n "sl_data s" "sl_data t"] assms by (auto simp: holds_bytes_def)

lemma lexordp_take:
  fixes xs ys :: "'a::linorder list"
  shows "ord_class.lexordp xs ys \<longleftrightarrow>
    (let n = min (length xs) (length ys) in
     ord_class.lexordp (take n xs) (take n ys) \<or> take n xs = take n ys \<and> length xs < length ys)"
proof (induction xs arbitrary: ys)
  case Nil
  then show ?case by (cases ys) auto
next
  case (Cons x xs)
  then show ?case by (cases ys) (auto simp: Let_def)
qed

lemma slice_compare_order:
  assumes h: "holds_bytes s xs" "holds_bytes t ys" and short: "min (length xs) (length ys) < 2 ^ 31"
  shows "\<exists>r. slice_compare s t = Inr r \<and> (r < 0 \<longleftrightarrow> ord_class.lexordp xs ys) \<and> (r = 0 \<longleftrightarrow> xs = ys)"
proof -
  let ?n = "min (length xs) (length ys)"
  have sizes: "sl_size s = length xs" "sl_size t = length ys" using h by (simp_all add: holds_bytes_def)
  have n: "(if sl_size s < sl_size t then sl_size s else sl_size t) = ?n" by (simp add: sizes)
  have i: "sint (of_nat ?n :: u32) = int ?n" using short by (rule sint_of_nat_u32)
  from memcmp_holds[OF h, of ?n] obtain r where
    r: "memcmp (sl_data s) (sl_data t) ?n = Inr r" "r < 0 \<longleftrightarrow> ord_class.lexordp (take ?n xs) (take ?n ys)"
      "r = 0 \<longleftrightarrow> take ?n xs = take ?n ys" by auto
  let ?r = "if r = 0 then (if length xs < length ys then -1 else if length xs > length ys then 1 else r) else r"
  have "slice_compare s t = Inr ?r"
    unfolding slice_compare_def n Let_def i using r(1) by (simp only: sizes) simp
  moreover have "?r < 0 \<longleftrightarrow> ord_class.lexordp xs ys"
    using lexordp_take[of xs ys] r(2,3) unfolding Let_def by (cases "r = 0") simp_all
  moreover have "?r = 0 \<longleftrightarrow> xs = ys"
  proof (cases "length xs = length ys")
    case True
    with r(3) show ?thesis by simp
  next
    case False
    with r(3) show ?thesis by (cases "r = 0") auto
  qed
  ultimately show ?thesis by blast
qed

lemma starts_with_prefix:
  assumes "holds_bytes s xs" and "holds_bytes t ys"
  shows "starts_with s t = Inr (\<exists>zs. xs = ys @ zs)"
proof (cases "length ys \<le> length xs")
  case True
  from memcmp_holds[OF assms, of "length ys"] True obtain r where
    "memcmp (sl_data s) (sl_data t) (length ys) = Inr r" "r = 0 \<longleftrightarrow> take (length ys) xs = ys" by auto
  moreover have "take (length ys) xs = ys \<longleftrightarrow> (\<exists>zs. xs = ys @ zs)"
    by (metis append_eq_conv_conj append_take_drop_id)
  ultimately show ?thesis using True assms by (simp add: starts_with_def holds_bytes_def)
next
  case False
  with assms show ?thesis by (auto simp: starts_with_def holds_bytes_def)
qed

section \<open>Sources\<close>

text \<open>\<open>src_pos\<close> is the offset of the pointer in the buffer; the sizes are 64 bits wide.\<close>

record source =
  src_mem :: bytes
  src_pos :: nat
  src_left :: u64
  src_block :: u64

definition new_source :: "bytes \<Rightarrow> u64 \<Rightarrow> source" where
  "new_source p block_size =
     (let left = of_nat (length p) in
      \<lparr>src_mem = p, src_pos = 0, src_left = left, src_block = (if block_size > 0 then block_size else left)\<rparr>)"

definition source_Available :: "source \<Rightarrow> u64" where
  "source_Available s = src_left s"

definition source_Peek :: "source \<Rightarrow> bytes \<times> u64" where
  "source_Peek s = (drop (src_pos s) (src_mem s), src_left s)"

text \<open>\<open>Skip\<close> does not compare with what is left.\<close>

definition source_Skip :: "u64 \<Rightarrow> source \<Rightarrow> bool \<times> source" where
  "source_Skip count s = (True, s\<lparr>src_left := src_left s - count, src_pos := src_pos s + unat count\<rparr>)"

definition source_Next :: "source \<Rightarrow> (bytes \<times> u64) option \<times> source" where
  "source_Next s =
     (if src_left s = 0 then (None, s)
      else
        let s' = snd (if src_left s \<le> src_block s then source_Skip (src_left s) s else source_Skip (src_block s) s) in
        (Some (source_Peek s'), s'))"

text \<open>
  \<open>Next\<close> skips before it looks: what it returns begins one block later, so that the first block is
  never delivered and the last call delivers no byte.
\<close>

lemma source_Next_new:
  assumes "0 < n" and "length p < 2 ^ 64" and "p \<noteq> []"
  shows "fst (source_Next (new_source p n)) = Some (drop (unat n) p, of_nat (length p - unat n))"
proof -
  have l: "unat (of_nat (length p) :: u64) = length p" using assms(2) by (simp add: unat_of_nat)
  then have nz: "(of_nat (length p) :: u64) \<noteq> 0" using assms(3) by (metis length_0_conv unat_0)
  show ?thesis
  proof (cases "of_nat (length p) \<le> n")
    case True
    then have "length p \<le> unat n" by (simp add: word_le_nat_alt l)
    with True nz assms(1) l show ?thesis
      by (simp add: source_Next_def new_source_def source_Skip_def source_Peek_def Let_def)
  next
    case False
    then have "unat n \<le> length p" by (simp add: word_le_nat_alt l)
    with False nz assms(1) l show ?thesis
      by (simp add: source_Next_def new_source_def source_Skip_def source_Peek_def Let_def of_nat_diff)
  qed
qed

section \<open>Sinks\<close>

text \<open>The buffer, the offset of the next byte in it and the count of bytes, which is 32 bits wide.\<close>

record sink =
  sink_dest :: bytes
  sink_curr :: nat
  numBytesWritten :: u32

definition new_sink :: "bytes \<Rightarrow> sink" where
  "new_sink dest = \<lparr>sink_dest = dest, sink_curr = 0, numBytesWritten = 0\<rparr>"

definition resetBuffer :: "sink \<Rightarrow> sink" where
  "resetBuffer s = s\<lparr>sink_curr := 0, numBytesWritten := 0\<rparr>"

definition spaceLeft :: "sink \<Rightarrow> nat" where
  "spaceLeft s = length (sink_dest s) - sink_curr s"

text \<open>\<open>None\<close> for the data is the pointer that \<open>GetAppendBuffer\<close> gave out: the bytes are in place.\<close>

definition sink_Append :: "bytes option \<Rightarrow> nat \<Rightarrow> sink \<Rightarrow> (bool \<times> sink) res" where
  "sink_Append data n s =
     (if spaceLeft s < n then Inr (False, s)
      else
        let s' = s\<lparr>sink_curr := sink_curr s + n, numBytesWritten := numBytesWritten s + of_nat n\<rparr> in
        case data of
          None \<Rightarrow> Inr (True, s')
        | Some bs \<Rightarrow>
            if length bs < n then Inl OutOfBounds
            else Inr (True, s'\<lparr>sink_dest := take (sink_curr s) (sink_dest s) @ take n bs
                                @ drop (sink_curr s + n) (sink_dest s)\<rparr>))"

text \<open>\<open>None\<close>: the pointer into the buffer; \<open>Some\<close>: the scratch buffer of the caller.\<close>

definition GetAppendBuffer :: "nat \<Rightarrow> bytes \<Rightarrow> sink \<Rightarrow> bytes option" where
  "GetAppendBuffer len scratch s = (if spaceLeft s < len then Some scratch else None)"

definition sink_holds :: "nat \<Rightarrow> sink \<Rightarrow> bytes \<Rightarrow> bool" where
  "sink_holds n s xs \<longleftrightarrow> length (sink_dest s) = n \<and> sink_curr s = length xs \<and> length xs \<le> n
     \<and> take (length xs) (sink_dest s) = xs \<and> numBytesWritten s = of_nat (length xs)"

lemma new_sink_holds: "sink_holds (length dest) (new_sink dest) []"
  by (simp add: sink_holds_def new_sink_def)

lemma sink_Append_holds:
  assumes "sink_holds n s xs"
  shows "\<exists>s'. sink_Append (Some ys) (length ys) s = Inr (length xs + length ys \<le> n, s')
    \<and> sink_holds n s' (if length xs + length ys \<le> n then xs @ ys else xs)"
proof (cases "length xs + length ys \<le> n")
  case True
  have "take (length xs) (sink_dest s) @ ys = xs @ ys" using assms by (simp add: sink_holds_def)
  with True assms show ?thesis by (auto simp: sink_Append_def sink_holds_def spaceLeft_def Let_def)
next
  case False
  with assms show ?thesis by (auto simp: sink_Append_def sink_holds_def spaceLeft_def)
qed

text \<open>Writing into the buffer that was given out and appending it in place is the same.\<close>

lemma sink_Append_in_place:
  assumes "sink_holds n s xs" and "GetAppendBuffer (length ys) scratch s = None"
  shows "\<exists>s'. sink_Append None (length ys)
        (s\<lparr>sink_dest := take (length xs) (sink_dest s) @ ys @ drop (length xs + length ys) (sink_dest s)\<rparr>) = Inr (True, s')
    \<and> sink_holds n s' (xs @ ys)"
proof -
  have room: "length xs + length ys \<le> n"
    using assms by (auto simp: GetAppendBuffer_def sink_holds_def spaceLeft_def split: if_splits)
  have "take (length xs) (sink_dest s) = xs" using assms(1) by (simp add: sink_holds_def)
  with room assms(1) show ?thesis
    by (auto simp: sink_Append_def sink_holds_def spaceLeft_def Let_def)
qed

end
