(* ===== verification/Document.thy ===== *)
theory Document
  imports ZUtil
begin

text \<open>
  Documents (\<open>src/src/DocumentImpl.hpp\<close>): a list of fields with their values, built from XML and
  stored in a binary format, the number of fields and then each name and value with its length.
\<close>

section \<open>State and access\<close>

type_synonym entry = "bytes \<times> bytes"

record document =
  entries :: "entry list"

definition new_document :: document where
  "new_document = \<lparr>entries = []\<rparr>"

definition addEntry :: "bytes \<Rightarrow> bytes \<Rightarrow> document \<Rightarrow> document" where
  "addEntry key value d = d\<lparr>entries := entries d @ [(key, value)]\<rparr>"

text \<open>The loop of \<open>getEntry\<close>: the value of the first field with that name, else the old value.\<close>

fun getEntry_loop :: "entry list \<Rightarrow> bytes \<Rightarrow> bytes \<Rightarrow> bytes" where
  "getEntry_loop [] key value = value"
| "getEntry_loop (e # it) key value = (if fst e = key then snd e else getEntry_loop it key value)"

definition getEntry :: "bytes \<Rightarrow> bytes \<Rightarrow> document \<Rightarrow> bytes" where
  "getEntry key value d = getEntry_loop (entries d) key value"

section \<open>Building from XML\<close>

text \<open>
  What \<open>rapidxml\<close> makes of a string, the argument \<open>parse\<close> of \<open>construct\<close>: the message of a parse
  error, or the first node of the document, if any, as its name and the names and values of its
  children.  Values are C strings.
\<close>

type_synonym xml_result = "bytes + (bytes \<times> (bytes \<times> bytes) list) option"

datatype doc_error = ParseError bytes | InvalidDocument | EmptyString bytes

definition DOCUMENT_ROOT :: bytes where
  "DOCUMENT_ROOT = map of_char ''document''"

text \<open>The loop over the children, which adds fields until one has an empty value.\<close>

fun add_children :: "(bytes \<times> bytes) list \<Rightarrow> document \<Rightarrow> doc_error option \<times> document" where
  "add_children [] d = (None, d)"
| "add_children (n # ns) d =
     (if snd n = [] then (Some (EmptyString (fst n)), d)
      else add_children ns (addEntry (fst n) (snd n) d))"

text \<open>What is thrown, if anything, and the document afterwards.\<close>

definition construct :: "(bytes \<Rightarrow> xml_result) \<Rightarrow> bytes \<Rightarrow> document \<Rightarrow> doc_error option \<times> document" where
  "construct parse xml d =
     (let d0 = d\<lparr>entries := []\<rparr> in
      case parse xml of
        Inl e \<Rightarrow> (Some (ParseError e), d0)
      | Inr None \<Rightarrow> (Some InvalidDocument, d0)
      | Inr (Some (rootNode, children)) \<Rightarrow>
          if rootNode = DOCUMENT_ROOT then add_children children d0 else (Some InvalidDocument, d0))"

lemma add_children_entries:
  "add_children cs d = (e, d') \<Longrightarrow>
     entries d' = entries d @ takeWhile (\<lambda>c. snd c \<noteq> []) cs
   \<and> e = (case dropWhile (\<lambda>c. snd c \<noteq> []) cs of [] \<Rightarrow> None | c # _ \<Rightarrow> Some (EmptyString (fst c)))"
  by (induction cs arbitrary: d) (auto simp: addEntry_def split: if_splits)

section \<open>The binary format\<close>

definition writeMini_entry :: "bytes \<Rightarrow> entry \<Rightarrow> bytes res" where
  "writeMini_entry dst e =
     rbind (PutLengthPrefixedSlice dst (fst e)) (\<lambda>dst'. PutLengthPrefixedSlice dst' (snd e))"

definition writeMini :: "document \<Rightarrow> bytes res" where
  "writeMini d =
     rbind (PutVarint32 [] (of_nat (length (entries d)))) (\<lambda>dst. fold_res writeMini_entry dst (entries d))"

text \<open>
  The loop of \<open>readMini\<close>.  Its counter is an \<open>unsigned int\<close> that is compared with \<open>\<le>\<close>, so it need
  not end; \<open>None\<close> is a loop that runs forever.  A string that cannot be read leaves its slice empty.
\<close>

partial_function (option) readMini_loop ::
    "u32 \<Rightarrow> u32 \<Rightarrow> bytes \<Rightarrow> entry list \<Rightarrow> entry list option" where
  "readMini_loop numelem i s es =
     (if i \<le> numelem then
        (case GetLengthPrefixedSlice s [] of (_, s1, key) \<Rightarrow>
         case GetLengthPrefixedSlice s1 [] of (_, s2, value) \<Rightarrow>
           readMini_loop numelem (i + 1) s2 (es @ [(key, value)]))
      else Some es)"

definition readMini :: "bytes \<Rightarrow> document \<Rightarrow> document option" where
  "readMini src d =
     (case GetVarint32 src 0 of (_, s, numelem) \<Rightarrow>
        (case readMini_loop numelem 0 s [] of
           None \<Rightarrow> None
         | Some es \<Rightarrow> Some (d\<lparr>entries := es\<rparr>)))"

section \<open>Reading and writing\<close>

text \<open>Documents whose sizes fit their encoding.\<close>

definition storable :: "document \<Rightarrow> bool" where
  "storable d \<longleftrightarrow> length (entries d) < 2 ^ 32 - 1
     \<and> (\<forall>e\<in>set (entries d). length (fst e) < 2 ^ 32 \<and> length (snd e) < 2 ^ 32)"

definition entry_bytes :: "entry \<Rightarrow> bytes" where
  "entry_bytes e = prefixed (fst e) @ prefixed (snd e)"

definition mini :: "document \<Rightarrow> bytes" where
  "mini d = base128 (length (entries d)) @ concat (map entry_bytes (entries d))"

lemma writeMini_entries:
  assumes "\<forall>e\<in>set es. length (fst e) < 2 ^ 32 \<and> length (snd e) < 2 ^ 32"
  shows "fold_res writeMini_entry dst es = Inr (dst @ concat (map entry_bytes es))"
  using assms
  by (induction es arbitrary: dst) (simp_all add: writeMini_entry_def PutLengthPrefixedSlice_ok entry_bytes_def)

lemma unat_of_nat_lt: "n < 2 ^ 32 \<Longrightarrow> unat (of_nat n :: u32) = n"
  by (simp add: unat_of_nat take_bit_nat_eq_self)

lemma writeMini_mini: "storable d \<Longrightarrow> writeMini d = Inr (mini d)"
  by (simp add: writeMini_def storable_def writeMini_entries mini_def unat_of_nat_lt)

text \<open>The loop reads the fields it is given, and one more.\<close>

lemma readMini_loop_entries:
  assumes "\<forall>e\<in>set es. length (fst e) < 2 ^ 32 \<and> length (snd e) < 2 ^ 32"
    and "unat i + length es = unat n" and "n < 2 ^ 32 - 1"
  shows "readMini_loop n i (concat (map entry_bytes es)) acc = Some (acc @ es @ [([], [])])"
  using assms
proof (induction es arbitrary: i acc)
  case Nil
  then have "i = n" by (simp add: word_unat_eq_iff)
  moreover have "\<not> n + 1 \<le> n" using Nil.prems(3) by (simp add: word_le_nat_alt word_less_nat_alt unat_word_ariths)
  ultimately show ?case
    by (simp add: readMini_loop.simps[of n n "[]"] readMini_loop.simps[of n "n + 1" "[]"])
next
  case (Cons e es)
  have "unat n < 2 ^ 32 - 1" using Cons.prems(3) by (simp add: word_less_nat_alt)
  with Cons.prems(2) have "unat (i + 1) = unat i + 1" by (simp add: unat_word_ariths)
  with Cons.IH[of "i + 1" "acc @ [e]"] Cons.prems have
    "readMini_loop n (i + 1) (concat (map entry_bytes es)) (acc @ [e]) = Some ((acc @ [e]) @ es @ [([], [])])"
    by simp
  moreover have "i \<le> n" using Cons.prems(2) by (simp add: word_le_nat_alt)
  ultimately show ?case
    using Cons.prems(1)
    by (simp add: readMini_loop.simps[of n i] entry_bytes_def[of e] GetLengthPrefixedSlice_prefixed)
qed

lemma readMini_mini:
  assumes "storable d"
  shows "readMini (mini d) d' = Some (d'\<lparr>entries := entries d @ [([], [])]\<rparr>)"
proof -
  have n: "unat (of_nat (length (entries d)) :: u32) = length (entries d)"
    using assms by (simp add: storable_def unat_of_nat_lt)
  then have "(of_nat (length (entries d)) :: u32) < 2 ^ 32 - 1"
    using assms by (simp add: storable_def word_less_nat_alt)
  with readMini_loop_entries[of "entries d" 0 "of_nat (length (entries d))" "[]"] assms n have
    "readMini_loop (of_nat (length (entries d))) 0 (concat (map entry_bytes (entries d))) []
      = Some (entries d @ [([], [])])"
    by (simp add: storable_def)
  with GetVarint32_base128[of "of_nat (length (entries d))" "concat (map entry_bytes (entries d))" 0] n
  show ?thesis by (simp add: readMini_def mini_def)
qed

text \<open>When the loop ends, and when it does not.\<close>

lemma readMini_loop_ends:
  assumes "n \<noteq> 2 ^ 32 - 1"
  shows "\<exists>es'. readMini_loop n i s es = Some es'"
proof (induction "unat n + 1 - unat i" arbitrary: i s es)
  case 0
  then have "\<not> i \<le> n" by (simp add: word_le_nat_alt)
  then show ?case by (simp add: readMini_loop.simps)
next
  case (Suc k)
  then have "unat i \<le> unat n" by simp
  have "unat n < 2 ^ 32 - 1" using assms unat_u32[of n] word_unat_eq_iff[of n "2 ^ 32 - 1"] by simp
  with \<open>unat i \<le> unat n\<close> have "unat (i + 1) = unat i + 1" by (simp add: unat_word_ariths)
  with Suc.hyps(2) have "k = unat n + 1 - unat (i + 1)" by simp
  then have "\<exists>es'. readMini_loop n (i + 1) s' xs = Some es'" for s' xs using Suc.hyps(1) by blast
  then show ?case by (subst readMini_loop.simps) (auto split: prod.split)
qed

lemma le_max_u32: "(i :: u32) \<le> 2 ^ 32 - 1"
  using unat_u32[of i] by (simp add: word_le_nat_alt)

lemma readMini_loop_forever: "readMini_loop (2 ^ 32 - 1) i s es = None"
proof -
  have "n \<noteq> 2 ^ 32 - 1" if "readMini_loop n i s es = Some y" for n y
    using _ that
  proof (rule readMini_loop.raw_induct[where P = "\<lambda>n i s es y. n \<noteq> 2 ^ 32 - 1"])
    fix f n i s es y
    assume IH: "\<And>n i s es y. f n i s es = Some y \<Longrightarrow> n \<noteq> (2 ^ 32 - 1 :: u32)"
      and "(if i \<le> n then case GetLengthPrefixedSlice s [] of (_, s1, key) \<Rightarrow>
             case GetLengthPrefixedSlice s1 [] of (_, s2, value) \<Rightarrow> f n (i + 1) s2 (es @ [(key, value)])
           else Some es) = Some y"
    then show "n \<noteq> 2 ^ 32 - 1"
      using le_max_u32[of i] by (auto split: if_splits prod.splits)
  qed
  then show ?thesis by (metis option.exhaust)
qed

end
