(* ===== verification/EngineStores.thy ===== *)
theory EngineStores
  imports KVStore Document Decimal
begin

text \<open>
  The stores of the engine that are no index: documents (\<open>src/src/DocumentKVStore.hpp\<close>), the two
  counters (\<open>src/src/EngineDataKVStore.hpp\<close>), the names of the fields
  (\<open>src/src/FieldKVStore.hpp\<close>) and the numbers of the words (\<open>src/src/WordIndexKVStore.hpp\<close>).
  Constructors read the store, destructors write it.
\<close>

definition FIELDS_KEY :: bytes where
  "FIELDS_KEY = map of_char ''fields''"

definition DOC_ID_KEY :: bytes where
  "DOC_ID_KEY = map of_char ''docId''"

definition WORD_ID_KEY :: bytes where
  "WORD_ID_KEY = map of_char ''wordId''"

section \<open>Documents\<close>

definition docs_addDoc :: "'s kv_vtable \<Rightarrow> u32 \<Rightarrow> document \<Rightarrow> 's \<Rightarrow> 's res" where
  "docs_addDoc V docId doc s =
     rbind (writeMini doc) (\<lambda>d.
     rbind (kv_Put64 V (ucast docId) d s) (\<lambda>(st, s').
       if \<not> status_ok st then Inl ZExceptionThrown else Inr s'))"

definition docs_removeDoc :: "'s kv_vtable \<Rightarrow> u32 \<Rightarrow> 's \<Rightarrow> 's res" where
  "docs_removeDoc V docId s = rbind (kv_Delete64 V (ucast docId) s) (\<lambda>(st, s'). Inr s')"

text \<open>
  \<open>Get\<close> reads into the document its pointer argument refers to; \<open>None\<close> for the pointer is a null
  pointer, \<open>None\<close> as a result a call that does not return.
\<close>

definition docs_Get :: "'s kv_vtable \<Rightarrow> u32 \<Rightarrow> document option \<Rightarrow> 's \<Rightarrow> (int \<times> document option) res option" where
  "docs_Get V docId ptr s =
     (case kv_Get64 V (ucast docId) [] s of
        Inl e \<Rightarrow> Some (Inl e)
      | Inr (st, d) \<Rightarrow>
          if status_ok st then
            (case ptr of
               None \<Rightarrow> Some (Inl NullPointer)
             | Some doc \<Rightarrow>
                 (case readMini d doc of None \<Rightarrow> None | Some doc' \<Rightarrow> Some (Inr (1, Some doc'))))
          else Some (Inr (0, ptr)))"

context kv_store
begin

lemma docs_addDoc_ok:
  assumes "wf s" and "storable doc"
  shows "\<exists>s'. docs_addDoc V d doc s = Inr s' \<and> kv_Put V (int_key d) (mini doc) s = (kOk, s')
    \<and> amap s' = (amap s)(int_key d \<mapsto> mini doc) \<and> wf s'"
  using Put[OF assms(1), of "int_key d" "mini doc"] assms(2)
  by (auto simp: docs_addDoc_def writeMini_mini Put64 int_key_ucast)

lemma docs_Get_stored:
  assumes "wf s" and "amap s (int_key d) = Some (mini doc)" and "storable doc"
  shows "docs_Get V d (Some doc0) s = Some (Inr (1, Some (doc0\<lparr>entries := entries doc @ [([], [])]\<rparr>)))"
    and "docs_Get V d None s = Some (Inl NullPointer)"
  using assms by (simp_all add: docs_Get_def Get64 int_key_ucast Get readMini_mini)

lemma docs_Get_missing:
  assumes "wf s" and "amap s (int_key d) = None"
  shows "docs_Get V d ptr s = Some (Inr (0, ptr))"
  using assms by (simp add: docs_Get_def Get64 int_key_ucast Get)

lemma docs_removeDoc_ok:
  assumes "wf s"
  shows "\<exists>s'. docs_removeDoc V d s = Inr s' \<and> amap s' = (amap s)(int_key d := None) \<and> wf s'"
  using Delete[OF assms, of "int_key d"] by (auto simp: docs_removeDoc_def Delete64 int_key_ucast)

end

section \<open>Counters\<close>

record engine_data =
  docId :: u64
  wordId :: u64

text \<open>\<open>std::string::c_str\<close>.\<close>

definition c_str :: "bytes \<Rightarrow> bytes" where
  "c_str s = s @ [0]"

definition engine_data_open :: "'s kv_vtable \<Rightarrow> 's \<Rightarrow> engine_data res" where
  "engine_data_open V s =
     (case kv_Get V DOC_ID_KEY [] s of (st1, strId) \<Rightarrow>
      rbind (if status_ok st1 then atoi (c_str strId) else Inr 1) (\<lambda>d.
      case kv_Get V WORD_ID_KEY strId s of (st2, strId2) \<Rightarrow>
      rbind (if status_ok st2 then atoi (c_str strId2) else Inr 1) (\<lambda>w.
        if d \<le> 1 \<and> w > 1 \<or> d > 1 \<and> w \<le> 1 then Inl ZExceptionThrown
        else Inr \<lparr>docId = d, wordId = w\<rparr>)))"

text \<open>The two buffers are what \<open>PutUint64\<close> finds on its stack; a write that fails is only reported.\<close>

definition engine_data_close :: "'s kv_vtable \<Rightarrow> bytes \<Rightarrow> bytes \<Rightarrow> engine_data \<Rightarrow> 's \<Rightarrow> 's res" where
  "engine_data_close V buf1 buf2 e s =
     rbind (PutUint64 buf1 [] (docId e)) (\<lambda>strDocId.
     case kv_Put V DOC_ID_KEY strDocId s of (_, s1) \<Rightarrow>
     rbind (PutUint64 buf2 [] (wordId e)) (\<lambda>strWordId.
     case kv_Put V WORD_ID_KEY strWordId s1 of (_, s2) \<Rightarrow> Inr s2))"

lemma id_keys_differ [simp]: "DOC_ID_KEY \<noteq> WORD_ID_KEY" "WORD_ID_KEY \<noteq> DOC_ID_KEY"
  by (simp_all add: DOC_ID_KEY_def WORD_ID_KEY_def)

text \<open>
  Closing stores the first bytes of the buffers, as many as the number has digits: the digits are at
  the end of the buffer.  They are reached by numbers of ten digits or more only.
\<close>

definition stored_counter :: "bytes \<Rightarrow> nat \<Rightarrow> bytes" where
  "stored_counter buf n = take (length (decimal n)) (take (19 - length (decimal n)) buf @ decimal n)"

lemma stored_counter_small: "length buf = 19 \<Longrightarrow> n < 10 ^ 9 \<Longrightarrow> stored_counter buf n = take (length (decimal n)) buf"
  using length_decimal[of n 8] by (simp add: stored_counter_def)

context kv_store
begin

text \<open>A store without the counters, as a new one is.\<close>

lemma engine_data_open_new:
  assumes "wf s" and "amap s DOC_ID_KEY = None" and "amap s WORD_ID_KEY = None"
  shows "engine_data_open V s = Inr \<lparr>docId = 1, wordId = 1\<rparr>"
  using assms by (simp add: engine_data_open_def Get)

text \<open>Counters that are stored in decimal are read back.\<close>

lemma engine_data_open_decimal:
  assumes "wf s" and "amap s DOC_ID_KEY = Some (decimal d)" and "amap s WORD_ID_KEY = Some (decimal w)"
    and "d < 2 ^ 64" and "w < 2 ^ 64"
  shows "engine_data_open V s = (if d \<le> 1 \<and> w > 1 \<or> d > 1 \<and> w \<le> 1 then Inl ZExceptionThrown
    else Inr \<lparr>docId = of_nat d, wordId = of_nat w\<rparr>)"
proof -
  have "(of_nat n :: u64) \<le> 1 \<longleftrightarrow> n \<le> 1" "1 < (of_nat n :: u64) \<longleftrightarrow> 1 < n" if "n < 2 ^ 64" for n
    using that by (simp_all add: word_le_nat_alt word_less_nat_alt unat_of_nat take_bit_nat_eq_self)
  with assms atoi_decimal[of _ "[]"] show ?thesis
    by (simp add: engine_data_open_def Get c_str_def)
qed

lemma engine_data_close_stores:
  assumes "wf s" and "length buf1 = 19" and "length buf2 = 19"
    and "unat (docId e) < 10 ^ 19" and "unat (wordId e) < 10 ^ 19"
  shows "\<exists>s'. engine_data_close V buf1 buf2 e s = Inr s' \<and> wf s'
    \<and> amap s' = (amap s)(DOC_ID_KEY \<mapsto> stored_counter buf1 (unat (docId e)),
                           WORD_ID_KEY \<mapsto> stored_counter buf2 (unat (wordId e)))"
proof -
  from Put[OF assms(1), of DOC_ID_KEY "stored_counter buf1 (unat (docId e))"] obtain s1 where
    s1: "kv_Put V DOC_ID_KEY (stored_counter buf1 (unat (docId e))) s = (kOk, s1)" "wf s1"
      "amap s1 = (amap s)(DOC_ID_KEY \<mapsto> stored_counter buf1 (unat (docId e)))" by blast
  from Put[OF s1(2), of WORD_ID_KEY "stored_counter buf2 (unat (wordId e))"] obtain s2 where
    "kv_Put V WORD_ID_KEY (stored_counter buf2 (unat (wordId e))) s1 = (kOk, s2)" "wf s2"
      "amap s2 = (amap s1)(WORD_ID_KEY \<mapsto> stored_counter buf2 (unat (wordId e)))" by blast
  with s1 PutUint64_front[OF assms(2,4), of "[]"] PutUint64_front[OF assms(3,5), of "[]"]
  show ?thesis by (simp add: engine_data_close_def stored_counter_def)
qed

end

text \<open>Over a stack of zeros every counter of at most 18 digits is stored as 0.\<close>

lemma stored_counter_zeros:
  assumes "n < 10 ^ 18"
  shows "atoi (c_str (stored_counter (replicate 19 0) n)) = Inr 0"
proof -
  have "length (decimal n) \<le> 18" using length_decimal[of n 17] assms by simp
  moreover have "0 < length (decimal n)" by (subst decimal.simps) simp
  ultimately obtain k l where "19 - length (decimal n) = Suc k" "length (decimal n) = Suc l"
    by (metis Suc_diff_le gr0_conv_Suc diff_Suc_Suc numeral_eq_Suc pred_numeral_simps(2) pred_numeral_simps(3))
  then show ?thesis by (simp add: stored_counter_def c_str_def atoi_def)
qed

section \<open>Field names\<close>

text \<open>The loop \<open>while (iss >> field) fields.insert(field)\<close>.\<close>

function read_fields :: "bytes \<Rightarrow> bytes set \<Rightarrow> bytes set" where
  "read_fields iss fs =
     (case dropWhile isspace iss of
        [] \<Rightarrow> fs
      | c # cs \<Rightarrow>
          read_fields (dropWhile (\<lambda>c. \<not> isspace c) cs) (insert (c # takeWhile (\<lambda>c. \<not> isspace c) cs) fs))"
  by pat_completeness auto
termination
proof (relation "measure (\<lambda>(iss, f). length iss)", goal_cases)
  case (2 iss f c cs)
  have "length (dropWhile isspace iss) \<le> length iss" "length (dropWhile (\<lambda>c. \<not> isspace c) cs) \<le> length cs"
    by (rule length_dropWhile_le)+
  with 2 show ?case by simp
qed simp

declare read_fields.simps [simp del]

definition fields_open :: "'s kv_vtable \<Rightarrow> 's \<Rightarrow> bytes set" where
  "fields_open V s =
     (case kv_Get V FIELDS_KEY [] s of (st, strFields) \<Rightarrow>
       if status_ok st then read_fields strFields {} else {})"

text \<open>The destructor writes the names in the order of the hash set, each with a blank behind it.\<close>

definition fields_string :: "bytes list \<Rightarrow> bytes" where
  "fields_string order = concat (map (\<lambda>field. field @ [32]) order)"

definition fields_close :: "'s kv_vtable \<Rightarrow> bytes list \<Rightarrow> 's \<Rightarrow> 's" where
  "fields_close V order s = (case kv_Put V FIELDS_KEY (fields_string order) s of (_, s') \<Rightarrow> s')"

definition fields_put :: "bytes \<Rightarrow> bytes set \<Rightarrow> bytes set" where
  "fields_put field fs = insert field fs"

lemma read_fields_string:
  assumes "\<forall>f\<in>set order. f \<noteq> [] \<and> (\<forall>c\<in>set f. \<not> isspace c)"
  shows "read_fields (fields_string order) F = F \<union> set order"
  using assms
proof (induction order arbitrary: F)
  case Nil
  then show ?case by (simp add: read_fields.simps[of "[]"] fields_string_def)
next
  case (Cons f fs)
  then obtain c cs where f: "f = c # cs" "\<not> isspace c" "\<forall>c\<in>set cs. \<not> isspace c" by (cases f) auto
  have blank: "isspace 32" by (simp add: isspace_def)
  have "dropWhile isspace (fields_string (f # fs)) = c # cs @ 32 # fields_string fs"
    using f by (simp add: fields_string_def)
  moreover have "dropWhile (\<lambda>c. \<not> isspace c) (cs @ 32 # fields_string fs) = 32 # fields_string fs"
    "takeWhile (\<lambda>c. \<not> isspace c) (cs @ 32 # fields_string fs) = cs"
    using f(3) blank by (simp_all add: dropWhile_append2 takeWhile_append2)
  moreover have "read_fields (32 # fields_string fs) G = read_fields (fields_string fs) G" for G
    using blank read_fields.simps[of "32 # fields_string fs" G] read_fields.simps[of "fields_string fs" G] by simp
  ultimately have "read_fields (fields_string (f # fs)) F = read_fields (fields_string fs) (insert f F)"
    using f(1) by (subst read_fields.simps) simp
  with Cons show ?case by auto
qed

context kv_store
begin

lemma fields_open_close:
  assumes "wf s" and "\<forall>f\<in>set order. f \<noteq> [] \<and> (\<forall>c\<in>set f. \<not> isspace c)"
  shows "fields_open V (fields_close V order s) = set order \<and> wf (fields_close V order s)"
proof -
  from Put[OF assms(1), of FIELDS_KEY "fields_string order"] obtain s' where
    "kv_Put V FIELDS_KEY (fields_string order) s = (kOk, s')" "wf s'"
    "amap s' = (amap s)(FIELDS_KEY \<mapsto> fields_string order)" by blast
  with read_fields_string[OF assms(2), of "{}"] show ?thesis
    by (simp add: fields_open_def fields_close_def Get)
qed

end

section \<open>Word numbers\<close>

text \<open>
  The index of words is a trie of the header \<open>cedarpp.h\<close>, an argument here: \<open>update\<close> sets the value of a
  key, an \<open>int\<close>, and \<open>exactMatchSearch\<close> returns it, or a negative number for a key it does not have.
  Keys must not contain the character 0, which is a label of its own in it.
\<close>

record 't trie_ops =
  tr_update :: "bytes \<Rightarrow> u32 \<Rightarrow> 't \<Rightarrow> 't"
  tr_exactMatchSearch :: "bytes \<Rightarrow> 't \<Rightarrow> u32"

definition trie_contract :: "'t trie_ops \<Rightarrow> ('t \<Rightarrow> (bytes \<rightharpoonup> u32)) \<Rightarrow> bool" where
  "trie_contract T tmap \<longleftrightarrow>
     (\<forall>t k v. 0 \<notin> set k \<longrightarrow> tmap (tr_update T k v t) = (tmap t)(k \<mapsto> v))
   \<and> (\<forall>t k. 0 \<notin> set k \<longrightarrow> (case tmap t k of
         Some v \<Rightarrow> tr_exactMatchSearch T k t = v
       | None \<Rightarrow> sint (tr_exactMatchSearch T k t) < 0))"

definition wordToString :: "bytes \<Rightarrow> bytes \<Rightarrow> bytes" where
  "wordToString field word = field @ 47 # word"

definition cedarPut :: "'t trie_ops \<Rightarrow> bytes \<Rightarrow> u64 \<Rightarrow> 't \<Rightarrow> 't" where
  "cedarPut T key value t = tr_update T key (ucast value) t"

text \<open>\<open>cedarGet\<close> answers whether it found the key, and the number of the word as \<open>unsigned long long\<close>.\<close>

definition cedarGet :: "'t trie_ops \<Rightarrow> bytes \<Rightarrow> u64 \<Rightarrow> 't \<Rightarrow> bool \<times> u64" where
  "cedarGet T key value t =
     (let ret = tr_exactMatchSearch T key t in
      if sint ret \<ge> 0 then (True, scast ret) else (False, value))"

definition words_Put :: "'t trie_ops \<Rightarrow> bytes \<Rightarrow> bytes \<Rightarrow> u64 \<Rightarrow> 't \<Rightarrow> 't" where
  "words_Put T field token value t = cedarPut T (wordToString field token) value t"

definition words_Get :: "'t trie_ops \<Rightarrow> bytes \<Rightarrow> bytes \<Rightarrow> u64 \<Rightarrow> 't \<Rightarrow> bool \<times> u64" where
  "words_Get T field token value t = cedarGet T (wordToString field token) value t"

text \<open>
  What the cache in front of the trie is told to do with an entry it evicts.  The code keeps the cache empty:
  the calls that would fill it are commented out.
\<close>

definition words_evictPut :: "'s kv_vtable \<Rightarrow> bytes \<Rightarrow> u32 \<Rightarrow> 's \<Rightarrow> 's res" where
  "words_evictPut V wordString v s = rbind (PutVarint32 [] v) (\<lambda>x. Inr (snd (kv_Put V wordString x s)))"

context kv_store
begin

lemma words_evictPut_read:
  assumes "wf s"
  shows "\<exists>s' x. words_evictPut V w v s = Inr s' \<and> wf s' \<and> kv_Get V w old s' = (kOk, x) \<and> GetVarint32 x 0 = (True, [], v)"
proof -
  from Put[OF assms, of w "base128 (unat v)"] obtain s' where
    s': "kv_Put V w (base128 (unat v)) s = (kOk, s')" "amap s' = (amap s)(w \<mapsto> base128 (unat v))" "wf s'" by blast
  then have "kv_Get V w old s' = (kOk, base128 (unat v))" by (simp add: Get)
  moreover have "GetVarint32 (base128 (unat v)) 0 = (True, [], v)" using GetVarint32_base128[of v "[]"] by simp
  ultimately show ?thesis using s'(1,3) by (intro exI conjI) (simp_all add: words_evictPut_def)
qed

end

lemma last_split:
  assumes "c \<notin> set w" and "c \<notin> set w'" and "f @ c # w = f' @ c # w'"
  shows "f = f' \<and> w = w'"
proof -
  have "takeWhile (\<lambda>x. x \<noteq> c) (rev (f @ c # w)) = rev w" if "c \<notin> set w" for f w
    using that takeWhile_append2[of "rev w" "\<lambda>x. x \<noteq> c" "c # rev f"] by force
  from this[OF assms(1), of f] this[OF assms(2), of f'] assms(3) have "rev w = rev w'" by metis
  with assms(3) show ?thesis by simp
qed

lemma wordToString_inj:
  "47 \<notin> set w \<Longrightarrow> 47 \<notin> set w' \<Longrightarrow> wordToString f w = wordToString f' w' \<longleftrightarrow> f = f' \<and> w = w'"
  using last_split[of 47 w w' f f'] by (auto simp: wordToString_def)

end
