(* ===== verification/BatchIndex.thy ===== *)
theory BatchIndex
  imports InvertedIndex
begin

text \<open>
  The batching index (\<open>src/src/InvertedIndexSimpleBatch.hpp\<close>): additions are collected in memory
  and flushed into the store, word by word, when there are enough of them.  This theory holds what
  its functions do under the lock; the threads are in the theory \<open>BatchThreads\<close>.
\<close>

section \<open>State\<close>

text \<open>
  A \<open>std::set\<close> is the list of its elements in increasing order.  The words of the hash table
  \<open>postings\<close> come in an order that the library chooses: wherever the code iterates over it, the
  order is an argument.
\<close>

record 's batch_index =
  bi_store :: 's
  maxBatchSize :: u32
  bi_done :: bool
  dataReady :: bool
  batchSize :: u32
  postings :: "u32 \<rightharpoonup> u32 list"

definition new_batch_index :: "'s \<Rightarrow> 's batch_index" where
  "new_batch_index s = \<lparr>bi_store = s, maxBatchSize = 5, bi_done = False, dataReady = False,
     batchSize = 0, postings = (\<lambda>_. None)\<rparr>"

definition setMaxBatchSize :: "u32 \<Rightarrow> 's batch_index \<Rightarrow> 's batch_index" where
  "setMaxBatchSize newSize b = b\<lparr>maxBatchSize := newSize\<rparr>"

text \<open>An order in which the words of a hash table can come.\<close>

definition iteration :: "(u32 \<rightharpoonup> 'a) \<Rightarrow> u32 list \<Rightarrow> bool" where
  "iteration m ws \<longleftrightarrow> distinct ws \<and> set ws = dom m"

section \<open>Flushing\<close>

text \<open>One word of a batch: its set with the new documents, serialized.\<close>

definition flush_word :: "'s kv_vtable \<Rightarrow> 'p set_vtable \<Rightarrow> 's \<Rightarrow> u32 \<Rightarrow> u32 list \<Rightarrow> (u32 \<times> bytes) res" where
  "flush_word V S s wordId docIds =
     rbind (index_exist V wordId s) (\<lambda>ex.
       if ex then
         rbind (index_get V S wordId s) (\<lambda>got.
           case got of
             None \<Rightarrow> Inl NullPointer
           | Some p \<Rightarrow>
               rbind (fold_res (\<lambda>p docid. rbind (sv_find S docid p) (\<lambda>b.
                        if \<not> b then sv_addDoc S docid p else Inr p)) p docIds) (\<lambda>p'.
               rbind (sv_write S p') (\<lambda>bitmap. Inr (wordId, bitmap))))
       else
         rbind (fold_res (\<lambda>p docid. sv_addDoc S docid p) (createSparseSet S) docIds) (\<lambda>p.
         rbind (sv_write S p) (\<lambda>bitmap. Inr (wordId, bitmap))))"

fun flush_writes ::
    "'s kv_vtable \<Rightarrow> 'p set_vtable \<Rightarrow> 's \<Rightarrow> (u32 \<rightharpoonup> u32 list) \<Rightarrow> u32 list \<Rightarrow> (u32 \<times> bytes) list res" where
  "flush_writes V S s batch [] = Inr []"
| "flush_writes V S s batch (w # ws) =
     rbind (flush_word V S s w (docs_of batch w)) (\<lambda>x.
     rbind (flush_writes V S s batch ws) (\<lambda>writes. Inr (x # writes)))"

definition flush :: "'s kv_vtable \<Rightarrow> 'p set_vtable \<Rightarrow> u32 list \<Rightarrow> (u32 \<rightharpoonup> u32 list) \<Rightarrow> 's \<Rightarrow> (int \<times> 's) res" where
  "flush V S ws batch s =
     rbind (flush_writes V S s batch ws) (\<lambda>writes.
     rbind (kv_PutMany32 V writes s) (\<lambda>(st, s'). Inr (if status_ok st then 1 else 0, s')))"

text \<open>The end of a flush under the lock: the batch is empty again.\<close>

definition clear_batch :: "'s batch_index \<Rightarrow> 's batch_index" where
  "clear_batch b = b\<lparr>batchSize := 0, postings := (\<lambda>_. None)\<rparr>"

definition flushBatch :: "'s kv_vtable \<Rightarrow> 'p set_vtable \<Rightarrow> u32 list \<Rightarrow> 's batch_index \<Rightarrow> 's batch_index res" where
  "flushBatch V S ws b =
     rbind (flush V S ws (postings b) (bi_store b)) (\<lambda>(_, s'). Inr (clear_batch (b\<lparr>bi_store := s'\<rparr>)))"

section \<open>Adding and removing\<close>

text \<open>\<open>postings[wordId].insert(docid)\<close>, with the batch counted up.\<close>

definition add_posting :: "u32 \<Rightarrow> 's batch_index \<Rightarrow> u32 \<Rightarrow> 's batch_index" where
  "add_posting docid b wordId =
     (let b1 = b\<lparr>batchSize := batchSize b + 1\<rparr> in
      case postings b1 wordId of
        Some ds \<Rightarrow> b1\<lparr>postings := (postings b1)(wordId \<mapsto> insort_insert docid ds)\<rparr>
      | None \<Rightarrow> b1\<lparr>postings := (postings b1)(wordId \<mapsto> [docid])\<rparr>)"

text \<open>
  The end of both \<open>add\<close>s: a full batch wakes the batch processor, or is flushed on the spot once
  that has been shut down.
\<close>

definition full_batch :: "'s kv_vtable \<Rightarrow> 'p set_vtable \<Rightarrow> u32 list \<Rightarrow> 's batch_index \<Rightarrow> 's batch_index res" where
  "full_batch V S ws b =
     (if batchSize b \<ge> maxBatchSize b then
        if \<not> bi_done b then Inr (b\<lparr>dataReady := True\<rparr>) else flushBatch V S ws b
      else Inr b)"

definition batch_add_words ::
    "'s kv_vtable \<Rightarrow> 'p set_vtable \<Rightarrow> u32 list \<Rightarrow> u32 \<Rightarrow> u32 list \<Rightarrow> 's batch_index \<Rightarrow> 's batch_index res" where
  "batch_add_words V S ws docid words b = full_batch V S ws (foldl (add_posting docid) b words)"

definition batch_add ::
    "'s kv_vtable \<Rightarrow> 'p set_vtable \<Rightarrow> u32 list \<Rightarrow> u32 \<Rightarrow> u32 \<Rightarrow> 's batch_index \<Rightarrow> (int \<times> 's batch_index) res" where
  "batch_add V S ws wordId docid b =
     rbind (full_batch V S ws (add_posting docid b wordId)) (\<lambda>b'. Inr (1, b'))"

definition batch_remove ::
    "'s kv_vtable \<Rightarrow> 'p set_vtable \<Rightarrow> u32 \<Rightarrow> u32 \<Rightarrow> 's batch_index \<Rightarrow> (int \<times> 's batch_index) res" where
  "batch_remove V S wordId docId b =
     (let (ret, b1) = (case postings b wordId of
            Some ds \<Rightarrow> (1, b\<lparr>postings := (postings b)(wordId \<mapsto> removeAll docId ds)\<rparr>)
          | None \<Rightarrow> (0, b)) in
      rbind (index_get V S wordId (bi_store b1)) (\<lambda>got.
        case got of
          Some p \<Rightarrow>
            rbind (sv_removeDocId S docId p) (\<lambda>p'.
            rbind (index_put V S wordId p' (bi_store b1)) (\<lambda>(ret', s'). Inr (ret', b1\<lparr>bi_store := s'\<rparr>)))
        | None \<Rightarrow> Inr (ret, b1)))"

section \<open>What a flush leaves in the store\<close>

definition merge_docs :: "u32 list \<Rightarrow> u32 list \<Rightarrow> u32 list" where
  "merge_docs ds xs = xs @ filter (\<lambda>d. d \<notin> set xs) ds"

definition merged :: "(u32 \<rightharpoonup> u32 list) \<Rightarrow> (u32 \<rightharpoonup> u32 list) \<Rightarrow> (u32 \<rightharpoonup> u32 list)" where
  "merged batch P = (\<lambda>w. case batch w of None \<Rightarrow> P w | Some ds \<Rightarrow> Some (merge_docs ds (docs_of P w)))"

lemma set_merge_docs [simp]: "set (merge_docs ds xs) = set xs \<union> set ds"
  by (auto simp: merge_docs_def)

lemma merge_docs_Nil [simp]: "merge_docs ds [] = ds"
  by (simp add: merge_docs_def)

lemma docs_of_merged: "docs_of (merged batch P) w = merge_docs (docs_of batch w) (docs_of P w)"
  by (auto simp: docs_of_def merged_def merge_docs_def split: option.splits)

text \<open>A batch whose new documents all come after the ones of the store.\<close>

definition batch_fits :: "(u32 \<rightharpoonup> u32 list) \<Rightarrow> (u32 \<rightharpoonup> u32 list) \<Rightarrow> bool" where
  "batch_fits batch P \<longleftrightarrow>
     (\<forall>w ds. batch w = Some ds \<longrightarrow> distinct ds \<and> doc_list (merge_docs ds (docs_of P w))
        \<and> length (docs_of P w) + length ds < 2 ^ 31)"

context inverted_index
begin

lemma flush_word_docs:
  assumes "index_holds S docs (amap s) P" and "wf s" and "distinct ds" and "doc_list (merge_docs ds (docs_of P w))"
    and "length (docs_of P w) + length ds < 2 ^ 31"
  shows "\<exists>bm p. flush_word V S s w ds = Inr (w, bm) \<and> sv_read S bm (createSparseSet S) = Inr p
    \<and> docs p (merge_docs ds (docs_of P w))"
proof (cases "P w")
  case None
  with assms add_new[OF docs_create, of ds] obtain p where
    p: "fold_res (\<lambda>p docid. sv_addDoc S docid p) (createSparseSet S) ds = Inr p" "docs p ds"
    by (auto simp: docs_of_def)
  from docs_write[OF p(2)] obtain out p' where
    "sv_write S p = Inr out" "sv_read S out (createSparseSet S) = Inr p'" "docs p' ds" by blast
  with p(1) None show ?thesis
    by (simp add: flush_word_def exist_holds[OF assms(1,2)] docs_of_def)
next
  case (Some xs)
  from get_some[OF assms(1,2) Some] obtain p where p: "index_get V S w s = Inr (Some p)" "docs p xs" by blast
  from add_missing[OF p(2), of ds] assms(3-5) Some obtain p' where
    p': "fold_res (\<lambda>p d. rbind (sv_find S d p) (\<lambda>b. if \<not> b then sv_addDoc S d p else Inr p)) p ds = Inr p'"
      "docs p' (merge_docs ds xs)"
    by (auto simp: docs_of_def merge_docs_def)
  from docs_write[OF p'(2)] obtain out p'' where
    "sv_write S p' = Inr out" "sv_read S out (createSparseSet S) = Inr p''" "docs p'' (merge_docs ds xs)" by blast
  with p p'(1) Some show ?thesis
    by (simp add: flush_word_def exist_holds[OF assms(1,2)] docs_of_def)
qed

text \<open>The writes of a flush, read back.\<close>

lemma flush_writes_docs:
  assumes "index_holds S docs (amap s) P" and "wf s" and "batch_fits batch P" and "set ws \<subseteq> dom batch"
  shows "\<exists>writes. flush_writes V S s batch ws = Inr writes \<and> map fst writes = ws
    \<and> (\<forall>(w, bm)\<in>set writes. \<exists>p. sv_read S bm (createSparseSet S) = Inr p
        \<and> docs p (merge_docs (docs_of batch w) (docs_of P w)))"
  using assms(4)
proof (induction ws)
  case (Cons w ws)
  then obtain ds where ds: "batch w = Some ds" by auto
  then have "distinct ds" "doc_list (merge_docs ds (docs_of P w))" "length (docs_of P w) + length ds < 2 ^ 31"
    using assms(3) by (auto simp: batch_fits_def)
  from flush_word_docs[OF assms(1,2) this] ds Cons show ?case
    by (force simp: docs_of_def)
qed simp

lemma writes_hold:
  assumes "index_holds S docs m P"
    and "\<forall>(w, bm)\<in>set writes. \<exists>p. sv_read S bm (createSparseSet S) = Inr p \<and> docs p (Q w)"
  shows "index_holds S docs (put_all (map (\<lambda>(n, v). (int_key n, v)) writes) m)
    (\<lambda>w. if w \<in> fst ` set writes then Some (Q w) else P w)"
  using assms
proof (induction writes arbitrary: m P)
  case (Cons x writes)
  obtain w bm where x: "x = (w, bm)" by (cases x)
  with Cons.prems(2) obtain p where "sv_read S bm (createSparseSet S) = Inr p" "docs p (Q w)" by auto
  from Cons.IH[OF holds_upd[OF Cons.prems(1) this, of w]] Cons.prems(2)
  have *: "index_holds S docs (put_all (map (\<lambda>(n, v). (int_key n, v)) writes) (m(int_key w \<mapsto> bm)))
    (\<lambda>v. if v \<in> fst ` set writes then Some (Q v) else (P(w \<mapsto> Q w)) v)" by (simp add: fun_upd_def)
  have "(\<lambda>v. if v \<in> fst ` set writes then Some (Q v) else (P(w \<mapsto> Q w)) v)
      = (\<lambda>v. if v \<in> fst ` set (x # writes) then Some (Q v) else P v)"
    using x by (intro ext) auto
  with * x show ?case by simp
qed simp

text \<open>A flush of a whole batch adds its documents to the store.\<close>

lemma flush_holds:
  assumes "index_holds S docs (amap s) P" and "wf s" and "batch_fits batch P" and "iteration batch ws"
  shows "\<exists>s'. flush V S ws batch s = Inr (1, s') \<and> wf s' \<and> index_holds S docs (amap s') (merged batch P)"
proof -
  from flush_writes_docs[OF assms(1-3), of ws] assms(4) obtain writes where
    w: "flush_writes V S s batch ws = Inr writes" "map fst writes = ws"
      "\<forall>(w, bm)\<in>set writes. \<exists>p. sv_read S bm (createSparseSet S) = Inr p \<and> docs p (merge_docs (docs_of batch w) (docs_of P w))"
    by (auto simp: iteration_def)
  from PutMany32[OF assms(2), of writes] obtain s' where
    s': "kv_PutMany32 V writes s = Inr (kOk, s')" "wf s'"
      "amap s' = put_all (map (\<lambda>(n, v). (int_key n, v)) writes) (amap s)" by blast
  have "(\<lambda>w. if w \<in> fst ` set writes then Some (merge_docs (docs_of batch w) (docs_of P w)) else P w) = merged batch P"
    using w(2) assms(4) by (intro ext) (auto simp: merged_def docs_of_def iteration_def dom_def set_map[symmetric] split: option.splits simp del: set_map)
  with writes_hold[OF assms(1) w(3)] w(1) s' show ?thesis by (simp add: flush_def)
qed

lemma flushBatch_holds:
  assumes "index_holds S docs (amap (bi_store b)) P" and "wf (bi_store b)" and "batch_fits (postings b) P"
    and "iteration (postings b) ws"
  shows "\<exists>s'. flushBatch V S ws b = Inr (clear_batch (b\<lparr>bi_store := s'\<rparr>)) \<and> wf s'
    \<and> index_holds S docs (amap s') (merged (postings b) P)"
  using flush_holds[OF assms] by (auto simp: flushBatch_def)

end

end
