(* ===== verification/BatchThreads.thy ===== *)
theory BatchThreads
  imports BatchIndex
begin

text \<open>
  The two threads of \<open>src/src/InvertedIndexSimpleBatch.hpp\<close>: the caller, which adds documents,
  flushes and shuts down, and the batch processor.  They share the index, a mutex and a condition
  variable; a flush reads the store and writes it back later, which the processor does without the
  mutex.
\<close>

section \<open>States\<close>

text \<open>
  Where the batch processor is: at the head of its loop, waiting for the mutex, at the test of
  \<open>dataReady\<close> with the mutex, in \<open>cond.wait\<close>, woken up and waiting for the mutex, behind the inner
  loop with the mutex, with its copy of the batch, with the writes of its flush, or gone.
\<close>

datatype proc_pc =
  PTop
| PAcquire
| PCheck
| PBlocked
| PNotified
| PReady
| PCopied "u32 \<rightharpoonup> u32 list"
| PWriting "u32 \<rightharpoonup> u32 list" "(u32 \<times> bytes) list"
| PExited

text \<open>The caller: outside, in \<open>flushBatch\<close> with the mutex, or in \<open>shutDownBatchProcessor\<close>.\<close>

datatype main_pc =
  MIdle
| MFlushing "(u32 \<times> bytes) list"
| MShutReady
| MShutDone
| MJoining

record 's bsystem =
  idx :: "'s batch_index"
  proc :: proc_pc
  main :: main_pc

definition start_system :: "'s \<Rightarrow> 's bsystem" where
  "start_system s = \<lparr>idx = new_batch_index s, proc = PTop, main = MIdle\<rparr>"

definition lock_free :: "'s bsystem \<Rightarrow> bool" where
  "lock_free x \<longleftrightarrow> proc x \<noteq> PCheck \<and> proc x \<noteq> PReady \<and> (\<forall>ws. main x \<noteq> MFlushing ws)"

definition notify_one :: "'s bsystem \<Rightarrow> 's bsystem" where
  "notify_one x = (if proc x = PBlocked then x\<lparr>proc := PNotified\<rparr> else x)"

lemma notify_one_awake: "proc x \<noteq> PBlocked \<Longrightarrow> notify_one x = x"
  by (simp add: notify_one_def)

section \<open>Steps\<close>

text \<open>Steps are labelled with the document they add, if any.\<close>

datatype blabel = Internal | Added u32 "u32 list"

inductive bstep ::
    "'s kv_vtable \<Rightarrow> 'p set_vtable \<Rightarrow> 's bsystem \<Rightarrow> blabel \<Rightarrow> 's bsystem \<Rightarrow> bool"
  for V :: "'s kv_vtable" and S :: "'p set_vtable" where
  proc_enter: "proc x = PTop \<Longrightarrow> \<not> bi_done (idx x) \<Longrightarrow> bstep V S x Internal (x\<lparr>proc := PAcquire\<rparr>)"
| proc_exit: "proc x = PTop \<Longrightarrow> bi_done (idx x) \<Longrightarrow> bstep V S x Internal (x\<lparr>proc := PExited\<rparr>)"
| proc_lock: "proc x = PAcquire \<Longrightarrow> lock_free x \<Longrightarrow> bstep V S x Internal (x\<lparr>proc := PCheck\<rparr>)"
| proc_wait: "proc x = PCheck \<Longrightarrow> \<not> dataReady (idx x) \<Longrightarrow> bstep V S x Internal (x\<lparr>proc := PBlocked\<rparr>)"
| proc_wake: "proc x = PBlocked \<Longrightarrow> bstep V S x Internal (x\<lparr>proc := PNotified\<rparr>)"
| proc_relock: "proc x = PNotified \<Longrightarrow> lock_free x \<Longrightarrow> bstep V S x Internal (x\<lparr>proc := PCheck\<rparr>)"
| proc_ready: "proc x = PCheck \<Longrightarrow> dataReady (idx x) \<Longrightarrow> bstep V S x Internal (x\<lparr>proc := PReady\<rparr>)"
| proc_copy: "proc x = PReady \<Longrightarrow> \<not> bi_done (idx x) \<Longrightarrow>
    bstep V S x Internal (x\<lparr>proc := PCopied (postings (idx x)), idx := (clear_batch (idx x))\<lparr>dataReady := False\<rparr>\<rparr>)"
| proc_done: "proc x = PReady \<Longrightarrow> bi_done (idx x) \<Longrightarrow> bstep V S x Internal (x\<lparr>proc := PTop\<rparr>)"
| proc_read: "proc x = PCopied batch \<Longrightarrow> iteration batch ws \<Longrightarrow>
    flush_writes V S (bi_store (idx x)) batch ws = Inr writes \<Longrightarrow>
    bstep V S x Internal (x\<lparr>proc := PWriting batch writes\<rparr>)"
| proc_write: "proc x = PWriting batch writes \<Longrightarrow>
    kv_PutMany32 V writes (bi_store (idx x)) = Inr (st, s') \<Longrightarrow>
    bstep V S x Internal (x\<lparr>proc := PTop, idx := (idx x)\<lparr>bi_store := s'\<rparr>\<rparr>)"
| main_setMax: "main x = MIdle \<Longrightarrow> bstep V S x Internal (x\<lparr>idx := setMaxBatchSize n (idx x)\<rparr>)"
| main_add: "main x = MIdle \<Longrightarrow> lock_free x \<Longrightarrow>
    iteration (postings (foldl (add_posting d) (idx x) words)) ws \<Longrightarrow>
    batch_add_words V S ws d words (idx x) = Inr b \<Longrightarrow>
    y = x\<lparr>idx := b\<rparr> \<Longrightarrow>
    z = (if dataReady b \<and> batchSize b \<ge> maxBatchSize b \<and> \<not> bi_done b then notify_one y else y) \<Longrightarrow>
    bstep V S x (Added d words) z"
| main_flush: "main x = MIdle \<Longrightarrow> lock_free x \<Longrightarrow> iteration (postings (idx x)) ws \<Longrightarrow>
    flush_writes V S (bi_store (idx x)) (postings (idx x)) ws = Inr writes \<Longrightarrow>
    bstep V S x Internal (x\<lparr>main := MFlushing writes\<rparr>)"
| main_flushed: "main x = MFlushing writes \<Longrightarrow>
    kv_PutMany32 V writes (bi_store (idx x)) = Inr (st, s') \<Longrightarrow>
    bstep V S x Internal (x\<lparr>main := MIdle, idx := clear_batch ((idx x)\<lparr>bi_store := s'\<rparr>)\<rparr>)"
| main_shut: "main x = MIdle \<Longrightarrow> \<not> bi_done (idx x) \<Longrightarrow>
    bstep V S x Internal (x\<lparr>main := MShutReady, idx := (idx x)\<lparr>dataReady := True\<rparr>\<rparr>)"
| main_done: "main x = MShutReady \<Longrightarrow>
    bstep V S x Internal (x\<lparr>main := MShutDone, idx := (idx x)\<lparr>bi_done := True\<rparr>\<rparr>)"
| main_notify: "main x = MShutDone \<Longrightarrow> bstep V S x Internal (notify_one (x\<lparr>main := MJoining\<rparr>))"
| main_join: "main x = MJoining \<Longrightarrow> proc x = PExited \<Longrightarrow> bstep V S x Internal (x\<lparr>main := MIdle\<rparr>)"

inductive_cases bstepE: "bstep V S x l y"

text \<open>
  The states that can follow a state, with the documents added on the way for every word, in the
  order of the additions.
\<close>

inductive blog ::
    "'s kv_vtable \<Rightarrow> 'p set_vtable \<Rightarrow> 's bsystem \<Rightarrow> (u32 \<Rightarrow> u32 list) \<Rightarrow> 's bsystem \<Rightarrow> bool"
  for V S x where
  here: "blog V S x (\<lambda>_. []) x"
| onward: "blog V S x A y \<Longrightarrow> bstep V S y Internal z \<Longrightarrow> blog V S x A z"
| added: "blog V S x A y \<Longrightarrow> bstep V S y (Added d words) z \<Longrightarrow>
    blog V S x (\<lambda>w. if w \<in> set words then A w @ [d] else A w) z"

section \<open>Shutting down can hang\<close>

text \<open>
  The caller sets \<open>dataReady\<close>, then \<open>done\<close>, then notifies, all without the mutex.  If the processor
  takes a batch in between, it clears \<open>dataReady\<close> again and waits for it for ever.
\<close>

definition hung :: "'s bsystem \<Rightarrow> bool" where
  "hung x \<longleftrightarrow> main x = MJoining \<and> \<not> dataReady (idx x) \<and> proc x \<in> {PBlocked, PNotified, PCheck}"

lemma hung_step: "bstep V S x l y \<Longrightarrow> hung x \<Longrightarrow> hung y"
  by (erule bstepE) (auto simp: hung_def notify_one_def)

lemma hung_reach: "blog V S x A y \<Longrightarrow> hung x \<Longrightarrow> hung y"
  by (induction rule: blog.induct) (auto dest: hung_step)

context kv_store
begin

lemma shutdown_reaches_hung:
  assumes "wf s"
  shows "\<exists>x. blog V S (start_system s) (\<lambda>_. []) x \<and> hung x"
proof -
  obtain s' where s': "kv_PutMany32 V [] s = Inr (kOk, s')" using PutMany32[OF assms, of "[]"] by auto
  let ?b = "new_batch_index s"
  let ?r = "?b\<lparr>dataReady := True\<rparr>"
  let ?c = "(clear_batch ?r)\<lparr>dataReady := False\<rparr>"
  let ?d = "?c\<lparr>bi_store := s'\<rparr>"
  let ?at = "\<lambda>b p m. \<lparr>idx = b, proc = p, main = m\<rparr>"
  have "blog V S (start_system s) (\<lambda>_. []) (?at ?b PTop MIdle)"
    by (simp add: start_system_def blog.here)
  then have "blog V S (start_system s) (\<lambda>_. []) (?at ?b PAcquire MIdle)"
    by (rule blog.onward) (use bstep.proc_enter[of "?at ?b PTop MIdle" V S] in \<open>simp add: new_batch_index_def\<close>)
  then have "blog V S (start_system s) (\<lambda>_. []) (?at ?b PCheck MIdle)"
    by (rule blog.onward) (use bstep.proc_lock[of "?at ?b PAcquire MIdle" V S] in \<open>simp add: lock_free_def\<close>)
  then have "blog V S (start_system s) (\<lambda>_. []) (?at ?r PCheck MShutReady)"
    by (rule blog.onward) (use bstep.main_shut[of "?at ?b PCheck MIdle" V S] in \<open>simp add: new_batch_index_def\<close>)
  then have "blog V S (start_system s) (\<lambda>_. []) (?at ?r PReady MShutReady)"
    by (rule blog.onward) (use bstep.proc_ready[of "?at ?r PCheck MShutReady" V S] in simp)
  then have "blog V S (start_system s) (\<lambda>_. []) (?at ?c (PCopied (\<lambda>_. None)) MShutReady)"
    by (rule blog.onward) (use bstep.proc_copy[of "?at ?r PReady MShutReady" V S] in \<open>simp add: new_batch_index_def\<close>)
  then have "blog V S (start_system s) (\<lambda>_. []) (?at ?c (PWriting (\<lambda>_. None) []) MShutReady)"
    by (rule blog.onward)
      (use bstep.proc_read[of "?at ?c (PCopied (\<lambda>_. None)) MShutReady" "\<lambda>_. None" "[]" V S "[]"] in \<open>simp add: iteration_def\<close>)
  then have "blog V S (start_system s) (\<lambda>_. []) (?at ?d PTop MShutReady)"
    by (rule blog.onward)
      (use bstep.proc_write[of "?at ?c (PWriting (\<lambda>_. None) []) MShutReady" "\<lambda>_. None" "[]" V kOk s' S] s'
        in \<open>simp add: new_batch_index_def clear_batch_def\<close>)
  then have "blog V S (start_system s) (\<lambda>_. []) (?at ?d PAcquire MShutReady)"
    by (rule blog.onward) (use bstep.proc_enter[of "?at ?d PTop MShutReady" V S] in \<open>simp add: new_batch_index_def clear_batch_def\<close>)
  then have "blog V S (start_system s) (\<lambda>_. []) (?at ?d PCheck MShutReady)"
    by (rule blog.onward) (use bstep.proc_lock[of "?at ?d PAcquire MShutReady" V S] in \<open>simp add: lock_free_def\<close>)
  then have "blog V S (start_system s) (\<lambda>_. []) (?at (?d\<lparr>bi_done := True\<rparr>) PCheck MShutDone)"
    by (rule blog.onward) (use bstep.main_done[of "?at ?d PCheck MShutReady" V S] in simp)
  then have "blog V S (start_system s) (\<lambda>_. []) (?at (?d\<lparr>bi_done := True\<rparr>) PCheck MJoining)"
    by (rule blog.onward) (use bstep.main_notify[of "?at (?d\<lparr>bi_done := True\<rparr>) PCheck MShutDone" V S] in \<open>simp add: notify_one_def\<close>)
  moreover have "hung (?at (?d\<lparr>bi_done := True\<rparr>) PCheck MJoining)" by (simp add: hung_def)
  ultimately show ?thesis by blast
qed

end

section \<open>No addition is lost\<close>

text \<open>The batch the processor has taken and not yet written.\<close>

definition inflight :: "'s bsystem \<Rightarrow> (u32 \<rightharpoonup> u32 list)" where
  "inflight x = (case proc x of PCopied b \<Rightarrow> b | PWriting b writes \<Rightarrow> b | _ \<Rightarrow> (\<lambda>_. None))"

definition processing :: "'s bsystem \<Rightarrow> bool" where
  "processing x \<longleftrightarrow> (case proc x of PCopied b \<Rightarrow> True | PWriting b writes \<Rightarrow> True | _ \<Rightarrow> False)"

lemma not_processing: "\<not> processing x \<Longrightarrow> inflight x = (\<lambda>_. None)"
  by (simp add: processing_def inflight_def split: proc_pc.splits)

text \<open>\<open>flushBatch\<close> does not begin while the processor is between taking a batch and writing it.\<close>

definition flush_alone :: "'s bsystem \<Rightarrow> 's bsystem \<Rightarrow> bool" where
  "flush_alone x y \<longleftrightarrow> ((\<exists>writes. main y = MFlushing writes) \<longrightarrow> main x = MIdle \<longrightarrow> \<not> processing x)"

text \<open>
  The runs from a state on, with the documents added so far for every word.  Documents come in
  increasing order, as the engine numbers them.
\<close>

inductive brun ::
    "'s kv_vtable \<Rightarrow> 'p set_vtable \<Rightarrow> 's bsystem \<Rightarrow> (u32 \<Rightarrow> u32 list) \<Rightarrow> 's bsystem \<Rightarrow> bool"
  for V S x where
  begin_run: "brun V S x (\<lambda>_. []) x"
| internal: "brun V S x A y \<Longrightarrow> bstep V S y Internal z \<Longrightarrow> flush_alone y z \<Longrightarrow> brun V S x A z"
| adding: "brun V S x A y \<Longrightarrow> bstep V S y (Added d words) z \<Longrightarrow> distinct words \<Longrightarrow>
    \<forall>w. doc_list (A w @ [d]) \<and> length (A w) + 1 < 2 ^ 31 \<Longrightarrow>
    brun V S x (\<lambda>w. if w \<in> set words then A w @ [d] else A w) z"

text \<open>The writes of a flush of \<open>batch\<close> on top of \<open>P\<close>.\<close>

definition flush_result ::
    "'p set_vtable \<Rightarrow> ('p \<Rightarrow> u32 list \<Rightarrow> bool) \<Rightarrow> (u32 \<rightharpoonup> u32 list) \<Rightarrow> (u32 \<rightharpoonup> u32 list) \<Rightarrow> (u32 \<times> bytes) list \<Rightarrow> bool" where
  "flush_result S docs batch P writes \<longleftrightarrow> fst ` set writes = dom batch
     \<and> (\<forall>(w, bm)\<in>set writes. \<exists>p. sv_read S bm (createSparseSet S) = Inr p
          \<and> docs p (merge_docs (docs_of batch w) (docs_of P w)))"

definition batch_inv ::
    "('s \<Rightarrow> (bytes \<rightharpoonup> bytes)) \<Rightarrow> ('s \<Rightarrow> bool) \<Rightarrow> 'p set_vtable \<Rightarrow> ('p \<Rightarrow> u32 list \<Rightarrow> bool) \<Rightarrow> (u32 \<Rightarrow> u32 list)
      \<Rightarrow> (u32 \<rightharpoonup> u32 list) \<Rightarrow> 's bsystem \<Rightarrow> bool" where
  "batch_inv amap good S docs A P x \<longleftrightarrow>
     good (bi_store (idx x)) \<and> index_holds S docs (amap (bi_store (idx x))) P
   \<and> (\<forall>w. docs_of P w @ docs_of (inflight x) w @ docs_of (postings (idx x)) w = A w)
   \<and> (\<forall>w. doc_list (A w) \<and> length (A w) < 2 ^ 31)
   \<and> (\<forall>batch writes. proc x = PWriting batch writes \<longrightarrow> flush_result S docs batch P writes)
   \<and> (\<forall>writes. main x = MFlushing writes \<longrightarrow>
        proc x \<noteq> PCheck \<and> proc x \<noteq> PReady \<and> \<not> processing x
        \<and> flush_result S docs (postings (idx x)) P writes)
   \<and> (bi_done (idx x) \<and> main x \<noteq> MShutDone \<and> main x \<noteq> MJoining \<longrightarrow> proc x = PExited)"

lemma docs_of_empty [simp]: "docs_of (\<lambda>_. None) w = []"
  by (simp add: docs_of_def)

lemma merge_docs_append: "doc_list (xs @ ds @ es) \<Longrightarrow> merge_docs ds xs = xs @ ds"
  unfolding merge_docs_def by (rule arg_cong[of _ _ "(@) xs"]) (rule filter_True, auto simp: doc_list_def sorted_wrt_append)

lemma doc_list_distinct: "doc_list xs \<Longrightarrow> distinct xs"
  by (simp add: doc_list_def strict_sorted_iff)

lemma append_fits:
  assumes "\<And>w. docs_of P w @ docs_of batch w @ rest w = A w" and "\<And>w. doc_list (A w) \<and> length (A w) < 2 ^ 31"
  shows "batch_fits batch P" and "docs_of (merged batch P) w = docs_of P w @ docs_of batch w"
proof -
  have d: "doc_list (docs_of P w @ docs_of batch w @ rest w)" "length (docs_of P w @ docs_of batch w @ rest w) < 2 ^ 31" for w
    unfolding assms(1) using assms(2) by auto
  have m: "merge_docs (docs_of batch w) (docs_of P w) = docs_of P w @ docs_of batch w" for w
    by (rule merge_docs_append[OF d(1)])
  have l: "doc_list (docs_of P w @ docs_of batch w)" for w
    using doc_list_appendD(1)[of "docs_of P w @ docs_of batch w" "rest w"] d(1)[of w] by simp
  show "batch_fits batch P"
    unfolding batch_fits_def
  proof (intro allI impI)
    fix w ds assume "batch w = Some ds"
    then have ds: "ds = docs_of batch w" by (simp add: docs_of_def)
    show "distinct ds \<and> doc_list (merge_docs ds (docs_of P w)) \<and> length (docs_of P w) + length ds < 2 ^ 31"
      unfolding ds m using l[of w] d(2)[of w] doc_list_distinct[OF l[of w]] by simp
  qed
  show "docs_of (merged batch P) w = docs_of P w @ docs_of batch w"
    by (simp add: docs_of_merged m)
qed

text \<open>What adding a document does to the batch.\<close>

lemma add_posting_simps [simp]:
  "bi_store (add_posting d b w) = bi_store b" "maxBatchSize (add_posting d b w) = maxBatchSize b"
  "bi_done (add_posting d b w) = bi_done b" "dataReady (add_posting d b w) = dataReady b"
  by (simp_all add: add_posting_def Let_def split: option.split)

lemma insort_insert_last: "doc_list (ds @ [d]) \<Longrightarrow> insort_insert d ds = ds @ [d]"
  by (auto simp: doc_list_def sorted_wrt_append insort_insert_key_def strict_sorted_imp_sorted less_imp_le
      intro!: sorted_insort_is_snoc)

lemma add_posting_docs:
  "doc_list (docs_of (postings b) w @ [d]) \<Longrightarrow>
    docs_of (postings (add_posting d b w)) v = (if v = w then docs_of (postings b) w @ [d] else docs_of (postings b) v)"
  by (auto simp: add_posting_def docs_of_def Let_def insort_insert_last split: option.splits)

lemma add_postings:
  assumes "distinct words" and "\<forall>w. doc_list (docs_of (postings b) w @ [d])"
  shows "docs_of (postings (foldl (add_posting d) b words)) w
      = (if w \<in> set words then docs_of (postings b) w @ [d] else docs_of (postings b) w)"
    and "bi_store (foldl (add_posting d) b words) = bi_store b"
    and "bi_done (foldl (add_posting d) b words) = bi_done b"
proof -
  show "bi_store (foldl (add_posting d) b words) = bi_store b" "bi_done (foldl (add_posting d) b words) = bi_done b"
    by (induction words arbitrary: b) simp_all
  show "docs_of (postings (foldl (add_posting d) b words)) w
      = (if w \<in> set words then docs_of (postings b) w @ [d] else docs_of (postings b) w)"
    using assms(1)
  proof (induction words arbitrary: w rule: rev_induct)
    case (snoc v words)
    then show ?case using assms(2) add_posting_docs[of "foldl (add_posting d) b words" v d w] by auto
  qed simp
qed

context inverted_index
begin

lemma flush_result_read:
  assumes "index_holds S docs (amap s) P" and "wf s" and "batch_fits batch P" and "iteration batch ws"
    and "flush_writes V S s batch ws = Inr writes"
  shows "flush_result S docs batch P writes"
proof -
  from flush_writes_docs[OF assms(1-3), of ws] assms(4,5) have
    "map fst writes = ws" "\<forall>(w, bm)\<in>set writes. \<exists>p. sv_read S bm (createSparseSet S) = Inr p
        \<and> docs p (merge_docs (docs_of batch w) (docs_of P w))"
    by (auto simp: iteration_def)
  with assms(4) show ?thesis
    by (simp add: flush_result_def iteration_def flip: set_map)
qed

lemma flush_result_write:
  assumes "index_holds S docs (amap s) P" and "wf s" and "flush_result S docs batch P writes"
    and "kv_PutMany32 V writes s = Inr (st, s')"
  shows "index_holds S docs (amap s') (merged batch P) \<and> wf s'"
proof -
  from PutMany32[OF assms(2), of writes] assms(4) have
    s': "amap s' = put_all (map (\<lambda>(n, v). (int_key n, v)) writes) (amap s)" "wf s'" by auto
  have "(\<lambda>w. if w \<in> fst ` set writes then Some (merge_docs (docs_of batch w) (docs_of P w)) else P w) = merged batch P"
    using assms(3) by (intro ext) (auto simp: merged_def docs_of_def flush_result_def dom_def split: option.splits)
  with writes_hold[OF assms(1), of writes "\<lambda>w. merge_docs (docs_of batch w) (docs_of P w)"] assms(3) s'
  show ?thesis by (simp add: flush_result_def)
qed

lemma internal_step_inv:
  assumes "bstep V S x Internal y" and "flush_alone x y" and "batch_inv amap wf S docs A P x"
  shows "\<exists>P'. batch_inv amap wf S docs A P' y"
proof -
  note inv = assms(3)[unfolded batch_inv_def]
  show ?thesis
    using assms(1)
  proof cases
    case proc_copy
    with assms(3) have "batch_inv amap wf S docs A P y"
      by (auto simp: batch_inv_def inflight_def clear_batch_def lock_free_def processing_def)
    then show ?thesis by blast
  next
    case (proc_read batch ws writes)
    then have "inflight x = batch" by (simp add: inflight_def)
    with inv append_fits(1)[of P batch "docs_of (postings (idx x))" A] have "batch_fits batch P" by auto
    from flush_result_read[OF _ _ this proc_read(3,4)] inv have "flush_result S docs batch P writes" by auto
    with proc_read inv have "batch_inv amap wf S docs A P y" by (auto simp: batch_inv_def inflight_def processing_def)
    then show ?thesis by blast
  next
    case (proc_write batch writes st s')
    then have fl: "inflight x = batch" by (simp add: inflight_def)
    have r: "docs_of (merged batch P) w = docs_of P w @ docs_of batch w" for w
      using inv append_fits(2)[of P batch "docs_of (postings (idx x))" A] unfolding fl by auto
    from flush_result_write[OF _ _ _ proc_write(3), of P batch] inv proc_write(2)
    have "index_holds S docs (amap s') (merged batch P) \<and> wf s'" by auto
    with proc_write inv r have "batch_inv amap wf S docs A (merged batch P) y" by (auto simp: batch_inv_def inflight_def processing_def)
    then show ?thesis by blast
  next
    case (main_flush ws writes)
    have np: "\<not> processing x" using assms(2) main_flush by (auto simp: flush_alone_def)
    note fl = not_processing[OF np]
    with inv append_fits(1)[of P "postings (idx x)" "\<lambda>_. []" A] have "batch_fits (postings (idx x)) P" by auto
    from flush_result_read[OF _ _ this main_flush(4,5)] inv have "flush_result S docs (postings (idx x)) P writes" by auto
    with main_flush inv fl np have "batch_inv amap wf S docs A P y"
      by (auto simp: batch_inv_def inflight_def lock_free_def processing_def)
    then show ?thesis by blast
  next
    case (main_flushed writes st s')
    let ?batch = "postings (idx x)"
    have fl: "inflight x = (\<lambda>_. None)" "flush_result S docs ?batch P writes" using inv main_flushed not_processing by auto
    have r: "docs_of (merged ?batch P) w = docs_of P w @ docs_of ?batch w" for w
      using inv append_fits(2)[of P ?batch "\<lambda>_. []" A] unfolding fl(1) by auto
    from flush_result_write[OF _ _ fl(2) main_flushed(3)] inv
    have "index_holds S docs (amap s') (merged ?batch P) \<and> wf s'" by auto
    with main_flushed inv r fl have "batch_inv amap wf S docs A (merged ?batch P) y"
      by (auto simp: batch_inv_def inflight_def clear_batch_def processing_def)
    then show ?thesis by blast
  qed (use assms(3) in \<open>auto simp: batch_inv_def inflight_def notify_one_def setMaxBatchSize_def lock_free_def processing_def\<close>)
qed

lemma adding_step_inv:
  assumes "bstep V S x (Added d words) z" and "distinct words" and "batch_inv amap wf S docs A P x"
    and "\<forall>w. doc_list (A w @ [d]) \<and> length (A w) + 1 < 2 ^ 31"
  shows "\<exists>P'. batch_inv amap wf S docs (\<lambda>w. if w \<in> set words then A w @ [d] else A w) P' z"
proof -
  let ?A = "\<lambda>w. if w \<in> set words then A w @ [d] else A w"
  let ?b = "foldl (add_posting d) (idx x) words"
  note inv = assms(3)[unfolded batch_inv_def]
  from assms(1) obtain ws b y where step: "main x = MIdle" "lock_free x" "iteration (postings ?b) ws"
      "batch_add_words V S ws d words (idx x) = Inr b" "y = x\<lparr>idx := b\<rparr>"
      "z = (if dataReady b \<and> batchSize b \<ge> maxBatchSize b \<and> \<not> bi_done b then notify_one y else y)"
    by cases
  have up: "\<forall>w. doc_list (docs_of (postings (idx x)) w @ [d])"
  proof
    fix w
    have "A w @ [d] = (docs_of P w @ docs_of (inflight x) w) @ docs_of (postings (idx x)) w @ [d]" using inv by (metis append_assoc)
    then show "doc_list (docs_of (postings (idx x)) w @ [d])" using assms(4) doc_list_appendD(2) by metis
  qed
  note add = add_postings[OF assms(2) up]
  have A: "docs_of P w @ docs_of (inflight x) w @ docs_of (postings ?b) w = ?A w" "doc_list (?A w) \<and> length (?A w) < 2 ^ 31" for w
    using inv assms(4) by (auto simp: add)
  have frame: "proc z = proc x \<or> proc x = PBlocked \<and> proc z = PNotified" "main z = MIdle" "idx z = b"
    using step by (auto simp: notify_one_def)
  then have fl: "inflight z = inflight x" "processing z = processing x" by (auto simp: inflight_def processing_def)
  show ?thesis
  proof (cases "batchSize ?b \<ge> maxBatchSize ?b \<and> bi_done ?b")
    case False
    then have "b = ?b \<or> b = ?b\<lparr>dataReady := True\<rparr>"
      using step(4) by (auto simp: batch_add_words_def full_batch_def split: if_splits)
    then have "postings b = postings ?b" "bi_store b = bi_store (idx x)" "bi_done b = bi_done (idx x)" by (auto simp: add)
    then have "batch_inv amap wf S docs ?A P z"
      using inv A frame step(1) unfolding batch_inv_def fl by auto
    then show ?thesis by blast
  next
    case True
    then have gone: "proc x = PExited" using inv step(1) by (auto simp: add)
    then have fl0: "inflight x = (\<lambda>_. None)" by (simp add: inflight_def)
    have "batch_fits (postings ?b) P" "docs_of (merged (postings ?b) P) w = docs_of P w @ docs_of (postings ?b) w" for w
      using append_fits[of P "postings ?b" "\<lambda>_. []" ?A] A unfolding fl0 by auto
    note m = this
    have "index_holds S docs (amap (bi_store ?b)) P" "wf (bi_store ?b)" using inv by (auto simp: add)
    from flushBatch_holds[OF this m(1) step(3)] obtain s' where
      s': "flushBatch V S ws ?b = Inr (clear_batch (?b\<lparr>bi_store := s'\<rparr>))" "wf s'"
        "index_holds S docs (amap s') (merged (postings ?b) P)" by blast
    then have b: "b = clear_batch (?b\<lparr>bi_store := s'\<rparr>)"
      using step(4) True by (simp add: batch_add_words_def full_batch_def)
    then have z: "z = y" "proc z = PExited" using step(5,6) True gone by (auto simp: clear_batch_def)
    have "batch_inv amap wf S docs ?A (merged (postings ?b) P) z"
      using s' m(2) A frame z(2) unfolding batch_inv_def fl fl0 by (simp add: b clear_batch_def)
    then show ?thesis by blast
  qed
qed

theorem run_inv:
  assumes "brun V S (start_system s) A x" and "wf s" and "index_holds S docs (amap s) (\<lambda>_. None)"
  shows "\<exists>P. batch_inv amap wf S docs A P x"
  using assms(1)
proof induction
  case begin_run
  have "batch_inv amap wf S docs (\<lambda>_. []) (\<lambda>_. None) (start_system s)"
    using assms(2,3) by (simp add: batch_inv_def start_system_def new_batch_index_def inflight_def)
  then show ?case by blast
next
  case (internal A y z)
  then show ?case using internal_step_inv by blast
next
  case (adding A y d words z)
  then show ?case using adding_step_inv by blast
qed

text \<open>
  Without that care one is lost: the processor has read the store, \<open>flushBatch\<close> adds a document to
  the same word, and the processor writes back what it had read.
\<close>

lemma flush_race:
  assumes "wf s" and "index_holds S docs (amap s) (\<lambda>_. None)"
  shows "\<exists>x. blog V S (start_system s) (\<lambda>w. if w = 1 then [1, 2] else []) x
    \<and> main x = MIdle \<and> proc x = PTop \<and> postings (idx x) = (\<lambda>_. None)
    \<and> index_holds S docs (amap (bi_store (idx x))) [1 \<mapsto> [1]]"
proof -
  let ?at = "\<lambda>b p m. \<lparr>idx = b, proc = p, main = m\<rparr>"
  let ?log = "\<lambda>A x. blog V S (start_system s) A x"
  have it: "iteration [1 \<mapsto> ds] [1]" for ds :: "u32 list" by (simp add: iteration_def)
  have fits: "batch_fits [1 \<mapsto> [d]] (\<lambda>_. None)" if "d = 1 \<or> d = 2" for d :: u32
    using that by (auto simp: batch_fits_def doc_list_def NO_MORE_DOCS_def split: if_splits)
  have writes: "\<exists>w. flush_writes V S s [1 \<mapsto> [d]] [1] = Inr w \<and> flush_result S docs [1 \<mapsto> [d]] (\<lambda>_. None) w"
    if "d = 1 \<or> d = 2" for d :: u32
    using flush_writes_docs[OF assms(2,1) fits[OF that], of "[1]"]
      flush_result_read[OF assms(2,1) fits[OF that] it] by auto
  from writes[of 1] obtain w1 where w1: "flush_writes V S s [1 \<mapsto> [1]] [1] = Inr w1" "flush_result S docs [1 \<mapsto> [1]] (\<lambda>_. None) w1" by auto
  from writes[of 2] obtain w2 where w2: "flush_writes V S s [1 \<mapsto> [2]] [1] = Inr w2" "flush_result S docs [1 \<mapsto> [2]] (\<lambda>_. None) w2" by auto
  from PutMany32[OF assms(1), of w2] obtain s2 where s2: "kv_PutMany32 V w2 s = Inr (kOk, s2)" by auto
  have "merged [1 \<mapsto> [2]] (\<lambda>_. None) = [1 \<mapsto> [2 :: u32]]" by (intro ext) (simp add: merged_def docs_of_def)
  with flush_result_write[OF assms(2,1) w2(2) s2] have h2: "index_holds S docs (amap s2) [1 \<mapsto> [2]]" "wf s2"
    by simp_all
  from PutMany32[OF h2(2), of w1] obtain s3 where s3: "kv_PutMany32 V w1 s2 = Inr (kOk, s3)"
      "amap s3 = put_all (map (\<lambda>(n, v). (int_key n, v)) w1) (amap s2)" by auto
  have "index_holds S docs (amap s3) (\<lambda>w. if w \<in> fst ` set w1 then Some [1] else [1 \<mapsto> [2]] w)"
    unfolding s3(2) using w1(2) by (intro writes_hold[OF h2(1)]) (force simp: flush_result_def docs_of_def split: if_splits)
  moreover have "(\<lambda>w. if w \<in> fst ` set w1 then Some [1] else [1 \<mapsto> [2]] w) = [1 \<mapsto> [1 :: u32]]"
    using w1(2) by (intro ext) (simp add: flush_result_def)
  ultimately have h3: "index_holds S docs (amap s3) [1 \<mapsto> [1]]" by simp
  let ?b0 = "setMaxBatchSize 1 (new_batch_index s)"
  let ?b1 = "?b0\<lparr>batchSize := 1, postings := [1 \<mapsto> [1]], dataReady := True\<rparr>"
  let ?b2 = "(clear_batch ?b1)\<lparr>dataReady := False\<rparr>"
  let ?b3 = "?b2\<lparr>batchSize := 1, postings := [1 \<mapsto> [2]], dataReady := True\<rparr>"
  let ?b4 = "clear_batch (?b3\<lparr>bi_store := s2\<rparr>)"
  let ?b5 = "?b4\<lparr>bi_store := s3\<rparr>"
  let ?A1 = "\<lambda>w :: u32. if w = 1 then [1 :: u32] else []"
  let ?A2 = "\<lambda>w :: u32. if w = 1 then [1 :: u32, 2] else []"
  note b_defs = new_batch_index_def setMaxBatchSize_def clear_batch_def
  have "?log (\<lambda>_. []) (?at ?b0 PTop MIdle)"
    by (rule blog.onward[OF blog.here])
      (use bstep.main_setMax[of "start_system s" V S 1] in \<open>simp add: start_system_def\<close>)
  then have "?log (\<lambda>w. if w \<in> set [1] then (\<lambda>_. []) w @ [1] else (\<lambda>_. []) w) (?at ?b1 PTop MIdle)"
  proof (rule blog.added)
    show "bstep V S (?at ?b0 PTop MIdle) (Added 1 [1]) (?at ?b1 PTop MIdle)"
      by (rule bstep.main_add[where ws = "[1]" and b = ?b1 and y = "?at ?b1 PTop MIdle"])
        (simp_all add: lock_free_def b_defs add_posting_def batch_add_words_def full_batch_def notify_one_awake iteration_def)
  qed
  then have "?log ?A1 (?at ?b1 PTop MIdle)" by (simp cong: if_cong)
  then have "?log ?A1 (?at ?b1 PAcquire MIdle)"
    by (rule blog.onward) (use bstep.proc_enter[of "?at ?b1 PTop MIdle" V S] in \<open>simp add: b_defs\<close>)
  then have "?log ?A1 (?at ?b1 PCheck MIdle)"
    by (rule blog.onward) (use bstep.proc_lock[of "?at ?b1 PAcquire MIdle" V S] in \<open>simp add: lock_free_def\<close>)
  then have "?log ?A1 (?at ?b1 PReady MIdle)"
    by (rule blog.onward) (use bstep.proc_ready[of "?at ?b1 PCheck MIdle" V S] in simp)
  then have "?log ?A1 (?at ?b2 (PCopied [1 \<mapsto> [1]]) MIdle)"
    by (rule blog.onward) (use bstep.proc_copy[of "?at ?b1 PReady MIdle" V S] in \<open>simp add: b_defs\<close>)
  then have "?log ?A1 (?at ?b2 (PWriting [1 \<mapsto> [1]] w1) MIdle)"
    by (rule blog.onward)
      (use bstep.proc_read[of "?at ?b2 (PCopied [1 \<mapsto> [1]]) MIdle" "[1 \<mapsto> [1]]" "[1]" V S w1] it w1(1) in \<open>simp add: b_defs\<close>)
  then have "?log (\<lambda>w. if w \<in> set [1] then ?A1 w @ [2] else ?A1 w) (?at ?b3 (PWriting [1 \<mapsto> [1]] w1) MIdle)"
  proof (rule blog.added)
    show "bstep V S (?at ?b2 (PWriting [1 \<mapsto> [1]] w1) MIdle) (Added 2 [1]) (?at ?b3 (PWriting [1 \<mapsto> [1]] w1) MIdle)"
      by (rule bstep.main_add[where ws = "[1]" and b = ?b3 and y = "?at ?b3 (PWriting [1 \<mapsto> [1]] w1) MIdle"])
        (simp_all add: lock_free_def b_defs add_posting_def batch_add_words_def full_batch_def notify_one_awake iteration_def)
  qed
  moreover have "(\<lambda>w. if w \<in> set [1] then ?A1 w @ [2] else ?A1 w) = ?A2" by (intro ext) simp
  ultimately have "?log ?A2 (?at ?b3 (PWriting [1 \<mapsto> [1]] w1) MIdle)" by (simp only:)
  then have "?log ?A2 (?at ?b3 (PWriting [1 \<mapsto> [1]] w1) (MFlushing w2))"
    by (rule blog.onward)
      (use bstep.main_flush[of "?at ?b3 (PWriting [1 \<mapsto> [1]] w1) MIdle" "[1]" V S w2] it w2(1) in \<open>simp add: b_defs lock_free_def\<close>)
  then have "?log ?A2 (?at ?b4 (PWriting [1 \<mapsto> [1]] w1) MIdle)"
    by (rule blog.onward)
      (use bstep.main_flushed[of "?at ?b3 (PWriting [1 \<mapsto> [1]] w1) (MFlushing w2)" w2 V kOk s2 S] s2 in \<open>simp add: b_defs\<close>)
  then have "?log ?A2 (?at ?b5 PTop MIdle)"
    by (rule blog.onward)
      (use bstep.proc_write[of "?at ?b4 (PWriting [1 \<mapsto> [1]] w1) MIdle" "[1 \<mapsto> [1]]" w1 V kOk s3 S] s3(1) in \<open>simp add: b_defs\<close>)
  with h3 show ?thesis by (intro exI[of _ "?at ?b5 PTop MIdle"]) (simp add: b_defs)
qed

end

end
