(* ===== verification/SparseSet.thy ===== *)
theory SparseSet
  imports Prelude
begin

text \<open>
  The sparse set of \<open>src/src/SparseSet.hpp\<close>: two arrays that point at each other, with constant-time
  insertion, removal and clearing.
\<close>

section \<open>State and operations\<close>

record sparse_set =
  ss_n :: u32
  currentSize :: nat
  dense :: "u32 list"
  sparse :: "u32 list"

definition new_sparse_set :: "nat \<Rightarrow> sparse_set" where
  "new_sparse_set initialsize =
     \<lparr>ss_n = 0, currentSize = initialsize, dense = replicate initialsize 0, sparse = replicate initialsize 0\<rparr>"

definition ss_size :: "sparse_set \<Rightarrow> nat" where
  "ss_size s = unat (ss_n s)"

definition ss_empty :: "sparse_set \<Rightarrow> bool" where
  "ss_empty s \<longleftrightarrow> ss_n s = 0"

definition ss_peek :: "sparse_set \<Rightarrow> u32 res" where
  "ss_peek s = vec_at (dense s) (uint (ss_n s - 1))"

definition growBuffers :: "nat \<Rightarrow> sparse_set \<Rightarrow> sparse_set" where
  "growBuffers minSize s =
     (let newLength = max (currentSize s) minSize * 2 in
      s\<lparr>currentSize := newLength, sparse := vec_resize newLength (sparse s), dense := vec_resize newLength (dense s)\<rparr>)"

definition ismember :: "u32 \<Rightarrow> sparse_set \<Rightarrow> bool res" where
  "ismember i s =
     (if unat i \<ge> currentSize s then Inr False
      else rbind (vec_at (sparse s) (uint i)) (\<lambda>v.
        if v < ss_n s then rbind (vec_at (dense s) (uint v)) (\<lambda>d. Inr (d = i)) else Inr False))"

definition insert_new :: "u32 \<Rightarrow> sparse_set \<Rightarrow> sparse_set res" where
  "insert_new i s =
     (let s1 = (if unat i \<ge> length (sparse s) then growBuffers (unat i) s else s) in
      rbind (vec_set (dense s1) (uint (ss_n s1)) i) (\<lambda>dense'.
      rbind (vec_set (sparse s1) (uint i) (ss_n s1)) (\<lambda>sparse'.
        Inr (s1\<lparr>dense := dense', sparse := sparse', ss_n := ss_n s1 + 1\<rparr>))))"

definition ss_insert :: "u32 \<Rightarrow> sparse_set \<Rightarrow> sparse_set res" where
  "ss_insert i s = rbind (ismember i s) (\<lambda>m. if \<not> m then insert_new i s else Inr s)"

definition ss_remove :: "u32 \<Rightarrow> sparse_set \<Rightarrow> sparse_set res" where
  "ss_remove i s =
     rbind (ismember i s) (\<lambda>m.
       if \<not> m then Inr s
       else
         rbind (vec_at (dense s) (uint (ss_n s - 1))) (\<lambda>j.
         rbind (vec_at (sparse s) (uint i)) (\<lambda>p.
         rbind (vec_set (dense s) (uint p) j) (\<lambda>dense'.
         rbind (vec_set (sparse s) (uint j) p) (\<lambda>sparse'.
           Inr (s\<lparr>dense := dense', sparse := sparse', ss_n := ss_n s - 1\<rparr>))))))"

definition ss_clear :: "sparse_set \<Rightarrow> sparse_set" where
  "ss_clear s = s\<lparr>ss_n := 0\<rparr>"

text \<open>The elements from \<open>begin()\<close> to \<open>end()\<close>.\<close>

definition ss_elems :: "sparse_set \<Rightarrow> u32 list" where
  "ss_elems s = take (unat (ss_n s)) (dense s)"

section \<open>Invariant\<close>

text \<open>
  Both arrays have the recorded size, and every element in use points back at its place; then the
  elements are distinct and fit into the arrays.
\<close>

definition ss_ok :: "sparse_set \<Rightarrow> bool" where
  "ss_ok s \<longleftrightarrow> length (dense s) = currentSize s \<and> length (sparse s) = currentSize s
     \<and> 0 < currentSize s \<and> unat (ss_n s) \<le> currentSize s
     \<and> (\<forall>k < unat (ss_n s). unat (dense s ! k) < currentSize s \<and> unat (sparse s ! unat (dense s ! k)) = k)"

lemma ss_ok_new: "0 < n \<Longrightarrow> ss_ok (new_sparse_set n)"
  by (simp add: ss_ok_def new_sparse_set_def)

lemma ss_elems_new: "ss_elems (new_sparse_set n) = []"
  by (simp add: ss_elems_def new_sparse_set_def)

lemma ss_clear_ok: "ss_ok s \<Longrightarrow> ss_ok (ss_clear s) \<and> ss_elems (ss_clear s) = []"
  by (simp add: ss_ok_def ss_clear_def ss_elems_def)

lemma length_ss_elems: "ss_ok s \<Longrightarrow> length (ss_elems s) = unat (ss_n s)"
  by (simp add: ss_ok_def ss_elems_def)

lemma ss_elems_distinct: "ss_ok s \<Longrightarrow> distinct (ss_elems s)"
  by (auto simp: ss_ok_def ss_elems_def distinct_conv_nth) metis

lemma ismember_elems:
  assumes "ss_ok s"
  shows "ismember i s = Inr (i \<in> set (ss_elems s))"
proof (cases "unat i < currentSize s")
  case False
  then show ?thesis using assms
    by (auto simp: ismember_def ss_ok_def ss_elems_def in_set_conv_nth)
next
  case True
  let ?v = "sparse s ! unat i"
  have "i \<in> set (ss_elems s) \<longleftrightarrow> ?v < ss_n s \<and> dense s ! unat ?v = i"
    using assms by (auto simp: ss_ok_def ss_elems_def in_set_conv_nth word_less_nat_alt)
  moreover have "?v < ss_n s \<Longrightarrow> unat ?v < length (dense s)"
    using assms by (simp add: ss_ok_def word_less_nat_alt)
  ultimately show ?thesis
    using True assms by (auto simp: ismember_def ss_ok_def)
qed

text \<open>A set that uses the whole of its arrays holds every number below their size.\<close>

lemma ss_full:
  assumes "ss_ok s" and "unat (ss_n s) = currentSize s" and "unat i < currentSize s"
  shows "i \<in> set (ss_elems s)"
proof -
  have "unat ` set (ss_elems s) \<subseteq> {..<currentSize s}"
    using assms(1) by (auto simp: ss_ok_def ss_elems_def in_set_conv_nth)
  moreover have "card (unat ` set (ss_elems s)) = currentSize s"
    using ss_elems_distinct[OF assms(1)] length_ss_elems[OF assms(1)] assms(2)
    by (simp add: card_image inj_on_def word_unat_eq_iff distinct_card)
  ultimately have "unat ` set (ss_elems s) = {..<currentSize s}"
    by (intro card_subset_eq) auto
  with assms(3) obtain x where "x \<in> set (ss_elems s)" "unat x = unat i" by (metis imageE lessThan_iff)
  then show ?thesis using word_unat_eq_iff[of x i] by simp
qed

lemma vec_resize_keeps: "k < length xs \<Longrightarrow> length xs \<le> n \<Longrightarrow> vec_resize n xs ! k = xs ! k"
  by (simp add: vec_resize_def nth_append)

lemma growBuffers_ok:
  assumes "ss_ok s"
  shows "ss_ok (growBuffers m s)" and "ss_elems (growBuffers m s) = ss_elems s"
    and "m < currentSize (growBuffers m s)" and "ss_n (growBuffers m s) = ss_n s"
    and "currentSize s < currentSize (growBuffers m s)"
proof -
  have len: "currentSize s \<le> max (currentSize s) m * 2" "0 < currentSize s" using assms by (auto simp: ss_ok_def)
  with assms show "ss_ok (growBuffers m s)"
    by (auto simp: ss_ok_def growBuffers_def vec_resize_keeps Let_def)
  show "ss_elems (growBuffers m s) = ss_elems s"
    using assms len by (auto simp: ss_elems_def growBuffers_def vec_resize_def ss_ok_def Let_def)
qed (use assms in \<open>auto simp: growBuffers_def ss_ok_def Let_def\<close>)

lemma insert_new_at:
  assumes "ss_ok s" and "i \<notin> set (ss_elems s)" and "unat i < currentSize s" and "unat (ss_n s) < currentSize s"
    and "unat (ss_n s) + 1 < 2 ^ 32"
  shows "ss_ok (s\<lparr>dense := (dense s)[unat (ss_n s) := i], sparse := (sparse s)[unat i := ss_n s], ss_n := ss_n s + 1\<rparr>)"
    and "ss_elems (s\<lparr>dense := (dense s)[unat (ss_n s) := i], sparse := (sparse s)[unat i := ss_n s], ss_n := ss_n s + 1\<rparr>)
      = ss_elems s @ [i]"
proof -
  have n: "unat (ss_n s + 1) = Suc (unat (ss_n s))" using assms(5) by (simp add: unat_word_ariths)
  have other: "unat (dense s ! k) \<noteq> unat i" if "k < unat (ss_n s)" for k
    using assms(1,2) that by (auto simp: ss_elems_def ss_ok_def in_set_conv_nth simp flip: word_unat_eq_iff)
  show "ss_ok (s\<lparr>dense := (dense s)[unat (ss_n s) := i], sparse := (sparse s)[unat i := ss_n s], ss_n := ss_n s + 1\<rparr>)"
    using assms by (auto simp: ss_ok_def n less_Suc_eq nth_list_update dest: other)
  show "ss_elems (s\<lparr>dense := (dense s)[unat (ss_n s) := i], sparse := (sparse s)[unat i := ss_n s], ss_n := ss_n s + 1\<rparr>)
      = ss_elems s @ [i]"
    using assms(1,4) by (simp add: ss_elems_def ss_ok_def n take_Suc_conv_app_nth)
qed

lemma ss_insert_elems:
  assumes "ss_ok s" and "length (ss_elems s) + 1 < 2 ^ 32"
  shows "\<exists>s'. ss_insert i s = Inr s' \<and> ss_ok s'
    \<and> ss_elems s' = (if i \<in> set (ss_elems s) then ss_elems s else ss_elems s @ [i])"
proof (cases "i \<in> set (ss_elems s)")
  case True
  then show ?thesis using assms(1) by (simp add: ss_insert_def ismember_elems)
next
  case False
  define s1 where "s1 = (if unat i \<ge> length (sparse s) then growBuffers (unat i) s else s)"
  have n: "unat (ss_n s) + 1 < 2 ^ 32" using assms length_ss_elems by simp
  have s1: "ss_ok s1" "ss_elems s1 = ss_elems s" "unat i < currentSize s1" "ss_n s1 = ss_n s"
    using assms(1) growBuffers_ok[OF assms(1)] by (auto simp: s1_def ss_ok_def)
  have "unat (ss_n s1) < currentSize s1"
    using ss_full[OF s1(1) _ s1(3)] False s1(1,2) by (metis le_neq_implies_less ss_ok_def)
  with insert_new_at[of s1 i] s1 False n show ?thesis
    using assms(1) unfolding ss_insert_def insert_new_def s1_def[symmetric]
    by (simp add: ismember_elems ss_ok_def[of s1])
qed

text \<open>Removal puts the last element in the place of the one that goes.\<close>

lemma ss_remove_elems:
  assumes "ss_ok s"
  shows "\<exists>s'. ss_remove i s = Inr s' \<and> ss_ok s' \<and> set (ss_elems s') = set (ss_elems s) - {i}"
proof (cases "i \<in> set (ss_elems s)")
  case False
  then show ?thesis using assms by (simp add: ss_remove_def ismember_elems)
next
  case True
  let ?n = "unat (ss_n s)"
  let ?p = "unat (sparse s ! unat i)"
  let ?j = "dense s ! (?n - 1)"
  let ?s' = "s\<lparr>dense := (dense s)[?p := ?j], sparse := (sparse s)[unat ?j := sparse s ! unat i], ss_n := ss_n s - 1\<rparr>"
  note ok = assms[unfolded ss_ok_def]
  from True obtain k where k: "k < ?n" "dense s ! k = i" using ok by (auto simp: ss_elems_def in_set_conv_nth)
  then have p: "?p = k" "unat i < currentSize s" using ok by auto
  have n: "unat (ss_n s - 1) = ?n - 1" using k by (simp add: unat_sub word_le_nat_alt)
  have inj: "a = b" if "dense s ! a = dense s ! b" "a < ?n" "b < ?n" for a b using ok that by metis
  have bounds: "?n - 1 < length (dense s)" "unat ?j < length (sparse s)" "?p < length (dense s)"
    using ok k p by auto
  have "ss_remove i s = Inr ?s'"
    using True assms p ok bounds by (simp add: ss_remove_def ismember_elems n)
  moreover have place: "dense ?s' ! m = (if m = k then ?j else dense s ! m)" if "m < ?n - 1" for m
    using that bounds(3) p by (simp add: nth_list_update)
  have "unat (dense ?s' ! m) < currentSize s \<and> unat (sparse ?s' ! unat (dense ?s' ! m)) = m" if m: "m < ?n - 1" for m
  proof (cases "m = k")
    case True
    then show ?thesis using place[OF m] bounds ok p by simp
  next
    case False
    have "dense s ! m \<noteq> ?j" using inj[of m "?n - 1"] m by auto
    then have "unat ?j \<noteq> unat (dense s ! m)" by (simp flip: word_unat_eq_iff)
    then show ?thesis using place[OF m] False ok m by simp
  qed
  with ok n bounds(1) have "ss_ok ?s'" by (simp add: ss_ok_def)
  moreover have "set (ss_elems ?s') = set (ss_elems s) - {i}"
  proof (intro set_eqI iffI)
    fix x assume "x \<in> set (ss_elems ?s')"
    then obtain m where m: "m < ?n - 1" "dense ?s' ! m = x" using ok n by (auto simp: ss_elems_def in_set_conv_nth)
    have "x \<noteq> i \<and> (\<exists>m'. m' < ?n \<and> x = dense s ! m')"
    proof (cases "m = k")
      case True
      then have "?j \<noteq> i" using inj[of "?n - 1" k] m(1) k by auto
      moreover have "?n - 1 < ?n" using m(1) by simp
      ultimately show ?thesis using place[OF m(1)] m True by (intro conjI exI[of _ "?n - 1"]) auto
    next
      case False
      moreover have "m < ?n" using m(1) by simp
      moreover have "x = dense s ! m" using place[OF m(1)] m(2) False by metis
      ultimately show ?thesis using inj[of m k] k by auto
    qed
    then show "x \<in> set (ss_elems s) - {i}" using ok by (auto simp: ss_elems_def in_set_conv_nth)
  next
    fix x assume x: "x \<in> set (ss_elems s) - {i}"
    then obtain m where m: "m < ?n" "dense s ! m = x" using ok by (auto simp: ss_elems_def in_set_conv_nth)
    have "m \<noteq> k" using x m k by auto
    have "\<exists>m'. m' < ?n - 1 \<and> dense ?s' ! m' = x"
    proof (cases "m = ?n - 1")
      case True
      then have "k < ?n - 1" using k(1) \<open>m \<noteq> k\<close> by simp
      with place[OF this] m True show ?thesis by auto
    next
      case False
      then have "m < ?n - 1" using m(1) by simp
      with place[OF this] m \<open>m \<noteq> k\<close> show ?thesis by auto
    qed
    then obtain m' where "m' < ?n - 1" "dense ?s' ! m' = x" by blast
    then show "x \<in> set (ss_elems ?s')" using ok n bounds(1)
      unfolding ss_elems_def in_set_conv_nth by (intro exI[of _ m']) simp
  qed
  ultimately show ?thesis by blast
qed

end
