(* ===== verification/Tokenizer.thy ===== *)
theory Tokenizer
  imports Prelude
begin

text \<open>
  The tokenizer of \<open>src/src/TokenizerImpl.hpp\<close>, which cuts a string into words one call at a time.
\<close>

section \<open>State and operations\<close>

record tokenizer =
  m_string :: bytes
  stringsize :: nat
  m_offset :: nat
  m_token :: bytes

text \<open>\<open>std::isalnum\<close> in the "C" locale.\<close>

definition isalnum :: "nat \<Rightarrow> bool" where
  "isalnum i \<longleftrightarrow> 48 \<le> i \<and> i \<le> 57 \<or> 65 \<le> i \<and> i \<le> 90 \<or> 97 \<le> i \<and> i \<le> 122"

definition char_table :: "bool list" where
  "char_table = map isalnum [0..<256]"

definition setString :: "bytes \<Rightarrow> tokenizer \<Rightarrow> tokenizer" where
  "setString str t = t\<lparr>m_string := str, stringsize := length str, m_token := [], m_offset := 0\<rparr>"

text \<open>The loop of \<open>nextToken\<close>: from the offset on, with the token so far and its size.\<close>

function next_loop :: "tokenizer \<Rightarrow> nat \<Rightarrow> (bool \<times> tokenizer) res" where
  "next_loop t tokensize =
     (if m_offset t = stringsize t then Inr (tokensize > 2, t)
      else if m_offset t < length (m_string t) then
        let c = m_string t ! m_offset t OR 0x20;
            t1 = t\<lparr>m_offset := m_offset t + 1\<rparr> in
        if char_table ! unat c then next_loop (t1\<lparr>m_token := m_token t1 @ [c]\<rparr>) (tokensize + 1)
        else if tokensize > 2 then Inr (True, t1)
        else next_loop (t1\<lparr>m_token := []\<rparr>) tokensize
      else Inl OutOfBounds)"
  by pat_completeness auto
termination by (relation "measure (\<lambda>(t, n). length (m_string t) - m_offset t)") auto

declare next_loop.simps [simp del]

definition nextToken :: "tokenizer \<Rightarrow> (bool \<times> tokenizer) res" where
  "nextToken t = next_loop (t\<lparr>m_token := []\<rparr>) 0"

definition getToken :: "tokenizer \<Rightarrow> bytes" where
  "getToken t = m_token t"

text \<open>
  \<open>while (tokenizer.nextToken()) body(tokenizer.getToken())\<close>, the loop of every caller; it ends
  because a call that finds a token moves the offset.
\<close>

lemma next_loop_string:
  "next_loop t n = Inr (b, t') \<Longrightarrow> m_string t' = m_string t \<and> stringsize t' = stringsize t
     \<and> m_offset t \<le> m_offset t' \<and> m_offset t' \<le> max (m_offset t) (length (m_string t))
     \<and> (b \<longrightarrow> n > 2 \<or> m_offset t < m_offset t')"
proof (induction t n rule: next_loop.induct)
  case (1 t n)
  note IH = 1(1)[OF _ _ refl refl] 1(2)[OF _ _ refl refl]
  from 1(3) IH show ?case
    by (simp add: next_loop.simps[of t n] Let_def split: if_splits) auto
qed

lemma nextToken_string:
  "nextToken t = Inr (b, t') \<Longrightarrow> m_string t' = m_string t \<and> stringsize t' = stringsize t
     \<and> m_offset t \<le> m_offset t' \<and> m_offset t' \<le> max (m_offset t) (length (m_string t))
     \<and> (b \<longrightarrow> m_offset t < m_offset t')"
  using next_loop_string[of "t\<lparr>m_token := []\<rparr>" 0 b t'] by (auto simp: nextToken_def)

function for_tokens :: "(bytes \<Rightarrow> 'a \<Rightarrow> 'a res) \<Rightarrow> tokenizer \<Rightarrow> 'a \<Rightarrow> ('a \<times> tokenizer) res" where
  "for_tokens body t a =
     (case nextToken t of
        Inl e \<Rightarrow> Inl e
      | Inr (more_tokens, t') \<Rightarrow>
          if more_tokens then
            (case body (getToken t') a of Inl e \<Rightarrow> Inl e | Inr a' \<Rightarrow> for_tokens body t' a')
          else Inr (a, t'))"
  by pat_completeness auto
termination
proof (relation "measure (\<lambda>(f, t, a). length (m_string t) - m_offset t)", goal_cases)
  case (2 body t a y b t' a')
  then show ?case using nextToken_string[of t True t'] by (auto simp: max_def split: if_splits)
qed simp

declare for_tokens.simps [simp del]

section \<open>Words\<close>

text \<open>
  The words of a string: the runs of characters that are letters or digits once their sixth bit is
  set, with that bit set.
\<close>

definition folded :: "u8 \<Rightarrow> u8" where
  "folded c = c OR 0x20"

definition word_char :: "u8 \<Rightarrow> bool" where
  "word_char c \<longleftrightarrow> isalnum (unat c)"

function words_of :: "bytes \<Rightarrow> bytes list" where
  "words_of cs = takeWhile word_char cs #
     (case dropWhile word_char cs of [] \<Rightarrow> [] | _ # r \<Rightarrow> words_of r)"
  by pat_completeness auto
termination
proof (relation "measure length", goal_cases)
  case (2 cs c r)
  then show ?case using length_dropWhile_le[of word_char cs] by simp
qed simp

declare words_of.simps [simp del]

text \<open>
  The tokens among the words.  A word is one if, together with the words passed over since the last
  token, it has more than two characters: the counter of \<open>nextToken\<close> is not reset at a short word.
\<close>

fun tokens_from :: "nat \<Rightarrow> bytes list \<Rightarrow> bytes list" where
  "tokens_from n [] = []"
| "tokens_from n (w # ws) =
     (if n + length w > 2 then w # tokens_from 0 ws else tokens_from (n + length w) ws)"

definition tokens :: "bytes \<Rightarrow> bytes list" where
  "tokens str = tokens_from 0 (words_of (map folded str))"

section \<open>The tokenizer delivers the tokens\<close>

definition tok_ok :: "tokenizer \<Rightarrow> bool" where
  "tok_ok t \<longleftrightarrow> stringsize t = length (m_string t) \<and> m_offset t \<le> length (m_string t)"

definition tok_rest :: "tokenizer \<Rightarrow> bytes" where
  "tok_rest t = map folded (drop (m_offset t) (m_string t))"

lemma char_table_word: "char_table ! unat c = word_char c"
proof -
  have "unat c < 256" by (rule order_less_le_trans[OF unsigned_less]) simp
  then show ?thesis by (simp add: char_table_def word_char_def)
qed

lemma words_of_simps [simp]:
  "words_of [] = [[]]"
  "word_char c \<Longrightarrow> words_of (c # cs) = (c # hd (words_of cs)) # tl (words_of cs)"
  "\<not> word_char c \<Longrightarrow> words_of (c # cs) = [] # words_of cs"
  by (simp_all add: words_of.simps[of "[]"] words_of.simps[of "c # cs"] words_of.simps[of cs])

lemma words_of_Cons: "words_of cs = hd (words_of cs) # tl (words_of cs)"
  by (subst (1) words_of.simps, simp add: words_of.simps[of cs])

text \<open>The tokens from a word on whose first characters, counted in \<open>n\<close>, are already in \<open>acc\<close>.\<close>

definition tokens_after :: "nat \<Rightarrow> bytes \<Rightarrow> bytes \<Rightarrow> bytes list" where
  "tokens_after n acc cs =
     (if n + length (hd (words_of cs)) > 2 then (acc @ hd (words_of cs)) # tokens_from 0 (tl (words_of cs))
      else tokens_from (n + length (hd (words_of cs))) (tl (words_of cs)))"

lemma tokens_after_start: "tokens_after n [] cs = tokens_from n (words_of cs)"
  using words_of_Cons[of cs] tokens_from.simps(2)[of n "hd (words_of cs)" "tl (words_of cs)"]
  by (simp add: tokens_after_def)

lemma tokens_after_simps [simp]:
  "tokens_after n acc [] = (if n > 2 then [acc] else [])"
  "word_char c \<Longrightarrow> tokens_after n acc (c # cs) = tokens_after (n + 1) (acc @ [c]) cs"
  "\<not> word_char c \<Longrightarrow> tokens_after n acc (c # cs)
     = (if n > 2 then acc # tokens_after 0 [] cs else tokens_after n [] cs)"
  by (simp_all add: tokens_after_start) (simp_all add: tokens_after_def)

definition pulls :: "bytes list \<Rightarrow> (bool \<times> tokenizer) res \<Rightarrow> bool" where
  "pulls tks r =
     (case tks of
        [] \<Rightarrow> \<exists>t'. r = Inr (False, t')
      | tk # rest \<Rightarrow> \<exists>t'. r = Inr (True, t') \<and> m_token t' = tk \<and> tok_ok t'
          \<and> tokens_after 0 [] (tok_rest t') = rest)"

lemma next_loop_pulls:
  "tok_ok t \<Longrightarrow> pulls (tokens_after n (m_token t) (tok_rest t)) (next_loop t n)"
proof (induction t n rule: next_loop.induct)
  case (1 t n)
  show ?case
  proof (cases "m_offset t = stringsize t")
    case True
    then show ?thesis using 1(3) by (simp add: next_loop.simps[of t n] pulls_def tok_ok_def tok_rest_def)
  next
    case False
    define c where "c = m_string t ! m_offset t OR 0x20"
    define t1 where "t1 = t\<lparr>m_offset := m_offset t + 1\<rparr>"
    have lt: "m_offset t < length (m_string t)" using False 1(3) by (simp add: tok_ok_def)
    then have rest: "tok_rest t = c # tok_rest t1"
      by (simp add: tok_rest_def t1_def c_def folded_def Cons_nth_drop_Suc[symmetric])
    have ok: "tok_ok (t1\<lparr>m_token := x\<rparr>)" "tok_rest (t1\<lparr>m_token := x\<rparr>) = tok_rest t1" for x
      using 1(3) lt by (simp_all add: tok_ok_def t1_def tok_rest_def)
    note IH = 1(1)[OF False lt c_def t1_def _ ok(1)] 1(2)[OF False lt c_def t1_def _ _ ok(1)]
    have step: "next_loop t n = (if word_char c then next_loop (t1\<lparr>m_token := m_token t1 @ [c]\<rparr>) (n + 1)
        else if n > 2 then Inr (True, t1) else next_loop (t1\<lparr>m_token := []\<rparr>) n)"
      using False lt by (simp add: next_loop.simps[of t n] char_table_word Let_def c_def t1_def)
    have ok1: "tok_ok t1" "m_token t1 = m_token t" using 1(3) lt by (simp_all add: tok_ok_def t1_def)
    show ?thesis
      using IH ok1 unfolding step rest ok(2)
      by (cases "word_char c"; cases "n > 2") (simp_all add: char_table_word pulls_def)
  qed
qed

lemma nextToken_pulls: "tok_ok t \<Longrightarrow> pulls (tokens_after 0 [] (tok_rest t)) (nextToken t)"
  using next_loop_pulls[of "t\<lparr>m_token := []\<rparr>" 0] by (simp add: nextToken_def tok_ok_def tok_rest_def)

lemma for_tokens_after:
  "tok_ok t \<Longrightarrow> \<exists>t'. for_tokens body t a
     = rbind (fold_res (\<lambda>a w. body w a) a (tokens_after 0 [] (tok_rest t))) (\<lambda>a'. Inr (a', t'))"
proof (induction body t a rule: for_tokens.induct)
  case (1 body t a)
  note p = nextToken_pulls[OF 1(2)]
  show ?case
  proof (cases "tokens_after 0 [] (tok_rest t)")
    case Nil
    then show ?thesis using p by (auto simp: pulls_def for_tokens.simps[of body t a])
  next
    case (Cons tk rest)
    with p obtain t1 where t1: "nextToken t = Inr (True, t1)" "m_token t1 = tk" "tok_ok t1"
        "tokens_after 0 [] (tok_rest t1) = rest"
      by (auto simp: pulls_def)
    show ?thesis
    proof (cases "body tk a")
      case (Inl e)
      then show ?thesis using t1 Cons by (simp add: for_tokens.simps[of body t a] getToken_def)
    next
      case (Inr a')
      with 1(1)[OF t1(1) refl, of a'] t1 Cons show ?thesis
        by (simp add: for_tokens.simps[of body t a] getToken_def)
    qed
  qed
qed

lemma for_tokens_string:
  "\<exists>t'. for_tokens body (setString str t) a = rbind (fold_res (\<lambda>a w. body w a) a (tokens str)) (\<lambda>a'. Inr (a', t'))"
  using for_tokens_after[of "setString str t" body a]
  by (simp add: tok_ok_def tok_rest_def setString_def tokens_def tokens_after_start)

end
