(* ===== verification/CompressedSetIterator.thy ===== *)
theory CompressedSetIterator
  imports CompressedSetSearch
begin

text \<open>
  \<open>CompressedSet::Iterator\<close> and the operations of \<open>CompressedSet\<close> that walk over a set with it.
  The iterator implements the contract \<open>doc_iterator\<close>, for \<open>Advance\<close> by binary search over the
  block bases and inside the blocks.
\<close>

section \<open>State\<close>

record cs_iterator =
  lastAccessedDocId :: u32
  cursor :: int
  it_totalDocIdNum :: int
  compBlockNum :: int
  iterDecompBlock :: "u32 list"
  parent :: compressed_set

definition cs_iter :: "compressed_set \<Rightarrow> cs_iterator" where
  "cs_iter parentSet =
     \<lparr>lastAccessedDocId = - 1, cursor = - 1, it_totalDocIdNum = sint (totalDocIdNum parentSet),
      compBlockNum = int (store_size (sequenceOfCompBlocks parentSet)),
      iterDecompBlock = replicate DEFAULT_BATCH_SIZE 0, parent = parentSet\<rparr>"

definition cs_docID :: "cs_iterator \<Rightarrow> u32" where
  "cs_docID it = lastAccessedDocId it"

definition getBlockIndex :: "int \<Rightarrow> int" where
  "getBlockIndex docIdIndex = drop_bit BLOCK_INDEX_SHIFT_BITS docIdIndex"

section \<open>nextDoc\<close>

definition cs_nextDoc :: "cs_iterator \<Rightarrow> (u32 \<times> cs_iterator) res" where
  "cs_nextDoc it0 =
     (let it = it0\<lparr>cursor := cursor it0 + 1\<rparr> in
      if cursor it = it_totalDocIdNum it then Inr (NO_MORE_DOCS, it\<lparr>lastAccessedDocId := NO_MORE_DOCS\<rparr>)
      else
        let iterBlockIndex = drop_bit BLOCK_INDEX_SHIFT_BITS (cursor it);
            offset = cursor it AND BLOCK_SIZE_MODULO in
        if iterBlockIndex = compBlockNum it then
          rbind (vec_at (currentNoCompBlock (parent it)) offset)
            (\<lambda>d. Inr (d, it\<lparr>lastAccessedDocId := d\<rparr>))
        else if offset \<noteq> 0 then
          rbind (vec_at (iterDecompBlock it) offset) (\<lambda>d. Inr (d, it\<lparr>lastAccessedDocId := d\<rparr>))
        else
          rbind (uncompress_block (sequenceOfCompBlocks (parent it)) iterBlockIndex (iterDecompBlock it))
            (\<lambda>(n, blk). rbind (vec_at blk 0)
              (\<lambda>d. Inr (d, it\<lparr>iterDecompBlock := blk, lastAccessedDocId := d\<rparr>))))"

section \<open>Advance\<close>

text \<open>
  \<open>advanceToTargetInTheFollowingCompBlocks\<close> returns the id as an \<open>int\<close>, which its caller turns
  back into the same \<open>unsigned int\<close>.
\<close>

definition advanceToTargetInTheFollowingCompBlocks ::
    "u32 \<Rightarrow> int \<Rightarrow> cs_iterator \<Rightarrow> (u32 \<times> cs_iterator) res" where
  "advanceToTargetInTheFollowingCompBlocks target startBlockIndex it =
     (let bases = baseListForOnlyCompBlocks (parent it) in
      rbind (binarySearchInBaseListForBlockThatMayContainTarget bases (nat startBlockIndex) (length bases - 1) target)
        (\<lambda>iterBlockIndex.
      if iterBlockIndex < 0 then Inl AssertFailed
      else
        let currentBlockIndex = drop_bit BLOCK_INDEX_SHIFT_BITS (cursor it);
            currentOffset = cursor it AND BLOCK_SIZE_MODULO in
        rbind (if currentBlockIndex \<noteq> iterBlockIndex \<or> currentOffset = 0
               then rbind (uncompress_block (sequenceOfCompBlocks (parent it)) iterBlockIndex (iterDecompBlock it))
                      (\<lambda>(n, blk). Inr blk)
               else Inr (iterDecompBlock it)) (\<lambda>blk.
        rbind (binarySearchForFirstElementEqualOrLargerThanTarget blk 0 (DEFAULT_BATCH_SIZE - 1) target)
          (\<lambda>offset.
        if offset < 0 then Inl AssertFailed
        else rbind (vec_at blk offset)
          (\<lambda>d. Inr (d, it\<lparr>iterDecompBlock := blk,
                         cursor := push_bit BLOCK_INDEX_SHIFT_BITS iterBlockIndex + offset\<rparr>))))))"

text \<open>The linear scan of a block that is already decompressed: the offset and the last id seen.\<close>

function scan_block :: "u32 list \<Rightarrow> nat \<Rightarrow> u32 \<Rightarrow> u32 \<Rightarrow> (nat \<times> u32) res" where
  "scan_block blk offset target lastId =
     (if offset < DEFAULT_BATCH_SIZE then
        rbind (vec_at blk (int offset))
          (\<lambda>v. if v \<ge> target then Inr (offset, v) else scan_block blk (offset + 1) target v)
      else Inr (offset, lastId))"
  by pat_completeness auto
termination by (relation "measure (\<lambda>(b, n, t, l). DEFAULT_BATCH_SIZE - n)") auto

declare scan_block.simps [simp del]

text \<open>
  \<open>Advance\<close> after it has moved the cursor and settled on the target: the uncompressed block,
  then the compressed ones.
\<close>

definition advance_to :: "u32 \<Rightarrow> cs_iterator \<Rightarrow> (u32 \<times> cs_iterator) res" where
  "advance_to target it =
     (let iterBlockIndex = drop_bit BLOCK_INDEX_SHIFT_BITS (cursor it);
          offset = cursor it AND BLOCK_SIZE_MODULO;
          sz = sizeOfCurrentNoCompBlock (parent it);
          bases = baseListForOnlyCompBlocks (parent it) in
      if sz > 0 \<and> (iterBlockIndex = compBlockNum it
           \<or> (length bases > 0 \<and> target > bases ! (length bases - 1)))
      then
        rbind (binarySearchForFirstElementEqualOrLargerThanTarget (currentNoCompBlock (parent it)) 0 (sz - 1) target)
          (\<lambda>off. if off \<ge> 0
             then rbind (vec_at (currentNoCompBlock (parent it)) off)
               (\<lambda>d. Inr (d, it\<lparr>lastAccessedDocId := d,
                              cursor := push_bit BLOCK_INDEX_SHIFT_BITS (compBlockNum it) + off\<rparr>))
             else Inr (NO_MORE_DOCS, it\<lparr>cursor := it_totalDocIdNum it, lastAccessedDocId := NO_MORE_DOCS\<rparr>))
      else if length bases > 0 \<and> target \<le> bases ! (length bases - 1) then
        if offset = 0 then
          rbind (advanceToTargetInTheFollowingCompBlocks target iterBlockIndex it)
            (\<lambda>(d, it'). Inr (d, it'\<lparr>lastAccessedDocId := d\<rparr>))
        else
          rbind (vec_at bases iterBlockIndex) (\<lambda>base.
          if target \<le> base then
            rbind (scan_block (iterDecompBlock it) (nat offset) target (lastAccessedDocId it)) (\<lambda>(off, d).
            if off = DEFAULT_BATCH_SIZE then Inl AssertFailed
            else Inr (d, it\<lparr>lastAccessedDocId := d,
                           cursor := push_bit BLOCK_INDEX_SHIFT_BITS iterBlockIndex + int off\<rparr>))
          else
            rbind (advanceToTargetInTheFollowingCompBlocks target iterBlockIndex it)
              (\<lambda>(d, it'). Inr (d, it'\<lparr>lastAccessedDocId := d\<rparr>)))
      else Inr (NO_MORE_DOCS, it\<lparr>lastAccessedDocId := NO_MORE_DOCS\<rparr>))"

definition cs_Advance :: "u32 \<Rightarrow> cs_iterator \<Rightarrow> (u32 \<times> cs_iterator) res" where
  "cs_Advance target it0 =
     (if cursor it0 = it_totalDocIdNum it0 \<or> it_totalDocIdNum it0 \<le> 0
      then Inr (NO_MORE_DOCS, it0\<lparr>lastAccessedDocId := NO_MORE_DOCS\<rparr>)
      else
        let it = it0\<lparr>cursor := cursor it0 + 1\<rparr> in
        if cursor it = it_totalDocIdNum it then Inr (NO_MORE_DOCS, it\<lparr>lastAccessedDocId := NO_MORE_DOCS\<rparr>)
        else advance_to (if cursor it \<noteq> 0 \<and> target \<le> lastAccessedDocId it
                         then lastAccessedDocId it + 1 else target) it)"

definition cs_vtable :: "cs_iterator iter_vtable" where
  "cs_vtable = \<lparr>vt_docID = cs_docID, vt_nextDoc = cs_nextDoc, vt_Advance = cs_Advance\<rparr>"

section \<open>Operations that walk over a set\<close>

text \<open>
  The loops pull from an iterator of the set, which ends after its documents; the fuel is one
  more than their number.
\<close>

fun cs_walk :: "nat \<Rightarrow> ('a \<Rightarrow> u32 \<Rightarrow> 'a res) \<Rightarrow> cs_iterator \<Rightarrow> 'a \<Rightarrow> 'a res option" where
  "cs_walk 0 f it acc = None"
| "cs_walk (Suc n) f it acc =
     (case cs_nextDoc it of
        Inl e \<Rightarrow> Some (Inl e)
      | Inr (d, it') \<Rightarrow>
          if d = NO_MORE_DOCS then Some (Inr acc)
          else (case f acc (cs_docID it') of Inl e \<Rightarrow> Some (Inl e) | Inr acc' \<Rightarrow> cs_walk n f it' acc'))"

definition cs_fuel :: "compressed_set \<Rightarrow> nat" where
  "cs_fuel s = unat (totalDocIdNum s) + 1"

definition cs_removeDoc :: "u32 \<Rightarrow> compressed_set \<Rightarrow> compressed_set res option" where
  "cs_removeDoc docId s =
     cs_walk (cs_fuel s) (\<lambda>t val. if val \<noteq> docId then cs_addDoc val t else Inr t)
       (cs_iter s) new_compressed_set"

definition unorderedAdd_step :: "u32 \<Rightarrow> bool \<times> compressed_set \<Rightarrow> u32 \<Rightarrow> (bool \<times> compressed_set) res" where
  "unorderedAdd_step docId st val =
     (case st of (inserted, t) \<Rightarrow>
       if val > docId \<and> \<not> inserted
       then rbind (cs_addDoc docId t) (\<lambda>t'. rbind (cs_addDoc val t') (\<lambda>t''. Inr (True, t'')))
       else rbind (cs_addDoc val t) (\<lambda>t'. Inr (inserted, t')))"

definition cs_unorderedAdd :: "u32 \<Rightarrow> compressed_set \<Rightarrow> compressed_set res option" where
  "cs_unorderedAdd docId s =
     map_option (\<lambda>r. rbind r (\<lambda>(inserted, t). if \<not> inserted then cs_addDoc docId t else Inr t))
       (cs_walk (cs_fuel s) (unorderedAdd_step docId) (cs_iter s) (False, new_compressed_set))"

definition cs_isDense :: "compressed_set \<Rightarrow> bool res option" where
  "cs_isDense s =
     (if totalDocIdNum s = 0 then Some (Inr False)
      else map_option (\<lambda>r. rbind r (\<lambda>(minval, maxval).
               Inr (sint ((maxval - minval) div totalDocIdNum s) > 8)))
             (cs_walk (cs_fuel s)
                (\<lambda>(minval, maxval) val.
                   Inr (if val < minval then val else minval, if val > maxval then val else maxval))
                (cs_iter s) (NO_MORE_DOCS, 0)))"

section \<open>The iterator implements its contract\<close>

text \<open>
  \<open>cs_pos it n blocks rest\<close>: the first \<open>n\<close> documents have been delivered; if the last one is
  in a compressed block, the buffer holds that block.
\<close>

definition cs_pos :: "cs_iterator \<Rightarrow> nat \<Rightarrow> u32 list list \<Rightarrow> u32 list \<Rightarrow> bool" where
  "cs_pos it n blocks rest \<longleftrightarrow>
     cs_blocks (parent it) blocks rest
   \<and> n \<le> length (concat blocks @ rest) \<and> cursor it = int n - 1
   \<and> it_totalDocIdNum it = int (length (concat blocks @ rest))
   \<and> compBlockNum it = int (length blocks)
   \<and> length (iterDecompBlock it) = DEFAULT_BATCH_SIZE
   \<and> (0 < n \<longrightarrow> lastAccessedDocId it = (concat blocks @ rest) ! (n - 1)
        \<and> ((n - 1) div DEFAULT_BATCH_SIZE < length blocks
             \<longrightarrow> iterDecompBlock it = blocks ! ((n - 1) div DEFAULT_BATCH_SIZE)))"

definition cs_at :: "cs_iterator \<Rightarrow> u32 list \<Rightarrow> bool" where
  "cs_at it xs \<longleftrightarrow> (\<exists>n blocks rest. cs_pos it n blocks rest \<and> xs = drop n (concat blocks @ rest))"

definition cs_ended :: "cs_iterator \<Rightarrow> bool" where
  "cs_ended it \<longleftrightarrow> cursor it = it_totalDocIdNum it \<or> it_totalDocIdNum it \<le> 0"

lemma cs_iter_pos:
  assumes "cs_blocks s blocks rest"
  shows "cs_pos (cs_iter s) 0 blocks rest"
  using assms cs_blocks_represents(2)[OF assms] sint_of_nat_u32[of "length (concat blocks @ rest)"]
  by (auto simp: cs_pos_def cs_iter_def store_size_def cs_blocks_def list_all2_lengthD simp del: of_nat_add)

lemma cs_iter_at: "cs_docs s xs \<Longrightarrow> cs_at (cs_iter s) xs"
  unfolding cs_docs_def cs_at_def using cs_iter_pos by fastforce

text \<open>Block index and offset of a position, as the shifts and masks compute them.\<close>

lemma block_index_int: "drop_bit BLOCK_INDEX_SHIFT_BITS (int n) = int (n div DEFAULT_BATCH_SIZE)"
  by (simp add: BLOCK_INDEX_SHIFT_BITS_def DEFAULT_BATCH_SIZE_def drop_bit_eq_div zdiv_int)

lemma block_offset_int: "int n AND BLOCK_SIZE_MODULO = int (n mod DEFAULT_BATCH_SIZE)"
proof -
  have "BLOCK_SIZE_MODULO = mask 11" by (simp add: BLOCK_SIZE_MODULO_def mask_eq_exp_minus_1)
  then have "int n AND BLOCK_SIZE_MODULO = take_bit 11 (int n)" by (simp add: take_bit_eq_mask)
  then show ?thesis by (simp add: take_bit_eq_mod DEFAULT_BATCH_SIZE_def zmod_int)
qed

lemma block_position: "push_bit BLOCK_INDEX_SHIFT_BITS (int b) + int j = int (DEFAULT_BATCH_SIZE * b + j)"
  by (simp add: BLOCK_INDEX_SHIFT_BITS_def DEFAULT_BATCH_SIZE_def push_bit_eq_mult)

lemma block_div: "j < DEFAULT_BATCH_SIZE \<Longrightarrow> (DEFAULT_BATCH_SIZE * b + j) div DEFAULT_BATCH_SIZE = b"
  by simp

lemma sub_block_index:
  "n mod DEFAULT_BATCH_SIZE \<noteq> 0 \<Longrightarrow> (n - 1) div DEFAULT_BATCH_SIZE = n div DEFAULT_BATCH_SIZE"
  by (metis Suc_pred' div_Suc gr0I mod_0 Suc_pred)

text \<open>Delivering the document at position \<open>n\<close>, when the buffer holds its block.\<close>

lemma cs_pos_deliver:
  assumes "cs_pos it k blocks rest" and "n < length (concat blocks @ rest)"
    and "d = (concat blocks @ rest) ! n" and "cursor it' = int n"
    and "parent it' = parent it" and "it_totalDocIdNum it' = it_totalDocIdNum it"
    and "compBlockNum it' = compBlockNum it" and "lastAccessedDocId it' = d"
    and "length (iterDecompBlock it') = DEFAULT_BATCH_SIZE"
    and "n div DEFAULT_BATCH_SIZE < length blocks \<longrightarrow> iterDecompBlock it' = blocks ! (n div DEFAULT_BATCH_SIZE)"
  shows "cs_pos it' (Suc n) blocks rest"
  using assms by (simp add: cs_pos_def)

lemma block_index_le:
  assumes "cs_blocks s blocks rest" and "n < length (concat blocks @ rest)"
  shows "n div DEFAULT_BATCH_SIZE \<le> length blocks"
proof (rule ccontr)
  let ?b = "n div DEFAULT_BATCH_SIZE"
  assume "\<not> ?b \<le> length blocks"
  then have "DEFAULT_BATCH_SIZE * (length blocks + 1) \<le> DEFAULT_BATCH_SIZE * ?b" by (intro mult_le_mono2) simp
  moreover have "DEFAULT_BATCH_SIZE * ?b \<le> n" by simp
  moreover have "length rest \<le> DEFAULT_BATCH_SIZE" using assms(1) by (simp add: cs_blocks_def)
  ultimately show False using assms(2) unfolding cs_blocks_facts(1)[OF assms(1)] by simp
qed

text \<open>The blocks before the one of position \<open>n\<close> are below a target beyond document \<open>n - 1\<close>.\<close>

lemma base_before:
  assumes "cs_blocks s blocks rest" and "n \<le> length (concat blocks @ rest)" and "0 < b"
    and "b \<le> length blocks" and "DEFAULT_BATCH_SIZE * b \<le> n" and "(concat blocks @ rest) ! (n - 1) < t"
  shows "map last blocks ! (b - 1) < t"
proof -
  note f = cs_blocks_facts[OF assms(1)]
  let ?l = "DEFAULT_BATCH_SIZE - 1"
  have l: "?l < DEFAULT_BATCH_SIZE" by (simp add: DEFAULT_BATCH_SIZE_def)
  have "DEFAULT_BATCH_SIZE * (b - 1) + ?l < DEFAULT_BATCH_SIZE * b"
    using assms(3) l by (cases b) simp_all
  from this assms(5) have "DEFAULT_BATCH_SIZE * (b - 1) + ?l < n" by (rule less_le_trans)
  from doc_list_below[OF f(5) this assms(2,6)] show ?thesis
    using f(2)[of "b - 1" ?l] f(4)[of "b - 1"] l assms(3,4) by simp
qed

lemma cs_nextDoc_pos:
  assumes "cs_pos it n blocks rest" and "n < length (concat blocks @ rest)"
  shows "\<exists>it'. cs_nextDoc it = Inr ((concat blocks @ rest) ! n, it')
    \<and> cs_pos it' (Suc n) blocks rest \<and> lastAccessedDocId it' = (concat blocks @ rest) ! n"
proof -
  let ?all = "concat blocks @ rest" and ?b = "n div DEFAULT_BATCH_SIZE" and ?j = "n mod DEFAULT_BATCH_SIZE"
  have b: "cs_blocks (parent it) blocks rest" and cur: "cursor it + 1 = int n"
    and tot: "it_totalDocIdNum it = int (length ?all)" and cb: "compBlockNum it = int (length blocks)"
    and len: "length (iterDecompBlock it) = DEFAULT_BATCH_SIZE"
    using assms(1) by (simp_all add: cs_pos_def)
  note f = cs_blocks_facts[OF b]
  have n: "n = DEFAULT_BATCH_SIZE * ?b + ?j" and j: "?j < DEFAULT_BATCH_SIZE"
    by (simp_all add: DEFAULT_BATCH_SIZE_def)
  have bl: "?b \<le> length blocks" using block_index_le[OF b assms(2)] .
  have ne: "int n \<noteq> int (length ?all)" using assms(2) by simp
  note simps = cs_nextDoc_def Let_def cur tot ne block_index_int block_offset_int cb
  consider (cur) "?b = length blocks" | (buf) "?b < length blocks" "?j \<noteq> 0" | (new) "?b < length blocks" "?j = 0"
    using bl by fastforce
  then show ?thesis
  proof cases
    case cur
    have "?j < length rest" using assms(2) n unfolding f(1) cur by simp
    then have "vec_at (currentNoCompBlock (parent it)) (int ?j) = Inr (rest ! ?j)"
      using b by (intro vec_at_prefix) (simp_all add: cs_blocks_def)
    moreover have "?all ! n = rest ! ?j" using f(3)[of ?j] n cur by metis
    ultimately show ?thesis using cur assms len
      by (auto simp: simps intro!: cs_pos_deliver[OF assms(1)])
  next
    case buf
    then have blk: "iterDecompBlock it = blocks ! ?b" using assms(1) sub_block_index[of n]
      by (auto simp: cs_pos_def)
    then have "vec_at (iterDecompBlock it) (int ?j) = Inr (blocks ! ?b ! ?j)" using len j by simp
    moreover have "?all ! n = blocks ! ?b ! ?j" using f(2)[OF buf(1) j] n by metis
    ultimately show ?thesis using buf assms len blk
      by (auto simp: simps intro!: cs_pos_deliver[OF assms(1)])
  next
    case new
    from uncompress_block_represents[OF b new(1) len]
    have "uncompress_block (sequenceOfCompBlocks (parent it)) (int ?b) (iterDecompBlock it)
        = Inr (4 * DEFAULT_BATCH_SIZE, blocks ! ?b)" .
    moreover have "vec_at (blocks ! ?b) 0 = Inr (blocks ! ?b ! 0)"
      using f(8)[OF new(1)] by (simp add: vec_at_def DEFAULT_BATCH_SIZE_def)
    moreover have "?all ! n = blocks ! ?b ! 0" using f(2)[OF new(1) j] n new(2) by metis
    ultimately show ?thesis using new assms f(8)[OF new(1)]
      by (auto simp: simps intro!: cs_pos_deliver[OF assms(1)])
  qed
qed

text \<open>The target \<open>Advance\<close> goes for: always beyond the document delivered last.\<close>

lemma next_target:
  assumes "doc_list xs" and "n \<le> length xs"
    and "t' = (if 0 < n \<and> t \<le> xs ! (n - 1) then xs ! (n - 1) + 1 else t)"
  shows "0 < n \<longrightarrow> xs ! (n - 1) < t'" and "skip_to t (drop n xs) = skip_to t' xs"
proof -
  show lt: "0 < n \<longrightarrow> xs ! (n - 1) < t'"
  proof
    assume pos: "0 < n"
    then have "xs ! (n - 1) \<in> set xs" using assms(2) by simp
    then have "xs ! (n - 1) \<noteq> - 1" using assms(1) by (auto simp: doc_list_def NO_MORE_DOCS_def)
    then show "xs ! (n - 1) < t'" using pos assms(3) inc_less_eq_self_iff_eq[of "xs ! (n - 1)"] by (auto simp: not_le)
  qed
  have "skip_to t (drop n xs) = skip_to t' (drop n xs)"
  proof (cases "0 < n \<and> t \<le> xs ! (n - 1)")
    case True
    have "xs ! (n - 1) < x" if "x \<in> set (drop n xs)" for x
    proof -
      from that obtain j where "j < length (drop n xs)" "x = drop n xs ! j" by (metis in_set_conv_nth)
      then have "n + j < length xs" "x = xs ! (n + j)" by (auto simp: less_diff_conv2 assms(2))
      then show ?thesis using doc_list_nth_less[OF assms(1), of "n - 1" "n + j"] True by auto
    qed
    then have "\<forall>x\<in>set (drop n xs). t' \<le> x" "\<forall>x\<in>set (drop n xs). t \<le> x"
      using True assms(3) by (auto simp: inc_le dest: order_trans less_imp_le)
    then show ?thesis by (simp add: skip_to_all)
  qed (use assms(3) in auto)
  then show "skip_to t (drop n xs) = skip_to t' xs"
    using skip_to_drop[OF assms(1,2) lt] by simp
qed

text \<open>The state \<open>Advance\<close> has to leave behind, by the outcome of the search.\<close>

definition cs_advanced :: "u32 list list \<Rightarrow> u32 list \<Rightarrow> u32 \<Rightarrow> u32 \<Rightarrow> cs_iterator \<Rightarrow> bool" where
  "cs_advanced blocks rest t d it \<longleftrightarrow>
     (case skip_to t (concat blocks @ rest) of
        [] \<Rightarrow> d = NO_MORE_DOCS \<and> cs_ended it
      | y # ys \<Rightarrow> d = y \<and> lastAccessedDocId it = y
          \<and> (\<exists>m. cs_pos it m blocks rest \<and> ys = drop m (concat blocks @ rest)))"

lemma cs_advanced_found:
  assumes "cs_pos it n blocks rest" and "found (concat blocks @ rest) t i"
    and "d = (concat blocks @ rest) ! i" and "cursor it' = int i"
    and "parent it' = parent it" and "it_totalDocIdNum it' = it_totalDocIdNum it"
    and "compBlockNum it' = compBlockNum it" and "lastAccessedDocId it' = d"
    and "length (iterDecompBlock it') = DEFAULT_BATCH_SIZE"
    and "i div DEFAULT_BATCH_SIZE < length blocks \<longrightarrow> iterDecompBlock it' = blocks ! (i div DEFAULT_BATCH_SIZE)"
  shows "cs_advanced blocks rest t d it'"
proof -
  have "doc_list (concat blocks @ rest)" using assms(1) by (simp add: cs_pos_def cs_blocks_def)
  with assms(2) have "skip_to t (concat blocks @ rest)
      = (concat blocks @ rest) ! i # drop (Suc i) (concat blocks @ rest)"
    by (simp only: found_skip found_Cons)
  moreover have "i < length (concat blocks @ rest)" using assms(2) by (simp only: found_def)
  then have "cs_pos it' (Suc i) blocks rest"
    using cs_pos_deliver[OF assms(1) _ assms(3-10)] by simp
  ultimately show ?thesis using assms(3,8) unfolding cs_advanced_def by auto
qed

lemma advance_in_blocks:
  assumes "cs_pos it0 n blocks rest" and "n < length (concat blocks @ rest)"
    and "it = it0\<lparr>cursor := int n\<rparr>" and "blocks \<noteq> []" and "n div DEFAULT_BATCH_SIZE < length blocks"
    and "0 < n \<longrightarrow> (concat blocks @ rest) ! (n - 1) < t" and "t \<le> last (map last blocks)"
  shows "\<exists>d it'. advanceToTargetInTheFollowingCompBlocks t (int (n div DEFAULT_BATCH_SIZE)) it = Inr (d, it')
    \<and> cs_advanced blocks rest t d (it'\<lparr>lastAccessedDocId := d\<rparr>)"
proof -
  let ?s = "parent it" and ?b = "n div DEFAULT_BATCH_SIZE" and ?j = "n mod DEFAULT_BATCH_SIZE"
  have b: "cs_blocks ?s blocks rest" and len: "length (iterDecompBlock it) = DEFAULT_BATCH_SIZE"
    and par: "parent it = parent it0" and cur: "cursor it = int n"
    using assms(1,3) by (simp_all add: cs_pos_def)
  note f = cs_blocks_facts[OF b]
  have bases: "baseListForOnlyCompBlocks ?s = map last blocks" using b by (simp add: cs_blocks_def)
  have "0 < ?b \<longrightarrow> map last blocks ! (?b - 1) < t"
  proof
    assume pos: "0 < ?b"
    then have "0 < n" by (auto intro: gr0I)
    then show "map last blocks ! (?b - 1) < t"
      using base_before[OF b less_imp_le[OF assms(2)] pos] assms(5,6) by simp
  qed
  from search_bases[OF b assms(4,5) this assms(7)] obtain k j where k: "?b \<le> k" "k < length blocks"
    "binarySearchInBaseListForBlockThatMayContainTarget (map last blocks) ?b (length blocks - 1) t = Inr (int k)"
    "found (blocks ! k) t j" "found (concat blocks @ rest) t (DEFAULT_BATCH_SIZE * k + j)"
    "binarySearchForFirstElementEqualOrLargerThanTarget (blocks ! k) 0 (DEFAULT_BATCH_SIZE - 1) t = Inr (int j)"
    by blast
  have j: "j < DEFAULT_BATCH_SIZE" "j < length (blocks ! k)" using k(4) f(8)[OF k(2)] by (simp_all add: found_def)
  let ?d = "blocks ! k ! j"
  let ?it = "it\<lparr>iterDecompBlock := blocks ! k, cursor := int (DEFAULT_BATCH_SIZE * k + j)\<rparr>"
  have "(if int ?b \<noteq> int k \<or> int ?j = 0
      then rbind (uncompress_block (sequenceOfCompBlocks ?s) (int k) (iterDecompBlock it)) (\<lambda>(n, blk). Inr blk)
      else Inr (iterDecompBlock it)) = Inr (blocks ! k)"
  proof (cases "?b \<noteq> k \<or> ?j = 0")
    case False
    then have "0 < n" "(n - 1) div DEFAULT_BATCH_SIZE = k" using sub_block_index[of n] by (auto intro: gr0I)
    then show ?thesis using assms(1,3) k(2) False by (simp add: cs_pos_def)
  qed (simp add: uncompress_block_represents[OF b k(2) len])
  then have "advanceToTargetInTheFollowingCompBlocks t (int ?b) it = Inr (?d, ?it)"
    using k(3,6) vec_at_int[OF j(2)]
    unfolding advanceToTargetInTheFollowingCompBlocks_def Let_def bases cur block_index_int block_offset_int
    by (simp add: block_position)
  moreover have "cs_advanced blocks rest t ?d (?it\<lparr>lastAccessedDocId := ?d\<rparr>)"
    using f(2)[OF k(2) j(1)] f(8)[OF k(2)] assms(3) j(1)
    by (intro cs_advanced_found[OF assms(1) k(5)]) simp_all
  ultimately show ?thesis by blast
qed

lemma scan_block_found:
  assumes "length blk = DEFAULT_BATCH_SIZE" and "i \<le> DEFAULT_BATCH_SIZE"
    and "\<forall>k<i. blk ! k < t" and "t \<le> blk ! (DEFAULT_BATCH_SIZE - 1)"
  shows "\<exists>j. scan_block blk i t lastId = Inr (j, blk ! j) \<and> found blk t j"
  using assms(2,3)
proof (induction "DEFAULT_BATCH_SIZE - i" arbitrary: i lastId)
  case 0
  then have "blk ! (DEFAULT_BATCH_SIZE - 1) < t" by (simp add: DEFAULT_BATCH_SIZE_def)
  with assms(4) have False by simp
  then show ?case ..
next
  case (Suc k)
  then have i: "i < DEFAULT_BATCH_SIZE" by simp
  with assms(1) have at: "vec_at blk (int i) = Inr (blk ! i)" by simp
  show ?case
  proof (cases "t \<le> blk ! i")
    case True
    then show ?thesis using i at Suc.prems(2) assms(1) by (subst scan_block.simps) (auto simp: found_def)
  next
    case False
    then have "\<forall>k<i + 1. blk ! k < t" using Suc.prems(2) by (auto simp: less_Suc_eq not_le)
    with Suc.hyps(1)[of "i + 1"] Suc.hyps(2) i at False show ?thesis
      by (subst scan_block.simps) simp
  qed
qed

text \<open>The branch that looks at the uncompressed block.\<close>

lemma advance_in_rest:
  assumes "cs_pos it0 n blocks rest" and "it = it0\<lparr>cursor := int n\<rparr>" and "rest \<noteq> []"
    and "blocks \<noteq> [] \<longrightarrow> last (map last blocks) < t \<or> DEFAULT_BATCH_SIZE * length blocks < n"
    and "0 < n \<longrightarrow> (concat blocks @ rest) ! (n - 1) < t" and "n < length (concat blocks @ rest)"
  shows "\<exists>d it'.
    rbind (binarySearchForFirstElementEqualOrLargerThanTarget (currentNoCompBlock (parent it)) 0
             (length rest - 1) t)
      (\<lambda>off. if off \<ge> 0
         then rbind (vec_at (currentNoCompBlock (parent it)) off)
           (\<lambda>d. Inr (d, it\<lparr>lastAccessedDocId := d,
                          cursor := push_bit BLOCK_INDEX_SHIFT_BITS (int (length blocks)) + off\<rparr>))
         else Inr (NO_MORE_DOCS, it\<lparr>cursor := it_totalDocIdNum it, lastAccessedDocId := NO_MORE_DOCS\<rparr>))
      = Inr (d, it') \<and> cs_advanced blocks rest t d it'"
proof -
  have b: "cs_blocks (parent it) blocks rest" using assms(1,2) by (simp add: cs_pos_def)
  have cur: "take (length rest) (currentNoCompBlock (parent it)) = rest" using b by (simp add: cs_blocks_def)
  note f = cs_blocks_facts[OF b]
  show ?thesis
  proof (cases "last rest < t")
    case True
    with f(5) assms(3) have "skip_to t (concat blocks @ rest) = []" by (intro skip_to_Nil) auto
    with True search_rest[OF f(6) assms(3) cur, of t] show ?thesis
      by (simp add: cs_advanced_def cs_ended_def)
  next
    case False
    with search_rest[OF f(6) assms(3) cur, of t] obtain j where j: "found rest t j"
      "binarySearchForFirstElementEqualOrLargerThanTarget (currentNoCompBlock (parent it)) 0 (length rest - 1) t
        = Inr (int j)" by auto
    have "blocks \<noteq> [] \<longrightarrow> last (map last blocks) < t \<or> 0 < j"
    proof (intro impI, rule ccontr)
      assume ne: "blocks \<noteq> []" and no: "\<not> (last (map last blocks) < t \<or> 0 < j)"
      let ?p = "DEFAULT_BATCH_SIZE * length blocks"
      from ne no assms(4) have n: "?p < n" and j0: "j = 0" by auto
      have "(concat blocks @ rest) ! (?p + 0) < t"
        using doc_list_below[OF f(5), of ?p n t] n assms(5,6) by simp
      then show False using j(1) j0 f(3)[of 0] by (auto simp: found_def dest: leD)
    qed
    note found = found_in_rest[OF b j(1) this]
    have "vec_at (currentNoCompBlock (parent it)) (int j) = Inr (rest ! j)"
      using vec_at_prefix[OF cur] j(1) by (simp add: found_def)
    moreover have "cs_advanced blocks rest t (rest ! j)
        (it\<lparr>lastAccessedDocId := rest ! j, cursor := int (DEFAULT_BATCH_SIZE * length blocks + j)\<rparr>)"
    proof (rule cs_advanced_found[OF assms(1) found])
      show "rest ! j = (concat blocks @ rest) ! (DEFAULT_BATCH_SIZE * length blocks + j)" using f(3) by simp
      have "length blocks \<le> (DEFAULT_BATCH_SIZE * length blocks + j) div DEFAULT_BATCH_SIZE"
        by (simp add: DEFAULT_BATCH_SIZE_def)
      then show "(DEFAULT_BATCH_SIZE * length blocks + j) div DEFAULT_BATCH_SIZE < length blocks
          \<longrightarrow> iterDecompBlock (it\<lparr>lastAccessedDocId := rest ! j, cursor := int (DEFAULT_BATCH_SIZE * length blocks + j)\<rparr>)
            = blocks ! ((DEFAULT_BATCH_SIZE * length blocks + j) div DEFAULT_BATCH_SIZE)" by simp
    qed (use assms(1,2) in \<open>simp_all add: cs_pos_def\<close>)
    ultimately show ?thesis using j(2) by (simp add: block_position)
  qed
qed

lemma cs_Advance_pos:
  assumes "cs_pos it0 n blocks rest"
  shows "\<exists>d it'. cs_Advance t0 it0 = Inr (d, it')
    \<and> (case skip_to t0 (drop n (concat blocks @ rest)) of
        [] \<Rightarrow> d = NO_MORE_DOCS \<and> cs_ended it'
      | y # ys \<Rightarrow> d = y \<and> lastAccessedDocId it' = y
          \<and> (\<exists>m. cs_pos it' m blocks rest \<and> ys = drop m (concat blocks @ rest)))"
proof -
  let ?all = "concat blocks @ rest" and ?b = "n div DEFAULT_BATCH_SIZE" and ?j = "n mod DEFAULT_BATCH_SIZE"
  define it where "it = it0\<lparr>cursor := int n\<rparr>"
  have b: "cs_blocks (parent it0) blocks rest" and cur: "cursor it0 = int n - 1"
    and tot: "it_totalDocIdNum it0 = int (length ?all)" and cb: "compBlockNum it0 = int (length blocks)"
    and len: "length (iterDecompBlock it0) = DEFAULT_BATCH_SIZE" and nle: "n \<le> length ?all"
    and last: "0 < n \<Longrightarrow> lastAccessedDocId it0 = ?all ! (n - 1)"
    using assms by (simp_all add: cs_pos_def)
  note f = cs_blocks_facts[OF b]
  show ?thesis
  proof (cases "n = length ?all")
    case True
    have c: "cursor it0 + 1 = it_totalDocIdNum it0" using cur tot True by linarith
    have "cs_Advance t0 it0 = Inr (NO_MORE_DOCS, it0\<lparr>lastAccessedDocId := NO_MORE_DOCS\<rparr>) \<and> it_totalDocIdNum it0 \<le> 0
      \<or> cs_Advance t0 it0 = Inr (NO_MORE_DOCS, it0\<lparr>cursor := cursor it0 + 1, lastAccessedDocId := NO_MORE_DOCS\<rparr>)"
      using c by (simp add: cs_Advance_def Let_def)
    then show ?thesis using True c by (auto simp: cs_ended_def)
  next
    case False
    with nle have n: "n < length ?all" by simp
    define t where "t = (if 0 < n \<and> t0 \<le> ?all ! (n - 1) then ?all ! (n - 1) + 1 else t0)"
    have tgt: "0 < n \<longrightarrow> ?all ! (n - 1) < t" "skip_to t0 (drop n ?all) = skip_to t ?all"
      using next_target[OF f(5) nle t_def] by blast+
    have rest: "rest \<noteq> []" using b n by (auto simp: cs_blocks_def)
    have nj: "n = DEFAULT_BATCH_SIZE * ?b + ?j" by simp
    have sz: "sizeOfCurrentNoCompBlock (parent it) = length rest"
      and bases: "baseListForOnlyCompBlocks (parent it) = map last blocks" and par: "parent it = parent it0"
      and itc: "compBlockNum it = int (length blocks)" "cursor it = int n"
      using b cb by (simp_all add: cs_blocks_def it_def)
    have guards: "\<not> (cursor it0 = it_totalDocIdNum it0 \<or> it_totalDocIdNum it0 \<le> 0)"
      "it0\<lparr>cursor := cursor it0 + 1\<rparr> = it" "cursor it \<noteq> it_totalDocIdNum it"
      "(if cursor it \<noteq> 0 \<and> t0 \<le> lastAccessedDocId it then lastAccessedDocId it + 1 else t0) = t"
      using n cur tot last unfolding it_def t_def by auto
    have adv_eq: "cs_Advance t0 it0 = advance_to t it"
      unfolding cs_Advance_def Let_def if_not_P[OF guards(1)] guards(2) if_not_P[OF guards(3)] guards(4) ..
    note step = advance_to_def Let_def sz bases itc block_index_int block_offset_int
    let ?bs = "map last blocks"
    have lastbase: "?bs ! (length ?bs - 1) = last ?bs" if "blocks \<noteq> []"
      using that last_conv_nth[of ?bs] by simp
    have "\<exists>d it'. advance_to t it = Inr (d, it') \<and> cs_advanced blocks rest t d it'"
    proof (cases "int ?b = int (length blocks) \<or> (0 < length ?bs \<and> ?bs ! (length ?bs - 1) < t)")
      case True
      have "blocks \<noteq> [] \<longrightarrow> last ?bs < t \<or> DEFAULT_BATCH_SIZE * length blocks < n"
      proof (intro impI, rule ccontr)
        assume ne: "blocks \<noteq> []" and no: "\<not> (last ?bs < t \<or> DEFAULT_BATCH_SIZE * length blocks < n)"
        with True lastbase have "?b = length blocks" by auto
        then have "n = DEFAULT_BATCH_SIZE * length blocks + ?j" using nj by simp
        then have "n = DEFAULT_BATCH_SIZE * length blocks" using no by linarith
        moreover from this have n': "0 < n" using ne by (simp add: DEFAULT_BATCH_SIZE_def)
        ultimately have "DEFAULT_BATCH_SIZE * length blocks \<le> n" by simp
        then have "?bs ! (length blocks - 1) < t"
          using base_before[OF b nle, of "length blocks" t] tgt(1) ne n' by simp
        then show False using no ne lastbase by simp
      qed
      from advance_in_rest[OF assms it_def rest this tgt(1) n] show ?thesis
        using rest True unfolding step by simp
    next
      case no_rest: False
      have bne: "blocks \<noteq> []"
      proof
        assume "blocks = []"
        then have "?b = 0" using block_index_le[OF b n] by simp
        with \<open>blocks = []\<close> no_rest show False by simp
      qed
      with no_rest lastbase have le: "t \<le> last ?bs" by (simp add: not_less)
      have lb: "?b < length blocks" using block_index_le[OF b n] no_rest by simp
      note adv = advance_in_blocks[OF assms n it_def bne lb tgt(1) le]
      have le': "0 < length ?bs \<and> t \<le> ?bs ! (length ?bs - 1)" using le lastbase bne by simp
      show ?thesis
      proof (cases "?j \<noteq> 0 \<and> t \<le> ?bs ! ?b")
        case False
        have "vec_at ?bs (int ?b) = Inr (?bs ! ?b)" using lb by (intro vec_at_int) simp
        with adv False rest no_rest le' show ?thesis unfolding step by auto
      next
        case True
        have blk: "iterDecompBlock it = blocks ! ?b"
          using assms True lb sub_block_index[of n] by (auto simp: cs_pos_def it_def)
        have j: "?j < DEFAULT_BATCH_SIZE" by (simp add: DEFAULT_BATCH_SIZE_def)
        have pos: "0 < n" using True by (auto intro: gr0I)
        have "\<forall>k<?j. blocks ! ?b ! k < t"
        proof (intro allI impI)
          fix k assume k: "k < ?j"
          then have "DEFAULT_BATCH_SIZE * ?b + k < n" using nj by linarith
          from doc_list_below[OF f(5) this nle] tgt(1) pos
          have "?all ! (DEFAULT_BATCH_SIZE * ?b + k) < t" by simp
          then show "blocks ! ?b ! k < t" using f(2)[OF lb, of k] k j by simp
        qed
        moreover have "t \<le> blocks ! ?b ! (DEFAULT_BATCH_SIZE - 1)" using True f(4)[OF lb] by simp
        ultimately obtain i where i: "found (blocks ! ?b) t i"
          "scan_block (blocks ! ?b) ?j t (lastAccessedDocId it) = Inr (i, blocks ! ?b ! i)"
          using scan_block_found[OF f(8)[OF lb] less_imp_le[OF j]] by blast
        have il: "i < DEFAULT_BATCH_SIZE" using i(1) f(8)[OF lb] by (simp add: found_def)
        have "0 < ?b \<longrightarrow> ?bs ! (?b - 1) < t"
          using base_before[OF b nle _ less_imp_le[OF lb]] tgt(1) pos by simp
        note fib = found_in_block[OF b lb i(1) this]
        let ?it = "it\<lparr>lastAccessedDocId := blocks ! ?b ! i, cursor := int (DEFAULT_BATCH_SIZE * ?b + i)\<rparr>"
        have "vec_at ?bs (int ?b) = Inr (?bs ! ?b)" using lb by (intro vec_at_int) simp
        then have "advance_to t it = Inr (blocks ! ?b ! i, ?it)"
          using True no_rest le' rest i(2) il blk unfolding step by (auto simp: block_position)
        moreover have "cs_advanced blocks rest t (blocks ! ?b ! i) ?it"
          using fib(2) len blk il
          by (intro cs_advanced_found[OF assms fib(1)]) (simp_all add: it_def)
        ultimately show ?thesis by blast
      qed
    qed
    then show ?thesis unfolding adv_eq cs_advanced_def tgt(2) .
  qed
qed

interpretation cs: doc_iterator cs_vtable cs_at cs_ended
proof
  fix it xs assume "cs_at it xs"
  then obtain n blocks rest where p: "cs_pos it n blocks rest" and xs: "xs = drop n (concat blocks @ rest)"
    by (auto simp: cs_at_def)
  then have docs: "doc_list (concat blocks @ rest)" by (simp add: cs_pos_def cs_blocks_def)
  then show "doc_list xs" unfolding xs by (metis append_take_drop_id doc_list_appendD(2))
next
  fix it assume "cs_at it []"
  then obtain n blocks rest where p: "cs_pos it n blocks rest" and "[] = drop n (concat blocks @ rest)"
    by (auto simp: cs_at_def)
  then have "n = length (concat blocks @ rest)" unfolding cs_pos_def by (metis drop_eq_Nil le_antisym)
  with p have "cursor it + 1 = it_totalDocIdNum it" by (simp add: cs_pos_def)
  then show "\<exists>it'. vt_nextDoc cs_vtable it = Inr (NO_MORE_DOCS, it') \<and> cs_ended it'"
    by (simp add: cs_vtable_def cs_nextDoc_def cs_ended_def Let_def)
next
  fix it x xs assume "cs_at it (x # xs)"
  then obtain n blocks rest where p: "cs_pos it n blocks rest" and d: "x # xs = drop n (concat blocks @ rest)"
    by (auto simp: cs_at_def)
  from d have n: "n < length (concat blocks @ rest)" by (metis drop_eq_Nil list.distinct(1) not_le)
  with d have "x = (concat blocks @ rest) ! n" "xs = drop (Suc n) (concat blocks @ rest)"
    by (metis Cons_nth_drop_Suc list.inject)+
  with cs_nextDoc_pos[OF p n] show "\<exists>it'. vt_nextDoc cs_vtable it = Inr (x, it') \<and> cs_at it' xs
      \<and> vt_docID cs_vtable it' = x"
    by (auto simp: cs_vtable_def cs_at_def cs_docID_def)
next
  fix it xs t assume "cs_at it xs" and "skip_to t xs = []"
  with cs_Advance_pos[of it _ _ _ t]
  show "\<exists>it'. vt_Advance cs_vtable t it = Inr (NO_MORE_DOCS, it') \<and> cs_ended it'"
    by (fastforce simp: cs_vtable_def cs_at_def)
next
  fix it xs t y ys assume "cs_at it xs" and "skip_to t xs = y # ys"
  with cs_Advance_pos[of it _ _ _ t]
  show "\<exists>it'. vt_Advance cs_vtable t it = Inr (y, it') \<and> cs_at it' ys \<and> vt_docID cs_vtable it' = y"
    by (fastforce simp: cs_vtable_def cs_at_def cs_docID_def)
next
  fix it t assume "cs_ended it"
  then show "\<exists>it'. vt_Advance cs_vtable t it = Inr (NO_MORE_DOCS, it') \<and> cs_ended it'"
    by (simp add: cs_vtable_def cs_Advance_def cs_ended_def)
qed

section \<open>Walking over a set\<close>

lemma cs_walk_at:
  assumes "cs_at it xs" and "length xs < n"
  shows "cs_walk n f it acc = Some (fold_res f acc xs)"
  using assms
proof (induction xs arbitrary: it n acc)
  case Nil
  then obtain m where "n = Suc m" by (cases n) auto
  with cs.next_Nil[OF Nil(1)] show ?case by (auto simp: cs_vtable_def)
next
  case (Cons x xs)
  then obtain m where n: "n = Suc m" "length xs < m" by (cases n) auto
  from cs.next_Cons[OF Cons.prems(1)] obtain it' where
    "cs_nextDoc it = Inr (x, it')" "cs_at it' xs" "cs_docID it' = x" by (auto simp: cs_vtable_def)
  with Cons.IH[OF _ n(2)] n(1) cs.at_docs[OF Cons.prems(1)] show ?case
    by (simp add: rbind_def split: sum.splits)
qed

lemma cs_walk_docs:
  assumes "cs_docs s xs"
  shows "cs_walk (cs_fuel s) f (cs_iter s) acc = Some (fold_res f acc xs)"
proof (rule cs_walk_at[OF cs_iter_at[OF assms]])
  from assms show "length xs < cs_fuel s"
    by (auto simp: cs_docs_def cs_blocks_def cs_fuel_def unat_of_nat_u32 simp del: of_nat_add)
qed

lemma doc_list_filter: "doc_list xs \<Longrightarrow> doc_list (filter P xs)"
  by (simp add: doc_list_def sorted_wrt_filter)

lemma cs_docs_length: "cs_docs s xs \<Longrightarrow> length xs < 2 ^ 31"
  by (auto simp: cs_docs_def cs_blocks_def)

lemma cs_removeDoc_docs:
  assumes "cs_docs s xs"
  shows "\<exists>s'. cs_removeDoc d s = Some (Inr s') \<and> cs_docs s' (removeAll d xs)"
proof -
  have fold: "fold_res (\<lambda>t val. if val \<noteq> d then cs_addDoc val t else Inr t) acc ys
      = fold_res (\<lambda>s d. cs_addDoc d s) acc (removeAll d ys)" for acc ys
    by (induction ys arbitrary: acc) auto
  have "doc_list (removeAll d xs)"
    using cs_docs_doc_list[OF assms] by (simp add: removeAll_filter_not_eq doc_list_filter)
  moreover have "length (removeAll d xs) < 2 ^ 31"
    by (rule le_less_trans[OF length_removeAll_less_eq cs_docs_length[OF assms]])
  ultimately show ?thesis
    using addDocs_all_docs[OF cs_docs_new, of "removeAll d xs"] fold
    by (simp add: cs_removeDoc_def cs_walk_docs[OF assms])
qed

lemma unorderedAdd_step_simps [simp]:
  "unorderedAdd_step d (True, t) v = rbind (cs_addDoc v t) (\<lambda>t'. Inr (True, t'))"
  "v \<le> d \<Longrightarrow> unorderedAdd_step d (False, t) v = rbind (cs_addDoc v t) (\<lambda>t'. Inr (False, t'))"
  "\<not> v \<le> d \<Longrightarrow> unorderedAdd_step d (False, t) v
     = rbind (cs_addDoc d t) (\<lambda>t'. rbind (cs_addDoc v t') (\<lambda>t''. Inr (True, t'')))"
  by (auto simp: unorderedAdd_step_def)

text \<open>
  \<open>unorderedAdd\<close> copies the documents up to \<open>docId\<close>, adds \<open>docId\<close>, and copies the rest.  It
  does not look whether \<open>docId\<close> is already there.
\<close>

lemma unorderedAdd_inserted:
  "fold_res (unorderedAdd_step d) (True, t) ys
     = rbind (fold_res (\<lambda>s d. cs_addDoc d s) t ys) (\<lambda>t'. Inr (True, t'))"
  by (induction ys arbitrary: t) (simp_all add: rbind_assoc)

definition insert_doc :: "u32 \<Rightarrow> u32 list \<Rightarrow> u32 list" where
  "insert_doc d ys = takeWhile (\<lambda>v. v \<le> d) ys @ d # dropWhile (\<lambda>v. v \<le> d) ys"

lemma unorderedAdd_fold:
  "rbind (fold_res (unorderedAdd_step d) (False, t) ys)
      (\<lambda>(inserted, t). if \<not> inserted then cs_addDoc d t else Inr t)
    = fold_res (\<lambda>s d. cs_addDoc d s) t (insert_doc d ys)"
proof (induction ys arbitrary: t)
  case Nil
  show ?case by (cases "cs_addDoc d t") (simp_all add: insert_doc_def)
next
  case (Cons y ys)
  show ?case
  proof (cases "y \<le> d")
    case True
    with Cons show ?thesis by (simp add: insert_doc_def rbind_assoc)
  next
    case False
    then show ?thesis by (simp add: insert_doc_def rbind_assoc unorderedAdd_inserted)
      (simp add: rbind_def split: sum.splits)
  qed
qed

lemma doc_list_insert_doc:
  assumes "doc_list ys" and "d \<notin> set ys" and "d \<noteq> NO_MORE_DOCS"
  shows "doc_list (insert_doc d ys)" and "set (insert_doc d ys) = insert d (set ys)"
proof -
  show "doc_list (insert_doc d ys)"
    using assms
  proof (induction ys)
    case (Cons y ys)
    show ?case
    proof (cases "y \<le> d")
      case True
      then have "y < d" using Cons.prems by auto
      then show ?thesis using Cons set_takeWhileD[of _ "\<lambda>v. v \<le> d" ys] set_dropWhileD[of _ "\<lambda>v. v \<le> d" ys]
        by (auto simp: insert_doc_def)
    next
      case False
      then show ?thesis using Cons.prems by (auto simp: insert_doc_def not_le intro: less_trans)
    qed
  qed (simp add: insert_doc_def)
  have "set (takeWhile (\<lambda>v. v \<le> d) ys) \<union> set (dropWhile (\<lambda>v. v \<le> d) ys) = set ys"
    by (metis set_append takeWhile_dropWhile_id)
  then show "set (insert_doc d ys) = insert d (set ys)" by (auto simp: insert_doc_def)
qed

lemma cs_unorderedAdd_docs:
  assumes "cs_docs s xs" and "d \<notin> set xs" and "d \<noteq> NO_MORE_DOCS" and "length xs + 1 < 2 ^ 31"
  shows "\<exists>s' ys. cs_unorderedAdd d s = Some (Inr s') \<and> cs_docs s' ys \<and> set ys = insert d (set xs)"
proof -
  have "length (takeWhile (\<lambda>v. v \<le> d) xs) + length (dropWhile (\<lambda>v. v \<le> d) xs) = length xs"
    by (metis length_append takeWhile_dropWhile_id)
  then have "length (insert_doc d xs) < 2 ^ 31" using assms(4) by (simp add: insert_doc_def)
  then show ?thesis
    using addDocs_all_docs[OF cs_docs_new, of "insert_doc d xs"]
      doc_list_insert_doc[OF cs_docs_doc_list[OF assms(1)] assms(2,3)]
    by (auto simp: cs_unorderedAdd_def cs_walk_docs[OF assms(1)] unorderedAdd_fold)
qed

text \<open>\<open>isDense\<close> divides the span of the ids by their number.\<close>

lemma minmax_fold:
  "fold_res (\<lambda>(minval, maxval) val. Inr (if val < minval then val else minval, if val > maxval then val else maxval))
     (a, b) ys = Inr (foldl min a ys, foldl max (b :: u32) ys)"
  by (induction ys arbitrary: a b) (auto simp: min_def max_def intro!: arg_cong2[of _ _ _ _ "foldl _"])

lemma foldl_min_least: "\<forall>y\<in>set ys. a \<le> y \<Longrightarrow> foldl min (a :: u32) ys = a"
  by (induction ys) (auto simp: min_def)

lemma foldl_max_last: "sorted_wrt (<) (a # ys) \<Longrightarrow> foldl max (a :: u32) ys = last (a # ys)"
  by (induction ys arbitrary: a) (auto simp: max_def)

lemma cs_isDense_docs:
  assumes "cs_docs s xs" and "xs \<noteq> []"
  shows "cs_isDense s = Some (Inr (8 < sint ((last xs - hd xs) div of_nat (length xs))))"
proof -
  from assms(2) obtain y ys where xs: "xs = y # ys" by (cases xs) auto
  have srt: "sorted_wrt (<) (y # ys)" using cs_docs_doc_list[OF assms(1)] by (simp add: xs doc_list_def)
  have "min NO_MORE_DOCS y = y" "max 0 y = y" by (simp_all add: min_def max_def antisym)
  moreover have "foldl min y ys = y" using srt by (intro foldl_min_least) auto
  ultimately have "foldl min NO_MORE_DOCS xs = hd xs" "foldl max 0 xs = last xs"
    using foldl_max_last[OF srt] by (simp_all add: xs)
  moreover have tot: "totalDocIdNum s = of_nat (length xs)"
    using assms(1) by (auto simp: cs_docs_def cs_blocks_def)
  moreover have "totalDocIdNum s \<noteq> 0"
    using unat_of_nat_u32[OF cs_docs_length[OF assms(1)]] assms(2) unfolding tot by (metis length_0_conv unat_0)
  ultimately show ?thesis
    by (simp add: cs_isDense_def cs_walk_docs[OF assms(1)] minmax_fold)
qed

end
