(* ===== verification/LazyOrSet.thy ===== *)
theory LazyOrSet
  imports DocIterator "HOL-Library.Multiset"
begin

text \<open>
  \<^verbatim>\<open>varint/LazyOrSet.cpp\<close>: the union of sets, merged document by document with a binary heap of
  iterators.  The heap lemmas come first, then the contract of the merged iterator.
\<close>

section \<open>State\<close>

record 's or_item =
  item_iter :: 's
  item_doc :: u32

record 's lazy_or =
  curDoc :: u32
  heap :: "'s or_item list"
  heapSize :: nat

definition or_iter :: "'s list \<Rightarrow> 's lazy_or" where
  "or_iter iters =
     \<lparr>curDoc = (if length iters = 0 then NO_MORE_DOCS else 0),
      heap = map (\<lambda>it. \<lparr>item_iter = it, item_doc = 0\<rparr>) iters, heapSize = length iters\<rparr>"

definition or_docID :: "'s lazy_or \<Rightarrow> u32" where
  "or_docID it = curDoc it"

section \<open>The heap\<close>

text \<open>
  The loop of \<open>heapAdjust\<close>: \<open>i\<close> is the hole that \<open>topItem\<close> is to fill.  Documents are compared as
  signed integers, as the code does.
\<close>

definition int_doc :: "'s or_item \<Rightarrow> int" where
  "int_doc x = sint (item_doc x)"

function heap_sift :: "nat \<Rightarrow> 's or_item \<Rightarrow> 's or_item list \<Rightarrow> nat \<Rightarrow> 's or_item list" where
  "heap_sift sz topItem h i =
     (let lchild = 2 * i + 1; rchild = lchild + 1 in
      if lchild \<ge> sz then h[i := topItem]
      else if rchild < sz \<and> int_doc (h ! rchild) \<le> int_doc (h ! lchild)
        then (if int_doc topItem \<le> int_doc (h ! rchild) then h[i := topItem]
              else heap_sift sz topItem (h[i := h ! rchild]) rchild)
      else if int_doc topItem \<le> int_doc (h ! lchild) then h[i := topItem]
      else heap_sift sz topItem (h[i := h ! lchild]) lchild)"
  by pat_completeness auto
termination by (relation "measure (\<lambda>(sz, t, h, i). sz - i)") auto

declare heap_sift.simps [simp del]

definition heapAdjust :: "'s lazy_or \<Rightarrow> 's lazy_or" where
  "heapAdjust it = it\<lparr>heap := heap_sift (heapSize it) (heap it ! 0) (heap it) 0\<rparr>"

definition heapRemoveRoot :: "'s lazy_or \<Rightarrow> 's lazy_or" where
  "heapRemoveRoot it =
     (let it1 = it\<lparr>heapSize := heapSize it - 1\<rparr> in
      if heapSize it1 > 0 then
        let tmp = heap it1 ! 0 in
        heapAdjust (it1\<lparr>heap := (heap it1)[0 := heap it1 ! heapSize it1, heapSize it1 := tmp]\<rparr>)
      else it1)"

section \<open>nextDoc and Advance\<close>

text \<open>
  The \<open>while(true)\<close> loop, the same in both but for the call on the top iterator and the bound
  the top has to reach.  It takes at most as many rounds as there are ids and ends together.
\<close>

definition or_fuel :: "nat \<Rightarrow> int" where
  "or_fuel sz = int sz * (2 ^ 32 + 1) + 1"

function or_loop ::
    "('s \<Rightarrow> (u32 \<times> 's) res) \<Rightarrow> (u32 \<Rightarrow> bool) \<Rightarrow> int \<Rightarrow> 's lazy_or \<Rightarrow> (u32 \<times> 's lazy_or) res" where
  "or_loop pull reached fuel it =
     (if fuel \<le> 0 then Inl OutOfFuel
      else
        let topItem = heap it ! 0 in
        rbind (pull (item_iter topItem)) (\<lambda>(docid, iter').
          let topItem' = \<lparr>item_iter = iter',
                      item_doc = (if docid \<noteq> NO_MORE_DOCS then docid else item_doc topItem)\<rparr>;
              it1 = it\<lparr>heap := (heap it)[0 := topItem']\<rparr>;
              it2 = (if docid \<noteq> NO_MORE_DOCS then heapAdjust it1 else heapRemoveRoot it1) in
          if docid = NO_MORE_DOCS \<and> heapSize it2 = 0
          then Inr (NO_MORE_DOCS, it2\<lparr>curDoc := NO_MORE_DOCS\<rparr>)
          else
            let topDoc = item_doc (heap it2 ! 0) in
            if reached topDoc then Inr (topDoc, it2\<lparr>curDoc := topDoc\<rparr>)
            else or_loop pull reached (fuel - 1) it2))"
  by pat_completeness auto
termination by (relation "measure (\<lambda>(p, r, f, it). nat f)") auto

declare or_loop.simps [simp del]

definition or_nextDoc :: "'s iter_vtable \<Rightarrow> 's lazy_or \<Rightarrow> (u32 \<times> 's lazy_or) res" where
  "or_nextDoc V it =
     (if curDoc it = NO_MORE_DOCS then Inr (NO_MORE_DOCS, it)
      else or_loop (vt_nextDoc V) (\<lambda>topDoc. topDoc > curDoc it) (or_fuel (heapSize it)) it)"

definition or_Advance :: "'s iter_vtable \<Rightarrow> u32 \<Rightarrow> 's lazy_or \<Rightarrow> (u32 \<times> 's lazy_or) res" where
  "or_Advance V target0 it =
     (if curDoc it = NO_MORE_DOCS then Inr (NO_MORE_DOCS, it)
      else
        let target = (if target0 \<le> curDoc it then curDoc it + 1 else target0) in
        or_loop (vt_Advance V target) (\<lambda>topDoc. topDoc \<ge> target) (or_fuel (heapSize it)) it)"

definition or_vtable :: "'s iter_vtable \<Rightarrow> 's lazy_or iter_vtable" where
  "or_vtable V = \<lparr>vt_docID = or_docID, vt_nextDoc = or_nextDoc V, vt_Advance = or_Advance V\<rparr>"

text \<open>\<open>LazyOrSet::find\<close> on fresh iterators of the operands.\<close>

definition or_find :: "'s iter_vtable \<Rightarrow> u32 \<Rightarrow> 's list \<Rightarrow> bool res" where
  "or_find V val iters =
     rbind (or_Advance V val (or_iter iters)) (\<lambda>(docid, it). Inr (docid \<noteq> NO_MORE_DOCS \<and> docid = val))"

section \<open>Heap order\<close>

definition heap_ok :: "nat \<Rightarrow> 's or_item list \<Rightarrow> bool" where
  "heap_ok sz h \<longleftrightarrow> (\<forall>k. 0 < k \<and> k < sz \<longrightarrow> int_doc (h ! ((k - 1) div 2)) \<le> int_doc (h ! k))"

text \<open>In order but for the item at \<open>i\<close>, which may be too large for its children.\<close>

definition heap_hole :: "nat \<Rightarrow> 's or_item list \<Rightarrow> nat \<Rightarrow> bool" where
  "heap_hole sz h i \<longleftrightarrow>
     (\<forall>k. 0 < k \<and> k < sz \<and> (k - 1) div 2 \<noteq> i \<longrightarrow> int_doc (h ! ((k - 1) div 2)) \<le> int_doc (h ! k))
   \<and> (\<forall>k. 0 < i \<and> 0 < k \<and> k < sz \<and> (k - 1) div 2 = i \<longrightarrow> int_doc (h ! ((i - 1) div 2)) \<le> int_doc (h ! k))"

lemma heap_root_least: "heap_ok sz h \<Longrightarrow> k < sz \<Longrightarrow> int_doc (h ! 0) \<le> int_doc (h ! k)"
proof (induction k rule: less_induct)
  case (less k)
  show ?case
  proof (cases "k = 0")
    case False
    then have "(k - 1) div 2 < k" by simp
    with less.IH[OF this less.prems(1)] less.prems(2) have "int_doc (h ! 0) \<le> int_doc (h ! ((k - 1) div 2))" by simp
    also have "\<dots> \<le> int_doc (h ! k)" using less.prems False by (auto simp: heap_ok_def)
    finally show ?thesis .
  qed simp
qed

lemma heap_children: "(k - 1) div 2 = i \<Longrightarrow> 0 < k \<Longrightarrow> k = 2 * i + 1 \<or> k = 2 * i + (2 :: nat)"
  by presburger

text \<open>Only the two children of \<open>i\<close> have it as parent.\<close>

lemma heap_hole_okI:
  assumes "heap_hole sz h i"
    and "2 * i + 1 < sz \<Longrightarrow> int_doc (h ! i) \<le> int_doc (h ! (2 * i + 1))"
    and "2 * i + 2 < sz \<Longrightarrow> int_doc (h ! i) \<le> int_doc (h ! (2 * i + 2))"
  shows "heap_ok sz h"
  unfolding heap_ok_def
proof (intro allI impI)
  fix k assume k: "0 < k \<and> k < sz"
  show "int_doc (h ! ((k - 1) div 2)) \<le> int_doc (h ! k)"
  proof (cases "(k - 1) div 2 = i")
    case True
    then have "k = 2 * i + 1 \<or> k = 2 * i + 2" using k heap_children by blast
    then show ?thesis using k True assms(2,3) by auto
  qed (use assms(1) k in \<open>auto simp: heap_hole_def\<close>)
qed

text \<open>Moving the smaller child up moves the hole down to it.\<close>

lemma heap_hole_down:
  assumes hole: "heap_hole sz h i" and len: "sz \<le> length h" and c: "c = 2 * i + 1 \<or> c = 2 * i + 2" and "c < sz"
    and min: "\<And>d. d = 2 * i + 1 \<or> d = 2 * i + 2 \<Longrightarrow> d < sz \<Longrightarrow> int_doc (h ! c) \<le> int_doc (h ! d)"
    and less: "int_doc (h ! c) < int_doc (h ! i)"
  shows "heap_hole sz (h[i := h ! c, c := h ! i]) c"
proof -
  let ?h = "h[i := h ! c, c := h ! i]"
  have il: "i < c" "i < length h" "c < length h" using c assms(4) len by auto
  then have at: "?h ! i = h ! c" "?h ! c = h ! i" "\<And>k. k \<noteq> i \<Longrightarrow> k \<noteq> c \<Longrightarrow> ?h ! k = h ! k" by auto
  have par_c: "(c - 1) div 2 = i" using c by auto
  show ?thesis unfolding heap_hole_def
  proof (intro conjI allI impI)
    fix k assume k: "0 < k \<and> k < sz \<and> (k - 1) div 2 \<noteq> c"
    consider (ci) "(k - 1) div 2 = i" "k = c" | (di) "(k - 1) div 2 = i" "k \<noteq> c" | (ki) "k = i" | (other) "(k - 1) div 2 \<noteq> i" "k \<noteq> i"
      by blast
    then show "int_doc (?h ! ((k - 1) div 2)) \<le> int_doc (?h ! k)"
    proof cases
      case ci
      then show ?thesis using at less by simp
    next
      case di
      then have "k = 2 * i + 1 \<or> k = 2 * i + 2" using k heap_children by blast
      moreover have "k \<noteq> i" using di k by auto
      ultimately show ?thesis using di at min[of k] k by simp
    next
      case ki
      have "(i - 1) div 2 \<noteq> i" "(i - 1) div 2 \<noteq> c" using ki k il by auto
      moreover have "int_doc (h ! ((i - 1) div 2)) \<le> int_doc (h ! c)"
        using hole ki k assms(4) par_c il(1) unfolding heap_hole_def by (metis gr_implies_not0 not_gr_zero)
      ultimately show ?thesis using ki at by simp
    next
      case other
      have "k \<noteq> c" using other par_c by auto
      then show ?thesis using other k at hole by (auto simp: heap_hole_def)
    qed
  next
    fix k assume k: "0 < c \<and> 0 < k \<and> k < sz \<and> (k - 1) div 2 = c"
    have "k \<noteq> i" "k \<noteq> c" using k il by auto
    moreover have "int_doc (h ! ((k - 1) div 2)) \<le> int_doc (h ! k)"
      using hole k il unfolding heap_hole_def by auto
    ultimately show "int_doc (?h ! ((c - 1) div 2)) \<le> int_doc (?h ! k)"
      using k at par_c by simp
  qed
qed

lemma heap_sift_ok:
  assumes "heap_hole sz (h[i := topItem]) i" and "sz \<le> length h" and "i < sz"
  shows "heap_ok sz (heap_sift sz topItem h i)
    \<and> mset (take sz (heap_sift sz topItem h i)) = mset (take sz (h[i := topItem]))
    \<and> drop sz (heap_sift sz topItem h i) = drop sz h \<and> length (heap_sift sz topItem h i) = length h"
  using assms
proof (induction sz topItem h i rule: heap_sift.induct)
  case (1 sz topItem h i)
  let ?h = "h[i := topItem]" and ?l = "2 * i + 1" and ?r = "2 * i + 2"
  have len: "i < length h" "sz \<le> length ?h" using "1.prems" by auto
  have nth: "?h ! i = topItem" "?h ! ?l = h ! ?l" "?h ! ?r = h ! ?r" using len by auto
  have stay: "heap_sift sz topItem h i = ?h \<Longrightarrow> heap_ok sz ?h \<Longrightarrow> ?case"
    using "1.prems"(3) by simp
  have down: ?case
    if c: "c = ?l \<or> c = ?r" "c < sz" "heap_sift sz topItem h i = heap_sift sz topItem (h[i := h ! c]) c"
      and min: "\<And>d. d = ?l \<or> d = ?r \<Longrightarrow> d < sz \<Longrightarrow> int_doc (h ! c) \<le> int_doc (h ! d)"
      and less: "int_doc (h ! c) < int_doc topItem"
      and ih: "heap_hole sz ((h[i := h ! c])[c := topItem]) c \<Longrightarrow> sz \<le> length (h[i := h ! c]) \<Longrightarrow> c < sz \<Longrightarrow>
        heap_ok sz (heap_sift sz topItem (h[i := h ! c]) c)
        \<and> mset (take sz (heap_sift sz topItem (h[i := h ! c]) c)) = mset (take sz ((h[i := h ! c])[c := topItem]))
        \<and> drop sz (heap_sift sz topItem (h[i := h ! c]) c) = drop sz (h[i := h ! c])
        \<and> length (heap_sift sz topItem (h[i := h ! c]) c) = length (h[i := h ! c])" for c
  proof -
    have ci: "c \<noteq> i" "?h ! c = h ! c" using c(1) by auto
    have swap: "?h[i := ?h ! c, c := ?h ! i] = (h[i := h ! c])[c := topItem]" using ci nth by simp
    have "heap_hole sz (?h[i := ?h ! c, c := ?h ! i]) c"
      using min less nth ci by (intro heap_hole_down[OF "1.prems"(1) len(2) c(1,2)]) auto
    then have hole: "heap_hole sz ((h[i := h ! c])[c := topItem]) c" unfolding swap .
    have "mset (take sz ((h[i := h ! c])[c := topItem])) = mset (take sz ?h)"
    proof -
      have "take sz ((h[i := h ! c])[c := topItem]) = (take sz ?h)[i := take sz ?h ! c, c := take sz ?h ! i]"
        unfolding swap[symmetric] nth_take[OF c(2)] nth_take[OF "1.prems"(3)] by (simp only: take_update_swap)
      moreover have "mset \<dots> = mset (take sz ?h)"
        using c(2) "1.prems" by (intro mset_swap) auto
      ultimately show ?thesis by simp
    qed
    with ih[OF hole] c(2,3) "1.prems"(2,3) show ?case by simp
  qed
  show ?case
  proof (cases "sz \<le> ?l")
    case True
    then show ?thesis
      by (intro stay heap_hole_okI[OF "1.prems"(1)]) (subst heap_sift.simps, simp, auto)
  next
    case l: False
    show ?thesis
    proof (cases "?r < sz \<and> int_doc (h ! ?r) \<le> int_doc (h ! ?l)")
      case r: True
      show ?thesis
      proof (cases "int_doc topItem \<le> int_doc (h ! ?r)")
        case True
        then show ?thesis using l r nth
          by (intro stay heap_hole_okI[OF "1.prems"(1)]) (subst heap_sift.simps, simp, auto)
      next
        case False
        have "heap_sift sz topItem h i = heap_sift sz topItem (h[i := h ! ?r]) ?r"
          using l r False by (subst heap_sift.simps) (simp add: Let_def)
        then show ?thesis using l r False "1.IH"(1)[OF refl refl] by (intro down[of ?r]) auto
      qed
    next
      case r: False
      show ?thesis
      proof (cases "int_doc topItem \<le> int_doc (h ! ?l)")
        case True
        then show ?thesis using l r nth
          by (intro stay heap_hole_okI[OF "1.prems"(1)]) (subst heap_sift.simps, simp, auto)
      next
        case False
        have "heap_sift sz topItem h i = heap_sift sz topItem (h[i := h ! ?l]) ?l"
          using l r False by (subst heap_sift.simps) (auto simp: Let_def)
        moreover have "int_doc (h ! ?l) \<le> int_doc (h ! d)" if "d = ?l \<or> d = ?r" "d < sz" for d
          using that r by auto
        ultimately show ?thesis using l r False "1.IH"(2)[OF refl refl]
          by (intro down[of ?l]) (simp_all add: Let_def)
      qed
    qed
  qed
qed

section \<open>The items of the heap\<close>

definition or_heap :: "nat \<Rightarrow> 's or_item list \<Rightarrow> 's or_item multiset \<Rightarrow> bool" where
  "or_heap sz h M \<longleftrightarrow> sz \<le> length h \<and> heap_ok sz h \<and> M = mset (take sz h)"

lemma or_heap_root:
  assumes "or_heap sz h M" and "0 < sz"
  shows "h ! 0 \<in># M" and "x \<in># M \<Longrightarrow> int_doc (h ! 0) \<le> int_doc x" and "size M = sz"
proof -
  show "h ! 0 \<in># M" using assms by (auto simp: or_heap_def in_set_conv_nth intro!: exI[of _ 0])
  show "int_doc (h ! 0) \<le> int_doc x" if "x \<in># M"
    using that assms heap_root_least[of sz h] by (auto simp: or_heap_def in_set_conv_nth)
  show "size M = sz" using assms by (simp add: or_heap_def)
qed

lemma heap_hole_root:
  assumes "heap_ok sz h" and "sz' \<le> sz" and "\<And>k. 0 < k \<Longrightarrow> k < sz' \<Longrightarrow> h' ! k = h ! k"
  shows "heap_hole sz' h' 0"
  using assms by (auto simp: heap_ok_def heap_hole_def)

lemma heapAdjust_replace:
  assumes "or_heap sz h M" and "0 < sz" and "heap it = h[0 := x]" and "heapSize it = sz"
  shows "or_heap sz (heap (heapAdjust it)) (add_mset x (M - {#h ! 0#}))"
    and "heapSize (heapAdjust it) = sz" and "curDoc (heapAdjust it) = curDoc it"
proof -
  let ?h = "h[0 := x]"
  have l: "sz \<le> length ?h" "?h ! 0 = x" "?h[0 := x] = ?h"
    using assms by (cases h; auto simp: or_heap_def)+
  have "heap_hole sz ?h 0" using assms(1) by (intro heap_hole_root[where h = h and sz = sz]) (auto simp: or_heap_def)
  with heap_sift_ok[of sz ?h 0 x] l assms(2) have s: "heap_ok sz (heap_sift sz x ?h 0)"
    "mset (take sz (heap_sift sz x ?h 0)) = mset (take sz ?h)" "length (heap_sift sz x ?h 0) = length ?h" by auto
  obtain y ys where "h = y # ys" using assms(1,2) by (cases h) (auto simp: or_heap_def)
  then have "mset (take sz ?h) = add_mset x (M - {#h ! 0#})"
    using assms(1,2) by (cases sz) (auto simp: or_heap_def)
  with s l show "or_heap sz (heap (heapAdjust it)) (add_mset x (M - {#h ! 0#}))"
    by (simp add: heapAdjust_def assms(3,4) or_heap_def)
  show "heapSize (heapAdjust it) = sz" "curDoc (heapAdjust it) = curDoc it"
    using assms(4) by (simp_all add: heapAdjust_def)
qed

lemma heapRemoveRoot_remove:
  assumes "or_heap sz h M" and "0 < sz" and "heap it = h[0 := x]" and "heapSize it = sz"
  shows "or_heap (sz - 1) (heap (heapRemoveRoot it)) (M - {#h ! 0#})"
    and "heapSize (heapRemoveRoot it) = sz - 1"
proof -
  have len: "sz \<le> length h" and ok: "heap_ok sz h" using assms(1) by (auto simp: or_heap_def)
  obtain y ys where h: "h = y # ys" using len assms(2) by (cases h) auto
  obtain n where n: "sz = Suc n" using assms(2) by (cases sz) auto
  have M: "M - {#h ! 0#} = mset (take n ys)" using assms(1) by (simp add: or_heap_def h n)
  show "or_heap (sz - 1) (heap (heapRemoveRoot it)) (M - {#h ! 0#})"
  proof (cases "n = 0")
    case True
    then show ?thesis using assms(3,4) M n
      by (simp add: heapRemoveRoot_def or_heap_def heap_ok_def)
  next
    case False
    let ?h1 = "(h[0 := x])[0 := h[0 := x] ! n, n := h[0 := x] ! 0]"
    have nl: "n < length h" "n - 1 < length ys" using len n False h by auto
    have h1: "?h1 = (h[0 := h ! n])[n := x]" using False nl by (simp add: h)
    have hole: "heap_hole n ?h1 0" using ok False n by (intro heap_hole_root[where h = h and sz = sz]) (auto simp: h1)
    have root: "?h1[0 := ?h1 ! 0] = ?h1" by simp
    have "heap_hole n (?h1[0 := ?h1 ! 0]) 0" unfolding root by (rule hole)
    from heap_sift_ok[OF this] nl False len n have s: "heap_ok n (heap_sift n (?h1 ! 0) ?h1 0)"
      "mset (take n (heap_sift n (?h1 ! 0) ?h1 0)) = mset (take n ?h1)"
      "length (heap_sift n (?h1 ! 0) ?h1 0) = length ?h1" unfolding root by auto
    have tk: "take n ys = take (n - 1) ys @ [ys ! (n - 1)]"
      using take_Suc_conv_app_nth[OF nl(2)] False by simp
    have "take n ?h1 = ys ! (n - 1) # take (n - 1) ys"
      unfolding h1 using False h by (cases n) (auto simp: nth_Cons')
    then have "mset (take n ?h1) = M - {#h ! 0#}" unfolding M tk by simp
    with s len n show ?thesis
      by (simp add: heapRemoveRoot_def Let_def assms(3,4) False heapAdjust_def or_heap_def)
  qed
  show "heapSize (heapRemoveRoot it) = sz - 1"
    using assms(4) by (simp add: heapRemoveRoot_def heapAdjust_def Let_def)
qed

section \<open>Pending documents\<close>

definition items_ok :: "('s \<Rightarrow> u32 list \<Rightarrow> bool) \<Rightarrow> 's or_item multiset \<Rightarrow> bool" where
  "items_ok at M \<longleftrightarrow> (\<forall>x\<in>#M. item_doc x < 2 ^ 31
     \<and> (\<exists>ys. at (item_iter x) ys \<and> (\<forall>y\<in>set ys. item_doc x < y \<and> y < 2 ^ 31)))"

definition item_docs :: "('s \<Rightarrow> u32 list \<Rightarrow> bool) \<Rightarrow> 's or_item \<Rightarrow> u32 set" where
  "item_docs at x = insert (item_doc x) (set (rest_of at (item_iter x)))"

definition pending :: "('s \<Rightarrow> u32 list \<Rightarrow> bool) \<Rightarrow> u32 \<Rightarrow> 's or_item multiset \<Rightarrow> u32 set" where
  "pending at t M = {d. t \<le> d \<and> (\<exists>x\<in>#M. d \<in> item_docs at x)}"

definition weight :: "('s \<Rightarrow> u32 list \<Rightarrow> bool) \<Rightarrow> 's or_item multiset \<Rightarrow> nat" where
  "weight at M = (\<Sum>x\<in>#M. length (rest_of at (item_iter x)) + 1)"

text \<open>
  The state between two calls: the merged iterator is before \<open>xs\<close>.  Ids are compared as signed
  integers and 0 stands for "nothing delivered yet", so ids have to lie between 1 and \<open>2^31 - 1\<close>.
\<close>

definition or_at :: "('s \<Rightarrow> u32 list \<Rightarrow> bool) \<Rightarrow> 's lazy_or \<Rightarrow> u32 list \<Rightarrow> bool" where
  "or_at at it xs \<longleftrightarrow> doc_list xs \<and>
     (curDoc it = NO_MORE_DOCS \<and> xs = []
      \<or> curDoc it < 2 ^ 31 \<and> 0 < heapSize it \<and> item_doc (heap it ! 0) = curDoc it
        \<and> (\<exists>M. or_heap (heapSize it) (heap it) M \<and> items_ok at M
               \<and> set xs = pending at (curDoc it + 1) M))"

definition or_ended :: "'s lazy_or \<Rightarrow> bool" where
  "or_ended it \<longleftrightarrow> curDoc it = NO_MORE_DOCS"

lemma int_doc_less_eq:
  "item_doc x < 2 ^ 31 \<Longrightarrow> item_doc y < 2 ^ 31 \<Longrightarrow> int_doc x \<le> int_doc y \<longleftrightarrow> item_doc x \<le> item_doc y"
proof -
  have small: "sint d = uint d" if "d < 2 ^ 31" for d :: u32
  proof -
    have u: "uint d < 2 ^ 31" using that by (simp add: word_less_def)
    have "- (2 ^ 31) \<le> uint d" using uint_ge_0[of d] by (rule order_trans[rotated]) simp
    from signed_take_bit_int_eq_self[OF this u] show ?thesis by (simp add: sint_uint)
  qed
  show "item_doc x < 2 ^ 31 \<Longrightarrow> item_doc y < 2 ^ 31 \<Longrightarrow> int_doc x \<le> int_doc y \<longleftrightarrow> item_doc x \<le> item_doc y"
    by (simp add: int_doc_def small word_le_def)
qed

context doc_stream begin

lemma item_docs_at: "at (item_iter x) ys \<Longrightarrow> item_docs at x = insert (item_doc x) (set ys)"
  by (simp add: item_docs_def rest_of_eq)

lemma pull_item:
  assumes "pull_ok t pull" and "items_ok at M" and "x \<in># M" and "item_doc x < t"
  shows "\<exists>d s'. pull (item_iter x) = Inr (d, s') \<and>
    (if d = NO_MORE_DOCS then pending at t M = pending at t (M - {#x#})
     else let x' = \<lparr>item_iter = s', item_doc = d\<rparr>; M' = add_mset x' (M - {#x#}) in
       items_ok at M' \<and> pending at t M = pending at t M' \<and> weight at M' < weight at M)"
proof -
  from assms(2,3) obtain ys where ys: "at (item_iter x) ys" "\<forall>y\<in>set ys. item_doc x < y \<and> y < 2 ^ 31"
    by (auto simp: items_ok_def)
  have M: "M = add_mset x (M - {#x#})" using assms(3) by simp
  have pend: "pending at t (add_mset z N) = {d \<in> item_docs at z. t \<le> d} \<union> pending at t N" for z N
    by (auto simp: pending_def)
  from assms(1) ys(1) obtain d s' where d: "pull (item_iter x) = Inr (d, s')"
    "if d = NO_MORE_DOCS then \<forall>y\<in>set ys. y < t
     else \<exists>pre zs. ys = pre @ d # zs \<and> at s' zs \<and> (\<forall>y\<in>set pre. y < t)" unfolding pull_ok_def by meson
  show ?thesis
  proof (cases "d = NO_MORE_DOCS")
    case True
    then have "{d \<in> item_docs at x. t \<le> d} = {}" using d(2) assms(4) by (auto simp: item_docs_at[OF ys(1)])
    then have "pending at t M = pending at t (M - {#x#})" using pend[of x "M - {#x#}"] M by (metis Un_empty_left)
    with d(1) True show ?thesis by auto
  next
    case False
    with d(2) obtain pre zs where z: "ys = pre @ d # zs" "at s' zs" "\<forall>y\<in>set pre. y < t" by auto
    let ?x = "\<lparr>item_iter = s', item_doc = d\<rparr>" and ?N = "M - {#x#}"
    have "\<forall>y\<in>set zs. d < y" using at_docs[OF ys(1)] z(1) by (auto simp: doc_list_def sorted_wrt_append)
    then have "items_ok at (add_mset ?x ?N)"
      using assms(2) ys(2) z(1,2) by (auto simp: items_ok_def dest: in_diffD)
    moreover have "{d \<in> item_docs at x. t \<le> d} = {d \<in> item_docs at ?x. t \<le> d}"
      using z(1,3) assms(4) item_docs_at[OF ys(1)] item_docs_at[of ?x zs] z(2) by auto
    then have "pending at t M = pending at t (add_mset ?x ?N)"
      using pend[of x ?N] pend[of ?x ?N] M by simp
    moreover have "weight at M = length ys + 1 + weight at ?N"
      using M rest_of_eq[OF ys(1)] by (metis (no_types, lifting) weight_def image_mset_add_mset sum_mset.insert)
    then have "weight at (add_mset ?x ?N) < weight at M"
      using z by (simp add: weight_def rest_of_eq)
    ultimately show ?thesis using d(1) False by (auto simp: Let_def)
  qed
qed

text \<open>The loop delivers the least pending document, or ends when there is none.\<close>

definition or_result :: "u32 \<Rightarrow> 's or_item multiset \<Rightarrow> u32 \<Rightarrow> 's lazy_or \<Rightarrow> bool" where
  "or_result t M d it \<longleftrightarrow> curDoc it = d \<and>
     (if pending at t M = {} then d = NO_MORE_DOCS
      else d < 2 ^ 31 \<and> d \<in> pending at t M \<and> (\<forall>d'\<in>pending at t M. d \<le> d') \<and> 0 < heapSize it
        \<and> item_doc (heap it ! 0) = d
        \<and> (\<exists>M'. or_heap (heapSize it) (heap it) M' \<and> items_ok at M' \<and> pending at t M' = pending at t M))"

lemma or_result_reached:
  assumes "or_heap (heapSize it) (heap it) M'" and "items_ok at M'" and "0 < heapSize it"
    and "pending at t M' = pending at t M" and "d = item_doc (heap it ! 0)" and "t \<le> d"
  shows "or_result t M d (it\<lparr>curDoc := d\<rparr>)"
proof -
  note root = or_heap_root[OF assms(1,3)]
  from root(1) assms(2) have d31: "d < 2 ^ 31" by (auto simp: items_ok_def assms(5))
  have "d \<in> pending at t M'" using root(1) assms(5,6) by (auto simp: pending_def item_docs_def)
  moreover have "d \<le> d'" if d': "d' \<in> pending at t M'" for d'
  proof -
    from d' obtain x where x: "x \<in># M'" "d' \<in> item_docs at x" by (auto simp: pending_def)
    with assms(2) obtain ys where ys: "item_doc x < 2 ^ 31" "at (item_iter x) ys" "\<forall>y\<in>set ys. item_doc x < y"
      by (auto simp: items_ok_def)
    have "d \<le> item_doc x" using root(2)[OF x(1)] int_doc_less_eq[of "heap it ! 0" x] ys(1) d31 assms(5) by simp
    with x(2) ys(3) item_docs_at[OF ys(2)] show ?thesis by auto
  qed
  ultimately show ?thesis using assms d31 by (auto simp: or_result_def)
qed

lemma or_loop_correct:
  assumes "pull_ok t pull" and "or_heap (heapSize it) (heap it) M" and "items_ok at M"
    and "0 < heapSize it" and "item_doc (heap it ! 0) < t" and "int (weight at M) < fuel"
  shows "\<exists>d it'. or_loop pull (\<lambda>topDoc. topDoc \<ge> t) fuel it = Inr (d, it') \<and> or_result t M d it'"
  using assms(2-)
proof (induction "weight at M" arbitrary: M it fuel rule: less_induct)
  case less
  let ?x = "heap it ! 0"
  note root = or_heap_root[OF less.prems(1,3)]
  from pull_item[OF assms(1) less.prems(2) root(1) less.prems(4)] obtain d s' where
    p: "pull (item_iter ?x) = Inr (d, s')" and
    d: "if d = NO_MORE_DOCS then pending at t M = pending at t (M - {#?x#})
        else let x' = \<lparr>item_iter = s', item_doc = d\<rparr>; M' = add_mset x' (M - {#?x#}) in
          items_ok at M' \<and> pending at t M = pending at t M' \<and> weight at M' < weight at M" by meson
  have wM: "weight at M = length (rest_of at (item_iter ?x)) + 1 + weight at (M - {#?x#})"
    using root(1) by (metis (no_types, lifting) insert_DiffM weight_def image_mset_add_mset sum_mset.insert)
  have fuel: "\<not> fuel \<le> 0" using less.prems(5) by linarith
  show ?case
  proof (cases "d = NO_MORE_DOCS")
    case False
    let ?x' = "\<lparr>item_iter = s', item_doc = d\<rparr>"
    let ?M = "add_mset ?x' (M - {#?x#})"
    let ?it = "heapAdjust (it\<lparr>heap := (heap it)[0 := ?x']\<rparr>)"
    from d False have M: "items_ok at ?M" "pending at t M = pending at t ?M" "weight at ?M < weight at M"
      by (simp_all add: Let_def)
    have h: "or_heap (heapSize ?it) (heap ?it) ?M" "heapSize ?it = heapSize it"
      using heapAdjust_replace[OF less.prems(1,3), of "it\<lparr>heap := (heap it)[0 := ?x']\<rparr>" ?x'] by simp_all
    have step: "or_loop pull (\<lambda>topDoc. topDoc \<ge> t) fuel it =
        (if t \<le> item_doc (heap ?it ! 0) then Inr (item_doc (heap ?it ! 0), ?it\<lparr>curDoc := item_doc (heap ?it ! 0)\<rparr>)
         else or_loop pull (\<lambda>topDoc. topDoc \<ge> t) (fuel - 1) ?it)"
      using fuel False p by (subst or_loop.simps) (simp add: Let_def)
    show ?thesis
    proof (cases "t \<le> item_doc (heap ?it ! 0)")
      case True
      then have "or_result t M (item_doc (heap ?it ! 0)) (?it\<lparr>curDoc := item_doc (heap ?it ! 0)\<rparr>)"
        using h(2) less.prems(3) M by (intro or_result_reached[OF h(1) M(1)]) auto
      with step True show ?thesis by auto
    next
      case False
      then have "\<exists>d it'. or_loop pull (\<lambda>topDoc. topDoc \<ge> t) (fuel - 1) ?it = Inr (d, it') \<and> or_result t ?M d it'"
        using h M less.prems(3,5) by (intro less.hyps) auto
      then show ?thesis unfolding step if_not_P[OF False] or_result_def M(2) .
    qed
  next
    case True
    let ?M = "M - {#?x#}"
    let ?x' = "\<lparr>item_iter = s', item_doc = item_doc ?x\<rparr>"
    let ?it = "heapRemoveRoot (it\<lparr>heap := (heap it)[0 := ?x']\<rparr>)"
    from d True have M: "pending at t M = pending at t ?M" by simp
    have ok: "items_ok at ?M" using less.prems(2) by (auto simp: items_ok_def dest: in_diffD)
    have h: "or_heap (heapSize ?it) (heap ?it) ?M" "heapSize ?it = heapSize it - 1"
      using heapRemoveRoot_remove[OF less.prems(1,3), of "it\<lparr>heap := (heap it)[0 := ?x']\<rparr>" ?x'] by simp_all
    have step: "or_loop pull (\<lambda>topDoc. topDoc \<ge> t) fuel it =
        (if heapSize ?it = 0 then Inr (NO_MORE_DOCS, ?it\<lparr>curDoc := NO_MORE_DOCS\<rparr>)
         else if t \<le> item_doc (heap ?it ! 0) then Inr (item_doc (heap ?it ! 0), ?it\<lparr>curDoc := item_doc (heap ?it ! 0)\<rparr>)
         else or_loop pull (\<lambda>topDoc. topDoc \<ge> t) (fuel - 1) ?it)"
      using fuel True p by (subst or_loop.simps) (simp add: Let_def)
    consider (last) "heapSize ?it = 0" | (reached) "0 < heapSize ?it" "t \<le> item_doc (heap ?it ! 0)"
      | (go_on) "0 < heapSize ?it" "\<not> t \<le> item_doc (heap ?it ! 0)" by auto
    then show ?thesis
    proof cases
      case last
      then have "?M = {#}" using h(1) by (simp add: or_heap_def)
      then have "pending at t M = {}" unfolding M by (simp add: pending_def)
      with last show ?thesis unfolding step by (simp add: or_result_def)
    next
      case reached
      then have "or_result t M (item_doc (heap ?it ! 0)) (?it\<lparr>curDoc := item_doc (heap ?it ! 0)\<rparr>)"
        using M by (intro or_result_reached[OF h(1) ok]) auto
      with step reached show ?thesis by auto
    next
      case go_on
      then have "\<exists>d it'. or_loop pull (\<lambda>topDoc. topDoc \<ge> t) (fuel - 1) ?it = Inr (d, it') \<and> or_result t ?M d it'"
        using h ok wM less.prems(5) by (intro less.hyps) auto
      with go_on show ?thesis unfolding step or_result_def M by simp
    qed
  qed
qed

section \<open>The contract of the merged iterator\<close>

lemma plus_one_le: "c < 2 ^ 31 \<Longrightarrow> c < d \<longleftrightarrow> c + 1 \<le> (d :: u32)"
proof -
  assume "c < 2 ^ 31"
  then have "c \<noteq> - 1" by auto
  then show ?thesis using inc_less_eq_iff[of c d] by simp
qed

lemma or_result_at:
  assumes "or_result t M d it" and "doc_list ys" and "set ys = pending at t M"
  shows "case ys of [] \<Rightarrow> d = NO_MORE_DOCS \<and> or_ended it
    | y # zs \<Rightarrow> d = y \<and> or_at at it zs \<and> curDoc it = y"
proof (cases ys)
  case Nil
  with assms show ?thesis by (simp add: or_result_def or_ended_def)
next
  case (Cons y zs)
  have "y \<in> pending at t M" "\<forall>d'\<in>pending at t M. y \<le> d'" "pending at t M \<noteq> {}"
    using assms(2,3) Cons by (force, force, force)
  with assms(1) have d: "d = y" "d < 2 ^ 31" "curDoc it = d" "0 < heapSize it" "item_doc (heap it ! 0) = d"
    by (auto simp: or_result_def intro: antisym)
  from assms(1) \<open>pending at t M \<noteq> {}\<close> obtain M' where M': "or_heap (heapSize it) (heap it) M'"
    "items_ok at M'" "pending at t M' = pending at t M" by (auto simp: or_result_def)
  have "t \<le> d" using assms(3) Cons d(1) by (auto simp: pending_def)
  then have "d < x \<Longrightarrow> t \<le> x" for x by simp
  then have "pending at (d + 1) M' = {x \<in> pending at t M'. d < x}"
    unfolding pending_def plus_one_le[OF d(2), symmetric] by blast
  also have "\<dots> = set zs" unfolding M'(3) assms(3)[symmetric] Cons d(1) using assms(2) Cons by auto
  finally have "or_at at it zs" using assms(2) Cons d M' unfolding or_at_def by auto
  with Cons d show ?thesis by simp
qed

lemma weight_le: "items_ok at M \<Longrightarrow> weight at M \<le> size M * (2 ^ 32 + 1)"
proof (induction M)
  case (add x M)
  then obtain ys where "at (item_iter x) ys" by (auto simp: items_ok_def)
  then have "length (rest_of at (item_iter x)) \<le> 2 ^ 32" using length_doc_list at_docs rest_of_eq by metis
  moreover have "items_ok at M" using add.prems by (simp add: items_ok_def)
  ultimately show ?case using add.IH by (simp add: weight_def)
qed (simp add: weight_def)

lemma or_loop_at:
  assumes "or_at at it xs" and "curDoc it \<noteq> NO_MORE_DOCS" and "pull_ok t pull" and "curDoc it < t"
  shows "\<exists>d it'. or_loop pull (\<lambda>topDoc. topDoc \<ge> t) (or_fuel (heapSize it)) it = Inr (d, it')
    \<and> (case skip_to t xs of [] \<Rightarrow> d = NO_MORE_DOCS \<and> or_ended it'
       | y # zs \<Rightarrow> d = y \<and> or_at at it' zs \<and> curDoc it' = y)"
proof -
  from assms(1,2) obtain M where M: "doc_list xs" "curDoc it < 2 ^ 31" "0 < heapSize it"
    "item_doc (heap it ! 0) = curDoc it" "or_heap (heapSize it) (heap it) M" "items_ok at M"
    "set xs = pending at (curDoc it + 1) M" by (auto simp: or_at_def)
  have "weight at M \<le> heapSize it * (2 ^ 32 + 1)"
    using weight_le[OF M(6)] or_heap_root(3)[OF M(5,3)] by simp
  then have "int (weight at M) < or_fuel (heapSize it)" by (simp add: or_fuel_def)
  moreover have "item_doc (heap it ! 0) < t" using M(4) assms(4) by simp
  ultimately obtain d it' where
    r: "or_loop pull (\<lambda>topDoc. topDoc \<ge> t) (or_fuel (heapSize it)) it = Inr (d, it')" "or_result t M d it'"
    using or_loop_correct[OF assms(3) M(5,6,3)] by blast
  have "set (skip_to t xs) = pending at t M"
    using set_skip_to[OF M(1)] M(7) plus_one_le[OF M(2)] assms(4) by (auto simp: pending_def)
  with or_result_at[OF r(2) skip_to_doc_list[OF M(1)]] r(1) show ?thesis by auto
qed

lemma or_stream: "doc_stream (or_vtable V) (or_at at) or_ended"
proof -
  have next_step: "\<exists>d it'. or_nextDoc V it = Inr (d, it')
    \<and> (case xs of [] \<Rightarrow> d = NO_MORE_DOCS \<and> or_ended it' | y # zs \<Rightarrow> d = y \<and> or_at at it' zs \<and> curDoc it' = y)"
    if a: "or_at at it xs" for it xs
  proof (cases "curDoc it = NO_MORE_DOCS")
    case True
    then have "xs = []" using a by (auto simp: or_at_def NO_MORE_DOCS_def)
    with True show ?thesis by (simp add: or_nextDoc_def or_ended_def)
  next
    case False
    with a have c: "curDoc it < 2 ^ 31" and s: "\<forall>x\<in>set xs. curDoc it + 1 \<le> x"
      by (auto simp: or_at_def pending_def)
    have lt: "curDoc it < curDoc it + 1" using plus_one_le[OF c] by blast
    have skip: "skip_to (curDoc it + 1) xs = xs" by (rule skip_to_all[OF s])
    have "(\<lambda>topDoc. topDoc > curDoc it) = (\<lambda>topDoc. topDoc \<ge> curDoc it + 1)"
      using plus_one_le[OF c] by auto
    then show ?thesis
      using or_loop_at[OF a False nextDoc_pull_ok lt] skip False by (simp only: or_nextDoc_def if_False)
  qed
  show ?thesis
  proof
    show "or_at at it xs \<Longrightarrow> doc_list xs" for it xs by (simp add: or_at_def)
    show "or_at at it [] \<Longrightarrow> \<exists>s'. vt_nextDoc (or_vtable V) it = Inr (NO_MORE_DOCS, s') \<and> or_ended s'" for it
      using next_step[of it "[]"] by (auto simp: or_vtable_def)
    show "or_at at it (x # xs) \<Longrightarrow> \<exists>s'. vt_nextDoc (or_vtable V) it = Inr (x, s') \<and> or_at at s' xs
        \<and> vt_docID (or_vtable V) s' = x" for it x xs
      using next_step[of it "x # xs"] by (auto simp: or_vtable_def or_docID_def)
  qed
qed

text \<open>A new merged iterator stands before the union of its operands.\<close>

lemma or_iter_at:
  assumes "list_all2 at iters yss" and "\<forall>ys\<in>set yss. \<forall>y\<in>set ys. 0 < y \<and> y < 2 ^ 31"
    and "doc_list xs" and "set xs = (\<Union>ys\<in>set yss. set ys)"
  shows "or_at at (or_iter iters) xs"
proof (cases "iters = []")
  case True
  with assms show ?thesis by (simp add: or_at_def or_iter_def)
next
  case False
  let ?h = "map (\<lambda>it. \<lparr>item_iter = it, item_doc = 0\<rparr>) iters"
  have ok: "items_ok at (mset ?h)"
    using assms(1,2) by (fastforce simp: items_ok_def list_all2_conv_all_nth in_set_conv_nth)
  have "or_heap (length iters) ?h (mset ?h)" by (auto simp: or_heap_def heap_ok_def int_doc_def)
  moreover have "pending at 1 (mset ?h) = {d. 1 \<le> d \<and> (\<exists>ys\<in>set yss. d \<in> set ys)}"
  proof -
    have "set (rest_of at it) = set ys" if "at it ys" for it ys using rest_of_eq[OF that] by simp
    then show ?thesis using assms(1)
      by (auto simp: pending_def item_docs_def list_all2_conv_all_nth in_set_conv_nth rest_of_eq) (metis nth_mem rest_of_eq)+
  qed
  moreover have "1 \<le> d \<longleftrightarrow> 0 < d" for d :: u32 using plus_one_le[of 0 d] by simp
  ultimately show ?thesis using ok assms(2-4) False
    unfolding or_at_def or_iter_def by (auto intro!: exI[of _ "mset ?h"])
qed

end

context doc_iterator begin

lemma or_iterator: "doc_iterator (or_vtable V) (or_at at) or_ended"
proof -
  have step: "\<exists>d it'. or_Advance V t it = Inr (d, it')
    \<and> (case skip_to t xs of [] \<Rightarrow> d = NO_MORE_DOCS \<and> or_ended it'
       | y # zs \<Rightarrow> d = y \<and> or_at at it' zs \<and> curDoc it' = y)" if a: "or_at at it xs" for it xs t
  proof (cases "curDoc it = NO_MORE_DOCS")
    case True
    then have "xs = []" using a by (auto simp: or_at_def NO_MORE_DOCS_def)
    with True show ?thesis by (simp add: or_Advance_def or_ended_def)
  next
    case False
    with a have c: "curDoc it < 2 ^ 31" and s: "\<forall>x\<in>set xs. curDoc it + 1 \<le> x"
      by (auto simp: or_at_def pending_def)
    let ?t = "if t \<le> curDoc it then curDoc it + 1 else t"
    have "curDoc it < curDoc it + 1" using plus_one_le[OF c] by blast
    then have "curDoc it < ?t" by (simp add: not_le)
    moreover have "skip_to ?t xs = skip_to t xs"
    proof (cases "t \<le> curDoc it")
      case True
      then have "\<forall>x\<in>set xs. t \<le> x" using s plus_one_le[OF c] by (meson le_less_trans less_imp_le)
      with True s show ?thesis by (simp add: skip_to_all)
    qed simp
    ultimately show ?thesis
      using or_loop_at[OF a False Advance_pull_ok, of ?t] False by (simp only: or_Advance_def Let_def if_False)
  qed
  show ?thesis
  proof (intro doc_iterator.intro or_stream doc_iterator_axioms.intro)
    show "or_at at it xs \<Longrightarrow> skip_to t xs = [] \<Longrightarrow>
        \<exists>s'. vt_Advance (or_vtable V) t it = Inr (NO_MORE_DOCS, s') \<and> or_ended s'" for it xs t
      using step[of it xs t] by (auto simp: or_vtable_def)
    show "or_at at it xs \<Longrightarrow> skip_to t xs = y # ys \<Longrightarrow>
        \<exists>s'. vt_Advance (or_vtable V) t it = Inr (y, s') \<and> or_at at s' ys \<and> vt_docID (or_vtable V) s' = y" for it xs t y ys
      using step[of it xs t] by (auto simp: or_vtable_def or_docID_def)
    show "or_ended it \<Longrightarrow> \<exists>s'. vt_Advance (or_vtable V) t it = Inr (NO_MORE_DOCS, s') \<and> or_ended s'" for it t
      by (simp add: or_vtable_def or_Advance_def or_ended_def)
  qed
qed

end

end
