(* ===== verification/LazyAndSet.thy ===== *)
theory LazyAndSet
  imports DocIterator
begin

text \<open>
  \<^verbatim>\<open>varint/LazyAndSet.cpp\<close>: the intersection of sets, document at a time, by advancing
  every operand to the largest candidate seen so far.
\<close>

lemma word_gap: "t < d \<Longrightarrow> 4294967296 - unat d < 4294967296 - unat (t :: u32)"
proof -
  assume "t < d"
  then have "unat t < unat d" by (simp add: word_less_nat_alt)
  moreover have "unat d < 4294967296" using unsigned_less[of d, where ?'a = nat] by simp
  ultimately show ?thesis by simp
qed

section \<open>State and operations\<close>

record 's lazy_and =
  lastReturn :: u32
  iterators :: "'s list"

definition and_iter :: "'s list \<Rightarrow> 's lazy_and" where
  "and_iter iters =
     (if length iters = 0 then \<lparr>lastReturn = NO_MORE_DOCS, iterators = []\<rparr>
      else \<lparr>lastReturn = 0, iterators = iters\<rparr>)"

definition and_docID :: "'s lazy_and \<Rightarrow> u32" where
  "and_docID it = lastReturn it"

text \<open>
  The \<open>while (i < size)\<close> loop of \<open>nextDoc\<close> and \<open>Advance\<close>.  It ends whatever the operands do: each
  round moves on to the next operand or raises the target.
\<close>

function and_loop :: "'s iter_vtable \<Rightarrow> u32 \<Rightarrow> nat \<Rightarrow> nat \<Rightarrow> 's list \<Rightarrow> (u32 \<times> 's lazy_and) res" where
  "and_loop V target i skip iters =
     (if i < length iters then
        if i \<noteq> skip then
          (case vt_Advance V target (iters ! i) of
             Inl e \<Rightarrow> Inl e
           | Inr (docId, s) \<Rightarrow>
               let iters' = iters[i := s] in
               if docId = NO_MORE_DOCS then Inr (NO_MORE_DOCS, \<lparr>lastReturn = NO_MORE_DOCS, iterators = iters'\<rparr>)
               else if docId > target then
                 (if i \<noteq> 0 then and_loop V docId 0 i iters' else and_loop V docId (i + 1) 0 iters')
               else and_loop V target (i + 1) skip iters')
        else and_loop V target (i + 1) skip iters
      else Inr (target, \<lparr>lastReturn = target, iterators = iters\<rparr>))"
  by pat_completeness auto
termination
  by (relation "measures [\<lambda>(V, t, i, k, xs). 2 ^ 32 - unat t, \<lambda>(V, t, i, k, xs). length xs - i]")
    (auto dest: word_gap)

declare and_loop.simps [simp del]

definition and_nextDoc :: "'s iter_vtable \<Rightarrow> 's lazy_and \<Rightarrow> (u32 \<times> 's lazy_and) res" where
  "and_nextDoc V it =
     (if lastReturn it = NO_MORE_DOCS then Inr (NO_MORE_DOCS, it)
      else rbind (vt_nextDoc V (iterators it ! 0)) (\<lambda>(target, s).
        let iters = (iterators it)[0 := s] in
        if target = NO_MORE_DOCS then Inr (NO_MORE_DOCS, \<lparr>lastReturn = NO_MORE_DOCS, iterators = iters\<rparr>)
        else and_loop V target 1 0 iters))"

definition and_Advance :: "'s iter_vtable \<Rightarrow> u32 \<Rightarrow> 's lazy_and \<Rightarrow> (u32 \<times> 's lazy_and) res" where
  "and_Advance V target0 it =
     (if lastReturn it = NO_MORE_DOCS then Inr (NO_MORE_DOCS, it)
      else rbind (vt_Advance V target0 (iterators it ! 0)) (\<lambda>(target, s).
        let iters = (iterators it)[0 := s] in
        if target = NO_MORE_DOCS then Inr (NO_MORE_DOCS, \<lparr>lastReturn = NO_MORE_DOCS, iterators = iters\<rparr>)
        else and_loop V target 1 0 iters))"

definition and_vtable :: "'s iter_vtable \<Rightarrow> 's lazy_and iter_vtable" where
  "and_vtable V = \<lparr>vt_docID = and_docID, vt_nextDoc = and_nextDoc V, vt_Advance = and_Advance V\<rparr>"

text \<open>\<open>LazyAndSet::find\<close> and \<open>LazyAndSet::size\<close>, on fresh iterators of the operands.\<close>

definition and_find :: "'s iter_vtable \<Rightarrow> u32 \<Rightarrow> 's list \<Rightarrow> bool res" where
  "and_find V val iters =
     rbind (and_Advance V val (and_iter iters)) (\<lambda>(docid, it). Inr (docid \<noteq> NO_MORE_DOCS \<and> docid = val))"

section \<open>The contract of the intersection\<close>

definition and_at :: "('s \<Rightarrow> u32 list \<Rightarrow> bool) \<Rightarrow> 's lazy_and \<Rightarrow> u32 list \<Rightarrow> bool" where
  "and_at at it xs \<longleftrightarrow> doc_list xs \<and>
     (lastReturn it = NO_MORE_DOCS \<and> xs = []
      \<or> lastReturn it \<noteq> NO_MORE_DOCS \<and> iterators it \<noteq> []
        \<and> (\<exists>yss. list_all2 at (iterators it) yss \<and> set xs = (\<Inter>ys\<in>set yss. set ys)))"

definition and_ended :: "'s lazy_and \<Rightarrow> bool" where
  "and_ended it \<longleftrightarrow> lastReturn it = NO_MORE_DOCS"

text \<open>
  Inside the loop: \<open>D j\<close> holds of the operands that have just delivered the target, which still
  offer it; \<open>C\<close> are the documents all operands offer.
\<close>

definition and_inv :: "('s \<Rightarrow> u32 list \<Rightarrow> bool) \<Rightarrow> u32 \<Rightarrow> (nat \<Rightarrow> bool) \<Rightarrow> 's list \<Rightarrow> u32 list list \<Rightarrow> u32 set \<Rightarrow> bool" where
  "and_inv at target D iters yss C \<longleftrightarrow>
     list_all2 at iters yss \<and> target \<noteq> NO_MORE_DOCS \<and> (\<exists>k<length iters. D k)
   \<and> (\<forall>j<length iters. D j \<longrightarrow> (\<forall>y\<in>set (yss ! j). target < y))
   \<and> (\<forall>c. c \<in> C \<longleftrightarrow> (\<forall>j<length iters. (D j \<and> c = target) \<or> c \<in> set (yss ! j)))"

definition and_result :: "('s \<Rightarrow> u32 list \<Rightarrow> bool) \<Rightarrow> u32 set \<Rightarrow> u32 \<Rightarrow> 's lazy_and \<Rightarrow> bool" where
  "and_result at C d it \<longleftrightarrow> lastReturn it = d \<and>
     (if C = {} then d = NO_MORE_DOCS
      else d \<noteq> NO_MORE_DOCS \<and> d \<in> C \<and> (\<forall>c\<in>C. d \<le> c) \<and> iterators it \<noteq> []
        \<and> (\<exists>yss. list_all2 at (iterators it) yss \<and> (\<Inter>ys\<in>set yss. set ys) = C - {d}))"

lemma and_inv_mem:
  "and_inv at target D iters yss C \<Longrightarrow>
     c \<in> C \<longleftrightarrow> (\<forall>j<length iters. (D j \<and> c = target) \<or> c \<in> set (yss ! j))"
  unfolding and_inv_def by blast

lemma and_inv_ge: "and_inv at target D iters yss C \<Longrightarrow> c \<in> C \<Longrightarrow> target \<le> c"
  unfolding and_inv_def by (metis less_imp_le order_refl)

context doc_iterator begin

lemma and_inv_at: "and_inv at target D iters yss C \<Longrightarrow> i < length iters \<Longrightarrow> at (iters ! i) (yss ! i)"
  by (auto simp: and_inv_def list_all2_conv_all_nth)

lemma and_inv_length: "and_inv at target D iters yss C \<Longrightarrow> length yss = length iters"
  by (auto simp: and_inv_def dest: list_all2_lengthD)

text \<open>Operand \<open>i\<close> has ended, has raised the target, or has delivered it.\<close>

lemma and_inv_end:
  assumes "and_inv at target D iters yss C" and "i < length iters" and "\<not> D i"
    and "skip_to target (yss ! i) = []"
  shows "C = {}"
proof -
  have "set (skip_to target (yss ! i)) = {x \<in> set (yss ! i). target \<le> x}"
    by (rule set_skip_to[OF at_docs[OF and_inv_at[OF assms(1,2)]]])
  then show ?thesis
    using and_inv_ge[OF assms(1)] and_inv_mem[OF assms(1)] assms(2-4) by (metis (no_types, lifting) empty_iff equals0I
        list.set(1) mem_Collect_eq)
qed

lemma and_inv_raise:
  assumes inv: "and_inv at target D iters yss C" and "i < length iters" and "\<not> D i"
    and "skip_to target (yss ! i) = y # zs" and "target < y" and "at s zs" and D': "\<And>j. j < length iters \<Longrightarrow> D' j \<longleftrightarrow> j = i"
  shows "and_inv at y D' (iters[i := s]) (yss[i := zs]) C"
proof -
  note docs = at_docs[OF and_inv_at[OF assms(1,2)]]
  have skip: "set (y # zs) = {x \<in> set (yss ! i). target \<le> x}" using set_skip_to[OF docs, of target] assms(4) by simp
  have yz: "doc_list (y # zs)" using skip_to_doc_list[OF docs, of target] assms(4) by simp
  have len: "length yss = length iters" by (rule and_inv_length[OF inv])
  have "list_all2 at (iters[i := s]) (yss[i := zs])"
    using inv assms(6) by (auto simp: and_inv_def intro: list_all2_update_cong)
  moreover have "c \<in> C \<longleftrightarrow> (\<forall>j<length iters. (D' j \<and> c = y) \<or> c \<in> set (yss[i := zs] ! j))" for c
  proof
    assume c: "c \<in> C"
    then have ci: "c \<in> set (y # zs)" using and_inv_mem[OF inv] and_inv_ge[OF inv] assms(2,3) skip by blast
    then have "target < c" using yz assms(5) by (auto intro: less_trans)
    then have "c \<noteq> target" by auto
    then have "\<forall>j<length iters. c \<in> set (yss ! j)" using iffD1[OF and_inv_mem[OF inv] c] by simp
    with ci D' assms(2) len show "\<forall>j<length iters. (D' j \<and> c = y) \<or> c \<in> set (yss[i := zs] ! j)"
      by (auto simp: nth_list_update)
  next
    assume c: "\<forall>j<length iters. (D' j \<and> c = y) \<or> c \<in> set (yss[i := zs] ! j)"
    have "c \<in> set (y # zs)" using c assms(2) len by auto
    then have "c \<in> set (yss ! i)" using skip by blast
    moreover have "c \<in> set (yss ! j)" if "j < length iters" "j \<noteq> i" for j using c that D'[OF that(1)] by auto
    ultimately show "c \<in> C" using and_inv_mem[OF inv] by metis
  qed
  moreover have "\<forall>j<length iters. D' j \<longrightarrow> (\<forall>x\<in>set (yss[i := zs] ! j). y < x)"
    using D' len yz by auto
  ultimately show ?thesis using assms(2) D' yz unfolding and_inv_def by auto
qed

lemma and_inv_keep:
  assumes inv: "and_inv at target D iters yss C" and "i < length iters" and "\<not> D i"
    and "skip_to target (yss ! i) = target # zs" and "at s zs" and D': "\<And>j. j < length iters \<Longrightarrow> D' j \<longleftrightarrow> D j \<or> j = i"
  shows "and_inv at target D' (iters[i := s]) (yss[i := zs]) C"
proof -
  note docs = at_docs[OF and_inv_at[OF assms(1,2)]]
  have skip: "set (target # zs) = {x \<in> set (yss ! i). target \<le> x}" using set_skip_to[OF docs, of target] assms(4) by simp
  have yz: "doc_list (target # zs)" using skip_to_doc_list[OF docs, of target] assms(4) by simp
  have len: "length yss = length iters" by (rule and_inv_length[OF inv])
  have "list_all2 at (iters[i := s]) (yss[i := zs])"
    using inv assms(5) by (auto simp: and_inv_def intro: list_all2_update_cong)
  moreover have "c \<in> C \<longleftrightarrow> (\<forall>j<length iters. (D' j \<and> c = target) \<or> c \<in> set (yss[i := zs] ! j))" for c
  proof
    assume c: "c \<in> C"
    then have ci: "c \<in> set (target # zs)" using and_inv_mem[OF inv] and_inv_ge[OF inv] assms(2,3) skip by blast
    with c and_inv_mem[OF inv, of c] D' len assms(2)
    show "\<forall>j<length iters. (D' j \<and> c = target) \<or> c \<in> set (yss[i := zs] ! j)"
      by (auto simp: nth_list_update)
  next
    assume c: "\<forall>j<length iters. (D' j \<and> c = target) \<or> c \<in> set (yss[i := zs] ! j)"
    have "c \<in> set (target # zs)" using c assms(2) len by auto
    then have "c \<in> set (yss ! i)" using skip by blast
    moreover have "(D j \<and> c = target) \<or> c \<in> set (yss ! j)" if "j < length iters" "j \<noteq> i" for j
      using c that D'[OF that(1)] by auto
    ultimately show "c \<in> C" using and_inv_mem[OF inv] by metis
  qed
  moreover have "\<forall>j<length iters. D' j \<longrightarrow> (\<forall>x\<in>set (yss[i := zs] ! j). target < x)"
  proof (intro allI impI)
    fix j assume "j < length iters" "D' j"
    then show "\<forall>x\<in>set (yss[i := zs] ! j). target < x"
      using D' len yz inv by (cases "j = i") (auto simp: and_inv_def)
  qed
  ultimately show ?thesis using assms(2) D' yz unfolding and_inv_def by auto
qed

lemma and_loop_correct:
  assumes "and_inv at target (\<lambda>j. j < i \<or> j = skip) iters yss C" and "skip < length iters"
  shows "\<exists>d it'. and_loop V target i skip iters = Inr (d, it') \<and> and_result at C d it'"
  using assms
proof (induction W \<equiv> V target i skip iters arbitrary: yss rule: and_loop.induct)
  case (1 target i skip iters)
  let ?D = "\<lambda>j. j < i \<or> j = skip"
  note inv = "1.prems"(1)
  note len = and_inv_length[OF inv]
  show ?case
  proof (cases "i < length iters")
    case False
    then have all: "\<forall>j<length iters. ?D j" by auto
    have gt: "\<forall>ys\<in>set yss. \<forall>y\<in>set ys. target < y"
      using inv all len unfolding and_inv_def by (metis in_set_conv_nth)
    have mem: "c \<in> C \<longleftrightarrow> c = target \<or> (\<forall>ys\<in>set yss. c \<in> set ys)" for c
      using and_inv_mem[OF inv, of c] all len by (auto simp: in_set_conv_nth all_set_conv_all_nth)
    have ne: "yss \<noteq> []" "iters \<noteq> []" using "1.prems"(2) len by auto
    have t: "target \<in> C" "\<forall>c\<in>C. target \<le> c" using mem and_inv_ge[OF inv] by auto
    have "(\<Inter>ys\<in>set yss. set ys) = C - {target}"
    proof (intro set_eqI iffI)
      fix c assume c: "c \<in> (\<Inter>ys\<in>set yss. set ys)"
      moreover have "hd yss \<in> set yss" using ne by simp
      ultimately have "target < c" using gt by blast
      with c mem[of c] show "c \<in> C - {target}" by auto
    qed (use mem in auto)
    then have "and_result at C target \<lparr>lastReturn = target, iterators = iters\<rparr>"
      using t ne inv by (auto simp: and_result_def and_inv_def)
    with False show ?thesis by (subst and_loop.simps) auto
  next
    case True
    show ?thesis
    proof (cases "i = skip")
      case skip: True
      have "(\<lambda>j. j < i + 1 \<or> j = skip) = ?D" using skip by (auto simp: less_Suc_eq)
      then have "\<exists>d it'. and_loop V target (i + 1) skip iters = Inr (d, it') \<and> and_result at C d it'"
        using "1.hyps"(4)[OF True, of yss] inv "1.prems"(2) skip by simp
      with True skip show ?thesis by (subst and_loop.simps) simp
    next
      case ns: False
      then have nD: "\<not> ?D i" by simp
      note at = and_inv_at[OF inv True]
      show ?thesis
      proof (cases "skip_to target (yss ! i)")
        case Nil
        from advance_Nil[OF at Nil] obtain s where "vt_Advance V target (iters ! i) = Inr (NO_MORE_DOCS, s)" by blast
        with and_inv_end[OF inv True nD Nil] True ns show ?thesis
          by (subst and_loop.simps) (simp add: and_result_def)
      next
        case (Cons y zs)
        from advance_Cons[OF at Cons] obtain s where
          s: "vt_Advance V target (iters ! i) = Inr (y, s)" "at s zs" by blast
        have "y \<in> set (yss ! i)" "target \<le> y" using set_skip_to[OF at_docs[OF at], of target] Cons by auto
        moreover from this have y: "y \<noteq> NO_MORE_DOCS" using at_docs[OF at] by (auto simp: doc_list_def)
        ultimately consider (raise) "target < y" "i \<noteq> 0" | (first) "target < y" "i = 0" | (keep) "y = target"
          by fastforce
        then show ?thesis
        proof cases
          case raise
          have "and_inv at y (\<lambda>j. j < 0 \<or> j = i) (iters[i := s]) (yss[i := zs]) C"
            by (rule and_inv_raise[OF inv True nD Cons raise(1) s(2)]) simp
          from "1.hyps"(1)[OF True ns s(1) refl refl y raise this] True
          show ?thesis using True ns s(1) y raise by (subst and_loop.simps) (simp add: Let_def)
        next
          case first
          have "and_inv at y (\<lambda>j. j < i + 1 \<or> j = 0) (iters[i := s]) (yss[i := zs]) C"
            by (rule and_inv_raise[OF inv True nD Cons first(1) s(2)]) (simp add: first)
          from "1.hyps"(2)[OF True ns s(1) refl refl y first(1) _ this] True first
          show ?thesis using True ns s(1) y by (subst and_loop.simps) (simp add: Let_def)
        next
          case keep
          have "and_inv at target (\<lambda>j. j < i + 1 \<or> j = skip) (iters[i := s]) (yss[i := zs]) C"
            by (rule and_inv_keep[OF inv True nD Cons[unfolded keep] s(2)]) auto
          from "1.hyps"(3)[OF True ns s(1) refl refl y _ this] "1.prems"(2) keep
          show ?thesis using True ns s(1) y by (subst and_loop.simps) (simp add: Let_def)
        qed
      qed
    qed
  qed
qed

text \<open>The common part of the two methods: the first operand is moved, then the loop runs.\<close>

lemma and_step:
  assumes "and_at at it xs" and "lastReturn it \<noteq> NO_MORE_DOCS" and "pull_ok t pull"
    and ge: "\<And>s ys d s'. at s ys \<Longrightarrow> pull s = Inr (d, s') \<Longrightarrow> t \<le> d"
  shows "\<exists>d it'. rbind (pull (iterators it ! 0)) (\<lambda>(target, s).
        let iters = (iterators it)[0 := s] in
        if target = NO_MORE_DOCS then Inr (NO_MORE_DOCS, \<lparr>lastReturn = NO_MORE_DOCS, iterators = iters\<rparr>)
        else and_loop V target 1 0 iters) = Inr (d, it') \<and> and_result at (set (skip_to t xs)) d it'"
proof -
  from assms(1,2) obtain yss where y: "doc_list xs" "iterators it \<noteq> []" "list_all2 at (iterators it) yss"
    "set xs = (\<Inter>ys\<in>set yss. set ys)" by (auto simp: and_at_def)
  have len: "length yss = length (iterators it)" using y(3) by (simp add: list_all2_lengthD)
  then have pos: "0 < length (iterators it)" "0 < length yss" using y(2) by auto
  have at0: "at (iterators it ! 0) (yss ! 0)" using y(3) pos by (auto simp: list_all2_conv_all_nth)
  have mem: "c \<in> set (skip_to t xs) \<longleftrightarrow> t \<le> c \<and> (\<forall>j<length (iterators it). c \<in> set (yss ! j))" for c
    using set_skip_to[OF y(1), of t] y(4) len by (auto simp: all_set_conv_all_nth)
  from assms(3) at0 obtain d s where d: "pull (iterators it ! 0) = Inr (d, s)"
    "if d = NO_MORE_DOCS then \<forall>y\<in>set (yss ! 0). y < t
     else \<exists>pre zs. yss ! 0 = pre @ d # zs \<and> at s zs \<and> (\<forall>y\<in>set pre. y < t)"
    unfolding pull_ok_def by meson
  show ?thesis
  proof (cases "d = NO_MORE_DOCS")
    case True
    then have "\<forall>y\<in>set (yss ! 0). y < t" using d(2) by simp
    then have "set (skip_to t xs) = {}" using mem pos by (meson equals0I leD)
    with d(1) True show ?thesis by (simp add: and_result_def)
  next
    case False
    with d(2) obtain pre zs where z: "yss ! 0 = pre @ d # zs" "at s zs" "\<forall>y\<in>set pre. y < t" by auto
    have td: "t \<le> d" by (rule ge[OF at0 d(1)])
    have gt: "\<forall>y\<in>set zs. d < y" using at_docs[OF at0] z(1) by (auto simp: doc_list_def sorted_wrt_append)
    let ?iters = "(iterators it)[0 := s]" and ?yss = "yss[0 := zs]"
    have "list_all2 at ?iters ?yss" using y(3) z(2) by (auto intro: list_all2_update_cong)
    moreover have "c \<in> set (skip_to t xs) \<longleftrightarrow> (\<forall>j<length ?iters. ((j < 1 \<or> j = 0) \<and> c = d) \<or> c \<in> set (?yss ! j))" for c
    proof
      assume c: "c \<in> set (skip_to t xs)"
      then have "c \<in> set (pre @ d # zs)" "c \<notin> set pre" using mem pos z(1,3) by (metis, metis leD)
      then show "\<forall>j<length ?iters. ((j < 1 \<or> j = 0) \<and> c = d) \<or> c \<in> set (?yss ! j)"
        using c mem pos by (auto simp: nth_list_update)
    next
      assume c: "\<forall>j<length ?iters. ((j < 1 \<or> j = 0) \<and> c = d) \<or> c \<in> set (?yss ! j)"
      then have c0: "c \<in> set (d # zs)" using pos by auto
      then have "t \<le> c" using td gt by (auto intro: order_trans less_imp_le)
      moreover have "c \<in> set (yss ! j)" if "j < length (iterators it)" for j
        using c that c0 z(1) by (cases "j = 0") auto
      ultimately show "c \<in> set (skip_to t xs)" using mem by blast
    qed
    ultimately have "and_inv at d (\<lambda>j. j < 1 \<or> j = 0) ?iters ?yss (set (skip_to t xs))"
      using False pos gt unfolding and_inv_def by auto
    from and_loop_correct[OF this] pos d(1) False show ?thesis by (simp add: Let_def)
  qed
qed

lemma and_result_at:
  assumes "and_result at (set ys) d it" and "doc_list ys"
  shows "case ys of [] \<Rightarrow> d = NO_MORE_DOCS \<and> and_ended it
    | y # zs \<Rightarrow> d = y \<and> and_at at it zs \<and> lastReturn it = y"
proof (cases ys)
  case Nil
  with assms show ?thesis by (simp add: and_result_def and_ended_def)
next
  case (Cons y zs)
  from assms Cons have r: "lastReturn it = d" "d \<noteq> NO_MORE_DOCS" "d \<in> set (y # zs)" "\<forall>c\<in>set (y # zs). d \<le> c"
    "iterators it \<noteq> []" "\<exists>yss. list_all2 at (iterators it) yss \<and> (\<Inter>ys\<in>set yss. set ys) = set (y # zs) - {d}"
    by (simp_all add: and_result_def)
  have yz: "\<forall>z\<in>set zs. y < z" using assms(2) Cons by simp
  then have "d = y" using r(3,4) by force
  moreover have "set (y # zs) - {y} = set zs" using yz by auto
  ultimately have "\<exists>yss. list_all2 at (iterators it) yss \<and> set zs = (\<Inter>ys\<in>set yss. set ys)"
    using r(6) by metis
  then have "and_at at it zs" using r(1,2,5) assms(2) Cons unfolding and_at_def by simp
  with Cons r \<open>d = y\<close> show ?thesis by simp
qed

lemma and_iterator: "doc_iterator (and_vtable V) (and_at at) and_ended"
proof -
  have ended: "xs = []" if "and_at at it xs" "lastReturn it = NO_MORE_DOCS" for it xs
    using that by (auto simp: and_at_def)
  have docs: "doc_list xs" if "and_at at it xs" for it xs using that by (simp add: and_at_def)
  have next_step: "\<exists>d it'. and_nextDoc V it = Inr (d, it')
    \<and> (case xs of [] \<Rightarrow> d = NO_MORE_DOCS \<and> and_ended it' | y # zs \<Rightarrow> d = y \<and> and_at at it' zs \<and> lastReturn it' = y)"
    if a: "and_at at it xs" for it xs
  proof (cases "lastReturn it = NO_MORE_DOCS")
    case True
    with ended[OF a] show ?thesis by (simp add: and_nextDoc_def and_ended_def)
  next
    case False
    have "skip_to 0 xs = xs" by (rule skip_to_all) simp
    with and_step[OF a False nextDoc_pull_ok, of 0] False and_result_at[OF _ docs[OF a]] show ?thesis
      by (fastforce simp: and_nextDoc_def)
  qed
  have adv_step: "\<exists>d it'. and_Advance V t it = Inr (d, it') \<and> (case skip_to t xs of [] \<Rightarrow> d = NO_MORE_DOCS \<and> and_ended it'
      | y # zs \<Rightarrow> d = y \<and> and_at at it' zs \<and> lastReturn it' = y)"
    if a: "and_at at it xs" for it xs t
  proof (cases "lastReturn it = NO_MORE_DOCS")
    case True
    with ended[OF a] show ?thesis by (simp add: and_Advance_def and_ended_def)
  next
    case False
    with and_step[OF a False Advance_pull_ok Advance_ge] and_result_at[OF _ skip_to_doc_list[OF docs[OF a]]] show ?thesis
      by (fastforce simp: and_Advance_def)
  qed
  show ?thesis
  proof
    show "and_at at it xs \<Longrightarrow> doc_list xs" for it xs by (rule docs)
    show "and_at at it [] \<Longrightarrow> \<exists>s'. vt_nextDoc (and_vtable V) it = Inr (NO_MORE_DOCS, s') \<and> and_ended s'" for it
      using next_step[of it "[]"] by (auto simp: and_vtable_def)
    show "and_at at it (x # xs) \<Longrightarrow> \<exists>s'. vt_nextDoc (and_vtable V) it = Inr (x, s') \<and> and_at at s' xs
        \<and> vt_docID (and_vtable V) s' = x" for it x xs
      using next_step[of it "x # xs"] by (auto simp: and_vtable_def and_docID_def)
    show "and_at at it xs \<Longrightarrow> skip_to t xs = [] \<Longrightarrow>
        \<exists>s'. vt_Advance (and_vtable V) t it = Inr (NO_MORE_DOCS, s') \<and> and_ended s'" for it xs t
      using adv_step[of it xs t] by (auto simp: and_vtable_def)
    show "and_at at it xs \<Longrightarrow> skip_to t xs = y # ys \<Longrightarrow>
        \<exists>s'. vt_Advance (and_vtable V) t it = Inr (y, s') \<and> and_at at s' ys \<and> vt_docID (and_vtable V) s' = y" for it xs t y ys
      using adv_step[of it xs t] by (auto simp: and_vtable_def and_docID_def)
    show "and_ended it \<Longrightarrow> \<exists>s'. vt_Advance (and_vtable V) t it = Inr (NO_MORE_DOCS, s') \<and> and_ended s'" for it t
      by (simp add: and_vtable_def and_Advance_def and_ended_def)
  qed
qed

lemma and_iter_at:
  assumes "list_all2 at iters yss" and "iters \<noteq> []" and "doc_list xs" and "set xs = (\<Inter>ys\<in>set yss. set ys)"
  shows "and_at at (and_iter iters) xs"
  using assms by (auto simp: and_at_def and_iter_def NO_MORE_DOCS_def)

end

end
