(* ===== verification/LazyAndNotSet.thy ===== *)
theory LazyAndNotSet
  imports DocIterator
begin

text \<open>
  \<^verbatim>\<open>varint/LazyAndNotSet.h\<close>: the documents of one set that are not in another.  \<open>nextDoc\<close>
  delivers the difference; \<open>Advance\<close> does not always, which is stated below.
\<close>

section \<open>State and operations\<close>

record ('b, 'n) lazy_and_not =
  nextDelDoc :: u32
  baseIter :: 'b
  notIter :: 'n
  currID :: u32

definition andnot_iter :: "'n iter_vtable \<Rightarrow> 'b \<Rightarrow> 'n \<Rightarrow> ('b, 'n) lazy_and_not res" where
  "andnot_iter W base nott =
     rbind (vt_nextDoc W nott)
       (\<lambda>(d, n). Inr \<lparr>nextDelDoc = d, baseIter = base, notIter = n, currID = - 1\<rparr>)"

definition andnot_docID :: "('b, 'n) lazy_and_not \<Rightarrow> u32" where
  "andnot_docID it = currID it"

text \<open>The \<open>while\<close> loop of \<open>nextDoc\<close>; every round takes a document from one of the two operands.\<close>

definition andnot_fuel :: int where
  "andnot_fuel = 2 ^ 34"

function andnot_loop :: "'b iter_vtable \<Rightarrow> 'n iter_vtable \<Rightarrow> int \<Rightarrow> ('b, 'n) lazy_and_not
    \<Rightarrow> (u32 \<times> ('b, 'n) lazy_and_not) res" where
  "andnot_loop V W fuel it =
     (if fuel \<le> 0 then Inl OutOfFuel
      else if currID it = NO_MORE_DOCS then Inr (currID it, it)
      else if currID it < nextDelDoc it then Inr (currID it, it)
      else
        rbind (if currID it = nextDelDoc it
               then rbind (vt_nextDoc V (baseIter it)) (\<lambda>(d, b). Inr (it\<lparr>baseIter := b, currID := d\<rparr>))
               else Inr it) (\<lambda>it1.
        rbind (vt_Advance W (currID it1) (notIter it1)) (\<lambda>(d, n).
          andnot_loop V W (fuel - 1) (it1\<lparr>notIter := n, nextDelDoc := d\<rparr>))))"
  by pat_completeness auto
termination by (relation "measure (\<lambda>(v, w, f, it). nat f)") auto

declare andnot_loop.simps [simp del]

definition andnot_nextDoc :: "'b iter_vtable \<Rightarrow> 'n iter_vtable \<Rightarrow> ('b, 'n) lazy_and_not
    \<Rightarrow> (u32 \<times> ('b, 'n) lazy_and_not) res" where
  "andnot_nextDoc V W it =
     rbind (vt_nextDoc V (baseIter it)) (\<lambda>(d, b).
       let it1 = it\<lparr>baseIter := b, currID := d\<rparr> in
       if nextDelDoc it1 \<noteq> NO_MORE_DOCS then andnot_loop V W andnot_fuel it1 else Inr (currID it1, it1))"

definition andnot_Advance :: "'b iter_vtable \<Rightarrow> 'n iter_vtable \<Rightarrow> u32 \<Rightarrow> ('b, 'n) lazy_and_not
    \<Rightarrow> (u32 \<times> ('b, 'n) lazy_and_not) res" where
  "andnot_Advance V W target it =
     rbind (vt_Advance V target (baseIter it)) (\<lambda>(d, b).
       let it1 = it\<lparr>baseIter := b, currID := d\<rparr> in
       if currID it1 = NO_MORE_DOCS then Inr (currID it1, it1)
       else if nextDelDoc it1 \<noteq> NO_MORE_DOCS then
         let it2 = it1\<lparr>currID := vt_docID V (baseIter it1)\<rparr> in
         if currID it2 < nextDelDoc it2 then Inr (currID it2, it2)
         else rbind (vt_Advance W (currID it2) (notIter it2)) (\<lambda>(del, n).
           let it3 = it2\<lparr>notIter := n, nextDelDoc := del\<rparr> in
           if currID it3 = nextDelDoc it3 then andnot_nextDoc V W it3 else Inr (currID it3, it3))
       else Inr (currID it1, it1))"

definition andnot_vtable :: "'b iter_vtable \<Rightarrow> 'n iter_vtable \<Rightarrow> ('b, 'n) lazy_and_not iter_vtable" where
  "andnot_vtable V W =
     \<lparr>vt_docID = andnot_docID, vt_nextDoc = andnot_nextDoc V W, vt_Advance = andnot_Advance V W\<rparr>"

definition andnot_find :: "'b iter_vtable \<Rightarrow> 'n iter_vtable \<Rightarrow> u32 \<Rightarrow> 'b \<Rightarrow> 'n \<Rightarrow> bool res" where
  "andnot_find V W val base nott =
     rbind (andnot_iter W base nott) (\<lambda>it.
     rbind (andnot_Advance V W val it) (\<lambda>(docid, it'). Inr (docid \<noteq> NO_MORE_DOCS \<and> docid = val)))"

section \<open>nextDoc delivers the difference\<close>

text \<open>
  \<open>dels it ns\<close>: the deleted documents still ahead are \<open>nextDelDoc\<close> and \<open>ns\<close>, or there is none.
\<close>

definition andnot_dels :: "('n \<Rightarrow> u32 list \<Rightarrow> bool) \<Rightarrow> ('n \<Rightarrow> bool) \<Rightarrow> ('b, 'n) lazy_and_not \<Rightarrow> u32 list \<Rightarrow> bool" where
  "andnot_dels at' ended' it ns \<longleftrightarrow>
     (if nextDelDoc it = NO_MORE_DOCS then ns = [] \<and> ended' (notIter it)
      else at' (notIter it) ns \<and> doc_list (nextDelDoc it # ns))"

definition andnot_at :: "('b \<Rightarrow> u32 list \<Rightarrow> bool) \<Rightarrow> ('n \<Rightarrow> u32 list \<Rightarrow> bool) \<Rightarrow> ('n \<Rightarrow> bool)
    \<Rightarrow> ('b, 'n) lazy_and_not \<Rightarrow> u32 list \<Rightarrow> bool" where
  "andnot_at at at' ended' it xs \<longleftrightarrow>
     (\<exists>bs ns. at (baseIter it) bs \<and> andnot_dels at' ended' it ns
        \<and> xs = filter (\<lambda>x. x \<noteq> nextDelDoc it \<and> x \<notin> set ns) bs)"

definition andnot_ended :: "('b, 'n) lazy_and_not \<Rightarrow> bool" where
  "andnot_ended it \<longleftrightarrow> currID it = NO_MORE_DOCS"

definition andnot_rest :: "('b, 'n) lazy_and_not \<Rightarrow> u32 list \<Rightarrow> u32 list \<Rightarrow> u32 list" where
  "andnot_rest it ns bs = filter (\<lambda>x. x \<noteq> nextDelDoc it \<and> x \<notin> set ns) bs"

text \<open>
  In the loop the document \<open>currID\<close> has been taken from the base and not been delivered yet:
  \<open>cbs\<close> are it and the ones after it.
\<close>

definition andnot_cur :: "('b \<Rightarrow> u32 list \<Rightarrow> bool) \<Rightarrow> ('b, 'n) lazy_and_not \<Rightarrow> u32 list \<Rightarrow> bool" where
  "andnot_cur at it cbs \<longleftrightarrow> doc_list cbs \<and>
     (case cbs of [] \<Rightarrow> currID it = NO_MORE_DOCS | c # bs \<Rightarrow> currID it = c \<and> at (baseIter it) bs)"

definition andnot_size :: "('b, 'n) lazy_and_not \<Rightarrow> u32 list \<Rightarrow> u32 list \<Rightarrow> nat" where
  "andnot_size it ns cbs = length cbs + length ns + (if nextDelDoc it = NO_MORE_DOCS then 0 else 1)"

lemma andnot_pull_base:
  assumes V: "doc_stream V at ended" and "at (baseIter it) bs"
  shows "\<exists>d b. vt_nextDoc V (baseIter it) = Inr (d, b) \<and> andnot_cur at (it\<lparr>baseIter := b, currID := d\<rparr>) bs"
proof (cases bs)
  case Nil
  with doc_stream.next_Nil[OF V] assms(2) show ?thesis by (fastforce simp: andnot_cur_def)
next
  case (Cons c cs)
  with doc_stream.next_Cons[OF V, of "baseIter it" c cs] doc_stream.at_docs[OF V assms(2)] assms(2)
  show ?thesis by (auto simp: andnot_cur_def)
qed

lemma andnot_cur_ge: "andnot_cur at it cbs \<Longrightarrow> x \<in> set cbs \<Longrightarrow> currID it \<le> x"
  by (cases cbs) (auto simp: andnot_cur_def)

text \<open>\<open>Advance\<close> on the deleted documents to the current one drops none that matters.\<close>

lemma andnot_advance_dels:
  assumes W: "doc_iterator W at' ended'" and "at' (notIter it) ns" and "doc_list (del # ns)"
    and cur: "andnot_cur at it cbs" and gt: "\<forall>x\<in>set cbs. del < x"
  shows "\<exists>d n ns'. vt_Advance W (currID it) (notIter it) = Inr (d, n)
    \<and> andnot_dels at' ended' (it\<lparr>notIter := n, nextDelDoc := d\<rparr>) ns'
    \<and> andnot_rest (it\<lparr>notIter := n, nextDelDoc := d\<rparr>) ns' cbs = filter (\<lambda>x. x \<noteq> del \<and> x \<notin> set ns) cbs
    \<and> andnot_size (it\<lparr>notIter := n, nextDelDoc := d\<rparr>) ns' cbs \<le> length cbs + length ns"
proof -
  let ?e = "currID it"
  note at_docs = doc_stream.at_docs[OF doc_iterator.axioms(1)[OF W]]
  have docs: "doc_list ns" by (rule at_docs[OF assms(2)])
  have skip: "set (skip_to ?e ns) = {x \<in> set ns. ?e \<le> x}" by (rule set_skip_to[OF docs])
  have len: "length (skip_to ?e ns) \<le> length ns" by (simp add: skip_to_def length_dropWhile_le)
  have cdocs: "doc_list cbs" using cur by (simp add: andnot_cur_def)
  have mem: "x \<notin> set ns \<longleftrightarrow> x \<notin> set (skip_to ?e ns)" "x \<noteq> del" "x \<noteq> NO_MORE_DOCS" if "x \<in> set cbs" for x
    using that skip andnot_cur_ge[OF cur that] gt cdocs by (auto simp: doc_list_def)
  show ?thesis
  proof (cases "skip_to ?e ns")
    case Nil
    from doc_iterator.advance_Nil[OF W assms(2) Nil] obtain n where
      n: "vt_Advance W ?e (notIter it) = Inr (NO_MORE_DOCS, n)" "ended' n" by blast
    have "filter (\<lambda>x. x \<noteq> NO_MORE_DOCS \<and> x \<notin> set []) cbs = filter (\<lambda>x. x \<noteq> del \<and> x \<notin> set ns) cbs"
      using mem Nil by (intro filter_cong) auto
    with n show ?thesis
      by (intro exI[of _ NO_MORE_DOCS] exI[of _ n] exI[of _ "[]"])
        (simp add: andnot_dels_def andnot_rest_def andnot_size_def)
  next
    case (Cons y ys)
    from doc_iterator.advance_Cons[OF W assms(2) Cons] obtain n where
      n: "vt_Advance W ?e (notIter it) = Inr (y, n)" "at' n ys" by blast
    have "filter (\<lambda>x. x \<noteq> y \<and> x \<notin> set ys) cbs = filter (\<lambda>x. x \<noteq> del \<and> x \<notin> set ns) cbs"
      using mem Cons by (intro filter_cong) auto
    moreover have "doc_list (y # ys)" using skip_to_doc_list[OF docs, of ?e] Cons by simp
    ultimately show ?thesis using n len Cons
      by (intro exI[of _ y] exI[of _ n] exI[of _ ys])
        (simp add: andnot_dels_def andnot_rest_def andnot_size_def)
  qed
qed

lemma andnot_loop_correct:
  assumes V: "doc_stream V at ended" and W: "doc_iterator W at' ended'"
  shows "\<lbrakk>andnot_cur at it cbs; andnot_dels at' ended' it ns; int (andnot_size it ns cbs) < fuel\<rbrakk> \<Longrightarrow>
   \<exists>d it'. andnot_loop V W fuel it = Inr (d, it') \<and> currID it' = d \<and>
     (case andnot_rest it ns cbs of
        [] \<Rightarrow> d = NO_MORE_DOCS
      | y # ys \<Rightarrow> d = y \<and> andnot_at at at' ended' it' ys)"
proof (induction "andnot_size it ns cbs" arbitrary: cbs ns it fuel rule: less_induct)
  case less
  have fuel: "\<not> fuel \<le> 0" using less.prems(3) by auto
  show ?case
  proof (cases cbs)
    case Nil
    with less.prems fuel show ?thesis
      by (subst andnot_loop.simps) (auto simp: andnot_rest_def andnot_cur_def)
  next
    case (Cons c bs)
    with less.prems(1) have c: "currID it = c" "at (baseIter it) bs" "doc_list (c # bs)" "c \<noteq> NO_MORE_DOCS"
      by (auto simp: andnot_cur_def)
    consider (deliver) "c < nextDelDoc it" | (go_on) "nextDelDoc it \<le> c" by fastforce
    then show ?thesis
    proof cases
      case deliver
      have "c \<notin> set ns" using less.prems(2) deliver
        by (auto simp: andnot_dels_def split: if_splits dest: less_trans)
      then have "andnot_rest it ns cbs = c # filter (\<lambda>x. x \<noteq> nextDelDoc it \<and> x \<notin> set ns) bs"
        using deliver Cons by (auto simp: andnot_rest_def)
      moreover have "andnot_at at at' ended' it (filter (\<lambda>x. x \<noteq> nextDelDoc it \<and> x \<notin> set ns) bs)"
        using c(2) less.prems(2) unfolding andnot_at_def by blast
      ultimately show ?thesis using deliver c fuel by (subst andnot_loop.simps) simp
    next
      case go_on
      then have dn: "nextDelDoc it \<noteq> NO_MORE_DOCS" using c(4) by (metis antisym le_NO_MORE_DOCS)
      with less.prems(2) have ns: "at' (notIter it) ns" "doc_list (nextDelDoc it # ns)"
        by (simp_all add: andnot_dels_def)
      have step: "\<exists>d it'. rbind (vt_Advance W (currID it1) (notIter it1)) (\<lambda>(d, n).
          andnot_loop V W (fuel - 1) (it1\<lparr>notIter := n, nextDelDoc := d\<rparr>)) = Inr (d, it') \<and> currID it' = d \<and>
          (case andnot_rest it ns cbs of [] \<Rightarrow> d = NO_MORE_DOCS | y # ys \<Rightarrow> d = y \<and> andnot_at at at' ended' it' ys)"
        if it1: "notIter it1 = notIter it" "andnot_cur at it1 cbs'" "\<forall>x\<in>set cbs'. nextDelDoc it < x"
          and rest: "andnot_rest it ns cbs = filter (\<lambda>x. x \<noteq> nextDelDoc it \<and> x \<notin> set ns) cbs'"
          and len: "length cbs' \<le> length cbs" for it1 cbs'
      proof -
        have "at' (notIter it1) ns" using ns(1) it1(1) by simp
        from andnot_advance_dels[OF W this ns(2) it1(2,3)] obtain d n ns' where
          a: "vt_Advance W (currID it1) (notIter it1) = Inr (d, n)"
          "andnot_dels at' ended' (it1\<lparr>notIter := n, nextDelDoc := d\<rparr>) ns'"
          "andnot_rest (it1\<lparr>notIter := n, nextDelDoc := d\<rparr>) ns' cbs' = andnot_rest it ns cbs"
          "andnot_size (it1\<lparr>notIter := n, nextDelDoc := d\<rparr>) ns' cbs' \<le> length cbs' + length ns"
          unfolding rest[symmetric] by blast
        have "andnot_cur at (it1\<lparr>notIter := n, nextDelDoc := d\<rparr>) cbs'" 
          using it1(2) by (cases cbs') (auto simp: andnot_cur_def)
        moreover have "andnot_size (it1\<lparr>notIter := n, nextDelDoc := d\<rparr>) ns' cbs' < andnot_size it ns cbs"
          using a(4) len dn by (simp add: andnot_size_def)
        moreover from this less.prems(3)
        have "int (andnot_size (it1\<lparr>notIter := n, nextDelDoc := d\<rparr>) ns' cbs') < fuel - 1" by linarith
        ultimately show ?thesis
          using less.hyps[of "it1\<lparr>notIter := n, nextDelDoc := d\<rparr>" ns' cbs' "fuel - 1"] a by simp
      qed
      show ?thesis
      proof (cases "c = nextDelDoc it")
        case True
        from andnot_pull_base[OF V c(2)] obtain d b where
          d: "vt_nextDoc V (baseIter it) = Inr (d, b)" "andnot_cur at (it\<lparr>baseIter := b, currID := d\<rparr>) bs" by blast
        have "\<forall>x\<in>set bs. nextDelDoc it < x" using c(3) True by simp
        from step[OF _ d(2) this] d(1) True c dn fuel Cons show ?thesis
          by (subst andnot_loop.simps) (simp add: andnot_rest_def)
      next
        case False
        then have "nextDelDoc it < c" using go_on by simp
        then have "\<forall>x\<in>set cbs. nextDelDoc it < x" using c(3) Cons by (auto intro: less_trans)
        have eq: "andnot_loop V W fuel it = rbind (vt_Advance W (currID it) (notIter it)) (\<lambda>(d, n).
            andnot_loop V W (fuel - 1) (it\<lparr>notIter := n, nextDelDoc := d\<rparr>))"
          using False c fuel go_on by (subst andnot_loop.simps) auto
        have "andnot_rest it ns cbs = filter (\<lambda>x. x \<noteq> nextDelDoc it \<and> x \<notin> set ns) cbs"
          by (simp add: andnot_rest_def)
        from step[OF refl less.prems(1) \<open>\<forall>x\<in>set cbs. nextDelDoc it < x\<close> this order_refl]
        show ?thesis unfolding eq .
      qed
    qed
  qed
qed

lemma andnot_stream:
  assumes V: "doc_stream V at ended" and W: "doc_iterator W at' ended'"
  shows "doc_stream (andnot_vtable V W) (andnot_at at at' ended') andnot_ended"
proof -
  note W' = doc_iterator.axioms(1)[OF W]
  have docs: "doc_list xs" if a: "andnot_at at at' ended' it xs" for it xs
    using that doc_stream.at_docs[OF V] unfolding andnot_at_def doc_list_def by (auto simp: sorted_wrt_filter)
  have step: "\<exists>d it'. andnot_nextDoc V W it = Inr (d, it') \<and> currID it' = d \<and>
      (case xs of [] \<Rightarrow> d = NO_MORE_DOCS | y # ys \<Rightarrow> d = y \<and> andnot_at at at' ended' it' ys)"
    if a: "andnot_at at at' ended' it xs" for it xs
  proof -
    from a obtain bs ns where b: "at (baseIter it) bs" "andnot_dels at' ended' it ns"
      "xs = filter (\<lambda>x. x \<noteq> nextDelDoc it \<and> x \<notin> set ns) bs" by (auto simp: andnot_at_def)
    from andnot_pull_base[OF V b(1)] obtain d b1 where
      d: "vt_nextDoc V (baseIter it) = Inr (d, b1)" "andnot_cur at (it\<lparr>baseIter := b1, currID := d\<rparr>) bs" by blast
    let ?it = "it\<lparr>baseIter := b1, currID := d\<rparr>"
    have dels: "andnot_dels at' ended' ?it ns" using b(2) by (auto simp: andnot_dels_def split: if_splits)
    show ?thesis
    proof (cases "nextDelDoc it = NO_MORE_DOCS")
      case True
      have all: "filter (\<lambda>x. x \<noteq> NO_MORE_DOCS \<and> x \<notin> set []) cs = cs" if "set cs \<subseteq> set bs" for cs
        using that doc_stream.at_docs[OF V b(1)] by (auto simp: doc_list_def intro!: filter_True)
      have ns: "ns = []" using dels True by (simp add: andnot_dels_def)
      then have xs: "xs = bs" using b(3) all[of bs] True by simp
      have next_eq: "andnot_nextDoc V W it = Inr (d, ?it)" using d(1) True by (simp add: andnot_nextDoc_def)
      show ?thesis
      proof (cases bs)
        case Nil
        with d(2) xs next_eq show ?thesis by (simp add: andnot_cur_def)
      next
        case (Cons c cs)
        have "cs = filter (\<lambda>x. x \<noteq> nextDelDoc ?it \<and> x \<notin> set ns) cs"
          using all[of cs, symmetric] Cons True ns by (simp add: subset_insertI)
        moreover have "d = c" "at (baseIter ?it) cs" using d(2) Cons by (simp_all add: andnot_cur_def)
        ultimately have "andnot_at at at' ended' ?it cs" using dels unfolding andnot_at_def by blast
        with next_eq xs Cons \<open>d = c\<close> show ?thesis by simp
      qed
    next
      case False
      have "length ns \<le> 2 ^ 32" "length bs \<le> 2 ^ 32"
        using b(2) False length_doc_list[OF doc_stream.at_docs[OF V b(1)]] length_doc_list[OF doc_stream.at_docs[OF W']]
        by (auto simp: andnot_dels_def)
      then have "int (andnot_size ?it ns bs) < andnot_fuel" by (simp add: andnot_size_def andnot_fuel_def)
      from andnot_loop_correct[OF V W d(2) dels this] d(1) False b(3) show ?thesis
        by (simp add: andnot_nextDoc_def andnot_rest_def)
    qed
  qed
  show ?thesis
  proof
    show "andnot_at at at' ended' it xs \<Longrightarrow> doc_list xs" for it xs by (rule docs)
    show "andnot_at at at' ended' it [] \<Longrightarrow>
        \<exists>s'. vt_nextDoc (andnot_vtable V W) it = Inr (NO_MORE_DOCS, s') \<and> andnot_ended s'" for it
      using step[of it "[]"] by (auto simp: andnot_vtable_def andnot_ended_def)
    show "andnot_at at at' ended' it (x # xs) \<Longrightarrow> \<exists>s'. vt_nextDoc (andnot_vtable V W) it = Inr (x, s')
        \<and> andnot_at at at' ended' s' xs \<and> vt_docID (andnot_vtable V W) s' = x" for it x xs
      using step[of it "x # xs"] by (auto simp: andnot_vtable_def andnot_docID_def)
  qed
qed

lemma andnot_iter_at:
  assumes V: "doc_stream V at ended" and W: "doc_stream W at' ended'"
    and "at base bs" and "at' nott ns"
  shows "\<exists>it. andnot_iter W base nott = Inr it \<and> andnot_at at at' ended' it (filter (\<lambda>x. x \<notin> set ns) bs)"
proof (cases ns)
  case Nil
  with doc_stream.next_Nil[OF W] assms(4) obtain n where
    "vt_nextDoc W nott = Inr (NO_MORE_DOCS, n)" "ended' n" by blast
  moreover have "bs = filter (\<lambda>x. x \<noteq> NO_MORE_DOCS) bs"
    using doc_stream.at_docs[OF V assms(3)] by (auto simp: doc_list_def intro!: filter_True[symmetric])
  ultimately show ?thesis using assms(3) Nil
    by (auto simp: andnot_iter_def andnot_at_def andnot_dels_def)
next
  case (Cons d ds)
  with doc_stream.next_Cons[OF W, of nott d ds] assms(4) obtain n where n:
    "vt_nextDoc W nott = Inr (d, n)" "at' n ds" by blast
  let ?it = "\<lparr>nextDelDoc = d, baseIter = base, notIter = n, currID = - 1\<rparr>"
  have "andnot_dels at' ended' ?it ds"
    using n(2) doc_stream.at_docs[OF W assms(4)] Cons by (simp add: andnot_dels_def)
  then have "andnot_at at at' ended' ?it (filter (\<lambda>x. x \<notin> set ns) bs)"
    unfolding andnot_at_def using assms(3) Cons by (intro exI[of _ bs] exI[of _ ds]) auto
  with n(1) show ?thesis by (simp add: andnot_iter_def)
qed

section \<open>Advance may deliver a deleted document\<close>

text \<open>
  When the base arrives exactly at \<open>nextDelDoc\<close>, \<open>Advance\<close> moves the deleted documents past it
  before it compares, and returns the deleted document.
\<close>

lemma andnot_Advance_deleted:
  assumes V: "doc_iterator V at ended" and W: "doc_iterator W at' ended'"
    and "at (baseIter it) bs" and "andnot_dels at' ended' it ns"
    and "skip_to t bs = nextDelDoc it # bs'" and "nextDelDoc it \<noteq> NO_MORE_DOCS"
  shows "\<exists>it'. andnot_Advance V W t it = Inr (nextDelDoc it, it')"
proof -
  from doc_iterator.advance_Cons[OF V assms(3,5)] obtain b where
    b: "vt_Advance V t (baseIter it) = Inr (nextDelDoc it, b)" "vt_docID V b = nextDelDoc it" by blast
  have ns: "at' (notIter it) ns" "doc_list (nextDelDoc it # ns)"
    using assms(4,6) by (simp_all add: andnot_dels_def)
  then have "skip_to (nextDelDoc it) ns = ns" by (intro skip_to_all) auto
  then obtain d n where "vt_Advance W (nextDelDoc it) (notIter it) = Inr (d, n)" "d \<noteq> nextDelDoc it"
    using doc_iterator.advance_at[OF W ns(1), of "nextDelDoc it"] ns(2) assms(6) by (cases ns) auto
  with b assms(6) show ?thesis by (auto simp: andnot_Advance_def Let_def)
qed

end
