(* ===== verification/SetAlgebra.thy ===== *)
theory SetAlgebra
  imports CompressedSetIterator LazyOrSet LazyAndSet LazyAndNotSet
begin

text \<open>
  The lazy sets over compressed sets, and over each other: the contracts are instantiated with
  the iterators of the code and give the set algebra the search runs on.
\<close>

interpretation cs_or: doc_iterator "or_vtable cs_vtable" "or_at cs_at" or_ended
  by (rule doc_iterator.or_iterator[OF cs.doc_iterator_axioms])

interpretation cs_and: doc_iterator "and_vtable cs_vtable" "and_at cs_at" and_ended
  by (rule doc_iterator.and_iterator[OF cs.doc_iterator_axioms])

interpretation cs_and_or: doc_iterator "and_vtable (or_vtable cs_vtable)" "and_at (or_at cs_at)" and_ended
  by (rule cs_or.and_iterator)

interpretation cs_andnot: doc_stream "andnot_vtable cs_vtable cs_vtable" "andnot_at cs_at cs_at cs_ended" andnot_ended
  by (rule andnot_stream[OF cs.doc_stream_axioms cs.doc_iterator_axioms])

section \<open>Iterating a compressed set\<close>

lemma cs_drain:
  "cs_docs s xs \<Longrightarrow> length xs < n \<Longrightarrow> drain cs_vtable n (cs_iter s) = Some (Inr xs)"
  by (rule cs.drain_at[OF cs_iter_at])

lemma cs_iters_at: "list_all2 cs_docs sets dss \<Longrightarrow> list_all2 cs_at (map cs_iter sets) dss"
  by (auto simp: list_all2_conv_all_nth cs_iter_at)

section \<open>Unions and intersections\<close>

text \<open>Ids a union can hold: 0 and the ids from \<open>2^31\<close> on are out of its reach.\<close>

definition or_range :: "u32 set" where
  "or_range = {d. 0 < d \<and> d < 2 ^ 31}"

lemma doc_list_sorted: "finite A \<Longrightarrow> NO_MORE_DOCS \<notin> A \<Longrightarrow> doc_list (sorted_list_of_set A)"
  by (simp add: doc_list_def)

lemma or_range_NO_MORE: "NO_MORE_DOCS \<notin> or_range"
  by (simp add: or_range_def NO_MORE_DOCS_def)

lemma or_docs_at:
  assumes "list_all2 cs_docs sets dss" and "\<Union>(set ` set dss) \<subseteq> or_range"
  shows "or_at cs_at (or_iter (map cs_iter sets)) (sorted_list_of_set (\<Union>(set ` set dss)))"
proof (rule doc_stream.or_iter_at[OF cs.doc_stream_axioms cs_iters_at[OF assms(1)]])
  show "\<forall>ys\<in>set dss. \<forall>y\<in>set ys. 0 < y \<and> y < 2 ^ 31" using assms(2) by (auto simp: or_range_def)
  show "doc_list (sorted_list_of_set (\<Union>(set ` set dss)))"
    using assms(2) or_range_NO_MORE by (intro doc_list_sorted) auto
qed simp

lemma and_docs_at:
  assumes "list_all2 cs_docs sets dss" and "sets \<noteq> []"
  shows "and_at cs_at (and_iter (map cs_iter sets)) (sorted_list_of_set (\<Inter>(set ` set dss)))"
proof (rule doc_iterator.and_iter_at[OF cs.doc_iterator_axioms cs_iters_at[OF assms(1)]])
  obtain ds where "ds \<in> set dss" "doc_list ds"
    using assms cs_docs_doc_list by (cases sets; cases dss) auto
  then have "NO_MORE_DOCS \<notin> \<Inter>(set ` set dss)" "finite (\<Inter>(set ` set dss))" by (auto simp: doc_list_def)
  then show "doc_list (sorted_list_of_set (\<Inter>(set ` set dss)))" "set (sorted_list_of_set (\<Inter>(set ` set dss))) = \<Inter>(set ` set dss)"
    by (simp_all add: doc_list_sorted)
qed (use assms(2) in simp)

text \<open>The nesting of a search: an intersection over fields or words of unions of posting sets.\<close>

lemma and_or_docs_at:
  assumes "list_all2 (list_all2 cs_docs) gs dsss" and "gs \<noteq> []"
    and "\<forall>dss\<in>set dsss. \<Union>(set ` set dss) \<subseteq> or_range"
  shows "and_at (or_at cs_at) (and_iter (map (\<lambda>g. or_iter (map cs_iter g)) gs))
    (sorted_list_of_set (\<Inter>dss\<in>set dsss. \<Union>(set ` set dss)))"
proof (rule cs_or.and_iter_at)
  let ?docs = "map (\<lambda>dss. sorted_list_of_set (\<Union>(set ` set dss))) dsss"
  show "list_all2 (or_at cs_at) (map (\<lambda>g. or_iter (map cs_iter g)) gs) ?docs"
    using assms(1,3) or_docs_at by (auto simp: list_all2_conv_all_nth)
  have ne: "dsss \<noteq> []" using assms(1,2) by auto
  then have "NO_MORE_DOCS \<notin> (\<Inter>dss\<in>set dsss. \<Union>(set ` set dss))"
    using assms(3) or_range_NO_MORE by (cases dsss) auto
  then show "doc_list (sorted_list_of_set (\<Inter>dss\<in>set dsss. \<Union>(set ` set dss)))"
    by (intro doc_list_sorted) (auto intro: finite_subset[OF subset_UNIV])
  show "set (sorted_list_of_set (\<Inter>dss\<in>set dsss. \<Union>(set ` set dss))) = (\<Inter>ys\<in>set ?docs. set ys)"
    by simp
qed (use assms(2) in simp)

lemma andnot_docs_at:
  assumes "cs_docs base bs" and "cs_docs nott ns"
  shows "\<exists>it. andnot_iter cs_vtable (cs_iter base) (cs_iter nott) = Inr it
    \<and> andnot_at cs_at cs_at cs_ended it (filter (\<lambda>x. x \<notin> set ns) bs)"
  by (rule andnot_iter_at[OF cs.doc_stream_axioms cs.doc_stream_axioms cs_iter_at[OF assms(1)] cs_iter_at[OF assms(2)]])

end
