(* ===== verification/Engine.thy ===== *)
theory Engine
  imports EngineStores BatchThreads SparseSet Tokenizer SetAlgebra "HOL-Library.List_Lexorder"
begin

text \<open>
  The engine (\<open>src/src/Engine.hpp\<close>): it numbers documents and words, stores the documents, feeds the
  index and answers searches.  Its five stores are name spaces of one store, as
  \<open>src/src/server.cpp\<close> and \<open>src/src/engine_simple_main.cpp\<close> set them up, with compressed sets.
\<close>

section \<open>State\<close>

definition engineDataStore :: "'s kv_vtable \<Rightarrow> 's kv_vtable" where
  "engineDataStore V = ns_vtable (of_char CHR ''e'') V"

definition fieldStore :: "'s kv_vtable \<Rightarrow> 's kv_vtable" where
  "fieldStore V = ns_vtable (of_char CHR ''f'') V"

definition documentStore :: "'s kv_vtable \<Rightarrow> 's kv_vtable" where
  "documentStore V = ns_vtable (of_char CHR ''d'') V"

definition invertedIndexStore :: "'s kv_vtable \<Rightarrow> 's kv_vtable" where
  "invertedIndexStore V = ns_vtable (of_char CHR ''i'') V"

text \<open>The store that all of them share is the one in the index.\<close>

record ('s, 't) engine =
  e_data :: engine_data
  e_fields :: "bytes set"
  e_words :: 't
  e_index :: "'s batch_index"
  e_sparse :: sparse_set
  e_tok :: tokenizer

definition new_tokenizer :: tokenizer where
  "new_tokenizer = \<lparr>m_string = [], stringsize = 0, m_offset = 0, m_token = []\<rparr>"

definition engine_open :: "'s kv_vtable \<Rightarrow> 't \<Rightarrow> 's \<Rightarrow> ('s, 't) engine res" where
  "engine_open V tree s =
     rbind (engine_data_open (engineDataStore V) s) (\<lambda>d.
       Inr \<lparr>e_data = d, e_fields = fields_open (fieldStore V) s, e_words = tree, e_index = new_batch_index s,
            e_sparse = new_sparse_set 1453689, e_tok = new_tokenizer\<rparr>)"

text \<open>
  A flush goes through the hash table of postings; \<open>ord\<close> is the order in which it delivers the words
  of a table.
\<close>

definition engine_flushBatch ::
    "'s kv_vtable \<Rightarrow> ((u32 \<rightharpoonup> u32 list) \<Rightarrow> u32 list) \<Rightarrow> ('s, 't) engine \<Rightarrow> ('s, 't) engine res" where
  "engine_flushBatch V ord e =
     rbind (flushBatch (invertedIndexStore V) SetFactory (ord (postings (e_index e))) (e_index e)) (\<lambda>b.
       Inr (e\<lparr>e_index := b\<rparr>))"

definition engine_setMaxBatchSize :: "u32 \<Rightarrow> ('s, 't) engine \<Rightarrow> ('s, 't) engine" where
  "engine_setMaxBatchSize newSize e = e\<lparr>e_index := setMaxBatchSize newSize (e_index e)\<rparr>"

text \<open>Shutting the batch processor down, when that returns.\<close>

definition engine_disableBatching :: "('s, 't) engine \<Rightarrow> ('s, 't) engine" where
  "engine_disableBatching e =
     (if bi_done (e_index e) then e else e\<lparr>e_index := (e_index e)\<lparr>dataReady := True, bi_done := True\<rparr>\<rparr>)"

text \<open>
  A whole round of the batch processor, from taking the batch to writing it, that comes between two
  calls of the engine.  The theory \<open>EngineThreads\<close> has its steps one by one, with calls in between.
\<close>

definition engine_process ::
    "'s kv_vtable \<Rightarrow> ((u32 \<rightharpoonup> u32 list) \<Rightarrow> u32 list) \<Rightarrow> ('s, 't) engine \<Rightarrow> ('s, 't) engine res" where
  "engine_process V ord e =
     (let b = e_index e in
      if dataReady b \<and> \<not> bi_done b then
        rbind (flush (invertedIndexStore V) SetFactory (ord (postings b)) (postings b) (bi_store b)) (\<lambda>(_, s').
          Inr (e\<lparr>e_index := (clear_batch b)\<lparr>dataReady := False, bi_store := s'\<rparr>\<rparr>))
      else Inr e)"

text \<open>
  The destructor, member by member: the index is shut down and flushed, the fields and the counters
  are stored.  \<open>buf1\<close> and \<open>buf2\<close> are what the destructor of the counters finds on its stack.
\<close>

definition engine_close ::
    "'s kv_vtable \<Rightarrow> ((u32 \<rightharpoonup> u32 list) \<Rightarrow> u32 list) \<Rightarrow> bytes list \<Rightarrow> bytes \<Rightarrow> bytes \<Rightarrow> ('s, 't) engine \<Rightarrow> 's res" where
  "engine_close V ord fs buf1 buf2 e =
     (let b = e_index (engine_disableBatching e) in
      rbind (flush (invertedIndexStore V) SetFactory (ord (postings b)) (postings b) (bi_store b)) (\<lambda>(_, s1).
        engine_data_close (engineDataStore V) buf1 buf2 (e_data e) (fields_close (fieldStore V) fs s1)))"

section \<open>Adding a document\<close>

text \<open>The body of the loop over the tokens of a field.\<close>

definition index_token :: "'t trie_ops \<Rightarrow> bytes \<Rightarrow> bytes \<Rightarrow> ('s, 't) engine \<Rightarrow> ('s, 't) engine res" where
  "index_token T field token e =
     (case words_Get T field token 0 (e_words e) of (ok, wid) \<Rightarrow>
        if ok then rbind (ss_insert (ucast wid) (e_sparse e)) (\<lambda>ss. Inr (e\<lparr>e_sparse := ss\<rparr>))
        else
          let w = wordId (e_data e);
              e1 = e\<lparr>e_words := words_Put T field token w (e_words e)\<rparr> in
          rbind (ss_insert (ucast w) (e_sparse e1)) (\<lambda>ss.
            Inr (e1\<lparr>e_sparse := ss, e_data := (e_data e1)\<lparr>wordId := w + 1\<rparr>\<rparr>)))"

definition index_entry :: "'t trie_ops \<Rightarrow> entry \<Rightarrow> ('s, 't) engine \<Rightarrow> ('s, 't) engine res" where
  "index_entry T x e =
     (let e1 = e\<lparr>e_fields := fields_put (fst x) (e_fields e), e_tok := setString (snd x) (e_tok e)\<rparr> in
      rbind (for_tokens (index_token T (fst x)) (e_tok e1) e1) (\<lambda>(e2, tok). Inr (e2\<lparr>e_tok := tok\<rparr>)))"

text \<open>The number the document gets, and the engine afterwards.\<close>

definition addDocument ::
    "'s kv_vtable \<Rightarrow> 't trie_ops \<Rightarrow> ((u32 \<rightharpoonup> u32 list) \<Rightarrow> u32 list) \<Rightarrow> document \<Rightarrow> ('s, 't) engine
      \<Rightarrow> (u32 \<times> ('s, 't) engine) res" where
  "addDocument V T ord doc e =
     (let e0 = e\<lparr>e_sparse := ss_clear (e_sparse e)\<rparr> in
      rbind (docs_addDoc (documentStore V) (ucast (docId (e_data e0))) doc (bi_store (e_index e0))) (\<lambda>s.
      let e1 = e0\<lparr>e_index := (e_index e0)\<lparr>bi_store := s\<rparr>\<rparr> in
      rbind (fold_res (\<lambda>e x. index_entry T x e) e1 (entries doc)) (\<lambda>e2.
      let d = docId (e_data e2);
          ws = ord (postings (foldl (add_posting (ucast d)) (e_index e2) (ss_elems (e_sparse e2)))) in
      rbind (batch_add_words (invertedIndexStore V) SetFactory ws (ucast d) (ss_elems (e_sparse e2)) (e_index e2))
        (\<lambda>b. Inr (ucast d, e2\<lparr>e_index := b, e_data := (e_data e2)\<lparr>docId := d + 1\<rparr>\<rparr>)))))"

section \<open>Deleting a document\<close>

text \<open>The numbers of the words of an entry that the index of words knows, put into a \<open>std::set\<close>.\<close>

definition collect_token :: "'t trie_ops \<Rightarrow> 't \<Rightarrow> bytes \<Rightarrow> bytes \<Rightarrow> u32 list \<Rightarrow> u32 list res" where
  "collect_token T tree field token ids =
     (case words_Get T field token 0 tree of (ok, wid) \<Rightarrow>
        Inr (if ok then insort_insert (ucast wid) ids else ids))"

definition collect_entry :: "'t trie_ops \<Rightarrow> 't \<Rightarrow> entry \<Rightarrow> u32 list \<times> tokenizer \<Rightarrow> (u32 list \<times> tokenizer) res" where
  "collect_entry T tree x st =
     for_tokens (collect_token T tree (fst x)) (setString (snd x) (snd st)) (fst st)"

definition deleteDocument ::
    "'s kv_vtable \<Rightarrow> 't trie_ops \<Rightarrow> u32 \<Rightarrow> ('s, 't) engine \<Rightarrow> ('s, 't) engine res option" where
  "deleteDocument V T d e =
     (case docs_Get (documentStore V) d (Some new_document) (bi_store (e_index e)) of
        None \<Rightarrow> None
      | Some (Inl err) \<Rightarrow> Some (Inl err)
      | Some (Inr (ok, doc)) \<Rightarrow>
          if ok = 0 then Some (Inr e)
          else Some (
            rbind (fold_res (\<lambda>st x. collect_entry T (e_words e) x st) ([], e_tok e)
                     (case doc of None \<Rightarrow> [] | Some document \<Rightarrow> entries document)) (\<lambda>(documentWordId, tok).
            rbind (fold_res (\<lambda>b w. rbind (batch_remove (invertedIndexStore V) SetFactory w d b) (\<lambda>(_, b'). Inr b'))
                     (e_index e) documentWordId) (\<lambda>b.
            rbind (docs_removeDoc (documentStore V) d (bi_store b)) (\<lambda>s.
              Inr (e\<lparr>e_tok := tok, e_index := b\<lparr>bi_store := s\<rparr>\<rparr>))))))"

section \<open>Searching\<close>

text \<open>\<open>set<string> queryTokens\<close>, in the order of its iterator.\<close>

definition query_tokens :: "bytes \<Rightarrow> tokenizer \<Rightarrow> (bytes list \<times> tokenizer) res" where
  "query_tokens query tok =
     for_tokens (\<lambda>token qs. Inr (insort_insert token qs)) (setString query tok) []"

text \<open>The sets of a token in the fields; \<open>fs\<close> is the order in which the hash set has them.\<close>

definition union_sets ::
    "'s kv_vtable \<Rightarrow> 't trie_ops \<Rightarrow> bytes list \<Rightarrow> bytes \<Rightarrow> ('s, 't) engine \<Rightarrow> compressed_set list res" where
  "union_sets V T fs token e =
     fold_res (\<lambda>unionSet field.
       case words_Get T field token 0 (e_words e) of (ok, wid) \<Rightarrow>
         if ok then
           rbind (index_get (invertedIndexStore V) SetFactory (ucast wid) (bi_store (e_index e))) (\<lambda>got.
             case got of Some p \<Rightarrow> Inr (unionSet @ [p]) | None \<Rightarrow> Inr unionSet)
         else Inr unionSet) [] fs"

text \<open>
  The loop over the documents of the intersection; \<open>None\<close> is a loop that has not ended after so many
  rounds.
\<close>

fun search_loop ::
    "nat \<Rightarrow> 'i iter_vtable \<Rightarrow> u32 \<Rightarrow> u32 \<Rightarrow> u32 \<Rightarrow> u32 list \<Rightarrow> 'i \<Rightarrow> u32 list res option" where
  "search_loop 0 W skip offset i documentIdList it = None"
| "search_loop (Suc n) W skip offset i documentIdList it =
     (case vt_nextDoc W it of
        Inl err \<Rightarrow> Some (Inl err)
      | Inr (d, it') \<Rightarrow>
          if d = NO_MORE_DOCS then Some (Inr documentIdList)
          else if i < skip then search_loop n W skip offset (i + 1) documentIdList it'
          else if offset > 0 then
            if i - skip < offset then
              search_loop n W skip offset (i + 1) (documentIdList @ [vt_docID W it']) it'
            else Some (Inr documentIdList)
          else search_loop n W skip offset i (documentIdList @ [vt_docID W it']) it')"

definition engine_search ::
    "'s kv_vtable \<Rightarrow> 't trie_ops \<Rightarrow> bytes list \<Rightarrow> bytes \<Rightarrow> u32 \<Rightarrow> u32 \<Rightarrow> nat \<Rightarrow> ('s, 't) engine \<Rightarrow> u32 list res option" where
  "engine_search V T fs query start offset n e =
     (let skip = start * offset in
      case rbind (query_tokens query (e_tok e)) (\<lambda>(queryTokens, tok).
             fold_res (\<lambda>sets token. rbind (union_sets V T fs token e) (\<lambda>us. Inr (sets @ [us]))) [] queryTokens) of
        Inl err \<Rightarrow> Some (Inl err)
      | Inr intersectionSet \<Rightarrow>
          search_loop n (and_vtable (or_vtable cs_vtable)) skip offset 0 []
            (and_iter (map (\<lambda>us. or_iter (map cs_iter us)) intersectionSet)))"

section \<open>Fetching documents\<close>

text \<open>\<open>getDocs\<close> hands \<open>getDoc\<close> a pointer it never set; \<open>None\<close> as a result is a call that does not return.\<close>

definition engine_getDoc ::
    "'s kv_vtable \<Rightarrow> u32 \<Rightarrow> document option \<Rightarrow> ('s, 't) engine \<Rightarrow> (bool \<times> document option) res option" where
  "engine_getDoc V d ptr e =
     (case docs_Get (documentStore V) d ptr (bi_store (e_index e)) of
        None \<Rightarrow> None
      | Some r \<Rightarrow> Some (rbind r (\<lambda>(ok, doc). Inr (ok \<noteq> 0, doc))))"

fun engine_getDocs ::
    "'s kv_vtable \<Rightarrow> u32 list \<Rightarrow> ('s, 't) engine \<Rightarrow> document option list res option" where
  "engine_getDocs V [] e = Some (Inr [])"
| "engine_getDocs V (d # docIds) e =
     (case engine_getDoc V d None e of
        None \<Rightarrow> None
      | Some (Inl err) \<Rightarrow> Some (Inl err)
      | Some (Inr (ok, doc)) \<Rightarrow>
          (case engine_getDocs V docIds e of
             None \<Rightarrow> None
           | Some (Inl err) \<Rightarrow> Some (Inl err)
           | Some (Inr documentSet) \<Rightarrow> Some (Inr (if ok then doc # documentSet else documentSet))))"

end
