(* ===== verification/EngineWords.thy ===== *)
theory EngineWords
  imports Engine
begin

text \<open>
  Numbering the words of a document: what the loops of \<open>Engine::addDocument\<close> over fields and tokens
  do to the index of words, the counter and the sparse set.
\<close>

section \<open>Tokens\<close>

lemma words_of_chars: "w \<in> set (words_of cs) \<Longrightarrow> c \<in> set w \<Longrightarrow> word_char c"
proof (induction cs arbitrary: w)
  case (Cons d cs)
  then show ?case
    using list.set_intros(1)[of "hd (words_of cs)" "tl (words_of cs)"]
      list.set_intros(2)[of _ "tl (words_of cs)" "hd (words_of cs)"] words_of_Cons[of cs]
    by (cases "word_char d") auto
qed simp

lemma tokens_from_words: "set (tokens_from n ws) \<subseteq> set ws"
  by (induction n ws rule: tokens_from.induct) auto

lemma tokens_chars: "t \<in> set (tokens s) \<Longrightarrow> c \<in> set t \<Longrightarrow> word_char c"
  using tokens_from_words words_of_chars unfolding tokens_def by blast

lemma tokens_clean: "t \<in> set (tokens s) \<Longrightarrow> 0 \<notin> set t \<and> 47 \<notin> set t"
  using tokens_chars[of t s 0] tokens_chars[of t s 47] by (auto simp: word_char_def isalnum_def)

text \<open>The words of a document, as the keys of the index of words.\<close>

definition entry_keys :: "entry \<Rightarrow> bytes set" where
  "entry_keys x = wordToString (fst x) ` set (tokens (snd x))"

definition doc_keys :: "document \<Rightarrow> bytes set" where
  "doc_keys d = \<Union>(entry_keys ` set (entries d))"

definition num_tokens :: "entry list \<Rightarrow> nat" where
  "num_tokens xs = sum_list (map (\<lambda>x. length (tokens (snd x))) xs)"

section \<open>The index of words\<close>

text \<open>
  With \<open>K\<close> the keys of all words, numbered from 1 to below \<open>n\<close>, and \<open>C\<close> those of the document at
  hand, whose numbers are in the sparse set.
\<close>

definition words_inv :: "('t \<Rightarrow> (bytes \<rightharpoonup> u32)) \<Rightarrow> nat \<Rightarrow> bytes set \<Rightarrow> bytes set \<Rightarrow> ('s, 't) engine \<Rightarrow> bool" where
  "words_inv tmap n K C e \<longleftrightarrow>
     dom (tmap (e_words e)) = K \<and> C \<subseteq> K \<and> inj_on (tmap (e_words e)) K
   \<and> (\<forall>k w. tmap (e_words e) k = Some w \<longrightarrow> unat w < n)
   \<and> wordId (e_data e) = of_nat n \<and> n \<le> 2 ^ 31
   \<and> ss_ok (e_sparse e) \<and> set (ss_elems (e_sparse e)) = {w. \<exists>k\<in>C. tmap (e_words e) k = Some w}"

definition same_store :: "('s, 't) engine \<Rightarrow> ('s, 't) engine \<Rightarrow> bool" where
  "same_store e e' \<longleftrightarrow> e_index e' = e_index e \<and> docId (e_data e') = docId (e_data e)"

lemma same_store_refl [simp]: "same_store e e"
  by (simp add: same_store_def)

lemma same_store_trans [trans]: "same_store a b \<Longrightarrow> same_store b c \<Longrightarrow> same_store a c"
  by (simp add: same_store_def)

lemma words_inv_room:
  assumes "words_inv tmap n K C e"
  shows "length (ss_elems (e_sparse e)) + 1 < 2 ^ 32"
proof -
  have "unat ` set (ss_elems (e_sparse e)) \<subseteq> {..<2 ^ 31}"
    using assms by (fastforce simp: words_inv_def)
  then have "card (unat ` set (ss_elems (e_sparse e))) \<le> 2 ^ 31"
    by (metis card_lessThan card_mono finite_lessThan)
  moreover have "card (unat ` set (ss_elems (e_sparse e))) = length (ss_elems (e_sparse e))"
    using assms distinct_card[OF ss_elems_distinct, of "e_sparse e"]
    by (subst card_image) (auto simp: inj_on_def word_unat_eq_iff words_inv_def)
  ultimately show ?thesis by simp
qed

lemma sint_small: "unat (w :: u32) < 2 ^ 31 \<Longrightarrow> sint w = uint w"
proof -
  assume "unat w < 2 ^ 31"
  then have "int (unat w) < int (2 ^ 31)" by (simp only: of_nat_less_iff)
  then have u: "uint w < 2 ^ 31" by simp
  have "- (2 ^ 31) \<le> uint w" by (rule order_trans[of _ 0]) simp_all
  with u signed_take_bit_int_eq_self[of 31 "uint w"] show ?thesis by (simp add: sint_uint)
qed

lemma ss_insert_set:
  assumes "ss_ok s" and "length (ss_elems s) + 1 < 2 ^ 32"
  shows "\<exists>s'. ss_insert i s = Inr s' \<and> ss_ok s' \<and> set (ss_elems s') = insert i (set (ss_elems s))"
  using ss_insert_elems[OF assms, of i] by (cases "i \<in> set (ss_elems s)") auto

lemma cedarGet_known:
  assumes "trie_contract T tmap" and "0 \<notin> set k" and "tmap t k = Some w" and "unat w < 2 ^ 31"
  shows "cedarGet T k v t = (True, ucast w)"
proof -
  have "tr_exactMatchSearch T k t = w" using assms(1-3) by (force simp: trie_contract_def split: option.splits)
  moreover have "scast w = (ucast w :: u64)" by (simp only: scast_eq ucast_eq sint_small[OF assms(4)])
  ultimately show ?thesis using sint_small[OF assms(4)] by (simp add: cedarGet_def)
qed

lemma cedarGet_unknown:
  assumes "trie_contract T tmap" and "0 \<notin> set k" and "tmap t k = None"
  shows "cedarGet T k v t = (False, v)"
proof -
  have "sint (tr_exactMatchSearch T k t) < 0" using assms by (force simp: trie_contract_def split: option.splits)
  then show ?thesis by (simp add: cedarGet_def)
qed


section \<open>A token, a field, a document\<close>

lemma index_token_words:
  assumes "trie_contract T tmap" and "words_inv tmap n K C e" and "n < 2 ^ 31"
    and "0 \<notin> set f" and "0 \<notin> set t"
  shows "\<exists>e' n'. index_token T f t e = Inr e'
    \<and> words_inv tmap n' (insert (wordToString f t) K) (insert (wordToString f t) C) e' \<and> n' \<le> Suc n
    \<and> tmap (e_words e) \<subseteq>\<^sub>m tmap (e_words e') \<and> same_store e e' \<and> e_fields e' = e_fields e"
proof -
  let ?k = "wordToString f t"
  have k: "0 \<notin> set ?k" using assms(4,5) by (simp add: wordToString_def)
  note inv = assms(2)[unfolded words_inv_def]
  note room = words_inv_room[OF assms(2)]
  show ?thesis
  proof (cases "tmap (e_words e) ?k")
    case (Some w)
    then have w: "unat w < 2 ^ 31" using inv by fastforce
    from ss_insert_set[OF _ room, of w] inv obtain ss where
      ss: "ss_insert w (e_sparse e) = Inr ss" "ss_ok ss" "set (ss_elems ss) = insert w (set (ss_elems (e_sparse e)))"
      by blast
    have "ucast (ucast w :: u64) = w" by (rule bit_word_eqI) (simp add: bit_ucast_iff)
    then have "index_token T f t e = Inr (e\<lparr>e_sparse := ss\<rparr>)"
      using ss(1) by (simp add: index_token_def words_Get_def cedarGet_known[OF assms(1) k Some w])
    moreover have "words_inv tmap n (insert ?k K) (insert ?k C) (e\<lparr>e_sparse := ss\<rparr>)"
    proof -
      have "insert ?k K = K" using inv Some by auto
      moreover have "{w'. \<exists>k\<in>insert ?k C. tmap (e_words e) k = Some w'} = insert w {w'. \<exists>k\<in>C. tmap (e_words e) k = Some w'}"
        using Some by auto
      ultimately show ?thesis using inv Some ss(2,3) by (auto simp: words_inv_def)
    qed
    ultimately show ?thesis by (intro exI[of _ "e\<lparr>e_sparse := ss\<rparr>"] exI[of _ n]) (simp add: same_store_def)
  next
    case None
    let ?w = "of_nat n :: u32"
    let ?tree = "tr_update T ?k ?w (e_words e)"
    have tree: "tmap ?tree = (tmap (e_words e))(?k \<mapsto> ?w)" using assms(1) k by (simp add: trie_contract_def)
    have n: "unat ?w = n" using assms(3) by (simp add: unat_of_nat take_bit_nat_eq_self)
    have w: "ucast (wordId (e_data e)) = ?w" using inv by (simp add: unsigned_of_nat take_bit_nat_eq_self)
    from ss_insert_set[OF _ room, of ?w] inv obtain ss where
      ss: "ss_insert ?w (e_sparse e) = Inr ss" "ss_ok ss" "set (ss_elems ss) = insert ?w (set (ss_elems (e_sparse e)))"
      by blast
    let ?e = "e\<lparr>e_words := ?tree, e_sparse := ss, e_data := (e_data e)\<lparr>wordId := wordId (e_data e) + 1\<rparr>\<rparr>"
    have "index_token T f t e = Inr ?e"
      using ss(1) by (simp add: index_token_def words_Get_def words_Put_def cedarPut_def Let_def w
          cedarGet_unknown[OF assms(1) k None])
    moreover have "words_inv tmap (Suc n) (insert ?k K) (insert ?k C) ?e"
    proof -
      have "tmap (e_words e) k \<noteq> Some ?w" for k
      proof
        assume "tmap (e_words e) k = Some ?w"
        with inv have "unat ?w < n" by blast
        with n show False by simp
      qed
      then have "?w \<notin> ran (tmap (e_words e))" by (simp add: ran_def)
      then have fresh: "?k \<notin> K" "?k \<notin> C" "?w \<notin> ran (tmap (e_words e))" using inv None by auto
      have "inj_on (tmap ?tree) (insert ?k K)"
        using fresh inv by (auto simp: tree inj_on_def ran_def)
      moreover have "\<forall>k v. tmap ?tree k = Some v \<longrightarrow> unat v < Suc n" using inv n by (auto simp: tree less_Suc_eq)
      moreover have "wordId (e_data e) + 1 = of_nat (Suc n)" using inv by simp
      moreover have "{w. \<exists>k\<in>insert ?k C. tmap ?tree k = Some w} = insert ?w {w. \<exists>k\<in>C. tmap (e_words e) k = Some w}"
        using fresh(2) unfolding tree by auto
      ultimately show ?thesis using inv assms(3) ss(2,3) by (auto simp: words_inv_def tree)
    qed
    moreover have "tmap (e_words e) \<subseteq>\<^sub>m tmap ?tree" using None by (auto simp: tree map_le_def)
    ultimately show ?thesis by (intro exI[of _ ?e] exI[of _ "Suc n"]) (simp add: same_store_def)
  qed
qed

lemma index_tokens_words:
  assumes "trie_contract T tmap" and "0 \<notin> set f"
  shows "\<lbrakk>words_inv tmap n K C e; n + length ts \<le> 2 ^ 31; \<forall>t\<in>set ts. 0 \<notin> set t\<rbrakk> \<Longrightarrow>
    \<exists>e' n'. fold_res (\<lambda>e t. index_token T f t e) e ts = Inr e'
    \<and> words_inv tmap n' (K \<union> wordToString f ` set ts) (C \<union> wordToString f ` set ts) e' \<and> n' \<le> n + length ts
    \<and> tmap (e_words e) \<subseteq>\<^sub>m tmap (e_words e') \<and> same_store e e' \<and> e_fields e' = e_fields e"
proof (induction ts arbitrary: n K C e)
  case (Cons t ts)
  from index_token_words[OF assms(1) Cons.prems(1) _ assms(2), of t] Cons.prems obtain e1 n1 where
    1: "index_token T f t e = Inr e1" "n1 \<le> Suc n"
      "words_inv tmap n1 (insert (wordToString f t) K) (insert (wordToString f t) C) e1"
      "tmap (e_words e) \<subseteq>\<^sub>m tmap (e_words e1)" "same_store e e1" "e_fields e1 = e_fields e" by auto
  from Cons.IH[OF 1(3)] 1(2) Cons.prems obtain e2 n2 where
    2: "fold_res (\<lambda>e t. index_token T f t e) e1 ts = Inr e2" "n2 \<le> n1 + length ts"
      "words_inv tmap n2 (insert (wordToString f t) K \<union> wordToString f ` set ts) (insert (wordToString f t) C \<union> wordToString f ` set ts) e2"
      "tmap (e_words e1) \<subseteq>\<^sub>m tmap (e_words e2)" "same_store e1 e2" "e_fields e2 = e_fields e1" by auto
  with 1 show ?case
    by (intro exI[of _ e2] exI[of _ n2]) (auto intro: map_le_trans same_store_trans)
qed auto

lemma index_entry_words:
  assumes "trie_contract T tmap" and "0 \<notin> set (fst x)" and "words_inv tmap n K C e"
    and "n + length (tokens (snd x)) \<le> 2 ^ 31"
  shows "\<exists>e' n'. index_entry T x e = Inr e' \<and> words_inv tmap n' (K \<union> entry_keys x) (C \<union> entry_keys x) e'
    \<and> n' \<le> n + length (tokens (snd x)) \<and> tmap (e_words e) \<subseteq>\<^sub>m tmap (e_words e')
    \<and> same_store e e' \<and> e_fields e' = insert (fst x) (e_fields e)"
proof -
  let ?e1 = "e\<lparr>e_fields := fields_put (fst x) (e_fields e), e_tok := setString (snd x) (e_tok e)\<rparr>"
  have inv: "words_inv tmap n K C ?e1" using assms(3) by (simp add: words_inv_def)
  from index_tokens_words[OF assms(1,2) this assms(4)] tokens_clean obtain e' n' where
    e': "fold_res (\<lambda>e t. index_token T (fst x) t e) ?e1 (tokens (snd x)) = Inr e'"
      "words_inv tmap n' (K \<union> entry_keys x) (C \<union> entry_keys x) e'" "n' \<le> n + length (tokens (snd x))"
      "tmap (e_words e) \<subseteq>\<^sub>m tmap (e_words e')" "same_store ?e1 e'" "e_fields e' = insert (fst x) (e_fields e)"
    by (auto simp: entry_keys_def fields_put_def)
  from for_tokens_string[of "index_token T (fst x)" "snd x" "e_tok e" ?e1] obtain tok where
    "for_tokens (index_token T (fst x)) (setString (snd x) (e_tok e)) ?e1 = Inr (e', tok)"
    using e'(1) by auto
  then have "index_entry T x e = Inr (e'\<lparr>e_tok := tok\<rparr>)" by (simp add: index_entry_def Let_def)
  with e' show ?thesis
    by (intro exI[of _ "e'\<lparr>e_tok := tok\<rparr>"] exI[of _ n']) (simp add: words_inv_def same_store_def)
qed

lemma index_entries_words:
  assumes "trie_contract T tmap"
  shows "\<lbrakk>words_inv tmap n K C e; n + num_tokens xs \<le> 2 ^ 31; \<forall>x\<in>set xs. 0 \<notin> set (fst x)\<rbrakk> \<Longrightarrow>
    \<exists>e' n'. fold_res (\<lambda>e x. index_entry T x e) e xs = Inr e'
    \<and> words_inv tmap n' (K \<union> \<Union>(entry_keys ` set xs)) (C \<union> \<Union>(entry_keys ` set xs)) e' \<and> n' \<le> n + num_tokens xs
    \<and> tmap (e_words e) \<subseteq>\<^sub>m tmap (e_words e') \<and> same_store e e' \<and> e_fields e' = e_fields e \<union> fst ` set xs"
proof (induction xs arbitrary: n K C e)
  case (Cons x xs)
  from index_entry_words[OF assms(1) _ Cons.prems(1), of x] Cons.prems obtain e1 n1 where
    1: "index_entry T x e = Inr e1" "n1 \<le> n + length (tokens (snd x))"
      "words_inv tmap n1 (K \<union> entry_keys x) (C \<union> entry_keys x) e1"
      "tmap (e_words e) \<subseteq>\<^sub>m tmap (e_words e1)" "same_store e e1" "e_fields e1 = insert (fst x) (e_fields e)"
    by (auto simp: num_tokens_def)
  from Cons.IH[OF 1(3)] 1(2) Cons.prems obtain e2 n2 where
    2: "fold_res (\<lambda>e x. index_entry T x e) e1 xs = Inr e2" "n2 \<le> n1 + num_tokens xs"
      "words_inv tmap n2 (K \<union> entry_keys x \<union> \<Union>(entry_keys ` set xs)) (C \<union> entry_keys x \<union> \<Union>(entry_keys ` set xs)) e2"
      "tmap (e_words e1) \<subseteq>\<^sub>m tmap (e_words e2)" "same_store e1 e2" "e_fields e2 = e_fields e1 \<union> fst ` set xs"
    by (auto simp: num_tokens_def)
  with 1 show ?case
    by (intro exI[of _ e2] exI[of _ n2]) (auto simp: num_tokens_def Un_assoc intro: map_le_trans same_store_trans)
qed (auto simp: num_tokens_def)

end
