(* ===== verification/EngineAdd.thy ===== *)
theory EngineAdd
  imports EngineWords
begin

text \<open>
  What the engine keeps: the state after the documents \<open>ds\<close> have been added, whatever flushes came in
  between, and that every operation that adds or flushes preserves it.
\<close>

section \<open>Documents by number\<close>

text \<open>Documents are numbered from 1; these are the numbers of the ones with a property.\<close>

definition ids_of :: "(document \<Rightarrow> bool) \<Rightarrow> document list \<Rightarrow> u32 list" where
  "ids_of Q ds = map (\<lambda>i. of_nat (Suc i)) (filter (\<lambda>i. Q (ds ! i)) [0..<length ds])"

lemma ids_of_Nil [simp]: "ids_of Q [] = []"
  by (simp add: ids_of_def)

lemma ids_of_snoc: "ids_of Q (ds @ [d]) = ids_of Q ds @ (if Q d then [of_nat (Suc (length ds))] else [])"
proof -
  have "filter (\<lambda>i. Q ((ds @ [d]) ! i)) [0..<length ds] = filter (\<lambda>i. Q (ds ! i)) [0..<length ds]"
    by (intro filter_cong) (auto simp: nth_append)
  then show ?thesis by (simp add: ids_of_def)
qed

lemma ids_of_cong: "(\<And>d. d \<in> set ds \<Longrightarrow> Q d = R d) \<Longrightarrow> ids_of Q ds = ids_of R ds"
  unfolding ids_of_def by (intro arg_cong[of _ _ "map _"] filter_cong) auto

lemma unat_id: "i < 2 ^ 31 \<Longrightarrow> unat (of_nat i :: u32) = i"
  by (simp add: unat_of_nat take_bit_nat_eq_self)

lemma in_ids_of:
  assumes "length ds < 2 ^ 31"
  shows "x \<in> set (ids_of Q ds) \<longleftrightarrow> 0 < unat x \<and> unat x \<le> length ds \<and> Q (ds ! (unat x - 1))"
proof
  assume "x \<in> set (ids_of Q ds)"
  then obtain i where i: "i < length ds" "Q (ds ! i)" "x = of_nat (Suc i)" by (auto simp: ids_of_def)
  then have "unat x = Suc i" using assms unat_id[of "Suc i"] by simp
  with i show "0 < unat x \<and> unat x \<le> length ds \<and> Q (ds ! (unat x - 1))" by simp
next
  assume x: "0 < unat x \<and> unat x \<le> length ds \<and> Q (ds ! (unat x - 1))"
  then have "x = of_nat (Suc (unat x - 1))" by simp
  with x show "x \<in> set (ids_of Q ds)" unfolding ids_of_def set_map set_filter
    by (intro image_eqI[of _ _ "unat x - 1"]) auto
qed

lemma ids_of_next:
  assumes "doc_list (ids_of Q ds)" and "Suc (length ds) < 2 ^ 31"
  shows "doc_list (ids_of Q ds @ [of_nat (Suc (length ds))])"
proof -
  have "x < of_nat (Suc (length ds))" if "x \<in> set (ids_of Q ds)" for x :: u32
    using that assms(2) in_ids_of[of ds x Q] unat_id[of "Suc (length ds)"] by (simp add: word_less_nat_alt)
  moreover have "(of_nat (Suc (length ds)) :: u32) \<noteq> NO_MORE_DOCS"
  proof
    assume "(of_nat (Suc (length ds)) :: u32) = NO_MORE_DOCS"
    then have "unat (of_nat (Suc (length ds)) :: u32) = 2 ^ 32 - 1"
      by (simp add: NO_MORE_DOCS_def unsigned_minus_1_eq_mask mask_eq_exp_minus_1 del: of_nat_Suc)
    then show False using assms(2) unat_id[of "Suc (length ds)"] by (simp del: of_nat_Suc)
  qed
  ultimately show ?thesis using assms(1) by (auto simp: doc_list_def sorted_wrt_append)
qed

lemma ids_of_doc_list: "length ds < 2 ^ 31 \<Longrightarrow> doc_list (ids_of Q ds) \<and> length (ids_of Q ds) \<le> length ds"
proof (induction ds rule: rev_induct)
  case (snoc d ds)
  then show ?case using ids_of_next[of Q ds] by (auto simp: ids_of_snoc)
qed simp

lemma ids_of_range: "length ds < 2 ^ 31 \<Longrightarrow> set (ids_of Q ds) \<subseteq> or_range"
  using in_ids_of[of ds _ Q] by (auto simp: or_range_def word_less_nat_alt)

text \<open>The words a document contains, by their numbers.\<close>

definition doc_words :: "(bytes \<rightharpoonup> u32) \<Rightarrow> document \<Rightarrow> u32 set" where
  "doc_words M d = {w. \<exists>k\<in>doc_keys d. M k = Some w}"

lemma doc_words_extend: "M \<subseteq>\<^sub>m M' \<Longrightarrow> doc_keys d \<subseteq> dom M \<Longrightarrow> doc_words M' d = doc_words M d"
  by (force simp: doc_words_def map_le_def dom_def)

lemma doc_words_few: "card (doc_words M d) \<le> num_tokens (entries d)"
proof -
  have "card (doc_keys d) \<le> num_tokens (entries d)" "finite (doc_keys d)"
  proof -
    have keys: "entry_keys x \<subseteq> (\<lambda>t. wordToString (fst x) t) ` set (tokens (snd x))" for x by (auto simp: entry_keys_def)
    show "finite (doc_keys d)" using finite_subset[OF keys] by (auto simp: doc_keys_def)
    have "card (\<Union>(entry_keys ` set xs)) \<le> num_tokens xs" for xs
    proof (induction xs)
      case (Cons x xs)
      have "card (entry_keys x) \<le> length (tokens (snd x))"
        using card_mono[OF _ keys[of x]] card_image_le[of "set (tokens (snd x))" "wordToString (fst x)"] card_length[of "tokens (snd x)"]
        by fastforce
      with Cons card_Un_le[of "entry_keys x" "\<Union>(entry_keys ` set xs)"] show ?case by (simp add: num_tokens_def)
    qed (simp add: num_tokens_def)
    then show "card (doc_keys d) \<le> num_tokens (entries d)" by (simp add: doc_keys_def)
  qed
  moreover have "doc_words M d \<subseteq> (\<lambda>k. the (M k)) ` doc_keys d" by (force simp: doc_words_def)
  ultimately show ?thesis using card_mono[of "(\<lambda>k. the (M k)) ` doc_keys d" "doc_words M d"] card_image_le[of "doc_keys d" "\<lambda>k. the (M k)"]
    by fastforce
qed

section \<open>The invariant\<close>

text \<open>What the index holds with its batch: the documents of every word.\<close>

definition batch_ok :: "('s \<Rightarrow> (bytes \<rightharpoonup> bytes)) \<Rightarrow> ('s \<Rightarrow> bool) \<Rightarrow> (u32 \<Rightarrow> u32 list) \<Rightarrow> 's batch_index \<Rightarrow> bool" where
  "batch_ok amap good A b \<longleftrightarrow>
     (\<exists>P. good (bi_store b) \<and> index_holds SetFactory cs_docs (ns_abs (of_char CHR ''i'') amap (bi_store b)) P
       \<and> finite (dom (postings b)) \<and> (\<forall>w. docs_of P w @ docs_of (postings b) w = A w))"

definition engine_inv ::
    "('s \<Rightarrow> (bytes \<rightharpoonup> bytes)) \<Rightarrow> ('s \<Rightarrow> bool) \<Rightarrow> ('t \<Rightarrow> (bytes \<rightharpoonup> u32)) \<Rightarrow> document list \<Rightarrow> ('s, 't) engine \<Rightarrow> bool" where
  "engine_inv amap good tmap ds e \<longleftrightarrow>
     docId (e_data e) = of_nat (Suc (length ds)) \<and> length ds < 2 ^ 31 - 1
   \<and> (\<exists>n C. words_inv tmap n (\<Union>(doc_keys ` set ds)) C e \<and> n \<le> Suc (num_tokens (concat (map entries ds))))
   \<and> e_fields e = \<Union>((\<lambda>d. fst ` set (entries d)) ` set ds)
   \<and> batch_ok amap good (\<lambda>w. ids_of (\<lambda>d. w \<in> doc_words (tmap (e_words e)) d) ds) (e_index e)
   \<and> (\<forall>i<length ds. amap (bi_store (e_index e)) (of_char CHR ''d'' # int_key (of_nat (Suc i) :: u32)) = Some (mini (ds ! i)))
   \<and> (\<forall>d :: u32. unat d = 0 \<or> length ds < unat d \<longrightarrow> amap (bi_store (e_index e)) (of_char CHR ''d'' # int_key d) = None)"

text \<open>
  The same with what the store holds as \<open>P\<close> and documents \<open>F\<close> that are on their way to it: the
  batch processor has taken them from the batch and not written them yet.
\<close>

definition batch_with ::
    "('s \<Rightarrow> (bytes \<rightharpoonup> bytes)) \<Rightarrow> ('s \<Rightarrow> bool) \<Rightarrow> (u32 \<rightharpoonup> u32 list) \<Rightarrow> (u32 \<Rightarrow> u32 list) \<Rightarrow> (u32 \<Rightarrow> u32 list)
      \<Rightarrow> 's batch_index \<Rightarrow> bool" where
  "batch_with amap good P F A b \<longleftrightarrow>
     good (bi_store b) \<and> index_holds SetFactory cs_docs (ns_abs (of_char CHR ''i'') amap (bi_store b)) P
   \<and> finite (dom (postings b)) \<and> (\<forall>w. docs_of P w @ F w @ docs_of (postings b) w = A w)"

definition engine_with ::
    "('s \<Rightarrow> (bytes \<rightharpoonup> bytes)) \<Rightarrow> ('s \<Rightarrow> bool) \<Rightarrow> ('t \<Rightarrow> (bytes \<rightharpoonup> u32)) \<Rightarrow> (u32 \<rightharpoonup> u32 list) \<Rightarrow> (u32 \<Rightarrow> u32 list)
      \<Rightarrow> document list \<Rightarrow> ('s, 't) engine \<Rightarrow> bool" where
  "engine_with amap good tmap P F ds e \<longleftrightarrow>
     docId (e_data e) = of_nat (Suc (length ds)) \<and> length ds < 2 ^ 31 - 1
   \<and> (\<exists>n C. words_inv tmap n (\<Union>(doc_keys ` set ds)) C e \<and> n \<le> Suc (num_tokens (concat (map entries ds))))
   \<and> e_fields e = \<Union>((\<lambda>d. fst ` set (entries d)) ` set ds)
   \<and> batch_with amap good P F (\<lambda>w. ids_of (\<lambda>d. w \<in> doc_words (tmap (e_words e)) d) ds) (e_index e)
   \<and> (\<forall>i<length ds. amap (bi_store (e_index e)) (of_char CHR ''d'' # int_key (of_nat (Suc i) :: u32)) = Some (mini (ds ! i)))
   \<and> (\<forall>d :: u32. unat d = 0 \<or> length ds < unat d \<longrightarrow> amap (bi_store (e_index e)) (of_char CHR ''d'' # int_key d) = None)"

lemma batch_ok_with: "batch_ok amap good A b \<longleftrightarrow> (\<exists>P. batch_with amap good P (\<lambda>_. []) A b)"
  by (simp add: batch_ok_def batch_with_def)

lemma engine_inv_with: "engine_inv amap good tmap ds e \<longleftrightarrow> (\<exists>P. engine_with amap good tmap P (\<lambda>_. []) ds e)"
  by (simp add: engine_inv_def engine_with_def batch_ok_with)

text \<open>An order for the words of every hash table that can be.\<close>

definition hash_order :: "((u32 \<rightharpoonup> u32 list) \<Rightarrow> u32 list) \<Rightarrow> bool" where
  "hash_order ord \<longleftrightarrow> (\<forall>m. finite (dom m) \<longrightarrow> iteration m (ord m))"

lemma hash_order_exists: "\<exists>ord. hash_order ord"
proof -
  have "\<exists>ws. finite (dom m) \<longrightarrow> iteration m ws" for m :: "u32 \<rightharpoonup> u32 list"
    using finite_distinct_list[of "dom m"] by (cases "finite (dom m)") (auto simp: iteration_def)
  then have "\<forall>m. \<exists>ws. finite (dom m) \<longrightarrow> iteration (m :: u32 \<rightharpoonup> u32 list) ws" by (rule allI)
  from choice[OF this] show ?thesis by (simp add: hash_order_def)
qed

section \<open>Flushing\<close>

lemma finite_add_postings: "finite (dom (postings b)) \<Longrightarrow> finite (dom (postings (foldl (add_posting d) b ws)))"
  by (induction ws arbitrary: b) (auto simp: add_posting_def Let_def split: option.splits)

context kv_store
begin

lemma index_store: "inverted_index (ns_vtable n V) (ns_abs n amap) wf SetFactory cs_docs"
  by (rule inverted_index.intro[OF name_space cset.posting_set_axioms])

lemma PutMany32_frame:
  assumes "wf s" and "kv_PutMany32 (ns_vtable n V) writes s = Inr (st, s')" and "m \<noteq> n"
  shows "amap s' (m # k) = amap s (m # k)"
proof -
  have "kv_PutMany32 (ns_vtable n V) writes s
      = Inr (kv_PutMany V (map (\<lambda>w. (n # fst w, snd w)) (map (\<lambda>(i, v). (int_key i, v)) writes)) s)"
    by (simp add: ns_vtable_def ns_PutMany32_def ns_writes32_ok)
  moreover from PutMany[OF assms(1)] obtain s1 where
    "kv_PutMany V (map (\<lambda>w. (n # fst w, snd w)) (map (\<lambda>(i, v). (int_key i, v)) writes)) s = (kOk, s1)"
    "amap s1 = put_all (map (\<lambda>w. (n # fst w, snd w)) (map (\<lambda>(i, v). (int_key i, v)) writes)) (amap s)" by blast
  ultimately show ?thesis using assms(2,3) by (auto simp: put_all_other simp del: map_map)
qed

lemma flush_frame:
  assumes "wf s" and "flush (ns_vtable n V) S ws batch s = Inr (st, s')" and "m \<noteq> n"
  shows "amap s' (m # k) = amap s (m # k)"
proof -
  from assms(2) obtain writes st' where
    "kv_PutMany32 (ns_vtable n V) writes s = Inr (st', s')"
    by (cases "flush_writes (ns_vtable n V) S s batch ws"; cases "kv_PutMany32 (ns_vtable n V) (projr (flush_writes (ns_vtable n V) S s batch ws)) s")
      (auto simp: flush_def)
  from PutMany32_frame[OF assms(1) this assms(3)] show ?thesis .
qed

text \<open>A flush leaves the documents of every word in the store and touches no other name space.\<close>

lemma flush_ok:
  assumes "batch_ok amap wf A b" and "\<And>w. doc_list (A w) \<and> length (A w) < 2 ^ 31" and "hash_order ord"
  shows "\<exists>s' P. flush (invertedIndexStore V) SetFactory (ord (postings b)) (postings b) (bi_store b) = Inr (1, s')
    \<and> wf s' \<and> index_holds SetFactory cs_docs (ns_abs (of_char CHR ''i'') amap s') P \<and> docs_of P = A
    \<and> (\<forall>k. amap s' (of_char CHR ''d'' # k) = amap (bi_store b) (of_char CHR ''d'' # k))"
proof -
  from assms(1) obtain P where P: "wf (bi_store b)" "finite (dom (postings b))"
      "index_holds SetFactory cs_docs (ns_abs (of_char CHR ''i'') amap (bi_store b)) P"
      "\<And>w. docs_of P w @ docs_of (postings b) w = A w" by (auto simp: batch_ok_def)
  have fits: "batch_fits (postings b) P" "docs_of (merged (postings b) P) w = docs_of P w @ docs_of (postings b) w" for w
    using append_fits[of P "postings b" "\<lambda>_. []" A] P(4) assms(2) by auto
  have it: "iteration (postings b) (ord (postings b))" using assms(3) P(2) by (simp add: hash_order_def)
  from inverted_index.flush_holds[OF index_store P(3,1) fits(1) it] obtain s' where
    s': "flush (invertedIndexStore V) SetFactory (ord (postings b)) (postings b) (bi_store b) = Inr (1, s')" "wf s'"
      "index_holds SetFactory cs_docs (ns_abs (of_char CHR ''i'') amap s') (merged (postings b) P)"
    by (auto simp: invertedIndexStore_def)
  moreover have "docs_of (merged (postings b) P) = A" using fits(2) P(4) by auto
  moreover have "amap s' (of_char CHR ''d'' # k) = amap (bi_store b) (of_char CHR ''d'' # k)" for k
    using flush_frame[OF P(1) s'(1)[unfolded invertedIndexStore_def]] by simp
  ultimately show ?thesis by blast
qed

lemma batch_ok_flushed:
  assumes "wf s'" and "index_holds SetFactory cs_docs (ns_abs (of_char CHR ''i'') amap s') P" and "docs_of P = A"
  shows "batch_ok amap wf A ((clear_batch b)\<lparr>bi_store := s'\<rparr>)"
  using assms by (auto simp: batch_ok_def clear_batch_def intro: exI[of _ P])

lemma engine_flush_inv:
  assumes "engine_inv amap wf tmap ds e" and "hash_order ord"
  shows "\<exists>e'. engine_flushBatch V ord e = Inr e' \<and> engine_inv amap wf tmap ds e'
      \<and> postings (e_index e') = (\<lambda>_. None)"
    and "\<exists>e'. engine_process V ord e = Inr e' \<and> engine_inv amap wf tmap ds e' \<and> (e' = e \<or> postings (e_index e') = (\<lambda>_. None))"
proof -
  let ?A = "\<lambda>w. ids_of (\<lambda>d. w \<in> doc_words (tmap (e_words e)) d) ds"
  note inv = assms(1)[unfolded engine_inv_def]
  have len: "length ds < 2 ^ 31" using inv by simp
  have A: "doc_list (?A w) \<and> length (?A w) < 2 ^ 31" for w
    using ids_of_doc_list[OF len, of "\<lambda>d. w \<in> doc_words (tmap (e_words e)) d"] len by (blast intro: le_less_trans)
  have "batch_ok amap wf ?A (e_index e)" using inv by blast
  from flush_ok[OF this A assms(2)] obtain s' P where
    f: "flush (invertedIndexStore V) SetFactory (ord (postings (e_index e))) (postings (e_index e)) (bi_store (e_index e)) = Inr (1, s')"
      "wf s'" "index_holds SetFactory cs_docs (ns_abs (of_char CHR ''i'') amap s') P" "docs_of P = ?A"
      "\<forall>k. amap s' (of_char CHR ''d'' # k) = amap (bi_store (e_index e)) (of_char CHR ''d'' # k)" by blast
  note ok = batch_ok_flushed[OF f(2-4)]
  let ?e1 = "e\<lparr>e_index := clear_batch ((e_index e)\<lparr>bi_store := s'\<rparr>)\<rparr>"
  have "clear_batch ((e_index e)\<lparr>bi_store := s'\<rparr>) = (clear_batch (e_index e))\<lparr>bi_store := s'\<rparr>" by (simp add: clear_batch_def)
  then have "engine_inv amap wf tmap ds ?e1"
    using inv ok[of "e_index e"] f(5) by (simp add: engine_inv_def words_inv_def)
  then show "\<exists>e'. engine_flushBatch V ord e = Inr e' \<and> engine_inv amap wf tmap ds e' \<and> postings (e_index e') = (\<lambda>_. None)"
    using f(1) by (simp add: engine_flushBatch_def flushBatch_def clear_batch_def)
  let ?e2 = "e\<lparr>e_index := (clear_batch (e_index e))\<lparr>dataReady := False, bi_store := s'\<rparr>\<rparr>"
  have "(clear_batch (e_index e))\<lparr>dataReady := False, bi_store := s'\<rparr>
      = (clear_batch ((e_index e)\<lparr>dataReady := False\<rparr>))\<lparr>bi_store := s'\<rparr>" by (simp add: clear_batch_def)
  then have "engine_inv amap wf tmap ds ?e2"
    using inv ok[of "(e_index e)\<lparr>dataReady := False\<rparr>"] f(5) by (simp add: engine_inv_def words_inv_def)
  then show "\<exists>e'. engine_process V ord e = Inr e' \<and> engine_inv amap wf tmap ds e' \<and> (e' = e \<or> postings (e_index e') = (\<lambda>_. None))"
    using f(1) assms(1) by (simp add: engine_process_def Let_def clear_batch_def)
qed

text \<open>A batch with a new document, flushed or not.\<close>

lemma batch_add_words_with:
  assumes "batch_with amap wf P F A b" and "distinct words" and "hash_order ord"
    and "\<And>w. doc_list (A w @ [d]) \<and> length (A w) + 1 < 2 ^ 31" and "bi_done b \<Longrightarrow> F = (\<lambda>_. [])"
  shows "\<exists>b' P'. batch_add_words (invertedIndexStore V) SetFactory (ord (postings (foldl (add_posting d) b words))) d words b = Inr b'
    \<and> batch_with amap wf P' F (\<lambda>w. if w \<in> set words then A w @ [d] else A w) b' \<and> bi_done b' = bi_done b
    \<and> (P' = P \<and> bi_store b' = bi_store b \<or> bi_done b \<and> postings b' = (\<lambda>_. None))
    \<and> (\<forall>k. amap (bi_store b') (of_char CHR ''d'' # k) = amap (bi_store b) (of_char CHR ''d'' # k))"
proof -
  let ?A = "\<lambda>w. if w \<in> set words then A w @ [d] else A w"
  let ?b = "foldl (add_posting d) b words"
  note P = assms(1)[unfolded batch_with_def]
  have "\<forall>w. doc_list (docs_of (postings b) w @ [d])"
    using assms(4) P doc_list_appendD(2) by (metis append_assoc)
  note add = add_postings[OF assms(2) this]
  have ok: "batch_with amap wf P F ?A ?b"
    unfolding batch_with_def using P finite_add_postings[of b d words] by (auto simp: add)
  have A: "doc_list (?A w) \<and> length (?A w) < 2 ^ 31" for w
    using assms(4)[of w] doc_list_appendD(1)[of "A w" "[d]"] by auto
  consider "batchSize ?b < maxBatchSize ?b" | "batchSize ?b \<ge> maxBatchSize ?b" "\<not> bi_done ?b"
    | "batchSize ?b \<ge> maxBatchSize ?b" "bi_done ?b" by fastforce
  then show ?thesis
  proof cases
    case 1
    then show ?thesis using ok
      by (intro exI[of _ ?b] exI[of _ P]) (simp add: batch_add_words_def full_batch_def add(2,3) flip: not_le)
  next
    case 2
    moreover have "batch_with amap wf P F ?A (?b\<lparr>dataReady := True\<rparr>)" using ok by (simp add: batch_with_def)
    ultimately show ?thesis
      by (intro exI[of _ "?b\<lparr>dataReady := True\<rparr>"] exI[of _ P]) (simp add: batch_add_words_def full_batch_def add(2,3))
  next
    case 3
    then have F: "F = (\<lambda>_. [])" using assms(5) add(3) by simp
    then have "batch_ok amap wf ?A ?b" using ok by (auto simp: batch_ok_with)
    from flush_ok[OF this A assms(3)] obtain s' P' where
      f: "flush (invertedIndexStore V) SetFactory (ord (postings ?b)) (postings ?b) (bi_store ?b) = Inr (1, s')"
        "wf s'" "index_holds SetFactory cs_docs (ns_abs (of_char CHR ''i'') amap s') P'" "docs_of P' = ?A"
        "\<forall>k. amap s' (of_char CHR ''d'' # k) = amap (bi_store ?b) (of_char CHR ''d'' # k)" by blast
    let ?b' = "clear_batch (?b\<lparr>bi_store := s'\<rparr>)"
    have "flushBatch (invertedIndexStore V) SetFactory (ord (postings ?b)) ?b = Inr ?b'"
      "batch_with amap wf P' F ?A ?b'" using f F by (simp_all add: flushBatch_def batch_with_def clear_batch_def)
    then show ?thesis using 3 f(5) F
      by (intro exI[of _ ?b'] exI[of _ P']) (simp add: batch_add_words_def full_batch_def add(2,3) clear_batch_def)
  qed
qed

lemma addDoc_store:
  assumes "wf s" and "storable doc"
  shows "\<exists>s'. docs_addDoc (documentStore V) d doc s = Inr s' \<and> wf s'
    \<and> amap s' = (amap s)(of_char CHR ''d'' # int_key d \<mapsto> mini doc)
    \<and> ns_abs (of_char CHR ''i'') amap s' = ns_abs (of_char CHR ''i'') amap s"
proof -
  from kv_store.docs_addDoc_ok[OF name_space assms, of "of_char CHR ''d''" d] obtain s' where
    a: "docs_addDoc (documentStore V) d doc s = Inr s'" "kv_Put (documentStore V) (int_key d) (mini doc) s = (kOk, s')" "wf s'"
    by (auto simp: documentStore_def)
  moreover from Put[OF assms(1)] obtain s1 where
    "kv_Put V (of_char CHR ''d'' # int_key d) (mini doc) s = (kOk, s1)"
    "amap s1 = (amap s)(of_char CHR ''d'' # int_key d \<mapsto> mini doc)" by blast
  ultimately show ?thesis by (auto simp: documentStore_def ns_vtable_def ns_Put_def ns_abs_def)
qed

lemma addDocument_with:
  assumes "engine_with amap wf tmap P F ds e" and "trie_contract T tmap" and "hash_order ord"
    and "storable doc" and "\<forall>x\<in>set (entries doc). 0 \<notin> set (fst x)"
    and "Suc (length ds) < 2 ^ 31 - 1" and "Suc (num_tokens (concat (map entries (ds @ [doc])))) \<le> 2 ^ 31"
    and "bi_done (e_index e) \<Longrightarrow> F = (\<lambda>_. [])"
  shows "\<exists>e' P'. addDocument V T ord doc e = Inr (of_nat (Suc (length ds)), e') \<and> engine_with amap wf tmap P' F (ds @ [doc]) e'
    \<and> tmap (e_words e) \<subseteq>\<^sub>m tmap (e_words e') \<and> bi_done (e_index e') = bi_done (e_index e)
    \<and> (P' = P \<and> ns_abs (of_char CHR ''i'') amap (bi_store (e_index e')) = ns_abs (of_char CHR ''i'') amap (bi_store (e_index e))
       \<or> bi_done (e_index e) \<and> postings (e_index e') = (\<lambda>_. None))
    \<and> (\<exists>words s ws. length words \<le> num_tokens (entries doc)
         \<and> batch_add_words (invertedIndexStore V) SetFactory ws (of_nat (Suc (length ds))) words ((e_index e)\<lparr>bi_store := s\<rparr>) = Inr (e_index e'))"
proof -
  let ?d = "of_nat (Suc (length ds)) :: u32"
  let ?A = "\<lambda>w. ids_of (\<lambda>d. w \<in> doc_words (tmap (e_words e)) d) ds"
  note inv = assms(1)[unfolded engine_with_def]
  obtain n C where n: "words_inv tmap n (\<Union>(doc_keys ` set ds)) C e" "n \<le> Suc (num_tokens (concat (map entries ds)))"
    using inv by blast
  have P: "batch_with amap wf P F ?A (e_index e)" using inv by blast
  then have good: "wf (bi_store (e_index e))" by (simp add: batch_with_def)
  have d: "ucast (docId (e_data e)) = ?d" using inv by (simp add: unsigned_of_nat take_bit_nat_eq_self del: of_nat_Suc)
  from addDoc_store[OF good assms(4), of ?d] obtain s where
    s: "docs_addDoc (documentStore V) ?d doc (bi_store (e_index e)) = Inr s" "wf s"
      "amap s = (amap (bi_store (e_index e)))(of_char CHR ''d'' # int_key ?d \<mapsto> mini doc)"
      "ns_abs (of_char CHR ''i'') amap s = ns_abs (of_char CHR ''i'') amap (bi_store (e_index e))" by blast
  let ?e1 = "(e\<lparr>e_sparse := ss_clear (e_sparse e)\<rparr>)\<lparr>e_index := (e_index e)\<lparr>bi_store := s\<rparr>\<rparr>"
  have "words_inv tmap n (\<Union>(doc_keys ` set ds)) {} ?e1" using n(1) ss_clear_ok by (auto simp: words_inv_def)
  moreover have "n + num_tokens (entries doc) \<le> 2 ^ 31" using n(2) assms(7) by (simp add: num_tokens_def)
  ultimately obtain e2 n2 where e2: "fold_res (\<lambda>e x. index_entry T x e) ?e1 (entries doc) = Inr e2"
      "words_inv tmap n2 (\<Union>(doc_keys ` set (ds @ [doc]))) (doc_keys doc) e2" "n2 \<le> n + num_tokens (entries doc)"
      "tmap (e_words e) \<subseteq>\<^sub>m tmap (e_words e2)" "same_store ?e1 e2" "e_fields e2 = e_fields e \<union> fst ` set (entries doc)"
    using index_entries_words[OF assms(2), of n "\<Union>(doc_keys ` set ds)" "{}" ?e1 "entries doc"] assms(5)
    by (auto simp: doc_keys_def Un_commute)
  have "set (ss_elems (e_sparse e2)) = doc_words (tmap (e_words e2)) doc" "distinct (ss_elems (e_sparse e2))"
    using e2(2) ss_elems_distinct by (auto simp: words_inv_def doc_words_def)
  note words = this
  have old: "doc_words (tmap (e_words e2)) x = doc_words (tmap (e_words e)) x" if "x \<in> set ds" for x
    using that n(1) by (intro doc_words_extend[OF e2(4)]) (auto simp: words_inv_def)
  have idx: "e_index e2 = (e_index e)\<lparr>bi_store := s\<rparr>" "docId (e_data e2) = docId (e_data e)"
    using e2(5) by (simp_all add: same_store_def)
  have ok: "batch_with amap wf P F ?A (e_index e2)" using P s unfolding batch_with_def idx by simp
  have stopped: "bi_done (e_index e2) \<Longrightarrow> F = (\<lambda>_. [])" using assms(8) by (simp add: idx)
  have few: "length (ss_elems (e_sparse e2)) \<le> num_tokens (entries doc)"
    using words doc_words_few[of "tmap (e_words e2)" doc] by (simp flip: distinct_card)
  have new: "(if w \<in> set (ss_elems (e_sparse e2)) then ?A w @ [?d] else ?A w)
      = ids_of (\<lambda>d. w \<in> doc_words (tmap (e_words e2)) d) (ds @ [doc])" for w
    using ids_of_cong[of ds "\<lambda>d. w \<in> doc_words (tmap (e_words e2)) d" "\<lambda>d. w \<in> doc_words (tmap (e_words e)) d"] old
    by (auto simp: ids_of_snoc words)
  have room: "doc_list (?A w @ [?d]) \<and> length (?A w) + 1 < 2 ^ 31" for w
    using ids_of_doc_list[of ds "\<lambda>d. w \<in> doc_words (tmap (e_words e)) d"] ids_of_next[of "\<lambda>d. w \<in> doc_words (tmap (e_words e)) d" ds]
      assms(6) by auto
  from batch_add_words_with[OF ok words(2) assms(3) room stopped] obtain b P' where
    b: "batch_add_words (invertedIndexStore V) SetFactory
          (ord (postings (foldl (add_posting ?d) (e_index e2) (ss_elems (e_sparse e2))))) ?d (ss_elems (e_sparse e2)) (e_index e2) = Inr b"
      "batch_with amap wf P' F (\<lambda>w. ids_of (\<lambda>d. w \<in> doc_words (tmap (e_words e2)) d) (ds @ [doc])) b"
      "P' = P \<and> bi_store b = s \<or> bi_done (e_index e) \<and> postings b = (\<lambda>_. None)" "bi_done b = bi_done (e_index e)"
      and frame: "\<forall>k. amap (bi_store b) (of_char CHR ''d'' # k) = amap s (of_char CHR ''d'' # k)"
    unfolding new by (auto simp: idx)
  let ?e3 = "e2\<lparr>e_index := b, e_data := (e_data e2)\<lparr>docId := docId (e_data e2) + 1\<rparr>\<rparr>"
  have res: "addDocument V T ord doc e = Inr (?d, ?e3)"
    using s(1) e2(1) b(1) by (simp add: addDocument_def Let_def idx d)
  have "amap (bi_store b) (of_char CHR ''d'' # int_key (of_nat (Suc i) :: u32)) = Some (mini ((ds @ [doc]) ! i))"
    if i: "i < length (ds @ [doc])" for i
  proof (cases "i = length ds")
    case True
    then show ?thesis using frame s(3) by simp
  next
    case False
    then have "(of_nat (Suc i) :: u32) \<noteq> ?d"
      using i assms(6) unat_id[of "Suc i"] unat_id[of "Suc (length ds)"] by (auto simp del: of_nat_Suc)
    then show ?thesis using False i inv frame s(3) by (simp add: nth_append del: of_nat_Suc)
  qed
  moreover have "amap (bi_store b) (of_char CHR ''d'' # int_key (x :: u32)) = None"
    if x: "unat x = 0 \<or> length (ds @ [doc]) < unat x" for x
  proof -
    have "x \<noteq> ?d" using x assms(6) unat_id[of "Suc (length ds)"] by (auto simp del: of_nat_Suc)
    moreover have "unat x = 0 \<or> length ds < unat x" using x by auto
    moreover from this have "amap (bi_store (e_index e)) (of_char CHR ''d'' # int_key x) = None" using inv by blast
    ultimately show ?thesis using frame s(3) by simp
  qed
  moreover have "words_inv tmap n2 (\<Union>(doc_keys ` set (ds @ [doc]))) (doc_keys doc) ?e3"
    using e2(2) by (simp add: words_inv_def)
  moreover have "n2 \<le> Suc (num_tokens (concat (map entries (ds @ [doc]))))"
    using e2(3) n(2) by (simp add: num_tokens_def)
  moreover have "e_fields ?e3 = \<Union>((\<lambda>d. fst ` set (entries d)) ` set (ds @ [doc]))"
    using e2(6) inv by auto
  moreover have "docId (e_data ?e3) = of_nat (Suc (length (ds @ [doc])))"
    using inv by (simp add: idx)
  ultimately have "engine_with amap wf tmap P' F (ds @ [doc]) ?e3"
    using assms(6) b(2) unfolding engine_with_def by simp blast
  moreover have "P' = P \<and> ns_abs (of_char CHR ''i'') amap (bi_store b) = ns_abs (of_char CHR ''i'') amap (bi_store (e_index e))
      \<or> bi_done (e_index e) \<and> postings b = (\<lambda>_. None)" using b(3) s(4) by auto
  moreover have "\<exists>words s ws. length words \<le> num_tokens (entries doc)
      \<and> batch_add_words (invertedIndexStore V) SetFactory ws ?d words ((e_index e)\<lparr>bi_store := s\<rparr>) = Inr b"
    using b(1)[unfolded idx] few by blast
  ultimately show ?thesis using res e2(4) b(4) by (intro exI[of _ ?e3] exI[of _ P']) simp
qed

lemma addDocument_inv:
  assumes "engine_inv amap wf tmap ds e" and "trie_contract T tmap" and "hash_order ord"
    and "storable doc" and "\<forall>x\<in>set (entries doc). 0 \<notin> set (fst x)"
    and "Suc (length ds) < 2 ^ 31 - 1" and "Suc (num_tokens (concat (map entries (ds @ [doc])))) \<le> 2 ^ 31"
  shows "\<exists>e'. addDocument V T ord doc e = Inr (of_nat (Suc (length ds)), e') \<and> engine_inv amap wf tmap (ds @ [doc]) e'
    \<and> tmap (e_words e) \<subseteq>\<^sub>m tmap (e_words e')
    \<and> (ns_abs (of_char CHR ''i'') amap (bi_store (e_index e')) = ns_abs (of_char CHR ''i'') amap (bi_store (e_index e))
       \<or> postings (e_index e') = (\<lambda>_. None))"
proof -
  from assms(1) obtain P where "engine_with amap wf tmap P (\<lambda>_. []) ds e" by (auto simp: engine_inv_with)
  from addDocument_with[OF this assms(2-7)] obtain e' P' where
    "addDocument V T ord doc e = Inr (of_nat (Suc (length ds)), e')" "engine_with amap wf tmap P' (\<lambda>_. []) (ds @ [doc]) e'"
    "tmap (e_words e) \<subseteq>\<^sub>m tmap (e_words e')"
    "P' = P \<and> ns_abs (of_char CHR ''i'') amap (bi_store (e_index e')) = ns_abs (of_char CHR ''i'') amap (bi_store (e_index e))
       \<or> bi_done (e_index e) \<and> postings (e_index e') = (\<lambda>_. None)" by blast
  then show ?thesis unfolding engine_inv_with by blast
qed

end

end
