(* ===== verification/EngineSearch.thy ===== *)
theory EngineSearch
  imports EngineAdd
begin

text \<open>
  What a search finds: the documents that contain every token of the query in some field, by
  increasing number, from a page on.  The engine may have been flushed at any time, by the caller or
  by whole rounds of the batch processor, as long as it was flushed after the last document; the steps
  of the processor one by one are in the theory \<open>EngineThreads\<close>.
\<close>

section \<open>The loop over the result\<close>

definition page :: "nat \<Rightarrow> nat \<Rightarrow> 'a list \<Rightarrow> 'a list" where
  "page skip offset xs = (if offset = 0 then drop skip xs else take offset (drop skip xs))"

context doc_stream
begin

lemma search_loop_at:
  "\<lbrakk>at it xs; length xs < n; unat i + length xs < 2 ^ 32\<rbrakk> \<Longrightarrow>
    search_loop n V skip offset i acc it
      = Some (Inr (acc @ (if offset = 0 then drop (unat skip - unat i) xs
          else take (unat offset - (unat i - unat skip)) (drop (unat skip - unat i) xs))))"
proof (induction n arbitrary: it xs i acc)
  case (Suc n)
  show ?case
  proof (cases xs)
    case Nil
    then show ?thesis using next_Nil[of it] Suc.prems(1) by auto
  next
    case (Cons x ys)
    with next_Cons[of it x ys] Suc.prems(1) obtain it' where
      it': "vt_nextDoc V it = Inr (x, it')" "at it' ys" "vt_docID V it' = x" by blast
    have x: "x \<noteq> NO_MORE_DOCS" using at_docs[OF Suc.prems(1)] Cons by simp
    have i: "unat (i + 1) = Suc (unat i)" using Suc.prems(3) Cons by (simp add: unat_word_ariths)
    note IH = Suc.IH[OF it'(2)]
    have fuel: "length ys < n" "unat i + length ys < 2 ^ 32" "unat (i + 1) + length ys < 2 ^ 32"
      using Suc.prems(2,3) Cons i by simp_all
    consider "i < skip" | "\<not> i < skip" "offset = 0" | "\<not> i < skip" "offset \<noteq> 0" "i - skip < offset"
      | "\<not> i < skip" "offset \<noteq> 0" "\<not> i - skip < offset" by blast
    then show ?thesis
    proof cases
      case 1
      then have "unat skip - unat i = Suc (unat skip - unat (i + 1))" "unat i - unat skip = 0" "unat (i + 1) - unat skip = 0"
        using i by (simp_all add: word_less_nat_alt)
      with 1 show ?thesis using IH[OF fuel(1,3)] it' x Cons by simp
    next
      case 2
      then have "unat skip - unat i = 0" by (simp add: word_less_nat_alt)
      with 2 show ?thesis using IH[OF fuel(1,2)] it' x Cons by simp
    next
      case 3
      have s: "unat (i - skip) = unat i - unat skip" using 3(1) by (simp add: unat_sub_if' word_less_nat_alt)
      have "unat offset - (unat i - unat skip) = Suc (unat offset - (unat (i + 1) - unat skip))"
        "unat skip - unat i = 0" "unat skip - unat (i + 1) = 0"
        using 3 i s by (simp_all add: word_less_nat_alt)
      moreover have "offset > 0" using 3(2) by (simp add: word_gt_0)
      ultimately show ?thesis using 3 IH[OF fuel(1,3)] it' x Cons by simp
    next
      case 4
      have s: "unat (i - skip) = unat i - unat skip" using 4(1) by (simp add: unat_sub_if' word_less_nat_alt)
      have "unat offset - (unat i - unat skip) = 0" using 4(3) s by (simp add: word_less_nat_alt)
      moreover have "offset > 0" using 4(2) by (simp add: word_gt_0)
      ultimately show ?thesis using 4 it' x Cons by simp
    qed
  qed
qed simp

end

section \<open>The tokens of a query\<close>

lemma fold_insort: "\<exists>qs. fold_res (\<lambda>qs t. Inr (insort_insert t qs)) (acc :: bytes list) ts = Inr qs
    \<and> set qs = set acc \<union> set ts"
proof (induction ts arbitrary: acc)
  case (Cons t ts)
  from Cons[of "insort_insert t acc"] show ?case by (auto simp: set_insort_insert)
qed simp

lemma query_tokens_set: "\<exists>qs tok'. query_tokens query tok = Inr (qs, tok') \<and> set qs = set (tokens query)"
proof -
  obtain qs where qs: "fold_res (\<lambda>qs t. Inr (insort_insert t qs)) [] (tokens query) = (Inr qs :: bytes list res)"
    "set qs = set (tokens query)" using fold_insort[of "[]" "tokens query"] by auto
  from for_tokens_string[of "\<lambda>t qs. Inr (insort_insert t qs)" query tok "[]"] qs show ?thesis
    by (auto simp: query_tokens_def)
qed

section \<open>The sets of a token\<close>

text \<open>A document has a token when the token is in the value of one of its fields.\<close>

definition has_token :: "bytes \<Rightarrow> document \<Rightarrow> bool" where
  "has_token t d \<longleftrightarrow> (\<exists>x\<in>set (entries d). t \<in> set (tokens (snd x)))"

definition doc_matches :: "bytes \<Rightarrow> document \<Rightarrow> bool" where
  "doc_matches query d \<longleftrightarrow> (\<forall>t\<in>set (tokens query). has_token t d)"

lemma in_doc_keys:
  assumes "47 \<notin> set t"
  shows "wordToString f t \<in> doc_keys d \<longleftrightarrow> (\<exists>x\<in>set (entries d). fst x = f \<and> t \<in> set (tokens (snd x)))"
proof
  assume "wordToString f t \<in> doc_keys d"
  then obtain x u where x: "x \<in> set (entries d)" "u \<in> set (tokens (snd x))" "wordToString f t = wordToString (fst x) u"
    by (auto simp: doc_keys_def entry_keys_def)
  then show "\<exists>x\<in>set (entries d). fst x = f \<and> t \<in> set (tokens (snd x))"
    using wordToString_inj[OF assms, of u f "fst x"] tokens_clean by metis
qed (auto simp: doc_keys_def entry_keys_def)

text \<open>The invariant with nothing left in the batch.\<close>

definition engine_flushed ::
    "('s \<Rightarrow> (bytes \<rightharpoonup> bytes)) \<Rightarrow> ('s \<Rightarrow> bool) \<Rightarrow> ('t \<Rightarrow> (bytes \<rightharpoonup> u32)) \<Rightarrow> document list \<Rightarrow> ('s, 't) engine \<Rightarrow> bool" where
  "engine_flushed amap good tmap ds e \<longleftrightarrow> engine_inv amap good tmap ds e \<and> postings (e_index e) = (\<lambda>_. None)"

text \<open>The documents whose words are in the store are the first \<open>m\<close> of those that were added.\<close>

definition engine_stored ::
    "('s \<Rightarrow> (bytes \<rightharpoonup> bytes)) \<Rightarrow> ('s \<Rightarrow> bool) \<Rightarrow> ('t \<Rightarrow> (bytes \<rightharpoonup> u32)) \<Rightarrow> document list \<Rightarrow> nat \<Rightarrow> ('s, 't) engine \<Rightarrow> bool" where
  "engine_stored amap good tmap ds m e \<longleftrightarrow>
     engine_inv amap good tmap ds e \<and> m \<le> length ds
   \<and> (\<exists>P. index_holds SetFactory cs_docs (ns_abs (of_char CHR ''i'') amap (bi_store (e_index e))) P
        \<and> (\<forall>w. docs_of P w = ids_of (\<lambda>d. w \<in> doc_words (tmap (e_words e)) d) (take m ds)))"

lemma engine_flushed_stored:
  "engine_flushed amap good tmap ds e \<Longrightarrow> engine_stored amap good tmap ds (length ds) e"
  by (auto simp: engine_flushed_def engine_stored_def engine_inv_def batch_ok_def)

text \<open>
  What a search needs: the words, the fields and a store with the first \<open>m\<close> documents.  It does not
  look at the batch, nor at what the batch processor has taken from it.
\<close>

definition engine_holds ::
    "('s \<Rightarrow> (bytes \<rightharpoonup> bytes)) \<Rightarrow> ('s \<Rightarrow> bool) \<Rightarrow> ('t \<Rightarrow> (bytes \<rightharpoonup> u32)) \<Rightarrow> document list \<Rightarrow> nat \<Rightarrow> ('s, 't) engine \<Rightarrow> bool" where
  "engine_holds amap good tmap ds m e \<longleftrightarrow>
     length ds < 2 ^ 31 - 1 \<and> m \<le> length ds \<and> (\<exists>n C. words_inv tmap n (\<Union>(doc_keys ` set ds)) C e)
   \<and> e_fields e = \<Union>((\<lambda>d. fst ` set (entries d)) ` set ds) \<and> good (bi_store (e_index e))
   \<and> (\<exists>P. index_holds SetFactory cs_docs (ns_abs (of_char CHR ''i'') amap (bi_store (e_index e))) P
        \<and> (\<forall>w. docs_of P w = ids_of (\<lambda>d. w \<in> doc_words (tmap (e_words e)) d) (take m ds)))"

lemma engine_stored_holds: "engine_stored amap good tmap ds m e \<Longrightarrow> engine_holds amap good tmap ds m e"
  unfolding engine_stored_def engine_holds_def engine_inv_def batch_ok_def by blast

context kv_store
begin

lemma word_docs:
  assumes "engine_holds amap wf tmap ds m e" and "tmap (e_words e) k = Some w"
  shows "\<exists>got. index_get (invertedIndexStore V) SetFactory w (bi_store (e_index e)) = Inr got
    \<and> (case got of Some p \<Rightarrow> cs_docs p (ids_of (\<lambda>d. k \<in> doc_keys d) (take m ds))
       | None \<Rightarrow> ids_of (\<lambda>d. k \<in> doc_keys d) (take m ds) = [])"
proof -
  have "wf (bi_store (e_index e))" using assms(1) by (auto simp: engine_holds_def)
  moreover from assms(1) obtain P where
      "index_holds SetFactory cs_docs (ns_abs (of_char CHR ''i'') amap (bi_store (e_index e))) P"
      "\<And>w. docs_of P w = ids_of (\<lambda>d. w \<in> doc_words (tmap (e_words e)) d) (take m ds)"
    by (auto simp: engine_holds_def)
  ultimately have P: "wf (bi_store (e_index e))"
      "index_holds SetFactory cs_docs (ns_abs (of_char CHR ''i'') amap (bi_store (e_index e))) P"
      "\<And>w. docs_of P w = ids_of (\<lambda>d. w \<in> doc_words (tmap (e_words e)) d) (take m ds)" by blast+
  from assms(1) have inj: "inj_on (tmap (e_words e)) (dom (tmap (e_words e)))"
    by (auto simp: engine_holds_def words_inv_def)
  have "tmap (e_words e) k' = Some w \<longleftrightarrow> k' = k" for k'
    using inj_onD[OF inj, of k' k] assms(2) by (metis domI)
  then have "w \<in> doc_words (tmap (e_words e)) d \<longleftrightarrow> k \<in> doc_keys d" for d
    by (simp add: doc_words_def)
  then have docs: "docs_of P w = ids_of (\<lambda>d. k \<in> doc_keys d) (take m ds)" using P(3) by simp
  show ?thesis
  proof (cases "P w")
    case None
    then show ?thesis using inverted_index.get_none[OF index_store P(2,1) None] docs
      by (auto simp: invertedIndexStore_def docs_of_def)
  next
    case (Some xs)
    then show ?thesis using inverted_index.get_some[OF index_store P(2,1) Some] docs
      by (auto simp: invertedIndexStore_def docs_of_def)
  qed
qed

text \<open>One field: its word is in the trie if a document has it.\<close>

lemma union_sets_ok:
  assumes "engine_holds amap wf tmap ds m e" and "trie_contract T tmap" and "0 \<notin> set t"
    and "\<forall>f\<in>set fs. 0 \<notin> set f"
  shows "\<exists>us dss. union_sets V T fs t e = Inr us \<and> list_all2 cs_docs us dss
    \<and> \<Union>(set ` set dss) = (\<Union>f\<in>set fs. set (ids_of (\<lambda>d. wordToString f t \<in> doc_keys d) (take m ds)))"
proof -
  have inv: "words_inv tmap n K C e \<Longrightarrow> tmap (e_words e) k = Some w \<Longrightarrow> unat w < 2 ^ 31" for n K C k w
    by (fastforce simp: words_inv_def)
  then have small: "tmap (e_words e) k = Some w \<Longrightarrow> unat w < 2 ^ 31" for k w
    using assms(1) by (auto simp: engine_holds_def)
  have dom: "k \<in> doc_keys d \<Longrightarrow> d \<in> set ds \<Longrightarrow> tmap (e_words e) k \<noteq> None" for k d
    using assms(1) by (auto simp: engine_holds_def words_inv_def)
  let ?D = "\<lambda>f. ids_of (\<lambda>d. wordToString f t \<in> doc_keys d) (take m ds)"
  let ?body = "\<lambda>us f. case words_Get T f t 0 (e_words e) of (ok, wid) \<Rightarrow>
       if ok then rbind (index_get (invertedIndexStore V) SetFactory (ucast wid) (bi_store (e_index e))) (\<lambda>got.
             case got of Some p \<Rightarrow> Inr (us @ [p]) | None \<Rightarrow> Inr us) else Inr us"
  have body: "\<exists>us' dss'. ?body us f = Inr (us @ us') \<and> list_all2 cs_docs us' dss' \<and> \<Union>(set ` set dss') = set (?D f)"
    if "0 \<notin> set f" for us f
  proof (cases "tmap (e_words e) (wordToString f t)")
    case None
    then have "?D f = []" using dom by (force simp: ids_of_def filter_empty_conv)
    moreover have "0 \<notin> set (wordToString f t)" using that assms(3) by (simp add: wordToString_def)
    ultimately show ?thesis
      by (intro exI[of _ "[]"]) (simp add: words_Get_def cedarGet_unknown[OF assms(2) _ None])
  next
    case (Some w)
    have k: "0 \<notin> set (wordToString f t)" using that assms(3) by (simp add: wordToString_def)
    have w: "ucast (ucast w :: u64) = w" by (rule bit_word_eqI) (simp add: bit_ucast_iff)
    from word_docs[OF assms(1) Some] obtain got where got:
      "index_get (invertedIndexStore V) SetFactory w (bi_store (e_index e)) = Inr got"
      "case got of Some p \<Rightarrow> cs_docs p (?D f) | None \<Rightarrow> ?D f = []" by blast
    then show ?thesis using w
      by (intro exI[of _ "case got of Some p \<Rightarrow> [p] | None \<Rightarrow> []"] exI[of _ "case got of Some p \<Rightarrow> [?D f] | None \<Rightarrow> []"])
        (auto simp: words_Get_def cedarGet_known[OF assms(2) k Some small[OF Some]] split: option.splits)
  qed
  have "\<exists>us' dss'. fold_res ?body us fs = Inr (us @ us') \<and> list_all2 cs_docs us' dss'
      \<and> \<Union>(set ` set dss') = (\<Union>f\<in>set fs. set (?D f))" for us
    using assms(4)
  proof (induction fs arbitrary: us)
    case (Cons f fs)
    from body[of f us] Cons.prems obtain us1 dss1 where
      1: "?body us f = Inr (us @ us1)" "list_all2 cs_docs us1 dss1" "\<Union>(set ` set dss1) = set (?D f)" by auto
    from Cons.IH[of "us @ us1"] Cons.prems obtain us2 dss2 where
      2: "fold_res ?body (us @ us1) fs = Inr (us @ us1 @ us2)" "list_all2 cs_docs us2 dss2"
        "\<Union>(set ` set dss2) = (\<Union>f\<in>set fs. set (?D f))" by auto
    from 1 2 show ?case by (intro exI[of _ "us1 @ us2"] exI[of _ "dss1 @ dss2"]) (auto simp: list_all2_appendI)
  qed simp
  from this[of "[]"] show ?thesis by (simp add: union_sets_def)
qed

lemma token_documents:
  assumes "engine_holds amap wf tmap ds m e" and "47 \<notin> set t"
  shows "(\<Union>f\<in>e_fields e. set (ids_of (\<lambda>d. wordToString f t \<in> doc_keys d) (take m ds))) = set (ids_of (has_token t) (take m ds))"
proof -
  have len: "length (take m ds) < 2 ^ 31" and f: "e_fields e = \<Union>((\<lambda>d. fst ` set (entries d)) ` set ds)"
    using assms(1) by (auto simp: engine_holds_def)
  have "has_token t d \<longleftrightarrow> (\<exists>f\<in>e_fields e. wordToString f t \<in> doc_keys d)" if "d \<in> set (take m ds)" for d
    using in_set_takeD[OF that] unfolding f has_token_def in_doc_keys[OF assms(2)] by auto
  then show ?thesis unfolding in_ids_of[OF len] set_eq_iff UN_iff by (metis Suc_diff_1 Suc_le_lessD nth_mem)
qed

lemma intersection_sets:
  assumes "engine_holds amap wf tmap ds m e" and "trie_contract T tmap"
    and "set fs = e_fields e" and "\<forall>f\<in>e_fields e. 0 \<notin> set f" and "\<forall>t\<in>set qs. 0 \<notin> set t \<and> 47 \<notin> set t"
  shows "\<exists>gs dsss. fold_res (\<lambda>sets t. rbind (union_sets V T fs t e) (\<lambda>us. Inr (sets @ [us]))) acc qs = Inr (acc @ gs)
    \<and> list_all2 (list_all2 cs_docs) gs dsss \<and> map (\<lambda>dss. \<Union>(set ` set dss)) dsss = map (\<lambda>t. set (ids_of (has_token t) (take m ds))) qs"
  using assms(5)
proof (induction qs arbitrary: acc)
  case (Cons t qs)
  from union_sets_ok[OF assms(1,2), of t fs] token_documents[OF assms(1), of t] Cons.prems assms(3,4) obtain us dss where
    1: "union_sets V T fs t e = Inr us" "list_all2 cs_docs us dss" "\<Union>(set ` set dss) = set (ids_of (has_token t) (take m ds))"
    by auto
  from Cons.IH[of "acc @ [us]"] Cons.prems obtain gs dsss where
    2: "fold_res (\<lambda>sets t. rbind (union_sets V T fs t e) (\<lambda>us. Inr (sets @ [us]))) (acc @ [us]) qs = Inr (acc @ us # gs)"
      "list_all2 (list_all2 cs_docs) gs dsss" "map (\<lambda>dss. \<Union>(set ` set dss)) dsss = map (\<lambda>t. set (ids_of (has_token t) (take m ds))) qs"
    by auto
  from 1 2 show ?case by (intro exI[of _ "us # gs"] exI[of _ "dss # dsss"]) simp
qed simp

text \<open>The search.\<close>

lemma engine_search_holds:
  assumes "engine_holds amap wf tmap ds m e" and "trie_contract T tmap"
    and "set fs = e_fields e" and "\<forall>f\<in>e_fields e. 0 \<notin> set f" and "length ds < n"
  shows "engine_search V T fs query start offset n e
    = Some (Inr (if tokens query = [] then []
        else page (unat (start * offset)) (unat offset) (ids_of (doc_matches query) (take m ds))))"
proof -
  from query_tokens_set obtain qs tok where qs: "query_tokens query (e_tok e) = Inr (qs, tok)" "set qs = set (tokens query)"
    by blast
  then have clean: "\<forall>t\<in>set qs. 0 \<notin> set t \<and> 47 \<notin> set t" using tokens_clean by auto
  from intersection_sets[OF assms(1-4) clean, of "[]"] obtain gs dsss where
    g: "fold_res (\<lambda>sets t. rbind (union_sets V T fs t e) (\<lambda>us. Inr (sets @ [us]))) [] qs = Inr gs"
      "list_all2 (list_all2 cs_docs) gs dsss"
      "map (\<lambda>dss. \<Union>(set ` set dss)) dsss = map (\<lambda>t. set (ids_of (has_token t) (take m ds))) qs" by auto
  have len: "length (take m ds) < 2 ^ 31" "length ds < 2 ^ 31" using assms(1) by (auto simp: engine_holds_def)
  have search: "engine_search V T fs query start offset n e
      = search_loop n (and_vtable (or_vtable cs_vtable)) (start * offset) offset 0 []
          (and_iter (map (\<lambda>us. or_iter (map cs_iter us)) gs))"
    using qs(1) g(1) by (simp add: engine_search_def Let_def)
  have same: "length gs = length qs" using g(2,3) by (metis length_map list_all2_lengthD)
  show ?thesis
  proof (cases "tokens query = []")
    case True
    then have "gs = []" using qs(2) same by auto
    then show ?thesis using True assms(5) unfolding search by (cases n) (auto simp: and_iter_def and_vtable_def and_nextDoc_def)
  next
    case False
    have "qs \<noteq> []" using False qs(2) by auto
    have sets: "(\<lambda>dss. \<Union>(set ` set dss)) ` set dsss = (\<lambda>t. set (ids_of (has_token t) (take m ds))) ` set qs"
      using arg_cong[OF g(3), of set] by simp
    have "\<Union>(set ` set dss) \<subseteq> or_range" if "dss \<in> set dsss" for dss
      using sets that ids_of_range[OF len(1)] by (metis (no_types, lifting) image_iff)
    then have at: "and_at (or_at cs_at) (and_iter (map (\<lambda>us. or_iter (map cs_iter us)) gs))
        (sorted_list_of_set (\<Inter>dss\<in>set dsss. \<Union>(set ` set dss)))"
      using \<open>qs \<noteq> []\<close> same by (intro and_or_docs_at[OF g(2)]) auto
    obtain q where q: "q \<in> set qs" using \<open>qs \<noteq> []\<close> by (cases qs) auto
    have inter: "(\<Inter>dss\<in>set dsss. \<Union>(set ` set dss)) = set (ids_of (doc_matches query) (take m ds))"
      unfolding sets using q by (auto simp: in_ids_of[OF len(1)] doc_matches_def qs(2)[symmetric] dest: bspec[OF _ q])
    have ids: "sorted_list_of_set (set (ids_of (doc_matches query) (take m ds))) = ids_of (doc_matches query) (take m ds)"
      using ids_of_doc_list[OF len(1), of "doc_matches query"] unfolding doc_list_def
      by (metis sorted_list_of_set.idem_if_sorted_distinct strict_sorted_iff)
    have l: "length (ids_of (doc_matches query) (take m ds)) < n" "length (ids_of (doc_matches query) (take m ds)) < 2 ^ 32"
      using ids_of_doc_list[OF len(1), of "doc_matches query"] assms(5) len by auto
    from cs_and_or.search_loop_at[OF at[unfolded inter ids] l(1), of 0 "start * offset" offset "[]"] l(2) False
    show ?thesis unfolding search by (simp add: page_def unat_eq_zero)
  qed
qed

lemmas engine_search_stored = engine_search_holds[OF engine_stored_holds]

lemma engine_search_ok:
  assumes "engine_flushed amap wf tmap ds e" and "trie_contract T tmap"
    and "set fs = e_fields e" and "\<forall>f\<in>e_fields e. 0 \<notin> set f" and "length ds < n"
  shows "engine_search V T fs query start offset n e
    = Some (Inr (if tokens query = [] then []
        else page (unat (start * offset)) (unat offset) (ids_of (doc_matches query) ds)))"
  using engine_search_stored[OF engine_flushed_stored[OF assms(1)] assms(2-5)] by simp

end

section \<open>Any order of operations\<close>

text \<open>What can happen to an engine, whole rounds of its batch processor included.\<close>

datatype engine_event = AddDoc document | FlushNow | Process | SetMax u32 | NoBatching

fun engine_step ::
    "'s kv_vtable \<Rightarrow> 't trie_ops \<Rightarrow> ((u32 \<rightharpoonup> u32 list) \<Rightarrow> u32 list) \<Rightarrow> ('s, 't) engine \<Rightarrow> engine_event \<Rightarrow> ('s, 't) engine res" where
  "engine_step V T ord e (AddDoc doc) = rbind (addDocument V T ord doc e) (\<lambda>(_, e'). Inr e')"
| "engine_step V T ord e FlushNow = engine_flushBatch V ord e"
| "engine_step V T ord e Process = engine_process V ord e"
| "engine_step V T ord e (SetMax n) = Inr (engine_setMaxBatchSize n e)"
| "engine_step V T ord e NoBatching = Inr (engine_disableBatching e)"

definition added_docs :: "engine_event list \<Rightarrow> document list" where
  "added_docs evs = concat (map (\<lambda>ev. case ev of AddDoc d \<Rightarrow> [d] | _ \<Rightarrow> []) evs)"

text \<open>Documents whose sizes, field names, number and tokens the engine can represent.\<close>

definition docs_fit :: "document list \<Rightarrow> bool" where
  "docs_fit ds \<longleftrightarrow> length ds < 2 ^ 31 - 1 \<and> Suc (num_tokens (concat (map entries ds))) \<le> 2 ^ 31
     \<and> (\<forall>d\<in>set ds. storable d \<and> (\<forall>x\<in>set (entries d). 0 \<notin> set (fst x)))"

lemma docs_fit_prefix: "docs_fit (xs @ ys) \<Longrightarrow> docs_fit xs"
  by (auto simp: docs_fit_def num_tokens_def)

context kv_store
begin

text \<open>A step keeps what is stored, or leaves nothing in the batch.\<close>

lemma engine_step_stored:
  assumes "engine_stored amap wf tmap ds m e" and "trie_contract T tmap" and "hash_order ord"
    and "docs_fit (ds @ added_docs [ev])"
  shows "\<exists>e' m'. engine_step V T ord e ev = Inr e' \<and> engine_stored amap wf tmap (ds @ added_docs [ev]) m' e'
    \<and> m' \<in> {m, length (ds @ added_docs [ev])} \<and> (ev = FlushNow \<longrightarrow> m' = length ds)"
proof -
  note inv = assms(1)[unfolded engine_stored_def]
  have all: ?thesis if "engine_step V T ord e ev = Inr e'" "engine_inv amap wf tmap (ds @ added_docs [ev]) e'"
      "postings (e_index e') = (\<lambda>_. None)" for e'
    using that engine_flushed_stored[of amap wf tmap "ds @ added_docs [ev]" e']
    by (intro exI[of _ e'] exI[of _ "length (ds @ added_docs [ev])"]) (simp add: engine_flushed_def added_docs_def)
  have same: ?thesis if "engine_step V T ord e ev = Inr e'" "engine_stored amap wf tmap (ds @ added_docs [ev]) m e'"
      "ev \<noteq> FlushNow" for e'
    using that by blast
  show ?thesis
  proof (cases ev)
    case (AddDoc doc)
    then have ds': "ds @ added_docs [ev] = ds @ [doc]" by (simp add: added_docs_def)
    have fit: "storable doc" "\<forall>x\<in>set (entries doc). 0 \<notin> set (fst x)" "Suc (length ds) < 2 ^ 31 - 1"
        "Suc (num_tokens (concat (map entries (ds @ [doc])))) \<le> 2 ^ 31"
      using assms(4) by (simp_all add: ds' docs_fit_def)
    from addDocument_inv[OF conjunct1[OF inv] assms(2,3) fit] obtain e' where
      e': "addDocument V T ord doc e = Inr (of_nat (Suc (length ds)), e')" "engine_inv amap wf tmap (ds @ [doc]) e'"
        "tmap (e_words e) \<subseteq>\<^sub>m tmap (e_words e')"
        "ns_abs (of_char CHR ''i'') amap (bi_store (e_index e')) = ns_abs (of_char CHR ''i'') amap (bi_store (e_index e))
         \<or> postings (e_index e') = (\<lambda>_. None)" by blast
    then have step: "engine_step V T ord e ev = Inr e'" using AddDoc by simp
    from e'(4) show ?thesis
    proof
      assume kept: "ns_abs (of_char CHR ''i'') amap (bi_store (e_index e')) = ns_abs (of_char CHR ''i'') amap (bi_store (e_index e))"
      have words: "doc_words (tmap (e_words e')) x = doc_words (tmap (e_words e)) x" if "x \<in> set ds" for x
        using that inv by (intro doc_words_extend[OF e'(3)]) (auto simp: engine_inv_def words_inv_def)
      have "ids_of (\<lambda>d. w \<in> doc_words (tmap (e_words e')) d) (take m ds)
          = ids_of (\<lambda>d. w \<in> doc_words (tmap (e_words e)) d) (take m ds)" for w
        using words by (intro ids_of_cong) (auto dest: in_set_takeD)
      with inv e'(2) kept have "engine_stored amap wf tmap (ds @ added_docs [ev]) m e'" by (simp add: engine_stored_def ds')
      with step AddDoc show ?thesis by (intro same) simp_all
    next
      assume "postings (e_index e') = (\<lambda>_. None)"
      with all[OF step] e'(2) show ?thesis by (simp add: ds')
    qed
  next
    case FlushNow
    with engine_flush_inv(1)[OF conjunct1[OF inv] assms(3)] show ?thesis using all by (auto simp: added_docs_def)
  next
    case Process
    with engine_flush_inv(2)[OF conjunct1[OF inv] assms(3)] assms(1) show ?thesis
      using all same by (auto simp: added_docs_def)
  next
    case (SetMax n)
    have "engine_stored amap wf tmap ds m (engine_setMaxBatchSize n e)" using assms(1)
      by (simp add: engine_setMaxBatchSize_def setMaxBatchSize_def engine_stored_def engine_inv_def words_inv_def batch_ok_def)
    with same SetMax show ?thesis by (simp add: added_docs_def)
  next
    case NoBatching
    have "engine_stored amap wf tmap ds m (engine_disableBatching e)" using assms(1)
      by (simp add: engine_disableBatching_def engine_stored_def engine_inv_def words_inv_def batch_ok_def)
    with same NoBatching show ?thesis by (simp add: added_docs_def)
  qed
qed

lemma engine_steps_stored:
  assumes "trie_contract T tmap" and "hash_order ord"
  shows "\<lbrakk>engine_stored amap wf tmap ds m e; docs_fit (ds @ added_docs evs)\<rbrakk> \<Longrightarrow>
    \<exists>e' m'. fold_res (engine_step V T ord) e evs = Inr e' \<and> engine_stored amap wf tmap (ds @ added_docs evs) m' e' \<and> m \<le> m'"
proof (induction evs arbitrary: ds m e)
  case (Cons ev evs)
  have split: "added_docs (ev # evs) = added_docs [ev] @ added_docs evs" by (simp add: added_docs_def)
  have "docs_fit (ds @ added_docs [ev])"
    using docs_fit_prefix[of "ds @ added_docs [ev]" "added_docs evs"] Cons.prems(2) unfolding split by simp
  from engine_step_stored[OF Cons.prems(1) assms this] obtain e1 m1 where
    e1: "engine_step V T ord e ev = Inr e1" "engine_stored amap wf tmap (ds @ added_docs [ev]) m1 e1"
      "m1 \<in> {m, length (ds @ added_docs [ev])}" by blast
  from Cons.IH[OF e1(2)] Cons.prems(2) obtain e2 m2 where
    e2: "fold_res (engine_step V T ord) e1 evs = Inr e2" "engine_stored amap wf tmap (ds @ added_docs (ev # evs)) m2 e2" "m1 \<le> m2"
    unfolding split by auto
  have "m \<le> m1" using e1(3) Cons.prems(1) by (auto simp: engine_stored_def)
  with e1(1) e2 show ?case by (intro exI[of _ e2] exI[of _ m2]) simp
qed (auto simp: added_docs_def)

text \<open>The same for the invariant alone.\<close>

lemma engine_step_inv:
  assumes "engine_inv amap wf tmap ds e" and "trie_contract T tmap" and "hash_order ord"
    and "docs_fit (ds @ added_docs [ev])"
  shows "\<exists>e'. engine_step V T ord e ev = Inr e' \<and> engine_inv amap wf tmap (ds @ added_docs [ev]) e'"
proof (cases ev)
  case (AddDoc doc)
  from addDocument_inv[OF assms(1-3), of doc] assms(4) AddDoc show ?thesis
    by (auto simp: docs_fit_def added_docs_def)
next
  case (SetMax n)
  then show ?thesis using assms(1)
    by (simp add: added_docs_def engine_setMaxBatchSize_def setMaxBatchSize_def engine_inv_def words_inv_def batch_ok_def)
next
  case NoBatching
  then show ?thesis using assms(1)
    by (simp add: added_docs_def engine_disableBatching_def engine_inv_def words_inv_def batch_ok_def)
qed (use engine_flush_inv[OF assms(1,3)] in \<open>auto simp: added_docs_def\<close>)

lemma engine_steps_inv:
  assumes "trie_contract T tmap" and "hash_order ord"
  shows "\<lbrakk>engine_inv amap wf tmap ds e; docs_fit (ds @ added_docs evs)\<rbrakk> \<Longrightarrow>
    \<exists>e'. fold_res (engine_step V T ord) e evs = Inr e' \<and> engine_inv amap wf tmap (ds @ added_docs evs) e'"
proof (induction evs arbitrary: ds e)
  case (Cons ev evs)
  have split: "added_docs (ev # evs) = added_docs [ev] @ added_docs evs" by (simp add: added_docs_def)
  from engine_step_inv[OF Cons.prems(1) assms, of ev] docs_fit_prefix[of "ds @ added_docs [ev]" "added_docs evs"] Cons.prems(2)
  obtain e1 where e1: "engine_step V T ord e ev = Inr e1" "engine_inv amap wf tmap (ds @ added_docs [ev]) e1"
    unfolding split by auto
  from Cons.IH[OF e1(2)] Cons.prems(2) e1(1) show ?case unfolding split by simp
qed (simp add: added_docs_def)

lemma engine_open_inv:
  assumes "wf s" and "amap s = (\<lambda>_. None)" and "tmap tree = (\<lambda>_. None)"
  shows "\<exists>e. engine_open V tree s = Inr e \<and> engine_inv amap wf tmap [] e \<and> postings (e_index e) = (\<lambda>_. None)"
proof -
  let ?e = "\<lparr>e_data = \<lparr>docId = 1, wordId = 1\<rparr>, e_fields = fields_open (fieldStore V) s, e_words = tree,
    e_index = new_batch_index s, e_sparse = new_sparse_set 1453689, e_tok = new_tokenizer\<rparr>"
  from kv_store.engine_data_open_new[OF name_space assms(1), of "of_char CHR ''e''"] assms(2)
  have "engine_open V tree s = Inr ?e" by (simp add: engine_open_def engineDataStore_def ns_abs_def)
  moreover have "fields_open (fieldStore V) s = {}"
    using kv_store.Get[OF name_space assms(1), of "of_char CHR ''f''" FIELDS_KEY "[]"] assms(2)
    by (simp add: fields_open_def fieldStore_def ns_abs_def)
  moreover have "words_inv tmap 1 {} {} ?e"
    using assms(3) by (simp add: words_inv_def ss_ok_new ss_elems_new)
  moreover have "index_holds SetFactory cs_docs (ns_abs (of_char CHR ''i'') amap s) (\<lambda>_. None)"
    using assms(2) by (simp add: index_holds_def ns_abs_def)
  then have "batch_ok amap wf (\<lambda>w. []) (new_batch_index s)"
    using assms(1) by (auto simp: batch_ok_def new_batch_index_def intro!: exI[of _ "\<lambda>_. None"])
  moreover have "postings (e_index ?e) = (\<lambda>_. None)" by (simp add: new_batch_index_def)
  moreover have "amap (bi_store (e_index ?e)) k = None" for k using assms(2) by (simp add: new_batch_index_def)
  ultimately show ?thesis by (auto simp: engine_inv_def)
qed

end

end
