(* ===== verification/EngineAccess.thy ===== *)
theory EngineAccess
  imports EngineSearch
begin

text \<open>
  Deleting and fetching documents.  Compressed sets cannot take a document out, so deleting one whose
  words are in the index fails; \<open>getDocs\<close> never gives \<open>getDoc\<close> a document to fill.
\<close>

lemma tokens_Nil [simp]: "tokens [] = []"
  by (simp add: tokens_def)

section \<open>The words of a stored document\<close>

lemma collect_tokens:
  "\<exists>ids'. fold_res (\<lambda>ids t. collect_token T tree f t ids) ids ts = Inr ids'
    \<and> set ids \<subseteq> set ids' \<and> (\<forall>t\<in>set ts. fst (words_Get T f t 0 tree) \<longrightarrow> ids' \<noteq> [])
    \<and> (\<forall>w\<in>set ids'. w \<in> set ids \<or> (\<exists>t\<in>set ts. \<exists>v. words_Get T f t 0 tree = (True, v) \<and> w = ucast v))"
proof (induction ts arbitrary: ids)
  case (Cons t ts)
  obtain ok v where g: "words_Get T f t 0 tree = (ok, v)" by fastforce
  from Cons.IH[of "if ok then insort_insert (ucast v) ids else ids"] g show ?case
    by (auto simp: collect_token_def set_insort_insert split: if_splits)
qed simp

lemma collect_entries:
  "\<exists>ids' tok'. fold_res (\<lambda>st x. collect_entry T tree x st) (ids, tok) xs = Inr (ids', tok')
    \<and> set ids \<subseteq> set ids'
    \<and> (\<forall>x\<in>set xs. \<forall>t\<in>set (tokens (snd x)). fst (words_Get T (fst x) t 0 tree) \<longrightarrow> ids' \<noteq> [])
    \<and> (\<forall>w\<in>set ids'. w \<in> set ids \<or> (\<exists>x\<in>set xs. \<exists>t\<in>set (tokens (snd x)). \<exists>v.
          words_Get T (fst x) t 0 tree = (True, v) \<and> w = ucast v))"
proof (induction xs arbitrary: ids tok)
  case (Cons x xs)
  from collect_tokens[of T tree "fst x" ids "tokens (snd x)"] obtain ids1 where
    1: "fold_res (\<lambda>ids t. collect_token T tree (fst x) t ids) ids (tokens (snd x)) = Inr ids1" "set ids \<subseteq> set ids1"
      "\<forall>t\<in>set (tokens (snd x)). fst (words_Get T (fst x) t 0 tree) \<longrightarrow> ids1 \<noteq> []"
      "\<forall>w\<in>set ids1. w \<in> set ids \<or> (\<exists>t\<in>set (tokens (snd x)). \<exists>v. words_Get T (fst x) t 0 tree = (True, v) \<and> w = ucast v)"
    by blast
  from for_tokens_string[of "collect_token T tree (fst x)" "snd x" tok ids] 1(1) obtain tok1 where
    c: "collect_entry T tree x (ids, tok) = Inr (ids1, tok1)" by (auto simp: collect_entry_def)
  from Cons.IH[of ids1 tok1] obtain ids2 tok2 where
    2: "fold_res (\<lambda>st x. collect_entry T tree x st) (ids1, tok1) xs = Inr (ids2, tok2)" "set ids1 \<subseteq> set ids2"
      "\<forall>x\<in>set xs. \<forall>t\<in>set (tokens (snd x)). fst (words_Get T (fst x) t 0 tree) \<longrightarrow> ids2 \<noteq> []"
      "\<forall>w\<in>set ids2. w \<in> set ids1 \<or> (\<exists>x\<in>set xs. \<exists>t\<in>set (tokens (snd x)). \<exists>v. words_Get T (fst x) t 0 tree = (True, v) \<and> w = ucast v)"
    by blast
  show ?case
  proof (intro exI[of _ ids2] exI[of _ tok2] conjI ballI)
    show "fold_res (\<lambda>st x. collect_entry T tree x st) (ids, tok) (x # xs) = Inr (ids2, tok2)" using c 2(1) by simp
    show "set ids \<subseteq> set ids2" using 1(2) 2(2) by blast
    show "fst (words_Get T (fst y) t 0 tree) \<longrightarrow> ids2 \<noteq> []" if "y \<in> set (x # xs)" "t \<in> set (tokens (snd y))" for y t
      using that 1(3) 2(2,3) by (cases ids2) auto
    show "w \<in> set ids \<or> (\<exists>y\<in>set (x # xs). \<exists>t\<in>set (tokens (snd y)). \<exists>v. words_Get T (fst y) t 0 tree = (True, v) \<and> w = ucast v)"
      if "w \<in> set ids2" for w
      using 2(4)[rule_format, OF that] 1(4)[rule_format, of w] by auto
  qed
qed simp

section \<open>Deleting\<close>

lemma engine_word:
  assumes "engine_inv amap good tmap ds e" and "d \<in> set ds" and "k \<in> doc_keys d"
  shows "\<exists>w. tmap (e_words e) k = Some w \<and> unat w < 2 ^ 31"
proof -
  from assms(1) obtain n C where n: "words_inv tmap n (\<Union>(doc_keys ` set ds)) C e" by (auto simp: engine_inv_def)
  then have "k \<in> dom (tmap (e_words e))" "n \<le> 2 ^ 31" using assms(2,3) by (auto simp: words_inv_def)
  moreover from n have "tmap (e_words e) k = Some w \<Longrightarrow> unat w < n" for w by (simp add: words_inv_def)
  ultimately show ?thesis by (auto dest: order_less_le_trans)
qed

context kv_store
begin

lemma stored_document:
  assumes "engine_inv amap wf tmap ds e" and "docs_fit ds" and "i < length ds"
  shows "docs_Get (documentStore V) (of_nat (Suc i)) (Some new_document) (bi_store (e_index e))
      = Some (Inr (1, Some (new_document\<lparr>entries := entries (ds ! i) @ [([], [])]\<rparr>)))"
    and "docs_Get (documentStore V) (of_nat (Suc i)) None (bi_store (e_index e)) = Some (Inl NullPointer)"
proof -
  have s: "wf (bi_store (e_index e))" "storable (ds ! i)"
      "ns_abs (of_char CHR ''d'') amap (bi_store (e_index e)) (int_key (of_nat (Suc i) :: u32)) = Some (mini (ds ! i))"
    using assms by (auto simp: engine_inv_def batch_ok_def docs_fit_def ns_abs_def)
  from kv_store.docs_Get_stored[OF name_space s(1,3,2)]
  show "docs_Get (documentStore V) (of_nat (Suc i)) (Some new_document) (bi_store (e_index e))
      = Some (Inr (1, Some (new_document\<lparr>entries := entries (ds ! i) @ [([], [])]\<rparr>)))"
    "docs_Get (documentStore V) (of_nat (Suc i)) None (bi_store (e_index e)) = Some (Inl NullPointer)"
    by (simp_all add: documentStore_def)
qed

text \<open>Taking a document out of the set of a word of it.\<close>

lemma batch_remove_fails:
  assumes "engine_flushed amap wf tmap ds e" and "tmap (e_words e) k = Some w" and "d \<in> set ds" and "k \<in> doc_keys d"
  shows "batch_remove (invertedIndexStore V) SetFactory w i (e_index e) = Inl (Thrown (- 17))"
proof -
  from word_docs[OF engine_stored_holds, OF engine_flushed_stored[OF assms(1)] assms(2), simplified take_all[OF order_refl]] obtain got where got:
    "index_get (invertedIndexStore V) SetFactory w (bi_store (e_index e)) = Inr got"
    "case got of Some p \<Rightarrow> cs_docs p (ids_of (\<lambda>d. k \<in> doc_keys d) ds) | None \<Rightarrow> ids_of (\<lambda>d. k \<in> doc_keys d) ds = []" by blast
  have "ids_of (\<lambda>d. k \<in> doc_keys d) ds \<noteq> []"
    using assms(3,4) by (auto simp: ids_of_def filter_empty_conv in_set_conv_nth)
  with got obtain p where "got = Some p" by (cases got) auto
  with got(1) assms(1) show ?thesis
    by (simp add: batch_remove_def engine_flushed_def SetFactory_def cs_removeDocId_def)
qed

lemma deleteDocument_fails:
  assumes "engine_flushed amap wf tmap ds e" and "trie_contract T tmap" and "docs_fit ds" and "i < length ds"
    and "x \<in> set (entries (ds ! i))" and "tokens (snd x) \<noteq> []"
  shows "deleteDocument V T (of_nat (Suc i)) e = Some (Inl (Thrown (- 17)))"
proof -
  have inv: "engine_inv amap wf tmap ds e" using assms(1) by (simp add: engine_flushed_def)
  let ?xs = "entries (ds ! i) @ [([], [])]"
  have di: "ds ! i \<in> set ds" using assms(4) by simp
  have known: "\<exists>w. tmap (e_words e) (wordToString (fst y) t) = Some w
      \<and> words_Get T (fst y) t 0 (e_words e) = (True, ucast w) \<and> wordToString (fst y) t \<in> doc_keys (ds ! i)"
    if "y \<in> set (entries (ds ! i))" "t \<in> set (tokens (snd y))" for y t
  proof -
    have k: "wordToString (fst y) t \<in> doc_keys (ds ! i)" using that by (auto simp: doc_keys_def entry_keys_def)
    from engine_word[OF inv di k] obtain w where
      w: "tmap (e_words e) (wordToString (fst y) t) = Some w" "unat w < 2 ^ 31" by blast
    have "0 \<notin> set (wordToString (fst y) t)"
      using that assms(3) di tokens_clean by (auto simp: docs_fit_def wordToString_def)
    then show ?thesis using cedarGet_known[OF assms(2) _ w] w(1) k by (simp add: words_Get_def)
  qed
  from collect_entries[of T "e_words e" "[]" "e_tok e" ?xs] obtain ids tok where
    ids: "fold_res (\<lambda>st x. collect_entry T (e_words e) x st) ([], e_tok e) ?xs = Inr (ids, tok)"
      "\<forall>x\<in>set ?xs. \<forall>t\<in>set (tokens (snd x)). fst (words_Get T (fst x) t 0 (e_words e)) \<longrightarrow> ids \<noteq> []"
      "\<forall>w\<in>set ids. \<exists>x\<in>set ?xs. \<exists>t\<in>set (tokens (snd x)). \<exists>v. words_Get T (fst x) t 0 (e_words e) = (True, v) \<and> w = ucast v"
    by auto
  obtain t where "t \<in> set (tokens (snd x))" using assms(6) by (cases "tokens (snd x)") auto
  with known[OF assms(5)] ids(2) assms(5) have "ids \<noteq> []" by force
  then obtain w ws where w: "ids = w # ws" by (cases ids) auto
  with ids(3) obtain y u v where y: "y \<in> set (entries (ds ! i))" "u \<in> set (tokens (snd y))"
      "words_Get T (fst y) u 0 (e_words e) = (True, v)" "w = ucast v" by auto
  from known[OF y(1,2)] y(3) obtain w' where
    w': "tmap (e_words e) (wordToString (fst y) u) = Some w'" "v = ucast w'" "wordToString (fst y) u \<in> doc_keys (ds ! i)" by auto
  have "ucast (ucast w' :: u64) = w'" by (rule bit_word_eqI) (simp add: bit_ucast_iff)
  then have "w = w'" using y(4) w'(2) by simp
  with batch_remove_fails[OF assms(1) _ di w'(3)] w'(1) ids(1) w stored_document(1)[OF inv assms(3,4)] show ?thesis
    by (simp add: deleteDocument_def new_document_def)
qed

section \<open>Fetching\<close>

lemma getDocs_fails:
  assumes "engine_inv amap wf tmap ds e" and "docs_fit ds" and "i < length ds"
  shows "engine_getDocs V (of_nat (Suc i) # ids) e = Some (Inl NullPointer)"
  using stored_document(2)[OF assms] by (simp add: engine_getDoc_def)

lemma getDoc_stored:
  assumes "engine_inv amap wf tmap ds e" and "docs_fit ds" and "i < length ds"
  shows "engine_getDoc V (of_nat (Suc i)) (Some new_document) e
    = Some (Inr (True, Some (new_document\<lparr>entries := entries (ds ! i) @ [([], [])]\<rparr>)))"
  using stored_document(1)[OF assms] by (simp add: engine_getDoc_def)

end

section \<open>An engine over the store in memory\<close>

text \<open>A trie that is the map itself.\<close>

lemma map_trie: "trie_contract \<lparr>tr_update = (\<lambda>k v t. t(k \<mapsto> v)),
    tr_exactMatchSearch = (\<lambda>k t. case t k of None \<Rightarrow> - 1 | Some v \<Rightarrow> v)\<rparr> (\<lambda>t. t)"
  by (simp add: trie_contract_def split: option.split)

text \<open>Documents added to a new engine, with any flushes in between and one at the end.\<close>

lemma run_engine:
  assumes "trie_contract T tmap" and "tmap tree = (\<lambda>_. None)" and "hash_order ord" and "docs_fit (added_docs evs)"
  shows "\<exists>e e'. engine_open mem_vtable tree new_kv_memory = Inr e
    \<and> fold_res (engine_step mem_vtable T ord) e (evs @ [FlushNow]) = Inr e'
    \<and> engine_flushed mem_map (\<lambda>_. True) tmap (added_docs evs) e'"
proof -
  have empty: "mem_map new_kv_memory = (\<lambda>_. None)" by (simp add: new_kv_memory_def)
  from mem.engine_open_inv[where tmap = tmap and tree = tree, OF TrueI this assms(2)] obtain e where
    e: "engine_open mem_vtable tree new_kv_memory = Inr e" "engine_inv mem_map (\<lambda>_. True) tmap [] e" by blast
  from mem.engine_steps_inv[OF assms(1,3) e(2), of evs] assms(4) obtain e1 where
    e1: "fold_res (engine_step mem_vtable T ord) e evs = Inr e1" "engine_inv mem_map (\<lambda>_. True) tmap (added_docs evs) e1" by auto
  from mem.engine_flush_inv(1)[OF e1(2) assms(3)] obtain e2 where
    "engine_flushBatch mem_vtable ord e1 = Inr e2" "engine_inv mem_map (\<lambda>_. True) tmap (added_docs evs) e2" "postings (e_index e2) = (\<lambda>_. None)" by blast
  then have "fold_res (engine_step mem_vtable T ord) e (evs @ [FlushNow]) = Inr e2"
    "engine_flushed mem_map (\<lambda>_. True) tmap (added_docs evs) e2"
    using e1(1) by (simp_all add: engine_flushed_def)
  with e(1) show ?thesis by blast
qed

section \<open>Closing the counters\<close>

text \<open>What the destructor of an engine stores, and what the next engine reads over a stack of zeros.\<close>

context kv_store
begin

lemma engine_close_counters:
  assumes "engine_inv amap wf tmap ds e" and "hash_order ord" and "length buf1 = 19" and "length buf2 = 19"
  shows "\<exists>s'. engine_close V ord fs buf1 buf2 e = Inr s' \<and> wf s'
    \<and> amap s' (of_char CHR ''e'' # DOC_ID_KEY) = Some (stored_counter buf1 (Suc (length ds)))
    \<and> amap s' (of_char CHR ''e'' # WORD_ID_KEY) = Some (stored_counter buf2 (unat (wordId (e_data e))))
    \<and> unat (wordId (e_data e)) < 10 ^ 18"
proof -
  let ?A = "\<lambda>w. ids_of (\<lambda>d. w \<in> doc_words (tmap (e_words e)) d) ds"
  let ?b = "e_index (engine_disableBatching e)"
  note inv = assms(1)[unfolded engine_inv_def]
  have len: "length ds < 2 ^ 31" using inv by simp
  have A: "doc_list (?A w) \<and> length (?A w) < 2 ^ 31" for w
    using ids_of_doc_list[OF len, of "\<lambda>d. w \<in> doc_words (tmap (e_words e)) d"] len by (blast intro: le_less_trans)
  have "batch_ok amap wf ?A ?b" using inv by (auto simp: batch_ok_def engine_disableBatching_def)
  from flush_ok[OF this A assms(2)] obtain s1 where
    s1: "flush (invertedIndexStore V) SetFactory (ord (postings ?b)) (postings ?b) (bi_store ?b) = Inr (1, s1)" "wf s1" by blast
  obtain s2 where s2: "fields_close (fieldStore V) fs s1 = s2" "wf s2"
    using kv_store.Put[OF name_space s1(2), of "of_char CHR ''f''" FIELDS_KEY "fields_string fs"]
    by (auto simp: fields_close_def fieldStore_def)
  obtain n where n: "wordId (e_data e) = of_nat n" "n \<le> 2 ^ 31" using inv by (auto simp: words_inv_def)
  then have w: "unat (wordId (e_data e)) = n" by (simp add: unat_of_nat take_bit_nat_eq_self)
  have d: "unat (docId (e_data e)) = Suc (length ds)"
    using inv by (simp add: unat_of_nat take_bit_nat_eq_self del: of_nat_Suc)
  from kv_store.engine_data_close_stores[OF name_space s2(2) assms(3,4), of "e_data e" "of_char CHR ''e''"] d w n(2) len obtain s3 where
    s3: "engine_data_close (engineDataStore V) buf1 buf2 (e_data e) s2 = Inr s3" "wf s3"
      "ns_abs (of_char CHR ''e'') amap s3 = (ns_abs (of_char CHR ''e'') amap s2)
        (DOC_ID_KEY \<mapsto> stored_counter buf1 (Suc (length ds)), WORD_ID_KEY \<mapsto> stored_counter buf2 n)"
    by (auto simp: engineDataStore_def)
  have "engine_close V ord fs buf1 buf2 e = Inr s3"
    using s1(1) s2(1) s3(1) by (simp add: engine_close_def Let_def)
  moreover have "ns_abs (of_char CHR ''e'') amap s3 k = amap s3 (of_char CHR ''e'' # k)" for k by (simp add: ns_abs_def)
  ultimately show ?thesis using s3(2) w n(2) fun_cong[OF s3(3), of DOC_ID_KEY] fun_cong[OF s3(3), of WORD_ID_KEY]
    by (intro exI[of _ s3]) simp
qed

lemma engine_reopen_zero:
  assumes "wf s" and "amap s (of_char CHR ''e'' # DOC_ID_KEY) = Some (stored_counter (replicate 19 0) d)"
    and "amap s (of_char CHR ''e'' # WORD_ID_KEY) = Some (stored_counter (replicate 19 0) w)" and "d < 10 ^ 18" and "w < 10 ^ 18"
  shows "\<exists>e. engine_open V tree s = Inr e \<and> e_data e = \<lparr>docId = 0, wordId = 0\<rparr>"
proof -
  have "ns_abs (of_char CHR ''e'') amap s DOC_ID_KEY = Some (stored_counter (replicate 19 0) d)"
    "ns_abs (of_char CHR ''e'') amap s WORD_ID_KEY = Some (stored_counter (replicate 19 0) w)"
    using assms(2,3) by (simp_all add: ns_abs_def)
  then have "engine_data_open (engineDataStore V) s = Inr \<lparr>docId = 0, wordId = 0\<rparr>"
    using stored_counter_zeros[OF assms(4)] stored_counter_zeros[OF assms(5)]
    by (simp add: engine_data_open_def engineDataStore_def kv_store.Get[OF name_space assms(1)])
  then show ?thesis by (simp add: engine_open_def)
qed

end

end
