(* ===== verification/EngineThreads.thy ===== *)
theory EngineThreads
  imports EngineSearch
begin

text \<open>
  The engine with its batch processor (\<open>InvertedIndexSimpleBatch::processBatch\<close>) running beside the
  caller.  A round of the processor is three steps: it takes the batch with the mutex, and then,
  without the mutex, reads the sets of its words and writes them back.  The caller's operations may
  come between them.  A step of the processor that would fall into the middle of an \<open>addDocument\<close> or a
  search is taken before or after it: \<open>addDocument\<close> touches the batch at its end only, with the mutex,
  and shares no key of the store with the processor; a search with the write of the processor inside
  it is not covered.
\<close>

section \<open>Steps\<close>

text \<open>What the processor has in hand: nothing, its copy of a batch, or a batch and the writes for it.\<close>

datatype flight = Idle | Copied "u32 \<rightharpoonup> u32 list" | Writing "u32 \<rightharpoonup> u32 list" "(u32 \<times> bytes) list"

fun flight_batch :: "flight \<Rightarrow> (u32 \<rightharpoonup> u32 list)" where
  "flight_batch Idle = (\<lambda>_. None)"
| "flight_batch (Copied batch) = batch"
| "flight_batch (Writing batch writes) = batch"

datatype proc_step = TakeBatch | ReadSets | WriteSets

text \<open>A step that the processor is not at leaves everything as it is.\<close>

fun engine_proc ::
    "'s kv_vtable \<Rightarrow> ((u32 \<rightharpoonup> u32 list) \<Rightarrow> u32 list) \<Rightarrow> ('s, 't) engine \<times> flight \<Rightarrow> proc_step
      \<Rightarrow> (('s, 't) engine \<times> flight) res" where
  "engine_proc V ord (e, Idle) TakeBatch =
     (let b = e_index e in
      if dataReady b \<and> \<not> bi_done b then
        Inr (e\<lparr>e_index := (clear_batch b)\<lparr>dataReady := False\<rparr>\<rparr>, Copied (postings b))
      else Inr (e, Idle))"
| "engine_proc V ord (e, Copied batch) ReadSets =
     rbind (flush_writes (invertedIndexStore V) SetFactory (bi_store (e_index e)) batch (ord batch)) (\<lambda>writes.
       Inr (e, Writing batch writes))"
| "engine_proc V ord (e, Writing batch writes) WriteSets =
     rbind (kv_PutMany32 (invertedIndexStore V) writes (bi_store (e_index e))) (\<lambda>(st, s').
       Inr (e\<lparr>e_index := (e_index e)\<lparr>bi_store := s'\<rparr>\<rparr>, Idle))"
| "engine_proc V ord x step = Inr x"

text \<open>\<open>engine_process\<close> is such a round with nothing in between.\<close>

lemma engine_process_steps:
  "fold_res (engine_proc V ord) (e, Idle) [TakeBatch, ReadSets, WriteSets] = rbind (engine_process V ord e) (\<lambda>e'. Inr (e', Idle))"
  by (cases "dataReady (e_index e) \<and> \<not> bi_done (e_index e)")
    (auto simp: engine_process_def flush_def Let_def rbind_def clear_batch_def split: sum.splits prod.splits)

text \<open>
  Shutting the processor down, when that returns: \<open>steps\<close> are what the processor does between the
  assignments to \<open>dataReady\<close> and \<open>done\<close>; after them it only ends what it has in hand, and is joined.
\<close>

definition stop_processor ::
    "'s kv_vtable \<Rightarrow> ((u32 \<rightharpoonup> u32 list) \<Rightarrow> u32 list) \<Rightarrow> proc_step list \<Rightarrow> ('s, 't) engine \<times> flight
      \<Rightarrow> (('s, 't) engine \<times> flight) res" where
  "stop_processor V ord steps x =
     (case x of (e, fl) \<Rightarrow>
        if bi_done (e_index e) then Inr x
        else
          rbind (fold_res (engine_proc V ord) (e\<lparr>e_index := (e_index e)\<lparr>dataReady := True\<rparr>\<rparr>, fl) (steps @ [ReadSets, WriteSets]))
            (\<lambda>(e', fl'). Inr (e'\<lparr>e_index := (e_index e')\<lparr>bi_done := True\<rparr>\<rparr>, fl')))"

text \<open>What happens, in the order in which it happens.\<close>

datatype thread_event =
  CallAdd document
| CallFlush
| CallSetMax u32
| CallStop "proc_step list"
| Proc proc_step

fun engine_tstep ::
    "'s kv_vtable \<Rightarrow> 't trie_ops \<Rightarrow> ((u32 \<rightharpoonup> u32 list) \<Rightarrow> u32 list) \<Rightarrow> ('s, 't) engine \<times> flight \<Rightarrow> thread_event
      \<Rightarrow> (('s, 't) engine \<times> flight) res" where
  "engine_tstep V T ord (e, fl) (CallAdd doc) = rbind (addDocument V T ord doc e) (\<lambda>(_, e'). Inr (e', fl))"
| "engine_tstep V T ord (e, fl) CallFlush = rbind (engine_flushBatch V ord e) (\<lambda>e'. Inr (e', fl))"
| "engine_tstep V T ord (e, fl) (CallSetMax n) = Inr (engine_setMaxBatchSize n e, fl)"
| "engine_tstep V T ord x (CallStop steps) = stop_processor V ord steps x"
| "engine_tstep V T ord x (Proc step) = engine_proc V ord x step"

lemma engine_tstep_any [simp]:
  "engine_tstep V T ord x (CallStop steps) = stop_processor V ord steps x"
  "engine_tstep V T ord x (Proc step) = engine_proc V ord x step"
  by (cases x, simp)+

definition called_docs :: "thread_event list \<Rightarrow> document list" where
  "called_docs evs = concat (map (\<lambda>ev. case ev of CallAdd d \<Rightarrow> [d] | _ \<Rightarrow> []) evs)"

lemma called_docs_simps [simp]:
  "called_docs [] = []" "called_docs (CallAdd d # evs) = d # called_docs evs"
  "called_docs (CallFlush # evs) = called_docs evs" "called_docs (CallSetMax n # evs) = called_docs evs"
  "called_docs (CallStop steps # evs) = called_docs evs" "called_docs (Proc step # evs) = called_docs evs"
  "called_docs (evs @ evs') = called_docs evs @ called_docs evs'"
  by (simp_all add: called_docs_def)

text \<open>
  No \<open>flushBatch\<close> of the caller begins while the processor has a batch in hand.  The code does not
  see to it: it is the condition without which documents are lost.
\<close>

fun flushes_alone ::
    "'s kv_vtable \<Rightarrow> 't trie_ops \<Rightarrow> ((u32 \<rightharpoonup> u32 list) \<Rightarrow> u32 list) \<Rightarrow> ('s, 't) engine \<times> flight \<Rightarrow> thread_event list
      \<Rightarrow> bool" where
  "flushes_alone V T ord x [] = True"
| "flushes_alone V T ord x (ev # evs) =
     ((ev = CallFlush \<longrightarrow> snd x = Idle)
      \<and> (case engine_tstep V T ord x ev of Inl err \<Rightarrow> True | Inr y \<Rightarrow> flushes_alone V T ord y evs))"

text \<open>After the last two steps of a round the processor has nothing in hand.\<close>

lemma round_ends: "fold_res (engine_proc V ord) x [ReadSets, WriteSets] = Inr y \<Longrightarrow> snd y = Idle"
  by (cases x; cases "snd x") (auto simp: rbind_def split: sum.splits prod.splits)

section \<open>The invariant\<close>

text \<open>
  The store has the first \<open>m\<close> documents, with what the processor has in hand it will have the first
  \<open>k\<close>, the others are in the batch.
\<close>

definition threads_inv ::
    "('s \<Rightarrow> (bytes \<rightharpoonup> bytes)) \<Rightarrow> ('s \<Rightarrow> bool) \<Rightarrow> ('t \<Rightarrow> (bytes \<rightharpoonup> u32)) \<Rightarrow> document list \<Rightarrow> nat \<Rightarrow> nat
      \<Rightarrow> ('s, 't) engine \<times> flight \<Rightarrow> bool" where
  "threads_inv amap good tmap ds m k x \<longleftrightarrow>
     (\<exists>P. engine_with amap good tmap P (docs_of (flight_batch (snd x))) ds (fst x)
        \<and> (\<forall>w. docs_of P w = ids_of (\<lambda>d. w \<in> doc_words (tmap (e_words (fst x))) d) (take m ds))
        \<and> (\<forall>w. docs_of P w @ docs_of (flight_batch (snd x)) w
             = ids_of (\<lambda>d. w \<in> doc_words (tmap (e_words (fst x))) d) (take k ds))
        \<and> (\<forall>batch writes. snd x = Writing batch writes \<longrightarrow> flush_result SetFactory cs_docs batch P writes))
   \<and> m \<le> k \<and> k \<le> length ds \<and> finite (dom (flight_batch (snd x)))
   \<and> (bi_done (e_index (fst x)) \<longrightarrow> snd x = Idle)"

lemma threads_inv_holds:
  assumes "threads_inv amap good tmap ds m k (e, fl)"
  shows "engine_holds amap good tmap ds m e"
proof -
  from assms obtain P where P: "engine_with amap good tmap P (docs_of (flight_batch fl)) ds e"
      "\<forall>w. docs_of P w = ids_of (\<lambda>d. w \<in> doc_words (tmap (e_words e)) d) (take m ds)" "m \<le> k" "k \<le> length ds"
    unfolding threads_inv_def fst_conv snd_conv by blast
  then have "length ds < 2 ^ 31 - 1" "\<exists>n C. words_inv tmap n (\<Union>(doc_keys ` set ds)) C e" "m \<le> length ds"
    "e_fields e = \<Union>((\<lambda>d. fst ` set (entries d)) ` set ds)" "good (bi_store (e_index e))"
    "index_holds SetFactory cs_docs (ns_abs (of_char CHR ''i'') amap (bi_store (e_index e))) P"
    unfolding engine_with_def batch_with_def by (blast, blast, linarith, blast+)
  with P(2) show ?thesis unfolding engine_holds_def by blast
qed

lemma docs_of_none [simp]: "docs_of (\<lambda>_. None) = (\<lambda>_. [])"
  by (rule ext) simp

text \<open>An engine whose processor has nothing in hand is one as before, and the reverse.\<close>

lemma threads_inv_idle:
  assumes "threads_inv amap good tmap ds m k (e, Idle)"
  shows "engine_inv amap good tmap ds e"
  using assms unfolding threads_inv_def engine_inv_with by auto

lemma engine_flushed_threads:
  assumes "engine_inv amap good tmap ds e" and "postings (e_index e) = (\<lambda>_. None)"
  shows "threads_inv amap good tmap ds (length ds) (length ds) (e, Idle)"
proof -
  from assms(1) obtain P where P: "engine_with amap good tmap P (\<lambda>_. []) ds e" by (auto simp: engine_inv_with)
  then have "docs_of P w = ids_of (\<lambda>d. w \<in> doc_words (tmap (e_words e)) d) ds" for w
    using assms(2) by (simp add: engine_with_def batch_with_def)
  with P show ?thesis unfolding threads_inv_def by (intro conjI exI[of _ P]) simp_all
qed

context kv_store
begin

text \<open>What the state of the index has to be for the invariant, with the rest of the engine as it was.\<close>

lemma engine_with_index:
  assumes "engine_with amap wf tmap P F ds e" and "batch_with amap wf P' F' (\<lambda>w. docs_of P w @ F w @ docs_of (postings (e_index e)) w) b"
    and "\<And>k. amap (bi_store b) (of_char CHR ''d'' # k) = amap (bi_store (e_index e)) (of_char CHR ''d'' # k)"
  shows "engine_with amap wf tmap P' F' ds (e\<lparr>e_index := b\<rparr>)"
proof -
  have "(\<lambda>w. docs_of P w @ F w @ docs_of (postings (e_index e)) w) = (\<lambda>w. ids_of (\<lambda>d. w \<in> doc_words (tmap (e_words e)) d) ds)"
    using assms(1) by (simp add: engine_with_def batch_with_def)
  with assms show ?thesis by (simp add: engine_with_def words_inv_def)
qed

lemma take_batch_inv:
  assumes "threads_inv amap wf tmap ds m k (e, Idle)"
  shows "\<exists>x k'. engine_proc V ord (e, Idle) TakeBatch = Inr x \<and> threads_inv amap wf tmap ds m k' x"
proof (cases "dataReady (e_index e) \<and> \<not> bi_done (e_index e)")
  case True
  let ?b = "(clear_batch (e_index e))\<lparr>dataReady := False\<rparr>"
  let ?e = "e\<lparr>e_index := ?b\<rparr>"
  from assms obtain P where P: "engine_with amap wf tmap P (\<lambda>_. []) ds e" "m \<le> length ds"
      "\<forall>w. docs_of P w = ids_of (\<lambda>d. w \<in> doc_words (tmap (e_words e)) d) (take m ds)"
    by (auto simp: threads_inv_def)
  have b: "batch_with amap wf P (\<lambda>_. []) (\<lambda>w. ids_of (\<lambda>d. w \<in> doc_words (tmap (e_words e)) d) ds) (e_index e)"
    using P(1) by (simp add: engine_with_def)
  then have "batch_with amap wf P (docs_of (postings (e_index e)))
      (\<lambda>w. docs_of P w @ [] @ docs_of (postings (e_index e)) w) ?b" by (simp add: batch_with_def clear_batch_def)
  from engine_with_index[OF P(1) this] have "engine_with amap wf tmap P (docs_of (postings (e_index e))) ds ?e"
    by (simp add: clear_batch_def)
  with P(2,3) b True have "threads_inv amap wf tmap ds m (length ds) (?e, Copied (postings (e_index e)))"
    unfolding threads_inv_def by (intro conjI exI[of _ P]) (simp_all add: batch_with_def clear_batch_def)
  then show ?thesis using True by (simp add: Let_def) blast
next
  case False
  then show ?thesis using assms by (auto simp: Let_def)
qed

text \<open>The batch in hand fits behind what the store has.\<close>

lemma flight_fits:
  assumes "engine_with amap wf tmap P F ds e" and "\<And>w. F w = docs_of batch w"
  shows "batch_fits batch P" and "docs_of (merged batch P) w = docs_of P w @ docs_of batch w"
proof -
  let ?A = "\<lambda>w. ids_of (\<lambda>d. w \<in> doc_words (tmap (e_words e)) d) ds"
  have len: "length ds < 2 ^ 31" using assms(1) by (simp add: engine_with_def)
  have A: "doc_list (?A w) \<and> length (?A w) < 2 ^ 31" for w
    using ids_of_doc_list[OF len, of "\<lambda>d. w \<in> doc_words (tmap (e_words e)) d"] len by (blast intro: le_less_trans)
  have "docs_of P w @ docs_of batch w @ docs_of (postings (e_index e)) w = ?A w" for w
    using assms by (simp add: engine_with_def batch_with_def)
  from append_fits[OF this A] show "batch_fits batch P"
    "docs_of (merged batch P) w = docs_of P w @ docs_of batch w" by blast+
qed

lemma read_sets_inv:
  assumes "threads_inv amap wf tmap ds m k (e, Copied batch)" and "hash_order ord"
  shows "\<exists>x. engine_proc V ord (e, Copied batch) ReadSets = Inr x \<and> threads_inv amap wf tmap ds m k x"
proof -
  from assms(1) obtain P where P: "engine_with amap wf tmap P (docs_of batch) ds e" "m \<le> k" "k \<le> length ds"
      "\<forall>w. docs_of P w = ids_of (\<lambda>d. w \<in> doc_words (tmap (e_words e)) d) (take m ds)"
      "\<forall>w. docs_of P w @ docs_of batch w = ids_of (\<lambda>d. w \<in> doc_words (tmap (e_words e)) d) (take k ds)"
      "finite (dom batch)" "\<not> bi_done (e_index e)"
    unfolding threads_inv_def fst_conv snd_conv flight_batch.simps by blast
  note fits = flight_fits[OF P(1) refl]
  have b: "wf (bi_store (e_index e))" "index_holds SetFactory cs_docs (ns_abs (of_char CHR ''i'') amap (bi_store (e_index e))) P"
    using P(1) by (simp_all add: engine_with_def batch_with_def)
  have it: "iteration batch (ord batch)" using assms(2) P(6) by (simp add: hash_order_def)
  from inverted_index.flush_writes_docs[OF index_store b(2,1) fits(1), of "ord batch"] it obtain writes where
    w: "flush_writes (invertedIndexStore V) SetFactory (bi_store (e_index e)) batch (ord batch) = Inr writes"
    by (auto simp: iteration_def invertedIndexStore_def)
  from inverted_index.flush_result_read[OF index_store b(2,1) fits(1) it w[unfolded invertedIndexStore_def]]
  have "flush_result SetFactory cs_docs batch P writes" .
  with P have "threads_inv amap wf tmap ds m k (e, Writing batch writes)"
    unfolding threads_inv_def by (intro conjI exI[of _ P]) simp_all
  with w show ?thesis by simp
qed

lemma write_sets_inv:
  assumes "threads_inv amap wf tmap ds m k (e, Writing batch writes)"
  shows "\<exists>x. engine_proc V ord (e, Writing batch writes) WriteSets = Inr x \<and> threads_inv amap wf tmap ds k k x"
proof -
  from assms obtain P where P: "engine_with amap wf tmap P (docs_of batch) ds e" "m \<le> k" "k \<le> length ds"
      "\<forall>w. docs_of P w @ docs_of batch w = ids_of (\<lambda>d. w \<in> doc_words (tmap (e_words e)) d) (take k ds)"
      "flush_result SetFactory cs_docs batch P writes"
    unfolding threads_inv_def fst_conv snd_conv flight_batch.simps by blast
  note fits = flight_fits[OF P(1) refl]
  have b: "wf (bi_store (e_index e))" "finite (dom (postings (e_index e)))"
    "index_holds SetFactory cs_docs (ns_abs (of_char CHR ''i'') amap (bi_store (e_index e))) P"
    using P(1) by (simp_all add: engine_with_def batch_with_def)
  from kv_store.PutMany32[OF name_space b(1), of "of_char CHR ''i''" writes] obtain st s' where
    s': "kv_PutMany32 (invertedIndexStore V) writes (bi_store (e_index e)) = Inr (st, s')"
    by (auto simp: invertedIndexStore_def)
  from inverted_index.flush_result_write[OF index_store b(3,1) P(5) s'[unfolded invertedIndexStore_def]]
  have h: "index_holds SetFactory cs_docs (ns_abs (of_char CHR ''i'') amap s') (merged batch P)" "wf s'" by blast+
  have "amap s' (of_char CHR ''d'' # x) = amap (bi_store (e_index e)) (of_char CHR ''d'' # x)" for x
    by (rule PutMany32_frame[OF b(1) s'[unfolded invertedIndexStore_def]]) simp
  moreover have "batch_with amap wf (merged batch P) (\<lambda>_. [])
      (\<lambda>w. docs_of P w @ docs_of batch w @ docs_of (postings (e_index e)) w) ((e_index e)\<lparr>bi_store := s'\<rparr>)"
    using h b(2) fits(2) by (simp add: batch_with_def)
  ultimately have "engine_with amap wf tmap (merged batch P) (\<lambda>_. []) ds (e\<lparr>e_index := (e_index e)\<lparr>bi_store := s'\<rparr>\<rparr>)"
    using engine_with_index[OF P(1)] by simp
  then have "threads_inv amap wf tmap ds k k (e\<lparr>e_index := (e_index e)\<lparr>bi_store := s'\<rparr>\<rparr>, Idle)"
    using P(3,4) fits(2) unfolding threads_inv_def by (intro conjI exI[of _ "merged batch P"]) simp_all
  with s' show ?thesis by simp
qed

text \<open>A step of the processor, and any number of them.\<close>

lemma engine_proc_inv:
  assumes "threads_inv amap wf tmap ds m k x" and "hash_order ord"
  shows "\<exists>y m' k'. engine_proc V ord x step = Inr y \<and> threads_inv amap wf tmap ds m' k' y \<and> m \<le> m'"
proof -
  have le: "m \<le> k" using assms(1) by (simp add: threads_inv_def)
  obtain e fl where x: "x = (e, fl)" by (cases x)
  show ?thesis
  proof (cases "engine_proc V ord x step = Inr x")
    case True
    with assms(1) show ?thesis by blast
  next
    case False
    then consider "fl = Idle" "step = TakeBatch" | batch where "fl = Copied batch" "step = ReadSets"
      | batch writes where "fl = Writing batch writes" "step = WriteSets"
      unfolding x by (cases fl; cases step) auto
    then show ?thesis
      using take_batch_inv[of tmap ds m k e ord] read_sets_inv[OF _ assms(2)] write_sets_inv assms(1) le unfolding x
      by cases (blast intro: order_refl)+
  qed
qed

lemma engine_procs_inv:
  assumes "hash_order ord"
  shows "threads_inv amap wf tmap ds m k x \<Longrightarrow>
    \<exists>y m' k'. fold_res (engine_proc V ord) x steps = Inr y \<and> threads_inv amap wf tmap ds m' k' y \<and> m \<le> m'"
proof (induction steps arbitrary: x m k)
  case (Cons st steps)
  from engine_proc_inv[OF Cons.prems assms, of st] obtain y m' k' where
    y: "engine_proc V ord x st = Inr y" "threads_inv amap wf tmap ds m' k' y" "m \<le> m'" by blast
  from Cons.IH[OF y(2)] y(1,3) show ?case by (auto intro: le_trans)
qed auto

lemma stop_processor_inv:
  assumes "threads_inv amap wf tmap ds m k x" and "hash_order ord"
  shows "\<exists>y m' k'. stop_processor V ord steps x = Inr y \<and> threads_inv amap wf tmap ds m' k' y \<and> m \<le> m'"
proof (cases "bi_done (e_index (fst x))")
  case True
  then show ?thesis using assms(1) by (auto simp: stop_processor_def split: prod.splits)
next
  case False
  obtain e fl where x: "x = (e, fl)" by (cases x)
  let ?e = "e\<lparr>e_index := (e_index e)\<lparr>dataReady := True\<rparr>\<rparr>"
  have "threads_inv amap wf tmap ds m k (?e, fl)" using assms(1)
    unfolding x by (simp add: threads_inv_def engine_with_def batch_with_def words_inv_def)
  from engine_procs_inv[OF assms(2) this, of steps] obtain e1 fl1 m1 k1 where
    1: "fold_res (engine_proc V ord) (?e, fl) steps = Inr (e1, fl1)" "threads_inv amap wf tmap ds m1 k1 (e1, fl1)" "m \<le> m1"
    by auto
  from engine_procs_inv[OF assms(2) 1(2), of "[ReadSets, WriteSets]"] obtain e2 fl2 m2 k2 where
    2: "fold_res (engine_proc V ord) (e1, fl1) [ReadSets, WriteSets] = Inr (e2, fl2)"
      "threads_inv amap wf tmap ds m2 k2 (e2, fl2)" "m1 \<le> m2" by auto
  have "fl2 = Idle" using round_ends[OF 2(1)] by simp
  moreover have "fold_res (engine_proc V ord) (?e, fl) (steps @ [ReadSets, WriteSets]) = Inr (e2, fl2)"
    using 1(1) 2(1) by simp
  ultimately have "stop_processor V ord steps x = Inr (e2\<lparr>e_index := (e_index e2)\<lparr>bi_done := True\<rparr>\<rparr>, Idle)"
    using False unfolding x stop_processor_def by simp
  moreover have "threads_inv amap wf tmap ds m2 k2 (e2\<lparr>e_index := (e_index e2)\<lparr>bi_done := True\<rparr>\<rparr>, Idle)"
    using 2(2) \<open>fl2 = Idle\<close> by (simp add: threads_inv_def engine_with_def batch_with_def words_inv_def)
  ultimately show ?thesis using 1(3) 2(3) le_trans by blast
qed

lemma call_add_inv:
  assumes "threads_inv amap wf tmap ds m k (e, fl)" and "trie_contract T tmap" and "hash_order ord"
    and "docs_fit (ds @ [doc])"
  shows "\<exists>e' m' k'. addDocument V T ord doc e = Inr (of_nat (Suc (length ds)), e')
    \<and> threads_inv amap wf tmap (ds @ [doc]) m' k' (e', fl) \<and> m \<le> m'"
proof -
  from assms(1) obtain P where P: "engine_with amap wf tmap P (docs_of (flight_batch fl)) ds e" "m \<le> k" "k \<le> length ds"
      "\<forall>w. docs_of P w = ids_of (\<lambda>d. w \<in> doc_words (tmap (e_words e)) d) (take m ds)"
      "\<forall>w. docs_of P w @ docs_of (flight_batch fl) w = ids_of (\<lambda>d. w \<in> doc_words (tmap (e_words e)) d) (take k ds)"
      "\<forall>batch writes. fl = Writing batch writes \<longrightarrow> flush_result SetFactory cs_docs batch P writes"
      "finite (dom (flight_batch fl))" "bi_done (e_index e) \<longrightarrow> fl = Idle"
    unfolding threads_inv_def fst_conv snd_conv by blast
  have fit: "storable doc" "\<forall>x\<in>set (entries doc). 0 \<notin> set (fst x)" "Suc (length ds) < 2 ^ 31 - 1"
      "Suc (num_tokens (concat (map entries (ds @ [doc])))) \<le> 2 ^ 31"
    using assms(4) by (simp_all add: docs_fit_def)
  have alone: "bi_done (e_index e) \<Longrightarrow> docs_of (flight_batch fl) = (\<lambda>_. [])" using P(8) by simp
  from addDocument_with[OF P(1) assms(2,3) fit alone] obtain e' P' where
    e': "addDocument V T ord doc e = Inr (of_nat (Suc (length ds)), e')"
      "engine_with amap wf tmap P' (docs_of (flight_batch fl)) (ds @ [doc]) e'"
      "tmap (e_words e) \<subseteq>\<^sub>m tmap (e_words e')" "bi_done (e_index e') = bi_done (e_index e)"
      "P' = P \<or> bi_done (e_index e) \<and> postings (e_index e') = (\<lambda>_. None)" by blast
  have words: "doc_words (tmap (e_words e')) x = doc_words (tmap (e_words e)) x" if "x \<in> set ds" for x
    using that P(1) by (intro doc_words_extend[OF e'(3)]) (auto simp: engine_with_def words_inv_def)
  have same: "ids_of (\<lambda>d. w \<in> doc_words (tmap (e_words e')) d) (take i ds)
      = ids_of (\<lambda>d. w \<in> doc_words (tmap (e_words e)) d) (take i ds)" for w i
    using words by (intro ids_of_cong) (auto dest: in_set_takeD)
  from e'(5) show ?thesis
  proof
    assume "P' = P"
    with e' P same have "threads_inv amap wf tmap (ds @ [doc]) m k (e', fl)"
      unfolding threads_inv_def by (intro conjI exI[of _ P]) simp_all
    with e'(1) show ?thesis by blast
  next
    assume d: "bi_done (e_index e) \<and> postings (e_index e') = (\<lambda>_. None)"
    then have "fl = Idle" using P(8) by simp
    with e'(2) have "engine_inv amap wf tmap (ds @ [doc]) e'" by (auto simp: engine_inv_with)
    from engine_flushed_threads[OF this] d have
      "threads_inv amap wf tmap (ds @ [doc]) (length (ds @ [doc])) (length (ds @ [doc])) (e', fl)" using \<open>fl = Idle\<close> by simp
    with e'(1) P(2,3) show ?thesis by (intro exI[of _ e'] exI[of _ "length (ds @ [doc])"]) simp
  qed
qed

text \<open>A step of either thread; a flush of the caller that is alone leaves everything in the store.\<close>

lemma engine_tstep_inv:
  assumes "threads_inv amap wf tmap ds m k x" and "trie_contract T tmap" and "hash_order ord"
    and "docs_fit (ds @ called_docs [ev])" and "ev = CallFlush \<longrightarrow> snd x = Idle"
  shows "\<exists>y m' k'. engine_tstep V T ord x ev = Inr y \<and> threads_inv amap wf tmap (ds @ called_docs [ev]) m' k' y \<and> m \<le> m'
    \<and> (ev = CallFlush \<longrightarrow> m' = length ds)"
proof -
  obtain e fl where x: "x = (e, fl)" by (cases x)
  show ?thesis
  proof (cases ev)
    case (CallAdd doc)
    from call_add_inv[OF assms(1)[unfolded x] assms(2,3), of doc] assms(4) CallAdd obtain e' m' k' where
      "addDocument V T ord doc e = Inr (of_nat (Suc (length ds)), e')" "threads_inv amap wf tmap (ds @ [doc]) m' k' (e', fl)" "m \<le> m'"
      by auto
    then show ?thesis unfolding x CallAdd by (intro exI[of _ "(e', fl)"] exI[of _ m'] exI[of _ k']) simp
  next
    case CallFlush
    have inv: "threads_inv amap wf tmap ds m k (e, Idle)" and idle: "fl = Idle" using assms(1,5) CallFlush x by simp_all
    from engine_flush_inv(1)[OF threads_inv_idle[OF inv] assms(3)] obtain e' where
      e': "engine_flushBatch V ord e = Inr e'" "engine_inv amap wf tmap ds e'" "postings (e_index e') = (\<lambda>_. None)" by blast
    from engine_flushed_threads[OF e'(2,3)] e'(1) inv show ?thesis unfolding x CallFlush idle
      by (intro exI[of _ "(e', Idle)"] exI[of _ "length ds"]) (simp add: threads_inv_def[of _ _ _ _ m])
  next
    case (CallSetMax n)
    have "threads_inv amap wf tmap ds m k (engine_setMaxBatchSize n e, fl)" using assms(1) unfolding x
      by (simp add: engine_setMaxBatchSize_def setMaxBatchSize_def threads_inv_def engine_with_def batch_with_def words_inv_def)
    with CallSetMax show ?thesis unfolding x by auto
  next
    case (CallStop steps)
    with stop_processor_inv[OF assms(1,3), of steps] show ?thesis by auto
  next
    case (Proc step)
    with engine_proc_inv[OF assms(1,3), of step] show ?thesis by auto
  qed
qed

lemma engine_tsteps_inv:
  assumes "trie_contract T tmap" and "hash_order ord"
  shows "\<lbrakk>threads_inv amap wf tmap ds m k x; docs_fit (ds @ called_docs evs); flushes_alone V T ord x evs\<rbrakk> \<Longrightarrow>
    \<exists>y m' k'. fold_res (engine_tstep V T ord) x evs = Inr y \<and> threads_inv amap wf tmap (ds @ called_docs evs) m' k' y \<and> m \<le> m'"
proof (induction evs arbitrary: ds m k x)
  case (Cons ev evs)
  have split: "called_docs (ev # evs) = called_docs [ev] @ called_docs evs" by (simp add: called_docs_def)
  have fit: "docs_fit (ds @ called_docs [ev])"
    using docs_fit_prefix[of "ds @ called_docs [ev]" "called_docs evs"] Cons.prems(2) unfolding split by simp
  have alone: "ev = CallFlush \<longrightarrow> snd x = Idle" using Cons.prems(3) by simp
  from engine_tstep_inv[OF Cons.prems(1) assms fit alone] obtain y m1 k1 where
    y: "engine_tstep V T ord x ev = Inr y" "threads_inv amap wf tmap (ds @ called_docs [ev]) m1 k1 y" "m \<le> m1" by blast
  from Cons.IH[OF y(2)] Cons.prems(2,3) y(1) obtain z m2 k2 where
    z: "fold_res (engine_tstep V T ord) y evs = Inr z"
      "threads_inv amap wf tmap (ds @ called_docs (ev # evs)) m2 k2 z" "m1 \<le> m2" unfolding split by auto
  show ?case using y(1,3) z by (intro exI[of _ z] exI[of _ m2] exI[of _ k2]) simp
qed auto

end

text \<open>A run in pieces.\<close>

lemma flushes_alone_append:
  "flushes_alone V T ord x (evs @ evs') \<longleftrightarrow> flushes_alone V T ord x evs
     \<and> (\<forall>y. fold_res (engine_tstep V T ord) x evs = Inr y \<longrightarrow> flushes_alone V T ord y evs')"
  by (induction evs arbitrary: x) (auto split: sum.splits)

lemma flushes_alone_none: "CallFlush \<notin> set evs \<Longrightarrow> flushes_alone V T ord x evs"
  by (induction evs arbitrary: x) (auto split: sum.split)

lemma flushes_alone_settled:
  assumes "CallFlush \<notin> set evs" and "CallFlush \<notin> set evs'"
  shows "flushes_alone V T ord x ((evs @ [Proc ReadSets, Proc WriteSets]) @ [CallFlush] @ evs')"
proof -
  have "snd y = Idle" if "fold_res (engine_tstep V T ord) x (evs @ [Proc ReadSets, Proc WriteSets]) = Inr y" for y
    using that round_ends[of V ord _ y] by (auto simp: rbind_def split: sum.splits)
  moreover have "flushes_alone V T ord x (evs @ [Proc ReadSets, Proc WriteSets])"
    using assms(1) by (intro flushes_alone_none) auto
  ultimately show ?thesis
    unfolding flushes_alone_append[of _ _ _ _ "evs @ [Proc ReadSets, Proc WriteSets]"]
    using flushes_alone_none[OF assms(2)] by (auto split: sum.split)
qed

lemma foldl_add_posting_frame:
  "maxBatchSize (foldl (add_posting d) b words) = maxBatchSize b" "bi_done (foldl (add_posting d) b words) = bi_done b"
  "dataReady (foldl (add_posting d) b words) = dataReady b"
  by (induction words arbitrary: b) simp_all

lemma add_posting_size: "batchSize (add_posting d b w) = batchSize b + 1"
  by (simp add: add_posting_def Let_def split: option.split)

text \<open>Postings that do not fill the batch leave \<open>dataReady\<close> alone.\<close>

lemma batch_add_words_quiet:
  assumes "unat (batchSize b) + length words < unat (maxBatchSize b)" and "batch_add_words V S ws d words b = Inr b'"
  shows "dataReady b' = dataReady b \<and> maxBatchSize b' = maxBatchSize b \<and> unat (batchSize b') = unat (batchSize b) + length words"
proof -
  have "batchSize (foldl (add_posting d) b words) = batchSize b + of_nat (length words)"
    by (induction words arbitrary: b) (simp_all add: add_posting_size)
  note frame = foldl_add_posting_frame(1,3)[of d b words] this
  have "unat (maxBatchSize b) < 2 ^ 32" using unsigned_less[of "maxBatchSize b", where 'a = nat] by simp
  then have len: "unat (of_nat (length words) :: u32) = length words"
    using assms(1) by (simp add: unat_of_nat take_bit_nat_eq_self)
  have size: "unat (batchSize b + of_nat (length words)) = unat (batchSize b) + length words"
    using assms(1) \<open>unat (maxBatchSize b) < 2 ^ 32\<close> len by (subst unat_add_lem[THEN iffD1]) simp_all
  have "\<not> batchSize (foldl (add_posting d) b words) \<ge> maxBatchSize (foldl (add_posting d) b words)"
    unfolding frame word_le_nat_alt size using assms(1) by simp
  then have "b' = foldl (add_posting d) b words" using assms(2) by (simp add: batch_add_words_def full_batch_def)
  then show ?thesis using frame size by simp
qed

context kv_store
begin

text \<open>A run with a flush of the caller that is alone: afterwards the store has a prefix of the documents.\<close>

lemma engine_run_prefix:
  assumes "threads_inv amap wf tmap [] m0 k0 x" and "trie_contract T tmap" and "hash_order ord"
    and "docs_fit (called_docs (evs @ evs'))" and "flushes_alone V T ord x (evs @ [CallFlush] @ evs')"
  shows "\<exists>y m k. fold_res (engine_tstep V T ord) x (evs @ [CallFlush] @ evs') = Inr y
    \<and> threads_inv amap wf tmap (called_docs (evs @ evs')) m k y \<and> length (called_docs evs) \<le> m"
proof -
  have fit: "docs_fit (called_docs evs)" "docs_fit (called_docs evs @ called_docs evs')"
    using assms(4) docs_fit_prefix[of "called_docs evs" "called_docs evs'"] by simp_all
  note alone = assms(5)[unfolded flushes_alone_append]
  from engine_tsteps_inv[OF assms(2,3,1), of evs] fit alone obtain x1 m1 k1 where
    1: "fold_res (engine_tstep V T ord) x evs = Inr x1" "threads_inv amap wf tmap (called_docs evs) m1 k1 x1" by auto
  with alone have "snd x1 = Idle" by simp
  with engine_tstep_inv[OF 1(2) assms(2,3), of CallFlush] fit(1) obtain x2 m2 k2 where
    2: "engine_tstep V T ord x1 CallFlush = Inr x2" "threads_inv amap wf tmap (called_docs evs) m2 k2 x2"
      "m2 = length (called_docs evs)" by auto
  from alone 1(1) 2(1) have "flushes_alone V T ord x2 evs'" by (cases x2) simp
  from engine_tsteps_inv[OF assms(2,3) 2(2) fit(2) this] obtain y m k where
    "fold_res (engine_tstep V T ord) x2 evs' = Inr y" "threads_inv amap wf tmap (called_docs (evs @ evs')) m k y" "m2 \<le> m"
    by auto
  with 1(1) 2(1,3) show ?thesis by (intro exI[of _ y] exI[of _ m] exI[of _ k]) simp
qed

text \<open>Only shutting down sets \<open>done\<close>; a full batch of a running index wakes the processor.\<close>

lemma call_add_wakes:
  assumes "threads_inv amap wf tmap ds m k (e, fl)" and "trie_contract T tmap" and "hash_order ord"
    and "docs_fit (ds @ [doc])" and "addDocument V T ord doc e = Inr (d, e')"
  shows "bi_done (e_index e') = bi_done (e_index e)"
    and "maxBatchSize (e_index e) = 0 \<Longrightarrow> \<not> bi_done (e_index e) \<Longrightarrow> dataReady (e_index e')"
proof -
  from assms(1) obtain P where P: "engine_with amap wf tmap P (docs_of (flight_batch fl)) ds e" "bi_done (e_index e) \<longrightarrow> fl = Idle"
    unfolding threads_inv_def fst_conv snd_conv by blast
  have fit: "storable doc" "\<forall>x\<in>set (entries doc). 0 \<notin> set (fst x)" "Suc (length ds) < 2 ^ 31 - 1"
      "Suc (num_tokens (concat (map entries (ds @ [doc])))) \<le> 2 ^ 31"
    using assms(4) by (simp_all add: docs_fit_def)
  have alone: "bi_done (e_index e) \<Longrightarrow> docs_of (flight_batch fl) = (\<lambda>_. [])" using P(2) by simp
  from addDocument_with[OF P(1) assms(2,3) fit alone] assms(5) obtain words s ws where
    w: "batch_add_words (invertedIndexStore V) SetFactory ws (of_nat (Suc (length ds))) words ((e_index e)\<lparr>bi_store := s\<rparr>) = Inr (e_index e')"
      "bi_done (e_index e') = bi_done (e_index e)" by auto
  from w(2) show "bi_done (e_index e') = bi_done (e_index e)" .
  assume "maxBatchSize (e_index e) = 0" and "\<not> bi_done (e_index e)"
  then show "dataReady (e_index e')" using w(1) by (auto simp: batch_add_words_def full_batch_def foldl_add_posting_frame dest: sym)
qed

text \<open>A run that ends with a batch in the hands of the processor.\<close>

lemma batch_in_flight:
  assumes "threads_inv amap wf tmap [] m k (e, Idle)" and "trie_contract T tmap" and "hash_order ord"
    and "docs_fit [doc, doc]" and "\<not> bi_done (e_index e)"
    and "fold_res (engine_tstep V T ord) (e, Idle)
      (([CallAdd doc] @ [Proc ReadSets, Proc WriteSets]) @ [CallFlush] @ [CallSetMax 0, CallAdd doc, Proc TakeBatch]) = Inr x"
  shows "\<exists>batch. snd x = Copied batch"
proof -
  have fit: "docs_fit ([] @ [doc])" "docs_fit ([doc] @ [doc])" using assms(4) docs_fit_prefix[of "[doc]" "[doc]"] by simp_all
  from call_add_inv[OF assms(1-3) fit(1)] obtain d e1 m1 k1 where
    1: "addDocument V T ord doc e = Inr (d, e1)" "threads_inv amap wf tmap [doc] m1 k1 (e1, Idle)" by auto
  have "docs_fit ([doc] @ called_docs [CallFlush])" using fit(1) by simp
  from engine_tstep_inv[OF 1(2) assms(2,3) this] obtain e2 m2 k2 where
    2: "engine_flushBatch V ord e1 = Inr e2" "threads_inv amap wf tmap [doc] m2 k2 (e2, Idle)"
    by (auto simp: rbind_def split: sum.splits)
  have "docs_fit ([doc] @ called_docs [CallSetMax 0])" using fit(1) by simp
  from engine_tstep_inv[OF 2(2) assms(2,3) this] obtain m3 k3 where
    3: "threads_inv amap wf tmap [doc] m3 k3 (engine_setMaxBatchSize 0 e2, Idle)" by auto
  from call_add_inv[OF 3 assms(2,3) fit(2)] obtain d' e4 where
    4: "addDocument V T ord doc (engine_setMaxBatchSize 0 e2) = Inr (d', e4)" by blast
  have "bi_done (e_index e1) = bi_done (e_index e)" by (rule call_add_wakes(1)[OF assms(1-3) fit(1) 1(1)])
  moreover have "bi_done (e_index e2) = bi_done (e_index e1)"
    using 2(1) by (auto simp: engine_flushBatch_def flushBatch_def clear_batch_def rbind_def split: sum.splits prod.splits)
  ultimately have run: "\<not> bi_done (e_index (engine_setMaxBatchSize 0 e2))" "maxBatchSize (e_index (engine_setMaxBatchSize 0 e2)) = 0"
    using assms(5) by (simp_all add: engine_setMaxBatchSize_def setMaxBatchSize_def)
  from call_add_wakes[OF 3 assms(2,3) fit(2) 4] run have "dataReady (e_index e4)" "\<not> bi_done (e_index e4)" by blast+
  then show ?thesis using assms(6) 1(1) 2(1) 4 by (auto simp: Let_def)
qed

end

end
