(* ===== verification/IPackMask.thy ===== *)
theory IPackMask
  imports IPack
begin

text \<open>
  The 33 functions \<open>ipack0\<close> to \<open>ipack32\<close> of
  \<^verbatim>\<open>varint/bitpacking/simdintegratedbitpacking.c\<close> and their dispatcher \<open>simdpackd1\<close>.  They
  differ from the functions of \<open>IPack\<close> in that every difference is masked to the width before
  it is packed, so that nothing is asked of the values.
\<close>

section \<open>The masking packers\<close>

definition ipack0 :: "m128 \<Rightarrow> m128 list \<Rightarrow> m128 list option" where
  "ipack0 = run_pack []"

definition ipack1 :: "m128 \<Rightarrow> m128 list \<Rightarrow> m128 list option" where
  "ipack1 = run_pack (let mask = mm_set1_epi32 1 in
    [LoadDelta, AndIn mask, MovOut, IncIn, LoadDelta, AndIn mask, OrShl 1, IncIn, LoadDelta, AndIn
     mask, OrShl 2, IncIn, LoadDelta, AndIn mask, OrShl 3, IncIn, LoadDelta, AndIn mask, OrShl 4,
     IncIn, LoadDelta, AndIn mask, OrShl 5, IncIn, LoadDelta, AndIn mask, OrShl 6, IncIn,
     LoadDelta, AndIn mask, OrShl 7, IncIn, LoadDelta, AndIn mask, OrShl 8, IncIn, LoadDelta, AndIn
     mask, OrShl 9, IncIn, LoadDelta, AndIn mask, OrShl 10, IncIn, LoadDelta, AndIn mask, OrShl 11,
     IncIn, LoadDelta, AndIn mask, OrShl 12, IncIn, LoadDelta, AndIn mask, OrShl 13, IncIn,
     LoadDelta, AndIn mask, OrShl 14, IncIn, LoadDelta, AndIn mask, OrShl 15, IncIn, LoadDelta,
     AndIn mask, OrShl 16, IncIn, LoadDelta, AndIn mask, OrShl 17, IncIn, LoadDelta, AndIn mask,
     OrShl 18, IncIn, LoadDelta, AndIn mask, OrShl 19, IncIn, LoadDelta, AndIn mask, OrShl 20,
     IncIn, LoadDelta, AndIn mask, OrShl 21, IncIn, LoadDelta, AndIn mask, OrShl 22, IncIn,
     LoadDelta, AndIn mask, OrShl 23, IncIn, LoadDelta, AndIn mask, OrShl 24, IncIn, LoadDelta,
     AndIn mask, OrShl 25, IncIn, LoadDelta, AndIn mask, OrShl 26, IncIn, LoadDelta, AndIn mask,
     OrShl 27, IncIn, LoadDelta, AndIn mask, OrShl 28, IncIn, LoadDelta, AndIn mask, OrShl 29,
     IncIn, LoadDelta, AndIn mask, OrShl 30, IncIn, LoadDelta, AndIn mask, OrShl 31, Store])"

definition ipack2 :: "m128 \<Rightarrow> m128 list \<Rightarrow> m128 list option" where
  "ipack2 = run_pack (let mask = mm_set1_epi32 3 in
    [LoadDelta, AndIn mask, MovOut, IncIn, LoadDelta, AndIn mask, OrShl 2, IncIn, LoadDelta, AndIn
     mask, OrShl 4, IncIn, LoadDelta, AndIn mask, OrShl 6, IncIn, LoadDelta, AndIn mask, OrShl 8,
     IncIn, LoadDelta, AndIn mask, OrShl 10, IncIn, LoadDelta, AndIn mask, OrShl 12, IncIn,
     LoadDelta, AndIn mask, OrShl 14, IncIn, LoadDelta, AndIn mask, OrShl 16, IncIn, LoadDelta,
     AndIn mask, OrShl 18, IncIn, LoadDelta, AndIn mask, OrShl 20, IncIn, LoadDelta, AndIn mask,
     OrShl 22, IncIn, LoadDelta, AndIn mask, OrShl 24, IncIn, LoadDelta, AndIn mask, OrShl 26,
     IncIn, LoadDelta, AndIn mask, OrShl 28, IncIn, LoadDelta, AndIn mask, OrShl 30, Store, IncOut,
     IncIn, LoadDelta, AndIn mask, MovOut, IncIn, LoadDelta, AndIn mask, OrShl 2, IncIn, LoadDelta,
     AndIn mask, OrShl 4, IncIn, LoadDelta, AndIn mask, OrShl 6, IncIn, LoadDelta, AndIn mask,
     OrShl 8, IncIn, LoadDelta, AndIn mask, OrShl 10, IncIn, LoadDelta, AndIn mask, OrShl 12,
     IncIn, LoadDelta, AndIn mask, OrShl 14, IncIn, LoadDelta, AndIn mask, OrShl 16, IncIn,
     LoadDelta, AndIn mask, OrShl 18, IncIn, LoadDelta, AndIn mask, OrShl 20, IncIn, LoadDelta,
     AndIn mask, OrShl 22, IncIn, LoadDelta, AndIn mask, OrShl 24, IncIn, LoadDelta, AndIn mask,
     OrShl 26, IncIn, LoadDelta, AndIn mask, OrShl 28, IncIn, LoadDelta, AndIn mask, OrShl 30,
     Store])"

definition ipack3 :: "m128 \<Rightarrow> m128 list \<Rightarrow> m128 list option" where
  "ipack3 = run_pack (let mask = mm_set1_epi32 7 in
    [LoadDelta, AndIn mask, MovOut, IncIn, LoadDelta, AndIn mask, OrShl 3, IncIn, LoadDelta, AndIn
     mask, OrShl 6, IncIn, LoadDelta, AndIn mask, OrShl 9, IncIn, LoadDelta, AndIn mask, OrShl 12,
     IncIn, LoadDelta, AndIn mask, OrShl 15, IncIn, LoadDelta, AndIn mask, OrShl 18, IncIn,
     LoadDelta, AndIn mask, OrShl 21, IncIn, LoadDelta, AndIn mask, OrShl 24, IncIn, LoadDelta,
     AndIn mask, OrShl 27, IncIn, LoadDelta, AndIn mask, OrShl 30, Store, IncOut, ShrOut 3 1,
     IncIn, LoadDelta, AndIn mask, OrShl 1, IncIn, LoadDelta, AndIn mask, OrShl 4, IncIn,
     LoadDelta, AndIn mask, OrShl 7, IncIn, LoadDelta, AndIn mask, OrShl 10, IncIn, LoadDelta,
     AndIn mask, OrShl 13, IncIn, LoadDelta, AndIn mask, OrShl 16, IncIn, LoadDelta, AndIn mask,
     OrShl 19, IncIn, LoadDelta, AndIn mask, OrShl 22, IncIn, LoadDelta, AndIn mask, OrShl 25,
     IncIn, LoadDelta, AndIn mask, OrShl 28, IncIn, LoadDelta, AndIn mask, OrShl 31, Store, IncOut,
     ShrOut 3 2, IncIn, LoadDelta, AndIn mask, OrShl 2, IncIn, LoadDelta, AndIn mask, OrShl 5,
     IncIn, LoadDelta, AndIn mask, OrShl 8, IncIn, LoadDelta, AndIn mask, OrShl 11, IncIn,
     LoadDelta, AndIn mask, OrShl 14, IncIn, LoadDelta, AndIn mask, OrShl 17, IncIn, LoadDelta,
     AndIn mask, OrShl 20, IncIn, LoadDelta, AndIn mask, OrShl 23, IncIn, LoadDelta, AndIn mask,
     OrShl 26, IncIn, LoadDelta, AndIn mask, OrShl 29, Store])"

definition ipack4 :: "m128 \<Rightarrow> m128 list \<Rightarrow> m128 list option" where
  "ipack4 = run_pack (let mask = mm_set1_epi32 15 in
    [LoadDelta, AndIn mask, MovOut, IncIn, LoadDelta, AndIn mask, OrShl 4, IncIn, LoadDelta, AndIn
     mask, OrShl 8, IncIn, LoadDelta, AndIn mask, OrShl 12, IncIn, LoadDelta, AndIn mask, OrShl 16,
     IncIn, LoadDelta, AndIn mask, OrShl 20, IncIn, LoadDelta, AndIn mask, OrShl 24, IncIn,
     LoadDelta, AndIn mask, OrShl 28, Store, IncOut, IncIn, LoadDelta, AndIn mask, MovOut, IncIn,
     LoadDelta, AndIn mask, OrShl 4, IncIn, LoadDelta, AndIn mask, OrShl 8, IncIn, LoadDelta, AndIn
     mask, OrShl 12, IncIn, LoadDelta, AndIn mask, OrShl 16, IncIn, LoadDelta, AndIn mask, OrShl
     20, IncIn, LoadDelta, AndIn mask, OrShl 24, IncIn, LoadDelta, AndIn mask, OrShl 28, Store,
     IncOut, IncIn, LoadDelta, AndIn mask, MovOut, IncIn, LoadDelta, AndIn mask, OrShl 4, IncIn,
     LoadDelta, AndIn mask, OrShl 8, IncIn, LoadDelta, AndIn mask, OrShl 12, IncIn, LoadDelta,
     AndIn mask, OrShl 16, IncIn, LoadDelta, AndIn mask, OrShl 20, IncIn, LoadDelta, AndIn mask,
     OrShl 24, IncIn, LoadDelta, AndIn mask, OrShl 28, Store, IncOut, IncIn, LoadDelta, AndIn mask,
     MovOut, IncIn, LoadDelta, AndIn mask, OrShl 4, IncIn, LoadDelta, AndIn mask, OrShl 8, IncIn,
     LoadDelta, AndIn mask, OrShl 12, IncIn, LoadDelta, AndIn mask, OrShl 16, IncIn, LoadDelta,
     AndIn mask, OrShl 20, IncIn, LoadDelta, AndIn mask, OrShl 24, IncIn, LoadDelta, AndIn mask,
     OrShl 28, Store])"

definition ipack5 :: "m128 \<Rightarrow> m128 list \<Rightarrow> m128 list option" where
  "ipack5 = run_pack (let mask = mm_set1_epi32 31 in
    [LoadDelta, AndIn mask, MovOut, IncIn, LoadDelta, AndIn mask, OrShl 5, IncIn, LoadDelta, AndIn
     mask, OrShl 10, IncIn, LoadDelta, AndIn mask, OrShl 15, IncIn, LoadDelta, AndIn mask, OrShl
     20, IncIn, LoadDelta, AndIn mask, OrShl 25, IncIn, LoadDelta, AndIn mask, OrShl 30, Store,
     IncOut, ShrOut 5 3, IncIn, LoadDelta, AndIn mask, OrShl 3, IncIn, LoadDelta, AndIn mask, OrShl
     8, IncIn, LoadDelta, AndIn mask, OrShl 13, IncIn, LoadDelta, AndIn mask, OrShl 18, IncIn,
     LoadDelta, AndIn mask, OrShl 23, IncIn, LoadDelta, AndIn mask, OrShl 28, Store, IncOut, ShrOut
     5 1, IncIn, LoadDelta, AndIn mask, OrShl 1, IncIn, LoadDelta, AndIn mask, OrShl 6, IncIn,
     LoadDelta, AndIn mask, OrShl 11, IncIn, LoadDelta, AndIn mask, OrShl 16, IncIn, LoadDelta,
     AndIn mask, OrShl 21, IncIn, LoadDelta, AndIn mask, OrShl 26, IncIn, LoadDelta, AndIn mask,
     OrShl 31, Store, IncOut, ShrOut 5 4, IncIn, LoadDelta, AndIn mask, OrShl 4, IncIn, LoadDelta,
     AndIn mask, OrShl 9, IncIn, LoadDelta, AndIn mask, OrShl 14, IncIn, LoadDelta, AndIn mask,
     OrShl 19, IncIn, LoadDelta, AndIn mask, OrShl 24, IncIn, LoadDelta, AndIn mask, OrShl 29,
     Store, IncOut, ShrOut 5 2, IncIn, LoadDelta, AndIn mask, OrShl 2, IncIn, LoadDelta, AndIn
     mask, OrShl 7, IncIn, LoadDelta, AndIn mask, OrShl 12, IncIn, LoadDelta, AndIn mask, OrShl 17,
     IncIn, LoadDelta, AndIn mask, OrShl 22, IncIn, LoadDelta, AndIn mask, OrShl 27, Store])"

definition ipack6 :: "m128 \<Rightarrow> m128 list \<Rightarrow> m128 list option" where
  "ipack6 = run_pack (let mask = mm_set1_epi32 63 in
    [LoadDelta, AndIn mask, MovOut, IncIn, LoadDelta, AndIn mask, OrShl 6, IncIn, LoadDelta, AndIn
     mask, OrShl 12, IncIn, LoadDelta, AndIn mask, OrShl 18, IncIn, LoadDelta, AndIn mask, OrShl
     24, IncIn, LoadDelta, AndIn mask, OrShl 30, Store, IncOut, ShrOut 6 4, IncIn, LoadDelta, AndIn
     mask, OrShl 4, IncIn, LoadDelta, AndIn mask, OrShl 10, IncIn, LoadDelta, AndIn mask, OrShl 16,
     IncIn, LoadDelta, AndIn mask, OrShl 22, IncIn, LoadDelta, AndIn mask, OrShl 28, Store, IncOut,
     ShrOut 6 2, IncIn, LoadDelta, AndIn mask, OrShl 2, IncIn, LoadDelta, AndIn mask, OrShl 8,
     IncIn, LoadDelta, AndIn mask, OrShl 14, IncIn, LoadDelta, AndIn mask, OrShl 20, IncIn,
     LoadDelta, AndIn mask, OrShl 26, Store, IncOut, IncIn, LoadDelta, AndIn mask, MovOut, IncIn,
     LoadDelta, AndIn mask, OrShl 6, IncIn, LoadDelta, AndIn mask, OrShl 12, IncIn, LoadDelta,
     AndIn mask, OrShl 18, IncIn, LoadDelta, AndIn mask, OrShl 24, IncIn, LoadDelta, AndIn mask,
     OrShl 30, Store, IncOut, ShrOut 6 4, IncIn, LoadDelta, AndIn mask, OrShl 4, IncIn, LoadDelta,
     AndIn mask, OrShl 10, IncIn, LoadDelta, AndIn mask, OrShl 16, IncIn, LoadDelta, AndIn mask,
     OrShl 22, IncIn, LoadDelta, AndIn mask, OrShl 28, Store, IncOut, ShrOut 6 2, IncIn, LoadDelta,
     AndIn mask, OrShl 2, IncIn, LoadDelta, AndIn mask, OrShl 8, IncIn, LoadDelta, AndIn mask,
     OrShl 14, IncIn, LoadDelta, AndIn mask, OrShl 20, IncIn, LoadDelta, AndIn mask, OrShl 26,
     Store])"

definition ipack7 :: "m128 \<Rightarrow> m128 list \<Rightarrow> m128 list option" where
  "ipack7 = run_pack (let mask = mm_set1_epi32 127 in
    [LoadDelta, AndIn mask, MovOut, IncIn, LoadDelta, AndIn mask, OrShl 7, IncIn, LoadDelta, AndIn
     mask, OrShl 14, IncIn, LoadDelta, AndIn mask, OrShl 21, IncIn, LoadDelta, AndIn mask, OrShl
     28, Store, IncOut, ShrOut 7 3, IncIn, LoadDelta, AndIn mask, OrShl 3, IncIn, LoadDelta, AndIn
     mask, OrShl 10, IncIn, LoadDelta, AndIn mask, OrShl 17, IncIn, LoadDelta, AndIn mask, OrShl
     24, IncIn, LoadDelta, AndIn mask, OrShl 31, Store, IncOut, ShrOut 7 6, IncIn, LoadDelta, AndIn
     mask, OrShl 6, IncIn, LoadDelta, AndIn mask, OrShl 13, IncIn, LoadDelta, AndIn mask, OrShl 20,
     IncIn, LoadDelta, AndIn mask, OrShl 27, Store, IncOut, ShrOut 7 2, IncIn, LoadDelta, AndIn
     mask, OrShl 2, IncIn, LoadDelta, AndIn mask, OrShl 9, IncIn, LoadDelta, AndIn mask, OrShl 16,
     IncIn, LoadDelta, AndIn mask, OrShl 23, IncIn, LoadDelta, AndIn mask, OrShl 30, Store, IncOut,
     ShrOut 7 5, IncIn, LoadDelta, AndIn mask, OrShl 5, IncIn, LoadDelta, AndIn mask, OrShl 12,
     IncIn, LoadDelta, AndIn mask, OrShl 19, IncIn, LoadDelta, AndIn mask, OrShl 26, Store, IncOut,
     ShrOut 7 1, IncIn, LoadDelta, AndIn mask, OrShl 1, IncIn, LoadDelta, AndIn mask, OrShl 8,
     IncIn, LoadDelta, AndIn mask, OrShl 15, IncIn, LoadDelta, AndIn mask, OrShl 22, IncIn,
     LoadDelta, AndIn mask, OrShl 29, Store, IncOut, ShrOut 7 4, IncIn, LoadDelta, AndIn mask,
     OrShl 4, IncIn, LoadDelta, AndIn mask, OrShl 11, IncIn, LoadDelta, AndIn mask, OrShl 18,
     IncIn, LoadDelta, AndIn mask, OrShl 25, Store])"

definition ipack8 :: "m128 \<Rightarrow> m128 list \<Rightarrow> m128 list option" where
  "ipack8 = run_pack (let mask = mm_set1_epi32 255 in
    [LoadDelta, AndIn mask, MovOut, IncIn, LoadDelta, AndIn mask, OrShl 8, IncIn, LoadDelta, AndIn
     mask, OrShl 16, IncIn, LoadDelta, AndIn mask, OrShl 24, Store, IncOut, IncIn, LoadDelta, AndIn
     mask, MovOut, IncIn, LoadDelta, AndIn mask, OrShl 8, IncIn, LoadDelta, AndIn mask, OrShl 16,
     IncIn, LoadDelta, AndIn mask, OrShl 24, Store, IncOut, IncIn, LoadDelta, AndIn mask, MovOut,
     IncIn, LoadDelta, AndIn mask, OrShl 8, IncIn, LoadDelta, AndIn mask, OrShl 16, IncIn,
     LoadDelta, AndIn mask, OrShl 24, Store, IncOut, IncIn, LoadDelta, AndIn mask, MovOut, IncIn,
     LoadDelta, AndIn mask, OrShl 8, IncIn, LoadDelta, AndIn mask, OrShl 16, IncIn, LoadDelta,
     AndIn mask, OrShl 24, Store, IncOut, IncIn, LoadDelta, AndIn mask, MovOut, IncIn, LoadDelta,
     AndIn mask, OrShl 8, IncIn, LoadDelta, AndIn mask, OrShl 16, IncIn, LoadDelta, AndIn mask,
     OrShl 24, Store, IncOut, IncIn, LoadDelta, AndIn mask, MovOut, IncIn, LoadDelta, AndIn mask,
     OrShl 8, IncIn, LoadDelta, AndIn mask, OrShl 16, IncIn, LoadDelta, AndIn mask, OrShl 24,
     Store, IncOut, IncIn, LoadDelta, AndIn mask, MovOut, IncIn, LoadDelta, AndIn mask, OrShl 8,
     IncIn, LoadDelta, AndIn mask, OrShl 16, IncIn, LoadDelta, AndIn mask, OrShl 24, Store, IncOut,
     IncIn, LoadDelta, AndIn mask, MovOut, IncIn, LoadDelta, AndIn mask, OrShl 8, IncIn, LoadDelta,
     AndIn mask, OrShl 16, IncIn, LoadDelta, AndIn mask, OrShl 24, Store])"

definition ipack9 :: "m128 \<Rightarrow> m128 list \<Rightarrow> m128 list option" where
  "ipack9 = run_pack (let mask = mm_set1_epi32 511 in
    [LoadDelta, AndIn mask, MovOut, IncIn, LoadDelta, AndIn mask, OrShl 9, IncIn, LoadDelta, AndIn
     mask, OrShl 18, IncIn, LoadDelta, AndIn mask, OrShl 27, Store, IncOut, ShrOut 9 4, IncIn,
     LoadDelta, AndIn mask, OrShl 4, IncIn, LoadDelta, AndIn mask, OrShl 13, IncIn, LoadDelta,
     AndIn mask, OrShl 22, IncIn, LoadDelta, AndIn mask, OrShl 31, Store, IncOut, ShrOut 9 8,
     IncIn, LoadDelta, AndIn mask, OrShl 8, IncIn, LoadDelta, AndIn mask, OrShl 17, IncIn,
     LoadDelta, AndIn mask, OrShl 26, Store, IncOut, ShrOut 9 3, IncIn, LoadDelta, AndIn mask,
     OrShl 3, IncIn, LoadDelta, AndIn mask, OrShl 12, IncIn, LoadDelta, AndIn mask, OrShl 21,
     IncIn, LoadDelta, AndIn mask, OrShl 30, Store, IncOut, ShrOut 9 7, IncIn, LoadDelta, AndIn
     mask, OrShl 7, IncIn, LoadDelta, AndIn mask, OrShl 16, IncIn, LoadDelta, AndIn mask, OrShl 25,
     Store, IncOut, ShrOut 9 2, IncIn, LoadDelta, AndIn mask, OrShl 2, IncIn, LoadDelta, AndIn
     mask, OrShl 11, IncIn, LoadDelta, AndIn mask, OrShl 20, IncIn, LoadDelta, AndIn mask, OrShl
     29, Store, IncOut, ShrOut 9 6, IncIn, LoadDelta, AndIn mask, OrShl 6, IncIn, LoadDelta, AndIn
     mask, OrShl 15, IncIn, LoadDelta, AndIn mask, OrShl 24, Store, IncOut, ShrOut 9 1, IncIn,
     LoadDelta, AndIn mask, OrShl 1, IncIn, LoadDelta, AndIn mask, OrShl 10, IncIn, LoadDelta,
     AndIn mask, OrShl 19, IncIn, LoadDelta, AndIn mask, OrShl 28, Store, IncOut, ShrOut 9 5,
     IncIn, LoadDelta, AndIn mask, OrShl 5, IncIn, LoadDelta, AndIn mask, OrShl 14, IncIn,
     LoadDelta, AndIn mask, OrShl 23, Store])"

definition ipack10 :: "m128 \<Rightarrow> m128 list \<Rightarrow> m128 list option" where
  "ipack10 = run_pack (let mask = mm_set1_epi32 1023 in
    [LoadDelta, AndIn mask, MovOut, IncIn, LoadDelta, AndIn mask, OrShl 10, IncIn, LoadDelta, AndIn
     mask, OrShl 20, IncIn, LoadDelta, AndIn mask, OrShl 30, Store, IncOut, ShrOut 10 8, IncIn,
     LoadDelta, AndIn mask, OrShl 8, IncIn, LoadDelta, AndIn mask, OrShl 18, IncIn, LoadDelta,
     AndIn mask, OrShl 28, Store, IncOut, ShrOut 10 6, IncIn, LoadDelta, AndIn mask, OrShl 6,
     IncIn, LoadDelta, AndIn mask, OrShl 16, IncIn, LoadDelta, AndIn mask, OrShl 26, Store, IncOut,
     ShrOut 10 4, IncIn, LoadDelta, AndIn mask, OrShl 4, IncIn, LoadDelta, AndIn mask, OrShl 14,
     IncIn, LoadDelta, AndIn mask, OrShl 24, Store, IncOut, ShrOut 10 2, IncIn, LoadDelta, AndIn
     mask, OrShl 2, IncIn, LoadDelta, AndIn mask, OrShl 12, IncIn, LoadDelta, AndIn mask, OrShl 22,
     Store, IncOut, IncIn, LoadDelta, AndIn mask, MovOut, IncIn, LoadDelta, AndIn mask, OrShl 10,
     IncIn, LoadDelta, AndIn mask, OrShl 20, IncIn, LoadDelta, AndIn mask, OrShl 30, Store, IncOut,
     ShrOut 10 8, IncIn, LoadDelta, AndIn mask, OrShl 8, IncIn, LoadDelta, AndIn mask, OrShl 18,
     IncIn, LoadDelta, AndIn mask, OrShl 28, Store, IncOut, ShrOut 10 6, IncIn, LoadDelta, AndIn
     mask, OrShl 6, IncIn, LoadDelta, AndIn mask, OrShl 16, IncIn, LoadDelta, AndIn mask, OrShl 26,
     Store, IncOut, ShrOut 10 4, IncIn, LoadDelta, AndIn mask, OrShl 4, IncIn, LoadDelta, AndIn
     mask, OrShl 14, IncIn, LoadDelta, AndIn mask, OrShl 24, Store, IncOut, ShrOut 10 2, IncIn,
     LoadDelta, AndIn mask, OrShl 2, IncIn, LoadDelta, AndIn mask, OrShl 12, IncIn, LoadDelta,
     AndIn mask, OrShl 22, Store])"

definition ipack11 :: "m128 \<Rightarrow> m128 list \<Rightarrow> m128 list option" where
  "ipack11 = run_pack (let mask = mm_set1_epi32 2047 in
    [LoadDelta, AndIn mask, MovOut, IncIn, LoadDelta, AndIn mask, OrShl 11, IncIn, LoadDelta, AndIn
     mask, OrShl 22, Store, IncOut, ShrOut 11 1, IncIn, LoadDelta, AndIn mask, OrShl 1, IncIn,
     LoadDelta, AndIn mask, OrShl 12, IncIn, LoadDelta, AndIn mask, OrShl 23, Store, IncOut, ShrOut
     11 2, IncIn, LoadDelta, AndIn mask, OrShl 2, IncIn, LoadDelta, AndIn mask, OrShl 13, IncIn,
     LoadDelta, AndIn mask, OrShl 24, Store, IncOut, ShrOut 11 3, IncIn, LoadDelta, AndIn mask,
     OrShl 3, IncIn, LoadDelta, AndIn mask, OrShl 14, IncIn, LoadDelta, AndIn mask, OrShl 25,
     Store, IncOut, ShrOut 11 4, IncIn, LoadDelta, AndIn mask, OrShl 4, IncIn, LoadDelta, AndIn
     mask, OrShl 15, IncIn, LoadDelta, AndIn mask, OrShl 26, Store, IncOut, ShrOut 11 5, IncIn,
     LoadDelta, AndIn mask, OrShl 5, IncIn, LoadDelta, AndIn mask, OrShl 16, IncIn, LoadDelta,
     AndIn mask, OrShl 27, Store, IncOut, ShrOut 11 6, IncIn, LoadDelta, AndIn mask, OrShl 6,
     IncIn, LoadDelta, AndIn mask, OrShl 17, IncIn, LoadDelta, AndIn mask, OrShl 28, Store, IncOut,
     ShrOut 11 7, IncIn, LoadDelta, AndIn mask, OrShl 7, IncIn, LoadDelta, AndIn mask, OrShl 18,
     IncIn, LoadDelta, AndIn mask, OrShl 29, Store, IncOut, ShrOut 11 8, IncIn, LoadDelta, AndIn
     mask, OrShl 8, IncIn, LoadDelta, AndIn mask, OrShl 19, IncIn, LoadDelta, AndIn mask, OrShl 30,
     Store, IncOut, ShrOut 11 9, IncIn, LoadDelta, AndIn mask, OrShl 9, IncIn, LoadDelta, AndIn
     mask, OrShl 20, IncIn, LoadDelta, AndIn mask, OrShl 31, Store, IncOut, ShrOut 11 10, IncIn,
     LoadDelta, AndIn mask, OrShl 10, IncIn, LoadDelta, AndIn mask, OrShl 21, Store])"

definition ipack12 :: "m128 \<Rightarrow> m128 list \<Rightarrow> m128 list option" where
  "ipack12 = run_pack (let mask = mm_set1_epi32 4095 in
    [LoadDelta, AndIn mask, MovOut, IncIn, LoadDelta, AndIn mask, OrShl 12, IncIn, LoadDelta, AndIn
     mask, OrShl 24, Store, IncOut, ShrOut 12 4, IncIn, LoadDelta, AndIn mask, OrShl 4, IncIn,
     LoadDelta, AndIn mask, OrShl 16, IncIn, LoadDelta, AndIn mask, OrShl 28, Store, IncOut, ShrOut
     12 8, IncIn, LoadDelta, AndIn mask, OrShl 8, IncIn, LoadDelta, AndIn mask, OrShl 20, Store,
     IncOut, IncIn, LoadDelta, AndIn mask, MovOut, IncIn, LoadDelta, AndIn mask, OrShl 12, IncIn,
     LoadDelta, AndIn mask, OrShl 24, Store, IncOut, ShrOut 12 4, IncIn, LoadDelta, AndIn mask,
     OrShl 4, IncIn, LoadDelta, AndIn mask, OrShl 16, IncIn, LoadDelta, AndIn mask, OrShl 28,
     Store, IncOut, ShrOut 12 8, IncIn, LoadDelta, AndIn mask, OrShl 8, IncIn, LoadDelta, AndIn
     mask, OrShl 20, Store, IncOut, IncIn, LoadDelta, AndIn mask, MovOut, IncIn, LoadDelta, AndIn
     mask, OrShl 12, IncIn, LoadDelta, AndIn mask, OrShl 24, Store, IncOut, ShrOut 12 4, IncIn,
     LoadDelta, AndIn mask, OrShl 4, IncIn, LoadDelta, AndIn mask, OrShl 16, IncIn, LoadDelta,
     AndIn mask, OrShl 28, Store, IncOut, ShrOut 12 8, IncIn, LoadDelta, AndIn mask, OrShl 8,
     IncIn, LoadDelta, AndIn mask, OrShl 20, Store, IncOut, IncIn, LoadDelta, AndIn mask, MovOut,
     IncIn, LoadDelta, AndIn mask, OrShl 12, IncIn, LoadDelta, AndIn mask, OrShl 24, Store, IncOut,
     ShrOut 12 4, IncIn, LoadDelta, AndIn mask, OrShl 4, IncIn, LoadDelta, AndIn mask, OrShl 16,
     IncIn, LoadDelta, AndIn mask, OrShl 28, Store, IncOut, ShrOut 12 8, IncIn, LoadDelta, AndIn
     mask, OrShl 8, IncIn, LoadDelta, AndIn mask, OrShl 20, Store])"

definition ipack13 :: "m128 \<Rightarrow> m128 list \<Rightarrow> m128 list option" where
  "ipack13 = run_pack (let mask = mm_set1_epi32 8191 in
    [LoadDelta, AndIn mask, MovOut, IncIn, LoadDelta, AndIn mask, OrShl 13, IncIn, LoadDelta, AndIn
     mask, OrShl 26, Store, IncOut, ShrOut 13 7, IncIn, LoadDelta, AndIn mask, OrShl 7, IncIn,
     LoadDelta, AndIn mask, OrShl 20, Store, IncOut, ShrOut 13 1, IncIn, LoadDelta, AndIn mask,
     OrShl 1, IncIn, LoadDelta, AndIn mask, OrShl 14, IncIn, LoadDelta, AndIn mask, OrShl 27,
     Store, IncOut, ShrOut 13 8, IncIn, LoadDelta, AndIn mask, OrShl 8, IncIn, LoadDelta, AndIn
     mask, OrShl 21, Store, IncOut, ShrOut 13 2, IncIn, LoadDelta, AndIn mask, OrShl 2, IncIn,
     LoadDelta, AndIn mask, OrShl 15, IncIn, LoadDelta, AndIn mask, OrShl 28, Store, IncOut, ShrOut
     13 9, IncIn, LoadDelta, AndIn mask, OrShl 9, IncIn, LoadDelta, AndIn mask, OrShl 22, Store,
     IncOut, ShrOut 13 3, IncIn, LoadDelta, AndIn mask, OrShl 3, IncIn, LoadDelta, AndIn mask,
     OrShl 16, IncIn, LoadDelta, AndIn mask, OrShl 29, Store, IncOut, ShrOut 13 10, IncIn,
     LoadDelta, AndIn mask, OrShl 10, IncIn, LoadDelta, AndIn mask, OrShl 23, Store, IncOut, ShrOut
     13 4, IncIn, LoadDelta, AndIn mask, OrShl 4, IncIn, LoadDelta, AndIn mask, OrShl 17, IncIn,
     LoadDelta, AndIn mask, OrShl 30, Store, IncOut, ShrOut 13 11, IncIn, LoadDelta, AndIn mask,
     OrShl 11, IncIn, LoadDelta, AndIn mask, OrShl 24, Store, IncOut, ShrOut 13 5, IncIn,
     LoadDelta, AndIn mask, OrShl 5, IncIn, LoadDelta, AndIn mask, OrShl 18, IncIn, LoadDelta,
     AndIn mask, OrShl 31, Store, IncOut, ShrOut 13 12, IncIn, LoadDelta, AndIn mask, OrShl 12,
     IncIn, LoadDelta, AndIn mask, OrShl 25, Store, IncOut, ShrOut 13 6, IncIn, LoadDelta, AndIn
     mask, OrShl 6, IncIn, LoadDelta, AndIn mask, OrShl 19, Store])"

definition ipack14 :: "m128 \<Rightarrow> m128 list \<Rightarrow> m128 list option" where
  "ipack14 = run_pack (let mask = mm_set1_epi32 16383 in
    [LoadDelta, AndIn mask, MovOut, IncIn, LoadDelta, AndIn mask, OrShl 14, IncIn, LoadDelta, AndIn
     mask, OrShl 28, Store, IncOut, ShrOut 14 10, IncIn, LoadDelta, AndIn mask, OrShl 10, IncIn,
     LoadDelta, AndIn mask, OrShl 24, Store, IncOut, ShrOut 14 6, IncIn, LoadDelta, AndIn mask,
     OrShl 6, IncIn, LoadDelta, AndIn mask, OrShl 20, Store, IncOut, ShrOut 14 2, IncIn, LoadDelta,
     AndIn mask, OrShl 2, IncIn, LoadDelta, AndIn mask, OrShl 16, IncIn, LoadDelta, AndIn mask,
     OrShl 30, Store, IncOut, ShrOut 14 12, IncIn, LoadDelta, AndIn mask, OrShl 12, IncIn,
     LoadDelta, AndIn mask, OrShl 26, Store, IncOut, ShrOut 14 8, IncIn, LoadDelta, AndIn mask,
     OrShl 8, IncIn, LoadDelta, AndIn mask, OrShl 22, Store, IncOut, ShrOut 14 4, IncIn, LoadDelta,
     AndIn mask, OrShl 4, IncIn, LoadDelta, AndIn mask, OrShl 18, Store, IncOut, IncIn, LoadDelta,
     AndIn mask, MovOut, IncIn, LoadDelta, AndIn mask, OrShl 14, IncIn, LoadDelta, AndIn mask,
     OrShl 28, Store, IncOut, ShrOut 14 10, IncIn, LoadDelta, AndIn mask, OrShl 10, IncIn,
     LoadDelta, AndIn mask, OrShl 24, Store, IncOut, ShrOut 14 6, IncIn, LoadDelta, AndIn mask,
     OrShl 6, IncIn, LoadDelta, AndIn mask, OrShl 20, Store, IncOut, ShrOut 14 2, IncIn, LoadDelta,
     AndIn mask, OrShl 2, IncIn, LoadDelta, AndIn mask, OrShl 16, IncIn, LoadDelta, AndIn mask,
     OrShl 30, Store, IncOut, ShrOut 14 12, IncIn, LoadDelta, AndIn mask, OrShl 12, IncIn,
     LoadDelta, AndIn mask, OrShl 26, Store, IncOut, ShrOut 14 8, IncIn, LoadDelta, AndIn mask,
     OrShl 8, IncIn, LoadDelta, AndIn mask, OrShl 22, Store, IncOut, ShrOut 14 4, IncIn, LoadDelta,
     AndIn mask, OrShl 4, IncIn, LoadDelta, AndIn mask, OrShl 18, Store])"

definition ipack15 :: "m128 \<Rightarrow> m128 list \<Rightarrow> m128 list option" where
  "ipack15 = run_pack (let mask = mm_set1_epi32 32767 in
    [LoadDelta, AndIn mask, MovOut, IncIn, LoadDelta, AndIn mask, OrShl 15, IncIn, LoadDelta, AndIn
     mask, OrShl 30, Store, IncOut, ShrOut 15 13, IncIn, LoadDelta, AndIn mask, OrShl 13, IncIn,
     LoadDelta, AndIn mask, OrShl 28, Store, IncOut, ShrOut 15 11, IncIn, LoadDelta, AndIn mask,
     OrShl 11, IncIn, LoadDelta, AndIn mask, OrShl 26, Store, IncOut, ShrOut 15 9, IncIn,
     LoadDelta, AndIn mask, OrShl 9, IncIn, LoadDelta, AndIn mask, OrShl 24, Store, IncOut, ShrOut
     15 7, IncIn, LoadDelta, AndIn mask, OrShl 7, IncIn, LoadDelta, AndIn mask, OrShl 22, Store,
     IncOut, ShrOut 15 5, IncIn, LoadDelta, AndIn mask, OrShl 5, IncIn, LoadDelta, AndIn mask,
     OrShl 20, Store, IncOut, ShrOut 15 3, IncIn, LoadDelta, AndIn mask, OrShl 3, IncIn, LoadDelta,
     AndIn mask, OrShl 18, Store, IncOut, ShrOut 15 1, IncIn, LoadDelta, AndIn mask, OrShl 1,
     IncIn, LoadDelta, AndIn mask, OrShl 16, IncIn, LoadDelta, AndIn mask, OrShl 31, Store, IncOut,
     ShrOut 15 14, IncIn, LoadDelta, AndIn mask, OrShl 14, IncIn, LoadDelta, AndIn mask, OrShl 29,
     Store, IncOut, ShrOut 15 12, IncIn, LoadDelta, AndIn mask, OrShl 12, IncIn, LoadDelta, AndIn
     mask, OrShl 27, Store, IncOut, ShrOut 15 10, IncIn, LoadDelta, AndIn mask, OrShl 10, IncIn,
     LoadDelta, AndIn mask, OrShl 25, Store, IncOut, ShrOut 15 8, IncIn, LoadDelta, AndIn mask,
     OrShl 8, IncIn, LoadDelta, AndIn mask, OrShl 23, Store, IncOut, ShrOut 15 6, IncIn, LoadDelta,
     AndIn mask, OrShl 6, IncIn, LoadDelta, AndIn mask, OrShl 21, Store, IncOut, ShrOut 15 4,
     IncIn, LoadDelta, AndIn mask, OrShl 4, IncIn, LoadDelta, AndIn mask, OrShl 19, Store, IncOut,
     ShrOut 15 2, IncIn, LoadDelta, AndIn mask, OrShl 2, IncIn, LoadDelta, AndIn mask, OrShl 17,
     Store])"

definition ipack16 :: "m128 \<Rightarrow> m128 list \<Rightarrow> m128 list option" where
  "ipack16 = run_pack (let mask = mm_set1_epi32 65535 in
    [LoadDelta, AndIn mask, MovOut, IncIn, LoadDelta, AndIn mask, OrShl 16, Store, IncOut, IncIn,
     LoadDelta, AndIn mask, MovOut, IncIn, LoadDelta, AndIn mask, OrShl 16, Store, IncOut, IncIn,
     LoadDelta, AndIn mask, MovOut, IncIn, LoadDelta, AndIn mask, OrShl 16, Store, IncOut, IncIn,
     LoadDelta, AndIn mask, MovOut, IncIn, LoadDelta, AndIn mask, OrShl 16, Store, IncOut, IncIn,
     LoadDelta, AndIn mask, MovOut, IncIn, LoadDelta, AndIn mask, OrShl 16, Store, IncOut, IncIn,
     LoadDelta, AndIn mask, MovOut, IncIn, LoadDelta, AndIn mask, OrShl 16, Store, IncOut, IncIn,
     LoadDelta, AndIn mask, MovOut, IncIn, LoadDelta, AndIn mask, OrShl 16, Store, IncOut, IncIn,
     LoadDelta, AndIn mask, MovOut, IncIn, LoadDelta, AndIn mask, OrShl 16, Store, IncOut, IncIn,
     LoadDelta, AndIn mask, MovOut, IncIn, LoadDelta, AndIn mask, OrShl 16, Store, IncOut, IncIn,
     LoadDelta, AndIn mask, MovOut, IncIn, LoadDelta, AndIn mask, OrShl 16, Store, IncOut, IncIn,
     LoadDelta, AndIn mask, MovOut, IncIn, LoadDelta, AndIn mask, OrShl 16, Store, IncOut, IncIn,
     LoadDelta, AndIn mask, MovOut, IncIn, LoadDelta, AndIn mask, OrShl 16, Store, IncOut, IncIn,
     LoadDelta, AndIn mask, MovOut, IncIn, LoadDelta, AndIn mask, OrShl 16, Store, IncOut, IncIn,
     LoadDelta, AndIn mask, MovOut, IncIn, LoadDelta, AndIn mask, OrShl 16, Store, IncOut, IncIn,
     LoadDelta, AndIn mask, MovOut, IncIn, LoadDelta, AndIn mask, OrShl 16, Store, IncOut, IncIn,
     LoadDelta, AndIn mask, MovOut, IncIn, LoadDelta, AndIn mask, OrShl 16, Store])"

definition ipack17 :: "m128 \<Rightarrow> m128 list \<Rightarrow> m128 list option" where
  "ipack17 = run_pack (let mask = mm_set1_epi32 131071 in
    [LoadDelta, AndIn mask, MovOut, IncIn, LoadDelta, AndIn mask, OrShl 17, Store, IncOut, ShrOut
     17 2, IncIn, LoadDelta, AndIn mask, OrShl 2, IncIn, LoadDelta, AndIn mask, OrShl 19, Store,
     IncOut, ShrOut 17 4, IncIn, LoadDelta, AndIn mask, OrShl 4, IncIn, LoadDelta, AndIn mask,
     OrShl 21, Store, IncOut, ShrOut 17 6, IncIn, LoadDelta, AndIn mask, OrShl 6, IncIn, LoadDelta,
     AndIn mask, OrShl 23, Store, IncOut, ShrOut 17 8, IncIn, LoadDelta, AndIn mask, OrShl 8,
     IncIn, LoadDelta, AndIn mask, OrShl 25, Store, IncOut, ShrOut 17 10, IncIn, LoadDelta, AndIn
     mask, OrShl 10, IncIn, LoadDelta, AndIn mask, OrShl 27, Store, IncOut, ShrOut 17 12, IncIn,
     LoadDelta, AndIn mask, OrShl 12, IncIn, LoadDelta, AndIn mask, OrShl 29, Store, IncOut, ShrOut
     17 14, IncIn, LoadDelta, AndIn mask, OrShl 14, IncIn, LoadDelta, AndIn mask, OrShl 31, Store,
     IncOut, ShrOut 17 16, IncIn, LoadDelta, AndIn mask, OrShl 16, Store, IncOut, ShrOut 17 1,
     IncIn, LoadDelta, AndIn mask, OrShl 1, IncIn, LoadDelta, AndIn mask, OrShl 18, Store, IncOut,
     ShrOut 17 3, IncIn, LoadDelta, AndIn mask, OrShl 3, IncIn, LoadDelta, AndIn mask, OrShl 20,
     Store, IncOut, ShrOut 17 5, IncIn, LoadDelta, AndIn mask, OrShl 5, IncIn, LoadDelta, AndIn
     mask, OrShl 22, Store, IncOut, ShrOut 17 7, IncIn, LoadDelta, AndIn mask, OrShl 7, IncIn,
     LoadDelta, AndIn mask, OrShl 24, Store, IncOut, ShrOut 17 9, IncIn, LoadDelta, AndIn mask,
     OrShl 9, IncIn, LoadDelta, AndIn mask, OrShl 26, Store, IncOut, ShrOut 17 11, IncIn,
     LoadDelta, AndIn mask, OrShl 11, IncIn, LoadDelta, AndIn mask, OrShl 28, Store, IncOut, ShrOut
     17 13, IncIn, LoadDelta, AndIn mask, OrShl 13, IncIn, LoadDelta, AndIn mask, OrShl 30, Store,
     IncOut, ShrOut 17 15, IncIn, LoadDelta, AndIn mask, OrShl 15, Store])"

definition ipack18 :: "m128 \<Rightarrow> m128 list \<Rightarrow> m128 list option" where
  "ipack18 = run_pack (let mask = mm_set1_epi32 262143 in
    [LoadDelta, AndIn mask, MovOut, IncIn, LoadDelta, AndIn mask, OrShl 18, Store, IncOut, ShrOut
     18 4, IncIn, LoadDelta, AndIn mask, OrShl 4, IncIn, LoadDelta, AndIn mask, OrShl 22, Store,
     IncOut, ShrOut 18 8, IncIn, LoadDelta, AndIn mask, OrShl 8, IncIn, LoadDelta, AndIn mask,
     OrShl 26, Store, IncOut, ShrOut 18 12, IncIn, LoadDelta, AndIn mask, OrShl 12, IncIn,
     LoadDelta, AndIn mask, OrShl 30, Store, IncOut, ShrOut 18 16, IncIn, LoadDelta, AndIn mask,
     OrShl 16, Store, IncOut, ShrOut 18 2, IncIn, LoadDelta, AndIn mask, OrShl 2, IncIn, LoadDelta,
     AndIn mask, OrShl 20, Store, IncOut, ShrOut 18 6, IncIn, LoadDelta, AndIn mask, OrShl 6,
     IncIn, LoadDelta, AndIn mask, OrShl 24, Store, IncOut, ShrOut 18 10, IncIn, LoadDelta, AndIn
     mask, OrShl 10, IncIn, LoadDelta, AndIn mask, OrShl 28, Store, IncOut, ShrOut 18 14, IncIn,
     LoadDelta, AndIn mask, OrShl 14, Store, IncOut, IncIn, LoadDelta, AndIn mask, MovOut, IncIn,
     LoadDelta, AndIn mask, OrShl 18, Store, IncOut, ShrOut 18 4, IncIn, LoadDelta, AndIn mask,
     OrShl 4, IncIn, LoadDelta, AndIn mask, OrShl 22, Store, IncOut, ShrOut 18 8, IncIn, LoadDelta,
     AndIn mask, OrShl 8, IncIn, LoadDelta, AndIn mask, OrShl 26, Store, IncOut, ShrOut 18 12,
     IncIn, LoadDelta, AndIn mask, OrShl 12, IncIn, LoadDelta, AndIn mask, OrShl 30, Store, IncOut,
     ShrOut 18 16, IncIn, LoadDelta, AndIn mask, OrShl 16, Store, IncOut, ShrOut 18 2, IncIn,
     LoadDelta, AndIn mask, OrShl 2, IncIn, LoadDelta, AndIn mask, OrShl 20, Store, IncOut, ShrOut
     18 6, IncIn, LoadDelta, AndIn mask, OrShl 6, IncIn, LoadDelta, AndIn mask, OrShl 24, Store,
     IncOut, ShrOut 18 10, IncIn, LoadDelta, AndIn mask, OrShl 10, IncIn, LoadDelta, AndIn mask,
     OrShl 28, Store, IncOut, ShrOut 18 14, IncIn, LoadDelta, AndIn mask, OrShl 14, Store])"

definition ipack19 :: "m128 \<Rightarrow> m128 list \<Rightarrow> m128 list option" where
  "ipack19 = run_pack (let mask = mm_set1_epi32 524287 in
    [LoadDelta, AndIn mask, MovOut, IncIn, LoadDelta, AndIn mask, OrShl 19, Store, IncOut, ShrOut
     19 6, IncIn, LoadDelta, AndIn mask, OrShl 6, IncIn, LoadDelta, AndIn mask, OrShl 25, Store,
     IncOut, ShrOut 19 12, IncIn, LoadDelta, AndIn mask, OrShl 12, IncIn, LoadDelta, AndIn mask,
     OrShl 31, Store, IncOut, ShrOut 19 18, IncIn, LoadDelta, AndIn mask, OrShl 18, Store, IncOut,
     ShrOut 19 5, IncIn, LoadDelta, AndIn mask, OrShl 5, IncIn, LoadDelta, AndIn mask, OrShl 24,
     Store, IncOut, ShrOut 19 11, IncIn, LoadDelta, AndIn mask, OrShl 11, IncIn, LoadDelta, AndIn
     mask, OrShl 30, Store, IncOut, ShrOut 19 17, IncIn, LoadDelta, AndIn mask, OrShl 17, Store,
     IncOut, ShrOut 19 4, IncIn, LoadDelta, AndIn mask, OrShl 4, IncIn, LoadDelta, AndIn mask,
     OrShl 23, Store, IncOut, ShrOut 19 10, IncIn, LoadDelta, AndIn mask, OrShl 10, IncIn,
     LoadDelta, AndIn mask, OrShl 29, Store, IncOut, ShrOut 19 16, IncIn, LoadDelta, AndIn mask,
     OrShl 16, Store, IncOut, ShrOut 19 3, IncIn, LoadDelta, AndIn mask, OrShl 3, IncIn, LoadDelta,
     AndIn mask, OrShl 22, Store, IncOut, ShrOut 19 9, IncIn, LoadDelta, AndIn mask, OrShl 9,
     IncIn, LoadDelta, AndIn mask, OrShl 28, Store, IncOut, ShrOut 19 15, IncIn, LoadDelta, AndIn
     mask, OrShl 15, Store, IncOut, ShrOut 19 2, IncIn, LoadDelta, AndIn mask, OrShl 2, IncIn,
     LoadDelta, AndIn mask, OrShl 21, Store, IncOut, ShrOut 19 8, IncIn, LoadDelta, AndIn mask,
     OrShl 8, IncIn, LoadDelta, AndIn mask, OrShl 27, Store, IncOut, ShrOut 19 14, IncIn,
     LoadDelta, AndIn mask, OrShl 14, Store, IncOut, ShrOut 19 1, IncIn, LoadDelta, AndIn mask,
     OrShl 1, IncIn, LoadDelta, AndIn mask, OrShl 20, Store, IncOut, ShrOut 19 7, IncIn, LoadDelta,
     AndIn mask, OrShl 7, IncIn, LoadDelta, AndIn mask, OrShl 26, Store, IncOut, ShrOut 19 13,
     IncIn, LoadDelta, AndIn mask, OrShl 13, Store])"

definition ipack20 :: "m128 \<Rightarrow> m128 list \<Rightarrow> m128 list option" where
  "ipack20 = run_pack (let mask = mm_set1_epi32 1048575 in
    [LoadDelta, AndIn mask, MovOut, IncIn, LoadDelta, AndIn mask, OrShl 20, Store, IncOut, ShrOut
     20 8, IncIn, LoadDelta, AndIn mask, OrShl 8, IncIn, LoadDelta, AndIn mask, OrShl 28, Store,
     IncOut, ShrOut 20 16, IncIn, LoadDelta, AndIn mask, OrShl 16, Store, IncOut, ShrOut 20 4,
     IncIn, LoadDelta, AndIn mask, OrShl 4, IncIn, LoadDelta, AndIn mask, OrShl 24, Store, IncOut,
     ShrOut 20 12, IncIn, LoadDelta, AndIn mask, OrShl 12, Store, IncOut, IncIn, LoadDelta, AndIn
     mask, MovOut, IncIn, LoadDelta, AndIn mask, OrShl 20, Store, IncOut, ShrOut 20 8, IncIn,
     LoadDelta, AndIn mask, OrShl 8, IncIn, LoadDelta, AndIn mask, OrShl 28, Store, IncOut, ShrOut
     20 16, IncIn, LoadDelta, AndIn mask, OrShl 16, Store, IncOut, ShrOut 20 4, IncIn, LoadDelta,
     AndIn mask, OrShl 4, IncIn, LoadDelta, AndIn mask, OrShl 24, Store, IncOut, ShrOut 20 12,
     IncIn, LoadDelta, AndIn mask, OrShl 12, Store, IncOut, IncIn, LoadDelta, AndIn mask, MovOut,
     IncIn, LoadDelta, AndIn mask, OrShl 20, Store, IncOut, ShrOut 20 8, IncIn, LoadDelta, AndIn
     mask, OrShl 8, IncIn, LoadDelta, AndIn mask, OrShl 28, Store, IncOut, ShrOut 20 16, IncIn,
     LoadDelta, AndIn mask, OrShl 16, Store, IncOut, ShrOut 20 4, IncIn, LoadDelta, AndIn mask,
     OrShl 4, IncIn, LoadDelta, AndIn mask, OrShl 24, Store, IncOut, ShrOut 20 12, IncIn,
     LoadDelta, AndIn mask, OrShl 12, Store, IncOut, IncIn, LoadDelta, AndIn mask, MovOut, IncIn,
     LoadDelta, AndIn mask, OrShl 20, Store, IncOut, ShrOut 20 8, IncIn, LoadDelta, AndIn mask,
     OrShl 8, IncIn, LoadDelta, AndIn mask, OrShl 28, Store, IncOut, ShrOut 20 16, IncIn,
     LoadDelta, AndIn mask, OrShl 16, Store, IncOut, ShrOut 20 4, IncIn, LoadDelta, AndIn mask,
     OrShl 4, IncIn, LoadDelta, AndIn mask, OrShl 24, Store, IncOut, ShrOut 20 12, IncIn,
     LoadDelta, AndIn mask, OrShl 12, Store])"

definition ipack21 :: "m128 \<Rightarrow> m128 list \<Rightarrow> m128 list option" where
  "ipack21 = run_pack (let mask = mm_set1_epi32 2097151 in
    [LoadDelta, AndIn mask, MovOut, IncIn, LoadDelta, AndIn mask, OrShl 21, Store, IncOut, ShrOut
     21 10, IncIn, LoadDelta, AndIn mask, OrShl 10, IncIn, LoadDelta, AndIn mask, OrShl 31, Store,
     IncOut, ShrOut 21 20, IncIn, LoadDelta, AndIn mask, OrShl 20, Store, IncOut, ShrOut 21 9,
     IncIn, LoadDelta, AndIn mask, OrShl 9, IncIn, LoadDelta, AndIn mask, OrShl 30, Store, IncOut,
     ShrOut 21 19, IncIn, LoadDelta, AndIn mask, OrShl 19, Store, IncOut, ShrOut 21 8, IncIn,
     LoadDelta, AndIn mask, OrShl 8, IncIn, LoadDelta, AndIn mask, OrShl 29, Store, IncOut, ShrOut
     21 18, IncIn, LoadDelta, AndIn mask, OrShl 18, Store, IncOut, ShrOut 21 7, IncIn, LoadDelta,
     AndIn mask, OrShl 7, IncIn, LoadDelta, AndIn mask, OrShl 28, Store, IncOut, ShrOut 21 17,
     IncIn, LoadDelta, AndIn mask, OrShl 17, Store, IncOut, ShrOut 21 6, IncIn, LoadDelta, AndIn
     mask, OrShl 6, IncIn, LoadDelta, AndIn mask, OrShl 27, Store, IncOut, ShrOut 21 16, IncIn,
     LoadDelta, AndIn mask, OrShl 16, Store, IncOut, ShrOut 21 5, IncIn, LoadDelta, AndIn mask,
     OrShl 5, IncIn, LoadDelta, AndIn mask, OrShl 26, Store, IncOut, ShrOut 21 15, IncIn,
     LoadDelta, AndIn mask, OrShl 15, Store, IncOut, ShrOut 21 4, IncIn, LoadDelta, AndIn mask,
     OrShl 4, IncIn, LoadDelta, AndIn mask, OrShl 25, Store, IncOut, ShrOut 21 14, IncIn,
     LoadDelta, AndIn mask, OrShl 14, Store, IncOut, ShrOut 21 3, IncIn, LoadDelta, AndIn mask,
     OrShl 3, IncIn, LoadDelta, AndIn mask, OrShl 24, Store, IncOut, ShrOut 21 13, IncIn,
     LoadDelta, AndIn mask, OrShl 13, Store, IncOut, ShrOut 21 2, IncIn, LoadDelta, AndIn mask,
     OrShl 2, IncIn, LoadDelta, AndIn mask, OrShl 23, Store, IncOut, ShrOut 21 12, IncIn,
     LoadDelta, AndIn mask, OrShl 12, Store, IncOut, ShrOut 21 1, IncIn, LoadDelta, AndIn mask,
     OrShl 1, IncIn, LoadDelta, AndIn mask, OrShl 22, Store, IncOut, ShrOut 21 11, IncIn,
     LoadDelta, AndIn mask, OrShl 11, Store])"

definition ipack22 :: "m128 \<Rightarrow> m128 list \<Rightarrow> m128 list option" where
  "ipack22 = run_pack (let mask = mm_set1_epi32 4194303 in
    [LoadDelta, AndIn mask, MovOut, IncIn, LoadDelta, AndIn mask, OrShl 22, Store, IncOut, ShrOut
     22 12, IncIn, LoadDelta, AndIn mask, OrShl 12, Store, IncOut, ShrOut 22 2, IncIn, LoadDelta,
     AndIn mask, OrShl 2, IncIn, LoadDelta, AndIn mask, OrShl 24, Store, IncOut, ShrOut 22 14,
     IncIn, LoadDelta, AndIn mask, OrShl 14, Store, IncOut, ShrOut 22 4, IncIn, LoadDelta, AndIn
     mask, OrShl 4, IncIn, LoadDelta, AndIn mask, OrShl 26, Store, IncOut, ShrOut 22 16, IncIn,
     LoadDelta, AndIn mask, OrShl 16, Store, IncOut, ShrOut 22 6, IncIn, LoadDelta, AndIn mask,
     OrShl 6, IncIn, LoadDelta, AndIn mask, OrShl 28, Store, IncOut, ShrOut 22 18, IncIn,
     LoadDelta, AndIn mask, OrShl 18, Store, IncOut, ShrOut 22 8, IncIn, LoadDelta, AndIn mask,
     OrShl 8, IncIn, LoadDelta, AndIn mask, OrShl 30, Store, IncOut, ShrOut 22 20, IncIn,
     LoadDelta, AndIn mask, OrShl 20, Store, IncOut, ShrOut 22 10, IncIn, LoadDelta, AndIn mask,
     OrShl 10, Store, IncOut, IncIn, LoadDelta, AndIn mask, MovOut, IncIn, LoadDelta, AndIn mask,
     OrShl 22, Store, IncOut, ShrOut 22 12, IncIn, LoadDelta, AndIn mask, OrShl 12, Store, IncOut,
     ShrOut 22 2, IncIn, LoadDelta, AndIn mask, OrShl 2, IncIn, LoadDelta, AndIn mask, OrShl 24,
     Store, IncOut, ShrOut 22 14, IncIn, LoadDelta, AndIn mask, OrShl 14, Store, IncOut, ShrOut 22
     4, IncIn, LoadDelta, AndIn mask, OrShl 4, IncIn, LoadDelta, AndIn mask, OrShl 26, Store,
     IncOut, ShrOut 22 16, IncIn, LoadDelta, AndIn mask, OrShl 16, Store, IncOut, ShrOut 22 6,
     IncIn, LoadDelta, AndIn mask, OrShl 6, IncIn, LoadDelta, AndIn mask, OrShl 28, Store, IncOut,
     ShrOut 22 18, IncIn, LoadDelta, AndIn mask, OrShl 18, Store, IncOut, ShrOut 22 8, IncIn,
     LoadDelta, AndIn mask, OrShl 8, IncIn, LoadDelta, AndIn mask, OrShl 30, Store, IncOut, ShrOut
     22 20, IncIn, LoadDelta, AndIn mask, OrShl 20, Store, IncOut, ShrOut 22 10, IncIn, LoadDelta,
     AndIn mask, OrShl 10, Store])"

definition ipack23 :: "m128 \<Rightarrow> m128 list \<Rightarrow> m128 list option" where
  "ipack23 = run_pack (let mask = mm_set1_epi32 8388607 in
    [LoadDelta, AndIn mask, MovOut, IncIn, LoadDelta, AndIn mask, OrShl 23, Store, IncOut, ShrOut
     23 14, IncIn, LoadDelta, AndIn mask, OrShl 14, Store, IncOut, ShrOut 23 5, IncIn, LoadDelta,
     AndIn mask, OrShl 5, IncIn, LoadDelta, AndIn mask, OrShl 28, Store, IncOut, ShrOut 23 19,
     IncIn, LoadDelta, AndIn mask, OrShl 19, Store, IncOut, ShrOut 23 10, IncIn, LoadDelta, AndIn
     mask, OrShl 10, Store, IncOut, ShrOut 23 1, IncIn, LoadDelta, AndIn mask, OrShl 1, IncIn,
     LoadDelta, AndIn mask, OrShl 24, Store, IncOut, ShrOut 23 15, IncIn, LoadDelta, AndIn mask,
     OrShl 15, Store, IncOut, ShrOut 23 6, IncIn, LoadDelta, AndIn mask, OrShl 6, IncIn, LoadDelta,
     AndIn mask, OrShl 29, Store, IncOut, ShrOut 23 20, IncIn, LoadDelta, AndIn mask, OrShl 20,
     Store, IncOut, ShrOut 23 11, IncIn, LoadDelta, AndIn mask, OrShl 11, Store, IncOut, ShrOut 23
     2, IncIn, LoadDelta, AndIn mask, OrShl 2, IncIn, LoadDelta, AndIn mask, OrShl 25, Store,
     IncOut, ShrOut 23 16, IncIn, LoadDelta, AndIn mask, OrShl 16, Store, IncOut, ShrOut 23 7,
     IncIn, LoadDelta, AndIn mask, OrShl 7, IncIn, LoadDelta, AndIn mask, OrShl 30, Store, IncOut,
     ShrOut 23 21, IncIn, LoadDelta, AndIn mask, OrShl 21, Store, IncOut, ShrOut 23 12, IncIn,
     LoadDelta, AndIn mask, OrShl 12, Store, IncOut, ShrOut 23 3, IncIn, LoadDelta, AndIn mask,
     OrShl 3, IncIn, LoadDelta, AndIn mask, OrShl 26, Store, IncOut, ShrOut 23 17, IncIn,
     LoadDelta, AndIn mask, OrShl 17, Store, IncOut, ShrOut 23 8, IncIn, LoadDelta, AndIn mask,
     OrShl 8, IncIn, LoadDelta, AndIn mask, OrShl 31, Store, IncOut, ShrOut 23 22, IncIn,
     LoadDelta, AndIn mask, OrShl 22, Store, IncOut, ShrOut 23 13, IncIn, LoadDelta, AndIn mask,
     OrShl 13, Store, IncOut, ShrOut 23 4, IncIn, LoadDelta, AndIn mask, OrShl 4, IncIn, LoadDelta,
     AndIn mask, OrShl 27, Store, IncOut, ShrOut 23 18, IncIn, LoadDelta, AndIn mask, OrShl 18,
     Store, IncOut, ShrOut 23 9, IncIn, LoadDelta, AndIn mask, OrShl 9, Store])"

definition ipack24 :: "m128 \<Rightarrow> m128 list \<Rightarrow> m128 list option" where
  "ipack24 = run_pack (let mask = mm_set1_epi32 16777215 in
    [LoadDelta, AndIn mask, MovOut, IncIn, LoadDelta, AndIn mask, OrShl 24, Store, IncOut, ShrOut
     24 16, IncIn, LoadDelta, AndIn mask, OrShl 16, Store, IncOut, ShrOut 24 8, IncIn, LoadDelta,
     AndIn mask, OrShl 8, Store, IncOut, IncIn, LoadDelta, AndIn mask, MovOut, IncIn, LoadDelta,
     AndIn mask, OrShl 24, Store, IncOut, ShrOut 24 16, IncIn, LoadDelta, AndIn mask, OrShl 16,
     Store, IncOut, ShrOut 24 8, IncIn, LoadDelta, AndIn mask, OrShl 8, Store, IncOut, IncIn,
     LoadDelta, AndIn mask, MovOut, IncIn, LoadDelta, AndIn mask, OrShl 24, Store, IncOut, ShrOut
     24 16, IncIn, LoadDelta, AndIn mask, OrShl 16, Store, IncOut, ShrOut 24 8, IncIn, LoadDelta,
     AndIn mask, OrShl 8, Store, IncOut, IncIn, LoadDelta, AndIn mask, MovOut, IncIn, LoadDelta,
     AndIn mask, OrShl 24, Store, IncOut, ShrOut 24 16, IncIn, LoadDelta, AndIn mask, OrShl 16,
     Store, IncOut, ShrOut 24 8, IncIn, LoadDelta, AndIn mask, OrShl 8, Store, IncOut, IncIn,
     LoadDelta, AndIn mask, MovOut, IncIn, LoadDelta, AndIn mask, OrShl 24, Store, IncOut, ShrOut
     24 16, IncIn, LoadDelta, AndIn mask, OrShl 16, Store, IncOut, ShrOut 24 8, IncIn, LoadDelta,
     AndIn mask, OrShl 8, Store, IncOut, IncIn, LoadDelta, AndIn mask, MovOut, IncIn, LoadDelta,
     AndIn mask, OrShl 24, Store, IncOut, ShrOut 24 16, IncIn, LoadDelta, AndIn mask, OrShl 16,
     Store, IncOut, ShrOut 24 8, IncIn, LoadDelta, AndIn mask, OrShl 8, Store, IncOut, IncIn,
     LoadDelta, AndIn mask, MovOut, IncIn, LoadDelta, AndIn mask, OrShl 24, Store, IncOut, ShrOut
     24 16, IncIn, LoadDelta, AndIn mask, OrShl 16, Store, IncOut, ShrOut 24 8, IncIn, LoadDelta,
     AndIn mask, OrShl 8, Store, IncOut, IncIn, LoadDelta, AndIn mask, MovOut, IncIn, LoadDelta,
     AndIn mask, OrShl 24, Store, IncOut, ShrOut 24 16, IncIn, LoadDelta, AndIn mask, OrShl 16,
     Store, IncOut, ShrOut 24 8, IncIn, LoadDelta, AndIn mask, OrShl 8, Store])"

definition ipack25 :: "m128 \<Rightarrow> m128 list \<Rightarrow> m128 list option" where
  "ipack25 = run_pack (let mask = mm_set1_epi32 33554431 in
    [LoadDelta, AndIn mask, MovOut, IncIn, LoadDelta, AndIn mask, OrShl 25, Store, IncOut, ShrOut
     25 18, IncIn, LoadDelta, AndIn mask, OrShl 18, Store, IncOut, ShrOut 25 11, IncIn, LoadDelta,
     AndIn mask, OrShl 11, Store, IncOut, ShrOut 25 4, IncIn, LoadDelta, AndIn mask, OrShl 4,
     IncIn, LoadDelta, AndIn mask, OrShl 29, Store, IncOut, ShrOut 25 22, IncIn, LoadDelta, AndIn
     mask, OrShl 22, Store, IncOut, ShrOut 25 15, IncIn, LoadDelta, AndIn mask, OrShl 15, Store,
     IncOut, ShrOut 25 8, IncIn, LoadDelta, AndIn mask, OrShl 8, Store, IncOut, ShrOut 25 1, IncIn,
     LoadDelta, AndIn mask, OrShl 1, IncIn, LoadDelta, AndIn mask, OrShl 26, Store, IncOut, ShrOut
     25 19, IncIn, LoadDelta, AndIn mask, OrShl 19, Store, IncOut, ShrOut 25 12, IncIn, LoadDelta,
     AndIn mask, OrShl 12, Store, IncOut, ShrOut 25 5, IncIn, LoadDelta, AndIn mask, OrShl 5,
     IncIn, LoadDelta, AndIn mask, OrShl 30, Store, IncOut, ShrOut 25 23, IncIn, LoadDelta, AndIn
     mask, OrShl 23, Store, IncOut, ShrOut 25 16, IncIn, LoadDelta, AndIn mask, OrShl 16, Store,
     IncOut, ShrOut 25 9, IncIn, LoadDelta, AndIn mask, OrShl 9, Store, IncOut, ShrOut 25 2, IncIn,
     LoadDelta, AndIn mask, OrShl 2, IncIn, LoadDelta, AndIn mask, OrShl 27, Store, IncOut, ShrOut
     25 20, IncIn, LoadDelta, AndIn mask, OrShl 20, Store, IncOut, ShrOut 25 13, IncIn, LoadDelta,
     AndIn mask, OrShl 13, Store, IncOut, ShrOut 25 6, IncIn, LoadDelta, AndIn mask, OrShl 6,
     IncIn, LoadDelta, AndIn mask, OrShl 31, Store, IncOut, ShrOut 25 24, IncIn, LoadDelta, AndIn
     mask, OrShl 24, Store, IncOut, ShrOut 25 17, IncIn, LoadDelta, AndIn mask, OrShl 17, Store,
     IncOut, ShrOut 25 10, IncIn, LoadDelta, AndIn mask, OrShl 10, Store, IncOut, ShrOut 25 3,
     IncIn, LoadDelta, AndIn mask, OrShl 3, IncIn, LoadDelta, AndIn mask, OrShl 28, Store, IncOut,
     ShrOut 25 21, IncIn, LoadDelta, AndIn mask, OrShl 21, Store, IncOut, ShrOut 25 14, IncIn,
     LoadDelta, AndIn mask, OrShl 14, Store, IncOut, ShrOut 25 7, IncIn, LoadDelta, AndIn mask,
     OrShl 7, Store])"

definition ipack26 :: "m128 \<Rightarrow> m128 list \<Rightarrow> m128 list option" where
  "ipack26 = run_pack (let mask = mm_set1_epi32 67108863 in
    [LoadDelta, AndIn mask, MovOut, IncIn, LoadDelta, AndIn mask, OrShl 26, Store, IncOut, ShrOut
     26 20, IncIn, LoadDelta, AndIn mask, OrShl 20, Store, IncOut, ShrOut 26 14, IncIn, LoadDelta,
     AndIn mask, OrShl 14, Store, IncOut, ShrOut 26 8, IncIn, LoadDelta, AndIn mask, OrShl 8,
     Store, IncOut, ShrOut 26 2, IncIn, LoadDelta, AndIn mask, OrShl 2, IncIn, LoadDelta, AndIn
     mask, OrShl 28, Store, IncOut, ShrOut 26 22, IncIn, LoadDelta, AndIn mask, OrShl 22, Store,
     IncOut, ShrOut 26 16, IncIn, LoadDelta, AndIn mask, OrShl 16, Store, IncOut, ShrOut 26 10,
     IncIn, LoadDelta, AndIn mask, OrShl 10, Store, IncOut, ShrOut 26 4, IncIn, LoadDelta, AndIn
     mask, OrShl 4, IncIn, LoadDelta, AndIn mask, OrShl 30, Store, IncOut, ShrOut 26 24, IncIn,
     LoadDelta, AndIn mask, OrShl 24, Store, IncOut, ShrOut 26 18, IncIn, LoadDelta, AndIn mask,
     OrShl 18, Store, IncOut, ShrOut 26 12, IncIn, LoadDelta, AndIn mask, OrShl 12, Store, IncOut,
     ShrOut 26 6, IncIn, LoadDelta, AndIn mask, OrShl 6, Store, IncOut, IncIn, LoadDelta, AndIn
     mask, MovOut, IncIn, LoadDelta, AndIn mask, OrShl 26, Store, IncOut, ShrOut 26 20, IncIn,
     LoadDelta, AndIn mask, OrShl 20, Store, IncOut, ShrOut 26 14, IncIn, LoadDelta, AndIn mask,
     OrShl 14, Store, IncOut, ShrOut 26 8, IncIn, LoadDelta, AndIn mask, OrShl 8, Store, IncOut,
     ShrOut 26 2, IncIn, LoadDelta, AndIn mask, OrShl 2, IncIn, LoadDelta, AndIn mask, OrShl 28,
     Store, IncOut, ShrOut 26 22, IncIn, LoadDelta, AndIn mask, OrShl 22, Store, IncOut, ShrOut 26
     16, IncIn, LoadDelta, AndIn mask, OrShl 16, Store, IncOut, ShrOut 26 10, IncIn, LoadDelta,
     AndIn mask, OrShl 10, Store, IncOut, ShrOut 26 4, IncIn, LoadDelta, AndIn mask, OrShl 4,
     IncIn, LoadDelta, AndIn mask, OrShl 30, Store, IncOut, ShrOut 26 24, IncIn, LoadDelta, AndIn
     mask, OrShl 24, Store, IncOut, ShrOut 26 18, IncIn, LoadDelta, AndIn mask, OrShl 18, Store,
     IncOut, ShrOut 26 12, IncIn, LoadDelta, AndIn mask, OrShl 12, Store, IncOut, ShrOut 26 6,
     IncIn, LoadDelta, AndIn mask, OrShl 6, Store])"

definition ipack27 :: "m128 \<Rightarrow> m128 list \<Rightarrow> m128 list option" where
  "ipack27 = run_pack (let mask = mm_set1_epi32 134217727 in
    [LoadDelta, AndIn mask, MovOut, IncIn, LoadDelta, AndIn mask, OrShl 27, Store, IncOut, ShrOut
     27 22, IncIn, LoadDelta, AndIn mask, OrShl 22, Store, IncOut, ShrOut 27 17, IncIn, LoadDelta,
     AndIn mask, OrShl 17, Store, IncOut, ShrOut 27 12, IncIn, LoadDelta, AndIn mask, OrShl 12,
     Store, IncOut, ShrOut 27 7, IncIn, LoadDelta, AndIn mask, OrShl 7, Store, IncOut, ShrOut 27 2,
     IncIn, LoadDelta, AndIn mask, OrShl 2, IncIn, LoadDelta, AndIn mask, OrShl 29, Store, IncOut,
     ShrOut 27 24, IncIn, LoadDelta, AndIn mask, OrShl 24, Store, IncOut, ShrOut 27 19, IncIn,
     LoadDelta, AndIn mask, OrShl 19, Store, IncOut, ShrOut 27 14, IncIn, LoadDelta, AndIn mask,
     OrShl 14, Store, IncOut, ShrOut 27 9, IncIn, LoadDelta, AndIn mask, OrShl 9, Store, IncOut,
     ShrOut 27 4, IncIn, LoadDelta, AndIn mask, OrShl 4, IncIn, LoadDelta, AndIn mask, OrShl 31,
     Store, IncOut, ShrOut 27 26, IncIn, LoadDelta, AndIn mask, OrShl 26, Store, IncOut, ShrOut 27
     21, IncIn, LoadDelta, AndIn mask, OrShl 21, Store, IncOut, ShrOut 27 16, IncIn, LoadDelta,
     AndIn mask, OrShl 16, Store, IncOut, ShrOut 27 11, IncIn, LoadDelta, AndIn mask, OrShl 11,
     Store, IncOut, ShrOut 27 6, IncIn, LoadDelta, AndIn mask, OrShl 6, Store, IncOut, ShrOut 27 1,
     IncIn, LoadDelta, AndIn mask, OrShl 1, IncIn, LoadDelta, AndIn mask, OrShl 28, Store, IncOut,
     ShrOut 27 23, IncIn, LoadDelta, AndIn mask, OrShl 23, Store, IncOut, ShrOut 27 18, IncIn,
     LoadDelta, AndIn mask, OrShl 18, Store, IncOut, ShrOut 27 13, IncIn, LoadDelta, AndIn mask,
     OrShl 13, Store, IncOut, ShrOut 27 8, IncIn, LoadDelta, AndIn mask, OrShl 8, Store, IncOut,
     ShrOut 27 3, IncIn, LoadDelta, AndIn mask, OrShl 3, IncIn, LoadDelta, AndIn mask, OrShl 30,
     Store, IncOut, ShrOut 27 25, IncIn, LoadDelta, AndIn mask, OrShl 25, Store, IncOut, ShrOut 27
     20, IncIn, LoadDelta, AndIn mask, OrShl 20, Store, IncOut, ShrOut 27 15, IncIn, LoadDelta,
     AndIn mask, OrShl 15, Store, IncOut, ShrOut 27 10, IncIn, LoadDelta, AndIn mask, OrShl 10,
     Store, IncOut, ShrOut 27 5, IncIn, LoadDelta, AndIn mask, OrShl 5, Store])"

definition ipack28 :: "m128 \<Rightarrow> m128 list \<Rightarrow> m128 list option" where
  "ipack28 = run_pack (let mask = mm_set1_epi32 268435455 in
    [LoadDelta, AndIn mask, MovOut, IncIn, LoadDelta, AndIn mask, OrShl 28, Store, IncOut, ShrOut
     28 24, IncIn, LoadDelta, AndIn mask, OrShl 24, Store, IncOut, ShrOut 28 20, IncIn, LoadDelta,
     AndIn mask, OrShl 20, Store, IncOut, ShrOut 28 16, IncIn, LoadDelta, AndIn mask, OrShl 16,
     Store, IncOut, ShrOut 28 12, IncIn, LoadDelta, AndIn mask, OrShl 12, Store, IncOut, ShrOut 28
     8, IncIn, LoadDelta, AndIn mask, OrShl 8, Store, IncOut, ShrOut 28 4, IncIn, LoadDelta, AndIn
     mask, OrShl 4, Store, IncOut, IncIn, LoadDelta, AndIn mask, MovOut, IncIn, LoadDelta, AndIn
     mask, OrShl 28, Store, IncOut, ShrOut 28 24, IncIn, LoadDelta, AndIn mask, OrShl 24, Store,
     IncOut, ShrOut 28 20, IncIn, LoadDelta, AndIn mask, OrShl 20, Store, IncOut, ShrOut 28 16,
     IncIn, LoadDelta, AndIn mask, OrShl 16, Store, IncOut, ShrOut 28 12, IncIn, LoadDelta, AndIn
     mask, OrShl 12, Store, IncOut, ShrOut 28 8, IncIn, LoadDelta, AndIn mask, OrShl 8, Store,
     IncOut, ShrOut 28 4, IncIn, LoadDelta, AndIn mask, OrShl 4, Store, IncOut, IncIn, LoadDelta,
     AndIn mask, MovOut, IncIn, LoadDelta, AndIn mask, OrShl 28, Store, IncOut, ShrOut 28 24,
     IncIn, LoadDelta, AndIn mask, OrShl 24, Store, IncOut, ShrOut 28 20, IncIn, LoadDelta, AndIn
     mask, OrShl 20, Store, IncOut, ShrOut 28 16, IncIn, LoadDelta, AndIn mask, OrShl 16, Store,
     IncOut, ShrOut 28 12, IncIn, LoadDelta, AndIn mask, OrShl 12, Store, IncOut, ShrOut 28 8,
     IncIn, LoadDelta, AndIn mask, OrShl 8, Store, IncOut, ShrOut 28 4, IncIn, LoadDelta, AndIn
     mask, OrShl 4, Store, IncOut, IncIn, LoadDelta, AndIn mask, MovOut, IncIn, LoadDelta, AndIn
     mask, OrShl 28, Store, IncOut, ShrOut 28 24, IncIn, LoadDelta, AndIn mask, OrShl 24, Store,
     IncOut, ShrOut 28 20, IncIn, LoadDelta, AndIn mask, OrShl 20, Store, IncOut, ShrOut 28 16,
     IncIn, LoadDelta, AndIn mask, OrShl 16, Store, IncOut, ShrOut 28 12, IncIn, LoadDelta, AndIn
     mask, OrShl 12, Store, IncOut, ShrOut 28 8, IncIn, LoadDelta, AndIn mask, OrShl 8, Store,
     IncOut, ShrOut 28 4, IncIn, LoadDelta, AndIn mask, OrShl 4, Store])"

definition ipack29 :: "m128 \<Rightarrow> m128 list \<Rightarrow> m128 list option" where
  "ipack29 = run_pack (let mask = mm_set1_epi32 536870911 in
    [LoadDelta, AndIn mask, MovOut, IncIn, LoadDelta, AndIn mask, OrShl 29, Store, IncOut, ShrOut
     29 26, IncIn, LoadDelta, AndIn mask, OrShl 26, Store, IncOut, ShrOut 29 23, IncIn, LoadDelta,
     AndIn mask, OrShl 23, Store, IncOut, ShrOut 29 20, IncIn, LoadDelta, AndIn mask, OrShl 20,
     Store, IncOut, ShrOut 29 17, IncIn, LoadDelta, AndIn mask, OrShl 17, Store, IncOut, ShrOut 29
     14, IncIn, LoadDelta, AndIn mask, OrShl 14, Store, IncOut, ShrOut 29 11, IncIn, LoadDelta,
     AndIn mask, OrShl 11, Store, IncOut, ShrOut 29 8, IncIn, LoadDelta, AndIn mask, OrShl 8,
     Store, IncOut, ShrOut 29 5, IncIn, LoadDelta, AndIn mask, OrShl 5, Store, IncOut, ShrOut 29 2,
     IncIn, LoadDelta, AndIn mask, OrShl 2, IncIn, LoadDelta, AndIn mask, OrShl 31, Store, IncOut,
     ShrOut 29 28, IncIn, LoadDelta, AndIn mask, OrShl 28, Store, IncOut, ShrOut 29 25, IncIn,
     LoadDelta, AndIn mask, OrShl 25, Store, IncOut, ShrOut 29 22, IncIn, LoadDelta, AndIn mask,
     OrShl 22, Store, IncOut, ShrOut 29 19, IncIn, LoadDelta, AndIn mask, OrShl 19, Store, IncOut,
     ShrOut 29 16, IncIn, LoadDelta, AndIn mask, OrShl 16, Store, IncOut, ShrOut 29 13, IncIn,
     LoadDelta, AndIn mask, OrShl 13, Store, IncOut, ShrOut 29 10, IncIn, LoadDelta, AndIn mask,
     OrShl 10, Store, IncOut, ShrOut 29 7, IncIn, LoadDelta, AndIn mask, OrShl 7, Store, IncOut,
     ShrOut 29 4, IncIn, LoadDelta, AndIn mask, OrShl 4, Store, IncOut, ShrOut 29 1, IncIn,
     LoadDelta, AndIn mask, OrShl 1, IncIn, LoadDelta, AndIn mask, OrShl 30, Store, IncOut, ShrOut
     29 27, IncIn, LoadDelta, AndIn mask, OrShl 27, Store, IncOut, ShrOut 29 24, IncIn, LoadDelta,
     AndIn mask, OrShl 24, Store, IncOut, ShrOut 29 21, IncIn, LoadDelta, AndIn mask, OrShl 21,
     Store, IncOut, ShrOut 29 18, IncIn, LoadDelta, AndIn mask, OrShl 18, Store, IncOut, ShrOut 29
     15, IncIn, LoadDelta, AndIn mask, OrShl 15, Store, IncOut, ShrOut 29 12, IncIn, LoadDelta,
     AndIn mask, OrShl 12, Store, IncOut, ShrOut 29 9, IncIn, LoadDelta, AndIn mask, OrShl 9,
     Store, IncOut, ShrOut 29 6, IncIn, LoadDelta, AndIn mask, OrShl 6, Store, IncOut, ShrOut 29 3,
     IncIn, LoadDelta, AndIn mask, OrShl 3, Store])"

definition ipack30 :: "m128 \<Rightarrow> m128 list \<Rightarrow> m128 list option" where
  "ipack30 = run_pack (let mask = mm_set1_epi32 1073741823 in
    [LoadDelta, AndIn mask, MovOut, IncIn, LoadDelta, AndIn mask, OrShl 30, Store, IncOut, ShrOut
     30 28, IncIn, LoadDelta, AndIn mask, OrShl 28, Store, IncOut, ShrOut 30 26, IncIn, LoadDelta,
     AndIn mask, OrShl 26, Store, IncOut, ShrOut 30 24, IncIn, LoadDelta, AndIn mask, OrShl 24,
     Store, IncOut, ShrOut 30 22, IncIn, LoadDelta, AndIn mask, OrShl 22, Store, IncOut, ShrOut 30
     20, IncIn, LoadDelta, AndIn mask, OrShl 20, Store, IncOut, ShrOut 30 18, IncIn, LoadDelta,
     AndIn mask, OrShl 18, Store, IncOut, ShrOut 30 16, IncIn, LoadDelta, AndIn mask, OrShl 16,
     Store, IncOut, ShrOut 30 14, IncIn, LoadDelta, AndIn mask, OrShl 14, Store, IncOut, ShrOut 30
     12, IncIn, LoadDelta, AndIn mask, OrShl 12, Store, IncOut, ShrOut 30 10, IncIn, LoadDelta,
     AndIn mask, OrShl 10, Store, IncOut, ShrOut 30 8, IncIn, LoadDelta, AndIn mask, OrShl 8,
     Store, IncOut, ShrOut 30 6, IncIn, LoadDelta, AndIn mask, OrShl 6, Store, IncOut, ShrOut 30 4,
     IncIn, LoadDelta, AndIn mask, OrShl 4, Store, IncOut, ShrOut 30 2, IncIn, LoadDelta, AndIn
     mask, OrShl 2, Store, IncOut, IncIn, LoadDelta, AndIn mask, MovOut, IncIn, LoadDelta, AndIn
     mask, OrShl 30, Store, IncOut, ShrOut 30 28, IncIn, LoadDelta, AndIn mask, OrShl 28, Store,
     IncOut, ShrOut 30 26, IncIn, LoadDelta, AndIn mask, OrShl 26, Store, IncOut, ShrOut 30 24,
     IncIn, LoadDelta, AndIn mask, OrShl 24, Store, IncOut, ShrOut 30 22, IncIn, LoadDelta, AndIn
     mask, OrShl 22, Store, IncOut, ShrOut 30 20, IncIn, LoadDelta, AndIn mask, OrShl 20, Store,
     IncOut, ShrOut 30 18, IncIn, LoadDelta, AndIn mask, OrShl 18, Store, IncOut, ShrOut 30 16,
     IncIn, LoadDelta, AndIn mask, OrShl 16, Store, IncOut, ShrOut 30 14, IncIn, LoadDelta, AndIn
     mask, OrShl 14, Store, IncOut, ShrOut 30 12, IncIn, LoadDelta, AndIn mask, OrShl 12, Store,
     IncOut, ShrOut 30 10, IncIn, LoadDelta, AndIn mask, OrShl 10, Store, IncOut, ShrOut 30 8,
     IncIn, LoadDelta, AndIn mask, OrShl 8, Store, IncOut, ShrOut 30 6, IncIn, LoadDelta, AndIn
     mask, OrShl 6, Store, IncOut, ShrOut 30 4, IncIn, LoadDelta, AndIn mask, OrShl 4, Store,
     IncOut, ShrOut 30 2, IncIn, LoadDelta, AndIn mask, OrShl 2, Store])"

definition ipack31 :: "m128 \<Rightarrow> m128 list \<Rightarrow> m128 list option" where
  "ipack31 = run_pack (let mask = mm_set1_epi32 2147483647 in
    [LoadDelta, AndIn mask, MovOut, IncIn, LoadDelta, AndIn mask, OrShl 31, Store, IncOut, ShrOut
     31 30, IncIn, LoadDelta, AndIn mask, OrShl 30, Store, IncOut, ShrOut 31 29, IncIn, LoadDelta,
     AndIn mask, OrShl 29, Store, IncOut, ShrOut 31 28, IncIn, LoadDelta, AndIn mask, OrShl 28,
     Store, IncOut, ShrOut 31 27, IncIn, LoadDelta, AndIn mask, OrShl 27, Store, IncOut, ShrOut 31
     26, IncIn, LoadDelta, AndIn mask, OrShl 26, Store, IncOut, ShrOut 31 25, IncIn, LoadDelta,
     AndIn mask, OrShl 25, Store, IncOut, ShrOut 31 24, IncIn, LoadDelta, AndIn mask, OrShl 24,
     Store, IncOut, ShrOut 31 23, IncIn, LoadDelta, AndIn mask, OrShl 23, Store, IncOut, ShrOut 31
     22, IncIn, LoadDelta, AndIn mask, OrShl 22, Store, IncOut, ShrOut 31 21, IncIn, LoadDelta,
     AndIn mask, OrShl 21, Store, IncOut, ShrOut 31 20, IncIn, LoadDelta, AndIn mask, OrShl 20,
     Store, IncOut, ShrOut 31 19, IncIn, LoadDelta, AndIn mask, OrShl 19, Store, IncOut, ShrOut 31
     18, IncIn, LoadDelta, AndIn mask, OrShl 18, Store, IncOut, ShrOut 31 17, IncIn, LoadDelta,
     AndIn mask, OrShl 17, Store, IncOut, ShrOut 31 16, IncIn, LoadDelta, AndIn mask, OrShl 16,
     Store, IncOut, ShrOut 31 15, IncIn, LoadDelta, AndIn mask, OrShl 15, Store, IncOut, ShrOut 31
     14, IncIn, LoadDelta, AndIn mask, OrShl 14, Store, IncOut, ShrOut 31 13, IncIn, LoadDelta,
     AndIn mask, OrShl 13, Store, IncOut, ShrOut 31 12, IncIn, LoadDelta, AndIn mask, OrShl 12,
     Store, IncOut, ShrOut 31 11, IncIn, LoadDelta, AndIn mask, OrShl 11, Store, IncOut, ShrOut 31
     10, IncIn, LoadDelta, AndIn mask, OrShl 10, Store, IncOut, ShrOut 31 9, IncIn, LoadDelta,
     AndIn mask, OrShl 9, Store, IncOut, ShrOut 31 8, IncIn, LoadDelta, AndIn mask, OrShl 8, Store,
     IncOut, ShrOut 31 7, IncIn, LoadDelta, AndIn mask, OrShl 7, Store, IncOut, ShrOut 31 6, IncIn,
     LoadDelta, AndIn mask, OrShl 6, Store, IncOut, ShrOut 31 5, IncIn, LoadDelta, AndIn mask,
     OrShl 5, Store, IncOut, ShrOut 31 4, IncIn, LoadDelta, AndIn mask, OrShl 4, Store, IncOut,
     ShrOut 31 3, IncIn, LoadDelta, AndIn mask, OrShl 3, Store, IncOut, ShrOut 31 2, IncIn,
     LoadDelta, AndIn mask, OrShl 2, Store, IncOut, ShrOut 31 1, IncIn, LoadDelta, AndIn mask,
     OrShl 1, Store])"

definition ipack32 :: "m128 \<Rightarrow> m128 list \<Rightarrow> m128 list option" where
  "ipack32 = run_pack
    [LoadIn, MovOut, Store, IncOut, IncIn, LoadIn, MovOut, Store, IncOut, IncIn, LoadIn, MovOut,
     Store, IncOut, IncIn, LoadIn, MovOut, Store, IncOut, IncIn, LoadIn, MovOut, Store, IncOut,
     IncIn, LoadIn, MovOut, Store, IncOut, IncIn, LoadIn, MovOut, Store, IncOut, IncIn, LoadIn,
     MovOut, Store, IncOut, IncIn, LoadIn, MovOut, Store, IncOut, IncIn, LoadIn, MovOut, Store,
     IncOut, IncIn, LoadIn, MovOut, Store, IncOut, IncIn, LoadIn, MovOut, Store, IncOut, IncIn,
     LoadIn, MovOut, Store, IncOut, IncIn, LoadIn, MovOut, Store, IncOut, IncIn, LoadIn, MovOut,
     Store, IncOut, IncIn, LoadIn, MovOut, Store, IncOut, IncIn, LoadIn, MovOut, Store, IncOut,
     IncIn, LoadIn, MovOut, Store, IncOut, IncIn, LoadIn, MovOut, Store, IncOut, IncIn, LoadIn,
     MovOut, Store, IncOut, IncIn, LoadIn, MovOut, Store, IncOut, IncIn, LoadIn, MovOut, Store,
     IncOut, IncIn, LoadIn, MovOut, Store, IncOut, IncIn, LoadIn, MovOut, Store, IncOut, IncIn,
     LoadIn, MovOut, Store, IncOut, IncIn, LoadIn, MovOut, Store, IncOut, IncIn, LoadIn, MovOut,
     Store, IncOut, IncIn, LoadIn, MovOut, Store, IncOut, IncIn, LoadIn, MovOut, Store, IncOut,
     IncIn, LoadIn, MovOut, Store, IncOut, IncIn, LoadIn, MovOut, Store, IncOut, IncIn, LoadIn,
     MovOut, Store]"

section \<open>The dispatcher\<close>

definition simdpackd1 :: "u32 \<Rightarrow> m128 list \<Rightarrow> u32 \<Rightarrow> m128 list option" where
  "simdpackd1 initvalue inp b =
     (let initOffset = mm_set1_epi32 initvalue in
      if b = 0 then Some []
      else if b = 1 then ipack1 initOffset inp
      else if b = 2 then ipack2 initOffset inp
      else if b = 3 then ipack3 initOffset inp
      else if b = 4 then ipack4 initOffset inp
      else if b = 5 then ipack5 initOffset inp
      else if b = 6 then ipack6 initOffset inp
      else if b = 7 then ipack7 initOffset inp
      else if b = 8 then ipack8 initOffset inp
      else if b = 9 then ipack9 initOffset inp
      else if b = 10 then ipack10 initOffset inp
      else if b = 11 then ipack11 initOffset inp
      else if b = 12 then ipack12 initOffset inp
      else if b = 13 then ipack13 initOffset inp
      else if b = 14 then ipack14 initOffset inp
      else if b = 15 then ipack15 initOffset inp
      else if b = 16 then ipack16 initOffset inp
      else if b = 17 then ipack17 initOffset inp
      else if b = 18 then ipack18 initOffset inp
      else if b = 19 then ipack19 initOffset inp
      else if b = 20 then ipack20 initOffset inp
      else if b = 21 then ipack21 initOffset inp
      else if b = 22 then ipack22 initOffset inp
      else if b = 23 then ipack23 initOffset inp
      else if b = 24 then ipack24 initOffset inp
      else if b = 25 then ipack25 initOffset inp
      else if b = 26 then ipack26 initOffset inp
      else if b = 27 then ipack27 initOffset inp
      else if b = 28 then ipack28 initOffset inp
      else if b = 29 then ipack29 initOffset inp
      else if b = 30 then ipack30 initOffset inp
      else if b = 31 then ipack31 initOffset inp
      else if b = 32 then ipack32 initOffset inp
      else Some [])"

section \<open>Each function is the schedule of its width\<close>

lemmas masked_unfold = schedule_unfold mask_unfold

lemma ipack1_schedule: "ipack1 = run_pack (pack_schedule [LoadDelta, AndIn (mask_of 1)] 1)"
  by (simp add: ipack1_def masked_unfold)

lemma ipack2_schedule: "ipack2 = run_pack (pack_schedule [LoadDelta, AndIn (mask_of 2)] 2)"
  by (simp add: ipack2_def masked_unfold)

lemma ipack3_schedule: "ipack3 = run_pack (pack_schedule [LoadDelta, AndIn (mask_of 3)] 3)"
  by (simp add: ipack3_def masked_unfold)

lemma ipack4_schedule: "ipack4 = run_pack (pack_schedule [LoadDelta, AndIn (mask_of 4)] 4)"
  by (simp add: ipack4_def masked_unfold)

lemma ipack5_schedule: "ipack5 = run_pack (pack_schedule [LoadDelta, AndIn (mask_of 5)] 5)"
  by (simp add: ipack5_def masked_unfold)

lemma ipack6_schedule: "ipack6 = run_pack (pack_schedule [LoadDelta, AndIn (mask_of 6)] 6)"
  by (simp add: ipack6_def masked_unfold)

lemma ipack7_schedule: "ipack7 = run_pack (pack_schedule [LoadDelta, AndIn (mask_of 7)] 7)"
  by (simp add: ipack7_def masked_unfold)

lemma ipack8_schedule: "ipack8 = run_pack (pack_schedule [LoadDelta, AndIn (mask_of 8)] 8)"
  by (simp add: ipack8_def masked_unfold)

lemma ipack9_schedule: "ipack9 = run_pack (pack_schedule [LoadDelta, AndIn (mask_of 9)] 9)"
  by (simp add: ipack9_def masked_unfold)

lemma ipack10_schedule: "ipack10 = run_pack (pack_schedule [LoadDelta, AndIn (mask_of 10)] 10)"
  by (simp add: ipack10_def masked_unfold)

lemma ipack11_schedule: "ipack11 = run_pack (pack_schedule [LoadDelta, AndIn (mask_of 11)] 11)"
  by (simp add: ipack11_def masked_unfold)

lemma ipack12_schedule: "ipack12 = run_pack (pack_schedule [LoadDelta, AndIn (mask_of 12)] 12)"
  by (simp add: ipack12_def masked_unfold)

lemma ipack13_schedule: "ipack13 = run_pack (pack_schedule [LoadDelta, AndIn (mask_of 13)] 13)"
  by (simp add: ipack13_def masked_unfold)

lemma ipack14_schedule: "ipack14 = run_pack (pack_schedule [LoadDelta, AndIn (mask_of 14)] 14)"
  by (simp add: ipack14_def masked_unfold)

lemma ipack15_schedule: "ipack15 = run_pack (pack_schedule [LoadDelta, AndIn (mask_of 15)] 15)"
  by (simp add: ipack15_def masked_unfold)

lemma ipack16_schedule: "ipack16 = run_pack (pack_schedule [LoadDelta, AndIn (mask_of 16)] 16)"
  by (simp add: ipack16_def masked_unfold)

lemma ipack17_schedule: "ipack17 = run_pack (pack_schedule [LoadDelta, AndIn (mask_of 17)] 17)"
  by (simp add: ipack17_def masked_unfold)

lemma ipack18_schedule: "ipack18 = run_pack (pack_schedule [LoadDelta, AndIn (mask_of 18)] 18)"
  by (simp add: ipack18_def masked_unfold)

lemma ipack19_schedule: "ipack19 = run_pack (pack_schedule [LoadDelta, AndIn (mask_of 19)] 19)"
  by (simp add: ipack19_def masked_unfold)

lemma ipack20_schedule: "ipack20 = run_pack (pack_schedule [LoadDelta, AndIn (mask_of 20)] 20)"
  by (simp add: ipack20_def masked_unfold)

lemma ipack21_schedule: "ipack21 = run_pack (pack_schedule [LoadDelta, AndIn (mask_of 21)] 21)"
  by (simp add: ipack21_def masked_unfold)

lemma ipack22_schedule: "ipack22 = run_pack (pack_schedule [LoadDelta, AndIn (mask_of 22)] 22)"
  by (simp add: ipack22_def masked_unfold)

lemma ipack23_schedule: "ipack23 = run_pack (pack_schedule [LoadDelta, AndIn (mask_of 23)] 23)"
  by (simp add: ipack23_def masked_unfold)

lemma ipack24_schedule: "ipack24 = run_pack (pack_schedule [LoadDelta, AndIn (mask_of 24)] 24)"
  by (simp add: ipack24_def masked_unfold)

lemma ipack25_schedule: "ipack25 = run_pack (pack_schedule [LoadDelta, AndIn (mask_of 25)] 25)"
  by (simp add: ipack25_def masked_unfold)

lemma ipack26_schedule: "ipack26 = run_pack (pack_schedule [LoadDelta, AndIn (mask_of 26)] 26)"
  by (simp add: ipack26_def masked_unfold)

lemma ipack27_schedule: "ipack27 = run_pack (pack_schedule [LoadDelta, AndIn (mask_of 27)] 27)"
  by (simp add: ipack27_def masked_unfold)

lemma ipack28_schedule: "ipack28 = run_pack (pack_schedule [LoadDelta, AndIn (mask_of 28)] 28)"
  by (simp add: ipack28_def masked_unfold)

lemma ipack29_schedule: "ipack29 = run_pack (pack_schedule [LoadDelta, AndIn (mask_of 29)] 29)"
  by (simp add: ipack29_def masked_unfold)

lemma ipack30_schedule: "ipack30 = run_pack (pack_schedule [LoadDelta, AndIn (mask_of 30)] 30)"
  by (simp add: ipack30_def masked_unfold)

lemma ipack31_schedule: "ipack31 = run_pack (pack_schedule [LoadDelta, AndIn (mask_of 31)] 31)"
  by (simp add: ipack31_def masked_unfold)

lemma ipack32_schedule: "ipack32 = run_pack (concat (map copy_value [0..<32]))"
  by (simp add: ipack32_def copy_value_def upt_32)

lemmas masked_schedules =
  ipack1_schedule ipack2_schedule ipack3_schedule ipack4_schedule ipack5_schedule ipack6_schedule
  ipack7_schedule ipack8_schedule ipack9_schedule ipack10_schedule ipack11_schedule ipack12_schedule
  ipack13_schedule ipack14_schedule ipack15_schedule ipack16_schedule ipack17_schedule ipack18_schedule
  ipack19_schedule ipack20_schedule ipack21_schedule ipack22_schedule ipack23_schedule ipack24_schedule
  ipack25_schedule ipack26_schedule ipack27_schedule ipack28_schedule ipack29_schedule ipack30_schedule
  ipack31_schedule

lemma simdpackd1_schedule:
  assumes "0 < b" and "b < 32"
  shows "simdpackd1 v inp (of_nat b)
    = run_pack (pack_schedule [LoadDelta, AndIn (mask_of b)] b) (mm_set1_epi32 v) inp"
  using width_cases[OF assms]
  by (elim insertE emptyE) (simp_all add: simdpackd1_def masked_schedules)

section \<open>The masked differences\<close>

interpretation delta_mask: packer "[LoadDelta, AndIn m]"
  "\<lambda>off inp. map (\<lambda>r. mm_and_si128 r m) (delta_regs off inp)" prev_reg for m
  by unfold_locales (auto simp: prev_reg_def nth_delta_regs)

lemma ipack32_eq: "ipack32 = ipackwithoutmask32"
  by (simp add: ipack32_schedule ipackwithoutmask32_schedule)

lemma simdpackd1_packs:
  assumes "32 \<le> length inp" and "0 < b" and "b < 32"
  shows "\<exists>out. simdpackd1 v inp (of_nat b) = Some out \<and> length out = b
    \<and> packed_block b (map (\<lambda>r. mm_and_si128 r (mask_of b)) (delta_regs (mm_set1_epi32 v) inp)) out"
  using delta_mask.run_pack_schedule[of inp b] assms simdpackd1_schedule[OF assms(2,3)]
  by (simp add: fits_masked)

text \<open>Where the differences fit the width, masking them changes nothing.\<close>

lemma simdpackd1_unmasked:
  assumes len: "length inp = 32" and b: "b \<le> 32"
    and f: "b < 32 \<longrightarrow> (\<forall>i<32. fits b (delta_regs (mm_set1_epi32 v) inp ! i))"
  shows "simdpackd1 v inp (of_nat b) = simdpackwithoutmaskd1 v inp (of_nat b)"
proof -
  let ?ds = "delta_regs (mm_set1_epi32 v) inp"
  consider "b = 0" | "0 < b" "b < 32" | "b = 32" using b by linarith
  then show ?thesis
  proof cases
    case 2
    with f have f': "\<forall>i<32. fits b (?ds ! i)" by simp
    with len 2(2) have same: "map (\<lambda>r. mm_and_si128 r (mask_of b)) ?ds = ?ds"
      by (intro nth_equalityI) (simp_all add: masked_fits)
    from simdpackd1_packs[of inp b v] len 2 obtain xs where
      "simdpackd1 v inp (of_nat b) = Some xs" "length xs = b" "packed_block b ?ds xs"
      by (auto simp: same)
    moreover from simdpackwithoutmaskd1_packs[OF len 2 f'] obtain ys where
      "simdpackwithoutmaskd1 v inp (of_nat b) = Some ys" "length ys = b" "packed_block b ?ds ys" by auto
    ultimately show ?thesis using packed_block_unique by metis
  qed (simp_all add: simdpackd1_def simdpackwithoutmaskd1_def ipack32_eq)
qed

end
