(* ===== verification/LRUCache.thy ===== *)
theory LRUCache
  imports Prelude
begin

text \<open>
  The cache of \<open>src/src/LRUCache.hpp\<close>: a hash table into a pool of nodes that are linked, most
  recently used first, between the two sentinels \<open>head\<close> and \<open>tail\<close>.  The links are modelled as
  the code has them, as pointers in a memory of nodes; the refinement at the end shows that the
  cache is a list of entries in the order of their use.
\<close>

section \<open>Nodes\<close>

text \<open>The \<open>i\<close>-th element of the array \<open>entries\<close> is \<open>EntryPtr i\<close>.\<close>

datatype lru_ptr = NullPtr | HeadPtr | TailPtr | EntryPtr nat

text \<open>\<open>LRUCacheEntry\<close>, with the two fields of the \<open>ValueWrapper\<close> in it.\<close>

record ('k, 'v) lru_node =
  node_key :: 'k
  node_value :: 'v
  node_dirty :: bool
  node_prev :: lru_ptr
  node_next :: lru_ptr

record ('k, 'v) lru_cache =
  lru_mapping :: "'k \<rightharpoonup> lru_ptr"
  freeEntries :: "lru_ptr list"
  lru_nodes :: "lru_ptr \<Rightarrow> ('k, 'v) lru_node"

text \<open>
  The constructor: \<open>n\<close> free entries, and the two sentinels linked to each other.  The keys and
  values of the new nodes, and the links of the entries, are what the allocation left there.  The loop of
  the code over the entries has an \<open>int\<close> index, so its caches have fewer than \<open>2 ^ 31\<close> entries.
\<close>

definition new_lru :: "nat \<Rightarrow> (lru_ptr \<Rightarrow> ('k, 'v) lru_node) \<Rightarrow> ('k, 'v) lru_cache" where
  "new_lru n junk =
     \<lparr>lru_mapping = (\<lambda>_. None), freeEntries = map EntryPtr [0..<n],
      lru_nodes = junk(HeadPtr := (junk HeadPtr)\<lparr>node_prev := NullPtr, node_next := TailPtr\<rparr>,
                       TailPtr := (junk TailPtr)\<lparr>node_prev := HeadPtr, node_next := NullPtr\<rparr>)\<rparr>"

section \<open>Operations\<close>

definition get_node :: "lru_ptr \<Rightarrow> ('k, 'v) lru_cache \<Rightarrow> ('k, 'v) lru_node res" where
  "get_node p c = (if p = NullPtr then Inl NullPointer else Inr (lru_nodes c p))"

definition set_node ::
    "lru_ptr \<Rightarrow> (('k, 'v) lru_node \<Rightarrow> ('k, 'v) lru_node) \<Rightarrow> ('k, 'v) lru_cache \<Rightarrow> ('k, 'v) lru_cache res" where
  "set_node p f c =
     (if p = NullPtr then Inl NullPointer
      else Inr (c\<lparr>lru_nodes := (lru_nodes c)(p := f (lru_nodes c p))\<rparr>))"

definition detach :: "lru_ptr \<Rightarrow> ('k, 'v) lru_cache \<Rightarrow> ('k, 'v) lru_cache res" where
  "detach p c =
     rbind (get_node p c) (\<lambda>n.
     rbind (set_node (node_prev n) (\<lambda>m. m\<lparr>node_next := node_next n\<rparr>) c) (\<lambda>c1.
     rbind (get_node p c1) (\<lambda>n1.
     set_node (node_next n1) (\<lambda>m. m\<lparr>node_prev := node_prev n1\<rparr>) c1)))"

definition attach :: "lru_ptr \<Rightarrow> ('k, 'v) lru_cache \<Rightarrow> ('k, 'v) lru_cache res" where
  "attach p c =
     rbind (get_node HeadPtr c) (\<lambda>h.
     rbind (set_node p (\<lambda>n. n\<lparr>node_next := node_next h\<rparr>) c) (\<lambda>c1.
     rbind (set_node p (\<lambda>n. n\<lparr>node_prev := HeadPtr\<rparr>) c1) (\<lambda>c2.
     rbind (set_node HeadPtr (\<lambda>n. n\<lparr>node_next := p\<rparr>) c2) (\<lambda>c3.
     rbind (get_node p c3) (\<lambda>n3.
     set_node (node_next n3) (\<lambda>m. m\<lparr>node_prev := p\<rparr>) c3)))))"

text \<open>\<open>_mapping[key]\<close>: an absent key is inserted, with a null pointer.\<close>

definition lru_slot :: "'k \<Rightarrow> ('k, 'v) lru_cache \<Rightarrow> lru_ptr \<times> ('k, 'v) lru_cache" where
  "lru_slot key c =
     (case lru_mapping c key of
        Some p \<Rightarrow> (p, c)
      | None \<Rightarrow> (NullPtr, c\<lparr>lru_mapping := (lru_mapping c)(key \<mapsto> NullPtr)\<rparr>))"

definition lru_fill :: "lru_ptr \<Rightarrow> 'k \<Rightarrow> 'v \<Rightarrow> bool \<Rightarrow> ('k, 'v) lru_cache \<Rightarrow> ('k, 'v) lru_cache res" where
  "lru_fill p key data asDirty c =
     rbind (set_node p (\<lambda>n. n\<lparr>node_key := key, node_value := data, node_dirty := asDirty\<rparr>) c) (\<lambda>c1.
     attach p (c1\<lparr>lru_mapping := (lru_mapping c1)(key \<mapsto> p)\<rparr>))"

text \<open>
  \<open>putOld\<close>, for a key that has no node: the last entry makes room when none is free.  The callback
  object of the cache is the function \<open>cb\<close> with its state \<open>s\<close>.
\<close>

definition lru_putOld ::
    "('k \<Rightarrow> 'v \<Rightarrow> 's \<Rightarrow> 's res) \<Rightarrow> 'k \<Rightarrow> 'v \<Rightarrow> bool \<Rightarrow> ('k, 'v) lru_cache \<Rightarrow> 's \<Rightarrow> (('k, 'v) lru_cache \<times> 's) res" where
  "lru_putOld cb key data asDirty c s =
     (if freeEntries c = [] then
        rbind (get_node TailPtr c) (\<lambda>t.
        let p = node_prev t in
        rbind (detach p c) (\<lambda>c1.
        rbind (get_node p c1) (\<lambda>n.
        let c2 = c1\<lparr>lru_mapping := (lru_mapping c1)(node_key n := None)\<rparr> in
        rbind (if node_dirty n then cb (node_key n) (node_value n) s else Inr s) (\<lambda>s1.
        rbind (lru_fill p key data asDirty c2) (\<lambda>c3. Inr (c3, s1))))))
      else
        rbind (lru_fill (last (freeEntries c)) key data asDirty
                 (c\<lparr>freeEntries := butlast (freeEntries c)\<rparr>)) (\<lambda>c1. Inr (c1, s)))"

definition lru_put ::
    "('k \<Rightarrow> 'v \<Rightarrow> 's \<Rightarrow> 's res) \<Rightarrow> 'k \<Rightarrow> 'v \<Rightarrow> bool \<Rightarrow> ('k, 'v) lru_cache \<Rightarrow> 's \<Rightarrow> (('k, 'v) lru_cache \<times> 's) res" where
  "lru_put cb key data asDirty c s =
     (let (p, c1) = lru_slot key c in
      if p \<noteq> NullPtr then
        rbind (detach p c1) (\<lambda>c2.
        rbind (set_node p (\<lambda>n. n\<lparr>node_value := data, node_dirty := asDirty\<rparr>) c2) (\<lambda>c3.
        rbind (attach p c3) (\<lambda>c4. Inr (c4, s))))
      else lru_putOld cb key data asDirty c1 s)"

definition lru_get :: "'k \<Rightarrow> ('k, 'v) lru_cache \<Rightarrow> ('v option \<times> ('k, 'v) lru_cache) res" where
  "lru_get key c =
     (let (p, c1) = lru_slot key c in
      if p \<noteq> NullPtr then
        rbind (detach p c1) (\<lambda>c2.
        rbind (attach p c2) (\<lambda>c3.
        rbind (get_node p c3) (\<lambda>n. Inr (Some (node_value n), c3))))
      else Inr (None, c1))"

text \<open>
  The loop of \<open>evictAll\<close>, from the last entry to the head.  Nothing in the types keeps the links
  from running in circles, so that the loop has fuel; a cache has one round for every node.
\<close>

fun evict_loop ::
    "('k \<Rightarrow> 'v \<Rightarrow> 's \<Rightarrow> 's res) \<Rightarrow> nat \<Rightarrow> lru_ptr \<Rightarrow> ('k, 'v) lru_cache \<Rightarrow> 's \<Rightarrow> 's res" where
  "evict_loop cb 0 p c s = Inl OutOfFuel"
| "evict_loop cb (Suc n) p c s =
     (if p = HeadPtr then Inr s
      else rbind (get_node p c) (\<lambda>nd.
           rbind (if node_dirty nd then cb (node_key nd) (node_value nd) s else Inr s) (\<lambda>s1.
           evict_loop cb n (node_prev nd) c s1)))"

definition lru_evictAll ::
    "('k \<Rightarrow> 'v \<Rightarrow> 's \<Rightarrow> 's res) \<Rightarrow> nat \<Rightarrow> ('k, 'v) lru_cache \<Rightarrow> 's \<Rightarrow> 's res" where
  "lru_evictAll cb fuel c s = rbind (get_node TailPtr c) (\<lambda>t. evict_loop cb fuel (node_prev t) c s)"

section \<open>The links\<close>

definition linked :: "(lru_ptr \<Rightarrow> ('k, 'v) lru_node) \<Rightarrow> lru_ptr \<Rightarrow> lru_ptr \<Rightarrow> bool" where
  "linked h p q \<longleftrightarrow> node_next (h p) = q \<and> node_prev (h q) = p"

text \<open>The nodes \<open>ps\<close> lie between \<open>p\<close> and \<open>q\<close>, linked both ways.\<close>

fun chain :: "(lru_ptr \<Rightarrow> ('k, 'v) lru_node) \<Rightarrow> lru_ptr \<Rightarrow> lru_ptr list \<Rightarrow> lru_ptr \<Rightarrow> bool" where
  "chain h p [] q = linked h p q"
| "chain h p (x # xs) q = (linked h p x \<and> chain h x xs q)"

definition entry_of :: "(lru_ptr \<Rightarrow> ('k, 'v) lru_node) \<Rightarrow> lru_ptr \<Rightarrow> 'k \<times> 'v \<times> bool" where
  "entry_of h p = (node_key (h p), node_value (h p), node_dirty (h p))"

lemma chain_append: "chain h p (xs @ x # ys) q \<longleftrightarrow> chain h p xs x \<and> chain h x ys q"
  by (induction xs arbitrary: p) auto

lemma chain_ends: "chain h p xs q \<Longrightarrow> node_next (h p) = hd (xs @ [q]) \<and> node_prev (h q) = last (p # xs)"
  by (induction xs arbitrary: p) (auto simp: linked_def)

text \<open>A chain may be led to another end, and is not touched by other links.\<close>

lemma chain_relink:
  assumes "chain h p xs x" and "distinct (p # xs)" and "a = last (p # xs)" and "linked h' a b"
    and "\<forall>y\<in>set (p # xs) - {a}. node_next (h' y) = node_next (h y)"
    and "\<forall>y\<in>set xs. node_prev (h' y) = node_prev (h y)"
  shows "chain h' p xs b"
  using assms
proof (induction xs arbitrary: p)
  case (Cons y xs)
  then have "p \<noteq> a" by (auto split: if_splits)
  with Cons have "linked h' p y" by (simp add: linked_def)
  moreover have "chain h' y xs b" using Cons.prems by (intro Cons.IH) auto
  ultimately show ?case by simp
qed simp

lemma chain_cong:
  assumes "chain h p xs q" and "\<forall>y\<in>set (p # xs). node_next (h' y) = node_next (h y)"
    and "\<forall>y\<in>set (xs @ [q]). node_prev (h' y) = node_prev (h y)"
  shows "chain h' p xs q"
  using assms by (induction xs arbitrary: p) (auto simp: linked_def)

text \<open>\<open>detach\<close> takes a node out of the chain and \<open>attach\<close> puts it in front.\<close>

lemma detach_chain:
  assumes ch: "chain (lru_nodes c) p (xs @ x # ys) q" and d: "distinct (p # xs @ x # ys @ [q])"
    and null: "NullPtr \<notin> set (p # xs @ x # ys @ [q])"
  shows "\<exists>h'. detach x c = Inr (c\<lparr>lru_nodes := h'\<rparr>) \<and> chain h' p (xs @ ys) q
    \<and> entry_of h' = entry_of (lru_nodes c)"
proof -
  let ?h = "lru_nodes c"
  define a where "a = last (p # xs)"
  define b where "b = hd (ys @ [q])"
  have ends: "node_prev (?h x) = a" "node_next (?h x) = b"
    using ch chain_ends[of ?h p xs x] chain_ends[of ?h x ys q] by (simp_all add: chain_append a_def b_def)
  have in_a: "a \<in> set (p # xs)" unfolding a_def by (rule last_in_set) simp
  have in_b: "b \<in> set (ys @ [q])" unfolding b_def by (rule hd_in_set) simp
  have ne: "a \<noteq> x" "b \<noteq> x" "a \<noteq> b" "a \<noteq> NullPtr" "b \<noteq> NullPtr" "x \<noteq> NullPtr"
    using in_a in_b d null by auto
  define h' where "h' = ?h(a := (?h a)\<lparr>node_next := b\<rparr>, b := (?h b)\<lparr>node_prev := a\<rparr>)"
  have "detach x c = Inr (c\<lparr>lru_nodes := h'\<rparr>)"
    using ne by (simp add: detach_def get_node_def set_node_def ends h'_def)
  moreover have "entry_of h' = entry_of ?h" by (auto simp: fun_eq_iff entry_of_def h'_def)
  moreover have front: "chain h' p xs b"
  proof (rule chain_relink)
    show "chain ?h p xs x" using ch by (simp add: chain_append)
    show "\<forall>y\<in>set (p # xs) - {a}. node_next (h' y) = node_next (?h y)" by (auto simp: h'_def)
    show "\<forall>y\<in>set xs. node_prev (h' y) = node_prev (?h y)" using in_b d by (auto simp: h'_def)
  qed (use d ne in \<open>auto simp: a_def linked_def h'_def\<close>)
  have "chain h' p (xs @ ys) q"
  proof (cases ys)
    case Nil
    with front show ?thesis by (simp add: b_def)
  next
    case (Cons y ys')
    have "chain h' b ys' q"
    proof (rule chain_cong[of ?h])
      show "chain ?h b ys' q" using ch Cons by (simp add: chain_append b_def)
    qed (use d ne in_a Cons in \<open>auto simp: b_def h'_def\<close>)
    with front Cons show ?thesis by (simp add: chain_append b_def)
  qed
  ultimately show ?thesis by blast
qed

lemma attach_chain:
  assumes ch: "chain (lru_nodes c) HeadPtr xs q" and d: "distinct (HeadPtr # x # xs @ [q])"
    and null: "NullPtr \<notin> set (HeadPtr # x # xs @ [q])"
  shows "\<exists>h'. attach x c = Inr (c\<lparr>lru_nodes := h'\<rparr>) \<and> chain h' HeadPtr (x # xs) q
    \<and> entry_of h' = entry_of (lru_nodes c)"
proof -
  let ?h = "lru_nodes c"
  define b where "b = hd (xs @ [q])"
  have ends: "node_next (?h HeadPtr) = b" using chain_ends[OF ch] by (simp add: b_def)
  have in_b: "b \<in> set (xs @ [q])" unfolding b_def by (rule hd_in_set) simp
  have ne: "b \<noteq> x" "b \<noteq> HeadPtr" "x \<noteq> HeadPtr" "b \<noteq> NullPtr" "x \<noteq> NullPtr"
    using in_b d null by auto
  define h' where "h' = ?h(x := (?h x)\<lparr>node_next := b, node_prev := HeadPtr\<rparr>,
    HeadPtr := (?h HeadPtr)\<lparr>node_next := x\<rparr>, b := (?h b)\<lparr>node_prev := x\<rparr>)"
  have "attach x c = Inr (c\<lparr>lru_nodes := h'\<rparr>)"
    using ne by (simp add: attach_def get_node_def set_node_def ends h'_def fun_upd_twist)
  moreover have "entry_of h' = entry_of ?h" by (auto simp: fun_eq_iff entry_of_def h'_def)
  moreover have "linked h' HeadPtr x" "linked h' x b" using ne by (simp_all add: linked_def h'_def)
  moreover have "chain h' b (tl xs) q" if "xs \<noteq> []"
  proof (rule chain_cong)
    show "chain ?h b (tl xs) q" using ch that by (cases xs) (simp_all add: b_def)
    show "\<forall>y\<in>set (b # tl xs). node_next (h' y) = node_next (?h y)"
      using that d by (cases xs) (auto simp: h'_def b_def)
    show "\<forall>y\<in>set (tl xs @ [q]). node_prev (h' y) = node_prev (?h y)"
      using that d by (cases xs) (auto simp: h'_def b_def)
  qed
  ultimately show ?thesis by (cases xs) (auto simp: b_def)
qed

section \<open>The cache as a list of entries\<close>

text \<open>
  The specification: a list of at most \<open>n\<close> entries, with different keys, most recently used first.
  The entry that makes room is the last one, and it is given to the callback if it is dirty.
\<close>

type_synonym ('k, 'v) lru_entries = "('k \<times> 'v \<times> bool) list"

definition drop_key :: "'k \<Rightarrow> ('k, 'v) lru_entries \<Rightarrow> ('k, 'v) lru_entries" where
  "drop_key key es = filter (\<lambda>e. fst e \<noteq> key) es"

definition spec_get :: "'k \<Rightarrow> ('k, 'v) lru_entries \<Rightarrow> 'v option \<times> ('k, 'v) lru_entries" where
  "spec_get key es =
     (case map_of es key of
        None \<Rightarrow> (None, es)
      | Some (v, d) \<Rightarrow> (Some v, (key, v, d) # drop_key key es))"

definition spec_evict ::
    "('k \<Rightarrow> 'v \<Rightarrow> 's \<Rightarrow> 's res) \<Rightarrow> 's \<Rightarrow> 'k \<times> 'v \<times> bool \<Rightarrow> 's res" where
  "spec_evict cb s e = (case e of (k, v, d) \<Rightarrow> if d then cb k v s else Inr s)"

definition spec_put ::
    "('k \<Rightarrow> 'v \<Rightarrow> 's \<Rightarrow> 's res) \<Rightarrow> nat \<Rightarrow> 'k \<Rightarrow> 'v \<Rightarrow> bool \<Rightarrow> ('k, 'v) lru_entries \<Rightarrow> 's \<Rightarrow>
      (('k, 'v) lru_entries \<times> 's) res" where
  "spec_put cb n key v d es s =
     (if key \<in> fst ` set es then Inr ((key, v, d) # drop_key key es, s)
      else if length es < n then Inr ((key, v, d) # es, s)
      else rbind (spec_evict cb s (last es)) (\<lambda>s1. Inr ((key, v, d) # butlast es, s1)))"

text \<open>The nodes \<open>ps\<close> are in use, in this order, and the hash table knows exactly their keys.\<close>

definition lru_inv :: "nat \<Rightarrow> lru_ptr list \<Rightarrow> ('k, 'v) lru_cache \<Rightarrow> bool" where
  "lru_inv n ps c \<longleftrightarrow>
     chain (lru_nodes c) HeadPtr ps TailPtr \<and> distinct (ps @ freeEntries c) \<and>
     set (ps @ freeEntries c) \<subseteq> range EntryPtr \<and> length ps + length (freeEntries c) = n \<and>
     (\<forall>p\<in>set ps. lru_mapping c (node_key (lru_nodes c p)) = Some p) \<and>
     (\<forall>k p. lru_mapping c k = Some p \<longrightarrow> p = NullPtr \<or> p \<in> set ps \<and> node_key (lru_nodes c p) = k)"

definition lru_holds :: "nat \<Rightarrow> ('k, 'v) lru_cache \<Rightarrow> ('k, 'v) lru_entries \<Rightarrow> bool" where
  "lru_holds n c es \<longleftrightarrow> (\<exists>ps. lru_inv n ps c \<and> es = map (entry_of (lru_nodes c)) ps)"

lemma new_lru_holds: "lru_holds n (new_lru n junk) []"
  by (auto simp: lru_holds_def lru_inv_def new_lru_def linked_def distinct_map inj_on_def)

lemma lru_holdsI: "lru_inv n ps c \<Longrightarrow> map (entry_of (lru_nodes c)) ps = es \<Longrightarrow> lru_holds n c es"
  by (auto simp: lru_holds_def)

lemma fst_entry_of [simp]: "fst (entry_of h p) = node_key (h p)"
  by (simp add: entry_of_def)

lemma same_keys: "entry_of h' = entry_of h \<Longrightarrow> node_key (h' p) = node_key (h p)"
  by (metis fst_entry_of)

lemma lru_invD:
  assumes "lru_inv n ps c"
  shows "chain (lru_nodes c) HeadPtr ps TailPtr" and "distinct ps" and "distinct (freeEntries c)"
    and "set ps \<inter> set (freeEntries c) = {}"
    and "set ps \<subseteq> range EntryPtr" and "set (freeEntries c) \<subseteq> range EntryPtr"
    and "length ps + length (freeEntries c) = n"
    and "\<And>p. p \<in> set ps \<Longrightarrow> lru_mapping c (node_key (lru_nodes c p)) = Some p"
    and "\<And>k p. lru_mapping c k = Some p \<Longrightarrow> p \<noteq> NullPtr \<Longrightarrow> p \<in> set ps \<and> node_key (lru_nodes c p) = k"
  using assms unfolding lru_inv_def by simp_all blast

lemma lru_invI:
  assumes "chain (lru_nodes c) HeadPtr ps TailPtr" and "distinct ps" and "distinct (freeEntries c)"
    and "set ps \<inter> set (freeEntries c) = {}"
    and "set ps \<subseteq> range EntryPtr" and "set (freeEntries c) \<subseteq> range EntryPtr"
    and "length ps + length (freeEntries c) = n"
    and "\<And>p. p \<in> set ps \<Longrightarrow> lru_mapping c (node_key (lru_nodes c p)) = Some p"
    and "\<And>k p. lru_mapping c k = Some p \<Longrightarrow> p \<noteq> NullPtr \<Longrightarrow> p \<in> set ps \<and> node_key (lru_nodes c p) = k"
  shows "lru_inv n ps c"
  using assms unfolding lru_inv_def by simp blast

lemma inv_distinct:
  assumes "lru_inv n ps c"
  shows "distinct (HeadPtr # ps @ [TailPtr])" and "NullPtr \<notin> set (HeadPtr # ps @ [TailPtr])"
  using lru_invD(2,5)[OF assms] by auto

lemma inv_key_inj:
  assumes "lru_inv n ps c" and "p \<in> set ps" and "q \<in> set ps"
    and "node_key (lru_nodes c p) = node_key (lru_nodes c q)"
  shows "p = q"
proof -
  have "Some p = Some q"
    using lru_invD(8)[OF assms(1,2)] lru_invD(8)[OF assms(1,3)] by (simp only: assms(4))
  then show ?thesis by simp
qed

text \<open>Looking a key up.\<close>

lemma slot_hit:
  assumes "lru_inv n ps c" and "p \<in> set ps"
  shows "lru_slot (node_key (lru_nodes c p)) c = (p, c)"
  using lru_invD(8)[OF assms] by (simp add: lru_slot_def)

lemma inv_mapping:
  assumes "lru_inv n ps c" and "key \<notin> (\<lambda>p. node_key (lru_nodes c p)) ` set ps"
  shows "lru_inv n ps (c\<lparr>lru_mapping := (lru_mapping c)(key \<mapsto> NullPtr)\<rparr>)"
proof (rule lru_invI)
  let ?c = "c\<lparr>lru_mapping := (lru_mapping c)(key \<mapsto> NullPtr)\<rparr>"
  show "lru_mapping ?c (node_key (lru_nodes ?c p)) = Some p" if "p \<in> set ps" for p
    using lru_invD(8)[OF assms(1) that] assms(2) that by auto
  show "p \<in> set ps \<and> node_key (lru_nodes ?c p) = k" if "lru_mapping ?c k = Some p" "p \<noteq> NullPtr" for k p
    using lru_invD(9)[OF assms(1), of k p] that by (auto split: if_splits)
qed (use lru_invD(1-7)[OF assms(1)] in simp_all)

lemma slot_miss:
  assumes inv: "lru_inv n ps c" and miss: "key \<notin> (\<lambda>p. node_key (lru_nodes c p)) ` set ps"
  shows "\<exists>m. lru_slot key c = (NullPtr, c\<lparr>lru_mapping := m\<rparr>) \<and> lru_inv n ps (c\<lparr>lru_mapping := m\<rparr>)
    \<and> m key = Some NullPtr"
proof (cases "lru_mapping c key")
  case None
  with inv_mapping[OF assms] show ?thesis
    by (intro exI[of _ "(lru_mapping c)(key \<mapsto> NullPtr)"]) (simp add: lru_slot_def)
next
  case (Some p)
  then have "p = NullPtr" using lru_invD(9)[OF inv Some] miss by blast
  with Some inv show ?thesis by (intro exI[of _ "lru_mapping c"]) (simp add: lru_slot_def)
qed

lemma drop_key_map:
  assumes "lru_inv n (xs @ p # ys) c" and "entry_of h' = entry_of (lru_nodes c)"
  shows "drop_key (node_key (lru_nodes c p)) (map (entry_of (lru_nodes c)) (xs @ p # ys))
    = map (entry_of h') (xs @ ys)"
proof -
  note d = lru_invD(2)[OF assms(1)]
  have "node_key (lru_nodes c q) \<noteq> node_key (lru_nodes c p)" if "q \<in> set (xs @ ys)" for q
    using inv_key_inj[OF assms(1), of q p] that d by auto
  then have "filter (\<lambda>q. node_key (lru_nodes c q) \<noteq> node_key (lru_nodes c p)) zs = zs"
    if "set zs \<subseteq> set (xs @ ys)" for zs
    using that by (induction zs) auto
  from this[of xs] this[of ys] show ?thesis
    by (simp add: drop_key_def filter_map o_def assms(2))
qed

lemma map_of_entries:
  assumes "lru_inv n ps c" and "p \<in> set ps"
  shows "map_of (map (entry_of (lru_nodes c)) ps) (node_key (lru_nodes c p))
    = Some (node_value (lru_nodes c p), node_dirty (lru_nodes c p))"
proof (rule map_of_is_SomeI)
  show "distinct (map fst (map (entry_of (lru_nodes c)) ps))"
    using lru_invD(2)[OF assms(1)] inv_key_inj[OF assms(1)] by (auto simp: distinct_map inj_on_def)
  show "(node_key (lru_nodes c p), node_value (lru_nodes c p), node_dirty (lru_nodes c p))
    \<in> set (map (entry_of (lru_nodes c)) ps)" using assms(2) by (force simp: entry_of_def)
qed

lemma map_of_no_entry:
  "key \<notin> (\<lambda>p. node_key (h p)) ` set ps \<Longrightarrow> map_of (map (entry_of h) ps) key = None"
  by (auto simp: map_of_eq_None_iff image_image)

text \<open>Moving a node to the front keeps the invariant, whatever value it is given in between.\<close>

lemma inv_front:
  assumes inv: "lru_inv n (xs @ p # ys) c" and ch: "chain h' HeadPtr (p # xs @ ys) TailPtr"
    and keys: "\<And>q. node_key (h' q) = node_key (lru_nodes c q)"
  shows "lru_inv n (p # xs @ ys) (c\<lparr>lru_nodes := h'\<rparr>)"
proof (rule lru_invI)
  show "lru_mapping (c\<lparr>lru_nodes := h'\<rparr>) (node_key (lru_nodes (c\<lparr>lru_nodes := h'\<rparr>) q)) = Some q"
    if "q \<in> set (p # xs @ ys)" for q
    using lru_invD(8)[OF inv, of q] that by (auto simp: keys)
  show "q \<in> set (p # xs @ ys) \<and> node_key (lru_nodes (c\<lparr>lru_nodes := h'\<rparr>) q) = k"
    if "lru_mapping (c\<lparr>lru_nodes := h'\<rparr>) k = Some q" "q \<noteq> NullPtr" for k q
    using lru_invD(9)[OF inv, of k q] that by (auto simp: keys)
qed (use lru_invD(2-7)[OF inv] ch in auto)

lemma detach_attach:
  assumes inv: "lru_inv n (xs @ p # ys) c" and f: "\<And>m. node_key (f m) = node_key m"
    "\<And>m. node_prev (f m) = node_prev m" "\<And>m. node_next (f m) = node_next m"
  shows "\<exists>h1 h'. detach p c = Inr (c\<lparr>lru_nodes := h1\<rparr>)
    \<and> attach p (c\<lparr>lru_nodes := h1(p := f (h1 p))\<rparr>) = Inr (c\<lparr>lru_nodes := h'\<rparr>)
    \<and> lru_inv n (p # xs @ ys) (c\<lparr>lru_nodes := h'\<rparr>)
    \<and> entry_of h1 = entry_of (lru_nodes c) \<and> entry_of h' = entry_of (h1(p := f (h1 p)))"
proof -
  note d = inv_distinct[OF inv]
  from detach_chain[OF lru_invD(1)[OF inv]] d obtain h1 where
    h1: "detach p c = Inr (c\<lparr>lru_nodes := h1\<rparr>)" "chain h1 HeadPtr (xs @ ys) TailPtr"
      "entry_of h1 = entry_of (lru_nodes c)" by auto
  let ?h = "h1(p := f (h1 p))"
  have "chain ?h HeadPtr (xs @ ys) TailPtr"
    using chain_cong[OF h1(2), of ?h] f by simp
  from attach_chain[of "c\<lparr>lru_nodes := ?h\<rparr>", OF _, of "xs @ ys" TailPtr p] this d obtain h' where
    h': "attach p (c\<lparr>lru_nodes := ?h\<rparr>) = Inr (c\<lparr>lru_nodes := h'\<rparr>)"
      "chain h' HeadPtr (p # xs @ ys) TailPtr" "entry_of h' = entry_of ?h" by auto
  have "node_key (h' q) = node_key (lru_nodes c q)" for q
    using same_keys[OF h'(3), of q] same_keys[OF h1(3), of q] f(1) by (simp split: if_splits)
  from inv_front[OF inv h'(2) this] h1 h' show ?thesis by blast
qed

lemma split_at: "p \<in> set ps \<Longrightarrow> \<exists>xs ys. ps = xs @ p # ys"
  by (rule split_list)

lemma lru_get_refines:
  assumes "lru_holds n c es"
  shows "\<exists>c'. lru_get key c = Inr (fst (spec_get key es), c') \<and> lru_holds n c' (snd (spec_get key es))"
proof -
  from assms obtain ps where inv: "lru_inv n ps c" and es: "es = map (entry_of (lru_nodes c)) ps"
    by (auto simp: lru_holds_def)
  show ?thesis
  proof (cases "key \<in> (\<lambda>p. node_key (lru_nodes c p)) ` set ps")
    case False
    from slot_miss[OF inv False] obtain m where "lru_slot key c = (NullPtr, c\<lparr>lru_mapping := m\<rparr>)"
      "lru_inv n ps (c\<lparr>lru_mapping := m\<rparr>)" by blast
    then show ?thesis using es map_of_no_entry[OF False]
      by (auto simp: lru_get_def spec_get_def lru_holds_def)
  next
    case True
    then obtain p where p: "p \<in> set ps" "key = node_key (lru_nodes c p)" by auto
    then obtain xs ys where ps: "ps = xs @ p # ys" using split_at by metis
    from detach_attach[of n xs p ys c "\<lambda>m. m"] inv ps obtain h1 h' where
      h: "detach p c = Inr (c\<lparr>lru_nodes := h1\<rparr>)" "attach p (c\<lparr>lru_nodes := h1\<rparr>) = Inr (c\<lparr>lru_nodes := h'\<rparr>)"
        "lru_inv n (p # xs @ ys) (c\<lparr>lru_nodes := h'\<rparr>)" "entry_of h' = entry_of (lru_nodes c)" by auto
    have null: "p \<noteq> NullPtr" using inv_distinct(2)[OF inv] p(1) by auto
    have val: "node_value (h' p) = node_value (lru_nodes c p)"
      using fun_cong[OF h(4), of p] by (simp add: entry_of_def)
    have "lru_get key c = Inr (Some (node_value (lru_nodes c p)), c\<lparr>lru_nodes := h'\<rparr>)"
      using h(1,2) null val by (simp add: lru_get_def p(2) slot_hit[OF inv p(1)] get_node_def)
    moreover have "spec_get key es = (Some (node_value (lru_nodes c p)), map (entry_of h') (p # xs @ ys))"
      using map_of_entries[OF inv p(1)] drop_key_map[OF inv[unfolded ps] h(4)] ps es p(2) fun_cong[OF h(4), of p]
      by (simp add: spec_get_def entry_of_def)
    ultimately show ?thesis using h(3) by (auto simp: lru_holds_def)
  qed
qed

text \<open>Putting a free node in front, under a key that is not in use.\<close>

lemma lru_fill_inv:
  assumes inv: "lru_inv n ps c" and p: "p \<in> range EntryPtr" "p \<notin> set ps" "p \<notin> set (freeEntries c)"
    and key: "key \<notin> (\<lambda>p. node_key (lru_nodes c p)) ` set ps"
  shows "\<exists>c'. lru_fill p key v d c = Inr c' \<and> lru_inv (Suc n) (p # ps) c'
    \<and> map (entry_of (lru_nodes c')) (p # ps) = (key, v, d) # map (entry_of (lru_nodes c)) ps"
proof -
  let ?f = "\<lambda>m. m\<lparr>node_key := key, node_value := v, node_dirty := d\<rparr>"
  let ?h = "(lru_nodes c)(p := ?f (lru_nodes c p))"
  let ?c = "c\<lparr>lru_nodes := ?h, lru_mapping := (lru_mapping c)(key \<mapsto> p)\<rparr>"
  have "chain ?h HeadPtr ps TailPtr" by (rule chain_cong[OF lru_invD(1)[OF inv]]) auto
  moreover have dist: "distinct (HeadPtr # p # ps @ [TailPtr])" "NullPtr \<notin> set (HeadPtr # p # ps @ [TailPtr])"
    using inv_distinct[OF inv] p(1,2) by auto
  ultimately obtain h' where h': "attach p ?c = Inr (?c\<lparr>lru_nodes := h'\<rparr>)"
    "chain h' HeadPtr (p # ps) TailPtr" "entry_of h' = entry_of ?h"
    using attach_chain[of ?c ps TailPtr p] by auto
  have keys: "node_key (h' q) = (if q = p then key else node_key (lru_nodes c q))" for q
    using same_keys[OF h'(3), of q] by simp
  have entries: "entry_of h' q = (if q = p then (key, v, d) else entry_of (lru_nodes c) q)" for q
    using fun_cong[OF h'(3), of q] by (simp add: entry_of_def)
  let ?c' = "?c\<lparr>lru_nodes := h'\<rparr>"
  have "lru_fill p key v d c = Inr ?c'"
    using h'(1) dist(2) by (auto simp: lru_fill_def set_node_def)
  moreover have "lru_inv (Suc n) (p # ps) ?c'"
  proof (rule lru_invI)
    show "lru_mapping ?c' (node_key (lru_nodes ?c' q)) = Some q" if "q \<in> set (p # ps)" for q
    proof (cases "q = p")
      case False
      with that have "q \<in> set ps" by simp
      with lru_invD(8)[OF inv this] key False show ?thesis by (auto simp: keys)
    qed (simp add: keys)
    show "q \<in> set (p # ps) \<and> node_key (lru_nodes ?c' q) = k"
      if "lru_mapping ?c' k = Some q" "q \<noteq> NullPtr" for k q
      using lru_invD(9)[OF inv, of k q] that p(2) by (auto simp: keys split: if_splits)
    show "chain (lru_nodes ?c') HeadPtr (p # ps) TailPtr" using h'(2) by simp
    show "set (p # ps) \<inter> set (freeEntries ?c') = {}" using lru_invD(4)[OF inv] p(3) by simp
    show "distinct (p # ps)" using lru_invD(2)[OF inv] p(2) by simp
    show "distinct (freeEntries ?c')" using lru_invD(3)[OF inv] by simp
    show "set (p # ps) \<subseteq> range EntryPtr" using lru_invD(5)[OF inv] p(1) by simp
    show "set (freeEntries ?c') \<subseteq> range EntryPtr" using lru_invD(6)[OF inv] by simp
    show "length (p # ps) + length (freeEntries ?c') = Suc n" using lru_invD(7)[OF inv] by simp
  qed
  moreover have "map (entry_of (lru_nodes ?c')) (p # ps) = (key, v, d) # map (entry_of (lru_nodes c)) ps"
    using p(2) by (simp add: entries)
  ultimately show ?thesis by (intro exI[of _ ?c'] conjI)
qed

text \<open>Taking the last node out of use.\<close>

lemma detach_last_inv:
  assumes inv: "lru_inv n (ps @ [p]) c"
  shows "\<exists>h'. detach p c = Inr (c\<lparr>lru_nodes := h'\<rparr>) \<and> entry_of h' = entry_of (lru_nodes c)
    \<and> lru_inv (n - 1) ps (c\<lparr>lru_nodes := h', lru_mapping := (lru_mapping c)(node_key (h' p) := None)\<rparr>)"
proof -
  from detach_chain[of c HeadPtr ps p "[]" TailPtr] lru_invD(1)[OF inv] inv_distinct[OF inv]
  obtain h' where h': "detach p c = Inr (c\<lparr>lru_nodes := h'\<rparr>)" "chain h' HeadPtr ps TailPtr"
    "entry_of h' = entry_of (lru_nodes c)" by auto
  note keys = same_keys[OF h'(3)]
  let ?c = "c\<lparr>lru_nodes := h', lru_mapping := (lru_mapping c)(node_key (h' p) := None)\<rparr>"
  have "lru_inv (n - 1) ps ?c"
  proof (rule lru_invI)
    show "lru_mapping ?c (node_key (lru_nodes ?c q)) = Some q" if q: "q \<in> set ps" for q
    proof -
      have "q \<noteq> p" using lru_invD(2)[OF inv] q by auto
      then have "node_key (lru_nodes c q) \<noteq> node_key (lru_nodes c p)"
        using inv_key_inj[OF inv, of q p] q by auto
      with lru_invD(8)[OF inv, of q] q show ?thesis by (simp add: keys)
    qed
    show "q \<in> set ps \<and> node_key (lru_nodes ?c q) = k" if "lru_mapping ?c k = Some q" "q \<noteq> NullPtr" for k q
      using lru_invD(9)[OF inv, of k q] that by (auto simp: keys split: if_splits)
  qed (use lru_invD(2-7)[OF inv] h'(2) in auto)
  with h' show ?thesis by blast
qed

lemma inv_take_free:
  assumes "lru_inv n ps c" and "freeEntries c \<noteq> []"
  shows "lru_inv (n - 1) ps (c\<lparr>freeEntries := butlast (freeEntries c)\<rparr>)"
    and "last (freeEntries c) \<in> range EntryPtr" and "last (freeEntries c) \<notin> set ps"
    and "last (freeEntries c) \<notin> set (butlast (freeEntries c))"
proof -
  obtain fs p where f: "freeEntries c = fs @ [p]" using assms(2) by (metis rev_exhaust)
  note d = lru_invD[OF assms(1)]
  show "lru_inv (n - 1) ps (c\<lparr>freeEntries := butlast (freeEntries c)\<rparr>)"
    by (rule lru_invI) (use d(1-8) d(9) f in auto)
  show "last (freeEntries c) \<in> range EntryPtr" "last (freeEntries c) \<notin> set ps"
    "last (freeEntries c) \<notin> set (butlast (freeEntries c))"
    using d(3,4,6) f by auto
qed

definition lru_simulates ::
    "nat \<Rightarrow> (('k, 'v) lru_cache \<times> 's) res \<Rightarrow> (('k, 'v) lru_entries \<times> 's) res \<Rightarrow> bool" where
  "lru_simulates n r spec \<longleftrightarrow>
     (case spec of
        Inl e \<Rightarrow> r = Inl e
      | Inr (es, s) \<Rightarrow> \<exists>c. r = Inr (c, s) \<and> lru_holds n c es)"

lemma lru_put_hit:
  assumes inv: "lru_inv n ps c" and p: "p \<in> set ps"
  shows "\<exists>c'. lru_put cb (node_key (lru_nodes c p)) v d c s = Inr (c', s)
    \<and> lru_holds n c' ((node_key (lru_nodes c p), v, d)
        # drop_key (node_key (lru_nodes c p)) (map (entry_of (lru_nodes c)) ps))"
proof -
  let ?f = "\<lambda>m. m\<lparr>node_value := v, node_dirty := d\<rparr>"
  obtain xs ys where ps: "ps = xs @ p # ys" using split_at[OF p] by metis
  from detach_attach[of n xs p ys c ?f] inv ps obtain h1 h' where
    h: "detach p c = Inr (c\<lparr>lru_nodes := h1\<rparr>)"
      "attach p (c\<lparr>lru_nodes := h1(p := ?f (h1 p))\<rparr>) = Inr (c\<lparr>lru_nodes := h'\<rparr>)"
      "lru_inv n (p # xs @ ys) (c\<lparr>lru_nodes := h'\<rparr>)" "entry_of h1 = entry_of (lru_nodes c)"
      "entry_of h' = entry_of (h1(p := ?f (h1 p)))" by auto
  have null: "p \<noteq> NullPtr" using inv_distinct(2)[OF inv] p by auto
  have "lru_put cb (node_key (lru_nodes c p)) v d c s = Inr (c\<lparr>lru_nodes := h'\<rparr>, s)"
    using h(1,2) null by (simp add: lru_put_def slot_hit[OF inv p] set_node_def)
  moreover have "p \<notin> set (xs @ ys)" using lru_invD(2)[OF inv] ps by auto
  then have "map (entry_of h') (p # xs @ ys) = (node_key (lru_nodes c p), v, d)
      # drop_key (node_key (lru_nodes c p)) (map (entry_of (lru_nodes c)) ps)"
    using drop_key_map[OF inv[unfolded ps] refl] fun_cong[OF h(4)] same_keys[OF h(4)]
    by (auto simp: ps h(5) entry_of_def)
  with h(3) have "lru_holds n (c\<lparr>lru_nodes := h'\<rparr>) ((node_key (lru_nodes c p), v, d)
      # drop_key (node_key (lru_nodes c p)) (map (entry_of (lru_nodes c)) ps))"
    by (intro lru_holdsI[of n "p # xs @ ys"]) simp_all
  ultimately show ?thesis by blast
qed

lemma lru_putOld_refines:
  assumes inv: "lru_inv n ps c" and n: "0 < n" and miss: "key \<notin> (\<lambda>p. node_key (lru_nodes c p)) ` set ps"
  shows "lru_simulates n (lru_putOld cb key v d c s) (spec_put cb n key v d (map (entry_of (lru_nodes c)) ps) s)"
proof (cases "freeEntries c = []")
  case False
  let ?p = "last (freeEntries c)" and ?c = "c\<lparr>freeEntries := butlast (freeEntries c)\<rparr>"
  note t = inv_take_free[OF inv False]
  from lru_fill_inv[OF t(1-3), of key v d] t(4) miss n obtain c' where
    "lru_fill ?p key v d ?c = Inr c'" "lru_inv n (?p # ps) c'"
    "map (entry_of (lru_nodes c')) (?p # ps) = (key, v, d) # map (entry_of (lru_nodes c)) ps"
    by auto
  moreover from this(2,3) have "lru_holds n c' ((key, v, d) # map (entry_of (lru_nodes c)) ps)"
    by (rule lru_holdsI)
  moreover have "length ps < n" using lru_invD(7)[OF inv] False by (cases "freeEntries c") auto
  ultimately show ?thesis using False miss
    by (simp add: lru_putOld_def spec_put_def lru_simulates_def image_image)
next
  case True
  then obtain qs p where ps: "ps = qs @ [p]" using lru_invD(7)[OF inv] n by (cases ps rule: rev_cases) auto
  from detach_last_inv[of n qs p c] inv ps obtain h1 where
    h1: "detach p c = Inr (c\<lparr>lru_nodes := h1\<rparr>)" "entry_of h1 = entry_of (lru_nodes c)"
      "lru_inv (n - 1) qs (c\<lparr>lru_nodes := h1, lru_mapping := (lru_mapping c)(node_key (h1 p) := None)\<rparr>)"
    by auto
  let ?c = "c\<lparr>lru_nodes := h1, lru_mapping := (lru_mapping c)(node_key (h1 p) := None)\<rparr>"
  have "p \<in> range EntryPtr" "p \<notin> set qs" using lru_invD(2,5)[OF inv] ps by auto
  with lru_fill_inv[OF h1(3), of p key v d] True miss n ps same_keys[OF h1(2)] obtain c' where
    c': "lru_fill p key v d ?c = Inr c'" "lru_inv n (p # qs) c'"
      "map (entry_of (lru_nodes c')) (p # qs) = (key, v, d) # map (entry_of h1) qs"
    by auto
  have tail: "node_prev (lru_nodes c TailPtr) = p" "p \<noteq> NullPtr"
    using chain_ends[OF lru_invD(1)[OF inv]] inv_distinct(2)[OF inv] ps by auto
  have e: "entry_of (lru_nodes c) p = (node_key (h1 p), node_value (h1 p), node_dirty (h1 p))"
    using fun_cong[OF h1(2), of p] by (simp add: entry_of_def)
  have "lru_holds n c' ((key, v, d) # map (entry_of (lru_nodes c)) qs)"
    using c'(3) by (intro lru_holdsI[OF c'(2)]) (simp add: h1(2))
  moreover have put: "lru_putOld cb key v d c s = rbind (spec_evict cb s (entry_of (lru_nodes c) p)) (\<lambda>s1. Inr (c', s1))"
    using True tail h1(1) c'(1) by (simp add: lru_putOld_def get_node_def Let_def spec_evict_def e)
  moreover have "length ps = n" using lru_invD(7)[OF inv] True by simp
  then have "spec_put cb n key v d (map (entry_of (lru_nodes c)) ps) s
      = rbind (spec_evict cb s (entry_of (lru_nodes c) p)) (\<lambda>s1. Inr ((key, v, d) # map (entry_of (lru_nodes c)) qs, s1))"
    using miss ps by (simp add: spec_put_def image_image)
  ultimately show ?thesis
    by (cases "spec_evict cb s (entry_of (lru_nodes c) p)") (simp_all add: lru_simulates_def)
qed

lemma lru_put_refines:
  assumes h: "lru_holds n c es" and n: "0 < n"
  shows "lru_simulates n (lru_put cb key v d c s) (spec_put cb n key v d es s)"
proof -
  from h obtain ps where inv: "lru_inv n ps c" and es: "es = map (entry_of (lru_nodes c)) ps"
    by (auto simp: lru_holds_def)
  show ?thesis
  proof (cases "key \<in> (\<lambda>p. node_key (lru_nodes c p)) ` set ps")
    case True
    then obtain p where "p \<in> set ps" "key = node_key (lru_nodes c p)" by auto
    with lru_put_hit[OF inv this(1), of cb v d s] es show ?thesis
      by (auto simp: lru_simulates_def spec_put_def image_image)
  next
    case False
    from slot_miss[OF inv False] obtain m where "lru_slot key c = (NullPtr, c\<lparr>lru_mapping := m\<rparr>)"
      and "lru_inv n ps (c\<lparr>lru_mapping := m\<rparr>)" by blast
    with lru_putOld_refines[OF this(2) n, of key cb v d s] False es show ?thesis
      by (simp add: lru_put_def)
  qed
qed

text \<open>\<open>evictAll\<close> hands out the dirty entries, least recently used first, and changes nothing.\<close>

lemma evict_loop_chain:
  assumes "chain (lru_nodes c) HeadPtr ps q" and "distinct (HeadPtr # ps)" and "NullPtr \<notin> set ps"
    and "length ps < fuel"
  shows "evict_loop cb fuel (node_prev (lru_nodes c q)) c s
    = fold_res (spec_evict cb) s (rev (map (entry_of (lru_nodes c)) ps))"
  using assms
proof (induction ps arbitrary: q fuel s rule: rev_induct)
  case Nil
  then obtain m where "fuel = Suc m" by (cases fuel) auto
  with Nil show ?case by (simp add: linked_def)
next
  case (snoc p ps)
  then obtain m where m: "fuel = Suc m" "length ps < m" by (cases fuel) auto
  have "chain (lru_nodes c) HeadPtr ps p" and p: "node_prev (lru_nodes c q) = p" "p \<noteq> HeadPtr" "p \<noteq> NullPtr"
    using snoc.prems by (auto simp: chain_append linked_def)
  from snoc.IH[OF this(1) _ _ m(2)] snoc.prems(2,3) have
    ih: "evict_loop cb m (node_prev (lru_nodes c p)) c = (\<lambda>s. fold_res (spec_evict cb) s (rev (map (entry_of (lru_nodes c)) ps)))"
    by (intro ext) auto
  have "spec_evict cb s (entry_of (lru_nodes c) p)
      = (if node_dirty (lru_nodes c p) then cb (node_key (lru_nodes c p)) (node_value (lru_nodes c p)) s else Inr s)"
    by (simp add: spec_evict_def entry_of_def)
  with p show ?case by (simp add: m(1) get_node_def ih cong: if_cong)
qed

lemma lru_holds_length: "lru_holds n c es \<Longrightarrow> length es \<le> n"
  by (auto simp: lru_holds_def dest: lru_invD(7))

lemma lru_evictAll_refines:
  assumes "lru_holds n c es" and "length es < fuel"
  shows "lru_evictAll cb fuel c s = fold_res (spec_evict cb) s (rev es)"
proof -
  from assms(1) obtain ps where inv: "lru_inv n ps c" and es: "es = map (entry_of (lru_nodes c)) ps"
    by (auto simp: lru_holds_def)
  from evict_loop_chain[OF lru_invD(1)[OF inv], of fuel cb s] inv_distinct[OF inv] assms(2) es
  show ?thesis by (auto simp: lru_evictAll_def get_node_def)
qed

section \<open>Sequences of operations\<close>

datatype ('k, 'v) lru_op = LruGet 'k | LruPut 'k 'v bool

fun lru_step ::
    "('k \<Rightarrow> 'v \<Rightarrow> 's \<Rightarrow> 's res) \<Rightarrow> (('k, 'v) lru_cache \<times> 's \<times> 'v option list) \<Rightarrow> ('k, 'v) lru_op \<Rightarrow>
      (('k, 'v) lru_cache \<times> 's \<times> 'v option list) res" where
  "lru_step cb (c, s, rs) (LruGet k) = rbind (lru_get k c) (\<lambda>(r, c'). Inr (c', s, rs @ [r]))"
| "lru_step cb (c, s, rs) (LruPut k v d) = rbind (lru_put cb k v d c s) (\<lambda>(c', s'). Inr (c', s', rs))"

fun spec_step ::
    "('k \<Rightarrow> 'v \<Rightarrow> 's \<Rightarrow> 's res) \<Rightarrow> nat \<Rightarrow> (('k, 'v) lru_entries \<times> 's \<times> 'v option list) \<Rightarrow> ('k, 'v) lru_op \<Rightarrow>
      (('k, 'v) lru_entries \<times> 's \<times> 'v option list) res" where
  "spec_step cb n (es, s, rs) (LruGet k) = (case spec_get k es of (r, es') \<Rightarrow> Inr (es', s, rs @ [r]))"
| "spec_step cb n (es, s, rs) (LruPut k v d) =
     rbind (spec_put cb n k v d es s) (\<lambda>(es', s'). Inr (es', s', rs))"

lemma lru_run_refines:
  assumes "lru_holds n c es" and "0 < n"
  shows "case fold_res (spec_step cb n) (es, s, rs) ops of
      Inl e \<Rightarrow> fold_res (lru_step cb) (c, s, rs) ops = Inl e
    | Inr (es', s', rs') \<Rightarrow>
        \<exists>c'. fold_res (lru_step cb) (c, s, rs) ops = Inr (c', s', rs') \<and> lru_holds n c' es'"
  using assms(1)
proof (induction ops arbitrary: c es s rs)
  case (Cons oper ops)
  show ?case
  proof (cases oper)
    case (LruGet k)
    from lru_get_refines[OF Cons.prems, of k] obtain c' where
      "lru_get k c = Inr (fst (spec_get k es), c')" "lru_holds n c' (snd (spec_get k es))" by blast
    with Cons.IH[OF this(2), of s "rs @ [fst (spec_get k es)]"] LruGet show ?thesis
      by (cases "spec_get k es") (auto split: sum.splits prod.splits)
  next
    case (LruPut k v d)
    show ?thesis
    proof (cases "spec_put cb n k v d es s")
      case (Inl e)
      with lru_put_refines[OF Cons.prems assms(2), of cb k v d s] LruPut show ?thesis
        by (simp add: lru_simulates_def)
    next
      case (Inr x)
      obtain es' s' where x: "x = (es', s')" by (cases x)
      with lru_put_refines[OF Cons.prems assms(2), of cb k v d s] Inr obtain c' where
        "lru_put cb k v d c s = Inr (c', s')" "lru_holds n c' es'" by (auto simp: lru_simulates_def)
      with Cons.IH[OF this(2), of s' rs] Inr x LruPut show ?thesis by (auto split: sum.splits)
    qed
  qed
qed simp

end
