(* ===== verification/CachedIndex.thy ===== *)
theory CachedIndex
  imports LRUCache InvertedIndex
begin

text \<open>
  The older batching index (\<open>src/src/InvertedIndexBatch.hpp\<close>): the additions are pairs of a document
  and a word in one of two vectors.  A consumer thread takes a vector over, sorts it by word and
  adds its documents to the sets, which stay in the cache of \<open>LRUCache\<close> and reach the store when they
  are evicted.
\<close>

section \<open>State\<close>

text \<open>
  \<open>producerVec\<close> and \<open>consumerVec\<close> point to the two vectors; the fields are the vectors they point to.
  The sets in the cache are shared pointers: the consumer changes a set in place and then puts it
  back under the same word, with no other access in between, so that the cache may hold the value.
\<close>

type_synonym posting = "u32 \<times> u32"

record ('s, 'p) cached_index =
  wordSetCache :: "(u32, 'p) lru_cache"
  ci_store :: 's
  producerVec :: "posting list"
  consumerVec :: "posting list"
  maxbatchsize :: int
  minbatchsize :: int
  ci_batchsize :: int
  ci_done :: bool

definition new_cached_index :: "'s \<Rightarrow> (lru_ptr \<Rightarrow> (u32, 'p) lru_node) \<Rightarrow> ('s, 'p) cached_index" where
  "new_cached_index s junk =
     \<lparr>wordSetCache = new_lru 100000 junk, ci_store = s, producerVec = [], consumerVec = [],
      maxbatchsize = 100000, minbatchsize = 10000, ci_batchsize = 0, ci_done = False\<rparr>"

definition ci_setMaxBatchSize :: "u32 \<Rightarrow> ('s, 'p) cached_index \<Rightarrow> ('s, 'p) cached_index" where
  "ci_setMaxBatchSize newSize c = c\<lparr>maxbatchsize := sint newSize\<rparr>"

section \<open>Sets of words\<close>

text \<open>The callback of the cache; the status of the store is not looked at.\<close>

definition evictPut :: "'s kv_vtable \<Rightarrow> 'p set_vtable \<Rightarrow> u32 \<Rightarrow> 'p \<Rightarrow> 's \<Rightarrow> 's res" where
  "evictPut V S wordId p s =
     rbind (sv_write S p) (\<lambda>bitmap.
     rbind (kv_Put64 V (ucast wordId) bitmap s) (\<lambda>(st, s'). Inr s'))"

text \<open>\<open>storePut\<close> differs only in its answer, the status of the store.\<close>

definition storePut :: "'s kv_vtable \<Rightarrow> 'p set_vtable \<Rightarrow> u32 \<Rightarrow> 'p \<Rightarrow> 's \<Rightarrow> (int \<times> 's) res" where
  "storePut V S wordId p s =
     rbind (sv_write S p) (\<lambda>bitmap.
     rbind (kv_Put64 V (ucast wordId) bitmap s) (\<lambda>(st, s'). Inr (if status_ok st then 1 else 0, s')))"

definition cachePut ::
    "'s kv_vtable \<Rightarrow> 'p set_vtable \<Rightarrow> u32 \<Rightarrow> 'p \<Rightarrow> ('s, 'p) cached_index \<Rightarrow> ('s, 'p) cached_index res" where
  "cachePut V S wordId p c =
     rbind (lru_put (evictPut V S) wordId p True (wordSetCache c) (ci_store c)) (\<lambda>(cache, s').
       Inr (c\<lparr>wordSetCache := cache, ci_store := s'\<rparr>))"

text \<open>
  \<open>get\<close> reads the store only.  The standard exceptions of reading a bitmap are caught, and the
  answer is 0; nothing else is.
\<close>

definition ci_get :: "'s kv_vtable \<Rightarrow> 'p set_vtable \<Rightarrow> u32 \<Rightarrow> 's \<Rightarrow> 'p option res" where
  "ci_get V S wordId s =
     (case rbind (kv_Get64 V (ucast wordId) [] s) (\<lambda>(st, bitmap).
        if status_ok st then rbind (sv_read S bitmap (createSparseSet S)) (\<lambda>p. Inr (Some p)) else Inr None) of
        Inl e \<Rightarrow> if e \<in> {LogicError, RuntimeError} then Inr None else Inl e
      | Inr got \<Rightarrow> Inr got)"

definition ci_exist :: "'s kv_vtable \<Rightarrow> u32 \<Rightarrow> 's \<Rightarrow> bool res" where
  "ci_exist V wordId s = rbind (kv_Get64 V (ucast wordId) [] s) (\<lambda>(st, ret). Inr (status_ok st))"

definition getOrCreate ::
    "'s kv_vtable \<Rightarrow> 'p set_vtable \<Rightarrow> u32 \<Rightarrow> ('s, 'p) cached_index \<Rightarrow> ('p \<times> ('s, 'p) cached_index) res" where
  "getOrCreate V S wordid c =
     rbind (lru_get wordid (wordSetCache c)) (\<lambda>(hit, cache).
     let c' = c\<lparr>wordSetCache := cache\<rparr> in
     case hit of
       Some p \<Rightarrow> Inr (p, c')
     | None \<Rightarrow> rbind (ci_get V S wordid (ci_store c')) (\<lambda>got.
         Inr (case got of Some p \<Rightarrow> p | None \<Rightarrow> createSparseSet S, c')))"

section \<open>Processing a batch\<close>

text \<open>The loop over the sorted postings, with its three variables.\<close>

fun flush_loop ::
    "'s kv_vtable \<Rightarrow> 'p set_vtable \<Rightarrow> posting list \<Rightarrow> u32 \<Rightarrow> 'p \<Rightarrow> u32 \<Rightarrow> ('s, 'p) cached_index \<Rightarrow>
      (u32 \<times> 'p \<times> ('s, 'p) cached_index) res" where
  "flush_loop V S [] wordid docSet lst c = Inr (wordid, docSet, c)"
| "flush_loop V S (p # ps) wordid docSet lst c =
     rbind (if snd p \<noteq> wordid then
              rbind (cachePut V S wordid docSet c) (\<lambda>c1.
              rbind (getOrCreate V S (snd p) c1) (\<lambda>(docSet', c2). Inr (snd p, docSet', fst p, c2)))
            else Inr (wordid, docSet, lst, c)) (\<lambda>(wordid', docSet', lst', c').
     rbind (sv_addDoc S (fst p) docSet') (\<lambda>docSet''.
     if fst p \<ge> lst' then flush_loop V S ps wordid' docSet'' (fst p) c' else Inl AssertFailed))"

definition flushInBackground ::
    "'s kv_vtable \<Rightarrow> 'p set_vtable \<Rightarrow> ('s, 'p) cached_index \<Rightarrow> (int \<times> ('s, 'p) cached_index) res" where
  "flushInBackground V S c =
     (case sort_key snd (consumerVec c) of
        [] \<Rightarrow> Inr (1, c)
      | v # vs \<Rightarrow>
          rbind (getOrCreate V S (snd v) c) (\<lambda>(docSet, c1).
          rbind (flush_loop V S (v # vs) (snd v) docSet (fst v) c1) (\<lambda>(wordid, docSet', c2).
          rbind (cachePut V S wordid docSet' c2) (\<lambda>c3.
          Inr (1, c3\<lparr>consumerVec := []\<rparr>)))))"

text \<open>The critical section in which \<open>getBatchFromQueue\<close> swaps the vectors.\<close>

definition take_batch :: "('s, 'p) cached_index \<Rightarrow> ('s, 'p) cached_index" where
  "take_batch c = c\<lparr>producerVec := consumerVec c, consumerVec := producerVec c, ci_batchsize := 0\<rparr>"

section \<open>Adding\<close>

definition push_posting :: "u32 \<Rightarrow> ('s, 'p) cached_index \<Rightarrow> u32 \<Rightarrow> ('s, 'p) cached_index" where
  "push_posting docid c wordId =
     c\<lparr>producerVec := producerVec c @ [(docid, wordId)], ci_batchsize := int32 (ci_batchsize c + 1)\<rparr>"

text \<open>
  What both \<open>add\<close>s of a whole document do under the lock.  The one with a sparse set then calls
  \<open>flushBatch\<close>, which waits while \<open>ci_batchsize > maxbatchsize\<close> and changes nothing.
\<close>

definition ci_add_words :: "u32 \<Rightarrow> u32 list \<Rightarrow> ('s, 'p) cached_index \<Rightarrow> ('s, 'p) cached_index" where
  "ci_add_words docid words c = foldl (push_posting docid) c words"

definition ci_add :: "u32 \<Rightarrow> u32 \<Rightarrow> ('s, 'p) cached_index \<Rightarrow> int \<times> ('s, 'p) cached_index" where
  "ci_add wordId docid c = (1, push_posting docid c wordId)"

definition flushBatch_returns :: "('s, 'p) cached_index \<Rightarrow> bool" where
  "flushBatch_returns c \<longleftrightarrow> \<not> ci_batchsize c > maxbatchsize c"

definition ci_remove :: "u32 \<Rightarrow> u32 \<Rightarrow> ('s, 'p) cached_index \<Rightarrow> (int \<times> ('s, 'p) cached_index) res" where
  "ci_remove wordId docId c = Inl (Thrown (-21))"

text \<open>The end of the destructor: what is dirty in the cache goes to the store.\<close>

definition ci_evictAll :: "'s kv_vtable \<Rightarrow> 'p set_vtable \<Rightarrow> nat \<Rightarrow> ('s, 'p) cached_index \<Rightarrow> 's res" where
  "ci_evictAll V S fuel c = lru_evictAll (evictPut V S) fuel (wordSetCache c) (ci_store c)"

section \<open>What the cache and the store hold together\<close>

text \<open>
  \<open>ci_holds n c P\<close>: the documents of word \<open>w\<close> are \<open>P w\<close>, in the cache if it has the word, else in the
  store; all sets in the cache are marked for writing.
\<close>

context inverted_index
begin

definition entries_hold :: "(u32, 'p) lru_entries \<Rightarrow> 's \<Rightarrow> (u32 \<rightharpoonup> u32 list) \<Rightarrow> bool" where
  "entries_hold es s P \<longleftrightarrow> wf s \<and> distinct (map fst es) \<and>
     (\<exists>Q. index_holds S docs (amap s) Q \<and> (\<forall>w. map_of es w = None \<longrightarrow> P w = Q w)) \<and>
     (\<forall>w p d. map_of es w = Some (p, d) \<longrightarrow> d \<and> (\<exists>xs. P w = Some xs \<and> docs p xs))"

definition ci_holds :: "('s, 'p) cached_index \<Rightarrow> (u32 \<rightharpoonup> u32 list) \<Rightarrow> bool" where
  "ci_holds c P \<longleftrightarrow> (\<exists>es. lru_holds 100000 (wordSetCache c) es \<and> entries_hold es (ci_store c) P)"

lemma entries_hold_store:
  assumes "entries_hold es s P"
  shows "wf s" and "distinct (map fst es)"
    and "\<exists>Q. index_holds S docs (amap s) Q \<and> (\<forall>w. map_of es w = None \<longrightarrow> P w = Q w)"
  using assms by (simp_all only: entries_hold_def)

lemma entries_hold_entry:
  "entries_hold es s P \<Longrightarrow> map_of es w = Some (p, d) \<Longrightarrow> d \<and> (\<exists>xs. P w = Some xs \<and> docs p xs)"
  unfolding entries_hold_def by blast

lemma entries_holdI:
  assumes "wf s" and "distinct (map fst es)" and "index_holds S docs (amap s) Q"
    and "\<And>w. map_of es w = None \<Longrightarrow> P w = Q w"
    and "\<And>w p d. map_of es w = Some (p, d) \<Longrightarrow> d \<and> (\<exists>xs. P w = Some xs \<and> docs p xs)"
  shows "entries_hold es s P"
  using assms unfolding entries_hold_def by blast

lemma evictPut_holds:
  assumes "index_holds S docs (amap s) Q" and "wf s" and "docs p xs"
  shows "\<exists>s'. evictPut V S w p s = Inr s' \<and> wf s' \<and> index_holds S docs (amap s') (Q(w \<mapsto> xs))"
  using put_holds[OF assms, of w] by (auto simp: evictPut_def index_put_def rbind_def split: sum.splits)

lemma entries_hold_evict:
  assumes "entries_hold (es @ [e]) s P"
  shows "\<exists>s'. spec_evict (evictPut V S) s e = Inr s' \<and> entries_hold es s' P"
proof -
  obtain k p d where e: "e = (k, p, d)" by (cases e)
  note st = entries_hold_store[OF assms] and en = entries_hold_entry[OF assms]
  from st(3) obtain Q where Q: "index_holds S docs (amap s) Q" "\<forall>w. map_of (es @ [e]) w = None \<longrightarrow> P w = Q w" by blast
  have k: "map_of es k = None" using st(2) e by (auto simp: map_of_eq_None_iff image_image)
  with en[of k p d] e obtain xs where xs: "d" "P k = Some xs" "docs p xs" by (auto simp: map_add_def)
  from evictPut_holds[OF Q(1) st(1) xs(3), of k] obtain s' where
    s': "evictPut V S k p s = Inr s'" "wf s'" "index_holds S docs (amap s') (Q(k \<mapsto> xs))" by blast
  have "entries_hold es s' P"
  proof (rule entries_holdI[OF s'(2) _ s'(3)])
    show "P w = (Q(k \<mapsto> xs)) w" if "map_of es w = None" for w
      using Q(2) xs(2) that e by (auto simp: map_add_def)
    show "d \<and> (\<exists>xs. P w = Some xs \<and> docs p xs)" if "map_of es w = Some (p, d)" for w p d
      using en[of w p d] that k e by (cases "w = k") (auto simp: map_add_def)
  qed (use st(2) in simp)
  with s'(1) xs(1) e show ?thesis by (auto simp: spec_evict_def)
qed

lemma evict_all_holds:
  assumes "entries_hold es s P"
  shows "\<exists>s'. fold_res (spec_evict (evictPut V S)) s (rev es) = Inr s' \<and> wf s' \<and> index_holds S docs (amap s') P"
  using assms
proof (induction es arbitrary: s rule: rev_induct)
  case Nil
  from entries_hold_store(3)[OF Nil] obtain Q where "index_holds S docs (amap s) Q" "\<forall>w. P w = Q w" by auto
  moreover from this(2) have "P = Q" by (intro ext) simp
  ultimately show ?case using entries_hold_store(1)[OF Nil] by simp
next
  case (snoc e es)
  from entries_hold_evict[OF snoc.prems] obtain s1 where
    "spec_evict (evictPut V S) s e = Inr s1" "entries_hold es s1 P" by blast
  with snoc.IH[OF this(2)] show ?case by simp
qed

lemma map_of_drop_key: "map_of (drop_key k es) = (map_of es)(k := None)"
  by (induction es) (auto simp: drop_key_def fun_eq_iff)

lemma distinct_drop_key: "distinct (map fst es) \<Longrightarrow> distinct (map fst (drop_key k es)) \<and> k \<notin> fst ` set (drop_key k es)"
  by (induction es) (auto simp: drop_key_def)

lemma entries_hold_front:
  assumes "entries_hold es s P" and "docs p xs"
  shows "entries_hold ((w, p, True) # drop_key w es) s (P(w \<mapsto> xs))"
proof -
  note st = entries_hold_store[OF assms(1)]
  from st(3) obtain Q where Q: "index_holds S docs (amap s) Q" "\<forall>w. map_of es w = None \<longrightarrow> P w = Q w" by blast
  show ?thesis
  proof (rule entries_holdI[OF st(1) _ Q(1)])
    show "distinct (map fst ((w, p, True) # drop_key w es))" using distinct_drop_key[OF st(2), of w] by simp
    show "(P(w \<mapsto> xs)) v = Q v" if "map_of ((w, p, True) # drop_key w es) v = None" for v
      using Q(2) that by (auto simp: map_of_drop_key split: if_splits)
    show "d \<and> (\<exists>ys. (P(w \<mapsto> xs)) v = Some ys \<and> docs p' ys)"
      if "map_of ((w, p, True) # drop_key w es) v = Some (p', d)" for v p' d
      using entries_hold_entry[OF assms(1), of v p' d] that assms(2) by (auto simp: map_of_drop_key split: if_splits)
  qed
qed

lemma drop_key_absent: "k \<notin> fst ` set es \<Longrightarrow> drop_key k es = es"
  by (induction es) (auto simp: drop_key_def)

lemma entries_hold_put:
  assumes h: "entries_hold es s P" and p: "docs p xs" and n: "0 < n"
  shows "\<exists>es' s'. spec_put (evictPut V S) n w p True es s = Inr (es', s') \<and> entries_hold es' s' (P(w \<mapsto> xs))"
proof (cases "w \<in> fst ` set es")
  case True
  with entries_hold_front[OF h p, of w] show ?thesis by (simp add: spec_put_def)
next
  case False
  show ?thesis
  proof (cases "length es < n")
    case True
    with entries_hold_front[OF h p, of w] False show ?thesis by (simp add: spec_put_def drop_key_absent)
  next
    case full: False
    then have "es \<noteq> []" using n by auto
    then have es: "butlast es @ [last es] = es" by simp
    from entries_hold_evict[of "butlast es" "last es" s P] h es obtain s' where
      s': "spec_evict (evictPut V S) s (last es) = Inr s'" "entries_hold (butlast es) s' P" by auto
    from False have "w \<notin> fst ` set (butlast es)" by (auto dest: in_set_butlastD)
    with entries_hold_front[OF s'(2) p, of w] False full s'(1) show ?thesis
      by (simp add: spec_put_def drop_key_absent)
  qed
qed

lemma entries_hold_get:
  assumes "entries_hold es s P"
  shows "entries_hold (snd (spec_get w es)) s P"
proof (cases "map_of es w")
  case (Some x)
  obtain p d where x: "x = (p, d)" by (cases x)
  from entries_hold_entry[OF assms, of w p d] Some x obtain xs where xs: "d" "P w = Some xs" "docs p xs" by auto
  have "P(w \<mapsto> xs) = P" using xs(2) by auto
  with entries_hold_front[OF assms xs(3), of w] Some x xs(1) show ?thesis by (simp add: spec_get_def)
qed (use assms in \<open>simp add: spec_get_def\<close>)

text \<open>The functions of the index over the cache.\<close>

lemma ci_get_eq: "index_get V S w s = Inr got \<Longrightarrow> ci_get V S w s = Inr got"
  by (simp add: ci_get_def index_get_def)

lemma getOrCreate_holds:
  assumes "ci_holds c P"
  shows "\<exists>p cache. getOrCreate V S w c = Inr (p, c\<lparr>wordSetCache := cache\<rparr>) \<and> docs p (docs_of P w)
    \<and> ci_holds (c\<lparr>wordSetCache := cache\<rparr>) P"
proof -
  from assms obtain es where es: "lru_holds 100000 (wordSetCache c) es" "entries_hold es (ci_store c) P"
    by (auto simp: ci_holds_def)
  from lru_get_refines[OF es(1), of w] obtain cache where
    cache: "lru_get w (wordSetCache c) = Inr (fst (spec_get w es), cache)" "lru_holds 100000 cache (snd (spec_get w es))"
    by blast
  have hold: "ci_holds (c\<lparr>wordSetCache := cache\<rparr>) P"
    using cache(2) entries_hold_get[OF es(2), of w] by (auto simp: ci_holds_def)
  show ?thesis
  proof (cases "map_of es w")
    case (Some x)
    obtain p d where x: "x = (p, d)" by (cases x)
    from entries_hold_entry[OF es(2), of w p d] Some x have "docs p (docs_of P w)" by (auto simp: docs_of_def)
    with hold Some x cache(1) show ?thesis by (auto simp: getOrCreate_def spec_get_def)
  next
    case None
    from es(2) obtain Q where Q: "wf (ci_store c)" "index_holds S docs (amap (ci_store c)) Q" "P w = Q w"
      using None entries_hold_store[OF es(2)] by metis
    show ?thesis
    proof (cases "Q w")
      case None
      with get_none[OF Q(2,1) None] Q(3) docs_create hold cache(1) \<open>map_of es w = None\<close> show ?thesis
        by (auto simp: getOrCreate_def spec_get_def ci_get_eq docs_of_def)
    next
      case (Some xs)
      from get_some[OF Q(2,1) Some] obtain p where "index_get V S w (ci_store c) = Inr (Some p)" "docs p xs"
        by blast
      with Some Q(3) hold cache(1) \<open>map_of es w = None\<close> show ?thesis
        by (auto simp: getOrCreate_def spec_get_def ci_get_eq docs_of_def)
    qed
  qed
qed

lemma cachePut_holds:
  assumes "ci_holds c P" and "docs p xs"
  shows "\<exists>cache s'. cachePut V S w p c = Inr (c\<lparr>wordSetCache := cache, ci_store := s'\<rparr>)
    \<and> ci_holds (c\<lparr>wordSetCache := cache, ci_store := s'\<rparr>) (P(w \<mapsto> xs))"
proof -
  from assms(1) obtain es where es: "lru_holds 100000 (wordSetCache c) es" "entries_hold es (ci_store c) P"
    by (auto simp: ci_holds_def)
  from entries_hold_put[OF es(2) assms(2), of 100000 w] obtain es' s' where
    e: "spec_put (evictPut V S) 100000 w p True es (ci_store c) = Inr (es', s')" "entries_hold es' s' (P(w \<mapsto> xs))"
    by auto
  from lru_put_refines[OF es(1), of "evictPut V S" w p True "ci_store c"] e(1) obtain cache where
    "lru_put (evictPut V S) w p True (wordSetCache c) (ci_store c) = Inr (cache, s')" "lru_holds 100000 cache es'"
    by (auto simp: lru_simulates_def)
  with e(2) show ?thesis by (auto simp: cachePut_def ci_holds_def)
qed

lemma ci_evictAll_holds:
  assumes "ci_holds c P"
  shows "\<exists>s'. ci_evictAll V S 100001 c = Inr s' \<and> wf s' \<and> index_holds S docs (amap s') P"
proof -
  from assms obtain es where es: "lru_holds 100000 (wordSetCache c) es" "entries_hold es (ci_store c) P"
    by (auto simp: ci_holds_def)
  have "length es \<le> 100000" using es(1) by (rule lru_holds_length)
  then have "ci_evictAll V S 100001 c = fold_res (spec_evict (evictPut V S)) (ci_store c) (rev es)"
    unfolding ci_evictAll_def by (intro lru_evictAll_refines[OF es(1)]) simp
  with evict_all_holds[OF es(2)] show ?thesis by simp
qed

end

text \<open>The documents that a list of postings adds to each word.\<close>

definition added_to :: "posting list \<Rightarrow> u32 \<Rightarrow> u32 list" where
  "added_to ps w = map fst (filter (\<lambda>p. snd p = w) ps)"

definition with_postings :: "(u32 \<rightharpoonup> u32 list) \<Rightarrow> posting list \<Rightarrow> (u32 \<rightharpoonup> u32 list)" where
  "with_postings P ps = (\<lambda>w. if w \<in> snd ` set ps then Some (docs_of P w @ added_to ps w) else P w)"

definition postings_fit :: "(u32 \<rightharpoonup> u32 list) \<Rightarrow> posting list \<Rightarrow> bool" where
  "postings_fit P ps \<longleftrightarrow> (\<forall>w. doc_list (docs_of P w @ added_to ps w) \<and> length (docs_of P w @ added_to ps w) < 2 ^ 31)"

lemma added_to_simps [simp]:
  "added_to [] w = []"
  "added_to (p # ps) w = (if snd p = w then fst p # added_to ps w else added_to ps w)"
  "added_to (ps @ qs) w = added_to ps w @ added_to qs w"
  by (simp_all add: added_to_def)

lemma added_to_none: "w \<notin> snd ` set ps \<Longrightarrow> added_to ps w = []"
  by (induction ps) auto

lemma with_postings_Nil [simp]: "with_postings P [] = P"
  by (simp add: with_postings_def)

lemma with_postings_Cons:
  "with_postings (P(snd p \<mapsto> docs_of P (snd p) @ [fst p])) ps = with_postings P (p # ps)"
  by (auto simp: with_postings_def fun_eq_iff added_to_none docs_of_def)

lemma postings_fit_Cons:
  assumes "postings_fit P (p # ps)"
  shows "postings_fit (P(snd p \<mapsto> docs_of P (snd p) @ [fst p])) ps"
    and "doc_list (docs_of P (snd p) @ [fst p])" and "length (docs_of P (snd p)) + 1 < 2 ^ 31"
    and "x \<in> set (docs_of P (snd p)) \<Longrightarrow> x < fst p"
proof -
  have f: "doc_list (docs_of P w @ added_to (p # ps) w)" "length (docs_of P w @ added_to (p # ps) w) < 2 ^ 31" for w
    using assms unfolding postings_fit_def by blast+
  show "postings_fit (P(snd p \<mapsto> docs_of P (snd p) @ [fst p])) ps"
    unfolding postings_fit_def
  proof
    fix w
    show "doc_list (docs_of (P(snd p \<mapsto> docs_of P (snd p) @ [fst p])) w @ added_to ps w)
        \<and> length (docs_of (P(snd p \<mapsto> docs_of P (snd p) @ [fst p])) w @ added_to ps w) < 2 ^ 31"
      using f[of w] by (cases "w = snd p") auto
  qed
  show "doc_list (docs_of P (snd p) @ [fst p])" "length (docs_of P (snd p)) + 1 < 2 ^ 31"
    "x \<in> set (docs_of P (snd p)) \<Longrightarrow> x < fst p"
    using f[of "snd p"] by (auto simp: doc_list_def sorted_wrt_append)
qed

lemma docs_of_same: "docs_of (P(w \<mapsto> docs_of P w)) = docs_of P"
  by (auto simp: fun_eq_iff docs_of_def)

lemma added_to_sorted: "added_to (sort_key snd ps) w = added_to ps w"
  unfolding added_to_def by (simp only: sort_key_stable[of "\<lambda>p. snd p" w ps])

lemma with_postings_sorted: "with_postings P (sort_key snd ps) = with_postings P ps"
  and postings_fit_sorted: "postings_fit P (sort_key snd ps) = postings_fit P ps"
  unfolding with_postings_def postings_fit_def added_to_sorted by simp_all

context inverted_index
begin

lemma flush_loop_holds:
  assumes "ci_holds c P" and "docs docSet xs"
    and "postings_fit (P(wordid \<mapsto> xs)) ps" and "lst \<in> set xs \<or> ps \<noteq> [] \<and> lst = fst (hd ps)"
  shows "\<exists>w' p' P' xs' cache s'.
    flush_loop V S ps wordid docSet lst c = Inr (w', p', c\<lparr>wordSetCache := cache, ci_store := s'\<rparr>)
    \<and> ci_holds (c\<lparr>wordSetCache := cache, ci_store := s'\<rparr>) P' \<and> docs p' xs'
    \<and> P'(w' \<mapsto> xs') = with_postings (P(wordid \<mapsto> xs)) ps"
  using assms
proof (induction ps arbitrary: wordid docSet lst c P xs)
  case Nil
  have c: "c\<lparr>wordSetCache := wordSetCache c, ci_store := ci_store c\<rparr> = c" by simp
  show ?case
    by (rule exI[of _ wordid], rule exI[of _ docSet], rule exI[of _ P], rule exI[of _ xs],
        rule exI[of _ "wordSetCache c"], rule exI[of _ "ci_store c"])
      (use Nil in simp)
next
  case (Cons p ps)
  let ?P1 = "P(wordid \<mapsto> xs)"
  let ?xs1 = "docs_of ?P1 (snd p) @ [fst p]"
  note fit = postings_fit_Cons[OF Cons.prems(3)]
  have *: "\<exists>w' p' P' xs' cache s'.
    flush_loop V S (p # ps) wordid docSet lst c = Inr (w', p', c\<lparr>wordSetCache := cache, ci_store := s'\<rparr>)
    \<and> ci_holds (c\<lparr>wordSetCache := cache, ci_store := s'\<rparr>) P' \<and> docs p' xs'
    \<and> P'(w' \<mapsto> xs') = with_postings ?P1 (p # ps)"
    if loop: "flush_loop V S (p # ps) wordid docSet lst c = flush_loop V S ps (snd p) docSet2 (fst p) c2"
      and c2: "c2 = c\<lparr>wordSetCache := cache2, ci_store := s2\<rparr>"
      and hold: "ci_holds c2 P2" "P2(snd p \<mapsto> ?xs1) = ?P1(snd p \<mapsto> ?xs1)" "docs docSet2 ?xs1"
    for docSet2 c2 P2 cache2 s2
  proof -
    have f: "postings_fit (P2(snd p \<mapsto> ?xs1)) ps" using fit(1) unfolding hold(2) .
    have l: "fst p \<in> set ?xs1 \<or> ps \<noteq> [] \<and> fst p = fst (hd ps)" by simp
    show ?thesis using Cons.IH[OF hold(1,3) f l] unfolding loop c2 hold(2) with_postings_Cons
      by (simp add: fun_upd_def)
  qed
  show ?case
  proof (cases "snd p = wordid")
    case True
    then have xs: "docs_of ?P1 (snd p) = xs" by simp
    from docs_addDoc[OF Cons.prems(2) fit(2,3)[unfolded xs]] xs obtain docSet2 where
      d: "sv_addDoc S (fst p) docSet = Inr docSet2" "docs docSet2 ?xs1" by auto
    have "lst \<le> fst p" using Cons.prems(4) fit(4)[of lst, unfolded xs] by auto
    then have loop: "flush_loop V S (p # ps) wordid docSet lst c = flush_loop V S ps (snd p) docSet2 (fst p) c"
      using d(1) True by simp
    have c: "c = c\<lparr>wordSetCache := wordSetCache c, ci_store := ci_store c\<rparr>" by simp
    have "P(snd p \<mapsto> ?xs1) = ?P1(snd p \<mapsto> ?xs1)" using True by (simp add: fun_eq_iff)
    from *[OF loop c Cons.prems(1) this d(2)] show ?thesis .
  next
    case False
    from cachePut_holds[OF Cons.prems(1), of docSet xs wordid] Cons.prems(2) obtain cache1 s1 where
      p1: "cachePut V S wordid docSet c = Inr (c\<lparr>wordSetCache := cache1, ci_store := s1\<rparr>)"
        "ci_holds (c\<lparr>wordSetCache := cache1, ci_store := s1\<rparr>) ?P1" by auto
    have swap: "c\<lparr>wordSetCache := cache1, ci_store := s1\<rparr>\<lparr>wordSetCache := k\<rparr> = c\<lparr>wordSetCache := k, ci_store := s1\<rparr>" for k
      by simp
    from getOrCreate_holds[OF p1(2), of "snd p", unfolded swap] obtain docSet1 cache2 where
      g: "getOrCreate V S (snd p) (c\<lparr>wordSetCache := cache1, ci_store := s1\<rparr>)
          = Inr (docSet1, c\<lparr>wordSetCache := cache2, ci_store := s1\<rparr>)"
        "docs docSet1 (docs_of ?P1 (snd p))" "ci_holds (c\<lparr>wordSetCache := cache2, ci_store := s1\<rparr>) ?P1"
      by blast
    from docs_addDoc[OF g(2) fit(2,3)] obtain docSet2 where
      d: "sv_addDoc S (fst p) docSet1 = Inr docSet2" "docs docSet2 ?xs1" by blast
    have "flush_loop V S (p # ps) wordid docSet lst c
        = flush_loop V S ps (snd p) docSet2 (fst p) (c\<lparr>wordSetCache := cache2, ci_store := s1\<rparr>)"
      using False p1(1) g(1) d(1) by simp
    from *[OF this refl g(3) refl d(2)] show ?thesis .
  qed
qed

text \<open>Processing a batch adds its postings to what the cache and the store hold.\<close>

lemma flushInBackground_holds:
  assumes "ci_holds c P" and "postings_fit P (consumerVec c)"
  shows "\<exists>cache s'. flushInBackground V S c = Inr (1, c\<lparr>wordSetCache := cache, ci_store := s', consumerVec := []\<rparr>)
    \<and> ci_holds (c\<lparr>wordSetCache := cache, ci_store := s', consumerVec := []\<rparr>) (with_postings P (consumerVec c))"
proof (cases "sort_key snd (consumerVec c)")
  case Nil
  then have e: "consumerVec c = []" by (metis length_0_conv length_sort)
  then have "c\<lparr>consumerVec := []\<rparr> = c" by simp
  then show ?thesis using Nil assms(1) e
    by (intro exI[of _ "wordSetCache c"] exI[of _ "ci_store c"]) (simp add: flushInBackground_def ci_holds_def)
next
  case (Cons v vs)
  let ?xs = "docs_of P (snd v)"
  have fit: "postings_fit P (v # vs)" and wp: "with_postings P (v # vs) = with_postings P (consumerVec c)"
    using assms(2) postings_fit_sorted[of P "consumerVec c"] with_postings_sorted[of P "consumerVec c"] Cons by simp_all
  have up: "postings_fit (P(snd v \<mapsto> ?xs)) (v # vs)" "with_postings (P(snd v \<mapsto> ?xs)) (v # vs) = with_postings P (v # vs)"
    using fit by (simp_all add: postings_fit_def with_postings_def docs_of_same fun_eq_iff)
  from getOrCreate_holds[OF assms(1), of "snd v"] obtain docSet cache1 where
    g: "getOrCreate V S (snd v) c = Inr (docSet, c\<lparr>wordSetCache := cache1\<rparr>)" "docs docSet ?xs"
      "ci_holds (c\<lparr>wordSetCache := cache1\<rparr>) P" by blast
  from flush_loop_holds[OF g(3), of docSet ?xs "snd v" "v # vs" "fst v"] g(2) up obtain w' p' P' xs' cache2 s2 where
    l: "flush_loop V S (v # vs) (snd v) docSet (fst v) (c\<lparr>wordSetCache := cache1\<rparr>)
        = Inr (w', p', c\<lparr>wordSetCache := cache2, ci_store := s2\<rparr>)"
      "ci_holds (c\<lparr>wordSetCache := cache2, ci_store := s2\<rparr>) P'" "docs p' xs'"
      "P'(w' \<mapsto> xs') = with_postings P (v # vs)" by auto
  from cachePut_holds[OF l(2,3), of w'] obtain cache3 s3 where
    c3: "cachePut V S w' p' (c\<lparr>wordSetCache := cache2, ci_store := s2\<rparr>) = Inr (c\<lparr>wordSetCache := cache3, ci_store := s3\<rparr>)"
      "ci_holds (c\<lparr>wordSetCache := cache3, ci_store := s3\<rparr>) (P'(w' \<mapsto> xs'))" by auto
  have "flushInBackground V S c = Inr (1, c\<lparr>wordSetCache := cache3, ci_store := s3, consumerVec := []\<rparr>)"
    using g(1) l(1) c3(1) by (simp add: flushInBackground_def Cons del: flush_loop.simps)
  moreover have "ci_holds (c\<lparr>wordSetCache := cache3, ci_store := s3, consumerVec := []\<rparr>) (with_postings P (consumerVec c))"
    using c3(2) l(4) wp by (simp add: ci_holds_def)
  ultimately show ?thesis by blast
qed

end

end
