(* ===== verification/CachedThreads.thy ===== *)
theory CachedThreads
  imports CachedIndex
begin

text \<open>
  The two threads of \<open>src/src/InvertedIndexBatch.hpp\<close>, the caller and the consumer, as an
  interleaving of steps.  Every step under the mutex is one step here; the consumer processes its
  vector without the mutex, but alone has that vector, the cache and the store.
\<close>

section \<open>States\<close>

text \<open>
  The consumer: at the head of \<open>consumer_main\<close>, in the waiting loop of \<open>getBatchFromQueue\<close>, behind it
  with the number it has read, with a batch to process, or gone.  The caller: outside, in the wait of
  \<open>flushBatch\<close>, joining the consumer, or behind the join.
\<close>

datatype consumer_pc = CTop | CQueue | CPolled int | CFlush | CGone

datatype caller_pc = KIdle | KWaiting | KJoining | KStopped

record ('s, 'p) csystem =
  ci :: "('s, 'p) cached_index"
  consumer :: consumer_pc
  caller :: caller_pc

definition start_csystem :: "'s \<Rightarrow> (lru_ptr \<Rightarrow> (u32, 'p) lru_node) \<Rightarrow> ('s, 'p) csystem" where
  "start_csystem s junk = \<lparr>ci = new_cached_index s junk, consumer = CTop, caller = KIdle\<rparr>"

datatype clabel = CSilent | CAdded u32 "u32 list"

text \<open>
  The waiting loop of \<open>getBatchFromQueue\<close> ends when there are enough postings, when time is up or
  when the index shuts down: in the model it may end with any number it reads, which goes into an
  unsigned variable.  The caller goes on adding after the index has been shut down, if it likes.
\<close>

inductive cstep ::
    "'s kv_vtable \<Rightarrow> 'p set_vtable \<Rightarrow> ('s, 'p) csystem \<Rightarrow> clabel \<Rightarrow> ('s, 'p) csystem \<Rightarrow> bool"
  for V :: "'s kv_vtable" and S :: "'p set_vtable" where
  cons_enter: "consumer x = CTop \<Longrightarrow> \<not> ci_done (ci x) \<Longrightarrow> cstep V S x CSilent (x\<lparr>consumer := CQueue\<rparr>)"
| cons_exit: "consumer x = CTop \<Longrightarrow> ci_done (ci x) \<Longrightarrow> cstep V S x CSilent (x\<lparr>consumer := CGone\<rparr>)"
| cons_poll: "consumer x = CQueue \<Longrightarrow> cstep V S x CSilent (x\<lparr>consumer := CPolled (ci_batchsize (ci x))\<rparr>)"
| cons_none: "consumer x = CPolled n \<Longrightarrow> n = 0 \<Longrightarrow> cstep V S x CSilent (x\<lparr>consumer := CTop\<rparr>)"
| cons_take: "consumer x = CPolled n \<Longrightarrow> n \<noteq> 0 \<Longrightarrow>
    cstep V S x CSilent (x\<lparr>consumer := CFlush, ci := take_batch (ci x)\<rparr>)"
| cons_flush: "consumer x = CFlush \<Longrightarrow> flushInBackground V S (ci x) = Inr (r, c) \<Longrightarrow>
    cstep V S x CSilent (x\<lparr>consumer := CTop, ci := c\<rparr>)"
| call_add_sparse: "caller x = KIdle \<or> caller x = KStopped \<Longrightarrow> c = ci_add_words d words (ci x) \<Longrightarrow>
    k = (if ci_batchsize c > maxbatchsize c then KWaiting else caller x) \<Longrightarrow>
    cstep V S x (CAdded d words) (x\<lparr>ci := c, caller := k\<rparr>)"
| call_add_set: "caller x = KIdle \<or> caller x = KStopped \<Longrightarrow>
    cstep V S x (CAdded d words) (x\<lparr>ci := ci_add_words d words (ci x)\<rparr>)"
| call_flush: "caller x = KIdle \<or> caller x = KStopped \<Longrightarrow> cstep V S x CSilent (x\<lparr>caller := KWaiting\<rparr>)"
| call_return: "caller x = KWaiting \<Longrightarrow> flushBatch_returns (ci x) \<Longrightarrow> cstep V S x CSilent (x\<lparr>caller := KIdle\<rparr>)"
| call_stop: "caller x = KIdle \<Longrightarrow> \<not> ci_done (ci x) \<Longrightarrow>
    cstep V S x CSilent (x\<lparr>caller := KJoining, ci := (ci x)\<lparr>ci_done := True\<rparr>\<rparr>)"
| call_join: "caller x = KJoining \<Longrightarrow> consumer x = CGone \<Longrightarrow> cstep V S x CSilent (x\<lparr>caller := KStopped\<rparr>)"

inductive_cases cstepE: "cstep V S x l y"

text \<open>The states that follow a state, with the documents added to every word on the way.\<close>

inductive clog ::
    "'s kv_vtable \<Rightarrow> 'p set_vtable \<Rightarrow> ('s, 'p) csystem \<Rightarrow> (u32 \<Rightarrow> u32 list) \<Rightarrow> ('s, 'p) csystem \<Rightarrow> bool"
  for V S x where
  chere: "clog V S x (\<lambda>_. []) x"
| conward: "clog V S x A y \<Longrightarrow> cstep V S y CSilent z \<Longrightarrow> clog V S x A z"
| cadded: "clog V S x A y \<Longrightarrow> cstep V S y (CAdded d words) z \<Longrightarrow> distinct words \<Longrightarrow>
    clog V S x (\<lambda>w. if w \<in> set words then A w @ [d] else A w) z"

section \<open>What is held and what is pending\<close>

lemma foldl_push_posting:
  "foldl (push_posting d) c words = c\<lparr>producerVec := producerVec c @ map (\<lambda>w. (d, w)) words,
     ci_batchsize := (if words = [] then ci_batchsize c else int32 (ci_batchsize c + int (length words)))\<rparr>"
proof (induction words arbitrary: c)
  case (Cons w words)
  have "int32 (int32 (ci_batchsize c + 1) + int (length words)) = int32 (ci_batchsize c + (1 + int (length words)))"
    unfolding int32_add by (simp add: add.assoc)
  with Cons show ?case by (auto simp: push_posting_def)
qed simp

lemma added_to_words: "distinct words \<Longrightarrow> added_to (map (\<lambda>w. (d, w)) words) w = (if w \<in> set words then [d] else [])"
  by (induction words) auto

text \<open>The documents added stay within the bounds of the sets.\<close>

definition added_fit :: "(u32 \<Rightarrow> u32 list) \<Rightarrow> bool" where
  "added_fit A \<longleftrightarrow> (\<forall>w. doc_list (A w) \<and> length (A w) < 2 ^ 31)"

lemmas ci_add_words_eq = ci_add_words_def foldl_push_posting

context inverted_index
begin

definition keeps :: "(u32 \<Rightarrow> u32 list) \<Rightarrow> ('s, 'p) csystem \<Rightarrow> bool" where
  "keeps A x \<longleftrightarrow> (\<exists>P. ci_holds (ci x) P
     \<and> (\<forall>w. docs_of P w @ added_to (consumerVec (ci x)) w @ added_to (producerVec (ci x)) w = A w))
     \<and> (consumer x \<noteq> CFlush \<longrightarrow> consumerVec (ci x) = [])"

lemma ci_holds_cong:
  "ci_holds c P \<Longrightarrow> wordSetCache c' = wordSetCache c \<Longrightarrow> ci_store c' = ci_store c \<Longrightarrow> ci_holds c' P"
  by (simp add: ci_holds_def)

lemma keeps_fit:
  assumes "keeps A x" and "added_fit A"
  shows "\<exists>P. ci_holds (ci x) P \<and> postings_fit P (consumerVec (ci x))
    \<and> (\<forall>w. docs_of P w @ added_to (consumerVec (ci x)) w @ added_to (producerVec (ci x)) w = A w)"
proof -
  from assms(1) obtain P where P: "ci_holds (ci x) P"
    "\<And>w. docs_of P w @ added_to (consumerVec (ci x)) w @ added_to (producerVec (ci x)) w = A w"
    by (auto simp: keeps_def)
  have "postings_fit P (consumerVec (ci x))"
    unfolding postings_fit_def
  proof
    fix w
    have "doc_list ((docs_of P w @ added_to (consumerVec (ci x)) w) @ added_to (producerVec (ci x)) w)"
      "length ((docs_of P w @ added_to (consumerVec (ci x)) w) @ added_to (producerVec (ci x)) w) < 2 ^ 31"
      using assms(2) P(2)[of w] by (simp_all add: added_fit_def)
    then show "doc_list (docs_of P w @ added_to (consumerVec (ci x)) w)
        \<and> length (docs_of P w @ added_to (consumerVec (ci x)) w) < 2 ^ 31"
      by (auto simp: doc_list_def sorted_wrt_append)
  qed
  with P show ?thesis by blast
qed

lemma docs_of_with_postings: "docs_of (with_postings P ps) w = docs_of P w @ added_to ps w"
  by (auto simp: with_postings_def docs_of_def added_to_none split: option.splits)

lemma keeps_cong:
  assumes "keeps A x" and "wordSetCache (ci y) = wordSetCache (ci x)" and "ci_store (ci y) = ci_store (ci x)"
    and "consumerVec (ci y) = consumerVec (ci x)" and "producerVec (ci y) = producerVec (ci x)"
    and "consumer y \<noteq> CFlush \<Longrightarrow> consumerVec (ci x) = []"
  shows "keeps A y"
  using assms by (simp add: keeps_def ci_holds_def)

lemma keeps_silent:
  assumes "cstep V S x CSilent y" and keep: "keeps A x" and fit: "added_fit A"
  shows "keeps A y"
proof -
  have vec: "consumer x \<noteq> CFlush \<Longrightarrow> consumerVec (ci x) = []" using keep by (simp add: keeps_def)
  note cong = keeps_cong[OF keep]
  from assms(1) show ?thesis
  proof (cases rule: cstep.cases)
    case (cons_flush r c)
    from keeps_fit[OF keep fit] obtain P where P: "ci_holds (ci x) P" "postings_fit P (consumerVec (ci x))"
      "\<forall>w. docs_of P w @ added_to (consumerVec (ci x)) w @ added_to (producerVec (ci x)) w = A w" by blast
    from flushInBackground_holds[OF P(1,2)] cons_flush(3) obtain cache s' where
      c: "c = (ci x)\<lparr>wordSetCache := cache, ci_store := s', consumerVec := []\<rparr>"
        "ci_holds c (with_postings P (consumerVec (ci x)))" by auto
    show ?thesis unfolding keeps_def cons_flush(1)
      by (intro conjI exI[of _ "with_postings P (consumerVec (ci x))"]) (use c P(3) in \<open>simp_all add: docs_of_with_postings\<close>)
  next
    case (cons_take n)
    then have e: "consumerVec (ci x) = []" using vec by simp
    from keep obtain P where P: "ci_holds (ci x) P"
      "\<forall>w. docs_of P w @ added_to (consumerVec (ci x)) w @ added_to (producerVec (ci x)) w = A w"
      by (auto simp: keeps_def)
    show ?thesis unfolding keeps_def cons_take(1)
      by (intro conjI exI[of _ P]) (use P e in \<open>simp_all add: take_batch_def ci_holds_def\<close>)
  qed (rule cong; simp add: vec)+
qed

lemma cstep_added:
  "cstep V S x (CAdded d words) y \<Longrightarrow> ci y = ci_add_words d words (ci x) \<and> consumer y = consumer x"
  by (erule cstepE) simp_all

lemma keeps_added:
  assumes "cstep V S x (CAdded d words) y" and "keeps A x" and "distinct words"
  shows "keeps (\<lambda>w. if w \<in> set words then A w @ [d] else A w) y"
proof -
  let ?c = "ci x" and ?c' = "ci_add_words d words (ci x)"
  from assms(2) obtain P where P: "ci_holds ?c P"
    "\<And>w. docs_of P w @ added_to (consumerVec ?c) w @ added_to (producerVec ?c) w = A w"
    "consumer x \<noteq> CFlush \<longrightarrow> consumerVec ?c = []" by (auto simp: keeps_def)
  have c': "wordSetCache ?c' = wordSetCache ?c" "ci_store ?c' = ci_store ?c" "consumerVec ?c' = consumerVec ?c"
    "producerVec ?c' = producerVec ?c @ map (\<lambda>w. (d, w)) words" by (simp_all add: ci_add_words_eq)
  have "docs_of P w @ added_to (consumerVec ?c') w @ added_to (producerVec ?c') w
      = (if w \<in> set words then A w @ [d] else A w)" for w
    unfolding c' P(2)[symmetric] by (simp add: added_to_words[OF assms(3)])
  moreover have "ci_holds ?c' P" using P(1) c'(1,2) by (rule ci_holds_cong)
  ultimately show ?thesis using P(3) c'(3) cstep_added[OF assms(1)] unfolding keeps_def by auto
qed

lemma added_fit_prefix: "added_fit (\<lambda>w. if w \<in> W then A w @ [d] else A w) \<Longrightarrow> added_fit A"
  unfolding added_fit_def
proof
  fix w
  assume "\<forall>w. doc_list (if w \<in> W then A w @ [d] else A w) \<and> length (if w \<in> W then A w @ [d] else A w) < 2 ^ 31"
  then show "doc_list (A w) \<and> length (A w) < 2 ^ 31"
    by (cases "w \<in> W") (auto simp: doc_list_def sorted_wrt_append dest: spec[of _ w])
qed

lemma keeps_start:
  assumes "wf s" and "index_holds S docs (amap s) (\<lambda>_. None)"
  shows "keeps (\<lambda>_. []) (start_csystem s junk)"
proof -
  have "entries_hold [] s (\<lambda>_. None)" using assms by (intro entries_holdI) simp_all
  then have "ci_holds (ci (start_csystem s junk)) (\<lambda>_. None)"
    using new_lru_holds[of 100000 junk] by (auto simp: ci_holds_def start_csystem_def new_cached_index_def)
  then show ?thesis
    by (auto simp: keeps_def start_csystem_def new_cached_index_def docs_of_def intro!: exI[of _ "\<lambda>_. None"])
qed

lemma clog_keeps:
  assumes "clog V S (start_csystem s junk) A x" and "wf s" and "index_holds S docs (amap s) (\<lambda>_. None)"
    and "added_fit A"
  shows "keeps A x"
  using assms(1,4)
proof (induction rule: clog.induct)
  case chere
  show ?case by (rule keeps_start[OF assms(2,3)])
next
  case (conward A y z)
  then show ?case using keeps_silent by blast
next
  case (cadded A y d words z)
  then show ?case using keeps_added added_fit_prefix by blast
qed

text \<open>
  Whenever the cache is written back, the store gets all that was added, up to what is still in the
  two vectors.
\<close>

lemma reachable_store:
  assumes log: "clog V S (start_csystem s junk) A x" and s: "wf s" "index_holds S docs (amap s) (\<lambda>_. None)"
    and fit: "added_fit A"
  shows "\<exists>s' P. ci_evictAll V S 100001 (ci x) = Inr s' \<and> wf s' \<and> index_holds S docs (amap s') P
    \<and> (\<forall>w. A w = docs_of P w @ added_to (consumerVec (ci x)) w @ added_to (producerVec (ci x)) w)"
proof -
  from clog_keeps[OF log s fit] obtain P where P: "ci_holds (ci x) P"
    "\<forall>w. docs_of P w @ added_to (consumerVec (ci x)) w @ added_to (producerVec (ci x)) w = A w"
    by (auto simp: keeps_def)
  from ci_evictAll_holds[OF P(1)] obtain s' where
    "ci_evictAll V S 100001 (ci x) = Inr s'" "wf s'" "index_holds S docs (amap s') P" by blast
  with P(2) show ?thesis by (intro exI[of _ s'] exI[of _ P]) simp
qed

text \<open>A consumer with a batch can always process it.\<close>

lemma flush_enabled:
  assumes "clog V S (start_csystem s junk) A x" and "wf s" and "index_holds S docs (amap s) (\<lambda>_. None)"
    and "added_fit A" and "consumer x = CFlush"
  shows "\<exists>y. cstep V S x CSilent y \<and> consumer y = CTop \<and> consumerVec (ci y) = []"
proof -
  from keeps_fit[OF clog_keeps[OF assms(1-4)] assms(4)] obtain P where
    "ci_holds (ci x) P" "postings_fit P (consumerVec (ci x))" by blast
  from flushInBackground_holds[OF this] obtain cache s' where
    "flushInBackground V S (ci x) = Inr (1, (ci x)\<lparr>wordSetCache := cache, ci_store := s', consumerVec := []\<rparr>)" by blast
  from cstep.cons_flush[OF assms(5) this] show ?thesis by (intro exI conjI) auto
qed

end

section \<open>Shutting down\<close>

text \<open>
  The consumer ends as soon as it finds \<open>done\<close> at the head of its loop, whatever is in the vector of the
  producer.  When the caller adds a document and destroys the index before the consumer gets to
  take the vector, the document is in neither the cache nor the store.
\<close>

lemma added_batchsize: "ci_batchsize (ci_add_words d [w] c) = int32 (ci_batchsize c + 1)"
  "maxbatchsize (ci_add_words d words c) = maxbatchsize c"
  by (simp_all add: ci_add_words_eq push_posting_def)

lemma clog_words:
  assumes "clog V S x A y" and "cstep V S y (CAdded d [w]) z"
  shows "clog V S x (\<lambda>v. if v = w then A v @ [d] else A v) z"
  using clog.cadded[OF assms] by simp

lemma shutdown_loses:
  "\<exists>x. clog V S (start_csystem s junk) (\<lambda>v. if v = w then [d] else []) x \<and> caller x = KStopped
    \<and> producerVec (ci x) = [(d, w)] \<and> ci_evictAll V S 100001 (ci x) = Inr s"
proof -
  let ?x0 = "start_csystem s junk"
  let ?x1 = "?x0\<lparr>ci := ci_add_words d [w] (ci ?x0)\<rparr>"
  let ?x2 = "?x1\<lparr>caller := KWaiting\<rparr>"
  let ?x3 = "?x2\<lparr>caller := KIdle\<rparr>"
  let ?x4 = "?x3\<lparr>caller := KJoining, ci := (ci ?x3)\<lparr>ci_done := True\<rparr>\<rparr>"
  let ?x5 = "?x4\<lparr>consumer := CGone\<rparr>"
  let ?x6 = "?x5\<lparr>caller := KStopped\<rparr>"
  let ?log = "clog V S ?x0 (\<lambda>v. if v = w then [d] else [])"
  note start = start_csystem_def new_cached_index_def
  have "cstep V S ?x0 (CAdded d [w]) ?x1" by (rule cstep.call_add_set) (simp add: start)
  from clog_words[OF clog.chere this, unfolded append_Nil] have l1: "?log ?x1" .
  have "cstep V S ?x1 CSilent ?x2" by (rule cstep.call_flush) (simp add: start)
  from clog.conward[OF l1 this] have l2: "?log ?x2" .
  have "cstep V S ?x2 CSilent ?x3"
    by (rule cstep.call_return) (simp_all add: flushBatch_returns_def added_batchsize start)
  from clog.conward[OF l2 this] have l3: "?log ?x3" .
  have "cstep V S ?x3 CSilent ?x4" by (rule cstep.call_stop) (simp_all add: start ci_add_words_def push_posting_def)
  from clog.conward[OF l3 this] have l4: "?log ?x4" .
  have "cstep V S ?x4 CSilent ?x5" by (rule cstep.cons_exit) (simp_all add: start)
  from clog.conward[OF l4 this] have l5: "?log ?x5" .
  have "cstep V S ?x5 CSilent ?x6" by (rule cstep.call_join) simp_all
  from clog.conward[OF l5 this] have l6: "?log ?x6" .
  have vec: "wordSetCache (ci ?x6) = new_lru 100000 junk" "ci_store (ci ?x6) = s" "producerVec (ci ?x6) = [(d, w)]"
    by (simp_all add: start ci_add_words_def push_posting_def)
  have "ci_evictAll V S 100001 (ci ?x6) = Inr s"
    using lru_evictAll_refines[OF new_lru_holds, of 100001 "evictPut V S" 100000 junk s]
    unfolding ci_evictAll_def vec by simp
  with l6 vec(3) show ?thesis by (intro exI[of _ ?x6] conjI) simp_all
qed

text \<open>When the consumer takes the vector before, the document is stored.\<close>

context inverted_index
begin

lemma shutdown_stores:
  assumes s: "wf s" "index_holds S docs (amap s) (\<lambda>_. None)" and d: "d \<noteq> NO_MORE_DOCS"
  shows "\<exists>x. clog V S (start_csystem s junk) (\<lambda>v. if v = w then [d] else []) x \<and> consumer x = CGone
    \<and> consumerVec (ci x) = [] \<and> producerVec (ci x) = []"
proof -
  let ?x0 = "start_csystem s junk"
  let ?x1 = "?x0\<lparr>ci := ci_add_words d [w] (ci ?x0)\<rparr>"
  let ?x2 = "?x1\<lparr>consumer := CQueue\<rparr>"
  let ?x3 = "?x2\<lparr>consumer := CPolled (ci_batchsize (ci ?x2))\<rparr>"
  let ?x4 = "?x3\<lparr>consumer := CFlush, ci := take_batch (ci ?x3)\<rparr>"
  let ?A = "\<lambda>v. if v = w then [d] else []"
  let ?log = "clog V S ?x0 ?A"
  note start = start_csystem_def new_cached_index_def ci_add_words_def push_posting_def
  have "cstep V S ?x0 (CAdded d [w]) ?x1" by (rule cstep.call_add_set) (simp add: start)
  from clog_words[OF clog.chere this, unfolded append_Nil] have l1: "?log ?x1" .
  have "cstep V S ?x1 CSilent ?x2" by (rule cstep.cons_enter) (simp_all add: start)
  from clog.conward[OF l1 this] have l2: "?log ?x2" .
  have "cstep V S ?x2 CSilent ?x3" by (rule cstep.cons_poll) simp
  from clog.conward[OF l2 this] have l3: "?log ?x3" .
  have "cstep V S ?x3 CSilent ?x4" 
    by (rule cstep.cons_take[where n = "ci_batchsize (ci ?x2)"]) (simp, simp add: start)
  from clog.conward[OF l3 this] have l4: "?log ?x4" .
  have fit: "added_fit ?A" using d by (simp add: added_fit_def doc_list_def)
  from keeps_fit[OF clog_keeps[OF l4 s fit] fit] obtain P where
    "ci_holds (ci ?x4) P" "postings_fit P (consumerVec (ci ?x4))" by blast
  from flushInBackground_holds[OF this] obtain cache s' where
    "flushInBackground V S (ci ?x4) = Inr (1, (ci ?x4)\<lparr>wordSetCache := cache, ci_store := s', consumerVec := []\<rparr>)" by blast
  then obtain c where fl: "flushInBackground V S (ci ?x4) = Inr (1, c)"
    and c: "c = (ci ?x4)\<lparr>wordSetCache := cache, ci_store := s', consumerVec := []\<rparr>" by blast
  let ?x5 = "?x4\<lparr>consumer := CTop, ci := c\<rparr>"
  let ?x6 = "?x5\<lparr>caller := KJoining, ci := (ci ?x5)\<lparr>ci_done := True\<rparr>\<rparr>"
  let ?x7 = "?x6\<lparr>consumer := CGone\<rparr>"
  have "cstep V S ?x4 CSilent ?x5" by (rule cstep.cons_flush[OF _ fl]) simp
  from clog.conward[OF l4 this] have l5: "?log ?x5" .
  have "\<not> ci_done c" "producerVec c = []" "consumerVec c = []" unfolding c by (simp_all add: start take_batch_def)
  note c2 = this
  have "cstep V S ?x5 CSilent ?x6" by (rule cstep.call_stop) (use c2 in \<open>simp_all add: start_csystem_def\<close>)
  from clog.conward[OF l5 this] have l6: "?log ?x6" .
  have "cstep V S ?x6 CSilent ?x7" by (rule cstep.cons_exit) simp_all
  from clog.conward[OF l6 this] have l7: "?log ?x7" .
  show ?thesis by (intro exI[of _ ?x7] conjI l7) (use c2 in simp_all)
qed

end

end
