(* ===== verification/Statistics.thy ===== *)
theory Statistics
  imports Prelude
begin

text \<open>
  The statistics of the server (\<^verbatim>\<open>src/src/Statistics.hpp\<close>): how long requests took and how often
  queries were asked.
\<close>

section \<open>State\<close>

text \<open>Two hash tables; a time is a number of nanoseconds.\<close>

record statistics =
  queries :: "bytes \<rightharpoonup> u32"
  requestTimes :: "bytes \<rightharpoonup> int list"

definition new_statistics :: statistics where
  "new_statistics = \<lparr>queries = (\<lambda>_. None), requestTimes = (\<lambda>_. None)\<rparr>"

definition logRequestTime :: "bytes \<Rightarrow> int \<Rightarrow> statistics \<Rightarrow> statistics" where
  "logRequestTime request timeTaken st =
     (case requestTimes st request of
        Some ts \<Rightarrow> st\<lparr>requestTimes := (requestTimes st)(request \<mapsto> ts @ [timeTaken])\<rparr>
      | None \<Rightarrow> st\<lparr>requestTimes := (requestTimes st)(request \<mapsto> [timeTaken])\<rparr>)"

definition getRequestTimes :: "bytes \<Rightarrow> statistics \<Rightarrow> int list" where
  "getRequestTimes request st = (case requestTimes st request of Some ts \<Rightarrow> ts | None \<Rightarrow> [])"

definition addQuery :: "bytes \<Rightarrow> statistics \<Rightarrow> statistics" where
  "addQuery query st =
     (case queries st query of
        Some n \<Rightarrow> st\<lparr>queries := (queries st)(query \<mapsto> n + 1)\<rparr>
      | None \<Rightarrow> st\<lparr>queries := (queries st)(query \<mapsto> 1)\<rparr>)"

section \<open>The queries by their counts\<close>

text \<open>
  A \<^verbatim>\<open>map<unsigned int, set<string>, classcomp>\<close> is the list of its elements in its order, largest
  key first.  \<open>insert\<close> does nothing when the key is there.
\<close>

type_synonym top_queries = "(u32 \<times> bytes set) list"

definition classcomp :: "u32 \<Rightarrow> u32 \<Rightarrow> bool" where
  "classcomp lhs rhs \<longleftrightarrow> lhs > rhs"

fun map_insert :: "u32 \<Rightarrow> bytes set \<Rightarrow> top_queries \<Rightarrow> top_queries" where
  "map_insert n qs [] = [(n, qs)]"
| "map_insert n qs ((m, x) # ts) =
     (if classcomp n m then (n, qs) # (m, x) # ts
      else if classcomp m n then (m, x) # map_insert n qs ts else (m, x) # ts)"

definition top_add :: "bytes \<Rightarrow> u32 \<Rightarrow> top_queries \<Rightarrow> top_queries" where
  "top_add query n ts =
     (if n \<in> fst ` set ts then map (\<lambda>(m, x). (m, if m = n then insert query x else x)) ts
      else map_insert n {query} ts)"

text \<open>\<open>order\<close> is the sequence in which the hash table is iterated.\<close>

definition top_all :: "bytes list \<Rightarrow> (bytes \<rightharpoonup> u32) \<Rightarrow> top_queries" where
  "top_all order Q = fold (\<lambda>q. top_add q (the (Q q))) order []"

definition getTopQueries :: "u32 \<Rightarrow> bytes list \<Rightarrow> statistics \<Rightarrow> top_queries" where
  "getTopQueries count order st =
     (let topQueries = top_all order (queries st) in
      if length topQueries \<le> unat count then topQueries else take (unat count) topQueries)"

section \<open>What they answer\<close>

fun query_times :: "bytes \<Rightarrow> (bytes \<times> int) list \<Rightarrow> int list" where
  "query_times r [] = []"
| "query_times r ((q, t) # ls) = (if q = r then t # query_times r ls else query_times r ls)"

lemma log_times:
  "getRequestTimes r (fold (\<lambda>(q, t). logRequestTime q t) ls st) = getRequestTimes r st @ query_times r ls"
  by (induction ls arbitrary: st) (auto simp: getRequestTimes_def logRequestTime_def split: option.splits)

text \<open>After any sequence of queries the count of each is how often it was asked, modulo \<open>2^32\<close>.\<close>

lemma addQuery_counts:
  "queries (fold addQuery qs new_statistics) q = (if q \<in> set qs then Some (of_nat (count_list qs q)) else None)"
proof (induction qs rule: rev_induct)
  case (snoc x qs)
  then show ?case by (auto simp: addQuery_def split: option.splits)
qed (simp add: new_statistics_def)

lemma map_insert_set:
  "n \<notin> fst ` set ts \<Longrightarrow> set (map_insert n qs ts) = insert (n, qs) (set ts)"
proof (induction ts)
  case (Cons t ts)
  obtain m x where t: "t = (m, x)" by (cases t)
  from Cons.prems t have "n < m \<or> m < n" by auto
  then show ?case using Cons by (auto simp: t classcomp_def insert_commute)
qed simp

lemma classcomp_list: "sorted_wrt classcomp ns \<Longrightarrow> distinct ns \<and> sorted (rev ns)"
  by (induction ns) (auto simp: classcomp_def sorted_append)

lemma map_insert_sorted:
  assumes "sorted_wrt classcomp (map fst ts)" and "n \<notin> fst ` set ts"
  shows "sorted_wrt classcomp (map fst (map_insert n qs ts))"
  using assms
proof (induction ts)
  case (Cons t ts)
  obtain m x where t: "t = (m, x)" by (cases t)
  with Cons.prems have "n \<noteq> m" by auto
  then show ?case using Cons map_insert_set[of n ts qs] by (auto simp: t classcomp_def)
qed simp

definition grouped :: "bytes set \<Rightarrow> (bytes \<rightharpoonup> u32) \<Rightarrow> (u32 \<times> bytes set) set" where
  "grouped D Q = (\<lambda>n. (n, {q\<in>D. Q q = Some n})) ` {n. \<exists>q\<in>D. Q q = Some n}"

lemma top_add_grouped:
  assumes "set ts = grouped D Q" and "sorted_wrt classcomp (map fst ts)" and "Q q = Some n"
  shows "set (top_add q n ts) = grouped (insert q D) Q \<and> sorted_wrt classcomp (map fst (top_add q n ts))"
proof (cases "\<exists>q\<in>D. Q q = Some n")
  case True
  then have n: "n \<in> fst ` set ts" by (force simp: assms(1) grouped_def)
  have "map fst (top_add q n ts) = map fst ts" using n by (auto simp: top_add_def)
  moreover have "set (top_add q n ts) = grouped (insert q D) Q"
    using n True assms(3) by (auto simp: top_add_def assms(1) grouped_def image_iff)
  ultimately show ?thesis using assms(2) by simp
next
  case False
  then have n: "n \<notin> fst ` set ts" by (auto simp: assms(1) grouped_def)
  have "grouped (insert q D) Q = insert (n, {q}) (grouped D Q)"
    using False assms(3) by (auto simp: grouped_def image_iff)
  then show ?thesis using n map_insert_set[OF n, of "{q}"] map_insert_sorted[OF assms(2) n, of "{q}"] assms(1)
    by (simp add: top_add_def)
qed

lemma top_all_grouped:
  assumes "set order \<subseteq> dom Q"
  shows "set (top_all order Q) = grouped (set order) Q \<and> sorted_wrt classcomp (map fst (top_all order Q))"
  using assms
proof (induction order rule: rev_induct)
  case Nil
  then show ?case by (simp add: top_all_def grouped_def)
next
  case (snoc q order)
  then obtain n where n: "Q q = Some n" by auto
  with snoc have "set (top_all order Q) = grouped (set order) Q" "sorted_wrt classcomp (map fst (top_all order Q))"
    by simp_all
  from top_add_grouped[OF this n] n show ?case by (simp add: top_all_def)
qed

lemma top_all_eq:
  assumes "set order = dom Q"
  shows "top_all order Q = map (\<lambda>n. (n, {q. Q q = Some n})) (rev (sorted_list_of_set (ran Q)))"
proof -
  let ?ts = "top_all order Q"
  from top_all_grouped[of order Q] assms have ts: "set ?ts = grouped (dom Q) Q" "sorted_wrt classcomp (map fst ?ts)"
    by simp_all
  have "{n. \<exists>q\<in>dom Q. Q q = Some n} = ran Q" and m: "{q\<in>dom Q. Q q = Some n} = {q. Q q = Some n}" for n
    by (auto simp: ran_def)
  then have g: "grouped (dom Q) Q = (\<lambda>n. (n, {q. Q q = Some n})) ` ran Q" by (simp add: grouped_def)
  have keys: "rev (map fst ?ts) = sorted_list_of_set (ran Q)"
  proof (rule sym, rule sorted_distinct_set_unique)
    show "sorted (rev (map fst ?ts))" "distinct (rev (map fst ?ts))"
      using classcomp_list[OF ts(2)] by simp_all
    have "finite (ran Q)" using assms by (metis List.finite_set finite_ran)
    then show "set (sorted_list_of_set (ran Q)) = set (rev (map fst ?ts))" by (simp add: ts(1) g image_image)
  qed simp_all
  have "map (\<lambda>n. (n, {q. Q q = Some n})) (map fst ?ts) = ?ts"
    unfolding map_map by (rule map_idI) (auto simp: ts(1) g)
  then show ?thesis unfolding keys[symmetric] by simp
qed

lemma getTopQueries_eq:
  assumes "set order = dom (queries st)"
  shows "getTopQueries count order st
    = map (\<lambda>n. (n, {q. queries st q = Some n})) (take (unat count) (rev (sorted_list_of_set (ran (queries st)))))"
  by (simp add: getTopQueries_def Let_def top_all_eq[OF assms] take_map)

text \<open>After a list of queries: for the highest counts the queries that were asked so often.\<close>

lemma sorted_of_nat_image:
  assumes "finite N" and "\<forall>n\<in>N. n < 2 ^ 32"
  shows "sorted_list_of_set ((of_nat :: nat \<Rightarrow> u32) ` N) = map of_nat (sorted_list_of_set N)"
proof (rule sym, rule sorted_distinct_set_unique)
  have less: "(of_nat m :: u32) < of_nat n" if "m < n" "n \<in> N" for m n
    using that assms(2) by (auto simp: word_less_nat_alt unat_of_nat)
  have "sorted_wrt (<) (sorted_list_of_set N)" by simp
  then have "sorted_wrt (\<lambda>m n. (of_nat m :: u32) < of_nat n) (sorted_list_of_set N)"
    by (rule sorted_wrt_mono_rel[rotated]) (use less assms(1) in auto)
  then have "sorted_wrt (<) (map (of_nat :: nat \<Rightarrow> u32) (sorted_list_of_set N))" by (simp add: sorted_wrt_map)
  then show "sorted (map (of_nat :: nat \<Rightarrow> u32) (sorted_list_of_set N))"
    "distinct (map (of_nat :: nat \<Rightarrow> u32) (sorted_list_of_set N))"
    by (simp_all add: strict_sorted_iff)
qed (use assms(1) in simp_all)

lemma top_queries_of_log:
  assumes "set order = set qs" and "length qs < 2 ^ 32"
  shows "getTopQueries count order (fold addQuery qs new_statistics)
    = map (\<lambda>n. (of_nat n, {q\<in>set qs. count_list qs q = n}))
        (take (unat count) (rev (sorted_list_of_set (count_list qs ` set qs))))"
proof -
  let ?Q = "queries (fold addQuery qs new_statistics)" and ?N = "count_list qs ` set qs"
  have Q: "?Q = (\<lambda>q. if q \<in> set qs then Some (of_nat (count_list qs q)) else None)"
    by (rule ext) (rule addQuery_counts)
  have lt: "\<forall>n\<in>?N. n < 2 ^ 32" using assms(2) count_le_length[of qs] le_less_trans by blast
  have "set order = dom ?Q" by (auto simp: assms(1) Q split: if_splits)
  moreover have "ran ?Q = of_nat ` ?N" by (auto simp: Q ran_def)
  moreover have "{q. ?Q q = Some (of_nat n)} = {q\<in>set qs. count_list qs q = n}" if "n \<in> ?N" for n
  proof -
    have "(of_nat (count_list qs q) :: u32) = of_nat n \<longleftrightarrow> count_list qs q = n" if "q \<in> set qs" for q
    proof -
      have "n < 2 ^ 32" "count_list qs q < 2 ^ 32" using lt that \<open>n \<in> ?N\<close> by blast+
      then show ?thesis by (simp add: word_unat_eq_iff unat_of_nat)
    qed
    then show ?thesis by (auto simp: Q)
  qed
  ultimately show ?thesis
    using sorted_of_nat_image[of ?N] lt
    by (simp add: getTopQueries_eq rev_map take_map)
      (intro ballI, drule in_set_takeD, simp)
qed

end
