(* ===== verification/LevelDbStore.thy ===== *)
theory LevelDbStore
  imports KVStore
begin

text \<open>
  The persistent store \<^verbatim>\<open>src/src/KVStoreLevelDb.hpp\<close>.  It passes every call to leveldb, a library that
  is a parameter here; with what its documentation promises the store keeps the contract
  \<open>kv_store\<close>, so that all that is proved of the index and of the engine holds over it.
\<close>

section \<open>The library\<close>

text \<open>
  The calls of \<^verbatim>\<open>leveldb::DB\<close>, each with the answer of \<^verbatim>\<open>Status::ok\<close>.  \<open>db_Get\<close> takes and returns the value of
  its pointer argument; \<open>db_Write\<close> gets the puts of a \<^verbatim>\<open>WriteBatch\<close>; \<open>db_Open\<close> opens the database at a path,
  behind a \<^verbatim>\<open>DestroyDB\<close> when its first argument is set.
\<close>

record 'd leveldb_ops =
  db_Open :: "bool \<Rightarrow> bytes \<Rightarrow> bool \<times> 'd"
  db_Put :: "bytes \<Rightarrow> bytes \<Rightarrow> 'd \<Rightarrow> bool \<times> 'd"
  db_Get :: "bytes \<Rightarrow> bytes \<Rightarrow> 'd \<Rightarrow> bool \<times> bytes"
  db_Delete :: "bytes \<Rightarrow> 'd \<Rightarrow> bool \<times> 'd"
  db_Write :: "(bytes \<times> bytes) list \<Rightarrow> 'd \<Rightarrow> bool \<times> 'd"
  db_CompactRange :: "'d \<Rightarrow> 'd"

text \<open>
  \<^verbatim>\<open>leveldb/include/leveldb/db.h\<close>: \<open>Put\<close> sets the entry of a key, \<open>Get\<close> stores the value of a key that is there
  and else leaves the argument unchanged and is not ok, \<open>Delete\<close> removes the entry and it is no error
  when there is none, \<open>Write\<close> applies the updates in their order, and a database that has been destroyed
  opens empty.  On a good database no call but \<open>Open\<close> fails.
\<close>

definition leveldb_contract :: "'d leveldb_ops \<Rightarrow> ('d \<Rightarrow> (bytes \<rightharpoonup> bytes)) \<Rightarrow> ('d \<Rightarrow> bool) \<Rightarrow> bool" where
  "leveldb_contract L dmap good \<longleftrightarrow>
     (\<forall>d k v. good d \<longrightarrow> (\<exists>d'. db_Put L k v d = (True, d') \<and> dmap d' = (dmap d)(k \<mapsto> v) \<and> good d'))
   \<and> (\<forall>d k x. good d \<longrightarrow> db_Get L k x d = (case dmap d k of None \<Rightarrow> (False, x) | Some v \<Rightarrow> (True, v)))
   \<and> (\<forall>d k. good d \<longrightarrow> (\<exists>d'. db_Delete L k d = (True, d') \<and> dmap d' = (dmap d)(k := None) \<and> good d'))
   \<and> (\<forall>d ws. good d \<longrightarrow> (\<exists>d'. db_Write L ws d = (True, d') \<and> dmap d' = put_all ws (dmap d) \<and> good d'))
   \<and> (\<forall>path d. db_Open L True path = (True, d) \<longrightarrow> good d \<and> dmap d = (\<lambda>_. None))"

section \<open>The store\<close>

text \<open>The constructor and \<open>Open\<close>.\<close>

definition ldb_Open :: "'d leveldb_ops \<Rightarrow> bytes \<Rightarrow> bool \<Rightarrow> (status \<times> 'd) res" where
  "ldb_Open L path destroy = (case db_Open L destroy path of (ok, db) \<Rightarrow> if \<not> ok then Inl ZExceptionThrown else Inr (kOk, db))"

definition ldb_Put :: "'d leveldb_ops \<Rightarrow> bytes \<Rightarrow> bytes \<Rightarrow> 'd \<Rightarrow> status \<times> 'd" where
  "ldb_Put L key value db = (case db_Put L key value db of (ok, db') \<Rightarrow> (if ok then kOk else kNotFound, db'))"

definition ldb_Put64 :: "'d leveldb_ops \<Rightarrow> u64 \<Rightarrow> bytes \<Rightarrow> 'd \<Rightarrow> (status \<times> 'd) res" where
  "ldb_Put64 L key value db = rbind (PutVarint64 [] key) (\<lambda>keystr. Inr (ldb_Put L keystr value db))"

definition ldb_Get :: "'d leveldb_ops \<Rightarrow> bytes \<Rightarrow> bytes \<Rightarrow> 'd \<Rightarrow> status \<times> bytes" where
  "ldb_Get L key value db = (case db_Get L key value db of (ok, value') \<Rightarrow> (if ok then kOk else kNotFound, value'))"

definition ldb_Get64 :: "'d leveldb_ops \<Rightarrow> u64 \<Rightarrow> bytes \<Rightarrow> 'd \<Rightarrow> (status \<times> bytes) res" where
  "ldb_Get64 L key value db = rbind (PutVarint64 [] key) (\<lambda>keystr. Inr (ldb_Get L keystr value db))"

definition ldb_Delete :: "'d leveldb_ops \<Rightarrow> bytes \<Rightarrow> 'd \<Rightarrow> status \<times> 'd" where
  "ldb_Delete L key db = (case db_Delete L key db of (ok, db') \<Rightarrow> (if ok then kOk else kNotFound, db'))"

definition ldb_Delete64 :: "'d leveldb_ops \<Rightarrow> u64 \<Rightarrow> 'd \<Rightarrow> (status \<times> 'd) res" where
  "ldb_Delete64 L key db = rbind (PutVarint64 [] key) (\<lambda>keystr. Inr (ldb_Delete L keystr db))"

definition ldb_Compact :: "'d leveldb_ops \<Rightarrow> 'd \<Rightarrow> 'd" where
  "ldb_Compact L db = db_CompactRange L db"

text \<open>The two \<open>Put\<close>s of many pairs collect them in a batch of their own.\<close>

definition ldb_batch32 :: "(u32 \<times> bytes) list \<Rightarrow> (bytes \<times> bytes) list res" where
  "ldb_batch32 writes =
     fold_res (\<lambda>batch kv. rbind (PutVarint64 [] (ucast (fst kv))) (\<lambda>keystr. Inr (batch @ [(keystr, snd kv)]))) [] writes"

definition ldb_PutMany32 :: "'d leveldb_ops \<Rightarrow> (u32 \<times> bytes) list \<Rightarrow> 'd \<Rightarrow> (status \<times> 'd) res" where
  "ldb_PutMany32 L writes db =
     rbind (ldb_batch32 writes) (\<lambda>batch.
       Inr (case db_Write L batch db of (ok, db') \<Rightarrow> (if ok then kOk else kNotFound, db')))"

definition ldb_PutMany :: "'d leveldb_ops \<Rightarrow> (bytes \<times> bytes) list \<Rightarrow> 'd \<Rightarrow> status \<times> 'd" where
  "ldb_PutMany L writes db =
     (let batch = foldl (\<lambda>batch kv. batch @ [(fst kv, snd kv)]) [] writes in
      case db_Write L batch db of (ok, db') \<Rightarrow> (if ok then kOk else kNotFound, db'))"

definition ldb_vtable :: "'d leveldb_ops \<Rightarrow> 'd kv_vtable" where
  "ldb_vtable L = \<lparr>kv_Put = ldb_Put L, kv_Put64 = ldb_Put64 L, kv_Get = ldb_Get L, kv_Get64 = ldb_Get64 L,
     kv_Delete = ldb_Delete L, kv_Delete64 = ldb_Delete64 L, kv_PutMany = ldb_PutMany L,
     kv_PutMany32 = ldb_PutMany32 L\<rparr>"

section \<open>It keeps the contract of a store\<close>

lemma ldb_batch_eq: "foldl (\<lambda>batch kv. batch @ [kv]) acc writes = acc @ writes"
  by (induction writes arbitrary: acc) simp_all

lemma ldb_batch32_eq: "ldb_batch32 writes = Inr (map (\<lambda>(n, v). (int_key n, v)) writes)"
proof -
  have "fold_res (\<lambda>batch kv. rbind (PutVarint64 [] (ucast (fst kv))) (\<lambda>keystr. Inr (batch @ [(keystr, snd kv)]))) acc writes
      = Inr (acc @ map (\<lambda>(n, v). (int_key n, v)) writes)" for acc
  proof (induction writes arbitrary: acc)
    case (Cons w writes)
    then show ?case using int_key_ucast[of "fst w"] by (cases w) (simp add: int_key_def)
  qed simp
  from this[of "[]"] show ?thesis by (simp add: ldb_batch32_def)
qed

lemma leveldb_contractD:
  assumes "leveldb_contract L dmap good" and "good d"
  obtains d1 d2 d3 where "db_Put L k v d = (True, d1)" "dmap d1 = (dmap d)(k \<mapsto> v)" "good d1"
    and "db_Get L k x d = (case dmap d k of None \<Rightarrow> (False, x) | Some v \<Rightarrow> (True, v))"
    and "db_Delete L k d = (True, d2)" "dmap d2 = (dmap d)(k := None)" "good d2"
    and "db_Write L ws d = (True, d3)" "dmap d3 = put_all ws (dmap d)" "good d3"
proof -
  have "\<exists>d'. db_Put L k v d = (True, d') \<and> dmap d' = (dmap d)(k \<mapsto> v) \<and> good d'"
    and "\<exists>d'. db_Delete L k d = (True, d') \<and> dmap d' = (dmap d)(k := None) \<and> good d'"
    and "\<exists>d'. db_Write L ws d = (True, d') \<and> dmap d' = put_all ws (dmap d) \<and> good d'"
    and "db_Get L k x d = (case dmap d k of None \<Rightarrow> (False, x) | Some v \<Rightarrow> (True, v))"
    using assms by (simp_all add: leveldb_contract_def)
  then show ?thesis using that by blast
qed

lemma leveldb_store:
  assumes contract: "leveldb_contract L dmap good"
  shows "kv_store (ldb_vtable L) dmap good"
proof
  fix s k v x ws and iws :: "(u32 \<times> bytes) list"
  assume good: "good s"
  obtain d1 d2 d3 where d: "db_Put L k v s = (True, d1)" "dmap d1 = (dmap s)(k \<mapsto> v)" "good d1"
    "db_Get L k x s = (case dmap s k of None \<Rightarrow> (False, x) | Some v \<Rightarrow> (True, v))"
    "db_Delete L k s = (True, d2)" "dmap d2 = (dmap s)(k := None)" "good d2"
    "db_Write L ws s = (True, d3)" "dmap d3 = put_all ws (dmap s)" "good d3"
    using leveldb_contractD[OF contract good, of k v x ws] .
  show "\<exists>s'. kv_Put (ldb_vtable L) k v s = (kOk, s') \<and> dmap s' = (dmap s)(k \<mapsto> v) \<and> good s'"
    by (intro exI[of _ d1]) (simp add: ldb_vtable_def ldb_Put_def d(1,2,3))
  show "kv_Get (ldb_vtable L) k x s = (case dmap s k of None \<Rightarrow> (kNotFound, x) | Some v \<Rightarrow> (kOk, v))"
    by (simp add: ldb_vtable_def ldb_Get_def d(4) split: option.split)
  show "\<exists>st s'. kv_Delete (ldb_vtable L) k s = (st, s') \<and> dmap s' = (dmap s)(k := None) \<and> good s'"
    by (intro exI[of _ kOk] exI[of _ d2]) (simp add: ldb_vtable_def ldb_Delete_def d(5,6,7))
  show "\<exists>s'. kv_PutMany (ldb_vtable L) ws s = (kOk, s') \<and> dmap s' = put_all ws (dmap s) \<and> good s'"
    by (intro exI[of _ d3]) (simp add: ldb_vtable_def ldb_PutMany_def ldb_batch_eq d(8,9,10))
  obtain d4 where d4: "db_Write L (map (\<lambda>(n, v). (int_key n, v)) iws) s = (True, d4)"
    "dmap d4 = put_all (map (\<lambda>(n, v). (int_key n, v)) iws) (dmap s)" "good d4"
    using leveldb_contractD[OF contract good, of k v x "map (\<lambda>(n, v). (int_key n, v)) iws"] by metis
  show "\<exists>s'. kv_PutMany32 (ldb_vtable L) iws s = Inr (kOk, s')
      \<and> dmap s' = put_all (map (\<lambda>(n, v). (int_key n, v)) iws) (dmap s) \<and> good s'"
    by (intro exI[of _ d4]) (simp add: ldb_vtable_def ldb_PutMany32_def ldb_batch32_eq d4)
qed (simp_all add: ldb_vtable_def ldb_Put64_def ldb_Get64_def ldb_Delete64_def int_key_def)

text \<open>A database that is the map itself.\<close>

definition map_leveldb :: "(bytes \<rightharpoonup> bytes) leveldb_ops" where
  "map_leveldb = \<lparr>db_Open = (\<lambda>_ _. (True, \<lambda>_. None)), db_Put = (\<lambda>k v d. (True, d(k \<mapsto> v))),
     db_Get = (\<lambda>k x d. case d k of None \<Rightarrow> (False, x) | Some v \<Rightarrow> (True, v)),
     db_Delete = (\<lambda>k d. (True, d(k := None))), db_Write = (\<lambda>ws d. (True, put_all ws d)),
     db_CompactRange = (\<lambda>d. d)\<rparr>"

lemma map_leveldb_contract: "leveldb_contract map_leveldb (\<lambda>d. d) (\<lambda>_. True)"
  by (simp add: leveldb_contract_def map_leveldb_def)

end
