(* ===== verification/ImportProgram.thy ===== *)
theory ImportProgram
  imports EngineThreads EngineAccess LevelDbStore
begin

text \<open>
  The program \<^verbatim>\<open>src/src/engine_simple_main.cpp\<close>: it reads a file of comma-separated values line by line
  and adds every line to an engine over a store of leveldb.
\<close>

section \<open>Reading a line\<close>

text \<open>
  \<open>fgets\<close> of the C library on the bytes that are left of the file: up to \<open>n - 1\<close> of them, but not
  beyond a line feed.
\<close>

definition fgets :: "nat \<Rightarrow> bytes \<Rightarrow> (bytes \<times> bytes) option" where
  "fgets n inp =
     (if inp = [] then None
      else
        let pre = take (n - 1) inp;
            chunk = (if 10 \<in> set pre then takeWhile (\<lambda>c. c \<noteq> 10) pre @ [10] else pre) in
        Some (chunk, drop (length chunk) inp))"

definition max_buffer :: nat where "max_buffer = 65536"

text \<open>A buffer read as a C string.\<close>

definition c_string :: "bytes \<Rightarrow> bytes" where
  "c_string buffer = takeWhile (\<lambda>c. c \<noteq> 0) buffer"

text \<open>
  The loop of \<open>fast_getline\<close> with its line, its buffer and what is left of the file.  When
  \<open>fgets\<close> fails behind the first chunk, the buffer still has the last chunk and is appended again.
\<close>

lemma fgets_less: "fgets max_buffer inp = Some (chunk, rest) \<Longrightarrow> length rest < length inp"
  by (cases inp) (auto simp: fgets_def max_buffer_def Let_def split: if_splits)

function getline_loop :: "bytes \<Rightarrow> bytes \<Rightarrow> bytes \<Rightarrow> (bool \<times> bytes \<times> bytes) res" where
  "getline_loop line buffer inp =
     (case fgets max_buffer inp of
        None \<Rightarrow>
          if line = [] then Inr (False, line, inp) else Inr (True, line @ c_string buffer, inp)
      | Some (chunk, rest) \<Rightarrow>
          let line' = line @ c_string chunk in
          if line' = [] then Inl OutOfBounds
          else if last line' = 10 then Inr (True, line', rest)
          else getline_loop line' chunk rest)"
  by pat_completeness auto
termination
  by (relation "measure (\<lambda>(line, buffer, inp). length inp)") (auto dest: fgets_less)

declare getline_loop.simps [simp del]

definition fast_getline :: "bytes \<Rightarrow> (bool \<times> bytes \<times> bytes) res" where
  "fast_getline file = getline_loop [] [] file"

section \<open>A line as a document\<close>

text \<open>The values of the loop over \<open>find_first_of\<close> and \<open>substr\<close>, from the last delimiter on.\<close>

function line_values :: "bytes \<Rightarrow> bytes list" where
  "line_values inp =
     takeWhile (\<lambda>c. c \<noteq> 44) inp # (if 44 \<in> set inp then line_values (tl (dropWhile (\<lambda>c. c \<noteq> 44) inp)) else [])"
  by pat_completeness auto
termination
proof (relation "measure length", goal_cases)
  case (2 inp)
  then have "dropWhile (\<lambda>c. c \<noteq> 44) inp \<noteq> []" by (auto simp: dropWhile_eq_Nil_conv)
  moreover have "length (dropWhile (\<lambda>c. c \<noteq> 44) inp) \<le> length inp" by (rule length_dropWhile_le)
  ultimately show ?case by (cases "dropWhile (\<lambda>c. c \<noteq> 44) inp") auto
qed simp

declare line_values.simps [simp del]

text \<open>
  The fields are named by their number, through \<open>PutUint64\<close>; \<open>stack i\<close> is what the call for
  field \<open>i\<close> finds in its buffer.
\<close>

definition line_document :: "(nat \<Rightarrow> bytes) \<Rightarrow> bytes \<Rightarrow> document res" where
  "line_document stack line =
     fold_res (\<lambda>doc (fieldId, v). rbind (PutUint64 (stack fieldId) [] (of_nat fieldId)) (\<lambda>fieldstr.
       Inr (addEntry fieldstr v doc))) new_document (enumerate 0 (line_values line))"

section \<open>The program\<close>

text \<open>The loop over the lines; \<open>stacks n\<close> is the stack of line \<open>n\<close>.\<close>

lemma getline_loop_less:
  "getline_loop line buffer inp = Inr (True, line', rest) \<Longrightarrow> line = [] \<Longrightarrow> length rest < length inp"
proof -
  have le: "getline_loop line buffer inp = Inr (b, line', rest) \<Longrightarrow> length rest \<le> length inp" for line buffer inp b
  proof (induction line buffer inp rule: getline_loop.induct)
    case (1 line buffer inp)
    show ?case
    proof (cases "fgets max_buffer inp")
      case None
      with 1(2) show ?thesis by (simp add: getline_loop.simps[of line] split: if_splits)
    next
      case (Some x)
      obtain chunk r where x: "x = (chunk, r)" by (cases x)
      with 1 Some fgets_less[of inp chunk r] show ?thesis
        by (fastforce simp: getline_loop.simps[of line] Let_def split: if_splits)
    qed
  qed
  assume "getline_loop line buffer inp = Inr (True, line', rest)" and "line = []"
  then show "length rest < length inp"
  proof (cases "fgets max_buffer inp")
    case (Some x)
    obtain chunk r where x: "x = (chunk, r)" by (cases x)
    have "length r < length inp" using Some x fgets_less by blast
    moreover have "length rest \<le> length r"
      using \<open>getline_loop line buffer inp = _\<close> Some x le[of _ chunk r True]
      by (auto simp: getline_loop.simps[of line] Let_def split: if_splits)
    ultimately show ?thesis by simp
  qed (simp add: getline_loop.simps[of "[]"])
qed

text \<open>
  The engine has its batch processor running beside the loop; \<open>sched n\<close> are the steps it makes between
  the addition of line \<open>n\<close> and the next one.
\<close>

function work_loop ::
    "'s kv_vtable \<Rightarrow> 't trie_ops \<Rightarrow> ((u32 \<rightharpoonup> u32 list) \<Rightarrow> u32 list) \<Rightarrow> (nat \<Rightarrow> nat \<Rightarrow> bytes) \<Rightarrow> (nat \<Rightarrow> proc_step list) \<Rightarrow>
      nat \<Rightarrow> bytes \<Rightarrow> ('s, 't) engine \<times> flight \<Rightarrow> (('s, 't) engine \<times> flight) res" where
  "work_loop V T ord stacks sched n file x =
     (case fast_getline file of
        Inl err \<Rightarrow> Inl err
      | Inr (ok, line, rest) \<Rightarrow>
          if \<not> ok then Inr x
          else
            (case line_document (stacks n) line of
               Inl err \<Rightarrow> Inl err
             | Inr doc \<Rightarrow>
                 (case addDocument V T ord doc (fst x) of
                    Inl err \<Rightarrow> Inl err
                  | Inr (_, e') \<Rightarrow>
                      (case fold_res (engine_proc V ord) (e', snd x) (sched n) of
                         Inl err \<Rightarrow> Inl err
                       | Inr x' \<Rightarrow> work_loop V T ord stacks sched (Suc n) rest x'))))"
  by pat_completeness auto
termination
  by (relation "measure (\<lambda>(V, T, ord, stacks, sched, n, file, x). length file)")
    (auto simp: fast_getline_def dest: getline_loop_less)

declare work_loop.simps [simp del]

definition LEVELDB_TEST_STORE :: bytes where
  "LEVELDB_TEST_STORE = map of_char ''/var/tmp/test_store''"

text \<open>\<open>work\<close> on the bytes of a file that could be opened: up to the end of the loop, and with the flush.\<close>

definition work_documents ::
    "'d leveldb_ops \<Rightarrow> 't trie_ops \<Rightarrow> ((u32 \<rightharpoonup> u32 list) \<Rightarrow> u32 list) \<Rightarrow> (nat \<Rightarrow> nat \<Rightarrow> bytes) \<Rightarrow> (nat \<Rightarrow> proc_step list) \<Rightarrow>
      bytes \<Rightarrow> bool \<Rightarrow> 't \<Rightarrow> (('d, 't) engine \<times> flight) res" where
  "work_documents L T ord stacks sched file destroyDb tree =
     rbind (ldb_Open L LEVELDB_TEST_STORE destroyDb) (\<lambda>(st, db).
     rbind (engine_open (ldb_vtable L) tree db) (\<lambda>e.
       work_loop (ldb_vtable L) T ord stacks sched 0 file (engine_setMaxBatchSize 100000 e, Idle)))"

definition work ::
    "'d leveldb_ops \<Rightarrow> 't trie_ops \<Rightarrow> ((u32 \<rightharpoonup> u32 list) \<Rightarrow> u32 list) \<Rightarrow> (nat \<Rightarrow> nat \<Rightarrow> bytes) \<Rightarrow> (nat \<Rightarrow> proc_step list) \<Rightarrow>
      bytes \<Rightarrow> bool \<Rightarrow> 't \<Rightarrow> (('d, 't) engine \<times> flight) res" where
  "work L T ord stacks sched file destroyDb tree =
     rbind (work_documents L T ord stacks sched file destroyDb tree) (\<lambda>(e, fl).
     rbind (engine_flushBatch (ldb_vtable L) ord e) (\<lambda>e'.
       Inr (e', fl)))"

section \<open>What reading a line returns\<close>

definition text_line :: "bytes \<Rightarrow> bool" where
  "text_line l \<longleftrightarrow> 10 \<notin> set l \<and> 0 \<notin> set l"

lemma c_string_clean: "0 \<notin> set xs \<Longrightarrow> c_string xs = xs"
  by (auto simp: c_string_def takeWhile_eq_all_conv)

lemma getline_line:
  "text_line xs \<Longrightarrow> getline_loop line buffer (xs @ 10 # rest) = Inr (True, line @ xs @ [10], rest)"
proof (induction "length xs" arbitrary: xs line buffer rule: less_induct)
  case less
  then have clean: "10 \<notin> set xs" "0 \<notin> set xs" by (simp_all add: text_line_def)
  show ?case
  proof (cases "length xs < 65535")
    case True
    then have pre: "take 65535 (xs @ 10 # rest) = xs @ 10 # take (65534 - length xs) rest"
      by (simp add: take_Cons')
    have "takeWhile (\<lambda>c. c \<noteq> 10) (xs @ 10 # r) = xs" for r using clean(1) by (induction xs) auto
    then have "fgets max_buffer (xs @ 10 # rest) = Some (xs @ [10], rest)"
      unfolding fgets_def max_buffer_def by (simp add: pre del: take_append)
    moreover have "c_string (xs @ [10]) = xs @ [10]" using clean(2) by (intro c_string_clean) auto
    ultimately show ?thesis by (simp add: getline_loop.simps[of line])
  next
    case False
    let ?c = "take 65535 xs"
    have c: "10 \<notin> set ?c" "0 \<notin> set ?c" using clean by (auto dest: in_set_takeD)
    have "take 65535 (xs @ 10 # rest) = ?c" using False by simp
    then have "fgets max_buffer (xs @ 10 # rest) = Some (?c, drop 65535 xs @ 10 # rest)"
      using c(1) False unfolding fgets_def max_buffer_def by simp
    moreover have "?c \<noteq> []" using False by auto
    moreover have "last ?c \<noteq> 10" using c(1) \<open>?c \<noteq> []\<close> last_in_set by metis
    moreover have "text_line (drop 65535 xs)" using clean by (auto simp: text_line_def dest: in_set_dropD)
    ultimately show ?thesis
      using less.hyps[of "drop 65535 xs" "line @ ?c" ?c] False c_string_clean[OF c(2)]
      by (simp add: getline_loop.simps[of line] Let_def)
  qed
qed

lemma fast_getline_line: "text_line xs \<Longrightarrow> fast_getline (xs @ 10 # rest) = Inr (True, xs @ [10], rest)"
  using getline_line[of xs "[]" "[]" rest] by (simp add: fast_getline_def)

lemma fast_getline_end: "fast_getline [] = Inr (False, [], [])"
  by (simp add: fast_getline_def getline_loop.simps[of "[]"] fgets_def)

text \<open>
  Of a last line that no line feed ends, the chunk that filled the buffer last is read twice over: the
  whole line when it fits into the buffer.
\<close>

lemma getline_doubles:
  "\<lbrakk>text_line xs; xs \<noteq> []\<rbrakk> \<Longrightarrow>
    getline_loop line buffer xs = Inr (True, line @ xs @ drop (65535 * ((length xs - 1) div 65535)) xs, [])"
proof (induction "length xs" arbitrary: xs line buffer rule: less_induct)
  case less
  then have clean: "10 \<notin> set xs" "0 \<notin> set xs" by (simp_all add: text_line_def)
  show ?case
  proof (cases "length xs \<le> 65535")
    case True
    then have "length xs - 1 < 65535" using less.prems(2) by (cases xs) auto
    then have last: "drop (65535 * ((length xs - 1) div 65535)) xs = xs" by simp
    have "fgets max_buffer xs = Some (xs, [])" using True less.prems(2) clean(1) by (simp add: fgets_def max_buffer_def)
    moreover have "last xs \<noteq> 10" using clean(1) less.prems(2) last_in_set by metis
    moreover have "fgets max_buffer [] = None" by (simp add: fgets_def)
    ultimately show ?thesis using less.prems(2) c_string_clean[OF clean(2)] unfolding last
      by (simp add: getline_loop.simps[of line] getline_loop.simps[of "line @ xs"])
  next
    case False
    let ?c = "take 65535 xs" and ?r = "drop 65535 xs"
    have c: "10 \<notin> set ?c" "0 \<notin> set ?c" "?c \<noteq> []" using clean False by (auto dest: in_set_takeD)
    have "fgets max_buffer xs = Some (?c, ?r)"
      using c(1) False less.prems(2) unfolding fgets_def max_buffer_def by simp
    moreover have "last ?c \<noteq> 10" using c(1,3) last_in_set by metis
    moreover have "getline_loop (line @ ?c) ?c ?r
        = Inr (True, (line @ ?c) @ ?r @ drop (65535 * ((length ?r - 1) div 65535)) ?r, [])"
      using False clean by (intro less.hyps) (auto simp: text_line_def dest: in_set_dropD)
    moreover have "drop (65535 * ((length ?r - 1) div 65535)) ?r = drop (65535 * ((length xs - 1) div 65535)) xs"
    proof -
      have "length xs - 1 = length ?r - 1 + 65535" using False by simp
      moreover have "(n + 65535) div 65535 = Suc (n div 65535)" for n :: nat by simp
      ultimately have "(length xs - 1) div 65535 = Suc ((length ?r - 1) div 65535)" by (simp only:)
      then show ?thesis by (simp only: drop_drop mult_Suc_right add.commute)
    qed
    moreover have "(line @ ?c) @ ?r @ zs = line @ xs @ zs" for zs by simp
    moreover have "line @ ?c \<noteq> []" "last (line @ ?c) = last ?c" using c(3) by simp_all
    ultimately show ?thesis using c_string_clean[OF c(2)]
      by (simp only: getline_loop.simps[of line buffer] Let_def option.case prod.case if_False)
  qed
qed

lemma fast_getline_doubles:
  "\<lbrakk>text_line xs; xs \<noteq> []\<rbrakk> \<Longrightarrow> fast_getline xs = Inr (True, xs @ drop (65535 * ((length xs - 1) div 65535)) xs, [])"
  using getline_doubles[of xs "[]" "[]"] by (simp add: fast_getline_def)

section \<open>What a line becomes\<close>

lemma line_values_join: "concat (map ((#) 44) (line_values l)) = 44 # l"
proof (induction l rule: line_values.induct)
  case (1 l)
  show ?case
  proof (cases "44 \<in> set l")
    case True
    then have "dropWhile (\<lambda>c. c \<noteq> 44) l \<noteq> []" by (auto simp: dropWhile_eq_Nil_conv)
    moreover from this have "hd (dropWhile (\<lambda>c. c \<noteq> 44) l) = 44" using hd_dropWhile[of "\<lambda>c. c \<noteq> 44" l] by simp
    ultimately obtain r where r: "dropWhile (\<lambda>c. c \<noteq> 44) l = 44 # r" by (metis list.collapse)
    with 1[OF True] have "concat (map ((#) 44) (line_values r)) = 44 # r" by simp
    moreover have "l = takeWhile (\<lambda>c. c \<noteq> 44) l @ 44 # r" using r takeWhile_dropWhile_id by metis
    ultimately show ?thesis using True r by (simp add: line_values.simps[of l])
  next
    case False
    then have "takeWhile (\<lambda>c. c \<noteq> 44) l = l" by (auto simp: takeWhile_eq_all_conv)
    then show ?thesis using False by (simp add: line_values.simps[of l])
  qed
qed

lemma line_values_clean: "v \<in> set (line_values l) \<Longrightarrow> 44 \<notin> set v"
proof (induction l rule: line_values.induct)
  case (1 l)
  then show ?case by (subst (asm) (2) line_values.simps) (auto split: if_splits dest: set_takeWhileD)
qed

text \<open>The document of a line: its fields are named by what was on the stack.\<close>

definition line_doc :: "(nat \<Rightarrow> bytes) \<Rightarrow> bytes \<Rightarrow> document" where
  "line_doc stack line =
     \<lparr>entries = map (\<lambda>(i, v). (take (length (decimal i)) (stack i), v)) (enumerate 0 (line_values line))\<rparr>"

lemma line_document_ok:
  assumes "\<forall>i. length (stack i) = 19" and "length (line_values line) < 10 ^ 9"
  shows "line_document stack line = Inr (line_doc stack line)"
proof -
  have "fold_res (\<lambda>doc (fieldId, v). rbind (PutUint64 (stack fieldId) [] (of_nat fieldId)) (\<lambda>fieldstr.
       Inr (addEntry fieldstr v doc))) doc (enumerate k vs)
     = Inr (doc\<lparr>entries := entries doc @ map (\<lambda>(i, v). (take (length (decimal i)) (stack i), v)) (enumerate k vs)\<rparr>)"
    if "k + length vs < 10 ^ 9" for doc k vs
    using that
  proof (induction vs arbitrary: k doc)
    case (Cons v vs)
    have "unat (of_nat k :: u64) = k" using Cons.prems by (simp add: unat_of_nat take_bit_nat_eq_self)
    with PutUint64_uninitialised[of "stack k" "of_nat k" "[]"] assms(1) Cons show ?case
      by (simp add: addEntry_def)
  qed simp
  from this[of 0 "line_values line" new_document] assms(2) show ?thesis
    by (simp add: line_document_def line_doc_def new_document_def)
qed

section \<open>What the program leaves\<close>

definition file_of :: "bytes list \<Rightarrow> bytes" where
  "file_of ls = concat (map (\<lambda>l. l @ [10]) ls)"

definition import_docs :: "(nat \<Rightarrow> nat \<Rightarrow> bytes) \<Rightarrow> nat \<Rightarrow> bytes list \<Rightarrow> document list" where
  "import_docs stacks n ls = map (\<lambda>(i, l). line_doc (stacks i) (l @ [10])) (enumerate n ls)"

definition stacks_ok :: "(nat \<Rightarrow> nat \<Rightarrow> bytes) \<Rightarrow> bool" where
  "stacks_ok stacks \<longleftrightarrow> (\<forall>n i. length (stacks n i) = 19)"

definition lines_ok :: "bytes list \<Rightarrow> bool" where
  "lines_ok ls \<longleftrightarrow> (\<forall>l\<in>set ls. text_line l \<and> length (line_values (l @ [10])) < 10 ^ 9)"

text \<open>What happens in the loop: additions, with the steps of the batch processor in between.\<close>

definition import_events :: "(nat \<Rightarrow> nat \<Rightarrow> bytes) \<Rightarrow> (nat \<Rightarrow> proc_step list) \<Rightarrow> nat \<Rightarrow> bytes list \<Rightarrow> thread_event list" where
  "import_events stacks sched n ls =
     concat (map (\<lambda>(i, l). CallAdd (line_doc (stacks i) (l @ [10])) # map Proc (sched i)) (enumerate n ls))"

lemma called_docs_Proc [simp]: "called_docs (map Proc steps) = []"
  by (induction steps) simp_all

lemma called_import: "called_docs (import_events stacks sched n ls) = import_docs stacks n ls"
  by (induction ls arbitrary: n) (simp_all add: import_events_def import_docs_def)

lemma import_alone: "flushes_alone V T ord x (import_events stacks sched n ls)"
  by (rule flushes_alone_none) (auto simp: import_events_def)

lemma fold_Proc: "fold_res (engine_tstep V T ord) x (map Proc steps) = fold_res (engine_proc V ord) x steps"
  by (induction steps arbitrary: x) simp_all

lemma work_loop_steps:
  assumes "stacks_ok stacks"
  shows "lines_ok ls \<Longrightarrow> work_loop V T ord stacks sched n (file_of ls) x
    = fold_res (engine_tstep V T ord) x (import_events stacks sched n ls)"
proof (induction ls arbitrary: n x)
  case Nil
  then show ?case
    by (simp add: work_loop.simps[of V T ord stacks sched n "[]"] file_of_def import_events_def fast_getline_end)
next
  case (Cons l ls)
  then have l: "text_line l" "length (line_values (l @ [10])) < 10 ^ 9" "lines_ok ls" by (simp_all add: lines_ok_def)
  have "fast_getline (file_of (l # ls)) = Inr (True, l @ [10], file_of ls)"
    using fast_getline_line[OF l(1), of "file_of ls"] by (simp add: file_of_def)
  moreover have "line_document (stacks n) (l @ [10]) = Inr (line_doc (stacks n) (l @ [10]))"
    using assms l(2) by (intro line_document_ok) (auto simp: stacks_ok_def)
  moreover have "import_events stacks sched n (l # ls)
      = CallAdd (line_doc (stacks n) (l @ [10])) # map Proc (sched n) @ import_events stacks sched (Suc n) ls"
    by (simp add: import_events_def)
  ultimately show ?case
    using Cons.IH[OF l(3)]
    by (cases x) (simp add: work_loop.simps[of V T ord stacks sched n "file_of (l # ls)"] fold_Proc rbind_def split: sum.split prod.split)
qed

text \<open>
  The processor sleeps as long as the batch has fewer postings than \<open>work\<close> set: \<open>n\<close> bounds the postings
  so far.
\<close>

definition dozing :: "nat \<Rightarrow> ('s, 't) engine \<times> flight \<Rightarrow> bool" where
  "dozing n x \<longleftrightarrow> snd x = Idle \<and> \<not> dataReady (e_index (fst x)) \<and> unat (batchSize (e_index (fst x))) \<le> n
     \<and> maxBatchSize (e_index (fst x)) = 100000"

lemma dozing_proc: "dozing n x \<Longrightarrow> engine_proc V ord x step = Inr x"
  by (cases x; cases step) (auto simp: dozing_def)

lemma dozing_procs: "dozing n x \<Longrightarrow> fold_res (engine_proc V ord) x steps = Inr x"
  by (induction steps) (simp_all add: dozing_proc)

context kv_store
begin

lemma dozing_add:
  assumes "threads_inv amap wf tmap ds m k x" and "trie_contract T tmap" and "hash_order ord"
    and "docs_fit (ds @ [doc])" and "dozing n x" and "n + num_tokens (entries doc) < 100000"
    and "addDocument V T ord doc (fst x) = Inr (d, e')"
  shows "dozing (n + num_tokens (entries doc)) (e', snd x)"
proof -
  have idle: "snd x = Idle" using assms(5) by (simp add: dozing_def)
  with assms(1) have "threads_inv amap wf tmap ds m k (fst x, Idle)" by (metis prod.collapse)
  from threads_inv_idle[OF this] obtain P where P: "engine_with amap wf tmap P (\<lambda>_. []) ds (fst x)" by (auto simp: engine_inv_with)
  have fit: "storable doc" "\<forall>x\<in>set (entries doc). 0 \<notin> set (fst x)" "Suc (length ds) < 2 ^ 31 - 1"
      "Suc (num_tokens (concat (map entries (ds @ [doc])))) \<le> 2 ^ 31"
    using assms(4) by (simp_all add: docs_fit_def)
  from addDocument_with[OF P assms(2,3) fit] assms(7) obtain words s ws where
    w: "length words \<le> num_tokens (entries doc)"
      "batch_add_words (invertedIndexStore V) SetFactory ws (of_nat (Suc (length ds))) words ((e_index (fst x))\<lparr>bi_store := s\<rparr>) = Inr (e_index e')"
    by auto
  have "unat (batchSize (e_index (fst x))) + length words < unat (maxBatchSize (e_index (fst x)))"
    using assms(5,6) w(1) by (simp add: dozing_def)
  with batch_add_words_quiet[OF _ w(2)] assms(5) w(1) idle show ?thesis by (simp add: dozing_def)
qed

lemma dozing_import:
  assumes "trie_contract T tmap" and "hash_order ord"
  shows "\<lbrakk>threads_inv amap wf tmap ds m k x; docs_fit (ds @ import_docs stacks i ls); dozing n x;
      n + num_tokens (concat (map entries (import_docs stacks i ls))) < 100000;
      fold_res (engine_tstep V T ord) x (import_events stacks sched i ls) = Inr y\<rbrakk> \<Longrightarrow> snd y = Idle"
proof (induction ls arbitrary: i x ds m k n)
  case Nil
  then show ?case by (simp add: import_events_def dozing_def)
next
  case (Cons l ls)
  let ?doc = "line_doc (stacks i) (l @ [10])"
  obtain e where x: "x = (e, Idle)" using Cons.prems(3) by (cases x) (simp add: dozing_def)
  have docs: "import_docs stacks i (l # ls) = ?doc # import_docs stacks (Suc i) ls" by (simp add: import_docs_def)
  have fit: "docs_fit (ds @ [?doc])" "docs_fit ((ds @ [?doc]) @ import_docs stacks (Suc i) ls)"
    using Cons.prems(2) docs_fit_prefix[of "ds @ [?doc]" "import_docs stacks (Suc i) ls"] unfolding docs by simp_all
  have small: "n + num_tokens (entries ?doc) + num_tokens (concat (map entries (import_docs stacks (Suc i) ls))) < 100000"
    using Cons.prems(4) unfolding docs by (simp add: num_tokens_def)
  from call_add_inv[OF Cons.prems(1)[unfolded x] assms fit(1)] obtain e' m' k' where
    e': "addDocument V T ord ?doc e = Inr (of_nat (Suc (length ds)), e')" "threads_inv amap wf tmap (ds @ [?doc]) m' k' (e', Idle)"
    by blast
  have doze: "dozing (n + num_tokens (entries ?doc)) (e', Idle)"
    using dozing_add[OF Cons.prems(1) assms fit(1) Cons.prems(3), of "of_nat (Suc (length ds))" e'] e'(1) small by (simp add: x)
  have "fold_res (engine_tstep V T ord) (e', Idle) (import_events stacks sched (Suc i) ls) = Inr y"
    using Cons.prems(5) e'(1) by (simp add: x import_events_def fold_Proc dozing_procs[OF doze])
  from Cons.IH[OF e'(2) fit(2) doze small this] show ?case .
qed

end

lemma work_ok:
  assumes "leveldb_contract L dmap good" and "trie_contract T tmap" and "tmap tree = (\<lambda>_. None)" and "hash_order ord"
    and "stacks_ok stacks" and "lines_ok ls" and "docs_fit (import_docs stacks 0 ls)"
    and "db_Open L True LEVELDB_TEST_STORE = (True, db)"
  shows "\<exists>x. work_documents L T ord stacks sched (file_of ls) True tree = Inr x
    \<and> (snd x = Idle \<longrightarrow> (\<exists>e. work L T ord stacks sched (file_of ls) True tree = Inr (e, Idle)
        \<and> engine_flushed dmap good tmap (import_docs stacks 0 ls) e))
    \<and> (num_tokens (concat (map entries (import_docs stacks 0 ls))) < 100000 \<longrightarrow> snd x = Idle)"
proof -
  note store = leveldb_store[OF assms(1)]
  let ?V = "ldb_vtable L" and ?ds = "import_docs stacks 0 ls"
  have db: "good db" "dmap db = (\<lambda>_. None)" using assms(1,8) unfolding leveldb_contract_def by blast+
  from kv_store.engine_open_inv[where tmap = tmap and tree = tree, OF store db assms(3)] obtain e0 where
    e0: "engine_open ?V tree db = Inr e0" "engine_inv dmap good tmap [] e0" "postings (e_index e0) = (\<lambda>_. None)" by blast
  let ?e = "engine_setMaxBatchSize 100000 e0"
  have "docs_fit ([] @ called_docs [CallSetMax 100000])" by (simp add: docs_fit_def num_tokens_def)
  from kv_store.engine_tstep_inv[OF store engine_flushed_threads[OF e0(2,3)] assms(2,4) this] obtain m0 k0 where
    e: "threads_inv dmap good tmap [] m0 k0 (?e, Idle)" by auto
  from kv_store.engine_tsteps_inv[OF store assms(2,4) e, of "import_events stacks sched 0 ls"] assms(7)
    import_alone[of ?V T ord "(?e, Idle)" stacks sched 0 ls] obtain e1 fl m k where
    e1: "fold_res (engine_tstep ?V T ord) (?e, Idle) (import_events stacks sched 0 ls) = Inr (e1, fl)"
      "threads_inv dmap good tmap ?ds m k (e1, fl)" unfolding called_import by auto
  have docs: "work_documents L T ord stacks sched (file_of ls) True tree = Inr (e1, fl)"
    using e0(1) e1(1) assms(8) by (simp add: work_documents_def ldb_Open_def work_loop_steps[OF assms(5,6)])
  have "e_index e0 = new_batch_index db" using e0(1) by (auto simp: engine_open_def rbind_def split: sum.splits)
  then have "dozing 0 (?e, Idle)"
    by (simp add: dozing_def engine_setMaxBatchSize_def setMaxBatchSize_def new_batch_index_def)
  from kv_store.dozing_import[OF store assms(2,4) e _ this _ e1(1)] assms(7) have
    small: "num_tokens (concat (map entries ?ds)) < 100000 \<longrightarrow> fl = Idle" by simp
  have "\<exists>e. work L T ord stacks sched (file_of ls) True tree = Inr (e, Idle) \<and> engine_flushed dmap good tmap ?ds e" if "fl = Idle"
  proof -
    from kv_store.engine_flush_inv(1)[OF store threads_inv_idle[OF e1(2)[unfolded that]] assms(4)] obtain e2 where
      "engine_flushBatch ?V ord e1 = Inr e2" "engine_inv dmap good tmap ?ds e2" "postings (e_index e2) = (\<lambda>_. None)" by blast
    then show ?thesis using docs that by (simp add: work_def engine_flushed_def)
  qed
  with docs small show ?thesis by auto
qed

lemma fields_import:
  "engine_flushed dmap good tmap ds e \<Longrightarrow> e_fields e = (\<Union>d\<in>set ds. fst ` set (entries d))"
  by (simp add: engine_flushed_def engine_inv_def)

end
