(* ===== verification/Server.thy ===== *)
theory Server
  imports ImportProgram
begin

text \<open>
  The server \<^verbatim>\<open>src/src/server.cpp\<close>: four callbacks of the HTTP library around an engine over the store of
  leveldb.  Parsing addresses and parameters, reading files, and XML are the work of libraries and
  arguments here; what the callbacks decide, send and do to the engine is modelled.
\<close>

section \<open>Requests and replies\<close>

datatype http_method = HTTP_GET | HTTP_POST | HTTP_OTHER

text \<open>\<open>req_path\<close> is the path by which the library chooses the callback.\<close>

record http_request =
  req_command :: http_method
  req_path :: bytes
  req_uri :: bytes
  req_body :: bytes

record parsed_uri =
  uri_path :: "bytes option"
  uri_query :: "bytes option"

text \<open>\<open>evhttp_uri_parse\<close>, \<open>evhttp_parse_query_str\<close>, \<open>evhttp_uridecode\<close>; \<open>read_file\<close> stands for \<open>stat\<close>, \<open>open\<close> and the contents.\<close>

record http_lib =
  uri_parse :: "bytes \<Rightarrow> parsed_uri option"
  parse_query_str :: "bytes option \<Rightarrow> (bytes \<times> bytes) list option"
  uridecode :: "bytes \<Rightarrow> bytes option"
  read_file :: "bytes \<Rightarrow> bytes option"

text \<open>\<open>evhttp_send_error\<close> with its reason, \<open>evhttp_send_reply\<close> with 200, the type and the content.\<close>

datatype response = SendError nat "bytes option" | SendReply bytes bytes

definition HTTP_BADREQUEST :: nat where "HTTP_BADREQUEST = 400"

abbreviation bad_request :: response where "bad_request \<equiv> SendError HTTP_BADREQUEST None"

definition not_found :: response where "not_found = SendError 404 (Some (map of_char ''Document not found.''))"
definition TEXT_XML :: bytes where "TEXT_XML = map of_char ''text/xml''"
definition TEXT_HTML :: bytes where "TEXT_HTML = map of_char ''text/html''"

definition LEVELDB_STORE :: bytes where "LEVELDB_STORE = map of_char ''/var/tmp/store''"
definition POST_HTM :: bytes where "POST_HTM = map of_char ''/post.htm''"
definition SEARCH_PATH :: bytes where "SEARCH_PATH = map of_char ''/search''"
definition DOC_PATH :: bytes where "DOC_PATH = map of_char ''/doc''"
definition INDEX_PATH :: bytes where "INDEX_PATH = map of_char ''/index''"
definition ROOT_PATH :: bytes where "ROOT_PATH = map of_char ''/''"
definition POST_DATA_KEY :: bytes where "POST_DATA_KEY = map of_char ''data''"
definition GET_SEARCH_QUERY_KEY :: bytes where "GET_SEARCH_QUERY_KEY = map of_char ''q''"
definition GET_SEARCH_START_KEY :: bytes where "GET_SEARCH_START_KEY = map of_char ''s''"
definition GET_SEARCH_OFFSET_KEY :: bytes where "GET_SEARCH_OFFSET_KEY = map of_char ''o''"
definition SERVER_DOC_ID_KEY :: bytes where "SERVER_DOC_ID_KEY = map of_char ''id''"
definition MAX_BATCH_SIZE :: u32 where "MAX_BATCH_SIZE = 200"

section \<open>Fetching a document\<close>

text \<open>The loop over the parameters, which the first \<open>id\<close> ends; \<open>wr\<close> is \<open>write\<close> of the document.\<close>

fun doc_params ::
    "'s kv_vtable \<Rightarrow> (document \<Rightarrow> bytes) \<Rightarrow> ('s, 't) engine \<Rightarrow> (bytes \<times> bytes) list \<Rightarrow> bytes option res option" where
  "doc_params V wr e [] = Some (Inr None)"
| "doc_params V wr e (param # params) =
     (if fst param = SERVER_DOC_ID_KEY then
        (case atoi (c_str (snd param)) of
           Inl err \<Rightarrow> Some (Inl err)
         | Inr num \<Rightarrow>
             (case engine_getDoc V (ucast num) (Some new_document) e of
                None \<Rightarrow> None
              | Some r \<Rightarrow> Some (rbind r (\<lambda>(ok, doc). Inr (if ok then map_option wr doc else None)))))
      else doc_params V wr e params)"

definition doc_request_cb ::
    "http_lib \<Rightarrow> 's kv_vtable \<Rightarrow> (document \<Rightarrow> bytes) \<Rightarrow> ('s, 't) engine \<Rightarrow> http_request \<Rightarrow> response res option" where
  "doc_request_cb H V wr e req =
     (if req_command req \<noteq> HTTP_GET then Some (Inr bad_request)
      else
        (case uri_parse H (req_uri req) of
           None \<Rightarrow> Some (Inr bad_request)
         | Some decoded \<Rightarrow>
             (case parse_query_str H (uri_query decoded) of
                None \<Rightarrow> Some (Inr bad_request)
              | Some params \<Rightarrow>
                  (case doc_params V wr e params of
                     None \<Rightarrow> None
                   | Some r \<Rightarrow> Some (rbind r (\<lambda>result. Inr (case result of
                       Some docStr \<Rightarrow> SendReply TEXT_XML docStr
                     | None \<Rightarrow> not_found)))))))"

section \<open>Searching\<close>

text \<open>What a parameter does to the query, the start and the offset.\<close>

definition search_param :: "bytes \<times> u32 \<times> u32 \<Rightarrow> bytes \<times> bytes \<Rightarrow> (bytes \<times> u32 \<times> u32) res" where
  "search_param st param =
     (case st of (query, start, offset) \<Rightarrow>
      let key = fst param; v = snd param;
          query' = (if key = GET_SEARCH_QUERY_KEY then v else query) in
      rbind (if key = GET_SEARCH_START_KEY then rbind (atoi (c_str v)) (\<lambda>num. Inr (ucast num)) else Inr start) (\<lambda>start'.
      rbind (if key = GET_SEARCH_OFFSET_KEY then rbind (atoi (c_str v)) (\<lambda>num. Inr (ucast num)) else Inr offset) (\<lambda>offset'.
        Inr (query', start', offset'))))"

text \<open>\<open>printf\<close> with \<open>"%u "\<close> for every id.\<close>

definition print_ids :: "u32 list \<Rightarrow> bytes" where
  "print_ids docIdSet = concat (map (\<lambda>d. decimal (unat d) @ [32]) docIdSet)"

definition search_request_cb ::
    "http_lib \<Rightarrow> 's kv_vtable \<Rightarrow> 't trie_ops \<Rightarrow> (bytes set \<Rightarrow> bytes list) \<Rightarrow> nat \<Rightarrow> ('s, 't) engine \<Rightarrow> http_request \<Rightarrow>
      response res option" where
  "search_request_cb H V T ford n e req =
     (if req_command req \<noteq> HTTP_GET then Some (Inr bad_request)
      else
        (case uri_parse H (req_uri req) of
           None \<Rightarrow> Some (Inr bad_request)
         | Some decoded \<Rightarrow>
             (case parse_query_str H (uri_query decoded) of
                None \<Rightarrow> Some (Inr bad_request)
              | Some params \<Rightarrow>
                  (case fold_res search_param ([], 0, 0) params of
                     Inl err \<Rightarrow> Some (Inl err)
                   | Inr (query, start, offset) \<Rightarrow>
                       (case engine_search V T (ford (e_fields e)) query start offset n e of
                          None \<Rightarrow> None
                        | Some r \<Rightarrow> Some (rbind r (\<lambda>docIdSet. Inr (SendReply TEXT_HTML (print_ids docIdSet)))))))))"

section \<open>Posting a document\<close>

text \<open>The body, in pieces of \<open>sizeof(buf) - 1\<close> bytes of a pointer.\<close>

fun read_body :: "bytes \<Rightarrow> bytes \<Rightarrow> bytes" where
  "read_body postData buf = (if buf = [] then postData else read_body (postData @ take 7 buf) (drop 7 buf))"

declare read_body.simps [simp del]

definition doc_message :: "doc_error \<Rightarrow> bytes" where
  "doc_message err =
     (case err of
        ParseError what \<Rightarrow> what
      | InvalidDocument \<Rightarrow> map of_char ''Invalid document, please see documentation for sample document xml''
      | EmptyString field \<Rightarrow> map of_char ''Invalid document: '' @ field @ map of_char '' has empty string'')"

definition parse_reply :: "bytes \<Rightarrow> bytes" where
  "parse_reply message =
     map of_char (''Error parsing document. See documentation for more details'' @ [CHR 0x0A]) @ c_string message"

definition INVALID_POST :: bytes where
  "INVALID_POST = map of_char (''Invalid post data, first key must be in the form of data -> {xml}. See documentation for more details'' @ [CHR 0x0A])"

text \<open>\<open>printf\<close> with \<open>"%d"\<close>.\<close>

definition print_int :: "u32 \<Rightarrow> bytes" where
  "print_int d = (if sint d < 0 then 45 # decimal (nat (- sint d)) else decimal (nat (sint d)))"

text \<open>
  An empty list of parameters is a null pointer that is followed.  A failure of the engine is left
  as it is, because the state it leaves behind is not known.
\<close>

definition post_request_cb ::
    "http_lib \<Rightarrow> (bytes \<Rightarrow> xml_result) \<Rightarrow> 's kv_vtable \<Rightarrow> 't trie_ops \<Rightarrow> ((u32 \<rightharpoonup> u32 list) \<Rightarrow> u32 list) \<Rightarrow>
      ('s, 't) engine \<Rightarrow> http_request \<Rightarrow> (response \<times> ('s, 't) engine) res" where
  "post_request_cb H parse V T ord e req =
     (if req_command req \<noteq> HTTP_POST then Inr (bad_request, e)
      else
        (case parse_query_str H (Some (c_string (read_body [] (req_body req)))) of
           None \<Rightarrow> Inr (bad_request, e)
         | Some [] \<Rightarrow> Inl NullPointer
         | Some (param # params) \<Rightarrow>
             if fst param = POST_DATA_KEY then
               (case construct parse (snd param) new_document of
                  (Some err, _) \<Rightarrow> Inr (SendReply TEXT_HTML (parse_reply (doc_message err)), e)
                | (None, document) \<Rightarrow>
                    rbind (addDocument V T ord document e) (\<lambda>(docId, e').
                      Inr (SendReply TEXT_HTML (print_int docId), e')))
             else Inr (SendReply TEXT_HTML INVALID_POST, e)))"

section \<open>Any other request\<close>

definition HELP_PAGE :: bytes where
  "HELP_PAGE =
     map of_char (''Invalid request <br />'' @ [CHR 0x0A])
     @ POST_HTM @ map of_char '' to post data manually or '' @ INDEX_PATH @ map of_char ('' to post via api<br />'' @ [CHR 0x0A])
     @ SEARCH_PATH @ map of_char ('' to search <br />'' @ [CHR 0x0A])
     @ DOC_PATH @ map of_char ('' to get document by id <br />'' @ [CHR 0x0A])"

definition generic_request_cb :: "http_lib \<Rightarrow> bytes \<Rightarrow> http_request \<Rightarrow> response" where
  "generic_request_cb H docroot req =
     (if req_command req \<noteq> HTTP_GET then bad_request
      else
        (case uri_parse H (req_uri req) of
           None \<Rightarrow> bad_request
         | Some decoded \<Rightarrow>
             let path = (case uri_path decoded of None \<Rightarrow> ROOT_PATH | Some path \<Rightarrow> path) in
             (case uridecode H path of
                None \<Rightarrow> not_found
              | Some decoded_path \<Rightarrow>
                  if POST_HTM = decoded_path then
                    (case read_file H (docroot @ [47] @ decoded_path) of
                       None \<Rightarrow> not_found
                     | Some contents \<Rightarrow> SendReply TEXT_HTML contents)
                  else SendReply TEXT_HTML HELP_PAGE)))"

section \<open>The server\<close>

text \<open>The callbacks that \<open>main\<close> registers; \<open>n\<close> bounds the rounds of a search.\<close>

definition handle_request ::
    "http_lib \<Rightarrow> (bytes \<Rightarrow> xml_result) \<Rightarrow> (document \<Rightarrow> bytes) \<Rightarrow> 's kv_vtable \<Rightarrow> 't trie_ops \<Rightarrow> ((u32 \<rightharpoonup> u32 list) \<Rightarrow> u32 list) \<Rightarrow>
      (bytes set \<Rightarrow> bytes list) \<Rightarrow> nat \<Rightarrow> bytes \<Rightarrow> ('s, 't) engine \<Rightarrow> http_request \<Rightarrow> (response \<times> ('s, 't) engine) res option" where
  "handle_request H parse wr V T ord ford n docroot e req =
     (if req_path req = SEARCH_PATH then
        map_option (\<lambda>r. rbind r (\<lambda>reply. Inr (reply, e))) (search_request_cb H V T ford n e req)
      else if req_path req = DOC_PATH then
        map_option (\<lambda>r. rbind r (\<lambda>reply. Inr (reply, e))) (doc_request_cb H V wr e req)
      else if req_path req = INDEX_PATH then Some (post_request_cb H parse V T ord e req)
      else Some (Inr (generic_request_cb H docroot req, e)))"

definition server_start :: "'d leveldb_ops \<Rightarrow> bytes \<Rightarrow> 't \<Rightarrow> ('d, 't) engine res" where
  "server_start L argv2 tree =
     rbind (atoi (c_str argv2)) (\<lambda>iDestroyDb.
     rbind (ldb_Open L LEVELDB_STORE ((ucast iDestroyDb :: u32) \<noteq> 0)) (\<lambda>(st, db).
     rbind (engine_open (ldb_vtable L) tree db) (\<lambda>e.
       Inr (engine_setMaxBatchSize MAX_BATCH_SIZE e))))"

text \<open>What happens while \<open>event_base_dispatch\<close> runs: requests, and whole rounds of the batch processor between them.\<close>

datatype server_event = Request http_request | Processor

fun serve ::
    "http_lib \<Rightarrow> (bytes \<Rightarrow> xml_result) \<Rightarrow> (document \<Rightarrow> bytes) \<Rightarrow> 's kv_vtable \<Rightarrow> 't trie_ops \<Rightarrow> ((u32 \<rightharpoonup> u32 list) \<Rightarrow> u32 list) \<Rightarrow>
      (bytes set \<Rightarrow> bytes list) \<Rightarrow> nat \<Rightarrow> bytes \<Rightarrow> ('s, 't) engine \<Rightarrow> server_event list \<Rightarrow> (response list \<times> ('s, 't) engine) res option" where
  "serve H parse wr V T ord ford n docroot e [] = Some (Inr ([], e))"
| "serve H parse wr V T ord ford n docroot e (Request req # evs) =
     (case handle_request H parse wr V T ord ford n docroot e req of
        None \<Rightarrow> None
      | Some (Inl err) \<Rightarrow> Some (Inl err)
      | Some (Inr (reply, e')) \<Rightarrow>
          map_option (\<lambda>r. rbind r (\<lambda>(replies, e''). Inr (reply # replies, e''))) (serve H parse wr V T ord ford n docroot e' evs))"
| "serve H parse wr V T ord ford n docroot e (Processor # evs) =
     (case engine_process V ord e of
        Inl err \<Rightarrow> Some (Inl err)
      | Inr e' \<Rightarrow> serve H parse wr V T ord ford n docroot e' evs)"

section \<open>What a client may expect\<close>

text \<open>
  The server as a list of documents, of which searches see the first \<open>m\<close>.  The functions below give the
  document a request adds and the reply to it.
\<close>

definition number :: "bytes \<Rightarrow> u32" where
  "number v = (case atoi (c_str v) of Inl err \<Rightarrow> 0 | Inr num \<Rightarrow> ucast num)"

definition get_params :: "http_lib \<Rightarrow> http_request \<Rightarrow> (bytes \<times> bytes) list option" where
  "get_params H req =
     (if req_command req \<noteq> HTTP_GET then None
      else Option.bind (uri_parse H (req_uri req)) (\<lambda>decoded. parse_query_str H (uri_query decoded)))"

definition post_params :: "http_lib \<Rightarrow> http_request \<Rightarrow> (bytes \<times> bytes) list option" where
  "post_params H req =
     (if req_command req \<noteq> HTTP_POST then None else parse_query_str H (Some (c_string (req_body req))))"

definition search_args :: "(bytes \<times> bytes) list \<Rightarrow> bytes \<times> u32 \<times> u32" where
  "search_args params =
     foldl (\<lambda>(query, start, offset) (key, v).
       (if key = GET_SEARCH_QUERY_KEY then v else query,
        if key = GET_SEARCH_START_KEY then number v else start,
        if key = GET_SEARCH_OFFSET_KEY then number v else offset)) ([], 0, 0) params"

definition posted :: "http_lib \<Rightarrow> (bytes \<Rightarrow> xml_result) \<Rightarrow> http_request \<Rightarrow> document list" where
  "posted H parse req =
     (if req_path req \<noteq> INDEX_PATH then []
      else
        (case post_params H req of
           Some ((key, v) # _) \<Rightarrow>
             if key = POST_DATA_KEY \<and> fst (construct parse v new_document) = None
             then [snd (construct parse v new_document)] else []
         | _ \<Rightarrow> []))"

definition post_reply :: "http_lib \<Rightarrow> (bytes \<Rightarrow> xml_result) \<Rightarrow> nat \<Rightarrow> http_request \<Rightarrow> response" where
  "post_reply H parse d req =
     (case post_params H req of
        None \<Rightarrow> bad_request
      | Some params \<Rightarrow>
          if fst (hd params) = POST_DATA_KEY then
            (case fst (construct parse (snd (hd params)) new_document) of
               None \<Rightarrow> SendReply TEXT_HTML (decimal d)
             | Some err \<Rightarrow> SendReply TEXT_HTML (parse_reply (doc_message err)))
          else SendReply TEXT_HTML INVALID_POST)"

definition doc_reply :: "http_lib \<Rightarrow> (document \<Rightarrow> bytes) \<Rightarrow> document list \<Rightarrow> http_request \<Rightarrow> response" where
  "doc_reply H wr ds req =
     (case get_params H req of
        None \<Rightarrow> bad_request
      | Some params \<Rightarrow>
          (case find (\<lambda>param. fst param = SERVER_DOC_ID_KEY) params of
             None \<Rightarrow> not_found
           | Some param \<Rightarrow>
               let d = unat (number (snd param)) in
               if 1 \<le> d \<and> d \<le> length ds
               then SendReply TEXT_XML (wr \<lparr>entries = entries (ds ! (d - 1)) @ [([], [])]\<rparr>)
               else not_found))"

definition search_reply :: "http_lib \<Rightarrow> document list \<Rightarrow> http_request \<Rightarrow> response" where
  "search_reply H ds req =
     (case get_params H req of
        None \<Rightarrow> bad_request
      | Some params \<Rightarrow>
          (case search_args params of (query, start, offset) \<Rightarrow>
             SendReply TEXT_HTML (print_ids (if tokens query = [] then []
               else page (unat (start * offset)) (unat offset) (ids_of (doc_matches query) ds)))))"

definition spec_reply ::
    "http_lib \<Rightarrow> (bytes \<Rightarrow> xml_result) \<Rightarrow> (document \<Rightarrow> bytes) \<Rightarrow> bytes \<Rightarrow> document list \<Rightarrow> nat \<Rightarrow> http_request \<Rightarrow> response" where
  "spec_reply H parse wr docroot ds m req =
     (if req_path req = SEARCH_PATH then search_reply H (take m ds) req
      else if req_path req = DOC_PATH then doc_reply H wr ds req
      else if req_path req = INDEX_PATH then post_reply H parse (Suc (length ds)) req
      else generic_request_cb H docroot req)"

text \<open>
  The runs: \<open>m\<close> stays or becomes the number of all documents, when a batch is written.
\<close>

inductive spec_run ::
    "http_lib \<Rightarrow> (bytes \<Rightarrow> xml_result) \<Rightarrow> (document \<Rightarrow> bytes) \<Rightarrow> bytes \<Rightarrow> document list \<Rightarrow> nat \<Rightarrow> server_event list \<Rightarrow>
      response list \<Rightarrow> document list \<Rightarrow> nat \<Rightarrow> bool"
  for H parse wr docroot where
  finished: "spec_run H parse wr docroot ds m [] [] ds m"
| request: "\<lbrakk>m' \<in> {m, length (ds @ posted H parse req)};
     spec_run H parse wr docroot (ds @ posted H parse req) m' evs replies ds' m''\<rbrakk>
    \<Longrightarrow> spec_run H parse wr docroot ds m (Request req # evs) (spec_reply H parse wr docroot ds m req # replies) ds' m''"
| round: "\<lbrakk>m' \<in> {m, length ds}; spec_run H parse wr docroot ds m' evs replies ds' m''\<rbrakk>
    \<Longrightarrow> spec_run H parse wr docroot ds m (Processor # evs) replies ds' m''"

inductive_simps spec_run_finished: "spec_run H parse wr docroot ds m [] replies ds' m'"
inductive_simps spec_run_request: "spec_run H parse wr docroot ds m (Request req # evs) replies ds' m'"
inductive_simps spec_run_round: "spec_run H parse wr docroot ds m (Processor # evs) replies ds' m'"

definition posted_docs :: "http_lib \<Rightarrow> (bytes \<Rightarrow> xml_result) \<Rightarrow> server_event list \<Rightarrow> document list" where
  "posted_docs H parse evs = concat (map (\<lambda>ev. case ev of Request req \<Rightarrow> posted H parse req | Processor \<Rightarrow> []) evs)"

text \<open>No body without parameters is posted.\<close>

definition request_ok :: "http_lib \<Rightarrow> http_request \<Rightarrow> bool" where
  "request_ok H req \<longleftrightarrow> (req_path req = INDEX_PATH \<longrightarrow> post_params H req \<noteq> Some [])"

definition requests_ok :: "http_lib \<Rightarrow> server_event list \<Rightarrow> bool" where
  "requests_ok H evs \<longleftrightarrow> (\<forall>req. Request req \<in> set evs \<longrightarrow> request_ok H req)"

section \<open>The server keeps to it\<close>

lemma read_body_all: "read_body postData buf = postData @ buf"
proof (induction postData buf rule: read_body.induct)
  case (1 postData buf)
  then show ?case
    by (cases "buf = []") (simp_all add: read_body.simps[of postData buf] read_body.simps[of postData "[]"])
qed

lemma atoi_c_str: "atoi (c_str v) = Inl err \<Longrightarrow> False"
proof -
  have "\<exists>num. atoi_loop acc (v @ [0]) = Inr num" for acc
    by (induction v arbitrary: acc) simp_all
  then show "atoi (c_str v) = Inl err \<Longrightarrow> False" unfolding atoi_def c_str_def by (metis sum.distinct(1))
qed

lemma atoi_number: "\<exists>num. atoi (c_str v) = Inr num \<and> ucast num = number v"
  using atoi_c_str[of v] by (cases "atoi (c_str v)") (auto simp: number_def)

lemma search_params_ok: "fold_res search_param ([], 0, 0) params = Inr (search_args params)"
proof -
  have step: "search_param st param = Inr ((\<lambda>(query, start, offset) (key, v).
       (if key = GET_SEARCH_QUERY_KEY then v else query,
        if key = GET_SEARCH_START_KEY then number v else start,
        if key = GET_SEARCH_OFFSET_KEY then number v else offset)) st param)" for st param
  proof -
    obtain num where "atoi (c_str (snd param)) = Inr num" "ucast num = number (snd param)" using atoi_number by blast
    then show ?thesis by (cases param, cases st) (simp add: search_param_def Let_def)
  qed
  have "fold_res search_param acc params = Inr (foldl (\<lambda>(query, start, offset) (key, v).
       (if key = GET_SEARCH_QUERY_KEY then v else query,
        if key = GET_SEARCH_START_KEY then number v else start,
        if key = GET_SEARCH_OFFSET_KEY then number v else offset)) acc params)" for acc
    by (induction params arbitrary: acc) (simp_all add: step)
  then show ?thesis by (simp add: search_args_def)
qed

lemma print_int_small: "n < 2 ^ 31 \<Longrightarrow> print_int (of_nat n) = decimal n"
  by (simp add: print_int_def sint_of_nat_u32)

context kv_store
begin

lemma docs_Get_any:
  assumes "engine_inv amap wf tmap ds e" and "docs_fit ds"
  shows "engine_getDoc V d (Some new_document) e
    = Some (Inr (if 1 \<le> unat d \<and> unat d \<le> length ds
        then (True, Some \<lparr>entries = entries (ds ! (unat d - 1)) @ [([], [])]\<rparr>) else (False, Some new_document)))"
proof (cases "1 \<le> unat d \<and> unat d \<le> length ds")
  case True
  then have "d = of_nat (Suc (unat d - 1))" by simp
  moreover have "unat d - 1 < length ds" using True by linarith
  ultimately show ?thesis using getDoc_stored[OF assms, of "unat d - 1"] True by (simp add: new_document_def)
next
  case False
  then have "unat d = 0 \<or> length ds < unat d" by linarith
  then have "amap (bi_store (e_index e)) (of_char CHR ''d'' # int_key d) = None"
    using assms(1) unfolding engine_inv_def by blast
  then have "ns_abs (of_char CHR ''d'') amap (bi_store (e_index e)) (int_key d) = None" by (simp add: ns_abs_def)
  moreover have "wf (bi_store (e_index e))" using assms(1) by (auto simp: engine_inv_def batch_ok_def)
  ultimately have "docs_Get (documentStore V) d (Some new_document) (bi_store (e_index e)) = Some (Inr (0, Some new_document))"
    using kv_store.docs_Get_missing[OF name_space] unfolding documentStore_def by blast
  with False show ?thesis by (auto simp: engine_getDoc_def)
qed

lemma doc_request_ok:
  assumes "engine_inv amap wf tmap ds e" and "docs_fit ds"
  shows "doc_request_cb H V wr e req = Some (Inr (doc_reply H wr ds req))"
proof -
  have params: "doc_params V wr e params = Some (Inr
      (case find (\<lambda>param. fst param = SERVER_DOC_ID_KEY) params of
         None \<Rightarrow> None
       | Some param \<Rightarrow>
           if 1 \<le> unat (number (snd param)) \<and> unat (number (snd param)) \<le> length ds
           then Some (wr \<lparr>entries = entries (ds ! (unat (number (snd param)) - 1)) @ [([], [])]\<rparr>) else None))" for params
  proof (induction params)
    case (Cons param params)
    obtain num where "atoi (c_str (snd param)) = Inr num" "ucast num = number (snd param)" using atoi_number by blast
    with Cons docs_Get_any[OF assms] show ?case by simp
  qed simp
  show ?thesis
    by (auto simp: doc_request_cb_def doc_reply_def get_params_def params Let_def split: option.splits)
qed

lemma search_request_ok:
  assumes "engine_stored amap wf tmap ds m e" and "trie_contract T tmap" and "docs_fit ds"
    and "\<And>F. finite F \<Longrightarrow> set (ford F) = F" and "length ds < n"
  shows "search_request_cb H V T ford n e req = Some (Inr (search_reply H (take m ds) req))"
proof -
  have f: "e_fields e = \<Union>((\<lambda>d. fst ` set (entries d)) ` set ds)"
    using assms(1) by (auto simp: engine_stored_def engine_inv_def)
  then have "finite (e_fields e)" "\<forall>f\<in>e_fields e. 0 \<notin> set f" using assms(3) by (auto simp: docs_fit_def)
  with engine_search_stored[OF assms(1,2) assms(4) _ assms(5)] have
    "engine_search V T (ford (e_fields e)) query start offset n e
      = Some (Inr (if tokens query = [] then []
          else page (unat (start * offset)) (unat offset) (ids_of (doc_matches query) (take m ds))))" for query start offset
    by blast
  then show ?thesis
    by (auto simp: search_request_cb_def search_reply_def get_params_def search_params_ok split: option.splits prod.splits)
qed

lemma post_request_ok:
  assumes "engine_stored amap wf tmap ds m e" and "trie_contract T tmap" and "hash_order ord"
    and "req_path req = INDEX_PATH" and "docs_fit (ds @ posted H parse req)" and "request_ok H req"
  shows "\<exists>e' m'. post_request_cb H parse V T ord e req = Inr (post_reply H parse (Suc (length ds)) req, e')
    \<and> engine_stored amap wf tmap (ds @ posted H parse req) m' e' \<and> m' \<in> {m, length (ds @ posted H parse req)}"
proof (cases "posted H parse req")
  case Nil
  then have "post_request_cb H parse V T ord e req = Inr (post_reply H parse (Suc (length ds)) req, e)"
    using assms(4,6)
    by (auto simp: post_request_cb_def post_reply_def posted_def post_params_def request_ok_def read_body_all
        split: option.splits list.splits if_splits prod.splits)
  with Nil assms(1) show ?thesis by auto
next
  case (Cons doc docs)
  then obtain v params where p: "post_params H req = Some ((POST_DATA_KEY, v) # params)"
      "construct parse v new_document = (None, doc)" "docs = []"
    using assms(4) by (auto simp: posted_def prod_eq_iff split: option.splits list.splits if_splits)
  have ds': "added_docs [AddDoc doc] = posted H parse req" using Cons p(3) by (simp add: added_docs_def)
  from engine_step_stored[OF assms(1-3), of "AddDoc doc"] assms(5) obtain e' m' where
    e': "engine_step V T ord e (AddDoc doc) = Inr e'" "engine_stored amap wf tmap (ds @ posted H parse req) m' e'"
      "m' \<in> {m, length (ds @ posted H parse req)}" unfolding ds' by blast
  have fit: "docs_fit (ds @ [doc])" using assms(5) Cons p(3) by simp
  have "engine_inv amap wf tmap ds e" using assms(1) by (simp add: engine_stored_def)
  from addDocument_inv[OF this assms(2,3), of doc] fit have
    "\<exists>e1. addDocument V T ord doc e = Inr (of_nat (Suc (length ds)), e1)" by (auto simp: docs_fit_def)
  then have add: "addDocument V T ord doc e = Inr (of_nat (Suc (length ds)), e')" using e'(1) by auto
  have "Suc (length ds) < 2 ^ 31" using fit by (simp add: docs_fit_def)
  from print_int_small[OF this] have "post_request_cb H parse V T ord e req = Inr (post_reply H parse (Suc (length ds)) req, e')"
    using p add by (auto simp: post_request_cb_def post_reply_def post_params_def read_body_all split: if_splits)
  with e'(2,3) show ?thesis by blast
qed

lemma handle_request_ok:
  assumes "engine_stored amap wf tmap ds m e" and "trie_contract T tmap" and "hash_order ord"
    and "docs_fit (ds @ posted H parse req)" and "request_ok H req"
    and "\<And>F. finite F \<Longrightarrow> set (ford F) = F" and "length ds < n"
  shows "\<exists>e' m'. handle_request H parse wr V T ord ford n docroot e req = Some (Inr (spec_reply H parse wr docroot ds m req, e'))
    \<and> engine_stored amap wf tmap (ds @ posted H parse req) m' e' \<and> m' \<in> {m, length (ds @ posted H parse req)}"
proof -
  have fit: "docs_fit ds" using docs_fit_prefix[OF assms(4)] .
  have inv: "engine_inv amap wf tmap ds e" using assms(1) by (simp add: engine_stored_def)
  show ?thesis
  proof (cases "req_path req = INDEX_PATH")
    case True
    then have "req_path req \<noteq> SEARCH_PATH" "req_path req \<noteq> DOC_PATH"
      by (simp_all add: INDEX_PATH_def SEARCH_PATH_def DOC_PATH_def)
    with post_request_ok[OF assms(1-3) True assms(4,5)] True show ?thesis
      by (auto simp: handle_request_def spec_reply_def)
  next
    case False
    then have none: "posted H parse req = []" by (simp add: posted_def)
    have "handle_request H parse wr V T ord ford n docroot e req = Some (Inr (spec_reply H parse wr docroot ds m req, e))"
      using False search_request_ok[OF assms(1,2) fit assms(6,7)] doc_request_ok[OF inv fit]
      by (simp add: handle_request_def spec_reply_def)
    with assms(1) none show ?thesis by auto
  qed
qed

lemma serve_ok:
  assumes "trie_contract T tmap" and "hash_order ord" and "\<And>F. finite F \<Longrightarrow> set (ford F) = F"
  shows "\<lbrakk>engine_stored amap wf tmap ds m e; docs_fit (ds @ posted_docs H parse evs); requests_ok H evs;
      length (ds @ posted_docs H parse evs) < n\<rbrakk> \<Longrightarrow>
    \<exists>replies e' m'. serve H parse wr V T ord ford n docroot e evs = Some (Inr (replies, e'))
      \<and> spec_run H parse wr docroot ds m evs replies (ds @ posted_docs H parse evs) m'
      \<and> engine_stored amap wf tmap (ds @ posted_docs H parse evs) m' e'"
proof (induction evs arbitrary: ds m e)
  case Nil
  then show ?case by (auto simp: posted_docs_def intro: spec_run.finished)
next
  case (Cons ev evs)
  show ?case
  proof (cases ev)
    case (Request req)
    have all: "ds @ posted_docs H parse (ev # evs) = (ds @ posted H parse req) @ posted_docs H parse evs"
      using Request by (simp add: posted_docs_def)
    have "docs_fit (ds @ posted H parse req)" using Cons.prems(2) docs_fit_prefix unfolding all by blast
    moreover have "request_ok H req" "requests_ok H evs" using Cons.prems(3) Request by (auto simp: requests_ok_def)
    moreover have "length ds < n" using Cons.prems(4) by simp
    ultimately obtain e1 m1 where
      1: "handle_request H parse wr V T ord ford n docroot e req = Some (Inr (spec_reply H parse wr docroot ds m req, e1))"
        "engine_stored amap wf tmap (ds @ posted H parse req) m1 e1" "m1 \<in> {m, length (ds @ posted H parse req)}"
      using handle_request_ok[OF Cons.prems(1) assms(1,2) _ _ assms(3)] by blast
    from Cons.IH[OF 1(2)] Cons.prems(2,4) \<open>requests_ok H evs\<close> obtain replies e2 m2 where
      2: "serve H parse wr V T ord ford n docroot e1 evs = Some (Inr (replies, e2))"
        "spec_run H parse wr docroot (ds @ posted H parse req) m1 evs replies (ds @ posted_docs H parse (ev # evs)) m2"
        "engine_stored amap wf tmap (ds @ posted_docs H parse (ev # evs)) m2 e2" unfolding all by blast
    from spec_run.request[OF 1(3) 2(2)] 1(1) 2(1,3) Request show ?thesis by auto
  next
    case Processor
    have all: "ds @ posted_docs H parse (ev # evs) = ds @ posted_docs H parse evs" using Processor by (simp add: posted_docs_def)
    have none: "ds @ added_docs [Process] = ds" by (simp add: added_docs_def)
    have "docs_fit ds" using Cons.prems(2) docs_fit_prefix by blast
    then obtain e1 m1 where
      1: "engine_process V ord e = Inr e1" "engine_stored amap wf tmap ds m1 e1" "m1 \<in> {m, length ds}"
      using engine_step_stored[OF Cons.prems(1) assms(1,2), of Process] unfolding none by auto
    from Cons.IH[OF 1(2)] Cons.prems(2-4) obtain replies e2 m2 where
      2: "serve H parse wr V T ord ford n docroot e1 evs = Some (Inr (replies, e2))"
        "spec_run H parse wr docroot ds m1 evs replies (ds @ posted_docs H parse (ev # evs)) m2"
        "engine_stored amap wf tmap (ds @ posted_docs H parse (ev # evs)) m2 e2"
      unfolding all by (auto simp: requests_ok_def)
    from spec_run.round[OF 1(3) 2(2)] 1(1) 2(1,3) Processor show ?thesis by auto
  qed
qed

end

text \<open>From the start on, with a database that is destroyed before.\<close>

lemma server_run:
  assumes "leveldb_contract L dmap good" and "trie_contract T tmap" and "tmap tree = (\<lambda>_. None)" and "hash_order ord"
    and "\<And>F. finite F \<Longrightarrow> set (ford F) = F" and "db_Open L True LEVELDB_STORE = (True, db)"
    and "docs_fit (posted_docs H parse evs)" and "requests_ok H evs" and "length (posted_docs H parse evs) < n"
  shows "\<exists>e replies e' m. server_start L [49] tree = Inr e
    \<and> serve H parse wr (ldb_vtable L) T ord ford n docroot e evs = Some (Inr (replies, e'))
    \<and> spec_run H parse wr docroot [] 0 evs replies (posted_docs H parse evs) m"
proof -
  note store = leveldb_store[OF assms(1)]
  have db: "good db" "dmap db = (\<lambda>_. None)" using assms(1,6) unfolding leveldb_contract_def by blast+
  from kv_store.engine_open_inv[where tmap = tmap and tree = tree, OF store db assms(3)] obtain e where
    e: "engine_open (ldb_vtable L) tree db = Inr e" "engine_flushed dmap good tmap [] e" by (auto simp: engine_flushed_def)
  have "atoi (c_str [49]) = Inr 1" by code_simp
  then have start: "server_start L [49] tree = Inr (engine_setMaxBatchSize MAX_BATCH_SIZE e)"
    using assms(6) e(1) by (simp add: server_start_def ldb_Open_def)
  have "docs_fit []" using assms(7) docs_fit_prefix[of "[]"] by simp
  with kv_store.engine_step_stored[OF store engine_flushed_stored[OF e(2)] assms(2,4), of "SetMax MAX_BATCH_SIZE"]
  have "engine_stored dmap good tmap [] 0 (engine_setMaxBatchSize MAX_BATCH_SIZE e)" by (auto simp: added_docs_def)
  with kv_store.serve_ok[OF store assms(2,4,5), where ds = "[]" and m = 0 and evs = evs and H = H and parse = parse
      and wr = wr and docroot = docroot and n = n] assms(7-9) obtain replies e' m where
    "serve H parse wr (ldb_vtable L) T ord ford n docroot (engine_setMaxBatchSize MAX_BATCH_SIZE e) evs = Some (Inr (replies, e'))"
    "spec_run H parse wr docroot [] 0 evs replies (posted_docs H parse evs) m" by fastforce
  with start show ?thesis by blast
qed

end
