(* ===== verification/OldField.thy ===== *)
theory OldField
  imports Prelude
begin

text \<open>
  The field of a document as \<^verbatim>\<open>src/src/Field.cpp\<close> has it: a name, a value and two settings packed in
  one word, whether the value is stored and how it is indexed.
\<close>

section \<open>The settings\<close>

definition STORE_YES :: u32 where "STORE_YES = 1"
definition STORE_NO :: u32 where "STORE_NO = 2"
definition INDEX_NO :: u32 where "INDEX_NO = 16"
definition INDEX_TOKENIZED :: u32 where "INDEX_TOKENIZED = 32"
definition INDEX_UNTOKENIZED :: u32 where "INDEX_UNTOKENIZED = 64"

lemmas flag_defs = STORE_YES_def STORE_NO_def INDEX_NO_def INDEX_TOKENIZED_def INDEX_UNTOKENIZED_def

record old_field =
  field_name :: "8 word list"
  fieldsData :: "8 word list"
  config :: u32

definition setConfig :: "u32 \<Rightarrow> old_field \<Rightarrow> old_field" where
  "setConfig x f =
     (let newConfig = 0;
          newConfig = (if x AND STORE_YES \<noteq> 0 then newConfig OR STORE_YES else newConfig OR STORE_NO);
          newConfig =
            (if x AND INDEX_NO = 0
             then
               let (newConfig, index) =
                     (if x AND INDEX_TOKENIZED \<noteq> 0 then (newConfig OR INDEX_TOKENIZED, True)
                      else if x AND INDEX_UNTOKENIZED \<noteq> 0 then (newConfig OR INDEX_UNTOKENIZED, True)
                      else (newConfig, False))
               in if \<not> index then newConfig OR INDEX_NO else newConfig
             else newConfig OR INDEX_NO)
      in f\<lparr>config := newConfig\<rparr>)"

definition new_field :: "8 word list \<Rightarrow> 8 word list \<Rightarrow> u32 \<Rightarrow> old_field" where
  "new_field name v cfg = setConfig cfg \<lparr>field_name = name, fieldsData = v, config = 0\<rparr>"

definition isStored :: "old_field \<Rightarrow> bool" where
  "isStored f \<longleftrightarrow> config f AND STORE_YES \<noteq> 0"

definition isIndexed :: "old_field \<Rightarrow> bool" where
  "isIndexed f \<longleftrightarrow> config f AND INDEX_TOKENIZED \<noteq> 0"

definition isTokenized :: "old_field \<Rightarrow> bool" where
  "isTokenized f \<longleftrightarrow> config f AND INDEX_TOKENIZED \<noteq> 0"

definition field_value :: "old_field \<Rightarrow> 8 word list" where
  "field_value f = fieldsData f"

definition field_toString :: "old_field \<Rightarrow> 8 word list" where
  "field_toString f = fieldsData f"

section \<open>What they come to\<close>

text \<open>Whatever is asked for, one setting of each kind is in force, and asking for it again changes nothing.\<close>

lemma config_values:
  "config (setConfig x f) =
     (if x AND STORE_YES \<noteq> 0 then 1 else 2)
     + (if x AND INDEX_NO \<noteq> 0 then 16 else if x AND INDEX_TOKENIZED \<noteq> 0 then 32
        else if x AND INDEX_UNTOKENIZED \<noteq> 0 then 64 else 16)"
  by (simp add: setConfig_def flag_defs)

lemma setConfig_again: "setConfig (config (setConfig x f)) f = setConfig x f"
proof -
  have "config (setConfig (config (setConfig x f)) f) = config (setConfig x f)"
    unfolding config_values by (simp add: flag_defs)
  then show ?thesis by (simp add: setConfig_def Let_def split: prod.splits)
qed

lemma isStored_new: "isStored (new_field n v x) \<longleftrightarrow> x AND STORE_YES \<noteq> 0"
  unfolding isStored_def new_field_def config_values by (simp add: flag_defs)

text \<open>A field to be indexed without an analyzer does not count as indexed.\<close>

lemma isIndexed_new:
  "isIndexed (new_field n v x) \<longleftrightarrow> x AND INDEX_NO = 0 \<and> x AND INDEX_TOKENIZED \<noteq> 0"
  unfolding isIndexed_def new_field_def config_values by (simp add: flag_defs)

lemma untokenized_not_indexed: "\<not> isIndexed (new_field n v INDEX_UNTOKENIZED)"
  unfolding isIndexed_new by (simp add: flag_defs)

end
