(* ===== verification/BitVectors.thy ===== *)
theory BitVectors
  imports Prelude
begin

text \<open>
  Arrays of bits over machine words, most significant bit first (\<^verbatim>\<open>src/src/trie/block_info.hpp\<close>,
  \<^verbatim>\<open>bit_access.hpp\<close>), and the growing vector of bits over them (\<^verbatim>\<open>bit_vector.hpp\<close>, \<^verbatim>\<open>bit_vector.cpp\<close>).
  A buffer is the list of its blocks; positions are counted in bits from its beginning.
\<close>

section \<open>Blocks\<close>

text \<open>The template that computes a binary logarithm, from \<open>initial_n\<close>, which is 32, on.\<close>

fun static_log2 :: "nat \<Rightarrow> nat \<Rightarrow> nat" where
  "static_log2 x n =
     (if n = 0 then 0
      else
        let c = (if drop_bit n x > 0 then 1 else 0) in
        c * n + static_log2 (drop_bit (c * n) x) (n div 2))"

declare static_log2.simps [simp del]

definition log_bits_per_block :: "nat \<Rightarrow> nat" where
  "log_bits_per_block w = static_log2 w 32"

definition block_count :: "nat \<Rightarrow> nat \<Rightarrow> nat" where
  "block_count w n = (n + w - 1) div w"

text \<open>The types that blocks can have.\<close>

definition block_type :: "'a::len itself \<Rightarrow> bool" where
  "block_type t \<longleftrightarrow> LENGTH('a) \<in> {8, 16, 32, 64}"

lemma block_types [simp]:
  "block_type TYPE(8)" "block_type TYPE(16)" "block_type TYPE(32)" "block_type TYPE(64)"
  by (simp_all add: block_type_def)

section \<open>Single bits\<close>

definition block_index :: "'a::len itself \<Rightarrow> nat \<Rightarrow> nat" where
  "block_index t i = drop_bit (log_bits_per_block LENGTH('a)) i"

definition in_block_offset :: "'a::len itself \<Rightarrow> nat \<Rightarrow> nat" where
  "in_block_offset t i = i AND (LENGTH('a) - 1)"

lemma static_log2_0: "static_log2 x 0 = 0"
  by (simp add: static_log2.simps)

lemma static_log2_pos:
  "0 < n \<Longrightarrow> static_log2 x n
     = (if 0 < x div 2 ^ n then n + static_log2 (x div 2 ^ n) (n div 2) else static_log2 x (n div 2))"
  by (simp add: static_log2.simps[of x n] drop_bit_eq_div)

lemma log_bits: "log_bits_per_block 8 = 3" "log_bits_per_block 16 = 4" "log_bits_per_block 32 = 5" "log_bits_per_block 64 = 6"
  by (simp_all add: log_bits_per_block_def static_log2_pos static_log2_0)

lemma block_index_div: "block_type TYPE('a) \<Longrightarrow> block_index TYPE('a::len) i = i div LENGTH('a)"
  by (auto simp: block_type_def block_index_def log_bits drop_bit_eq_div)

lemma in_block_offset_mod:
  assumes "block_type TYPE('a)"
  shows "in_block_offset TYPE('a::len) i = i mod LENGTH('a)"
proof -
  have mask: "i AND (2 ^ n - 1) = i mod 2 ^ n" for n
    using take_bit_eq_mask[of n i] by (simp add: take_bit_eq_mod mask_eq_exp_minus_1)
  from assms consider "LENGTH('a) = 2 ^ 3" | "LENGTH('a) = 2 ^ 4" | "LENGTH('a) = 2 ^ 5" | "LENGTH('a) = 2 ^ 6"
    by (auto simp: block_type_def)
  then show ?thesis by cases (simp_all only: in_block_offset_def mask)
qed

text \<open>The mask of a bit in its block.\<close>

definition bit_of_block :: "nat \<Rightarrow> 'a::len word" where
  "bit_of_block i = push_bit (LENGTH('a) - 1 - in_block_offset TYPE('a) i) 1"

definition update_block :: "('a::len word \<Rightarrow> 'a word) \<Rightarrow> 'a word list \<Rightarrow> nat \<Rightarrow> 'a word list res" where
  "update_block f v i =
     (let b = block_index TYPE('a) i in rbind (vec_at v (int b)) (\<lambda>x. vec_set v (int b) (f x)))"

definition ba_set :: "'a::len word list \<Rightarrow> nat \<Rightarrow> 'a word list res" where
  "ba_set v i = update_block (\<lambda>x. x OR bit_of_block i) v i"

definition ba_unset :: "'a::len word list \<Rightarrow> nat \<Rightarrow> 'a word list res" where
  "ba_unset v i = update_block (\<lambda>x. x AND NOT (bit_of_block i)) v i"

definition ba_flip :: "'a::len word list \<Rightarrow> nat \<Rightarrow> 'a word list res" where
  "ba_flip v i = update_block (\<lambda>x. x XOR bit_of_block i) v i"

definition ba_get :: "'a::len word list \<Rightarrow> nat \<Rightarrow> bool res" where
  "ba_get v i = rbind (vec_at v (int (block_index TYPE('a) i))) (\<lambda>x. Inr (x AND bit_of_block i \<noteq> 0))"

section \<open>Copying bits\<close>

text \<open>
  The loop of \<open>copy_set\<close>: the blocks the two pointers are at, the offsets in them, and the bits that
  are left.  An offset is always inside its block, so that each round copies a bit; one that
  is not would leave the loop as it is.
\<close>

function copy_loop ::
    "'d::len word list \<Rightarrow> nat \<Rightarrow> nat \<Rightarrow> 's::len word list \<Rightarrow> nat \<Rightarrow> nat \<Rightarrow> nat \<Rightarrow> 'd word list res" where
  "copy_loop dest db dest_i src sb src_i count =
     (if count = 0 then Inr dest
      else
        let dest_available = LENGTH('d) - dest_i;
            src_available = LENGTH('s) - src_i;
            copy_len = min (min dest_available src_available) count in
        if copy_len = 0 then Inl OutOfFuel
        else
          rbind (vec_at src (int sb)) (\<lambda>src_v.
            let src_v = push_bit src_i src_v;
                src_v = drop_bit (LENGTH('s) - copy_len) src_v;
                dest_v = (ucast src_v :: 'd word);
                dest_v = push_bit (LENGTH('d) - dest_i - copy_len) dest_v in
            rbind (vec_at dest (int db)) (\<lambda>x.
            rbind (vec_set dest (int db) (x OR dest_v)) (\<lambda>dest'.
              copy_loop dest'
                (if dest_available = copy_len then db + 1 else db)
                (if dest_available = copy_len then 0 else dest_i + copy_len)
                src
                (if src_available = copy_len then sb + 1 else sb)
                (if src_available = copy_len then 0 else src_i + copy_len)
                (count - copy_len)))))"
  by pat_completeness auto
termination
  by (relation "measure (\<lambda>(dest, db, dest_i, src, sb, src_i, count). count)", rule wf_measure,
      simp only: in_measure prod.case, rule diff_less; simp only: neq0_conv)

declare copy_loop.simps [simp del]

definition copy_set :: "'d::len word list \<Rightarrow> nat \<Rightarrow> 's::len word list \<Rightarrow> nat \<Rightarrow> nat \<Rightarrow> 'd word list res" where
  "copy_set dest dest_i src src_i count =
     copy_loop dest (block_index TYPE('d) dest_i) (in_block_offset TYPE('d) dest_i)
       src (block_index TYPE('s) src_i) (in_block_offset TYPE('s) src_i) count"

section \<open>The vector of bits\<close>

text \<open>A buffer that is \<open>None\<close> is a null pointer; blocks are of the default type, \<^verbatim>\<open>uint32_t\<close>.\<close>

record bit_vector =
  bv_buf :: "u32 list option"
  bv_size :: nat
  bv_capacity :: nat

text \<open>
  \<open>realloc\<close> keeps the blocks that fit and the new ones are zeroed from the last used one on.  With no
  block to allocate it frees the buffer and returns null (as in the GNU C library), which the code takes for a failure:
  it copies the old blocks from the freed buffer, if there are any, and frees it a second time.
\<close>

definition bv_resize :: "bit_vector \<Rightarrow> bit_vector res" where
  "bv_resize bv =
     (let old_count = block_count 32 (bv_size bv);
          new_count = block_count 32 (bv_capacity bv);
          buf = (case bv_buf bv of None \<Rightarrow> [] | Some b \<Rightarrow> b) in
      if new_count = 0 \<and> bv_buf bv \<noteq> None then Inl (if old_count = 0 then DoubleFree else OutOfBounds)
      else Inr (bv\<lparr>bv_buf := Some (take new_count (take old_count buf @ replicate (new_count - old_count) 0))\<rparr>))"

definition bv_new :: "bit_vector res" where
  "bv_new = bv_resize \<lparr>bv_buf = None, bv_size = 0, bv_capacity = 8\<rparr>"

definition bv_clear :: "bit_vector \<Rightarrow> bit_vector" where
  "bv_clear bv = \<lparr>bv_buf = None, bv_size = 0, bv_capacity = 0\<rparr>"

definition bv_compact :: "bit_vector \<Rightarrow> bit_vector res" where
  "bv_compact bv = bv_resize (bv\<lparr>bv_capacity := bv_size bv\<rparr>)"

text \<open>A null pointer that is followed.\<close>

definition the_buf :: "bit_vector \<Rightarrow> u32 list res" where
  "the_buf bv = (case bv_buf bv of None \<Rightarrow> Inl NullPointer | Some b \<Rightarrow> Inr b)"

definition push_back :: "bool \<Rightarrow> bit_vector \<Rightarrow> bit_vector res" where
  "push_back b bv =
     rbind (if bv_size bv = bv_capacity bv
            then bv_resize (bv\<lparr>bv_capacity := (if bv_capacity bv = 0 then 1 else 2 * bv_capacity bv)\<rparr>)
            else Inr bv) (\<lambda>bv1.
     rbind (if b then rbind (the_buf bv1) (\<lambda>buf. rbind (ba_set buf (bv_size bv1)) (\<lambda>buf'. Inr (bv1\<lparr>bv_buf := Some buf'\<rparr>)))
            else Inr bv1) (\<lambda>bv2.
       Inr (bv2\<lparr>bv_size := bv_size bv2 + 1\<rparr>)))"

definition pop_back :: "bit_vector \<Rightarrow> bit_vector res" where
  "pop_back bv =
     rbind (the_buf bv) (\<lambda>buf. rbind (ba_unset buf (bv_size bv - 1)) (\<lambda>buf'.
       Inr (bv\<lparr>bv_buf := Some buf', bv_size := bv_size bv - 1\<rparr>)))"

definition bv_at :: "bit_vector \<Rightarrow> nat \<Rightarrow> bool res" where
  "bv_at bv i = rbind (the_buf bv) (\<lambda>buf. ba_get buf i)"

text \<open>The doubling of the capacity, which is at least 1 when the loop is reached.\<close>

function grow_loop :: "nat \<Rightarrow> nat \<Rightarrow> nat" where
  "grow_loop wanted cap = (if 0 < cap \<and> cap < wanted then grow_loop wanted (2 * cap) else cap)"
  by pat_completeness auto
termination
  by (relation "measure (\<lambda>(wanted, cap). wanted - cap)") auto

declare grow_loop.simps [simp del]

definition bv_reserve :: "nat \<Rightarrow> bit_vector \<Rightarrow> bit_vector res" where
  "bv_reserve wanted bv =
     (if wanted > bv_capacity bv
      then bv_resize (bv\<lparr>bv_capacity := grow_loop wanted (if bv_capacity bv = 0 then 1 else bv_capacity bv)\<rparr>)
      else Inr bv)"

text \<open>What all \<open>append\<close>s do; the one from another vector counts all of its bits.\<close>

definition append_from :: "'s::len word list \<Rightarrow> nat \<Rightarrow> nat \<Rightarrow> nat \<Rightarrow> bit_vector \<Rightarrow> bit_vector res" where
  "append_from src i len wanted bv =
     rbind (bv_reserve wanted bv) (\<lambda>bv1.
     rbind (the_buf bv1) (\<lambda>buf. rbind (copy_set buf (bv_size bv1) src i len) (\<lambda>buf'.
       Inr (bv1\<lparr>bv_buf := Some buf', bv_size := wanted\<rparr>))))"

definition append_vector :: "bit_vector \<Rightarrow> nat \<Rightarrow> nat \<Rightarrow> bit_vector \<Rightarrow> bit_vector res" where
  "append_vector r i len bv = rbind (the_buf r) (\<lambda>src. append_from src i len (bv_size bv + bv_size r) bv)"

definition append_array :: "'s::len word list \<Rightarrow> nat \<Rightarrow> nat \<Rightarrow> bit_vector \<Rightarrow> bit_vector res" where
  "append_array r i len bv = append_from r i len (bv_size bv + len) bv"

text \<open>The low bits of a value; more than it has would start before the value in memory.\<close>

definition append_value :: "'s::len word \<Rightarrow> nat \<Rightarrow> bit_vector \<Rightarrow> bit_vector res" where
  "append_value v len bv =
     (if len > LENGTH('s) then Inl OutOfBounds
      else append_from [v] (LENGTH('s) - len) len (bv_size bv + len) bv)"

definition get_value :: "bit_vector \<Rightarrow> nat \<Rightarrow> nat \<Rightarrow> 't::len word res" where
  "get_value bv i len =
     (if len > LENGTH('t) then Inl OutOfBounds
      else
        rbind (the_buf bv) (\<lambda>buf.
        rbind (copy_set [0 :: 't word] (LENGTH('t) - len) buf i len) (\<lambda>v. vec_at v 0)))"

section \<open>Buffers as bits\<close>

definition buf_bit :: "'a::len word list \<Rightarrow> nat \<Rightarrow> bool" where
  "buf_bit v i = bit (v ! (i div LENGTH('a))) (LENGTH('a) - 1 - i mod LENGTH('a))"

definition buf_len :: "'a::len word list \<Rightarrow> nat" where
  "buf_len v = LENGTH('a) * length v"

lemma block_in_range: "i div LENGTH('a::len) < length (v :: 'a word list) \<longleftrightarrow> i < buf_len v"
  unfolding buf_len_def by (metis div_less_iff_less_mult len_gt_0 mult.commute)

lemma bit_of_block_bit:
  assumes "block_type TYPE('a)"
  shows "bit (bit_of_block i :: 'a::len word) j \<longleftrightarrow> j = LENGTH('a) - 1 - i mod LENGTH('a)"
  by (auto simp: bit_of_block_def in_block_offset_mod[OF assms] bit_exp_iff)

lemma ba_get_bit:
  assumes "block_type TYPE('a::len)" and "i < buf_len v"
  shows "ba_get (v :: 'a word list) i = Inr (buf_bit v i)"
proof -
  have "x AND bit_of_block i \<noteq> 0 \<longleftrightarrow> bit x (LENGTH('a) - 1 - i mod LENGTH('a))" for x :: "'a word"
    using bit_of_block_bit[OF assms(1), of i] by (simp add: bit_eq_iff[of "x AND bit_of_block i" 0] bit_and_iff)
  then show ?thesis using assms by (simp add: ba_get_def block_index_div block_in_range buf_bit_def)
qed

lemma same_position:
  assumes "i div n = j div n" and "n - 1 - i mod n = n - 1 - j mod n" and "0 < n"
  shows "i = (j :: nat)"
proof -
  have "i mod n \<le> n - 1" "j mod n \<le> n - 1" using assms(3) by (simp_all add: Suc_leI less_Suc_eq_le[symmetric])
  then have "i mod n = j mod n" using assms(2) by linarith
  with assms(1) show ?thesis by (metis div_mult_mod_eq)
qed

lemma update_block_bits:
  assumes "block_type TYPE('a::len)" and "i < buf_len v"
    and f: "\<And>x j. bit (f x) j \<longleftrightarrow> (if j = LENGTH('a) - 1 - i mod LENGTH('a) then b (bit x j) else bit x j)"
  shows "\<exists>v'. update_block f (v :: 'a word list) i = Inr v' \<and> length v' = length v
    \<and> (\<forall>k < buf_len v. buf_bit v' k = (if k = i then b (buf_bit v k) else buf_bit v k))"
proof -
  have "buf_bit (v[i div LENGTH('a) := f (v ! (i div LENGTH('a)))]) k = (if k = i then b (buf_bit v k) else buf_bit v k)"
    if "k < buf_len v" for k
  proof (cases "k div LENGTH('a) = i div LENGTH('a)")
    case True
    then have "k = i \<longleftrightarrow> LENGTH('a) - 1 - k mod LENGTH('a) = LENGTH('a) - 1 - i mod LENGTH('a)"
      using same_position[of k "LENGTH('a)" i] by auto
    moreover have "i div LENGTH('a) < length v" using assms(2) by (simp add: block_in_range)
    ultimately show ?thesis using True by (auto simp: buf_bit_def f)
  qed (auto simp: buf_bit_def)
  then show ?thesis using assms(1,2)
    by (intro exI[of _ "v[i div LENGTH('a) := f (v ! (i div LENGTH('a)))]"])
      (simp add: update_block_def block_index_div block_in_range Let_def)
qed

lemma ba_set_bits:
  assumes "block_type TYPE('a::len)" and "i < buf_len v"
  shows "\<exists>v'. ba_set (v :: 'a word list) i = Inr v' \<and> length v' = length v
    \<and> (\<forall>k < buf_len v. buf_bit v' k = (k = i \<or> buf_bit v k))"
proof -
  have "\<exists>v'. ba_set v i = Inr v' \<and> length v' = length v
    \<and> (\<forall>k < buf_len v. buf_bit v' k = (if k = i then (\<lambda>_. True) (buf_bit v k) else buf_bit v k))"
    unfolding ba_set_def by (rule update_block_bits[OF assms]) (simp add: bit_or_iff bit_of_block_bit[OF assms(1)])
  then show ?thesis by auto
qed

lemma ba_unset_bits:
  assumes "block_type TYPE('a::len)" and "i < buf_len v"
  shows "\<exists>v'. ba_unset (v :: 'a word list) i = Inr v' \<and> length v' = length v
    \<and> (\<forall>k < buf_len v. buf_bit v' k = (k \<noteq> i \<and> buf_bit v k))"
proof -
  have "\<exists>v'. ba_unset v i = Inr v' \<and> length v' = length v
    \<and> (\<forall>k < buf_len v. buf_bit v' k = (if k = i then (\<lambda>_. False) (buf_bit v k) else buf_bit v k))"
    unfolding ba_unset_def
    by (rule update_block_bits[OF assms]) (auto simp: bit_and_iff bit_not_iff bit_of_block_bit[OF assms(1)] dest: bit_imp_le_length)
  then show ?thesis by auto
qed

lemma ba_flip_bits:
  assumes "block_type TYPE('a::len)" and "i < buf_len v"
  shows "\<exists>v'. ba_flip (v :: 'a word list) i = Inr v' \<and> length v' = length v
    \<and> (\<forall>k < buf_len v. buf_bit v' k = (if k = i then \<not> buf_bit v k else buf_bit v k))"
  unfolding ba_flip_def by (rule update_block_bits[OF assms]) (simp add: bit_xor_iff bit_of_block_bit[OF assms(1)])

section \<open>What a copy does\<close>

lemma buf_bit_at: "off < LENGTH('a) \<Longrightarrow> buf_bit v (b * LENGTH('a) + off) = bit (v ! b :: 'a::len word) (LENGTH('a) - 1 - off)"
  by (simp add: buf_bit_def)

text \<open>One round: the bits of the source, moved to their place in the block.\<close>

lemma moved_bits:
  fixes src_v :: "'s::len word"
  assumes "0 < n" and "dest_i + n \<le> LENGTH('d)" and "src_i + n \<le> LENGTH('s)" and "off < LENGTH('d)"
  shows "bit (push_bit (LENGTH('d) - dest_i - n) (ucast (drop_bit (LENGTH('s) - n) (push_bit src_i src_v)) :: 'd::len word))
      (LENGTH('d) - 1 - off)
    \<longleftrightarrow> dest_i \<le> off \<and> off < dest_i + n \<and> bit src_v (LENGTH('s) - 1 - (src_i + (off - dest_i)))"
proof (cases "dest_i \<le> off \<and> off < dest_i + n")
  case True
  then have "LENGTH('d) - dest_i - n \<le> LENGTH('d) - 1 - off"
      "LENGTH('d) - 1 - off - (LENGTH('d) - dest_i - n) = dest_i + n - 1 - off"
      "LENGTH('s) - n + (dest_i + n - 1 - off) - src_i = LENGTH('s) - 1 - (src_i + (off - dest_i))"
      "src_i \<le> LENGTH('s) - n + (dest_i + n - 1 - off)" "LENGTH('s) - n + (dest_i + n - 1 - off) < LENGTH('s)"
      "dest_i + n - 1 - off < LENGTH('d)" "LENGTH('d) - 1 - off < LENGTH('d)"
    using assms by linarith+
  with True show ?thesis by (simp add: bit_push_bit_iff bit_ucast_iff bit_drop_bit_eq)
next
  case False
  have "\<not> bit (drop_bit (LENGTH('s) - n) (push_bit src_i src_v)) m" if "n \<le> m" for m
    using that assms(3) by (auto simp: bit_drop_bit_eq dest!: bit_imp_le_length)
  moreover have "LENGTH('d) - dest_i - n \<le> LENGTH('d) - 1 - off \<Longrightarrow> n \<le> LENGTH('d) - 1 - off - (LENGTH('d) - dest_i - n)"
    using False assms by linarith
  ultimately show ?thesis using False by (auto simp: bit_push_bit_iff bit_ucast_iff)
qed

lemma div_block: "(b * n + off) div n = b" "(b * n + off) mod n = off" if "off < n" for b n off :: nat
  using that by simp_all

lemma copy_round:
  fixes dest :: "'d::len word list" and src :: "'s::len word list"
  assumes "0 < n" and "dest_i + n \<le> LENGTH('d)" and "src_i + n \<le> LENGTH('s)" and "db < length dest" and "k < buf_len dest"
  shows "buf_bit (dest[db := dest ! db OR push_bit (LENGTH('d) - dest_i - n)
        (ucast (drop_bit (LENGTH('s) - n) (push_bit src_i (src ! sb))))]) k
    \<longleftrightarrow> buf_bit dest k \<or> db * LENGTH('d) + dest_i \<le> k \<and> k < db * LENGTH('d) + dest_i + n
        \<and> buf_bit src (sb * LENGTH('s) + src_i + (k - (db * LENGTH('d) + dest_i)))"
proof -
  obtain b off where k: "k = b * LENGTH('d) + off" "off < LENGTH('d)"
    by (metis div_mult_mod_eq len_gt_0 mod_less_divisor)
  show ?thesis
  proof (cases "b = db")
    case True
    let ?m = "push_bit (LENGTH('d) - dest_i - n) (ucast (drop_bit (LENGTH('s) - n) (push_bit src_i (src ! sb)))) :: 'd word"
    have new: "buf_bit (dest[db := dest ! db OR ?m]) k
        \<longleftrightarrow> buf_bit dest k \<or> bit ?m (LENGTH('d) - 1 - off)"
      unfolding k(1) True buf_bit_at[OF k(2)] using assms(4) by (simp add: bit_or_iff)
    have src_eq: "bit (src ! sb) (LENGTH('s) - 1 - (src_i + (off - dest_i)))
        = buf_bit src (sb * LENGTH('s) + (src_i + (off - dest_i)))" if "off < dest_i + n"
      using buf_bit_at[of "src_i + (off - dest_i)" src sb] that assms(1,3) by linarith
    have "k - (db * LENGTH('d) + dest_i) = off - dest_i" "db * LENGTH('d) + dest_i \<le> k \<longleftrightarrow> dest_i \<le> off"
      "k < db * LENGTH('d) + dest_i + n \<longleftrightarrow> off < dest_i + n" using k True by simp_all
    then show ?thesis unfolding new moved_bits[OF assms(1-3) k(2)] using src_eq by (auto simp only: add.assoc)
  next
    case False
    then consider "b < db" | "db < b" by linarith
    then have "\<not> (db * LENGTH('d) + dest_i \<le> k \<and> k < db * LENGTH('d) + dest_i + n)"
    proof cases
      case 1
      then have "Suc b * LENGTH('d) \<le> db * LENGTH('d)" by (intro mult_le_mono1) simp
      then show ?thesis using k by simp
    next
      case 2
      then have "Suc db * LENGTH('d) \<le> b * LENGTH('d)" by (intro mult_le_mono1) simp
      then show ?thesis using k assms(2) by simp
    qed
    then show ?thesis using False k by (auto simp: buf_bit_at)
  qed
qed

lemma copy_loop_bits:
  fixes dest :: "'d::len word list" and src :: "'s::len word list"
  assumes "dest_i < LENGTH('d)" and "src_i < LENGTH('s)"
    and "db * LENGTH('d) + dest_i + count \<le> buf_len dest" and "sb * LENGTH('s) + src_i + count \<le> buf_len src"
  shows "\<exists>dest'. copy_loop dest db dest_i src sb src_i count = Inr dest' \<and> length dest' = length dest
    \<and> (\<forall>k<buf_len dest. buf_bit dest' k \<longleftrightarrow> buf_bit dest k \<or>
         db * LENGTH('d) + dest_i \<le> k \<and> k < db * LENGTH('d) + dest_i + count
         \<and> buf_bit src (sb * LENGTH('s) + src_i + (k - (db * LENGTH('d) + dest_i))))"
  using assms
proof (induction count arbitrary: dest db dest_i sb src_i rule: less_induct)
  case (less count)
  show ?case
  proof (cases "count = 0")
    case True
    then show ?thesis by (auto simp: copy_loop.simps[of dest])
  next
    case False
    obtain n where n_eq: "n = min (min (LENGTH('d) - dest_i) (LENGTH('s) - src_i)) count" by blast
    then have n: "0 < n" "dest_i + n \<le> LENGTH('d)" "src_i + n \<le> LENGTH('s)" "n \<le> count"
      using False less.prems(1,2) by (auto simp: min_def)
    have "db * LENGTH('d) + dest_i < buf_len dest" "sb * LENGTH('s) + src_i < buf_len src"
      using less.prems(3,4) False by linarith+
    then have b: "db < length dest" "sb < length src"
      using block_in_range[of "db * LENGTH('d) + dest_i" dest] block_in_range[of "sb * LENGTH('s) + src_i" src] less.prems(1,2)
      by (simp_all add: div_block)
    obtain db' di sb' si where moved:
      "db' = (if LENGTH('d) - dest_i = n then db + 1 else db)" "di = (if LENGTH('d) - dest_i = n then 0 else dest_i + n)"
      "sb' = (if LENGTH('s) - src_i = n then sb + 1 else sb)" "si = (if LENGTH('s) - src_i = n then 0 else src_i + n)" by blast
    have pos: "db' * LENGTH('d) + di = db * LENGTH('d) + dest_i + n" "sb' * LENGTH('s) + si = sb * LENGTH('s) + src_i + n"
        "di < LENGTH('d)" "si < LENGTH('s)"
      using less.prems(1,2) n unfolding moved by (auto simp: add_mult_distrib)
    let ?dest = "dest[db := dest ! db OR push_bit (LENGTH('d) - dest_i - n)
        (ucast (drop_bit (LENGTH('s) - n) (push_bit src_i (src ! sb))))]"
    have len: "buf_len ?dest = buf_len dest" by (simp add: buf_len_def)
    have step: "copy_loop dest db dest_i src sb src_i count = copy_loop ?dest db' di src sb' si (count - n)"
      unfolding copy_loop.simps[of dest db dest_i src sb src_i count] Let_def n_eq[symmetric] moved using False n(1) b by simp
    have fits: "count - n < count" "db' * LENGTH('d) + di + (count - n) \<le> buf_len ?dest"
        "sb' * LENGTH('s) + si + (count - n) \<le> buf_len src"
      unfolding pos len using less.prems(3,4) n False by linarith+
    from less.IH[OF fits(1) pos(3,4) fits(2,3)] obtain dest' where
      dest': "copy_loop ?dest db' di src sb' si (count - n) = Inr dest'" "length dest' = length dest"
      "\<And>k. k < buf_len dest \<Longrightarrow> buf_bit dest' k \<longleftrightarrow> buf_bit ?dest k \<or>
           db * LENGTH('d) + dest_i + n \<le> k \<and> k < db * LENGTH('d) + dest_i + n + (count - n)
           \<and> buf_bit src (sb * LENGTH('s) + src_i + n + (k - (db * LENGTH('d) + dest_i + n)))"
      unfolding pos len length_list_update by blast
    have "buf_bit dest' k \<longleftrightarrow> buf_bit dest k \<or> db * LENGTH('d) + dest_i \<le> k \<and> k < db * LENGTH('d) + dest_i + count
         \<and> buf_bit src (sb * LENGTH('s) + src_i + (k - (db * LENGTH('d) + dest_i)))" if k: "k < buf_len dest" for k
    proof -
      obtain p q where pq: "p = db * LENGTH('d) + dest_i" "q = sb * LENGTH('s) + src_i" by blast
      have "q + n + (k - (p + n)) = q + (k - p)" if "p + n \<le> k" using that by linarith
      moreover have "p + n + (count - n) = p + count" "k < p + n \<Longrightarrow> k < p + count" "p + n \<le> k \<Longrightarrow> p \<le> k"
        using n(4) by linarith+
      ultimately show ?thesis
        unfolding dest'(3)[OF k] copy_round[OF n(1-3) b(1) k] pq[symmetric] by (metis not_le)
    qed
    with dest'(1,2) step show ?thesis by auto
  qed
qed

lemma copy_set_bits:
  fixes dest :: "'d::len word list" and src :: "'s::len word list"
  assumes "block_type TYPE('d)" and "block_type TYPE('s)"
    and "dest_i + count \<le> buf_len dest" and "src_i + count \<le> buf_len src"
  shows "\<exists>dest'. copy_set dest dest_i src src_i count = Inr dest' \<and> length dest' = length dest
    \<and> (\<forall>k<buf_len dest. buf_bit dest' k \<longleftrightarrow> buf_bit dest k \<or>
         dest_i \<le> k \<and> k < dest_i + count \<and> buf_bit src (src_i + (k - dest_i)))"
  using copy_loop_bits[of "dest_i mod LENGTH('d)" "src_i mod LENGTH('s)" "dest_i div LENGTH('d)" count dest "src_i div LENGTH('s)" src]
    assms by (simp add: copy_set_def block_index_div in_block_offset_mod)

section \<open>A vector as a list of bits\<close>

definition bv_ok :: "bit_vector \<Rightarrow> bool" where
  "bv_ok bv \<longleftrightarrow>
     (case bv_buf bv of
        None \<Rightarrow> False
      | Some buf \<Rightarrow> length buf = block_count 32 (bv_capacity bv) \<and> bv_size bv \<le> bv_capacity bv
          \<and> (\<forall>k. bv_size bv \<le> k \<and> k < buf_len buf \<longrightarrow> \<not> buf_bit buf k))"

definition bv_bits :: "bit_vector \<Rightarrow> bool list" where
  "bv_bits bv = (case bv_buf bv of None \<Rightarrow> [] | Some buf \<Rightarrow> map (buf_bit buf) [0..<bv_size bv])"

lemma bv_okE:
  assumes "bv_ok bv"
  obtains buf where "bv_buf bv = Some buf" "length buf = block_count 32 (bv_capacity bv)" "bv_size bv \<le> bv_capacity bv"
    "\<And>k. bv_size bv \<le> k \<Longrightarrow> k < buf_len buf \<Longrightarrow> \<not> buf_bit buf k" "bv_bits bv = map (buf_bit buf) [0..<bv_size bv]"
  using assms by (auto simp: bv_ok_def bv_bits_def split: option.splits)

lemma length_bv_bits: "bv_ok bv \<Longrightarrow> length (bv_bits bv) = bv_size bv"
  by (erule bv_okE) simp

lemma block_count_bounds: "n \<le> 32 * block_count 32 n" "m \<le> n \<Longrightarrow> block_count 32 m \<le> block_count 32 n"
  "0 < n \<Longrightarrow> 0 < block_count 32 n"
proof -
  show "n \<le> 32 * block_count 32 n"
    using div_mult_mod_eq[of "n + 31" 32] mod_less_divisor[of 32 "n + 31"] by (simp add: block_count_def)
  show "m \<le> n \<Longrightarrow> block_count 32 m \<le> block_count 32 n" by (simp add: block_count_def div_le_mono)
  show "0 < n \<Longrightarrow> 0 < block_count 32 n" by (simp add: block_count_def div_greater_zero_iff)
qed

lemma buf_len_u32: "buf_len (v :: u32 list) = 32 * length v"
  by (simp add: buf_len_def)

lemma buf_bit_prefix:
  assumes "k < 32 * n" and "n \<le> length v"
  shows "buf_bit (take n v @ w) k = buf_bit (v :: u32 list) k"
proof -
  have "k div 32 < n" using assms(1) by (intro less_mult_imp_div_less) (simp add: mult.commute)
  with assms(2) show ?thesis by (simp add: buf_bit_def nth_append)
qed

lemma buf_bit_zeros:
  assumes "32 * n \<le> k" and "k < 32 * (n + m)" and "n \<le> length v"
  shows "\<not> buf_bit (take n v @ replicate m 0 :: u32 list) k"
proof -
  have "n \<le> k div 32" using assms(1) by (simp add: less_eq_div_iff_mult_less_eq mult.commute)
  moreover have "k div 32 < n + m" using assms(2) by (intro less_mult_imp_div_less) (simp add: mult.commute)
  ultimately have "n \<le> k div 32" "k div 32 - n < m" by linarith+
  with assms(3) show ?thesis by (simp add: buf_bit_def nth_append)
qed

lemma bv_resize_ok:
  assumes "bv_ok bv" and "bv_size bv \<le> cap" and "0 < cap"
  shows "\<exists>bv'. bv_resize (bv\<lparr>bv_capacity := cap\<rparr>) = Inr bv' \<and> bv_ok bv' \<and> bv_bits bv' = bv_bits bv
    \<and> bv_size bv' = bv_size bv \<and> bv_capacity bv' = cap"
proof -
  obtain buf where buf: "bv_buf bv = Some buf" "length buf = block_count 32 (bv_capacity bv)" "bv_size bv \<le> bv_capacity bv"
    "\<And>k. bv_size bv \<le> k \<Longrightarrow> k < buf_len buf \<Longrightarrow> \<not> buf_bit buf k" "bv_bits bv = map (buf_bit buf) [0..<bv_size bv]"
    using assms(1) by (rule bv_okE) blast
  let ?old = "block_count 32 (bv_size bv)" and ?new = "block_count 32 cap"
  let ?buf = "take ?old buf @ replicate (?new - ?old) 0"
  have le: "?old \<le> ?new" "?old \<le> length buf" "0 < ?new" "bv_size bv \<le> 32 * ?old"
    using block_count_bounds buf(2,3) assms(2,3) by simp_all
  have same: "buf_bit ?buf k = buf_bit buf k" if "k < 32 * ?old" for k using buf_bit_prefix[OF that le(2)] .
  have "\<not> buf_bit ?buf k" if "bv_size bv \<le> k" "k < 32 * ?new" for k
  proof (cases "k < 32 * ?old")
    case True
    then have "k < buf_len buf" using le(2) by (simp add: buf_len_u32)
    with buf(4) that(1) same[OF True] show ?thesis by simp
  next
    case False
    then show ?thesis using buf_bit_zeros[of ?old k "?new - ?old" buf] that(2) le by simp
  qed
  moreover have "length ?buf = ?new" using le by simp
  moreover have "map (buf_bit ?buf) [0..<bv_size bv] = bv_bits bv" unfolding buf(5) using same le(4) by simp
  ultimately show ?thesis
    using le buf(1,3) assms(2) by (simp add: bv_resize_def bv_ok_def bv_bits_def buf_len_u32 Let_def)
qed

lemma bv_new_ok: "\<exists>bv. bv_new = Inr bv \<and> bv_ok bv \<and> bv_bits bv = []"
proof -
  have "k < 32 \<Longrightarrow> \<not> buf_bit [0 :: u32] k" for k by (simp add: buf_bit_def)
  then show ?thesis
    by (simp add: bv_new_def bv_resize_def block_count_def bv_ok_def bv_bits_def buf_len_u32 replicate_length_same)
qed

lemma bv_compact_ok:
  assumes "bv_ok bv" and "bv_bits bv \<noteq> []"
  shows "\<exists>bv'. bv_compact bv = Inr bv' \<and> bv_ok bv' \<and> bv_bits bv' = bv_bits bv"
proof -
  have "0 < bv_size bv" using assms length_bv_bits[OF assms(1)] by (metis length_greater_0_conv)
  with bv_resize_ok[OF assms(1), of "bv_size bv"] show ?thesis by (auto simp: bv_compact_def)
qed

text \<open>Compacting a vector without bits frees its buffer twice.\<close>

lemma bv_compact_empty: "bv_ok bv \<Longrightarrow> bv_bits bv = [] \<Longrightarrow> bv_compact bv = Inl DoubleFree"
  by (erule bv_okE) (simp add: bv_compact_def bv_resize_def block_count_def)

section \<open>Appending and reading\<close>

lemma grow_loop_enough: "0 < cap \<Longrightarrow> wanted \<le> grow_loop wanted cap \<and> 0 < grow_loop wanted cap"
proof (induction wanted cap rule: grow_loop.induct)
  case (1 wanted cap)
  then show ?case by (cases "cap < wanted") (simp_all add: grow_loop.simps[of wanted cap])
qed

lemma bv_reserve_ok:
  assumes "bv_ok bv" and "bv_size bv \<le> wanted"
  shows "\<exists>bv'. bv_reserve wanted bv = Inr bv' \<and> bv_ok bv' \<and> bv_bits bv' = bv_bits bv \<and> bv_size bv' = bv_size bv
    \<and> wanted \<le> bv_capacity bv'"
proof (cases "wanted > bv_capacity bv")
  case True
  let ?cap = "grow_loop wanted (if bv_capacity bv = 0 then 1 else bv_capacity bv)"
  have "wanted \<le> ?cap" "0 < ?cap" using grow_loop_enough[of "if bv_capacity bv = 0 then 1 else bv_capacity bv" wanted] by simp_all
  with bv_resize_ok[OF assms(1), of ?cap] assms(2) True show ?thesis by (auto simp: bv_reserve_def)
qed (use assms in \<open>simp add: bv_reserve_def\<close>)

lemma append_from_ok:
  assumes "bv_ok bv" and "block_type TYPE('s)" and "i + len \<le> buf_len src" and "bv_size bv + len \<le> wanted"
  shows "\<exists>bv'. append_from (src :: 's::len word list) i len wanted bv = Inr bv' \<and> bv_ok bv'
    \<and> bv_bits bv' = bv_bits bv @ map (buf_bit src) [i..<i + len] @ replicate (wanted - bv_size bv - len) False"
proof -
  have "bv_size bv \<le> wanted" using assms(4) by simp
  from bv_reserve_ok[OF assms(1) this] obtain bv1 where
    bv1: "bv_reserve wanted bv = Inr bv1" "bv_ok bv1" "bv_bits bv1 = bv_bits bv" "bv_size bv1 = bv_size bv" "wanted \<le> bv_capacity bv1"
    by blast
  obtain buf where buf: "bv_buf bv1 = Some buf" "length buf = block_count 32 (bv_capacity bv1)"
    "\<And>k. bv_size bv1 \<le> k \<Longrightarrow> k < buf_len buf \<Longrightarrow> \<not> buf_bit buf k" "bv_bits bv1 = map (buf_bit buf) [0..<bv_size bv1]"
    using bv1(2) by (rule bv_okE) blast
  have room: "wanted \<le> buf_len buf"
    using bv1(5) buf(2) block_count_bounds(1)[of "bv_capacity bv1"] by (simp add: buf_len_u32)
  with copy_set_bits[of "bv_size bv" len buf i src] assms(2-4) obtain buf' where
    buf': "copy_set buf (bv_size bv) src i len = Inr buf'" "length buf' = length buf"
      "\<And>k. k < buf_len buf \<Longrightarrow> buf_bit buf' k \<longleftrightarrow> buf_bit buf k \<or>
         bv_size bv \<le> k \<and> k < bv_size bv + len \<and> buf_bit src (i + (k - bv_size bv))" by auto
  let ?bv = "bv1\<lparr>bv_buf := Some buf', bv_size := wanted\<rparr>"
  have "append_from src i len wanted bv = Inr ?bv"
    using bv1(1,4) buf(1) buf'(1) by (simp add: append_from_def the_buf_def)
  moreover have "bv_ok ?bv"
    using buf' buf(2,3) bv1(4,5) assms(4) by (auto simp: bv_ok_def buf_len_u32)
  moreover have "bv_bits ?bv = bv_bits bv @ map (buf_bit src) [i..<i + len] @ replicate (wanted - bv_size bv - len) False"
  proof (rule nth_equalityI)
    show "length (bv_bits ?bv) = length (bv_bits bv @ map (buf_bit src) [i..<i + len] @ replicate (wanted - bv_size bv - len) False)"
      using assms(4) length_bv_bits[OF assms(1)] by (simp add: bv_bits_def)
  next
    fix k assume "k < length (bv_bits ?bv)"
    then have k: "k < wanted" "k < buf_len buf" using room by (simp_all add: bv_bits_def)
    have old: "k < bv_size bv \<Longrightarrow> bv_bits bv ! k = buf_bit buf k" using buf(4) bv1(3,4) by simp
    show "bv_bits ?bv ! k = (bv_bits bv @ map (buf_bit src) [i..<i + len] @ replicate (wanted - bv_size bv - len) False) ! k"
      using k buf'(3)[OF k(2)] old buf(3)[of k] bv1(4) length_bv_bits[OF assms(1)]
      by (auto simp: bv_bits_def nth_append)
  qed
  ultimately show ?thesis by blast
qed

lemma append_array_ok:
  assumes "bv_ok bv" and "block_type TYPE('s)" and "i + len \<le> buf_len src"
  shows "\<exists>bv'. append_array (src :: 's::len word list) i len bv = Inr bv' \<and> bv_ok bv'
    \<and> bv_bits bv' = bv_bits bv @ map (buf_bit src) [i..<i + len]"
  using append_from_ok[OF assms, of "bv_size bv + len"] by (simp add: append_array_def)

text \<open>The low \<open>len\<close> bits of a word, most significant first.\<close>

definition low_bits :: "nat \<Rightarrow> 'a::len word \<Rightarrow> bool list" where
  "low_bits len w = map (\<lambda>i. bit w (len - 1 - i)) [0..<len]"

lemma length_low_bits [simp]: "length (low_bits len w) = len"
  by (simp add: low_bits_def)

lemma append_value_ok:
  assumes "bv_ok bv" and "block_type TYPE('s)" and "len \<le> LENGTH('s)"
  shows "\<exists>bv'. append_value (v :: 's::len word) len bv = Inr bv' \<and> bv_ok bv' \<and> bv_bits bv' = bv_bits bv @ low_bits len v"
proof -
  have "LENGTH('s) - len + len \<le> buf_len [v]" using assms(3) by (simp add: buf_len_def)
  from append_from_ok[OF assms(1,2) this order_refl] have
    "\<exists>bv'. append_value v len bv = Inr bv' \<and> bv_ok bv'
      \<and> bv_bits bv' = bv_bits bv @ map (buf_bit [v]) [LENGTH('s) - len..<LENGTH('s) - len + len]"
    using assms(3) by (simp add: append_value_def)
  moreover have "map (buf_bit [v]) [LENGTH('s) - len..<LENGTH('s) - len + len] = low_bits len v"
    using assms(3) by (intro nth_equalityI) (auto simp: low_bits_def buf_bit_def intro!: arg_cong[of _ _ "bit v"])
  ultimately show ?thesis by simp
qed

lemma push_back_ok:
  assumes "bv_ok bv"
  shows "\<exists>bv'. push_back b bv = Inr bv' \<and> bv_ok bv' \<and> bv_bits bv' = bv_bits bv @ [b]"
proof -
  have "\<exists>bv1. (if bv_size bv = bv_capacity bv
      then bv_resize (bv\<lparr>bv_capacity := (if bv_capacity bv = 0 then 1 else 2 * bv_capacity bv)\<rparr>) else Inr bv) = Inr bv1
      \<and> bv_ok bv1 \<and> bv_bits bv1 = bv_bits bv \<and> bv_size bv1 = bv_size bv \<and> bv_size bv < bv_capacity bv1"
  proof (cases "bv_size bv = bv_capacity bv")
    case True
    with bv_resize_ok[OF assms, of "if bv_capacity bv = 0 then 1 else 2 * bv_capacity bv"] show ?thesis by auto
  next
    case False
    moreover have "bv_size bv \<le> bv_capacity bv" using assms by (rule bv_okE)
    ultimately show ?thesis using assms by simp
  qed
  then obtain bv1 where bv1: "(if bv_size bv = bv_capacity bv
      then bv_resize (bv\<lparr>bv_capacity := (if bv_capacity bv = 0 then 1 else 2 * bv_capacity bv)\<rparr>) else Inr bv) = Inr bv1"
      "bv_ok bv1" "bv_bits bv1 = bv_bits bv" "bv_size bv1 = bv_size bv" "bv_size bv < bv_capacity bv1" by blast
  obtain buf where buf: "bv_buf bv1 = Some buf" "length buf = block_count 32 (bv_capacity bv1)"
    "\<And>k. bv_size bv1 \<le> k \<Longrightarrow> k < buf_len buf \<Longrightarrow> \<not> buf_bit buf k" "bv_bits bv1 = map (buf_bit buf) [0..<bv_size bv1]"
    using bv1(2) by (rule bv_okE) blast
  have room: "bv_size bv < buf_len buf"
    using bv1(5) buf(2) block_count_bounds(1)[of "bv_capacity bv1"] by (simp add: buf_len_u32)
  obtain buf' where buf': "(if b then rbind (ba_set buf (bv_size bv)) (\<lambda>buf'. Inr (bv1\<lparr>bv_buf := Some buf'\<rparr>)) else Inr bv1)
      = Inr (bv1\<lparr>bv_buf := Some buf'\<rparr>)" "length buf' = length buf"
      "\<And>k. k < buf_len buf \<Longrightarrow> buf_bit buf' k \<longleftrightarrow> k = bv_size bv \<and> b \<or> buf_bit buf k"
  proof (cases b)
    case True
    with ba_set_bits[of "bv_size bv" buf] room that show ?thesis by auto
  next
    case False
    with that[of buf] buf(1) show ?thesis by simp
  qed
  let ?bv = "bv1\<lparr>bv_buf := Some buf', bv_size := bv_size bv + 1\<rparr>"
  have "push_back b bv = Inr ?bv"
    unfolding push_back_def bv1(1) using buf'(1) buf(1) bv1(4) by (simp add: the_buf_def split: if_splits)
  moreover have "bv_ok ?bv" using buf' buf(2,3) bv1(4,5) by (auto simp: bv_ok_def buf_len_u32)
  moreover have "bv_bits ?bv = map (buf_bit buf') [0..<bv_size bv] @ [buf_bit buf' (bv_size bv)]" by (simp add: bv_bits_def)
  moreover have "map (buf_bit buf') [0..<bv_size bv] = bv_bits bv" unfolding bv1(3)[symmetric] buf(4) bv1(4)
    using buf'(3) room by simp
  moreover have "buf_bit buf' (bv_size bv) = b" using buf'(3) buf(3) bv1(4) room by simp
  ultimately show ?thesis by auto
qed

lemma pop_back_ok:
  assumes "bv_ok bv" and "bv_bits bv \<noteq> []"
  shows "\<exists>bv'. pop_back bv = Inr bv' \<and> bv_ok bv' \<and> bv_bits bv' = butlast (bv_bits bv)"
proof -
  obtain buf where buf: "bv_buf bv = Some buf" "length buf = block_count 32 (bv_capacity bv)" "bv_size bv \<le> bv_capacity bv"
    "\<And>k. bv_size bv \<le> k \<Longrightarrow> k < buf_len buf \<Longrightarrow> \<not> buf_bit buf k" "bv_bits bv = map (buf_bit buf) [0..<bv_size bv]"
    using assms(1) by (rule bv_okE) blast
  then obtain n where n: "bv_size bv = Suc n" using assms(2) by (cases "bv_size bv") auto
  have "Suc n \<le> buf_len buf" using n buf(2,3) block_count_bounds(1)[of "bv_capacity bv"] by (simp add: buf_len_u32)
  with ba_unset_bits[of n buf] obtain buf' where
    buf': "ba_unset buf n = Inr buf'" "length buf' = length buf" "\<And>k. k < buf_len buf \<Longrightarrow> buf_bit buf' k \<longleftrightarrow> k \<noteq> n \<and> buf_bit buf k"
    by auto
  have "\<not> buf_bit buf' k" if "n \<le> k" "k < buf_len buf" for k
    using buf'(3)[OF that(2)] buf(4)[of k] n that by (cases "k = n") auto
  then have "bv_ok (bv\<lparr>bv_buf := Some buf', bv_size := n\<rparr>)"
    using buf(2,3) buf'(2) n by (simp add: bv_ok_def buf_len_u32)
  moreover have "bv_bits (bv\<lparr>bv_buf := Some buf', bv_size := n\<rparr>) = butlast (bv_bits bv)"
    using buf'(3) buf(5) n \<open>Suc n \<le> buf_len buf\<close> by (simp add: bv_bits_def)
  ultimately show ?thesis using buf(1) buf'(1) n by (auto simp: pop_back_def the_buf_def)
qed

lemma bv_at_ok:
  assumes "bv_ok bv" and "i < length (bv_bits bv)"
  shows "bv_at bv i = Inr (bv_bits bv ! i)"
proof -
  obtain buf where buf: "bv_buf bv = Some buf" "length buf = block_count 32 (bv_capacity bv)" "bv_size bv \<le> bv_capacity bv"
    "bv_bits bv = map (buf_bit buf) [0..<bv_size bv]"
    using assms(1) by (rule bv_okE) blast
  have "i < buf_len buf" using assms(2) buf(2-4) block_count_bounds(1)[of "bv_capacity bv"] by (simp add: buf_len_u32)
  with buf assms(2) show ?thesis by (simp add: bv_at_def the_buf_def ba_get_bit)
qed

lemma get_value_ok:
  assumes "bv_ok bv" and "block_type TYPE('t)" and "len \<le> LENGTH('t)" and "i + len \<le> length (bv_bits bv)"
  shows "\<exists>w :: 't::len word. get_value bv i len = Inr w
    \<and> (\<forall>j. bit w j \<longleftrightarrow> j < len \<and> bv_bits bv ! (i + (len - 1 - j)))"
proof -
  obtain buf where buf: "bv_buf bv = Some buf" "length buf = block_count 32 (bv_capacity bv)" "bv_size bv \<le> bv_capacity bv"
    "bv_bits bv = map (buf_bit buf) [0..<bv_size bv]"
    using assms(1) by (rule bv_okE) blast
  have room: "i + len \<le> buf_len buf" using assms(4) buf(2-4) block_count_bounds(1)[of "bv_capacity bv"] by (simp add: buf_len_u32)
  have zero: "\<not> buf_bit [0 :: 't word] k" if "k < LENGTH('t)" for k using that by (simp add: buf_bit_def)
  from copy_set_bits[of "LENGTH('t) - len" len "[0 :: 't word]" i buf] assms(2,3) room obtain ws where
    ws: "copy_set [0 :: 't word] (LENGTH('t) - len) buf i len = Inr ws" "length ws = 1"
      "\<And>k. k < LENGTH('t) \<Longrightarrow> buf_bit ws k \<longleftrightarrow> LENGTH('t) - len \<le> k \<and> buf_bit buf (i + (k - (LENGTH('t) - len)))"
    using zero by (auto simp: buf_len_def)
  then obtain w where w: "ws = [w]" by (metis One_nat_def length_0_conv length_Suc_conv)
  have "bit w j \<longleftrightarrow> j < len \<and> bv_bits bv ! (i + (len - 1 - j))" for j
  proof (cases "j < LENGTH('t)")
    case True
    have "bit w j = buf_bit ws (LENGTH('t) - 1 - j)" using True by (simp add: w buf_bit_def)
    also have "\<dots> \<longleftrightarrow> j < len \<and> buf_bit buf (i + (LENGTH('t) - 1 - j - (LENGTH('t) - len)))"
      using ws(3)[of "LENGTH('t) - 1 - j"] True assms(3) by auto
    also have "\<dots> \<longleftrightarrow> j < len \<and> buf_bit buf (i + (len - 1 - j))"
    proof -
      have "LENGTH('t) - 1 - j - (LENGTH('t) - len) = len - 1 - j" using assms(3) by linarith
      then show ?thesis by simp
    qed
    also have "\<dots> \<longleftrightarrow> j < len \<and> bv_bits bv ! (i + (len - 1 - j))" using assms(4) buf(4) by auto
    finally show ?thesis .
  next
    case False
    then show ?thesis using assms(3) by (auto dest: bit_imp_le_length)
  qed
  with ws(1) w buf(1) assms(3) show ?thesis by (auto simp: get_value_def the_buf_def)
qed

end
