(* ===== verification/EntropyCodes.thy ===== *)
theory EntropyCodes
  imports BitVectors
begin

text \<open>
  The codes of numbers in a vector of bits: signed numbers as unsigned ones
  (\<^verbatim>\<open>src/src/trie/sign_interleave.hpp\<close>) and exponential Golomb codes (\<^verbatim>\<open>exp_golomb.hpp\<close>), for the type
  \<open>size_t\<close> they are used with.
\<close>

section \<open>Signed numbers\<close>

definition si_encode :: "u64 \<Rightarrow> u64" where
  "si_encode v = (if v AND push_bit 63 1 = 0 then push_bit 1 v else push_bit 1 (NOT v) OR 1)"

definition si_decode :: "u64 \<Rightarrow> u64" where
  "si_decode v =
     (if v AND 1 = 0 then drop_bit 1 v AND NOT (push_bit 63 1) else NOT (drop_bit 1 v) OR push_bit 63 1)"

section \<open>Exponential Golomb codes\<close>

text \<open>The number of bits of a word, by the loop that shifts it to zero.\<close>

function bit_len :: "u64 \<Rightarrow> nat" where
  "bit_len p = (if p \<noteq> 0 then Suc (bit_len (drop_bit 1 p)) else 0)"
  by pat_completeness auto
termination
proof (relation "measure unat", goal_cases)
  case (2 p)
  then have "0 < unat p" by (simp add: unat_gt_0)
  then show ?case by (simp add: drop_bit_eq_div unat_div)
qed simp

declare bit_len.simps [simp del]

definition push_zeros :: "nat \<Rightarrow> bit_vector \<Rightarrow> bit_vector res" where
  "push_zeros n out_buf = fold_res (\<lambda>out i. push_back False out) out_buf [1..<n]"

text \<open>
  With a number whose successor is 0 there are no bits, and \<open>append\<close> is asked for \<open>- 1\<close> of them.
\<close>

definition eg_encode :: "nat \<Rightarrow> bit_vector \<Rightarrow> u64 \<Rightarrow> bit_vector res" where
  "eg_encode Order out_buf n =
     (let m = (if Order \<noteq> 0 then drop_bit Order n + 1 else n + 1);
          len = bit_len m in
      rbind (push_zeros len out_buf) (\<lambda>out1.
      rbind (push_back True out1) (\<lambda>out2.
      rbind (if len = 0 then Inl OutOfBounds else append_value m (len - 1) out2) (\<lambda>out3.
        if Order \<noteq> 0 then append_value n Order out3 else Inr out3))))"

text \<open>The loop that counts zeros, from an iterator on: the length and the iterator behind the one.\<close>

lemma bv_at_in_buf: "bv_at bv i = Inr b \<Longrightarrow> i < 32 * (case bv_buf bv of None \<Rightarrow> 0 | Some buf \<Rightarrow> length buf)"
  using block_in_range[of i "the (bv_buf bv)"]
  by (auto simp: bv_at_def the_buf_def ba_get_def rbind_def vec_at_def block_index_div buf_len_u32 split: option.splits if_splits)

function count_loop :: "bit_vector \<Rightarrow> nat \<Rightarrow> nat \<Rightarrow> (nat \<times> nat) res" where
  "count_loop in_buf iter len =
     (case bv_at in_buf iter of
        Inl err \<Rightarrow> Inl err
      | Inr b \<Rightarrow> if b then Inr (len, iter + 1) else count_loop in_buf (iter + 1) (len + 1))"
  by pat_completeness auto
termination
proof (relation "measure (\<lambda>(bv, i, len). 32 * (case bv_buf bv of None \<Rightarrow> 0 | Some buf \<Rightarrow> length buf) - i)", goal_cases)
  case (2 in_buf iter len b)
  from bv_at_in_buf[OF 2(1)] show ?case by simp
qed simp

declare count_loop.simps [simp del]

definition eg_decode :: "nat \<Rightarrow> bit_vector \<Rightarrow> nat \<Rightarrow> (u64 \<times> nat) res" where
  "eg_decode Order in_buf iter =
     rbind (count_loop in_buf iter 1) (\<lambda>(len, iter1).
     rbind (get_value in_buf iter1 (len - 1)) (\<lambda>low.
       let m = push_bit (len - 1) 1 OR low;
           iter2 = iter1 + (len - 1) in
       if Order \<noteq> 0 then
         rbind (get_value in_buf iter2 Order) (\<lambda>rest. Inr (push_bit Order (m - 1) OR rest, iter2 + Order))
       else Inr (m - 1, iter2)))"

section \<open>Signed numbers come back\<close>

lemma and_bit_zero: "(w :: 'a::len word) AND push_bit n 1 = 0 \<longleftrightarrow> \<not> bit w n"
  by (simp add: and_exp_eq_0_iff_not_bit)

lemma bit_shifted_one: "bit (push_bit n (1 :: u64)) j \<longleftrightarrow> n < 64 \<and> j = n"
  using bit_exp_iff[where 'a = "64 word", of n j] by (auto simp: push_bit_eq_mult simp del: push_bit_of_1)

lemma bit_doubled: "bit (push_bit 1 (v :: u64)) j \<longleftrightarrow> j < 64 \<and> 0 < j \<and> bit v (j - 1)"
  by (auto simp: bit_push_bit_iff simp del: push_bit_Suc)

lemma bit_si_encode: "bit (si_encode v) j \<longleftrightarrow> j < 64 \<and> (if bit v 63 then j = 0 \<or> \<not> bit v (j - 1) else 0 < j \<and> bit v (j - 1))"
proof (cases "bit v 63")
  case True
  then have "si_encode v = push_bit 1 (NOT v) OR 1" unfolding si_encode_def and_bit_zero by (simp only: not_True_eq_False if_False)
  then have "bit (si_encode v) j \<longleftrightarrow> (j < 64 \<and> 0 < j \<and> bit (NOT v) (j - 1)) \<or> bit (1 :: u64) j"
    by (simp only: bit_or_iff bit_doubled)
  then show ?thesis using True by (auto simp: bit_not_iff bit_1_iff)
next
  case False
  then have "si_encode v = push_bit 1 v" unfolding si_encode_def and_bit_zero by (simp only: not_False_eq_True if_True)
  then show ?thesis using False by (simp only: bit_doubled if_False)
qed

lemma si_roundtrip: "si_decode (si_encode v) = v"
proof (rule bit_word_eqI)
  fix n assume n: "n < LENGTH(64)"
  have low: "w AND 1 = 0 \<longleftrightarrow> \<not> bit w 0" for w :: u64
    using and_bit_zero[of w 0] by simp
  let ?e = "si_encode v"
  have e: "bit ?e 0 \<longleftrightarrow> bit v 63" "bit ?e (Suc n) \<longleftrightarrow> n < 63 \<and> (if bit v 63 then \<not> bit v n else bit v n)"
    by (simp_all add: bit_si_encode)
  have half: "bit (drop_bit 1 ?e) n \<longleftrightarrow> bit ?e (Suc n)" by (simp add: bit_drop_bit_eq)
  have "bit (si_decode ?e) n \<longleftrightarrow>
      (if \<not> bit v 63 then bit ?e (Suc n) \<and> n \<noteq> 63 else \<not> bit ?e (Suc n) \<or> n = 63)"
  proof (cases "bit v 63")
    case True
    then have "si_decode ?e = NOT (drop_bit 1 ?e) OR push_bit 63 1"
      unfolding si_decode_def low e(1) by (simp only: not_True_eq_False if_False)
    then have "bit (si_decode ?e) n \<longleftrightarrow> bit (NOT (drop_bit 1 ?e)) n \<or> n = 63" by (simp only: bit_or_iff bit_shifted_one) simp
    then show ?thesis using True n half by (simp add: bit_not_iff)
  next
    case False
    then have "si_decode ?e = drop_bit 1 ?e AND NOT (push_bit 63 1)"
      unfolding si_decode_def low e(1) by (simp only: not_False_eq_True if_True)
    then have "bit (si_decode ?e) n \<longleftrightarrow> bit (drop_bit 1 ?e) n \<and> n \<noteq> 63"
      using n by (simp only: bit_and_iff bit_not_iff bit_shifted_one) auto
    then show ?thesis using False half by simp
  qed
  then show "bit (si_decode ?e) n = bit v n" unfolding e(2) using n by (cases "n = 63") auto
qed

text \<open>Small numbers of either sign have small codes.\<close>

lemma si_encode_small:
  assumes "v = of_nat i \<or> v = - of_nat i" and "i < 2 ^ 62"
  shows "si_encode v \<noteq> - 1"
proof
  assume "si_encode v = - 1"
  then have all: "bit (si_encode v) j" if "j < 64" for j using that by simp
  have "bit v 63" "\<not> bit v 62" using all[of 0] all[of 63] unfolding bit_si_encode by (auto split: if_splits)
  moreover from assms have "\<not> (bit v 63 \<and> \<not> bit v 62)"
  proof (elim disjE)
    assume v: "v = of_nat i"
    have "\<not> bit i 63" using assms(2) by (simp add: bit_iff_odd)
    then have "\<not> bit (of_nat i :: u64) 63" by (simp add: bit_of_nat_iff)
    then show ?thesis using v by simp
  next
    assume v: "v = - of_nat i"
    show ?thesis
    proof (cases i)
      case 0
      then show ?thesis using v by simp
    next
      case (Suc k)
      then have "v = NOT (of_nat k)" using v by (simp add: not_eq_complement)
      moreover have "\<not> bit k 62" using assms(2) Suc by (simp add: bit_iff_odd)
      then have "\<not> bit (of_nat k :: u64) 62" by (simp add: bit_of_nat_iff)
      ultimately show ?thesis by (simp add: bit_not_iff)
    qed
  qed
  ultimately show False by blast
qed

section \<open>Codes in a vector\<close>

definition holds_at :: "bit_vector \<Rightarrow> nat \<Rightarrow> bool list \<Rightarrow> bool" where
  "holds_at bv i code \<longleftrightarrow>
     bv_ok bv \<and> i + length code \<le> length (bv_bits bv) \<and> (\<forall>k<length code. bv_bits bv ! (i + k) = code ! k)"

lemma holds_at_append:
  "holds_at bv i (xs @ ys) \<longleftrightarrow> holds_at bv i xs \<and> holds_at bv (i + length xs) ys"
proof -
  have "(\<forall>k<length (xs @ ys). bv_bits bv ! (i + k) = (xs @ ys) ! k)
    \<longleftrightarrow> (\<forall>k<length xs. bv_bits bv ! (i + k) = xs ! k) \<and> (\<forall>k<length ys. bv_bits bv ! (i + length xs + k) = ys ! k)"
    (is "?l \<longleftrightarrow> ?r1 \<and> ?r2")
  proof
    assume l: ?l
    have "bv_bits bv ! (i + length xs + k) = ys ! k" if "k < length ys" for k
      using l[rule_format, of "length xs + k"] that by (simp add: add.assoc)
    moreover have "bv_bits bv ! (i + k) = xs ! k" if "k < length xs" for k
      using l[rule_format, of k] that by (simp add: nth_append)
    ultimately show "?r1 \<and> ?r2" by blast
  next
    assume r: "?r1 \<and> ?r2"
    show ?l
    proof (intro allI impI)
      fix k assume k: "k < length (xs @ ys)"
      show "bv_bits bv ! (i + k) = (xs @ ys) ! k"
      proof (cases "k < length xs")
        case False
        then have "k - length xs < length ys" "i + length xs + (k - length xs) = i + k" using k by auto
        with r False show ?thesis by (metis nth_append)
      qed (use r in \<open>simp add: nth_append\<close>)
    qed
  qed
  then show ?thesis by (auto simp: holds_at_def)
qed

lemma holds_at_whole: "bv_ok bv \<Longrightarrow> bv_bits bv = code \<Longrightarrow> holds_at bv 0 code"
  by (simp add: holds_at_def)

lemma bv_at_holds: "holds_at bv i (b # code) \<Longrightarrow> bv_at bv i = Inr b"
  using bv_at_ok[of bv i] by (force simp: holds_at_def)

lemma get_value_holds:
  assumes "holds_at bv i (low_bits len (w :: u64))" and "len \<le> 64"
  shows "get_value bv i len = Inr (take_bit len w)"
proof -
  have ok: "bv_ok bv" "i + len \<le> length (bv_bits bv)" using assms(1) by (simp_all add: holds_at_def)
  from get_value_ok[OF ok(1) block_types(4) _ ok(2)] assms(2) obtain v :: u64 where
    v: "get_value bv i len = Inr v" "\<And>j. bit v j \<longleftrightarrow> j < len \<and> bv_bits bv ! (i + (len - 1 - j))" by auto
  have "bv_bits bv ! (i + (len - 1 - j)) = bit w j" if "j < len" for j
  proof -
    have l: "len - 1 - j < len" "len - 1 - (len - 1 - j) = j" using that by linarith+
    have "bv_bits bv ! (i + (len - 1 - j)) = low_bits len w ! (len - 1 - j)"
      using assms(1) l(1) unfolding holds_at_def length_low_bits by blast
    also have "\<dots> = bit w (len - 1 - (len - 1 - j))" unfolding low_bits_def using l(1) by (subst nth_map) simp_all
    finally show ?thesis unfolding l(2) .
  qed
  then have "bit v j \<longleftrightarrow> bit (take_bit len w) j" for j unfolding v(2) bit_take_bit_iff by blast
  then have "v = take_bit len w" by (intro bit_word_eqI)
  with v(1) show ?thesis by simp
qed

section \<open>Golomb codes come back\<close>

lemma bit_len_spec:
  "m \<noteq> 0 \<Longrightarrow> 0 < bit_len m \<and> bit_len m \<le> 64 \<and> bit m (bit_len m - 1) \<and> (\<forall>j\<ge>bit_len m. \<not> bit m j)"
proof (induction m rule: bit_len.induct)
  case (1 m)
  have len: "bit_len m = Suc (bit_len (drop_bit 1 m))" using 1(2) by (simp add: bit_len.simps[of m])
  have shift: "bit (drop_bit 1 m) j = bit m (Suc j)" for j unfolding bit_drop_bit_eq by simp
  show ?case
  proof (cases "drop_bit 1 m = 0")
    case True
    then have none: "\<not> bit m (Suc j)" for j using shift[of j] by simp
    obtain j where "bit m j" using 1(2) by (auto simp: bit_eq_iff)
    with none have "bit m 0" by (cases j) auto
    moreover have "bit_len m = 1" using len True by (simp add: bit_len.simps[of 0])
    moreover have "\<not> bit m j" if "1 \<le> j" for j using that none by (cases j) auto
    ultimately show ?thesis by simp
  next
    case False
    let ?l = "bit_len (drop_bit 1 m)"
    from 1(1)[OF 1(2) False, unfolded shift] have IH: "0 < ?l" "bit m (Suc (?l - 1))" "\<And>j. ?l \<le> j \<Longrightarrow> \<not> bit m (Suc j)"
      by blast+
    have "\<not> bit m j" if "Suc ?l \<le> j" for j using that IH(3)[of "j - 1"] by (cases j) auto
    moreover have "bit m ?l" using IH(1,2) by simp
    moreover from this have "?l < 64" using bit_imp_le_length by fastforce
    ultimately show ?thesis using len by simp
  qed
qed

definition eg_number :: "nat \<Rightarrow> u64 \<Rightarrow> u64" where
  "eg_number Order n = (if Order \<noteq> 0 then drop_bit Order n + 1 else n + 1)"

definition eg_code :: "nat \<Rightarrow> u64 \<Rightarrow> bool list" where
  "eg_code Order n =
     (let m = eg_number Order n in
      replicate (bit_len m - 1) False @ [True] @ low_bits (bit_len m - 1) m @ low_bits Order n)"

lemma push_zeros_ok:
  "bv_ok bv \<Longrightarrow> \<exists>bv'. push_zeros n bv = Inr bv' \<and> bv_ok bv' \<and> bv_bits bv' = bv_bits bv @ replicate (n - 1) False"
proof -
  have "bv_ok bv \<Longrightarrow> \<exists>bv'. fold_res (\<lambda>out i. push_back False out) bv xs = Inr bv' \<and> bv_ok bv'
      \<and> bv_bits bv' = bv_bits bv @ replicate (length xs) False" for xs :: "nat list"
  proof (induction xs arbitrary: bv)
    case (Cons x xs)
    from push_back_ok[OF Cons.prems, of False] obtain bv1 where
      1: "push_back False bv = Inr bv1" "bv_ok bv1" "bv_bits bv1 = bv_bits bv @ [False]" by blast
    from Cons.IH[OF 1(2)] 1 show ?case by auto
  qed simp
  from this[of "[1..<n]"] show "bv_ok bv \<Longrightarrow> ?thesis" by (simp add: push_zeros_def)
qed

lemma eg_number_nonzero: "Order \<noteq> 0 \<or> n \<noteq> - 1 \<Longrightarrow> eg_number Order n \<noteq> 0"
proof (cases "Order = 0")
  case True
  then show "Order \<noteq> 0 \<or> n \<noteq> - 1 \<Longrightarrow> ?thesis" by (simp add: eg_number_def add_eq_0_iff2)
next
  case False
  then have "\<not> bit (drop_bit Order n) 63" using bit_imp_le_length[of n "Order + 63"] by (auto simp: bit_drop_bit_eq)
  then have "drop_bit Order n \<noteq> - 1" by auto
  then show ?thesis using False by (simp add: eg_number_def add_eq_0_iff2)
qed

lemma eg_encode_ok:
  assumes "bv_ok bv" and "Order \<noteq> 0 \<or> n \<noteq> - 1" and "Order \<le> 64"
  shows "\<exists>bv'. eg_encode Order bv n = Inr bv' \<and> bv_ok bv' \<and> bv_bits bv' = bv_bits bv @ eg_code Order n"
proof -
  let ?m = "eg_number Order n"
  have m: "0 < bit_len ?m" "bit_len ?m \<le> 64" using bit_len_spec[OF eg_number_nonzero[OF assms(2)]] by simp_all
  from push_zeros_ok[OF assms(1), of "bit_len ?m"] obtain b1 where
    b1: "push_zeros (bit_len ?m) bv = Inr b1" "bv_ok b1" "bv_bits b1 = bv_bits bv @ replicate (bit_len ?m - 1) False" by blast
  from push_back_ok[OF b1(2), of True] obtain b2 where
    b2: "push_back True b1 = Inr b2" "bv_ok b2" "bv_bits b2 = bv_bits b1 @ [True]" by blast
  have "bit_len ?m - 1 \<le> LENGTH(64)" using m by simp
  from append_value_ok[OF b2(2) block_types(4) this, of ?m] obtain b3 where
    b3: "append_value ?m (bit_len ?m - 1) b2 = Inr b3" "bv_ok b3" "bv_bits b3 = bv_bits b2 @ low_bits (bit_len ?m - 1) ?m" by blast
  from append_value_ok[OF b3(2) block_types(4), of Order n] assms(3) obtain b4 where
    b4: "append_value n Order b3 = Inr b4" "bv_ok b4" "bv_bits b4 = bv_bits b3 @ low_bits Order n" by auto
  have "eg_encode Order bv n = (if Order \<noteq> 0 then Inr b4 else Inr b3)"
    unfolding eg_encode_def eg_number_def[symmetric] Let_def using b1(1) b2(1) b3(1) b4(1) m(1) by simp
  moreover have "low_bits 0 n = []" by (simp add: low_bits_def)
  ultimately show ?thesis using b1 b2 b3 b4 by (cases "Order = 0") (simp_all add: eg_code_def Let_def)
qed

lemma count_loop_holds:
  "holds_at bv i (replicate n False @ [True]) \<Longrightarrow> count_loop bv i len = Inr (len + n, i + n + 1)"
proof (induction n arbitrary: i len)
  case 0
  then show ?case using bv_at_holds[of bv i True "[]"] by (simp add: count_loop.simps[of bv i])
next
  case (Suc n)
  then have "holds_at bv i [False]" "holds_at bv (Suc i) (replicate n False @ [True])"
    using holds_at_append[of bv i "[False]" "replicate n False @ [True]"] by simp_all
  with Suc.IH[of "Suc i" "Suc len"] bv_at_holds[of bv i False "[]"] show ?case by (simp add: count_loop.simps[of bv i])
qed

lemma low_bits_whole: "m \<noteq> 0 \<Longrightarrow> push_bit (bit_len m - 1) 1 OR take_bit (bit_len m - 1) m = m"
proof (rule bit_word_eqI)
  fix j assume "m \<noteq> 0" and "j < LENGTH(64)"
  with bit_len_spec[of m] have "0 < bit_len m" "bit_len m \<le> 64" "bit m (bit_len m - 1)" "\<And>j. bit_len m \<le> j \<Longrightarrow> \<not> bit m j" by blast+
  moreover from this(4)[of j] have "bit m j \<Longrightarrow> j \<le> bit_len m - 1" by (metis Suc_diff_1 calculation(1) not_less_eq_eq)
  ultimately show "bit (push_bit (bit_len m - 1) 1 OR take_bit (bit_len m - 1) m) j = bit m j"
    unfolding bit_or_iff bit_shifted_one by (auto simp: bit_take_bit_iff le_less)
qed

lemma eg_decode_holds:
  assumes "holds_at bv i (eg_code Order n)" and "Order \<noteq> 0 \<or> n \<noteq> - 1" and "Order \<le> 64"
  shows "eg_decode Order bv i = Inr (n, i + length (eg_code Order n))"
proof -
  obtain m where m: "m = eg_number Order n" by blast
  have len: "m \<noteq> 0" "0 < bit_len m" "bit_len m \<le> 64" using bit_len_spec[of m] eg_number_nonzero[OF assms(2)] m by simp_all
  obtain l where l: "bit_len m = Suc l" using len(2) by (cases "bit_len m") auto
  have code: "eg_code Order n = (replicate l False @ [True]) @ low_bits l m @ low_bits Order n"
    by (simp add: eg_code_def Let_def l flip: m)
  have one: "length (replicate l False @ [True]) = l + 1" by simp
  from assms(1)[unfolded code] have h: "holds_at bv i (replicate l False @ [True])" "holds_at bv (i + (l + 1)) (low_bits l m)"
      "holds_at bv (i + (l + 1) + l) (low_bits Order n)"
    unfolding holds_at_append[of bv i "replicate l False @ [True]"] one holds_at_append[of bv _ "low_bits l m"] length_low_bits
    by blast+
  have "get_value bv (i + (l + 1)) l = Inr (take_bit l m)" "get_value bv (i + (l + 1) + l) Order = Inr (take_bit Order n)"
    using get_value_holds[OF h(2)] get_value_holds[OF h(3)] len(3) l assms(3) by simp_all
  moreover have "push_bit l 1 OR take_bit l m = m" using low_bits_whole[OF len(1)] l by simp
  ultimately have dec: "eg_decode Order bv i =
      (if Order \<noteq> 0 then Inr (push_bit Order (m - 1) OR take_bit Order n, i + (l + 1) + l + Order) else Inr (m - 1, i + (l + 1) + l))"
    using count_loop_holds[OF h(1), of 1] by (simp add: eg_decode_def Let_def)
  have "length (eg_code Order n) = l + 1 + l + Order" unfolding code by simp
  moreover have "push_bit Order (drop_bit Order n) OR take_bit Order n = n"
  proof (rule bit_word_eqI)
    fix j assume "j < LENGTH(64)"
    then show "bit (push_bit Order (drop_bit Order n) OR take_bit Order n) j = bit n j"
      by (cases "Order \<le> j") (simp_all add: bit_or_iff bit_push_bit_iff bit_take_bit_iff bit_drop_bit_eq)
  qed
  moreover have "Order \<noteq> 0 \<Longrightarrow> m - 1 = drop_bit Order n" by (simp add: m eg_number_def)
  moreover have "Order = 0 \<Longrightarrow> m - 1 = n" by (simp add: m eg_number_def)
  ultimately show ?thesis unfolding dec by (simp add: add.assoc)
qed

end
