(* ===== verification/HuffmanCodes.thy ===== *)
theory HuffmanCodes
  imports EntropyCodes
begin

text \<open>
  Huffman codes (\<^verbatim>\<open>src/src/trie/huffman.hpp\<close>): a tree in an array, its generation from frequencies, the
  table of the codes, and coding with them.  References are the bytes of the default
  \<^verbatim>\<open>uint8_t\<close>, as numbers: the constructor of a tree asserts that they fit.
\<close>

section \<open>The tree\<close>

record huffman_tree =
  ht_num :: nat
  ht_nodes :: "nat list"

text \<open>\<open>mem\<close> is what the array of the nodes holds before it is written.\<close>

definition new_huffman_tree :: "(nat \<Rightarrow> nat) \<Rightarrow> nat \<Rightarrow> huffman_tree res" where
  "new_huffman_tree mem n =
     (if n = 0 \<or> 2 * n - 1 \<ge> 256 then Inl AssertFailed
      else Inr \<lparr>ht_num = n, ht_nodes = map mem [0..<(n - 1) * 2]\<rparr>)"

definition is_symbol :: "huffman_tree \<Rightarrow> nat \<Rightarrow> bool" where
  "is_symbol t ref \<longleftrightarrow> ref < ht_num t"

definition ht_root :: "huffman_tree \<Rightarrow> nat" where
  "ht_root t = ht_num t * 2 - 2"

text \<open>The place of a child in the array, the right one behind the left one.\<close>

definition child_at :: "huffman_tree \<Rightarrow> nat \<Rightarrow> bool \<Rightarrow> nat res" where
  "child_at t ref b =
     (if \<not> is_symbol t ref \<and> ref < ht_num t * 2 - 1 then Inr ((ref - ht_num t) * 2 + (if b then 1 else 0))
      else Inl AssertFailed)"

definition ht_left :: "huffman_tree \<Rightarrow> nat \<Rightarrow> nat res" where
  "ht_left t ref = rbind (child_at t ref False) (\<lambda>i. vec_at (ht_nodes t) (int i))"

definition ht_right :: "huffman_tree \<Rightarrow> nat \<Rightarrow> nat res" where
  "ht_right t ref = rbind (child_at t ref True) (\<lambda>i. vec_at (ht_nodes t) (int i))"

definition ht_set :: "huffman_tree \<Rightarrow> nat \<Rightarrow> bool \<Rightarrow> nat \<Rightarrow> huffman_tree res" where
  "ht_set t ref b c =
     rbind (child_at t ref b) (\<lambda>i. rbind (vec_set (ht_nodes t) (int i) c) (\<lambda>nodes. Inr (t\<lparr>ht_nodes := nodes\<rparr>)))"

section \<open>Its generation\<close>

text \<open>\<open>insert\<close> of a \<open>multimap\<close>, behind the entries with the same key.\<close>

definition mm_insert :: "u64 \<times> nat \<Rightarrow> (u64 \<times> nat) list \<Rightarrow> (u64 \<times> nat) list" where
  "mm_insert x q = takeWhile (\<lambda>y. fst y \<le> fst x) q @ [x] @ dropWhile (\<lambda>y. fst y \<le> fst x) q"

text \<open>A round of the loop over the inner nodes.\<close>

definition gen_step ::
    "u64 list \<times> (u64 \<times> nat) list \<times> huffman_tree \<Rightarrow> nat \<Rightarrow> (u64 list \<times> (u64 \<times> nat) list \<times> huffman_tree) res" where
  "gen_step st ref =
     (case st of (freqs, q, t) \<Rightarrow>
        (case q of
           (f1, left) # (f2, right) # q' \<Rightarrow>
             rbind (vec_at freqs (int left)) (\<lambda>fl.
             rbind (vec_at freqs (int right)) (\<lambda>fr.
             let freq = fl + fr in
             rbind (vec_set freqs (int ref) freq) (\<lambda>freqs'.
             rbind (ht_set t ref False left) (\<lambda>t1.
             rbind (ht_set t1 ref True right) (\<lambda>t2.
               Inr (freqs', mm_insert (freq, ref) q', t2))))))
         | _ \<Rightarrow> Inl OutOfBounds))"

text \<open>\<open>freqs\<close> is the array of the generator, the frequencies of \<open>n\<close> symbols and room for those of the inner nodes.\<close>

definition ht_generate :: "nat \<Rightarrow> u64 list \<Rightarrow> huffman_tree \<Rightarrow> huffman_tree res" where
  "ht_generate n freqs out_t =
     (if ht_num out_t \<noteq> n then Inl AssertFailed
      else
        rbind (fold_res (\<lambda>q ref. rbind (vec_at freqs (int ref)) (\<lambda>f. Inr (mm_insert (f, ref) q))) [] [0..<n]) (\<lambda>q.
        rbind (fold_res gen_step (freqs, q, out_t) [n..<n * 2 - 1]) (\<lambda>(freqs', q', t). Inr t)))"

section \<open>The table of the codes\<close>

record huffman_table =
  tb_num :: nat
  tb_lengths :: "nat list"
  tb_codes :: "u32 list option list"

text \<open>
  The recursion over the tree, with the prefix in an array of its own.  Children come before
  their parents in the trees of the generator; in another tree it need not end.
\<close>

function table_rec :: "huffman_tree \<Rightarrow> nat \<Rightarrow> u32 list \<Rightarrow> nat \<Rightarrow> huffman_table \<Rightarrow> (u32 list \<times> huffman_table) res" where
  "table_rec t p prefix depth tb =
     (if is_symbol t p then
        if depth \<ge> 256 then Inl AssertFailed
        else if block_count 32 depth > length prefix then Inl OutOfBounds
        else
          rbind (vec_set (tb_lengths tb) (int p) depth) (\<lambda>lengths.
          rbind (vec_set (tb_codes tb) (int p) (Some (take (block_count 32 depth) prefix))) (\<lambda>codes.
            Inr (prefix, tb\<lparr>tb_lengths := lengths, tb_codes := codes\<rparr>)))
      else
        (case ba_unset prefix depth of
           Inl err \<Rightarrow> Inl err
         | Inr prefix1 \<Rightarrow>
             (case ht_left t p of
                Inl err \<Rightarrow> Inl err
              | Inr left \<Rightarrow>
                  if \<not> left < p then Inl OutOfFuel
                  else
                    (case table_rec t left prefix1 (depth + 1) tb of
                       Inl err \<Rightarrow> Inl err
                     | Inr (prefix2, tb1) \<Rightarrow>
                         (case ba_set prefix2 depth of
                            Inl err \<Rightarrow> Inl err
                          | Inr prefix3 \<Rightarrow>
                              (case ht_right t p of
                                 Inl err \<Rightarrow> Inl err
                               | Inr right \<Rightarrow>
                                   if \<not> right < p then Inl OutOfFuel
                                   else table_rec t right prefix3 (depth + 1) tb1))))))"
  by pat_completeness auto
termination
  by (relation "measure (\<lambda>(t, p, prefix, depth, tb). p)") auto

declare table_rec.simps [simp del]

text \<open>\<open>stack\<close> and \<open>heap\<close> are what the prefix and the array of the lengths hold before they are written.\<close>

definition new_huffman_table :: "(nat \<Rightarrow> u32) \<Rightarrow> (nat \<Rightarrow> nat) \<Rightarrow> huffman_tree \<Rightarrow> huffman_table res" where
  "new_huffman_table stack heap t =
     (let n = ht_num t in
      rbind (table_rec t (ht_root t) (map stack [0..<block_count 32 n]) 0
               \<lparr>tb_num = n, tb_lengths = map heap [0..<n], tb_codes = replicate n None\<rparr>) (\<lambda>(prefix, tb). Inr tb))"

section \<open>The table for decoding\<close>

text \<open>
  Made with every code and not read by \<open>decode\<close>, which walks down the tree.  Lengths of 31 and more would
  shift a bit out of the \<open>int\<close> that the size of the table is.
\<close>

record huffman_rev_table =
  rt_max_length :: nat
  rt_refs :: "nat list"
  rt_lengths :: "nat list"

function find_max_length :: "huffman_tree \<Rightarrow> nat \<Rightarrow> nat \<Rightarrow> nat \<Rightarrow> nat res" where
  "find_max_length t p depth max_length =
     (if is_symbol t p then Inr (if max_length < depth then depth else max_length)
      else
        (case ht_left t p of
           Inl err \<Rightarrow> Inl err
         | Inr left \<Rightarrow>
             if \<not> left < p then Inl OutOfFuel
             else
               (case find_max_length t left (depth + 1) max_length of
                  Inl err \<Rightarrow> Inl err
                | Inr m \<Rightarrow>
                    (case ht_right t p of
                       Inl err \<Rightarrow> Inl err
                     | Inr right \<Rightarrow> if \<not> right < p then Inl OutOfFuel else find_max_length t right (depth + 1) m))))"
  by pat_completeness auto
termination
  by (relation "measure (\<lambda>(t, p, depth, m). p)") auto

declare find_max_length.simps [simp del]

text \<open>The loop over the entries of a symbol.\<close>

definition fill_entries :: "nat \<Rightarrow> nat \<Rightarrow> nat \<Rightarrow> nat \<Rightarrow> huffman_rev_table \<Rightarrow> huffman_rev_table res" where
  "fill_entries p base depth padding rt =
     fold_res (\<lambda>rt k.
       rbind (vec_set (rt_refs rt) (int (base + k)) p) (\<lambda>refs.
       if depth \<ge> 256 then Inl AssertFailed
       else rbind (vec_set (rt_lengths rt) (int (base + k)) depth) (\<lambda>lengths.
         Inr (rt\<lparr>rt_refs := refs, rt_lengths := lengths\<rparr>)))) rt [0..<2 ^ padding]"

function fill_table :: "huffman_tree \<Rightarrow> nat \<Rightarrow> nat \<Rightarrow> nat \<Rightarrow> huffman_rev_table \<Rightarrow> huffman_rev_table res" where
  "fill_table t p numeric_prefix depth rt =
     (if is_symbol t p then
        let padding = rt_max_length rt - depth in
        fill_entries p (numeric_prefix * 2 ^ padding) depth padding rt
      else
        (case ht_left t p of
           Inl err \<Rightarrow> Inl err
         | Inr left \<Rightarrow>
             if \<not> left < p then Inl OutOfFuel
             else
               (case fill_table t left (2 * numeric_prefix) (depth + 1) rt of
                  Inl err \<Rightarrow> Inl err
                | Inr rt1 \<Rightarrow>
                    (case ht_right t p of
                       Inl err \<Rightarrow> Inl err
                     | Inr right \<Rightarrow>
                         if \<not> right < p then Inl OutOfFuel
                         else fill_table t right (2 * numeric_prefix + 1) (depth + 1) rt1))))"
  by pat_completeness auto
termination
  by (relation "measure (\<lambda>(t, p, np, depth, rt). p)") auto

declare fill_table.simps [simp del]

definition new_huffman_rev_table :: "(nat \<Rightarrow> nat) \<Rightarrow> (nat \<Rightarrow> nat) \<Rightarrow> huffman_tree \<Rightarrow> huffman_rev_table res" where
  "new_huffman_rev_table refs lengths t =
     (if ht_num t > 256 then Inl AssertFailed
      else
        rbind (find_max_length t (ht_root t) 0 0) (\<lambda>max_length.
        if max_length > 256 then Inl AssertFailed
        else if max_length \<ge> 31 then Inl OutOfBounds
        else
          fill_table t (ht_root t) 0 0
            \<lparr>rt_max_length = max_length, rt_refs = map refs [0..<2 ^ max_length], rt_lengths = map lengths [0..<2 ^ max_length]\<rparr>))"

definition rt_symbol :: "huffman_rev_table \<Rightarrow> nat \<Rightarrow> nat res" where
  "rt_symbol rt v = (if v < 2 ^ rt_max_length rt then vec_at (rt_refs rt) (int v) else Inl AssertFailed)"

definition rt_length :: "huffman_rev_table \<Rightarrow> nat \<Rightarrow> nat res" where
  "rt_length rt v = (if v < 2 ^ rt_max_length rt then vec_at (rt_lengths rt) (int v) else Inl AssertFailed)"

section \<open>Coding\<close>

text \<open>What the memory holds that trees and tables are made in.\<close>

record huffman_memory =
  tm_nodes :: "nat \<Rightarrow> nat"
  tm_freqs :: "nat \<Rightarrow> u64"
  tm_prefix :: "nat \<Rightarrow> u32"
  tm_lengths :: "nat \<Rightarrow> nat"
  tm_rev_refs :: "nat \<Rightarrow> nat"
  tm_rev_lengths :: "nat \<Rightarrow> nat"

record huffman =
  hf_tree :: huffman_tree
  hf_table :: huffman_table
  hf_rev_table :: huffman_rev_table

definition new_huffman :: "huffman_memory \<Rightarrow> huffman_tree \<Rightarrow> huffman res" where
  "new_huffman mem t =
     rbind (new_huffman_table (tm_prefix mem) (tm_lengths mem) t) (\<lambda>tb.
     rbind (new_huffman_rev_table (tm_rev_refs mem) (tm_rev_lengths mem) t) (\<lambda>rt.
       Inr \<lparr>hf_tree = t, hf_table = tb, hf_rev_table = rt\<rparr>))"

definition hf_encode :: "huffman \<Rightarrow> bit_vector \<Rightarrow> nat \<Rightarrow> bit_vector res" where
  "hf_encode h out_buf symbol =
     (let tb = hf_table h in
      if symbol \<ge> tb_num tb then Inl AssertFailed
      else
        rbind (vec_at (tb_lengths tb) (int symbol)) (\<lambda>len.
        rbind (vec_at (tb_codes tb) (int symbol)) (\<lambda>code.
          case code of None \<Rightarrow> Inl NullPointer | Some code \<Rightarrow> append_array code 0 len out_buf)))"

text \<open>The walk down the tree.\<close>

function hf_loop :: "huffman_tree \<Rightarrow> bit_vector \<Rightarrow> nat \<Rightarrow> nat \<Rightarrow> (nat \<times> nat) res" where
  "hf_loop t in_buf p iter =
     (if is_symbol t p then Inr (p, iter)
      else if iter \<ge> bv_size in_buf then Inl AssertFailed
      else
        (case rbind (bv_at in_buf iter) (\<lambda>b. if \<not> b then ht_left t p else ht_right t p) of
           Inl err \<Rightarrow> Inl err
         | Inr p' \<Rightarrow> hf_loop t in_buf p' (iter + 1)))"
  by pat_completeness auto
termination
  by (relation "measure (\<lambda>(t, in_buf, p, iter). bv_size in_buf - iter)") auto

declare hf_loop.simps [simp del]

definition nsymbol :: nat where "nsymbol = 2 ^ 64 - 1"

definition hf_decode :: "huffman \<Rightarrow> bit_vector \<Rightarrow> nat \<Rightarrow> (nat \<times> nat) res" where
  "hf_decode h in_buf iter =
     (if iter = bv_size in_buf then Inr (nsymbol, iter)
      else hf_loop (hf_tree h) in_buf (ht_root (hf_tree h)) iter)"

section \<open>Trees of the generator\<close>

text \<open>Every inner node has children before it, and every node but the root is a child.\<close>

definition ht_ok :: "huffman_tree \<Rightarrow> bool" where
  "ht_ok t \<longleftrightarrow> 0 < ht_num t
   \<and> (\<forall>p. ht_num t \<le> p \<and> p < ht_num t * 2 - 1 \<longrightarrow>
        (\<exists>l r. ht_left t p = Inr l \<and> ht_right t p = Inr r \<and> l < p \<and> r < p))
   \<and> (\<forall>c < ht_num t * 2 - 2. \<exists>p. ht_num t \<le> p \<and> p < ht_num t * 2 - 1 \<and> (ht_left t p = Inr c \<or> ht_right t p = Inr c))"

lemma set_mm_insert: "set (mm_insert x q) = insert x (set q)"
  unfolding mm_insert_def by (metis (no_types, lifting) Un_insert_right insert_is_Un set_append set_simps(2) takeWhile_dropWhile_id append_Cons append_Nil)

lemma length_mm_insert: "length (mm_insert x q) = Suc (length q)"
proof -
  have "length (takeWhile (\<lambda>y. fst y \<le> fst x) q) + length (dropWhile (\<lambda>y. fst y \<le> fst x) q) = length q"
    unfolding length_append[symmetric] takeWhile_dropWhile_id ..
  then show ?thesis unfolding mm_insert_def length_append by simp
qed

text \<open>The children of an inner node of a tree with an array of the right length.\<close>

definition child_index :: "nat \<Rightarrow> nat \<Rightarrow> bool \<Rightarrow> nat" where
  "child_index n ref b = (ref - n) * 2 + (if b then 1 else 0)"

definition ht_child :: "huffman_tree \<Rightarrow> nat \<Rightarrow> bool \<Rightarrow> nat" where
  "ht_child t ref b = ht_nodes t ! child_index (ht_num t) ref b"

definition inner :: "huffman_tree \<Rightarrow> nat \<Rightarrow> bool" where
  "inner t ref \<longleftrightarrow> length (ht_nodes t) = (ht_num t - 1) * 2 \<and> ht_num t \<le> ref \<and> ref < ht_num t * 2 - 1"

lemma child_index_less: "inner t ref \<Longrightarrow> child_index (ht_num t) ref b < length (ht_nodes t)"
  by (auto simp: inner_def child_index_def)

lemma child_index_inj: "n \<le> ref \<Longrightarrow> n \<le> ref' \<Longrightarrow> child_index n ref b = child_index n ref' b' \<longleftrightarrow> ref = ref' \<and> b = b'"
  unfolding child_index_def by (cases b; cases b') (simp_all, presburger+)

lemma children:
  assumes "inner t ref"
  shows "ht_left t ref = Inr (ht_child t ref False)" and "ht_right t ref = Inr (ht_child t ref True)"
    and "ht_set t ref b c = Inr (t\<lparr>ht_nodes := (ht_nodes t)[child_index (ht_num t) ref b := c]\<rparr>)"
proof -
  have at: "child_at t ref b = Inr (child_index (ht_num t) ref b)" for b
    using assms by (simp add: child_at_def child_index_def inner_def is_symbol_def)
  show "ht_left t ref = Inr (ht_child t ref False)" "ht_right t ref = Inr (ht_child t ref True)"
    "ht_set t ref b c = Inr (t\<lparr>ht_nodes := (ht_nodes t)[child_index (ht_num t) ref b := c]\<rparr>)"
    using child_index_less[OF assms] by (simp_all add: ht_left_def ht_right_def ht_set_def ht_child_def at)
qed

text \<open>The invariant of the loop, before the inner node \<open>m\<close> is made.\<close>

definition gen_inv :: "nat \<Rightarrow> nat \<Rightarrow> u64 list \<times> (u64 \<times> nat) list \<times> huffman_tree \<Rightarrow> bool" where
  "gen_inv n m st \<longleftrightarrow>
     (case st of (freqs, q, t) \<Rightarrow>
        length freqs = 2 * n - 1 \<and> ht_num t = n \<and> length (ht_nodes t) = (n - 1) * 2
      \<and> length q + m = 2 * n \<and> snd ` set q \<subseteq> {..<m} \<and> (n < m \<longrightarrow> m - 1 \<in> snd ` set q)
      \<and> (\<forall>p b. n \<le> p \<and> p < m \<longrightarrow> ht_child t p b < p)
      \<and> (\<forall>c<m. c \<in> snd ` set q \<or> (\<exists>p b. n \<le> p \<and> p < m \<and> ht_child t p b = c)))"

lemma gen_step_inv:
  assumes "gen_inv n m st" and "n \<le> m" and "m < 2 * n - 1"
  shows "\<exists>st'. gen_step st m = Inr st' \<and> gen_inv n (Suc m) st'"
proof -
  obtain freqs q t where st: "st = (freqs, q, t)" by (cases st)
  note inv = assms(1)[unfolded gen_inv_def st prod.case]
  have "2 \<le> length q" using inv assms(3) by linarith
  then obtain f1 l f2 r q' where q: "q = (f1, l) # (f2, r) # q'"
    by (metis (no_types, opaque_lifting) One_nat_def length_Cons list.size(3) neq_Nil_conv not_less_eq_eq numeral_2_eq_2 prod.exhaust le0 le_numeral_extra(4))
  have lr: "l < m" "r < m" "l < length freqs" "r < length freqs" using inv q assms(3) by auto
  have inr: "inner t m" using inv assms(2,3) by (auto simp: inner_def)
  let ?t1 = "t\<lparr>ht_nodes := (ht_nodes t)[child_index n m False := l]\<rparr>"
  obtain T where T: "T = ?t1\<lparr>ht_nodes := (ht_nodes ?t1)[child_index n m True := r]\<rparr>" by blast
  have t1: "ht_set t m False l = Inr ?t1" using children(3)[OF inr] inv by simp
  have "inner ?t1 m" using inr by (simp add: inner_def)
  then have t2: "ht_set ?t1 m True r = Inr T" using children(3) inv T by simp
  let ?q = "mm_insert (freqs ! l + freqs ! r, m) q'"
  have step: "gen_step st m = Inr (freqs[m := freqs ! l + freqs ! r], ?q, T)"
    using lr inv assms(3) t1 t2 by (simp add: gen_step_def st q Let_def)
  have ht_child_new: "ht_child T p b = (if p = m then (if b then r else l) else ht_child t p b)" if "n \<le> p" for p b
    using that assms(2) child_index_less[OF inr] inv child_index_inj[of n p m b False] child_index_inj[of n p m b True]
    by (cases b) (auto simp: T ht_child_def nth_list_update)
  have T_inv: "ht_num T = n" "length (ht_nodes T) = (n - 1) * 2" using inv by (simp_all add: T)
  have less: "ht_child T p b < p" if "n \<le> p" "p < Suc m" for p b
    using that inv lr(1,2) by (auto simp: ht_child_new less_Suc_eq)
  have cover: "c \<in> snd ` set ?q \<or> (\<exists>p b. n \<le> p \<and> p < Suc m \<and> ht_child T p b = c)" if "c < Suc m" for c
  proof -
    have "c < m \<or> c = m" using that by linarith
    then have "c = m \<or> c \<in> snd ` set q \<or> (\<exists>p b. n \<le> p \<and> p < m \<and> ht_child t p b = c)" using inv by blast
    then consider "c = m" | "c = l" | "c = r" | "c \<in> snd ` set q'" | "\<exists>p b. n \<le> p \<and> p < m \<and> ht_child t p b = c"
      unfolding q list.set image_insert snd_conv by blast
    then show ?thesis
    proof cases
      case 2
      then have "ht_child T m False = c" using ht_child_new[OF assms(2)] by simp
      then show ?thesis using assms(2) by blast
    next
      case 3
      then have "ht_child T m True = c" using ht_child_new[OF assms(2)] by simp
      then show ?thesis using assms(2) by blast
    next
      case 5
      then obtain p b where p: "n \<le> p" "p < m" "ht_child t p b = c" by blast
      then have "ht_child T p b = c" using ht_child_new[OF p(1)] by simp
      then show ?thesis using p(1,2) by (metis less_SucI)
    qed (auto simp: set_mm_insert)
  qed
  have snd: "snd ` set ?q = insert m (snd ` set q')" by (simp add: set_mm_insert)
  have len: "length ?q + Suc m = 2 * n" using inv q by (simp add: length_mm_insert)
  have keys: "snd ` set ?q \<subseteq> {..<Suc m}" using inv q unfolding snd by auto
  have "gen_inv n (Suc m) (freqs[m := freqs ! l + freqs ! r], ?q, T)"
    unfolding gen_inv_def prod.case
    using inv T_inv len keys less cover by (intro conjI allI impI) (simp_all add: snd)
  with step show ?thesis by blast
qed

lemma gen_loop_inv:
  "gen_inv n m st \<Longrightarrow> n \<le> m \<Longrightarrow> m \<le> 2 * n - 1 \<Longrightarrow>
    \<exists>st'. fold_res gen_step st [m..<2 * n - 1] = Inr st' \<and> gen_inv n (2 * n - 1) st'"
proof (induction "2 * n - 1 - m" arbitrary: m st)
  case 0
  then have "m = 2 * n - 1" by linarith
  then show ?case using 0(2) by simp
next
  case (Suc k)
  then have m: "m < 2 * n - 1" by linarith
  from gen_step_inv[OF Suc.prems(1,2) m] obtain st1 where st1: "gen_step st m = Inr st1" "gen_inv n (Suc m) st1" by blast
  have "k = 2 * n - 1 - Suc m" "n \<le> Suc m" "Suc m \<le> 2 * n - 1" using Suc.hyps(2) Suc.prems(2) m by linarith+
  from Suc.hyps(1)[OF this(1) st1(2) this(2,3)] st1(1) show ?case unfolding upt_conv_Cons[OF m] by simp
qed

lemma ht_generate_ok:
  assumes "0 < n" and "length freqs = 2 * n - 1" and "ht_num t = n" and "length (ht_nodes t) = (n - 1) * 2"
  shows "\<exists>t'. ht_generate n freqs t = Inr t' \<and> ht_ok t' \<and> ht_num t' = n"
proof -
  have init: "\<exists>q'. fold_res (\<lambda>q ref. rbind (vec_at freqs (int ref)) (\<lambda>f. Inr (mm_insert (f, ref) q))) q xs = Inr q'
      \<and> snd ` set q' = snd ` set q \<union> set xs \<and> length q' = length q + length xs"
    if "set xs \<subseteq> {..<n}" for q xs
    using that
  proof (induction xs arbitrary: q)
    case (Cons x xs)
    then have x: "vec_at freqs (int x) = Inr (freqs ! x)" using assms(2) by (intro vec_at_int) auto
    from Cons.IH[of "mm_insert (freqs ! x, x) q"] Cons.prems show ?case
      by (auto simp: x set_mm_insert length_mm_insert)
  qed simp
  from init[of "[0..<n]" "[]"] obtain q where
    q: "fold_res (\<lambda>q ref. rbind (vec_at freqs (int ref)) (\<lambda>f. Inr (mm_insert (f, ref) q))) [] [0..<n] = Inr q"
      "snd ` set q = {..<n}" "length q = n" by (auto simp: lessThan_atLeast0)
  have "gen_inv n n (freqs, q, t)" using assms q by (simp add: gen_inv_def)
  from gen_loop_inv[OF this] assms(1) obtain st' where
    st': "fold_res gen_step (freqs, q, t) [n..<2 * n - 1] = Inr st'" "gen_inv n (2 * n - 1) st'"
    by (metis One_nat_def Suc_leI le_refl mult_2 Nat.add_diff_assoc le_add1)
  obtain freqs' q' t' where t': "st' = (freqs', q', t')" by (cases st')
  note inv = st'(2)[unfolded gen_inv_def t' prod.case]
  have gen: "ht_generate n freqs t = Inr t'" using st'(1) t' q(1) assms(3) by (simp add: ht_generate_def mult.commute)
  have inr: "inner t' p" if "n \<le> p" "p < n * 2 - 1" for p using that inv by (auto simp: inner_def)
  have "length q' = 1" using inv assms(1) by linarith
  then obtain x where x: "q' = [x]" by (metis One_nat_def length_0_conv length_Suc_conv)
  have "\<exists>p. n \<le> p \<and> p < n * 2 - 1 \<and> (ht_left t' p = Inr c \<or> ht_right t' p = Inr c)" if c: "c < n * 2 - 2" for c
  proof -
    have "2 * n - 1 - 1 \<in> snd ` set q'" using inv c by auto
    then have "c \<notin> snd ` set q'" using x c by auto
    moreover have "c < 2 * n - 1" using c by linarith
    ultimately obtain p b where p: "n \<le> p" "p < 2 * n - 1" "ht_child t' p b = c" using inv by blast
    then have "ht_left t' p = Inr c \<or> ht_right t' p = Inr c"
      using children(1,2)[OF inr, of p] by (cases b) (auto simp: mult.commute)
    with p(1,2) show ?thesis by (metis mult.commute)
  qed
  then have "ht_ok t'"
    using inv assms(1) children(1,2)[OF inr] by (auto simp: ht_ok_def mult.commute)
  with gen inv show ?thesis by auto
qed


section \<open>Ways down a tree\<close>

definition ht_step :: "huffman_tree \<Rightarrow> nat \<Rightarrow> bool \<Rightarrow> nat option" where
  "ht_step t p b = (if is_symbol t p then None else case_sum (\<lambda>_. None) Some (if b then ht_right t p else ht_left t p))"

fun walk :: "huffman_tree \<Rightarrow> nat \<Rightarrow> bool list \<Rightarrow> nat option" where
  "walk t p [] = Some p"
| "walk t p (b # bs) = (case ht_step t p b of None \<Rightarrow> None | Some q \<Rightarrow> walk t q bs)"

lemma walk_append: "walk t p (xs @ ys) = (case walk t p xs of None \<Rightarrow> None | Some q \<Rightarrow> walk t q ys)"
  by (induction xs arbitrary: p) (simp_all split: option.splits)

lemma ht_step_ok:
  assumes "ht_ok t" and "ht_num t \<le> p" and "p < ht_num t * 2 - 1"
  obtains l r where "ht_left t p = Inr l" "ht_right t p = Inr r" "l < p" "r < p"
    "ht_step t p False = Some l" "ht_step t p True = Some r"
proof -
  from assms obtain l r where lr: "ht_left t p = Inr l" "ht_right t p = Inr r" "l < p" "r < p" by (auto simp: ht_ok_def)
  moreover have "ht_step t p False = Some l" "ht_step t p True = Some r"
    using lr(1,2) assms(2) by (simp_all add: ht_step_def is_symbol_def)
  ultimately show ?thesis using that by blast
qed

text \<open>Every node is below the root.\<close>

lemma walk_to:
  assumes "ht_ok t"
  shows "c \<le> ht_num t * 2 - 2 \<Longrightarrow> \<exists>bs. walk t (ht_root t) bs = Some c"
proof (induction "ht_num t * 2 - 2 - c" arbitrary: c rule: less_induct)
  case less
  show ?case
  proof (cases "c = ht_num t * 2 - 2")
    case True
    then have "walk t (ht_root t) [] = Some c" by (simp add: ht_root_def)
    then show ?thesis by blast
  next
    case False
    then have c: "c < ht_num t * 2 - 2" using less.prems by linarith
    then obtain p where p: "ht_num t \<le> p" "p < ht_num t * 2 - 1" "ht_left t p = Inr c \<or> ht_right t p = Inr c"
      using assms unfolding ht_ok_def by blast
    from ht_step_ok[OF assms p(1,2)] obtain l r where
      lr: "ht_left t p = Inr l" "ht_right t p = Inr r" "l < p" "r < p" "ht_step t p False = Some l" "ht_step t p True = Some r" .
    from p(3) lr obtain b where b: "ht_step t p b = Some c" by auto
    have "c < p" using p(3) lr by auto
    with p(2) c have "ht_num t * 2 - 2 - p < ht_num t * 2 - 2 - c" "p \<le> ht_num t * 2 - 2" by linarith+
    from less.hyps[OF this] obtain bs where "walk t (ht_root t) bs = Some p" by blast
    with b have "walk t (ht_root t) (bs @ [b]) = Some c" by (simp add: walk_append)
    then show ?thesis by blast
  qed
qed

section \<open>What the table holds\<close>

definition prefix_bits :: "u32 list \<Rightarrow> nat \<Rightarrow> bool list" where
  "prefix_bits v n = map (buf_bit v) [0..<n]"

lemma length_prefix_bits [simp]: "length (prefix_bits v n) = n"
  by (simp add: prefix_bits_def)

lemma prefix_bits_Suc: "prefix_bits v (Suc n) = prefix_bits v n @ [buf_bit v n]"
  by (simp add: prefix_bits_def)

text \<open>The entry of a symbol, a way to it.\<close>

definition coded :: "huffman_tree \<Rightarrow> huffman_table \<Rightarrow> nat \<Rightarrow> bool" where
  "coded t tb s \<longleftrightarrow>
     s < length (tb_lengths tb) \<and> s < length (tb_codes tb)
   \<and> (\<exists>code. tb_codes tb ! s = Some code \<and> tb_lengths tb ! s \<le> buf_len code
        \<and> walk t (ht_root t) (prefix_bits code (tb_lengths tb ! s)) = Some s)"

definition table_ok :: "huffman_tree \<Rightarrow> huffman_table \<Rightarrow> bool" where
  "table_ok t tb \<longleftrightarrow> tb_num tb = ht_num t \<and> length (tb_lengths tb) = ht_num t \<and> length (tb_codes tb) = ht_num t"

lemma prefix_bits_eq:
  assumes "n \<le> buf_len v" and "\<forall>k < buf_len v. buf_bit v' k = f k (buf_bit v k)" and "\<And>k b. k < n \<Longrightarrow> f k b = b"
  shows "prefix_bits v' n = prefix_bits v n"
  using assms by (simp add: prefix_bits_def)

lemma table_rec_leaf:
  assumes "is_symbol t p" and "table_ok t tb" and "depth < 256" and "depth \<le> buf_len prefix"
    and "walk t (ht_root t) (prefix_bits prefix depth) = Some p"
  shows "\<exists>tb'. table_rec t p prefix depth tb = Inr (prefix, tb') \<and> table_ok t tb' \<and> coded t tb' p
    \<and> (\<forall>s. coded t tb s \<longrightarrow> coded t tb' s)"
proof -
  let ?code = "take (block_count 32 depth) prefix"
  let ?tb = "tb\<lparr>tb_lengths := (tb_lengths tb)[p := depth], tb_codes := (tb_codes tb)[p := Some ?code]\<rparr>"
  have p: "p < length (tb_lengths tb)" "p < length (tb_codes tb)" using assms(1,2) by (simp_all add: is_symbol_def table_ok_def)
  have room: "block_count 32 depth \<le> length prefix"
    using assms(4) unfolding buf_len_u32 block_count_def by (intro less_Suc_eq_le[THEN iffD1] less_mult_imp_div_less) simp
  have "table_rec t p prefix depth tb = Inr (prefix, ?tb)"
    using assms(1,3) room p by (simp add: table_rec.simps[of t p] not_le)
  moreover have "prefix_bits ?code depth = prefix_bits prefix depth"
    unfolding prefix_bits_def using buf_bit_prefix[OF _ room, of _ "[]"] block_count_bounds(1)[of depth] by simp
  then have "coded t ?tb p"
    using p assms(5) room block_count_bounds(1)[of depth] by (simp add: coded_def buf_len_u32)
  moreover have "coded t ?tb s" if "coded t tb s" for s
    using that \<open>coded t ?tb p\<close> by (cases "s = p") (simp_all add: coded_def)
  moreover have "table_ok t ?tb" using assms(2) by (simp add: table_ok_def)
  ultimately show ?thesis by blast
qed

lemma table_rec_ok:
  assumes t: "ht_ok t" "ht_num t \<le> 128"
  shows "table_ok t tb \<Longrightarrow> depth + p \<le> ht_num t * 2 - 2 \<Longrightarrow> depth \<le> ht_num t - 1 \<Longrightarrow> ht_num t \<le> buf_len prefix
    \<Longrightarrow> walk t (ht_root t) (prefix_bits prefix depth) = Some p
    \<Longrightarrow> \<exists>prefix' tb'. table_rec t p prefix depth tb = Inr (prefix', tb') \<and> table_ok t tb' \<and> length prefix' = length prefix
        \<and> prefix_bits prefix' depth = prefix_bits prefix depth
        \<and> (\<forall>s. coded t tb s \<longrightarrow> coded t tb' s)
        \<and> (\<forall>bs s. walk t p bs = Some s \<longrightarrow> is_symbol t s \<longrightarrow> coded t tb' s)"
proof (induction p arbitrary: prefix depth tb rule: less_induct)
  case (less p)
  have num: "0 < ht_num t" using t(1) by (simp add: ht_ok_def)
  show ?case
  proof (cases "is_symbol t p")
    case True
    have "depth < 256" "depth \<le> buf_len prefix" using less.prems(3,4) t(2) num by linarith+
    from table_rec_leaf[OF True less.prems(1) this less.prems(5)] obtain tb' where
      tb': "table_rec t p prefix depth tb = Inr (prefix, tb')" "table_ok t tb'" "coded t tb' p" "\<forall>s. coded t tb s \<longrightarrow> coded t tb' s"
      by blast
    have "s = p" if "walk t p bs = Some s" for bs s using that True by (cases bs) (simp_all add: ht_step_def)
    with tb' show ?thesis by blast
  next
    case False
    then have p: "ht_num t \<le> p" "p < ht_num t * 2 - 1" using less.prems(2) num by (auto simp: is_symbol_def)
    from ht_step_ok[OF t(1) p] obtain l r where
      lr: "ht_left t p = Inr l" "ht_right t p = Inr r" "l < p" "r < p" "ht_step t p False = Some l" "ht_step t p True = Some r" .
    have depth: "Suc depth \<le> ht_num t - 1" using less.prems(2) p(1) num by linarith
    then have room: "depth < buf_len prefix" using less.prems(4) by linarith
    from ba_unset_bits[OF block_types(3) room] obtain q1 where
      q1: "ba_unset prefix depth = Inr q1" "length q1 = length prefix"
        "\<forall>k<buf_len prefix. buf_bit q1 k = (k \<noteq> depth \<and> buf_bit prefix k)" by blast
    have q1_bits: "prefix_bits q1 (Suc depth) = prefix_bits prefix depth @ [False]"
      using q1(3) room by (simp add: prefix_bits_Suc prefix_bits_def)
    have "walk t (ht_root t) (prefix_bits q1 (Suc depth)) = Some l"
      using less.prems(5) lr(5) by (simp add: q1_bits walk_append)
    moreover have "Suc depth + l \<le> ht_num t * 2 - 2" "ht_num t \<le> buf_len q1"
      using lr(3) less.prems(2,4) q1(2) by (simp_all add: buf_len_u32)
    ultimately obtain q2 tb1 where
      q2: "table_rec t l q1 (Suc depth) tb = Inr (q2, tb1)" "table_ok t tb1" "length q2 = length q1"
        "prefix_bits q2 (Suc depth) = prefix_bits q1 (Suc depth)" "\<forall>s. coded t tb s \<longrightarrow> coded t tb1 s"
        "\<forall>bs s. walk t l bs = Some s \<longrightarrow> is_symbol t s \<longrightarrow> coded t tb1 s"
      using less.IH[OF lr(3) less.prems(1) _ depth, of q1] by blast
    have room2: "depth < buf_len q2" using room q1(2) q2(3) by (simp add: buf_len_u32)
    from ba_set_bits[OF block_types(3) room2] obtain q3 where
      q3: "ba_set q2 depth = Inr q3" "length q3 = length q2" "\<forall>k<buf_len q2. buf_bit q3 k = (k = depth \<or> buf_bit q2 k)" by blast
    have "prefix_bits q2 depth = prefix_bits prefix depth" using q2(4) q1_bits by (simp add: prefix_bits_Suc)
    moreover have "prefix_bits q3 depth = prefix_bits q2 depth" using q3(3) room2 by (simp add: prefix_bits_def)
    moreover have "buf_bit q3 depth" using q3(3) room2 by blast
    ultimately have q3_bits: "prefix_bits q3 (Suc depth) = prefix_bits prefix depth @ [True]" by (simp add: prefix_bits_Suc)
    have "walk t (ht_root t) (prefix_bits q3 (Suc depth)) = Some r"
      using less.prems(5) lr(6) by (simp add: q3_bits walk_append)
    moreover have "Suc depth + r \<le> ht_num t * 2 - 2" "ht_num t \<le> buf_len q3"
      using lr(4) less.prems(2,4) q1(2) q2(3) q3(2) by (simp_all add: buf_len_u32)
    ultimately obtain q4 tb2 where
      q4: "table_rec t r q3 (Suc depth) tb1 = Inr (q4, tb2)" "table_ok t tb2" "length q4 = length q3"
        "prefix_bits q4 (Suc depth) = prefix_bits q3 (Suc depth)" "\<forall>s. coded t tb1 s \<longrightarrow> coded t tb2 s"
        "\<forall>bs s. walk t r bs = Some s \<longrightarrow> is_symbol t s \<longrightarrow> coded t tb2 s"
      using less.IH[OF lr(4) q2(2) _ depth, of q3] by blast
    have "table_rec t p prefix depth tb = Inr (q4, tb2)"
      using False q1(1) q2(1) q3(1) q4(1) lr(1-4) by (simp add: table_rec.simps[of t p])
    moreover have "prefix_bits q4 depth = prefix_bits prefix depth" using q4(4) q3_bits by (simp add: prefix_bits_Suc)
    moreover have "coded t tb2 s" if s: "walk t p bs = Some s" "is_symbol t s" for bs s
    proof (cases bs)
      case Nil
      then show ?thesis using s False by simp
    next
      case (Cons b bs')
      then show ?thesis using s lr(5,6) q2(6) q4(5,6) by (cases b) auto
    qed
    ultimately show ?thesis using q1(2) q2(3,5) q3(2) q4(2,3,5) by auto
  qed
qed

lemma new_huffman_table_ok:
  assumes "ht_ok t" and "ht_num t \<le> 128"
  shows "\<exists>tb. new_huffman_table stack heap t = Inr tb \<and> table_ok t tb \<and> (\<forall>s<ht_num t. coded t tb s)"
proof -
  let ?tb = "\<lparr>tb_num = ht_num t, tb_lengths = map heap [0..<ht_num t], tb_codes = replicate (ht_num t) None\<rparr>"
    and ?prefix = "map stack [0..<block_count 32 (ht_num t)]"
  have "table_ok t ?tb" "0 + ht_root t \<le> ht_num t * 2 - 2" "0 \<le> ht_num t - 1" "ht_num t \<le> buf_len ?prefix"
    "walk t (ht_root t) (prefix_bits ?prefix 0) = Some (ht_root t)"
    using block_count_bounds(1)[of "ht_num t"] by (simp_all add: table_ok_def ht_root_def buf_len_u32 prefix_bits_def)
  from table_rec_ok[OF assms this] obtain prefix' tb where
    tb: "table_rec t (ht_root t) ?prefix 0 ?tb = Inr (prefix', tb)" "table_ok t tb"
      "\<forall>bs s. walk t (ht_root t) bs = Some s \<longrightarrow> is_symbol t s \<longrightarrow> coded t tb s" by blast
  have "coded t tb s" if "s < ht_num t" for s
  proof -
    have "s \<le> ht_num t * 2 - 2 \<or> s = 0" using that by linarith
    then obtain bs where "walk t (ht_root t) bs = Some s" using walk_to[OF assms(1), of s] by auto
    with tb(3) that show ?thesis by (simp add: is_symbol_def)
  qed
  moreover have "new_huffman_table stack heap t = Inr tb" using tb(1) by (simp add: new_huffman_table_def)
  ultimately show ?thesis using tb(2) by blast
qed

section \<open>What the table for decoding holds\<close>

lemma leaf_below:
  assumes "ht_ok t"
  shows "p \<le> ht_num t * 2 - 2 \<Longrightarrow> \<exists>bs s. walk t p bs = Some s \<and> is_symbol t s"
proof (induction p rule: less_induct)
  case (less p)
  show ?case
  proof (cases "is_symbol t p")
    case True
    then have "walk t p [] = Some p \<and> is_symbol t p" by simp
    then show ?thesis by blast
  next
    case False
    then have "ht_num t \<le> p" "p < ht_num t * 2 - 1" using less.prems assms by (auto simp: is_symbol_def ht_ok_def)
    from ht_step_ok[OF assms this] obtain l r where l: "l < p" "ht_step t p False = Some l" .
    with less.prems have "l \<le> ht_num t * 2 - 2" by linarith
    from less.IH[OF l(1) this] obtain bs s where "walk t l bs = Some s" "is_symbol t s" by blast
    with l(2) have "walk t p (False # bs) = Some s \<and> is_symbol t s" by simp
    then show ?thesis by blast
  qed
qed

lemma find_max_length_ok:
  assumes t: "ht_ok t"
  shows "depth + p \<le> ht_num t * 2 - 2 \<Longrightarrow> depth \<le> ht_num t - 1
    \<Longrightarrow> \<exists>m'. find_max_length t p depth m = Inr m' \<and> m \<le> m' \<and> m' \<le> max m (ht_num t - 1)
        \<and> (\<forall>bs s. walk t p bs = Some s \<longrightarrow> is_symbol t s \<longrightarrow> depth + length bs \<le> m')"
proof (induction p arbitrary: depth m rule: less_induct)
  case (less p)
  show ?case
  proof (cases "is_symbol t p")
    case True
    have "depth + length bs \<le> max m depth" if "walk t p bs = Some s" for bs s
      using that True by (cases bs) (simp_all add: ht_step_def)
    moreover have "find_max_length t p depth m = Inr (max m depth)"
      using True by (simp add: find_max_length.simps[of t p] max_def)
    ultimately show ?thesis using less.prems(2) by (metis max.cobounded1 max.mono order_refl)
  next
    case False
    then have p: "ht_num t \<le> p" "p < ht_num t * 2 - 1" using less.prems(1) t by (auto simp: is_symbol_def ht_ok_def)
    from ht_step_ok[OF t p] obtain l r where
      lr: "ht_left t p = Inr l" "ht_right t p = Inr r" "l < p" "r < p" "ht_step t p False = Some l" "ht_step t p True = Some r" .
    have d: "Suc depth \<le> ht_num t - 1" "Suc depth + l \<le> ht_num t * 2 - 2" "Suc depth + r \<le> ht_num t * 2 - 2"
      using less.prems(1) p lr(3,4) by linarith+
    from less.IH[OF lr(3) d(2,1), of m] obtain m1 where
      m1: "find_max_length t l (Suc depth) m = Inr m1" "m \<le> m1" "m1 \<le> max m (ht_num t - 1)"
        "\<And>bs s. walk t l bs = Some s \<Longrightarrow> is_symbol t s \<Longrightarrow> Suc depth + length bs \<le> m1" by blast
    from less.IH[OF lr(4) d(3,1), of m1] obtain m2 where
      m2: "find_max_length t r (Suc depth) m1 = Inr m2" "m1 \<le> m2" "m2 \<le> max m1 (ht_num t - 1)"
        "\<And>bs s. walk t r bs = Some s \<Longrightarrow> is_symbol t s \<Longrightarrow> Suc depth + length bs \<le> m2" by blast
    have "find_max_length t p depth m = Inr m2" using False lr(1-4) m1(1) m2(1) by (simp add: find_max_length.simps[of t p])
    moreover have "depth + length bs \<le> m2" if s: "walk t p bs = Some s" "is_symbol t s" for bs s
    proof (cases bs)
      case Nil
      then show ?thesis using s False by simp
    next
      case (Cons b bs')
      then show ?thesis using s lr(5,6) m1(4)[of bs' s] m2(2) m2(4)[of bs' s] by (cases b) auto
    qed
    moreover have "m \<le> m2" "m2 \<le> max m (ht_num t - 1)" using m1(2,3) m2(2,3) by linarith+
    ultimately show ?thesis by blast
  qed
qed

lemma fill_entries_ok:
  assumes "base + 2 ^ padding \<le> length (rt_refs rt)" and "length (rt_lengths rt) = length (rt_refs rt)" and "depth < 256"
  shows "\<exists>rt'. fill_entries p base depth padding rt = Inr rt' \<and> rt_max_length rt' = rt_max_length rt
    \<and> length (rt_refs rt') = length (rt_refs rt) \<and> length (rt_lengths rt') = length (rt_refs rt)
    \<and> (\<forall>v < length (rt_refs rt).
         if base \<le> v \<and> v < base + 2 ^ padding then rt_refs rt' ! v = p \<and> rt_lengths rt' ! v = depth
         else rt_refs rt' ! v = rt_refs rt ! v \<and> rt_lengths rt' ! v = rt_lengths rt ! v)"
proof -
  have "\<exists>rt'. fold_res (\<lambda>rt k.
       rbind (vec_set (rt_refs rt) (int (base + k)) p) (\<lambda>refs.
       if depth \<ge> 256 then Inl AssertFailed
       else rbind (vec_set (rt_lengths rt) (int (base + k)) depth) (\<lambda>lengths.
         Inr (rt\<lparr>rt_refs := refs, rt_lengths := lengths\<rparr>)))) rt [0..<n] = Inr rt' \<and> rt_max_length rt' = rt_max_length rt
    \<and> length (rt_refs rt') = length (rt_refs rt) \<and> length (rt_lengths rt') = length (rt_refs rt)
    \<and> (\<forall>v < length (rt_refs rt).
         if base \<le> v \<and> v < base + n then rt_refs rt' ! v = p \<and> rt_lengths rt' ! v = depth
         else rt_refs rt' ! v = rt_refs rt ! v \<and> rt_lengths rt' ! v = rt_lengths rt ! v)"
    if "base + n \<le> length (rt_refs rt)" for n
    using that
  proof (induction n)
    case 0
    then show ?case using assms(2) by simp
  next
    case (Suc n)
    then obtain r where r: "fold_res (\<lambda>rt k.
       rbind (vec_set (rt_refs rt) (int (base + k)) p) (\<lambda>refs.
       if depth \<ge> 256 then Inl AssertFailed
       else rbind (vec_set (rt_lengths rt) (int (base + k)) depth) (\<lambda>lengths.
         Inr (rt\<lparr>rt_refs := refs, rt_lengths := lengths\<rparr>)))) rt [0..<n] = Inr r"
      "rt_max_length r = rt_max_length rt" "length (rt_refs r) = length (rt_refs rt)" "length (rt_lengths r) = length (rt_refs rt)"
      "\<forall>v < length (rt_refs rt).
         if base \<le> v \<and> v < base + n then rt_refs r ! v = p \<and> rt_lengths r ! v = depth
         else rt_refs r ! v = rt_refs rt ! v \<and> rt_lengths r ! v = rt_lengths rt ! v" by auto
    let ?r = "r\<lparr>rt_refs := (rt_refs r)[base + n := p], rt_lengths := (rt_lengths r)[base + n := depth]\<rparr>"
    have at: "base + n < length (rt_refs r)" "base + n < length (rt_lengths r)" using Suc.prems r(3,4) by simp_all
    have "vec_set (rt_refs r) (int (base + n)) p = Inr (rt_refs ?r)"
      "vec_set (rt_lengths r) (int (base + n)) depth = Inr (rt_lengths ?r)"
      using vec_set_int[OF at(1)] vec_set_int[OF at(2)] by simp_all
    then show ?case using r(1-4) r(5) at assms(3)
      by (intro exI[of _ ?r] conjI) (simp_all del: of_nat_add add: less_Suc_eq nth_list_update)
  qed
  from this[OF assms(1)] show ?thesis by (simp add: fill_entries_def)
qed

text \<open>The bits of a number of \<open>m\<close> bits from a depth on, and an entry that agrees with the tree.\<close>

definition index_bits :: "nat \<Rightarrow> nat \<Rightarrow> nat \<Rightarrow> nat \<Rightarrow> bool list" where
  "index_bits m v i j = map (\<lambda>k. bit v (m - 1 - k)) [i..<j]"

lemma index_bits_Cons: "i < j \<Longrightarrow> index_bits m v i j = bit v (m - 1 - i) # index_bits m v (Suc i) j"
  by (simp add: index_bits_def upt_conv_Cons)

definition entry_ok :: "huffman_tree \<Rightarrow> nat \<Rightarrow> nat \<Rightarrow> huffman_rev_table \<Rightarrow> nat \<Rightarrow> bool" where
  "entry_ok t p depth rt v \<longleftrightarrow>
     (let s = rt_refs rt ! v; len = rt_lengths rt ! v in
      depth \<le> len \<and> len \<le> rt_max_length rt \<and> is_symbol t s
      \<and> walk t p (index_bits (rt_max_length rt) v depth len) = Some s)"

definition rt_ok :: "huffman_rev_table \<Rightarrow> bool" where
  "rt_ok rt \<longleftrightarrow> length (rt_refs rt) = 2 ^ rt_max_length rt \<and> length (rt_lengths rt) = 2 ^ rt_max_length rt"

text \<open>Only the entries below a prefix are written, and they agree with the tree.\<close>

definition filled :: "huffman_tree \<Rightarrow> nat \<Rightarrow> nat \<Rightarrow> nat \<Rightarrow> huffman_rev_table \<Rightarrow> huffman_rev_table \<Rightarrow> bool" where
  "filled t p np depth rt rt' \<longleftrightarrow>
     rt_ok rt' \<and> rt_max_length rt' = rt_max_length rt
   \<and> (\<forall>v < 2 ^ rt_max_length rt.
        if v div 2 ^ (rt_max_length rt - depth) = np then entry_ok t p depth rt' v
        else rt_refs rt' ! v = rt_refs rt ! v \<and> rt_lengths rt' ! v = rt_lengths rt ! v)"

lemma prefix_range: "v div 2 ^ k = np \<longleftrightarrow> np * 2 ^ k \<le> v \<and> v < np * 2 ^ k + 2 ^ (k :: nat)" for v np :: nat
proof
  assume "v div 2 ^ k = np"
  then show "np * 2 ^ k \<le> v \<and> v < np * 2 ^ k + 2 ^ k"
    using div_times_less_eq_dividend[of v "2 ^ k"] dividend_less_div_times[of "2 ^ k" v] by (simp add: add.commute)
next
  assume "np * 2 ^ k \<le> v \<and> v < np * 2 ^ k + 2 ^ k"
  then show "v div 2 ^ k = np" by (intro div_nat_eqI) (simp_all add: mult.commute add.commute)
qed

lemma prefix_room: "np < 2 ^ depth \<Longrightarrow> depth \<le> m \<Longrightarrow> np * 2 ^ (m - depth) + 2 ^ (m - depth) \<le> (2 :: nat) ^ m"
proof -
  assume "np < 2 ^ depth" "depth \<le> m"
  then have "(np + 1) * 2 ^ (m - depth) \<le> 2 ^ depth * 2 ^ (m - depth)" by (intro mult_le_mono1) simp
  also have "\<dots> = 2 ^ m" using \<open>depth \<le> m\<close> by (simp flip: power_add)
  finally show ?thesis by simp
qed

lemma fill_leaf:
  assumes "is_symbol t p" and "rt_ok rt" and "depth \<le> rt_max_length rt" and "depth < 256" and "np < 2 ^ depth"
  shows "\<exists>rt'. fill_table t p np depth rt = Inr rt' \<and> filled t p np depth rt rt'"
proof -
  obtain m where m: "m = rt_max_length rt" by blast
  have "np * 2 ^ (m - depth) + 2 ^ (m - depth) \<le> length (rt_refs rt)"
    using prefix_room[OF assms(5,3)] assms(2) by (simp add: rt_ok_def m)
  from fill_entries_ok[OF this _ assms(4), of p] obtain rt' where
    rt': "fill_entries p (np * 2 ^ (m - depth)) depth (m - depth) rt = Inr rt'" "rt_max_length rt' = m" "rt_ok rt'"
      "\<And>v. v < 2 ^ m \<Longrightarrow> if np * 2 ^ (m - depth) \<le> v \<and> v < np * 2 ^ (m - depth) + 2 ^ (m - depth)
         then rt_refs rt' ! v = p \<and> rt_lengths rt' ! v = depth
         else rt_refs rt' ! v = rt_refs rt ! v \<and> rt_lengths rt' ! v = rt_lengths rt ! v"
    using assms(2) by (auto simp: rt_ok_def m)
  have "fill_table t p np depth rt = Inr rt'" using assms(1) rt'(1) by (simp add: fill_table.simps[of t p] m)
  moreover have "filled t p np depth rt rt'"
    unfolding filled_def prefix_range using rt' assms(1,3)
    by (auto simp: entry_ok_def index_bits_def simp flip: m)
  ultimately show ?thesis by blast
qed

lemma half_prefix:
  assumes "depth < m"
  shows "v div 2 ^ (m - depth) = np \<longleftrightarrow> v div 2 ^ (m - Suc depth) = 2 * np \<or> v div 2 ^ (m - Suc depth) = 2 * np + (1 :: nat)"
    and "v div 2 ^ (m - Suc depth) = 2 * np \<Longrightarrow> \<not> bit v (m - 1 - depth)"
    and "v div 2 ^ (m - Suc depth) = 2 * np + 1 \<Longrightarrow> bit v (m - 1 - depth)"
proof -
  have m: "m - depth = Suc (m - Suc depth)" "m - 1 - depth = m - Suc depth" using assms by simp_all
  have halves: "y div 2 = np \<longleftrightarrow> y = 2 * np \<or> y = 2 * np + 1" for y :: nat by presburger
  have "v div 2 ^ (m - depth) = (v div 2 ^ (m - Suc depth)) div 2" unfolding m(1) by (simp only: power_Suc2 div_mult2_eq)
  then show "v div 2 ^ (m - depth) = np \<longleftrightarrow> v div 2 ^ (m - Suc depth) = 2 * np \<or> v div 2 ^ (m - Suc depth) = 2 * np + 1"
    using halves[of "v div 2 ^ (m - Suc depth)"] by simp
  show "v div 2 ^ (m - Suc depth) = 2 * np \<Longrightarrow> \<not> bit v (m - 1 - depth)"
    "v div 2 ^ (m - Suc depth) = 2 * np + 1 \<Longrightarrow> bit v (m - 1 - depth)"
    unfolding m(2) by (simp_all add: bit_iff_odd)
qed

lemma entry_ok_child:
  assumes "entry_ok t c (Suc depth) rt v" and "ht_step t p b = Some c" and "bit v (rt_max_length rt - 1 - depth) = b"
  shows "entry_ok t p depth rt v"
  using assms by (auto simp: entry_ok_def Let_def index_bits_Cons)

lemma fill_table_ok:
  assumes t: "ht_ok t"
  shows "rt_ok rt \<Longrightarrow> rt_max_length rt < 256 \<Longrightarrow> p \<le> ht_num t * 2 - 2 \<Longrightarrow> np < 2 ^ depth
    \<Longrightarrow> (\<And>bs s. walk t p bs = Some s \<Longrightarrow> is_symbol t s \<Longrightarrow> depth + length bs \<le> rt_max_length rt)
    \<Longrightarrow> \<exists>rt'. fill_table t p np depth rt = Inr rt' \<and> filled t p np depth rt rt'"
proof (induction p arbitrary: np depth rt rule: less_induct)
  case (less p)
  let ?m = "rt_max_length rt"
  show ?case
  proof (cases "is_symbol t p")
    case True
    have "depth \<le> ?m" using less.prems(5)[of "[]" p] True by simp
    then show ?thesis using fill_leaf[OF True less.prems(1)] less.prems(2,4) by simp
  next
    case False
    then have p: "ht_num t \<le> p" "p < ht_num t * 2 - 1" using less.prems(3) t by (auto simp: is_symbol_def ht_ok_def)
    from ht_step_ok[OF t p] obtain l r where
      lr: "ht_left t p = Inr l" "ht_right t p = Inr r" "l < p" "r < p" "ht_step t p False = Some l" "ht_step t p True = Some r" .
    have below: "Suc depth + length bs \<le> ?m" if "walk t c bs = Some s" "is_symbol t s" "ht_step t p b = Some c" for bs s b c
      using less.prems(5)[of "b # bs" s] that by simp
    have le: "l \<le> ht_num t * 2 - 2" "r \<le> ht_num t * 2 - 2" using lr(3,4) less.prems(3) by linarith+
    obtain bs s where "walk t l bs = Some s" "is_symbol t s" using leaf_below[OF t le(1)] by blast
    from below[OF this lr(5)] have m: "depth < ?m" by simp
    from less.IH[OF lr(3) less.prems(1,2) le(1), of "2 * np" "Suc depth"] below[OF _ _ lr(5)] less.prems(4) obtain r1 where
      r1: "fill_table t l (2 * np) (Suc depth) rt = Inr r1" "filled t l (2 * np) (Suc depth) rt r1" by auto
    then have r1_ok: "rt_ok r1" "rt_max_length r1 = ?m" by (simp_all add: filled_def)
    have "2 * np + 1 < 2 ^ Suc depth" using less.prems(4) by simp
    from less.IH[OF lr(4) r1_ok(1) _ le(2) this] below[OF _ _ lr(6)] less.prems(2) obtain r2 where
      r2: "fill_table t r (2 * np + 1) (Suc depth) r1 = Inr r2" "filled t r (2 * np + 1) (Suc depth) r1 r2"
      unfolding r1_ok(2) by auto
    then have r2_ok: "rt_ok r2" "rt_max_length r2 = ?m" by (simp_all add: filled_def r1_ok(2))
    have "fill_table t p np depth rt = Inr r2" using False lr(1-4) r1(1) r2(1) by (simp add: fill_table.simps[of t p])
    moreover have "if v div 2 ^ (?m - depth) = np then entry_ok t p depth r2 v
        else rt_refs r2 ! v = rt_refs rt ! v \<and> rt_lengths r2 ! v = rt_lengths rt ! v" if v: "v < 2 ^ ?m" for v
    proof -
      let ?x = "v div 2 ^ (?m - Suc depth)"
      have 1: "if ?x = 2 * np then entry_ok t l (Suc depth) r1 v
          else rt_refs r1 ! v = rt_refs rt ! v \<and> rt_lengths r1 ! v = rt_lengths rt ! v"
        using r1(2) v by (simp add: filled_def)
      have 2: "if ?x = 2 * np + 1 then entry_ok t r (Suc depth) r2 v
          else rt_refs r2 ! v = rt_refs r1 ! v \<and> rt_lengths r2 ! v = rt_lengths r1 ! v"
        using r2(2) v by (simp add: filled_def r1_ok(2))
      consider "?x = 2 * np" | "?x = 2 * np + 1" | "?x \<noteq> 2 * np" "?x \<noteq> 2 * np + 1" by blast
      then show ?thesis
      proof cases
        case a: 1
        then have "entry_ok t l (Suc depth) r1 v" "rt_refs r2 ! v = rt_refs r1 ! v" "rt_lengths r2 ! v = rt_lengths r1 ! v"
          using 1 2 by simp_all
        then have "entry_ok t l (Suc depth) r2 v" by (simp add: entry_ok_def r1_ok(2) r2_ok(2))
        from entry_ok_child[OF this lr(5)] have "entry_ok t p depth r2 v" using half_prefix(2)[OF m a] by (simp add: r2_ok(2))
        then show ?thesis using a half_prefix(1)[OF m] by simp
      next
        case a: 2
        then have "entry_ok t r (Suc depth) r2 v" using 2 by simp
        from entry_ok_child[OF this lr(6)] have "entry_ok t p depth r2 v" using half_prefix(3)[OF m a] by (simp add: r2_ok(2))
        then show ?thesis using a half_prefix(1)[OF m] by simp
      next
        case 3
        then show ?thesis using 1 2 half_prefix(1)[OF m] by simp
      qed
    qed
    ultimately show ?thesis using r2_ok unfolding filled_def by blast
  qed
qed

text \<open>The table for decoding agrees with the tree at every index.\<close>

lemma new_huffman_rev_table_ok:
  assumes "ht_ok t" and "ht_num t \<le> 31"
  shows "\<exists>rt. new_huffman_rev_table refs lengths t = Inr rt \<and> rt_ok rt \<and> rt_max_length rt < 31
    \<and> (\<forall>v < 2 ^ rt_max_length rt. entry_ok t (ht_root t) 0 rt v)"
proof -
  have "0 + ht_root t \<le> ht_num t * 2 - 2" by (simp add: ht_root_def)
  from find_max_length_ok[OF assms(1) this, of 0] obtain m where
    m: "find_max_length t (ht_root t) 0 0 = Inr m" "m \<le> ht_num t - 1"
      "\<And>bs s. walk t (ht_root t) bs = Some s \<Longrightarrow> is_symbol t s \<Longrightarrow> length bs \<le> m" by auto
  have "0 < ht_num t" using assms(1) by (simp add: ht_ok_def)
  then have less: "m < 31" using m(2) assms(2) by linarith
  let ?rt = "\<lparr>rt_max_length = m, rt_refs = map refs [0..<2 ^ m], rt_lengths = map lengths [0..<2 ^ m]\<rparr>"
  have "\<exists>rt'. fill_table t (ht_root t) 0 0 ?rt = Inr rt' \<and> filled t (ht_root t) 0 0 ?rt rt'"
    using m(3) less by (intro fill_table_ok[OF assms(1)]) (simp_all add: rt_ok_def ht_root_def)
  then obtain rt where rt: "fill_table t (ht_root t) 0 0 ?rt = Inr rt" "filled t (ht_root t) 0 0 ?rt rt" by blast
  then have "rt_max_length rt = m" "rt_ok rt" "\<forall>v < 2 ^ m. entry_ok t (ht_root t) 0 rt v"
    by (simp_all add: filled_def)
  moreover have "new_huffman_rev_table refs lengths t = Inr rt" using m(1) less rt(1) assms(2) by (simp add: new_huffman_rev_table_def)
  ultimately show ?thesis using less by blast
qed

section \<open>What is coded and decoded\<close>

lemma hf_loop_walk:
  "walk t p bs = Some s \<Longrightarrow> is_symbol t s \<Longrightarrow> holds_at bv i bs \<Longrightarrow> hf_loop t bv p i = Inr (s, i + length bs)"
proof (induction bs arbitrary: p i)
  case Nil
  then show ?case using hf_loop.simps[of t bv s i] by simp
next
  case (Cons b bs)
  then obtain q where q: "ht_step t p b = Some q" "walk t q bs = Some s" by (auto split: option.splits)
  have at: "bv_at bv i = Inr b" by (rule bv_at_holds[OF Cons.prems(3)])
  have ok: "bv_ok bv" "i < length (bv_bits bv)" using Cons.prems(3) by (auto simp: holds_at_def)
  then have "i < bv_size bv" by (simp add: length_bv_bits)
  moreover have "holds_at bv (Suc i) bs" using Cons.prems(3) holds_at_append[of bv i "[b]" bs] by simp
  from Cons.IH[OF q(2) Cons.prems(2) this] have "hf_loop t bv q (Suc i) = Inr (s, Suc i + length bs)" .
  moreover have "\<not> is_symbol t p" "(if \<not> b then ht_left t p else ht_right t p) = Inr q"
    using q(1) by (auto simp: ht_step_def split: if_splits sum.splits)
  ultimately show ?case using at by (simp add: hf_loop.simps[of t bv p])
qed

definition hf_ok :: "nat \<Rightarrow> huffman \<Rightarrow> bool" where
  "hf_ok n h \<longleftrightarrow> ht_num (hf_tree h) = n \<and> ht_ok (hf_tree h) \<and> table_ok (hf_tree h) (hf_table h)
     \<and> (\<forall>s<n. coded (hf_tree h) (hf_table h) s)
     \<and> rt_ok (hf_rev_table h)
     \<and> (\<forall>v < 2 ^ rt_max_length (hf_rev_table h). entry_ok (hf_tree h) (ht_root (hf_tree h)) 0 (hf_rev_table h) v)"

text \<open>The code of a symbol.\<close>

definition hf_code :: "huffman \<Rightarrow> nat \<Rightarrow> bool list" where
  "hf_code h s = prefix_bits (the (tb_codes (hf_table h) ! s)) (tb_lengths (hf_table h) ! s)"

lemma hf_code_walk:
  assumes "hf_ok n h" and "s < n"
  shows "walk (hf_tree h) (ht_root (hf_tree h)) (hf_code h s) = Some s"
  using assms by (auto simp: hf_ok_def coded_def hf_code_def)

text \<open>With two symbols or more no code is empty.\<close>

lemma hf_code_nonempty:
  assumes "hf_ok n h" and "s < n" and "2 \<le> n"
  shows "hf_code h s \<noteq> []"
proof
  assume "hf_code h s = []"
  with hf_code_walk[OF assms(1,2)] have "ht_root (hf_tree h) = s" by simp
  with assms show False by (simp add: ht_root_def hf_ok_def)
qed

lemma hf_encode_ok:
  assumes "hf_ok n h" and "s < n" and "bv_ok bv"
  shows "\<exists>bv'. hf_encode h bv s = Inr bv' \<and> bv_ok bv' \<and> bv_bits bv' = bv_bits bv @ hf_code h s"
proof -
  from assms(1,2) obtain code where c: "s < length (tb_lengths (hf_table h))" "s < length (tb_codes (hf_table h))"
    "tb_codes (hf_table h) ! s = Some code" "tb_lengths (hf_table h) ! s \<le> buf_len code" "s < tb_num (hf_table h)"
    by (auto simp: hf_ok_def coded_def table_ok_def)
  have "0 + tb_lengths (hf_table h) ! s \<le> buf_len code" using c(4) by simp
  from append_array_ok[OF assms(3) block_types(3) this] show ?thesis
    using c by (simp add: hf_encode_def hf_code_def prefix_bits_def Let_def)
qed

lemma hf_decode_ok:
  assumes "hf_ok n h" and "s < n" and "2 \<le> n" and "holds_at bv i (hf_code h s)"
  shows "hf_decode h bv i = Inr (s, i + length (hf_code h s))"
proof -
  have "0 < length (hf_code h s)" using hf_code_nonempty[OF assms(1-3)] by simp
  moreover have "i + length (hf_code h s) \<le> length (bv_bits bv)" "bv_ok bv" using assms(4) by (simp_all add: holds_at_def)
  ultimately have "i < length (bv_bits bv)" "bv_ok bv" by linarith+
  then have "i \<noteq> bv_size bv" by (simp add: length_bv_bits)
  moreover have "is_symbol (hf_tree h) s" using assms(1,2) by (simp add: is_symbol_def hf_ok_def)
  ultimately show ?thesis using hf_loop_walk[OF hf_code_walk[OF assms(1,2)] _ assms(4)] by (simp add: hf_decode_def)
qed

text \<open>Codes are made from any frequencies.\<close>

lemma new_huffman_ok:
  assumes "0 < n" and "n \<le> 31" and "length freqs = 2 * n - 1"
  shows "\<exists>t0 t h. new_huffman_tree mem n = Inr t0 \<and> ht_generate n freqs t0 = Inr t \<and> new_huffman tm t = Inr h \<and> hf_ok n h"
proof -
  let ?t0 = "\<lparr>ht_num = n, ht_nodes = map mem [0..<(n - 1) * 2]\<rparr>"
  have t0: "new_huffman_tree mem n = Inr ?t0" using assms(1,2) by (simp add: new_huffman_tree_def)
  have "ht_num ?t0 = n" "length (ht_nodes ?t0) = (n - 1) * 2" by simp_all
  from ht_generate_ok[OF assms(1,3) this] obtain t where t: "ht_generate n freqs ?t0 = Inr t" "ht_ok t" "ht_num t = n" by blast
  have "ht_num t \<le> 128" "ht_num t \<le> 31" using assms(2) t(3) by simp_all
  from new_huffman_table_ok[OF t(2) this(1)] new_huffman_rev_table_ok[OF t(2) this(2)] obtain tb rt where
    "new_huffman_table (tm_prefix tm) (tm_lengths tm) t = Inr tb" "table_ok t tb" "\<forall>s<ht_num t. coded t tb s"
    "new_huffman_rev_table (tm_rev_refs tm) (tm_rev_lengths tm) t = Inr rt" "rt_ok rt"
    "\<forall>v < 2 ^ rt_max_length rt. entry_ok t (ht_root t) 0 rt v" by meson
  then have "new_huffman tm t = Inr \<lparr>hf_tree = t, hf_table = tb, hf_rev_table = rt\<rparr>"
    "hf_ok n \<lparr>hf_tree = t, hf_table = tb, hf_rev_table = rt\<rparr>"
    using t by (simp_all add: new_huffman_def hf_ok_def)
  with t0 t show ?thesis by blast
qed

text \<open>The table for decoding, at the bits that follow, gives what \<open>decode\<close> does.\<close>

lemma table_decode:
  assumes h: "hf_ok n h" and n: "2 \<le> n" and v: "v < 2 ^ rt_max_length (hf_rev_table h)"
  shows "\<exists>s len. rt_symbol (hf_rev_table h) v = Inr s \<and> rt_length (hf_rev_table h) v = Inr len
    \<and> (\<forall>bv i. holds_at bv i (index_bits (rt_max_length (hf_rev_table h)) v 0 (rt_max_length (hf_rev_table h)))
          \<longrightarrow> hf_decode h bv i = Inr (s, i + len))"
proof -
  let ?t = "hf_tree h" and ?rt = "hf_rev_table h"
  obtain s len where sl: "s = rt_refs ?rt ! v" "len = rt_lengths ?rt ! v" by blast
  have at: "rt_symbol ?rt v = Inr s" "rt_length ?rt v = Inr len"
    using h v by (simp_all add: hf_ok_def rt_ok_def rt_symbol_def rt_length_def sl)
  have entry: "len \<le> rt_max_length ?rt" "is_symbol ?t s" "walk ?t (ht_root ?t) (index_bits (rt_max_length ?rt) v 0 len) = Some s"
    using h v by (simp_all add: hf_ok_def entry_ok_def Let_def sl)
  have "len \<noteq> 0"
  proof
    assume "len = 0"
    then have "ht_root ?t = s" using entry(3) by (simp add: index_bits_def)
    then show False using h n entry(2) by (simp add: ht_root_def is_symbol_def hf_ok_def)
  qed
  have "hf_decode h bv i = Inr (s, i + len)"
    if "holds_at bv i (index_bits (rt_max_length ?rt) v 0 (rt_max_length ?rt))" for bv i
  proof -
    have "index_bits (rt_max_length ?rt) v 0 (rt_max_length ?rt)
        = index_bits (rt_max_length ?rt) v 0 len @ index_bits (rt_max_length ?rt) v len (rt_max_length ?rt)"
      using entry(1) upt_add_eq_append[of 0 len "rt_max_length ?rt - len"] by (simp add: index_bits_def)
    then have bits: "holds_at bv i (index_bits (rt_max_length ?rt) v 0 len)" using that by (simp add: holds_at_append)
    have len: "length (index_bits (rt_max_length ?rt) v 0 len) = len" by (simp add: index_bits_def)
    have "i + len \<le> length (bv_bits bv)" "bv_ok bv" using bits len by (simp_all add: holds_at_def)
    then have "i \<noteq> bv_size bv" using \<open>len \<noteq> 0\<close> by (simp add: length_bv_bits)
    with hf_loop_walk[OF entry(3,2) bits] len show ?thesis by (simp add: hf_decode_def)
  qed
  with at show ?thesis by blast
qed

end
