(* ===== verification/EntropyTries.thy ===== *)
theory EntropyTries
  imports HuffmanCodes "HOL-Library.List_Lexorder"
begin

text \<open>
  The trie of the sizes of left subtrees (\<^verbatim>\<open>src/src/trie/trie.hpp\<close>) and the index over keys of
  one length that is made of it (\<^verbatim>\<open>src/src/trie/EntropyTrie.hpp\<close>).  A key is its array of bytes;
  the code names the keys of a sorted array by their positions and does not hold the keys.
\<close>

type_synonym key = "8 word list"

section \<open>The codes of the trie\<close>

text \<open>\<open>weak\<close> and \<open>limit\<close> are parameters of the template, by default false and 16.\<close>

record trie =
  tr_weak :: bool
  tr_limit :: nat
  tr_huff :: "huffman list"

text \<open>The frequencies of the splits of \<open>n\<close> keys, in the arithmetic of \<^verbatim>\<open>uint64_t\<close>.\<close>

primrec freq_loop :: "nat \<Rightarrow> u64 \<Rightarrow> nat list \<Rightarrow> u64 list" where
  "freq_loop n v [] = []"
| "freq_loop n v (k # ks) = (let v' = v * of_nat (n - k + 1) div of_nat k in v' # freq_loop n v' ks)"

definition split_freqs :: "bool \<Rightarrow> nat \<Rightarrow> u64 list" where
  "split_freqs weak n = (if \<not> weak then 1 # freq_loop n 1 [1..<n + 1] else 1 * 2 # freq_loop n 1 [1..<n])"

text \<open>A generator with these frequencies, the tree it makes, and the codes of the tree.\<close>

definition huffman_of_freqs :: "huffman_memory \<Rightarrow> u64 list \<Rightarrow> huffman res" where
  "huffman_of_freqs mem freqs =
     (let num_symbols = length freqs in
      rbind (new_huffman_tree (tm_nodes mem) num_symbols) (\<lambda>t.
      rbind (ht_generate num_symbols (freqs @ map (tm_freqs mem) [num_symbols..<num_symbols * 2 - 1]) t) (\<lambda>t'.
        new_huffman mem t')))"

definition new_trie :: "(nat \<Rightarrow> huffman_memory) \<Rightarrow> bool \<Rightarrow> nat \<Rightarrow> trie res" where
  "new_trie mem weak limit =
     rbind (fold_res (\<lambda>hs n. rbind (huffman_of_freqs (mem n) (split_freqs weak n)) (\<lambda>h. Inr (hs @ [h]))) [] [2..<limit + 1])
       (\<lambda>hs. Inr \<lparr>tr_weak = weak, tr_limit = limit, tr_huff = hs\<rparr>)"

definition recreate_huffman_from_dist :: "(nat \<Rightarrow> huffman_memory) \<Rightarrow> (nat \<Rightarrow> nat \<Rightarrow> u64) \<Rightarrow> trie \<Rightarrow> trie res" where
  "recreate_huffman_from_dist mem dist tr =
     (if tr_weak tr then Inl AssertFailed
      else
        rbind (fold_res (\<lambda>hs n. rbind (huffman_of_freqs (mem n) (map (dist n) [0..<n + 1])) (\<lambda>h. Inr (hs @ [h]))) []
                 [2..<tr_limit tr + 1])
          (\<lambda>hs. Inr (tr\<lparr>tr_huff := hs\<rparr>)))"

section \<open>Coding a sorted array\<close>

text \<open>A split of \<open>n\<close> keys, by a Huffman code or as the distance from the half.\<close>

definition encode_split :: "trie \<Rightarrow> bit_vector \<Rightarrow> nat \<Rightarrow> nat \<Rightarrow> bit_vector res" where
  "encode_split tr out_buf n left =
     (if n \<le> tr_limit tr then rbind (vec_at (tr_huff tr) (int (n - 2))) (\<lambda>h. hf_encode h out_buf left)
      else eg_encode 0 out_buf (si_encode (of_nat left - of_nat (n div 2))))"

definition decode_split :: "trie \<Rightarrow> bit_vector \<Rightarrow> nat \<Rightarrow> nat \<Rightarrow> (nat \<times> nat) res" where
  "decode_split tr in_buf n iter =
     rbind (if n \<le> tr_limit tr then rbind (vec_at (tr_huff tr) (int (n - 2))) (\<lambda>h. hf_decode h in_buf iter)
            else rbind (eg_decode 0 in_buf iter) (\<lambda>(v, iter'). Inr (unat (si_decode v + of_nat (n div 2)), iter')))
       (\<lambda>(left, iter'). if left \<le> n then Inr (left, iter') else Inl AssertFailed)"

text \<open>
  \<open>n\<close> keys from \<open>off\<close> on are one leaf: at most one key, or keys of one block of the destination.  Positions
  in the destination are numbers; the code has them in \<open>size_t\<close>, which they would leave at \<open>2 ^ 64\<close> only.
\<close>

definition is_leaf :: "nat \<Rightarrow> nat \<Rightarrow> nat \<Rightarrow> nat \<Rightarrow> bool" where
  "is_leaf dest_base dest_keys_per_block off n \<longleftrightarrow>
     n \<le> 1 \<or> (n \<le> dest_keys_per_block
       \<and> (dest_base + off) div dest_keys_per_block = (dest_base + off + n - 1) div dest_keys_per_block)"

function left_loop :: "key list \<Rightarrow> nat \<Rightarrow> nat \<Rightarrow> nat \<Rightarrow> nat \<Rightarrow> nat res" where
  "left_loop arr off n depth left =
     (if left < n then
        (case rbind (vec_at arr (int (off + left))) (\<lambda>key. ba_get key depth) of
           Inl err \<Rightarrow> Inl err
         | Inr b \<Rightarrow> if b then Inr left else left_loop arr off n depth (left + 1))
      else Inr left)"
  by pat_completeness auto
termination
  by (relation "measure (\<lambda>(arr, off, n, depth, left). n - left)") auto

declare left_loop.simps [simp del]

function encode_rec ::
    "trie \<Rightarrow> key list \<Rightarrow> nat \<Rightarrow> nat \<Rightarrow> nat \<Rightarrow> nat \<Rightarrow> nat \<Rightarrow> nat \<Rightarrow> bit_vector \<Rightarrow> bit_vector res" where
  "encode_rec tr arr key_len dest_base dest_keys_per_block off n depth out_buf =
     (if is_leaf dest_base dest_keys_per_block off n then Inr out_buf
      else if \<not> depth < key_len * 8 then Inl AssertFailed
      else
        (case left_loop arr off n depth 0 of
           Inl err \<Rightarrow> Inl err
         | Inr left0 \<Rightarrow>
             let left = (if tr_weak tr \<and> left0 = n then 0 else left0) in
             (case encode_split tr out_buf n left of
                Inl err \<Rightarrow> Inl err
              | Inr out1 \<Rightarrow>
                  (case encode_rec tr arr key_len dest_base dest_keys_per_block off left (depth + 1) out1 of
                     Inl err \<Rightarrow> Inl err
                   | Inr out2 \<Rightarrow>
                       encode_rec tr arr key_len dest_base dest_keys_per_block (off + left) (n - left) (depth + 1) out2))))"
  by pat_completeness auto
termination
  by (relation "measure (\<lambda>(tr, arr, key_len, db, dk, off, n, depth, out). key_len * 8 - depth)") auto

declare encode_rec.simps [simp del]

section \<open>Finding a key\<close>

text \<open>
  The subtree of the keys on the left is skipped by decoding all of it.  The code does not bound the
  depth of that; in codes that \<open>encode_rec\<close> made it is at most the number of bits of a key.
\<close>

fun skip_rec :: "nat \<Rightarrow> trie \<Rightarrow> bit_vector \<Rightarrow> nat \<Rightarrow> nat \<Rightarrow> nat \<Rightarrow> nat \<Rightarrow> nat \<Rightarrow> nat res" where
  "skip_rec 0 tr in_buf dest_base dest_keys_per_block off n iter = Inl OutOfFuel"
| "skip_rec (Suc fuel) tr in_buf dest_base dest_keys_per_block off n iter =
     (if is_leaf dest_base dest_keys_per_block off n then Inr iter
      else
        rbind (decode_split tr in_buf n iter) (\<lambda>(left, iter1).
        rbind (skip_rec fuel tr in_buf dest_base dest_keys_per_block off left iter1) (\<lambda>iter2.
          skip_rec fuel tr in_buf dest_base dest_keys_per_block (off + left) (n - left) iter2)))"

function locate_rec ::
    "trie \<Rightarrow> bit_vector \<Rightarrow> key \<Rightarrow> nat \<Rightarrow> nat \<Rightarrow> nat \<Rightarrow> nat \<Rightarrow> nat \<Rightarrow> nat \<Rightarrow> nat \<Rightarrow> (nat \<times> nat) res" where
  "locate_rec tr in_buf key key_len dest_base dest_keys_per_block off n depth iter =
     (if is_leaf dest_base dest_keys_per_block off n then Inr (0, iter)
      else if \<not> depth < key_len * 8 then Inl AssertFailed
      else
        (case decode_split tr in_buf n iter of
           Inl err \<Rightarrow> Inl err
         | Inr (left, iter1) \<Rightarrow>
             (case ba_get key depth of
                Inl err \<Rightarrow> Inl err
              | Inr b \<Rightarrow>
                  if \<not> b \<and> (\<not> tr_weak tr \<or> tr_weak tr \<and> left \<noteq> 0) then
                    locate_rec tr in_buf key key_len dest_base dest_keys_per_block off left (depth + 1) iter1
                  else
                    (case skip_rec (key_len * 8 - depth) tr in_buf dest_base dest_keys_per_block off left iter1 of
                       Inl err \<Rightarrow> Inl err
                     | Inr iter2 \<Rightarrow>
                         (case locate_rec tr in_buf key key_len dest_base dest_keys_per_block (off + left) (n - left)
                                 (depth + 1) iter2 of
                            Inl err \<Rightarrow> Inl err
                          | Inr (r, iter3) \<Rightarrow> Inr (left + r, iter3))))))"
  by pat_completeness auto
termination
  by (relation "measure (\<lambda>(tr, buf, key, key_len, db, dk, off, n, depth, iter). key_len * 8 - depth)") auto

declare locate_rec.simps [simp del]

text \<open>The public operations begin at a depth, the bits of a prefix that all keys share.\<close>

definition trie_encode ::
    "trie \<Rightarrow> bit_vector \<Rightarrow> key list \<Rightarrow> nat \<Rightarrow> nat \<Rightarrow> nat \<Rightarrow> nat \<Rightarrow> nat \<Rightarrow> nat \<Rightarrow> bit_vector res" where
  "trie_encode tr out_buf arr key_len off n dest_base dest_keys_per_block skip_bits =
     encode_rec tr arr key_len dest_base dest_keys_per_block off n skip_bits out_buf"

definition trie_locate ::
    "trie \<Rightarrow> bit_vector \<Rightarrow> nat \<Rightarrow> key \<Rightarrow> nat \<Rightarrow> nat \<Rightarrow> nat \<Rightarrow> nat \<Rightarrow> nat \<Rightarrow> nat \<Rightarrow> (nat \<times> nat) res" where
  "trie_locate tr in_buf iter key key_len off n dest_base dest_keys_per_block skip_bits =
     locate_rec tr in_buf key key_len dest_base dest_keys_per_block off n skip_bits iter"

section \<open>The index\<close>

text \<open>\<open>et_n\<close> has no value before the first \<open>flush\<close>, and then what its memory holds.\<close>

record entropy_trie =
  et_bits :: bit_vector
  et_trie :: trie
  et_key_len :: nat
  et_pending :: "key list"
  et_count :: nat
  et_n :: nat

definition new_entropy_trie :: "(nat \<Rightarrow> huffman_memory) \<Rightarrow> nat \<Rightarrow> nat \<Rightarrow> entropy_trie res" where
  "new_entropy_trie mem n_mem key_len =
     rbind bv_new (\<lambda>bv. rbind (new_trie mem False 16) (\<lambda>tr.
       Inr \<lparr>et_bits = bv, et_trie = tr, et_key_len = key_len, et_pending = [], et_count = 0, et_n = n_mem\<rparr>))"

text \<open>\<open>memcpy\<close> of as many bytes as keys have.\<close>

definition et_insert :: "key \<Rightarrow> entropy_trie \<Rightarrow> entropy_trie res" where
  "et_insert key et =
     (if et_key_len et > length key then Inl OutOfBounds
      else Inr (et\<lparr>et_pending := et_pending et @ [take (et_key_len et) key], et_count := et_count et + 1\<rparr>))"

text \<open>The bytes of a string, with the one behind them that \<open>c_str\<close> promises.\<close>

definition et_insert_string :: "key \<Rightarrow> entropy_trie \<Rightarrow> entropy_trie res" where
  "et_insert_string str et = et_insert (str @ [0]) et"

definition et_flush :: "entropy_trie \<Rightarrow> entropy_trie res" where
  "et_flush et =
     rbind (trie_encode (et_trie et) (et_bits et) (et_pending et) (et_key_len et) 0 (et_count et) 0 1 0) (\<lambda>bv.
     rbind (bv_compact bv) (\<lambda>bv'.
       Inr (et\<lparr>et_bits := bv', et_pending := [], et_n := et_count et, et_count := 0\<rparr>)))"

definition et_locate :: "key \<Rightarrow> entropy_trie \<Rightarrow> nat res" where
  "et_locate key et =
     rbind (trie_locate (et_trie et) (et_bits et) 0 key (et_key_len et) 0 (et_n et) 0 1 0) (\<lambda>(r, iter). Inr r)"

definition et_locate_string :: "key \<Rightarrow> entropy_trie \<Rightarrow> nat res" where
  "et_locate_string str et = et_locate (str @ [0]) et"

text \<open>The program of \<^verbatim>\<open>main.cpp\<close>: its strings, and the position that it prints.\<close>

definition main_strings :: "key list" where
  "main_strings =
     [[97, 97, 97, 97, 97],
      [97, 97, 97, 97, 98],
      [97, 122, 97, 97, 99],
      [97, 122, 122, 97, 100],
      [97, 122, 122, 122, 101],
      [122, 97, 97, 97, 102],
      [122, 97, 122, 122, 103],
      [122, 122, 97, 97, 104],
      [122, 122, 122, 97, 105],
      [122, 122, 122, 122, 106]]"

definition entropy_main :: "(nat \<Rightarrow> huffman_memory) \<Rightarrow> nat \<Rightarrow> nat res" where
  "entropy_main mem n_mem =
     rbind (new_entropy_trie mem n_mem 5) (\<lambda>et.
     rbind (fold_res (\<lambda>et s. et_insert_string s et) et main_strings) (\<lambda>et.
     rbind (et_flush et) (\<lambda>et.
       et_locate_string [97, 97, 97, 97, 98] et)))"

section \<open>The codes of the constructor\<close>

definition symbols :: "bool \<Rightarrow> nat \<Rightarrow> nat" where
  "symbols weak n = (if weak then n else n + 1)"

definition trie_ok :: "trie \<Rightarrow> bool" where
  "trie_ok tr \<longleftrightarrow> length (tr_huff tr) = tr_limit tr - 1
     \<and> (\<forall>n. 2 \<le> n \<and> n \<le> tr_limit tr \<longrightarrow> hf_ok (symbols (tr_weak tr) n) (tr_huff tr ! (n - 2)))"

lemma huffman_of_freqs_ok:
  assumes "freqs \<noteq> []" and "length freqs \<le> 31"
  shows "\<exists>h. huffman_of_freqs mem freqs = Inr h \<and> hf_ok (length freqs) h"
proof -
  have "0 < length freqs" "length (freqs @ map (tm_freqs mem) [length freqs..<length freqs * 2 - 1]) = 2 * length freqs - 1"
    using assms(1) by (simp_all add: Suc_leI)
  from new_huffman_ok[OF this(1) assms(2) this(2), where mem = "tm_nodes mem" and tm = mem] show ?thesis
    unfolding huffman_of_freqs_def Let_def by (elim exE conjE) simp
qed

lemma length_split_freqs: "2 \<le> n \<Longrightarrow> length (split_freqs weak n) = symbols weak n"
proof -
  have "length (freq_loop n v ks) = length ks" for v ks by (induction ks arbitrary: v) (simp_all add: Let_def)
  then show "2 \<le> n \<Longrightarrow> ?thesis" by (simp add: split_freqs_def symbols_def)
qed

text \<open>All codes are made when each list of frequencies has as many entries as there are symbols.\<close>

lemma huffmans_ok:
  assumes "\<And>n. 2 \<le> n \<Longrightarrow> n \<le> limit \<Longrightarrow> length (freqs n) = symbols weak n" and "limit \<le> 30"
  shows "\<exists>hs. fold_res (\<lambda>hs n. rbind (huffman_of_freqs (mem n) (freqs n)) (\<lambda>h. Inr (hs @ [h]))) [] [2..<limit + 1] = Inr hs
    \<and> length hs = limit - 1 \<and> (\<forall>n. 2 \<le> n \<and> n \<le> limit \<longrightarrow> hf_ok (symbols weak n) (hs ! (n - 2)))"
  using assms
proof (induction limit)
  case 0
  then show ?case by simp
next
  case (Suc limit)
  show ?case
  proof (cases "2 \<le> Suc limit")
    case False
    then have "limit = 0" by simp
    then show ?thesis by auto
  next
    case True
    from Suc.IH Suc.prems obtain hs where
      hs: "fold_res (\<lambda>hs n. rbind (huffman_of_freqs (mem n) (freqs n)) (\<lambda>h. Inr (hs @ [h]))) [] [2..<limit + 1] = Inr hs"
        "length hs = limit - 1" "\<And>n. 2 \<le> n \<Longrightarrow> n \<le> limit \<Longrightarrow> hf_ok (symbols weak n) (hs ! (n - 2))" by auto
    have len: "length (freqs (Suc limit)) = symbols weak (Suc limit)" using Suc.prems(1)[OF True] by simp
    then have "freqs (Suc limit) \<noteq> []" "length (freqs (Suc limit)) \<le> 31"
      using True Suc.prems(2) by (auto simp: symbols_def split: if_splits)
    from huffman_of_freqs_ok[OF this, of "mem (Suc limit)"] obtain h where
      h: "huffman_of_freqs (mem (Suc limit)) (freqs (Suc limit)) = Inr h" "hf_ok (symbols weak (Suc limit)) h"
      using len by auto
    have upt: "[2..<Suc limit + 1] = [2..<limit + 1] @ [Suc limit]" using True by (simp add: numeral_2_eq_2)
    have "hf_ok (symbols weak n) ((hs @ [h]) ! (n - 2))" if "2 \<le> n" "n \<le> Suc limit" for n
    proof (cases "n = Suc limit")
      case True
      then have "(hs @ [h]) ! (n - 2) = h" using hs(2) that by (simp add: nth_append)
      then show ?thesis using h(2) True by simp
    next
      case False
      then have "n - 2 < length hs" "n \<le> limit" using hs(2) that by linarith+
      then show ?thesis using hs(3)[OF that(1)] by (simp add: nth_append)
    qed
    moreover have "length (hs @ [h]) = Suc limit - 1" using hs(2) True by simp
    moreover have "fold_res (\<lambda>hs n. rbind (huffman_of_freqs (mem n) (freqs n)) (\<lambda>h. Inr (hs @ [h]))) [] [2..<Suc limit + 1] = Inr (hs @ [h])"
      unfolding upt fold_res_append hs(1) by (simp add: h(1))
    ultimately show ?thesis by blast
  qed
qed

lemma new_trie_ok:
  assumes "limit \<le> 30"
  shows "\<exists>tr. new_trie mem weak limit = Inr tr \<and> trie_ok tr \<and> tr_weak tr = weak \<and> tr_limit tr = limit"
proof -
  from huffmans_ok[OF length_split_freqs assms] obtain hs where
    "fold_res (\<lambda>hs n. rbind (huffman_of_freqs (mem n) (split_freqs weak n)) (\<lambda>h. Inr (hs @ [h]))) [] [2..<limit + 1] = Inr hs"
    "length hs = limit - 1" "\<forall>n. 2 \<le> n \<and> n \<le> limit \<longrightarrow> hf_ok (symbols weak n) (hs ! (n - 2))" by blast
  then show ?thesis by (simp add: new_trie_def trie_ok_def)
qed

lemma recreate_ok:
  assumes "trie_ok tr" and "\<not> tr_weak tr" and "tr_limit tr \<le> 30"
  shows "\<exists>tr'. recreate_huffman_from_dist mem dist tr = Inr tr' \<and> trie_ok tr' \<and> \<not> tr_weak tr' \<and> tr_limit tr' = tr_limit tr"
proof -
  have "length (map (dist n) [0..<n + 1]) = symbols False n" for n by (simp add: symbols_def)
  from huffmans_ok[OF this assms(3), of mem] obtain hs where
    "fold_res (\<lambda>hs n. rbind (huffman_of_freqs (mem n) (map (dist n) [0..<n + 1])) (\<lambda>h. Inr (hs @ [h]))) [] [2..<tr_limit tr + 1] = Inr hs"
    "length hs = tr_limit tr - 1" "\<forall>n. 2 \<le> n \<and> n \<le> tr_limit tr \<longrightarrow> hf_ok (symbols False n) (hs ! (n - 2))" by blast
  then show ?thesis using assms(2) unfolding recreate_huffman_from_dist_def by (simp add: trie_ok_def del: upt_Suc)
qed

section \<open>The code of a split\<close>

definition split_code :: "trie \<Rightarrow> nat \<Rightarrow> nat \<Rightarrow> bool list" where
  "split_code tr n left =
     (if n \<le> tr_limit tr then hf_code (tr_huff tr ! (n - 2)) left
      else eg_code 0 (si_encode (of_nat left - of_nat (n div 2))))"

definition split_ok :: "trie \<Rightarrow> nat \<Rightarrow> nat \<Rightarrow> bool" where
  "split_ok tr n left \<longleftrightarrow> trie_ok tr \<and> 2 \<le> n \<and> n < 2 ^ 62 \<and> left < symbols (tr_weak tr) n"

lemma split_left: "split_ok tr n left \<Longrightarrow> left \<le> n"
  by (auto simp: split_ok_def symbols_def split: if_splits)

lemma split_huffman:
  assumes "split_ok tr n left" and "n \<le> tr_limit tr"
  shows "vec_at (tr_huff tr) (int (n - 2)) = Inr (tr_huff tr ! (n - 2))"
    and "hf_ok (symbols (tr_weak tr) n) (tr_huff tr ! (n - 2))" and "left < symbols (tr_weak tr) n"
    and "2 \<le> symbols (tr_weak tr) n"
proof -
  have "n - 2 < length (tr_huff tr)" using assms by (auto simp: split_ok_def trie_ok_def)
  then show "vec_at (tr_huff tr) (int (n - 2)) = Inr (tr_huff tr ! (n - 2))" by simp
  show "hf_ok (symbols (tr_weak tr) n) (tr_huff tr ! (n - 2))" "left < symbols (tr_weak tr) n" "2 \<le> symbols (tr_weak tr) n"
    using assms by (auto simp: split_ok_def trie_ok_def symbols_def)
qed

lemma split_distance:
  assumes "split_ok tr n left"
  shows "si_encode (of_nat left - of_nat (n div 2)) \<noteq> - 1"
proof -
  have n: "n < 2 ^ 62" "left \<le> n" using assms split_left[OF assms] by (simp_all add: split_ok_def)
  show ?thesis
  proof (cases "n div 2 \<le> left")
    case True
    then have "of_nat left - of_nat (n div 2) = (of_nat (left - n div 2) :: u64)" by simp
    then show ?thesis using si_encode_small[of _ "left - n div 2"] n by simp
  next
    case False
    then have "of_nat left - of_nat (n div 2) = - (of_nat (n div 2 - left) :: u64)" by simp
    then show ?thesis using si_encode_small[of _ "n div 2 - left"] n by simp
  qed
qed

lemma encode_split_ok:
  assumes "split_ok tr n left" and "bv_ok bv"
  shows "\<exists>bv'. encode_split tr bv n left = Inr bv' \<and> bv_ok bv' \<and> bv_bits bv' = bv_bits bv @ split_code tr n left"
proof (cases "n \<le> tr_limit tr")
  case True
  note h = split_huffman[OF assms(1) True]
  from hf_encode_ok[OF h(2,3) assms(2)] show ?thesis using True h(1) by (simp add: encode_split_def split_code_def)
next
  case False
  from eg_encode_ok[OF assms(2), of 0] split_distance[OF assms(1)] False show ?thesis
    by (simp add: encode_split_def split_code_def)
qed

lemma decode_split_ok:
  assumes "split_ok tr n left" and "holds_at bv i (split_code tr n left)"
  shows "decode_split tr bv n i = Inr (left, i + length (split_code tr n left))"
proof (cases "n \<le> tr_limit tr")
  case True
  note h = split_huffman[OF assms(1) True]
  have "hf_decode (tr_huff tr ! (n - 2)) bv i = Inr (left, i + length (split_code tr n left))"
    using hf_decode_ok[OF h(2,3,4)] assms(2) True by (simp add: split_code_def)
  then show ?thesis using True h(1) split_left[OF assms(1)] by (simp add: decode_split_def)
next
  case False
  let ?d = "of_nat left - of_nat (n div 2) :: u64"
  have "eg_decode 0 bv i = Inr (si_encode ?d, i + length (split_code tr n left))"
    using eg_decode_holds[of bv i 0 "si_encode ?d"] assms(2) split_distance[OF assms(1)] False by (simp add: split_code_def)
  moreover have "left < 2 ^ 64" using split_left[OF assms(1)] assms(1) by (simp add: split_ok_def)
  then have "unat (of_nat left :: u64) = left" by (simp add: unat_of_nat take_bit_nat_eq_self)
  ultimately show ?thesis using False split_left[OF assms(1)] by (simp add: decode_split_def si_roundtrip)
qed

lemma split_code_nonempty: "split_ok tr n left \<Longrightarrow> split_code tr n left \<noteq> []"
  using hf_code_nonempty[OF split_huffman(2-4)] by (auto simp: split_code_def eg_code_def Let_def)

section \<open>Keys in order\<close>

text \<open>The first bit in which two keys of \<open>D\<close> bits differ decides.\<close>

definition key_less :: "nat \<Rightarrow> key \<Rightarrow> key \<Rightarrow> bool" where
  "key_less D x y \<longleftrightarrow> (\<exists>d<D. (\<forall>j<d. buf_bit x j = buf_bit y j) \<and> \<not> buf_bit x d \<and> buf_bit y d)"

definition ordered :: "nat \<Rightarrow> nat \<Rightarrow> key list \<Rightarrow> bool" where
  "ordered D depth xs \<longleftrightarrow> sorted_wrt (key_less D) xs \<and> (\<forall>x\<in>set xs. \<forall>y\<in>set xs. \<forall>j<depth. buf_bit x j = buf_bit y j)"

definition lefts :: "key list \<Rightarrow> nat \<Rightarrow> nat" where
  "lefts xs depth = length (takeWhile (\<lambda>x. \<not> buf_bit x depth) xs)"

lemma lefts_le: "lefts xs d \<le> length xs"
  by (simp add: lefts_def length_takeWhile_le)

lemma less_bit_nat:
  "x < y \<Longrightarrow> \<exists>d. bit y d \<and> \<not> bit x d \<and> (\<forall>j>d. bit x j = bit y j)" for x y :: nat
proof (induction y arbitrary: x rule: less_induct)
  case (less y)
  show ?case
  proof (cases "x div 2 = y div 2")
    case True
    then have "\<forall>j>0. bit x j = bit y j" by (auto simp: bit_Suc gr0_conv_Suc)
    moreover have "odd y" "even x" using True less.prems by presburger+
    ultimately show ?thesis by (intro exI[of _ 0]) (simp add: bit_0)
  next
    case False
    then have "x div 2 < y div 2" "y div 2 < y" using less.prems div_le_mono[of x y 2] by linarith+
    from less.IH[OF this(2,1)] obtain d where
      d: "bit (y div 2) d" "\<not> bit (x div 2) d" "\<forall>j>d. bit (x div 2) j = bit (y div 2) j" by blast
    have "bit x j = bit y j" if "j > Suc d" for j using d(3) that by (cases j) (simp_all add: bit_Suc)
    then show ?thesis using d(1,2) by (intro exI[of _ "Suc d"]) (simp add: bit_Suc)
  qed
qed

lemma byte_less:
  assumes "x < (y :: u8)"
  shows "\<exists>d<8. (\<forall>j<d. bit x (7 - j) = bit y (7 - j)) \<and> \<not> bit x (7 - d) \<and> bit y (7 - d)"
proof -
  have un: "bit w d \<longleftrightarrow> bit (unat w) d" for w :: u8 and d by transfer (simp add: bit_take_bit_iff bit_nat_iff)
  have "unat x < unat y" using assms by (simp add: word_less_nat_alt)
  from less_bit_nat[OF this] obtain d where
    d: "bit y d" "\<not> bit x d" "\<forall>j>d. bit x j = bit y j" unfolding un by blast
  have "d < 8" using bit_imp_le_length[OF d(1)] by simp
  then show ?thesis using d by (intro exI[of _ "7 - d"]) auto
qed

lemma buf_bit_Cons: "buf_bit (x # xs) d = (if d < 8 then bit (x :: u8) (7 - d) else buf_bit xs (d - 8))"
proof (cases "d < 8")
  case False
  then obtain k where "d = k + 8" by (metis add.commute le_Suc_ex not_less)
  moreover from this have "d div 8 = Suc (k div 8)" "d mod 8 = k mod 8" by simp_all
  ultimately show ?thesis by (simp add: buf_bit_def)
qed (simp add: buf_bit_def)

text \<open>It is the order of the bytes.\<close>

lemma key_less_bytes: "x < y \<Longrightarrow> length x = length y \<Longrightarrow> key_less (8 * length x) x y"
proof (induction x arbitrary: y)
  case Nil
  then show ?case by simp
next
  case (Cons a x)
  then obtain b y' where y: "y = b # y'" "length y' = length x" by (cases y) auto
  from Cons.prems y have "a < b \<or> a = b \<and> x < y'" by simp
  then show ?case
  proof
    assume "a < b"
    then obtain d where "d < 8" "\<forall>j<d. bit a (7 - j) = bit b (7 - j)" "\<not> bit a (7 - d)" "bit b (7 - d)"
      using byte_less by blast
    then show ?thesis unfolding key_less_def y(1) by (intro exI[of _ d]) (simp add: buf_bit_Cons)
  next
    assume ab: "a = b \<and> x < y'"
    with Cons.IH[of y'] y(2) obtain d where
      "d < 8 * length x" "\<forall>j<d. buf_bit x j = buf_bit y' j" "\<not> buf_bit x d" "buf_bit y' d" by (auto simp: key_less_def)
    with ab show ?thesis unfolding key_less_def y(1) by (intro exI[of _ "d + 8"]) (simp add: buf_bit_Cons)
  qed
qed

lemma ordered_bytes:
  assumes "sorted_wrt (<) keys" and "\<forall>k\<in>set keys. length k = key_len"
  shows "ordered (key_len * 8) 0 keys"
proof -
  have "key_less (key_len * 8) x y" if "x \<in> set keys" "y \<in> set keys" "x < y" for x y
    using key_less_bytes[OF that(3)] that(1,2) assms(2) by (metis mult.commute)
  from sorted_wrt_mono_rel[OF this assms(1)] have "sorted_wrt (key_less (key_len * 8)) keys" .
  then show ?thesis by (simp add: ordered_def)
qed

lemma ordered_depth:
  assumes "ordered D d xs" and "2 \<le> length xs"
  shows "d < D"
proof -
  from assms(2) obtain x y zs where "xs = x # y # zs" by (metis Suc_le_length_iff numeral_2_eq_2)
  then have xy: "x \<in> set xs" "y \<in> set xs" "sorted_wrt (key_less D) xs \<Longrightarrow> key_less D x y" by simp_all
  with assms(1) have less: "key_less D x y" and same: "\<forall>j<d. buf_bit x j = buf_bit y j" unfolding ordered_def by blast+
  from less obtain e where e: "e < D" "\<not> buf_bit x e" "buf_bit y e" unfolding key_less_def by blast
  from same e(2,3) have "\<not> e < d" by blast
  with e(1) show ?thesis by linarith
qed

text \<open>The bit at the depth splits the keys.\<close>

lemma ordered_split:
  assumes "ordered D d xs"
  shows "\<forall>x\<in>set (take (lefts xs d) xs). \<not> buf_bit x d" and "\<forall>x\<in>set (drop (lefts xs d) xs). buf_bit x d"
proof -
  show "\<forall>x\<in>set (take (lefts xs d) xs). \<not> buf_bit x d"
    unfolding lefts_def takeWhile_eq_take[symmetric] by (auto dest: set_takeWhileD)
  show "\<forall>x\<in>set (drop (lefts xs d) xs). buf_bit x d"
  proof (cases "drop (lefts xs d) xs")
    case (Cons y ys)
    have y: "buf_bit y d" using Cons hd_dropWhile[of "\<lambda>x. \<not> buf_bit x d" xs]
      unfolding lefts_def dropWhile_eq_drop[symmetric] by (metis list.distinct(1) list.sel(1))
    have "sorted_wrt (key_less D) (y # ys)" using sorted_wrt_drop[of _ xs "lefts xs d"] assms Cons unfolding ordered_def by metis
    moreover have sub: "set (y # ys) \<subseteq> set xs" using Cons set_drop_subset[of "lefts xs d" xs] by simp
    ultimately have "buf_bit z d" if z: "z \<in> set ys" for z
    proof -
      from z \<open>sorted_wrt (key_less D) (y # ys)\<close> obtain e where
        e: "\<forall>j<e. buf_bit y j = buf_bit z j" "\<not> buf_bit y e" "buf_bit z e" by (auto simp: key_less_def)
      have "\<forall>j<d. buf_bit y j = buf_bit z j" using assms z sub by (auto simp: ordered_def)
      then have "\<not> e < d" "e \<noteq> d" using e(2,3) y by auto
      then show ?thesis using e(1) y by simp
    qed
    with y Cons show ?thesis by simp
  qed simp
qed

lemma ordered_part:
  assumes "ordered D d xs" and "set ys \<subseteq> set xs" and "sorted_wrt (key_less D) ys" and "\<forall>y\<in>set ys. buf_bit y d = b"
  shows "ordered D (Suc d) ys"
proof -
  have "buf_bit x j = buf_bit y j" if "x \<in> set ys" "y \<in> set ys" "j < Suc d" for x y j
  proof (cases "j = d")
    case True
    then show ?thesis using assms(4) that(1,2) by blast
  next
    case False
    then have "j < d" "x \<in> set xs" "y \<in> set xs" using that assms(2) by auto
    then show ?thesis using assms(1) unfolding ordered_def by blast
  qed
  with assms(3) show ?thesis unfolding ordered_def by blast
qed

lemma ordered_parts:
  assumes "ordered D d xs" and "n = lefts xs d \<or> n = 0 \<and> lefts xs d = length xs"
  shows "ordered D (Suc d) (take n xs)" and "ordered D (Suc d) (drop n xs)"
proof -
  have s: "sorted_wrt (key_less D) (take k xs)" "sorted_wrt (key_less D) (drop k xs)" for k
    using assms(1) by (simp_all add: ordered_def sorted_wrt_take sorted_wrt_drop)
  have sub: "set (take k xs) \<subseteq> set xs" "set (drop k xs) \<subseteq> set xs" for k by (simp_all add: set_take_subset set_drop_subset)
  note parts = ordered_part[OF assms(1) sub(1) s(1)] ordered_part[OF assms(1) sub(2) s(2)]
  show "ordered D (Suc d) (take n xs)"
    using assms(2) parts(1)[of n False] ordered_split(1)[OF assms(1)] by (auto simp: ordered_def)
  show "ordered D (Suc d) (drop n xs)"
    using assms(2)
  proof
    assume "n = lefts xs d"
    then show ?thesis using parts(2)[of n True] ordered_split(2)[OF assms(1)] by simp
  next
    assume "n = 0 \<and> lefts xs d = length xs"
    then show ?thesis using parts(1)[of "length xs" False] ordered_split(1)[OF assms(1)] by simp
  qed
qed

section \<open>The code of an ordered array\<close>

definition split_of :: "bool \<Rightarrow> key list \<Rightarrow> nat \<Rightarrow> nat" where
  "split_of weak xs d = (if weak \<and> lefts xs d = length xs then 0 else lefts xs d)"

function trie_code :: "trie \<Rightarrow> nat \<Rightarrow> nat \<Rightarrow> nat \<Rightarrow> nat \<Rightarrow> key list \<Rightarrow> nat \<Rightarrow> bool list" where
  "trie_code tr D dest_base dest_keys_per_block off xs d =
     (if is_leaf dest_base dest_keys_per_block off (length xs) \<or> \<not> d < D then []
      else
        let left = split_of (tr_weak tr) xs d in
        split_code tr (length xs) left
        @ trie_code tr D dest_base dest_keys_per_block off (take left xs) (Suc d)
        @ trie_code tr D dest_base dest_keys_per_block (off + left) (drop left xs) (Suc d))"
  by pat_completeness auto
termination
  by (relation "measure (\<lambda>(tr, D, db, dk, off, xs, d). D - d)") auto

declare trie_code.simps [simp del]

lemma split_of_parts:
  assumes "ordered D d xs"
  shows "split_of weak xs d \<le> length xs"
    and "ordered D (Suc d) (take (split_of weak xs d) xs)" and "ordered D (Suc d) (drop (split_of weak xs d) xs)"
  using ordered_parts[OF assms, of "split_of weak xs d"] lefts_le[of xs d] by (auto simp: split_of_def)

lemma split_of_ok:
  assumes "trie_ok tr" and "\<not> is_leaf db dk off (length xs)" and "length xs < 2 ^ 62"
  shows "split_ok tr (length xs) (split_of (tr_weak tr) xs d)"
proof -
  have "2 \<le> length xs" using assms(2) by (auto simp: is_leaf_def)
  then show ?thesis using assms(1,3) lefts_le[of xs d] by (auto simp: split_ok_def symbols_def split_of_def)
qed

lemma not_leaf_depth: "\<not> is_leaf db dk off (length xs) \<Longrightarrow> ordered D d xs \<Longrightarrow> d < D"
  by (rule ordered_depth) (auto simp: is_leaf_def)

lemma trie_code_split:
  assumes "\<not> is_leaf db dk off (length xs)" and "ordered D d xs"
  shows "trie_code tr D db dk off xs d = split_code tr (length xs) (split_of (tr_weak tr) xs d)
      @ trie_code tr D db dk off (take (split_of (tr_weak tr) xs d) xs) (Suc d)
      @ trie_code tr D db dk (off + split_of (tr_weak tr) xs d) (drop (split_of (tr_weak tr) xs d) xs) (Suc d)"
  using assms not_leaf_depth[OF assms] trie_code.simps[of tr D db dk off xs d] by (simp add: Let_def)

lemma left_loop_ok:
  assumes "off + n \<le> length arr" and "\<forall>k\<in>set arr. length k = key_len" and "d < key_len * 8"
  shows "left \<le> n \<Longrightarrow> left_loop arr off n d left = Inr (left + lefts (drop left (take n (drop off arr))) d)"
proof (induction "n - left" arbitrary: left)
  case 0
  then have "left = n" by linarith
  then show ?case using left_loop.simps[of arr off n d n] by (simp add: lefts_def)
next
  case (Suc k)
  then have left: "left < n" "off + left < length arr" using assms(1) by linarith+
  let ?x = "arr ! (off + left)"
  have x: "drop left (take n (drop off arr)) = ?x # drop (Suc left) (take n (drop off arr))"
    using Cons_nth_drop_Suc[of left "take n (drop off arr)"] left(1) assms(1) by simp
  have "d < buf_len ?x" using assms(2,3) left(2) by (simp add: buf_len_def mult.commute)
  from ba_get_bit[OF block_types(1) this] have get: "rbind (vec_at arr (int (off + left))) (\<lambda>key. ba_get key d) = Inr (buf_bit ?x d)"
    using vec_at_int[OF left(2)] by simp
  have "k = n - Suc left" "Suc left \<le> n" using Suc.hyps(2) left(1) by linarith+
  note IH = Suc.hyps(1)[OF this]
  show ?case unfolding left_loop.simps[of arr off n d left] get x
    using left(1) IH by (simp add: lefts_def)
qed

text \<open>Encoding appends the code.\<close>

lemma encode_rec_ok:
  assumes tr: "trie_ok tr" and keys: "\<forall>k\<in>set arr. length k = key_len"
  shows "off + n \<le> length arr \<Longrightarrow> n < 2 ^ 62 \<Longrightarrow> ordered (key_len * 8) d (take n (drop off arr)) \<Longrightarrow> bv_ok bv
    \<Longrightarrow> \<exists>bv'. encode_rec tr arr key_len db dk off n d bv = Inr bv' \<and> bv_ok bv'
        \<and> bv_bits bv' = bv_bits bv @ trie_code tr (key_len * 8) db dk off (take n (drop off arr)) d"
proof (induction "key_len * 8 - d" arbitrary: d off n bv rule: less_induct)
  case less
  let ?xs = "take n (drop off arr)" and ?D = "key_len * 8"
  have len: "length ?xs = n" using less.prems(1) by simp
  show ?case
  proof (cases "is_leaf db dk off n")
    case True
    then show ?thesis using less.prems(4) len
      by (simp add: encode_rec.simps[of tr arr key_len db dk off n d bv] trie_code.simps[of tr ?D db dk off ?xs d])
  next
    case False
    then have leaf: "\<not> is_leaf db dk off (length ?xs)" using len by simp
    note d = not_leaf_depth[OF leaf less.prems(3)]
    obtain l where l: "l = split_of (tr_weak tr) ?xs d" by blast
    note parts = split_of_parts[OF less.prems(3), of "tr_weak tr", folded l]
    have ln: "l \<le> n" using parts(1) len by simp
    have loop: "left_loop arr off n d 0 = Inr (lefts ?xs d)" using left_loop_ok[OF less.prems(1) keys d, of 0] by simp
    have l_def: "(if tr_weak tr \<and> lefts ?xs d = n then 0 else lefts ?xs d) = l" using len by (simp add: l split_of_def)
    have "split_ok tr n l" using split_of_ok[OF tr leaf, of d] less.prems(2) len l by simp
    from encode_split_ok[OF this less.prems(4)] obtain b1 where
      b1: "encode_split tr bv n l = Inr b1" "bv_ok b1" "bv_bits b1 = bv_bits bv @ split_code tr n l" by blast
    have smaller: "?D - Suc d < ?D - d" using d by linarith
    have subs: "take l (drop off arr) = take l ?xs" "take (n - l) (drop (off + l) arr) = drop l ?xs"
      using ln by (simp_all add: drop_take min_def add.commute)
    have "off + l \<le> length arr" "l < 2 ^ 62" using ln less.prems(1,2) by linarith+
    from less.hyps[OF smaller this _ b1(2)] parts(2) obtain b2 where
      b2: "encode_rec tr arr key_len db dk off l (Suc d) b1 = Inr b2" "bv_ok b2"
        "bv_bits b2 = bv_bits b1 @ trie_code tr ?D db dk off (take l ?xs) (Suc d)" unfolding subs by blast
    have "off + l + (n - l) \<le> length arr" "n - l < 2 ^ 62" using ln less.prems(1,2) by linarith+
    from less.hyps[OF smaller this _ b2(2)] parts(3) obtain b3 where
      b3: "encode_rec tr arr key_len db dk (off + l) (n - l) (Suc d) b2 = Inr b3" "bv_ok b3"
        "bv_bits b3 = bv_bits b2 @ trie_code tr ?D db dk (off + l) (drop l ?xs) (Suc d)" unfolding subs by blast
    have "encode_rec tr arr key_len db dk off n d bv = Inr b3"
      using False d loop l_def b1(1) b2(1) b3(1)
      unfolding encode_rec.simps[of tr arr key_len db dk off n d bv] by (simp only: if_False not_not if_True not_True_eq_False sum.case Let_def Suc_eq_plus1[symmetric])
    moreover have "trie_code tr ?D db dk off ?xs d = split_code tr n l @ trie_code tr ?D db dk off (take l ?xs) (Suc d)
        @ trie_code tr ?D db dk (off + l) (drop l ?xs) (Suc d)"
      using trie_code_split[OF leaf less.prems(3), of tr] unfolding l[symmetric] len .
    ultimately show ?thesis using b1(3) b2(3) b3(2,3) by (intro exI[of _ b3]) simp
  qed
qed

text \<open>Skipping reads all of the code.\<close>

lemma skip_rec_ok:
  assumes tr: "trie_ok tr"
  shows "length xs < 2 ^ 62 \<Longrightarrow> ordered D d xs \<Longrightarrow> D - d < fuel \<Longrightarrow> holds_at bv i (trie_code tr D db dk off xs d)
    \<Longrightarrow> skip_rec fuel tr bv db dk off (length xs) i = Inr (i + length (trie_code tr D db dk off xs d))"
proof (induction fuel arbitrary: xs d off i)
  case (Suc fuel)
  show ?case
  proof (cases "is_leaf db dk off (length xs)")
    case True
    then show ?thesis by (simp add: trie_code.simps[of tr D db dk off xs d])
  next
    case False
    note d = not_leaf_depth[OF False Suc.prems(2)]
    obtain l where l: "l = split_of (tr_weak tr) xs d" by blast
    note parts = split_of_parts[OF Suc.prems(2), of "tr_weak tr", folded l]
    obtain c1 c2 c3 where
      c: "c1 = split_code tr (length xs) l" "c2 = trie_code tr D db dk off (take l xs) (Suc d)"
        "c3 = trie_code tr D db dk (off + l) (drop l xs) (Suc d)" by blast
    have code: "trie_code tr D db dk off xs d = c1 @ c2 @ c3"
      using trie_code_split[OF False Suc.prems(2), of tr] unfolding l[symmetric] c .
    have h: "holds_at bv i c1" "holds_at bv (i + length c1) c2" "holds_at bv (i + length c1 + length c2) c3"
      using Suc.prems(4) unfolding code holds_at_append by simp_all
    have "split_ok tr (length xs) l" using split_of_ok[OF tr False Suc.prems(1)] l by simp
    from decode_split_ok[OF this, folded c, OF h(1)] have s: "decode_split tr bv (length xs) i = Inr (l, i + length c1)" .
    have fuel: "D - Suc d < fuel" using d Suc.prems(3) by linarith
    have len: "length (take l xs) = l" "length (drop l xs) = length xs - l" using parts(1) by simp_all
    have less: "length (take l xs) < 2 ^ 62" "length (drop l xs) < 2 ^ 62" using Suc.prems(1) parts(1) len by linarith+
    have "skip_rec fuel tr bv db dk off l (i + length c1) = Inr (i + length c1 + length c2)"
      using Suc.IH[OF less(1) parts(2) fuel h(2)[unfolded c(2)]] unfolding len c(2) .
    moreover have "skip_rec fuel tr bv db dk (off + l) (length xs - l) (i + length c1 + length c2) = Inr (i + length c1 + length c2 + length c3)"
      using Suc.IH[OF less(2) parts(3) fuel h(3)[unfolded c(3)]] unfolding len c(3) .
    ultimately show ?thesis using False s by (simp add: code)
  qed
qed simp

text \<open>
  Finding a key of the array gives its place, or one before it that is in the same block; any other
  key gives some place.
\<close>

lemma leaf_block: "is_leaf db dk off n \<Longrightarrow> i < n \<Longrightarrow> (db + off) div dk = (db + off + i) div dk"
proof -
  assume leaf: "is_leaf db dk off n" and i: "i < n"
  have "(db + off) div dk \<le> (db + off + i) div dk" "(db + off + i) div dk \<le> (db + off + n - 1) div dk"
    using i by (auto intro!: div_le_mono)
  moreover have "n \<le> 1 \<or> (db + off) div dk = (db + off + n - 1) div dk" using leaf by (auto simp: is_leaf_def)
  moreover have "n \<le> 1 \<Longrightarrow> i = 0" using i by linarith
  ultimately show ?thesis by fastforce
qed

lemma locate_rec_ok:
  assumes tr: "trie_ok tr" and key: "key_len \<le> length key"
  shows "length xs < 2 ^ 62 \<Longrightarrow> ordered (key_len * 8) d xs \<Longrightarrow> holds_at bv i (trie_code tr (key_len * 8) db dk off xs d)
    \<Longrightarrow> \<exists>r i'. locate_rec tr bv key key_len db dk off (length xs) d i = Inr (r, i') \<and> r \<le> length xs
        \<and> (\<forall>j<length xs. xs ! j = take key_len key \<longrightarrow> r \<le> j \<and> (db + off + r) div dk = (db + off + j) div dk)"
proof (induction "key_len * 8 - d" arbitrary: d off xs i rule: less_induct)
  case less
  let ?D = "key_len * 8"
  show ?case
  proof (cases "is_leaf db dk off (length xs)")
    case True
    then show ?thesis using leaf_block[OF True]
      by (simp add: locate_rec.simps[of tr bv key key_len db dk off "length xs" d i])
  next
    case False
    note d = not_leaf_depth[OF False less.prems(2)]
    obtain l where l: "l = split_of (tr_weak tr) xs d" by blast
    note parts = split_of_parts[OF less.prems(2), of "tr_weak tr", folded l]
    obtain c1 c2 c3 where
      c: "c1 = split_code tr (length xs) l" "c2 = trie_code tr ?D db dk off (take l xs) (Suc d)"
        "c3 = trie_code tr ?D db dk (off + l) (drop l xs) (Suc d)" by blast
    have code: "trie_code tr ?D db dk off xs d = c1 @ c2 @ c3"
      using trie_code_split[OF False less.prems(2), of tr] unfolding l[symmetric] c .
    have h: "holds_at bv i c1" "holds_at bv (i + length c1) c2" "holds_at bv (i + length c1 + length c2) c3"
      using less.prems(3) unfolding code holds_at_append by simp_all
    have "split_ok tr (length xs) l" using split_of_ok[OF tr False less.prems(1)] l by simp
    from decode_split_ok[OF this, folded c, OF h(1)] have s: "decode_split tr bv (length xs) i = Inr (l, i + length c1)" .
    have "d < buf_len key" using d key by (simp add: buf_len_def)
    from ba_get_bit[OF block_types(1) this] have get: "ba_get key d = Inr (buf_bit key d)" .
    have same: "buf_bit (take key_len key) d = buf_bit key d"
      using d key less_mult_imp_div_less[of d key_len 8] by (simp add: buf_bit_def)
    have smaller: "?D - Suc d < ?D - d" using d by linarith
    have len: "length (take l xs) = l" "length (drop l xs) = length xs - l" using parts(1) by simp_all
    have less62: "length (take l xs) < 2 ^ 62" "length (drop l xs) < 2 ^ 62" using less.prems(1) parts(1) len by linarith+
    note step = locate_rec.simps[of tr bv key key_len db dk off "length xs" d i] 
    show ?thesis
    proof (cases "\<not> buf_bit key d \<and> (\<not> tr_weak tr \<or> tr_weak tr \<and> l \<noteq> 0)")
      case left: True
      from less.hyps[OF smaller less62(1) parts(2) h(2)[unfolded c(2)], unfolded len] obtain r i' where
        r: "locate_rec tr bv key key_len db dk off l (Suc d) (i + length c1) = Inr (r, i')" "r \<le> l"
          "\<And>j. j < l \<Longrightarrow> take l xs ! j = take key_len key \<Longrightarrow> r \<le> j \<and> (db + off + r) div dk = (db + off + j) div dk" by blast
      have "locate_rec tr bv key key_len db dk off (length xs) d i = Inr (r, i')"
        unfolding step using False d s get left r(1)
        by (simp only: if_False if_True simp_thms sum.case prod.case Suc_eq_plus1[symmetric])
      moreover have "r \<le> j \<and> (db + off + r) div dk = (db + off + j) div dk" if j: "j < length xs" "xs ! j = take key_len key" for j
      proof (cases "j < l")
        case True
        then show ?thesis using r(3)[OF True] j by simp
      next
        case False
        have "lefts xs d = l" using left False j(1) unfolding l split_of_def by (auto split: if_splits)
        moreover have "drop l xs ! (j - l) = take key_len key" "j - l < length (drop l xs)" using False j parts(1) by simp_all
        then have "take key_len key \<in> set (drop l xs)" by (metis nth_mem)
        ultimately show ?thesis using ordered_split(2)[OF less.prems(2)] left same by blast
      qed
      ultimately show ?thesis using r(2) parts(1) by (intro exI[of _ r] exI[of _ i']) simp
    next
      case right: False
      have "?D - Suc d < ?D - d" using d by linarith
      from skip_rec_ok[OF tr less62(1) parts(2) this h(2)[unfolded c(2)], unfolded len, folded c(2)]
      have skip: "skip_rec (?D - d) tr bv db dk off l (i + length c1) = Inr (i + length c1 + length c2)" .
      from less.hyps[OF smaller less62(2) parts(3) h(3)[unfolded c(3)], unfolded len] obtain r i' where
        r: "locate_rec tr bv key key_len db dk (off + l) (length xs - l) (Suc d) (i + length c1 + length c2) = Inr (r, i')"
          "r \<le> length xs - l"
          "\<And>j. j < length xs - l \<Longrightarrow> drop l xs ! j = take key_len key \<Longrightarrow> r \<le> j \<and> (db + (off + l) + r) div dk = (db + (off + l) + j) div dk"
        by blast
      have "locate_rec tr bv key key_len db dk off (length xs) d i = Inr (l + r, i')"
        unfolding step using False d s get right skip r(1)
        by (simp only: if_False if_True simp_thms sum.case prod.case Suc_eq_plus1[symmetric])
      moreover have "l + r \<le> j \<and> (db + off + (l + r)) div dk = (db + off + j) div dk" if j: "j < length xs" "xs ! j = take key_len key" for j
      proof (cases "j < l")
        case True
        then have "take key_len key \<in> set (take l xs)" using j by (metis in_set_conv_nth len(1) nth_take)
        moreover have "lefts xs d = l" using True unfolding l split_of_def by (auto split: if_splits)
        ultimately have "\<not> buf_bit key d" using ordered_split(1)[OF less.prems(2)] same by blast
        then show ?thesis using right True by auto
      next
        case False
        then have "j - l < length xs - l" "drop l xs ! (j - l) = take key_len key" using j parts(1) by simp_all
        note place = r(3)[OF this]
        have "db + (off + l) + r = db + off + (l + r)" "db + (off + l) + (j - l) = db + off + j" using False by linarith+
        with place have "(db + off + (l + r)) div dk = (db + off + j) div dk" by metis
        moreover have "l + r \<le> j" using place False by linarith
        ultimately show ?thesis by blast
      qed
      ultimately show ?thesis using r(2) parts(1) by (intro exI[of _ "l + r"] exI[of _ i']) simp
    qed
  qed
qed

section \<open>The index finds its keys\<close>

lemma trie_code_nonempty:
  assumes "trie_ok tr" and "\<not> is_leaf db dk off (length xs)" and "ordered D d xs" and "length xs < 2 ^ 62"
  shows "trie_code tr D db dk off xs d \<noteq> []"
  unfolding trie_code_split[OF assms(2,3)] using split_code_nonempty[OF split_of_ok[OF assms(1,2,4)]] by simp

lemma new_entropy_trie_ok:
  obtains et where "new_entropy_trie mem n_mem key_len = Inr et" "bv_ok (et_bits et)" "bv_bits (et_bits et) = []"
    "trie_ok (et_trie et)" "et_key_len et = key_len" "et_pending et = []" "et_count et = 0"
proof -
  obtain bv where bv: "bv_new = Inr bv" "bv_ok bv" "bv_bits bv = []" using bv_new_ok by blast
  obtain tr where tr: "new_trie mem False 16 = Inr tr" "trie_ok tr" using new_trie_ok[of 16 mem False] by auto
  show ?thesis by (rule that[of "\<lparr>et_bits = bv, et_trie = tr, et_key_len = key_len, et_pending = [], et_count = 0, et_n = n_mem\<rparr>"])
    (simp_all add: new_entropy_trie_def bv tr)
qed

lemma inserts_ok:
  "\<forall>k\<in>set keys. et_key_len et \<le> length k \<Longrightarrow> fold_res (\<lambda>et k. et_insert k et) et keys
    = Inr (et\<lparr>et_pending := et_pending et @ map (take (et_key_len et)) keys, et_count := et_count et + length keys\<rparr>)"
  by (induction keys arbitrary: et) (simp_all add: et_insert_def)

text \<open>A flush appends the code of the pending keys.\<close>

lemma pending_flush_ok:
  assumes "trie_ok (et_trie et)" and "bv_ok (et_bits et)" and "et_count et = length (et_pending et)"
    and "\<forall>k\<in>set (et_pending et). length k = et_key_len et" and "sorted_wrt (<) (et_pending et)"
    and "2 \<le> length (et_pending et)" and "length (et_pending et) < 2 ^ 62"
  shows "\<exists>bv. et_flush et = Inr (et\<lparr>et_bits := bv, et_pending := [], et_n := length (et_pending et), et_count := 0\<rparr>)
    \<and> bv_ok bv \<and> bv_bits bv = bv_bits (et_bits et) @ trie_code (et_trie et) (et_key_len et * 8) 0 1 0 (et_pending et) 0"
proof -
  let ?ks = "et_pending et"
  note ord = ordered_bytes[OF assms(5,4)]
  have "0 + length ?ks \<le> length ?ks" "ordered (et_key_len et * 8) 0 (take (length ?ks) (drop 0 ?ks))" using ord by simp_all
  from encode_rec_ok[OF assms(1,4) this(1) assms(7) this(2) assms(2), of 0 1] obtain bv where
    bv: "encode_rec (et_trie et) ?ks (et_key_len et) 0 1 0 (length ?ks) 0 (et_bits et) = Inr bv" "bv_ok bv"
      "bv_bits bv = bv_bits (et_bits et) @ trie_code (et_trie et) (et_key_len et * 8) 0 1 0 ?ks 0" by auto
  have "\<not> is_leaf 0 1 0 (length ?ks)" using assms(6) by (auto simp: is_leaf_def)
  from trie_code_nonempty[OF assms(1) this ord assms(7)] have "bv_bits bv \<noteq> []" using bv(3) by simp
  from bv_compact_ok[OF bv(2) this] obtain bv' where bv': "bv_compact bv = Inr bv'" "bv_ok bv'" "bv_bits bv' = bv_bits bv" by blast
  show ?thesis using bv(1,3) bv' assms(3) by (intro exI[of _ bv']) (simp add: et_flush_def trie_encode_def)
qed

text \<open>Keys are inserted as they are in memory, and the bytes that belong to them count.\<close>

definition insert_keys :: "key list \<Rightarrow> entropy_trie \<Rightarrow> entropy_trie res" where
  "insert_keys keys et = fold_res (\<lambda>et k. et_insert k et) et keys"

definition keys_ok :: "nat \<Rightarrow> key list \<Rightarrow> bool" where
  "keys_ok key_len keys \<longleftrightarrow> sorted_wrt (<) (map (take key_len) keys) \<and> (\<forall>k\<in>set keys. key_len \<le> length k)
     \<and> 2 \<le> length keys \<and> length keys < 2 ^ 62"

text \<open>The index holds a code of keys at the beginning of its bits.\<close>

definition index_of :: "key list \<Rightarrow> entropy_trie \<Rightarrow> bool" where
  "index_of keys et \<longleftrightarrow>
     trie_ok (et_trie et) \<and> et_pending et = [] \<and> et_count et = 0 \<and> et_n et = length keys \<and> keys_ok (et_key_len et) keys
   \<and> holds_at (et_bits et) 0 (trie_code (et_trie et) (et_key_len et * 8) 0 1 0 (map (take (et_key_len et)) keys) 0)"

lemma insert_flush_ok:
  assumes "trie_ok (et_trie et)" and "bv_ok (et_bits et)" and "et_pending et = []" and "et_count et = 0"
    and "keys_ok (et_key_len et) keys"
  shows "\<exists>bv. rbind (insert_keys keys et) et_flush = Inr (et\<lparr>et_bits := bv, et_n := length keys\<rparr>) \<and> bv_ok bv
    \<and> bv_bits bv = bv_bits (et_bits et) @ trie_code (et_trie et) (et_key_len et * 8) 0 1 0 (map (take (et_key_len et)) keys) 0"
proof -
  let ?ks = "map (take (et_key_len et)) keys"
  obtain et1 where et1: "et1 = et\<lparr>et_pending := ?ks, et_count := length keys\<rparr>" by blast
  have ins: "insert_keys keys et = Inr et1"
    using inserts_ok[of keys et] assms(3-5) by (simp add: et1 keys_ok_def insert_keys_def)
  have "\<exists>bv. et_flush et1 = Inr (et1\<lparr>et_bits := bv, et_pending := [], et_n := length (et_pending et1), et_count := 0\<rparr>)
    \<and> bv_ok bv \<and> bv_bits bv = bv_bits (et_bits et1) @ trie_code (et_trie et1) (et_key_len et1 * 8) 0 1 0 (et_pending et1) 0"
    by (rule pending_flush_ok) (use assms in \<open>auto simp: et1 keys_ok_def\<close>)
  then obtain bv where "et_flush et1 = Inr (et1\<lparr>et_bits := bv, et_pending := [], et_n := length (et_pending et1), et_count := 0\<rparr>)"
    "bv_ok bv" "bv_bits bv = bv_bits (et_bits et1) @ trie_code (et_trie et1) (et_key_len et1 * 8) 0 1 0 (et_pending et1) 0" by blast
  moreover have "et1\<lparr>et_bits := bv, et_pending := [], et_n := length (et_pending et1), et_count := 0\<rparr> = et\<lparr>et_bits := bv, et_n := length keys\<rparr>"
    using assms(3,4) by (simp add: et1)
  ultimately show ?thesis using ins by (intro exI[of _ bv]) (simp add: et1)
qed

lemma index_built:
  assumes "keys_ok key_len keys"
  shows "\<exists>et. rbind (new_entropy_trie mem n_mem key_len) (\<lambda>et. rbind (insert_keys keys et) et_flush) = Inr et
    \<and> index_of keys et \<and> et_key_len et = key_len"
proof -
  obtain et where et: "new_entropy_trie mem n_mem key_len = Inr et" "bv_ok (et_bits et)" "bv_bits (et_bits et) = []"
    "trie_ok (et_trie et)" "et_key_len et = key_len" "et_pending et = []" "et_count et = 0"
    by (rule new_entropy_trie_ok)
  with insert_flush_ok[of et keys] assms obtain bv where
    "rbind (insert_keys keys et) et_flush = Inr (et\<lparr>et_bits := bv, et_n := length keys\<rparr>)" "bv_ok bv"
    "bv_bits bv = trie_code (et_trie et) (key_len * 8) 0 1 0 (map (take key_len) keys) 0" by auto
  then show ?thesis using et assms holds_at_whole[of bv]
    by (intro exI[of _ "et\<lparr>et_bits := bv, et_n := length keys\<rparr>"] conjI) (simp_all add: index_of_def)
qed

lemma index_locates:
  assumes "index_of keys et" and "et_key_len et \<le> length key"
  shows "\<exists>r. et_locate key et = Inr r \<and> r \<le> length keys
    \<and> (\<forall>i<length keys. take (et_key_len et) (keys ! i) = take (et_key_len et) key \<longrightarrow> r = i)"
proof -
  let ?xs = "map (take (et_key_len et)) keys"
  have ok: "trie_ok (et_trie et)" "et_n et = length keys" "length ?xs < 2 ^ 62"
    "holds_at (et_bits et) 0 (trie_code (et_trie et) (et_key_len et * 8) 0 1 0 ?xs 0)"
    using assms(1) by (simp_all add: index_of_def keys_ok_def)
  have "ordered (et_key_len et * 8) 0 ?xs"
    by (rule ordered_bytes) (use assms(1) in \<open>auto simp: index_of_def keys_ok_def\<close>)
  from locate_rec_ok[OF ok(1) assms(2) ok(3) this ok(4)] ok(2) show ?thesis
    by (auto simp: et_locate_def trie_locate_def)
qed

lemma index_locates_keys: "index_of keys et \<Longrightarrow> i < length keys \<Longrightarrow> et_locate (keys ! i) et = Inr i"
  using index_locates[of keys et "keys ! i"] by (auto simp: index_of_def keys_ok_def)

text \<open>A second flush appends to the code that is there, and locating begins with that.\<close>

lemma second_flush:
  assumes "index_of keys et" and "keys_ok (et_key_len et) keys'" and "length keys' = length keys"
  shows "\<exists>et'. rbind (insert_keys keys' et) et_flush = Inr et' \<and> index_of keys et'"
proof -
  have ok: "trie_ok (et_trie et)" "bv_ok (et_bits et)" "et_pending et = []" "et_count et = 0"
    using assms(1) by (simp_all add: index_of_def holds_at_def)
  from insert_flush_ok[OF ok assms(2)] obtain bv where
    bv: "rbind (insert_keys keys' et) et_flush = Inr (et\<lparr>et_bits := bv, et_n := length keys'\<rparr>)" "bv_ok bv"
      "bv_bits bv = bv_bits (et_bits et) @ trie_code (et_trie et) (et_key_len et * 8) 0 1 0 (map (take (et_key_len et)) keys') 0" by blast
  have "holds_at bv 0 code" if "holds_at (et_bits et) 0 code" for code
    using that bv(2,3) by (auto simp: holds_at_def nth_append)
  then show ?thesis using bv(1) assms(1,3) by (auto simp: index_of_def)
qed

text \<open>With one key or none there is nothing to encode, and giving the room back fails.\<close>

lemma flush_few:
  assumes "length keys \<le> 1" and "\<forall>k\<in>set keys. key_len \<le> length k"
  shows "rbind (new_entropy_trie mem n_mem key_len) (\<lambda>et. rbind (insert_keys keys et) et_flush) = Inl DoubleFree"
proof -
  obtain et where et: "new_entropy_trie mem n_mem key_len = Inr et" "bv_ok (et_bits et)" "bv_bits (et_bits et) = []"
    "et_key_len et = key_len" "et_pending et = []" "et_count et = 0"
    by (rule new_entropy_trie_ok)
  have "insert_keys keys et = Inr (et\<lparr>et_pending := map (take key_len) keys, et_count := length keys\<rparr>)"
    using inserts_ok[of keys et] assms(2) et(4-6) by (simp add: insert_keys_def)
  moreover have "is_leaf 0 1 0 (length keys)" using assms(1) by (auto simp: is_leaf_def)
  then have "encode_rec tr ks key_len 0 1 0 (length keys) 0 bv = Inr bv" for tr ks bv
    unfolding encode_rec.simps[of tr ks key_len 0 1 0 "length keys" 0 bv] by (simp only: if_True)
  ultimately show ?thesis using et bv_compact_empty[OF et(2,3)] by (simp add: et_flush_def trie_encode_def)
qed

lemma insert_strings: "fold_res (\<lambda>et s. et_insert_string s et) et strs = insert_keys (map (\<lambda>s. s @ [0]) strs) et"
  unfolding insert_keys_def by (induction strs arbitrary: et) (simp_all add: et_insert_string_def)

section \<open>Blocks of a destination\<close>

lemma block_locate:
  assumes "trie_ok tr" and "bv_ok out_buf" and "sorted_wrt (<) keys" and "\<forall>k\<in>set keys. length k = key_len"
    and "length keys < 2 ^ 62"
  shows "\<exists>out'. trie_encode tr out_buf keys key_len 0 (length keys) db dk 0 = Inr out'
    \<and> (\<forall>i<length keys. \<exists>r it. trie_locate tr out' (bv_size out_buf) (keys ! i) key_len 0 (length keys) db dk 0 = Inr (r, it)
         \<and> r \<le> i \<and> (db + r) div dk = (db + i) div dk)"
proof -
  note ord = ordered_bytes[OF assms(3,4)]
  have "0 + length keys \<le> length keys" "ordered (key_len * 8) 0 (take (length keys) (drop 0 keys))" using ord by simp_all
  from encode_rec_ok[OF assms(1,4) this(1) assms(5) this(2) assms(2), of db dk] obtain bv where
    bv: "encode_rec tr keys key_len db dk 0 (length keys) 0 out_buf = Inr bv" "bv_ok bv"
      "bv_bits bv = bv_bits out_buf @ trie_code tr (key_len * 8) db dk 0 keys 0" by auto
  have "holds_at bv (bv_size out_buf) (trie_code tr (key_len * 8) db dk 0 keys 0)"
    unfolding holds_at_def bv(3) length_bv_bits[OF assms(2), symmetric] using bv(2) by (simp add: nth_append)
  note find = locate_rec_ok[OF assms(1) _ assms(5) ord this]
  have "\<exists>r it. trie_locate tr bv (bv_size out_buf) (keys ! i) key_len 0 (length keys) db dk 0 = Inr (r, it)
      \<and> r \<le> i \<and> (db + r) div dk = (db + i) div dk" if "i < length keys" for i
  proof -
    have "length (keys ! i) = key_len" using assms(4) that by simp
    with find[of "keys ! i"] that show ?thesis by (auto simp: trie_locate_def)
  qed
  with bv(1) show ?thesis by (auto simp: trie_encode_def)
qed

section \<open>Decoding with the table\<close>

lemma table_decodes:
  assumes "2 \<le> length freqs" and "length freqs \<le> 31"
  shows "\<exists>h. huffman_of_freqs mem freqs = Inr h \<and> (\<forall>v < 2 ^ rt_max_length (hf_rev_table h).
      \<exists>s len. rt_symbol (hf_rev_table h) v = Inr s \<and> rt_length (hf_rev_table h) v = Inr len
      \<and> (\<forall>bv i. holds_at bv i (index_bits (rt_max_length (hf_rev_table h)) v 0 (rt_max_length (hf_rev_table h)))
            \<longrightarrow> hf_decode h bv i = Inr (s, i + len)))"
proof -
  have "freqs \<noteq> []" using assms(1) by auto
  from huffman_of_freqs_ok[OF this assms(2)] obtain h where h: "huffman_of_freqs mem freqs = Inr h" "hf_ok (length freqs) h" by blast
  with table_decode[OF h(2) assms(1)] show ?thesis by blast
qed

end
