(* ===== verification/OldTokenizer.thy ===== *)
theory OldTokenizer
  imports Tokenizer
begin

text \<open>
  The older tokenizer (\<^verbatim>\<open>src/src/TokenizerImpl.h\<close>, \<^verbatim>\<open>src/src/TokenizerImpl.cpp\<close>), which the makefile
  builds and the tests use.  It delivers every word, short ones too.
\<close>

section \<open>State and operations\<close>

record old_tokenizer =
  ot_string :: bytes
  ot_offset :: nat
  ot_token :: bytes

definition new_old_tokenizer :: old_tokenizer where
  "new_old_tokenizer = \<lparr>ot_string = [], ot_offset = 0, ot_token = []\<rparr>"

definition ot_setString :: "bytes \<Rightarrow> bytes \<Rightarrow> old_tokenizer \<Rightarrow> old_tokenizer" where
  "ot_setString str field t = t\<lparr>ot_string := str, ot_token := [], ot_offset := 0\<rparr>"

text \<open>The comparisons are those of \<open>char\<close>, which has a sign.\<close>

definition ot_char :: "u8 \<Rightarrow> bool" where
  "ot_char c \<longleftrightarrow> (if sint c \<ge> 97 then sint c \<le> 122 else sint c \<ge> 48 \<and> sint c \<le> 57)"

function ot_loop :: "old_tokenizer \<Rightarrow> (bool \<times> old_tokenizer) res" where
  "ot_loop t =
     (if ot_offset t = length (ot_string t) then Inr (length (ot_token t) > 0, t)
      else if ot_offset t < length (ot_string t) then
        let c = ot_string t ! ot_offset t OR 0x20;
            t1 = t\<lparr>ot_offset := ot_offset t + 1\<rparr> in
        if ot_char c then ot_loop (t1\<lparr>ot_token := ot_token t1 @ [c]\<rparr>)
        else if length (ot_token t1) > 0 then Inr (True, t1)
        else ot_loop t1
      else Inl OutOfBounds)"
  by pat_completeness auto
termination by (relation "measure (\<lambda>t. length (ot_string t) - ot_offset t)") auto

declare ot_loop.simps [simp del]

definition ot_nextToken :: "old_tokenizer \<Rightarrow> (bool \<times> old_tokenizer) res" where
  "ot_nextToken t = ot_loop (t\<lparr>ot_token := []\<rparr>)"

definition ot_getToken :: "old_tokenizer \<Rightarrow> bytes" where
  "ot_getToken t = ot_token t"

section \<open>The loop of a caller\<close>

lemma ot_loop_string:
  "ot_loop t = Inr (b, t') \<Longrightarrow> ot_string t' = ot_string t \<and> ot_offset t \<le> ot_offset t'
     \<and> ot_offset t' \<le> max (ot_offset t) (length (ot_string t)) \<and> (b \<longrightarrow> ot_token t \<noteq> [] \<or> ot_offset t < ot_offset t')"
proof (induction t rule: ot_loop.induct)
  case (1 t)
  note IH = 1(1)[OF _ _ refl refl] 1(2)[OF _ _ refl refl]
  from 1(3) IH show ?case
    by (simp add: ot_loop.simps[of t] Let_def split: if_splits) auto
qed

function ot_for_tokens :: "(bytes \<Rightarrow> 'a \<Rightarrow> 'a res) \<Rightarrow> old_tokenizer \<Rightarrow> 'a \<Rightarrow> ('a \<times> old_tokenizer) res" where
  "ot_for_tokens body t a =
     (case ot_nextToken t of
        Inl e \<Rightarrow> Inl e
      | Inr (more_tokens, t') \<Rightarrow>
          if more_tokens then
            (case body (ot_getToken t') a of Inl e \<Rightarrow> Inl e | Inr a' \<Rightarrow> ot_for_tokens body t' a')
          else Inr (a, t'))"
  by pat_completeness auto
termination
proof (relation "measure (\<lambda>(f, t, a). length (ot_string t) - ot_offset t)", goal_cases)
  case (2 body t a y b t' a')
  then have "ot_loop (t\<lparr>ot_token := []\<rparr>) = Inr (True, t')" by (simp add: ot_nextToken_def)
  from ot_loop_string[OF this] show ?case by (auto simp: max_def split: if_splits)
qed simp

declare ot_for_tokens.simps [simp del]

section \<open>It delivers the words\<close>

text \<open>With the sixth bit set there are no capital letters left, and bytes from 128 on are negative.\<close>

lemma ot_char_word: "ot_char (folded c) = word_char (folded c)"
proof -
  obtain f where f: "f = folded c" by blast
  have "bit f 5" unfolding f folded_def bit_or_iff by (simp add: bit_numeral_word_iff)
  then have "bit (unat f) 5" by transfer (simp add: bit_take_bit_iff bit_nat_iff)
  then have odd: "odd (unat f div 32)" by (simp add: bit_iff_odd)
  have "65 \<le> n \<and> n \<le> 90 \<Longrightarrow> n div 32 = 2" for n :: nat by (rule div_nat_eqI) simp_all
  with odd have upper: "\<not> (65 \<le> unat f \<and> unat f \<le> 90)" by fastforce
  have sint: "sint f = signed_take_bit 7 (int (unat f))" by (simp add: sint_uint)
  have less: "unat f < 256" by (rule order_less_le_trans[OF unsigned_less]) simp
  have "ot_char f = word_char f"
  proof (cases "unat f < 128")
    case True
    have "signed_take_bit 7 (int k) = int k" if "k < 128" for k :: nat
      using that by (intro signed_take_bit_int_eq_self) simp_all
    with True have "sint f = int (unat f)" unfolding sint by blast
    moreover obtain k where k: "unat f = k" by blast
    ultimately have "sint f = int k" by simp
    then show ?thesis using upper unfolding ot_char_def word_char_def isalnum_def k by auto
  next
    case False
    then have "unat f div 128 = 1" using less by (intro div_nat_eqI) simp_all
    moreover have "bit (int k) 7" if "k div 128 = 1" for k :: nat
    proof -
      have "bit k 7" using that by (simp add: bit_iff_odd)
      then show ?thesis by (simp only: bit_of_nat_iff_bit)
    qed
    ultimately have "bit (int (unat f)) 7" by blast
    then have "sint f < 0" unfolding sint by simp
    then show ?thesis using False by (simp add: ot_char_def word_char_def isalnum_def)
  qed
  then show ?thesis by (simp add: f)
qed

definition words :: "bytes \<Rightarrow> bytes list" where
  "words str = filter (\<lambda>w. w \<noteq> []) (words_of (map folded str))"

definition ot_rest :: "old_tokenizer \<Rightarrow> bytes" where
  "ot_rest t = map folded (drop (ot_offset t) (ot_string t))"

text \<open>The words from one on whose first characters are in \<open>acc\<close>.\<close>

definition words_after :: "bytes \<Rightarrow> bytes \<Rightarrow> bytes list" where
  "words_after acc cs = filter (\<lambda>w. w \<noteq> []) ((acc @ hd (words_of cs)) # tl (words_of cs))"

lemma words_after_simps [simp]:
  "words_after acc [] = (if acc = [] then [] else [acc])"
  "word_char c \<Longrightarrow> words_after acc (c # cs) = words_after (acc @ [c]) cs"
  "\<not> word_char c \<Longrightarrow> words_after acc (c # cs) = (if acc = [] then words_after [] cs else acc # words_after [] cs)"
  using words_of_Cons[of cs] by (simp_all add: words_after_def)

definition ot_pulls :: "bytes list \<Rightarrow> (bool \<times> old_tokenizer) res \<Rightarrow> bool" where
  "ot_pulls tks r =
     (case tks of
        [] \<Rightarrow> \<exists>t'. r = Inr (False, t')
      | tk # rest \<Rightarrow> \<exists>t'. r = Inr (True, t') \<and> ot_token t' = tk \<and> ot_offset t' \<le> length (ot_string t')
          \<and> words_after [] (ot_rest t') = rest)"

lemma ot_loop_pulls:
  "ot_offset t \<le> length (ot_string t) \<Longrightarrow> ot_pulls (words_after (ot_token t) (ot_rest t)) (ot_loop t)"
proof (induction t rule: ot_loop.induct)
  case (1 t)
  show ?case
  proof (cases "ot_offset t = length (ot_string t)")
    case True
    then show ?thesis by (simp add: ot_loop.simps[of t] ot_pulls_def ot_rest_def)
  next
    case False
    obtain c where c: "c = ot_string t ! ot_offset t OR 0x20" by blast
    obtain t1 where t1: "t1 = t\<lparr>ot_offset := ot_offset t + 1\<rparr>" by blast
    have lt: "ot_offset t < length (ot_string t)" using False 1(3) by simp
    then have rest: "ot_rest t = c # ot_rest t1"
      by (simp add: ot_rest_def t1 c folded_def Cons_nth_drop_Suc[symmetric])
    have ok: "ot_offset t1 \<le> length (ot_string t1)" "ot_token t1 = ot_token t" using lt by (simp_all add: t1)
    have char: "ot_char c = word_char c" using ot_char_word[of "ot_string t ! ot_offset t"] by (simp add: c folded_def)
    have step: "ot_loop t = (if word_char c then ot_loop (t1\<lparr>ot_token := ot_token t1 @ [c]\<rparr>)
        else if ot_token t1 \<noteq> [] then Inr (True, t1) else ot_loop t1)"
      using False lt char by (simp add: ot_loop.simps[of t] Let_def t1 flip: c)
    show ?thesis
    proof (cases "word_char c")
      case True
      have "ot_pulls (words_after (ot_token t @ [c]) (ot_rest t1)) (ot_loop (t1\<lparr>ot_token := ot_token t1 @ [c]\<rparr>))"
        using 1(1)[OF False lt c t1] True char ok by (simp add: ot_rest_def)
      then show ?thesis using True unfolding step rest by simp
    next
      case False
      show ?thesis
      proof (cases "ot_token t = []")
        case True
        then have "ot_pulls (words_after [] (ot_rest t1)) (ot_loop t1)"
          using 1(2)[OF _ lt c t1] \<open>ot_offset t \<noteq> length (ot_string t)\<close> False char ok by simp
        then show ?thesis using True False ok unfolding step rest by simp
      next
        case token: False
        then show ?thesis using False ok unfolding step rest by (simp add: ot_pulls_def)
      qed
    qed
  qed
qed

lemma ot_for_tokens_after:
  "ot_offset t \<le> length (ot_string t) \<Longrightarrow> \<exists>t'. ot_for_tokens body t a
     = rbind (fold_res (\<lambda>a w. body w a) a (words_after [] (ot_rest t))) (\<lambda>a'. Inr (a', t'))"
proof (induction body t a rule: ot_for_tokens.induct)
  case (1 body t a)
  have p: "ot_pulls (words_after [] (ot_rest t)) (ot_nextToken t)"
    using ot_loop_pulls[of "t\<lparr>ot_token := []\<rparr>"] 1(2) by (simp add: ot_nextToken_def ot_rest_def)
  show ?case
  proof (cases "words_after [] (ot_rest t)")
    case Nil
    then show ?thesis using p by (auto simp: ot_pulls_def ot_for_tokens.simps[of body t a])
  next
    case (Cons tk rest)
    with p obtain t1 where t1: "ot_nextToken t = Inr (True, t1)" "ot_token t1 = tk" "ot_offset t1 \<le> length (ot_string t1)"
        "words_after [] (ot_rest t1) = rest"
      by (auto simp: ot_pulls_def)
    show ?thesis
    proof (cases "body tk a")
      case (Inl e)
      then show ?thesis using t1 Cons by (simp add: ot_for_tokens.simps[of body t a] ot_getToken_def)
    next
      case (Inr a')
      with 1(1)[OF t1(1) refl, of a'] t1 Cons show ?thesis
        by (simp add: ot_for_tokens.simps[of body t a] ot_getToken_def)
    qed
  qed
qed

text \<open>The loop over the tokens of a string is the fold over its words.\<close>

lemma ot_delivers_words:
  "\<exists>t'. ot_for_tokens body (ot_setString str field t) a = rbind (fold_res (\<lambda>a w. body w a) a (words str)) (\<lambda>a'. Inr (a', t'))"
  using ot_for_tokens_after[of "ot_setString str field t" body a] words_of_Cons[of "map folded str"]
  by (simp add: ot_setString_def ot_rest_def words_def words_after_def)

end
