(* ===== verification/Spec2Isabelle.thy ===== *)
theory Spec2Isabelle
  imports GlobalPacking BasicSet ByteViews EngineAccess EngineThreads PlainUnpack IPackMask CachedThreads Statistics Server OldField EntropyTries OldTokenizer
begin

text \<open>zsearch, a document search engine in C++: a model of its core and the theorems that make it correct.

  The program.  \<^verbatim>\<open>src/src/Engine.hpp\<close> numbers documents and words.  Adding a document stores it, cuts the
  values of its fields into tokens (\<^verbatim>\<open>TokenizerImpl.hpp\<close>), numbers the words it has not seen
  (\<^verbatim>\<open>WordIndexKVStore.hpp\<close>) and hands their numbers, collected in a sparse set (\<^verbatim>\<open>SparseSet.hpp\<close>), to the
  index.  The index (\<^verbatim>\<open>InvertedIndexSimpleBatch.hpp\<close>, or \<^verbatim>\<open>InvertedIndexImpl.hpp\<close> without batches)
  keeps for every word the set of its documents, serialized, in a key-value store
  (\<^verbatim>\<open>KVStoreInMemory.hpp\<close> behind \<^verbatim>\<open>NameSpaceKVStore.hpp\<close>); additions are collected in memory and flushed
  by the caller or by a thread.  The sets are \<^verbatim>\<open>src/varint/CompressedSet.cpp\<close>: blocks of 2048 ids,
  delta-coded and bit-packed with SIMD instructions (\<^verbatim>\<open>src/varint/bitpacking\<close>), and a rest that is not
  compressed.  A search unites the sets of a token over the fields (\<^verbatim>\<open>LazyOrSet.cpp\<close>), intersects the
  unions over the tokens (\<^verbatim>\<open>LazyAndSet.cpp\<close>) and delivers a page of the result.

  Theories, bottom up, with what each models.
    \<^item> \<open>Prelude\<close>: machine integers, C++ failures as \<open>res = cpp_error + 'a\<close>, vectors with checked indices.
    \<^item> \<open>SimdLanes\<close>, \<open>PackStmts\<close>: registers of four 32-bit lanes; the statements the generated packers are
      made of, their schedule as a function of the width, and what it writes (locale \<open>packer\<close>).
    \<^item> \<open>IPack\<close>, \<open>IPackMask\<close>, \<open>IUnpack\<close>: the integrated packers without and with mask and the unpackers of
      every width (\<^verbatim>\<open>simdintegratedbitpacking.c\<close>); unpacking inverts packing.
    \<^item> \<open>PlainPack\<close>, \<open>PlainPackMask\<close>, \<open>PlainUnpack\<close>: the same for the packers without differential coding
      (\<^verbatim>\<open>bitpacksimd.cpp\<close>).
    \<^item> \<open>GlobalPacking\<close>: the codec over them with one width for a whole array, and the least width of the
      differences of a block (\<^verbatim>\<open>simdcomputil.c\<close>).
    \<^item> \<open>ByteStream\<close>, \<open>SimdBinaryPacking\<close>, \<open>VariableByte\<close>, \<open>Codec\<close>, \<open>DeltaChunkStore\<close>: the two codecs,
      their composition, byte chunks and their store; round trips and sizes.
    \<^item> \<open>DocIterator\<close>: \<^verbatim>\<open>Set::Iterator\<close> as a record of methods, its contract as the locales
      \<open>doc_stream\<close> and \<open>doc_iterator\<close>, and the clients every set shares.
    \<^item> \<open>CollectionHelper\<close>, \<open>CompressedSet\<close>, \<open>CompressedSetIterator\<close>, \<open>CompressedSetSearch\<close>: the binary
      searches and the compressed set with its iterator; \<open>cs_docs s xs\<close> says that the set \<open>s\<close> holds the
      ids \<open>xs\<close>, in increasing order.
    \<^item> \<open>LazyOrSet\<close>, \<open>LazyAndSet\<close>, \<open>LazyAndNotSet\<close>, \<open>SetAlgebra\<close>: the lazy sets over any iterators that keep
      the contract, and their instances over compressed sets and over each other.
    \<^item> \<open>ZUtil\<close>, \<open>Decimal\<close>: the encodings of \<^verbatim>\<open>ZUtil.hpp\<close>.
    \<^item> \<open>KVStore\<close>: the interface of key-value stores with its contract, the locale \<open>kv_store\<close>, the store in
      memory and name spaces, which keep the contract.
    \<^item> \<open>Document\<close>, \<open>Tokenizer\<close>, \<open>SparseSet\<close>: \<^verbatim>\<open>DocumentImpl.hpp\<close>, \<^verbatim>\<open>TokenizerImpl.hpp\<close>, \<^verbatim>\<open>SparseSet.hpp\<close>.
    \<^item> \<open>PostingSet\<close>, \<open>InvertedIndex\<close>, \<open>BatchIndex\<close>, \<open>BatchThreads\<close>: the sets the index needs (locale
      \<open>posting_set\<close>), the index over any store and any such sets (locale \<open>inverted_index\<close>), batches, and
      the caller and the batch processor as an inductive step relation \<open>bstep\<close>.
    \<^item> \<open>LRUCache\<close>, \<open>CachedIndex\<close>, \<open>CachedThreads\<close>: the cache with its linked nodes, a list in the order of
      use as its specification, the older batching index with the cache in front of its store
      (\<^verbatim>\<open>InvertedIndexBatch.hpp\<close>), and its two threads as an inductive step relation \<open>cstep\<close>.
    \<^item> \<open>BasicSet\<close>: the set over \<^verbatim>\<open>std::set\<close> with its textual format, a second instance of \<open>posting_set\<close> and
      of the index over it.
    \<^item> \<open>ByteViews\<close>, \<open>Statistics\<close>: \<^verbatim>\<open>slice.h\<close>, \<^verbatim>\<open>Source.h\<close>, \<^verbatim>\<open>Sink.h\<close>; the counts of queries and the times of requests.
    \<^item> \<open>EngineStores\<close>, \<open>Engine\<close>: the stores of the engine and its operations, each with every call that
      changes state.
    \<^item> \<open>EngineWords\<close>, \<open>EngineAdd\<close>, \<open>EngineSearch\<close>, \<open>EngineAccess\<close>: the invariant of the engine and what
      follows from it for searching, deleting and fetching.
    \<^item> \<open>EngineThreads\<close>: the engine and its batch processor step by step: the processor takes a batch with the
      mutex and reads and writes its sets without, with calls of the engine in between.
    \<^item> \<open>LevelDbStore\<close>, \<open>ImportProgram\<close>: \<^verbatim>\<open>KVStoreLevelDb.hpp\<close>, which keeps the contract of a store, and
      \<^verbatim>\<open>engine_simple_main.cpp\<close>, which reads a file into an engine over it while the batch processor runs.
    \<^item> \<open>Server\<close>: \<^verbatim>\<open>server.cpp\<close>, its callbacks and \<open>main\<close>, with a list of documents as its specification
      (\<open>spec_run\<close>).  \<open>OldField\<close>, \<open>OldTokenizer\<close>: \<^verbatim>\<open>Field.cpp\<close>,
      \<^verbatim>\<open>TokenizerImpl.cpp\<close>.
    \<^item> \<open>BitVectors\<close>, \<open>EntropyCodes\<close>, \<open>HuffmanCodes\<close>, \<open>EntropyTries\<close>: \<^verbatim>\<open>src/src/trie\<close>, an index of its own: bits over
      blocks, exponential Golomb and Huffman codes, the trie over them, \<^verbatim>\<open>EntropyTrie.hpp\<close> and \<^verbatim>\<open>main.cpp\<close>.

  What the lemmas show.  The codecs lose nothing and have the sizes the code allocates.  A compressed
  set stands for a list of ids under every operation, and its iterator, binary searches included,
  implements the contract; so do the lazy sets.  The stores implement finite maps.  The index holds
  what was added (\<open>index_holds\<close>), also under every interleaving of the two threads in which \<open>flushBatch\<close>
  keeps out of the processor's way (\<open>batch_inv\<close>).  The engine, over all of it, finds exactly the
  documents that match (\<open>engine_inv\<close>, \<open>engine_search_finds\<close>), and before a flush those of a prefix
  (\<open>engine_stored\<close>), also with a batch in the hands of the processor (\<open>threads_inv\<close>).  Where the code does not do what it
  means to, a theorem shows that: a flush that loses a document, a shutdown that does not
  return, documents that cannot be deleted or fetched in bulk, counters that are not stored.

  The entropy-coded trie finds the place of every key (\<open>locate_rec_ok\<close>), as each code is read back where it
  was appended (\<open>holds_at\<close>).

  State and effects.  Objects are records that operations take and return; a pointer to a set or a
  buffer is the value itself, as no two live references to one are written through.  Exceptions, failed
  assertions and accesses outside a vector are \<open>Inl\<close>; the order of a hash table is a parameter.  Machine
  integers are words, so sums and shifts wrap around as in the code; values in \<open>int\<close> are integers cut to 32
  bits (\<open>int32\<close>) where they can leave that range.

  Threads.  The caller and the batch processor of the index are interleaved step by step, where a step is
  what the mutex protects, a read or a write of the store (\<open>bstep\<close>, \<open>engine_tstep\<close>).  In
  \<open>engine_step\<close> and in the requests of the server the processor makes whole rounds between two calls.
  \<open>engine_tstep\<close> has its steps between the calls of the engine: adding a document shares with it only the
  batch, at the end and with the mutex, and no key of the store; a write of the
  processor in the middle of a search is not covered.  A \<open>flushBatch\<close> that begins while a batch is in flight can
  lose documents (\<open>flush_race_loses_document\<close>); the theorems that exclude it say so (\<open>flush_alone\<close>,
  \<open>flushes_alone\<close>, and \<open>snd x = Idle\<close> for the program that imports a file).

  Bounds and fuel.  Loops that end for a structural reason are total functions.  Loops over an arbitrary
  iterator (\<open>drain\<close>, \<open>set_equals\<close>, \<open>search_loop\<close>) take fuel, and every theorem about them shows that one
  round more than there are ids is enough; \<open>readMini\<close> may really run forever and is a partial function.
  \<open>skip_rec\<close> takes the bits of a key that are left as fuel, which the depth of its recursion cannot exceed in
  a code that was encoded; codes of other origin are not considered.  Recursion over a Huffman tree checks
  that children have smaller numbers, as in all trees that \<open>ht_generate\<close> makes.
  Sets hold fewer than \<open>2^31\<close> ids, as the code counts them in signed integers; a union delivers ids from
  1 to \<open>2^31 - 1\<close>, as its heap compares them signed and takes 0 for none; \<open>docs_fit\<close> says that the
  documents stay within these bounds.  \<open>addDocs\<close> keeps its positions in \<open>int\<close>, and its range has to end below \<open>2^31\<close>.
  Left as numbers without bound are the size of a cache and the positions in a binary search, \<open>int\<close> in the code, and the
  positions in the destination of a trie, \<open>size_t\<close>.

  Parameters.  leveldb is a record of its calls with the contract \<open>leveldb_contract\<close>, its documentation.  The trie of the word numbers (\<^verbatim>\<open>cedarpp.h\<close>, third-party) is a record of its two operations
  with the contract \<open>trie_contract\<close>; the XML parser and printer, the parsing of addresses and parameters
  by libevent and the reading of files are function arguments.  What \<open>PutUint64\<close> finds
  on the stack is an argument.

  Not modelled.  The insides of leveldb, rapidxml,
  EWAHBoolArray and the Unicode tables; \<^verbatim>\<open>codecs.h\<close>, an interface with helpers that nothing calls;
  \<^verbatim>\<open>ConsiseSet.hpp\<close>, half translated from Java, which does not compile; the assertion of \<open>Compress\<close> on the alignment of its
  source, which its callers keep; the lock file and the time the server prints.  Output to the console is left out everywhere.
\<close>

text \<open>
  C1. The engine end to end.  On a new engine over the store in memory any sequence of additions, flushes,
  rounds of the batch processor and changes of the batch size runs without an error, and after a last
  flush \<open>search\<close> returns the numbers of the documents that contain every token of the query in some
  field, in increasing order, from document \<open>start * offset\<close> (a 32-bit product) on and at most \<open>offset\<close>
  of them; all of them for \<open>offset\<close> 0, and none for a query without tokens.
\<close>

theorem engine_search_finds:
  assumes "trie_contract T tmap" and "tmap tree = (\<lambda>_. None)" and "hash_order ord" and "docs_fit (added_docs evs)"
    and "set fs = (\<Union>d\<in>set (added_docs evs). fst ` set (entries d))" and "length (added_docs evs) < n"
  shows "\<exists>e e'. engine_open mem_vtable tree new_kv_memory = Inr e
    \<and> fold_res (engine_step mem_vtable T ord) e (evs @ [FlushNow]) = Inr e'
    \<and> engine_search mem_vtable T fs query start offset n e'
        = Some (Inr (if tokens query = [] then []
            else page (unat (start * offset)) (unat offset) (ids_of (doc_matches query) (added_docs evs))))"
proof -
  from run_engine[OF assms(1-4)] obtain e e' where e: "engine_open mem_vtable tree new_kv_memory = Inr e"
      "fold_res (engine_step mem_vtable T ord) e (evs @ [FlushNow]) = Inr e'"
      "engine_flushed mem_map (\<lambda>_. True) tmap (added_docs evs) e'" by blast
  then have "e_fields e' = (\<Union>d\<in>set (added_docs evs). fst ` set (entries d))"
    by (simp add: engine_flushed_def engine_inv_def)
  with assms(4,5) have "set fs = e_fields e'" "\<forall>f\<in>e_fields e'. 0 \<notin> set f" by (auto simp: docs_fit_def)
  from mem.engine_search_ok[OF e(3) assms(1) this assms(6)] e(1,2) show ?thesis by blast
qed

theorem engine_search_finds_witness:
  "\<exists>(T :: (bytes \<rightharpoonup> u32) trie_ops) ord e e'. engine_open mem_vtable (\<lambda>_. None) new_kv_memory = Inr e
    \<and> fold_res (engine_step mem_vtable T ord) e ([AddDoc \<lparr>entries = [([116], [65, 66, 67, 32, 100, 101, 102])]\<rparr>] @ [FlushNow]) = Inr e'
    \<and> engine_search mem_vtable T [[116]] [97, 98, 99] 0 0 2 e' = Some (Inr [1])"
proof -
  obtain ord where ord: "hash_order ord" using hash_order_exists by blast
  have t: "tokens [65, 66, 67, 32, 100, 101, 102] = [[97, 98, 99], [100, 101, 102]]" "tokens [97, 98, 99] = [[97, 98, 99]]"
    by code_simp+
  let ?evs = "[AddDoc \<lparr>entries = [([116], [65, 66, 67, 32, 100, 101, 102])]\<rparr>]"
  have ds: "added_docs ?evs = [\<lparr>entries = [([116], [65, 66, 67, 32, 100, 101, 102])]\<rparr>]" by (simp add: added_docs_def)
  have "docs_fit (added_docs ?evs)" unfolding ds by (simp add: docs_fit_def num_tokens_def storable_def t)
  moreover have "page 0 0 (ids_of (doc_matches [97, 98, 99]) (added_docs ?evs)) = [1]"
    unfolding ds by (simp add: page_def ids_of_def doc_matches_def has_token_def t)
  ultimately show ?thesis
    using engine_search_finds[OF map_trie _ ord, of "\<lambda>_. None" ?evs "[[116]]" 2 "[97, 98, 99]" 0 0] by (auto simp: ds t)
qed

text \<open>
  C2. The server over leveldb, the engine, the index and the sets.  \<open>spec_run\<close> is a list of documents: a post
  appends one and returns its number or the reason why not, a fetch by number returns the document (with
  the empty field \<open>readMini\<close> adds) or 404, a search returns the numbers of the matches among the first
  \<open>m\<close> documents, where \<open>m\<close> grows to all of them when a batch is written, anything else gets a page.  The
  server never fails, and its replies are a run of that, as long as no post is empty.
\<close>

theorem server_refines:
  assumes "leveldb_contract L dmap good" and "trie_contract T tmap" and "tmap tree = (\<lambda>_. None)" and "hash_order ord"
    and "\<And>F. finite F \<Longrightarrow> set (ford F) = F" and "db_Open L True LEVELDB_STORE = (True, db)"
    and "docs_fit (posted_docs H parse evs)" and "requests_ok H evs" and "length (posted_docs H parse evs) < n"
  shows "\<exists>e replies e' m. server_start L [49] tree = Inr e
    \<and> serve H parse wr (ldb_vtable L) T ord ford n docroot e evs = Some (Inr (replies, e'))
    \<and> spec_run H parse wr docroot [] 0 evs replies (posted_docs H parse evs) m"
  by (rule server_run[OF assms])

theorem server_refines_witness:
  "\<exists>(T :: (bytes \<rightharpoonup> u32) trie_ops) ord ford e e'. server_start map_leveldb [49] (\<lambda>_. None) = Inr e
    \<and> serve \<lparr>uri_parse = (\<lambda>u. Some \<lparr>uri_path = None, uri_query = Some u\<rparr>),
             parse_query_str = (\<lambda>q. Some [(POST_DATA_KEY, [120]), (SERVER_DOC_ID_KEY, [49])]),
             uridecode = Some, read_file = (\<lambda>_. None)\<rparr>
          (\<lambda>xml. Inr (Some (DOCUMENT_ROOT, [([116], [65, 66, 67])]))) (\<lambda>d. concat (map snd (entries d)))
          (ldb_vtable map_leveldb) T ord ford 2 [] e
          [Request \<lparr>req_command = HTTP_POST, req_path = INDEX_PATH, req_uri = [], req_body = [120]\<rparr>, Processor,
           Request \<lparr>req_command = HTTP_GET, req_path = DOC_PATH, req_uri = [], req_body = []\<rparr>]
        = Some (Inr ([SendReply TEXT_HTML [49], SendReply TEXT_XML [65, 66, 67]], e'))"
proof -
  obtain ord where ord: "hash_order ord" using hash_order_exists by blast
  have "\<forall>F :: bytes set. \<exists>fs. finite F \<longrightarrow> set fs = F" using finite_list by blast
  then obtain ford where "\<forall>F :: bytes set. finite F \<longrightarrow> set (ford F) = F" by (metis (no_types))
  then have ford: "\<And>F. finite F \<Longrightarrow> set (ford F) = (F :: bytes set)" by blast
  let ?H = "\<lparr>uri_parse = (\<lambda>u. Some \<lparr>uri_path = None, uri_query = Some u\<rparr>),
      parse_query_str = (\<lambda>q. Some [(POST_DATA_KEY, [120]), (SERVER_DOC_ID_KEY, [49])]),
      uridecode = Some, read_file = (\<lambda>_. None)\<rparr>"
  let ?parse = "\<lambda>xml. Inr (Some (DOCUMENT_ROOT, [([116], [65, 66, 67])]))" and ?wr = "\<lambda>d. concat (map snd (entries d))"
  let ?post = "\<lparr>req_command = HTTP_POST, req_path = INDEX_PATH, req_uri = [], req_body = [120]\<rparr>"
  let ?fetch = "\<lparr>req_command = HTTP_GET, req_path = DOC_PATH, req_uri = [], req_body = []\<rparr>"
  let ?evs = "[Request ?post, Processor, Request ?fetch]" and ?d = "\<lparr>entries = [([116], [65, 66, 67])]\<rparr>"
  have keys: "SERVER_DOC_ID_KEY \<noteq> POST_DATA_KEY" "DOC_PATH \<noteq> INDEX_PATH" "INDEX_PATH \<noteq> SEARCH_PATH" "DOC_PATH \<noteq> SEARCH_PATH"
    by (simp_all add: SERVER_DOC_ID_KEY_def POST_DATA_KEY_def DOC_PATH_def INDEX_PATH_def SEARCH_PATH_def)
  have one: "tokens [65, 66, 67] = [[97, 98, 99]]" "number [49] = 1" "decimal (Suc 0) = [49]" by code_simp+
  have "construct ?parse [120] new_document = (None, ?d)" by (simp add: construct_def new_document_def addEntry_def)
  then have added: "posted ?H ?parse ?post = [?d]" "posted ?H ?parse ?fetch = []"
      "spec_reply ?H ?parse ?wr [] [] 0 ?post = SendReply TEXT_HTML [49]"
    using keys one(3) by (simp_all add: posted_def post_params_def spec_reply_def post_reply_def)
  then have docs: "posted_docs ?H ?parse ?evs = [?d]" by (simp add: posted_docs_def)
  have "docs_fit (posted_docs ?H ?parse ?evs)" unfolding docs by (simp add: docs_fit_def num_tokens_def storable_def one(1))
  moreover have "requests_ok ?H ?evs" by (auto simp: requests_ok_def request_ok_def post_params_def)
  moreover have "db_Open map_leveldb True LEVELDB_STORE = (True, \<lambda>_. None)" by (simp add: map_leveldb_def)
  moreover have "length (posted_docs ?H ?parse ?evs) < 2" unfolding docs by simp
  ultimately have "\<exists>e replies e' m. server_start map_leveldb [49] (\<lambda>_. None) = Inr e
      \<and> serve ?H ?parse ?wr (ldb_vtable map_leveldb) \<lparr>tr_update = (\<lambda>k v t. t(k \<mapsto> v)),
         tr_exactMatchSearch = (\<lambda>k t. case t k of None \<Rightarrow> - 1 | Some v \<Rightarrow> v)\<rparr> ord ford 2 [] e ?evs = Some (Inr (replies, e'))
      \<and> spec_run ?H ?parse ?wr [] [] 0 ?evs replies (posted_docs ?H ?parse ?evs) m"
    by (intro server_refines[OF map_leveldb_contract map_trie _ ord ford]) (rule refl)
  then obtain e replies e' m where
    run: "server_start map_leveldb [49] (\<lambda>_. None) = Inr e"
      "serve ?H ?parse ?wr (ldb_vtable map_leveldb) \<lparr>tr_update = (\<lambda>k v t. t(k \<mapsto> v)),
         tr_exactMatchSearch = (\<lambda>k t. case t k of None \<Rightarrow> - 1 | Some v \<Rightarrow> v)\<rparr> ord ford 2 [] e ?evs = Some (Inr (replies, e'))"
      "spec_run ?H ?parse ?wr [] [] 0 ?evs replies [?d] m" unfolding docs by (elim exE conjE)
  have fetch: "spec_reply ?H ?parse ?wr [] [?d] k ?fetch = SendReply TEXT_XML [65, 66, 67]" for k
    using keys one(2) by (simp add: spec_reply_def doc_reply_def get_params_def Let_def)
  from run(3) have "replies = [SendReply TEXT_HTML [49], SendReply TEXT_XML [65, 66, 67]]"
    by (auto simp: spec_run_request spec_run_round spec_run_finished added fetch)
  with run(1,2) show ?thesis by (intro exI conjI) simp_all
qed

text \<open>
  C3. A search that does not wait for a flush.  The caller's additions, flushes, changes of the batch size and
  shutting down are interleaved with the steps of the batch processor, which takes a batch with the mutex and reads and
  writes the sets of its words without it; no \<open>flushBatch\<close> of the caller begins while the processor has a batch in hand,
  which the code does not see to (\<open>flush_race_loses_document\<close>).  After any such events with a flush
  among them, a batch possibly in the hands of the processor, nothing has failed and a search sees a prefix of the documents,
  at least those that were added before the flush: it never returns a document that does not match, nor
  part of a batch.  The steps of the processor fall between the calls of the caller: a search with the
  write of the processor in its middle is not covered.
\<close>

theorem engine_search_snapshot:
  assumes "trie_contract T tmap" and "tmap tree = (\<lambda>_. None)" and "hash_order ord"
    and "engine_open mem_vtable tree new_kv_memory = Inr e"
    and "docs_fit (called_docs (evs @ evs'))" and "flushes_alone mem_vtable T ord (e, Idle) (evs @ [CallFlush] @ evs')"
    and "set fs = (\<Union>d\<in>set (called_docs (evs @ evs')). fst ` set (entries d))" and "length (called_docs (evs @ evs')) < n"
  shows "\<exists>x m. fold_res (engine_tstep mem_vtable T ord) (e, Idle) (evs @ [CallFlush] @ evs') = Inr x
    \<and> length (called_docs evs) \<le> m \<and> m \<le> length (called_docs (evs @ evs'))
    \<and> engine_search mem_vtable T fs query start offset n (fst x)
        = Some (Inr (if tokens query = [] then []
            else page (unat (start * offset)) (unat offset) (ids_of (doc_matches query) (take m (called_docs (evs @ evs'))))))"
proof -
  have empty: "mem_map new_kv_memory = (\<lambda>_. None)" by (simp add: new_kv_memory_def)
  from mem.engine_open_inv[where tmap = tmap and tree = tree, OF TrueI empty assms(2)] assms(4)
  have "engine_inv mem_map (\<lambda>_. True) tmap [] e" "postings (e_index e) = (\<lambda>_. None)" by auto
  from mem.engine_run_prefix[OF engine_flushed_threads[OF this] assms(1,3,5,6)] obtain x m k where
    x: "fold_res (engine_tstep mem_vtable T ord) (e, Idle) (evs @ [CallFlush] @ evs') = Inr x"
      "threads_inv mem_map (\<lambda>_. True) tmap (called_docs (evs @ evs')) m k x" "length (called_docs evs) \<le> m" by blast
  from threads_inv_holds[of _ _ _ _ m k "fst x" "snd x"] x(2) have
    h: "engine_holds mem_map (\<lambda>_. True) tmap (called_docs (evs @ evs')) m (fst x)" by simp
  then have "e_fields (fst x) = (\<Union>d\<in>set (called_docs (evs @ evs')). fst ` set (entries d))" "m \<le> length (called_docs (evs @ evs'))"
    by (simp_all add: engine_holds_def)
  moreover from this(1) assms(5,7) have "set fs = e_fields (fst x)" "\<forall>f\<in>e_fields (fst x). 0 \<notin> set f" by (auto simp: docs_fit_def)
  note search = mem.engine_search_holds[OF h assms(1) this assms(8)]
  ultimately show ?thesis using x(1,3) by blast
qed

theorem engine_search_snapshot_witness:
  "\<exists>(T :: (bytes \<rightharpoonup> u32) trie_ops) ord e x m batch. engine_open mem_vtable (\<lambda>_. None) new_kv_memory = Inr e
    \<and> fold_res (engine_tstep mem_vtable T ord) (e, Idle)
        (([CallAdd \<lparr>entries = [([116], [65, 66, 67])]\<rparr>] @ [Proc ReadSets, Proc WriteSets]) @ [CallFlush]
          @ [CallSetMax 0, CallAdd \<lparr>entries = [([116], [65, 66, 67])]\<rparr>, Proc TakeBatch]) = Inr x
    \<and> snd x = Copied batch
    \<and> m \<in> {1, 2} \<and> engine_search mem_vtable T [[116]] [97, 98, 99] 0 0 3 (fst x) = Some (Inr (take m [1, 2]))"
proof -
  obtain ord where ord: "hash_order ord" using hash_order_exists by blast
  have t: "tokens [65, 66, 67] = [[97, 98, 99]]" "tokens [97, 98, 99] = [[97, 98, 99]]" by code_simp+
  let ?d = "\<lparr>entries = [([116], [65, 66, 67])]\<rparr> :: document"
  let ?T = "\<lparr>tr_update = (\<lambda>k v t. t(k \<mapsto> v)), tr_exactMatchSearch = (\<lambda>k t. case t k of None \<Rightarrow> - 1 | Some v \<Rightarrow> v)\<rparr>"
  let ?evs = "[CallAdd ?d] @ [Proc ReadSets, Proc WriteSets]" and ?evs' = "[CallSetMax 0, CallAdd ?d, Proc TakeBatch]"
  have ds: "called_docs (?evs @ ?evs') = [?d, ?d]" "called_docs ?evs = [?d]" by simp_all
  have empty: "mem_map new_kv_memory = (\<lambda>_. None)" by (simp add: new_kv_memory_def)
  obtain e where e: "engine_open mem_vtable ((\<lambda>_. None) :: bytes \<rightharpoonup> u32) new_kv_memory = Inr e"
      "engine_inv mem_map (\<lambda>_. True) (\<lambda>t. t) [] e" "postings (e_index e) = (\<lambda>_. None)"
    using mem.engine_open_inv[where tmap = "\<lambda>t. t" and tree = "\<lambda>_. None", OF TrueI empty refl] by blast
  have "e_index e = new_batch_index new_kv_memory" using e(1) by (auto simp: engine_open_def rbind_def split: sum.splits)
  then have running: "\<not> bi_done (e_index e)" by (simp add: new_batch_index_def)
  have fit: "docs_fit [?d, ?d]" by (simp add: docs_fit_def num_tokens_def storable_def t)
  have alone: "flushes_alone mem_vtable ?T ord (e, Idle) (?evs @ [CallFlush] @ ?evs')" by (rule flushes_alone_settled) simp_all
  have fs: "set [[116]] = (\<Union>d\<in>set (called_docs (?evs @ ?evs')). fst ` set (entries d))" unfolding ds by simp
  have n: "length (called_docs (?evs @ ?evs')) < 3" unfolding ds by simp
  from engine_search_snapshot[OF map_trie _ ord e(1) fit[folded ds(1)] alone fs n, where query = "[97, 98, 99]" and start = 0 and offset = 0]
  obtain x m where run: "fold_res (engine_tstep mem_vtable ?T ord) (e, Idle) (?evs @ [CallFlush] @ ?evs') = Inr x" "1 \<le> m" "m \<le> 2"
      "engine_search mem_vtable ?T [[116]] [97, 98, 99] 0 0 3 (fst x)
        = Some (Inr (page 0 0 (ids_of (doc_matches [97, 98, 99]) (take m [?d, ?d]))))"
    unfolding ds t(2) by auto
  obtain batch where "snd x = Copied batch"
    using mem.batch_in_flight[OF engine_flushed_threads[OF e(2,3)] map_trie ord fit running run(1)] by blast
  moreover have "page 0 0 (ids_of (doc_matches [97, 98, 99]) (take m [?d, ?d])) = take m [1, 2]"
    using run(2,3) by (cases "m = 1") (auto simp: page_def ids_of_def doc_matches_def has_token_def t le_Suc_eq numeral_2_eq_2 upt_rec)
  moreover have "m \<in> {1, 2}" using run(2,3) by auto
  ultimately show ?thesis using e(1) run(1,4) by metis
qed

text \<open>
  C4. The import program end to end.  It runs on a file of lines, each ended by a line feed and of any length,
  with the store destroyed before and leveldb as documented, the stack any bytes but zeros, and any
  steps \<open>sched\<close> of the batch processor between the lines.  Every
  line becomes a document of its values between commas, whose fields are named by what \<open>PutUint64\<close> finds
  on the stack.  If the processor has written what it had taken when the last \<open>flushBatch\<close> begins, the
  search after it, before the engine is destroyed, finds the lines that contain every token of the query.  The program does not wait for that:
  from 100000 postings on, its flush can meet a batch in flight and lose documents (\<open>flush_race_loses_document\<close>);
  with fewer the processor never wakes.
\<close>

theorem import_searchable:
  assumes "leveldb_contract L dmap good" and "trie_contract T tmap" and "tmap tree = (\<lambda>_. None)" and "hash_order ord"
    and "stacks_ok stacks" and "lines_ok ls" and "docs_fit (import_docs stacks 0 ls)"
    and "db_Open L True LEVELDB_TEST_STORE = (True, db)"
    and "set fs = (\<Union>d\<in>set (import_docs stacks 0 ls). fst ` set (entries d))" and "length ls < n"
  shows "\<exists>x. work_documents L T ord stacks sched (file_of ls) True tree = Inr x
    \<and> (snd x = Idle \<longrightarrow> (\<exists>e. work L T ord stacks sched (file_of ls) True tree = Inr (e, Idle)
        \<and> engine_search (ldb_vtable L) T fs query start offset n e
            = Some (Inr (if tokens query = [] then []
                else page (unat (start * offset)) (unat offset) (ids_of (doc_matches query) (import_docs stacks 0 ls))))))
    \<and> (num_tokens (concat (map entries (import_docs stacks 0 ls))) < 100000 \<longrightarrow> snd x = Idle)"
proof -
  have search: "engine_search (ldb_vtable L) T fs query start offset n e
      = Some (Inr (if tokens query = [] then []
          else page (unat (start * offset)) (unat offset) (ids_of (doc_matches query) (import_docs stacks 0 ls))))"
    if "engine_flushed dmap good tmap (import_docs stacks 0 ls) e" for e
  proof -
    from fields_import[OF that] assms(7,9) have
      fs: "set fs = e_fields e" "\<forall>f\<in>e_fields e. 0 \<notin> set f" by (auto simp: docs_fit_def)
    have "length (import_docs stacks 0 ls) < n" using assms(10) by (simp add: import_docs_def)
    from kv_store.engine_search_ok[OF leveldb_store[OF assms(1)] that assms(2) fs this] show ?thesis .
  qed
  from work_ok[OF assms(1-8), of sched] search show ?thesis by blast
qed

theorem import_searchable_witness:
  "\<exists>(T :: (bytes \<rightharpoonup> u32) trie_ops) ord e.
    work map_leveldb T ord (\<lambda>_ _. replicate 19 65) (\<lambda>_. [TakeBatch, ReadSets]) (file_of [[65, 66, 67]]) True (\<lambda>_. None) = Inr (e, Idle)
    \<and> engine_search (ldb_vtable map_leveldb) T [[65]] [97, 98, 99] 0 0 2 e = Some (Inr [1])"
proof -
  obtain ord where ord: "hash_order ord" using hash_order_exists by blast
  have t: "tokens [65, 66, 67, 10] = [[97, 98, 99]]" "tokens [97, 98, 99] = [[97, 98, 99]]" by code_simp+
  have v: "line_values [65, 66, 67, 10] = [[65, 66, 67, 10]]" by code_simp
  have "decimal 0 = [48]" by code_simp
  then have ds: "import_docs (\<lambda>_ _. replicate 19 65) 0 [[65, 66, 67]] = [\<lparr>entries = [([65], [65, 66, 67, 10])]\<rparr>]"
    by (simp add: import_docs_def line_doc_def v)
  have "docs_fit (import_docs (\<lambda>_ _. replicate 19 65) 0 [[65, 66, 67]])"
    unfolding ds by (simp add: docs_fit_def num_tokens_def storable_def t)
  moreover have "page 0 0 (ids_of (doc_matches [97, 98, 99]) (import_docs (\<lambda>_ _. replicate 19 65) 0 [[65, 66, 67]])) = [1]"
    unfolding ds by (simp add: page_def ids_of_def doc_matches_def has_token_def t)
  moreover have "num_tokens (concat (map entries (import_docs (\<lambda>_ _. replicate 19 65) 0 [[65, 66, 67]]))) < 100000"
    unfolding ds by (simp add: num_tokens_def t)
  moreover have "db_Open map_leveldb True LEVELDB_TEST_STORE = (True, \<lambda>_. None)" by (simp add: map_leveldb_def)
  moreover have "lines_ok [[65, 66, 67]]" "stacks_ok (\<lambda>_ _. replicate 19 65)"
    by (simp_all add: lines_ok_def text_line_def v stacks_ok_def)
  moreover have "set [[65]] = (\<Union>d\<in>set (import_docs (\<lambda>_ _. replicate 19 65) 0 [[65, 66, 67]]). fst ` set (entries d))"
    by (simp add: ds)
  moreover have "length [[65, 66, 67 :: 8 word]] < 2" by simp
  ultimately show ?thesis
    using import_searchable[OF map_leveldb_contract map_trie, where tree = "\<lambda>_. None" and ord = ord
        and stacks = "\<lambda>_ _. replicate 19 65" and ls = "[[65, 66, 67]]" and db = "\<lambda>_. None" and fs = "[[65]]"
        and n = 2 and query = "[97, 98, 99]" and start = 0 and offset = 0 and sched = "\<lambda>_. [TakeBatch, ReadSets]"] ord t(2)
    by (simp only: list.distinct if_False mult_zero_left unsigned_0) blast
qed

text \<open>
  C5. The whole life of a posting set: ids added in increasing order, \<open>write\<close>, \<open>read\<close> into a fresh
  set and iteration with \<open>nextDoc\<close> give the same ids back, and no step fails.  The ids past the first
  2048 go through the bit packing.
\<close>

theorem compressed_set_end_to_end:
  assumes "doc_list xs" and "length xs < 2 ^ 31"
  shows "\<exists>s out s'. fold_res (\<lambda>s d. cs_addDoc d s) new_compressed_set xs = Inr s
    \<and> cs_write s = Inr out \<and> cs_read (out @ rst) new_compressed_set = Inr (s', rst)
    \<and> drain cs_vtable (length xs + 1) (cs_iter s') = Some (Inr xs)"
proof -
  from addDocs_all_docs[OF cs_docs_new, of xs] assms obtain s where
    s: "fold_res (\<lambda>s d. cs_addDoc d s) new_compressed_set xs = Inr s" "cs_docs s xs" by auto
  from cs_read_write[OF s(2)] obtain out where
    "cs_write s = Inr out" "cs_read (out @ rst) new_compressed_set = Inr (cs_trim s, rst)" by blast
  moreover have "drain cs_vtable (length xs + 1) (cs_iter (cs_trim s)) = Some (Inr xs)"
    by (rule cs_drain[OF cs_docs_trim[OF s(2)]]) simp
  ultimately show ?thesis using s(1) by blast
qed

theorem compressed_set_end_to_end_witness:
  "\<exists>s out s'. fold_res (\<lambda>s d. cs_addDoc d s) new_compressed_set [3, 5, 70000] = Inr s
    \<and> cs_write s = Inr out \<and> cs_read (out @ [1]) new_compressed_set = Inr (s', [1])
    \<and> drain cs_vtable (length [3, 5, 70000 :: u32] + 1) (cs_iter s') = Some (Inr [3, 5, 70000])"
  using compressed_set_end_to_end[of "[3, 5, 70000]" "[1]"] by (simp add: NO_MORE_DOCS_def)

text \<open>
  C6. The two threads of the batching index, interleaved step by step.  As long as \<open>flushBatch\<close> does not
  start while the batch processor is between taking a batch and having written it, no posting is lost:
  the store, the batch in flight and the batch being filled hold, in this order, the documents that
  were added for every word.
\<close>

theorem batch_no_posting_lost:
  assumes "brun (ns_vtable c mem_vtable) SetFactory (start_system new_kv_memory) A x"
  shows "\<exists>P. index_holds SetFactory cs_docs (ns_abs c mem_map (bi_store (idx x))) P
    \<and> (\<forall>w. docs_of P w @ docs_of (inflight x) w @ docs_of (postings (idx x)) w = A w)"
proof -
  have "index_holds SetFactory cs_docs (ns_abs c mem_map new_kv_memory) (\<lambda>_. None)"
    by (simp add: index_holds_def ns_abs_def new_kv_memory_def)
  from inverted_index.run_inv[OF index.inverted_index_axioms assms TrueI this] show ?thesis
    by (auto simp: batch_inv_def)
qed

theorem batch_no_posting_lost_witness:
  "\<exists>(x :: kv_memory bsystem) P. index_holds SetFactory cs_docs (ns_abs 105 mem_map (bi_store (idx x))) P
    \<and> (\<forall>w. docs_of P w @ docs_of (inflight x) w @ docs_of (postings (idx x)) w = (if w \<in> set [7] then [1] else []))"
proof -
  let ?x = "start_system new_kv_memory"
  let ?b = "(new_batch_index new_kv_memory)\<lparr>batchSize := 1, postings := [7 \<mapsto> [1]]\<rparr>"
  have "bstep (ns_vtable 105 mem_vtable) SetFactory ?x (Added 1 [7]) (?x\<lparr>idx := ?b\<rparr>)"
    by (rule bstep.main_add[where ws = "[7]" and b = ?b and y = "?x\<lparr>idx := ?b\<rparr>"])
      (simp_all add: lock_free_def start_system_def new_batch_index_def add_posting_def batch_add_words_def full_batch_def iteration_def word_le_nat_alt)
  from brun.adding[OF brun.begin_run this] have
    "brun (ns_vtable 105 mem_vtable) SetFactory ?x (\<lambda>w. if w \<in> set [7] then [] @ [1] else []) (?x\<lparr>idx := ?b\<rparr>)"
    by (simp add: NO_MORE_DOCS_def)
  from batch_no_posting_lost[OF this] show ?thesis unfolding append_Nil by (rule exI[where x = "?x\<lparr>idx := ?b\<rparr>"])
qed

text \<open>
  C7. What a search iterates: the intersection over the words of the union over the fields of the
  posting sets.  Draining it delivers exactly the ids in some set of every group, in increasing order.
  The unions are heaps that compare ids as signed integers and treat 0 as "nothing yet", hence the
  bound on the ids.
\<close>

theorem search_sets_drain:
  assumes "list_all2 (list_all2 cs_docs) gs dsss" and "gs \<noteq> []"
    and "\<forall>dss\<in>set dsss. \<Union>(set ` set dss) \<subseteq> or_range"
    and "xs = sorted_list_of_set (\<Inter>dss\<in>set dsss. \<Union>(set ` set dss))" and "length xs < n"
  shows "drain (and_vtable (or_vtable cs_vtable)) n (and_iter (map (\<lambda>g. or_iter (map cs_iter g)) gs))
    = Some (Inr xs)"
  using and_or_docs_at[OF assms(1-3)] assms(4,5) by (intro cs_and_or.drain_at) simp_all

theorem search_sets_drain_witness:
  "drain (and_vtable (or_vtable cs_vtable)) 1
     (and_iter (map (\<lambda>g. or_iter (map cs_iter g)) [[new_compressed_set, new_compressed_set], [new_compressed_set]]))
   = Some (Inr [])"
  by (rule search_sets_drain[where dsss = "[[[], []], [[]]]"]) (simp_all add: cs_docs_new)

text \<open>
  C8. \<open>Advance\<close> refines its specification: on an iterator before the ids \<open>xs\<close> it passes over the ids below
  the target and delivers the next one, leaving the iterator before the rest, or reports the end.  This
  covers the uncompressed block, the search over the bases, the reuse of a decompressed block and the
  linear scan in it.
\<close>

theorem compressed_set_Advance:
  assumes "cs_at it xs"
  shows "\<exists>d it'. cs_Advance t it = Inr (d, it')
    \<and> (case skip_to t xs of [] \<Rightarrow> d = NO_MORE_DOCS \<and> cs_ended it'
       | y # ys \<Rightarrow> d = y \<and> cs_at it' ys \<and> cs_docID it' = y)"
  using cs.advance_at[OF assms, of t] unfolding cs_vtable_def
  by (simp add: conj_ac cong: list.case_cong conj_cong)

theorem compressed_set_Advance_witness:
  "\<exists>d it'. cs_Advance 7 (cs_iter new_compressed_set) = Inr (d, it')
    \<and> (case skip_to 7 [] of [] \<Rightarrow> d = NO_MORE_DOCS \<and> cs_ended it'
       | y # ys \<Rightarrow> d = y \<and> cs_at it' ys \<and> cs_docID it' = y)"
  by (rule compressed_set_Advance[OF cs_iter_at[OF cs_docs_new]])

text \<open>
  C9. The bit packing with integrated differential coding: 32 registers of four integers whose deltas
  fit in \<open>b\<close> bits are packed into \<open>b\<close> registers, and unpacked from them, for every width \<open>b \<le> 32\<close>.
\<close>

theorem integrated_packing_roundtrip:
  assumes "length rs = 32" and "b \<le> 32"
    and "b < 32 \<longrightarrow> (\<forall>i<32. fits b (delta_regs (mm_set1_epi32 v) rs ! i))"
  shows "\<exists>out. simdpackwithoutmaskd1 v rs (of_nat b) = Some out \<and> length out = b
    \<and> simdunpackd1 v (out @ rest) (of_nat b) = Some rs"
  using assms by (rule pack_unpack_block)

theorem integrated_packing_roundtrip_witness:
  "\<exists>out. simdpackwithoutmaskd1 0 (replicate 32 (mm_set1_epi32 7)) 32 = Some out \<and> length out = 32
    \<and> simdunpackd1 0 (out @ []) 32 = Some (replicate 32 (mm_set1_epi32 7))"
  using integrated_packing_roundtrip[of "replicate 32 (mm_set1_epi32 7)" 32 0 "[]"] by simp

text \<open>
  C10. \<open>Codec\<close>: compressing an array whose full blocks are sorted never writes past the chunk it
  allocates, fills it exactly, and decompressing gives the array back.
\<close>

theorem codec_roundtrip:
  assumes "sorted (take (roundedlength (length inp)) inp)" and "length inp < 2 ^ 32" and "length inp \<le> n"
  shows "\<exists>c. Compress inp = Inr c \<and> compressedSize c = length (chunk_data c)
    \<and> length (chunk_data c) = composite_compressedSize inp \<and> Uncompress c n = Inr inp"
  using assms by (rule Compress_Uncompress)

theorem codec_roundtrip_witness:
  "\<exists>c. Compress [9, 2, 300] = Inr c \<and> compressedSize c = length (chunk_data c)
    \<and> length (chunk_data c) = composite_compressedSize [9, 2, 300] \<and> Uncompress c 3 = Inr [9, 2, 300]"
  by (rule codec_roundtrip) (simp_all add: roundedlength_def block_consts)

text \<open>
  C11. \<open>find\<close> is membership, whether the id is in the uncompressed block, in a compressed one, between
  two of them or beyond the last; the scan of the decompressed block stays inside its buffer although
  \<open>Uncompress\<close> reports bytes where \<open>find\<close> means integers.
\<close>

theorem compressed_set_find:
  assumes "cs_docs s xs"
  shows "cs_find t s = Inr (t \<in> set xs)"
  using assms by (rule cs_find_mem)

theorem compressed_set_find_witness: "cs_find 4 new_compressed_set = Inr ((4 :: u32) \<in> set [])"
  by (rule compressed_set_find[OF cs_docs_new])

text \<open>
  C12. The unbatched index over a name space of the store in memory: adding a document for a set of words
  succeeds, and the index then holds the document in the set of each of them, once, and what it held
  before in all others.
\<close>

theorem index_add_documents:
  assumes "index_holds SetFactory cs_docs (ns_abs c mem_map s) P" and "distinct ws"
    and "\<forall>w\<in>set ws. doc_list (post_doc d (docs_of P w)) \<and> length (docs_of P w) + 1 < 2 ^ 31"
  shows "\<exists>s'. index_add_words (ns_vtable c mem_vtable) SetFactory d ws s = Inr s'
    \<and> index_holds SetFactory cs_docs (ns_abs c mem_map s') (\<lambda>w. if w \<in> set ws then Some (post_doc d (docs_of P w)) else P w)"
  using index.add_words_holds[OF assms(1) TrueI assms(2,3)] by auto

theorem index_add_documents_witness:
  "\<exists>s'. index_add_words (ns_vtable 105 mem_vtable) SetFactory 5 [1, 2] new_kv_memory = Inr s'
    \<and> index_holds SetFactory cs_docs (ns_abs 105 mem_map s') (\<lambda>w. if w \<in> set [1, 2] then Some [5] else None)"
proof -
  have "index_holds SetFactory cs_docs (ns_abs 105 mem_map new_kv_memory) (\<lambda>_. None)"
    by (simp add: index_holds_def ns_abs_def new_kv_memory_def)
  from index_add_documents[OF this, of "[1, 2]" 5] show ?thesis
    by (simp add: post_doc_def NO_MORE_DOCS_def cong: if_cong)
qed

text \<open>
  C13. The bulk insertion \<open>addDocs\<close> and the loop over \<open>addDoc\<close> agree: both succeed and the sets they
  leave hold the old ids followed by the range.  The code keeps \<open>newStart\<close> and \<open>leftLen\<close> in \<open>int\<close>, so
  the range has to end below \<open>2 ^ 31\<close>; beyond, it would index in front of the array.
\<close>

theorem compressed_set_addDocs:
  assumes "cs_docs s xs" and "unat start + unat len \<le> length docids"
    and "doc_list (xs @ take (unat len) (drop (unat start) docids))" and "length xs + unat len < 2 ^ 31"
    and "unat start + unat len < 2 ^ 31"
  shows "\<exists>s1 s2. cs_addDocs docids start len s = Inr s1
    \<and> fold_res (\<lambda>s d. cs_addDoc d s) s (take (unat len) (drop (unat start) docids)) = Inr s2
    \<and> cs_docs s1 (xs @ take (unat len) (drop (unat start) docids))
    \<and> cs_docs s2 (xs @ take (unat len) (drop (unat start) docids))"
  using cs_addDocs_docs[OF assms] addDocs_all_docs[OF assms(1,3)] assms(2,4) by auto

theorem compressed_set_addDocs_witness:
  "\<exists>s1 s2. cs_addDocs [9, 4, 8] 1 2 new_compressed_set = Inr s1
    \<and> fold_res (\<lambda>s d. cs_addDoc d s) new_compressed_set (take (unat (2 :: u64)) (drop (unat (1 :: u64)) [9, 4, 8])) = Inr s2
    \<and> cs_docs s1 ([] @ take (unat (2 :: u64)) (drop (unat (1 :: u64)) [9, 4, 8]))
    \<and> cs_docs s2 ([] @ take (unat (2 :: u64)) (drop (unat (1 :: u64)) [9, 4, 8]))"
  by (rule compressed_set_addDocs[OF cs_docs_new]) (simp_all add: NO_MORE_DOCS_def)

text \<open>
  C14. Why the previous claim needs its condition: the batch processor flushes without the mutex.  There is
  an interleaving in which documents 1 and 2 are added for word 1, both threads are done and nothing
  is pending, but the store holds document 1 only.
\<close>

theorem flush_race_loses_document:
  "\<exists>x. blog (ns_vtable c mem_vtable) SetFactory (start_system new_kv_memory) (\<lambda>w. if w = 1 then [1, 2] else []) x
    \<and> main x = MIdle \<and> proc x = PTop \<and> postings (idx x) = (\<lambda>_. None)
    \<and> index_holds SetFactory cs_docs (ns_abs c mem_map (bi_store (idx x))) [1 \<mapsto> [1]]"
proof -
  have "index_holds SetFactory cs_docs (ns_abs c mem_map new_kv_memory) (\<lambda>_. None)"
    by (simp add: index_holds_def ns_abs_def new_kv_memory_def)
  from inverted_index.flush_race[OF index.inverted_index_axioms TrueI this] show ?thesis .
qed

text \<open>
  C15. \<open>shutDownBatchProcessor\<close> sets \<open>dataReady\<close> and \<open>done\<close> one after the other without the mutex.  If the
  processor takes a batch in between, it resets \<open>dataReady\<close> and waits for it again: a state is reachable
  from which the caller is still joining the thread in every state that can follow.
\<close>

theorem shutdown_can_hang:
  "\<exists>x. blog (ns_vtable c mem_vtable) SetFactory (start_system new_kv_memory) (\<lambda>_. []) x
    \<and> {main y | y. \<exists>A. blog (ns_vtable c mem_vtable) SetFactory x A y} = {MJoining}"
proof -
  from kv_store.shutdown_reaches_hung[OF ns_mem.kv_store_axioms TrueI] obtain x where
    x: "blog (ns_vtable c mem_vtable) SetFactory (start_system new_kv_memory) (\<lambda>_. []) x" "hung x" by blast
  let ?next = "{main y | y. \<exists>A. blog (ns_vtable c mem_vtable) SetFactory x A y}"
  have "?next \<subseteq> {MJoining}" using hung_reach[OF _ x(2)] by (auto simp: hung_def)
  moreover have "main x \<in> ?next" using blog.here by blast
  then have "MJoining \<in> ?next" using x(2) by (simp add: hung_def)
  ultimately have "?next = {MJoining}" by blast
  with x(1) show ?thesis by blast
qed

text \<open>
  C16. The older batching index under every interleaving of its two threads.  In every reachable state \<open>evictAll\<close>
  succeeds, and what the store then holds, the vector of the consumer and that of the producer are
  together, in this order, the documents added for every word.  A consumer that has taken a batch is
  never stuck.
\<close>

theorem cached_index_no_posting_lost:
  assumes "clog (ns_vtable c mem_vtable) SetFactory (start_csystem new_kv_memory junk) A x"
    and "\<forall>w. doc_list (A w) \<and> length (A w) < 2 ^ 31"
  shows "\<exists>s' P. ci_evictAll (ns_vtable c mem_vtable) SetFactory 100001 (ci x) = Inr s'
    \<and> index_holds SetFactory cs_docs (ns_abs c mem_map s') P
    \<and> (\<forall>w. A w = docs_of P w @ added_to (consumerVec (ci x)) w @ added_to (producerVec (ci x)) w)
    \<and> (consumer x = CFlush \<longrightarrow> (\<exists>y. cstep (ns_vtable c mem_vtable) SetFactory x CSilent y \<and> consumer y = CTop))"
proof -
  have new: "index_holds SetFactory cs_docs (ns_abs c mem_map new_kv_memory) (\<lambda>_. None)"
    by (simp add: index_holds_def ns_abs_def new_kv_memory_def)
  have fit: "added_fit A" using assms(2) by (simp add: added_fit_def)
  note ax = index.inverted_index_axioms
  from inverted_index.reachable_store[OF ax assms(1) TrueI new fit] inverted_index.flush_enabled[OF ax assms(1) TrueI new fit]
  show ?thesis by blast
qed

theorem cached_index_no_posting_lost_witness:
  "\<exists>(x :: (kv_memory, compressed_set) csystem) s' P. ci_evictAll (ns_vtable 105 mem_vtable) SetFactory 100001 (ci x) = Inr s'
    \<and> index_holds SetFactory cs_docs (ns_abs 105 mem_map s') P \<and> docs_of P 7 = [1]"
proof -
  have new: "index_holds SetFactory cs_docs (ns_abs 105 mem_map new_kv_memory) (\<lambda>_. None)"
    by (simp add: index_holds_def ns_abs_def new_kv_memory_def)
  have "(1 :: u32) \<noteq> NO_MORE_DOCS" by (simp add: NO_MORE_DOCS_def)
  from inverted_index.shutdown_stores[OF index.inverted_index_axioms TrueI new this] obtain x where
    x: "clog (ns_vtable 105 mem_vtable) SetFactory (start_csystem new_kv_memory undefined) (\<lambda>v. if v = 7 then [1] else []) x"
      "consumerVec (ci x) = []" "producerVec (ci x) = []" by blast
  have "\<forall>w. doc_list (if w = 7 then [1] else []) \<and> length (if w = (7 :: u32) then [1 :: u32] else []) < 2 ^ 31"
    by (simp add: NO_MORE_DOCS_def)
  from cached_index_no_posting_lost[OF x(1) this] x(2,3) obtain s' P where
    "ci_evictAll (ns_vtable 105 mem_vtable) SetFactory 100001 (ci x) = Inr s'"
    "index_holds SetFactory cs_docs (ns_abs 105 mem_map s') P"
    "\<forall>w. (if w = 7 then [1] else []) = docs_of P w" by auto
  then show ?thesis by (intro exI[of _ x] exI[of _ s'] exI[of _ P]) (metis (mono_tags))
qed

text \<open>
  C17. The cache against a list.  From a new cache of \<open>n > 0\<close> entries, any sequence of \<open>get\<close> and \<open>put\<close>
  gives the answers, the calls of the callback and the errors of the callback that a list of at most
  \<open>n\<close> entries in the order of their use gives; the links never lead to a null pointer.  \<open>evictAll\<close> ends
  and hands the dirty entries to the callback, least recently used first.
\<close>

theorem lru_cache_refines:
  assumes "0 < n"
  shows "case fold_res (spec_step cb n) ([], s, []) ops of
      Inl e \<Rightarrow> fold_res (lru_step cb) (new_lru n junk, s, []) ops = Inl e
    | Inr (es, s', rs) \<Rightarrow>
        \<exists>c. fold_res (lru_step cb) (new_lru n junk, s, []) ops = Inr (c, s', rs)
          \<and> lru_evictAll cb (n + 1) c s' = fold_res (spec_evict cb) s' (rev es)"
proof (cases "fold_res (spec_step cb n) ([], s, []) ops")
  case (Inl e)
  with lru_run_refines[OF new_lru_holds[of n junk] assms, where cb = cb and s = s and rs = "[]" and ops = ops] show ?thesis by simp
next
  case (Inr r)
  obtain es s' rs where r: "r = (es, s', rs)" by (cases r)
  with lru_run_refines[OF new_lru_holds[of n junk] assms, where cb = cb and s = s and rs = "[]" and ops = ops] Inr obtain c where
    c: "fold_res (lru_step cb) (new_lru n junk, s, []) ops = Inr (c, s', rs)" "lru_holds n c es" by auto
  have "lru_evictAll cb (n + 1) c s' = fold_res (spec_evict cb) s' (rev es)"
    using lru_holds_length[OF c(2)] by (intro lru_evictAll_refines[OF c(2)]) simp
  with c(1) Inr r show ?thesis by simp
qed

theorem lru_cache_refines_witness:
  "\<exists>c. fold_res (lru_step (\<lambda>k v s. Inr (s @ [(k, v)])))
       (new_lru 1 (\<lambda>_. \<lparr>node_key = 0, node_value = 0, node_dirty = False, node_prev = NullPtr, node_next = NullPtr\<rparr>), [], [])
       [LruPut (1 :: u32) (5 :: nat) True, LruPut 2 6 True, LruGet 1, LruGet 2] = Inr (c, [(1, 5)], [None, Some 6])
     \<and> lru_evictAll (\<lambda>k v s. Inr (s @ [(k, v)])) (1 + 1) c [(1, 5)] = Inr [(1, 5), (2, 6)]"
  using lru_cache_refines[where n = 1 and cb = "\<lambda>k v s. Inr (s @ [(k, v)])" and s = "[]"
      and ops = "[LruPut (1 :: u32) (5 :: nat) True, LruPut 2 6 True, LruGet 1, LruGet 2]"
      and junk = "\<lambda>_. \<lparr>node_key = 0, node_value = 0, node_dirty = False, node_prev = NullPtr, node_next = NullPtr\<rparr>"]
  by (simp add: spec_put_def spec_get_def spec_evict_def drop_key_def)

text \<open>
  C18. The index over keys of one length, with its bit vector, its Huffman and Golomb codes and the trie over
  them.  \<open>n\<close> keys whose first bytes are distinct and sorted, at least two: after \<open>flush\<close>, \<open>locate\<close> returns
  the position of each key, and some position for any other key; nothing is read out of range and no
  assertion fails.
\<close>

theorem entropy_trie_locates:
  assumes "sorted_wrt (<) (map (take key_len) keys)" and "\<forall>k\<in>set keys. key_len \<le> length k"
    and "2 \<le> length keys" and "length keys < 2 ^ 62"
  shows "\<exists>et. rbind (new_entropy_trie mem n_mem key_len) (\<lambda>et. rbind (insert_keys keys et) et_flush) = Inr et
    \<and> (\<forall>i < length keys. et_locate (keys ! i) et = Inr i)
    \<and> (\<forall>key. key_len \<le> length key \<longrightarrow> (\<exists>r \<le> length keys. et_locate key et = Inr r))"
proof -
  from assms have "keys_ok key_len keys" by (simp add: keys_ok_def)
  from index_built[OF this] show ?thesis using index_locates_keys index_locates by (metis order_refl)
qed

theorem entropy_trie_locates_witness:
  "\<forall>mem n_mem. entropy_main mem n_mem = Inr 1"
proof (intro allI)
  fix mem n_mem
  let ?keys = "map (\<lambda>s. s @ [0]) main_strings"
  have "sorted_wrt (<) (map (take 5) ?keys)" "\<forall>k\<in>set ?keys. 5 \<le> length k" "2 \<le> length ?keys" "length ?keys < 2 ^ 62"
    by (simp_all add: main_strings_def)
  from entropy_trie_locates[OF this, of mem n_mem] obtain et where
    et: "rbind (new_entropy_trie mem n_mem 5) (\<lambda>et. rbind (insert_keys ?keys et) et_flush) = Inr et"
      "\<forall>i < length ?keys. et_locate (?keys ! i) et = Inr i" by blast
  have "et_locate_string [97, 97, 97, 97, 98] et = Inr 1"
    using et(2)[rule_format, of 1] by (simp add: et_locate_string_def main_strings_def)
  with et(1) show "entropy_main mem n_mem = Inr 1"
    by (simp add: entropy_main_def insert_strings rbind_assoc[symmetric])
qed

text \<open>
  C19. What the vectors of the previous claim mean for a shutdown: the consumer leaves its loop without looking
  at the vector of the producer.  A document is added, the destructor runs, both threads are done, and the
  store is unchanged while the document is still in the vector that is destroyed.
\<close>

theorem shutdown_loses_posting:
  "\<exists>x. clog V S (start_csystem s junk) (\<lambda>v. if v = w then [d] else []) x \<and> caller x = KStopped
    \<and> producerVec (ci x) = [(d, w)] \<and> ci_evictAll V S 100001 (ci x) = Inr s"
  by (rule shutdown_loses)

text \<open>
  C20. The tokenizer against a specification on whole strings: calling \<open>nextToken\<close> until it fails delivers,
  in order, the words of the string, leaving out those that together with the words passed over since
  the last token have at most two characters.
\<close>

theorem tokenizer_delivers_tokens:
  "\<exists>t'. for_tokens (\<lambda>w ws. Inr (ws @ [w])) (setString str t) [] = Inr (tokens str, t')"
proof -
  have "fold_res (\<lambda>ws w. Inr (ws @ [w])) acc ts = Inr (acc @ ts)" for acc ts :: "bytes list"
    by (induction ts arbitrary: acc) simp_all
  then show ?thesis using for_tokens_string[of "\<lambda>w ws. Inr (ws @ [w])" str t "[]"] by simp
qed

text \<open>
  C21. Name spaces: a store seen through a prefix of its keys is a store of its own.  A write and a write of
  many integer keys update the map of the name space as a map is updated, and the map of any other
  name space stays as it is.
\<close>

theorem name_spaces_separate:
  assumes "a \<noteq> b"
  shows "(\<exists>s'. kv_Put (ns_vtable a mem_vtable) k v s = (kOk, s')
      \<and> ns_abs a mem_map s' = (ns_abs a mem_map s)(k \<mapsto> v) \<and> ns_abs b mem_map s' = ns_abs b mem_map s)
    \<and> (\<exists>s'. kv_PutMany32 (ns_vtable a mem_vtable) ws s = Inr (kOk, s')
      \<and> ns_abs a mem_map s' = put_all (map (\<lambda>(i, v). (int_key i, v)) ws) (ns_abs a mem_map s)
      \<and> ns_abs b mem_map s' = ns_abs b mem_map s)"
proof -
  have "ns_abs b mem_map (s\<lparr>mem_map := (mem_map s)(a # k \<mapsto> v)\<rparr>) = ns_abs b mem_map s"
    using assms by (simp add: ns_abs_def)
  moreover have "ns_abs a mem_map (s\<lparr>mem_map := (mem_map s)(a # k \<mapsto> v)\<rparr>) = (ns_abs a mem_map s)(k \<mapsto> v)"
    by (simp add: ns_abs_def fun_eq_iff)
  ultimately have put: "\<exists>s'. kv_Put (ns_vtable a mem_vtable) k v s = (kOk, s')
      \<and> ns_abs a mem_map s' = (ns_abs a mem_map s)(k \<mapsto> v) \<and> ns_abs b mem_map s' = ns_abs b mem_map s"
    by (simp add: ns_vtable_def ns_Put_def mem_vtable_def)
  have "kv_PutMany32 (ns_vtable a mem_vtable) ws s
      = Inr (kOk, s\<lparr>mem_map := put_all (map (\<lambda>w. (a # fst w, snd w)) (map (\<lambda>(i, v). (int_key i, v)) ws)) (mem_map s)\<rparr>)"
    by (simp add: ns_vtable_def ns_PutMany32_def ns_writes32_ok mem_vtable_def mem_PutMany_def mem_PutMany_loop_ok)
  with put show ?thesis using assms unfolding ns_abs_def
    by (simp add: put_all_prefix put_all_other del: map_map)
qed

theorem name_spaces_separate_witness:
  "\<exists>s'. kv_Put (ns_vtable 1 mem_vtable) [7] [8] new_kv_memory = (kOk, s')
      \<and> ns_abs 1 mem_map s' = (ns_abs 1 mem_map new_kv_memory)([7] \<mapsto> [8])
      \<and> ns_abs 2 mem_map s' = ns_abs 2 mem_map new_kv_memory"
  using name_spaces_separate[of 1 2 "[7]" "[8]" new_kv_memory "[]"] by simp

text \<open>
  C22. \<open>trie::encode\<close> and \<open>trie::locate\<close> with both orderings and with k-perfect hashing: sorted keys are appended to
  any bit vector; read from where that was, each key is located at or before its own place and in the
  same block of \<open>dest_keys_per_block\<close> places of the destination.
\<close>

theorem trie_locates_blocks:
  assumes "limit \<le> 30" and "bv_ok out_buf" and "sorted_wrt (<) keys" and "\<forall>k\<in>set keys. length k = key_len"
    and "length keys < 2 ^ 62"
  shows "\<exists>tr out'. new_trie mem weak limit = Inr tr
    \<and> trie_encode tr out_buf keys key_len 0 (length keys) db dk 0 = Inr out'
    \<and> (\<forall>i < length keys. \<exists>r it. trie_locate tr out' (bv_size out_buf) (keys ! i) key_len 0 (length keys) db dk 0 = Inr (r, it)
         \<and> r \<le> i \<and> (db + r) div dk = (db + i) div dk)"
proof -
  obtain tr where "new_trie mem weak limit = Inr tr" "trie_ok tr" using new_trie_ok[OF assms(1)] by blast
  with block_locate[OF _ assms(2-5), of tr db dk] show ?thesis by blast
qed

theorem trie_locates_blocks_witness:
  "\<forall>mem. \<exists>out_buf tr out' r it. bv_new = Inr out_buf \<and> new_trie mem True 16 = Inr tr
    \<and> trie_encode tr out_buf [[1], [3], [8], [9]] 1 0 4 1 2 0 = Inr out'
    \<and> trie_locate tr out' (bv_size out_buf) [8] 1 0 4 1 2 0 = Inr (r, it) \<and> (1 + r) div 2 = 1"
proof
  fix mem
  obtain out_buf where o: "bv_new = Inr out_buf" "bv_ok out_buf" using bv_new_ok by blast
  obtain ks where ks: "ks = [[1], [3], [8], [9 :: u8]]" by blast
  have limit: "16 \<le> (30 :: nat)" by simp
  have len: "length ks = 4" and ok: "sorted_wrt (<) ks" "\<forall>k\<in>set ks. length k = 1" "length ks < 2 ^ 62" by (simp_all add: ks)
  from trie_locates_blocks[OF limit o(2) ok, of mem True 1 2, unfolded len] obtain tr out' where
    t: "new_trie mem True 16 = Inr tr" "trie_encode tr out_buf ks 1 0 4 1 2 0 = Inr out'"
      "\<forall>i<4. \<exists>r it. trie_locate tr out' (bv_size out_buf) (ks ! i) 1 0 4 1 2 0 = Inr (r, it) \<and> r \<le> i \<and> (1 + r) div 2 = (1 + i) div 2"
    by blast
  from t(3)[rule_format, of 2] obtain r it where
    "trie_locate tr out' (bv_size out_buf) [8] 1 0 4 1 2 0 = Inr (r, it)" "(1 + r) div 2 = 1" by (auto simp: ks)
  with o(1) t(1,2) show "\<exists>out_buf tr out' r it. bv_new = Inr out_buf \<and> new_trie mem True 16 = Inr tr
    \<and> trie_encode tr out_buf [[1], [3], [8], [9]] 1 0 4 1 2 0 = Inr out'
    \<and> trie_locate tr out' (bv_size out_buf) [8] 1 0 4 1 2 0 = Inr (r, it) \<and> (1 + r) div 2 = 1" unfolding ks by blast
qed

text \<open>
  C23. \<open>huffman_rev_table\<close> against \<open>huffman::decode\<close>, for codes made of any frequencies of 2 to 31 symbols, which covers every code the tries make: at an index of
  \<open>max_length\<close> bits the table holds the symbol that \<open>decode\<close> reads from a vector with these bits next, and
  the number of bits that takes.
\<close>

theorem table_decodes_as_tree:
  assumes "2 \<le> length freqs" and "length freqs \<le> 31"
  shows "\<exists>h. huffman_of_freqs mem freqs = Inr h \<and> (\<forall>v < 2 ^ rt_max_length (hf_rev_table h).
      \<exists>s len. rt_symbol (hf_rev_table h) v = Inr s \<and> rt_length (hf_rev_table h) v = Inr len
      \<and> (\<forall>bv i. holds_at bv i (index_bits (rt_max_length (hf_rev_table h)) v 0 (rt_max_length (hf_rev_table h)))
            \<longrightarrow> hf_decode h bv i = Inr (s, i + len)))"
  by (rule table_decodes[OF assms])

theorem table_decodes_as_tree_witness:
  "\<forall>mem. \<exists>h s len. huffman_of_freqs mem [5, 1, 2] = Inr h \<and> rt_symbol (hf_rev_table h) 0 = Inr s \<and> rt_length (hf_rev_table h) 0 = Inr len"
proof
  fix mem
  have "2 \<le> length [5, 1, 2 :: u64]" "length [5, 1, 2 :: u64] \<le> 31" by simp_all
  from table_decodes_as_tree[OF this, of mem] obtain h where
    h: "huffman_of_freqs mem [5, 1, 2] = Inr h"
      "\<forall>v < 2 ^ rt_max_length (hf_rev_table h). \<exists>s len. rt_symbol (hf_rev_table h) v = Inr s \<and> rt_length (hf_rev_table h) v = Inr len"
    by meson
  from h(2)[rule_format, of 0] h(1)
  show "\<exists>h s len. huffman_of_freqs mem [5, 1, 2] = Inr h \<and> rt_symbol (hf_rev_table h) 0 = Inr s \<and> rt_length (hf_rev_table h) 0 = Inr len"
    by simp
qed

text \<open>
  C24. The sparse set, whose arrays hold arbitrary numbers outside the part in use: every operation succeeds
  without leaving the arrays and keeps them pointing at each other; \<open>insert\<close>, \<open>remove\<close>, \<open>clear\<close> and
  \<open>ismember\<close> act as on a set, and \<open>insert\<close> grows the arrays when the number does not fit.
\<close>

theorem sparse_set_operations:
  assumes "ss_ok s" and "length (ss_elems s) + 1 < 2 ^ 32"
  shows "ismember i s = Inr (i \<in> set (ss_elems s))
    \<and> (\<exists>s'. ss_insert i s = Inr s' \<and> ss_ok s' \<and> set (ss_elems s') = insert i (set (ss_elems s)))
    \<and> (\<exists>s'. ss_remove i s = Inr s' \<and> ss_ok s' \<and> set (ss_elems s') = set (ss_elems s) - {i})
    \<and> ss_ok (ss_clear s) \<and> ss_elems (ss_clear s) = [] \<and> distinct (ss_elems s)"
  using ismember_elems[OF assms(1)] ss_insert_set[OF assms] ss_remove_elems[OF assms(1)] ss_clear_ok[OF assms(1)]
    ss_elems_distinct[OF assms(1)]
  by blast

theorem sparse_set_operations_witness:
  "\<exists>s'. ss_insert 9 (new_sparse_set 4) = Inr s' \<and> ss_ok s' \<and> set (ss_elems s') = {9}"
  using sparse_set_operations[OF ss_ok_new[of 4], of 9] by (simp add: ss_elems_new)

text \<open>
  C25. A document cannot be deleted: once it has been flushed into the index, \<open>deleteDocument\<close> of any
  document with at least one token throws \<open>-17\<close>, as the sets the engine runs with cannot take an id
  out in place.
\<close>

theorem delete_indexed_document_fails:
  assumes "trie_contract T tmap" and "tmap tree = (\<lambda>_. None)" and "hash_order ord" and "docs_fit (added_docs evs)"
    and "i < length (added_docs evs)" and "x \<in> set (entries (added_docs evs ! i))" and "tokens (snd x) \<noteq> []"
  shows "\<exists>e e'. engine_open mem_vtable tree new_kv_memory = Inr e
    \<and> fold_res (engine_step mem_vtable T ord) e (evs @ [FlushNow]) = Inr e'
    \<and> deleteDocument mem_vtable T (of_nat (Suc i)) e' = Some (Inl (Thrown (- 17)))"
proof -
  from run_engine[OF assms(1-4)] obtain e e' where e: "engine_open mem_vtable tree new_kv_memory = Inr e"
      "fold_res (engine_step mem_vtable T ord) e (evs @ [FlushNow]) = Inr e'"
      "engine_flushed mem_map (\<lambda>_. True) tmap (added_docs evs) e'" by blast
  from mem.deleteDocument_fails[OF e(3) assms(1,4-7)] e(1,2) show ?thesis by blast
qed

theorem delete_indexed_document_fails_witness:
  "\<exists>(T :: (bytes \<rightharpoonup> u32) trie_ops) ord e e'. engine_open mem_vtable (\<lambda>_. None) new_kv_memory = Inr e
    \<and> fold_res (engine_step mem_vtable T ord) e ([AddDoc \<lparr>entries = [([116], [65, 66, 67])]\<rparr>] @ [FlushNow]) = Inr e'
    \<and> deleteDocument mem_vtable T 1 e' = Some (Inl (Thrown (- 17)))"
proof -
  obtain ord where ord: "hash_order ord" using hash_order_exists by blast
  have t: "tokens [65, 66, 67] = [[97, 98, 99]]" by code_simp
  let ?evs = "[AddDoc \<lparr>entries = [([116], [65, 66, 67])]\<rparr>]"
  have ds: "added_docs ?evs = [\<lparr>entries = [([116], [65, 66, 67])]\<rparr>]" by (simp add: added_docs_def)
  have "docs_fit (added_docs ?evs)" unfolding ds by (simp add: docs_fit_def num_tokens_def storable_def t)
  then show ?thesis
    using delete_indexed_document_fails[OF map_trie _ ord, of "\<lambda>_. None" ?evs 0 "([116], [65, 66, 67])"] by (auto simp: ds t)
qed

text \<open>
  C26. Fetching documents: \<open>getDocs\<close> hands \<open>getDoc\<close> an empty pointer, which is dereferenced as soon as an
  id is found; \<open>getDoc\<close> with a document to fill gives the fields that were stored and one more, with
  an empty name and value.
\<close>

theorem stored_document_access:
  assumes "trie_contract T tmap" and "tmap tree = (\<lambda>_. None)" and "hash_order ord" and "docs_fit (added_docs evs)"
    and "i < length (added_docs evs)"
  shows "\<exists>e e'. engine_open mem_vtable tree new_kv_memory = Inr e
    \<and> fold_res (engine_step mem_vtable T ord) e (evs @ [FlushNow]) = Inr e'
    \<and> engine_getDocs mem_vtable (of_nat (Suc i) # ids) e' = Some (Inl NullPointer)
    \<and> engine_getDoc mem_vtable (of_nat (Suc i)) (Some new_document) e'
        = Some (Inr (True, Some (new_document\<lparr>entries := entries (added_docs evs ! i) @ [([], [])]\<rparr>)))"
proof -
  from run_engine[OF assms(1-4)] obtain e e' where e: "engine_open mem_vtable tree new_kv_memory = Inr e"
      "fold_res (engine_step mem_vtable T ord) e (evs @ [FlushNow]) = Inr e'"
      "engine_inv mem_map (\<lambda>_. True) tmap (added_docs evs) e'" by (auto simp: engine_flushed_def)
  from mem.getDocs_fails[OF e(3) assms(4,5)] mem.getDoc_stored[OF e(3) assms(4,5)] e(1,2) show ?thesis by blast
qed

theorem stored_document_access_witness:
  "\<exists>(T :: (bytes \<rightharpoonup> u32) trie_ops) ord e e'. engine_open mem_vtable (\<lambda>_. None) new_kv_memory = Inr e
    \<and> fold_res (engine_step mem_vtable T ord) e ([AddDoc \<lparr>entries = [([116], [65])]\<rparr>] @ [FlushNow]) = Inr e'
    \<and> engine_getDocs mem_vtable [1] e' = Some (Inl NullPointer)
    \<and> engine_getDoc mem_vtable 1 (Some new_document) e' = Some (Inr (True, Some \<lparr>entries = [([116], [65]), ([], [])]\<rparr>))"
proof -
  obtain ord where ord: "hash_order ord" using hash_order_exists by blast
  have t: "tokens [65] = []" by code_simp
  let ?evs = "[AddDoc \<lparr>entries = [([116], [65])]\<rparr>]"
  have ds: "added_docs ?evs = [\<lparr>entries = [([116], [65])]\<rparr>]" by (simp add: added_docs_def)
  have "docs_fit (added_docs ?evs)" unfolding ds by (simp add: docs_fit_def num_tokens_def storable_def t)
  then show ?thesis
    using stored_document_access[OF map_trie _ ord, of "\<lambda>_. None" ?evs 0 "[]"] by (auto simp: ds new_document_def)
qed

text \<open>
  C27. \<open>LazyAndNotSet\<close> delivers with \<open>nextDoc\<close> the ids of the base set without those of the other.
\<close>

theorem lazy_and_not_drain:
  assumes "cs_docs base bs" and "cs_docs nott ns" and "length bs < n"
  shows "\<exists>it. andnot_iter cs_vtable (cs_iter base) (cs_iter nott) = Inr it
    \<and> drain (andnot_vtable cs_vtable cs_vtable) n it = Some (Inr (filter (\<lambda>x. x \<notin> set ns) bs))"
proof -
  from andnot_docs_at[OF assms(1,2)] obtain it where
    "andnot_iter cs_vtable (cs_iter base) (cs_iter nott) = Inr it"
    "andnot_at cs_at cs_at cs_ended it (filter (\<lambda>x. x \<notin> set ns) bs)" by blast
  moreover have "length (filter (\<lambda>x. x \<notin> set ns) bs) < n"
    using assms(3) length_filter_le le_less_trans by blast
  ultimately show ?thesis using cs_andnot.drain_at by blast
qed

theorem lazy_and_not_drain_witness:
  "\<exists>it. andnot_iter cs_vtable (cs_iter new_compressed_set) (cs_iter new_compressed_set) = Inr it
    \<and> drain (andnot_vtable cs_vtable cs_vtable) 1 it = Some (Inr (filter (\<lambda>x. x \<notin> set []) []))"
  by (rule lazy_and_not_drain[OF cs_docs_new cs_docs_new]) simp

text \<open>
  C28. A defect of \<open>LazyAndNotSet::Advance\<close>: asked for an id that is in the base set and is the first of
  the deleted ids, it delivers it, so that \<open>find\<close> finds an id the iteration does not deliver.
\<close>

theorem lazy_and_not_find_deleted:
  assumes "cs_docs base bs" and "cs_docs nott (d # ns)" and "d \<in> set bs"
  shows "andnot_find cs_vtable cs_vtable d (cs_iter base) (cs_iter nott) = Inr True"
proof -
  have dl: "doc_list (d # ns)" using cs_docs_doc_list[OF assms(2)] .
  obtain n where n: "cs_nextDoc (cs_iter nott) = Inr (d, n)" "cs_at n ns"
    using cs.next_Cons[OF cs_iter_at[OF assms(2)]] by (auto simp: cs_vtable_def)
  let ?it = "\<lparr>nextDelDoc = d, baseIter = cs_iter base, notIter = n, currID = - 1\<rparr>"
  obtain bs' where "skip_to d bs = d # bs'"
    using assms(1,3) cs_docs_doc_list mem_skip_to by blast
  with andnot_Advance_deleted[OF cs.doc_iterator_axioms cs.doc_iterator_axioms, of ?it bs ns d bs']
    cs_iter_at[OF assms(1)] n(2) dl
  obtain it' where "andnot_Advance cs_vtable cs_vtable d ?it = Inr (d, it')"
    by (auto simp: andnot_dels_def)
  with n(1) dl show ?thesis by (simp add: andnot_find_def andnot_iter_def cs_vtable_def)
qed

theorem lazy_and_not_find_deleted_witness:
  "\<exists>s. cs_docs s [5] \<and> andnot_find cs_vtable cs_vtable 5 (cs_iter s) (cs_iter s) = Inr True"
proof -
  obtain s where s: "cs_docs s [5]"
    using cs_addDoc_docs[OF cs_docs_new, of 5] by (auto simp: NO_MORE_DOCS_def)
  with lazy_and_not_find_deleted[OF s s] show ?thesis by auto
qed

text \<open>
  C29. \<open>VariableByte\<close>: decoding inverts encoding for every array of 32-bit values, and the zero padding is
  not taken for values.  The size announced is the size written modulo \<open>2 ^ 32\<close>: exact below \<open>2 ^ 32\<close> bytes,
  as for the less than 2048 values the codec hands it, and wrapped around beyond.
\<close>

theorem variable_byte_roundtrip:
  "vb_decodeArray (vb_encodeArray vals) = Inr vals
    \<and> vb_compressedSize vals = length (vb_encodeArray vals) mod 2 ^ 32 \<and> 4 dvd length (vb_encodeArray vals)"
  using vb_decode_encode[of vals] vb_compressedSize_exact[of vals]
  by (simp add: vb_encodeArray_def vb_pad_replicate padded_dvd_4)

text \<open>
  C30. \<open>SIMDBinaryPacking\<close>: a sorted array of whole blocks is encoded and decoded again at any word
  address of the encoded buffer, the decoder stopping where the encoder did.
\<close>

theorem simd_binary_packing_roundtrip:
  assumes "sorted inp" and "BlockSize dvd length inp" and "length inp < 2 ^ 32"
    and "\<not> needPaddingTo128Bits outaddr"
  shows "\<exists>out. simd_encodeArray addr inp = Inr out
    \<and> (\<forall>rest. simd_decodeArray addr outaddr (out @ rest) = Inr (inp, rest, length inp))"
  using simd_roundtrip[OF assms, of addr] by blast

theorem simd_binary_packing_roundtrip_witness:
  "\<exists>out. simd_encodeArray 1 (replicate 2048 9) = Inr out
    \<and> (\<forall>rest. simd_decodeArray 1 4 (out @ rest) = Inr (replicate 2048 9, rest, length (replicate 2048 (9 :: u32))))"
  by (rule simd_binary_packing_roundtrip) (simp_all add: block_consts needPaddingTo128Bits_def sorted_replicate)

text \<open>
  C31. A full sorted block through \<open>Compress\<close>.  The chunk has 16 bytes for the length and the cookies, 16 for the
  widths of the miniblocks, and 16 bytes for every bit of these widths; that is at most the raw 8192 bytes and 32 of
  headers.  The encoder fills the chunk exactly, and \<open>Uncompress\<close> gives the block back.
\<close>

theorem compressed_block_bound:
  assumes "length inp = BlockSize" and "sorted inp" and "BlockSize \<le> n"
  shows "\<exists>c. Compress inp = Inr c \<and> compressedSize c = 32 + 16 * sum_list (block_bits inp)
    \<and> length (chunk_data c) = compressedSize c \<and> compressedSize c \<le> 4 * length inp + 32
    \<and> Uncompress c n = Inr inp"
proof -
  have "sorted (take (roundedlength (length inp)) inp)" "length inp < 2 ^ 32" "length inp \<le> n"
    using assms by (simp_all add: sorted_wrt_take block_consts)
  from Compress_Uncompress[OF this] compressedSize_block_bits[OF assms(1)] compressedSize_block[OF assms(1)] assms(1)
  show ?thesis by (auto simp: block_consts)
qed

theorem compressed_block_bound_witness:
  "\<exists>c. Compress (replicate 2048 7) = Inr c \<and> compressedSize c = 32 + 16 * sum_list (block_bits (replicate 2048 7))
    \<and> length (chunk_data c) = compressedSize c \<and> compressedSize c \<le> 4 * length (replicate 2048 (7 :: u32)) + 32
    \<and> Uncompress c 2048 = Inr (replicate 2048 7)"
  by (rule compressed_block_bound) (simp_all add: block_consts)

text \<open>
  C32. Stored documents: \<open>readMini\<close> gets back the fields \<open>writeMini\<close> wrote, in order, and adds one with an
  empty name and value, because its loop runs while \<open>i <= numelem\<close>.
\<close>

theorem document_mini_roundtrip:
  assumes "storable d"
  shows "\<exists>out. writeMini d = Inr out \<and> readMini out d' = Some (d'\<lparr>entries := entries d @ [([], [])]\<rparr>)"
  using writeMini_mini[OF assms] readMini_mini[OF assms] by blast

theorem document_mini_roundtrip_witness:
  "\<exists>out. writeMini \<lparr>entries = [([1], [2, 3])]\<rparr> = Inr out
    \<and> readMini out \<lparr>entries = []\<rparr> = Some \<lparr>entries = [([1], [2, 3]), ([], [])]\<rparr>"
  using document_mini_roundtrip[of "\<lparr>entries = [([1], [2, 3])]\<rparr>" "\<lparr>entries = []\<rparr>"] by (simp add: storable_def)

text \<open>
  C33. \<open>readMini\<close> on arbitrary bytes: it returns, unless the count of fields at the front is \<open>2^32 - 1\<close>, when
  the counter of its loop wraps around and the loop never ends.
\<close>

theorem readMini_terminates:
  "(readMini src d = None) = (snd (snd (GetVarint32 src 0)) = 2 ^ 32 - 1)"
proof -
  obtain b s n where g: "GetVarint32 src 0 = (b, s, n)" by (metis prod.exhaust)
  show ?thesis
  proof (cases "n = 2 ^ 32 - 1")
    case True
    then show ?thesis using g readMini_loop_forever by (simp add: readMini_def)
  next
    case False
    then show ?thesis using g readMini_loop_ends[OF False, of 0 s "[]"] by (auto simp: readMini_def)
  qed
qed

text \<open>
  C34. Numbers in decimal: \<open>fbUint64ToChar\<close> puts the digits at the end of its buffer of 19 characters and
  returns how many there are, but leaves the buffer for numbers of 20 digits.  \<open>PutUint64\<close> then
  appends as many characters from the front of the buffer: for numbers below \<open>10^9\<close> these are what the
  stack held before.
\<close>

theorem decimal_conversion:
  assumes "length buf = 19"
  shows "fbUint64ToChar buf v = (if unat v < 10 ^ 19
      then Inr (of_nat (length (decimal (unat v))), take (19 - length (decimal (unat v))) buf @ decimal (unat v))
      else Inl OutOfBounds)
    \<and> (unat v < 10 ^ 9 \<longrightarrow> PutUint64 buf dst v = Inr (dst @ take (length (decimal (unat v))) buf))"
  using fbUint64ToChar_decimal[OF assms] PutUint64_uninitialised[OF assms] by simp

theorem decimal_conversion_witness:
  "PutUint64 (replicate 19 120) [] 42 = Inr [120, 120]"
proof -
  have "length (decimal 42) = 2" by code_simp
  moreover have "take 2 (replicate 19 120) = [120, 120 :: u8]" by code_simp
  moreover have "unat (42 :: u64) = 42" by simp
  ultimately show ?thesis using decimal_conversion[of "replicate 19 120" 42 "[]"] by (simp del: take_replicate)
qed

text \<open>
  C35. The counters of an engine do not survive its end.  After any operations the destructor, whatever is on its
  stack, flushes, stores the fields, and stores of \<open>docId\<close> and \<open>wordId\<close> the wrong end of the buffers of \<open>PutUint64\<close>:
  for counters below \<open>10 ^ 9\<close> nothing but bytes of the stack (\<open>stored_counter_small\<close>).  Over a stack of zeros the engine
  that is opened next has both counters 0, and no exception.
\<close>

theorem counters_not_persisted:
  assumes "trie_contract T tmap" and "tmap tree = (\<lambda>_. None)" and "hash_order ord" and "docs_fit (added_docs evs)"
    and "length buf1 = 19" and "length buf2 = 19"
  shows "\<exists>e e' s'. engine_open mem_vtable tree new_kv_memory = Inr e
    \<and> fold_res (engine_step mem_vtable T ord) e evs = Inr e' \<and> engine_close mem_vtable ord fs buf1 buf2 e' = Inr s'
    \<and> mem_map s' (of_char CHR ''e'' # DOC_ID_KEY) = Some (stored_counter buf1 (Suc (length (added_docs evs))))
    \<and> mem_map s' (of_char CHR ''e'' # WORD_ID_KEY) = Some (stored_counter buf2 (unat (wordId (e_data e'))))
    \<and> (buf1 = replicate 19 0 \<and> buf2 = replicate 19 0 \<longrightarrow>
         (\<exists>e2. engine_open mem_vtable tree2 s' = Inr e2 \<and> e_data e2 = \<lparr>docId = 0, wordId = 0\<rparr>))"
proof -
  have empty: "mem_map new_kv_memory = (\<lambda>_. None)" by (simp add: new_kv_memory_def)
  from mem.engine_open_inv[where tmap = tmap and tree = tree, OF TrueI empty assms(2)] obtain e where
    e: "engine_open mem_vtable tree new_kv_memory = Inr e" "engine_inv mem_map (\<lambda>_. True) tmap [] e" by blast
  from mem.engine_steps_inv[OF assms(1,3) e(2), of evs] assms(4) obtain e' where
    e': "fold_res (engine_step mem_vtable T ord) e evs = Inr e'" "engine_inv mem_map (\<lambda>_. True) tmap (added_docs evs) e'" by auto
  from mem.engine_close_counters[OF e'(2) assms(3,5,6), of fs] obtain s' where
    s': "engine_close mem_vtable ord fs buf1 buf2 e' = Inr s'"
      "mem_map s' (of_char CHR ''e'' # DOC_ID_KEY) = Some (stored_counter buf1 (Suc (length (added_docs evs))))"
      "mem_map s' (of_char CHR ''e'' # WORD_ID_KEY) = Some (stored_counter buf2 (unat (wordId (e_data e'))))"
      "unat (wordId (e_data e')) < 10 ^ 18" by blast
  have "Suc (length (added_docs evs)) < 10 ^ 18" using assms(4) by (simp add: docs_fit_def)
  from mem.engine_reopen_zero[OF TrueI _ _ this s'(4), of s' tree2] s'(2,3) have
    "buf1 = replicate 19 0 \<and> buf2 = replicate 19 0 \<longrightarrow>
       (\<exists>e2. engine_open mem_vtable tree2 s' = Inr e2 \<and> e_data e2 = \<lparr>docId = 0, wordId = 0\<rparr>)" by (simp only: simp_thms) metis
  with e(1) e'(1) s'(1-3) show ?thesis by (intro exI[of _ e] exI[of _ e'] exI[of _ s'] conjI) assumption+
qed

theorem counters_not_persisted_witness:
  "\<exists>(T :: (bytes \<rightharpoonup> u32) trie_ops) ord e e' s' e2. engine_open mem_vtable (\<lambda>_. None) new_kv_memory = Inr e
    \<and> fold_res (engine_step mem_vtable T ord) e [AddDoc \<lparr>entries = [([116], [65, 66, 67])]\<rparr>] = Inr e'
    \<and> engine_close mem_vtable ord [[116]] (replicate 19 0) (replicate 19 0) e' = Inr s'
    \<and> engine_open mem_vtable ((\<lambda>_. None) :: bytes \<rightharpoonup> u32) s' = Inr e2 \<and> e_data e2 = \<lparr>docId = 0, wordId = 0\<rparr>"
proof -
  obtain ord where ord: "hash_order ord" using hash_order_exists by blast
  have t: "tokens [65, 66, 67] = [[97, 98, 99]]" by code_simp
  let ?d = "\<lparr>entries = [([116], [65, 66, 67])]\<rparr> :: document"
  have "docs_fit (added_docs [AddDoc ?d])" by (simp add: added_docs_def docs_fit_def num_tokens_def storable_def t)
  from counters_not_persisted[OF map_trie _ ord this, where tree = "\<lambda>_. None" and ?buf1.0 = "replicate 19 0" and ?buf2.0 = "replicate 19 0"
      and fs = "[[116]]" and ?tree2.0 = "(\<lambda>_. None) :: bytes \<rightharpoonup> u32"]
  show ?thesis by (simp only: length_replicate simp_thms) blast
qed

text \<open>
  C36. All outcomes of \<open>simdpack\<close>, for any values and any width.  Widths above 32 are refused.  The loops of
  the widths 4, 8 and 16 load a 33rd register, which is past the input when nothing follows the
  block.  In every other case exactly as many registers are written as the width says, and \<open>simdunpack\<close> gives
  the values back, masked to the width.
\<close>

theorem simdpack_roundtrip:
  assumes "length rs = 32"
  shows "case simdpack (rs @ after) b of
      Inl e \<Rightarrow> e = LogicError \<and> 32 < b \<or> e = OutOfBounds \<and> b \<in> {4, 8, 16} \<and> after = []
    | Inr out \<Rightarrow> b \<le> 32 \<and> length out = unat b \<and> (b \<in> {4, 8, 16} \<longrightarrow> after \<noteq> [])
        \<and> simdunpack (out @ rest) b = Inr (map (\<lambda>r. mm_and_si128 r (mask_of (unat b))) rs)"
  by (rule simdpack_total[OF assms])

theorem simdpack_roundtrip_witness:
  "case simdpack (replicate 32 (mm_set1_epi32 9) @ []) 3 of
      Inl e \<Rightarrow> e = LogicError \<and> (32 :: u32) < 3 \<or> e = OutOfBounds \<and> 3 \<in> {4, 8, 16 :: u32} \<and> ([] :: m128 list) = []
    | Inr out \<Rightarrow> 3 \<le> (32 :: u32) \<and> length out = unat (3 :: u32) \<and> (3 \<in> {4, 8, 16 :: u32} \<longrightarrow> ([] :: m128 list) \<noteq> [])
        \<and> simdunpack (out @ []) 3 = Inr (map (\<lambda>r. mm_and_si128 r (mask_of (unat (3 :: u32)))) (replicate 32 (mm_set1_epi32 9)))"
  by (rule simdpack_roundtrip) simp

text \<open>
  C37. The plain set: what \<open>write\<close> prints, \<open>read\<close> gets back; iterating the copy with \<open>nextDoc\<close> delivers the ids in
  order when there is one (the first call on an empty set reads behind the end).  \<open>Advance\<close>, from a new
  iterator, returns the id after the first one that is not below the target, where the interface asks for
  that one.
\<close>

theorem basic_set_iteration:
  assumes "bs_docs s xs"
  shows "drain bs_vtable (length xs + 1) (bs_iter (bs_read (bs_write s) t)) = Some (if xs = [] then Inl OutOfBounds else Inr xs)
    \<and> fst (bs_Advance target (bs_iter s)) = (case skip_to target xs of y # z # zs \<Rightarrow> z | _ \<Rightarrow> NO_MORE_DOCS)"
proof
  have "bs_docs (bs_read (bs_write s) t) xs" using assms by (simp add: bs_read_write bs_docs_def)
  then show "drain bs_vtable (length xs + 1) (bs_iter (bs_read (bs_write s) t)) = Some (if xs = [] then Inl OutOfBounds else Inr xs)"
    using bs.drain_at[OF bs_iter_at, of "bs_read (bs_write s) t" xs "length xs + 1"] bs_iter_empty[of "bs_read (bs_write s) t"]
    by (cases "xs = []") (simp_all add: bs_docs_def bs_vtable_def)
qed (rule bs_Advance_skips[OF assms])

theorem basic_set_iteration_witness:
  "drain bs_vtable (length [3, 50 :: u32] + 1) (bs_iter (bs_read (bs_write \<lparr>set_docs = {3, 50}\<rparr>) new_basic_set)) = Some (if [3, 50 :: u32] = [] then Inl OutOfBounds else Inr [3, 50])
    \<and> fst (bs_Advance 3 (bs_iter \<lparr>set_docs = {3, 50}\<rparr>)) = (case skip_to 3 [3, 50] of y # z # zs \<Rightarrow> z | _ \<Rightarrow> NO_MORE_DOCS)"
  by (rule basic_set_iteration) (simp add: bs_docs_def NO_MORE_DOCS_def)

text \<open>
  C38. \<open>fast_getline\<close> on bytes without zeros.  A line of any length, the buffer's and beyond, comes back with
  its line feed and the rest of the file stays.  But when the file does not end in a line feed the last
  chunk of the last line is appended once more after \<open>fgets\<close> has failed: the whole line when it has at most 65535
  bytes, and otherwise what is left of it after pieces of 65535.
\<close>

theorem import_reads_line:
  assumes "text_line xs"
  shows "fast_getline (xs @ 10 # rest) = Inr (True, xs @ [10], rest)
    \<and> fast_getline xs = (if xs = [] then Inr (False, [], [])
        else Inr (True, xs @ drop (65535 * ((length xs - 1) div 65535)) xs, []))"
  using fast_getline_line[OF assms] fast_getline_doubles[OF assms] fast_getline_end by simp

theorem import_reads_line_witness:
  "fast_getline (replicate 70000 97 @ 10 # [99]) = Inr (True, replicate 70000 97 @ [10], [99])
    \<and> fast_getline (replicate 70000 97) = Inr (True, replicate 70000 97 @ replicate 4465 97, [])"
proof -
  have "text_line (replicate 70000 97)" by (simp add: text_line_def)
  from import_reads_line[OF this, of "[99]"] show ?thesis by (simp add: length_0_conv[symmetric] del: length_0_conv)
qed

text \<open>
  C39. With no key or one key nothing is encoded, and \<open>compact\<close> asks \<open>realloc\<close> for no bytes: the buffer is freed,
  null is taken for a failure, and the buffer is copied from and freed again.
\<close>

theorem few_keys_free_twice:
  assumes "length keys \<le> 1" and "\<forall>k\<in>set keys. key_len \<le> length k"
  shows "rbind (new_entropy_trie mem n_mem key_len) (\<lambda>et. rbind (insert_keys keys et) et_flush) = Inl DoubleFree"
  by (rule flush_few[OF assms])

theorem few_keys_free_twice_witness:
  "\<forall>mem n_mem. rbind (new_entropy_trie mem n_mem 5) (\<lambda>et. rbind (insert_keys [[97, 97, 97, 97, 97, 0]] et) et_flush) = Inl DoubleFree"
  by (intro allI few_keys_free_twice) simp_all

text \<open>
  C40. \<open>flush\<close> appends to the bits of the flush before, and \<open>locate\<close> begins with them: the index answers for the first
  keys, whatever the second ones are.
\<close>

theorem second_flush_locates_first:
  assumes "keys_ok key_len keys" and "keys_ok key_len keys'" and "length keys' = length keys"
  shows "\<exists>et et'. rbind (new_entropy_trie mem n_mem key_len) (\<lambda>et. rbind (insert_keys keys et) et_flush) = Inr et
    \<and> rbind (insert_keys keys' et) et_flush = Inr et' \<and> (\<forall>i < length keys. et_locate (keys ! i) et' = Inr i)"
proof -
  obtain et where et: "rbind (new_entropy_trie mem n_mem key_len) (\<lambda>et. rbind (insert_keys keys et) et_flush) = Inr et"
    "index_of keys et" "et_key_len et = key_len" using index_built[OF assms(1)] by blast
  with second_flush[OF et(2) _ assms(3)] assms(2) index_locates_keys show ?thesis by metis
qed

theorem second_flush_locates_first_witness:
  "\<forall>mem n_mem. \<exists>et et'. rbind (new_entropy_trie mem n_mem 1) (\<lambda>et. rbind (insert_keys [[2], [4]] et) et_flush) = Inr et
    \<and> rbind (insert_keys [[4], [6]] et) et_flush = Inr et' \<and> et_locate [4] et' = Inr 1"
proof (intro allI)
  fix mem n_mem
  have "keys_ok 1 [[2], [4]]" "keys_ok 1 [[4], [6]]" "length [[4], [6 :: u8]] = length [[2], [4 :: u8]]"
    by (simp_all add: keys_ok_def)
  from second_flush_locates_first[OF this, of mem n_mem] obtain et et' where
    "rbind (new_entropy_trie mem n_mem 1) (\<lambda>et. rbind (insert_keys [[2], [4]] et) et_flush) = Inr et"
    "rbind (insert_keys [[4], [6]] et) et_flush = Inr et'" "\<forall>i < length [[2], [4 :: u8]]. et_locate ([[2], [4]] ! i) et' = Inr i"
    by blast
  moreover from this(3)[rule_format, of 1] have "et_locate [4] et' = Inr 1" by simp
  ultimately show "\<exists>et et'. rbind (new_entropy_trie mem n_mem 1) (\<lambda>et. rbind (insert_keys [[2], [4]] et) et_flush) = Inr et
    \<and> rbind (insert_keys [[4], [6]] et) et_flush = Inr et' \<and> et_locate [4] et' = Inr 1" by blast
qed

section \<open>Further facts of the components\<close>

text \<open>
  \<open>LazyOrSet\<close> delivers the union of its operands in increasing order and without duplicates, for
  ids between 1 and \<open>2^31 - 1\<close>.
\<close>

theorem lazy_or_drain:
  assumes "list_all2 cs_docs sets dss" and "\<Union>(set ` set dss) \<subseteq> or_range"
    and "xs = sorted_list_of_set (\<Union>(set ` set dss))" and "length xs < n"
  shows "drain (or_vtable cs_vtable) n (or_iter (map cs_iter sets)) = Some (Inr xs)"
  using or_docs_at[OF assms(1,2)] assms(3,4) by (intro cs_or.drain_at) simp_all

theorem lazy_or_drain_witness:
  "drain (or_vtable cs_vtable) 1 (or_iter (map cs_iter [new_compressed_set, new_compressed_set])) = Some (Inr [])"
  by (rule lazy_or_drain[where dss = "[[], []]"]) (simp_all add: cs_docs_new)

text \<open>
  \<open>LazyAndSet::find\<close> is membership in the intersection of the operands.
\<close>

theorem lazy_and_find:
  assumes "list_all2 cs_docs sets dss" and "sets \<noteq> []" and "val \<noteq> NO_MORE_DOCS"
  shows "and_find cs_vtable val (map cs_iter sets) = Inr (\<forall>ds\<in>set dss. val \<in> set ds)"
proof -
  from cs_and.advance_finds[OF and_docs_at[OF assms(1,2)] assms(3)] obtain d it where
    "and_Advance cs_vtable val (and_iter (map cs_iter sets)) = Inr (d, it)"
    "d \<noteq> NO_MORE_DOCS \<and> d = val \<longleftrightarrow> val \<in> set (sorted_list_of_set (\<Inter>(set ` set dss)))"
    by (auto simp: and_vtable_def)
  moreover have "finite (\<Inter>(set ` set dss))" by (rule finite_subset[OF subset_UNIV]) simp
  ultimately show ?thesis by (auto simp: and_find_def)
qed

theorem lazy_and_find_witness:
  "and_find cs_vtable 6 (map cs_iter [new_compressed_set]) = Inr (\<forall>ds\<in>set [[]]. (6 :: u32) \<in> set ds)"
  by (rule lazy_and_find) (simp_all add: cs_docs_new NO_MORE_DOCS_def)

text \<open>
  \<open>heapAdjust\<close> on a heap whose root was replaced by any item restores the heap order, keeps the items
  of the live part and leaves the finished iterators behind it alone.
\<close>

theorem heap_adjust_restores:
  assumes "heap_ok (heapSize it) h" and "0 < heapSize it" and "heapSize it \<le> length h" and "heap it = h[0 := x]"
  shows "heap_ok (heapSize it) (heap (heapAdjust it))
    \<and> mset (take (heapSize it) (heap (heapAdjust it))) = mset (take (heapSize it) (heap it))
    \<and> drop (heapSize it) (heap (heapAdjust it)) = drop (heapSize it) (heap it)"
proof -
  have root: "heap it ! 0 = x" "(heap it)[0 := x] = heap it" using assms by (cases h; simp)+
  have "heap_hole (heapSize it) ((heap it)[0 := x]) 0"
    using assms by (intro heap_hole_root[where h = h and sz = "heapSize it"]) auto
  from heap_sift_ok[OF this] root assms show ?thesis by (simp add: heapAdjust_def)
qed

theorem heap_adjust_restores_witness:
  "heap_ok 2 (heap (heapAdjust \<lparr>curDoc = 0, heap = [\<lparr>item_iter = (), item_doc = 9\<rparr>, \<lparr>item_iter = (), item_doc = 4\<rparr>], heapSize = 2\<rparr>))"
proof -
  let ?it = "\<lparr>curDoc = 0, heap = [\<lparr>item_iter = (), item_doc = 9\<rparr>, \<lparr>item_iter = (), item_doc = 4\<rparr>], heapSize = 2\<rparr>"
  have "heap_ok 2 [\<lparr>item_iter = (), item_doc = 1\<rparr>, \<lparr>item_iter = (), item_doc = 4\<rparr>]"
    by (auto simp: heap_ok_def int_doc_def less_2_cases_iff)
  then show ?thesis
    using heap_adjust_restores[of ?it "[\<lparr>item_iter = (), item_doc = 1\<rparr>, \<lparr>item_iter = (), item_doc = 4\<rparr>]"
        "\<lparr>item_iter = (), item_doc = 9\<rparr>"] by simp
qed

text \<open>
  The binary search the sets skip with: on a strictly increasing array and a range inside it, it
  ends, and returns the first index of the range whose id is not below the target, or -1.
\<close>

theorem binary_search_first:
  assumes "sorted_wrt (<) xs" and "start \<le> stop" and "stop < length xs"
  shows "if xs ! stop < target
    then binarySearchForFirstElementEqualOrLargerThanTarget xs start stop target = Inr (- 1)
    else (\<exists>i. binarySearchForFirstElementEqualOrLargerThanTarget xs start stop target = Inr (int i)
      \<and> start \<le> i \<and> i \<le> stop \<and> target \<le> xs ! i \<and> (\<forall>j. start \<le> j \<and> j < i \<longrightarrow> xs ! j < target))"
  using binarySearchForFirst_correct[OF assms, of target] by (auto simp: first_at_least_def)

theorem binary_search_first_witness:
  "if [2, 4, 8 :: u32] ! 2 < 5
    then binarySearchForFirstElementEqualOrLargerThanTarget [2, 4, 8] 0 2 5 = Inr (- 1)
    else (\<exists>i. binarySearchForFirstElementEqualOrLargerThanTarget [2, 4, 8] 0 2 5 = Inr (int i)
      \<and> 0 \<le> i \<and> i \<le> 2 \<and> 5 \<le> [2, 4, 8 :: u32] ! i \<and> (\<forall>j. 0 \<le> j \<and> j < i \<longrightarrow> [2, 4, 8 :: u32] ! j < 5))"
  by (rule binary_search_first) simp_all

text \<open>
  \<open>binarySearchForTarget\<close> ends on every range inside the array; it returns an index of the target
  in the range, or -1 if the target is not in it.
\<close>

theorem binary_search_target:
  assumes "sorted_wrt (<) vals" and "0 \<le> start" and "stop < int (length vals)"
  shows "\<exists>r. binarySearchForTarget vals start stop target = Inr r
    \<and> (if \<exists>i. start \<le> int i \<and> int i \<le> stop \<and> vals ! i = target
       then vals ! nat r = target \<and> start \<le> r \<and> r \<le> stop else r = - 1)"
  using binarySearchForTarget_correct[OF assms, of target] unfolding occurs_between_def .

theorem binary_search_target_witness:
  "\<exists>r. binarySearchForTarget [2, 4, 8] 0 2 4 = Inr r
    \<and> (if \<exists>i. 0 \<le> int i \<and> int i \<le> 2 \<and> [2, 4, 8 :: u32] ! i = 4
       then [2, 4, 8 :: u32] ! nat r = 4 \<and> 0 \<le> r \<and> r \<le> 2 else r = - 1)"
  by (rule binary_search_target) simp_all

text \<open>
  \<open>removeDoc\<close> walks over the set and builds one without the id; it ends and does not fail.
\<close>

theorem compressed_set_removeDoc:
  assumes "cs_docs s xs"
  shows "\<exists>s'. cs_removeDoc d s = Some (Inr s') \<and> cs_docs s' (removeAll d xs)"
  using assms by (rule cs_removeDoc_docs)

theorem compressed_set_removeDoc_witness:
  "\<exists>s'. cs_removeDoc 3 new_compressed_set = Some (Inr s') \<and> cs_docs s' (removeAll 3 [])"
  by (rule compressed_set_removeDoc[OF cs_docs_new])

text \<open>
  \<open>unorderedAdd\<close> of an id that is not in the set returns a set with that id added in its place.
\<close>

theorem compressed_set_unorderedAdd:
  assumes "cs_docs s xs" and "d \<notin> set xs" and "d \<noteq> NO_MORE_DOCS" and "length xs + 1 < 2 ^ 31"
  shows "\<exists>s' ys. cs_unorderedAdd d s = Some (Inr s') \<and> cs_docs s' ys \<and> set ys = insert d (set xs)"
  using assms by (rule cs_unorderedAdd_docs)

theorem compressed_set_unorderedAdd_witness:
  "\<exists>s' ys. cs_unorderedAdd 3 new_compressed_set = Some (Inr s') \<and> cs_docs s' ys \<and> set ys = insert 3 (set [])"
  by (rule compressed_set_unorderedAdd[OF cs_docs_new]) (simp_all add: NO_MORE_DOCS_def)

text \<open>
  \<open>isDense\<close> compares the span of the ids divided by their number with 8, and answers true when the
  ids are sparse: the comment above it means the opposite.
\<close>

theorem compressed_set_isDense:
  assumes "cs_docs s xs" and "xs \<noteq> []"
  shows "cs_isDense s = Some (Inr (8 < sint ((last xs - hd xs) div of_nat (length xs))))"
  using assms by (rule cs_isDense_docs)

theorem compressed_set_isDense_witness:
  "\<exists>s. cs_docs s [5] \<and> cs_isDense s = Some (Inr (8 < sint ((last [5] - hd [5 :: u32]) div of_nat (length [5 :: u32]))))"
proof -
  obtain s where s: "cs_docs s [5]"
    using cs_addDoc_docs[OF cs_docs_new, of 5] by (auto simp: NO_MORE_DOCS_def)
  with compressed_set_isDense[OF s] show ?thesis by auto
qed

text \<open>
  The store of compressed blocks is read back from a stream as it was written, whatever follows.
\<close>

theorem chunk_store_roundtrip:
  assumes "\<forall>c\<in>set (data2 st). chunk_inv c" and "length (data2 st) < 2 ^ 31"
  shows "store_read (store_write st @ s) = Inr (st, s)"
  using assms by (rule store_read_write)

theorem chunk_store_roundtrip_witness:
  "store_read (store_write \<lparr>data2 = [\<lparr>chunk_data = [1, 2], compressedSize = 2\<rparr>]\<rparr> @ [9])
     = Inr (\<lparr>data2 = [\<lparr>chunk_data = [1, 2], compressedSize = 2\<rparr>]\<rparr>, [9])"
  by (rule chunk_store_roundtrip) (simp_all add: chunk_inv_def)

text \<open>
  \<open>Set::equals\<close> pulls two iterators in step; on compressed sets it answers whether they hold the
  same ids, and ends.
\<close>

theorem set_equals_correct:
  assumes "cs_docs s xs" and "cs_docs t ys" and "length xs < n"
  shows "set_equals cs_vtable cs_vtable n (cs_iter s) (cs_iter t) = Some (Inr (xs = ys))"
  by (rule set_equals_at[OF cs.doc_stream_axioms cs.doc_stream_axioms cs_iter_at[OF assms(1)] cs_iter_at[OF assms(2)] assms(3)])

theorem set_equals_correct_witness:
  "set_equals cs_vtable cs_vtable 1 (cs_iter new_compressed_set) (cs_iter new_compressed_set) = Some (Inr ([] = ([] :: u32 list)))"
  by (rule set_equals_correct[OF cs_docs_new cs_docs_new]) simp

text \<open>
  Numbers of variable length: the unrolled \<open>EncodeVarint32\<close> writes the same bytes as the loop of
  \<open>EncodeVarint64\<close>, at most five of them, and \<open>GetVarint32\<close> reads the number back and stops after it,
  whatever follows.
\<close>

theorem varint_roundtrip:
  "EncodeVarint32 v = EncodeVarint64 (ucast v) \<and> length (EncodeVarint32 v) \<le> 5
    \<and> GetVarint32 (EncodeVarint32 v @ rest) x = (True, rest, v)"
proof -
  have "unat (ucast v :: u64) = unat v"
    by (simp add: unsigned_ucast_eq take_bit_nat_eq_self order_less_le_trans[OF unat_u32])
  moreover have "unat v < 128 ^ Suc 4" by (rule order_less_le_trans[OF unat_u32]) simp
  ultimately show ?thesis
    using length_base128[of "unat v" 4] by (simp add: EncodeVarint32_base128 EncodeVarint64_base128)
qed

text \<open>
  Two families of 33 generated functions: \<open>simdpackd1\<close>, which masks every difference, and
  \<open>simdpackwithoutmaskd1\<close>, which the codec calls.  On differences that fit the width they write the same
  registers.
\<close>

theorem masking_idle:
  assumes "length rs = 32" and "b \<le> 32"
    and "b < 32 \<longrightarrow> (\<forall>i<32. fits b (delta_regs (mm_set1_epi32 v) rs ! i))"
  shows "simdpackd1 v rs (of_nat b) = simdpackwithoutmaskd1 v rs (of_nat b)"
  using assms by (rule simdpackd1_unmasked)

theorem masking_idle_witness:
  "simdpackd1 7 (replicate 32 (mm_set1_epi32 7)) (of_nat 5) = simdpackwithoutmaskd1 7 (replicate 32 (mm_set1_epi32 7)) (of_nat 5)"
  by (rule masking_idle) (simp_all add: nth_delta_regs mm_set1_epi32_def Delta_M128 fits_def lane_cases)

text \<open>
  The codec with one width for the whole array, over the plain packers.  When one more register of the
  input may be read for the widths 4, 8 and 16, and the bit count of the array is below \<open>2^32\<close> (the
  offsets are computed in 32 bits), decoding gives the array and the rest of the stream.  What is
  written is longer than \<open>compressedSize\<close> says by the padding behind the header.
\<close>

theorem global_packing_roundtrip:
  assumes "128 dvd n" and "n \<le> length inp" and "maxbits (take n inp) \<in> {4, 8, 16} \<longrightarrow> n + 4 \<le> length inp"
    and "4 * maxbits (take n inp) * n < 2 ^ 32" and "n < 2 ^ 32" and "\<not> needPaddingTo128Bits outaddr"
  shows "\<exists>out. global_encodeArray addr inp n = Inr out
    \<and> 4 * length out = global_compressedSize (take n inp) + 4 * length (pad_loop (addr + 2))
    \<and> (\<forall>rest. global_decodeArray addr outaddr (out @ rest) = Inr (take n inp, rest, n))"
  by (rule global_roundtrip[OF assms])

theorem global_packing_roundtrip_witness:
  "\<exists>out. global_encodeArray 0 (replicate 128 5) 128 = Inr out
    \<and> 4 * length out = global_compressedSize (take 128 (replicate 128 5)) + 4 * length (pad_loop (0 + 2))
    \<and> (\<forall>rest. global_decodeArray 0 0 (out @ rest) = Inr (take 128 (replicate 128 5), rest, 128))"
proof (rule global_packing_roundtrip)
  have "maxbits (replicate 128 5) = 3" by code_simp
  then show "maxbits (take 128 (replicate 128 5)) \<in> {4, 8, 16} \<longrightarrow> 128 + 4 \<le> length (replicate 128 5)"
    and "4 * maxbits (take 128 (replicate 128 5)) * 128 < 2 ^ 32" by simp_all
qed (simp_all add: needPaddingTo128Bits_def)

text \<open>
  \<open>simdmaxbitsd1\<close> of \<^verbatim>\<open>simdcomputil.c\<close> on any block of 32 registers: the width it returns is at most 32, the
  differences fit a width \<open>b\<close> exactly when \<open>b\<close> is not below it, and it is enough for the integrated packers.
\<close>

theorem least_delta_width:
  assumes "length rs = 32"
  shows "\<exists>m out. simdmaxbitsd1 v rs = Inr m \<and> m \<le> 32
    \<and> (\<forall>b. m \<le> b \<longleftrightarrow> (\<forall>i<32. fits b (delta_regs (mm_set1_epi32 v) rs ! i)))
    \<and> simdpackwithoutmaskd1 v rs (of_nat m) = Some out \<and> length out = m
    \<and> (\<forall>rest. simdunpackd1 v (out @ rest) (of_nat m) = Some rs)"
  using simdmaxbitsd1_least[OF assms, of v] simdmaxbitsd1_packs[OF assms, of v] by auto

theorem least_delta_width_witness:
  "\<exists>m out. simdmaxbitsd1 7 (replicate 32 (mm_set1_epi32 9)) = Inr m \<and> m \<le> 32
    \<and> (\<forall>b. m \<le> b \<longleftrightarrow> (\<forall>i<32. fits b (delta_regs (mm_set1_epi32 7) (replicate 32 (mm_set1_epi32 9)) ! i)))
    \<and> simdpackwithoutmaskd1 7 (replicate 32 (mm_set1_epi32 9)) (of_nat m) = Some out \<and> length out = m
    \<and> (\<forall>rest. simdunpackd1 7 (out @ rest) (of_nat m) = Some (replicate 32 (mm_set1_epi32 9)))"
  by (rule least_delta_width) simp

text \<open>
  \<open>Statistics\<close> after a list of queries: \<open>getTopQueries(k)\<close> has an entry for each of the \<open>k\<close> highest numbers
  of times a query was asked, largest first, with the set of the queries asked so often; in which order the
  hash table is iterated does not matter.
\<close>

theorem top_queries:
  assumes "set order = set qs" and "length qs < 2 ^ 32"
  shows "getTopQueries k order (fold addQuery qs new_statistics)
    = map (\<lambda>n. (of_nat n, {q\<in>set qs. count_list qs q = n}))
        (take (unat k) (rev (sorted_list_of_set (count_list qs ` set qs))))"
  by (rule top_queries_of_log[OF assms])

theorem top_queries_witness:
  "getTopQueries 1 [[97], [98]] (fold addQuery [[97 :: u8], [98], [97]] new_statistics)
    = map (\<lambda>n. (of_nat n, {q\<in>set [[97 :: u8], [98], [97]]. count_list [[97 :: u8], [98], [97]] q = n}))
        (take (unat (1 :: u32)) (rev (sorted_list_of_set (count_list [[97 :: u8], [98], [97]] ` set [[97 :: u8], [98], [97]]))))"
  by (rule top_queries) auto

end
